(* ===== verification/Prelude.thy ===== *)
theory Prelude
  imports Main "HOL-Library.Word"
begin

text \<open>
  Shared vocabulary of the development: the machine integers of the 32-bit kernel, the
  constants of \<open>src/kernel/kernel.h\<close> that several components use, and generic lemmas on
  words and lists. A pointer is a \<open>32 word\<close> and \<open>NULL\<close> is 0; \<open>size_t\<close> is \<open>uint32_t\<close> on this
  target.
\<close>

unbundle bit_operations_syntax

section \<open>Machine integers and kernel constants\<close>

type_synonym u8 = "8 word"
type_synonym u16 = "16 word"
type_synonym u32 = "32 word"

abbreviation NULL :: u32 where
  "NULL \<equiv> 0"

abbreviation PAGE_SIZE :: u32 where
  "PAGE_SIZE \<equiv> 4096"

abbreviation MEMORY_LIMIT :: u32 where
  "MEMORY_LIMIT \<equiv> 0x08000000"

text \<open>Rewrite rules that move word goals to natural numbers.\<close>

named_theorems unat_simps

lemma unat_u32_bound [simp]: "unat (w :: u32) < 4294967296"
  using unsigned_less [of w, where ?'a = nat] by simp

section \<open>Counting loops on words\<close>

lemma unat_Suc_less: "i < n \<Longrightarrow> unat (i + 1 :: 'a::len word) = Suc (unat i)"
proof -
  assume "i < n"
  then have "i \<noteq> - 1" by (auto simp: not_less[symmetric])
  then show ?thesis by (metis add.commute add_eq_0_iff2 unatSuc)
qed

lemma loop_measure: "i < n \<Longrightarrow> unat n - unat (i + 1 :: 'a::len word) < unat n - unat i"
  by (simp add: unat_Suc_less word_less_nat_alt)

lemma less_inc_iff: "i < n \<Longrightarrow> j < i + 1 \<longleftrightarrow> j \<le> (i :: 'a::len word)"
  by (simp add: word_less_nat_alt word_le_nat_alt unat_Suc_less less_Suc_eq_le)

lemma inc_le_iff: "i < n \<Longrightarrow> i + 1 \<le> j \<longleftrightarrow> (i :: 'a::len word) < j"
  using less_inc_iff [of i n j] by (meson not_le)

lemma word_interval_insert: "i < n \<Longrightarrow> {i..<n} = insert i {i + 1..<(n :: 'a::len word)}"
  by (auto simp: inc_le_iff)

section \<open>Frame numbers and addresses\<close>

lemma unat_frame_addr: "b < 0x100000 \<Longrightarrow> unat (b * PAGE_SIZE) = unat b * 4096"
  by (simp add: unat_word_ariths word_less_nat_alt)

lemma frame_addr_div: "b < 0x100000 \<Longrightarrow> (b * PAGE_SIZE) div PAGE_SIZE = b"
  by (simp add: word_unat_eq_iff unat_div_distrib unat_frame_addr)

lemma and_not_mask_shift: "(a :: 'a::len word) AND NOT (mask n) = push_bit n (drop_bit n a)"
  by (rule bit_word_eqI) (auto simp: bit_simps)

lemma page_mask: "(4095 :: u32) = mask 12"
  by (simp add: mask_eq_exp_minus_1)

lemma and_page_mask [unat_simps]: "(a :: u32) AND 4095 = a mod PAGE_SIZE"
  by (simp only: page_mask take_bit_eq_mask [symmetric] take_bit_eq_mod) simp

lemma and_not_page_mask [unat_simps]: "(a :: u32) AND NOT 4095 = a div PAGE_SIZE * PAGE_SIZE"
proof -
  have "a AND NOT 4095 = push_bit 12 (drop_bit 12 a)"
    unfolding page_mask by (rule and_not_mask_shift)
  then show ?thesis by (simp add: push_bit_eq_mult drop_bit_eq_div)
qed

lemma and_neg_page [unat_simps]: "(a :: u32) AND - PAGE_SIZE = a div PAGE_SIZE * PAGE_SIZE"
  using and_not_page_mask [of a] by simp

lemma u32_div_page_bound: "(a :: u32) div PAGE_SIZE < 0x100000"
proof -
  have "unat a div 4096 < 1048576"
    using unat_u32_bound [of a] by (simp add: less_mult_imp_div_less)
  then show ?thesis by (simp add: word_less_nat_alt unat_div_distrib)
qed

lemma page_round_div [simp]: "(a :: u32) div PAGE_SIZE * PAGE_SIZE div PAGE_SIZE = a div PAGE_SIZE"
  by (rule frame_addr_div) (rule u32_div_page_bound)

lemma page_aligned_diff:
  assumes "(a :: u32) = k * PAGE_SIZE" "b = l * PAGE_SIZE" "k < 0x100000" "l < 0x100000" "a \<le> b"
  shows "k \<le> l" "(b - a) div PAGE_SIZE = l - k"
proof -
  have kl: "unat k \<le> unat l"
    using assms by (simp add: word_le_nat_alt unat_frame_addr)
  then show "k \<le> l" by (simp add: word_le_nat_alt)
  have "b - a = (l - k) * PAGE_SIZE" by (simp add: assms algebra_simps)
  moreover have "l - k < 0x100000"
    using kl assms(4) by (simp add: word_less_nat_alt word_le_nat_alt unat_sub)
  ultimately show "(b - a) div PAGE_SIZE = l - k" by (simp only: frame_addr_div)
qed

section \<open>Bytes\<close>

text \<open>A property of bytes can be checked on all 256 of them.\<close>

lemma u8_cases: "list_all (\<lambda>n. P (word_of_nat n :: u8)) [0..<256] \<Longrightarrow> P b"
proof -
  assume "list_all (\<lambda>n. P (word_of_nat n :: u8)) [0..<256]"
  moreover have "unat b < 256" using unsigned_less [of b, where ?'a = nat] by simp
  ultimately show ?thesis by (auto simp: list_all_iff dest!: bspec [where x = "unat b"])
qed

end
