(* ===== verification/Pmm.thy ===== *)
theory Pmm
  imports Prelude
begin

text \<open>
  The physical memory manager of \<open>src/mm/pmm.c\<close>: a bitmap with one bit per 4 KB frame, the
  counters \<open>used_blocks\<close> and \<open>max_blocks\<close>, and the operations on them. The C array of 1024
  \<open>uint32_t\<close> is a list; \<open>pmm_inv\<close> keeps every index in range. \<open>frame_allocator\<close> is the
  interface the heap and the virtual memory manager rely on.
\<close>

unbundle bit_operations_syntax

section \<open>State and operations\<close>

record pmm_state =
  pmm_bitmap :: "u32 list"
  used_blocks :: u32
  max_blocks :: u32

definition bitmap_set :: "u32 \<Rightarrow> pmm_state \<Rightarrow> pmm_state" where
  "bitmap_set b s = s\<lparr>pmm_bitmap := (pmm_bitmap s)[unat (drop_bit 5 b) :=
     (pmm_bitmap s ! unat (drop_bit 5 b)) OR push_bit (unat (b AND 31)) 1]\<rparr>"

definition bitmap_unset :: "u32 \<Rightarrow> pmm_state \<Rightarrow> pmm_state" where
  "bitmap_unset b s = s\<lparr>pmm_bitmap := (pmm_bitmap s)[unat (drop_bit 5 b) :=
     (pmm_bitmap s ! unat (drop_bit 5 b)) AND NOT (push_bit (unat (b AND 31)) 1)]\<rparr>"

definition bitmap_test :: "pmm_state \<Rightarrow> u32 \<Rightarrow> bool" where
  "bitmap_test s b \<longleftrightarrow>
     (pmm_bitmap s ! unat (drop_bit 5 b)) AND push_bit (unat (b AND 31)) 1 \<noteq> 0"

definition pmm_init :: "u32 \<Rightarrow> pmm_state \<Rightarrow> pmm_state" where
  "pmm_init mem_size s = s\<lparr>max_blocks := mem_size div PAGE_SIZE,
     used_blocks := mem_size div PAGE_SIZE,
     pmm_bitmap := replicate 1024 0xFFFFFFFF\<rparr>"

function pmm_alloc_loop :: "u32 \<Rightarrow> pmm_state \<Rightarrow> u32 \<times> pmm_state" where
  "pmm_alloc_loop i s =
     (if i < max_blocks s then
        (if \<not> bitmap_test s i then
           (let s = bitmap_set i s; s = s\<lparr>used_blocks := used_blocks s + 1\<rparr>
            in (i * PAGE_SIZE, s))
         else pmm_alloc_loop (i + 1) s)
      else (NULL, s))"
  by pat_completeness auto
termination
  by (relation "measure (\<lambda>(i, s). unat (max_blocks s) - unat i)") (auto simp: loop_measure)

declare pmm_alloc_loop.simps [simp del]

definition pmm_alloc_block :: "pmm_state \<Rightarrow> u32 \<times> pmm_state" where
  "pmm_alloc_block s =
     (if used_blocks s \<ge> max_blocks s then (NULL, s) else pmm_alloc_loop 0 s)"

definition pmm_free_block :: "u32 \<Rightarrow> pmm_state \<Rightarrow> pmm_state" where
  "pmm_free_block addr s =
     (let b = addr div PAGE_SIZE in
      if b \<ge> max_blocks s then s
      else if bitmap_test s b then
        (let s = bitmap_unset b s in s\<lparr>used_blocks := used_blocks s - 1\<rparr>)
      else s)"

function pmm_init_region_loop :: "u32 \<Rightarrow> u32 \<Rightarrow> u32 \<Rightarrow> pmm_state \<Rightarrow> pmm_state" where
  "pmm_init_region_loop start blocks i s =
     (if i < blocks then
        (let b = start + i;
             s = (if b < max_blocks s \<and> bitmap_test s b then
                    (let s = bitmap_unset b s in s\<lparr>used_blocks := used_blocks s - 1\<rparr>)
                  else s)
         in pmm_init_region_loop start blocks (i + 1) s)
      else s)"
  by pat_completeness auto
termination
  by (relation "measure (\<lambda>(start, blocks, i, s). unat blocks - unat i)") (auto simp: loop_measure)

declare pmm_init_region_loop.simps [simp del]

definition pmm_init_region :: "u32 \<Rightarrow> u32 \<Rightarrow> pmm_state \<Rightarrow> pmm_state" where
  "pmm_init_region base sz s =
     (let start = (base + PAGE_SIZE - 1) div PAGE_SIZE; blocks = sz div PAGE_SIZE
      in pmm_init_region_loop start blocks 0 s)"

function pmm_deinit_region_loop :: "u32 \<Rightarrow> u32 \<Rightarrow> u32 \<Rightarrow> pmm_state \<Rightarrow> pmm_state" where
  "pmm_deinit_region_loop start blocks i s =
     (if i < blocks then
        (let b = start + i;
             s = (if b < max_blocks s \<and> \<not> bitmap_test s b then
                    (let s = bitmap_set b s in s\<lparr>used_blocks := used_blocks s + 1\<rparr>)
                  else s)
         in pmm_deinit_region_loop start blocks (i + 1) s)
      else s)"
  by pat_completeness auto
termination
  by (relation "measure (\<lambda>(start, blocks, i, s). unat blocks - unat i)") (auto simp: loop_measure)

declare pmm_deinit_region_loop.simps [simp del]

definition pmm_deinit_region :: "u32 \<Rightarrow> u32 \<Rightarrow> pmm_state \<Rightarrow> pmm_state" where
  "pmm_deinit_region base sz s =
     (let start = base div PAGE_SIZE; blocks = sz div PAGE_SIZE
      in pmm_deinit_region_loop start blocks 0 s)"

definition pmm_get_used_blocks :: "pmm_state \<Rightarrow> u32" where
  "pmm_get_used_blocks s = used_blocks s"

definition pmm_get_free_blocks :: "pmm_state \<Rightarrow> u32" where
  "pmm_get_free_blocks s = max_blocks s - used_blocks s"

definition pmm_get_total_blocks :: "pmm_state \<Rightarrow> u32" where
  "pmm_get_total_blocks s = max_blocks s"

section \<open>The bitmap as a set of free frames\<close>

lemma unat_word_index: "unat (drop_bit 5 (b :: u32)) = unat b div 32"
  by (simp add: drop_bit_eq_div unat_div_distrib)

lemma unat_bit_index: "unat ((b :: u32) AND 31) = unat b mod 32"
proof -
  have "b AND 31 = take_bit 5 b"
    by (simp add: take_bit_eq_mask mask_eq_exp_minus_1)
  then show ?thesis
    by (simp add: take_bit_eq_mod unat_mod_distrib)
qed

lemma and_single_bit [simp]: "((x :: u32) AND 2 ^ n = 0) \<longleftrightarrow> \<not> bit x n"
  by (rule and_exp_eq_0_iff_not_bit)

lemma bitmap_test_bit:
  "bitmap_test s b \<longleftrightarrow> bit (pmm_bitmap s ! (unat b div 32)) (unat b mod 32)"
  by (simp add: bitmap_test_def unat_word_index unat_bit_index)

lemma frame_eq_iff: "(c :: u32) = b \<longleftrightarrow> unat c div 32 = unat b div 32 \<and> unat c mod 32 = unat b mod 32"
  by (metis div_mult_mod_eq unsigned_word_eqI)

lemma bitmap_set_fields [simp]:
  "used_blocks (bitmap_set b s) = used_blocks s" "max_blocks (bitmap_set b s) = max_blocks s"
  "length (pmm_bitmap (bitmap_set b s)) = length (pmm_bitmap s)"
  by (simp_all add: bitmap_set_def)

lemma bitmap_unset_fields [simp]:
  "used_blocks (bitmap_unset b s) = used_blocks s" "max_blocks (bitmap_unset b s) = max_blocks s"
  "length (pmm_bitmap (bitmap_unset b s)) = length (pmm_bitmap s)"
  by (simp_all add: bitmap_unset_def)

lemma bitmap_test_used [simp]: "bitmap_test (s\<lparr>used_blocks := u\<rparr>) b = bitmap_test s b"
  by (simp add: bitmap_test_def)

lemma bitmap_test_set:
  assumes "unat b div 32 < length (pmm_bitmap s)"
  shows "bitmap_test (bitmap_set b s) c \<longleftrightarrow> c = b \<or> bitmap_test s c"
  using assms
  by (auto simp: bitmap_test_bit bitmap_set_def unat_word_index unat_bit_index nth_list_update
      bit_or_iff bit_exp_iff frame_eq_iff)

lemma bitmap_test_unset:
  assumes "unat b div 32 < length (pmm_bitmap s)"
  shows "bitmap_test (bitmap_unset b s) c \<longleftrightarrow> c \<noteq> b \<and> bitmap_test s c"
  using assms
  by (auto simp: bitmap_test_bit bitmap_unset_def unat_word_index unat_bit_index nth_list_update
      bit_and_iff bit_not_iff bit_exp_iff frame_eq_iff)

text \<open>The abstract state: the frames below \<open>max_blocks\<close> whose bit is clear.\<close>

definition free_frames :: "pmm_state \<Rightarrow> u32 set" where
  "free_frames s = {b. b < max_blocks s \<and> \<not> bitmap_test s b}"

definition pmm_inv :: "pmm_state \<Rightarrow> bool" where
  "pmm_inv s \<longleftrightarrow> length (pmm_bitmap s) = 1024 \<and> max_blocks s \<le> 32768 \<and>
     unat (used_blocks s) + card (free_frames s) = unat (max_blocks s)"

lemma finite_free_frames [simp, intro]: "finite (free_frames s)"
  by (rule finite_subset [OF subset_UNIV]) simp

lemma card_frames_below: "card {b :: u32. b < n} = unat n"
proof -
  have "{b :: u32. b < n} = word_of_nat ` {..<unat n}"
    by (force simp: word_less_nat_alt unat_of_nat image_iff intro: bexI [where x = "unat x" for x])
  moreover have "inj_on (word_of_nat :: nat \<Rightarrow> u32) {..<unat n}"
    by (rule inj_on_subset [OF inj_on_word_of_nat]) (auto intro: less_trans [OF _ unat_u32_bound])
  ultimately show ?thesis by (simp add: card_image)
qed

lemma frame_in_range:
  assumes "pmm_inv s" "b < max_blocks s"
  shows "unat b div 32 < length (pmm_bitmap s)"
proof -
  have "unat b < 32768"
    using assms by (auto simp: pmm_inv_def word_less_nat_alt word_le_nat_alt)
  then show ?thesis using assms by (simp add: pmm_inv_def)
qed

lemma frame_bound: "b \<in> free_frames s \<Longrightarrow> b < max_blocks s"
  by (simp add: free_frames_def)

text \<open>How the two bitmap updates move a frame in and out of the free set.\<close>

lemma free_frames_set:
  assumes "pmm_inv s" "b < max_blocks s"
  shows "free_frames (bitmap_set b s\<lparr>used_blocks := u\<rparr>) = free_frames s - {b}"
  using bitmap_test_set [OF frame_in_range [OF assms]] by (auto simp: free_frames_def)

lemma free_frames_unset:
  assumes "pmm_inv s" "b < max_blocks s"
  shows "free_frames (bitmap_unset b s\<lparr>used_blocks := u\<rparr>) = insert b (free_frames s)"
  using assms bitmap_test_unset [OF frame_in_range [OF assms]] by (auto simp: free_frames_def)

lemma free_frames_card_le: "pmm_inv s \<Longrightarrow> unat (used_blocks s) \<le> unat (max_blocks s)"
  by (simp add: pmm_inv_def)

lemma unat_small_Suc: "unat (w :: u32) < 2 ^ 32 - 1 \<Longrightarrow> unat (w + 1) = Suc (unat w)"
  by (simp add: unat_word_ariths)

lemma take_frame_inv:
  assumes inv: "pmm_inv s" and b: "b \<in> free_frames s"
  shows "pmm_inv (bitmap_set b s\<lparr>used_blocks := used_blocks s + 1\<rparr>)"
proof -
  from b have lt: "b < max_blocks s" by (simp add: free_frames_def)
  have "card (free_frames s) > 0" using b by (auto simp: card_gt_0_iff)
  then have used: "unat (used_blocks s) < unat (max_blocks s)"
    using inv by (simp add: pmm_inv_def)
  moreover have "unat (max_blocks s) \<le> 32768"
    using inv by (simp add: pmm_inv_def word_le_nat_alt)
  ultimately have "unat (used_blocks s + 1) = Suc (unat (used_blocks s))"
    by (simp add: unat_word_ariths)
  then show ?thesis
    using inv b \<open>card (free_frames s) > 0\<close> free_frames_set [OF inv lt] by (simp add: pmm_inv_def)
qed

lemma give_frame_inv:
  assumes inv: "pmm_inv s" and lt: "b < max_blocks s" and t: "bitmap_test s b"
  shows "pmm_inv (bitmap_unset b s\<lparr>used_blocks := used_blocks s - 1\<rparr>)"
proof -
  from t have nb: "b \<notin> free_frames s" by (simp add: free_frames_def)
  have "free_frames s \<subset> {c. c < max_blocks s}"
    using nb lt by (auto simp: free_frames_def)
  then have "card (free_frames s) < unat (max_blocks s)"
    using psubset_card_mono [of "{c. c < max_blocks s}"] by (simp add: card_frames_below)
  then have "0 < unat (used_blocks s)" using inv by (simp add: pmm_inv_def)
  then have "unat (used_blocks s - 1) = unat (used_blocks s) - 1"
    by unat_arith
  then show ?thesis
    using inv nb \<open>0 < unat (used_blocks s)\<close> free_frames_unset [OF inv lt]
    by (simp add: pmm_inv_def)
qed

section \<open>Correctness of the operations\<close>

lemma alloc_loop_spec:
  assumes "\<forall>j < i. j < max_blocks s \<longrightarrow> bitmap_test s j"
  shows "pmm_alloc_loop i s =
    (if free_frames s = {} then (NULL, s)
     else (let b = Min (free_frames s)
           in (b * PAGE_SIZE, bitmap_set b s\<lparr>used_blocks := used_blocks s + 1\<rparr>)))"
  using assms
proof (induction i s rule: pmm_alloc_loop.induct)
  case (1 i s)
  show ?case
  proof (cases "i < max_blocks s \<and> bitmap_test s i")
    case True
    have "\<forall>j < i + 1. j < max_blocks s \<longrightarrow> bitmap_test s j"
      using "1.prems" True by (auto simp: less_inc_iff le_less)
    with "1.IH" True show ?thesis by (subst pmm_alloc_loop.simps) simp
  next
    case False
    show ?thesis
    proof (cases "i < max_blocks s")
      case True
      with False have free: "i \<in> free_frames s" by (simp add: free_frames_def)
      moreover have "Min (free_frames s) = i"
        using free "1.prems" by (intro Min_eqI) (auto simp: free_frames_def not_less[symmetric])
      ultimately show ?thesis
        using True False by (subst pmm_alloc_loop.simps) (auto simp: Let_def)
    next
      case False
      with "1.prems" have "free_frames s = {}" by (auto simp: free_frames_def)
      with False show ?thesis by (subst pmm_alloc_loop.simps) simp
    qed
  qed
qed

text \<open>
  Allocation as the specification has it: the lowest free frame, or \<open>NULL\<close> when there is none.
\<close>

lemma alloc_block_spec:
  assumes "pmm_inv s"
  shows "pmm_alloc_block s =
    (if free_frames s = {} then (NULL, s)
     else (let b = Min (free_frames s)
           in (b * PAGE_SIZE, bitmap_set b s\<lparr>used_blocks := used_blocks s + 1\<rparr>)))"
proof -
  have "used_blocks s \<ge> max_blocks s \<longleftrightarrow> card (free_frames s) = 0"
    using assms unfolding pmm_inv_def word_le_nat_alt by linarith
  then show ?thesis
    using alloc_loop_spec [of 0 s] by (simp add: pmm_alloc_block_def)
qed

lemma alloc_block_cases:
  assumes "pmm_inv s" "pmm_alloc_block s = (p, s')"
  obtains (full) "free_frames s = {}" "p = NULL" "s' = s"
  | (frame) b where "b \<in> free_frames s" "\<forall>c \<in> free_frames s. b \<le> c" "p = b * PAGE_SIZE"
      "s' = bitmap_set b s\<lparr>used_blocks := used_blocks s + 1\<rparr>" "free_frames s' = free_frames s - {b}"
proof (cases "free_frames s = {}")
  case True
  with assms show ?thesis by (simp add: alloc_block_spec full)
next
  case False
  then obtain b where b: "b \<in> free_frames s" "b = Min (free_frames s)" by simp
  have "\<forall>c \<in> free_frames s. b \<le> c" by (simp add: b)
  moreover have "p = b * PAGE_SIZE" "s' = bitmap_set b s\<lparr>used_blocks := used_blocks s + 1\<rparr>"
    using assms False b by (auto simp: alloc_block_spec Let_def)
  ultimately show ?thesis
    using frame [OF b(1)] free_frames_set [OF assms(1) frame_bound [OF b(1)]] by simp
qed

lemma alloc_block_inv:
  assumes "pmm_inv s" "pmm_alloc_block s = (p, s')"
  shows "pmm_inv s'"
  using assms by (cases rule: alloc_block_cases) (simp_all add: assms(1) take_frame_inv)

lemma free_block_inv: "pmm_inv s \<Longrightarrow> pmm_inv (pmm_free_block p s)"
  by (auto simp: pmm_free_block_def Let_def give_frame_inv not_le)

lemma free_block_frames:
  "pmm_inv s \<Longrightarrow> free_frames (pmm_free_block p s) =
     free_frames s \<union> {b. b = p div PAGE_SIZE \<and> b < max_blocks s}"
  by (auto simp: pmm_free_block_def Let_def free_frames_unset not_le) (auto simp: free_frames_def)

lemma alloc_block_max:
  "pmm_inv s \<Longrightarrow> pmm_alloc_block s = (p, s') \<Longrightarrow> max_blocks s' = max_blocks s"
  by (auto simp: alloc_block_spec Let_def split: if_splits)

lemma free_block_max [simp]: "max_blocks (pmm_free_block p s) = max_blocks s"
  by (simp add: pmm_free_block_def Let_def)

lemma init_region_loop_spec:
  "pmm_inv s \<Longrightarrow> pmm_inv (pmm_init_region_loop start blocks i s) \<and>
     max_blocks (pmm_init_region_loop start blocks i s) = max_blocks s \<and>
     free_frames (pmm_init_region_loop start blocks i s) =
       free_frames s \<union> {b \<in> (+) start ` {i..<blocks}. b < max_blocks s}"
proof (induction start blocks i s rule: pmm_init_region_loop.induct)
  case (1 start blocks i s)
  show ?case
  proof (cases "i < blocks")
    case True
    define s1 where "s1 = (if start + i < max_blocks s \<and> bitmap_test s (start + i)
      then bitmap_unset (start + i) s\<lparr>used_blocks := used_blocks s - 1\<rparr> else s)"
    have s1: "pmm_inv s1" "max_blocks s1 = max_blocks s"
      "free_frames s1 = free_frames s \<union> {b. b = start + i \<and> b < max_blocks s}"
      using "1.prems" give_frame_inv free_frames_unset
      by (auto simp: s1_def) (auto simp: free_frames_def)
    have "pmm_init_region_loop start blocks i s = pmm_init_region_loop start blocks (i + 1) s1"
      using True by (subst pmm_init_region_loop.simps) (simp add: s1_def Let_def)
    with "1.IH" [OF True refl, of s1] s1 word_interval_insert [OF True] True
    show ?thesis by (auto simp: s1_def Let_def)
  next
    case False
    then show ?thesis using "1.prems" by (subst (1 2 3) pmm_init_region_loop.simps) auto
  qed
qed

lemma deinit_region_loop_spec:
  "pmm_inv s \<Longrightarrow> pmm_inv (pmm_deinit_region_loop start blocks i s) \<and>
     max_blocks (pmm_deinit_region_loop start blocks i s) = max_blocks s \<and>
     free_frames (pmm_deinit_region_loop start blocks i s) =
       free_frames s - (+) start ` {i..<blocks}"
proof (induction start blocks i s rule: pmm_deinit_region_loop.induct)
  case (1 start blocks i s)
  show ?case
  proof (cases "i < blocks")
    case True
    define s1 where "s1 = (if start + i < max_blocks s \<and> \<not> bitmap_test s (start + i)
      then bitmap_set (start + i) s\<lparr>used_blocks := used_blocks s + 1\<rparr> else s)"
    have s1: "pmm_inv s1" "max_blocks s1 = max_blocks s" "free_frames s1 = free_frames s - {start + i}"
      using "1.prems" take_frame_inv free_frames_set
      by (auto simp: s1_def) (auto simp: free_frames_def)
    have "pmm_deinit_region_loop start blocks i s = pmm_deinit_region_loop start blocks (i + 1) s1"
      using True by (subst pmm_deinit_region_loop.simps) (simp add: s1_def Let_def)
    with "1.IH" [OF True refl, of s1] s1 word_interval_insert [OF True] True
    show ?thesis by (auto simp: s1_def Let_def)
  next
    case False
    then show ?thesis using "1.prems" by (subst (1 2 3) pmm_deinit_region_loop.simps) auto
  qed
qed

lemma init_region_spec:
  "pmm_inv s \<Longrightarrow> pmm_inv (pmm_init_region base sz s) \<and>
     max_blocks (pmm_init_region base sz s) = max_blocks s \<and>
     free_frames (pmm_init_region base sz s) = free_frames s \<union>
       {b \<in> (+) ((base + PAGE_SIZE - 1) div PAGE_SIZE) ` {0..<sz div PAGE_SIZE}. b < max_blocks s}"
  by (simp add: pmm_init_region_def Let_def init_region_loop_spec)

lemma deinit_region_spec:
  "pmm_inv s \<Longrightarrow> pmm_inv (pmm_deinit_region base sz s) \<and>
     max_blocks (pmm_deinit_region base sz s) = max_blocks s \<and>
     free_frames (pmm_deinit_region base sz s) =
       free_frames s - (+) (base div PAGE_SIZE) ` {0..<sz div PAGE_SIZE}"
  by (simp add: pmm_deinit_region_def Let_def deinit_region_loop_spec)

lemma pmm_init_spec:
  assumes "mem_size \<le> MEMORY_LIMIT"
  shows "pmm_inv (pmm_init mem_size s)" "free_frames (pmm_init mem_size s) = {}"
    "max_blocks (pmm_init mem_size s) = mem_size div PAGE_SIZE"
proof -
  have le: "mem_size div PAGE_SIZE \<le> 32768"
    using assms by (simp add: word_le_nat_alt unat_div_distrib)
  have bits: "bit (0xFFFFFFFF :: u32) n \<longleftrightarrow> n < 32" for n
  proof -
    have "(0xFFFFFFFF :: u32) = - 1" by simp
    then show ?thesis by (simp only: bit_minus_1_iff possible_bit_word) simp
  qed
  have "bitmap_test (pmm_init mem_size s) b" if "b < mem_size div PAGE_SIZE" for b
  proof -
    have "unat b < 32768" using that le by (simp add: word_less_nat_alt word_le_nat_alt)
    then show ?thesis by (simp add: bitmap_test_bit pmm_init_def bits del: bit_numeral_word_iff)
  qed
  then show free: "free_frames (pmm_init mem_size s) = {}"
    by (auto simp: free_frames_def pmm_init_def)
  show "max_blocks (pmm_init mem_size s) = mem_size div PAGE_SIZE"
    by (simp add: pmm_init_def)
  show "pmm_inv (pmm_init mem_size s)"
    using le free by (simp add: pmm_inv_def) (simp add: pmm_init_def)
qed

section \<open>The interface of the allocator\<close>

text \<open>
  What the heap and the virtual memory manager rely on. \<open>avail\<close> is the set of free frame
  numbers; a request takes one frame out of it, returning the frame's address, and a release
  puts one back.
\<close>

fun alloc_seq :: "('s \<Rightarrow> u32 \<times> 's) \<Rightarrow> nat \<Rightarrow> 's \<Rightarrow> u32 list \<times> 's" where
  "alloc_seq f 0 s = ([], s)"
| "alloc_seq f (Suc n) s = (let (p, s) = f s; (ps, s) = alloc_seq f n s in (p # ps, s))"

locale frame_allocator =
  fixes alloc :: "'s \<Rightarrow> u32 \<times> 's"
    and release :: "u32 \<Rightarrow> 's \<Rightarrow> 's"
    and inv :: "'s \<Rightarrow> bool"
    and avail :: "'s \<Rightarrow> u32 set"
  assumes avail_bound: "inv s \<Longrightarrow> b \<in> avail s \<Longrightarrow> b < 0x100000"
    and alloc_full: "inv s \<Longrightarrow> avail s = {} \<Longrightarrow> alloc s = (NULL, s)"
    and alloc_frame: "inv s \<Longrightarrow> avail s \<noteq> {} \<Longrightarrow> alloc s = (p, s') \<Longrightarrow>
          \<exists>b \<in> avail s. p = b * PAGE_SIZE \<and> avail s' = avail s - {b} \<and> inv s'"
    and release_inv: "inv s \<Longrightarrow> inv (release p s)"
    and release_avail: "inv s \<Longrightarrow> avail s \<subseteq> avail (release p s) \<and>
          avail (release p s) \<subseteq> insert (p div PAGE_SIZE) (avail s)"
begin

lemma alloc_keeps_inv: "inv s \<Longrightarrow> alloc s = (p, s') \<Longrightarrow> inv s'"
  by (metis Pair_inject alloc_full alloc_frame)

lemma alloc_avail_subset: "inv s \<Longrightarrow> alloc s = (p, s') \<Longrightarrow> avail s' \<subseteq> avail s"
  by (metis Diff_subset Pair_inject alloc_full alloc_frame order_refl)

lemma alloc_nonnull:
  assumes "inv s" "alloc s = (p, s')" "p \<noteq> NULL"
  shows "p div PAGE_SIZE \<in> avail s" "p div PAGE_SIZE \<notin> avail s'" "p = p div PAGE_SIZE * PAGE_SIZE"
proof -
  have "avail s \<noteq> {}" using assms alloc_full by auto
  then obtain b where "b \<in> avail s" "p = b * PAGE_SIZE" "avail s' = avail s - {b}"
    using alloc_frame assms by blast
  then show "p div PAGE_SIZE \<in> avail s" "p div PAGE_SIZE \<notin> avail s'" "p = p div PAGE_SIZE * PAGE_SIZE"
    using avail_bound [OF assms(1)] by (auto simp: frame_addr_div)
qed

lemma alloc_seq_fresh:
  "inv s \<Longrightarrow> alloc_seq alloc n s = (ps, s') \<Longrightarrow>
     inv s' \<and> avail s' \<subseteq> avail s \<and> distinct (filter (\<lambda>p. p \<noteq> NULL) ps) \<and>
     (\<forall>p \<in> set ps. p \<noteq> NULL \<longrightarrow> p div PAGE_SIZE \<in> avail s - avail s')"
proof (induction n arbitrary: s ps)
  case 0
  then show ?case by simp
next
  case (Suc n)
  obtain p s1 where a: "alloc s = (p, s1)" by fastforce
  obtain qs where q: "alloc_seq alloc n s1 = (qs, s')" and ps: "ps = p # qs"
    using Suc.prems(2) a by (auto split: prod.splits)
  have inv1: "inv s1" using a Suc.prems(1) alloc_keeps_inv by blast
  note IH = Suc.IH [OF inv1 q]
  have sub: "avail s1 \<subseteq> avail s" using a Suc.prems(1) alloc_avail_subset by blast
  have "p \<notin> set qs" if "p \<noteq> NULL"
    using IH alloc_nonnull(2) [OF Suc.prems(1) a that] that by blast
  moreover have "p div PAGE_SIZE \<in> avail s - avail s'" if "p \<noteq> NULL"
    using IH alloc_nonnull(1,2) [OF Suc.prems(1) a that] by blast
  ultimately show ?case using IH sub ps by auto
qed

end

interpretation pmm: frame_allocator pmm_alloc_block pmm_free_block pmm_inv free_frames
proof (unfold_locales, goal_cases)
  case (1 s b)
  then have "b < max_blocks s" "max_blocks s \<le> 32768" by (auto simp: free_frames_def pmm_inv_def)
  then show ?case by (simp add: word_less_nat_alt word_le_nat_alt)
next
  case (2 s)
  then show ?case by (simp add: alloc_block_spec)
next
  case (3 s p s')
  from 3(1,3) show ?case
    by (cases rule: alloc_block_cases) (use 3 take_frame_inv in auto)
next
  case (4 s p)
  then show ?case by (rule free_block_inv)
next
  case (5 s p)
  then show ?case by (auto simp: free_block_frames)
qed

section \<open>The boot-time layout\<close>

text \<open>
  \<open>kernel_main\<close> in \<open>src/kernel/kernel.c\<close> sets the manager up: everything above 1 MB is
  released, then the kernel image between the linker symbols \<open>kernel_start\<close> and \<open>kernel_end\<close>
  is reserved. The two symbols are parameters.
\<close>

definition align_down :: "u32 \<Rightarrow> u32" where
  "align_down addr = addr AND NOT (PAGE_SIZE - 1)"

definition align_up :: "u32 \<Rightarrow> u32" where
  "align_up addr = (addr + PAGE_SIZE - 1) AND NOT (PAGE_SIZE - 1)"

definition kernel_pmm_setup :: "u32 \<Rightarrow> u32 \<Rightarrow> pmm_state \<Rightarrow> pmm_state" where
  "kernel_pmm_setup kernel_start kernel_end s =
     (let s = pmm_init MEMORY_LIMIT s;
          s = pmm_init_region 0x100000 (MEMORY_LIMIT - 0x100000) s;
          kstart = align_down kernel_start;
          kend = align_up kernel_end;
          ksize = kend - kstart
      in pmm_deinit_region kstart ksize s)"

lemma word_plus_image: "(a :: u32) \<le> b \<Longrightarrow> (+) a ` {0..<b - a} = {a..<b}"
proof (intro set_eqI iffI)
  fix x assume ab: "a \<le> b" and "x \<in> (+) a ` {0..<b - a}"
  then obtain k where "x = a + k" "k < b - a" by auto
  with ab show "x \<in> {a..<b}" by simp unat_arith
next
  fix x assume "a \<le> b" and "x \<in> {a..<b}"
  then show "x \<in> (+) a ` {0..<b - a}"
    by (intro image_eqI [of _ _ "x - a"]) (simp, simp, unat_arith)
qed

lemma kernel_pmm_setup_spec:
  "pmm_inv (kernel_pmm_setup ks ke s)"
  "max_blocks (kernel_pmm_setup ks ke s) = 32768"
  "free_frames (kernel_pmm_setup ks ke s) = {256..<32768} -
     (+) (align_down ks div PAGE_SIZE) ` {0..<(align_up ke - align_down ks) div PAGE_SIZE}"
proof -
  let ?s0 = "pmm_init MEMORY_LIMIT s"
  let ?s1 = "pmm_init_region 0x100000 (MEMORY_LIMIT - 0x100000) ?s0"
  have s0: "pmm_inv ?s0" "free_frames ?s0 = {}" "max_blocks ?s0 = 32768"
    using pmm_init_spec [of MEMORY_LIMIT s] by simp_all
  have img: "(+) 256 ` {0..<32512} = {256..<(32768 :: u32)}"
    using word_plus_image [of 256 32768] by simp
  have s1: "pmm_inv ?s1" "max_blocks ?s1 = 32768" "free_frames ?s1 = {256..<32768}"
    using init_region_spec [OF s0(1), of "0x100000" "MEMORY_LIMIT - 0x100000"] s0 img by auto
  note d = deinit_region_spec [OF s1(1), of "align_down ks" "align_up ke - align_down ks"]
  show "pmm_inv (kernel_pmm_setup ks ke s)" "max_blocks (kernel_pmm_setup ks ke s) = 32768"
    "free_frames (kernel_pmm_setup ks ke s) = {256..<32768} -
     (+) (align_down ks div PAGE_SIZE) ` {0..<(align_up ke - align_down ks) div PAGE_SIZE}"
    using d s1 by (simp_all add: kernel_pmm_setup_def Let_def)
qed

section \<open>Reachable states\<close>

text \<open>Any sequence of calls after an initialisation with at most the supported memory size.\<close>

inductive pmm_step :: "pmm_state \<Rightarrow> pmm_state \<Rightarrow> bool" where
  alloc: "pmm_alloc_block s = (p, s') \<Longrightarrow> pmm_step s s'"
| free: "pmm_step s (pmm_free_block p s)"
| init_region: "pmm_step s (pmm_init_region base sz s)"
| deinit_region: "pmm_step s (pmm_deinit_region base sz s)"

inductive pmm_reachable :: "pmm_state \<Rightarrow> bool" where
  init: "mem_size \<le> MEMORY_LIMIT \<Longrightarrow> pmm_reachable (pmm_init mem_size s)"
| step: "pmm_reachable s \<Longrightarrow> pmm_step s s' \<Longrightarrow> pmm_reachable s'"

lemma pmm_step_inv: "pmm_step s s' \<Longrightarrow> pmm_inv s \<Longrightarrow> pmm_inv s'"
  by (induction rule: pmm_step.induct)
     (auto simp: alloc_block_inv free_block_inv init_region_spec deinit_region_spec)

lemma pmm_reachable_pmm_inv: "pmm_reachable s \<Longrightarrow> pmm_inv s"
  by (induction rule: pmm_reachable.induct) (auto simp: pmm_init_spec pmm_step_inv)

section \<open>Releasing an allocated frame\<close>

lemma bitmap_unset_set:
  assumes "unat b div 32 < length (pmm_bitmap s)" "\<not> bitmap_test s b"
  shows "bitmap_unset b (bitmap_set b s\<lparr>used_blocks := u\<rparr>) = s\<lparr>used_blocks := u\<rparr>"
proof -
  have "\<not> bit (pmm_bitmap s ! (unat b div 32)) (unat b mod 32)"
    using assms(2) by (simp add: bitmap_test_bit)
  then have "(pmm_bitmap s ! (unat b div 32) OR 2 ^ (unat b mod 32)) AND NOT (2 ^ (unat b mod 32))
      = pmm_bitmap s ! (unat b div 32)"
    by (intro bit_word_eqI) (auto simp: bit_and_iff bit_or_iff bit_not_iff bit_exp_iff)
  then show ?thesis
    using assms(1) by (simp add: bitmap_unset_def bitmap_set_def unat_word_index unat_bit_index)
qed

lemma alloc_block_free:
  assumes "pmm_inv s" "free_frames s \<noteq> {}" "pmm_alloc_block s = (p, s')"
  shows "pmm_free_block p s' = s"
  using assms(1,3)
proof (cases rule: alloc_block_cases)
  case full
  then show ?thesis using assms(2) by simp
next
  case (frame b)
  have lt: "b < max_blocks s" using frame(1) by (rule frame_bound)
  have "b < 0x100000" using pmm.avail_bound [OF assms(1) frame(1)] .
  then have "p div PAGE_SIZE = b" using frame(3) by (simp add: frame_addr_div)
  moreover have "bitmap_test s' b"
    using bitmap_test_set [OF frame_in_range [OF assms(1) lt]] frame(4) by simp
  moreover have "\<not> bitmap_test s b" using frame(1) by (simp add: free_frames_def)
  ultimately show ?thesis
    using bitmap_unset_set [OF frame_in_range [OF assms(1) lt]] lt frame(4)
    by (simp add: pmm_free_block_def)
qed

text \<open>The boot state: no frame below 1 MB and none of the kernel image is free.\<close>

lemma boot_state_frames:
  assumes "b \<in> free_frames (kernel_pmm_setup ks ke s)"
  shows "256 \<le> b" "b < 32768"
    "b \<notin> (+) (align_down ks div PAGE_SIZE) ` {0..<(align_up ke - align_down ks) div PAGE_SIZE}"
  using assms by (auto simp: kernel_pmm_setup_spec)

lemma align_page [unat_simps]:
  "align_down a = a div PAGE_SIZE * PAGE_SIZE"
  "align_up a = (a + 4095) div PAGE_SIZE * PAGE_SIZE"
  by (simp_all add: align_down_def align_up_def and_neg_page algebra_simps)

lemma kernel_image_frames:
  assumes "align_down ks \<le> align_up ke"
  shows "(+) (align_down ks div PAGE_SIZE) ` {0..<(align_up ke - align_down ks) div PAGE_SIZE}
    = {align_down ks div PAGE_SIZE..<align_up ke div PAGE_SIZE}"
  using page_aligned_diff [of "align_down ks" "ks div PAGE_SIZE" "align_up ke"
      "(ke + 4095) div PAGE_SIZE"] assms
  by (simp add: align_page u32_div_page_bound word_plus_image)

section \<open>A small machine for the witnesses\<close>

text \<open>Four frames of memory, the frames 1 and 2 released.\<close>

definition no_pmm :: pmm_state where
  "no_pmm = \<lparr>pmm_bitmap = [], used_blocks = 0, max_blocks = 0\<rparr>"

definition small_pmm :: pmm_state where
  "small_pmm = pmm_init_region 0x1000 0x2000 (pmm_init 0x4000 no_pmm)"

lemma small_pmm_spec:
  "pmm_reachable small_pmm" "pmm_inv small_pmm" "max_blocks small_pmm = 4"
  "free_frames small_pmm = {1..<3}" "free_frames small_pmm \<noteq> {}"
proof -
  show r: "pmm_reachable small_pmm"
    unfolding small_pmm_def
    by (rule pmm_reachable.step [OF pmm_reachable.init pmm_step.init_region]) simp
  then show "pmm_inv small_pmm" by (rule pmm_reachable_pmm_inv)
  have i: "pmm_inv (pmm_init 0x4000 no_pmm)" "free_frames (pmm_init 0x4000 no_pmm) = {}"
    "max_blocks (pmm_init 0x4000 no_pmm) = 4"
    using pmm_init_spec [of "0x4000" no_pmm] by simp_all
  have img: "(+) 1 ` {0..<2} = {1..<(3 :: u32)}"
    using word_plus_image [of 1 3] by simp
  show "max_blocks small_pmm = 4" and f: "free_frames small_pmm = {1..<3}"
    using init_region_spec [OF i(1), of "0x1000" "0x2000"] i img
    by (auto simp: small_pmm_def intro: less_trans [of _ "3 :: u32"])
  have "1 \<in> {1..<(3 :: u32)}" by simp
  with f show "free_frames small_pmm \<noteq> {}" by auto
qed

lemma small_pmm_alloc: "fst (pmm_alloc_block small_pmm) = 0x1000"
proof -
  have "Min {1..<3 :: u32} = 1" by (rule Min_eqI) auto
  then show ?thesis using small_pmm_spec(2,4,5) by (simp add: alloc_block_spec Let_def)
qed

text \<open>
  Frame 0 is special: its address is \<open>NULL\<close>. Were it free (a caller may release it, since
  \<open>pmm_free_block(NULL)\<close> is not rejected), the next allocation would mark it used and return
  \<open>NULL\<close>, which every caller reads as a failure.
\<close>

lemma frame_zero_leak:
  assumes "pmm_inv s" "0 < max_blocks s"
  shows "\<exists>s'. pmm_alloc_block (pmm_free_block NULL s) = (NULL, s') \<and> 0 \<notin> free_frames s' \<and>
    0 \<in> free_frames (pmm_free_block NULL s)"
proof -
  let ?s = "pmm_free_block NULL s"
  have inv: "pmm_inv ?s" and z: "0 \<in> free_frames ?s"
    using assms by (auto simp: free_block_inv free_block_frames)
  obtain p s' where a: "pmm_alloc_block ?s = (p, s')" by fastforce
  from inv a show ?thesis
  proof (cases rule: alloc_block_cases)
    case full
    then show ?thesis using z by simp
  next
    case (frame b)
    then have "b \<le> 0" using z by blast
    then have "b = 0" by simp
    with frame a z show ?thesis by auto
  qed
qed

section \<open>Properties\<close>

text \<open>C1: in every state the physical memory manager can reach from an initialisation with at most
  128 MB, through any sequence of allocations, frees and region calls, the counters agree with the
  bitmap (the free count it reports is the number of clear bits, used and free add up to the total)
  and every frame number below the limit indexes inside the 1024-word bitmap.\<close>

theorem pmm_reachable_accounting:
  assumes "pmm_reachable s"
  shows "unat (pmm_get_free_blocks s) = card (free_frames s) \<and>
    unat (pmm_get_used_blocks s) + unat (pmm_get_free_blocks s) = unat (pmm_get_total_blocks s) \<and>
    (\<forall>b < pmm_get_total_blocks s. unat (drop_bit 5 b) < length (pmm_bitmap s))"
proof -
  note inv = pmm_reachable_pmm_inv [OF assms]
  then have "unat (max_blocks s - used_blocks s) = unat (max_blocks s) - unat (used_blocks s)"
    using free_frames_card_le [OF inv] by (simp add: unat_sub word_le_nat_alt)
  with inv frame_in_range [OF inv] show ?thesis
    by (auto simp: pmm_inv_def pmm_get_free_blocks_def pmm_get_used_blocks_def
        pmm_get_total_blocks_def unat_word_index)
qed

theorem pmm_reachable_accounting_witness:
  "unat (pmm_get_free_blocks small_pmm) = card (free_frames small_pmm) \<and>
   unat (pmm_get_used_blocks small_pmm) + unat (pmm_get_free_blocks small_pmm) = 4"
  using pmm_reachable_accounting [OF small_pmm_spec(1)] small_pmm_spec(3)
  by (simp add: pmm_get_total_blocks_def)

text \<open>Allocation on every branch. With the invariant, \<open>pmm_alloc_block\<close> fails exactly when no
  frame is free, leaving the state as it is; otherwise it returns the address of the lowest free
  frame, which is the one frame that leaves the free set, and the used count grows by one.\<close>

lemma pmm_alloc_lowest_free:
  assumes "pmm_inv s" "pmm_alloc_block s = (p, s')"
  shows "(free_frames s = {} \<and> p = NULL \<and> s' = s) \<or>
    (\<exists>b \<in> free_frames s. (\<forall>c \<in> free_frames s. b \<le> c) \<and> p = b * PAGE_SIZE \<and>
       free_frames s' = free_frames s - {b} \<and> used_blocks s' = used_blocks s + 1 \<and> pmm_inv s')"
  using assms(1,2)
proof (cases rule: alloc_block_cases)
  case full
  then show ?thesis by simp
next
  case (frame b)
  then show ?thesis using assms(1) take_frame_inv by (intro disjI2 bexI [of _ b]) auto
qed

text \<open>Freeing undoes allocation exactly. When a frame is available, \<open>pmm_free_block\<close> of the
  address that \<open>pmm_alloc_block\<close> returned restores the previous state, bitmap and counter.\<close>

lemma pmm_alloc_free_roundtrip:
  assumes "pmm_inv s" "free_frames s \<noteq> {}" "pmm_alloc_block s = (p, s')"
  shows "pmm_free_block p s' = s"
  by (rule alloc_block_free [OF assms])

text \<open>Memory handed out after boot. Starting from the state \<open>kernel_main\<close> sets up, any number of
  allocations in a row return pairwise different frames (or \<open>NULL\<close>), all of them at or above 1 MB,
  below 128 MB and outside the kernel image.\<close>

lemma pmm_boot_allocations_disjoint:
  assumes "alloc_seq pmm_alloc_block n (kernel_pmm_setup ks ke s) = (ps, s')"
  shows "distinct (filter (\<lambda>p. p \<noteq> NULL) ps) \<and>
    (\<forall>p \<in> set ps. p \<noteq> NULL \<longrightarrow> 256 \<le> p div PAGE_SIZE \<and> p div PAGE_SIZE < 32768 \<and>
       (align_down ks \<le> align_up ke \<longrightarrow>
          p div PAGE_SIZE \<notin> {align_down ks div PAGE_SIZE..<align_up ke div PAGE_SIZE}))"
proof -
  note fresh = pmm.alloc_seq_fresh [OF kernel_pmm_setup_spec(1) assms]
  have "256 \<le> p div PAGE_SIZE \<and> p div PAGE_SIZE < 32768 \<and>
      (align_down ks \<le> align_up ke \<longrightarrow>
         p div PAGE_SIZE \<notin> {align_down ks div PAGE_SIZE..<align_up ke div PAGE_SIZE})"
    if "p \<in> set ps" "p \<noteq> NULL" for p
  proof -
    have "p div PAGE_SIZE \<in> free_frames (kernel_pmm_setup ks ke s)"
      using fresh that by blast
    note boot_state_frames [OF this]
    then show ?thesis using kernel_image_frames [of ks ke] by metis
  qed
  with fresh show ?thesis by blast
qed

end
