(* ===== verification/Keyboard.thy ===== *)
theory Keyboard
  imports Prelude
begin

text \<open>
  The PS/2 keyboard driver of \<open>src/drivers/keyboard.c\<close>: the modifier flags, the two scan code
  tables, the interrupt handler and the ring buffer the shell reads. A \<open>char\<close> is a byte (every
  table entry is below 128, so its sign does not matter). The byte the handler reads from port
  0x60 is an argument of the model, and the call into the terminal's scrollback is the handler's
  second result. \<open>bounded_queue\<close> is the interface the shell relies on; the driver is shown to
  refine a queue of 255 characters for every interleaving of interrupts and reads.
\<close>

unbundle bit_operations_syntax

section \<open>State and operations\<close>

abbreviation KEYBOARD_BUFFER_SIZE :: u32 where
  "KEYBOARD_BUFFER_SIZE \<equiv> 256"

record keyboard =
  keyboard_buffer :: "u8 list"
  buffer_read_pos :: u32
  buffer_write_pos :: u32
  shift_pressed :: bool
  ctrl_pressed :: bool
  alt_pressed :: bool
  caps_lock :: bool
  extended_scancode :: bool

definition scancode_to_ascii :: "u8 list" where
  "scancode_to_ascii =
    [0, 27, 49, 50, 51, 52, 53, 54, 55, 56, 57, 48, 45, 61, 8, 9,
     113, 119, 101, 114, 116, 121, 117, 105, 111, 112, 91, 93, 10, 0, 97, 115,
     100, 102, 103, 104, 106, 107, 108, 59, 39, 96, 0, 92, 122, 120, 99, 118,
     98, 110, 109, 44, 46, 47, 0, 42, 0, 32, 0, 0, 0, 0, 0, 0,
     0, 0, 0, 0, 0, 0, 0, 0, 0, 0, 0, 0, 0, 0, 0, 0,
     0, 0, 0, 0, 0, 0, 0, 0, 0, 0, 0, 0, 0, 0, 0, 0,
     0, 0, 0, 0, 0, 0, 0, 0, 0, 0, 0, 0, 0, 0, 0, 0,
     0, 0, 0, 0, 0, 0, 0, 0, 0, 0, 0, 0, 0, 0, 0, 0]"

definition scancode_to_ascii_shift :: "u8 list" where
  "scancode_to_ascii_shift =
    [0, 27, 33, 64, 35, 36, 37, 94, 38, 42, 40, 41, 95, 43, 8, 9,
     81, 87, 69, 82, 84, 89, 85, 73, 79, 80, 123, 125, 10, 0, 65, 83,
     68, 70, 71, 72, 74, 75, 76, 58, 34, 126, 0, 124, 90, 88, 67, 86,
     66, 78, 77, 60, 62, 63, 0, 42, 0, 32, 0, 0, 0, 0, 0, 0,
     0, 0, 0, 0, 0, 0, 0, 0, 0, 0, 0, 0, 0, 0, 0, 0,
     0, 0, 0, 0, 0, 0, 0, 0, 0, 0, 0, 0, 0, 0, 0, 0,
     0, 0, 0, 0, 0, 0, 0, 0, 0, 0, 0, 0, 0, 0, 0, 0,
     0, 0, 0, 0, 0, 0, 0, 0, 0, 0, 0, 0, 0, 0, 0, 0]"

definition keyboard_buffer_push :: "u8 \<Rightarrow> keyboard \<Rightarrow> keyboard" where
  "keyboard_buffer_push c k =
     (let nxt = (buffer_write_pos k + 1) mod KEYBOARD_BUFFER_SIZE in
      if nxt = buffer_read_pos k then k
      else k\<lparr>keyboard_buffer := (keyboard_buffer k)[unat (buffer_write_pos k) := c],
             buffer_write_pos := nxt\<rparr>)"

definition keyboard_buffer_pop :: "keyboard \<Rightarrow> u8 \<times> keyboard" where
  "keyboard_buffer_pop k =
     (if buffer_read_pos k = buffer_write_pos k then (0, k)
      else (keyboard_buffer k ! unat (buffer_read_pos k),
            k\<lparr>buffer_read_pos := (buffer_read_pos k + 1) mod KEYBOARD_BUFFER_SIZE\<rparr>))"

definition is_letter :: "u8 \<Rightarrow> bool" where
  "is_letter c \<longleftrightarrow> c \<ge> 97 \<and> c \<le> 122 \<or> c \<ge> 65 \<and> c \<le> 90"

datatype scroll = NoScroll | PageUp | PageDown

definition key_release :: "u8 \<Rightarrow> keyboard \<Rightarrow> keyboard" where
  "key_release scancode k =
     (let scancode = scancode AND 0x7F in
      if scancode = 0x2A \<or> scancode = 0x36 then k\<lparr>shift_pressed := False\<rparr>
      else if scancode = 0x1D then k\<lparr>ctrl_pressed := False\<rparr>
      else if scancode = 0x38 then k\<lparr>alt_pressed := False\<rparr>
      else k)"

definition key_char :: "u8 \<Rightarrow> keyboard \<Rightarrow> u8" where
  "key_char scancode k =
     (if scancode < 128 then
        (let base_char = scancode_to_ascii ! unat scancode in
         if base_char = 0 then 0
         else
           (let c = (if is_letter base_char then
                       (if shift_pressed k \<noteq> caps_lock k then scancode_to_ascii_shift ! unat scancode
                        else scancode_to_ascii ! unat scancode)
                     else
                       (if shift_pressed k then scancode_to_ascii_shift ! unat scancode
                        else scancode_to_ascii ! unat scancode))
            in if ctrl_pressed k \<and> c \<ge> 97 \<and> c \<le> 122 then c - 97 + 1
               else if ctrl_pressed k \<and> c \<ge> 65 \<and> c \<le> 90 then c - 65 + 1
               else c))
      else 0)"

definition keyboard_handler :: "u8 \<Rightarrow> keyboard \<Rightarrow> keyboard \<times> scroll" where
  "keyboard_handler scancode k =
     (if scancode = 0xE0 then (k\<lparr>extended_scancode := True\<rparr>, NoScroll)
      else if extended_scancode k then
        (let k = k\<lparr>extended_scancode := False\<rparr> in
         if scancode AND 0x80 \<noteq> 0 then (k, NoScroll)
         else if scancode = 0x49 then (k, PageUp)
         else if scancode = 0x51 then (k, PageDown)
         else (k, NoScroll))
      else if scancode AND 0x80 \<noteq> 0 then (key_release scancode k, NoScroll)
      else if scancode = 0x2A \<or> scancode = 0x36 then (k\<lparr>shift_pressed := True\<rparr>, NoScroll)
      else if scancode = 0x1D then (k\<lparr>ctrl_pressed := True\<rparr>, NoScroll)
      else if scancode = 0x38 then (k\<lparr>alt_pressed := True\<rparr>, NoScroll)
      else if scancode = 0x3A then (k\<lparr>caps_lock := \<not> caps_lock k\<rparr>, NoScroll)
      else
        (let c = key_char scancode k
         in (if c \<noteq> 0 then keyboard_buffer_push c k else k, NoScroll)))"

definition keyboard_init :: "keyboard \<Rightarrow> keyboard" where
  "keyboard_init k = k\<lparr>buffer_read_pos := 0, buffer_write_pos := 0, shift_pressed := False,
     ctrl_pressed := False, alt_pressed := False, caps_lock := False\<rparr>"

definition keyboard_has_data :: "keyboard \<Rightarrow> bool" where
  "keyboard_has_data k \<longleftrightarrow> buffer_read_pos k \<noteq> buffer_write_pos k"

section \<open>The interface of a bounded queue\<close>

text \<open>
  What the reader of the buffer relies on: the queue holds at most \<open>cap\<close> entries, an entry that
  does not fit is dropped, entries come out in the order they went in, and reading an empty queue
  gives \<open>dflt\<close> and changes nothing.
\<close>

datatype 'a queue_event = Push 'a | Pop

fun queue_run :: "('a \<Rightarrow> 's \<Rightarrow> 's) \<Rightarrow> ('s \<Rightarrow> 'a \<times> 's) \<Rightarrow> 'a queue_event list \<Rightarrow> 's \<Rightarrow> 'a list \<times> 's" where
  "queue_run push pop [] s = ([], s)"
| "queue_run push pop (Push x # es) s = queue_run push pop es (push x s)"
| "queue_run push pop (Pop # es) s =
     (let (y, s) = pop s; (ys, s) = queue_run push pop es s in (y # ys, s))"

definition spec_push :: "nat \<Rightarrow> 'a \<Rightarrow> 'a list \<Rightarrow> 'a list" where
  "spec_push cap x q = (if length q < cap then q @ [x] else q)"

fun spec_pop :: "'a \<Rightarrow> 'a list \<Rightarrow> 'a \<times> 'a list" where
  "spec_pop dflt [] = (dflt, [])"
| "spec_pop dflt (x # q) = (x, q)"

locale bounded_queue =
  fixes push :: "'a \<Rightarrow> 's \<Rightarrow> 's"
    and pop :: "'s \<Rightarrow> 'a \<times> 's"
    and inv :: "'s \<Rightarrow> bool"
    and contents :: "'s \<Rightarrow> 'a list"
    and cap :: nat
    and dflt :: 'a
  assumes push_inv: "inv s \<Longrightarrow> inv (push x s)"
    and push_contents: "inv s \<Longrightarrow> contents (push x s) = spec_push cap x (contents s)"
    and pop_inv: "inv s \<Longrightarrow> inv (snd (pop s))"
    and pop_contents: "inv s \<Longrightarrow> (fst (pop s), contents (snd (pop s))) = spec_pop dflt (contents s)"
begin

lemma run_refines:
  "inv s \<Longrightarrow> inv (snd (queue_run push pop es s)) \<and>
     (fst (queue_run push pop es s), contents (snd (queue_run push pop es s))) =
       queue_run (spec_push cap) (spec_pop dflt) es (contents s)"
proof (induction es arbitrary: s)
  case (Cons e es)
  show ?case
  proof (cases e)
    case (Push x)
    with Cons show ?thesis by (simp add: push_inv push_contents)
  next
    case Pop
    obtain y t where p: "pop s = (y, t)" by fastforce
    have t: "inv t" "spec_pop dflt (contents s) = (y, contents t)"
      using pop_inv [OF Cons.prems] pop_contents [OF Cons.prems] by (simp_all add: p)
    obtain ys u where r: "queue_run push pop es t = (ys, u)" by fastforce
    have "inv u" "queue_run (spec_push cap) (spec_pop dflt) es (contents t) = (ys, contents u)"
      using Cons.IH [OF t(1)] by (simp_all add: r)
    with t Pop p r show ?thesis by simp
  qed
qed simp

lemma pop_all:
  "inv s \<Longrightarrow> fst (queue_run push pop (replicate (length (contents s)) Pop) s) = contents s"
proof -
  have "fst (queue_run (spec_push cap) (spec_pop dflt) (replicate (length q) Pop) q) = q" for q
    by (induction q) (auto simp: case_prod_beta)
  then show "inv s \<Longrightarrow> ?thesis" using run_refines by (metis fst_conv)
qed

lemma fold_push_inv: "inv s \<Longrightarrow> inv (fold push xs s)"
  by (induction xs arbitrary: s) (simp_all add: push_inv)

lemma push_all:
  assumes "inv s"
  shows "contents (fold push xs s) = contents s @ take (cap - length (contents s)) xs"
  using assms
proof (induction xs arbitrary: s)
  case (Cons x xs)
  show ?case
  proof (cases "length (contents s) < cap")
    case True
    then obtain n where n: "cap - length (contents s) = Suc n" by (metis Suc_diff_Suc)
    then have "cap - Suc (length (contents s)) = n" by simp
    with n True Cons show ?thesis by (simp add: push_inv push_contents spec_push_def)
  next
    case False
    with Cons show ?thesis by (simp add: push_inv push_contents spec_push_def)
  qed
qed simp

end

section \<open>The ring buffer is a bounded queue\<close>

definition keyboard_inv :: "keyboard \<Rightarrow> bool" where
  "keyboard_inv k \<longleftrightarrow> length (keyboard_buffer k) = 256 \<and>
     buffer_read_pos k < 256 \<and> buffer_write_pos k < 256"

definition ring_count :: "keyboard \<Rightarrow> nat" where
  "ring_count k = (unat (buffer_write_pos k) + 256 - unat (buffer_read_pos k)) mod 256"

definition ring_contents :: "keyboard \<Rightarrow> u8 list" where
  "ring_contents k = map (\<lambda>i. keyboard_buffer k ! ((unat (buffer_read_pos k) + i) mod 256))
     [0..<ring_count k]"

lemma ring_contents_length [simp]: "length (ring_contents k) = ring_count k"
  by (simp add: ring_contents_def)

lemma unat_ring_next: "p < 256 \<Longrightarrow> unat ((p + 1) mod KEYBOARD_BUFFER_SIZE) = (unat p + 1) mod 256"
  by (simp add: unat_mod_distrib unat_word_ariths word_less_nat_alt)

lemma ring_next_less: "(p + 1) mod KEYBOARD_BUFFER_SIZE < 256"
  by (simp add: word_less_nat_alt unat_mod_distrib)

lemma keyboard_push_inv: "keyboard_inv k \<Longrightarrow> keyboard_inv (keyboard_buffer_push c k)"
  by (simp add: keyboard_inv_def keyboard_buffer_push_def Let_def ring_next_less)

lemma keyboard_pop_inv: "keyboard_inv k \<Longrightarrow> keyboard_inv (snd (keyboard_buffer_pop k))"
  by (simp add: keyboard_inv_def keyboard_buffer_pop_def ring_next_less)

lemma ring_distance:
  assumes "(r :: nat) < 256" "w < 256"
  shows "(w + 256 - r) mod 256 = (if r \<le> w then w - r else w + 256 - r)"
proof (cases "r \<le> w")
  case True
  then have "w + 256 - r = w - r + 256" by simp
  with True assms show ?thesis by (simp del: add_diff_assoc2)
qed (use assms in simp)

lemma ring_next: "(p :: nat) < 256 \<Longrightarrow> Suc p mod 256 = (if p = 255 then 0 else Suc p)"
  by simp

lemma ring_count_if:
  assumes "keyboard_inv k"
  shows "unat (buffer_read_pos k) < 256" "unat (buffer_write_pos k) < 256"
    "ring_count k = (if unat (buffer_read_pos k) \<le> unat (buffer_write_pos k)
       then unat (buffer_write_pos k) - unat (buffer_read_pos k)
       else unat (buffer_write_pos k) + 256 - unat (buffer_read_pos k))"
  using assms by (simp_all add: keyboard_inv_def word_less_nat_alt ring_count_def ring_distance)

lemma ring_count_cases:
  assumes "keyboard_inv k"
  shows "buffer_read_pos k = buffer_write_pos k \<longleftrightarrow> ring_count k = 0"
    "(buffer_write_pos k + 1) mod KEYBOARD_BUFFER_SIZE = buffer_read_pos k \<longleftrightarrow> ring_count k = 255"
proof -
  note c = ring_count_if [OF assms]
  show "buffer_read_pos k = buffer_write_pos k \<longleftrightarrow> ring_count k = 0"
    using c by (auto simp: word_unat_eq_iff split: if_splits)
  have "unat ((buffer_write_pos k + 1) mod KEYBOARD_BUFFER_SIZE) = Suc (unat (buffer_write_pos k)) mod 256"
    using assms by (simp add: unat_ring_next keyboard_inv_def)
  then show "(buffer_write_pos k + 1) mod KEYBOARD_BUFFER_SIZE = buffer_read_pos k \<longleftrightarrow> ring_count k = 255"
    using c(1,2) by (auto simp: word_unat_eq_iff c(3) ring_next)
qed

lemma ring_push_contents:
  assumes "keyboard_inv k"
  shows "ring_contents (keyboard_buffer_push c k) = spec_push 255 c (ring_contents k)"
proof (cases "ring_count k = 255")
  case True
  then show ?thesis
    using ring_count_cases [OF assms] by (simp add: keyboard_buffer_push_def spec_push_def Let_def)
next
  case False
  let ?r = "unat (buffer_read_pos k)" and ?w = "unat (buffer_write_pos k)"
  let ?k = "keyboard_buffer_push c k"
  have rw: "?r < 256" "?w < 256" "length (keyboard_buffer k) = 256"
    using assms by (auto simp: keyboard_inv_def word_less_nat_alt)
  have lt: "ring_count k < 255"
    using False ring_count_if [OF assms] by (simp split: if_splits)
  have k: "keyboard_buffer ?k = (keyboard_buffer k)[?w := c]" "buffer_read_pos ?k = buffer_read_pos k"
    "buffer_write_pos ?k = (buffer_write_pos k + 1) mod KEYBOARD_BUFFER_SIZE"
    using False ring_count_cases(2) [OF assms] by (simp_all add: keyboard_buffer_push_def Let_def)
  have w: "(?r + ring_count k) mod 256 = ?w"
    using rw ring_count_if(3) [OF assms] by auto
  have "unat (buffer_write_pos ?k) = Suc ?w mod 256"
    using assms by (simp add: k unat_ring_next keyboard_inv_def)
  then have cnt: "ring_count ?k = Suc (ring_count k)"
    using lt ring_count_if [OF assms] ring_count_if(3) [OF keyboard_push_inv [OF assms, of c]]
    by (simp add: k(2) ring_next split: if_splits)
  have ne: "?w \<noteq> (?r + i) mod 256" if "i < ring_count k" for i
    using that lt rw ring_count_if(3) [OF assms]
    by (cases "?r + i < 256") (auto simp: mod_if split: if_splits)
  have "map (\<lambda>i. keyboard_buffer ?k ! ((?r + i) mod 256)) [0..<ring_count k] = ring_contents k"
    by (simp add: ring_contents_def k ne)
  moreover have "keyboard_buffer ?k ! ((?r + ring_count k) mod 256) = c"
    using w rw by (simp add: k)
  ultimately show ?thesis
    using lt by (simp add: ring_contents_def [of ?k] cnt k(2) spec_push_def)
qed

lemma ring_pop_contents:
  assumes "keyboard_inv k"
  shows "(fst (keyboard_buffer_pop k), ring_contents (snd (keyboard_buffer_pop k))) =
    spec_pop 0 (ring_contents k)"
proof (cases "ring_count k")
  case 0
  then have "ring_contents k = []" by (simp add: ring_contents_def)
  then show ?thesis
    using ring_count_cases(1) [OF assms] 0 by (simp add: keyboard_buffer_pop_def)
next
  case (Suc n)
  let ?r = "unat (buffer_read_pos k)"
  let ?k = "k\<lparr>buffer_read_pos := (buffer_read_pos k + 1) mod KEYBOARD_BUFFER_SIZE\<rparr>"
  have r: "unat (buffer_read_pos ?k) = (?r + 1) mod 256" "?r < 256"
    using assms by (auto simp: unat_ring_next keyboard_inv_def word_less_nat_alt)
  have "keyboard_inv ?k" using assms by (simp add: keyboard_inv_def ring_next_less)
  then have n: "ring_count ?k = n"
    using Suc r ring_count_if [OF assms] ring_count_if(3) [of ?k]
    by (simp add: ring_next split: if_splits)
  have "ring_contents k = keyboard_buffer k ! ?r # ring_contents ?k"
    using r by (simp add: ring_contents_def Suc n upt_conv_Cons map_Suc_upt [symmetric] mod_simps
        del: upt_Suc)
  then show ?thesis
    using ring_count_cases(1) [OF assms] Suc by (simp add: keyboard_buffer_pop_def)
qed

interpretation kbq: bounded_queue keyboard_buffer_push keyboard_buffer_pop keyboard_inv ring_contents 255 0
  by unfold_locales
     (simp_all only: keyboard_push_inv keyboard_pop_inv ring_push_contents ring_pop_contents)

section \<open>What a key press means\<close>

text \<open>
  The specification of the decoder, written over the unshifted table only: a letter is made upper
  case when exactly one of Shift and Caps Lock is on, and a letter with Ctrl gives its position in
  the alphabet; other keys look at Shift alone.
\<close>

definition spec_char :: "bool \<Rightarrow> bool \<Rightarrow> bool \<Rightarrow> u8 \<Rightarrow> u8" where
  "spec_char shift caps ctrl sc =
     (let b = scancode_to_ascii ! unat sc in
      if is_letter b then (if ctrl then b - 96 else if shift \<noteq> caps then b - 32 else b)
      else if b = 0 \<or> \<not> shift then b
      else scancode_to_ascii_shift ! unat sc)"

definition layout_ok :: "nat \<Rightarrow> bool" where
  "layout_ok n \<longleftrightarrow>
     (let b = scancode_to_ascii ! n; c = scancode_to_ascii_shift ! n in
      if is_letter b then b \<ge> 97 \<and> b \<le> 122 \<and> c = b - 32
      else \<not> is_letter c \<and> (b \<noteq> 0 \<longrightarrow> c \<noteq> 0))"

lemma layouts_ok: "list_all layout_ok [0..<128]"
  by code_simp

lemma letter_case:
  assumes "(b :: u8) \<ge> 97" "b \<le> 122"
  shows "65 \<le> b - 32" "b - 32 \<le> 90" "\<not> 97 \<le> b - 32" "b - 97 + 1 = b - 96" "b - 32 - 65 + 1 = b - 96"
    "b \<noteq> 0" "is_letter b"
  using assms by (simp_all add: is_letter_def) unat_arith+

lemma key_char_spec:
  assumes "sc < 128"
  shows "key_char sc k = spec_char (shift_pressed k) (caps_lock k) (ctrl_pressed k) sc"
proof -
  define b where "b = scancode_to_ascii ! unat sc"
  define c where "c = scancode_to_ascii_shift ! unat sc"
  have "unat sc < 128" using assms by (simp add: word_less_nat_alt)
  then have ok: "layout_ok (unat sc)" using layouts_ok by (simp add: list_all_iff)
  show ?thesis
  proof (cases "is_letter b")
    case True
    then have "97 \<le> b" "b \<le> 122" "c = b - 32"
      using ok by (simp_all add: layout_ok_def Let_def b_def c_def)
    with letter_case [of b] assms show ?thesis
      by (simp add: key_char_def spec_char_def Let_def b_def [symmetric] c_def [symmetric])
  next
    case False
    then have "\<not> is_letter c" using ok by (simp add: layout_ok_def Let_def b_def c_def)
    with False assms show ?thesis
      by (simp add: key_char_def spec_char_def Let_def b_def [symmetric] c_def [symmetric])
        (auto simp: is_letter_def)
  qed
qed

section \<open>The driver as a whole\<close>

text \<open>Interrupts and reads in any order; the reads give the characters returned.\<close>

datatype keyboard_event = Irq u8 | Getc

fun keyboard_run :: "keyboard_event list \<Rightarrow> keyboard \<Rightarrow> u8 list \<times> keyboard" where
  "keyboard_run [] k = ([], k)"
| "keyboard_run (Irq sc # es) k = keyboard_run es (fst (keyboard_handler sc k))"
| "keyboard_run (Getc # es) k =
     (let (c, k) = keyboard_buffer_pop k; (cs, k) = keyboard_run es k in (c # cs, k))"

text \<open>
  The specification follows the modifiers only and turns the scan codes into the queue events
  they stand for.
\<close>

record key_mods =
  m_shift :: bool
  m_ctrl :: bool
  m_caps :: bool
  m_ext :: bool

definition mods :: "keyboard \<Rightarrow> key_mods" where
  "mods k = \<lparr>m_shift = shift_pressed k, m_ctrl = ctrl_pressed k, m_caps = caps_lock k,
     m_ext = extended_scancode k\<rparr>"

definition spec_key :: "u8 \<Rightarrow> key_mods \<Rightarrow> key_mods \<times> u8 option" where
  "spec_key sc m =
     (if sc = 0xE0 then (m\<lparr>m_ext := True\<rparr>, None)
      else if m_ext m then (m\<lparr>m_ext := False\<rparr>, None)
      else if sc = 0x2A \<or> sc = 0x36 then (m\<lparr>m_shift := True\<rparr>, None)
      else if sc = 0xAA \<or> sc = 0xB6 then (m\<lparr>m_shift := False\<rparr>, None)
      else if sc = 0x1D then (m\<lparr>m_ctrl := True\<rparr>, None)
      else if sc = 0x9D then (m\<lparr>m_ctrl := False\<rparr>, None)
      else if sc = 0x3A then (m\<lparr>m_caps := \<not> m_caps m\<rparr>, None)
      else if sc < 0x80 \<and> scancode_to_ascii ! unat sc \<noteq> 0
      then (m, Some (spec_char (m_shift m) (m_caps m) (m_ctrl m) sc))
      else (m, None))"

fun spec_events :: "keyboard_event list \<Rightarrow> key_mods \<Rightarrow> u8 queue_event list" where
  "spec_events [] m = []"
| "spec_events (Irq sc # es) m =
     (let (m, c) = spec_key sc m
      in (case c of None \<Rightarrow> spec_events es m | Some c \<Rightarrow> Push c # spec_events es m))"
| "spec_events (Getc # es) m = Pop # spec_events es m"

lemma release_bit: "(sc :: u8) AND 0x80 = 0 \<longleftrightarrow> sc < 0x80"
  by (rule u8_cases [of "\<lambda>sc. sc AND 0x80 = 0 \<longleftrightarrow> sc < 0x80"]) code_simp

lemma release_code: "\<not> (sc :: u8) < 0x80 \<longrightarrow> sc AND 0x7F = sc - 0x80"
  by (rule u8_cases [of "\<lambda>sc. \<not> sc < 0x80 \<longrightarrow> sc AND 0x7F = sc - 0x80"]) code_simp

lemma spec_char_nonzero:
  assumes "sc < 0x80"
  shows "spec_char shift caps ctrl sc = 0 \<longleftrightarrow> scancode_to_ascii ! unat sc = 0"
proof -
  have "unat sc < 128" using assms by (simp add: word_less_nat_alt)
  then have ok: "layout_ok (unat sc)" using layouts_ok by (simp add: list_all_iff)
  show ?thesis
  proof (cases "is_letter (scancode_to_ascii ! unat sc)")
    case True
    then have "97 \<le> scancode_to_ascii ! unat sc" using ok by (simp add: layout_ok_def Let_def)
    then have "scancode_to_ascii ! unat sc - 96 \<noteq> 0" "scancode_to_ascii ! unat sc - 32 \<noteq> 0"
      "scancode_to_ascii ! unat sc \<noteq> 0" by unat_arith+
    with True show ?thesis by (simp add: spec_char_def Let_def)
  next
    case False
    with ok show ?thesis by (auto simp: spec_char_def Let_def layout_ok_def)
  qed
qed

lemma mods_push [simp]: "mods (keyboard_buffer_push c k) = mods k"
  by (simp add: mods_def keyboard_buffer_push_def Let_def)

lemma key_release_spec:
  assumes "\<not> sc < 0x80"
  shows "mods (key_release sc k) = (mods k)\<lparr>m_shift := m_shift (mods k) \<and> sc \<noteq> 0xAA \<and> sc \<noteq> 0xB6,
      m_ctrl := m_ctrl (mods k) \<and> sc \<noteq> 0x9D\<rparr>"
    "ring_contents (key_release sc k) = ring_contents k"
    "keyboard_inv (key_release sc k) = keyboard_inv k"
  using assms release_code [of sc]
  by (auto simp: key_release_def Let_def mods_def diff_eq_eq ring_contents_def ring_count_def
      keyboard_inv_def)

lemma flags_keep_ring [simp]:
  "ring_contents (k\<lparr>shift_pressed := b\<rparr>) = ring_contents k"
  "ring_contents (k\<lparr>ctrl_pressed := b\<rparr>) = ring_contents k"
  "ring_contents (k\<lparr>alt_pressed := b\<rparr>) = ring_contents k"
  "ring_contents (k\<lparr>caps_lock := b\<rparr>) = ring_contents k"
  "ring_contents (k\<lparr>extended_scancode := b\<rparr>) = ring_contents k"
  "keyboard_inv (k\<lparr>shift_pressed := b\<rparr>) = keyboard_inv k"
  "keyboard_inv (k\<lparr>ctrl_pressed := b\<rparr>) = keyboard_inv k"
  "keyboard_inv (k\<lparr>alt_pressed := b\<rparr>) = keyboard_inv k"
  "keyboard_inv (k\<lparr>caps_lock := b\<rparr>) = keyboard_inv k"
  "keyboard_inv (k\<lparr>extended_scancode := b\<rparr>) = keyboard_inv k"
  by (simp_all add: ring_contents_def ring_count_def keyboard_inv_def)

lemma handler_extended:
  "sc = 0xE0 \<Longrightarrow> fst (keyboard_handler sc k) = k\<lparr>extended_scancode := True\<rparr>"
  "sc \<noteq> 0xE0 \<Longrightarrow> extended_scancode k \<Longrightarrow>
     fst (keyboard_handler sc k) = k\<lparr>extended_scancode := False\<rparr>"
  by (simp_all add: keyboard_handler_def Let_def)

lemma handler_release:
  "sc \<noteq> 0xE0 \<Longrightarrow> \<not> extended_scancode k \<Longrightarrow> \<not> sc < 0x80 \<Longrightarrow>
     fst (keyboard_handler sc k) = key_release sc k"
  by (simp add: keyboard_handler_def release_bit)

lemma handler_press:
  assumes "\<not> extended_scancode k" "sc < 0x80"
  shows "fst (keyboard_handler sc k) =
       (if sc = 0x2A \<or> sc = 0x36 then k\<lparr>shift_pressed := True\<rparr>
        else if sc = 0x1D then k\<lparr>ctrl_pressed := True\<rparr>
        else if sc = 0x38 then k\<lparr>alt_pressed := True\<rparr>
        else if sc = 0x3A then k\<lparr>caps_lock := \<not> caps_lock k\<rparr>
        else if scancode_to_ascii ! unat sc = 0 then k
        else keyboard_buffer_push (spec_char (shift_pressed k) (caps_lock k) (ctrl_pressed k) sc) k)"
proof -
  have "sc \<noteq> 0xE0" using assms(2) by auto
  with assms release_bit [of sc] show ?thesis
    by (simp add: keyboard_handler_def Let_def key_char_spec spec_char_nonzero del: and_exp_eq_0_iff_not_bit)
qed

lemma alt_unmapped: "scancode_to_ascii ! unat (0x38 :: u8) = 0"
  by code_simp

lemma handler_refines:
  assumes "keyboard_inv k" "spec_key sc (mods k) = (m, c)"
  shows "keyboard_inv (fst (keyboard_handler sc k)) \<and> mods (fst (keyboard_handler sc k)) = m \<and>
    ring_contents (fst (keyboard_handler sc k)) =
      (case c of None \<Rightarrow> ring_contents k | Some x \<Rightarrow> spec_push 255 x (ring_contents k))"
proof (cases "sc = 0xE0 \<or> extended_scancode k")
  case True
  then show ?thesis
    using assms by (cases "sc = 0xE0") (auto simp: handler_extended spec_key_def mods_def)
next
  case False
  show ?thesis
  proof (cases "sc < 0x80")
    case True
    show ?thesis
      using assms False True alt_unmapped
      by (simp add: handler_press spec_key_def keyboard_push_inv ring_push_contents split: if_splits)
         (auto simp: mods_def ring_push_contents)
  next
    case rel: False
    then show ?thesis
      using assms False key_release_spec [OF rel, of k]
      by (auto simp: handler_release spec_key_def split: if_splits) (auto simp: mods_def)
  qed
qed

lemma keyboard_run_refines:
  "keyboard_inv k \<Longrightarrow>
     (fst (keyboard_run es k), ring_contents (snd (keyboard_run es k))) =
       queue_run (spec_push 255) (spec_pop 0) (spec_events es (mods k)) (ring_contents k)"
proof (induction es arbitrary: k)
  case (Cons e es)
  show ?case
  proof (cases e)
    case (Irq sc)
    obtain m c where sk: "spec_key sc (mods k) = (m, c)" by fastforce
    from handler_refines [OF Cons.prems sk] Cons.IH [of "fst (keyboard_handler sc k)"] Irq sk
    show ?thesis by (cases c) simp_all
  next
    case Getc
    obtain c t where p: "keyboard_buffer_pop k = (c, t)" by fastforce
    have "mods t = mods k" using p by (auto simp: keyboard_buffer_pop_def mods_def split: if_splits)
    moreover have "keyboard_inv t" "spec_pop 0 (ring_contents k) = (c, ring_contents t)"
      using keyboard_pop_inv [OF Cons.prems] ring_pop_contents [OF Cons.prems] by (simp_all add: p)
    moreover obtain cs u where "keyboard_run es t = (cs, u)" by fastforce
    ultimately show ?thesis using Cons.IH [of t, symmetric] Getc p by simp
  qed
qed simp

lemma keyboard_init_spec:
  assumes "length (keyboard_buffer k) = 256"
  shows "keyboard_inv (keyboard_init k)" "ring_contents (keyboard_init k) = []"
    "mods (keyboard_init k) = \<lparr>m_shift = False, m_ctrl = False, m_caps = False,
       m_ext = extended_scancode k\<rparr>"
  using assms by (simp_all add: keyboard_inv_def keyboard_init_def ring_contents_def ring_count_def mods_def)

definition blank_keyboard :: keyboard where
  "blank_keyboard = \<lparr>keyboard_buffer = replicate 256 0, buffer_read_pos = 7, buffer_write_pos = 9,
     shift_pressed = True, ctrl_pressed = False, alt_pressed = False, caps_lock = False,
     extended_scancode = False\<rparr>"

section \<open>Properties\<close>

text \<open>C2: the keyboard driver refines a bounded character queue. After \<open>keyboard_init\<close>, for every
  interleaving of keyboard interrupts and reads by the shell, the characters the reads return are
  those of a queue of capacity 255 (full: the new character is dropped; empty: 0) fed with the
  characters the key presses stand for under Shift, Caps Lock, Ctrl and the extended prefix.\<close>

theorem keyboard_refines_queue:
  assumes "length (keyboard_buffer k) = 256"
  shows "fst (keyboard_run es (keyboard_init k)) =
    fst (queue_run (spec_push 255) (spec_pop 0)
      (spec_events es \<lparr>m_shift = False, m_ctrl = False, m_caps = False, m_ext = extended_scancode k\<rparr>) [])"
  using keyboard_run_refines [OF keyboard_init_spec(1) [OF assms], of es] keyboard_init_spec [OF assms]
  by (metis fst_conv)

theorem keyboard_refines_queue_witness:
  "fst (keyboard_run [Irq 0x2A, Irq 0x23, Getc, Irq 0xAA, Irq 0x17, Irq 0x1D, Irq 0x2E, Getc, Getc, Getc]
     (keyboard_init blank_keyboard)) = [72, 105, 3, 0]"
proof -
  have l: "length (keyboard_buffer blank_keyboard) = 256" by (simp add: blank_keyboard_def)
  have e: "extended_scancode blank_keyboard = False" by (simp add: blank_keyboard_def)
  show ?thesis
    unfolding keyboard_refines_queue [OF l] e by code_simp
qed

text \<open>A typed line comes back whole. Up to 255 characters pushed into an empty buffer are read
  back in order, whatever the positions of the ring's two indices.\<close>

lemma keyboard_line_roundtrip:
  assumes "keyboard_inv k" "\<not> keyboard_has_data k" "length cs \<le> 255"
  shows "fst (queue_run keyboard_buffer_push keyboard_buffer_pop (replicate (length cs) Pop)
    (fold keyboard_buffer_push cs k)) = cs"
proof -
  have "ring_contents k = []"
    using assms(1,2) ring_count_cases(1) [OF assms(1)]
    by (simp add: keyboard_has_data_def ring_contents_def)
  then have "ring_contents (fold keyboard_buffer_push cs k) = cs"
    using kbq.push_all [OF assms(1), of cs] assms(3) by simp
  with kbq.pop_all [OF kbq.fold_push_inv [OF assms(1)], of cs] show ?thesis by simp
qed

end
