(* ===== verification/CString.thy ===== *)
theory CString
  imports Prelude "HOL-Library.Signed_Division" "HOL-Library.Sublist"
begin

text \<open>
  The string library of \<open>src/lib/string.c\<close> over a flat memory of bytes. A function that scans for
  a terminator is partial: \<open>None\<close> stands for a scan that never returns. A function that counts down
  is total. \<open>int\<close> results are integers; the \<open>int\<close> argument of \<open>itoa\<close> wraps at 32 bits where the
  code negates it. The functions that allocate take \<open>kmalloc\<close> as an argument.
\<close>

section \<open>Memory\<close>

type_synonym mem = "u32 \<Rightarrow> u8"

section \<open>Scanning and comparing\<close>

partial_function (option) strlen_loop :: "mem \<Rightarrow> u32 \<Rightarrow> u32 \<Rightarrow> u32 option" where
  "strlen_loop m str len = (if m (str + len) \<noteq> 0 then strlen_loop m str (len + 1) else Some len)"

definition strlen :: "mem \<Rightarrow> u32 \<Rightarrow> u32 option" where
  "strlen m str = strlen_loop m str 0"

function strnlen_loop :: "mem \<Rightarrow> u32 \<Rightarrow> u32 \<Rightarrow> u32 \<Rightarrow> u32" where
  "strnlen_loop m str maxlen len =
     (if len < maxlen \<and> m (str + len) \<noteq> 0 then strnlen_loop m str maxlen (len + 1) else len)"
  by pat_completeness auto
termination
  by (relation "measure (\<lambda>(m, str, maxlen, len). unat maxlen - unat len)") (auto simp: loop_measure)

declare strnlen_loop.simps [simp del]

definition strnlen :: "mem \<Rightarrow> u32 \<Rightarrow> u32 \<Rightarrow> u32" where
  "strnlen m str maxlen = strnlen_loop m str maxlen 0"

partial_function (option) strcmp :: "mem \<Rightarrow> u32 \<Rightarrow> u32 \<Rightarrow> int option" where
  "strcmp m s1 s2 =
     (if m s1 \<noteq> 0 \<and> m s1 = m s2 then strcmp m (s1 + 1) (s2 + 1)
      else Some (uint (m s1) - uint (m s2)))"

lemma count_down: "(n :: u32) \<noteq> 0 \<Longrightarrow> unat (n - 1) < unat n"
  by unat_arith

function strncmp :: "mem \<Rightarrow> u32 \<Rightarrow> u32 \<Rightarrow> u32 \<Rightarrow> int" where
  "strncmp m s1 s2 n =
     (if n \<noteq> 0 \<and> m s1 \<noteq> 0 \<and> m s1 = m s2 then strncmp m (s1 + 1) (s2 + 1) (n - 1)
      else if n = 0 then 0
      else uint (m s1) - uint (m s2))"
  by pat_completeness auto
termination
  by (relation "measure (\<lambda>(m, s1, s2, n). unat n)") (auto simp: count_down)

declare strncmp.simps [simp del]

function memcmp :: "mem \<Rightarrow> u32 \<Rightarrow> u32 \<Rightarrow> u32 \<Rightarrow> int" where
  "memcmp m s1 s2 n =
     (if n \<noteq> 0 then
        (if m s1 \<noteq> m s2 then uint (m s1) - uint (m s2) else memcmp m (s1 + 1) (s2 + 1) (n - 1))
      else 0)"
  by pat_completeness auto
termination
  by (relation "measure (\<lambda>(m, s1, s2, n). unat n)") (auto simp: count_down)

declare memcmp.simps [simp del]

partial_function (option) strchr :: "mem \<Rightarrow> u32 \<Rightarrow> u8 \<Rightarrow> u32 option" where
  "strchr m s c =
     (if m s \<noteq> c then (if m s = 0 then Some NULL else strchr m (s + 1) c) else Some s)"

partial_function (option) strrchr_loop :: "mem \<Rightarrow> u32 \<Rightarrow> u8 \<Rightarrow> u32 \<Rightarrow> (u32 \<times> u32) option" where
  "strrchr_loop m s c lst =
     (if m s \<noteq> 0 then strrchr_loop m (s + 1) c (if m s = c then s else lst) else Some (s, lst))"

definition strrchr :: "mem \<Rightarrow> u32 \<Rightarrow> u8 \<Rightarrow> u32 option" where
  "strrchr m s c =
     (case strrchr_loop m s c NULL of None \<Rightarrow> None
      | Some (s, lst) \<Rightarrow> Some (if c = 0 then s else lst))"

function memchr :: "mem \<Rightarrow> u32 \<Rightarrow> u8 \<Rightarrow> u32 \<Rightarrow> u32" where
  "memchr m s c n =
     (if n \<noteq> 0 then (if m s = c then s else memchr m (s + 1) c (n - 1)) else NULL)"
  by pat_completeness auto
termination
  by (relation "measure (\<lambda>(m, s, c, n). unat n)") (auto simp: count_down)

declare memchr.simps [simp del]

section \<open>Filling and copying\<close>

function memset :: "u32 \<Rightarrow> u8 \<Rightarrow> u32 \<Rightarrow> mem \<Rightarrow> mem" where
  "memset dest val len m =
     (if len \<noteq> 0 then memset (dest + 1) val (len - 1) (m(dest := val)) else m)"
  by pat_completeness auto
termination
  by (relation "measure (\<lambda>(dest, val, len, m). unat len)") (auto simp: count_down)

declare memset.simps [simp del]

function memcpy :: "u32 \<Rightarrow> u32 \<Rightarrow> u32 \<Rightarrow> mem \<Rightarrow> mem" where
  "memcpy d s len m =
     (if len \<noteq> 0 then memcpy (d + 1) (s + 1) (len - 1) (m(d := m s)) else m)"
  by pat_completeness auto
termination
  by (relation "measure (\<lambda>(d, s, len, m). unat len)") (auto simp: count_down)

declare memcpy.simps [simp del]

function memmove_backward :: "u32 \<Rightarrow> u32 \<Rightarrow> u32 \<Rightarrow> mem \<Rightarrow> mem" where
  "memmove_backward d s len m =
     (if len \<noteq> 0 then memmove_backward (d - 1) (s - 1) (len - 1) (m(d - 1 := m (s - 1))) else m)"
  by pat_completeness auto
termination
  by (relation "measure (\<lambda>(d, s, len, m). unat len)") (auto simp: count_down)

declare memmove_backward.simps [simp del]

text \<open>The forward branch of \<open>memmove\<close> is the loop of \<open>memcpy\<close>, word for word.\<close>

definition memmove :: "u32 \<Rightarrow> u32 \<Rightarrow> u32 \<Rightarrow> mem \<Rightarrow> mem" where
  "memmove d s len m =
     (if d < s then memcpy d s len m else memmove_backward (d + len) (s + len) len m)"

partial_function (option) strcpy_loop :: "u32 \<Rightarrow> u32 \<Rightarrow> mem \<Rightarrow> mem option" where
  "strcpy_loop d src m =
     (let c = m src; m = m(d := c) in if c \<noteq> 0 then strcpy_loop (d + 1) (src + 1) m else Some m)"

definition strcpy :: "u32 \<Rightarrow> u32 \<Rightarrow> mem \<Rightarrow> mem option" where
  "strcpy dest src m = strcpy_loop dest src m"

text \<open>
  \<open>strncpy\<close>: the copying loop leaves \<open>n\<close> as it is on the byte that ends it, while \<open>d\<close> has moved
  past that byte.
\<close>

function strncpy_copy :: "u32 \<Rightarrow> u32 \<Rightarrow> u32 \<Rightarrow> mem \<Rightarrow> u32 \<times> u32 \<times> mem" where
  "strncpy_copy d src n m =
     (if n \<noteq> 0 then
        (let c = m src; m = m(d := c)
         in if c \<noteq> 0 then strncpy_copy (d + 1) (src + 1) (n - 1) m else (d + 1, n, m))
      else (d, n, m))"
  by pat_completeness auto
termination
  by (relation "measure (\<lambda>(d, src, n, m). unat n)") (auto simp: count_down)

declare strncpy_copy.simps [simp del]

definition strncpy :: "u32 \<Rightarrow> u32 \<Rightarrow> u32 \<Rightarrow> mem \<Rightarrow> mem" where
  "strncpy dest src n m = (let (d, n, m) = strncpy_copy dest src n m in memset d 0 n m)"

definition strcat :: "u32 \<Rightarrow> u32 \<Rightarrow> mem \<Rightarrow> mem option" where
  "strcat dest src m =
     (case strlen m dest of None \<Rightarrow> None | Some len \<Rightarrow> strcpy_loop (dest + len) src m)"

function strncat_loop :: "u32 \<Rightarrow> u32 \<Rightarrow> u32 \<Rightarrow> mem \<Rightarrow> u32 \<times> mem" where
  "strncat_loop d src n m =
     (if n \<noteq> 0 then
        (let c = m src; m = m(d := c)
         in if c \<noteq> 0 then strncat_loop (d + 1) (src + 1) (n - 1) m else (d + 1, m))
      else (d, m))"
  by pat_completeness auto
termination
  by (relation "measure (\<lambda>(d, src, n, m). unat n)") (auto simp: count_down)

declare strncat_loop.simps [simp del]

definition strncat :: "u32 \<Rightarrow> u32 \<Rightarrow> u32 \<Rightarrow> mem \<Rightarrow> mem option" where
  "strncat dest src n m =
     (case strlen m dest of None \<Rightarrow> None
      | Some len \<Rightarrow> (let (d, m) = strncat_loop (dest + len) src n m in Some (m(d := 0))))"

section \<open>Numbers\<close>

function reverse_loop :: "u32 \<Rightarrow> int \<Rightarrow> int \<Rightarrow> mem \<Rightarrow> mem" where
  "reverse_loop str i j m =
     (if i < j then
        (let tmp = m (str + word_of_int i);
             m = m(str + word_of_int i := m (str + word_of_int j));
             m = m(str + word_of_int j := tmp)
         in reverse_loop str (i + 1) (j - 1) m)
      else m)"
  by pat_completeness auto
termination
  by (relation "measure (\<lambda>(str, i, j, m). nat (j - i))") auto

declare reverse_loop.simps [simp del]

definition reverse :: "u32 \<Rightarrow> mem \<Rightarrow> mem option" where
  "reverse str m =
     (case strlen m str of None \<Rightarrow> None | Some len \<Rightarrow> Some (reverse_loop str 0 (sint (len - 1)) m))"

lemma sdiv_ten_decreases: "(n :: int) \<noteq> 0 \<Longrightarrow> \<bar>n sdiv 10\<bar> < \<bar>n\<bar>"
  by (auto simp: signed_divide_int_def sgn_if)

text \<open>The digits go out least significant first; C's \<open>%\<close> takes the sign of the dividend.\<close>

function itoa_loop :: "u32 \<Rightarrow> u32 \<Rightarrow> int \<Rightarrow> mem \<Rightarrow> u32 \<times> mem" where
  "itoa_loop str i n m =
     (if n \<noteq> 0 then
        itoa_loop str (i + 1) (n sdiv 10) (m(str + i := word_of_int (n smod 10 + 48)))
      else (i, m))"
  by pat_completeness auto
termination
  by (relation "measure (\<lambda>(str, i, n, m). nat \<bar>n\<bar>)") (auto simp: sdiv_ten_decreases)

declare itoa_loop.simps [simp del]

definition itoa :: "int \<Rightarrow> u32 \<Rightarrow> mem \<Rightarrow> mem option" where
  "itoa n str m =
     (if n = 0 then Some ((m(str := 48))(str + 1 := 0))
      else
        (let isNegative = n < 0;
             n = (if n < 0 then sint (- word_of_int n :: u32) else n);
             (i, m) = itoa_loop str 0 n m;
             (i, m) = (if isNegative then (i + 1, m(str + i := 45)) else (i, m));
             m = m(str + i := 0)
         in reverse str m))"

text \<open>Base 0 raises the divide exception; with base 1 the loop does not end.\<close>

partial_function (option) utoa_loop :: "u32 \<Rightarrow> u32 \<Rightarrow> u32 \<Rightarrow> u32 \<Rightarrow> mem \<Rightarrow> (u32 \<times> mem) option" where
  "utoa_loop str base i n m =
     (if n \<noteq> 0 then
        (if base = 0 then None
         else
           (let r = n mod base;
                c = (if sint r < 10 then r + 48 else r - 10 + 97)
            in utoa_loop str base (i + 1) (n div base) (m(str + i := ucast c))))
      else Some (i, m))"

definition utoa :: "u32 \<Rightarrow> u32 \<Rightarrow> u32 \<Rightarrow> mem \<Rightarrow> mem option" where
  "utoa n str base m =
     (if n = 0 then Some ((m(str := 48))(str + 1 := 0))
      else
        (case utoa_loop str base 0 n m of None \<Rightarrow> None
         | Some (i, m) \<Rightarrow> reverse str (m(str + i := 0))))"

section \<open>Functions that allocate\<close>

definition strdup :: "(u32 \<Rightarrow> 'h \<Rightarrow> (u32 \<times> 'h) option) \<Rightarrow> u32 \<Rightarrow> mem \<Rightarrow> 'h \<Rightarrow> (u32 \<times> mem \<times> 'h) option" where
  "strdup kmalloc s m h =
     (if s = NULL then Some (NULL, m, h)
      else
        (case strlen m s of None \<Rightarrow> None
         | Some l \<Rightarrow>
             (let len = l + 1 in
              case kmalloc len h of None \<Rightarrow> None
              | Some (new, h) \<Rightarrow> Some (new, if new \<noteq> NULL then memcpy new s len m else m, h))))"

definition strndup :: "(u32 \<Rightarrow> 'h \<Rightarrow> (u32 \<times> 'h) option) \<Rightarrow> u32 \<Rightarrow> u32 \<Rightarrow> mem \<Rightarrow> 'h \<Rightarrow> (u32 \<times> mem \<times> 'h) option" where
  "strndup kmalloc s n m h =
     (if s = NULL then Some (NULL, m, h)
      else
        (let len = strnlen m s n in
         case kmalloc (len + 1) h of None \<Rightarrow> None
         | Some (new, h) \<Rightarrow>
             Some (new, if new \<noteq> NULL then (memcpy new s len m)(new + len := 0) else m, h)))"

definition strconcat :: "(u32 \<Rightarrow> 'h \<Rightarrow> (u32 \<times> 'h) option) \<Rightarrow> u32 \<Rightarrow> u32 \<Rightarrow> mem \<Rightarrow> 'h \<Rightarrow> (u32 \<times> mem \<times> 'h) option" where
  "strconcat kmalloc s1 s2 m h =
     (if s1 = NULL \<and> s2 = NULL then Some (NULL, m, h)
      else if s1 = NULL then strdup kmalloc s2 m h
      else if s2 = NULL then strdup kmalloc s1 m h
      else
        (case (strlen m s1, strlen m s2) of
           (Some len1, Some len2) \<Rightarrow>
             (case kmalloc (len1 + len2 + 1) h of None \<Rightarrow> None
              | Some (new, h) \<Rightarrow>
                  Some (new, if new \<noteq> NULL
                             then memcpy (new + len1) s2 (len2 + 1) (memcpy new s1 len1 m) else m, h))
         | _ \<Rightarrow> None))"

text \<open>The local array of 256 bytes is at the address \<open>buffer\<close>; the variable arguments are not used.\<close>

definition strfmt :: "(u32 \<Rightarrow> 'h \<Rightarrow> (u32 \<times> 'h) option) \<Rightarrow> u32 \<Rightarrow> u32 \<Rightarrow> mem \<Rightarrow> 'h \<Rightarrow> (u32 \<times> mem \<times> 'h) option" where
  "strfmt kmalloc buffer fmt m h =
     (let m = strncpy buffer fmt (256 - 1) m; m = m(buffer + (256 - 1) := 0)
      in strdup kmalloc buffer m h)"

section \<open>Tokens, case, trimming, searching\<close>

partial_function (option) skip_delims :: "mem \<Rightarrow> u32 \<Rightarrow> u32 \<Rightarrow> u32 option" where
  "skip_delims m delim start =
     (if m start = 0 then Some start
      else (case strchr m delim (m start) of None \<Rightarrow> None
            | Some p \<Rightarrow> if p \<noteq> NULL then skip_delims m delim (start + 1) else Some start))"

partial_function (option) find_delim :: "mem \<Rightarrow> u32 \<Rightarrow> u32 \<Rightarrow> u32 option" where
  "find_delim m delim end =
     (if m end = 0 then Some end
      else (case strchr m delim (m end) of None \<Rightarrow> None
            | Some p \<Rightarrow> if p = NULL then find_delim m delim (end + 1) else Some end))"

text \<open>The third component is the value left in \<open>*saveptr\<close>.\<close>

definition strtok_r :: "u32 \<Rightarrow> u32 \<Rightarrow> u32 \<Rightarrow> mem \<Rightarrow> (u32 \<times> mem \<times> u32) option" where
  "strtok_r str delim saveptr m =
     (if delim = NULL then Some (NULL, m, saveptr)
      else if str = NULL \<and> saveptr = NULL then Some (NULL, m, saveptr)
      else
        (case skip_delims m delim (if str \<noteq> NULL then str else saveptr) of None \<Rightarrow> None
         | Some start \<Rightarrow>
             if m start = 0 then Some (NULL, m, start)
             else
               (case find_delim m delim start of None \<Rightarrow> None
                | Some end \<Rightarrow>
                    if m end \<noteq> 0 then Some (start, m(end := 0), end + 1)
                    else Some (start, m, end))))"

definition to_lower :: "u8 \<Rightarrow> u8" where
  "to_lower c = (if 65 \<le> sint c \<and> sint c \<le> 90 then c + 32 else c)"

partial_function (option) stricmp :: "mem \<Rightarrow> u32 \<Rightarrow> u32 \<Rightarrow> int option" where
  "stricmp m s1 s2 =
     (if m s1 \<noteq> 0 \<and> m s2 \<noteq> 0 then
        (let c1 = to_lower (m s1); c2 = to_lower (m s2)
         in if c1 \<noteq> c2 then Some (sint c1 - sint c2) else stricmp m (s1 + 1) (s2 + 1))
      else Some (sint (m s1) - sint (m s2)))"

definition is_blank :: "u8 \<Rightarrow> bool" where
  "is_blank c \<longleftrightarrow> c = 32 \<or> c = 9 \<or> c = 10 \<or> c = 13"

partial_function (option) trim_left :: "mem \<Rightarrow> u32 \<Rightarrow> u32 option" where
  "trim_left m str = (if is_blank (m str) then trim_left m (str + 1) else Some str)"

lemma end_decreases: "(e :: u32) > s \<Longrightarrow> unat (e - 1) < unat e"
  by unat_arith

function trim_right :: "mem \<Rightarrow> u32 \<Rightarrow> u32 \<Rightarrow> u32" where
  "trim_right m str end =
     (if end > str \<and> is_blank (m end) then trim_right m str (end - 1) else end)"
  by pat_completeness auto
termination
  by (relation "measure (\<lambda>(m, str, end). unat end)") (auto simp: end_decreases)

declare trim_right.simps [simp del]

definition strtrim :: "u32 \<Rightarrow> mem \<Rightarrow> (u32 \<times> mem) option" where
  "strtrim str m =
     (if str = NULL then Some (NULL, m)
      else
        (case trim_left m str of None \<Rightarrow> None
         | Some str \<Rightarrow>
             (case strlen m str of None \<Rightarrow> None
              | Some len \<Rightarrow>
                  (let end = trim_right m str (str + len - 1) in Some (str, m(end + 1 := 0))))))"

partial_function (option) match_at :: "mem \<Rightarrow> u32 \<Rightarrow> u32 \<Rightarrow> u32 option" where
  "match_at m h2 n =
     (if m h2 \<noteq> 0 \<and> m n \<noteq> 0 \<and> m h2 = m n then match_at m (h2 + 1) (n + 1) else Some n)"

partial_function (option) strstr_loop :: "mem \<Rightarrow> u32 \<Rightarrow> u32 \<Rightarrow> u32 option" where
  "strstr_loop m h needle =
     (if m h \<noteq> 0 then
        (case match_at m h needle of None \<Rightarrow> None
         | Some n \<Rightarrow> if m n = 0 then Some h else strstr_loop m (h + 1) needle)
      else Some NULL)"

definition strstr :: "mem \<Rightarrow> u32 \<Rightarrow> u32 \<Rightarrow> u32 option" where
  "strstr m haystack needle =
     (if m needle = 0 then Some haystack else strstr_loop m haystack needle)"

section \<open>Strings in memory\<close>

text \<open>\<open>cstr m p xs\<close>: at \<open>p\<close> there is the string \<open>xs\<close>, its bytes not zero, and a terminator.\<close>

primrec cstr :: "mem \<Rightarrow> u32 \<Rightarrow> u8 list \<Rightarrow> bool" where
  "cstr m p [] \<longleftrightarrow> m p = 0"
| "cstr m p (x # xs) \<longleftrightarrow> x \<noteq> 0 \<and> m p = x \<and> cstr m (p + 1) xs"

lemma cstr_nth:
  "cstr m p xs \<longleftrightarrow> (\<forall>i < length xs. xs ! i \<noteq> 0 \<and> m (p + word_of_nat i) = xs ! i) \<and>
     m (p + word_of_nat (length xs)) = 0"
proof (induction xs arbitrary: p)
  case (Cons x xs)
  then show ?case by (auto simp: add.assoc less_Suc_eq_0_disj)
qed simp

lemma strlen_loop_cstr: "cstr m (str + len) xs \<Longrightarrow> strlen_loop m str len = Some (len + word_of_nat (length xs))"
proof (induction xs arbitrary: len)
  case Nil
  then show ?case by (subst strlen_loop.simps) simp
next
  case (Cons x xs)
  then show ?case by (subst strlen_loop.simps) (simp add: add.assoc)
qed

lemma strlen_cstr: "cstr m p xs \<Longrightarrow> strlen m p = Some (word_of_nat (length xs))"
  using strlen_loop_cstr [of m p 0 xs] by (simp add: strlen_def)

lemma cstr_length: "cstr m p xs \<Longrightarrow> length xs < 2 ^ 32"
proof (rule ccontr)
  assume "cstr m p xs" and "\<not> length xs < 2 ^ 32"
  then have n: "2 ^ 32 \<le> length xs" by simp
  define k where "k = length xs mod 2 ^ 32"
  have "word_of_nat k = (word_of_nat (length xs) :: u32)"
    by (simp add: k_def word_unat_eq_iff unat_of_nat)
  moreover have "k < length xs" using n by (metis k_def mod_less_divisor less_le_trans zero_less_numeral zero_less_power)
  ultimately show False using \<open>cstr m p xs\<close> by (metis cstr_nth)
qed

lemma uint_pos: "(b :: u8) \<noteq> 0 \<longleftrightarrow> 0 < uint b"
  by (metis uint_0_iff uint_ge_0 less_le order_less_irrefl)

lemma strcmp_cstr:
  "cstr m p xs \<Longrightarrow> cstr m q ys \<Longrightarrow>
     \<exists>r. strcmp m p q = Some r \<and> (r = 0 \<longleftrightarrow> xs = ys) \<and> (r < 0 \<longleftrightarrow> ord_class.lexordp xs ys)"
proof (induction xs arbitrary: p q ys)
  case Nil
  then show ?case by (cases ys) (auto simp: strcmp.simps [of m p q] uint_pos)
next
  case (Cons x xs)
  then show ?case
    by (cases ys) (auto simp: strcmp.simps [of m p q] word_less_def uint_pos word_uint_eq_iff)
qed

lemma unat_pred: "(n :: u32) \<noteq> 0 \<Longrightarrow> unat (n - 1) = unat n - 1"
  by unat_arith

lemma offset_step:
  "(len :: u32) \<noteq> 0 \<Longrightarrow> (a :: u32) \<noteq> d \<Longrightarrow> unat (a - (d + 1)) < unat (len - 1) \<longleftrightarrow> unat (a - d) < unat len"
proof -
  assume l: "len \<noteq> 0" and "a \<noteq> d"
  then have ad: "a - d \<noteq> 0" by simp
  then have "unat (a - d) \<noteq> 0" "unat len \<noteq> 0" using l by (simp_all add: unat_eq_0)
  with unat_pred [OF ad] unat_pred [OF l] show ?thesis
    by (simp add: diff_diff_eq [symmetric]) linarith
qed

lemma memset_step:
  "len \<noteq> 0 \<Longrightarrow> memset dest val len m = memset (dest + 1) val (len - 1) (m(dest := val))"
  "memset dest val 0 m = m"
  by (subst memset.simps, simp)+

lemma memset_spec: "memset dest val len m a = (if unat (a - dest) < unat len then val else m a)"
proof (induction "unat len" arbitrary: dest len m)
  case 0
  then have "len = 0" by (simp add: unat_eq_0)
  then show ?case by (simp add: memset_step)
next
  case (Suc n)
  then have l: "len \<noteq> 0" by auto
  have "n = unat (len - 1)" using Suc(2) by (simp add: unat_pred [OF l])
  note IH = Suc(1) [OF this, of "dest + 1" "m(dest := val)"]
  show ?case
  proof (cases "a = dest")
    case True
    then show ?thesis using IH l by (simp add: memset_step unat_gt_0)
  next
    case False
    then show ?thesis using IH offset_step [OF l False] l by (simp add: memset_step)
  qed
qed

lemma memcpy_step:
  "len \<noteq> 0 \<Longrightarrow> memcpy d s len m = memcpy (d + 1) (s + 1) (len - 1) (m(d := m s))"
  "memcpy d s 0 m = m"
  by (subst memcpy.simps, simp)+

lemma memcpy_spec:
  assumes "unat len \<le> unat (d - s) \<or> d = s"
  shows "memcpy d s len m a = (if unat (a - d) < unat len then m (s + (a - d)) else m a)"
  using assms
proof (induction "unat len" arbitrary: d s len m)
  case 0
  then have "len = 0" by (simp add: unat_eq_0)
  then show ?case by (simp add: memcpy_step)
next
  case (Suc n)
  then have l: "len \<noteq> 0" by auto
  have n: "n = unat (len - 1)" using Suc(2) by (simp add: unat_pred [OF l])
  have "unat (len - 1) \<le> unat (d - s) \<or> d = s" using Suc(2,3) n by auto
  then have IH: "memcpy (d + 1) (s + 1) (len - 1) (m(d := m s)) a =
      (if unat (a - (d + 1)) < unat (len - 1) then (m(d := m s)) (s + (a - d)) else (m(d := m s)) a)"
    using Suc(1) [OF n, of "d + 1" "s + 1" "m(d := m s)"] by simp
  show ?case
  proof (cases "a = d")
    case True
    then show ?thesis using IH l by (auto simp: memcpy_step unat_gt_0)
  next
    case False
    have "s + (a - d) \<noteq> d" if "unat (a - d) < unat len"
    proof
      assume "s + (a - d) = d"
      then have "a - d = d - s" by (simp add: algebra_simps)
      with that Suc(3) False show False by auto
    qed
    then show ?thesis using IH offset_step [OF l False] l False by (auto simp: memcpy_step)
  qed
qed

lemma memmove_backward_step:
  "len \<noteq> 0 \<Longrightarrow> memmove_backward d s len m = memmove_backward (d - 1) (s - 1) (len - 1) (m(d - 1 := m (s - 1)))"
  "memmove_backward d s 0 m = m"
  by (subst memmove_backward.simps, simp)+

lemma memmove_backward_spec:
  assumes "unat len \<le> unat (s - d) \<or> d = s"
  shows "memmove_backward (d + len) (s + len) len m a =
    (if unat (a - d) < unat len then m (s + (a - d)) else m a)"
  using assms
proof (induction "unat len" arbitrary: len m)
  case 0
  then have "len = 0" by (simp add: unat_eq_0)
  then show ?case by (simp add: memmove_backward_step)
next
  case (Suc n)
  then have l: "len \<noteq> 0" by auto
  have n: "n = unat (len - 1)" using Suc(2) by (simp add: unat_pred [OF l])
  let ?m = "m(d + (len - 1) := m (s + (len - 1)))"
  have "unat (len - 1) \<le> unat (s - d) \<or> d = s" using Suc(2,3) n by auto
  then have "memmove_backward (d + (len - 1)) (s + (len - 1)) (len - 1) ?m a =
      (if unat (a - d) < unat (len - 1) then ?m (s + (a - d)) else ?m a)"
    by (rule Suc(1) [OF n])
  then have IH: "memmove_backward (d + len) (s + len) len m a =
      (if unat (a - d) < unat (len - 1) then ?m (s + (a - d)) else ?m a)"
    using l by (simp add: memmove_backward_step algebra_simps)
  have lt: "unat (a - d) < unat len \<longleftrightarrow> unat (a - d) < unat (len - 1) \<or> a - d = len - 1"
    using unat_pred [OF l] Suc(2) by (auto simp: word_unat_eq_iff)
  have "s + (a - d) \<noteq> d + (len - 1)" if "unat (a - d) < unat (len - 1)" "d \<noteq> s"
  proof
    assume "s + (a - d) = d + (len - 1)"
    then have "s - d = len - 1 - (a - d)" by (simp add: algebra_simps)
    then have "unat (s - d) = unat (len - 1) - unat (a - d)"
      using that by (simp only: unat_sub word_le_nat_alt less_imp_le)
    with that Suc(2,3) n show False by linarith
  qed
  moreover obtain k where "a = d + k" by (metis add_diff_cancel_left' diff_add_cancel)
  ultimately show ?case
    using IH lt by (cases "d = s") (auto simp: add_diff_eq fun_upd_def split: if_splits)
qed

lemma unat_diff_wrap: "d < (s :: u32) \<Longrightarrow> unat (d - s) = 2 ^ 32 + unat d - unat s"
  by (simp add: unat_sub_if_size word_size word_less_nat_alt)

lemma memmove_spec:
  assumes "unat d + unat len \<le> 2 ^ 32" "unat s + unat len \<le> 2 ^ 32"
  shows "memmove d s len m a = (if unat (a - d) < unat len then m (s + (a - d)) else m a)"
proof (cases "d < s")
  case True
  then have "unat (d - s) = 2 ^ 32 + unat d - unat s" by (rule unat_diff_wrap)
  then have "unat len \<le> unat (d - s)" using assms True by (simp add: word_less_nat_alt)
  with True show ?thesis by (simp add: memmove_def memcpy_spec)
next
  case False
  have "unat len \<le> unat (s - d) \<or> d = s"
  proof (cases "d = s")
    case False
    with \<open>\<not> d < s\<close> have "s < d" by simp
    then have "unat (s - d) = 2 ^ 32 + unat s - unat d" by (rule unat_diff_wrap)
    with assms(1) have "unat len \<le> unat (s - d)" by linarith
    then show ?thesis ..
  qed simp
  with False show ?thesis by (simp add: memmove_def memmove_backward_spec)
qed

text \<open>Copying and padding in \<open>strncpy\<close>.\<close>

lemma strncpy_copy_step:
  "n \<noteq> 0 \<Longrightarrow> m src \<noteq> 0 \<Longrightarrow> strncpy_copy d src n m = strncpy_copy (d + 1) (src + 1) (n - 1) (m(d := m src))"
  "n \<noteq> 0 \<Longrightarrow> m src = 0 \<Longrightarrow> strncpy_copy d src n m = (d + 1, n, m(d := 0))"
  "strncpy_copy d src 0 m = (d, 0, m)"
  by (subst strncpy_copy.simps, simp add: Let_def)+

text \<open>No byte of the string at \<open>src\<close> (terminator included) is among the \<open>n\<close> bytes from \<open>d\<close>.\<close>

definition separate :: "u32 \<Rightarrow> nat \<Rightarrow> u32 \<Rightarrow> nat \<Rightarrow> bool" where
  "separate p k q n \<longleftrightarrow> (\<forall>i < k. unat (p + word_of_nat i - q) \<ge> n)"

lemma cstr_upd_separate:
  "cstr m p xs \<Longrightarrow> separate p (Suc (length xs)) q n \<Longrightarrow> unat (a - q) < n \<Longrightarrow> cstr (m(a := v)) p xs"
  by (auto simp: cstr_nth separate_def less_Suc_eq not_le)

lemma separate_tail:
  "separate p (Suc k) q n \<Longrightarrow> separate (p + 1) k (q + 1) (n - 1)"
  "separate p (Suc k) q n \<Longrightarrow> separate (p + 1) k q n"
proof -
  assume s: "separate p (Suc k) q n"
  have "n - 1 \<le> unat (p + word_of_nat i - q)" if "i < k" for i
    using s that by (auto simp: separate_def intro: le_trans [OF diff_le_self])
  then show "separate (p + 1) k (q + 1) (n - 1)"
    by (simp add: separate_def algebra_simps)
  have "n \<le> unat (p + word_of_nat (Suc i) - q)" if "i < k" for i
    using s that Suc_less_eq unfolding separate_def by blast
  then show "separate (p + 1) k q n"
    by (simp add: separate_def algebra_simps)
qed

lemma strncpy_copy_spec:
  assumes "cstr m src xs" "separate src (Suc (length xs)) d (unat n)"
  shows "strncpy_copy d src n m =
    (if length xs < unat n
     then (d + 1 + word_of_nat (length xs), n - word_of_nat (length xs),
           \<lambda>a. if unat (a - d) \<le> length xs then (xs @ [0]) ! unat (a - d) else m a)
     else (d + n, 0, \<lambda>a. if unat (a - d) < unat n then xs ! unat (a - d) else m a))"
  using assms
proof (induction xs arbitrary: src d n m)
  case Nil
  then show ?case
    by (cases "n = 0") (auto simp: strncpy_copy_step fun_upd_def unat_eq_0 fun_eq_iff unat_gt_0)
next
  case (Cons x xs)
  show ?case
  proof (cases "n = 0")
    case True
    then show ?thesis by (simp add: strncpy_copy_step)
  next
    case False
    have x: "m src = x" "x \<noteq> 0" "cstr m (src + 1) xs" using Cons.prems by auto
    have sep: "separate (src + 1) (Suc (length xs)) d (unat n)"
      "separate (src + 1) (Suc (length xs)) (d + 1) (unat (n - 1))"
      using separate_tail [of src "Suc (length xs)" d "unat n"] Cons.prems(2) unat_pred [OF False]
      by simp_all
    have c: "cstr (m(d := x)) (src + 1) xs"
      using cstr_upd_separate [OF x(3) sep(1), of d] False by (simp add: unat_gt_0)
    have idx: "unat (a - d) = Suc (unat (a - (d + 1)))" if "a \<noteq> d" for a
    proof -
      have "a - d \<noteq> 0" using that by simp
      then show ?thesis using unat_pred [of "a - d"] by (simp add: diff_diff_eq [symmetric] unat_gt_0)
    qed
    have top: "unat (d - (d + 1)) = 2 ^ 32 - 1"
      by (simp add: unsigned_minus_1_eq_mask mask_eq_exp_minus_1)
    have "length (x # xs) < 2 ^ 32" using Cons.prems(1) by (rule cstr_length)
    then have f: "(\<lambda>a. if unat (a - (d + 1)) \<le> length xs then (xs @ [0]) ! unat (a - (d + 1)) else (m(d := x)) a) =
      (\<lambda>a. if unat (a - d) \<le> length (x # xs) then ((x # xs) @ [0]) ! unat (a - d) else m a)"
      using top by (intro ext) (auto simp: idx)
    have "unat (n - 1) < 4294967295" using unat_pred [OF False] unat_u32_bound [of n] by linarith
    then have g: "(\<lambda>a. if unat (a - (d + 1)) < unat (n - 1) then xs ! unat (a - (d + 1)) else (m(d := x)) a) =
      (\<lambda>a. if unat (a - d) < unat n then (x # xs) ! unat (a - d) else m a)"
      using top unat_pred [OF False] False by (intro ext) (auto simp: idx unat_gt_0)
    have IH: "strncpy_copy (d + 1) (src + 1) (n - 1) (m(d := x)) =
      (if length xs < unat (n - 1)
       then (d + 1 + 1 + word_of_nat (length xs), n - 1 - word_of_nat (length xs),
         \<lambda>a. if unat (a - d) \<le> length (x # xs) then ((x # xs) @ [0]) ! unat (a - d) else m a)
       else (d + 1 + (n - 1), 0, \<lambda>a. if unat (a - d) < unat n then (x # xs) ! unat (a - d) else m a))"
      unfolding f [symmetric] g [symmetric] by (rule Cons.IH [OF c sep(2)])
    have "length xs < unat (n - 1) \<longleftrightarrow> length (x # xs) < unat n"
      using unat_pred [OF False] by auto
    with IH show ?thesis
      using False x by (simp add: strncpy_copy_step(1) algebra_simps)
  qed
qed

lemma strncpy_spec:
  assumes "cstr m src xs" "separate src (Suc (length xs)) dest (unat n)"
  shows "length xs < unat n \<Longrightarrow> strncpy dest src n m a =
      (if unat (a - dest) < length xs then xs ! unat (a - dest)
       else if unat (a - dest) \<le> unat n then 0 else m a)"
    "unat n \<le> length xs \<Longrightarrow> strncpy dest src n m a =
      (if unat (a - dest) < unat n then xs ! unat (a - dest) else m a)"
proof -
  assume lt: "length xs < unat n"
  let ?l = "word_of_nat (length xs) :: u32"
  have "Suc (length xs) < 4294967296" using lt unat_u32_bound [of n] by linarith
  then have l: "unat ?l = length xs" "unat (?l + 1) = Suc (length xs)"
    by (simp_all add: unat_of_nat unat_word_ariths)
  have "unat (n - ?l) = unat n - length xs"
    using lt l by (simp add: unat_sub word_le_nat_alt)
  moreover have "a - (dest + 1 + ?l) = a - dest - (?l + 1)" by simp
  then have "unat (a - (dest + 1 + ?l)) = (if length xs < unat (a - dest)
      then unat (a - dest) - Suc (length xs) else 2 ^ 32 + unat (a - dest) - Suc (length xs))"
    by (simp only: unat_sub_if_size l word_size) (simp add: Suc_le_eq)
  moreover have "unat n \<le> 4294967295" using unat_u32_bound [of n] by linarith
  ultimately show "strncpy dest src n m a =
      (if unat (a - dest) < length xs then xs ! unat (a - dest)
       else if unat (a - dest) \<le> unat n then 0 else m a)"
    using lt strncpy_copy_spec [OF assms]
    by (auto simp: strncpy_def memset_spec nth_append)
qed (use strncpy_copy_spec [OF assms] in \<open>simp add: strncpy_def memset_step\<close>)

text \<open>Reversing in place.\<close>

lemma reverse_loop_step:
  "i < j \<Longrightarrow> reverse_loop str i j m = reverse_loop str (i + 1) (j - 1)
     ((m(str + word_of_int i := m (str + word_of_int j)))(str + word_of_int j := m (str + word_of_int i)))"
  "\<not> i < j \<Longrightarrow> reverse_loop str i j m = m"
  by (subst reverse_loop.simps, simp add: Let_def)+

lemma index_eq: "0 \<le> i \<Longrightarrow> i < 2 ^ 32 \<Longrightarrow> a = str + word_of_int i \<longleftrightarrow> uint (a - str :: u32) = i"
  by (auto simp: algebra_simps uint_word_of_int_eq take_bit_eq_mod)

lemma uint_offset: "0 \<le> i \<Longrightarrow> i < 2 ^ 32 \<Longrightarrow> uint (str + word_of_int i - str :: u32) = i"
  by (simp add: uint_word_of_int_eq take_bit_int_eq_self)

lemma reverse_loop_spec:
  assumes "0 \<le> i" "j < 2 ^ 31" "i \<le> j + 1"
  shows "reverse_loop str i j m a =
    (if i \<le> uint (a - str) \<and> uint (a - str) \<le> j
     then m (str + word_of_int (i + j - uint (a - str))) else m a)"
  using assms
proof (induction "nat (j - i)" arbitrary: i j m rule: less_induct)
  case less
  show ?case
  proof (cases "i < j")
    case True
    let ?m = "(m(str + word_of_int i := m (str + word_of_int j)))(str + word_of_int j := m (str + word_of_int i))"
    have m: "?m x = (if uint (x - str) = j then m (str + word_of_int i)
        else if uint (x - str) = i then m (str + word_of_int j) else m x)" for x
      using less.prems True by (simp add: index_eq)
    have IH: "reverse_loop str i j m a = (if i + 1 \<le> uint (a - str) \<and> uint (a - str) \<le> j - 1
        then ?m (str + word_of_int (i + j - uint (a - str))) else ?m a)"
      using less.hyps [of "j - 1" "i + 1" ?m] less.prems True by (simp add: reverse_loop_step)
    have mir: "uint (str + word_of_int (i + j - uint (a - str)) - str) = i + j - uint (a - str)"
      if "i + 1 \<le> uint (a - str)" "uint (a - str) \<le> j - 1"
      by (rule uint_offset) (use less.prems that in simp_all)
    show ?thesis
      unfolding IH m using mir less.prems True by auto
  next
    case False
    show ?thesis
    proof (cases "i = j \<and> uint (a - str) = i")
      case True
      then have "a = str + word_of_int i" using less.prems index_eq [of i a str] by simp
      with True show ?thesis by (simp add: reverse_loop_step)
    qed (use False less.prems in \<open>auto simp: reverse_loop_step\<close>)
  qed
qed

lemma cstr_nth_uint:
  "cstr m p xs \<longleftrightarrow> (\<forall>i < length xs. xs ! i \<noteq> 0 \<and> m (p + word_of_int (int i)) = xs ! i) \<and>
     m (p + word_of_int (int (length xs))) = 0"
  by (simp add: cstr_nth)

lemma reverse_cstr:
  assumes "cstr m str xs" "length xs \<le> 2 ^ 31"
  shows "\<exists>m'. reverse str m = Some m' \<and> cstr m' str (rev xs) \<and>
    (\<forall>a. length xs \<le> unat (a - str) \<longrightarrow> m' a = m a)"
proof -
  let ?n = "length xs"
  define j where "j = sint (word_of_nat ?n - 1 :: u32)"
  have "word_of_nat ?n - 1 = (word_of_int (int ?n - 1) :: u32)" by simp
  then have j: "j = int ?n - 1"
    using assms(2) by (simp only: j_def sint_sbintrunc') (simp add: signed_take_bit_int_eq_self)
  let ?m = "reverse_loop str 0 j m"
  have u: "uint (str + word_of_int (int i) - str) = int i" if "i \<le> ?n" for i
    by (rule uint_offset) (use that assms(2) in simp_all)
  have m: "?m a = (if uint (a - str) \<le> j then m (str + word_of_int (j - uint (a - str))) else m a)" for a
    using reverse_loop_spec [of 0 j str m a] assms(2) j by simp
  have "rev xs ! i \<noteq> 0 \<and> ?m (str + word_of_int (int i)) = rev xs ! i" if "i < ?n" for i
  proof -
    have ji: "j - int i = int (?n - Suc i)" "?n - Suc i < ?n" using that j by auto
    have "?m (str + word_of_int (int i)) = m (str + word_of_int (j - int i))"
      unfolding m u [OF less_imp_le [OF that]] using that j by simp
    moreover have "m (str + word_of_int (int (?n - Suc i))) = xs ! (?n - Suc i)" "xs ! (?n - Suc i) \<noteq> 0"
      using assms(1) ji(2) unfolding cstr_nth_uint by blast+
    ultimately show ?thesis unfolding ji(1) rev_nth [OF that] by simp
  qed
  moreover have "?m (str + word_of_int (int ?n)) = 0"
    unfolding m u [OF order_refl] using assms(1) j by (simp add: cstr_nth_uint)
  moreover have "?m a = m a" if "?n \<le> unat (a - str)" for a
  proof -
    have "\<not> uint (a - str) \<le> j" using that j uint_nat [of "a - str"] by linarith
    then show ?thesis unfolding m by simp
  qed
  moreover have "reverse str m = Some ?m"
    using strlen_cstr [OF assms(1)] by (simp add: reverse_def j_def)
  ultimately show ?thesis by (auto simp: cstr_nth_uint)
qed

section \<open>Digits\<close>

text \<open>The value of a digit character, and of a number written in a base.\<close>

definition digit_value :: "u8 \<Rightarrow> nat" where
  "digit_value c = (if c < 58 then unat c - 48 else unat c - 87)"

definition number_value :: "nat \<Rightarrow> u8 list \<Rightarrow> nat" where
  "number_value base ds = fold (\<lambda>d v. v * base + digit_value d) ds 0"

lemma number_value_snoc: "number_value base (ds @ [d]) = number_value base ds * base + digit_value d"
  by (simp add: number_value_def)

text \<open>The digits of \<open>n\<close>, least significant first.\<close>

function digits :: "nat \<Rightarrow> nat \<Rightarrow> u8 list" where
  "digits base n =
     (if n = 0 \<or> base < 2 then []
      else word_of_nat (if n mod base < 10 then n mod base + 48 else n mod base + 87)
           # digits base (n div base))"
  by pat_completeness auto
termination
  by (relation "measure (\<lambda>(base, n). n)") auto

declare digits.simps [simp del]

lemma digit_value_char:
  "r < 36 \<Longrightarrow> digit_value (word_of_nat (if r < 10 then r + 48 else r + 87)) = r"
  "r < 36 \<Longrightarrow> (word_of_nat (if r < 10 then r + 48 else r + 87) :: u8) \<noteq> 0"
  by (auto simp: digit_value_def word_less_nat_alt unat_of_nat word_unat_eq_iff)

lemma digits_value: "2 \<le> base \<Longrightarrow> base \<le> 36 \<Longrightarrow> number_value base (rev (digits base n)) = n"
proof (induction base n rule: digits.induct)
  case (1 base n)
  then have "n mod base < 36" by (meson less_le_trans mod_less_divisor zero_less_numeral less_le_trans)
  with 1 show ?case
    by (subst digits.simps) (auto simp: number_value_snoc number_value_def [of _ "[]"] digit_value_char simp del: of_nat_add)
qed

lemma digits_nonzero: "base \<le> 36 \<Longrightarrow> d \<in> set (digits base n) \<Longrightarrow> d \<noteq> 0"
proof (induction base n rule: digits.induct)
  case (1 base n)
  show ?case
  proof (cases "n = 0 \<or> base < 2")
    case False
    then have "n mod base < 36" using 1(2) by (meson less_le_trans mod_less_divisor not_less not_numeral_le_zero zero_less_iff_neq_zero)
    with 1 False show ?thesis
      by (subst (asm) digits.simps) (use digit_value_char(2) [of "n mod base"] in \<open>auto simp del: of_nat_add\<close>)
  qed (use 1 in \<open>simp add: digits.simps\<close>)
qed

definition base_digit :: "nat \<Rightarrow> u8 \<Rightarrow> bool" where
  "base_digit base c \<longleftrightarrow> (48 \<le> c \<and> c \<le> 57 \<or> 97 \<le> c \<and> c \<le> 122) \<and> digit_value c < base"

lemma digit_char: "r < base \<Longrightarrow> base \<le> 36 \<Longrightarrow> base_digit base (word_of_nat (if r < 10 then r + 48 else r + 87))"
proof -
  assume r: "r < base" "base \<le> 36"
  then have "digit_value (word_of_nat (if r < 10 then r + 48 else r + 87)) = r" by (intro digit_value_char) simp
  then show ?thesis using r unfolding base_digit_def by (simp add: word_le_nat_alt unat_of_nat del: of_nat_add)
qed

lemma digits_chars: "2 \<le> base \<Longrightarrow> base \<le> 36 \<Longrightarrow> list_all (base_digit base) (digits base n) \<and> (n \<noteq> 0 \<longrightarrow> last (digits base n) \<noteq> 48)"
proof (induction base n rule: digits.induct)
  case (1 base n)
  show ?case
  proof (cases "n = 0")
    case False
    let ?c = "word_of_nat (if n mod base < 10 then n mod base + 48 else n mod base + 87) :: u8"
    have d: "digits base n = ?c # digits base (n div base)" using False 1(2) by (subst digits.simps) simp
    have r: "n mod base < base" using 1(2) by simp
    have "?c \<noteq> 48" if "n div base = 0"
    proof -
      have "n mod base = n" "n < 36" using that 1(2,3) False r by (auto simp: div_eq_0_iff)
      then have "digit_value ?c = n" using digit_value_char(1) [of "n mod base"] by simp
      moreover have "digit_value 48 = 0" by (simp add: digit_value_def)
      ultimately show ?thesis using False by metis
    qed
    moreover have "digits base (n div base) = []" if "n div base = 0" using that by (simp add: digits.simps)
    moreover have "digits base (n div base) \<noteq> []" if "n div base \<noteq> 0" using that 1(2) by (subst digits.simps) simp
    ultimately show ?thesis using 1 False digit_char [OF r 1(3)] unfolding d by (cases "n div base = 0") auto
  qed (simp add: digits.simps)
qed

lemma digits_length: "n < 2 ^ k \<Longrightarrow> length (digits base n) \<le> k"
proof (induction k arbitrary: n)
  case 0
  then show ?case by (simp add: digits.simps)
next
  case (Suc k)
  show ?case
  proof (cases "n = 0 \<or> base < 2")
    case False
    then have "n div base \<le> n div 2" by (intro div_le_mono2) auto
    then have "n div base < 2 ^ k" using Suc.prems by simp
    with Suc.IH [of "n div base"] False show ?thesis by (subst digits.simps) simp
  qed (simp add: digits.simps)
qed

lemma sint_less_iff_unat:
  assumes "unat (w :: u32) < 2147483648"
  shows "sint w < int k \<longleftrightarrow> unat w < k"
proof -
  have "uint w < 2147483648" using assms uint_nat [of w] by linarith
  moreover have "- (2 ^ 31) \<le> uint w" by (rule order_trans [of _ 0]) simp_all
  ultimately have "sint w = uint w" by (simp add: sint_uint signed_take_bit_int_eq_self)
  then show ?thesis using uint_nat [of w] by linarith
qed

lemma utoa_digit:
  assumes "base \<le> 36" "2 \<le> (base :: u32)"
  shows "ucast (if sint (n mod base) < 10 then n mod base + 48 else n mod base - 10 + 97) =
    (word_of_nat (if unat n mod unat base < 10 then unat n mod unat base + 48
       else unat n mod unat base + 87) :: u8)"
proof -
  let ?r = "n mod base"
  have r: "unat ?r = unat n mod unat base" by (simp add: unat_mod_distrib)
  have "unat base \<le> 36" "0 < unat base" using assms by (simp_all add: word_le_nat_alt)
  then have lt: "unat ?r < 36" unfolding r by (meson less_le_trans mod_less_divisor)
  have "unat (?r + 48) = unat ?r + 48" "unat (?r + 87) = unat ?r + 87"
    using lt by (simp_all add: unat_word_ariths)
  then have "ucast (?r + 48) = (word_of_nat (unat ?r + 48) :: u8)"
    "ucast (?r + 87) = (word_of_nat (unat ?r + 87) :: u8)"
    by (metis of_nat_unat)+
  moreover have "sint ?r < 10 \<longleftrightarrow> unat ?r < 10"
    using lt sint_less_iff_unat [of ?r 10] by simp
  ultimately show ?thesis using r by (simp del: of_nat_add add: add.commute)
qed

lemma utoa_loop_step:
  "n \<noteq> 0 \<Longrightarrow> base \<noteq> 0 \<Longrightarrow> utoa_loop str base i n m = utoa_loop str base (i + 1) (n div base)
     (m(str + i := ucast (if sint (n mod base) < 10 then n mod base + 48 else n mod base - 10 + 97)))"
  by (subst utoa_loop.simps) (simp add: Let_def)

lemma utoa_loop_digits:
  assumes "2 \<le> base" "base \<le> 36"
  shows "utoa_loop str base i n m =
    Some (i + word_of_nat (length (digits (unat base) (unat n))),
      \<lambda>a. if unat (a - (str + i)) < length (digits (unat base) (unat n))
          then digits (unat base) (unat n) ! unat (a - (str + i)) else m a)"
proof (induction "unat n" arbitrary: n i m rule: less_induct)
  case less
  show ?case
  proof (cases "n = 0")
    case True
    then show ?thesis by (subst utoa_loop.simps) (simp add: digits.simps)
  next
    case False
    let ?ds = "digits (unat base) (unat (n div base))"
    define c :: u8 where "c = word_of_nat (if unat n mod unat base < 10 then unat n mod unat base + 48
       else unat n mod unat base + 87)"
    have b: "base \<noteq> 0" "2 \<le> unat base" using assms(1) by (auto simp: word_le_nat_alt)
    have dg: "digits (unat base) (unat n) = c # ?ds"
      using False b by (subst digits.simps) (simp add: c_def unat_div_distrib unat_eq_0)
    have "unat (n div base) < unat n"
      using False b by (simp add: unat_div_distrib unat_gt_0)
    from less [OF this] have "utoa_loop str base (i + 1) (n div base) (m(str + i := c)) =
      Some (i + 1 + word_of_nat (length ?ds), \<lambda>a. if unat (a - (str + (i + 1))) < length ?ds
        then ?ds ! unat (a - (str + (i + 1))) else (m(str + i := c)) a)" .
    moreover have "length (c # ?ds) \<le> 32"
      unfolding dg [symmetric] by (rule digits_length) simp
    moreover have "(if unat (a - (str + (i + 1))) < length ?ds then ?ds ! unat (a - (str + (i + 1)))
        else (m(str + i := c)) a) =
      (if unat (a - (str + i)) < length (c # ?ds) then (c # ?ds) ! unat (a - (str + i)) else m a)" for a
    proof (cases "a = str + i")
      case True
      then have "unat (a - (str + (i + 1))) = 2 ^ 32 - 1"
        by (simp add: unsigned_minus_1_eq_mask mask_eq_exp_minus_1)
      with \<open>length (c # ?ds) \<le> 32\<close> True show ?thesis by simp
    next
      case n: False
      then have "a - (str + i) \<noteq> 0" by simp
      then have "unat (a - (str + i)) = Suc (unat (a - (str + (i + 1))))"
        using unat_pred [of "a - (str + i)"] by (simp add: diff_diff_eq add.assoc unat_gt_0)
      with n show ?thesis by simp
    qed
    ultimately show ?thesis
      unfolding dg
      using False b by (simp add: utoa_loop_step utoa_digit [OF assms(2,1)] c_def [symmetric] add.assoc)
  qed
qed

lemma utoa_buffer:
  assumes "2 \<le> base" "base \<le> 36" "n \<noteq> 0"
  shows "\<exists>m1. utoa n str base m = reverse str m1 \<and> cstr m1 str (digits (unat base) (unat n)) \<and>
    length (digits (unat base) (unat n)) \<le> 32 \<and> digits (unat base) (unat n) \<noteq> [] \<and>
    (\<forall>a. 33 \<le> unat (a - str) \<longrightarrow> m1 a = m a)"
proof -
  let ?ds = "digits (unat base) (unat n)"
  let ?m = "\<lambda>a. if unat (a - str) < length ?ds then ?ds ! unat (a - str) else m a"
  let ?m1 = "?m(str + word_of_nat (length ?ds) := 0)"
  have len: "length ?ds \<le> 32" by (rule digits_length) simp
  have ne: "?ds \<noteq> []" using assms by (subst digits.simps) (simp add: word_le_nat_alt unat_eq_0)
  have u: "unat (str + word_of_nat i - str) = i" if "i \<le> 32" for i
    using that by (simp add: unat_of_nat)
  have "?ds ! i \<noteq> 0 \<and> ?m1 (str + word_of_nat i) = ?ds ! i" if "i < length ?ds" for i
  proof -
    have "str + word_of_nat i \<noteq> str + word_of_nat (length ?ds)"
      using u [of i] u [of "length ?ds"] that len by (metis less_le_trans less_imp_le nat_neq_iff)
    moreover have "?ds ! i \<noteq> 0"
      using digits_nonzero [OF _ nth_mem [OF that]] assms(2) by (simp add: word_le_nat_alt)
    ultimately show ?thesis using that u [of i] len by simp
  qed
  then have c: "cstr ?m1 str ?ds" unfolding cstr_nth by simp
  have "utoa n str base m = reverse str ?m1"
    using assms utoa_loop_digits [OF assms(1,2), of str 0 n m, unfolded add_0_right] by (simp add: utoa_def)
  moreover have "?m1 a = m a" if "33 \<le> unat (a - str)" for a
    using that len u [of "length ?ds"] by auto
  ultimately show ?thesis using c len ne by blast
qed

section \<open>Searching\<close>

lemma match_at_cstr:
  "cstr m h xs \<Longrightarrow> cstr m n ys \<Longrightarrow> \<exists>n'. match_at m h n = Some n' \<and> (m n' = 0 \<longleftrightarrow> prefix ys xs)"
proof (induction xs arbitrary: h n ys)
  case Nil
  then show ?case by (cases ys) (auto simp: match_at.simps [of m h n])
next
  case (Cons x xs)
  then show ?case by (cases ys) (auto simp: match_at.simps [of m h n])
qed

lemma sublist_drop_prefix: "sublist ys xs \<longleftrightarrow> (\<exists>k. prefix ys (drop k xs))"
proof
  assume "sublist ys xs"
  then obtain ps ss where "xs = ps @ ys @ ss" by (auto simp: sublist_def)
  then show "\<exists>k. prefix ys (drop k xs)" by (intro exI [of _ "length ps"]) simp
next
  assume "\<exists>k. prefix ys (drop k xs)"
  then show "sublist ys xs" by (meson prefix_imp_sublist sublist_drop sublist_order.order_trans)
qed

lemma strstr_loop_cstr:
  assumes "cstr m h xs" "cstr m needle ys" "ys \<noteq> []"
  shows "(\<exists>k < length xs. strstr_loop m h needle = Some (h + word_of_nat k) \<and> prefix ys (drop k xs) \<and>
      (\<forall>j < k. \<not> prefix ys (drop j xs))) \<or>
    (\<forall>k. \<not> prefix ys (drop k xs)) \<and> strstr_loop m h needle = Some NULL"
  using assms(1)
proof (induction xs arbitrary: h)
  case Nil
  then show ?case using assms(3) by (auto simp: strstr_loop.simps [of m h])
next
  case (Cons x xs)
  obtain n where n: "match_at m h needle = Some n" "m n = 0 \<longleftrightarrow> prefix ys (x # xs)"
    using match_at_cstr [OF Cons.prems assms(2)] by auto
  show ?case
  proof (cases "prefix ys (x # xs)")
    case True
    then show ?thesis using n Cons.prems by (auto simp: strstr_loop.simps [of m h] intro!: exI [of _ 0])
  next
    case False
    then have step: "strstr_loop m h needle = strstr_loop m (h + 1) needle"
      using n Cons.prems by (subst strstr_loop.simps) auto
    from Cons.IH [of "h + 1"] Cons.prems consider
      k where "k < length xs" "strstr_loop m (h + 1) needle = Some (h + 1 + word_of_nat k)"
        "prefix ys (drop k xs)" "\<forall>j < k. \<not> prefix ys (drop j xs)"
      | "\<forall>k. \<not> prefix ys (drop k xs)" "strstr_loop m (h + 1) needle = Some NULL"
      by auto
    then show ?thesis
    proof cases
      case 1
      then show ?thesis using False step
        by (intro disjI1 exI [of _ "Suc k"]) (auto simp: less_Suc_eq_0_disj)
    next
      case 2
      have "\<not> prefix ys (drop k (x # xs))" for k using 2(1) False by (cases k) auto
      with 2 step show ?thesis by auto
    qed
  qed
qed

section \<open>Properties\<close>

text \<open>C3: \<open>memmove\<close> is right for overlapping regions. When neither region runs past the end of the
  address space, the destination holds afterwards exactly what the source held before, byte by
  byte, and no other byte changes.\<close>

theorem memmove_exact:
  assumes "unat d + unat len \<le> 2 ^ 32" "unat s + unat len \<le> 2 ^ 32"
  shows "(\<forall>k < len. memmove d s len m (d + k) = m (s + k)) \<and>
    (\<forall>a. len \<le> a - d \<longrightarrow> memmove d s len m a = m a)"
  using memmove_spec [OF assms] by (simp add: word_less_nat_alt word_le_nat_alt)

theorem memmove_exact_witness:
  "memmove 101 100 3 ((\<lambda>_. 0)(100 := 1, 101 := 2, 102 := 3)) (101 + 2) = 3 \<and>
   memmove 101 100 3 ((\<lambda>_. 0)(100 := 1, 101 := 2, 102 := 3)) 100 = 1"
proof -
  let ?m = "(\<lambda>_. 0)(100 := 1, 101 := 2, 102 := 3) :: mem"
  have mv: "(\<forall>k < 3. memmove 101 100 3 ?m (101 + k) = ?m (100 + k)) \<and>
      (\<forall>a. 3 \<le> a - 101 \<longrightarrow> memmove 101 100 3 ?m a = ?m a)"
    by (rule memmove_exact) simp_all
  show ?thesis
    using mv [THEN conjunct1, rule_format, of 2] mv [THEN conjunct2, rule_format, of 100] by simp
qed

text \<open>\<open>strncpy\<close> writes one byte too many. When the source (not overlapping the destination) is
  shorter than \<open>n\<close>, the string is copied and the rest of the \<open>n\<close> bytes is cleared, but so is the
  byte after them; when it is not shorter, exactly \<open>n\<close> bytes are written and no terminator.\<close>

lemma strncpy_writes_past_end:
  assumes "cstr m src xs" "separate src (Suc (length xs)) dest (unat n)"
  shows "strncpy dest src n m a =
    (if length xs < unat n then
       (if unat (a - dest) < length xs then xs ! unat (a - dest)
        else if unat (a - dest) \<le> unat n then 0 else m a)
     else (if unat (a - dest) < unat n then xs ! unat (a - dest) else m a))"
  using strncpy_spec [OF assms] by simp

text \<open>C31: numbers are printed so that they can be read back. For every base from 2 to 36 \<open>utoa\<close> returns and leaves a string of digits of that base
  (decimal digits, then small letters), at most 32 of them and without a leading zero unless the number is 0, whose value in
  that base is \<open>n\<close>; no byte past the 33 from \<open>str\<close> changes.\<close>

theorem utoa_roundtrip:
  assumes "2 \<le> base" "base \<le> 36"
  shows "\<exists>m' ds. utoa n str base m = Some m' \<and> cstr m' str ds \<and> ds \<noteq> [] \<and> list_all (base_digit (unat base)) ds \<and> (hd ds = 48 \<longrightarrow> n = 0) \<and>
    number_value (unat base) ds = unat n \<and> length ds \<le> 32 \<and>
    (\<forall>a. 33 \<le> unat (a - str) \<longrightarrow> m' a = m a)"
proof (cases "n = 0")
  case True
  have "base_digit (unat base) 48" using assms(1) by (simp add: base_digit_def digit_value_def word_le_nat_alt)
  then show ?thesis using True
    by (auto simp: utoa_def number_value_def digit_value_def intro!: exI [of _ "[48]"])
next
  case False
  let ?ds = "digits (unat base) (unat n)"
  have b: "2 \<le> unat base" "unat base \<le> 36" "unat n \<noteq> 0" using assms False by (simp_all add: word_le_nat_alt unat_eq_0)
  obtain m1 where u: "utoa n str base m = reverse str m1" and c: "cstr m1 str ?ds"
    and len: "length ?ds \<le> 32" "?ds \<noteq> []"
    and fr: "\<forall>a. 33 \<le> unat (a - str) \<longrightarrow> m1 a = m a"
    using utoa_buffer [OF assms False, of str m] by blast
  obtain m' where "reverse str m1 = Some m'" "cstr m' str (rev ?ds)"
    "\<forall>a. length ?ds \<le> unat (a - str) \<longrightarrow> m' a = m1 a"
    using reverse_cstr [OF c] len by auto
  moreover have "number_value (unat base) (rev ?ds) = unat n" by (rule digits_value [OF b(1,2)])
  moreover have "list_all (base_digit (unat base)) (rev ?ds)" "hd (rev ?ds) \<noteq> 48"
    using digits_chars [OF b(1,2), of "unat n"] b(3) len(2) by (auto simp: list_all_iff hd_rev)
  ultimately show ?thesis using u fr len by (intro exI [of _ m'] exI [of _ "rev ?ds"]) auto
qed

theorem utoa_roundtrip_witness:
  "\<exists>m' ds. utoa 0xBEEF 0x1000 16 (\<lambda>_. 7) = Some m' \<and> cstr m' 0x1000 ds \<and> list_all (base_digit 16) ds \<and> number_value 16 ds = 0xBEEF \<and> m' 0x1021 = 7"
proof -
  obtain m' ds where r: "utoa 0xBEEF 0x1000 16 (\<lambda>_. 7) = Some m'" "cstr m' 0x1000 ds" "list_all (base_digit (unat (16 :: u32))) ds"
    "number_value (unat (16 :: u32)) ds = unat (0xBEEF :: u32)" "\<forall>a. 33 \<le> unat (a - 0x1000) \<longrightarrow> m' a = 7"
    using utoa_roundtrip [of 16 "0xBEEF" "0x1000" "\<lambda>_. 7"] by auto
  then show ?thesis by (intro exI [of _ m'] exI [of _ ds]) simp
qed

text \<open>\<open>strstr\<close> finds the first occurrence. It returns the address of the first position at which
  the needle is a prefix of the rest of the haystack, and \<open>NULL\<close> exactly when there is none.\<close>

lemma strstr_first_occurrence:
  assumes "cstr m haystack xs" "cstr m needle ys"
  shows "(\<exists>k \<le> length xs. strstr m haystack needle = Some (haystack + word_of_nat k) \<and>
      prefix ys (drop k xs) \<and> (\<forall>j < k. \<not> prefix ys (drop j xs))) \<or>
    (\<not> sublist ys xs \<and> strstr m haystack needle = Some NULL)"
proof (cases "ys = []")
  case True
  then show ?thesis using assms by (auto simp: strstr_def intro!: exI [of _ 0])
next
  case False
  then have "strstr m haystack needle = strstr_loop m haystack needle"
    using assms(2) by (cases ys) (auto simp: strstr_def)
  then show ?thesis
    using strstr_loop_cstr [OF assms False] sublist_drop_prefix [of ys xs]
    by (metis less_imp_le)
qed

end
