(* ===== verification/Heap.thy ===== *)
theory Heap
  imports Pmm
begin

text \<open>
  The kernel heap of \<open>src/mm/heap.c\<close>. Block headers live in a typed store \<open>blocks\<close> from addresses
  to \<open>heap_block\<close>; the size word at the start of a large allocation is the \<open>hb_size\<close> field at its
  page address, which is where it lies in memory. \<open>words\<close> holds the pointers that
  \<open>kmalloc_aligned\<close> stores in front of the address it returns. A walk along the free list is
  partial (\<open>None\<close>: the list is cyclic and the walk does not return); the invariant rules that out.
\<close>

unbundle bit_operations_syntax

section \<open>State and operations\<close>

record heap_block =
  hb_size :: u32
  hb_next :: u32
  hb_free :: u32
  hb_magic :: u32

abbreviation HEAP_MAGIC :: u32 where
  "HEAP_MAGIC \<equiv> 0xDEADBEEF"

abbreviation HEAP_INITIAL_PAGES :: nat where
  "HEAP_INITIAL_PAGES \<equiv> 4"

abbreviation HEAP_MAX_PAGES :: u32 where
  "HEAP_MAX_PAGES \<equiv> 256"

text \<open>\<open>sizeof(heap_block_t)\<close> is 16.\<close>

abbreviation HEADER :: u32 where
  "HEADER \<equiv> 16"

abbreviation MIN_BLOCK_SIZE :: u32 where
  "MIN_BLOCK_SIZE \<equiv> HEADER + 8"

record heap_state =
  heap_pages :: "u32 list"
  page_count :: u32
  free_list :: u32
  blocks :: "u32 \<Rightarrow> heap_block"
  words :: "u32 \<Rightarrow> u32"
  pmm :: pmm_state

definition align_size :: "u32 \<Rightarrow> u32" where
  "align_size sz = (sz + 7) AND NOT 7"

definition total_size :: "u32 \<Rightarrow> u32" where
  "total_size sz = HEADER + align_size sz"

text \<open>The common part of \<open>heap_init\<close> and \<open>heap_grow\<close>: record the page, make it one free block.\<close>

definition add_page :: "u32 \<Rightarrow> heap_state \<Rightarrow> heap_state" where
  "add_page page h = h\<lparr>heap_pages := (heap_pages h)[unat (page_count h) := page],
     page_count := page_count h + 1,
     blocks := (blocks h)(page := \<lparr>hb_size = PAGE_SIZE - HEADER, hb_next = free_list h,
       hb_free = 1, hb_magic = HEAP_MAGIC\<rparr>),
     free_list := page\<rparr>"

fun heap_init_loop :: "nat \<Rightarrow> heap_state \<Rightarrow> heap_state" where
  "heap_init_loop 0 h = h"
| "heap_init_loop (Suc n) h =
     (let (page, p) = pmm_alloc_block (pmm h); h = h\<lparr>pmm := p\<rparr> in
      if page = NULL then h else heap_init_loop n (add_page page h))"

definition heap_init :: "heap_state \<Rightarrow> heap_state" where
  "heap_init h = heap_init_loop HEAP_INITIAL_PAGES
     (h\<lparr>heap_pages := replicate 256 NULL, page_count := 0, free_list := NULL\<rparr>)"

definition heap_grow :: "heap_state \<Rightarrow> bool \<times> heap_state" where
  "heap_grow h =
     (if page_count h \<ge> HEAP_MAX_PAGES then (False, h)
      else
        (let (page, p) = pmm_alloc_block (pmm h); h = h\<lparr>pmm := p\<rparr> in
         if page = NULL then (False, h) else (True, add_page page h)))"

definition split_block :: "u32 \<Rightarrow> u32 \<Rightarrow> (u32 \<Rightarrow> heap_block) \<Rightarrow> (u32 \<Rightarrow> heap_block)" where
  "split_block block sz bl =
     (let remaining = hb_size (bl block) - sz in
      if remaining \<ge> MIN_BLOCK_SIZE then
        (let new_block = block + HEADER + sz;
             bl = bl(new_block := \<lparr>hb_size = remaining - HEADER, hb_next = hb_next (bl block),
               hb_free = 1, hb_magic = HEAP_MAGIC\<rparr>)
         in bl(block := (bl block)\<lparr>hb_size := sz, hb_next := new_block\<rparr>))
      else bl)"

partial_function (option) merge_loop :: "u32 \<Rightarrow> (u32 \<Rightarrow> heap_block) \<Rightarrow> (u32 \<Rightarrow> heap_block) option" where
  "merge_loop cur bl =
     (if cur \<noteq> NULL then
        (let nxt = hb_next (bl cur) in
         if nxt \<noteq> NULL \<and> hb_free (bl cur) \<noteq> 0 \<and> hb_free (bl nxt) \<noteq> 0 \<and>
            nxt = cur + HEADER + hb_size (bl cur)
         then merge_loop cur (bl(cur := (bl cur)\<lparr>
                hb_size := hb_size (bl cur) + (HEADER + hb_size (bl nxt)), hb_next := hb_next (bl nxt)\<rparr>))
         else merge_loop nxt bl)
      else Some bl)"

definition merge_blocks :: "heap_state \<Rightarrow> heap_state option" where
  "merge_blocks h =
     (case merge_loop (free_list h) (blocks h) of None \<Rightarrow> None | Some bl \<Rightarrow> Some (h\<lparr>blocks := bl\<rparr>))"

function release_pages :: "u32 \<Rightarrow> u32 \<Rightarrow> u32 \<Rightarrow> pmm_state \<Rightarrow> pmm_state" where
  "release_pages first n j p =
     (if j < n then release_pages first n (j + 1) (pmm_free_block (first + j * PAGE_SIZE) p) else p)"
  by pat_completeness auto
termination
  by (relation "measure (\<lambda>(first, n, j, p). unat n - unat j)") (auto simp: loop_measure)

declare release_pages.simps [simp del]

function more_pages :: "u32 \<Rightarrow> u32 \<Rightarrow> u32 \<Rightarrow> pmm_state \<Rightarrow> bool \<times> pmm_state" where
  "more_pages first_page pages_needed i p =
     (if i < pages_needed then
        (let (page, p) = pmm_alloc_block p in
         if page = NULL then (False, release_pages first_page i 0 p)
         else more_pages first_page pages_needed (i + 1) p)
      else (True, p))"
  by pat_completeness auto
termination
  by (relation "measure (\<lambda>(first, n, i, p). unat n - unat i)") (auto simp: loop_measure)

declare more_pages.simps [simp del]

definition kmalloc_large :: "u32 \<Rightarrow> heap_state \<Rightarrow> u32 \<times> heap_state" where
  "kmalloc_large needed h =
     (let pages_needed = (needed + PAGE_SIZE - 1) div PAGE_SIZE;
          (first_page, p) = pmm_alloc_block (pmm h)
      in if first_page = NULL then (NULL, h\<lparr>pmm := p\<rparr>)
         else
           (let (ok, p) = more_pages first_page pages_needed 1 p in
            if \<not> ok then (NULL, h\<lparr>pmm := p\<rparr>)
            else (first_page + 4,
                  h\<lparr>pmm := p, blocks := (blocks h)(first_page :=
                    (blocks h first_page)\<lparr>hb_size := pages_needed * PAGE_SIZE\<rparr>)\<rparr>)))"

text \<open>The first fitting block and its predecessor; \<open>cur = NULL\<close> when there is none.\<close>

partial_function (option) find_block ::
  "(u32 \<Rightarrow> heap_block) \<Rightarrow> u32 \<Rightarrow> u32 \<Rightarrow> u32 \<Rightarrow> (u32 \<times> u32) option" where
  "find_block bl sz prev cur =
     (if cur \<noteq> NULL then
        (if hb_free (bl cur) \<noteq> 0 \<and> hb_size (bl cur) \<ge> sz then Some (prev, cur)
         else find_block bl sz cur (hb_next (bl cur)))
      else Some (prev, NULL))"

definition take_block :: "u32 \<Rightarrow> u32 \<Rightarrow> u32 \<Rightarrow> heap_state \<Rightarrow> heap_state" where
  "take_block sz prev cur h =
     (let bl = split_block cur (align_size sz) (blocks h);
          bl = bl(cur := (bl cur)\<lparr>hb_free := 0\<rparr>)
      in if prev \<noteq> NULL
         then h\<lparr>blocks := bl(prev := (bl prev)\<lparr>hb_next := hb_next (bl cur)\<rparr>)\<rparr>
         else h\<lparr>blocks := bl, free_list := hb_next (bl cur)\<rparr>)"

partial_function (option) kmalloc :: "u32 \<Rightarrow> heap_state \<Rightarrow> (u32 \<times> heap_state) option" where
  "kmalloc sz h =
     (if sz = 0 then Some (NULL, h)
      else if total_size sz \<ge> PAGE_SIZE div 2 then Some (kmalloc_large (total_size sz) h)
      else
        (case find_block (blocks h) sz NULL (free_list h) of None \<Rightarrow> None
         | Some (prev, cur) \<Rightarrow>
             if cur \<noteq> NULL then Some (cur + HEADER, take_block sz prev cur h)
             else
               (let (ok, h) = heap_grow h in
                if ok then kmalloc sz h else Some (NULL, h))))"

definition kfree :: "u32 \<Rightarrow> heap_state \<Rightarrow> heap_state option" where
  "kfree ptr h =
     (if ptr = NULL then Some h
      else
        (let header = ptr - 4 in
         if header AND (PAGE_SIZE - 1) = 0 then
           Some (h\<lparr>pmm := release_pages header (hb_size (blocks h header) div PAGE_SIZE) 0 (pmm h)\<rparr>)
         else
           (let block = ptr - HEADER in
            if hb_magic (blocks h block) \<noteq> HEAP_MAGIC then Some h
            else
              merge_blocks (h\<lparr>blocks := (blocks h)(block := (blocks h block)\<lparr>hb_free := 1,
                hb_next := free_list h\<rparr>), free_list := block\<rparr>))))"

definition kmalloc_aligned :: "u32 \<Rightarrow> u32 \<Rightarrow> heap_state \<Rightarrow> (u32 \<times> heap_state) option" where
  "kmalloc_aligned sz alignment h =
     (if alignment = PAGE_SIZE \<and> sz = PAGE_SIZE then
        (let (page, p) = pmm_alloc_block (pmm h) in Some (page, h\<lparr>pmm := p\<rparr>))
      else
        (case kmalloc (sz + alignment + 4) h of None \<Rightarrow> None
         | Some (ptr, h) \<Rightarrow>
             if ptr = NULL then Some (NULL, h)
             else
               (let aligned = (ptr + 4 + alignment - 1) AND NOT (alignment - 1)
                in Some (aligned, h\<lparr>words := (words h)(aligned - 4 := ptr)\<rparr>))))"

record heap_stats =
  total_pages :: u32
  total_bytes :: u32
  free_bytes :: u32
  used_bytes :: u32

partial_function (option) stats_loop ::
  "(u32 \<Rightarrow> heap_block) \<Rightarrow> u32 \<Rightarrow> heap_stats \<Rightarrow> heap_stats option" where
  "stats_loop bl cur st =
     (if cur \<noteq> NULL then
        stats_loop bl (hb_next (bl cur))
          (if hb_free (bl cur) \<noteq> 0 then st\<lparr>free_bytes := free_bytes st + hb_size (bl cur)\<rparr>
           else st\<lparr>used_bytes := used_bytes st + hb_size (bl cur)\<rparr>)
      else Some st)"

definition heap_get_stats :: "heap_state \<Rightarrow> heap_stats option" where
  "heap_get_stats h =
     (case stats_loop (blocks h) (free_list h)
        \<lparr>total_pages = 0, total_bytes = 0, free_bytes = 0, used_bytes = 0\<rparr> of
        None \<Rightarrow> None
      | Some st \<Rightarrow> Some (st\<lparr>total_pages := page_count h, total_bytes := page_count h * PAGE_SIZE\<rparr>))"

section \<open>The free list and the blocks\<close>

text \<open>\<open>path bl p xs\<close>: following \<open>next\<close> from \<open>p\<close> visits exactly \<open>xs\<close> and ends at \<open>NULL\<close>.\<close>

primrec path :: "(u32 \<Rightarrow> heap_block) \<Rightarrow> u32 \<Rightarrow> u32 list \<Rightarrow> bool" where
  "path bl p [] \<longleftrightarrow> p = NULL"
| "path bl p (x # xs) \<longleftrightarrow> p = x \<and> x \<noteq> NULL \<and> path bl (hb_next (bl x)) xs"

lemma path_cong: "(\<And>x. x \<in> set xs \<Longrightarrow> hb_next (bl x) = hb_next (bl' x)) \<Longrightarrow> path bl p xs = path bl' p xs"
  by (induction xs arbitrary: p) auto

lemma path_upd [simp]: "x \<notin> set xs \<Longrightarrow> path (bl(x := b)) p xs = path bl p xs"
  by (rule path_cong) auto

lemma path_upd_lambda [simp]: "x \<notin> set xs \<Longrightarrow> path (\<lambda>a. if a = x then b else bl a) p xs = path bl p xs"
  by (rule path_cong) auto

lemma path_NULL: "path bl p xs \<Longrightarrow> NULL \<notin> set xs"
  by (induction xs arbitrary: p) auto

text \<open>
  A block occupies its header and its data; \<open>F\<close> is the set of frames the heap owns. \<open>tiles\<close>: the
  blocks of \<open>S\<close> are well formed, lie inside the heap's frames and do not overlap.
\<close>

definition block_end :: "(u32 \<Rightarrow> heap_block) \<Rightarrow> u32 \<Rightarrow> nat" where
  "block_end bl b = unat b + 16 + unat (hb_size (bl b))"

definition block_ok :: "nat set \<Rightarrow> (u32 \<Rightarrow> heap_block) \<Rightarrow> u32 \<Rightarrow> bool" where
  "block_ok F bl b \<longleftrightarrow> b \<noteq> NULL \<and> unat b mod 8 = 0 \<and> unat (hb_size (bl b)) mod 8 = 0 \<and>
     block_end bl b \<le> 134217728 \<and> hb_magic (bl b) = HEAP_MAGIC \<and>
     (\<forall>a. unat b \<le> a \<and> a < block_end bl b \<longrightarrow> a div 4096 \<in> F)"

definition apart :: "(u32 \<Rightarrow> heap_block) \<Rightarrow> u32 \<Rightarrow> u32 \<Rightarrow> bool" where
  "apart bl x y \<longleftrightarrow> block_end bl x \<le> unat y \<or> block_end bl y \<le> unat x"

definition tiles :: "nat set \<Rightarrow> (u32 \<Rightarrow> heap_block) \<Rightarrow> u32 set \<Rightarrow> bool" where
  "tiles F bl S \<longleftrightarrow> (\<forall>b \<in> S. block_ok F bl b) \<and> (\<forall>x \<in> S. \<forall>y \<in> S. x \<noteq> y \<longrightarrow> apart bl x y)"

lemma apart_sym: "apart bl x y \<longleftrightarrow> apart bl y x"
  by (auto simp: apart_def)

lemma block_end_cong: "hb_size (bl b) = hb_size (bl' b) \<Longrightarrow> block_end bl b = block_end bl' b"
  by (simp add: block_end_def)

lemma tiles_cong:
  assumes "tiles F bl S" "\<And>b. b \<in> S \<Longrightarrow> hb_size (bl' b) = hb_size (bl b) \<and> hb_magic (bl' b) = hb_magic (bl b)"
  shows "tiles F bl' S"
proof -
  have "block_end bl' b = block_end bl b" if "b \<in> S" for b
    using assms(2) [OF that] by (simp add: block_end_def)
  with assms show ?thesis by (simp add: tiles_def block_ok_def apart_def)
qed

lemma tiles_mono: "tiles F bl S \<Longrightarrow> F \<subseteq> F' \<Longrightarrow> S' \<subseteq> S \<Longrightarrow> tiles F' bl S'"
  unfolding tiles_def block_ok_def by (meson subsetD)

lemma tiles_split:
  assumes t: "tiles F bl S" and x: "x \<in> S"
    and n: "unat n mod 8 = 0" "unat (hb_size (bl x)) = unat n + 16 + unat k"
    and y: "y = x + HEADER + n"
    and bl': "hb_size (bl' x) = n" "hb_magic (bl' x) = HEAP_MAGIC"
      "hb_size (bl' y) = k" "hb_magic (bl' y) = HEAP_MAGIC"
      "\<And>b. b \<in> S \<Longrightarrow> b \<noteq> x \<Longrightarrow> hb_size (bl' b) = hb_size (bl b) \<and> hb_magic (bl' b) = hb_magic (bl b)"
  shows "tiles F bl' (insert y S)" "y \<notin> S" "unat y = unat x + 16 + unat n"
proof -
  have ok: "block_ok F bl x" using t x by (simp add: tiles_def)
  then have le: "unat x + 16 + unat (hb_size (bl x)) \<le> 134217728"
    by (simp add: block_ok_def block_end_def)
  show uy: "unat y = unat x + 16 + unat n"
    using le n by (simp add: y unat_word_ariths)
  have ends: "block_end bl' x = unat y" "block_end bl' y = block_end bl x"
    using n bl' uy by (simp_all add: block_end_def)
  have endb: "block_end bl' b = block_end bl b" if "b \<in> S" "b \<noteq> x" for b
    using bl'(5) [OF that] by (simp add: block_end_def)
  have ap: "block_end bl x \<le> unat b \<or> block_end bl b \<le> unat x" if "b \<in> S" "b \<noteq> x" for b
    using t x that by (auto simp: tiles_def apart_def)
  have yx: "unat x < unat y" "unat y + 16 + unat k = block_end bl x" 
    using uy n by (simp_all add: block_end_def)
  have yS: "b \<noteq> y" if "b \<in> S" for b
    using ap [OF that] yx by (cases "b = x") (auto simp: block_end_def)
  then show "y \<notin> S" by auto
  have "unat x mod 8 = 0" "unat (hb_size (bl x)) mod 8 = 0" using ok by (simp_all add: block_ok_def)
  then have m8: "unat y mod 8 = 0" "unat k mod 8 = 0"
    using uy n by presburger+
  have okx: "block_ok F bl' x" "block_ok F bl' y"
    using ok n(1) bl'(1-4) ends yx m8 by (auto simp: block_ok_def)
  have okb: "block_ok F bl' b" if "b \<in> S" "b \<noteq> x" for b
    using t that bl'(5) [OF that] endb [OF that] by (simp add: tiles_def block_ok_def)
  have "apart bl' x y" using ends by (simp add: apart_def)
  moreover have "apart bl' b x" "apart bl' b y" if "b \<in> S" "b \<noteq> x" for b
    using ap [OF that] endb [OF that] ends yx by (auto simp: apart_def)
  moreover have "apart bl' a b" if "a \<in> S" "b \<in> S" "a \<noteq> x" "b \<noteq> x" "a \<noteq> b" for a b
    using t that endb by (simp add: tiles_def apart_def)
  ultimately have "apart bl' a b" if "a \<in> insert y S" "b \<in> insert y S" "a \<noteq> b" for a b
    using that apart_sym by (metis insertE)
  with okx okb show "tiles F bl' (insert y S)" by (auto simp: tiles_def)
qed

lemma tiles_merge:
  assumes t: "tiles F bl S" and xy: "x \<in> S" "y \<in> S" "unat y = block_end bl x"
    and bl': "unat (hb_size (bl' x)) = unat (hb_size (bl x)) + 16 + unat (hb_size (bl y))"
      "hb_magic (bl' x) = hb_magic (bl x)"
      "\<And>b. b \<in> S \<Longrightarrow> b \<noteq> x \<Longrightarrow> b \<noteq> y \<Longrightarrow>
         hb_size (bl' b) = hb_size (bl b) \<and> hb_magic (bl' b) = hb_magic (bl b)"
  shows "tiles F bl' (S - {y})"
proof -
  have okx: "block_ok F bl x" and oky: "block_ok F bl y" using t xy by (auto simp: tiles_def)
  have "x \<noteq> y" using xy(3) by (auto simp: block_end_def)
  have e: "block_end bl' x = block_end bl y" using bl'(1) xy(3) by (simp add: block_end_def)
  have endb: "block_end bl' b = block_end bl b" if "b \<in> S" "b \<noteq> x" "b \<noteq> y" for b
    using bl'(3) [OF that] by (simp add: block_end_def)
  have ap: "block_end bl x \<le> unat b \<or> block_end bl b \<le> unat x"
    "block_end bl y \<le> unat b \<or> block_end bl b \<le> unat y" if "b \<in> S" "b \<noteq> x" "b \<noteq> y" for b
    using t xy(1,2) that unfolding tiles_def apart_def by blast+
  have pos: "unat b < block_end bl b" for b by (simp add: block_end_def)
  have "apart bl' b x" if "b \<in> S" "b \<noteq> x" "b \<noteq> y" for b
    using ap [OF that] endb [OF that] e xy(3) pos [of b] pos [of x] by (auto simp: apart_def)
  moreover have "apart bl' a b" if "a \<in> S" "b \<in> S" "a \<noteq> x" "b \<noteq> x" "a \<noteq> y" "b \<noteq> y" "a \<noteq> b" for a b
    using t that endb by (simp add: tiles_def apart_def)
  ultimately have "apart bl' a b" if "a \<in> S - {y}" "b \<in> S - {y}" "a \<noteq> b" for a b
    using that apart_sym by (metis Diff_iff insertI1)
  moreover have "block_ok F bl' x"
  proof -
    have "unat (hb_size (bl' x)) mod 8 = 0"
      using okx oky bl'(1) by (auto simp: block_ok_def)
    moreover have "a div 4096 \<in> F" if "unat x \<le> a" "a < block_end bl' x" for a
      using that okx oky e xy(3) by (cases "a < unat y") (auto simp: block_ok_def)
    ultimately show ?thesis using okx oky bl'(2) e by (auto simp: block_ok_def)
  qed
  moreover have "block_ok F bl' b" if "b \<in> S" "b \<noteq> x" "b \<noteq> y" for b
    using t that bl'(3) [OF that] endb [OF that] by (simp add: tiles_def block_ok_def)
  ultimately show ?thesis by (auto simp: tiles_def)
qed

lemma tiles_add:
  assumes t: "tiles F bl S" and y: "block_ok F' bl' y" "F \<subseteq> F'"
    and fresh: "\<And>a. unat y \<le> a \<Longrightarrow> a < block_end bl' y \<Longrightarrow> a div 4096 \<notin> F"
    and bl': "\<And>b. b \<in> S \<Longrightarrow> hb_size (bl' b) = hb_size (bl b) \<and> hb_magic (bl' b) = hb_magic (bl b)"
  shows "tiles F' bl' (insert y S)" "y \<notin> S"
proof -
  have t': "tiles F' bl' S" "tiles F bl' S"
    using tiles_mono [OF tiles_cong [OF t bl'] y(2) order_refl] tiles_cong [OF t bl'] by auto
  have "apart bl' b y" if "b \<in> S" for b
  proof (rule ccontr)
    assume "\<not> apart bl' b y"
    then have lt: "unat y < block_end bl' b" "unat b < block_end bl' y" by (auto simp: apart_def)
    have b: "block_ok F bl' b" using t'(2) that by (simp add: tiles_def)
    have "max (unat b) (unat y) div 4096 \<in> F" using b lt by (auto simp: block_ok_def block_end_def max_def)
    moreover have "max (unat b) (unat y) div 4096 \<notin> F" using lt by (intro fresh) (auto simp: block_end_def)
    ultimately show False by simp
  qed
  then show "tiles F' bl' (insert y S)"
    using t'(1) y(1) apart_sym by (auto simp: tiles_def)
  show "y \<notin> S"
  proof
    assume "y \<in> S"
    then have "unat y div 4096 \<in> F" using t'(2) by (auto simp: tiles_def block_ok_def block_end_def)
    with fresh [of "unat y"] show False by (simp add: block_end_def)
  qed
qed

lemma path_mid: "path bl p (us @ x # vs) \<Longrightarrow> x \<noteq> NULL \<and> path bl (hb_next (bl x)) vs"
  by (induction us arbitrary: p) auto

lemma path_relink:
  "us \<noteq> [] \<Longrightarrow> path bl p (us @ vs) \<Longrightarrow> distinct us \<Longrightarrow> set us \<inter> set ws = {} \<Longrightarrow>
     (\<And>u. u \<in> set us \<Longrightarrow> bl' u = bl u) \<Longrightarrow> path bl' q ws \<Longrightarrow>
     path (bl'(last us := (bl' (last us))\<lparr>hb_next := q\<rparr>)) p (us @ ws)"
proof (induction us arbitrary: p)
  case (Cons u us)
  then show ?case by (cases "us = []") auto
qed simp

section \<open>The heap invariant\<close>

definition heap_frames :: "heap_state \<Rightarrow> nat set" where
  "heap_frames h = (\<lambda>p. unat p div 4096) ` set (take (unat (page_count h)) (heap_pages h))"

text \<open>\<open>fs\<close> is the free list, \<open>A\<close> the set of allocated small blocks.\<close>

definition heap_inv :: "heap_state \<Rightarrow> u32 list \<Rightarrow> u32 set \<Rightarrow> bool" where
  "heap_inv h fs A \<longleftrightarrow> pmm_inv (pmm h) \<and> length (heap_pages h) = 256 \<and> page_count h \<le> 256 \<and>
     (\<forall>f \<in> heap_frames h. f < 32768 \<and> word_of_nat f \<notin> free_frames (pmm h)) \<and>
     path (blocks h) (free_list h) fs \<and> distinct fs \<and> set fs \<inter> A = {} \<and>
     tiles (heap_frames h) (blocks h) (set fs \<union> A) \<and>
     (\<forall>b \<in> set fs. hb_free (blocks h b) = 1) \<and> (\<forall>b \<in> A. hb_free (blocks h b) = 0)"

lemma heap_invD:
  assumes "heap_inv h fs A"
  shows "pmm_inv (pmm h)" "length (heap_pages h) = 256" "page_count h \<le> 256"
    "f \<in> heap_frames h \<Longrightarrow> f < 32768" "f \<in> heap_frames h \<Longrightarrow> word_of_nat f \<notin> free_frames (pmm h)"
    "path (blocks h) (free_list h) fs" "distinct fs" "set fs \<inter> A = {}"
    "tiles (heap_frames h) (blocks h) (set fs \<union> A)"
    "b \<in> set fs \<Longrightarrow> hb_free (blocks h b) = 1" "b \<in> A \<Longrightarrow> hb_free (blocks h b) = 0"
  using assms by (auto simp: heap_inv_def)

lemma heap_frames_pmm [simp]: "heap_frames (h\<lparr>pmm := p\<rparr>) = heap_frames h"
  "heap_frames (h\<lparr>blocks := bl\<rparr>) = heap_frames h" "heap_frames (h\<lparr>free_list := q\<rparr>) = heap_frames h"
  "heap_frames (h\<lparr>words := w\<rparr>) = heap_frames h"
  by (simp_all add: heap_frames_def)

lemma heap_inv_pmm:
  assumes "heap_inv h fs A" "pmm_inv p" "free_frames p \<subseteq> free_frames (pmm h)"
  shows "heap_inv (h\<lparr>pmm := p\<rparr>) fs A"
  using assms by (auto simp: heap_inv_def)

lemma heap_frames_add_page:
  assumes "length (heap_pages h) = 256" "page_count h < 256"
  shows "heap_frames (add_page page h) = insert (unat page div 4096) (heap_frames h)"
proof -
  have lt: "unat (page_count h) < 256" using assms(2) by (simp add: word_less_nat_alt)
  then have "unat (page_count h + 1) = Suc (unat (page_count h))" by (simp add: unat_word_ariths)
  then show ?thesis
    using assms(1) lt by (simp add: heap_frames_def add_page_def take_Suc_conv_app_nth)
qed

lemma add_page_inv:
  assumes inv: "heap_inv h fs A" and pc: "page_count h < 256"
    and al: "pmm_alloc_block (pmm h) = (page, p)" and nn: "page \<noteq> NULL"
  shows "heap_inv (add_page page (h\<lparr>pmm := p\<rparr>)) (page # fs) A"
    "\<forall>b \<in> A. blocks (add_page page (h\<lparr>pmm := p\<rparr>)) b = blocks h b"
proof -
  let ?h = "add_page page (h\<lparr>pmm := p\<rparr>)" and ?f = "page div PAGE_SIZE"
  note H = heap_invD [OF inv]
  have fr: "?f \<in> free_frames (pmm h)" "?f \<notin> free_frames p" "page = ?f * PAGE_SIZE"
    using pmm.alloc_nonnull [OF H(1) al nn] by auto
  have f32: "unat ?f < 32768"
    using frame_bound [OF fr(1)] H(1) by (auto simp: pmm_inv_def word_less_nat_alt word_le_nat_alt)
  have up: "unat page = unat ?f * 4096"
    using fr(3) unat_frame_addr [OF u32_div_page_bound, of page] by simp
  have F: "heap_frames ?h = insert (unat ?f) (heap_frames h)"
    using heap_frames_add_page [of "h\<lparr>pmm := p\<rparr>" page] H(2) pc by (simp add: unat_div_distrib)
  have new: "unat ?f \<notin> heap_frames h"
    using H(5) [of "unat ?f"] fr(1) by auto
  have bl: "blocks ?h = (blocks h)(page := \<lparr>hb_size = PAGE_SIZE - HEADER, hb_next = free_list h,
       hb_free = 1, hb_magic = HEAP_MAGIC\<rparr>)" "free_list ?h = page" "pmm ?h = p"
    by (simp_all add: add_page_def)
  have e: "block_end (blocks ?h) page = unat page + 4096"
    by (simp add: bl block_end_def)
  have in_page: "a div 4096 = unat ?f" if "unat page \<le> a" "a < block_end (blocks ?h) page" for a
    using that up by (simp add: e) 
  have ok: "block_ok (heap_frames ?h) (blocks ?h) page"
    using in_page nn up f32 by (auto simp: block_ok_def F e) (auto simp: bl)
  have "page \<notin> set fs \<union> A"
  proof
    assume "page \<in> set fs \<union> A"
    then have "unat page div 4096 \<in> heap_frames h"
      using H(9) by (auto simp: tiles_def block_ok_def block_end_def)
    with new up show False by simp
  qed
  then have keep: "blocks ?h b = blocks h b" if "b \<in> set fs \<union> A" for b
    using that by (auto simp: bl)
  have tl: "tiles (heap_frames ?h) (blocks ?h) (insert page (set fs \<union> A))"
    by (rule tiles_add(1) [OF H(9) ok]) (use F new in_page keep in auto)
  have ss: "free_frames p \<subseteq> free_frames (pmm h)" using pmm.alloc_avail_subset [OF H(1) al] .
  have "page_count ?h \<le> 256" using pc by (simp add: add_page_def inc_le_iff)
  then show "heap_inv ?h (page # fs) A"
    using H(2,4-8,10,11) alloc_block_inv [OF H(1) al] f32 fr(2) ss tl nn \<open>page \<notin> set fs \<union> A\<close>
    by (auto simp: heap_inv_def F bl) (auto simp: add_page_def)
  show "\<forall>b \<in> A. blocks ?h b = blocks h b" using keep by blast
qed

lemma find_block_spec:
  "path bl cur fs \<Longrightarrow>
     (\<exists>us x vs. fs = us @ x # vs \<and> find_block bl sz prev cur = Some (last (prev # us), x) \<and>
        hb_free (bl x) \<noteq> 0 \<and> hb_size (bl x) \<ge> sz) \<or>
     (\<exists>q. find_block bl sz prev cur = Some (q, NULL)) \<and>
       (\<forall>x \<in> set fs. \<not> (hb_free (bl x) \<noteq> 0 \<and> hb_size (bl x) \<ge> sz))"
proof (induction fs arbitrary: prev cur)
  case Nil
  then show ?case by (auto simp: find_block.simps)
next
  case (Cons f fs)
  show ?case
  proof (cases "hb_free (bl f) \<noteq> 0 \<and> hb_size (bl f) \<ge> sz")
    case True
    with Cons.prems show ?thesis
      by (intro disjI1 exI [of _ "[]"] exI [of _ f] exI [of _ fs]) (simp add: find_block.simps)
  next
    case False
    then have step: "find_block bl sz prev cur = find_block bl sz f (hb_next (bl f))"
      using Cons.prems by (subst find_block.simps) auto
    have "path bl (hb_next (bl f)) fs" using Cons.prems by simp
    from Cons.IH [OF this, of f] show ?thesis
    proof (elim disjE exE conjE)
      fix us x vs
      assume "fs = us @ x # vs" "find_block bl sz f (hb_next (bl f)) = Some (last (f # us), x)"
        "hb_free (bl x) \<noteq> 0" "hb_size (bl x) \<ge> sz"
      then show ?thesis using step
        by (intro disjI1 exI [of _ "f # us"] exI [of _ x] exI [of _ vs]) simp
    qed (use False step in auto)
  qed
qed

text \<open>\<open>align_size\<close> rounds up to a multiple of eight.\<close>

lemma unat_align_size:
  assumes "unat sz \<le> 134217728"
  shows "unat (align_size sz) = (unat sz + 7) div 8 * 8"
proof -
  have m7: "(7 :: u32) = mask 3" by (simp add: mask_eq_exp_minus_1)
  have "align_size sz = push_bit 3 (drop_bit 3 (sz + 7))"
    unfolding align_size_def using and_not_mask_shift [of "sz + 7" 3] m7 by metis
  then have "align_size sz = (sz + 7) div 8 * 8"
    by (simp add: push_bit_eq_mult drop_bit_eq_div)
  moreover have "unat (sz + 7) = unat sz + 7" using assms by (simp add: unat_word_ariths)
  ultimately show ?thesis using assms by (simp add: unat_word_ariths unat_div_distrib)
qed

lemma align_size_fits:
  assumes "unat sz \<le> n" "n mod 8 = 0" "n \<le> 134217728"
  shows "unat (align_size sz) \<le> n" "unat sz \<le> unat (align_size sz)" "unat (align_size sz) mod 8 = 0"
  using assms by (simp_all add: unat_align_size) presburger+

lemma split_block_effect:
  assumes t: "tiles F bl S" and x: "x \<in> S" and fit: "unat n \<le> unat (hb_size (bl x))"
    and n8: "unat n mod 8 = 0"
  shows "\<exists>ys. tiles F (split_block x n bl) (S \<union> set ys) \<and> set ys \<inter> S = {} \<and> distinct ys \<and>
    (\<forall>b. b \<noteq> x \<longrightarrow> b \<notin> set ys \<longrightarrow> split_block x n bl b = bl b) \<and>
    (\<forall>y \<in> set ys. hb_free (split_block x n bl y) = 1) \<and>
    unat n \<le> unat (hb_size (split_block x n bl x)) \<and>
    (\<forall>vs. x \<notin> set vs \<longrightarrow> set ys \<inter> set vs = {} \<longrightarrow> path bl (hb_next (bl x)) vs \<longrightarrow>
       path (split_block x n bl) (hb_next (split_block x n bl x)) (ys @ vs))"
proof (cases "hb_size (bl x) - n \<ge> MIN_BLOCK_SIZE")
  case False
  then have "split_block x n bl = bl" by (simp add: split_block_def Let_def)
  with t fit show ?thesis by (intro exI [of _ "[]"]) simp
next
  case True
  define y where "y = x + HEADER + n"
  define k where "k = hb_size (bl x) - n - HEADER"
  let ?bl = "split_block x n bl"
  have okx: "block_ok F bl x" using t x by (simp add: tiles_def)
  have r: "unat (hb_size (bl x) - n) = unat (hb_size (bl x)) - unat n"
    using fit by (simp add: unat_sub word_le_nat_alt)
  have r24: "24 \<le> unat (hb_size (bl x) - n)" using True by (simp add: word_le_nat_alt)
  then have uk: "unat k = unat (hb_size (bl x) - n) - 16"
    by (simp add: k_def unat_sub word_le_nat_alt)
  have size: "unat (hb_size (bl x)) = unat n + 16 + unat k" using r r24 uk fit by simp
  have xy: "x \<noteq> y"
  proof
    assume "x = y"
    then have "16 + n = 0" by (simp add: y_def algebra_simps)
    moreover have "unat (16 + n) = 16 + unat n"
      using okx size by (simp add: unat_word_ariths block_ok_def block_end_def)
    ultimately show False by simp
  qed
  have bl: "?bl = (bl(y := \<lparr>hb_size = k, hb_next = hb_next (bl x), hb_free = 1, hb_magic = HEAP_MAGIC\<rparr>))
      (x := (bl x)\<lparr>hb_size := n, hb_next := y\<rparr>)"
    using True xy by (simp add: split_block_def Let_def y_def k_def)
  have mx: "hb_magic (bl x) = HEAP_MAGIC" using okx by (simp add: block_ok_def)
  have uy: "unat y = unat x + 16 + unat n"
    using okx size by (simp add: y_def unat_word_ariths block_ok_def block_end_def)
  then have y0: "y \<noteq> NULL" by auto
  from uy have "\<not> apart bl x y" using size by (simp add: apart_def block_end_def)
  then have yS: "y \<notin> S" using t x xy by (auto simp: tiles_def)
  have tl: "tiles F ?bl (insert y S)"
    by (rule tiles_split(1) [OF t x n8 size y_def]) (use xy mx yS in \<open>auto simp: bl\<close>)
  show ?thesis
    using tl yS xy y0 by (intro exI [of _ "[y]"]) (auto simp: bl)
qed

lemma take_block_inv:
  assumes inv: "heap_inv h (us @ x # vs) A" and fit: "hb_size (blocks h x) \<ge> sz"
  shows "\<exists>fs. heap_inv (take_block sz (last (NULL # us)) x h) fs (insert x A)"
    "x \<notin> A" "unat sz \<le> unat (hb_size (blocks (take_block sz (last (NULL # us)) x h) x))"
    "\<forall>b \<in> A. blocks (take_block sz (last (NULL # us)) x h) b = blocks h b"
proof -
  note H = heap_invD [OF inv]
  let ?n = "align_size sz" and ?bl = "blocks h" and ?S = "set (us @ x # vs) \<union> A"
  let ?bl1 = "split_block x ?n ?bl"
  let ?h = "take_block sz (last (NULL # us)) x h"
  have okx: "block_ok (heap_frames h) ?bl x" using H(9) by (simp add: tiles_def)
  have n: "unat ?n \<le> unat (hb_size (?bl x))" "unat sz \<le> unat ?n" "unat ?n mod 8 = 0"
    using align_size_fits [of sz "unat (hb_size (?bl x))"] fit okx
    by (simp_all add: block_ok_def block_end_def word_le_nat_alt)
  obtain ys where ys: "tiles (heap_frames h) ?bl1 (?S \<union> set ys)" "set ys \<inter> ?S = {}" "distinct ys"
    "\<And>b. b \<noteq> x \<Longrightarrow> b \<notin> set ys \<Longrightarrow> ?bl1 b = ?bl b" "\<And>y. y \<in> set ys \<Longrightarrow> hb_free (?bl1 y) = 1"
    "unat ?n \<le> unat (hb_size (?bl1 x))"
    "\<And>vs. x \<notin> set vs \<Longrightarrow> set ys \<inter> set vs = {} \<Longrightarrow> path ?bl (hb_next (?bl x)) vs \<Longrightarrow>
       path ?bl1 (hb_next (?bl1 x)) (ys @ vs)"
    using split_block_effect [OF H(9) _ n(1,3)] by fastforce
  let ?bl2 = "?bl1(x := (?bl1 x)\<lparr>hb_free := 0\<rparr>)"
  let ?q = "hb_next (?bl1 x)"
  have d: "distinct us" "distinct vs" "x \<notin> set us" "x \<notin> set vs" "set us \<inter> set vs = {}" "x \<notin> A" "x \<notin> set ys"
    using H(7,8) ys(2) by auto
  have pv: "path ?bl2 ?q (ys @ vs)"
    using ys(7) [of vs] path_mid [OF H(6)] ys(2) d by auto
  let ?bl3 = "if us = [] then ?bl2 else ?bl2(last us := (?bl2 (last us))\<lparr>hb_next := ?q\<rparr>)"
  have lu: "last us \<noteq> NULL" "last us \<noteq> x" "last us \<notin> set ys" "last us \<in> set us" if "us \<noteq> []"
    using path_NULL [OF H(6)] d ys(2) that by (auto simp: last_in_set)
      (metis IntI UnCI empty_iff last_in_set)+
  have h: "blocks ?h = ?bl3" "free_list ?h = (if us = [] then ?q else free_list h)"
    "pmm ?h = pmm h" "heap_pages ?h = heap_pages h" "page_count ?h = page_count h"
    using lu by (auto simp: take_block_def Let_def)
  have F: "heap_frames ?h = heap_frames h" unfolding heap_frames_def h ..
  have same: "?bl3 b = ?bl b" if "b \<notin> set (us @ x # ys)" for b
    using that ys(4) [of b] lu by (auto simp del: fun_upd_apply) (auto simp: last_in_set)
  have fields: "hb_size (?bl3 b) = hb_size (?bl1 b)" "hb_magic (?bl3 b) = hb_magic (?bl1 b)"
    "b \<noteq> x \<Longrightarrow> hb_free (?bl3 b) = hb_free (?bl1 b)" for b
    by auto
  have "path ?bl3 (free_list ?h) (us @ ys @ vs)"
  proof (cases "us = []")
    case True
    with pv h(2) show ?thesis by simp
  next
    case False
    have "?bl2 u = ?bl u" if "u \<in> set us" for u using that ys(2) ys(4) [of u] d by auto
    moreover have "set us \<inter> set (ys @ vs) = {}" using ys(2) d by auto
    ultimately show ?thesis using path_relink [OF False H(6) d(1) _ _ pv] False h(2) by auto
  qed
  moreover have "tiles (heap_frames h) ?bl3 (set (us @ ys @ vs) \<union> insert x A)"
    using tiles_cong [OF ys(1), of ?bl3] fields by (auto simp: Un_ac insert_commute)
  moreover have "hb_free (?bl3 b) = 1" if "b \<in> set (us @ ys @ vs)" for b
  proof -
    have "b \<noteq> x" using that d by auto
    moreover have "hb_free (?bl1 b) = 1"
      using that ys(4) [of b] ys(5) [of b] H(10) [of b] \<open>b \<noteq> x\<close> by (cases "b \<in> set ys") auto
    ultimately show ?thesis using fields(3) by metis
  qed
  moreover have "hb_free (?bl3 b) = 0" if "b \<in> insert x A" for b
  proof (cases "b = x")
    case True
    then show ?thesis using lu by auto
  next
    case False
    then have "b \<in> A" "b \<notin> set (us @ x # ys)" using that H(8) ys(2) by auto
    then show ?thesis using same H(11) by metis
  qed
  ultimately have "heap_inv ?h (us @ ys @ vs) (insert x A)"
    using H(1-5,7,8) ys(2,3) d unfolding heap_inv_def h F by auto
  then show "\<exists>fs. heap_inv ?h fs (insert x A)" ..
  show "x \<notin> A" using d by simp
  show "unat sz \<le> unat (hb_size (blocks ?h x))" unfolding h fields using n ys(6) by simp
  show "\<forall>b \<in> A. blocks ?h b = blocks h b"
  proof
    fix b assume "b \<in> A"
    then have "b \<notin> set (us @ x # ys)" using H(8) ys(2) by auto
    then show "blocks ?h b = blocks h b" unfolding h by (rule same)
  qed
qed

section \<open>Allocating and freeing\<close>

lemma heap_grow_inv:
  assumes inv: "heap_inv h fs A" and g: "heap_grow h = (ok, h')"
  shows "\<exists>fs'. heap_inv h' fs' A" "\<forall>b \<in> A. blocks h' b = blocks h b"
    "ok \<Longrightarrow> unat (page_count h') = Suc (unat (page_count h))" "ok \<Longrightarrow> unat (page_count h) < 256"
proof -
  note H = heap_invD [OF inv]
  obtain page p where al: "pmm_alloc_block (pmm h) = (page, p)" by fastforce
  have keep: "heap_inv (h\<lparr>pmm := p\<rparr>) fs A"
    by (rule heap_inv_pmm [OF inv alloc_block_inv [OF H(1) al] pmm.alloc_avail_subset [OF H(1) al]])
  have cases: "\<not> ok \<and> (h' = h \<or> h' = h\<lparr>pmm := p\<rparr>) \<or>
      ok \<and> page_count h < 256 \<and> page \<noteq> NULL \<and> h' = add_page page (h\<lparr>pmm := p\<rparr>)"
    using g al by (auto simp: heap_grow_def Let_def not_le split: if_splits)
  show "\<exists>fs'. heap_inv h' fs' A" using cases inv keep add_page_inv(1) [OF inv _ al] by blast
  show "\<forall>b \<in> A. blocks h' b = blocks h b" using cases add_page_inv(2) [OF inv _ al] by auto
  show "ok \<Longrightarrow> unat (page_count h') = Suc (unat (page_count h))"
    using cases by (auto simp: add_page_def intro: unat_Suc_less)
  show "ok \<Longrightarrow> unat (page_count h) < 256" using cases by (auto simp: word_less_nat_alt)
qed

text \<open>
  A request for a small block returns. Either it fails, and the allocated blocks are as they were,
  or it returns the data address of a new block of at least the requested size.
\<close>

lemma kmalloc_small:
  assumes "heap_inv h fs A" "sz \<noteq> 0" "total_size sz < PAGE_SIZE div 2"
  shows "\<exists>p h' fs'. kmalloc sz h = Some (p, h') \<and> (\<forall>b \<in> A. blocks h' b = blocks h b) \<and>
    (if p = NULL then heap_inv h' fs' A
     else heap_inv h' fs' (insert (p - HEADER) A) \<and> p - HEADER \<notin> A \<and>
       unat sz \<le> unat (hb_size (blocks h' (p - HEADER))))"
  using assms(1)
proof (induction "256 - unat (page_count h)" arbitrary: h fs rule: less_induct)
  case less
  note H = heap_invD [OF less.prems]
  have small: "\<not> total_size sz \<ge> PAGE_SIZE div 2" using assms(3) by (simp only: not_le)
  from find_block_spec [OF H(6), of sz NULL] show ?case
  proof (elim disjE exE conjE)
    fix us x vs
    assume fs: "fs = us @ x # vs"
      and f: "find_block (blocks h) sz NULL (free_list h) = Some (last (NULL # us), x)"
      and fit: "hb_size (blocks h x) \<ge> sz"
    have x: "x \<noteq> NULL" "block_ok (heap_frames h) (blocks h) x"
      using H(9) path_mid H(6) fs by (auto simp: tiles_def block_ok_def)
    have "x + HEADER \<noteq> NULL"
    proof
      assume "x + HEADER = NULL"
      moreover have "unat (x + HEADER) = unat x + 16"
        using x(2) by (simp add: unat_word_ariths block_ok_def block_end_def)
      ultimately show False by simp
    qed
    moreover have "kmalloc sz h = Some (x + HEADER, take_block sz (last (NULL # us)) x h)"
      using small f x assms(2) by (subst kmalloc.simps) (simp only: if_False option.simps prod.simps if_True not_False_eq_True)
    ultimately show ?thesis
      using take_block_inv [of h us x vs A sz] less.prems fs fit by auto
  next
    fix q
    assume f: "find_block (blocks h) sz NULL (free_list h) = Some (q, NULL)"
    obtain ok h1 where g: "heap_grow h = (ok, h1)" by fastforce
    note G = heap_grow_inv [OF less.prems g]
    have k: "kmalloc sz h = (if ok then kmalloc sz h1 else Some (NULL, h1))"
      using small f assms(2) g by (subst kmalloc.simps) (simp only: if_False option.simps prod.simps if_True, simp)
    show ?thesis
    proof (cases ok)
      case True
      obtain fs1 where i1: "heap_inv h1 fs1 A" using G(1) by blast
      have "256 - unat (page_count h1) < 256 - unat (page_count h)" using G(3,4) True by simp
      from less.hyps [OF this i1] k True G(2) show ?thesis by (auto split: if_splits)
    next
      case False
      then show ?thesis using k G(1,2) by auto
    qed
  qed
qed

lemma path_skip:
  "path bl p (us @ x # y # vs) \<Longrightarrow> distinct (us @ x # y # vs) \<Longrightarrow>
     path (bl(x := (bl x)\<lparr>hb_size := n, hb_next := hb_next (bl y)\<rparr>)) p (us @ x # vs)"
  by (induction us arbitrary: p) auto

lemma merge_loop_inv:
  assumes "path bl p (us @ vs)" "path bl cur vs" "distinct (us @ vs)" "set (us @ vs) \<inter> A = {}"
    "tiles F bl (set (us @ vs) \<union> A)" "\<forall>b \<in> set (us @ vs). hb_free (bl b) = 1"
  shows "\<exists>bl' ws. merge_loop cur bl = Some bl' \<and> path bl' p ws \<and> distinct ws \<and> set ws \<subseteq> set (us @ vs) \<and>
    tiles F bl' (set ws \<union> A) \<and> (\<forall>b \<in> set ws. hb_free (bl' b) = 1) \<and>
    (\<forall>b. b \<notin> set (us @ vs) \<longrightarrow> bl' b = bl b)"
  using assms
proof (induction "length vs" arbitrary: us vs cur bl)
  case 0
  then show ?case by (subst merge_loop.simps) (auto intro!: exI [of _ us])
next
  case (Suc n)
  then obtain x vs1 where vs: "vs = x # vs1" and cur: "cur = x" "x \<noteq> NULL" "path bl (hb_next (bl x)) vs1"
    by (cases vs) auto
  let ?y = "hb_next (bl x)"
  let ?merge = "?y \<noteq> NULL \<and> hb_free (bl x) \<noteq> 0 \<and> hb_free (bl ?y) \<noteq> 0 \<and> ?y = x + HEADER + hb_size (bl x)"
  show ?case
  proof (cases ?merge)
    case False
    then have step: "merge_loop cur bl = merge_loop ?y bl"
      using cur by (subst merge_loop.simps) (auto simp: Let_def)
    have "n = length vs1" using Suc.hyps(2) vs by simp
    from Suc.hyps(1) [OF this, of bl "us @ [x]" ?y] Suc.prems vs cur step show ?thesis by auto
  next
    case True
    then obtain vs2 where vs1: "vs1 = ?y # vs2" using cur by (cases vs1) auto
    let ?z = "hb_size (bl x) + (HEADER + hb_size (bl ?y))"
    let ?bl = "bl(x := (bl x)\<lparr>hb_size := ?z, hb_next := hb_next (bl ?y)\<rparr>)"
    have step: "merge_loop cur bl = merge_loop x ?bl"
      using cur True by (subst merge_loop.simps) (auto simp: Let_def)
    have ok: "block_ok F bl x" "block_ok F bl ?y"
      using Suc.prems(5) vs vs1 by (auto simp: tiles_def)
    have uy: "unat ?y = block_end bl x"
      using True ok(1) by (simp add: block_end_def block_ok_def unat_word_ariths)
    have uz: "unat ?z = unat (hb_size (bl x)) + 16 + unat (hb_size (bl ?y))"
      using ok(2) uy by (simp add: block_ok_def block_end_def unat_word_ariths)
    have d: "distinct (us @ x # ?y # vs2)" using Suc.prems(3) vs vs1 by simp
    have p1: "path ?bl p (us @ x # vs2)"
      using path_skip [of bl p us x ?y vs2 ?z] Suc.prems(1) d vs vs1 by simp
    have "tiles F ?bl (set (us @ vs) \<union> A - {?y})"
      by (rule tiles_merge [OF Suc.prems(5) _ _ uy]) (use vs vs1 uz in auto)
    moreover have "set (us @ vs) \<union> A - {?y} = set (us @ x # vs2) \<union> A"
      using d vs vs1 Suc.prems(4) by auto
    ultimately have t1: "tiles F ?bl (set (us @ x # vs2) \<union> A)" by simp
    have "n = length (x # vs2)" using Suc.hyps(2) vs vs1 by simp
    moreover have "path bl (hb_next (bl ?y)) vs2" using cur(3) by (simp add: vs1)
    then have "path ?bl x (x # vs2)" using d cur(2) by simp
    moreover have "\<forall>b \<in> set (us @ x # vs2). hb_free (?bl b) = 1" using Suc.prems(6) vs vs1 by simp
    moreover have "set (us @ x # vs2) \<inter> A = {}" "distinct (us @ x # vs2)"
      using Suc.prems(4) vs vs1 d by auto
    ultimately obtain bl' ws where "merge_loop x ?bl = Some bl'" "path bl' p ws" "distinct ws"
      "set ws \<subseteq> set (us @ x # vs2)" "tiles F bl' (set ws \<union> A)" "\<forall>b \<in> set ws. hb_free (bl' b) = 1"
      "\<forall>b. b \<notin> set (us @ x # vs2) \<longrightarrow> bl' b = ?bl b"
      using Suc.hyps(1) [of "x # vs2" ?bl us x] p1 t1 by blast
    then show ?thesis using step vs vs1 by (intro exI [of _ bl'] exI [of _ ws]) auto
  qed
qed

lemma small_block_not_page: "unat (b :: u32) mod 8 = 0 \<Longrightarrow> unat b \<le> 134217728 \<Longrightarrow>
    (b + HEADER - 4) AND (PAGE_SIZE - 1) \<noteq> 0"
proof -
  assume b: "unat b mod 8 = 0" "unat b \<le> 134217728"
  have "unat (b + 12) = unat b + 12" using b(2) by (simp add: unat_word_ariths)
  then have "unat ((b + 12) mod PAGE_SIZE) = (unat b + 12) mod 4096" by (simp add: unat_mod_distrib)
  moreover have "(unat b + 12) mod 4096 \<noteq> 0"
  proof
    assume "(unat b + 12) mod 4096 = 0"
    then have "4096 dvd unat b + 12" by (rule mod_0_imp_dvd)
    moreover have "(8 :: nat) dvd 4096" by simp
    ultimately have "8 dvd unat b + 12" using dvd_trans by blast
    then show False using b(1) by presburger
  qed
  ultimately have "(b + 12) mod PAGE_SIZE \<noteq> 0" by (metis unat_0)
  then show ?thesis by (simp add: and_page_mask add.commute)
qed

text \<open>Freeing an allocated block returns, and the other allocated blocks are as they were.\<close>

lemma kfree_small:
  assumes inv: "heap_inv h fs A" and b: "b \<in> A"
  shows "\<exists>h' fs'. kfree (b + HEADER) h = Some h' \<and> heap_inv h' fs' (A - {b}) \<and>
    (\<forall>c \<in> A - {b}. blocks h' c = blocks h c)"
proof -
  note H = heap_invD [OF inv]
  have ok: "block_ok (heap_frames h) (blocks h) b" using H(9) b by (simp add: tiles_def)
  then have ub: "unat b mod 8 = 0" "unat b \<le> 134217728" "b \<noteq> NULL" "hb_magic (blocks h b) = HEAP_MAGIC"
    by (auto simp: block_ok_def block_end_def)
  have "unat (b + HEADER) = unat b + 16" using ub(2) by (simp add: unat_word_ariths)
  then have nn: "b + HEADER \<noteq> NULL" by auto
  let ?bl = "(blocks h)(b := (blocks h b)\<lparr>hb_free := 1, hb_next := free_list h\<rparr>)"
  let ?h = "h\<lparr>blocks := ?bl, free_list := b\<rparr>"
  have k: "kfree (b + HEADER) h = merge_blocks ?h"
    using small_block_not_page [OF ub(1,2)] nn ub(4) by (simp add: kfree_def Let_def)
  have bf: "b \<notin> set fs" using H(8) b by auto
  have t: "tiles (heap_frames h) ?bl (set ([] @ b # fs) \<union> (A - {b}))"
    using b by (auto intro!: tiles_cong [OF tiles_mono [OF H(9) order_refl]])
  have "path ?bl b ([] @ b # fs)" using H(6) bf ub(3) by simp
  moreover have "path ?bl b (b # fs)" using calculation by simp
  moreover have "distinct ([] @ b # fs)" "set ([] @ b # fs) \<inter> (A - {b}) = {}"
    "\<forall>c \<in> set ([] @ b # fs). hb_free (?bl c) = 1"
    using H(7,8,10) bf by auto
  ultimately obtain bl' ws where m: "merge_loop b ?bl = Some bl'" and ws: "path bl' b ws" "distinct ws"
    "set ws \<subseteq> insert b (set fs)" "tiles (heap_frames h) bl' (set ws \<union> (A - {b}))"
    "\<forall>b \<in> set ws. hb_free (bl' b) = 1" "\<forall>c. c \<notin> insert b (set fs) \<longrightarrow> bl' c = ?bl c"
    using merge_loop_inv [OF _ _ _ _ t, of b b] by auto
  let ?h' = "h\<lparr>blocks := bl', free_list := b\<rparr>"
  have same: "blocks ?h' c = blocks h c" if "c \<in> A - {b}" for c
    using ws(6) that H(8) by auto
  have "kfree (b + HEADER) h = Some ?h'" using k m by (simp add: merge_blocks_def)
  moreover have "heap_inv ?h' ws (A - {b})"
    using H(1-5,8,11) ws(1-5) same unfolding heap_inv_def by auto
  ultimately show ?thesis using same by blast
qed

lemma heap_init_loop_inv:
  "heap_inv h fs {} \<Longrightarrow> unat (page_count h) + n \<le> 256 \<Longrightarrow> \<exists>fs'. heap_inv (heap_init_loop n h) fs' {}"
proof (induction n arbitrary: h fs)
  case (Suc n)
  note H = heap_invD [OF Suc.prems(1)]
  obtain page p where al: "pmm_alloc_block (pmm h) = (page, p)" by fastforce
  show ?case
  proof (cases "page = NULL")
    case True
    then show ?thesis
      using al heap_inv_pmm [OF Suc.prems(1) alloc_block_inv [OF H(1) al] pmm.alloc_avail_subset [OF H(1) al]]
      by auto
  next
    case False
    have lt: "page_count h < 256" using Suc.prems(2) by (simp add: word_less_nat_alt)
    then have "unat (page_count (add_page page (h\<lparr>pmm := p\<rparr>))) = Suc (unat (page_count h))"
      by (simp add: add_page_def unat_Suc_less [OF lt])
    with Suc.IH [OF add_page_inv(1) [OF Suc.prems(1) lt al False]] Suc.prems(2) al False
    show ?thesis by simp
  qed
qed auto

lemma heap_init_inv:
  assumes "pmm_inv (pmm h)"
  shows "\<exists>fs. heap_inv (heap_init h) fs {}"
proof -
  let ?h = "h\<lparr>heap_pages := replicate 256 NULL, page_count := 0, free_list := NULL\<rparr>"
  have "heap_inv ?h [] {}" using assms by (simp add: heap_inv_def heap_frames_def tiles_def)
  from heap_init_loop_inv [OF this, of HEAP_INITIAL_PAGES] show ?thesis by (simp add: heap_init_def)
qed

section \<open>The interface of the allocator\<close>

text \<open>
  What the users of \<open>kmalloc\<close> and \<open>kfree\<close> rely on. \<open>L\<close> is the set of pointers handed out and not
  yet freed, \<open>extent s p\<close> the bytes that belong to \<open>p\<close>.
\<close>

datatype heap_op = Malloc u32 | Free nat

text \<open>
  A client that keeps the list of its pointers with the sizes it asked for, and frees the \<open>i\<close>-th
  of them.
\<close>

fun run_ops :: "(u32 \<Rightarrow> 's \<Rightarrow> (u32 \<times> 's) option) \<Rightarrow> (u32 \<Rightarrow> 's \<Rightarrow> 's option) \<Rightarrow> heap_op list \<Rightarrow>
    (u32 \<times> u32) list \<Rightarrow> 's \<Rightarrow> ((u32 \<times> u32) list \<times> 's) option" where
  "run_ops alloc release [] ps s = Some (ps, s)"
| "run_ops alloc release (Malloc n # ops) ps s =
     (case alloc n s of None \<Rightarrow> None
      | Some (p, s) \<Rightarrow> run_ops alloc release ops (if p = NULL then ps else (p, n) # ps) s)"
| "run_ops alloc release (Free i # ops) ps s =
     (if i < length ps then
        (case release (fst (ps ! i)) s of None \<Rightarrow> None
         | Some s \<Rightarrow> run_ops alloc release ops (take i ps @ drop (Suc i) ps) s)
      else run_ops alloc release ops ps s)"

definition byte_range :: "u32 \<times> u32 \<Rightarrow> nat set" where
  "byte_range pn = {unat (fst pn)..<unat (fst pn) + unat (snd pn)}"

locale block_allocator =
  fixes alloc :: "u32 \<Rightarrow> 's \<Rightarrow> (u32 \<times> 's) option"
    and release :: "u32 \<Rightarrow> 's \<Rightarrow> 's option"
    and inv :: "'s \<Rightarrow> u32 set \<Rightarrow> bool"
    and extent :: "'s \<Rightarrow> u32 \<Rightarrow> nat set"
    and ok_size :: "u32 \<Rightarrow> bool"
  assumes live_disjoint: "inv s L \<Longrightarrow> p \<in> L \<Longrightarrow> q \<in> L \<Longrightarrow> p \<noteq> q \<Longrightarrow> extent s p \<inter> extent s q = {}"
    and alloc_returns: "inv s L \<Longrightarrow> ok_size n \<Longrightarrow> \<exists>p s'. alloc n s = Some (p, s')"
    and alloc_fails: "inv s L \<Longrightarrow> ok_size n \<Longrightarrow> alloc n s = Some (NULL, s') \<Longrightarrow>
          inv s' L \<and> (\<forall>q \<in> L. extent s' q = extent s q)"
    and alloc_ok: "inv s L \<Longrightarrow> ok_size n \<Longrightarrow> alloc n s = Some (p, s') \<Longrightarrow> p \<noteq> NULL \<Longrightarrow>
          p \<notin> L \<and> inv s' (insert p L) \<and> byte_range (p, n) \<subseteq> extent s' p \<and>
          (\<forall>q \<in> L. extent s' q = extent s q)"
    and release_ok: "inv s L \<Longrightarrow> p \<in> L \<Longrightarrow>
          \<exists>s'. release p s = Some s' \<and> inv s' (L - {p}) \<and> (\<forall>q \<in> L - {p}. extent s' q = extent s q)"
begin

definition owns :: "'s \<Rightarrow> (u32 \<times> u32) list \<Rightarrow> bool" where
  "owns s ps \<longleftrightarrow> inv s (fst ` set ps) \<and> distinct (map fst ps) \<and>
     (\<forall>pn \<in> set ps. byte_range pn \<subseteq> extent s (fst pn))"

lemma owns_disjoint:
  assumes "owns s ps" "i < length ps" "j < length ps" "i \<noteq> j"
  shows "byte_range (ps ! i) \<inter> byte_range (ps ! j) = {}"
proof -
  have "fst (ps ! i) \<noteq> fst (ps ! j)"
    using assms by (auto simp: owns_def distinct_conv_nth)
  then have "extent s (fst (ps ! i)) \<inter> extent s (fst (ps ! j)) = {}"
    using assms by (intro live_disjoint [of s "fst ` set ps"]) (auto simp: owns_def)
  moreover have "byte_range (ps ! i) \<subseteq> extent s (fst (ps ! i))" "byte_range (ps ! j) \<subseteq> extent s (fst (ps ! j))"
    using assms by (auto simp: owns_def)
  ultimately show ?thesis by blast
qed

lemma owns_malloc:
  assumes "owns s ps" "ok_size n"
  shows "\<exists>p s'. alloc n s = Some (p, s') \<and> owns s' (if p = NULL then ps else (p, n) # ps)"
proof -
  obtain p s' where a: "alloc n s = Some (p, s')" using alloc_returns assms unfolding owns_def by blast
  have "owns s' (if p = NULL then ps else (p, n) # ps)"
  proof (cases "p = NULL")
    case True
    then show ?thesis using alloc_fails [of s "fst ` set ps" n s'] assms a by (auto simp: owns_def)
  next
    case False
    then show ?thesis using alloc_ok [of s "fst ` set ps" n p s'] assms a by (auto simp: owns_def)
  qed
  with a show ?thesis by blast
qed

lemma owns_free:
  assumes "owns s ps" "i < length ps"
  shows "\<exists>s'. release (fst (ps ! i)) s = Some s' \<and> owns s' (take i ps @ drop (Suc i) ps)"
proof -
  obtain us pn vs where ps: "ps = us @ pn # vs" "length us = i"
    using id_take_nth_drop [OF assms(2)] assms(2) by (metis length_take min_absorb2 less_imp_le)
  have d: "distinct (map fst (us @ vs))" "fst ` set (us @ vs) = fst ` set ps - {fst pn}"
    using assms(1) unfolding owns_def ps by (simp_all add: image_Un)
  have "fst pn \<in> fst ` set ps" by (simp add: ps)
  then obtain s' where s': "release (fst pn) s = Some s'" "inv s' (fst ` set ps - {fst pn})"
    "\<forall>q \<in> fst ` set ps - {fst pn}. extent s' q = extent s q"
    using release_ok assms(1) unfolding owns_def by blast
  have "byte_range qn \<subseteq> extent s' (fst qn)" if "qn \<in> set (us @ vs)" for qn
  proof -
    have "fst qn \<in> fst ` set ps - {fst pn}" using that d(2) by blast
    moreover have "byte_range qn \<subseteq> extent s (fst qn)" using that assms(1) by (auto simp: owns_def ps)
    ultimately show ?thesis using s'(3) by simp
  qed
  then have "owns s' (us @ vs)" using d s'(2) by (simp add: owns_def)
  moreover have "take i ps @ drop (Suc i) ps = us @ vs" "ps ! i = pn" using ps by auto
  ultimately show ?thesis using s'(1) by simp
qed

lemma run_safe:
  "owns s ps \<Longrightarrow> (\<forall>n. Malloc n \<in> set ops \<longrightarrow> ok_size n) \<Longrightarrow>
     \<exists>ps' s'. run_ops alloc release ops ps s = Some (ps', s') \<and> owns s' ps'"
proof (induction ops arbitrary: s ps)
  case (Cons op ops)
  show ?case
  proof (cases op)
    case (Malloc n)
    obtain p s1 where "alloc n s = Some (p, s1)" "owns s1 (if p = NULL then ps else (p, n) # ps)"
      using owns_malloc [OF Cons.prems(1), of n] Cons.prems(2) Malloc by auto
    with Cons.IH [of s1] Cons.prems(2) Malloc show ?thesis by auto
  next
    case (Free i)
    show ?thesis
    proof (cases "i < length ps")
      case True
      obtain s1 where "release (fst (ps ! i)) s = Some s1" "owns s1 (take i ps @ drop (Suc i) ps)"
        using owns_free [OF Cons.prems(1) True] by blast
      with Cons.IH [of s1] Cons.prems(2) Free True show ?thesis by auto
    qed (use Cons Free in auto)
  qed
qed auto

end

definition live_inv :: "heap_state \<Rightarrow> u32 set \<Rightarrow> bool" where
  "live_inv h L \<longleftrightarrow> (\<exists>fs. heap_inv h fs ((\<lambda>p. p - HEADER) ` L))"

definition small_extent :: "heap_state \<Rightarrow> u32 \<Rightarrow> nat set" where
  "small_extent h p = {unat p..<unat p + unat (hb_size (blocks h (p - HEADER)))}"

definition small_request :: "u32 \<Rightarrow> bool" where
  "small_request sz \<longleftrightarrow> total_size sz < PAGE_SIZE div 2"

lemma inj_header: "(p :: u32) - HEADER = q - HEADER \<longleftrightarrow> p = q"
  by simp

lemma live_block:
  assumes "live_inv h L" "p \<in> L"
  shows "block_ok (heap_frames h) (blocks h) (p - HEADER)" "unat p = unat (p - HEADER) + 16"
proof -
  obtain fs where "heap_inv h fs ((\<lambda>p. p - HEADER) ` L)" using assms(1) by (auto simp: live_inv_def)
  from heap_invD(9) [OF this] show ok: "block_ok (heap_frames h) (blocks h) (p - HEADER)"
    using assms(2) by (auto simp: tiles_def)
  have "unat (p - HEADER + HEADER) = unat (p - HEADER) + 16"
    using ok by (subst unat_word_ariths) (simp add: block_ok_def block_end_def)
  then show "unat p = unat (p - HEADER) + 16" by simp
qed

lemma live_extents_disjoint:
  assumes "live_inv h L" "p \<in> L" "q \<in> L" "p \<noteq> q"
  shows "small_extent h p \<inter> small_extent h q = {}"
proof -
  obtain fs where "heap_inv h fs ((\<lambda>p. p - HEADER) ` L)" using assms(1) by (auto simp: live_inv_def)
  from heap_invD(9) [OF this] have "apart (blocks h) (p - HEADER) (q - HEADER)"
    using assms(2-4) by (auto simp: tiles_def)
  then show ?thesis
    using live_block(2) [OF assms(1,2)] live_block(2) [OF assms(1,3)]
    by (auto simp: apart_def block_end_def small_extent_def)
qed

lemma kmalloc_zero: "kmalloc 0 h = Some (NULL, h)"
  by (subst kmalloc.simps) simp

lemma kmalloc_live:
  assumes "live_inv h L" "small_request n"
  shows "\<exists>p h'. kmalloc n h = Some (p, h') \<and> (\<forall>q \<in> L. small_extent h' q = small_extent h q) \<and>
    (if p = NULL then live_inv h' L
     else p \<notin> L \<and> live_inv h' (insert p L) \<and> byte_range (p, n) \<subseteq> small_extent h' p)"
proof (cases "n = 0")
  case True
  then show ?thesis using assms(1) by (simp add: kmalloc_zero)
next
  case False
  let ?A = "(\<lambda>p. p - HEADER) ` L"
  obtain fs where "heap_inv h fs ?A" using assms(1) by (auto simp: live_inv_def)
  from kmalloc_small [OF this False] assms(2) obtain p h' fs' where
    k: "kmalloc n h = Some (p, h')" "\<forall>b \<in> ?A. blocks h' b = blocks h b"
    "if p = NULL then heap_inv h' fs' ?A
     else heap_inv h' fs' (insert (p - HEADER) ?A) \<and> p - HEADER \<notin> ?A \<and>
       unat n \<le> unat (hb_size (blocks h' (p - HEADER)))"
    by (auto simp: small_request_def)
  then have "\<forall>q \<in> L. small_extent h' q = small_extent h q" by (simp add: small_extent_def)
  moreover have "if p = NULL then live_inv h' L
     else p \<notin> L \<and> live_inv h' (insert p L) \<and> byte_range (p, n) \<subseteq> small_extent h' p"
    using k(3) by (auto simp: live_inv_def byte_range_def small_extent_def)
  ultimately show ?thesis using k(1) by blast
qed

lemma kfree_live:
  assumes "live_inv h L" "p \<in> L"
  shows "\<exists>h'. kfree p h = Some h' \<and> live_inv h' (L - {p}) \<and>
    (\<forall>q \<in> L - {p}. small_extent h' q = small_extent h q)"
proof -
  let ?A = "(\<lambda>p. p - HEADER) ` L"
  obtain fs where "heap_inv h fs ?A" using assms(1) by (auto simp: live_inv_def)
  moreover have "p - HEADER \<in> ?A" using assms(2) by blast
  ultimately obtain h' fs' where "kfree p h = Some h'" "heap_inv h' fs' (?A - {p - HEADER})"
    "\<forall>c \<in> ?A - {p - HEADER}. blocks h' c = blocks h c"
    using kfree_small [of h fs ?A "p - HEADER"] by auto
  moreover have "?A - {p - HEADER} = (\<lambda>p. p - HEADER) ` (L - {p})" by auto
  ultimately show ?thesis by (auto simp: live_inv_def small_extent_def)
qed

interpretation kheap: block_allocator kmalloc kfree live_inv small_extent small_request
proof (unfold_locales, goal_cases)
  case (1 s L p q)
  then show ?case by (rule live_extents_disjoint)
next
  case (2 s L n)
  then show ?case using kmalloc_live by blast
next
  case (3 s L n s')
  then show ?case using kmalloc_live [OF 3(1,2)] by auto
next
  case (4 s L n p s')
  then show ?case using kmalloc_live [OF 4(1,2)] by auto
next
  case (5 s L p)
  then show ?case by (rule kfree_live)
qed

section \<open>Whole pages\<close>

lemma more_pages_step:
  "i < n \<Longrightarrow> more_pages first n i p =
     (let (page, p) = pmm_alloc_block p in
      if page = NULL then (False, release_pages first i 0 p) else more_pages first n (i + 1) p)"
  "\<not> i < n \<Longrightarrow> more_pages first n i p = (True, p)"
  by (subst more_pages.simps, simp)+

lemma release_pages_step:
  "j < n \<Longrightarrow> release_pages first n j p = release_pages first n (j + 1) (pmm_free_block (first + j * PAGE_SIZE) p)"
  "\<not> j < n \<Longrightarrow> release_pages first n j p = p"
  by (subst release_pages.simps, simp)+

lemma kmalloc_big: "sz \<noteq> 0 \<Longrightarrow> total_size sz \<ge> PAGE_SIZE div 2 \<Longrightarrow>
    kmalloc sz h = Some (kmalloc_large (total_size sz) h)"
  by (subst kmalloc.simps) (simp only: if_False if_True)

lemma frame_ptr:
  assumes "(f :: u32) = q div PAGE_SIZE" "q = f * PAGE_SIZE"
  shows "q + 4 \<noteq> NULL" "(q + 4 - 4) AND (PAGE_SIZE - 1) = 0"
proof -
  have u: "unat q = unat f * 4096" unfolding assms(2) by (rule unat_frame_addr) (simp add: assms(1) u32_div_page_bound)
  then have "unat q mod 4096 = 0" by simp
  moreover have "unat f < 1048576" using u32_div_page_bound [of q] by (simp add: assms(1) word_less_nat_alt)
  then have "unat q + 4 < 4294967296" using u by linarith
  then have "unat (q + 4) = unat q + 4" by (simp add: unat_word_ariths)
  then show "q + 4 \<noteq> NULL" by auto
  have "unat (q mod PAGE_SIZE) = 0" using \<open>unat q mod 4096 = 0\<close> by (simp add: unat_mod_distrib)
  then show "(q + 4 - 4) AND (PAGE_SIZE - 1) = 0" by (simp add: and_page_mask unat_eq_0)
qed

text \<open>A heap for the witnesses: no pages yet, over a given physical memory.\<close>

definition small_heap :: "pmm_state \<Rightarrow> heap_state" where
  "small_heap p = \<lparr>heap_pages = replicate 256 NULL, page_count = 0, free_list = NULL,
     blocks = (\<lambda>_. \<lparr>hb_size = 0, hb_next = 0, hb_free = 0, hb_magic = 0\<rparr>), words = (\<lambda>_. 0), pmm = p\<rparr>"

text \<open>Physical memory with the frames 1 and 3 free.\<close>

definition gap_pmm :: pmm_state where
  "gap_pmm = pmm_init_region 0x3000 0x1000 (pmm_init_region 0x1000 0x1000 (pmm_init 0x8000 no_pmm))"

lemma gap_pmm_spec: "pmm_inv gap_pmm" "max_blocks gap_pmm = 8" "free_frames gap_pmm = {1, 3}"
proof -
  let ?s0 = "pmm_init 0x8000 no_pmm"
  let ?s1 = "pmm_init_region 0x1000 0x1000 ?s0"
  have s0: "pmm_inv ?s0" "free_frames ?s0 = {}" "max_blocks ?s0 = 8"
    using pmm_init_spec [of "0x8000" no_pmm] by simp_all
  have one: "{0..<1 :: u32} = {0}" using word_interval_insert [of 0 "1 :: u32"] by simp
  have s1: "pmm_inv ?s1" "max_blocks ?s1 = 8" "free_frames ?s1 = {1}"
    using init_region_spec [OF s0(1), of "0x1000" "0x1000"] s0 by (simp_all add: one Collect_conv_if cong: conj_cong)
  show "pmm_inv gap_pmm" "max_blocks gap_pmm = 8" "free_frames gap_pmm = {1, 3}"
    using init_region_spec [OF s1(1), of "0x3000" "0x1000"] s1 by (simp_all add: gap_pmm_def one Collect_conv_if insert_commute cong: conj_cong)
qed

section \<open>Properties\<close>

text \<open>C4: memory safety of the kernel heap. From \<open>heap_init\<close>, for every sequence of \<open>kmalloc\<close> requests
  below half a page and \<open>kfree\<close> of pointers still held, every call returns (no walk of the free list
  runs forever), and at the end the byte ranges requested for any two pointers held are disjoint.\<close>

theorem heap_blocks_disjoint:
  assumes "pmm_inv (pmm h)" "\<forall>n. Malloc n \<in> set ops \<longrightarrow> small_request n"
  shows "\<exists>ps h'. run_ops kmalloc kfree ops [] (heap_init h) = Some (ps, h') \<and>
    (\<forall>i < length ps. \<forall>j < length ps. i \<noteq> j \<longrightarrow> byte_range (ps ! i) \<inter> byte_range (ps ! j) = {})"
proof -
  have "kheap.owns (heap_init h) []"
    using heap_init_inv [OF assms(1)] by (simp add: kheap.owns_def live_inv_def)
  from kheap.run_safe [OF this assms(2)] obtain ps h' where
    "run_ops kmalloc kfree ops [] (heap_init h) = Some (ps, h')" "kheap.owns h' ps" by blast
  with kheap.owns_disjoint [of h' ps] show ?thesis by blast
qed

theorem heap_blocks_disjoint_witness:
  "\<exists>ps h'. run_ops kmalloc kfree [Malloc 100, Malloc 24, Free 0, Malloc 300] [] (heap_init (small_heap small_pmm))
     = Some (ps, h')"
proof -
  have "\<exists>ps h'. run_ops kmalloc kfree [Malloc 100, Malloc 24, Free 0, Malloc 300] [] (heap_init (small_heap small_pmm))
     = Some (ps, h') \<and>
    (\<forall>i < length ps. \<forall>j < length ps. i \<noteq> j \<longrightarrow> byte_range (ps ! i) \<inter> byte_range (ps ! j) = {})"
    by (rule heap_blocks_disjoint)
      (auto simp: small_heap_def small_pmm_spec small_request_def total_size_def align_size_def)
  then show ?thesis by blast
qed

text \<open>\<open>kfree\<close> gives a page-sized allocation back. A request of at least half a page that fits one
  page, header included, takes one frame, and freeing the pointer puts the physical memory manager
  into the state it had before.\<close>

lemma kmalloc_page_roundtrip:
  assumes "pmm_inv (pmm h)" "total_size sz \<ge> PAGE_SIZE div 2" "total_size sz \<le> PAGE_SIZE" "sz \<noteq> 0"
    and "kmalloc sz h = Some (p, h1)" "p \<noteq> NULL"
  shows "\<exists>h2. kfree p h1 = Some h2 \<and> pmm h2 = pmm h"
proof -
  obtain q s where al: "pmm_alloc_block (pmm h) = (q, s)" by fastforce
  have "unat (total_size sz) \<ge> 2048" "unat (total_size sz) \<le> 4096"
    using assms(2,3) by (simp_all add: word_le_nat_alt)
  then have "unat (4095 + total_size sz) = 4095 + unat (total_size sz)"
    "(4095 + unat (total_size sz)) div 4096 = 1"
    by (simp_all add: unat_word_ariths div_nat_eqI)
  then have "unat ((total_size sz + PAGE_SIZE - 1) div PAGE_SIZE) = 1"
    by (simp add: unat_div_distrib)
  then have n: "(total_size sz + PAGE_SIZE - 1) div PAGE_SIZE = 1" by (metis unat_1 word_unat_eq_iff)
  have q: "q \<noteq> NULL" and p: "p = q + 4"
    and h1: "pmm h1 = s" "hb_size (blocks h1 q) = PAGE_SIZE"
    using assms(5,6) al n
    by (auto simp: kmalloc_big [OF assms(4,2)] kmalloc_large_def Let_def more_pages_step split: if_splits)
  have f: "q = q div PAGE_SIZE * PAGE_SIZE" and ne: "free_frames (pmm h) \<noteq> {}"
    using pmm.alloc_nonnull [OF assms(1) al q] by auto
  have "release_pages q 1 0 s = pmm_free_block q s" by (simp add: release_pages_step)
  with alloc_block_free [OF assms(1) ne al] frame_ptr [OF refl f] h1 p show ?thesis
    by (simp add: kfree_def Let_def)
qed

text \<open>C5: requests of more than one page are not contiguous. When the lowest free frame \<open>b\<close> is followed
  by a frame in use, \<open>kmalloc(5000)\<close> still succeeds and returns \<open>b\<close> with a length of two pages, and
  freeing the pointer releases the frame after \<open>b\<close>, which belonged to someone else.\<close>

theorem kmalloc_large_frees_foreign_frame:
  assumes "pmm_inv (pmm h)" "b \<in> free_frames (pmm h)" "b \<noteq> 0" "\<forall>c \<in> free_frames (pmm h). b \<le> c"
    and "b + 1 \<notin> free_frames (pmm h)" "b + 1 < max_blocks (pmm h)"
    and "c \<in> free_frames (pmm h)" "c \<noteq> b"
  shows "\<exists>h1 h2. kmalloc 5000 h = Some (b * PAGE_SIZE + 4, h1) \<and> b + 1 \<notin> free_frames (pmm h1) \<and>
    kfree (b * PAGE_SIZE + 4) h1 = Some h2 \<and> b + 1 \<in> free_frames (pmm h2)"
proof -
  let ?P = "pmm h" and ?q = "b * PAGE_SIZE"
  have b: "b < 0x100000" using pmm.avail_bound [OF assms(1,2)] .
  then have bq: "b = ?q div PAGE_SIZE" by (simp add: frame_addr_div)
  have q0: "?q \<noteq> NULL" using bq assms(3) by auto
  obtain p s where al: "pmm_alloc_block ?P = (p, s)" by fastforce
  have s3: "pmm_inv s" "max_blocks s = max_blocks ?P"
    using alloc_block_inv [OF assms(1) al] alloc_block_max [OF assms(1) al] by auto
  obtain p: "p = ?q" and s: "free_frames s = free_frames ?P - {b}"
    using assms(1) al by (cases rule: alloc_block_cases) (use assms(2,4) order_antisym in blast)+
  obtain p' s' where al': "pmm_alloc_block s = (p', s')" by fastforce
  have s': "free_frames s' \<subseteq> free_frames s" "max_blocks s' = max_blocks ?P" "pmm_inv s'"
    using pmm.alloc_avail_subset [OF s3(1) al'] alloc_block_max [OF s3(1) al'] s3
      alloc_block_inv [OF s3(1) al'] by auto
  have "0 \<notin> free_frames ?P" using assms(3,4) by (metis word_le_0_iff)
  from s3(1) al' have p': "p' \<noteq> NULL"
  proof (cases rule: alloc_block_cases)
    case full
    then show ?thesis using s assms(7,8) by blast
  next
    case (frame d)
    then have "d \<noteq> 0" using s \<open>0 \<notin> free_frames ?P\<close> by auto
    with frame_addr_div [OF pmm.avail_bound [OF s3(1) frame(1)]] frame(3) show ?thesis by auto
  qed
  have t: "total_size 5000 = 5016" by (simp add: total_size_def align_size_def)
  let ?h1 = "h\<lparr>pmm := s', blocks := (blocks h)(?q := (blocks h ?q)\<lparr>hb_size := 0x2000\<rparr>)\<rparr>"
  have k: "kmalloc 5000 h = Some (?q + 4, ?h1)"
    using al al' p p' q0 by (simp add: kmalloc_big t kmalloc_large_def more_pages_step Let_def)
  let ?h2 = "?h1\<lparr>pmm := pmm_free_block (?q + PAGE_SIZE) (pmm_free_block ?q s')\<rparr>"
  have "kfree (?q + 4) ?h1 = Some ?h2"
    using frame_ptr [OF bq refl] by (simp add: kfree_def Let_def release_pages_step)
  moreover have "(?q + PAGE_SIZE) div PAGE_SIZE = b + 1"
  proof -
    have "max_blocks ?P \<le> 32768" using assms(1) by (simp add: pmm_inv_def)
    then have "b + 1 < 0x100000" using assms(6) by (simp add: word_less_nat_alt word_le_nat_alt)
    from frame_addr_div [OF this] show ?thesis by (simp add: algebra_simps)
  qed
  then have "b + 1 \<in> free_frames (pmm ?h2)"
    using assms(6) s' by (simp add: free_block_frames free_block_inv)
  moreover have "b + 1 \<notin> free_frames (pmm ?h1)" using assms(5) s s'(1) by auto
  ultimately show ?thesis using k by blast
qed

theorem kmalloc_large_frees_foreign_frame_witness:
  "\<exists>h1 h2. kmalloc 5000 (small_heap gap_pmm) = Some (0x1004, h1) \<and> 2 \<notin> free_frames gap_pmm \<and>
     kfree 0x1004 h1 = Some h2 \<and> 2 \<in> free_frames (pmm h2)"
  using kmalloc_large_frees_foreign_frame [of "small_heap gap_pmm" 1 3]
  by (auto simp: small_heap_def gap_pmm_spec)

end
