(* ===== verification/HeapStrings.thy ===== *)
theory HeapStrings
  imports CString Heap
begin

text \<open>
  The string functions that allocate, run on the kernel heap: \<open>strdup\<close> of \<open>src/lib/string.c\<close> over
  \<open>kmalloc\<close> of \<open>src/mm/heap.c\<close>, through the allocator interface.
\<close>

lemma offset_outside:
  assumes "unat a \<notin> {unat p..<unat p + n}" "unat (p :: u32) + n \<le> 4294967296"
  shows "n \<le> unat (a - p)"
proof (cases "unat p \<le> unat a")
  case True
  then have "unat (a - p) = unat a - unat p" by (simp add: unat_sub word_le_nat_alt)
  with True assms show ?thesis by auto
next
  case False
  then have "unat (a - p) = 2 ^ 32 + unat a - unat p" by (intro unat_diff_wrap) (simp add: word_less_nat_alt)
  with assms show ?thesis by simp
qed

context block_allocator
begin

text \<open>A string that lies in a live block, or outside every block the allocator may hand out.\<close>

lemma strdup_copy:
  assumes inv: "inv h L" and q: "q \<in> L" "{unat s..unat s + length xs} \<subseteq> extent h q"
    and c: "cstr m s xs" and nn: "s \<noteq> NULL" and ok: "ok_size (word_of_nat (length xs) + 1)"
    and top: "\<And>h L p b. inv h L \<Longrightarrow> p \<in> L \<Longrightarrow> b \<in> extent h p \<Longrightarrow> b < 4294967295"
  shows "\<exists>p m' h'. strdup alloc s m h = Some (p, m', h') \<and>
    (if p = NULL then m' = m \<and> inv h' L
     else cstr m' p xs \<and> cstr m' s xs \<and> p \<notin> L \<and> inv h' (insert p L))"
proof -
  let ?len = "word_of_nat (length xs) + 1 :: u32"
  obtain p h' where a: "alloc ?len h = Some (p, h')" using alloc_returns [OF inv ok] by blast
  have sd: "strdup alloc s m h = Some (p, if p \<noteq> NULL then memcpy p s ?len m else m, h')"
    using strlen_cstr [OF c] nn a by (simp add: strdup_def)
  show ?thesis
  proof (cases "p = NULL")
    case True
    then show ?thesis using sd alloc_fails [OF inv ok] a by simp
  next
    case False
    note ao = alloc_ok [OF inv ok a False]
    have "unat s + length xs \<in> extent h q" using q(2) by auto
    then have xs: "unat s + length xs < 4294967295" using top [OF inv q(1)] by auto
    then have ulen: "unat ?len = Suc (length xs)" by (simp add: unat_word_ariths unat_of_nat)
    have "extent h' p \<inter> extent h' q = {}"
      using ao q(1) by (intro live_disjoint [of h' "insert p L"]) auto
    moreover have "extent h' q = extent h q" using ao q(1) by blast
    ultimately have dis: "{unat p..<unat p + Suc (length xs)} \<inter> {unat s..unat s + length xs} = {}"
      using ao q(2) ulen unfolding byte_range_def by auto
    have ptop: "unat p + length xs < 4294967295"
    proof -
      have "unat p + length xs \<in> extent h' p" using ao ulen by (auto simp: byte_range_def)
      then show ?thesis using top [of h' "insert p L" p] ao by blast
    qed
    have "unat p \<in> {unat p..<unat p + Suc (length xs)}" by simp
    with dis have "unat p \<notin> {unat s..unat s + length xs}" by blast
    then have sep: "Suc (length xs) \<le> unat (p - s)"
      using xs by (intro offset_outside) auto
    have mc: "memcpy p s ?len m b = (if unat (b - p) < Suc (length xs) then m (s + (b - p)) else m b)" for b
      using memcpy_spec [of ?len p s m b] sep ulen by simp
    have i: "unat (word_of_nat i :: u32) = i" "unat (s + word_of_nat i) = unat s + i" if "i \<le> length xs" for i
      using that xs by (simp_all add: unat_of_nat unat_word_ariths)
    have "cstr (memcpy p s ?len m) p xs"
      using c i(1) unfolding cstr_nth mc by simp
    moreover have "\<not> unat (s + word_of_nat i - p) < Suc (length xs)" if "i \<le> length xs" for i
      using dis ptop i(2) [OF that] that by (simp only: not_less) (intro offset_outside, auto)
    then have "cstr (memcpy p s ?len m) s xs"
      using c unfolding cstr_nth mc by simp
    ultimately show ?thesis using sd False ao by auto
  qed
qed

end

text \<open>\<open>strdup\<close> on the kernel heap. For a string in a live heap block, short enough to be a small
  request, \<open>strdup\<close> returns; on success the new pointer is a live block of its own that holds a copy
  of the string, and the original is unchanged.\<close>

lemma strdup_copies:
  assumes "live_inv h L" "q \<in> L" "{unat s..unat s + length xs} \<subseteq> small_extent h q"
    and "cstr m s xs" "s \<noteq> NULL" "small_request (word_of_nat (length xs) + 1)"
  shows "\<exists>p m' h'. strdup kmalloc s m h = Some (p, m', h') \<and>
    (if p = NULL then m' = m \<and> live_inv h' L
     else cstr m' p xs \<and> cstr m' s xs \<and> p \<notin> L \<and> live_inv h' (insert p L))"
proof (rule kheap.strdup_copy [OF assms])
  fix h L p b assume "live_inv h L" "p \<in> L" "b \<in> small_extent h p"
  then show "b < 4294967295"
    using live_block [of h L p] by (auto simp: small_extent_def block_ok_def block_end_def)
qed

text \<open>A heap of one page with one live block of 16 bytes at 0x1010.\<close>

definition one_block_heap :: heap_state where
  "one_block_heap = (small_heap (snd (pmm_alloc_block small_pmm)))\<lparr>
     heap_pages := 0x1000 # replicate 255 NULL, page_count := 1, free_list := 0x1020,
     blocks := (\<lambda>_. \<lparr>hb_size = 0, hb_next = 0, hb_free = 0, hb_magic = 0\<rparr>)(
       0x1000 := \<lparr>hb_size = 16, hb_next = 0, hb_free = 0, hb_magic = HEAP_MAGIC\<rparr>,
       0x1020 := \<lparr>hb_size = 4048, hb_next = 0, hb_free = 1, hb_magic = HEAP_MAGIC\<rparr>)\<rparr>"

lemma one_block_heap_live: "live_inv one_block_heap {0x1010}"
proof -
  have "1 \<notin> free_frames (snd (pmm_alloc_block small_pmm))" "pmm_inv (snd (pmm_alloc_block small_pmm))"
    using small_pmm_alloc pmm.alloc_nonnull(2) [OF small_pmm_spec(2), of "0x1000"]
      alloc_block_inv [OF small_pmm_spec(2)]
    by (cases "pmm_alloc_block small_pmm"; simp)+
  moreover have "heap_frames one_block_heap = {1}"
    by (simp add: heap_frames_def one_block_heap_def)
  moreover have "a div 4096 = 1" if "4096 \<le> a" "a < 8192" for a :: nat
    using that by (intro div_nat_eqI) auto
  ultimately have "heap_inv one_block_heap [0x1020] {0x1000}"
    by (auto simp: heap_inv_def one_block_heap_def small_heap_def tiles_def block_ok_def block_end_def apart_def)
  then show ?thesis by (auto simp: live_inv_def)
qed

end
