(* ===== verification/Scheduler.thy ===== *)
theory Scheduler
  imports Prelude
begin

text \<open>
  Tasks and the scheduler: the task control block of \<open>src/kernel/task.h\<close>, the state changes of
  \<open>src/kernel/task.c\<close> and all of \<open>src/kernel/scheduler.c\<close>. Task structures live in a store from
  addresses to records. A walk around the circular ready queue is partial (\<open>None\<close>: it does not come
  back to its start). A context switch is the change of \<open>current_task\<close>, of the page directory
  register and of the kernel stack in the TSS; the register save and restore of \<open>task_switch_asm\<close>
  and the \<open>iret\<close> are not modelled, so the state after \<open>task_switch\<close> is the one in which the new task
  runs.
\<close>

section \<open>Task control blocks\<close>

datatype task_state = TASK_READY | TASK_RUNNING | TASK_BLOCKED | TASK_SLEEPING | TASK_ZOMBIE

record cpu_context =
  c_edi :: u32
  c_esi :: u32
  c_ebp :: u32
  c_esp :: u32
  c_ebx :: u32
  c_edx :: u32
  c_ecx :: u32
  c_eax :: u32
  c_ds :: u32
  c_es :: u32
  c_fs :: u32
  c_gs :: u32
  c_eip :: u32
  c_cs :: u32
  c_eflags :: u32
  c_user_esp :: u32
  c_ss :: u32

record task =
  t_pid :: u32
  t_name :: "u8 list"
  t_state :: task_state
  t_priority :: u32
  t_context :: cpu_context
  t_page_directory :: u32
  t_kernel_stack :: u32
  t_user_stack :: u32
  t_kernel_stack_alloc :: u32
  t_ring :: u8
  t_user_esp :: u32
  t_code_start :: u32
  t_code_end :: u32
  t_entry_point :: u32
  t_data_start :: u32
  t_data_end :: u32
  t_heap_start :: u32
  t_heap_end :: u32
  t_stack_bottom :: u32
  t_address_space :: u32
  t_user_stack_phys :: u32
  t_time_slice :: u32
  t_total_time :: u32
  t_wake_time :: u32
  t_parent :: u32
  t_parent_pid :: u32
  t_first_child :: u32
  t_next_sibling :: u32
  t_next :: u32
  t_first_run :: bool
  t_exit_code :: int
  t_waited :: bool

section \<open>Scheduler state\<close>

abbreviation SCHEDULER_TIME_SLICE_MS :: u32 where
  "SCHEDULER_TIME_SLICE_MS \<equiv> 10"

record scheduler_stats =
  total_tasks :: u32
  ready_tasks :: u32
  blocked_tasks :: u32
  context_switches :: u32
  total_ticks :: u32

record sched_state =
  tasks :: "u32 \<Rightarrow> task"
  current_task :: u32
  kernel_task :: u32
  task_list_head :: u32
  next_pid :: u32
  ready_queue :: u32
  ready_queue_tail :: u32
  stats :: scheduler_stats
  scheduler_running :: bool
  cr3 :: u32
  tss_esp0 :: u32

definition upd_task :: "u32 \<Rightarrow> (task \<Rightarrow> task) \<Rightarrow> sched_state \<Rightarrow> sched_state" where
  "upd_task t f s = s\<lparr>tasks := (tasks s)(t := f (tasks s t))\<rparr>"

section \<open>The ready queue\<close>

text \<open>The two shapes of the loop \<open>do ... while (task && task != first)\<close>: with an early return, and
  with a body that changes the state.\<close>

partial_function (option) queue_search ::
  "(u32 \<Rightarrow> task) \<Rightarrow> (u32 \<Rightarrow> bool) \<Rightarrow> u32 \<Rightarrow> u32 \<Rightarrow> u32 option option" where
  "queue_search tk P first cur =
     (if P cur then Some (Some cur)
      else
        (let nxt = t_next (tk cur) in
         if nxt \<noteq> NULL \<and> nxt \<noteq> first then queue_search tk P first nxt else Some None))"

partial_function (option) queue_walk ::
  "(u32 \<Rightarrow> sched_state \<Rightarrow> sched_state) \<Rightarrow> u32 \<Rightarrow> u32 \<Rightarrow> sched_state \<Rightarrow> sched_state option" where
  "queue_walk body first cur s =
     (let s = body cur s; nxt = t_next (tasks s cur) in
      if nxt \<noteq> NULL \<and> nxt \<noteq> first then queue_walk body first nxt s else Some s)"

definition scheduler_init :: "sched_state \<Rightarrow> sched_state" where
  "scheduler_init s = s\<lparr>stats := \<lparr>total_tasks = 0, ready_tasks = 0, blocked_tasks = 0,
       context_switches = 0, total_ticks = 0\<rparr>,
     ready_queue := NULL, ready_queue_tail := NULL, scheduler_running := True\<rparr>"

definition enqueue :: "u32 \<Rightarrow> sched_state \<Rightarrow> sched_state" where
  "enqueue task s =
     (let s = (if ready_queue s = NULL then
                 (let s = s\<lparr>ready_queue := task, ready_queue_tail := task\<rparr>
                  in upd_task task (t_next_update (\<lambda>_. task)) s)
               else
                 (let s = upd_task (ready_queue_tail s) (t_next_update (\<lambda>_. task)) s;
                      s = s\<lparr>ready_queue_tail := task\<rparr>
                  in upd_task task (t_next_update (\<lambda>_. ready_queue s)) s));
          s = upd_task task (t_state_update (\<lambda>_. TASK_READY)) s
      in s\<lparr>stats := (stats s)\<lparr>total_tasks := total_tasks (stats s) + 1\<rparr>\<rparr>)"

definition scheduler_add_task :: "u32 \<Rightarrow> sched_state \<Rightarrow> sched_state option" where
  "scheduler_add_task task s =
     (if task = NULL then Some s
      else if task = kernel_task s then Some s
      else if ready_queue s \<noteq> NULL then
        (case queue_search (tasks s) (\<lambda>c. c = task) (ready_queue s) (ready_queue s) of
           None \<Rightarrow> None
         | Some (Some _) \<Rightarrow> Some s
         | Some None \<Rightarrow> Some (enqueue task s))
      else Some (enqueue task s))"

partial_function (option) find_prev :: "(u32 \<Rightarrow> task) \<Rightarrow> u32 \<Rightarrow> u32 \<Rightarrow> u32 \<Rightarrow> u32 option" where
  "find_prev tk task first prev =
     (if t_next (tk prev) \<noteq> task \<and> t_next (tk prev) \<noteq> first
      then find_prev tk task first (t_next (tk prev)) else Some prev)"

text \<open>The last two statements of \<open>scheduler_remove_task\<close>, reached on every path.\<close>

definition finish_remove :: "u32 \<Rightarrow> sched_state \<Rightarrow> sched_state" where
  "finish_remove task s =
     (let s = upd_task task (t_next_update (\<lambda>_. NULL)) s
      in if total_tasks (stats s) > 0
         then s\<lparr>stats := (stats s)\<lparr>total_tasks := total_tasks (stats s) - 1\<rparr>\<rparr> else s)"

definition scheduler_remove_task :: "u32 \<Rightarrow> sched_state \<Rightarrow> sched_state option" where
  "scheduler_remove_task task s =
     (if task = NULL \<or> ready_queue s = NULL then Some s
      else if ready_queue s = task then
        (if ready_queue s = ready_queue_tail s
         then Some (finish_remove task (s\<lparr>ready_queue := NULL, ready_queue_tail := NULL\<rparr>))
         else
           (let nxt = t_next (tasks s task);
                s = upd_task (ready_queue_tail s) (t_next_update (\<lambda>_. nxt)) s
            in Some (finish_remove task (s\<lparr>ready_queue := t_next (tasks s task)\<rparr>))))
      else
        (case find_prev (tasks s) task (ready_queue s) (ready_queue s) of
           None \<Rightarrow> None
         | Some prev \<Rightarrow>
             if t_next (tasks s prev) = task then
               (let nxt = t_next (tasks s task);
                    s = upd_task prev (t_next_update (\<lambda>_. nxt)) s;
                    s = (if task = ready_queue_tail s then s\<lparr>ready_queue_tail := prev\<rparr> else s)
                in Some (finish_remove task s))
             else Some (finish_remove task s)))"

definition get_next_ready_task :: "sched_state \<Rightarrow> u32 option" where
  "get_next_ready_task s =
     (if ready_queue s = NULL then Some (kernel_task s)
      else
        (case queue_search (tasks s) (\<lambda>c. t_state (tasks s c) = TASK_READY) (ready_queue s) (ready_queue s) of
           None \<Rightarrow> None
         | Some (Some t) \<Rightarrow> Some t
         | Some None \<Rightarrow> Some (kernel_task s)))"

definition count_task :: "u32 \<Rightarrow> sched_state \<Rightarrow> sched_state" where
  "count_task t s =
     (case t_state (tasks s t) of
        TASK_READY \<Rightarrow> s\<lparr>stats := (stats s)\<lparr>ready_tasks := ready_tasks (stats s) + 1\<rparr>\<rparr>
      | TASK_BLOCKED \<Rightarrow> s\<lparr>stats := (stats s)\<lparr>blocked_tasks := blocked_tasks (stats s) + 1\<rparr>\<rparr>
      | TASK_SLEEPING \<Rightarrow> s\<lparr>stats := (stats s)\<lparr>blocked_tasks := blocked_tasks (stats s) + 1\<rparr>\<rparr>
      | _ \<Rightarrow> s)"

definition update_statistics :: "sched_state \<Rightarrow> sched_state option" where
  "update_statistics s =
     (let s = s\<lparr>stats := (stats s)\<lparr>ready_tasks := 0, blocked_tasks := 0\<rparr>\<rparr>
      in if ready_queue s = NULL then Some s
         else queue_walk count_task (ready_queue s) (ready_queue s) s)"

definition scheduler_get_stats :: "sched_state \<Rightarrow> (scheduler_stats \<times> sched_state) option" where
  "scheduler_get_stats s = (case update_statistics s of None \<Rightarrow> None | Some s \<Rightarrow> Some (stats s, s))"

definition scheduler_pick_next :: "sched_state \<Rightarrow> (u32 \<times> sched_state) option" where
  "scheduler_pick_next s =
     (case update_statistics s of None \<Rightarrow> None
      | Some s \<Rightarrow>
          (case get_next_ready_task s of None \<Rightarrow> None
           | Some nxt \<Rightarrow>
               Some (nxt, upd_task nxt (t_time_slice_update (\<lambda>_. SCHEDULER_TIME_SLICE_MS)) s)))"

section \<open>Switching\<close>

definition task_switch :: "u32 \<Rightarrow> sched_state \<Rightarrow> sched_state" where
  "task_switch new_task s =
     (if new_task = NULL \<or> new_task = current_task s then s
      else
        (let old_task = current_task s;
             s = (if old_task \<noteq> NULL \<and> t_state (tasks s old_task) = TASK_RUNNING
                  then upd_task old_task (t_state_update (\<lambda>_. TASK_READY)) s else s);
             s = upd_task new_task (t_state_update (\<lambda>_. TASK_RUNNING)) s;
             s = s\<lparr>current_task := new_task\<rparr>;
             pd = t_page_directory (tasks s new_task);
             s = (if pd \<noteq> NULL \<and> (old_task = NULL \<or> pd \<noteq> t_page_directory (tasks s old_task))
                  then s\<lparr>cr3 := pd\<rparr> else s);
             s = s\<lparr>tss_esp0 := t_kernel_stack (tasks s new_task) + 4096\<rparr>
         in if t_ring (tasks s new_task) = 3 \<and> t_first_run (tasks s new_task)
            then upd_task new_task (t_first_run_update (\<lambda>_. False)) s
            else s))"

definition scheduler_schedule :: "sched_state \<Rightarrow> sched_state option" where
  "scheduler_schedule s =
     (if \<not> scheduler_running s then Some s
      else
        (let s = (if current_task s \<noteq> NULL \<and> t_state (tasks s (current_task s)) = TASK_RUNNING
                  then upd_task (current_task s) (t_state_update (\<lambda>_. TASK_READY)) s else s)
         in case scheduler_pick_next s of None \<Rightarrow> None
            | Some (nxt, s) \<Rightarrow>
                if nxt = NULL \<or> nxt = current_task s then
                  Some (if current_task s \<noteq> NULL
                        then upd_task (current_task s) (\<lambda>t. t\<lparr>t_state := TASK_RUNNING,
                               t_time_slice := SCHEDULER_TIME_SLICE_MS\<rparr>) s
                        else s)
                else
                  Some (task_switch nxt
                    (s\<lparr>stats := (stats s)\<lparr>context_switches := context_switches (stats s) + 1\<rparr>\<rparr>))))"

definition wake_task :: "u32 \<Rightarrow> sched_state \<Rightarrow> sched_state" where
  "wake_task t s =
     (if t_state (tasks s t) = TASK_SLEEPING \<and> t_wake_time (tasks s t) > 0 \<and>
         total_ticks (stats s) \<ge> t_wake_time (tasks s t)
      then upd_task t (\<lambda>t. t\<lparr>t_state := TASK_READY, t_wake_time := 0\<rparr>) s
      else s)"

definition scheduler_tick :: "sched_state \<Rightarrow> sched_state option" where
  "scheduler_tick s =
     (if \<not> scheduler_running s then Some s
      else
        (let s = s\<lparr>stats := (stats s)\<lparr>total_ticks := total_ticks (stats s) + 1\<rparr>\<rparr>
         in case (if ready_queue s \<noteq> NULL
                  then queue_walk wake_task (ready_queue s) (ready_queue s) s else Some s) of
              None \<Rightarrow> None
            | Some s \<Rightarrow>
                if current_task s \<noteq> NULL \<and> t_state (tasks s (current_task s)) = TASK_RUNNING then
                  (let s = (if t_time_slice (tasks s (current_task s)) > 0
                            then upd_task (current_task s) (\<lambda>t. t\<lparr>t_time_slice := t_time_slice t - 1,
                                   t_total_time := t_total_time t + 1\<rparr>) s
                            else s)
                   in if t_time_slice (tasks s (current_task s)) = 0 then scheduler_schedule s else Some s)
                else Some s))"

section \<open>Task life cycle\<close>

definition task_add_child :: "u32 \<Rightarrow> u32 \<Rightarrow> sched_state \<Rightarrow> sched_state" where
  "task_add_child parent child s =
     (if parent = NULL \<or> child = NULL then s
      else
        (let s = upd_task child (\<lambda>t. t\<lparr>t_parent := parent\<rparr>) s;
             s = upd_task child (\<lambda>t. t\<lparr>t_parent_pid := t_pid (tasks s parent)\<rparr>) s;
             s = upd_task child (\<lambda>t. t\<lparr>t_next_sibling := t_first_child (tasks s parent)\<rparr>) s
         in upd_task parent (\<lambda>t. t\<lparr>t_first_child := child\<rparr>) s))"

partial_function (option) remove_child_loop ::
  "u32 \<Rightarrow> u32 \<Rightarrow> u32 \<Rightarrow> u32 \<Rightarrow> sched_state \<Rightarrow> sched_state option" where
  "remove_child_loop parent child prev cur s =
     (if cur \<noteq> NULL then
        (if cur = child then
           (let nxt = t_next_sibling (tasks s cur);
                s = (if prev \<noteq> NULL then upd_task prev (\<lambda>t. t\<lparr>t_next_sibling := nxt\<rparr>) s
                     else upd_task parent (\<lambda>t. t\<lparr>t_first_child := nxt\<rparr>) s)
            in Some (upd_task child (\<lambda>t. t\<lparr>t_parent := NULL, t_next_sibling := NULL\<rparr>) s))
         else remove_child_loop parent child cur (t_next_sibling (tasks s cur)) s)
      else Some s)"

definition task_remove_child :: "u32 \<Rightarrow> u32 \<Rightarrow> sched_state \<Rightarrow> sched_state option" where
  "task_remove_child parent child s =
     (if parent = NULL \<or> child = NULL then Some s
      else remove_child_loop parent child NULL (t_first_child (tasks s parent)) s)"

definition task_yield :: "sched_state \<Rightarrow> sched_state option" where
  "task_yield s = scheduler_schedule s"

definition task_block :: "sched_state \<Rightarrow> sched_state option" where
  "task_block s =
     (if current_task s \<noteq> NULL
      then task_yield (upd_task (current_task s) (\<lambda>t. t\<lparr>t_state := TASK_BLOCKED\<rparr>) s)
      else Some s)"

definition task_unblock :: "u32 \<Rightarrow> sched_state \<Rightarrow> sched_state" where
  "task_unblock task s =
     (if task \<noteq> NULL \<and> t_state (tasks s task) = TASK_BLOCKED
      then upd_task task (\<lambda>t. t\<lparr>t_state := TASK_READY\<rparr>) s else s)"

definition task_sleep :: "u32 \<Rightarrow> sched_state \<Rightarrow> sched_state option" where
  "task_sleep ms s =
     (if current_task s = NULL then Some s
      else
        (case scheduler_get_stats s of None \<Rightarrow> None
         | Some (st, s) \<Rightarrow>
             task_yield (upd_task (current_task s)
               (\<lambda>t. t\<lparr>t_wake_time := total_ticks st + ms, t_state := TASK_SLEEPING\<rparr>) s)))"

definition task_exit :: "int \<Rightarrow> sched_state \<Rightarrow> sched_state option" where
  "task_exit exit_code s =
     (if current_task s = NULL \<or> current_task s = kernel_task s then Some s
      else
        (let s = upd_task (current_task s) (\<lambda>t. t\<lparr>t_state := TASK_ZOMBIE, t_exit_code := exit_code\<rparr>) s;
             par = t_parent (tasks s (current_task s));
             s = (if par \<noteq> NULL \<and> t_state (tasks s par) = TASK_BLOCKED then task_unblock par s else s)
         in task_yield s))"

section \<open>The ready queue as a list\<close>

text \<open>\<open>seg tk p xs q\<close>: following \<open>next\<close> from \<open>p\<close> visits \<open>xs\<close> and arrives at \<open>q\<close>.\<close>

primrec seg :: "(u32 \<Rightarrow> task) \<Rightarrow> u32 \<Rightarrow> u32 list \<Rightarrow> u32 \<Rightarrow> bool" where
  "seg tk p [] q \<longleftrightarrow> p = q"
| "seg tk p (x # xs) q \<longleftrightarrow> p = x \<and> x \<noteq> NULL \<and> seg tk (t_next (tk x)) xs q"

lemma seg_append: "seg tk p (xs @ ys) q \<longleftrightarrow> (\<exists>r. seg tk p xs r \<and> seg tk r ys q)"
  by (induction xs arbitrary: p) auto

lemma seg_cong: "(\<And>x. x \<in> set xs \<Longrightarrow> t_next (tk x) = t_next (tk' x)) \<Longrightarrow> seg tk p xs q = seg tk' p xs q"
  by (induction xs arbitrary: p) auto

lemma seg_NULL: "seg tk p xs q \<Longrightarrow> NULL \<notin> set xs"
  by (induction xs arbitrary: p) auto

lemma seg_hd: "seg tk p xs q \<Longrightarrow> xs \<noteq> [] \<Longrightarrow> p = hd xs"
  by (cases xs) auto

text \<open>The queue holds the tasks \<open>xs\<close>, in order, without repetition and without the idle task.\<close>

definition queue_ok :: "sched_state \<Rightarrow> u32 list \<Rightarrow> bool" where
  "queue_ok s xs \<longleftrightarrow> distinct xs \<and> kernel_task s \<notin> set xs \<and>
     (if xs = [] then ready_queue s = NULL
      else ready_queue s = hd xs \<and> ready_queue_tail s = last xs \<and> seg (tasks s) (hd xs) xs (hd xs))"

lemma queue_ok_NULL: "queue_ok s xs \<Longrightarrow> NULL \<notin> set xs"
  by (cases "xs = []") (auto simp: queue_ok_def dest: seg_NULL)

lemma queue_ok_ready: "queue_ok s xs \<Longrightarrow> ready_queue s = NULL \<longleftrightarrow> xs = []"
  using queue_ok_NULL [of s xs] by (cases xs) (auto simp: queue_ok_def)

lemma queue_search_seg:
  "seg tk cur ys first \<Longrightarrow> ys \<noteq> [] \<Longrightarrow> first \<notin> set (tl ys) \<Longrightarrow>
     queue_search tk P first cur = Some (find P ys)"
proof (induction ys arbitrary: cur)
  case (Cons y ys)
  show ?case
  proof (cases ys)
    case Nil
    then show ?thesis using Cons.prems by (subst queue_search.simps) (simp add: Let_def)
  next
    case (Cons z zs)
    then have "t_next (tk y) = z" "z \<noteq> NULL" "z \<noteq> first" using Cons.prems by auto
    with Cons.IH [of z] Cons.prems Cons show ?thesis
      by (subst queue_search.simps) (auto simp: Let_def)
  qed
qed simp

lemma queue_walk_seg:
  assumes "\<And>c s x. t_next (tasks (body c s) x) = t_next (tasks s x)"
  shows "seg (tasks s) cur ys first \<Longrightarrow> ys \<noteq> [] \<Longrightarrow> first \<notin> set (tl ys) \<Longrightarrow>
     queue_walk body first cur s = Some (fold body ys s)"
proof (induction ys arbitrary: cur s)
  case (Cons y ys)
  have nx: "t_next (tasks (body cur s) cur) = t_next (tasks s cur)" by (rule assms)
  show ?case
  proof (cases ys)
    case Nil
    then show ?thesis using Cons.prems nx by (subst queue_walk.simps) (simp add: Let_def)
  next
    case (Cons z zs)
    then have z: "t_next (tasks s y) = z" "z \<noteq> NULL" "z \<noteq> first" using Cons.prems by auto
    have "seg (tasks (body y s)) z ys first"
      using seg_cong [of ys "tasks (body y s)" "tasks s" z first] assms Cons.prems z by simp
    with Cons.IH [of "body y s" z] z nx Cons.prems Cons show ?thesis
      by (subst queue_walk.simps) (auto simp: Let_def)
  qed
qed simp

lemma queue_loops:
  assumes "queue_ok s xs" "xs \<noteq> []"
  shows "queue_search (tasks s) P (ready_queue s) (ready_queue s) = Some (find P xs)"
    and "(\<And>c s x. t_next (tasks (body c s) x) = t_next (tasks s x)) \<Longrightarrow>
      queue_walk body (ready_queue s) (ready_queue s) s = Some (fold body xs s)"
proof -
  have "hd xs \<notin> set (tl xs)" using assms by (cases xs) (auto simp: queue_ok_def)
  moreover have "seg (tasks s) (ready_queue s) xs (ready_queue s)" "ready_queue s = hd xs"
    using assms by (auto simp: queue_ok_def)
  ultimately show "queue_search (tasks s) P (ready_queue s) (ready_queue s) = Some (find P xs)"
    and "(\<And>c s x. t_next (tasks (body c s) x) = t_next (tasks s x)) \<Longrightarrow>
      queue_walk body (ready_queue s) (ready_queue s) s = Some (fold body xs s)"
    using queue_search_seg queue_walk_seg assms(2) by metis+
qed

text \<open>The queue depends on the links, the two ends and the idle task only.\<close>

lemma queue_ok_cong:
  assumes "queue_ok s xs" "\<And>x. x \<in> set xs \<Longrightarrow> t_next (tasks s' x) = t_next (tasks s x)"
    and "ready_queue s' = ready_queue s" "ready_queue_tail s' = ready_queue_tail s" "kernel_task s' = kernel_task s"
  shows "queue_ok s' xs"
  using assms seg_cong [of xs "tasks s'" "tasks s" "hd xs" "hd xs"] by (auto simp: queue_ok_def)

lemma seg_relink:
  "seg tk p xs q \<Longrightarrow> xs \<noteq> [] \<Longrightarrow> (\<And>x. x \<in> set (butlast xs) \<Longrightarrow> t_next (tk' x) = t_next (tk x)) \<Longrightarrow>
     t_next (tk' (last xs)) = r \<Longrightarrow> seg tk' p xs r"
proof (induction xs arbitrary: p)
  case (Cons x xs)
  then show ?case by (cases "xs = []") auto
qed simp

lemma distinct_butlast_last: "distinct xs \<Longrightarrow> x \<in> set (butlast xs) \<Longrightarrow> x \<noteq> last xs"
  by (induction xs) (auto split: if_splits)

lemma upd_task_simps [simp]:
  "tasks (upd_task t f s) = (tasks s)(t := f (tasks s t))"
  "current_task (upd_task t f s) = current_task s" "kernel_task (upd_task t f s) = kernel_task s"
  "ready_queue (upd_task t f s) = ready_queue s" "ready_queue_tail (upd_task t f s) = ready_queue_tail s"
  "stats (upd_task t f s) = stats s" "scheduler_running (upd_task t f s) = scheduler_running s"
  "cr3 (upd_task t f s) = cr3 s" "tss_esp0 (upd_task t f s) = tss_esp0 s"
  "task_list_head (upd_task t f s) = task_list_head s"
  by (simp_all add: upd_task_def)

lemma enqueue_ok:
  assumes q: "queue_ok s xs" and t: "t \<noteq> NULL" "t \<noteq> kernel_task s" "t \<notin> set xs"
  shows "queue_ok (enqueue t s) (xs @ [t])"
proof (cases "xs = []")
  case True
  then show ?thesis using q t by (auto simp: queue_ok_def enqueue_def Let_def)
next
  case False
  have r: "ready_queue s \<noteq> NULL" using queue_ok_ready [OF q] False by simp
  have x: "distinct xs" "ready_queue s = hd xs" "ready_queue_tail s = last xs" "seg (tasks s) (hd xs) xs (hd xs)"
    using q False by (auto simp: queue_ok_def)
  have lt: "last xs \<noteq> t" using t(3) False by (metis last_in_set)
  have bl: "b \<noteq> last xs \<and> b \<noteq> t" if "b \<in> set (butlast xs)" for b
    using distinct_butlast_last [OF x(1) that] in_set_butlastD [OF that] t(3) by auto
  have "seg (tasks (enqueue t s)) (hd xs) xs t"
    by (rule seg_relink [OF x(4) False]) (use r x lt bl in \<open>auto simp: enqueue_def Let_def\<close>)
  moreover have "seg (tasks (enqueue t s)) t [t] (hd xs)"
    using r x lt t by (simp add: enqueue_def Let_def)
  ultimately have "seg (tasks (enqueue t s)) (hd xs) (xs @ [t]) (hd xs)"
    unfolding seg_append by blast
  then show ?thesis
    using q t False r x by (auto simp: queue_ok_def enqueue_def Let_def)
qed

lemma add_task_spec:
  assumes "queue_ok s xs"
  shows "scheduler_add_task t s =
    Some (if t = NULL \<or> t = kernel_task s \<or> t \<in> set xs then s else enqueue t s)"
proof (cases "xs = []")
  case True
  then show ?thesis using queue_ok_ready [OF assms] by (simp add: scheduler_add_task_def)
next
  case False
  have "find (\<lambda>c. c = t) xs = (if t \<in> set xs then Some t else None)"
    by (induction xs) auto
  with queue_loops(1) [OF assms False] queue_ok_ready [OF assms] False show ?thesis
    by (auto simp: scheduler_add_task_def split: option.splits)
qed

lemma find_prev_member:
  "seg tk p (us @ t # vs) first \<Longrightarrow> us \<noteq> [] \<Longrightarrow> first \<notin> set (tl us) \<Longrightarrow> distinct (us @ t # vs) \<Longrightarrow>
     find_prev tk t first p = Some (last us)"
proof (induction us arbitrary: p)
  case (Cons u us)
  show ?case
  proof (cases us)
    case Nil
    then show ?thesis using Cons.prems by (subst find_prev.simps) auto
  next
    case (Cons w ws)
    then have "t_next (tk u) = w" "w \<noteq> t" "w \<noteq> first" using Cons.prems by auto
    with Cons.IH [of w] Cons.prems Cons show ?thesis by (subst find_prev.simps) auto
  qed
qed simp

lemma find_prev_absent:
  "seg tk p xs first \<Longrightarrow> xs \<noteq> [] \<Longrightarrow> first \<notin> set (tl xs) \<Longrightarrow> t \<notin> set xs \<Longrightarrow>
     find_prev tk t first p = Some (last xs) \<and> t_next (tk (last xs)) = first"
proof (induction xs arbitrary: p)
  case (Cons x xs)
  show ?case
  proof (cases xs)
    case Nil
    then show ?thesis using Cons.prems by (subst find_prev.simps) auto
  next
    case (Cons w ws)
    then have "t_next (tk x) = w" "w \<noteq> t" "w \<noteq> first" using Cons.prems by auto
    with Cons.IH [of w] Cons.prems Cons show ?thesis by (subst find_prev.simps) auto
  qed
qed simp

lemma finish_remove_simps [simp]:
  "tasks (finish_remove t s) = (tasks s)(t := (tasks s t)\<lparr>t_next := NULL\<rparr>)"
  "ready_queue (finish_remove t s) = ready_queue s" "ready_queue_tail (finish_remove t s) = ready_queue_tail s"
  "kernel_task (finish_remove t s) = kernel_task s" "current_task (finish_remove t s) = current_task s"
  by (simp_all add: finish_remove_def Let_def)

lemma remove_task_ok:
  assumes q: "queue_ok s xs" and t: "t \<in> set xs"
  shows "\<exists>s'. scheduler_remove_task t s = Some s' \<and> queue_ok s' (remove1 t xs) \<and>
    (\<forall>x. t_state (tasks s' x) = t_state (tasks s x)) \<and> current_task s' = current_task s"
proof -
  obtain us vs where xs: "xs = us @ t # vs" using t by (auto simp: in_set_conv_decomp)
  have ne: "xs \<noteq> []" "ready_queue s \<noteq> NULL" "t \<noteq> NULL"
    using t queue_ok_ready [OF q] queue_ok_NULL [OF q] by auto
  have x: "distinct xs" "ready_queue s = hd xs" "ready_queue_tail s = last xs" "seg (tasks s) (hd xs) xs (hd xs)"
    "kernel_task s \<notin> set xs"
    using q ne by (auto simp: queue_ok_def)
  show ?thesis
  proof (cases us)
    case Nil
    show ?thesis
    proof (cases "vs = []")
      case True
      then show ?thesis using Nil x ne xs
        by (simp add: scheduler_remove_task_def Let_def queue_ok_def)
    next
      case False
      have d: "last vs \<noteq> t" "t \<notin> set vs" "distinct vs"
        using x(1) xs Nil False by (auto simp: last_in_set)
      have tn: "t_next (tasks s t) = hd vs" and sv: "seg (tasks s) (hd vs) vs t"
        using x(4) xs Nil False seg_hd by (cases vs; auto)+
      let ?s = "finish_remove t (upd_task (last vs) (t_next_update (\<lambda>_. hd vs)) s\<lparr>ready_queue := hd vs\<rparr>)"
      have "scheduler_remove_task t s = Some ?s"
        using x(2,3) ne xs Nil False d tn by (simp add: scheduler_remove_task_def Let_def)
      moreover have "seg (tasks ?s) (hd vs) vs (hd vs)"
        by (rule seg_relink [OF sv False])
          (use d distinct_butlast_last [OF d(3)] in_set_butlastD [of _ vs] in auto)
      then have "queue_ok ?s vs" using x xs Nil False by (auto simp: queue_ok_def)
      ultimately show ?thesis using xs Nil by auto
    qed
  next
    case (Cons u us')
    let ?p = "last us" and ?n = "t_next (tasks s t)"
    have us: "us \<noteq> []" "hd xs = hd us" "hd us \<notin> set (tl us)" "hd us \<noteq> t" "t \<notin> set us" "t \<notin> set vs"
      "distinct us" "distinct vs" "set us \<inter> set vs = {}" "?p \<in> set us"
      using x(1) xs Cons by auto
    obtain s1: "seg (tasks s) (hd us) us t" and s2: "seg (tasks s) ?n vs (hd us)"
      using x(4) unfolding xs seg_append using us(2) xs by auto
    have fp: "find_prev (tasks s) t (hd us) (hd us) = Some ?p"
      using find_prev_member [of "tasks s" "hd us" us t vs "hd us"] x us xs by simp
    have pn: "t_next (tasks s ?p) = t"
    proof -
      have "us = butlast us @ [?p]" using us(1) by simp
      with s1 have "\<exists>r. seg (tasks s) r [?p] t" by (metis seg_append)
      then show ?thesis by auto
    qed
    let ?s0 = "upd_task ?p (t_next_update (\<lambda>_. ?n)) s"
    let ?s = "finish_remove t (if t = last xs then ?s0\<lparr>ready_queue_tail := ?p\<rparr> else ?s0)"
    have r: "scheduler_remove_task t s = Some ?s"
      using x(2,3) ne us fp pn by (simp add: scheduler_remove_task_def Let_def)
    have tk: "t_next (tasks ?s y) = (if y = t then NULL else if y = ?p then ?n else t_next (tasks s y))" for y
      using us by auto
    have "seg (tasks ?s) (hd us) us ?n"
      by (rule seg_relink [OF s1 us(1)]) (use tk us distinct_butlast_last [OF us(7)] in_set_butlastD [of _ us] in auto)
    moreover have "?p \<notin> set vs" using us(9,10) by blast
    then have "t_next (tasks ?s v) = t_next (tasks s v)" if "v \<in> set vs" for v
      unfolding tk using that us(6) by auto
    then have "seg (tasks ?s) ?n vs (hd us)"
      using seg_cong [of vs "tasks ?s" "tasks s" ?n "hd us"] s2 by blast
    ultimately have "seg (tasks ?s) (hd us) (us @ vs) (hd us)" unfolding seg_append by blast
    moreover have "last (us @ vs) = ready_queue_tail ?s"
      using x(1,3) xs us by (cases "vs = []") (auto simp: last_in_set) 
    ultimately have "queue_ok ?s (us @ vs)" using x us xs by (auto simp: queue_ok_def)
    moreover have "remove1 t xs = us @ vs" using xs us by (simp add: remove1_append)
    ultimately show ?thesis using r by auto
  qed
qed

lemma remove_task_absent:
  assumes q: "queue_ok s xs" and t: "t \<notin> set xs"
  shows "scheduler_remove_task t s = Some (if t = NULL \<or> xs = [] then s else finish_remove t s)"
proof (cases "xs = []")
  case True
  then show ?thesis using queue_ok_ready [OF q] by (simp add: scheduler_remove_task_def)
next
  case False
  have x: "distinct xs" "ready_queue s = hd xs" "seg (tasks s) (hd xs) xs (hd xs)"
    using q False by (auto simp: queue_ok_def)
  have "hd xs \<notin> set (tl xs)" "ready_queue s \<noteq> t" using x(1,2) t False by (cases xs; auto)+
  with find_prev_absent [OF x(3) False _ t] x t False queue_ok_ready [OF q] show ?thesis
    by (simp add: scheduler_remove_task_def)
qed

lemma finish_remove_ok: "queue_ok s xs \<Longrightarrow> t \<notin> set xs \<Longrightarrow> queue_ok (finish_remove t s) xs"
  by (rule queue_ok_cong) auto

section \<open>Scheduling keeps the queue\<close>

definition same_queue :: "sched_state \<Rightarrow> sched_state \<Rightarrow> bool" where
  "same_queue s s' \<longleftrightarrow> (\<forall>x. t_next (tasks s' x) = t_next (tasks s x)) \<and> ready_queue s' = ready_queue s \<and>
     ready_queue_tail s' = ready_queue_tail s \<and> kernel_task s' = kernel_task s"

lemma same_queue_ok: "queue_ok s xs \<Longrightarrow> same_queue s s' \<Longrightarrow> queue_ok s' xs"
  by (rule queue_ok_cong) (auto simp: same_queue_def)

lemma same_queue_refl [simp, intro]: "same_queue s s"
  by (simp add: same_queue_def)

lemma same_queue_trans [trans]: "same_queue s s' \<Longrightarrow> same_queue s' s'' \<Longrightarrow> same_queue s s''"
  by (simp add: same_queue_def)

lemma same_queue_upd: "(\<And>t. t_next (f t) = t_next t) \<Longrightarrow> same_queue s (upd_task t f s)"
  by (simp add: same_queue_def)

definition single_running :: "sched_state \<Rightarrow> bool" where
  "single_running s \<longleftrightarrow> (\<forall>t. t \<noteq> NULL \<and> t_state (tasks s t) = TASK_RUNNING \<longrightarrow> t = current_task s)"

text \<open>The statistics count the queue.\<close>

definition count_state :: "(task_state \<Rightarrow> bool) \<Rightarrow> sched_state \<Rightarrow> u32 list \<Rightarrow> nat" where
  "count_state P s xs = length (filter (\<lambda>t. P (t_state (tasks s t))) xs)"

abbreviation waiting :: "task_state \<Rightarrow> bool" where
  "waiting st \<equiv> st = TASK_BLOCKED \<or> st = TASK_SLEEPING"

lemma fold_count_task:
  "fold count_task xs s = s\<lparr>stats := (stats s)\<lparr>
     ready_tasks := ready_tasks (stats s) + word_of_nat (count_state (\<lambda>st. st = TASK_READY) s xs),
     blocked_tasks := blocked_tasks (stats s) + word_of_nat (count_state waiting s xs)\<rparr>\<rparr>"
proof (induction xs arbitrary: s)
  case Nil
  then show ?case by (simp add: count_state_def)
next
  case (Cons x xs)
  then show ?case
    by (cases "t_state (tasks s x)") (simp_all add: count_task_def count_state_def add.commute add.left_commute)
qed

lemma update_statistics_spec:
  assumes "queue_ok s xs"
  shows "update_statistics s = Some (s\<lparr>stats := (stats s)\<lparr>
     ready_tasks := word_of_nat (count_state (\<lambda>st. st = TASK_READY) s xs),
     blocked_tasks := word_of_nat (count_state waiting s xs)\<rparr>\<rparr>)"
proof (cases "xs = []")
  case True
  then show ?thesis
    using queue_ok_ready [OF assms] by (simp add: update_statistics_def count_state_def)
next
  case False
  let ?s = "s\<lparr>stats := (stats s)\<lparr>ready_tasks := 0, blocked_tasks := 0\<rparr>\<rparr>"
  have q: "queue_ok ?s xs" by (rule queue_ok_cong [OF assms]) auto
  have nx: "t_next (tasks (count_task c s) x) = t_next (tasks s x)" for c s x
    by (simp add: count_task_def split: task_state.splits)
  have "count_state P ?s xs = count_state P s xs" for P by (simp add: count_state_def)
  with queue_loops(2) [OF q False, of count_task, OF nx] queue_ok_ready [OF assms] False show ?thesis
    by (simp add: update_statistics_def Let_def fold_count_task)
qed

lemma get_next_spec:
  assumes "queue_ok s xs"
  shows "get_next_ready_task s = Some (case find (\<lambda>c. t_state (tasks s c) = TASK_READY) xs of
    None \<Rightarrow> kernel_task s | Some t \<Rightarrow> t)"
proof (cases "xs = []")
  case True
  then show ?thesis using queue_ok_ready [OF assms] by (simp add: get_next_ready_task_def)
next
  case False
  with queue_loops(1) [OF assms False] queue_ok_ready [OF assms] show ?thesis
    by (simp add: get_next_ready_task_def split: option.splits)
qed

definition next_task :: "sched_state \<Rightarrow> u32 list \<Rightarrow> u32" where
  "next_task s xs = (case find (\<lambda>c. t_state (tasks s c) = TASK_READY) xs of
     None \<Rightarrow> kernel_task s | Some t \<Rightarrow> t)"

lemma pick_next_spec:
  assumes "queue_ok s xs"
  shows "\<exists>st. scheduler_pick_next s = Some (next_task s xs,
      upd_task (next_task s xs) (t_time_slice_update (\<lambda>_. SCHEDULER_TIME_SLICE_MS)) (s\<lparr>stats := st\<rparr>)) \<and>
    total_ticks st = total_ticks (stats s)"
proof -
  obtain st where u: "update_statistics s = Some (s\<lparr>stats := st\<rparr>)" "total_ticks st = total_ticks (stats s)"
    using update_statistics_spec [OF assms] by auto
  have "queue_ok (s\<lparr>stats := st\<rparr>) xs" by (rule queue_ok_cong [OF assms]) auto
  from get_next_spec [OF this] u show ?thesis
    by (cases "find (\<lambda>c. t_state (tasks s c) = TASK_READY) xs")
      (auto simp: scheduler_pick_next_def next_task_def)
qed

lemma task_switch_effect:
  assumes "t \<noteq> NULL" "t \<noteq> current_task s"
  shows "current_task (task_switch t s) = t" "same_queue s (task_switch t s)"
    "scheduler_running (task_switch t s) = scheduler_running s" "stats (task_switch t s) = stats s"
    "tss_esp0 (task_switch t s) = t_kernel_stack (tasks s t) + 4096"
    "t_state (tasks (task_switch t s) x) =
      (if x = t then TASK_RUNNING
       else if x = current_task s \<and> x \<noteq> NULL \<and> t_state (tasks s x) = TASK_RUNNING then TASK_READY
       else t_state (tasks s x))"
  using assms by (auto simp: task_switch_def Let_def same_queue_def)

lemma task_switch_single: "single_running s \<Longrightarrow> single_running (task_switch t s)"
proof (cases "t = NULL \<or> t = current_task s")
  case True
  then show "single_running s \<Longrightarrow> ?thesis" by (auto simp: task_switch_def)
next
  case False
  then show "single_running s \<Longrightarrow> ?thesis"
    by (auto simp: single_running_def task_switch_effect split: if_splits)
qed

text \<open>What \<open>scheduler_schedule\<close> does: the running task goes back to ready, then the first ready
  task of the queue (or the idle task) runs.\<close>

definition preempted :: "sched_state \<Rightarrow> sched_state" where
  "preempted s =
     (if current_task s \<noteq> NULL \<and> t_state (tasks s (current_task s)) = TASK_RUNNING
      then upd_task (current_task s) (t_state_update (\<lambda>_. TASK_READY)) s else s)"

lemma preempted_simps [simp]:
  "current_task (preempted s) = current_task s" "stats (preempted s) = stats s"
  "scheduler_running (preempted s) = scheduler_running s" "same_queue s (preempted s)"
  "t_state (tasks (preempted s) x) = (if x = current_task s \<and> x \<noteq> NULL \<and> t_state (tasks s x) = TASK_RUNNING
     then TASK_READY else t_state (tasks s x))"
  by (auto simp: preempted_def same_queue_def)

lemma schedule_spec:
  assumes q: "queue_ok s xs" and run: "scheduler_running s"
  shows "\<exists>s'. scheduler_schedule s = Some s' \<and> same_queue s s' \<and>
    (single_running s \<longrightarrow> single_running s') \<and> scheduler_running s' \<and>
    total_ticks (stats s') = total_ticks (stats s) \<and>
    (next_task (preempted s) xs \<noteq> NULL \<longrightarrow>
       current_task s' = next_task (preempted s) xs \<and>
       t_state (tasks s' (current_task s')) = TASK_RUNNING \<and>
       t_time_slice (tasks s' (current_task s')) = SCHEDULER_TIME_SLICE_MS)"
proof -
  let ?p = "preempted s" and ?n = "next_task (preempted s) xs"
  have "queue_ok ?p xs" by (rule same_queue_ok [OF q]) simp
  from pick_next_spec [OF this] obtain st where
    pick: "scheduler_pick_next ?p = Some (?n, upd_task ?n (t_time_slice_update (\<lambda>_. SCHEDULER_TIME_SLICE_MS)) (?p\<lparr>stats := st\<rparr>))"
    and st: "total_ticks st = total_ticks (stats s)" by auto
  define s2 where "s2 = upd_task ?n (t_time_slice_update (\<lambda>_. SCHEDULER_TIME_SLICE_MS)) (?p\<lparr>stats := st\<rparr>)"
  have s2: "same_queue s s2" "current_task s2 = current_task s" "stats s2 = st" "scheduler_running s2 = scheduler_running s"
    "single_running s \<Longrightarrow> single_running s2" "t_time_slice (tasks s2 ?n) = SCHEDULER_TIME_SLICE_MS"
    unfolding s2_def using preempted_simps(4) [of s]
    by (auto simp: same_queue_def single_running_def split: if_splits)
  have sched: "scheduler_schedule s =
      (if ?n = NULL \<or> ?n = current_task s then
         Some (if current_task s \<noteq> NULL
               then upd_task (current_task s) (\<lambda>t. t\<lparr>t_state := TASK_RUNNING,
                      t_time_slice := SCHEDULER_TIME_SLICE_MS\<rparr>) s2
               else s2)
       else Some (task_switch ?n (s2\<lparr>stats := (stats s2)\<lparr>context_switches := context_switches (stats s2) + 1\<rparr>\<rparr>)))"
    using run pick s2(2) unfolding scheduler_schedule_def preempted_def [symmetric] s2_def [symmetric]
    by (simp add: Let_def)
  show ?thesis
  proof (cases "?n = NULL \<or> ?n = current_task s")
    case True
    then show ?thesis using sched s2 st run
      by (cases "current_task s = NULL") (auto simp: same_queue_def single_running_def)
  next
    case False
    let ?s3 = "s2\<lparr>stats := (stats s2)\<lparr>context_switches := context_switches (stats s2) + 1\<rparr>\<rparr>"
    have ne: "?n \<noteq> NULL" "?n \<noteq> current_task ?s3" using False s2(2) by auto
    note sw = task_switch_effect [OF ne]
    have "single_running s \<Longrightarrow> single_running (task_switch ?n ?s3)"
      using s2(5) by (intro task_switch_single) (simp add: single_running_def)
    moreover have "same_queue s (task_switch ?n ?s3)"
      using s2(1) by (intro same_queue_trans [OF _ sw(2)]) (simp add: same_queue_def)
    moreover have "t_time_slice (tasks (task_switch ?n ?s3) ?n) = SCHEDULER_TIME_SLICE_MS"
      using s2(6) ne by (simp add: task_switch_def Let_def)
    ultimately show ?thesis using sched False sw(1,3,4,6) s2(3,4) st run by auto
  qed
qed

lemma schedule_ok:
  assumes "queue_ok s xs"
  shows "\<exists>s'. scheduler_schedule s = Some s' \<and> same_queue s s' \<and> (single_running s \<longrightarrow> single_running s')"
proof (cases "scheduler_running s")
  case True
  then show ?thesis using schedule_spec [OF assms True] by blast
qed (simp add: scheduler_schedule_def)

text \<open>Waking the sleepers.\<close>

definition woken :: "u32 \<Rightarrow> task \<Rightarrow> task" where
  "woken ticks t =
     (if t_state t = TASK_SLEEPING \<and> t_wake_time t > 0 \<and> ticks \<ge> t_wake_time t
      then t\<lparr>t_state := TASK_READY, t_wake_time := 0\<rparr> else t)"

lemma woken_woken [simp]: "woken n (woken n t) = woken n t"
  by (simp add: woken_def)

lemma wake_task_woken: "wake_task x s = upd_task x (woken (total_ticks (stats s))) s"
  by (simp add: wake_task_def woken_def upd_task_def)

lemma fold_wake_task:
  "fold wake_task xs s =
     s\<lparr>tasks := \<lambda>x. if x \<in> set xs then woken (total_ticks (stats s)) (tasks s x) else tasks s x\<rparr>"
proof (induction xs arbitrary: s)
  case (Cons x xs)
  have "fold wake_task (x # xs) s = fold wake_task xs (wake_task x s)" by simp
  also have "\<dots> = s\<lparr>tasks := \<lambda>y. if y \<in> set (x # xs) then woken (total_ticks (stats s)) (tasks s y) else tasks s y\<rparr>"
    unfolding Cons by (auto simp: wake_task_woken upd_task_def fun_eq_iff cong: if_cong)
  finally show ?case .
qed simp

lemma woken_fields: "t_next (woken n t) = t_next t" "t_time_slice (woken n t) = t_time_slice t"
  "t_state (woken n t) = TASK_RUNNING \<longleftrightarrow> t_state t = TASK_RUNNING"
  by (auto simp: woken_def)

text \<open>The state after the tick has been counted and the sleepers woken.\<close>

definition after_wake :: "sched_state \<Rightarrow> u32 list \<Rightarrow> sched_state" where
  "after_wake s xs = s\<lparr>stats := (stats s)\<lparr>total_ticks := total_ticks (stats s) + 1\<rparr>,
     tasks := \<lambda>x. if x \<in> set xs then woken (total_ticks (stats s) + 1) (tasks s x) else tasks s x\<rparr>"

lemma after_wake_ok:
  "same_queue s (after_wake s xs)" "single_running s \<Longrightarrow> single_running (after_wake s xs)"
  "current_task (after_wake s xs) = current_task s"
  "scheduler_running (after_wake s xs) = scheduler_running s"
  by (auto simp: same_queue_def after_wake_def woken_fields single_running_def)

lemma tick_spec:
  assumes q: "queue_ok s xs" and run: "scheduler_running s"
  shows "scheduler_tick s =
    (let s = after_wake s xs; c = current_task s in
     if c \<noteq> NULL \<and> t_state (tasks s c) = TASK_RUNNING then
       (let s = (if t_time_slice (tasks s c) > 0
                 then upd_task c (\<lambda>t. t\<lparr>t_time_slice := t_time_slice t - 1, t_total_time := t_total_time t + 1\<rparr>) s
                 else s)
        in if t_time_slice (tasks s c) = 0 then scheduler_schedule s else Some s)
     else Some s)"
proof -
  let ?s = "s\<lparr>stats := (stats s)\<lparr>total_ticks := total_ticks (stats s) + 1\<rparr>\<rparr>"
  have q1: "queue_ok ?s xs" by (rule queue_ok_cong [OF q]) auto
  have nx: "t_next (tasks (wake_task c s) x) = t_next (tasks s x)" for c s x
    by (simp add: wake_task_woken woken_fields)
  have "(if ready_queue ?s \<noteq> NULL then queue_walk wake_task (ready_queue ?s) (ready_queue ?s) ?s else Some ?s)
      = Some (after_wake s xs)"
  proof (cases "xs = []")
    case True
    then show ?thesis using queue_ok_ready [OF q1] by (simp add: after_wake_def)
  next
    case False
    from queue_loops(2) [OF q1 False, of wake_task, OF nx] queue_ok_ready [OF q1] False show ?thesis
      by (simp add: fold_wake_task after_wake_def cong: if_cong)
  qed
  then show ?thesis using run by (simp add: scheduler_tick_def Let_def)
qed

lemma tick_ok:
  assumes q: "queue_ok s xs"
  shows "\<exists>s'. scheduler_tick s = Some s' \<and> same_queue s s' \<and> (single_running s \<longrightarrow> single_running s')"
proof (cases "scheduler_running s")
  case False
  then show ?thesis by (simp add: scheduler_tick_def)
next
  case True
  let ?w = "after_wake s xs"
  let ?f = "\<lambda>t. t\<lparr>t_time_slice := t_time_slice t - 1, t_total_time := t_total_time t + 1\<rparr>"
  define d where "d = (if t_time_slice (tasks ?w (current_task ?w)) > 0 then upd_task (current_task ?w) ?f ?w else ?w)"
  have keep: "same_queue w (upd_task c ?f w) \<and> (single_running w \<longrightarrow> single_running (upd_task c ?f w))" for w c
    by (simp add: same_queue_def single_running_def)
  have "same_queue ?w d \<and> (single_running ?w \<longrightarrow> single_running d)"
    unfolding d_def by (rule if_split [THEN iffD2]) (use keep in blast)
  then have d: "same_queue s d" "single_running s \<Longrightarrow> single_running d"
    using same_queue_trans after_wake_ok(1,2) by blast+
  obtain e where e: "scheduler_schedule d = Some e" "same_queue d e" "single_running d \<longrightarrow> single_running e"
    using schedule_ok [OF same_queue_ok [OF q d(1)]] by blast
  have "scheduler_tick s \<in> {Some ?w, Some d, scheduler_schedule d}"
    unfolding tick_spec [OF q True] Let_def d_def by simp
  then show ?thesis
    using e d after_wake_ok [of s xs] same_queue_trans [OF d(1) e(2)] by auto
qed

section \<open>Reachable states\<close>

inductive sched_step :: "sched_state \<Rightarrow> sched_state \<Rightarrow> bool" where
  add: "scheduler_add_task t s = Some s' \<Longrightarrow> sched_step s s'"
| remove: "scheduler_remove_task t s = Some s' \<Longrightarrow> sched_step s s'"
| schedule: "scheduler_schedule s = Some s' \<Longrightarrow> sched_step s s'"
| tick: "scheduler_tick s = Some s' \<Longrightarrow> sched_step s s'"
| block: "task_block s = Some s' \<Longrightarrow> sched_step s s'"
| unblock: "sched_step s (task_unblock t s)"
| sleep: "task_sleep ms s = Some s' \<Longrightarrow> sched_step s s'"
| exit: "task_exit code s = Some s' \<Longrightarrow> sched_step s s'"
| add_child: "sched_step s (task_add_child t c s)"

inductive sched_reachable :: "sched_state \<Rightarrow> bool" where
  init: "single_running s \<Longrightarrow> sched_reachable (scheduler_init s)"
| step: "sched_reachable s \<Longrightarrow> sched_step s s' \<Longrightarrow> sched_reachable s'"

text \<open>Operations that set the current task's state to something else and then schedule.\<close>

lemma upd_then_schedule:
  assumes q: "queue_ok s xs" and f: "\<And>t. t_next (f t) = t_next t" "\<And>t. t_state (f t) \<noteq> TASK_RUNNING"
  shows "\<exists>s'. scheduler_schedule (upd_task c f s) = Some s' \<and> same_queue s s' \<and>
    (single_running s \<longrightarrow> single_running s')"
proof -
  have u: "same_queue s (upd_task c f s)" using f(1) by (rule same_queue_upd)
  have "single_running s \<Longrightarrow> single_running (upd_task c f s)" using f(2) by (auto simp: single_running_def)
  with schedule_ok [OF same_queue_ok [OF q u]] same_queue_trans [OF u] show ?thesis by blast
qed

lemma unblock_ok: "same_queue s (task_unblock t s)" "single_running s \<Longrightarrow> single_running (task_unblock t s)"
  "current_task (task_unblock t s) = current_task s"
  by (auto simp: task_unblock_def same_queue_def single_running_def)

lemma add_child_ok: "same_queue s (task_add_child t c s)" "single_running s \<Longrightarrow> single_running (task_add_child t c s)"
  by (auto simp: task_add_child_def Let_def same_queue_def single_running_def)

lemma block_ok:
  assumes "queue_ok s xs"
  shows "\<exists>s'. task_block s = Some s' \<and> same_queue s s' \<and> (single_running s \<longrightarrow> single_running s')"
  using upd_then_schedule [OF assms, of "\<lambda>t. t\<lparr>t_state := TASK_BLOCKED\<rparr>"]
  by (auto simp: task_block_def task_yield_def)

lemma sleep_ok:
  assumes "queue_ok s xs"
  shows "\<exists>s'. task_sleep ms s = Some s' \<and> same_queue s s' \<and> (single_running s \<longrightarrow> single_running s')"
proof (cases "current_task s = NULL")
  case False
  obtain st where u: "update_statistics s = Some (s\<lparr>stats := st\<rparr>)" using update_statistics_spec [OF assms] by auto
  have q: "queue_ok (s\<lparr>stats := st\<rparr>) xs" and sq: "same_queue s (s\<lparr>stats := st\<rparr>)"
    using same_queue_ok [OF assms] by (auto simp: same_queue_def)
  show ?thesis
    using upd_then_schedule [OF q, of "\<lambda>t. t\<lparr>t_wake_time := total_ticks st + ms, t_state := TASK_SLEEPING\<rparr>"
        "current_task s"] False same_queue_trans [OF sq] u
    by (auto simp: task_sleep_def task_yield_def scheduler_get_stats_def single_running_def)
qed (auto simp: task_sleep_def)

lemma exit_ok:
  assumes "queue_ok s xs"
  shows "\<exists>s'. task_exit code s = Some s' \<and> same_queue s s' \<and> (single_running s \<longrightarrow> single_running s')"
proof (cases "current_task s = NULL \<or> current_task s = kernel_task s")
  case False
  let ?z = "upd_task (current_task s) (\<lambda>t. t\<lparr>t_state := TASK_ZOMBIE, t_exit_code := code\<rparr>) s"
  let ?p = "t_parent (tasks ?z (current_task ?z))"
  let ?u = "if ?p \<noteq> NULL \<and> t_state (tasks ?z ?p) = TASK_BLOCKED then task_unblock ?p ?z else ?z"
  have z: "same_queue s ?z" "single_running s \<Longrightarrow> single_running ?z"
    by (auto simp: same_queue_def single_running_def)
  then have u: "same_queue s ?u" "single_running s \<Longrightarrow> single_running ?u"
    using unblock_ok(1,2) [where s = ?z and t = ?p] same_queue_trans [OF z(1)] by auto
  have "task_exit code s = scheduler_schedule ?u"
    using False by (simp add: task_exit_def task_yield_def Let_def)
  with schedule_ok [OF same_queue_ok [OF assms u(1)]] u same_queue_trans [OF u(1)] show ?thesis by fastforce
qed (auto simp: task_exit_def)

lemma step_from_ok:
  assumes "\<exists>s'. r = Some s' \<and> same_queue s s' \<and> (single_running s \<longrightarrow> single_running s')"
    and "r = Some s'" "queue_ok s xs" "single_running s"
  shows "(\<exists>ys. queue_ok s' ys) \<and> single_running s'"
  using assms same_queue_ok [OF assms(3)] by auto

lemma sched_step_inv:
  assumes "sched_step s s'" "queue_ok s xs" "single_running s"
  shows "\<exists>ys. queue_ok s' ys" "single_running s'"
proof -
  have "(\<exists>ys. queue_ok s' ys) \<and> single_running s'"
    using assms
  proof (induction rule: sched_step.induct)
    case (add t s s')
    have "single_running (enqueue t s)" using add(3) by (auto simp: single_running_def enqueue_def Let_def)
    then show ?case using add add_task_spec [OF add(2), of t] enqueue_ok [OF add(2), of t]
      by (auto split: if_splits)
  next
    case (remove t s s')
    have "single_running (finish_remove t s)" "t \<notin> set xs \<Longrightarrow> queue_ok (finish_remove t s) xs"
      using remove(3) finish_remove_ok [OF remove(2)] by (auto simp: single_running_def)
    then show ?case
      using remove remove_task_ok [OF remove(2), of t] remove_task_absent [OF remove(2), of t]
      by (cases "t \<in> set xs") (auto simp: single_running_def split: if_splits)
  next
    case (schedule s s')
    then show ?case by (intro step_from_ok [OF schedule_ok])
  next
    case (tick s s')
    then show ?case by (intro step_from_ok [OF tick_ok])
  next
    case (block s s')
    then show ?case by (intro step_from_ok [OF block_ok])
  next
    case (unblock s t)
    then show ?case using unblock_ok same_queue_ok by blast
  next
    case (sleep ms s s')
    then show ?case by (intro step_from_ok [OF sleep_ok])
  next
    case (exit code s s')
    then show ?case by (intro step_from_ok [OF exit_ok])
  next
    case (add_child s t c)
    then show ?case using add_child_ok same_queue_ok by blast
  qed
  then show "\<exists>ys. queue_ok s' ys" "single_running s'" by auto
qed

lemma reachable_inv: "sched_reachable s \<Longrightarrow> (\<exists>xs. queue_ok s xs) \<and> single_running s"
proof (induction rule: sched_reachable.induct)
  case (init s)
  then show ?case by (auto simp: scheduler_init_def queue_ok_def single_running_def intro: exI [of _ "[]"])
next
  case (step s s')
  then show ?case using sched_step_inv by blast
qed

section \<open>The children of a task\<close>

primrec siblings :: "(u32 \<Rightarrow> task) \<Rightarrow> u32 \<Rightarrow> u32 list \<Rightarrow> bool" where
  "siblings tk p [] \<longleftrightarrow> p = NULL"
| "siblings tk p (x # xs) \<longleftrightarrow> p = x \<and> x \<noteq> NULL \<and> siblings tk (t_next_sibling (tk x)) xs"

lemma siblings_cong:
  "(\<And>x. x \<in> set xs \<Longrightarrow> t_next_sibling (tk x) = t_next_sibling (tk' x)) \<Longrightarrow> siblings tk p xs = siblings tk' p xs"
  by (induction xs arbitrary: p) auto

definition children_ok :: "sched_state \<Rightarrow> u32 \<Rightarrow> u32 list \<Rightarrow> bool" where
  "children_ok s parent cs \<longleftrightarrow> distinct cs \<and> siblings (tasks s) (t_first_child (tasks s parent)) cs \<and>
     (\<forall>c \<in> set cs. t_parent (tasks s c) = parent)"

lemma remove_child_loop_spec:
  "siblings (tasks s) cur (us @ child # vs) \<Longrightarrow> distinct (us @ child # vs) \<Longrightarrow> child \<noteq> NULL \<Longrightarrow>
     remove_child_loop parent child prev cur s =
       (let nxt = t_next_sibling (tasks s child); p = last (prev # us);
            s = (if p \<noteq> NULL then upd_task p (\<lambda>t. t\<lparr>t_next_sibling := nxt\<rparr>) s
                 else upd_task parent (\<lambda>t. t\<lparr>t_first_child := nxt\<rparr>) s)
        in Some (upd_task child (\<lambda>t. t\<lparr>t_parent := NULL, t_next_sibling := NULL\<rparr>) s))"
proof (induction us arbitrary: prev cur)
  case Nil
  then show ?case by (subst remove_child_loop.simps) (auto simp: Let_def)
next
  case (Cons u us)
  then have "remove_child_loop parent child prev cur s = remove_child_loop parent child u (t_next_sibling (tasks s u)) s"
    by (subst remove_child_loop.simps) auto
  with Cons.IH [of "t_next_sibling (tasks s u)" u] Cons.prems show ?case by simp
qed

lemma siblings_NULL: "siblings tk p xs \<Longrightarrow> NULL \<notin> set xs"
  by (induction xs arbitrary: p) auto

lemma siblings_mid: "siblings tk p (us @ x # vs) \<Longrightarrow> siblings tk (t_next_sibling (tk x)) vs"
  by (induction us arbitrary: p) auto

lemma siblings_relink:
  "siblings tk p (us @ c # vs) \<Longrightarrow> us \<noteq> [] \<Longrightarrow> distinct (us @ c # vs) \<Longrightarrow>
     (\<And>x. x \<in> set (butlast us) \<union> set vs \<Longrightarrow> t_next_sibling (tk' x) = t_next_sibling (tk x)) \<Longrightarrow>
     t_next_sibling (tk' (last us)) = t_next_sibling (tk c) \<Longrightarrow> siblings tk' p (us @ vs)"
proof (induction us arbitrary: p)
  case (Cons u us)
  show ?case
  proof (cases "us = []")
    case True
    then have "siblings tk' (t_next_sibling (tk c)) vs"
      using Cons.prems siblings_cong [of vs tk' tk] by auto
    then show ?thesis using Cons.prems True by auto
  next
    case False
    then show ?thesis using Cons by auto
  qed
qed simp

lemma remove_child_ok:
  assumes c: "children_ok s parent cs" "child \<in> set cs" "parent \<notin> set cs" "parent \<noteq> NULL"
  shows "\<exists>s'. task_remove_child parent child s = Some s' \<and> children_ok s' parent (remove1 child cs) \<and>
    t_parent (tasks s' child) = NULL"
proof -
  obtain us vs where cs: "cs = us @ child # vs" using c(2) by (auto simp: in_set_conv_decomp)
  have d: "distinct (us @ child # vs)" and sb: "siblings (tasks s) (t_first_child (tasks s parent)) (us @ child # vs)"
    and par: "\<forall>c \<in> set cs. t_parent (tasks s c) = parent"
    using c(1) cs by (auto simp: children_ok_def)
  have nn: "NULL \<notin> set cs"
    using sb cs by (metis siblings_NULL)
  let ?n = "t_next_sibling (tasks s child)" and ?p = "last (NULL # us)"
  let ?s1 = "if ?p \<noteq> NULL then upd_task ?p (\<lambda>t. t\<lparr>t_next_sibling := ?n\<rparr>) s
             else upd_task parent (\<lambda>t. t\<lparr>t_first_child := ?n\<rparr>) s"
  let ?s = "upd_task child (\<lambda>t. t\<lparr>t_parent := NULL, t_next_sibling := NULL\<rparr>) ?s1"
  have r: "task_remove_child parent child s = Some ?s"
    using remove_child_loop_spec [OF sb d, of parent NULL] nn c cs by (auto simp: task_remove_child_def Let_def)
  have rm: "remove1 child cs = us @ vs" using d cs by (simp add: remove1_append)
  have fields: "t_parent (tasks ?s x) = (if x = child then NULL else t_parent (tasks s x))" for x
    by auto
  have "siblings (tasks ?s) (t_first_child (tasks ?s parent)) (us @ vs)"
  proof (cases "us = []")
    case True
    then have fc: "t_first_child (tasks ?s parent) = ?n" using c cs by auto
    moreover have "t_next_sibling (tasks ?s v) = t_next_sibling (tasks s v)" if "v \<in> set vs" for v
      using that True d by auto
    then have "siblings (tasks ?s) ?n vs"
      using siblings_cong [of vs "tasks ?s" "tasks s"] siblings_mid [OF sb] by blast
    ultimately show ?thesis using True by simp
  next
    case False
    have lu: "last us \<noteq> NULL" "last us \<in> set us" "last us \<notin> set vs" "last us \<noteq> child" "parent \<noteq> last us"
    proof -
      obtain zs z where "us = zs @ [z]" using False by (meson rev_exhaust)
      then show "last us \<noteq> NULL" "last us \<in> set us" "last us \<notin> set vs" "last us \<noteq> child" "parent \<noteq> last us"
        using nn cs d c(3) by auto
    qed
    have "t_first_child (tasks ?s parent) = t_first_child (tasks s parent)"
      using False lu c cs by auto
    moreover have "siblings (tasks ?s) (t_first_child (tasks s parent)) (us @ vs)"
      by (rule siblings_relink [OF sb False d])
        (use False lu d distinct_butlast_last [of us] in_set_butlastD [of _ us] in auto)
    ultimately show ?thesis by simp
  qed
  then have "children_ok ?s parent (remove1 child cs)"
    unfolding children_ok_def rm fields using d par cs by auto
  with r fields [of child] show ?thesis by auto
qed

lemma add_child_cons:
  assumes "children_ok s parent cs" "child \<notin> set cs" "child \<noteq> NULL" "parent \<noteq> NULL" "child \<noteq> parent"
    "parent \<notin> set cs"
  shows "children_ok (task_add_child parent child s) parent (child # cs)"
proof -
  let ?s = "task_add_child parent child s"
  have f: "t_first_child (tasks ?s parent) = child"
    "t_next_sibling (tasks ?s child) = t_first_child (tasks s parent)" "t_parent (tasks ?s child) = parent"
    "x \<noteq> child \<Longrightarrow> t_parent (tasks ?s x) = t_parent (tasks s x)"
    "x \<noteq> child \<Longrightarrow> t_next_sibling (tasks ?s x) = t_next_sibling (tasks s x)" for x
    using assms(3-5) by (auto simp: task_add_child_def Let_def)
  have "siblings (tasks ?s) p cs = siblings (tasks s) p cs" for p
    using assms(2) f(5) by (intro siblings_cong) metis
  moreover have "t_parent (tasks ?s c) = parent" if "c \<in> set cs" for c
    using that assms(1,2) f(4) [of c] by (auto simp: children_ok_def)
  ultimately show ?thesis using assms f(1-3) by (simp add: children_ok_def)
qed

section \<open>States for the witnesses\<close>

section \<open>The task at the head of the queue\<close>

text \<open>What can happen while the current task neither blocks, sleeps nor exits, with the number of timer ticks counted: ticks, yields, tasks that are
  queued, tasks that are unblocked.\<close>

inductive undisturbed :: "sched_state \<Rightarrow> nat \<Rightarrow> sched_state \<Rightarrow> bool" for s where
  start: "undisturbed s 0 s"
| tick: "undisturbed s n s1 \<Longrightarrow> scheduler_tick s1 = Some s2 \<Longrightarrow> undisturbed s (Suc n) s2"
| yield: "undisturbed s n s1 \<Longrightarrow> task_yield s1 = Some s2 \<Longrightarrow> undisturbed s n s2"
| add: "undisturbed s n s1 \<Longrightarrow> scheduler_add_task t s1 = Some s2 \<Longrightarrow> undisturbed s n s2"
| unblock: "undisturbed s n s1 \<Longrightarrow> undisturbed s n (task_unblock t s1)"

text \<open>The task \<open>x\<close> leads the queue and has had all of the \<open>n\<close> ticks since \<open>s\<close>.\<close>

definition head_runs :: "sched_state \<Rightarrow> u32 \<Rightarrow> u32 list \<Rightarrow> nat \<Rightarrow> sched_state \<Rightarrow> bool" where
  "head_runs s x xs n s' \<longleftrightarrow> (\<exists>ys. queue_ok s' (x # xs @ ys)) \<and> scheduler_running s' \<and> current_task s' = x \<and>
     t_state (tasks s' x) = TASK_RUNNING \<and> t_time_slice (tasks s' x) > 0 \<and>
     t_total_time (tasks s' x) = t_total_time (tasks s x) + of_nat n \<and>
     (\<forall>y. y \<noteq> x \<longrightarrow> t_total_time (tasks s' y) = t_total_time (tasks s y))"

lemma head_runsD:
  assumes "head_runs s x xs n s'"
  obtains ys where "queue_ok s' (x # xs @ ys)" "scheduler_running s'" "current_task s' = x" "t_state (tasks s' x) = TASK_RUNNING"
    "t_time_slice (tasks s' x) > 0" "x \<noteq> NULL"
  using assms queue_ok_NULL unfolding head_runs_def by fastforce

lemma schedule_head:
  assumes q: "queue_ok s (x # xs)" and r: "scheduler_running s" "current_task s = x" "t_state (tasks s x) = TASK_RUNNING" "x \<noteq> NULL"
  shows "\<exists>st. scheduler_schedule s = Some (upd_task x (\<lambda>t. t\<lparr>t_state := TASK_RUNNING, t_time_slice := SCHEDULER_TIME_SLICE_MS\<rparr>) (s\<lparr>stats := st\<rparr>))"
proof -
  have "queue_ok (preempted s) (x # xs)" by (rule same_queue_ok [OF q]) simp
  moreover have "next_task (preempted s) (x # xs) = x" using r by (simp add: next_task_def)
  ultimately obtain st where "scheduler_pick_next (preempted s) =
      Some (x, upd_task x (t_time_slice_update (\<lambda>_. SCHEDULER_TIME_SLICE_MS)) ((preempted s)\<lparr>stats := st\<rparr>))"
    using pick_next_spec by metis
  then have "scheduler_schedule s = Some (upd_task x (\<lambda>t. t\<lparr>t_state := TASK_RUNNING, t_time_slice := SCHEDULER_TIME_SLICE_MS\<rparr>)
      (upd_task x (t_time_slice_update (\<lambda>_. SCHEDULER_TIME_SLICE_MS)) ((preempted s)\<lparr>stats := st\<rparr>)))"
    using r unfolding scheduler_schedule_def preempted_def [symmetric] by (simp add: Let_def)
  then show ?thesis using r by (intro exI [of _ st]) (simp add: preempted_def upd_task_def)
qed

lemma head_runs_cong:
  assumes "head_runs s x xs n s'" "same_queue s' s''" "scheduler_running s''" "current_task s'' = x"
    "t_state (tasks s'' x) = TASK_RUNNING" "t_time_slice (tasks s'' x) > 0" "\<And>y. t_total_time (tasks s'' y) = t_total_time (tasks s' y)"
  shows "head_runs s x xs n s''"
  using assms(1,3-) same_queue_ok [OF _ assms(2)] by (auto simp: head_runs_def)

lemma head_runs_schedule:
  assumes h: "head_runs s x xs n s'"
  shows "\<exists>s''. scheduler_schedule s' = Some s'' \<and> head_runs s x xs n s''"
proof -
  obtain ys where y: "queue_ok s' (x # xs @ ys)" "scheduler_running s'" "current_task s' = x" "t_state (tasks s' x) = TASK_RUNNING" "x \<noteq> NULL"
    using h by (rule head_runsD)
  from schedule_head [OF y] obtain st where
    "scheduler_schedule s' = Some (upd_task x (\<lambda>t. t\<lparr>t_state := TASK_RUNNING, t_time_slice := SCHEDULER_TIME_SLICE_MS\<rparr>) (s'\<lparr>stats := st\<rparr>))" ..
  moreover have "head_runs s x xs n (upd_task x (\<lambda>t. t\<lparr>t_state := TASK_RUNNING, t_time_slice := SCHEDULER_TIME_SLICE_MS\<rparr>) (s'\<lparr>stats := st\<rparr>))"
    by (rule head_runs_cong [OF h]) (use y in \<open>simp_all add: same_queue_def\<close>)
  ultimately show ?thesis by blast
qed

lemma head_runs_tick:
  assumes h: "head_runs s x xs n s'"
  shows "\<exists>s''. scheduler_tick s' = Some s'' \<and> head_runs s x xs (Suc n) s''"
proof -
  obtain ys where y: "queue_ok s' (x # xs @ ys)" "scheduler_running s'" "current_task s' = x" "t_state (tasks s' x) = TASK_RUNNING"
    "t_time_slice (tasks s' x) > 0" "x \<noteq> NULL"
    using h by (rule head_runsD)
  define d where "d = upd_task x (\<lambda>t. t\<lparr>t_time_slice := t_time_slice t - 1, t_total_time := t_total_time t + 1\<rparr>) (after_wake s' (x # xs @ ys))"
  have w: "tasks (after_wake s' (x # xs @ ys)) x = tasks s' x"
    "t_total_time (tasks (after_wake s' (x # xs @ ys)) z) = t_total_time (tasks s' z)" for z
    using y(4) by (auto simp: after_wake_def woken_def)
  have d: "same_queue s' d" "current_task d = x" "scheduler_running d" "t_state (tasks d x) = TASK_RUNNING"
    "t_total_time (tasks d x) = t_total_time (tasks s' x) + 1" "z \<noteq> x \<Longrightarrow> t_total_time (tasks d z) = t_total_time (tasks s' z)" for z
    using y w after_wake_ok(1) [of s' "x # xs @ ys"] by (simp_all add: d_def after_wake_ok same_queue_def)
  have t: "scheduler_tick s' = (if t_time_slice (tasks d x) = 0 then scheduler_schedule d else Some d)"
    using y w by (simp add: tick_spec [OF y(1,2)] after_wake_ok(3) Let_def d_def)
  have step: "head_runs s x xs (Suc n) e" if "same_queue s' e" "scheduler_running e" "current_task e = x" "t_state (tasks e x) = TASK_RUNNING"
    "t_time_slice (tasks e x) > 0" "\<And>z. t_total_time (tasks e z) = t_total_time (tasks d z)" for e
    using h that same_queue_ok [OF _ that(1)] d(5,6) by (auto simp: head_runs_def)
  show ?thesis
  proof (cases "t_time_slice (tasks d x) = 0")
    case False
    then have "head_runs s x xs (Suc n) d" using d(1-4) by (intro step) (simp_all add: word_gt_0)
    then show ?thesis using t False by simp
  next
    case True
    from schedule_head [OF same_queue_ok [OF y(1) d(1)] d(3,2,4) y(6)] obtain st where
      e: "scheduler_schedule d = Some (upd_task x (\<lambda>t. t\<lparr>t_state := TASK_RUNNING, t_time_slice := SCHEDULER_TIME_SLICE_MS\<rparr>) (d\<lparr>stats := st\<rparr>))" ..
    have "head_runs s x xs (Suc n) (upd_task x (\<lambda>t. t\<lparr>t_state := TASK_RUNNING, t_time_slice := SCHEDULER_TIME_SLICE_MS\<rparr>) (d\<lparr>stats := st\<rparr>))"
      by (rule step) (use d(1-4) in \<open>simp_all add: same_queue_def\<close>)
    then show ?thesis using t True e by simp
  qed
qed

lemma head_runs_add:
  assumes h: "head_runs s x xs n s'" and a: "scheduler_add_task t s' = Some s''"
  shows "head_runs s x xs n s''"
proof -
  obtain ys where y: "queue_ok s' (x # xs @ ys)" "scheduler_running s'" "current_task s' = x" "t_state (tasks s' x) = TASK_RUNNING"
    "t_time_slice (tasks s' x) > 0" "x \<noteq> NULL"
    using h by (rule head_runsD)
  show ?thesis
  proof (cases "t = NULL \<or> t = kernel_task s' \<or> t \<in> set (x # xs @ ys)")
    case True
    then show ?thesis using a h add_task_spec [OF y(1), of t] by auto
  next
    case False
    then have e: "s'' = enqueue t s'" and t: "t \<noteq> NULL" "t \<noteq> kernel_task s'" "t \<notin> set (x # xs @ ys)"
      using a add_task_spec [OF y(1), of t] by auto
    from enqueue_ok [OF y(1) t] have "queue_ok s'' (x # xs @ (ys @ [t]))" using e by simp
    moreover have "t_total_time (tasks s'' z) = t_total_time (tasks s' z)" "current_task s'' = x" "scheduler_running s''"
      "t_state (tasks s'' x) = t_state (tasks s' x)" "t_time_slice (tasks s'' x) = t_time_slice (tasks s' x)" for z
      using t y unfolding e by (auto simp: enqueue_def Let_def)
    ultimately show ?thesis using h y(4,5) unfolding head_runs_def by auto
  qed
qed

lemma undisturbed_head: "undisturbed s n s' \<Longrightarrow> head_runs s x xs 0 s \<Longrightarrow> head_runs s x xs n s'"
proof (induction rule: undisturbed.induct)
  case (tick n s1 s2)
  then show ?case using head_runs_tick [of s x xs n s1] by simp
next
  case (yield n s1 s2)
  then show ?case using head_runs_schedule [of s x xs n s1] by (simp add: task_yield_def)
next
  case (add n s1 t s2)
  then show ?case using head_runs_add by blast
next
  case (unblock n s1 t)
  from unblock.IH [OF unblock.prems] show ?case
    by (rule head_runs_cong) (use unblock.IH [OF unblock.prems] in \<open>auto simp: head_runs_def same_queue_def task_unblock_def\<close>)
qed

text \<open>A task structure as \<open>memset\<close> leaves it.\<close>

definition zero_task :: task where
  "zero_task = \<lparr>t_pid = 0, t_name = replicate 32 0, t_state = TASK_READY, t_priority = 0,
     t_context = \<lparr>c_edi = 0, c_esi = 0, c_ebp = 0, c_esp = 0, c_ebx = 0, c_edx = 0, c_ecx = 0,
     c_eax = 0, c_ds = 0, c_es = 0, c_fs = 0, c_gs = 0, c_eip = 0, c_cs = 0, c_eflags = 0, c_user_esp =
     0, c_ss = 0\<rparr>, t_page_directory = 0, t_kernel_stack = 0, t_user_stack = 0, t_kernel_stack_alloc
     = 0, t_ring = 0, t_user_esp = 0, t_code_start = 0, t_code_end = 0, t_entry_point = 0, t_data_start =
     0, t_data_end = 0, t_heap_start = 0, t_heap_end = 0, t_stack_bottom = 0, t_address_space = 0,
     t_user_stack_phys = 0, t_time_slice = 0, t_total_time = 0, t_wake_time = 0, t_parent = 0,
     t_parent_pid = 0, t_first_child = 0, t_next_sibling = 0, t_next = 0, t_first_run = False,
     t_exit_code = 0, t_waited = False\<rparr>"

text \<open>Two tasks in the queue, the first of them running, the second asleep until tick 8.\<close>

definition two_tasks :: sched_state where
  "two_tasks = \<lparr>tasks = (\<lambda>_. zero_task)(
       0x100 := zero_task\<lparr>t_next := 0x200, t_state := TASK_RUNNING, t_time_slice := 5\<rparr>,
       0x200 := zero_task\<lparr>t_next := 0x100, t_state := TASK_SLEEPING, t_wake_time := 8\<rparr>),
     current_task = 0x100, kernel_task = 0x50, task_list_head = 0x50, next_pid = 3,
     ready_queue = 0x100, ready_queue_tail = 0x200,
     stats = \<lparr>total_tasks = 2, ready_tasks = 0, blocked_tasks = 0, context_switches = 0, total_ticks = 7\<rparr>,
     scheduler_running = True, cr3 = 0, tss_esp0 = 0\<rparr>"

lemma two_tasks_ok: "queue_ok two_tasks [0x100, 0x200]" "single_running two_tasks"
  by (auto simp: queue_ok_def two_tasks_def single_running_def zero_task_def)

section \<open>Properties\<close>

text \<open>C6: the scheduler keeps its promises in every state it can reach. Whatever sequence of
  additions, removals, ticks, yields, blocks, wake-ups, sleeps and exits has run, the ready queue
  is a proper circular list without repetition and without the idle task, at most one task is
  running and it is the current one, and the next tick and the next schedule return.\<close>

theorem scheduler_reachable_ok:
  assumes "sched_reachable s"
  shows "(\<exists>xs. queue_ok s xs) \<and> single_running s \<and>
    (\<exists>s'. scheduler_tick s = Some s') \<and> (\<exists>s'. scheduler_schedule s = Some s')"
proof -
  obtain xs where q: "queue_ok s xs" and r: "single_running s" using reachable_inv [OF assms] by blast
  show ?thesis using q r tick_ok [OF q] schedule_ok [OF q] by blast
qed

theorem scheduler_reachable_ok_witness:
  "(\<exists>xs. queue_ok (enqueue 0x100 (scheduler_init two_tasks)) xs) \<and>
   (\<exists>s'. scheduler_tick (enqueue 0x100 (scheduler_init two_tasks)) = Some s')"
proof -
  have "sched_reachable (scheduler_init two_tasks)"
    by (rule sched_reachable.init [OF two_tasks_ok(2)])
  moreover have "scheduler_add_task 0x100 (scheduler_init two_tasks) = Some (enqueue 0x100 (scheduler_init two_tasks))"
    by (simp add: scheduler_add_task_def scheduler_init_def two_tasks_def)
  ultimately have "sched_reachable (enqueue 0x100 (scheduler_init two_tasks))"
    by (rule sched_reachable.step [OF _ sched_step.add])
  from scheduler_reachable_ok [OF this] show ?thesis by blast
qed

text \<open>C7: the ready queue refines a list. Adding a task appends it, unless it is \<open>NULL\<close>, the idle task
  or already queued; removing a queued task deletes it from the list and keeps the others in order.\<close>

theorem ready_queue_refines_list:
  assumes "queue_ok s xs"
  shows "(\<exists>s'. scheduler_add_task t s = Some s' \<and>
      queue_ok s' (if t = NULL \<or> t = kernel_task s \<or> t \<in> set xs then xs else xs @ [t])) \<and>
    (\<exists>s'. scheduler_remove_task t s = Some s' \<and> queue_ok s' (remove1 t xs))"
proof
  show "\<exists>s'. scheduler_add_task t s = Some s' \<and>
      queue_ok s' (if t = NULL \<or> t = kernel_task s \<or> t \<in> set xs then xs else xs @ [t])"
    using add_task_spec [OF assms, of t] enqueue_ok [OF assms, of t] assms by auto
  show "\<exists>s'. scheduler_remove_task t s = Some s' \<and> queue_ok s' (remove1 t xs)"
    using remove_task_ok [OF assms, of t] remove_task_absent [OF assms, of t] finish_remove_ok [OF assms, of t] assms
    by (cases "t \<in> set xs") (auto simp: remove1_idem)
qed

theorem ready_queue_refines_list_witness:
  "(\<exists>s'. scheduler_add_task 0x300 two_tasks = Some s' \<and> queue_ok s' [0x100, 0x200, 0x300]) \<and>
   (\<exists>s'. scheduler_remove_task 0x100 two_tasks = Some s' \<and> queue_ok s' [0x200])"
proof -
  have "kernel_task two_tasks = 0x50" by (simp add: two_tasks_def)
  then show ?thesis
    using ready_queue_refines_list [OF two_tasks_ok(1), of "0x300"]
      ready_queue_refines_list [OF two_tasks_ok(1), of "0x100"] by auto
qed

text \<open>C8: scheduling decides by the head of the queue. \<open>scheduler_schedule\<close> puts the running task back
  to ready and runs the first ready task of the queue, or the idle task when none is ready, with a
  full time slice.\<close>

theorem schedule_runs_first_ready:
  assumes "queue_ok s xs" "scheduler_running s" "kernel_task s \<noteq> NULL"
  shows "\<exists>s'. scheduler_schedule s = Some s' \<and>
    current_task s' = (case find (\<lambda>c. t_state (tasks s c) = TASK_READY \<or>
        c = current_task s \<and> t_state (tasks s c) = TASK_RUNNING) xs of None \<Rightarrow> kernel_task s | Some t \<Rightarrow> t) \<and>
    t_state (tasks s' (current_task s')) = TASK_RUNNING \<and>
    t_time_slice (tasks s' (current_task s')) = SCHEDULER_TIME_SLICE_MS"
proof -
  have nn: "c \<noteq> NULL" if "c \<in> set xs" for c using queue_ok_NULL [OF assms(1)] that by auto
  have "find (\<lambda>c. t_state (tasks (preempted s) c) = TASK_READY) xs = find (\<lambda>c. t_state (tasks s c) = TASK_READY \<or>
        c = current_task s \<and> t_state (tasks s c) = TASK_RUNNING) xs"
    by (rule find_cong) (use nn in auto)
  moreover have "kernel_task (preempted s) = kernel_task s" using preempted_simps(4) [of s] by (simp add: same_queue_def)
  ultimately have n: "next_task (preempted s) xs = (case find (\<lambda>c. t_state (tasks s c) = TASK_READY \<or>
        c = current_task s \<and> t_state (tasks s c) = TASK_RUNNING) xs of None \<Rightarrow> kernel_task s | Some t \<Rightarrow> t)"
    by (simp add: next_task_def split: option.splits)
  then have "next_task (preempted s) xs \<noteq> NULL"
    using assms(3) nn by (auto split: option.splits dest!: find_Some_iff [THEN iffD1] nth_mem)
  with schedule_spec [OF assms(1,2)] n show ?thesis by auto
qed

theorem schedule_runs_first_ready_witness:
  "\<exists>s'. scheduler_schedule (task_unblock 0x200 (upd_task 0x200 (t_state_update (\<lambda>_. TASK_BLOCKED)) 
       (upd_task 0x100 (t_state_update (\<lambda>_. TASK_ZOMBIE)) two_tasks))) = Some s' \<and> current_task s' = 0x200"
proof -
  let ?s = "task_unblock 0x200 (upd_task 0x200 (t_state_update (\<lambda>_. TASK_BLOCKED))
       (upd_task 0x100 (t_state_update (\<lambda>_. TASK_ZOMBIE)) two_tasks))"
  have q: "queue_ok ?s [0x100, 0x200]"
    by (rule queue_ok_cong [OF two_tasks_ok(1)]) (auto simp: task_unblock_def)
  have st: "scheduler_running ?s" "kernel_task ?s \<noteq> NULL" "t_state (tasks ?s 0x100) = TASK_ZOMBIE"
    "t_state (tasks ?s 0x200) = TASK_READY"
    by (simp_all add: task_unblock_def two_tasks_def)
  from schedule_runs_first_ready [OF q st(1,2)] st(3,4) show ?thesis by auto
qed

text \<open>C9: the queue is not round robin. Once the task at the head of the queue runs with some of its slice left, it keeps the processor for as long
  as it neither blocks, sleeps nor exits: after any number of timer ticks, with yields of its own and with tasks queued and woken between them, in
  any order, it is still the current task and running, its accounted time has grown by exactly the number of ticks, the accounted time of every
  other task is what it was, and the next tick returns and leaves it running. The tasks behind it, however many are ready, never run.\<close>

theorem head_task_starves_others:
  assumes "queue_ok s (x # xs)" "scheduler_running s" "current_task s = x" "t_state (tasks s x) = TASK_RUNNING" "t_time_slice (tasks s x) > 0"
    and "undisturbed s n s'"
  shows "current_task s' = x \<and> t_state (tasks s' x) = TASK_RUNNING \<and> (\<exists>ys. queue_ok s' (x # xs @ ys)) \<and>
    t_total_time (tasks s' x) = t_total_time (tasks s x) + of_nat n \<and>
    (\<forall>y. y \<noteq> x \<longrightarrow> t_total_time (tasks s' y) = t_total_time (tasks s y)) \<and>
    (\<exists>s''. scheduler_tick s' = Some s'' \<and> current_task s'' = x \<and> t_state (tasks s'' x) = TASK_RUNNING)"
proof -
  have "head_runs s x xs 0 s" using assms(1-5) by (auto simp: head_runs_def intro: exI [of _ "[]"])
  from undisturbed_head [OF assms(6) this] have h: "head_runs s x xs n s'" .
  from head_runs_tick [OF h] obtain s'' where "scheduler_tick s' = Some s''" "head_runs s x xs (Suc n) s''" by blast
  with h show ?thesis by (auto simp: head_runs_def)
qed

theorem head_task_starves_others_witness:
  "\<exists>s'. undisturbed two_tasks 7 s' \<and> current_task s' = 0x100 \<and> t_total_time (tasks s' 0x100) = 7 \<and> t_total_time (tasks s' 0x200) = 0"
proof -
  have h: "current_task two_tasks = 0x100" "scheduler_running two_tasks" "t_state (tasks two_tasks 0x100) = TASK_RUNNING"
    "t_time_slice (tasks two_tasks 0x100) > 0" "t_total_time (tasks two_tasks 0x100) = 0" "t_total_time (tasks two_tasks 0x200) = 0"
    by (simp_all add: two_tasks_def zero_task_def)
  note starved = head_task_starves_others [OF two_tasks_ok(1) h(2,1,3,4)]
  have "\<exists>s'. undisturbed two_tasks n s'" for n
  proof (induction n)
    case 0
    then show ?case using undisturbed.start by blast
  next
    case (Suc n)
    then obtain t where t: "undisturbed two_tasks n t" ..
    with starved [OF t] show ?case using undisturbed.tick [OF t] by blast
  qed
  then obtain s' where "undisturbed two_tasks 7 s'" by blast
  with starved [OF this] h(5,6) show ?thesis by auto
qed

text \<open>A timer tick. With the scheduler running, \<open>scheduler_tick\<close> counts the tick and wakes exactly
  the queued sleepers whose wake time (not 0) has come; when the current task is running with more
  than one tick of its slice left, no switch takes place and the slice shrinks by one.\<close>

lemma tick_wakes_and_accounts:
  assumes "queue_ok s xs" "scheduler_running s" "t_state (tasks s (current_task s)) = TASK_RUNNING"
    and "current_task s \<noteq> NULL" "t_time_slice (tasks s (current_task s)) > 1"
  shows "\<exists>s'. scheduler_tick s = Some s' \<and> current_task s' = current_task s \<and>
    total_ticks (stats s') = total_ticks (stats s) + 1 \<and>
    t_time_slice (tasks s' (current_task s)) = t_time_slice (tasks s (current_task s)) - 1 \<and>
    (\<forall>x. x \<noteq> current_task s \<longrightarrow> tasks s' x =
      (if x \<in> set xs \<and> t_state (tasks s x) = TASK_SLEEPING \<and> t_wake_time (tasks s x) > 0 \<and>
          t_wake_time (tasks s x) \<le> total_ticks (stats s) + 1
       then (tasks s x)\<lparr>t_state := TASK_READY, t_wake_time := 0\<rparr> else tasks s x))"
proof -
  let ?c = "current_task s" and ?w = "after_wake s xs"
  have w: "tasks ?w ?c = tasks s ?c" using assms(3) by (simp add: after_wake_def woken_def)
  have sl: "t_time_slice (tasks s ?c) > 0" "t_time_slice (tasks s ?c) - 1 \<noteq> 0"
    using assms(5) by (auto simp: word_less_nat_alt) 
  then have "scheduler_tick s = Some (upd_task ?c (\<lambda>t. t\<lparr>t_time_slice := t_time_slice t - 1,
      t_total_time := t_total_time t + 1\<rparr>) ?w)"
    using assms(3,4) w by (simp add: tick_spec [OF assms(1,2)] after_wake_ok(3) Let_def)
  then show ?thesis using w by (auto simp: after_wake_def woken_def)
qed

text \<open>The children of a task form a list. \<open>task_add_child\<close> puts a new child at its front, and
  \<open>task_remove_child\<close> returns and takes the child out, leaving the others in order and the child
  without a parent.\<close>

lemma task_children_list:
  assumes "children_ok s parent cs" "parent \<notin> set cs" "parent \<noteq> NULL"
  shows "(c \<noteq> NULL \<and> c \<noteq> parent \<and> c \<notin> set cs \<longrightarrow> children_ok (task_add_child parent c s) parent (c # cs)) \<and>
    (c \<in> set cs \<longrightarrow> (\<exists>s'. task_remove_child parent c s = Some s' \<and>
       children_ok s' parent (remove1 c cs) \<and> t_parent (tasks s' c) = NULL))"
  using add_child_cons [OF assms(1)] remove_child_ok [OF assms(1)] assms(2,3) by metis

end
