(* ===== verification/Vmm.thy ===== *)
theory Vmm
  imports Heap
begin

text \<open>
  Virtual memory: the boot page tables of \<open>src/mm/paging.c\<close>, the virtual memory manager of
  \<open>src/mm/vmm.c\<close> and the page fault handler of \<open>src/interrupts/pagefault.c\<close>. Physical memory is a
  function from the address of a 32-bit word to the word; page tables and directories live in it and
  are read and written through the identity mapping of the first 128 MB, as in the code. The structures
  \<open>vmm_address_space\<close> and \<open>vmm_region\<close> live in stores of their own, at the addresses \<open>kmalloc\<close> returned.
  Addresses the linker chooses are arguments. \<open>mmu\<close> is the two-level walk the processor makes from
  \<open>cr3\<close> (the translation cache is not modelled: \<open>invlpg\<close> has no counterpart).
\<close>

section \<open>State\<close>

abbreviation VMM_PRESENT :: u32 where
  "VMM_PRESENT \<equiv> 1"

abbreviation VMM_WRITE :: u32 where
  "VMM_WRITE \<equiv> 2"

abbreviation VMM_USER :: u32 where
  "VMM_USER \<equiv> 4"

abbreviation KERNEL_HEAP_START :: u32 where
  "KERNEL_HEAP_START \<equiv> 0xC0400000"

abbreviation KERNEL_HEAP_END :: u32 where
  "KERNEL_HEAP_END \<equiv> 0xC0800000"

record vmm_region =
  rg_start :: u32
  rg_end :: u32
  rg_flags :: u32
  rg_next :: u32

record vmm_address_space =
  page_dir :: u32
  regions :: u32
  ref_count :: u32
  as_next :: u32

record vmm_state =
  pmem :: "u32 \<Rightarrow> u32"
  kernel_page_dir :: u32
  vmm_current_as :: u32
  address_spaces :: "u32 \<Rightarrow> vmm_address_space"
  vmm_regions :: "u32 \<Rightarrow> vmm_region"
  next_virt :: u32
  next_virt_pages :: u32
  cpu_cr3 :: u32
  cpu_cr0 :: u32
  kheap :: heap_state

abbreviation vpmm :: "vmm_state \<Rightarrow> pmm_state" where
  "vpmm s \<equiv> pmm (kheap s)"

definition set_pmm :: "pmm_state \<Rightarrow> vmm_state \<Rightarrow> vmm_state" where
  "set_pmm p s = s\<lparr>kheap := (kheap s)\<lparr>pmm := p\<rparr>\<rparr>"

text \<open>Entry \<open>i\<close> of the table at address \<open>t\<close>.\<close>

definition get_entry :: "vmm_state \<Rightarrow> u32 \<Rightarrow> u32 \<Rightarrow> u32" where
  "get_entry s t i = pmem s (t + 4 * i)"

definition set_entry :: "u32 \<Rightarrow> u32 \<Rightarrow> u32 \<Rightarrow> vmm_state \<Rightarrow> vmm_state" where
  "set_entry t i v s = s\<lparr>pmem := (pmem s)(t + 4 * i := v)\<rparr>"

text \<open>\<open>memset(a, 0, PAGE_SIZE)\<close> on physical memory.\<close>

definition zero_page :: "u32 \<Rightarrow> vmm_state \<Rightarrow> vmm_state" where
  "zero_page a s = s\<lparr>pmem := (\<lambda>x. if x - a < PAGE_SIZE then 0 else pmem s x)\<rparr>"

section \<open>Boot page tables\<close>

text \<open>\<open>pd\<close> and \<open>pts\<close> are the addresses of \<open>page_directory\<close> and \<open>page_tables\<close>.\<close>

definition map_boot_table :: "u32 \<Rightarrow> u32 \<Rightarrow> nat \<Rightarrow> vmm_state \<Rightarrow> vmm_state" where
  "map_boot_table pd pts t s =
     (let table = pts + of_nat t * PAGE_SIZE;
          s = fold (\<lambda>i s. let phys_addr = of_nat (t * 1024 + i) * PAGE_SIZE
                in set_entry table (of_nat i) (phys_addr OR VMM_PRESENT OR VMM_WRITE) s) [0..<1024] s
      in set_entry pd (of_nat t) (table OR VMM_PRESENT OR VMM_WRITE) s)"

definition paging_init :: "u32 \<Rightarrow> u32 \<Rightarrow> vmm_state \<Rightarrow> vmm_state" where
  "paging_init pd pts s =
     (let s = fold (map_boot_table pd pts) [0..<32] s;
          s = fold (\<lambda>t s. set_entry pd (of_nat t) 0 s) [32..<1024] s
      in s\<lparr>cpu_cr3 := pd, cpu_cr0 := cpu_cr0 s OR 0x80000000\<rparr>)"

section \<open>Mapping\<close>

definition pd_index :: "u32 \<Rightarrow> u32" where
  "pd_index virt_addr = drop_bit 22 virt_addr AND 0x3FF"

definition pt_index :: "u32 \<Rightarrow> u32" where
  "pt_index virt_addr = drop_bit 12 virt_addr AND 0x3FF"

definition get_page_table :: "u32 \<Rightarrow> u32 \<Rightarrow> u32 \<Rightarrow> vmm_state \<Rightarrow> u32 \<times> vmm_state" where
  "get_page_table pd pd_idx flags s =
     (if pd = NULL then (NULL, s)
      else
        (let pde = get_entry s pd pd_idx in
         if pde AND VMM_PRESENT \<noteq> 0 then (pde AND NOT 0xFFF, s)
         else
           (let (pt, p) = pmm_alloc_block (vpmm s); s = set_pmm p s in
            if pt = NULL then (NULL, s)
            else
              (let s = zero_page pt s
               in (pt, set_entry pd pd_idx (pt OR (flags AND 0xFFF) OR VMM_PRESENT OR VMM_WRITE) s)))))"

definition vmm_map_page_internal :: "u32 \<Rightarrow> u32 \<Rightarrow> u32 \<Rightarrow> u32 \<Rightarrow> vmm_state \<Rightarrow> vmm_state" where
  "vmm_map_page_internal pd virt_addr phys_addr flags s =
     (if pd = NULL then s
      else
        (let (pt, s) = get_page_table pd (pd_index virt_addr) flags s in
         if pt = NULL then s
         else set_entry pt (pt_index virt_addr) ((phys_addr AND NOT 0xFFF) OR (flags AND 0xFFF)) s))"

text \<open>\<open>ka\<close> and \<open>kr\<close> are the addresses of \<open>kernel_as_static\<close> and \<open>kernel_heap_region_static\<close>.\<close>

definition vmm_init :: "u32 \<Rightarrow> u32 \<Rightarrow> u32 \<Rightarrow> vmm_state \<Rightarrow> vmm_state" where
  "vmm_init pd ka kr s = s\<lparr>kernel_page_dir := pd,
     address_spaces := (address_spaces s)(ka := \<lparr>page_dir = pd, regions = kr, ref_count = 1, as_next = NULL\<rparr>),
     vmm_regions := (vmm_regions s)(kr := \<lparr>rg_start = KERNEL_HEAP_START, rg_end = KERNEL_HEAP_END,
       rg_flags = VMM_PRESENT OR VMM_WRITE, rg_next = NULL\<rparr>),
     vmm_current_as := ka\<rparr>"

text \<open>The page directory of the current address space, \<open>NULL\<close> when there is none: the guard
  \<open>!vmm_current_as || !vmm_current_as->page_dir\<close> of the public functions.\<close>

definition as_dir :: "u32 \<Rightarrow> vmm_state \<Rightarrow> u32" where
  "as_dir as s = (if as = NULL then NULL else page_dir (address_spaces s as))"

definition vmm_map_page :: "u32 \<Rightarrow> u32 \<Rightarrow> u32 \<Rightarrow> vmm_state \<Rightarrow> vmm_state" where
  "vmm_map_page virt_addr phys_addr flags s =
     (if as_dir (vmm_current_as s) s = NULL then s
      else vmm_map_page_internal (as_dir (vmm_current_as s) s) virt_addr phys_addr flags s)"

definition vmm_map_page_in_as :: "u32 \<Rightarrow> u32 \<Rightarrow> u32 \<Rightarrow> u32 \<Rightarrow> vmm_state \<Rightarrow> vmm_state" where
  "vmm_map_page_in_as as virt_addr phys_addr flags s =
     (if as_dir as s = NULL then s
      else vmm_map_page_internal (as_dir as s) virt_addr phys_addr flags s)"

definition vmm_unmap_page_in_as :: "u32 \<Rightarrow> u32 \<Rightarrow> vmm_state \<Rightarrow> vmm_state" where
  "vmm_unmap_page_in_as as virt_addr s =
     (if as_dir as s = NULL then s
      else
        (let pde = get_entry s (as_dir as s) (pd_index virt_addr) in
         if pde AND VMM_PRESENT = 0 then s
         else
           (let pt = pde AND NOT 0xFFF;
                old_pte = get_entry s pt (pt_index virt_addr);
                s = set_entry pt (pt_index virt_addr) 0 s
            in if old_pte AND VMM_PRESENT \<noteq> 0 then
                 (let phys = old_pte AND NOT 0xFFF in
                  if phys \<ge> 0x100000 then set_pmm (pmm_free_block phys (vpmm s)) s else s)
               else s)))"

definition vmm_unmap_page :: "u32 \<Rightarrow> vmm_state \<Rightarrow> vmm_state" where
  "vmm_unmap_page virt_addr s =
     (if as_dir (vmm_current_as s) s = NULL then s
      else
        (let pde = get_entry s (as_dir (vmm_current_as s) s) (pd_index virt_addr) in
         if pde AND VMM_PRESENT = 0 then s
         else
           (let pt = pde AND NOT 0xFFF;
                old_pte = get_entry s pt (pt_index virt_addr);
                s = set_entry pt (pt_index virt_addr) 0 s
            in if old_pte AND VMM_PRESENT \<noteq> 0 then
                 (let phys = old_pte AND NOT 0xFFF in
                  if phys \<ge> 0x100000 then set_pmm (pmm_free_block phys (vpmm s)) s else s)
               else s)))"

function map_range_loop :: "u32 \<Rightarrow> u32 \<Rightarrow> u32 \<Rightarrow> u32 \<Rightarrow> u32 \<Rightarrow> vmm_state \<Rightarrow> vmm_state" where
  "map_range_loop virt phys pages flags i s =
     (if i < pages
      then map_range_loop virt phys pages flags (i + 1)
             (vmm_map_page (virt + i * PAGE_SIZE) (phys + i * PAGE_SIZE) flags s)
      else s)"
  by pat_completeness auto

termination
  by (relation "measure (\<lambda>(_, _, pages, _, i, _). unat pages - unat i)") (auto simp: loop_measure)

declare map_range_loop.simps [simp del]

function unmap_range_loop :: "u32 \<Rightarrow> u32 \<Rightarrow> u32 \<Rightarrow> vmm_state \<Rightarrow> vmm_state" where
  "unmap_range_loop virt pages i s =
     (if i < pages then unmap_range_loop virt pages (i + 1) (vmm_unmap_page (virt + i * PAGE_SIZE) s) else s)"
  by pat_completeness auto

termination
  by (relation "measure (\<lambda>(_, pages, i, _). unat pages - unat i)") (auto simp: loop_measure)

declare unmap_range_loop.simps [simp del]

definition vmm_map_range :: "u32 \<Rightarrow> u32 \<Rightarrow> u32 \<Rightarrow> u32 \<Rightarrow> vmm_state \<Rightarrow> int \<times> vmm_state" where
  "vmm_map_range virt_start phys_start sz flags s =
     (if sz = 0 then (0, s)
      else (1, map_range_loop (virt_start AND NOT 0xFFF) (phys_start AND NOT 0xFFF)
                 ((sz + PAGE_SIZE - 1) div PAGE_SIZE) flags 0 s))"

definition vmm_unmap_range :: "u32 \<Rightarrow> u32 \<Rightarrow> vmm_state \<Rightarrow> int \<times> vmm_state" where
  "vmm_unmap_range virt_start sz s =
     (if sz = 0 then (0, s)
      else (1, unmap_range_loop (virt_start AND NOT 0xFFF) ((sz + PAGE_SIZE - 1) div PAGE_SIZE) 0 s))"

section \<open>Queries\<close>

definition vmm_virt_to_phys :: "u32 \<Rightarrow> vmm_state \<Rightarrow> u32" where
  "vmm_virt_to_phys virt_addr s =
     (if as_dir (vmm_current_as s) s = NULL then 0
      else
        (let pde = get_entry s (as_dir (vmm_current_as s) s) (pd_index virt_addr) in
         if pde AND VMM_PRESENT = 0 then 0
         else
           (let pte = get_entry s (pde AND NOT 0xFFF) (pt_index virt_addr) in
            if pte AND VMM_PRESENT = 0 then 0
            else (pte AND NOT 0xFFF) OR (virt_addr AND 0xFFF))))"

definition vmm_get_flags :: "u32 \<Rightarrow> vmm_state \<Rightarrow> u32" where
  "vmm_get_flags virt_addr s =
     (if as_dir (vmm_current_as s) s = NULL then 0
      else
        (let pde = get_entry s (as_dir (vmm_current_as s) s) (pd_index virt_addr) in
         if pde AND VMM_PRESENT = 0 then 0
         else get_entry s (pde AND NOT 0xFFF) (pt_index virt_addr) AND 0xFFF))"

definition vmm_is_mapped :: "u32 \<Rightarrow> vmm_state \<Rightarrow> bool" where
  "vmm_is_mapped virt_addr s \<longleftrightarrow> vmm_get_flags virt_addr s AND VMM_PRESENT \<noteq> 0"

section \<open>Access through the page tables\<close>

text \<open>The processor's translation of a supervisor access: \<open>None\<close> is a page fault.\<close>

definition mmu :: "vmm_state \<Rightarrow> u32 \<Rightarrow> u32 option" where
  "mmu s virt_addr =
     (let pde = get_entry s (cpu_cr3 s AND NOT 0xFFF) (pd_index virt_addr) in
      if pde AND VMM_PRESENT = 0 then None
      else
        (let pte = get_entry s (pde AND NOT 0xFFF) (pt_index virt_addr) in
         if pte AND VMM_PRESENT = 0 then None
         else Some ((pte AND NOT 0xFFF) OR (virt_addr AND 0xFFF))))"

text \<open>\<open>memset(virt, 0, PAGE_SIZE)\<close> for a page-aligned virtual address: the whole range lies in one
  page, so one translation covers it. \<open>None\<close>: the access faults.\<close>

definition memset_page :: "u32 \<Rightarrow> vmm_state \<Rightarrow> vmm_state option" where
  "memset_page virt s = (case mmu s virt of None \<Rightarrow> None | Some phys \<Rightarrow> Some (zero_page phys s))"

section \<open>Allocation of virtual pages\<close>

definition vmm_alloc_page :: "u32 \<Rightarrow> vmm_state \<Rightarrow> (u32 \<times> vmm_state) option" where
  "vmm_alloc_page flags s =
     (let virt = next_virt s;
          s = s\<lparr>next_virt := next_virt s + PAGE_SIZE\<rparr>;
          (phys, p) = pmm_alloc_block (vpmm s);
          s = set_pmm p s
      in if phys = NULL then Some (NULL, s)
         else
           (case memset_page virt (vmm_map_page virt phys flags s) of
              None \<Rightarrow> None
            | Some s \<Rightarrow> Some (virt, s)))"

definition vmm_free_page :: "u32 \<Rightarrow> vmm_state \<Rightarrow> vmm_state" where
  "vmm_free_page virt_addr s = vmm_unmap_page virt_addr s"

function alloc_pages_loop :: "u32 \<Rightarrow> u32 \<Rightarrow> u32 \<Rightarrow> u32 \<Rightarrow> vmm_state \<Rightarrow> (u32 \<times> vmm_state) option" where
  "alloc_pages_loop base_virt count flags i s =
     (if i < count then
        (let (phys, p) = pmm_alloc_block (vpmm s); s = set_pmm p s in
         if phys = NULL then Some (NULL, unmap_range_loop base_virt i 0 s)
         else
           (case memset_page (base_virt + i * PAGE_SIZE) (vmm_map_page (base_virt + i * PAGE_SIZE) phys flags s) of
              None \<Rightarrow> None
            | Some s \<Rightarrow> alloc_pages_loop base_virt count flags (i + 1) s))
      else Some (base_virt, s))"
  by pat_completeness auto

termination
  by (relation "measure (\<lambda>(_, count, _, i, _). unat count - unat i)") (auto simp: loop_measure)

declare alloc_pages_loop.simps [simp del]

definition vmm_alloc_pages :: "u32 \<Rightarrow> u32 \<Rightarrow> vmm_state \<Rightarrow> (u32 \<times> vmm_state) option" where
  "vmm_alloc_pages count flags s =
     (if count = 0 then Some (NULL, s)
      else alloc_pages_loop (next_virt_pages s) count flags 0
             (s\<lparr>next_virt_pages := next_virt_pages s + count * PAGE_SIZE\<rparr>))"

definition vmm_free_pages :: "u32 \<Rightarrow> u32 \<Rightarrow> vmm_state \<Rightarrow> vmm_state" where
  "vmm_free_pages virt_addr count s = unmap_range_loop virt_addr count 0 s"

section \<open>Address spaces\<close>

function copy_entries :: "u32 \<Rightarrow> u32 \<Rightarrow> u32 \<Rightarrow> u32 \<Rightarrow> vmm_state \<Rightarrow> vmm_state" where
  "copy_entries src dst i n s =
     (if i < n then
        copy_entries src dst (i + 1) n
          (if get_entry s src i AND VMM_PRESENT \<noteq> 0 then set_entry dst i (get_entry s src i) s else s)
      else s)"
  by pat_completeness auto

termination
  by (relation "measure (\<lambda>(_, _, i, n, _). unat n - unat i)") (auto simp: loop_measure)

declare copy_entries.simps [simp del]

text \<open>\<open>sizeof(struct vmm_address_space)\<close> is 16.\<close>

definition vmm_create_as :: "vmm_state \<Rightarrow> (u32 \<times> vmm_state) option" where
  "vmm_create_as s =
     (case kmalloc 16 (kheap s) of None \<Rightarrow> None
      | Some (as, h) \<Rightarrow>
          (let s = s\<lparr>kheap := h\<rparr> in
           if as = NULL then Some (NULL, s)
           else
             (let (pd, p) = pmm_alloc_block (vpmm s);
                  s = set_pmm p s;
                  s = s\<lparr>address_spaces := (address_spaces s)(as := (address_spaces s as)\<lparr>page_dir := pd\<rparr>)\<rparr>
              in if pd = NULL
                 then (case kfree as (kheap s) of None \<Rightarrow> None | Some h \<Rightarrow> Some (NULL, s\<lparr>kheap := h\<rparr>))
                 else
                   (let s = zero_page pd s;
                        s = copy_entries (kernel_page_dir s) pd 0 32 s;
                        s = copy_entries (kernel_page_dir s) pd 768 1024 s
                    in Some (as, s\<lparr>address_spaces := (address_spaces s)(as :=
                         (address_spaces s as)\<lparr>regions := NULL, ref_count := 1, as_next := NULL\<rparr>)\<rparr>)))))"

function free_table_pages :: "u32 \<Rightarrow> u32 \<Rightarrow> vmm_state \<Rightarrow> vmm_state" where
  "free_table_pages pt i s =
     (if i < 1024 then
        free_table_pages pt (i + 1)
          (if get_entry s pt i AND VMM_PRESENT \<noteq> 0 \<and> get_entry s pt i AND NOT 0xFFF \<ge> 0x100000
           then set_pmm (pmm_free_block (get_entry s pt i AND NOT 0xFFF) (vpmm s)) s else s)
      else s)"
  by pat_completeness auto

termination
  by (relation "measure (\<lambda>(_, i, _). unat (1024 :: u32) - unat i)") (use loop_measure [of _ "1024 :: u32"] in auto)

declare free_table_pages.simps [simp del]

function free_tables :: "u32 \<Rightarrow> u32 \<Rightarrow> vmm_state \<Rightarrow> vmm_state" where
  "free_tables pd i s =
     (if i < 768 then
        free_tables pd (i + 1)
          (if get_entry s pd i AND VMM_PRESENT \<noteq> 0
           then (let pt = get_entry s pd i AND NOT 0xFFF; s = free_table_pages pt 0 s
                 in set_pmm (pmm_free_block pt (vpmm s)) s)
           else s)
      else s)"
  by pat_completeness auto

termination
  by (relation "measure (\<lambda>(_, i, _). unat (768 :: u32) - unat i)") (use loop_measure [of _ "768 :: u32"] in auto)

declare free_tables.simps [simp del]

partial_function (option) free_regions :: "u32 \<Rightarrow> vmm_state \<Rightarrow> vmm_state option" where
  "free_regions region s =
     (if region \<noteq> NULL then
        (case kfree region (kheap s) of None \<Rightarrow> None
         | Some h \<Rightarrow> free_regions (rg_next (vmm_regions s region)) (s\<lparr>kheap := h\<rparr>))
      else Some s)"

definition vmm_destroy_as :: "u32 \<Rightarrow> vmm_state \<Rightarrow> vmm_state option" where
  "vmm_destroy_as as s =
     (if as = NULL then Some s
      else
        (let s = free_tables (page_dir (address_spaces s as)) 0 s;
             s = set_pmm (pmm_free_block (page_dir (address_spaces s as)) (vpmm s)) s
         in case free_regions (regions (address_spaces s as)) s of None \<Rightarrow> None
            | Some s \<Rightarrow>
                (case kfree as (kheap s) of None \<Rightarrow> None | Some h \<Rightarrow> Some (s\<lparr>kheap := h\<rparr>))))"

definition vmm_switch_as :: "u32 \<Rightarrow> vmm_state \<Rightarrow> vmm_state" where
  "vmm_switch_as as s =
     (if as_dir as s = NULL then s
      else s\<lparr>vmm_current_as := as, cpu_cr3 := page_dir (address_spaces s as)\<rparr>)"

section \<open>The page fault handler\<close>

datatype fault_result =
    Resumed vmm_state
  | Halted vmm_state
  | Nested_fault vmm_state

text \<open>
  \<open>stack\<close> is the frame pushed by the stub (\<open>STACK_ERRCODE\<close> is its word 12) and \<open>fault_addr\<close> the value of
  \<open>cr2\<close>. \<open>Halted\<close> is the panic loop; \<open>Nested_fault\<close> is the processor faulting again in the \<open>memset\<close>.
\<close>

definition page_fault_handler :: "(nat \<Rightarrow> u32) \<Rightarrow> u32 \<Rightarrow> vmm_state \<Rightarrow> fault_result" where
  "page_fault_handler stack fault_addr s =
     (let err_code = stack 12 in
      if err_code AND 1 = 0 then
        (let page_addr = fault_addr AND NOT 0xFFF in
         if fault_addr \<ge> KERNEL_HEAP_START \<and> fault_addr < KERNEL_HEAP_END then
           (let (phys, p) = pmm_alloc_block (vpmm s); s = set_pmm p s in
            if phys = NULL then Halted s
            else
              (let s = vmm_map_page page_addr phys (VMM_PRESENT OR VMM_WRITE) s in
               case memset_page page_addr s of None \<Rightarrow> Nested_fault s | Some s \<Rightarrow> Resumed s))
         else Halted s)
      else Halted s)"

section \<open>Entries and their addresses\<close>

text \<open>A table occupies one frame; its entries have different addresses in it.\<close>

definition aligned :: "u32 \<Rightarrow> bool" where
  "aligned a \<longleftrightarrow> a div PAGE_SIZE * PAGE_SIZE = a"

lemma aligned_frame_eq: "aligned a \<Longrightarrow> aligned b \<Longrightarrow> a = b \<longleftrightarrow> a div PAGE_SIZE = b div PAGE_SIZE"
  by (metis aligned_def)

lemma unat_entry_addr:
  assumes "aligned t" "i < 1024"
  shows "unat (t + 4 * i) = unat (t div PAGE_SIZE) * 4096 + 4 * unat i"
proof -
  have k: "t div PAGE_SIZE < 0x100000" by (rule u32_div_page_bound)
  have i: "unat i < 1024" using assms(2) by (simp add: word_less_nat_alt)
  have "unat (4 * i) = 4 * unat i" using i by (simp add: unat_word_ariths)
  moreover have "unat t = unat (t div PAGE_SIZE) * 4096"
    using unat_frame_addr [OF k] assms(1) by (simp add: aligned_def)
  moreover have "unat (t div PAGE_SIZE) < 1048576" using k by (simp add: word_less_nat_alt)
  ultimately show ?thesis using i by (simp add: unat_word_ariths)
qed

lemma entry_frame [simp]: "aligned t \<Longrightarrow> i < 1024 \<Longrightarrow> (t + 4 * i) div PAGE_SIZE = t div PAGE_SIZE"
proof -
  assume a: "aligned t" "i < 1024"
  then have "4 * unat i < 4096" by (simp add: word_less_nat_alt)
  then have "unat (t + 4 * i) div 4096 = unat (t div PAGE_SIZE)"
    unfolding unat_entry_addr [OF a] by simp
  then show ?thesis by (simp add: word_unat_eq_iff unat_div_distrib)
qed

lemma entry_inj:
  assumes "aligned t" "aligned t'" "i < 1024" "i' < 1024"
  shows "t + 4 * i = t' + 4 * i' \<longleftrightarrow> t = t' \<and> i = i'"
proof
  assume e: "t + 4 * i = t' + 4 * i'"
  then have f: "t div PAGE_SIZE = t' div PAGE_SIZE" using entry_frame assms by metis
  then have "t = t'" using assms(1,2) by (simp add: aligned_frame_eq)
  moreover have "unat i = unat i'"
    using e unat_entry_addr [OF assms(1,3)] unat_entry_addr [OF assms(2,4)] f by simp
  ultimately show "t = t' \<and> i = i'" by (simp add: word_unat_eq_iff)
qed auto

lemma in_page_iff: "aligned a \<Longrightarrow> x - a < PAGE_SIZE \<longleftrightarrow> x div PAGE_SIZE = a div PAGE_SIZE"
proof -
  assume al: "aligned a"
  let ?k = "a div PAGE_SIZE"
  have k: "?k < 0x100000" by (rule u32_div_page_bound)
  have ua: "unat a = unat ?k * 4096" using unat_frame_addr [OF k] al by (simp add: aligned_def)
  have "x - a < PAGE_SIZE \<longleftrightarrow> unat x div 4096 = unat ?k" (is "?l \<longleftrightarrow> ?r")
  proof
    assume ?l
    then have l: "unat (x - a) < 4096" by (simp add: word_less_nat_alt)
    have "unat ?k < 1048576" using k by (simp add: word_less_nat_alt)
    then have "unat a + unat (x - a) < 4294967296" using l ua by simp
    then have "unat (a + (x - a)) = unat a + unat (x - a)"
      by (intro unat_add_lem [THEN iffD1]) simp
    then have "unat x = unat a + unat (x - a)" by (simp only: add_diff_cancel_left' add_diff_eq)
    then show ?r using l ua by simp
  next
    assume r: ?r
    then have "unat a \<le> unat x" "unat x < unat a + 4096"
      using ua div_mult_mod_eq [of "unat x" 4096] mod_less_divisor [of 4096 "unat x"] by linarith+
    then show ?l by (simp add: word_less_nat_alt word_le_nat_alt unat_sub)
  qed
  then show ?thesis by (simp add: word_unat_eq_iff unat_div_distrib)
qed

lemma index_bound [simp]: "pd_index v < 1024" "pt_index v < 1024"
proof -
  have "(a :: u32) AND 0x3FF < 1024" for a
  proof -
    have "a AND 0x3FF = take_bit 10 a" by (simp add: take_bit_eq_mask mask_eq_exp_minus_1)
    also have "\<dots> = a mod 1024" by (simp add: take_bit_eq_mod)
    also have "\<dots> < 1024" by (rule word_mod_less_divisor) simp
    finally show ?thesis .
  qed
  then show "pd_index v < 1024" "pt_index v < 1024" by (simp_all add: pd_index_def pt_index_def)
qed

lemma same_page_iff: "pd_index v = pd_index w \<and> pt_index v = pt_index w \<longleftrightarrow> v div PAGE_SIZE = w div PAGE_SIZE"
proof -
  have m: "(0x3FF :: u32) = mask 10" by (simp add: mask_eq_exp_minus_1)
  have p: "a div PAGE_SIZE = drop_bit 12 a" for a :: u32 by (simp add: drop_bit_eq_div)
  show ?thesis
  proof
    assume "v div PAGE_SIZE = w div PAGE_SIZE"
    then have e: "drop_bit 12 v = drop_bit 12 w" by (simp add: p)
    then have "drop_bit 10 (drop_bit 12 v) = drop_bit 10 (drop_bit 12 w)" by simp
    then have "drop_bit 22 v = drop_bit 22 w" by (simp add: drop_bit_drop_bit)
    with e show "pd_index v = pd_index w \<and> pt_index v = pt_index w" by (simp add: pd_index_def pt_index_def)
  next
    assume a: "pd_index v = pd_index w \<and> pt_index v = pt_index w"
    show "v div PAGE_SIZE = w div PAGE_SIZE" unfolding p
    proof (rule bit_word_eqI)
      fix n assume "n < LENGTH(32)"
      have h: "n < 10 \<Longrightarrow> bit (drop_bit 22 v) n = bit (drop_bit 22 w) n"
        "n < 10 \<Longrightarrow> bit (drop_bit 12 v) n = bit (drop_bit 12 w) n" for n
        using arg_cong [OF conjunct1 [OF a], where f = "\<lambda>x. bit x n"]
          arg_cong [OF conjunct2 [OF a], where f = "\<lambda>x. bit x n"]
        by (auto simp: pd_index_def pt_index_def m bit_simps)
      show "bit (drop_bit 12 v) n = bit (drop_bit 12 w) n"
      proof (cases "n < 10")
        case True then show ?thesis by (rule h(2))
      next
        case False
        show ?thesis
        proof (cases "n < 20")
          case True
          then show ?thesis using h(1) [of "n - 10"] False by (simp add: bit_drop_bit_eq)
        next
          case nl: False
          have "\<not> bit (v :: u32) (12 + n)" "\<not> bit (w :: u32) (12 + n)"
            using nl bit_imp_le_length [of v "12 + n"] bit_imp_le_length [of w "12 + n"] by auto
          then show ?thesis by (simp add: bit_drop_bit_eq)
        qed
      qed
    qed
  qed
qed

lemma aligned_and [simp]: "aligned (a AND NOT 0xFFF)"
  by (simp only: aligned_def and_not_page_mask page_round_div)

lemma aligned_bits: "aligned a \<longleftrightarrow> a AND NOT 0xFFF = a"
  by (simp only: aligned_def and_not_page_mask)

text \<open>The fields of an entry: address above, flags below.\<close>

lemma entry_fields:
  "((a AND NOT 0xFFF) OR (b AND 0xFFF)) AND NOT 0xFFF = (a AND NOT 0xFFF :: u32)"
  "((a AND NOT 0xFFF) OR (b AND 0xFFF)) AND 0xFFF = (b AND 0xFFF :: u32)"
  by (simp_all only: page_mask) (rule bit_word_eqI, auto simp: bit_simps)+

lemma present_low: "x AND VMM_PRESENT = (x AND 0xFFF) AND VMM_PRESENT"
  by (simp add: and.assoc)

lemma table_entry:
  assumes "aligned pt"
  shows "(pt OR (flags AND 0xFFF) OR VMM_PRESENT OR VMM_WRITE) AND VMM_PRESENT \<noteq> 0"
    "(pt OR (flags AND 0xFFF) OR VMM_PRESENT OR VMM_WRITE) AND NOT 0xFFF = pt"
proof -
  have e: "pt OR (flags AND 0xFFF) OR VMM_PRESENT OR VMM_WRITE = (pt AND NOT 0xFFF) OR ((flags OR 3) AND 0xFFF)"
    using assms unfolding aligned_bits by (simp add: bit.conj_disj_distrib2 or.assoc)
  show "(pt OR (flags AND 0xFFF) OR VMM_PRESENT OR VMM_WRITE) AND VMM_PRESENT \<noteq> 0"
    unfolding e present_low [of "_ OR _"] entry_fields by (simp add: and.assoc bit.conj_disj_distrib2)
  show "(pt OR (flags AND 0xFFF) OR VMM_PRESENT OR VMM_WRITE) AND NOT 0xFFF = pt"
    unfolding e entry_fields using assms by (simp only: aligned_bits)
qed

lemma set_pmm_simps [simp]:
  "pmem (set_pmm p s) = pmem s" "vpmm (set_pmm p s) = p" "kernel_page_dir (set_pmm p s) = kernel_page_dir s"
  "vmm_current_as (set_pmm p s) = vmm_current_as s" "address_spaces (set_pmm p s) = address_spaces s"
  "vmm_regions (set_pmm p s) = vmm_regions s" "next_virt (set_pmm p s) = next_virt s"
  "next_virt_pages (set_pmm p s) = next_virt_pages s" "cpu_cr3 (set_pmm p s) = cpu_cr3 s"
  "get_entry (set_pmm p s) t i = get_entry s t i" "as_dir as (set_pmm p s) = as_dir as s"
  by (simp_all add: set_pmm_def get_entry_def as_dir_def)

lemma set_entry_simps [simp]:
  "kheap (set_entry t i v s) = kheap s" "kernel_page_dir (set_entry t i v s) = kernel_page_dir s"
  "vmm_current_as (set_entry t i v s) = vmm_current_as s" "address_spaces (set_entry t i v s) = address_spaces s"
  "vmm_regions (set_entry t i v s) = vmm_regions s" "next_virt (set_entry t i v s) = next_virt s"
  "next_virt_pages (set_entry t i v s) = next_virt_pages s" "cpu_cr3 (set_entry t i v s) = cpu_cr3 s"
  "as_dir as (set_entry t i v s) = as_dir as s"
  by (simp_all add: set_entry_def as_dir_def)

lemma zero_page_simps [simp]:
  "kheap (zero_page a s) = kheap s" "kernel_page_dir (zero_page a s) = kernel_page_dir s"
  "vmm_current_as (zero_page a s) = vmm_current_as s" "address_spaces (zero_page a s) = address_spaces s"
  "vmm_regions (zero_page a s) = vmm_regions s" "next_virt (zero_page a s) = next_virt s"
  "next_virt_pages (zero_page a s) = next_virt_pages s" "cpu_cr3 (zero_page a s) = cpu_cr3 s"
  "as_dir as (zero_page a s) = as_dir as s"
  by (simp_all add: zero_page_def as_dir_def)

lemma get_set_entry:
  assumes "aligned t" "aligned t'" "i < 1024" "i' < 1024"
  shows "get_entry (set_entry t i v s) t' i' = (if t' = t \<and> i' = i then v else get_entry s t' i')"
  using entry_inj [OF assms(2,1,4,3)] by (auto simp: get_entry_def set_entry_def)

lemma get_zero_page:
  assumes "aligned t" "aligned t'" "i < 1024"
  shows "get_entry (zero_page t s) t' i = (if t' = t then 0 else get_entry s t' i)"
proof -
  have "t' = t \<longleftrightarrow> t' div PAGE_SIZE = t div PAGE_SIZE" by (rule aligned_frame_eq [OF assms(2,1)])
  then show ?thesis
    by (simp add: get_entry_def zero_page_def in_page_iff [OF assms(1)] entry_frame [OF assms(2,3)])
qed

section \<open>The page tables as a map\<close>

text \<open>
  \<open>pte_of s pd\<close> is what a page directory means: the page table entry of every virtual address, 0 where
  there is no table. \<open>dir_ok\<close>: the directory and its tables are different frames, none of them free
  and no table at address 0.
\<close>

definition present :: "u32 \<Rightarrow> bool" where
  "present e \<longleftrightarrow> e AND VMM_PRESENT \<noteq> 0"

definition table_of :: "vmm_state \<Rightarrow> u32 \<Rightarrow> u32 \<Rightarrow> u32" where
  "table_of s pd i = get_entry s pd i AND NOT 0xFFF"

definition has_table :: "vmm_state \<Rightarrow> u32 \<Rightarrow> u32 \<Rightarrow> bool" where
  "has_table s pd i \<longleftrightarrow> i < 1024 \<and> present (get_entry s pd i)"

definition pte_of :: "vmm_state \<Rightarrow> u32 \<Rightarrow> u32 \<Rightarrow> u32" where
  "pte_of s pd v = (if has_table s pd (pd_index v) then get_entry s (table_of s pd (pd_index v)) (pt_index v) else 0)"

definition dir_ok :: "vmm_state \<Rightarrow> u32 \<Rightarrow> bool" where
  "dir_ok s pd \<longleftrightarrow> aligned pd \<and> pd \<noteq> NULL \<and> pmm_inv (vpmm s) \<and> pd div PAGE_SIZE \<notin> free_frames (vpmm s) \<and>
     (\<forall>i. has_table s pd i \<longrightarrow> table_of s pd i \<noteq> NULL \<and> table_of s pd i \<noteq> pd \<and>
        table_of s pd i div PAGE_SIZE \<notin> free_frames (vpmm s)) \<and>
     (\<forall>i j. has_table s pd i \<longrightarrow> has_table s pd j \<longrightarrow> table_of s pd i = table_of s pd j \<longrightarrow> i = j)"

lemma aligned_table [simp]: "aligned (table_of s pd i)"
  unfolding table_of_def by (rule aligned_and)

lemma dir_okD:
  assumes "dir_ok s pd"
  shows "aligned pd" "pd \<noteq> NULL" "pmm_inv (vpmm s)" "pd div PAGE_SIZE \<notin> free_frames (vpmm s)"
    "has_table s pd i \<Longrightarrow> table_of s pd i \<noteq> NULL"
    "has_table s pd i \<Longrightarrow> table_of s pd i \<noteq> pd"
    "has_table s pd i \<Longrightarrow> table_of s pd i div PAGE_SIZE \<notin> free_frames (vpmm s)"
    "has_table s pd i \<Longrightarrow> has_table s pd j \<Longrightarrow> table_of s pd i = table_of s pd j \<longleftrightarrow> i = j"
  using assms unfolding dir_ok_def by blast+

text \<open>Two states agree on a directory when they agree on its frame and on its tables' frames.\<close>

lemma dir_ok_cong:
  assumes "dir_ok s pd" "pmm_inv (vpmm s')" "free_frames (vpmm s') \<subseteq> free_frames (vpmm s)"
    "\<And>i. i < 1024 \<Longrightarrow> get_entry s' pd i = get_entry s pd i"
  shows "dir_ok s' pd"
proof -
  have h: "has_table s' pd i = has_table s pd i" for i using assms(4) by (auto simp: has_table_def)
  have t: "has_table s pd i \<Longrightarrow> table_of s' pd i = table_of s pd i" for i
    using assms(4) by (auto simp: has_table_def table_of_def)
  show ?thesis
    using assms(1-3) unfolding dir_ok_def by (simp add: h t subset_eq) blast
qed

text \<open>Writing one entry of an existing table changes the map at one page.\<close>

lemma set_pte:
  fixes e :: u32
  assumes ok: "dir_ok s pd" and ht: "has_table s pd (pd_index v)"
  defines "s' \<equiv> set_entry (table_of s pd (pd_index v)) (pt_index v) e s"
  shows "dir_ok s' pd" "pte_of s' pd w = (if w div PAGE_SIZE = v div PAGE_SIZE then e else pte_of s pd w)"
proof -
  let ?t = "table_of s pd (pd_index v)"
  have pde: "get_entry s' pd i = get_entry s pd i" if "i < 1024" for i
    unfolding s'_def using get_set_entry [OF aligned_table dir_okD(1) [OF ok] index_bound(2) that]
      dir_okD(6) [OF ok ht] by simp
  show "dir_ok s' pd" by (rule dir_ok_cong [OF ok]) (use dir_okD(3) [OF ok] pde in \<open>simp_all add: s'_def\<close>)
  have h: "has_table s' pd i = has_table s pd i" for i using pde by (auto simp: has_table_def)
  have t: "has_table s pd i \<Longrightarrow> table_of s' pd i = table_of s pd i" for i
    using pde by (auto simp: has_table_def table_of_def)
  show "pte_of s' pd w = (if w div PAGE_SIZE = v div PAGE_SIZE then e else pte_of s pd w)"
  proof (cases "has_table s pd (pd_index w)")
    case True
    have "get_entry s' (table_of s pd (pd_index w)) (pt_index w)
      = (if table_of s pd (pd_index w) = ?t \<and> pt_index w = pt_index v then e
         else get_entry s (table_of s pd (pd_index w)) (pt_index w))"
      unfolding s'_def by (rule get_set_entry) simp_all
    then show ?thesis using True dir_okD(8) [OF ok True ht] same_page_iff [of w v]
      by (simp add: pte_of_def h t)
  next
    case False
    then have "w div PAGE_SIZE \<noteq> v div PAGE_SIZE" using ht same_page_iff [of w v] by auto
    then show ?thesis using False by (simp add: pte_of_def h)
  qed
qed

text \<open>A table fetched for the first time is a fresh zeroed frame: the map does not change.\<close>

lemma new_table:
  fixes flags :: u32
  assumes ok: "dir_ok s pd" and no: "\<not> has_table s pd i" and i: "i < 1024"
    and al: "pmm_alloc_block (vpmm s) = (pt, p)" and pt: "pt \<noteq> NULL"
  defines "s' \<equiv> set_entry pd i (pt OR (flags AND 0xFFF) OR VMM_PRESENT OR VMM_WRITE) (zero_page pt (set_pmm p s))"
  shows "dir_ok s' pd" "has_table s' pd i" "table_of s' pd i = pt" "pte_of s' pd w = pte_of s pd w"
proof -
  note fr = pmm.alloc_nonnull [OF dir_okD(3) [OF ok] al pt]
  have "aligned pt" unfolding aligned_def by (rule fr(3) [symmetric])
  note fresh = fr(1,2) this
  have sub: "free_frames p \<subseteq> free_frames (vpmm s)"
    using dir_okD(3) [OF ok] al by (rule pmm.alloc_avail_subset)
  have np: "pt \<noteq> pd" using fresh(1) dir_okD(4) [OF ok] by auto
  have nt: "has_table s pd j \<Longrightarrow> table_of s pd j \<noteq> pt" for j using fresh(1) dir_okD(7) [OF ok] by auto
  have pde: "get_entry s' pd j = (if j = i then pt OR (flags AND 0xFFF) OR VMM_PRESENT OR VMM_WRITE
      else get_entry s pd j)" if "j < 1024" for j
    unfolding s'_def using get_set_entry [OF dir_okD(1) dir_okD(1) i that, OF ok ok]
      get_zero_page [OF fresh(3) dir_okD(1) [OF ok] that] np by simp
  show h: "has_table s' pd i"
    unfolding has_table_def present_def using i pde [OF i] table_entry(1) [OF fresh(3)] by simp
  show t: "table_of s' pd i = pt"
    unfolding table_of_def using pde [OF i] table_entry(2) [OF fresh(3)] by simp
  have h': "has_table s' pd j \<longleftrightarrow> j = i \<or> has_table s pd j" for j
    using h pde by (auto simp: has_table_def)
  have t': "has_table s pd j \<Longrightarrow> table_of s' pd j = table_of s pd j" for j
    using pde no by (auto simp: has_table_def table_of_def)
  have pm: "vpmm s' = p" by (simp add: s'_def)
  show "dir_ok s' pd"
    unfolding dir_ok_def pm
  proof (intro conjI allI impI)
    show "aligned pd" "pd \<noteq> NULL" using dir_okD(1,2) [OF ok] .
    show "pmm_inv p" using alloc_block_inv [OF dir_okD(3) [OF ok] al] .
    show "pd div PAGE_SIZE \<notin> free_frames p" using dir_okD(4) [OF ok] sub by auto
    fix j k
    show "table_of s' pd j \<noteq> NULL" if "has_table s' pd j"
      using that t t' pt dir_okD(5) [OF ok] unfolding h' by metis
    show "table_of s' pd j \<noteq> pd" if "has_table s' pd j"
      using that t t' np dir_okD(6) [OF ok] unfolding h' by metis
    show "table_of s' pd j div PAGE_SIZE \<notin> free_frames p" if "has_table s' pd j"
      using that t t' fresh(2) sub dir_okD(7) [OF ok] unfolding h' by (metis subsetD)
    show "j = k" if "has_table s' pd j" "has_table s' pd k" "table_of s' pd j = table_of s' pd k"
      using that t t' nt dir_okD(8) [OF ok] unfolding h' by metis
  qed
  show "pte_of s' pd w = pte_of s pd w"
  proof (cases "has_table s pd (pd_index w)")
    case True
    have "get_entry s' (table_of s pd (pd_index w)) (pt_index w) = get_entry s (table_of s pd (pd_index w)) (pt_index w)"
      unfolding s'_def
      using get_set_entry [OF dir_okD(1) [OF ok] aligned_table i index_bound(2)] dir_okD(6) [OF ok True]
        get_zero_page [OF fresh(3) aligned_table index_bound(2)] nt [OF True] by simp
    with True show ?thesis by (simp add: pte_of_def h' t')
  next
    case False
    have "get_entry s' pt (pt_index w) = 0"
      unfolding s'_def
      using get_set_entry [OF dir_okD(1) [OF ok] fresh(3) i index_bound(2)] np
        get_zero_page [OF fresh(3) fresh(3) index_bound(2)] by simp
    with False show ?thesis by (simp add: pte_of_def h' t)
  qed
qed

lemma get_page_table_cases:
  assumes ok: "dir_ok s pd" and i: "i < 1024"
  obtains (old) "has_table s pd i" "get_page_table pd i flags s = (table_of s pd i, s)"
  | (none) p where "\<not> has_table s pd i" "pmm_alloc_block (vpmm s) = (NULL, p)"
      "get_page_table pd i flags s = (NULL, set_pmm p s)"
  | (fresh) pt p where "\<not> has_table s pd i" "pmm_alloc_block (vpmm s) = (pt, p)" "pt \<noteq> NULL"
      "get_page_table pd i flags s =
        (pt, set_entry pd i (pt OR (flags AND 0xFFF) OR VMM_PRESENT OR VMM_WRITE) (zero_page pt (set_pmm p s)))"
proof -
  have pd: "pd \<noteq> NULL" using dir_okD(2) [OF ok] .
  show thesis
  proof (cases "has_table s pd i")
    case True
    then show thesis using pd i by (intro old) (simp_all add: get_page_table_def has_table_def present_def table_of_def Let_def)
  next
    case False
    obtain pt p where al: "pmm_alloc_block (vpmm s) = (pt, p)" by (cases "pmm_alloc_block (vpmm s)")
    have np: "get_entry s pd i AND VMM_PRESENT = 0" using False i by (simp add: has_table_def present_def)
    show thesis
    proof (cases "pt = NULL")
      case True
      then show thesis using pd al np False by (intro none) (simp_all add: get_page_table_def Let_def)
    next
      case npt: False
      then show thesis using pd al np False by (intro fresh) (simp_all add: get_page_table_def Let_def)
    qed
  qed
qed

lemma set_pmm_dir_ok:
  assumes "dir_ok s pd" "pmm_inv p" "free_frames p \<subseteq> free_frames (vpmm s)"
  shows "dir_ok (set_pmm p s) pd"
  by (rule dir_ok_cong [OF assms(1)]) (use assms in simp_all)

lemma pte_of_set_pmm [simp]: "pte_of (set_pmm p s) pd v = pte_of s pd v"
  by (simp add: pte_of_def has_table_def table_of_def)

text \<open>When a mapping is made, and what it does to the map.\<close>

definition can_map :: "vmm_state \<Rightarrow> u32 \<Rightarrow> u32 \<Rightarrow> bool" where
  "can_map s pd v \<longleftrightarrow> has_table s pd (pd_index v) \<or> fst (pmm_alloc_block (vpmm s)) \<noteq> NULL"

lemma map_internal:
  fixes v phys flags :: u32
  assumes ok: "dir_ok s pd"
  defines "s' \<equiv> vmm_map_page_internal pd v phys flags s"
  shows "dir_ok s' pd"
    "pte_of s' pd w = (if can_map s pd v \<and> w div PAGE_SIZE = v div PAGE_SIZE
       then (phys AND NOT 0xFFF) OR (flags AND 0xFFF) else pte_of s pd w)"
proof -
  have "dir_ok s' pd \<and> pte_of s' pd w = (if can_map s pd v \<and> w div PAGE_SIZE = v div PAGE_SIZE
       then (phys AND NOT 0xFFF) OR (flags AND 0xFFF) else pte_of s pd w)"
    using ok index_bound(1) [of v]
  proof (cases rule: get_page_table_cases [where flags = flags])
    case old
    then show ?thesis using set_pte [OF ok old(1)] dir_okD(2) [OF ok] dir_okD(5) [OF ok old(1)]
      by (simp add: s'_def vmm_map_page_internal_def can_map_def)
  next
    case (none p)
    have "dir_ok (set_pmm p s) pd"
      by (rule set_pmm_dir_ok [OF ok])
        (use alloc_block_inv pmm.alloc_avail_subset dir_okD(3) [OF ok] none(2) in blast)+
    then show ?thesis using none dir_okD(2) [OF ok] by (simp add: s'_def vmm_map_page_internal_def can_map_def)
  next
    case (fresh pt p)
    note n = new_table [OF ok fresh(1) index_bound(1) fresh(2,3), where flags = flags]
    show ?thesis using set_pte [OF n(1,2)] n(3,4) fresh dir_okD(2) [OF ok]
      by (simp add: s'_def vmm_map_page_internal_def can_map_def)
  qed
  then show "dir_ok s' pd" "pte_of s' pd w = (if can_map s pd v \<and> w div PAGE_SIZE = v div PAGE_SIZE
       then (phys AND NOT 0xFFF) OR (flags AND 0xFFF) else pte_of s pd w)" by auto
qed

text \<open>The queries and the processor read the map.\<close>

definition translate :: "u32 \<Rightarrow> u32 \<Rightarrow> u32" where
  "translate e v = (if present e then (e AND NOT 0xFFF) OR (v AND 0xFFF) else 0)"

lemma not_present_zero [simp]: "\<not> present 0"
  by (simp add: present_def)

lemma translate_zero [simp]: "translate 0 v = 0"
  by (simp add: translate_def)

lemma queries:
  assumes "as_dir (vmm_current_as s) s = pd" "pd \<noteq> NULL"
  shows "vmm_virt_to_phys v s = translate (pte_of s pd v) v"
    "vmm_get_flags v s = pte_of s pd v AND 0xFFF"
    "vmm_is_mapped v s \<longleftrightarrow> present (pte_of s pd v)"
proof -
  show "vmm_virt_to_phys v s = translate (pte_of s pd v) v"
    using assms by (simp add: vmm_virt_to_phys_def translate_def pte_of_def has_table_def present_def table_of_def Let_def)
  show f: "vmm_get_flags v s = pte_of s pd v AND 0xFFF"
    using assms by (simp add: vmm_get_flags_def pte_of_def has_table_def present_def table_of_def Let_def)
  show "vmm_is_mapped v s \<longleftrightarrow> present (pte_of s pd v)"
    by (simp add: vmm_is_mapped_def f present_def and.assoc)
qed

lemma mmu_pte:
  assumes "cpu_cr3 s = pd" "aligned pd"
  shows "mmu s v = (if present (pte_of s pd v) then Some (translate (pte_of s pd v) v) else None)"
proof -
  have "cpu_cr3 s AND NOT 0xFFF = pd" using assms by (simp only: aligned_bits)
  then show ?thesis
    unfolding mmu_def by (simp add: translate_def pte_of_def has_table_def present_def table_of_def Let_def)
qed

lemma translate_entry:
  "present ((phys AND NOT 0xFFF) OR (flags AND 0xFFF)) \<longleftrightarrow> present flags"
  "translate ((phys AND NOT 0xFFF) OR (flags AND 0xFFF)) v = (if present flags then (phys AND NOT 0xFFF) OR (v AND 0xFFF) else 0)"
proof -
  show p: "present ((phys AND NOT 0xFFF) OR (flags AND 0xFFF)) \<longleftrightarrow> present flags"
    unfolding present_def present_low [of "_ OR _"] entry_fields by (simp add: and.assoc)
  show "translate ((phys AND NOT 0xFFF) OR (flags AND 0xFFF)) v = (if present flags then (phys AND NOT 0xFFF) OR (v AND 0xFFF) else 0)"
    unfolding translate_def p entry_fields by simp
qed

text \<open>Mapping and unmapping change neither the address spaces nor the processor's registers.\<close>

lemma get_page_table_frame:
  "get_page_table pd i flags s = (pt, s') \<Longrightarrow> address_spaces s' = address_spaces s \<and>
     vmm_current_as s' = vmm_current_as s \<and> cpu_cr3 s' = cpu_cr3 s \<and> kernel_page_dir s' = kernel_page_dir s \<and>
     next_virt s' = next_virt s \<and> vmm_regions s' = vmm_regions s"
  by (auto simp: get_page_table_def Let_def split: if_splits prod.splits)

lemma map_page_frame [simp]:
  "address_spaces (vmm_map_page v p f s) = address_spaces s" "vmm_current_as (vmm_map_page v p f s) = vmm_current_as s"
  "cpu_cr3 (vmm_map_page v p f s) = cpu_cr3 s" "next_virt (vmm_map_page v p f s) = next_virt s"
  by (auto simp: vmm_map_page_def vmm_map_page_internal_def dest!: get_page_table_frame split: prod.splits)

lemma as_dir_map_page [simp]: "as_dir as (vmm_map_page v p f s) = as_dir as s"
  by (simp add: as_dir_def)

lemma unmap_page_frame [simp]:
  "address_spaces (vmm_unmap_page v s) = address_spaces s" "vmm_current_as (vmm_unmap_page v s) = vmm_current_as s"
  "cpu_cr3 (vmm_unmap_page v s) = cpu_cr3 s" "next_virt (vmm_unmap_page v s) = next_virt s"
  by (simp_all add: vmm_unmap_page_def Let_def)

lemma as_dir_unmap_page [simp]: "as_dir as (vmm_unmap_page v s) = as_dir as s"
  by (simp add: as_dir_def)

lemma map_page_max:
  assumes "pmm_inv (vpmm s)"
  shows "max_blocks (vpmm (vmm_map_page v phys flags s)) = max_blocks (vpmm s)"
proof -
  have "max_blocks (vpmm s') = max_blocks (vpmm s)" if "get_page_table pd i flags s = (pt, s')" for pd i pt s'
    using that alloc_block_max [OF assms]
    by (auto simp: get_page_table_def Let_def split: if_splits prod.splits)
  then show ?thesis by (auto simp: vmm_map_page_def vmm_map_page_internal_def split: prod.splits)
qed

lemma map_page:
  assumes "dir_ok s pd" "as_dir (vmm_current_as s) s = pd"
  shows "dir_ok (vmm_map_page v phys flags s) pd"
    "pte_of (vmm_map_page v phys flags s) pd w = (if can_map s pd v \<and> w div PAGE_SIZE = v div PAGE_SIZE
       then (phys AND NOT 0xFFF) OR (flags AND 0xFFF) else pte_of s pd w)"
  using map_internal [OF assms(1)] assms dir_okD(2) [OF assms(1)] by (simp_all add: vmm_map_page_def)

text \<open>The frame an entry points to, and what unmapping does to the map and to the frames.\<close>

definition frame_of :: "u32 \<Rightarrow> u32" where
  "frame_of e = (e AND NOT 0xFFF) div PAGE_SIZE"

lemma unmap_page_eq:
  assumes "as_dir (vmm_current_as s) s = pd" "pd \<noteq> NULL"
  shows "vmm_unmap_page v s =
    (let e = pte_of s pd v; s1 = set_entry (table_of s pd (pd_index v)) (pt_index v) 0 s in
     if has_table s pd (pd_index v) then
       (if present e \<and> 0x100000 \<le> e AND NOT 0xFFF then set_pmm (pmm_free_block (e AND NOT 0xFFF) (vpmm s)) s1 else s1)
     else s)"
  using assms by (simp add: vmm_unmap_page_def pte_of_def has_table_def present_def table_of_def Let_def)

lemma unmap_page:
  assumes ok: "dir_ok s pd" and cur: "as_dir (vmm_current_as s) s = pd"
  shows "pte_of (vmm_unmap_page v s) pd w = (if w div PAGE_SIZE = v div PAGE_SIZE then 0 else pte_of s pd w)"
    "free_frames (vpmm (vmm_unmap_page v s)) = free_frames (vpmm s) \<union>
       {b. present (pte_of s pd v) \<and> b = frame_of (pte_of s pd v) \<and> 0x100000 \<le> pte_of s pd v AND NOT 0xFFF \<and>
           b < max_blocks (vpmm s)}"
    "pmm_inv (vpmm (vmm_unmap_page v s))" "max_blocks (vpmm (vmm_unmap_page v s)) = max_blocks (vpmm s)"
proof -
  let ?s1 = "set_entry (table_of s pd (pd_index v)) (pt_index v) 0 s" and ?e = "pte_of s pd v"
  note u = unmap_page_eq [OF cur dir_okD(2) [OF ok], of v]
  have "has_table s pd (pd_index v) \<or> w div PAGE_SIZE \<noteq> v div PAGE_SIZE \<or> pte_of s pd w = 0"
    using same_page_iff [of w v] by (auto simp: pte_of_def)
  then show "pte_of (vmm_unmap_page v s) pd w = (if w div PAGE_SIZE = v div PAGE_SIZE then 0 else pte_of s pd w)"
    using set_pte(2) [OF ok] by (auto simp: u Let_def)
  show "free_frames (vpmm (vmm_unmap_page v s)) = free_frames (vpmm s) \<union>
       {b. present ?e \<and> b = frame_of ?e \<and> 0x100000 \<le> ?e AND NOT 0xFFF \<and> b < max_blocks (vpmm s)}"
    using free_block_frames [OF dir_okD(3) [OF ok]] by (auto simp: u Let_def frame_of_def pte_of_def)
  show "pmm_inv (vpmm (vmm_unmap_page v s))" "max_blocks (vpmm (vmm_unmap_page v s)) = max_blocks (vpmm s)"
    using dir_okD(3) [OF ok] free_block_inv by (auto simp: u Let_def)
qed

text \<open>The frames a directory is made of.\<close>

definition dir_frames :: "vmm_state \<Rightarrow> u32 \<Rightarrow> u32 set" where
  "dir_frames s pd = insert (pd div PAGE_SIZE) ((\<lambda>i. table_of s pd i div PAGE_SIZE) ` {i. has_table s pd i})"

lemma unmap_keeps_dir:
  assumes ok: "dir_ok s pd" and cur: "as_dir (vmm_current_as s) s = pd"
    and fr: "present (pte_of s pd v) \<Longrightarrow> frame_of (pte_of s pd v) \<notin> dir_frames s pd"
  shows "dir_ok (vmm_unmap_page v s) pd"
proof -
  let ?s' = "vmm_unmap_page v s"
  have pde: "get_entry ?s' pd i = get_entry s pd i" if "i < 1024" for i
    using get_set_entry [OF aligned_table dir_okD(1) [OF ok] index_bound(2) that, of s pd "pd_index v" v]
      dir_okD(6) [OF ok, of "pd_index v"]
    by (auto simp: unmap_page_eq [OF cur dir_okD(2) [OF ok]] Let_def)
  have h: "has_table ?s' pd i = has_table s pd i" for i using pde by (auto simp: has_table_def)
  have t: "has_table s pd i \<Longrightarrow> table_of ?s' pd i = table_of s pd i" for i
    using pde by (auto simp: has_table_def table_of_def)
  show ?thesis
    unfolding dir_ok_def
  proof (intro conjI allI impI)
    show "aligned pd" "pd \<noteq> NULL" using dir_okD(1,2) [OF ok] .
    show "pmm_inv (vpmm ?s')" using unmap_page(3) [OF ok cur] .
    show "pd div PAGE_SIZE \<notin> free_frames (vpmm ?s')"
      using dir_okD(4) [OF ok] fr by (auto simp: unmap_page(2) [OF ok cur] dir_frames_def)
    fix i j assume i: "has_table ?s' pd i"
    then show "table_of ?s' pd i \<noteq> NULL" "table_of ?s' pd i \<noteq> pd"
      using dir_okD(5,6) [OF ok] by (auto simp: h t)
    show "table_of ?s' pd i div PAGE_SIZE \<notin> free_frames (vpmm ?s')"
    proof -
      have "table_of ?s' pd i div PAGE_SIZE \<in> dir_frames s pd" using i by (simp add: dir_frames_def h t)
      then show ?thesis using i dir_okD(7) [OF ok] fr by (auto simp: unmap_page(2) [OF ok cur] h t)
    qed
    assume "has_table ?s' pd j" "table_of ?s' pd i = table_of ?s' pd j"
    with i show "i = j" using dir_okD(8) [OF ok] by (simp add: h t)
  qed
qed

lemma dir_frames_not_free: "dir_ok s pd \<Longrightarrow> dir_frames s pd \<inter> free_frames (vpmm s) = {}"
  unfolding dir_frames_def using dir_okD(4,7) by blast

lemma dir_frames_cong:
  "(\<And>i. i < 1024 \<Longrightarrow> get_entry s' pd i = get_entry s pd i) \<Longrightarrow> dir_frames s' pd = dir_frames s pd"
  unfolding dir_frames_def has_table_def table_of_def by (rule arg_cong [OF image_cong]) auto

lemma dir_frames_set_pmm [simp]: "dir_frames (set_pmm p s) pd = dir_frames s pd"
  by (rule dir_frames_cong) simp

text \<open>Clearing a frame outside the directory keeps the map.\<close>

lemma zero_page_keeps:
  assumes ok: "dir_ok s pd" and a: "aligned a" "a div PAGE_SIZE \<notin> dir_frames s pd"
  shows "dir_ok (zero_page a s) pd" "pte_of (zero_page a s) pd w = pte_of s pd w"
    "dir_frames (zero_page a s) pd = dir_frames s pd"
proof -
  have np: "pd \<noteq> a" "has_table s pd i \<Longrightarrow> table_of s pd i \<noteq> a" for i
    using a(2) by (auto simp: dir_frames_def)
  have pde: "get_entry (zero_page a s) pd i = get_entry s pd i" if "i < 1024" for i
    using get_zero_page [OF a(1) dir_okD(1) [OF ok] that] np(1) by simp
  show "dir_ok (zero_page a s) pd" by (rule dir_ok_cong [OF ok]) (use dir_okD(3) [OF ok] pde in simp_all)
  show "dir_frames (zero_page a s) pd = dir_frames s pd" using pde by (rule dir_frames_cong)
  have "get_entry (zero_page a s) (table_of s pd (pd_index w)) (pt_index w) =
      get_entry s (table_of s pd (pd_index w)) (pt_index w)" if "has_table s pd (pd_index w)"
    using get_zero_page [OF a(1) aligned_table index_bound(2)] np(2) [OF that] by simp
  then show "pte_of (zero_page a s) pd w = pte_of s pd w"
    using pde [OF index_bound(1)] by (simp add: pte_of_def has_table_def table_of_def)
qed

text \<open>Mapping takes at most a free frame into the directory.\<close>

lemma set_entry_frames:
  assumes "dir_ok s pd" "has_table s pd j" "i < 1024"
  shows "dir_frames (set_entry (table_of s pd j) i e s) pd = dir_frames s pd"
  by (rule dir_frames_cong)
    (use get_set_entry [OF aligned_table dir_okD(1) [OF assms(1)] assms(3)] dir_okD(6) [OF assms(1,2)] in simp)

lemma map_internal_frames:
  fixes v phys flags :: u32
  assumes ok: "dir_ok s pd"
  defines "s' \<equiv> vmm_map_page_internal pd v phys flags s"
  shows "dir_frames s' pd \<subseteq> dir_frames s pd \<union> free_frames (vpmm s)"
    "free_frames (vpmm s') \<subseteq> free_frames (vpmm s)"
proof -
  have "dir_frames s' pd \<subseteq> dir_frames s pd \<union> free_frames (vpmm s) \<and> free_frames (vpmm s') \<subseteq> free_frames (vpmm s)"
    using ok index_bound(1) [of v]
  proof (cases rule: get_page_table_cases [where flags = flags])
    case old
    then show ?thesis using dir_okD(2) [OF ok] dir_okD(5) [OF ok old(1)] set_entry_frames [OF ok old(1) index_bound(2)]
      by (simp add: s'_def vmm_map_page_internal_def)
  next
    case (none p)
    then show ?thesis using dir_okD(2) [OF ok] pmm.alloc_avail_subset [OF dir_okD(3) [OF ok] none(2)]
      by (simp add: s'_def vmm_map_page_internal_def)
  next
    case (fresh pt p)
    let ?s1 = "set_entry pd (pd_index v) (pt OR (flags AND 0xFFF) OR VMM_PRESENT OR VMM_WRITE) (zero_page pt (set_pmm p s))"
    note n = new_table [OF ok fresh(1) index_bound(1) fresh(2,3), where flags = flags]
    note fr = pmm.alloc_nonnull [OF dir_okD(3) [OF ok] fresh(2,3)]
    have al: "aligned pt" unfolding aligned_def by (rule fr(3) [symmetric])
    have "pt \<noteq> pd" using fr(1) dir_okD(4) [OF ok] by auto
    then have pde: "get_entry ?s1 pd j = get_entry s pd j" if "j < 1024" "j \<noteq> pd_index v" for j
      using get_set_entry [OF dir_okD(1) dir_okD(1) index_bound(1) that(1), OF ok ok]
        get_zero_page [OF al dir_okD(1) [OF ok] that(1)] that(2) by simp
    have "dir_frames ?s1 pd \<subseteq> insert (pt div PAGE_SIZE) (dir_frames s pd)"
    proof
      fix f assume "f \<in> dir_frames ?s1 pd"
      then consider "f = pd div PAGE_SIZE" | i where "has_table ?s1 pd i" "f = table_of ?s1 pd i div PAGE_SIZE"
        unfolding dir_frames_def by blast
      then show "f \<in> insert (pt div PAGE_SIZE) (dir_frames s pd)"
      proof cases
        case 2
        show ?thesis
        proof (cases "i = pd_index v")
          case True then show ?thesis using 2 n(3) by simp
        next
          case False
          then have "has_table s pd i" "table_of ?s1 pd i = table_of s pd i"
            using 2(1) pde by (auto simp: has_table_def table_of_def)
          with 2 show ?thesis by (auto simp: dir_frames_def)
        qed
      qed (simp add: dir_frames_def)
    qed
    then show ?thesis
      using fr(1) pmm.alloc_avail_subset [OF dir_okD(3) [OF ok] fresh(2)]
        set_entry_frames [OF n(1,2) index_bound(2), of v] n(3) fresh dir_okD(2) [OF ok]
      by (auto simp: s'_def vmm_map_page_internal_def)
  qed
  then show "dir_frames s' pd \<subseteq> dir_frames s pd \<union> free_frames (vpmm s)"
    "free_frames (vpmm s') \<subseteq> free_frames (vpmm s)" by auto
qed

section \<open>A fresh page\<close>

text \<open>Allocation, mapping and clearing of a page, as \<open>vmm_alloc_page\<close>, \<open>vmm_alloc_pages\<close> and the fault
  handler do it. \<open>roomy\<close>: there is a frame for the page and one for its table, and frames below 1 MB are
  never free.\<close>

definition roomy :: "vmm_state \<Rightarrow> bool" where
  "roomy s \<longleftrightarrow> 2 \<le> card (free_frames (vpmm s)) \<and> (\<forall>b \<in> free_frames (vpmm s). 256 \<le> b)"

definition cleared :: "vmm_state \<Rightarrow> u32 \<Rightarrow> bool" where
  "cleared s f \<longleftrightarrow> (\<forall>x. x div PAGE_SIZE = f \<longrightarrow> pmem s x = 0)"

lemma zero_page_cleared: "aligned a \<Longrightarrow> cleared (zero_page a s) (a div PAGE_SIZE)"
  by (simp add: cleared_def zero_page_def in_page_iff)

lemma alloc_high:
  assumes "pmm_inv p" "free_frames p \<noteq> {}" "\<forall>b \<in> free_frames p. 256 \<le> b" "pmm_alloc_block p = (phys, p')"
  shows "phys \<noteq> NULL" "phys div PAGE_SIZE \<in> free_frames p" "aligned phys" "0x100000 \<le> phys"
    "free_frames p' = free_frames p - {phys div PAGE_SIZE}" "pmm_inv p'"
proof -
  obtain b where b: "b \<in> free_frames p" "phys = b * PAGE_SIZE" "free_frames p' = free_frames p - {b}" "pmm_inv p'"
    using pmm.alloc_frame [OF assms(1,2,4)] by auto
  have lt: "b < 0x100000" using pmm.avail_bound [OF assms(1) b(1)] .
  have d: "phys div PAGE_SIZE = b" using b(2) frame_addr_div [OF lt] by simp
  have "unat phys = unat b * 4096" unfolding b(2) by (rule unat_frame_addr [OF lt])
  moreover have "256 \<le> unat b" using assms(3) b(1) by (auto simp: word_le_nat_alt)
  ultimately show "0x100000 \<le> phys" by (simp add: word_le_nat_alt)
  then show "phys \<noteq> NULL" by auto
  show "aligned phys" unfolding aligned_def d by (rule b(2) [symmetric])
  show "phys div PAGE_SIZE \<in> free_frames p" "free_frames p' = free_frames p - {phys div PAGE_SIZE}" "pmm_inv p'"
    using b d by simp_all
qed

lemma translate_aligned: "aligned v \<Longrightarrow> translate e v = (if present e then e AND NOT 0xFFF else 0)"
proof -
  assume "aligned v"
  then have "v AND 0xFFF = 0"
    unfolding aligned_bits page_mask by (metis and.assoc and.commute bit.conj_cancel_right bit.conj_zero_right)
  then show ?thesis by (simp add: translate_def)
qed

lemma fresh_entry:
  assumes "aligned phys" "present flags"
  shows "present (phys OR (flags AND 0xFFF))" "frame_of (phys OR (flags AND 0xFFF)) = phys div PAGE_SIZE"
    "(phys OR (flags AND 0xFFF)) AND NOT 0xFFF = phys"
proof -
  have p: "phys AND NOT 0xFFF = phys" using assms(1) by (simp only: aligned_bits)
  show "present (phys OR (flags AND 0xFFF))" using translate_entry(1) [of phys flags] p assms(2) by simp
  show "(phys OR (flags AND 0xFFF)) AND NOT 0xFFF = phys" using entry_fields(1) [of phys flags] p by simp
  then show "frame_of (phys OR (flags AND 0xFFF)) = phys div PAGE_SIZE" by (simp add: frame_of_def)
qed

lemma map_fresh_page:
  assumes ok: "dir_ok s pd" and cur: "as_dir (vmm_current_as s) s = pd" "cpu_cr3 s = pd"
    and fl: "present flags" and v: "aligned v" and room: "roomy s"
    and al: "pmm_alloc_block (vpmm s) = (phys, p)"
  obtains s' where "memset_page v (vmm_map_page v phys flags (set_pmm p s)) = Some s'"
    "dir_ok s' pd" "as_dir (vmm_current_as s') s' = pd" "phys \<noteq> NULL" "aligned phys"
    "\<And>w. pte_of s' pd w = (if w div PAGE_SIZE = v div PAGE_SIZE then phys OR (flags AND 0xFFF) else pte_of s pd w)"
    "cleared s' (phys div PAGE_SIZE)" "phys div PAGE_SIZE \<in> free_frames (vpmm s)"
    "free_frames (vpmm s') \<subseteq> free_frames (vpmm s) - {phys div PAGE_SIZE}" "0x100000 \<le> phys"
    "phys div PAGE_SIZE \<notin> dir_frames s' pd" "max_blocks (vpmm s') = max_blocks (vpmm s)"
proof -
  let ?s1 = "set_pmm p s" let ?s2 = "vmm_map_page v phys flags ?s1"
  have inv: "pmm_inv (vpmm s)" by (rule dir_okD(3) [OF ok])
  have ne: "free_frames (vpmm s) \<noteq> {}" "\<forall>b \<in> free_frames (vpmm s). 256 \<le> b"
    using room by (auto simp: roomy_def)
  note fr = alloc_high [OF inv ne al]
  have ok1: "dir_ok ?s1 pd" by (rule set_pmm_dir_ok [OF ok fr(6)]) (use fr(5) in auto)
  have cur1: "as_dir (vmm_current_as ?s1) ?s1 = pd" using cur by simp
  have ne1: "free_frames p \<noteq> {}" "\<forall>b \<in> free_frames p. 256 \<le> b"
  proof -
    have "card (free_frames p) \<ge> 1" using room fr(2,5) by (auto simp: roomy_def)
    then show "free_frames p \<noteq> {}" by auto
    show "\<forall>b \<in> free_frames p. 256 \<le> b" using ne(2) fr(5) by auto
  qed
  have can: "can_map ?s1 pd v"
    using alloc_high(1) [OF fr(6) ne1] by (cases "pmm_alloc_block p") (auto simp: can_map_def)
  have ph: "phys AND NOT 0xFFF = phys" using fr(3) by (simp only: aligned_bits)
  note m = map_page [OF ok1 cur1, of v phys flags]
  have pte: "pte_of ?s2 pd w = (if w div PAGE_SIZE = v div PAGE_SIZE then phys OR (flags AND 0xFFF) else pte_of s pd w)" for w
    unfolding m(2) ph using can by simp
  have i: "?s2 = vmm_map_page_internal pd v phys flags ?s1"
    using dir_okD(2) [OF ok] cur1 by (simp add: vmm_map_page_def)
  have nd: "phys div PAGE_SIZE \<notin> dir_frames ?s2 pd" and sub: "free_frames (vpmm ?s2) \<subseteq> free_frames p"
    unfolding i using map_internal_frames [OF ok1, of v phys flags] dir_frames_not_free [OF ok] fr(2,5) by auto
  have e: "present (pte_of ?s2 pd v)" "translate (pte_of ?s2 pd v) v = phys"
    using fresh_entry [OF fr(3) fl] unfolding pte by (simp_all add: translate_aligned [OF v])
  then have ms: "memset_page v ?s2 = Some (zero_page phys ?s2)"
    using mmu_pte [OF _ dir_okD(1) [OF ok], of ?s2 v] cur(2) by (simp add: memset_page_def)
  note z = zero_page_keeps [OF m(1) fr(3) nd]
  show thesis
    by (rule that [OF ms z(1)])
      (use map_page_max [of ?s1 v phys flags] alloc_block_max [OF inv al] cur fr pte z(2,3) nd sub zero_page_cleared [OF fr(3)] in simp_all)
qed

lemma alloc_page:
  assumes ok: "dir_ok s pd" and cur: "as_dir (vmm_current_as s) s = pd" "cpu_cr3 s = pd"
    and fl: "present flags" and v: "aligned (next_virt s)" and room: "roomy s"
  obtains s' phys where "vmm_alloc_page flags s = Some (next_virt s, s')" "dir_ok s' pd"
    "as_dir (vmm_current_as s') s' = pd" "aligned phys"
    "\<And>w. pte_of s' pd w = (if w div PAGE_SIZE = next_virt s div PAGE_SIZE then phys OR (flags AND 0xFFF) else pte_of s pd w)"
    "cleared s' (phys div PAGE_SIZE)" "phys div PAGE_SIZE \<in> free_frames (vpmm s)"
    "free_frames (vpmm s') \<subseteq> free_frames (vpmm s) - {phys div PAGE_SIZE}" "0x100000 \<le> phys"
    "phys div PAGE_SIZE \<notin> dir_frames s' pd" "max_blocks (vpmm s') = max_blocks (vpmm s)"
proof -
  let ?s0 = "s\<lparr>next_virt := next_virt s + PAGE_SIZE\<rparr>"
  obtain phys p where al: "pmm_alloc_block (vpmm s) = (phys, p)" by (cases "pmm_alloc_block (vpmm s)")
  have e: "get_entry ?s0 t i = get_entry s t i" for t i by (simp add: get_entry_def)
  have p0: "pte_of ?s0 pd w = pte_of s pd w" for w by (simp add: pte_of_def has_table_def table_of_def e)
  have ok0: "dir_ok ?s0 pd" by (rule dir_ok_cong [OF ok]) (use dir_okD(3) [OF ok] e in simp_all)
  have cur0: "as_dir (vmm_current_as ?s0) ?s0 = pd" "cpu_cr3 ?s0 = pd" using cur by (auto simp: as_dir_def)
  have room0: "roomy ?s0" using room by (simp add: roomy_def)
  have al0: "pmm_alloc_block (vpmm ?s0) = (phys, p)" using al by simp
  obtain s' where s': "memset_page (next_virt s) (vmm_map_page (next_virt s) phys flags (set_pmm p ?s0)) = Some s'"
    "dir_ok s' pd" "as_dir (vmm_current_as s') s' = pd" "phys \<noteq> NULL" "aligned phys"
    "\<And>w. pte_of s' pd w = (if w div PAGE_SIZE = next_virt s div PAGE_SIZE then phys OR (flags AND 0xFFF) else pte_of ?s0 pd w)"
    "cleared s' (phys div PAGE_SIZE)" "phys div PAGE_SIZE \<in> free_frames (vpmm ?s0)"
    "free_frames (vpmm s') \<subseteq> free_frames (vpmm ?s0) - {phys div PAGE_SIZE}" "0x100000 \<le> phys"
    "phys div PAGE_SIZE \<notin> dir_frames s' pd" "max_blocks (vpmm s') = max_blocks (vpmm ?s0)"
    by (rule map_fresh_page [OF ok0 cur0 fl v room0 al0]) blast
  have "vmm_alloc_page flags s = Some (next_virt s, s')"
    using al s'(1,4) by (simp add: vmm_alloc_page_def Let_def)
  from that [OF this s'(2,3,5)] s'(6-12) show thesis by (simp add: p0)
qed

lemma set_pmm_same [simp]: "set_pmm (vpmm s) s = s"
  by (simp add: set_pmm_def)

section \<open>The boot page tables\<close>

lemma unat_index:
  "unat (pd_index v) = unat v div 4194304" "unat (pt_index v) = unat v div 4096 mod 1024"
proof -
  have m: "x AND 0x3FF = x mod 1024" for x :: u32
  proof -
    have "x AND 0x3FF = take_bit 10 x" by (simp add: take_bit_eq_mask mask_eq_exp_minus_1)
    then show ?thesis by (simp add: take_bit_eq_mod)
  qed
  have "unat v div 4194304 < 1024" using unat_u32_bound [of v] by (simp add: less_mult_imp_div_less)
  then show "unat (pd_index v) = unat v div 4194304"
    by (simp add: pd_index_def m unat_mod_distrib drop_bit_eq_div unat_div_distrib)
  show "unat (pt_index v) = unat v div 4096 mod 1024"
    by (simp add: pt_index_def m unat_mod_distrib drop_bit_eq_div unat_div_distrib)
qed

lemma fill_table:
  assumes "aligned t" "aligned t'" "j < 1024" "n \<le> 1024"
  shows "get_entry (fold (\<lambda>i. set_entry t (of_nat i) (f i)) [a..<n] s) t' j =
    (if t' = t \<and> a \<le> unat j \<and> unat j < n then f (unat j) else get_entry s t' j)"
  using assms(4)
proof (induction n)
  case (Suc n)
  have i: "(of_nat n :: u32) < 1024" using Suc.prems by (simp add: word_less_nat_alt unat_of_nat)
  have e: "j = of_nat n \<longleftrightarrow> unat j = n"
    using Suc.prems by (auto simp: word_unat_eq_iff unat_of_nat)
  show ?case
    using Suc by (auto simp: get_set_entry [OF assms(1,2) i assms(3)] get_set_entry [OF assms(1,1) i assms(3)]
      e not_le less_Suc_eq)
qed simp

text \<open>\<open>boot_tables\<close>: the directory and the 32 tables are different pages of the low 128 MB.\<close>

abbreviation boot_table :: "u32 \<Rightarrow> nat \<Rightarrow> u32" where
  "boot_table pts t \<equiv> pts + of_nat t * PAGE_SIZE"

definition boot_tables :: "u32 \<Rightarrow> u32 \<Rightarrow> bool" where
  "boot_tables pd pts \<longleftrightarrow> aligned pd \<and> aligned pts \<and> pd \<noteq> NULL \<and> pts \<noteq> NULL \<and> pts \<le> 0x07FE0000 \<and>
     (\<forall>t < 32. pd \<noteq> boot_table pts t)"

lemma unat_boot_table:
  assumes "boot_tables pd pts" "t < 32"
  shows "unat (boot_table pts t) = unat pts + t * 4096"
proof -
  have "unat pts \<le> 134086656" using assms(1) by (simp add: boot_tables_def word_le_nat_alt)
  then show ?thesis using assms(2) by (simp add: unat_word_ariths unat_of_nat)
qed

lemma boot_table_frame:
  assumes "boot_tables pd pts" "t < 32"
  shows "boot_table pts t div PAGE_SIZE = pts div PAGE_SIZE + of_nat t" "aligned (boot_table pts t)"
    "boot_table pts t \<noteq> NULL" "boot_table pts t \<noteq> pd"
proof -
  have k: "unat (pts div PAGE_SIZE) \<le> 32736"
  proof -
    have "unat pts \<le> 134086656" using assms(1) by (simp add: boot_tables_def word_le_nat_alt)
    then show ?thesis by (simp add: unat_div_distrib)
  qed
  have d: "unat (boot_table pts t) div 4096 = unat (pts div PAGE_SIZE) + t"
    unfolding unat_boot_table [OF assms] by (simp add: unat_div_distrib)
  then show f: "boot_table pts t div PAGE_SIZE = pts div PAGE_SIZE + of_nat t"
    using k assms(2) by (simp add: word_unat_eq_iff unat_div_distrib unat_word_ariths unat_of_nat)
  have "aligned pts" using assms(1) by (simp add: boot_tables_def)
  then show "aligned (boot_table pts t)"
    unfolding aligned_def f by (simp add: distrib_right)
  show "boot_table pts t \<noteq> pd" using assms by (auto simp: boot_tables_def)
  have "unat pts \<noteq> 0" using assms(1) by (simp add: boot_tables_def unat_eq_0)
  then show "boot_table pts t \<noteq> NULL"
    using unat_boot_table [OF assms] by (metis add_is_0 unat_0)
qed

lemma boot_table_inj:
  assumes "boot_tables pd pts" "t < 32" "u < 32"
  shows "boot_table pts t = boot_table pts u \<longleftrightarrow> t = u"
  using unat_boot_table [OF assms(1,2)] unat_boot_table [OF assms(1,3)] by (auto simp: word_unat_eq_iff)

definition boot_entry :: "nat \<Rightarrow> nat \<Rightarrow> u32" where
  "boot_entry t i = of_nat (t * 1024 + i) * PAGE_SIZE OR VMM_PRESENT OR VMM_WRITE"

lemma boot_fill:
  assumes b: "boot_tables pd pts" and j: "j < 1024"
  shows "n \<le> 32 \<Longrightarrow> get_entry (fold (map_boot_table pd pts) [0..<n] s) pd j =
      (if unat j < n then boot_table pts (unat j) OR VMM_PRESENT OR VMM_WRITE else get_entry s pd j)"
    "n \<le> 32 \<Longrightarrow> u < 32 \<Longrightarrow> get_entry (fold (map_boot_table pd pts) [0..<n] s) (boot_table pts u) j =
      (if u < n then boot_entry u (unat j) else get_entry s (boot_table pts u) j)"
proof (induction n)
  case (Suc n)
  {
    case 1
    have n: "n < 32" and i: "(of_nat n :: u32) < 1024" using 1 by (simp_all add: word_less_nat_alt unat_of_nat)
    note f = boot_table_frame [OF b n]
    have pd: "aligned pd" using b by (simp add: boot_tables_def)
    have e: "j = of_nat n \<longleftrightarrow> unat j = n" using n by (auto simp: word_unat_eq_iff unat_of_nat)
    show ?case
      using Suc.IH(1) n f(4)
      by (auto simp: map_boot_table_def Let_def get_set_entry [OF pd pd i j] fill_table [OF f(2) pd j] e less_Suc_eq)
  next
    case 2
    have n: "n < 32" and i: "(of_nat n :: u32) < 1024" using 2 by (simp_all add: word_less_nat_alt unat_of_nat)
    note f = boot_table_frame [OF b n] and g = boot_table_frame [OF b 2(2)]
    have pd: "aligned pd" using b by (simp add: boot_tables_def)
    have lt: "unat j < 1024" using j by (simp add: word_less_nat_alt)
    show ?case
      using Suc.IH(2) [OF _ 2(2)] n g(4) lt boot_table_inj [OF b 2(2) n]
      by (auto simp: map_boot_table_def boot_entry_def Let_def get_set_entry [OF pd g(2) i j] fill_table [OF f(2) g(2) j] less_Suc_eq)
  }
qed simp_all

lemma boot_entries:
  assumes b: "boot_tables pd pts" and j: "j < 1024"
  shows "get_entry (paging_init pd pts s) pd j =
      (if unat j < 32 then boot_table pts (unat j) OR VMM_PRESENT OR VMM_WRITE else 0)"
    "u < 32 \<Longrightarrow> get_entry (paging_init pd pts s) (boot_table pts u) j = boot_entry u (unat j)"
proof -
  have pd: "aligned pd" using b by (simp add: boot_tables_def)
  have lt: "unat j < 1024" using j by (simp add: word_less_nat_alt)
  have e: "get_entry (paging_init pd pts s) t i = get_entry (fold (\<lambda>t s. set_entry pd (of_nat t) 0 s) [32..<1024]
      (fold (map_boot_table pd pts) [0..<32] s)) t i" for t i
    by (simp add: paging_init_def get_entry_def Let_def del: upt_rec_numeral)
  show "get_entry (paging_init pd pts s) pd j =
      (if unat j < 32 then boot_table pts (unat j) OR VMM_PRESENT OR VMM_WRITE else 0)"
    unfolding e using fill_table [OF pd pd j, where n = 1024 and a = 32 and f = "\<lambda>_. 0"] boot_fill(1) [OF b j] lt
    by (simp del: upt_rec_numeral)
  show "get_entry (paging_init pd pts s) (boot_table pts u) j = boot_entry u (unat j)" if "u < 32"
    unfolding e using fill_table [OF pd boot_table_frame(2) [OF b that] j, where n = 1024 and a = 32 and f = "\<lambda>_. 0"]
      boot_fill(2) [OF b j _ that] boot_table_frame(4) [OF b that] that by (simp del: upt_rec_numeral)
qed

lemma boot_tables_table:
  assumes b: "boot_tables pd pts"
  shows "has_table (paging_init pd pts s) pd j \<longleftrightarrow> unat j < 32"
    "unat j < 32 \<Longrightarrow> table_of (paging_init pd pts s) pd j = boot_table pts (unat j)"
proof -
  have lt: "j < 1024" if "unat j < 32" using that by (simp add: word_less_nat_alt)
  note t = table_entry [OF boot_table_frame(2) [OF b], of "unat j" 0]
  show "has_table (paging_init pd pts s) pd j \<longleftrightarrow> unat j < 32"
  proof (cases "unat j < 32")
    case True
    then show ?thesis using t(1) [OF True] boot_entries(1) [OF b lt [OF True], of s] lt
      by (simp add: has_table_def present_def)
  next
    case False
    then show ?thesis using boot_entries(1) [OF b, of j s] by (auto simp: has_table_def present_def)
  qed
  show "table_of (paging_init pd pts s) pd j = boot_table pts (unat j)" if "unat j < 32"
    using t(2) [OF that] boot_entries(1) [OF b lt [OF that], of s] that by (simp add: table_of_def)
qed

lemma boot_pte:
  assumes b: "boot_tables pd pts"
  shows "pte_of (paging_init pd pts s) pd v = (if v < MEMORY_LIMIT then (v AND NOT 0xFFF) OR (3 AND 0xFFF) else 0)"
proof -
  have lim: "unat (pd_index v) < 32 \<longleftrightarrow> v < MEMORY_LIMIT"
    by (simp add: unat_index word_less_nat_alt) linarith
  show ?thesis
  proof (cases "v < MEMORY_LIMIT")
    case True
    then have u: "unat (pd_index v) < 32" by (simp add: lim)
    have "unat v = 4096 * (unat v div 4096) + unat v mod 4096" by simp
    have "unat v div 4096 div 1024 = unat v div 4194304" by (simp add: div_mult2_eq [symmetric])
    then have "unat (pd_index v) * 1024 + unat (pt_index v) = unat v div 4096"
      unfolding unat_index using div_mult_mod_eq [of "unat v div 4096" 1024] by simp
    moreover have "of_nat (unat v div 4096) = v div PAGE_SIZE"
      by (simp flip: unat_div_distrib [of v PAGE_SIZE, simplified])
    ultimately have "boot_entry (unat (pd_index v)) (unat (pt_index v)) = (v AND NOT 0xFFF) OR VMM_PRESENT OR VMM_WRITE"
      by (simp only: boot_entry_def and_not_page_mask)
    with True u show ?thesis
      unfolding pte_of_def using boot_tables_table [OF b] boot_entries(2) [OF b index_bound(2) u] by (simp add: or.assoc)
  next
    case False
    then show ?thesis using boot_tables_table(1) [OF b] lim by (simp add: pte_of_def)
  qed
qed

section \<open>Creating and destroying an address space\<close>

lemma kmalloc_small_pmm:
  "kmalloc n h = Some r \<Longrightarrow> n \<noteq> 0 \<longrightarrow> total_size n < PAGE_SIZE div 2 \<longrightarrow> pmm_inv (pmm h) \<longrightarrow>
     pmm_inv (pmm (snd r)) \<and> free_frames (pmm (snd r)) \<subseteq> free_frames (pmm h) \<and>
     max_blocks (pmm (snd r)) = max_blocks (pmm h)"
proof (erule kmalloc.raw_induct [rotated], intro impI)
  fix k sz h r
  assume 1: "\<And>sz h r. k sz h = Some r \<Longrightarrow> sz \<noteq> 0 \<longrightarrow> total_size sz < PAGE_SIZE div 2 \<longrightarrow> pmm_inv (pmm h) \<longrightarrow>
     pmm_inv (pmm (snd r)) \<and> free_frames (pmm (snd r)) \<subseteq> free_frames (pmm h) \<and>
     max_blocks (pmm (snd r)) = max_blocks (pmm h)"
    "(if sz = 0 then Some (NULL, h)
      else if total_size sz \<ge> PAGE_SIZE div 2 then Some (kmalloc_large (total_size sz) h)
      else
        (case find_block (blocks h) sz NULL (free_list h) of None \<Rightarrow> None
         | Some (prev, cur) \<Rightarrow>
             if cur \<noteq> NULL then Some (cur + HEADER, take_block sz prev cur h)
             else
               (let (ok, h) = heap_grow h in
                if ok then k sz h else Some (NULL, h)))) = Some r"
    "sz \<noteq> 0" "total_size sz < PAGE_SIZE div 2" "pmm_inv (pmm h)"
  have small: "\<not> total_size sz \<ge> PAGE_SIZE div 2" using 1(4) by simp
  obtain pc where fb: "find_block (blocks h) sz NULL (free_list h) = Some pc"
    using 1(2,3) small by (auto split: option.splits)
  obtain prev cur where pc: "pc = (prev, cur)" by (cases pc)
  show "pmm_inv (pmm (snd r)) \<and> free_frames (pmm (snd r)) \<subseteq> free_frames (pmm h) \<and>
     max_blocks (pmm (snd r)) = max_blocks (pmm h)"
  proof (cases "cur = NULL")
    case False
    then have "r = (cur + HEADER, take_block sz prev cur h)" using 1(2,3) small fb pc by simp
    then show ?thesis using 1(5) by (simp add: take_block_def Let_def)
  next
    case True
    obtain ok h' where g: "heap_grow h = (ok, h')" by (cases "heap_grow h")
    have p: "pmm_inv (pmm h') \<and> free_frames (pmm h') \<subseteq> free_frames (pmm h) \<and> max_blocks (pmm h') = max_blocks (pmm h)"
      using g 1(5) alloc_block_inv [OF 1(5)] pmm.alloc_avail_subset [OF 1(5)] alloc_block_max [OF 1(5)]
      by (auto simp: heap_grow_def add_page_def Let_def split: if_splits prod.splits)
    have e: "(if ok then k sz h' else Some (NULL, h')) = Some r" using 1(2,3) small fb pc True g by simp
    show ?thesis
    proof (cases ok)
      case True
      then show ?thesis using 1(1) [of sz h' r] e p 1(3,4) by auto
    next
      case False
      then show ?thesis using e p by auto
    qed
  qed
qed

lemma kfree_live_pmm:
  assumes "live_inv h L" "p \<in> L"
  shows "\<exists>h'. kfree p (h\<lparr>pmm := x\<rparr>) = Some (h'\<lparr>pmm := x\<rparr>)"
proof -
  have u: "unat p = unat (p - HEADER) + 16" "unat (p - HEADER) mod 8 = 0" "p \<noteq> NULL"
    using live_block [OF assms] by (auto simp: block_ok_def)
  have "unat (4 :: u32) \<le> unat p" unfolding u(1) by simp
  then have "unat (p - 4) = unat p - unat (4 :: u32)" by (intro unat_sub) (simp only: word_le_nat_alt)
  then have "unat (p - 4) = unat (p - HEADER) + 12" unfolding u(1) by simp
  moreover obtain k where "unat (p - HEADER) = 8 * k" using u(2) by (auto elim: dvdE)
  ultimately have "unat (p - 4) mod 8 = 4" by presburger
  then have "\<not> 4096 dvd unat (p - 4)" using dvd_trans [of 8 4096 "unat (p - 4)"] by (auto simp: dvd_eq_mod_eq_0)
  then have "unat (p - 4) mod 4096 \<noteq> 0" by (simp add: dvd_eq_mod_eq_0)
  then have np: "(p - 4) AND (PAGE_SIZE - 1) \<noteq> 0"
    by (simp add: and_page_mask word_unat_eq_iff unat_mod_distrib)
  obtain h' where k: "kfree p h = Some h'" using kfree_live [OF assms] by auto
  have "kfree p (h\<lparr>pmm := x\<rparr>) = map_option (pmm_update (\<lambda>_. x)) (kfree p h)"
    using np u(3) by (simp add: kfree_def merge_blocks_def Let_def option.map_comp split: option.splits)
  then show ?thesis using k by auto
qed

lemma copy_entries_frame [simp]:
  "kheap (copy_entries src dst i n s) = kheap s" "address_spaces (copy_entries src dst i n s) = address_spaces s"
  "kernel_page_dir (copy_entries src dst i n s) = kernel_page_dir s"
  by (induction src dst i n s rule: copy_entries.induct; subst copy_entries.simps; simp)+

lemma copy_entries_get:
  assumes "aligned src" "aligned dst" "src \<noteq> dst" "aligned t" "j < 1024"
  shows "n \<le> 1024 \<Longrightarrow> get_entry (copy_entries src dst i n s) t j =
    (if t = dst \<and> i \<le> j \<and> j < n \<and> present (get_entry s src j) then get_entry s src j else get_entry s t j)"
  using assms(1-4)
proof (induction src dst i n s rule: copy_entries.induct)
  case (1 src dst i n s)
  show ?case
  proof (cases "i < n")
    case True
    have i: "i < 1024" using True 1(2) by simp
    let ?s1 = "if get_entry s src i AND VMM_PRESENT \<noteq> 0 then set_entry dst i (get_entry s src i) s else s"
    have s1: "get_entry ?s1 t j = (if t = dst \<and> j = i \<and> present (get_entry s src i) then get_entry s src i else get_entry s t j)"
      using get_set_entry [OF 1(4,6) i assms(5)] get_set_entry [OF 1(4,4) i i] by (auto simp: present_def)
    have s2: "get_entry ?s1 src j = get_entry s src j"
      using get_set_entry [OF 1(4,3) i assms(5)] 1(5) by simp
    have "get_entry (copy_entries src dst i n s) t j = get_entry (copy_entries src dst (i + 1) n ?s1) t j"
      using True by (subst copy_entries.simps) simp
    also have "\<dots> = (if t = dst \<and> i + 1 \<le> j \<and> j < n \<and> present (get_entry s src j) then get_entry s src j
        else get_entry ?s1 t j)"
      unfolding 1(1) [OF True 1(2-6)] s2 by simp
    finally show ?thesis unfolding s1 inc_le_iff [OF True] using True by (auto simp: le_less)
  next
    case False
    then show ?thesis by (subst copy_entries.simps) auto
  qed
qed

text \<open>What \<open>vmm_create_as\<close> builds when it succeeds.\<close>

lemma create_as_cases:
  assumes ok: "dir_ok s kpd" and k: "kernel_page_dir s = kpd" and cr: "vmm_create_as s = Some (as, s')" "as \<noteq> NULL"
  obtains h pd p where "kmalloc 16 (kheap s) = Some (as, h)" "pmm_alloc_block (pmm h) = (pd, p)"
    "pd \<noteq> NULL" "aligned pd" "pd div PAGE_SIZE \<in> free_frames (vpmm s)" "pd div PAGE_SIZE \<notin> free_frames p"
    "free_frames p \<subseteq> free_frames (vpmm s)" "pmm_inv p" "max_blocks p = max_blocks (vpmm s)"
    "kheap s' = h\<lparr>pmm := p\<rparr>" "page_dir (address_spaces s' as) = pd" "regions (address_spaces s' as) = NULL"
    "\<And>t j. aligned t \<Longrightarrow> j < 1024 \<Longrightarrow> get_entry s' t j =
      (if t = pd then (if (j < 32 \<or> 768 \<le> j) \<and> present (get_entry s kpd j) then get_entry s kpd j else 0)
       else get_entry s t j)"
proof -
  obtain h where km: "kmalloc 16 (kheap s) = Some (as, h)"
    using cr by (auto simp: vmm_create_as_def Let_def split: option.splits prod.splits if_splits)
  obtain pd p where al: "pmm_alloc_block (pmm h) = (pd, p)" by (cases "pmm_alloc_block (pmm h)")
  have nn: "pd \<noteq> NULL"
  proof
    assume "pd = NULL"
    then show False
      using cr km al by (auto simp: vmm_create_as_def Let_def set_pmm_def split: option.splits)
  qed
  have ts: "total_size 16 < PAGE_SIZE div 2" by (simp add: total_size_def align_size_def)
  have hp: "pmm_inv (pmm h)" "free_frames (pmm h) \<subseteq> free_frames (vpmm s)" "max_blocks (pmm h) = max_blocks (vpmm s)"
    using kmalloc_small_pmm [OF km] ts dir_okD(3) [OF ok] by simp_all
  note fr = pmm.alloc_nonnull [OF hp(1) al nn]
  have apd: "aligned pd" unfolding aligned_def by (rule fr(3) [symmetric])
  let ?s0 = "set_pmm p (s\<lparr>kheap := h\<rparr>)"
  let ?s1 = "?s0\<lparr>address_spaces := (address_spaces s)(as := (address_spaces s as)\<lparr>page_dir := pd\<rparr>)\<rparr>"
  let ?s2 = "zero_page pd ?s1"
  let ?s3 = "copy_entries kpd pd 768 1024 (copy_entries kpd pd 0 32 ?s2)"
  have s': "s' = ?s3\<lparr>address_spaces := (address_spaces ?s3)(as :=
      (address_spaces ?s3 as)\<lparr>regions := NULL, ref_count := 1, as_next := NULL\<rparr>)\<rparr>"
    using cr km al nn k by (simp add: vmm_create_as_def Let_def)
  have akpd: "aligned kpd" by (rule dir_okD(1) [OF ok])
  have ne: "kpd \<noteq> pd" using fr(1) hp(2) dir_okD(4) [OF ok] by auto
  have g1: "get_entry ?s1 t j = get_entry s t j" for t j by (simp add: get_entry_def set_pmm_def)
  have g2: "get_entry ?s2 t j = (if t = pd then 0 else get_entry s t j)" if "aligned t" "j < 1024" for t j
    using get_zero_page [OF apd that, of ?s1] by (simp only: g1)
  have g3: "get_entry ?s3 t j = (if t = pd then (if (j < 32 \<or> 768 \<le> j) \<and> present (get_entry s kpd j)
      then get_entry s kpd j else 0) else get_entry s t j)" if t: "aligned t" "j < 1024" for t j
    using copy_entries_get [OF akpd apd ne t, of 1024 768 "copy_entries kpd pd 0 32 ?s2"]
      copy_entries_get [OF akpd apd ne t, of 32 0 ?s2] copy_entries_get [OF akpd apd ne akpd t(2), of 32 0 ?s2]
      g2 [OF t] g2 [OF akpd t(2)] ne t(2) by auto
  have g: "get_entry s' t j = get_entry ?s3 t j" for t j unfolding s' by (simp add: get_entry_def)
  have kh: "kheap s' = h\<lparr>pmm := p\<rparr>" unfolding s' by (simp add: set_pmm_def)
  show thesis
    by (rule that [OF km al nn apd _ fr(2) _ alloc_block_inv [OF hp(1) al] _ kh])
      (use fr(1) hp pmm.alloc_avail_subset [OF hp(1) al] alloc_block_max [OF hp(1) al] g g3 in \<open>auto simp: s'\<close>)
qed

text \<open>\<open>only_frees s s'\<close>: the step from \<open>s\<close> to \<open>s'\<close> only gives frames back.\<close>

definition only_frees :: "vmm_state \<Rightarrow> vmm_state \<Rightarrow> bool" where
  "only_frees s s' \<longleftrightarrow> (\<exists>x. s' = set_pmm x s \<and> pmm_inv x \<and> max_blocks x = max_blocks (vpmm s) \<and>
     free_frames (vpmm s) \<subseteq> free_frames x)"

lemma only_freesD:
  assumes "only_frees s s'"
  shows "pmm_inv (vpmm s')" "max_blocks (vpmm s') = max_blocks (vpmm s)" "free_frames (vpmm s) \<subseteq> free_frames (vpmm s')"
    "get_entry s' t i = get_entry s t i" "address_spaces s' = address_spaces s" "kheap s' = (kheap s)\<lparr>pmm := vpmm s'\<rparr>"
  using assms by (auto simp: only_frees_def set_pmm_def get_entry_def)

lemma only_frees_refl: "pmm_inv (vpmm s) \<Longrightarrow> only_frees s s"
  unfolding only_frees_def by (rule exI [of _ "vpmm s"]) simp

lemma only_frees_trans: "only_frees s s' \<Longrightarrow> only_frees s' s'' \<Longrightarrow> only_frees s s''"
proof -
  assume "only_frees s s'" "only_frees s' s''"
  then obtain x y where x: "s' = set_pmm x s" "max_blocks x = max_blocks (vpmm s)" "free_frames (vpmm s) \<subseteq> free_frames x"
    and y: "s'' = set_pmm y s'" "pmm_inv y" "max_blocks y = max_blocks (vpmm s')" "free_frames (vpmm s') \<subseteq> free_frames y"
    by (auto simp: only_frees_def)
  have "set_pmm y (set_pmm x s) = set_pmm y s" by (simp add: set_pmm_def)
  then show ?thesis unfolding only_frees_def by (intro exI [of _ y]) (use x y in auto)
qed

lemma only_frees_block: "pmm_inv (vpmm s) \<Longrightarrow> only_frees s (set_pmm (pmm_free_block a (vpmm s)) s)"
  unfolding only_frees_def
  by (rule exI [of _ "pmm_free_block a (vpmm s)"]) (auto simp: free_block_inv free_block_frames)

text \<open>The body of the two loops, and what they free: the frame of every present entry.\<close>

definition free_entry :: "u32 \<Rightarrow> u32 \<Rightarrow> vmm_state \<Rightarrow> vmm_state" where
  "free_entry pt i s = (if get_entry s pt i AND VMM_PRESENT \<noteq> 0 \<and> get_entry s pt i AND NOT 0xFFF \<ge> 0x100000
     then set_pmm (pmm_free_block (get_entry s pt i AND NOT 0xFFF) (vpmm s)) s else s)"

definition free_table :: "u32 \<Rightarrow> u32 \<Rightarrow> vmm_state \<Rightarrow> vmm_state" where
  "free_table pd i s = (if get_entry s pd i AND VMM_PRESENT \<noteq> 0
     then (let pt = get_entry s pd i AND NOT 0xFFF; s = free_table_pages pt 0 s
           in set_pmm (pmm_free_block pt (vpmm s)) s)
     else s)"

lemma free_entry_frees: "pmm_inv (vpmm s) \<Longrightarrow> only_frees s (free_entry pt i s)"
  by (simp add: free_entry_def only_frees_refl only_frees_block)

lemma free_pages_step: "free_table_pages pt i s = (if i < 1024 then free_table_pages pt (i + 1) (free_entry pt i s) else s)"
  unfolding free_entry_def by (rule free_table_pages.simps)

lemma free_tables_step: "free_tables pd i s = (if i < 768 then free_tables pd (i + 1) (free_table pd i s) else s)"
  unfolding free_table_def by (rule free_tables.simps)

lemma free_table_pages_frees: "pmm_inv (vpmm s) \<Longrightarrow> only_frees s (free_table_pages pt i s)"
proof (induction pt i s rule: free_table_pages.induct)
  case (1 pt i s)
  have f: "only_frees s (free_entry pt i s)" using 1(2) by (rule free_entry_frees)
  show ?case
  proof (cases "i < 1024")
    case True
    have "only_frees (free_entry pt i s) (free_table_pages pt (i + 1) (free_entry pt i s))"
      using 1(1) [OF True] only_freesD(1) [OF f] unfolding free_entry_def by blast
    then show ?thesis using only_frees_trans [OF f] True by (simp add: free_pages_step [of pt i])
  qed (use 1(2) only_frees_refl in \<open>simp add: free_pages_step [of pt i]\<close>)
qed

lemma free_table_frees: "pmm_inv (vpmm s) \<Longrightarrow> only_frees s (free_table pd i s)"
  unfolding free_table_def Let_def
  by (auto intro: only_frees_refl only_frees_trans [OF free_table_pages_frees only_frees_block]
      dest: only_freesD(1) [OF free_table_pages_frees])

lemma free_tables_frees: "pmm_inv (vpmm s) \<Longrightarrow> only_frees s (free_tables pd i s)"
proof (induction pd i s rule: free_tables.induct)
  case (1 pd i s)
  have f: "only_frees s (free_table pd i s)" using 1(2) by (rule free_table_frees)
  show ?case
  proof (cases "i < 768")
    case True
    have "only_frees (free_table pd i s) (free_tables pd (i + 1) (free_table pd i s))"
      using 1(1) [OF True] only_freesD(1) [OF f] unfolding free_table_def by blast
    then show ?thesis using only_frees_trans [OF f] True by (simp add: free_tables_step [of pd i])
  qed (use 1(2) only_frees_refl in \<open>simp add: free_tables_step [of pd i]\<close>)
qed

definition freeable :: "vmm_state \<Rightarrow> u32 \<Rightarrow> bool" where
  "freeable s e \<longleftrightarrow> present e \<and> 0x100000 \<le> e AND NOT 0xFFF \<and> frame_of e < max_blocks (vpmm s)"

lemma free_table_pages_get:
  "pmm_inv (vpmm s) \<Longrightarrow> i \<le> j \<Longrightarrow> j < 1024 \<Longrightarrow> freeable s (get_entry s pt j) \<Longrightarrow>
     frame_of (get_entry s pt j) \<in> free_frames (vpmm (free_table_pages pt i s))"
proof (induction pt i s rule: free_table_pages.induct)
  case (1 pt i s)
  let ?s1 = "free_entry pt i s"
  have i: "i < 1024" using 1(3,4) by (rule order_le_less_trans)
  have f: "only_frees s ?s1" using 1(2) by (rule free_entry_frees)
  show ?case
  proof (cases "j = i")
    case True
    then have "frame_of (get_entry s pt j) \<in> free_frames (vpmm ?s1)"
      using 1(2,5) free_block_frames [OF 1(2)] by (simp add: free_entry_def freeable_def present_def frame_of_def)
    then show ?thesis
      using only_freesD(3) [OF free_table_pages_frees [OF only_freesD(1) [OF f], of pt "i + 1"]] i
      by (auto simp: free_pages_step [of pt i])
  next
    case False
    then have le: "i + 1 \<le> j" using 1(3) inc_le_iff [OF i] by (simp add: order.strict_iff_order)
    have "freeable ?s1 (get_entry ?s1 pt j)" using 1(5) only_freesD(2,4) [OF f] by (simp add: freeable_def)
    then have "frame_of (get_entry ?s1 pt j) \<in> free_frames (vpmm (free_table_pages pt (i + 1) ?s1))"
      using 1(1) [OF i] only_freesD(1) [OF f] le 1(4) unfolding free_entry_def by blast
    then show ?thesis using i by (simp add: free_pages_step [of pt i] only_freesD(4) [OF f])
  qed
qed

lemma free_tables_get:
  "pmm_inv (vpmm s) \<Longrightarrow> i \<le> d \<Longrightarrow> d < 768 \<Longrightarrow> present (get_entry s pd d) \<Longrightarrow> j < 1024 \<Longrightarrow>
     freeable s (get_entry s (table_of s pd d) j) \<Longrightarrow>
     frame_of (get_entry s (table_of s pd d) j) \<in> free_frames (vpmm (free_tables pd i s))"
proof (induction pd i s rule: free_tables.induct)
  case (1 pd i s)
  let ?s1 = "free_table pd i s"
  have i: "i < 768" using 1(3,4) by (rule order_le_less_trans)
  have f: "only_frees s ?s1" using 1(2) by (rule free_table_frees)
  show ?case
  proof (cases "d = i")
    case True
    let ?t = "free_table_pages (table_of s pd d) 0 s"
    have "frame_of (get_entry s (table_of s pd d) j) \<in> free_frames (vpmm ?t)"
      by (rule free_table_pages_get [OF 1(2) _ 1(6,7)]) simp
    moreover have "free_frames (vpmm ?t) \<subseteq> free_frames (vpmm ?s1)"
      using 1(5) True only_freesD(3) [OF only_frees_block [OF only_freesD(1) [OF free_table_pages_frees [OF 1(2)]]]]
      by (simp add: free_table_def table_of_def present_def Let_def)
    ultimately show ?thesis
      using only_freesD(3) [OF free_tables_frees [OF only_freesD(1) [OF f], of pd "i + 1"]] i
      by (auto simp: free_tables_step [of pd i])
  next
    case False
    then have le: "i + 1 \<le> d" using 1(3) inc_le_iff [OF i] by (simp add: order.strict_iff_order)
    have g: "table_of ?s1 pd d = table_of s pd d" by (simp add: table_of_def only_freesD(4) [OF f])
    have "freeable ?s1 (get_entry ?s1 (table_of ?s1 pd d) j)" "present (get_entry ?s1 pd d)"
      using 1(5,7) only_freesD(2,4) [OF f] by (simp_all add: freeable_def g)
    then have "frame_of (get_entry ?s1 (table_of ?s1 pd d) j) \<in> free_frames (vpmm (free_tables pd (i + 1) ?s1))"
      using 1(1) [OF i] only_freesD(1) [OF f] le 1(4,6) unfolding free_table_def by blast
    then show ?thesis using i by (simp add: free_tables_step [of pd i] only_freesD(4) [OF f] g)
  qed
qed

section \<open>Boot state\<close>

text \<open>Steps 2 to 5 of \<open>kernel_main\<close>: physical memory, page tables, virtual memory, heap. The arguments are the
  linker's: the kernel image, \<open>page_directory\<close>, \<open>page_tables\<close>, \<open>kernel_as_static\<close>, \<open>kernel_heap_region_static\<close>.\<close>

definition kernel_mem_setup :: "u32 \<Rightarrow> u32 \<Rightarrow> u32 \<Rightarrow> u32 \<Rightarrow> u32 \<Rightarrow> u32 \<Rightarrow> vmm_state \<Rightarrow> vmm_state" where
  "kernel_mem_setup ks ke pd pts ka kr s =
     (let s = set_pmm (kernel_pmm_setup ks ke (vpmm s)) s;
          s = paging_init pd pts s;
          s = vmm_init pd ka kr s
      in s\<lparr>kheap := heap_init (kheap s)\<rparr>)"

lemma paging_init_frame [simp]: "kheap (paging_init pd pts s) = kheap s"
proof -
  have f: "kheap (fold (\<lambda>i. set_entry t (of_nat i) (g i)) xs s) = kheap s" for t g xs s
    by (induction xs arbitrary: s) auto
  have "kheap (map_boot_table pd pts t s) = kheap s" for t s
    by (simp add: map_boot_table_def Let_def f del: upt_rec_numeral)
  then have "kheap (fold (map_boot_table pd pts) xs s) = kheap s" for xs s
    by (induction xs arbitrary: s) auto
  then show ?thesis by (simp add: paging_init_def Let_def f del: upt_rec_numeral)
qed

lemma boot_dir_ok:
  assumes b: "boot_tables pd pts" and inv: "pmm_inv (vpmm s)"
    and used: "pd div PAGE_SIZE \<notin> free_frames (vpmm s)"
      "\<And>t. t < 32 \<Longrightarrow> pts div PAGE_SIZE + of_nat t \<notin> free_frames (vpmm s)"
  shows "dir_ok (paging_init pd pts s) pd"
proof -
  let ?s = "paging_init pd pts s"
  note t = boot_tables_table [OF b, where s = s]
  show ?thesis
    unfolding dir_ok_def t(1)
  proof (intro conjI allI impI)
    show "aligned pd" "pd \<noteq> NULL" using b by (simp_all add: boot_tables_def)
    show "pmm_inv (vpmm ?s)" "pd div PAGE_SIZE \<notin> free_frames (vpmm ?s)" using inv used(1) by simp_all
    fix i j :: u32 assume i: "unat i < 32"
    note f = boot_table_frame [OF b i]
    show "table_of ?s pd i \<noteq> NULL" "table_of ?s pd i \<noteq> pd" unfolding t(2) [OF i] by (rule f(3), rule f(4))
    show "table_of ?s pd i div PAGE_SIZE \<notin> free_frames (vpmm ?s)" unfolding t(2) [OF i] f(1) using used(2) [OF i] by simp
    assume j: "unat j < 32" "table_of ?s pd i = table_of ?s pd j"
    then have "unat i = unat j" using boot_table_inj [OF b i j(1)] unfolding t(2) [OF i] t(2) [OF j(1)] by blast
    then show "i = j" by (simp add: word_unat_eq_iff)
  qed
qed

lemma vmm_init_entries [simp]:
  "get_entry (vmm_init pd ka kr s) t i = get_entry s t i" "kheap (vmm_init pd ka kr s) = kheap s"
  "pte_of (vmm_init pd ka kr s) d v = pte_of s d v"
  by (simp_all add: vmm_init_def get_entry_def pte_of_def has_table_def table_of_def)

lemma as_dir_vmm_init: "ka \<noteq> NULL \<Longrightarrow> as_dir (vmm_current_as (vmm_init pd ka kr s)) (vmm_init pd ka kr s) = pd"
  by (simp add: vmm_init_def as_dir_def)

section \<open>Translation as an interface\<close>

text \<open>What the clients of the virtual memory manager rely on: an entry per page, changed page by page.
  \<open>room\<close> says that a mapping can be made.\<close>

locale page_map =
  fixes entry :: "'s \<Rightarrow> u32 \<Rightarrow> u32"
    and map_page :: "u32 \<Rightarrow> u32 \<Rightarrow> u32 \<Rightarrow> 's \<Rightarrow> 's"
    and unmap_page :: "u32 \<Rightarrow> 's \<Rightarrow> 's"
    and inv :: "'s \<Rightarrow> bool"
    and room :: "'s \<Rightarrow> u32 \<Rightarrow> bool"
  assumes map_inv: "inv s \<Longrightarrow> inv (map_page v p f s)"
    and entry_map: "inv s \<Longrightarrow> room s v \<Longrightarrow> entry (map_page v p f s) w =
          (if w div PAGE_SIZE = v div PAGE_SIZE then (p AND NOT 0xFFF) OR (f AND 0xFFF) else entry s w)"
    and entry_no_room: "inv s \<Longrightarrow> \<not> room s v \<Longrightarrow> entry (map_page v p f s) w = entry s w"
    and entry_unmap: "inv s \<Longrightarrow> entry (unmap_page v s) w = (if w div PAGE_SIZE = v div PAGE_SIZE then 0 else entry s w)"
begin

lemma map_other: "inv s \<Longrightarrow> w div PAGE_SIZE \<noteq> v div PAGE_SIZE \<Longrightarrow> entry (map_page v p f s) w = entry s w"
  by (cases "room s v") (simp_all add: entry_map entry_no_room)

lemma unmap_map: "inv s \<Longrightarrow> entry (unmap_page v (map_page v p f s)) w = entry (unmap_page v s) w"
  by (simp add: entry_unmap map_inv map_other)

lemma remap: "inv s \<Longrightarrow> room s v \<Longrightarrow> room (map_page v p f s) v \<Longrightarrow>
    entry (map_page v p' f' (map_page v p f s)) w = entry (map_page v p' f' s) w"
  by (simp add: entry_map map_inv)

end

interpretation vm: page_map "\<lambda>s. pte_of s pd" vmm_map_page vmm_unmap_page
  "\<lambda>s. dir_ok s pd \<and> as_dir (vmm_current_as s) s = pd" "\<lambda>s v. can_map s pd v" for pd
  by unfold_locales (simp_all add: map_page unmap_page(1))

section \<open>A concrete machine\<close>

text \<open>A kernel image at 1 MB to 2 MB that holds the boot tables, just after \<open>vmm_init\<close>.\<close>

definition bare_vm :: vmm_state where
  "bare_vm = \<lparr>pmem = (\<lambda>_. 0), kernel_page_dir = 0, vmm_current_as = 0,
     address_spaces = (\<lambda>_. \<lparr>page_dir = 0, regions = 0, ref_count = 0, as_next = 0\<rparr>),
     vmm_regions = (\<lambda>_. \<lparr>rg_start = 0, rg_end = 0, rg_flags = 0, rg_next = 0\<rparr>),
     next_virt = KERNEL_HEAP_START, next_virt_pages = KERNEL_HEAP_START + 0x100000,
     cpu_cr3 = 0, cpu_cr0 = 0, kheap = small_heap (kernel_pmm_setup 0x100000 0x200000 no_pmm)\<rparr>"

definition boot_vm :: vmm_state where
  "boot_vm = vmm_init 0x150000 0x190000 0x190010 (paging_init 0x150000 0x160000 bare_vm)"

lemma boot_vm_tables: "boot_tables 0x150000 0x160000"
proof -
  have "unat (0x160000 + of_nat t * PAGE_SIZE :: u32) = 0x160000 + t * 4096" if "t < 32" for t
    using that by (simp add: unat_word_ariths unat_of_nat)
  then have "unat (0x150000 :: u32) \<noteq> unat (boot_table 0x160000 t)" if "t < 32" for t
    using that by simp
  then have "(0x150000 :: u32) \<noteq> boot_table 0x160000 t" if "t < 32" for t
    using that by metis
  then show ?thesis by (simp add: boot_tables_def aligned_def)
qed

lemma bare_vm_pmm:
  "pmm_inv (vpmm bare_vm)" "max_blocks (vpmm bare_vm) = 32768" "free_frames (vpmm bare_vm) = {512..<32768}"
proof -
  let ?p = "kernel_pmm_setup 0x100000 0x200000 no_pmm"
  have v: "vpmm bare_vm = ?p" by (simp add: bare_vm_def small_heap_def)
  have a: "align_down 0x100000 = 0x100000" "align_up 0x200000 = 0x200000"
    by (simp_all add: align_down_def align_up_def)
  have "(+) (256 :: u32) ` {0..<256} = {256..<512}" using word_plus_image [of 256 512] by simp
  then have "free_frames ?p = {256..<32768} - {256..<512}" using kernel_pmm_setup_spec(3) [of "0x100000" "0x200000" no_pmm] by (simp add: a)
  also have "\<dots> = {512..<32768}" by auto
  finally show "free_frames (vpmm bare_vm) = {512..<32768}" by (simp add: v)
  show "pmm_inv (vpmm bare_vm)" "max_blocks (vpmm bare_vm) = 32768" by (simp_all add: v kernel_pmm_setup_spec)
qed

lemma boot_vm_pmm: "kheap boot_vm = kheap bare_vm"
  by (simp add: boot_vm_def)

lemma boot_vm_ok:
  "dir_ok boot_vm 0x150000" "as_dir (vmm_current_as boot_vm) boot_vm = 0x150000" "kernel_page_dir boot_vm = 0x150000"
  "roomy boot_vm" "live_inv (kheap boot_vm) {}"
proof -
  have "dir_ok (paging_init 0x150000 0x160000 bare_vm) 0x150000"
  proof (rule boot_dir_ok [OF boot_vm_tables bare_vm_pmm(1)])
    fix t :: nat assume "t < 32"
    then have "unat (352 + of_nat t :: u32) < 512" by (simp add: unat_word_ariths unat_of_nat)
    then show "0x160000 div PAGE_SIZE + of_nat t \<notin> free_frames (vpmm bare_vm)"
      by (simp add: bare_vm_pmm(3) word_le_nat_alt)
  qed (simp add: bare_vm_pmm(3))
  then show "dir_ok boot_vm 0x150000"
    by (rule dir_ok_cong) (simp_all add: boot_vm_def bare_vm_pmm(1))
  show "as_dir (vmm_current_as boot_vm) boot_vm = 0x150000" unfolding boot_vm_def by (rule as_dir_vmm_init) simp
  show "kernel_page_dir boot_vm = 0x150000" by (simp add: boot_vm_def vmm_init_def)
  have "card {512, 513 :: u32} \<le> card (free_frames (vpmm boot_vm))"
    by (rule card_mono) (auto simp: boot_vm_pmm bare_vm_pmm(3))
  moreover have "256 \<le> b" if "512 \<le> b" for b :: u32 using that by (rule order_trans [rotated]) simp
  ultimately show "roomy boot_vm" by (auto simp: roomy_def boot_vm_pmm bare_vm_pmm(3))
  have "heap_inv (kheap bare_vm) [] {}"
    using bare_vm_pmm(1) by (simp add: heap_inv_def heap_frames_def tiles_def bare_vm_def small_heap_def)
  then show "live_inv (kheap boot_vm) {}" by (auto simp: live_inv_def boot_vm_pmm)
qed

lemma boot_vm_regs: "cpu_cr3 boot_vm = 0x150000" "next_virt boot_vm = KERNEL_HEAP_START"
proof -
  have f: "next_virt (fold (\<lambda>i. set_entry t (of_nat i) (g i)) xs s) = next_virt s" for t g xs s
    by (induction xs arbitrary: s) auto
  have "next_virt (map_boot_table pd pts t s) = next_virt s" for pd pts t s
    by (simp add: map_boot_table_def Let_def f del: upt_rec_numeral)
  then have "next_virt (fold (map_boot_table pd pts) xs s) = next_virt s" for pd pts xs s
    by (induction xs arbitrary: s) auto
  then show "next_virt boot_vm = KERNEL_HEAP_START"
    by (simp add: boot_vm_def vmm_init_def paging_init_def Let_def f bare_vm_def del: upt_rec_numeral)
  show "cpu_cr3 boot_vm = 0x150000" by (simp add: boot_vm_def vmm_init_def paging_init_def Let_def del: upt_rec_numeral)
qed

lemma boot_vm_pte: "pte_of boot_vm 0x150000 v = (if v < MEMORY_LIMIT then (v AND NOT 0xFFF) OR (3 AND 0xFFF) else 0)"
  unfolding boot_vm_def vmm_init_entries by (rule boot_pte [OF boot_vm_tables])

lemma kmalloc_empty_heap:
  assumes n: "n \<noteq> 0" "total_size n < PAGE_SIZE div 2" and fit: "n \<le> 4080" and p: "pmm_inv p" "free_frames p \<noteq> {}" "\<forall>b \<in> free_frames p. 256 \<le> b"
  obtains page h where "kmalloc n (small_heap p) = Some (page + HEADER, h)" "page + HEADER \<noteq> NULL"
    "pmm_inv (pmm h)" "free_frames (pmm h) = free_frames p - {page div PAGE_SIZE}"
proof -
  obtain page p' where al: "pmm_alloc_block p = (page, p')" by (cases "pmm_alloc_block p")
  note f = alloc_high [OF p al]
  let ?h = "add_page page ((small_heap p)\<lparr>pmm := p'\<rparr>)"
  have ts: "\<not> total_size n \<ge> PAGE_SIZE div 2" using n(2) by simp
  have g: "heap_grow (small_heap p) = (True, ?h)" using al f(1) by (simp add: heap_grow_def small_heap_def)
  have "find_block (blocks ?h) n NULL (free_list ?h) = Some (NULL, page)"
    using f(1) by (subst find_block.simps) (simp add: add_page_def small_heap_def fit)
  then have "kmalloc n ?h = Some (page + HEADER, take_block n NULL page ?h)"
    using ts n(1) f(1) by (subst kmalloc.simps) simp
  moreover have "kmalloc n (small_heap p) = kmalloc n ?h"
  proof -
    have "find_block (blocks (small_heap p)) n NULL (free_list (small_heap p)) = Some (NULL, NULL)"
      by (subst find_block.simps) (simp add: small_heap_def)
    then show ?thesis using ts n(1) g by (subst kmalloc.simps) simp
  qed
  moreover have "page + HEADER \<noteq> NULL"
    using entry_frame [of page 4] f(1,3) aligned_frame_eq [of page 0] by (auto simp: aligned_def)
  ultimately show thesis using that [of page "take_block n NULL page ?h"] f(5,6)
    by (simp add: take_block_def Let_def add_page_def)
qed

lemma boot_vm_create: "\<exists>as s. vmm_create_as boot_vm = Some (as, s) \<and> as \<noteq> NULL"
proof -
  let ?p = "vpmm bare_vm"
  have h: "kheap boot_vm = small_heap ?p" by (simp add: boot_vm_pmm bare_vm_def small_heap_def)
  have ne: "free_frames ?p \<noteq> {}" "\<forall>b \<in> free_frames ?p. 256 \<le> b"
    using boot_vm_ok(4) by (auto simp: roomy_def boot_vm_pmm)
  have n: "(16 :: u32) \<noteq> 0" "total_size 16 < PAGE_SIZE div 2" "(16 :: u32) \<le> 4080"
    by (simp_all add: total_size_def align_size_def)
  obtain page h where k: "kmalloc 16 (small_heap ?p) = Some (page + HEADER, h)" "page + HEADER \<noteq> NULL"
    "pmm_inv (pmm h)" "free_frames (pmm h) = free_frames ?p - {page div PAGE_SIZE}"
    by (rule kmalloc_empty_heap [OF n bare_vm_pmm(1) ne])
  obtain pd p where al: "pmm_alloc_block (pmm h) = (pd, p)" by (cases "pmm_alloc_block (pmm h)")
  have "(512 :: u32) \<in> free_frames ?p" "(513 :: u32) \<in> free_frames ?p" by (simp_all add: bare_vm_pmm(3))
  moreover have "(512 :: u32) \<noteq> 513" by simp
  ultimately have "free_frames (pmm h) \<noteq> {}" unfolding k(4) by (metis Diff_eq_empty_iff singletonD subsetD)
  moreover have "\<forall>b \<in> free_frames (pmm h). 256 \<le> b" using ne(2) k(4) by auto
  ultimately have "pd \<noteq> NULL" using alloc_high(1) [OF k(3) _ _ al] by blast
  then show ?thesis using k(1,2) al by (simp add: vmm_create_as_def h Let_def)
qed

section \<open>Properties\<close>

text \<open>C10: mapping and unmapping. The two-level tables behave as a map from pages to entries: where a
  page table exists or a frame can be had for it, \<open>vmm_map_page\<close> changes the translation and the
  flags of exactly the addresses of its page, and otherwise nothing; \<open>vmm_unmap_page\<close> removes exactly the
  addresses of its page.\<close>

theorem vmm_tables_refine_map:
  assumes "dir_ok s pd" "as_dir (vmm_current_as s) s = pd"
  shows "dir_ok (vmm_map_page v phys flags s) pd \<and>
    vmm_virt_to_phys w (vmm_map_page v phys flags s) =
      (if can_map s pd v \<and> w div PAGE_SIZE = v div PAGE_SIZE
       then (if present flags then (phys AND NOT 0xFFF) OR (w AND 0xFFF) else 0)
       else vmm_virt_to_phys w s) \<and>
    vmm_get_flags w (vmm_map_page v phys flags s) =
      (if can_map s pd v \<and> w div PAGE_SIZE = v div PAGE_SIZE then flags AND 0xFFF else vmm_get_flags w s) \<and>
    vmm_virt_to_phys w (vmm_unmap_page v s) =
      (if w div PAGE_SIZE = v div PAGE_SIZE then 0 else vmm_virt_to_phys w s)"
proof -
  note pd = dir_okD(2) [OF assms(1)] and m = map_page [OF assms]
  have c: "as_dir (vmm_current_as (vmm_map_page v phys flags s)) (vmm_map_page v phys flags s) = pd"
    "as_dir (vmm_current_as (vmm_unmap_page v s)) (vmm_unmap_page v s) = pd"
    using assms(2) by simp_all
  show ?thesis
    unfolding queries [OF c(1) pd] queries [OF assms(2) pd] queries [OF c(2) pd] m(2) unmap_page(1) [OF assms]
    using m(1) translate_entry(2) [of phys flags w] entry_fields(2) [of phys flags] by simp
qed

theorem vmm_tables_refine_map_witness:
  "vmm_virt_to_phys 0x2123 (vmm_map_page 0x2000 0x300000 3 boot_vm) = 0x300123 \<and>
   vmm_virt_to_phys 0x2123 (vmm_unmap_page 0x2000 boot_vm) = 0"
proof -
  have "has_table boot_vm 0x150000 (pd_index 0x2000)"
  proof (rule ccontr)
    assume "\<not> ?thesis"
    then have "pte_of boot_vm 0x150000 0x2000 = 0" by (simp add: pte_of_def)
    then show False by (simp add: boot_vm_pte)
  qed
  then have "can_map boot_vm 0x150000 0x2000" by (simp add: can_map_def)
  then show ?thesis
    using vmm_tables_refine_map [OF boot_vm_ok(1,2), of "0x2000" "0x300000" 3 "0x2123"] by (simp add: present_def)
qed

text \<open>C11: a virtual page from allocation to release. With two frames to spare, \<open>vmm_alloc_page\<close> returns the next
  page of the heap area, mapped to a frame that was free and is now cleared; no other page
  changes. \<open>vmm_free_page\<close> unmaps it again, gives the frame back and leaves the other pages alone.\<close>

theorem vmm_alloc_free_roundtrip:
  assumes "dir_ok s pd" "as_dir (vmm_current_as s) s = pd" "cpu_cr3 s = pd"
    and "present flags" "aligned (next_virt s)" "roomy s"
  shows "\<exists>s'. vmm_alloc_page flags s = Some (next_virt s, s') \<and>
    (let f = vmm_virt_to_phys (next_virt s) s' div PAGE_SIZE; s'' = vmm_free_page (next_virt s) s' in
      f \<in> free_frames (vpmm s) \<and> f \<notin> free_frames (vpmm s') \<and> cleared s' f \<and>
      (\<forall>w. w div PAGE_SIZE \<noteq> next_virt s div PAGE_SIZE \<longrightarrow>
         vmm_virt_to_phys w s' = vmm_virt_to_phys w s \<and> vmm_virt_to_phys w s'' = vmm_virt_to_phys w s) \<and>
      dir_ok s'' pd \<and> \<not> vmm_is_mapped (next_virt s) s'' \<and> f \<in> free_frames (vpmm s''))"
proof -
  obtain s' phys where s': "vmm_alloc_page flags s = Some (next_virt s, s')" "dir_ok s' pd"
    "as_dir (vmm_current_as s') s' = pd" "aligned phys"
    "\<And>w. pte_of s' pd w = (if w div PAGE_SIZE = next_virt s div PAGE_SIZE then phys OR (flags AND 0xFFF) else pte_of s pd w)"
    "cleared s' (phys div PAGE_SIZE)" "phys div PAGE_SIZE \<in> free_frames (vpmm s)"
    "free_frames (vpmm s') \<subseteq> free_frames (vpmm s) - {phys div PAGE_SIZE}" "0x100000 \<le> phys"
    "phys div PAGE_SIZE \<notin> dir_frames s' pd" "max_blocks (vpmm s') = max_blocks (vpmm s)"
    using alloc_page [OF assms] by blast
  let ?s'' = "vmm_free_page (next_virt s) s'"
  note pd = dir_okD(2) [OF assms(1)] and fe = fresh_entry [OF s'(4) assms(4)]
  have c: "as_dir (vmm_current_as ?s'') ?s'' = pd" using s'(3) by (simp add: vmm_free_page_def)
  have v: "vmm_virt_to_phys (next_virt s) s' = phys"
    unfolding queries [OF s'(3) pd] s'(5) translate_aligned [OF assms(5)] using fe by simp
  have "dir_ok ?s'' pd" unfolding vmm_free_page_def
    by (rule unmap_keeps_dir [OF s'(2,3)]) (use fe s'(5,10) in simp)
  moreover have "\<not> vmm_is_mapped (next_virt s) ?s''"
    unfolding queries [OF c pd] unfolding vmm_free_page_def unmap_page(1) [OF s'(2,3)] by simp
  moreover have "phys div PAGE_SIZE \<in> free_frames (vpmm ?s'')"
    unfolding vmm_free_page_def unmap_page(2) [OF s'(2,3)]
    using fe s'(5,9,11) frame_bound [OF s'(7)] by simp
  moreover have "vmm_virt_to_phys w s' = vmm_virt_to_phys w s \<and> vmm_virt_to_phys w ?s'' = vmm_virt_to_phys w s"
    if "w div PAGE_SIZE \<noteq> next_virt s div PAGE_SIZE" for w
    unfolding queries [OF c pd] queries [OF s'(3) pd] queries [OF assms(2) pd]
    unfolding vmm_free_page_def unmap_page(1) [OF s'(2,3)] s'(5) using that by simp
  ultimately show ?thesis using s'(1,6-8) unfolding Let_def by (auto simp: v)
qed

theorem vmm_alloc_free_roundtrip_witness:
  "\<exists>s'. vmm_alloc_page 3 boot_vm = Some (0xC0400000, s') \<and> \<not> vmm_is_mapped 0xC0400000 (vmm_free_page 0xC0400000 s')"
  using vmm_alloc_free_roundtrip [OF boot_vm_ok(1,2) boot_vm_regs(1), of 3] boot_vm_ok(4)
  by (auto simp: boot_vm_regs present_def aligned_def Let_def)

text \<open>C12: the page fault handler. A fault on a page that is not present in the kernel heap area is
  repaired when frames are available: the page is mapped writable to a frame that was free, cleared,
  and no other page changes. Every other fault halts the system with nothing changed, and so does a
  fault in the heap area when memory is exhausted.\<close>

theorem page_fault_repairs_heap:
  assumes "dir_ok s pd" "as_dir (vmm_current_as s) s = pd" "cpu_cr3 s = pd"
  shows "(stack 12 AND 1 = 0 \<and> KERNEL_HEAP_START \<le> a \<and> a < KERNEL_HEAP_END \<and> roomy s \<longrightarrow>
      (\<exists>s'. page_fault_handler stack a s = Resumed s' \<and>
        (let f = vmm_virt_to_phys (a AND NOT 0xFFF) s' div PAGE_SIZE in
         f \<in> free_frames (vpmm s) \<and> f \<notin> free_frames (vpmm s') \<and> cleared s' f) \<and>
        vmm_get_flags a s' = VMM_PRESENT OR VMM_WRITE \<and>
        (\<forall>w. w div PAGE_SIZE \<noteq> a div PAGE_SIZE \<longrightarrow> vmm_virt_to_phys w s' = vmm_virt_to_phys w s))) \<and>
    (stack 12 AND 1 \<noteq> 0 \<or> a < KERNEL_HEAP_START \<or> KERNEL_HEAP_END \<le> a \<or> free_frames (vpmm s) = {} \<longrightarrow>
      page_fault_handler stack a s = Halted s)"
proof (intro conjI impI)
  let ?v = "a AND NOT 0xFFF" and ?fl = "VMM_PRESENT OR VMM_WRITE"
  assume h: "stack 12 AND 1 = 0 \<and> KERNEL_HEAP_START \<le> a \<and> a < KERNEL_HEAP_END \<and> roomy s"
  obtain phys p where al: "pmm_alloc_block (vpmm s) = (phys, p)" by (cases "pmm_alloc_block (vpmm s)")
  have fl: "present ?fl" by (simp add: present_def)
  obtain s' where s': "memset_page ?v (vmm_map_page ?v phys ?fl (set_pmm p s)) = Some s'"
    "dir_ok s' pd" "as_dir (vmm_current_as s') s' = pd" "phys \<noteq> NULL" "aligned phys"
    "\<And>w. pte_of s' pd w = (if w div PAGE_SIZE = ?v div PAGE_SIZE then phys OR (?fl AND 0xFFF) else pte_of s pd w)"
    "cleared s' (phys div PAGE_SIZE)" "phys div PAGE_SIZE \<in> free_frames (vpmm s)"
    "free_frames (vpmm s') \<subseteq> free_frames (vpmm s) - {phys div PAGE_SIZE}"
    using map_fresh_page [OF assms fl aligned_and conjunct2 [OF conjunct2 [OF conjunct2 [OF h]]] al] by blast
  note pd = dir_okD(2) [OF assms(1)] and fe = fresh_entry [OF s'(5) fl]
  have vp: "?v div PAGE_SIZE = a div PAGE_SIZE" by (simp only: and_not_page_mask page_round_div)
  have r: "page_fault_handler stack a s = Resumed s'"
    using h al s'(1,4) by (simp add: page_fault_handler_def Let_def)
  have v: "vmm_virt_to_phys ?v s' = phys"
    unfolding queries [OF s'(3) pd] s'(6) translate_aligned [OF aligned_and] using fe by simp
  have "vmm_get_flags a s' = ?fl"
    unfolding queries [OF s'(3) pd] s'(6) vp using entry_fields(2) [of phys ?fl] s'(5) by (simp add: aligned_bits)
  moreover have "vmm_virt_to_phys w s' = vmm_virt_to_phys w s" if "w div PAGE_SIZE \<noteq> a div PAGE_SIZE" for w
    unfolding queries [OF s'(3) pd] queries [OF assms(2) pd] s'(6) vp using that by simp
  ultimately show "\<exists>s'. page_fault_handler stack a s = Resumed s' \<and>
        (let f = vmm_virt_to_phys ?v s' div PAGE_SIZE in
         f \<in> free_frames (vpmm s) \<and> f \<notin> free_frames (vpmm s') \<and> cleared s' f) \<and>
        vmm_get_flags a s' = ?fl \<and>
        (\<forall>w. w div PAGE_SIZE \<noteq> a div PAGE_SIZE \<longrightarrow> vmm_virt_to_phys w s' = vmm_virt_to_phys w s)"
    using r v s'(7-9) unfolding Let_def by (auto simp: v)
next
  assume "stack 12 AND 1 \<noteq> 0 \<or> a < KERNEL_HEAP_START \<or> KERNEL_HEAP_END \<le> a \<or> free_frames (vpmm s) = {}"
  then show "page_fault_handler stack a s = Halted s"
    using pmm.alloc_full [OF dir_okD(3) [OF assms(1)]] by (auto simp: page_fault_handler_def Let_def)
qed

theorem page_fault_repairs_heap_witness:
  "(\<exists>s'. page_fault_handler (\<lambda>_. 2) 0xC0500004 boot_vm = Resumed s' \<and> vmm_get_flags 0xC0500004 s' = 3) \<and>
   page_fault_handler (\<lambda>_. 2) 0x20000000 boot_vm = Halted boot_vm"
  using page_fault_repairs_heap [OF boot_vm_ok(1,2) boot_vm_regs(1), of "\<lambda>_. 2" "0xC0500004"]
    page_fault_repairs_heap [OF boot_vm_ok(1,2) boot_vm_regs(1), of "\<lambda>_. 2" "0x20000000"] boot_vm_ok(4) by auto

text \<open>The boot mapping. After \<open>paging_init\<close> and \<open>vmm_init\<close> the first 128 MB are mapped to themselves, writable
  and for the kernel only, and nothing else is mapped; the directory is well formed when the frames
  of the tables are not free.\<close>

lemma boot_identity_map:
  assumes "boot_tables pd pts" "ka \<noteq> NULL"
  shows "vmm_virt_to_phys v (vmm_init pd ka kr (paging_init pd pts s)) = (if v < MEMORY_LIMIT then v else 0) \<and>
    vmm_get_flags v (vmm_init pd ka kr (paging_init pd pts s)) = (if v < MEMORY_LIMIT then VMM_PRESENT OR VMM_WRITE else 0)"
proof -
  have pd: "pd \<noteq> NULL" using assms(1) by (simp add: boot_tables_def)
  have v: "(v AND NOT 0xFFF) OR (v AND 0xFFF) = v"
    unfolding page_mask by (rule bit_word_eqI) (auto simp: bit_simps)
  show ?thesis
    unfolding queries [OF as_dir_vmm_init [OF assms(2)] pd] vmm_init_entries boot_pte [OF assms(1)]
    using translate_entry(2) [of v 3 v] entry_fields(2) [of v 3] v by (simp add: present_def)
qed

text \<open>A new address space. When \<open>vmm_create_as\<close> succeeds, the new directory translates the first 128 MB
  and the kernel area exactly as the kernel's directory does and has nothing else mapped, no region, and a
  frame that was free; no entry of another directory or table changes.\<close>

lemma create_as_shares_kernel:
  assumes "dir_ok s kpd" "kernel_page_dir s = kpd" "vmm_create_as s = Some (as, s')" "as \<noteq> NULL"
  shows "pte_of s' (page_dir (address_spaces s' as)) v =
      (if pd_index v < 32 \<or> 768 \<le> pd_index v then pte_of s kpd v else 0) \<and>
    pte_of s' kpd v = pte_of s kpd v \<and> regions (address_spaces s' as) = NULL \<and>
    page_dir (address_spaces s' as) div PAGE_SIZE \<in> free_frames (vpmm s) - free_frames (vpmm s')"
proof -
  obtain h pd p where c: "pd \<noteq> NULL" "aligned pd" "pd div PAGE_SIZE \<in> free_frames (vpmm s)" "pd div PAGE_SIZE \<notin> free_frames p"
    "kheap s' = h\<lparr>pmm := p\<rparr>" "page_dir (address_spaces s' as) = pd" "regions (address_spaces s' as) = NULL"
    "\<And>t j. aligned t \<Longrightarrow> j < 1024 \<Longrightarrow> get_entry s' t j =
      (if t = pd then (if (j < 32 \<or> 768 \<le> j) \<and> present (get_entry s kpd j) then get_entry s kpd j else 0)
       else get_entry s t j)"
    by (rule create_as_cases [OF assms]) blast
  have nk: "kpd \<noteq> pd" using c(3) dir_okD(4) [OF assms(1)] by auto
  have nt: "table_of s kpd i \<noteq> pd" if "has_table s kpd i" for i using c(3) dir_okD(7) [OF assms(1) that] by auto
  have k: "get_entry s' kpd i = get_entry s kpd i" if "i < 1024" for i
    using c(8) [OF dir_okD(1) [OF assms(1)] that] nk by simp
  have t: "get_entry s' (table_of s kpd i) (pt_index v) = get_entry s (table_of s kpd i) (pt_index v)"
    if "has_table s kpd i" for i using c(8) [OF aligned_table index_bound(2)] nt [OF that] by simp
  have "pte_of s' kpd v = pte_of s kpd v"
    using k [OF index_bound(1)] t by (simp add: pte_of_def has_table_def table_of_def)
  moreover have "pte_of s' pd v = (if pd_index v < 32 \<or> 768 \<le> pd_index v then pte_of s kpd v else 0)"
    using c(8) [OF c(2) index_bound(1), of v] t by (simp add: pte_of_def has_table_def table_of_def)
  ultimately show ?thesis using c by simp
qed

text \<open>C13: destroying an address space. \<open>vmm_destroy_as\<close> of a directory just made by \<open>vmm_create_as\<close> returns, and it has
  freed every frame from 1 MB up that the kernel maps in the first 128 MB: the frames belong to the
  kernel, whose identity mapping the new directory only shares.\<close>

theorem destroy_as_frees_kernel_frames:
  assumes "dir_ok s kpd" "kernel_page_dir s = kpd" "live_inv (kheap s) L"
    and "vmm_create_as s = Some (as, s')" "as \<noteq> NULL"
    and "pd_index v < 32" "freeable s (pte_of s kpd v)"
  shows "\<exists>s''. vmm_destroy_as as s' = Some s'' \<and> frame_of (pte_of s kpd v) \<in> free_frames (vpmm s'')"
proof -
  obtain h pd p where c: "kmalloc 16 (kheap s) = Some (as, h)" "aligned pd" "pd div PAGE_SIZE \<in> free_frames (vpmm s)"
    "pmm_inv p" "max_blocks p = max_blocks (vpmm s)" "kheap s' = h\<lparr>pmm := p\<rparr>"
    "page_dir (address_spaces s' as) = pd" "regions (address_spaces s' as) = NULL"
    "\<And>t j. aligned t \<Longrightarrow> j < 1024 \<Longrightarrow> get_entry s' t j =
      (if t = pd then (if (j < 32 \<or> 768 \<le> j) \<and> present (get_entry s kpd j) then get_entry s kpd j else 0)
       else get_entry s t j)"
    by (rule create_as_cases [OF assms(1,2,4,5)]) blast
  let ?d = "pd_index v"
  have ht: "has_table s kpd ?d" using assms(7) by (auto simp: freeable_def pte_of_def split: if_splits)
  have nt: "table_of s kpd ?d \<noteq> pd" using c(3) dir_okD(7) [OF assms(1) ht] by auto
  have pde: "get_entry s' pd ?d = get_entry s kpd ?d" "present (get_entry s' pd ?d)"
    using c(9) [OF c(2) index_bound(1), of v] ht assms(6) by (simp_all add: has_table_def)
  have tab: "table_of s' pd ?d = table_of s kpd ?d" by (simp add: table_of_def pde(1))
  have pte: "get_entry s' (table_of s' pd ?d) (pt_index v) = pte_of s kpd v"
    using c(9) [OF aligned_table index_bound(2), of s kpd ?d v] nt ht by (simp add: tab pte_of_def)
  have vp: "vpmm s' = p" by (simp add: c(6))
  let ?s1 = "free_tables pd 0 s'"
  have f1: "only_frees s' ?s1" by (rule free_tables_frees) (simp add: vp c(4))
  have "?d < 768" using assms(6) by (rule order.strict_trans) simp
  then have fr: "frame_of (pte_of s kpd v) \<in> free_frames (vpmm ?s1)"
    using free_tables_get [of s' 0 ?d pd "pt_index v"] assms(7) c(4,5) pde(2) by (simp add: vp pte freeable_def)
  let ?s2 = "set_pmm (pmm_free_block pd (vpmm ?s1)) ?s1"
  have f2: "only_frees s' ?s2" by (rule only_frees_trans [OF f1 only_frees_block [OF only_freesD(1) [OF f1]]])
  have fr2: "frame_of (pte_of s kpd v) \<in> free_frames (vpmm ?s2)"
    using only_freesD(3) [OF only_frees_block [OF only_freesD(1) [OF f1]]] fr by blast
  have small: "small_request 16" by (simp add: small_request_def total_size_def align_size_def)
  have "live_inv h (insert as L)" using kmalloc_live [OF assms(3) small] c(1) assms(5) by auto
  then obtain h' where kf: "kfree as (h\<lparr>pmm := vpmm ?s2\<rparr>) = Some (h'\<lparr>pmm := vpmm ?s2\<rparr>)"
    using kfree_live_pmm [of h "insert as L" as "vpmm ?s2"] by auto
  have kh: "kheap ?s2 = h\<lparr>pmm := vpmm ?s2\<rparr>" using only_freesD(6) [OF f2] by (simp add: c(6))
  have as: "address_spaces ?s1 = address_spaces s'" using only_freesD(5) [OF f1] .
  have "vmm_destroy_as as s' = Some (?s2\<lparr>kheap := h'\<lparr>pmm := vpmm ?s2\<rparr>\<rparr>)"
    using assms(5) c(7,8) kf kh as by (simp add: vmm_destroy_as_def Let_def free_regions.simps)
  then show ?thesis using fr2 by auto
qed

theorem destroy_as_frees_kernel_frames_witness:
  "\<exists>as s s'. vmm_create_as boot_vm = Some (as, s) \<and> vmm_destroy_as as s = Some s' \<and>
     0x150 \<notin> free_frames (vpmm boot_vm) \<and> 0x150 \<in> free_frames (vpmm s')"
proof -
  obtain as s where c: "vmm_create_as boot_vm = Some (as, s)" "as \<noteq> NULL" using boot_vm_create by blast
  have f: "freeable boot_vm (pte_of boot_vm 0x150000 0x150000)" "frame_of (pte_of boot_vm 0x150000 0x150000) = 0x150"
    by (simp_all add: freeable_def frame_of_def boot_vm_pte present_def boot_vm_pmm bare_vm_pmm)
  have "pd_index 0x150000 < 32" by (simp add: pd_index_def)
  from destroy_as_frees_kernel_frames [OF boot_vm_ok(1,3,5) c this f(1)] f(2) c(1)
  show ?thesis by (auto simp: boot_vm_pmm bare_vm_pmm(3))
qed

end
