(* ===== verification/ByteMem.thy ===== *)
theory ByteMem
  imports CString
begin

text \<open>
  Little-endian 16 and 32-bit values in a byte memory, for the structures that the drivers and file systems
  overlay on buffers.
\<close>

definition ld16 :: "mem \<Rightarrow> u32 \<Rightarrow> u16" where
  "ld16 m a = ucast (m a) OR push_bit 8 (ucast (m (a + 1)))"

definition ld32 :: "mem \<Rightarrow> u32 \<Rightarrow> u32" where
  "ld32 m a = ucast (m a) OR push_bit 8 (ucast (m (a + 1))) OR push_bit 16 (ucast (m (a + 2))) OR push_bit 24 (ucast (m (a + 3)))"

definition st16 :: "u32 \<Rightarrow> u16 \<Rightarrow> mem \<Rightarrow> mem" where
  "st16 a v m = m(a := ucast v, a + 1 := ucast (drop_bit 8 v))"

definition st32 :: "u32 \<Rightarrow> u32 \<Rightarrow> mem \<Rightarrow> mem" where
  "st32 a v m = m(a := ucast v, a + 1 := ucast (drop_bit 8 v), a + 2 := ucast (drop_bit 16 v), a + 3 := ucast (drop_bit 24 v))"

text \<open>\<open>n\<close> bytes at an address.\<close>

definition bytes_at :: "mem \<Rightarrow> u32 \<Rightarrow> nat \<Rightarrow> u8 list" where
  "bytes_at m a n = map (\<lambda>i. m (a + of_nat i)) [0..<n]"

lemma length_bytes_at [simp]: "length (bytes_at m a n) = n"
  by (simp add: bytes_at_def)

lemma nth_bytes_at [simp]: "i < n \<Longrightarrow> bytes_at m a n ! i = m (a + of_nat i)"
  by (simp add: bytes_at_def)

lemma word_halves: "ucast (ucast v :: u8) OR push_bit 8 (ucast (ucast (drop_bit 8 v) :: u8)) = (v :: u16)"
  by (rule bit_word_eqI) (auto simp: bit_simps)

lemma half_bytes:
  "ucast (ucast (x :: u8) OR push_bit 8 (ucast (y :: u8)) :: u16) = x"
  "ucast (drop_bit 8 (ucast (x :: u8) OR push_bit 8 (ucast (y :: u8)) :: u16)) = y"
  by (rule bit_word_eqI; auto simp: bit_simps dest: bit_imp_le_length)+

lemma ld16_st16: "ld16 (st16 a v m) a = v"
  by (simp add: ld16_def st16_def word_halves)

lemma st16_ld16: "st16 a (ld16 m' b) m = m(a := m' b, a + 1 := m' (b + 1))"
  by (simp only: st16_def ld16_def half_bytes)

lemma st16_other: "x \<noteq> a \<Longrightarrow> x \<noteq> a + 1 \<Longrightarrow> st16 a v m x = m x"
  by (simp add: st16_def)

lemma ld16_cong: "m a = m' a \<Longrightarrow> m (a + 1) = m' (a + 1) \<Longrightarrow> ld16 m a = ld16 m' a"
  by (simp add: ld16_def)

text \<open>Memory with a list of bytes written at an address.\<close>

definition put_bytes :: "u32 \<Rightarrow> u8 list \<Rightarrow> mem \<Rightarrow> mem" where
  "put_bytes a bs m = (\<lambda>x. if unat (x - a) < length bs then bs ! unat (x - a) else m x)"

lemma put_bytes_Nil [simp]: "put_bytes a [] m = m"
  by (simp add: put_bytes_def)

lemma put_bytes_Cons:
  assumes "length bs < 4294967296"
  shows "put_bytes a (b # bs) m = put_bytes (a + 1) bs (m(a := b))"
proof
  fix x
  show "put_bytes a (b # bs) m x = put_bytes (a + 1) bs (m(a := b)) x"
  proof (cases "x = a")
    case True
    have "unat (- 1 :: u32) = 4294967295" by (simp add: unsigned_minus_1_eq_mask mask_eq_exp_minus_1)
    then show ?thesis using True assms by (simp add: put_bytes_def)
  next
    case False
    then have "x - a \<noteq> 0" by simp
    then have "unat (x - (a + 1)) = unat (x - a) - 1" "unat (x - a) > 0"
      by (simp_all add: unat_pred unat_gt_0 diff_diff_eq [symmetric])
    then show ?thesis using False by (auto simp: put_bytes_def nth_Cons')
  qed
qed

lemma put_bytes_other: "unat (x - a) \<ge> length bs \<Longrightarrow> put_bytes a bs m x = m x"
  by (simp add: put_bytes_def)

lemma put_bytes_at [simp]: "i < length bs \<Longrightarrow> length bs \<le> 4294967296 \<Longrightarrow> put_bytes a bs m (a + of_nat i) = bs ! i"
  by (simp add: put_bytes_def unat_of_nat)

lemma bytes_at_put_bytes: "length bs = n \<Longrightarrow> n \<le> 4294967296 \<Longrightarrow> bytes_at (put_bytes a bs m) a n = bs"
  by (rule nth_equalityI) auto

text \<open>Two ranges of addresses with no byte in common.\<close>

definition separate :: "u32 \<Rightarrow> nat \<Rightarrow> u32 \<Rightarrow> nat \<Rightarrow> bool" where
  "separate a n b k \<longleftrightarrow> (\<forall>x. unat (x - a) < n \<longrightarrow> k \<le> unat (x - b))"

lemma separate_sym: "separate a n b k \<Longrightarrow> separate b k a n"
  unfolding separate_def by (meson not_le)

lemma separateD: "separate a n b k \<Longrightarrow> unat (x - a) < n \<Longrightarrow> k \<le> unat (x - b)"
  by (simp add: separate_def)

lemma bytes_at_other:
  assumes "separate a n b (length bs)" "n \<le> 4294967296"
  shows "bytes_at (put_bytes b bs m) a n = bytes_at m a n"
proof (rule nth_equalityI)
  fix i assume "i < length (bytes_at (put_bytes b bs m) a n)"
  then have i: "i < n" by simp
  then have "unat (a + of_nat i - a) < n" using assms(2) by (simp add: unat_of_nat)
  from separateD [OF assms(1) this] i show "bytes_at (put_bytes b bs m) a n ! i = bytes_at m a n ! i"
    by (simp add: put_bytes_other)
qed simp

lemma memcpy_put_bytes:
  assumes "separate d (unat len) s (unat len)"
  shows "memcpy d s len m = put_bytes d (bytes_at m s (unat len)) m"
proof
  fix x
  have "unat len \<le> unat (d - s) \<or> len = 0" using separateD [OF assms, of d] by (auto simp: unat_gt_0)
  then have "memcpy d s len m x = (if unat (x - d) < unat len then m (s + (x - d)) else m x)"
    using memcpy_spec [of len d s m x] by (auto simp: memcpy_step)
  then show "memcpy d s len m x = put_bytes d (bytes_at m s (unat len)) m x"
    by (simp add: put_bytes_def)
qed

end
