(* ===== verification/Ata.thy ===== *)
theory Ata
  imports ByteMem
begin

text \<open>
  The disk driver of \<open>src/drivers/ata.c\<close>. The driver talks to the disk through port reads and writes; the disk is an
  argument \<open>dev\<close> that gives the value of a port read from everything that has happened on the ports so far. Buffers
  are bytes of a memory. A disk of the documented protocol is \<open>pio_disk\<close>: registers, two drives of 512-byte
  sectors, and a number of status reads for which it stays busy after each command and each sector stored; while it is busy it
  takes and gives nothing but its status.
\<close>

section \<open>Ports\<close>

datatype io_event = In8 u16 | In16 u16 | Out8 u16 u8 | Out16 u16 u16

text \<open>What a read of a port returns, given the events before it, the latest first.\<close>

record ata_device =
  dev_in8 :: "io_event list \<Rightarrow> u16 \<Rightarrow> u8"
  dev_in16 :: "io_event list \<Rightarrow> u16 \<Rightarrow> u16"

record ata_drive_info =
  drv_present :: bool
  is_atapi :: bool
  drv_sectors :: u32
  drv_model :: "u8 list"
  drv_serial :: "u8 list"
  drv_firmware :: "u8 list"

record ata_state =
  drives :: "ata_drive_info list"
  io_log :: "io_event list"

definition inb :: "ata_device \<Rightarrow> u16 \<Rightarrow> ata_state \<Rightarrow> u8 \<times> ata_state" where
  "inb dev port a = (dev_in8 dev (io_log a) port, a\<lparr>io_log := In8 port # io_log a\<rparr>)"

definition outb :: "u16 \<Rightarrow> u8 \<Rightarrow> ata_state \<Rightarrow> ata_state" where
  "outb port v a = a\<lparr>io_log := Out8 port v # io_log a\<rparr>"

definition ata_inw :: "ata_device \<Rightarrow> u16 \<Rightarrow> ata_state \<Rightarrow> u16 \<times> ata_state" where
  "ata_inw dev port a = (dev_in16 dev (io_log a) port, a\<lparr>io_log := In16 port # io_log a\<rparr>)"

definition ata_outw :: "u16 \<Rightarrow> u16 \<Rightarrow> ata_state \<Rightarrow> ata_state" where
  "ata_outw port v a = a\<lparr>io_log := Out16 port v # io_log a\<rparr>"

fun io_wait_loop :: "ata_device \<Rightarrow> u16 \<Rightarrow> nat \<Rightarrow> ata_state \<Rightarrow> ata_state" where
  "io_wait_loop dev port 0 a = a"
| "io_wait_loop dev port (Suc n) a = io_wait_loop dev port n (snd (inb dev port a))"

definition ata_io_wait :: "ata_device \<Rightarrow> u16 \<Rightarrow> ata_state \<Rightarrow> ata_state" where
  "ata_io_wait dev port a = io_wait_loop dev port 15 a"

fun wait_bsy_loop :: "ata_device \<Rightarrow> u16 \<Rightarrow> nat \<Rightarrow> ata_state \<Rightarrow> int \<times> ata_state" where
  "wait_bsy_loop dev port 0 a = (- 1, a)"
| "wait_bsy_loop dev port (Suc timeout) a =
     (let (status, a) = inb dev port a in
      if status AND 0x80 = 0 then (0, a) else wait_bsy_loop dev port timeout a)"

definition ata_wait_bsy :: "ata_device \<Rightarrow> u16 \<Rightarrow> ata_state \<Rightarrow> int \<times> ata_state" where
  "ata_wait_bsy dev status_port a = wait_bsy_loop dev status_port 100000 a"

fun wait_drq_loop :: "ata_device \<Rightarrow> u16 \<Rightarrow> nat \<Rightarrow> ata_state \<Rightarrow> int \<times> ata_state" where
  "wait_drq_loop dev port 0 a = (- 1, a)"
| "wait_drq_loop dev port (Suc timeout) a =
     (let (status, a) = inb dev port a in
      if status AND 0x01 \<noteq> 0 then (- 1, a)
      else if status AND 0x20 \<noteq> 0 then (- 1, a)
      else if status AND 0x08 \<noteq> 0 then (0, a)
      else wait_drq_loop dev port timeout a)"

definition ata_wait_drq :: "ata_device \<Rightarrow> u16 \<Rightarrow> ata_state \<Rightarrow> int \<times> ata_state" where
  "ata_wait_drq dev status_port a = wait_drq_loop dev status_port 100000 a"

definition ata_get_port_base :: "u8 \<Rightarrow> u16" where
  "ata_get_port_base drive = (if drive < 2 then 0x1F0 else 0x170)"

definition ata_get_control_port :: "u8 \<Rightarrow> u16" where
  "ata_get_control_port drive = (if drive < 2 then 0x3F6 else 0x376)"

section \<open>Identification\<close>

definition upd_drive :: "u8 \<Rightarrow> (ata_drive_info \<Rightarrow> ata_drive_info) \<Rightarrow> ata_state \<Rightarrow> ata_state" where
  "upd_drive drive f a = a\<lparr>drives := (drives a)[unat drive := f (drives a ! unat drive)]\<rparr>"

fun read_words :: "ata_device \<Rightarrow> u16 \<Rightarrow> nat \<Rightarrow> ata_state \<Rightarrow> u16 list \<times> ata_state" where
  "read_words dev port 0 a = ([], a)"
| "read_words dev port (Suc n) a =
     (let (w, a) = ata_inw dev port a; (ws, a) = read_words dev port n a in (w # ws, a))"

text \<open>Strings of the identification have two characters per word, the first in the high byte; the terminator is added.\<close>

definition id_string :: "u16 list \<Rightarrow> nat \<Rightarrow> nat \<Rightarrow> u8 list" where
  "id_string ws start n = concat (map (\<lambda>i. [ucast (drop_bit 8 (ws ! (start + i))), ucast (ws ! (start + i))]) [0..<n]) @ [0]"

definition ata_identify :: "ata_device \<Rightarrow> u8 \<Rightarrow> ata_state \<Rightarrow> int \<times> ata_state" where
  "ata_identify dev drive a =
     (let port_base = ata_get_port_base drive;
          is_slave = (drive mod 2 = 1);
          a = outb (port_base + 6) (if is_slave then 0xB0 else 0xA0) a;
          a = ata_io_wait dev (port_base + 7) a;
          a = outb (port_base + 2) 0 a;
          a = outb (port_base + 3) 0 a;
          a = outb (port_base + 4) 0 a;
          a = outb (port_base + 5) 0 a;
          a = outb (port_base + 7) 0xEC a;
          a = ata_io_wait dev (port_base + 7) a;
          (status, a) = inb dev (port_base + 7) a
      in if status = 0 then (- 1, upd_drive drive (\<lambda>d. d\<lparr>drv_present := False\<rparr>) a)
         else
           (let (r, a) = ata_wait_bsy dev (port_base + 7) a in
            if r < 0 then (- 1, upd_drive drive (\<lambda>d. d\<lparr>drv_present := False\<rparr>) a)
            else
              (let (lba_mid, a) = inb dev (port_base + 4) a;
                   (lba_high, a) = inb dev (port_base + 5) a
               in if lba_mid \<noteq> 0 \<or> lba_high \<noteq> 0
                  then (- 1, upd_drive drive (\<lambda>d. d\<lparr>drv_present := True, is_atapi := True\<rparr>) a)
                  else
                    (let (r, a) = ata_wait_drq dev (port_base + 7) a in
                     if r < 0 then (- 1, upd_drive drive (\<lambda>d. d\<lparr>drv_present := False\<rparr>) a)
                     else
                       (let (identify_data, a) = read_words dev port_base 256 a
                        in (0, upd_drive drive (\<lambda>d. d\<lparr>drv_present := True, is_atapi := False,
                             drv_model := id_string identify_data 27 20, drv_serial := id_string identify_data 10 10,
                             drv_firmware := id_string identify_data 23 4,
                             drv_sectors := push_bit 16 (ucast (identify_data ! 61)) OR ucast (identify_data ! 60)\<rparr>) a))))))"

definition zero_drive :: ata_drive_info where
  "zero_drive = \<lparr>drv_present = False, is_atapi = False, drv_sectors = 0, drv_model = replicate 41 0, drv_serial = replicate 21 0,
     drv_firmware = replicate 9 0\<rparr>"

definition ata_init :: "ata_device \<Rightarrow> ata_state \<Rightarrow> ata_state" where
  "ata_init dev a =
     (let a = a\<lparr>drives := replicate 4 zero_drive\<rparr>;
          (_, a) = ata_identify dev 0 a;
          (_, a) = ata_identify dev 1 a
      in a)"

section \<open>Sectors\<close>

text \<open>A drive is usable when its number is in range and it was found.\<close>

definition no_drive :: "u8 \<Rightarrow> ata_state \<Rightarrow> bool" where
  "no_drive drive a \<longleftrightarrow> drive \<ge> 4 \<or> \<not> drv_present (drives a ! unat drive)"

text \<open>The registers for one sector, then the command.\<close>

definition send_command :: "u8 \<Rightarrow> u32 \<Rightarrow> u8 \<Rightarrow> ata_state \<Rightarrow> ata_state" where
  "send_command drive lba cmd a =
     (let port_base = ata_get_port_base drive;
          is_slave = (drive mod 2 = 1);
          a = outb (port_base + 6) ((if is_slave then 0xF0 else 0xE0) OR (ucast (drop_bit 24 lba) AND 0x0F)) a;
          a = outb (port_base + 2) 1 a;
          a = outb (port_base + 3) (ucast lba) a;
          a = outb (port_base + 4) (ucast (drop_bit 8 lba)) a;
          a = outb (port_base + 5) (ucast (drop_bit 16 lba)) a
      in outb (port_base + 7) cmd a)"

fun read_data :: "ata_device \<Rightarrow> u16 \<Rightarrow> u32 \<Rightarrow> nat \<Rightarrow> ata_state \<Rightarrow> mem \<Rightarrow> ata_state \<times> mem" where
  "read_data dev port buf16 0 a m = (a, m)"
| "read_data dev port buf16 (Suc n) a m =
     (let (w, a) = ata_inw dev port a in read_data dev port (buf16 + 2) n a (st16 buf16 w m))"

fun write_data :: "u16 \<Rightarrow> u32 \<Rightarrow> nat \<Rightarrow> mem \<Rightarrow> ata_state \<Rightarrow> ata_state" where
  "write_data port buf16 0 m a = a"
| "write_data port buf16 (Suc n) m a = write_data port (buf16 + 2) n m (ata_outw port (ld16 m buf16) a)"

definition ata_read_sector :: "ata_device \<Rightarrow> u8 \<Rightarrow> u32 \<Rightarrow> u32 \<Rightarrow> ata_state \<Rightarrow> mem \<Rightarrow> int \<times> ata_state \<times> mem" where
  "ata_read_sector dev drive lba buffer a m =
     (if no_drive drive a then (- 1, a, m)
      else
        (let port_base = ata_get_port_base drive;
             (r, a) = ata_wait_bsy dev (port_base + 7) a
         in if r < 0 then (- 1, a, m)
            else
              (let a = send_command drive lba 0x20 a;
                   (r, a) = ata_wait_drq dev (port_base + 7) a
               in if r < 0 then (- 1, a, m)
                  else
                    (let (a, m) = read_data dev port_base buffer 256 a m
                     in (0, ata_io_wait dev (port_base + 7) a, m)))))"

definition ata_write_sector :: "ata_device \<Rightarrow> u8 \<Rightarrow> u32 \<Rightarrow> u32 \<Rightarrow> mem \<Rightarrow> ata_state \<Rightarrow> int \<times> ata_state" where
  "ata_write_sector dev drive lba buffer m a =
     (if no_drive drive a then (- 1, a)
      else
        (let port_base = ata_get_port_base drive;
             (r, a) = ata_wait_bsy dev (port_base + 7) a
         in if r < 0 then (- 1, a)
            else
              (let a = send_command drive lba 0x30 a;
                   (r, a) = ata_wait_drq dev (port_base + 7) a
               in if r < 0 then (- 1, a)
                  else
                    (let a = write_data port_base buffer 256 m a;
                         a = outb (port_base + 7) 0xE7 a;
                         (_, a) = ata_wait_bsy dev (port_base + 7) a
                     in (0, a)))))"

function read_sectors_loop :: "ata_device \<Rightarrow> u8 \<Rightarrow> u32 \<Rightarrow> u8 \<Rightarrow> u32 \<Rightarrow> u8 \<Rightarrow> ata_state \<Rightarrow> mem \<Rightarrow> int \<times> ata_state \<times> mem" where
  "read_sectors_loop dev drive lba count buffer i a m =
     (if i < count then
        (let (r, a, m) = ata_read_sector dev drive (lba + ucast i) (buffer + ucast i * 512) a m in
         if r < 0 then (uint i, a, m) else read_sectors_loop dev drive lba count buffer (i + 1) a m)
      else (uint count, a, m))"
  by pat_completeness auto

termination
  by (relation "measure (\<lambda>(_, _, _, count, _, i, _). unat count - unat i)") (auto simp: loop_measure)

definition ata_read_sectors :: "ata_device \<Rightarrow> u8 \<Rightarrow> u32 \<Rightarrow> u8 \<Rightarrow> u32 \<Rightarrow> ata_state \<Rightarrow> mem \<Rightarrow> int \<times> ata_state \<times> mem" where
  "ata_read_sectors dev drive lba count buffer a m = read_sectors_loop dev drive lba count buffer 0 a m"

function write_sectors_loop :: "ata_device \<Rightarrow> u8 \<Rightarrow> u32 \<Rightarrow> u8 \<Rightarrow> u32 \<Rightarrow> u8 \<Rightarrow> mem \<Rightarrow> ata_state \<Rightarrow> int \<times> ata_state" where
  "write_sectors_loop dev drive lba count buffer i m a =
     (if i < count then
        (let (r, a) = ata_write_sector dev drive (lba + ucast i) (buffer + ucast i * 512) m a in
         if r < 0 then (uint i, a) else write_sectors_loop dev drive lba count buffer (i + 1) m a)
      else (uint count, a))"
  by pat_completeness auto

termination
  by (relation "measure (\<lambda>(_, _, _, count, _, i, _). unat count - unat i)") (auto simp: loop_measure)

declare read_sectors_loop.simps [simp del] write_sectors_loop.simps [simp del]

definition ata_write_sectors :: "ata_device \<Rightarrow> u8 \<Rightarrow> u32 \<Rightarrow> u8 \<Rightarrow> u32 \<Rightarrow> mem \<Rightarrow> ata_state \<Rightarrow> int \<times> ata_state" where
  "ata_write_sectors dev drive lba count buffer m a = write_sectors_loop dev drive lba count buffer 0 m a"

definition ata_flush_cache :: "ata_device \<Rightarrow> u8 \<Rightarrow> ata_state \<Rightarrow> int \<times> ata_state" where
  "ata_flush_cache dev drive a =
     (if no_drive drive a then (- 1, a)
      else
        (let port_base = ata_get_port_base drive
         in ata_wait_bsy dev (port_base + 7) (outb (port_base + 7) 0xE7 a)))"

definition ata_get_drive_info :: "u8 \<Rightarrow> ata_state \<Rightarrow> ata_drive_info option" where
  "ata_get_drive_info drive a = (if drive \<ge> 4 then None else Some (drives a ! unat drive))"

section \<open>A disk of the documented protocol\<close>

text \<open>
  The registers of the first bus, the number of status reads for which the disk stays busy, the sector of the command in
  progress and how many sectors follow it, the words still to be delivered or already received of that sector, and the sectors
  of the two drives.
\<close>

record pio =
  reg_count :: u8
  reg_hd :: u8
  reg_lo :: u8
  reg_mid :: u8
  reg_hi :: u8
  busy :: nat
  at_lba :: u32
  left :: nat
  out_words :: "u16 list"
  writing :: bool
  in_words :: "u16 list"
  platter :: "bool \<Rightarrow> u32 \<Rightarrow> u16 list"

definition reg_lba :: "pio \<Rightarrow> u32" where
  "reg_lba d = push_bit 24 (ucast (reg_hd d AND 0x0F)) OR push_bit 16 (ucast (reg_hi d)) OR push_bit 8 (ucast (reg_mid d)) OR ucast (reg_lo d)"

definition reg_slave :: "pio \<Rightarrow> bool" where
  "reg_slave d \<longleftrightarrow> reg_hd d AND 0x10 \<noteq> 0"

text \<open>The count register says how many sectors a command transfers; 0 stands for 256.\<close>

definition reg_sectors :: "pio \<Rightarrow> nat" where
  "reg_sectors d = (if reg_count d = 0 then 256 else unat (reg_count d))"

text \<open>The disk takes registers and commands only when it is neither busy nor in the middle of a transfer.\<close>

definition idle :: "pio \<Rightarrow> bool" where
  "idle d \<longleftrightarrow> busy d = 0 \<and> out_words d = [] \<and> \<not> writing d"

text \<open>A command keeps the disk busy for \<open>D\<close> reads of the status; the first sector of a transfer is named by the registers.\<close>

definition pio_command :: "nat \<Rightarrow> u8 \<Rightarrow> pio \<Rightarrow> pio" where
  "pio_command D v d =
     (if \<not> idle d then d
      else if v = 0x20 then
        d\<lparr>out_words := platter d (reg_slave d) (reg_lba d), at_lba := reg_lba d, left := reg_sectors d - 1, busy := D\<rparr>
      else if v = 0x30 then d\<lparr>writing := True, in_words := [], at_lba := reg_lba d, left := reg_sectors d - 1, busy := D\<rparr>
      else if v = 0xE7 then d\<lparr>busy := D\<rparr>
      else d)"

text \<open>A word read from the data port: nothing while the disk is busy; after the last word of a sector the next one is fetched.\<close>

definition pio_fetch :: "nat \<Rightarrow> pio \<Rightarrow> pio" where
  "pio_fetch D d =
     (if busy d > 0 then d
      else if length (out_words d) = 1 \<and> left d > 0 then
        d\<lparr>out_words := platter d (reg_slave d) (at_lba d + 1), at_lba := at_lba d + 1, left := left d - 1, busy := D\<rparr>
      else d\<lparr>out_words := tl (out_words d)\<rparr>)"

text \<open>A word written to the data port: lost while the disk is busy; the last word of a sector stores it, which makes the disk
  busy again.\<close>

definition pio_store :: "nat \<Rightarrow> u16 \<Rightarrow> pio \<Rightarrow> pio" where
  "pio_store D w d =
     (if busy d > 0 \<or> \<not> writing d then d
      else if length (in_words d) < 255 then d\<lparr>in_words := in_words d @ [w]\<rparr>
      else d\<lparr>platter := (\<lambda>sl l. if sl = reg_slave d \<and> l = at_lba d then in_words d @ [w] else platter d sl l),
             writing := (left d > 0), at_lba := at_lba d + 1, left := left d - 1, in_words := [], busy := D\<rparr>)"

fun pio_step :: "nat \<Rightarrow> io_event \<Rightarrow> pio \<Rightarrow> pio" where
  "pio_step D (In8 p) d = (if p = 0x1F7 then d\<lparr>busy := busy d - 1\<rparr> else d)"
| "pio_step D (In16 p) d = (if p = 0x1F0 then pio_fetch D d else d)"
| "pio_step D (Out8 p v) d =
     (if \<not> idle d then d
      else if p = 0x1F2 then d\<lparr>reg_count := v\<rparr>
      else if p = 0x1F3 then d\<lparr>reg_lo := v\<rparr>
      else if p = 0x1F4 then d\<lparr>reg_mid := v\<rparr>
      else if p = 0x1F5 then d\<lparr>reg_hi := v\<rparr>
      else if p = 0x1F6 then d\<lparr>reg_hd := v\<rparr>
      else if p = 0x1F7 then pio_command D v d
      else d)"
| "pio_step D (Out16 p w) d = (if p = 0x1F0 then pio_store D w d else d)"

text \<open>Busy, ready with data to transfer, or ready.\<close>

definition pio_status :: "pio \<Rightarrow> u8" where
  "pio_status d = (if busy d > 0 then 0x80 else if out_words d \<noteq> [] \<or> writing d then 0x48 else 0x40)"

abbreviation pio_after :: "nat \<Rightarrow> pio \<Rightarrow> ata_state \<Rightarrow> pio" where
  "pio_after D ini a \<equiv> foldr (pio_step D) (io_log a) ini"

text \<open>While it is busy the disk answers every register with its status and the data port with an idle bus.\<close>

definition pio_disk :: "nat \<Rightarrow> pio \<Rightarrow> ata_device" where
  "pio_disk D ini = \<lparr>
     dev_in8 = (\<lambda>l p. let d = foldr (pio_step D) l ini in
       if p = 0x1F7 \<or> busy d > 0 then pio_status d
       else if p = 0x1F2 then reg_count d else if p = 0x1F3 then reg_lo d else if p = 0x1F4 then reg_mid d
       else if p = 0x1F5 then reg_hi d else if p = 0x1F6 then reg_hd d else 0xFF),
     dev_in16 = (\<lambda>l p. let d = foldr (pio_step D) l ini in
       if busy d > 0 then 0xFFFF else case out_words d of [] \<Rightarrow> 0xFFFF | w # _ \<Rightarrow> w)\<rparr>"

section \<open>Transfers\<close>

text \<open>The bytes of a list of words, low byte first.\<close>

definition word_bytes :: "u16 list \<Rightarrow> u8 list" where
  "word_bytes ws = concat (map (\<lambda>w. [ucast w, ucast (drop_bit 8 w)]) ws)"

lemma word_bytes_simps [simp]:
  "word_bytes [] = []" "word_bytes (w # ws) = ucast w # ucast (drop_bit 8 w) # word_bytes ws"
  "length (word_bytes ws) = 2 * length ws"
  by (induction ws) (simp_all add: word_bytes_def)

text \<open>The words of a buffer, and their bytes.\<close>

definition words_at :: "mem \<Rightarrow> u32 \<Rightarrow> nat \<Rightarrow> u16 list" where
  "words_at m a n = map (\<lambda>i. ld16 m (a + of_nat (2 * i))) [0..<n]"

lemma words_at_simps [simp]:
  "words_at m a 0 = []" "words_at m a (Suc n) = ld16 m a # words_at m (a + 2) n" "length (words_at m a n) = n"
proof -
  show "words_at m a (Suc n) = ld16 m a # words_at m (a + 2) n"
    by (rule nth_equalityI) (auto simp: words_at_def nth_Cons' algebra_simps simp del: upt_Suc)
qed (simp_all add: words_at_def)

lemma bytes_at_Suc: "bytes_at m a (Suc n) = m a # bytes_at m (a + 1) n"
  by (rule nth_equalityI) (auto simp: nth_Cons' bytes_at_def algebra_simps of_nat_diff simp del: upt_Suc)

lemma word_bytes_words_at: "word_bytes (words_at m a n) = bytes_at m a (2 * n)"
proof (induction n arbitrary: a)
  case (Suc n)
  have "word_bytes (words_at m a (Suc n)) = m a # m (a + 1) # bytes_at m (a + 2) (2 * n)"
    using Suc by (simp only: words_at_simps word_bytes_simps ld16_def half_bytes)
  then show ?case by (simp add: bytes_at_Suc add.assoc)
qed (simp add: bytes_at_def)

lemma inb_status [simp]:
  "inb (pio_disk D ini) 0x1F7 a = (pio_status (pio_after D ini a), a\<lparr>io_log := In8 0x1F7 # io_log a\<rparr>)"
  by (simp add: inb_def pio_disk_def Let_def)

lemma wait_bsy_pio:
  "busy (pio_after D ini a) < t \<Longrightarrow> \<exists>a'. wait_bsy_loop (pio_disk D ini) 0x1F7 t a = (0, a') \<and>
     pio_after D ini a' = (pio_after D ini a)\<lparr>busy := 0\<rparr> \<and> drives a' = drives a"
proof (induction t arbitrary: a)
  case (Suc t)
  let ?a = "a\<lparr>io_log := In8 0x1F7 # io_log a\<rparr>"
  show ?case
  proof (cases "busy (pio_after D ini a) > 0")
    case True
    then have "busy (pio_after D ini ?a) < t" using Suc.prems by simp
    from Suc.IH [OF this] True show ?thesis by (auto simp: pio_status_def)
  next
    case False
    then show ?thesis by (auto simp: pio_status_def)
  qed
qed simp

lemma wait_drq_pio:
  "busy (pio_after D ini a) < t \<Longrightarrow> out_words (pio_after D ini a) \<noteq> [] \<or> writing (pio_after D ini a) \<Longrightarrow>
     \<exists>a'. wait_drq_loop (pio_disk D ini) 0x1F7 t a = (0, a') \<and>
       pio_after D ini a' = (pio_after D ini a)\<lparr>busy := 0\<rparr> \<and> drives a' = drives a"
proof (induction t arbitrary: a)
  case (Suc t)
  let ?a = "a\<lparr>io_log := In8 0x1F7 # io_log a\<rparr>"
  show ?case
  proof (cases "busy (pio_after D ini a) > 0")
    case True
    then have "busy (pio_after D ini ?a) < t" using Suc.prems by simp
    from Suc.IH [OF this] Suc.prems(2) True show ?thesis by (auto simp: pio_status_def)
  next
    case False
    then show ?thesis using Suc.prems(2) by (auto simp: pio_status_def)
  qed
qed simp

lemma read_data_pio:
  "out_words (pio_after D ini a) = ws \<Longrightarrow> busy (pio_after D ini a) = 0 \<Longrightarrow> left (pio_after D ini a) = 0 \<Longrightarrow>
     length ws = n \<Longrightarrow> n < 2147483648 \<Longrightarrow>
     \<exists>a'. read_data (pio_disk D ini) 0x1F0 buf n a m = (a', put_bytes buf (word_bytes ws) m) \<and>
       pio_after D ini a' = (pio_after D ini a)\<lparr>out_words := []\<rparr> \<and> drives a' = drives a"
proof (induction n arbitrary: a m buf ws)
  case (Suc n)
  then obtain w vs where ws: "ws = w # vs" "length vs = n" by (cases ws) auto
  let ?a = "a\<lparr>io_log := In16 0x1F0 # io_log a\<rparr>"
  have p: "pio_after D ini ?a = (pio_after D ini a)\<lparr>out_words := vs\<rparr>" using Suc.prems(1-3) ws by (simp add: pio_fetch_def)
  have "ata_inw (pio_disk D ini) 0x1F0 a = (w, ?a)" using Suc.prems(1,2) ws by (simp add: ata_inw_def pio_disk_def)
  moreover have "put_bytes buf (word_bytes ws) m = put_bytes (buf + 2) (word_bytes vs) (st16 buf w m)"
    using Suc.prems(5) ws by (simp add: put_bytes_Cons st16_def add.assoc)
  moreover have "out_words (pio_after D ini ?a) = vs" "busy (pio_after D ini ?a) = 0" "left (pio_after D ini ?a) = 0" "n < 2147483648"
    unfolding p using Suc.prems by simp_all
  note Suc.IH [OF this(1-3) ws(2) this(4), of "buf + 2" "st16 buf w m"]
  ultimately show ?case using p by auto
qed auto

lemma write_data_pio:
  "writing (pio_after D ini a) \<Longrightarrow> busy (pio_after D ini a) = 0 \<Longrightarrow> left (pio_after D ini a) = 0 \<Longrightarrow>
     in_words (pio_after D ini a) = vs \<Longrightarrow> length vs + n = 256 \<Longrightarrow> n > 0 \<Longrightarrow>
     pio_after D ini (write_data 0x1F0 buf n m a) = (pio_after D ini a)\<lparr>writing := False, in_words := [], busy := D,
       at_lba := at_lba (pio_after D ini a) + 1,
       platter := (\<lambda>sl l. if sl = reg_slave (pio_after D ini a) \<and> l = at_lba (pio_after D ini a)
         then vs @ words_at m buf n else platter (pio_after D ini a) sl l)\<rparr> \<and>
     drives (write_data 0x1F0 buf n m a) = drives a"
proof (induction n arbitrary: a buf vs)
  case (Suc n)
  let ?a = "ata_outw 0x1F0 (ld16 m buf) a"
  show ?case
  proof (cases "n = 0")
    case True
    then show ?thesis using Suc.prems by (simp add: ata_outw_def pio_store_def fun_eq_iff)
  next
    case False
    then have p: "pio_after D ini ?a = (pio_after D ini a)\<lparr>in_words := vs @ [ld16 m buf]\<rparr>"
      using Suc.prems by (simp add: ata_outw_def pio_store_def)
    then have "writing (pio_after D ini ?a)" "busy (pio_after D ini ?a) = 0" "left (pio_after D ini ?a) = 0"
      "in_words (pio_after D ini ?a) = vs @ [ld16 m buf]"
      using Suc.prems by simp_all
    from Suc.IH [OF this, of "buf + 2"] Suc.prems False p show ?thesis
      by (simp add: ata_outw_def reg_slave_def cong: if_cong)
  qed
qed simp

lemma io_wait_pio:
  "pio_after D ini (io_wait_loop (pio_disk D ini) 0x1F7 n a) = (pio_after D ini a)\<lparr>busy := busy (pio_after D ini a) - n\<rparr> \<and>
     drives (io_wait_loop (pio_disk D ini) 0x1F7 n a) = drives a"
  by (induction n arbitrary: a) (simp_all add: diff_diff_eq)

text \<open>What the registers say after a command was sent.\<close>

lemma low_nibble:
  "((0xE0 OR (y AND 0x0F)) AND 0x0F :: u8) = y AND 0x0F" "((0xF0 OR (y AND 0x0F)) AND 0x0F :: u8) = y AND 0x0F"
  "((0xE0 OR (y AND 0x0F)) AND 0x10 :: u8) = 0" "((0xF0 OR (y AND 0x0F)) AND 0x10 :: u8) = 0x10"
  by (simp_all add: bit.conj_disj_distrib2 and.assoc)

lemma lba_registers:
  fixes lba :: u32
  shows "push_bit 24 (ucast (ucast (drop_bit 24 lba) AND 0x0F :: u8)) OR push_bit 16 (ucast (ucast (drop_bit 16 lba) :: u8)) OR
    push_bit 8 (ucast (ucast (drop_bit 8 lba) :: u8)) OR ucast (ucast lba :: u8) = take_bit 28 lba" (is "?l = ?r")
proof (rule bit_word_eqI)
  have n: "(0x0F :: u8) = mask 4" by (simp add: mask_eq_exp_minus_1)
  fix k assume "k < LENGTH(32)"
  then show "bit ?l k = bit ?r k"
    unfolding n by (cases "k < 8"; cases "k < 16"; cases "k < 24") (auto simp: bit_simps)
qed

lemma send_command_pio:
  assumes "drive < 2" "idle (pio_after D ini a)"
  obtains d where "pio_after D ini (send_command drive lba cmd a) = pio_command D cmd d" "reg_lba d = take_bit 28 lba"
    "reg_slave d = (drive = 1)" "platter d = platter (pio_after D ini a)" "idle d" "reg_sectors d = 1"
    "drives (send_command drive lba cmd a) = drives a"
proof -
  let ?d = "(pio_after D ini a)\<lparr>reg_hd := (if drive = 1 then 0xF0 else 0xE0) OR (ucast (drop_bit 24 lba) AND 0x0F), reg_count := 1,
    reg_lo := ucast lba, reg_mid := ucast (drop_bit 8 lba), reg_hi := ucast (drop_bit 16 lba)\<rparr>"
  have "unat drive < 2" using assms by (simp add: word_less_nat_alt)
  then have m: "drive mod 2 = 1 \<longleftrightarrow> drive = 1" by (auto simp: word_unat_eq_iff unat_mod_distrib)
  show thesis
  proof (rule that [of ?d])
    show "pio_after D ini (send_command drive lba cmd a) = pio_command D cmd ?d"
      using assms m by (simp add: send_command_def ata_get_port_base_def outb_def Let_def idle_def)
    show "reg_lba ?d = take_bit 28 lba" using lba_registers [of lba] by (simp add: reg_lba_def low_nibble)
    show "reg_slave ?d = (drive = 1)" by (simp add: reg_slave_def low_nibble)
    show "drives (send_command drive lba cmd a) = drives a"  by (simp add: send_command_def outb_def Let_def)
    show "idle ?d" using assms(2) by (simp add: idle_def)
  qed (simp_all add: reg_sectors_def)
qed

text \<open>The flush that \<open>ata_write_sector\<close> sends comes right after the last word: a disk that is busy storing the sector does not
  take it.\<close>

lemma early_flush_lost:
  "pio_after D ini (outb 0x1F7 0xE7 a) = (if idle (pio_after D ini a) then (pio_after D ini a)\<lparr>busy := D\<rparr> else pio_after D ini a)"
  by (simp add: outb_def pio_command_def)

section \<open>The driver on such a disk\<close>

text \<open>No transfer is in progress, the disk may still be busy but answers within the driver's patience, and the drive was found.\<close>

definition disk_ready :: "nat \<Rightarrow> pio \<Rightarrow> ata_state \<Rightarrow> u8 \<Rightarrow> bool" where
  "disk_ready D ini a drive \<longleftrightarrow> D < 100000 \<and> drive < 2 \<and> drv_present (drives a ! unat drive) \<and>
     (let d = pio_after D ini a in busy d < 100000 \<and> out_words d = [] \<and> \<not> writing d \<and> (\<forall>sl l. length (platter d sl l) = 256))"

definition disk_bytes :: "nat \<Rightarrow> pio \<Rightarrow> ata_state \<Rightarrow> u8 \<Rightarrow> u32 \<Rightarrow> u8 list" where
  "disk_bytes D ini a drive lba = word_bytes (platter (pio_after D ini a) (drive = 1) lba)"

lemma drive_usable: "drive < 2 \<Longrightarrow> drv_present (drives a ! unat drive) \<Longrightarrow> \<not> no_drive drive a"
  by (simp add: no_drive_def word_less_nat_alt word_le_nat_alt)

lemma read_sector_pio:
  assumes "disk_ready D ini a drive"
  shows "\<exists>a'. ata_read_sector (pio_disk D ini) drive lba buf a m = (0, a', put_bytes buf (disk_bytes D ini a drive (take_bit 28 lba)) m) \<and>
    disk_bytes D ini a' = disk_bytes D ini a \<and> (\<forall>e. disk_ready D ini a e \<longrightarrow> disk_ready D ini a' e)"
proof -
  let ?P = "pio_after D ini"
  have r: "D < 100000" "drive < 2" "drv_present (drives a ! unat drive)" "busy (?P a) < 100000" "out_words (?P a) = []"
    "\<not> writing (?P a)" "\<And>sl l. length (platter (?P a) sl l) = 256"
    using assms by (auto simp: disk_ready_def Let_def)
  have pb: "ata_get_port_base drive = 0x1F0" using r(2) by (simp add: ata_get_port_base_def)
  obtain a1 where a1: "wait_bsy_loop (pio_disk D ini) 0x1F7 100000 a = (0, a1)" "?P a1 = (?P a)\<lparr>busy := 0\<rparr>" "drives a1 = drives a"
    using wait_bsy_pio [OF r(4)] by blast
  have i: "idle (?P a1)" using a1(2) r(5,6) by (simp add: idle_def)
  obtain d where d: "?P (send_command drive lba 0x20 a1) = pio_command D 0x20 d" "reg_lba d = take_bit 28 lba"
    "reg_slave d = (drive = 1)" "platter d = platter (?P a1)" "idle d" "reg_sectors d = 1"
    "drives (send_command drive lba 0x20 a1) = drives a1"
    by (rule send_command_pio [OF r(2) i, where cmd = "0x20"]) blast
  define a2 where "a2 = send_command drive lba 0x20 a1"
  let ?ws = "platter (?P a) (drive = 1) (take_bit 28 lba)"
  have p2: "?P a2 = d\<lparr>out_words := ?ws, at_lba := take_bit 28 lba, left := 0, busy := D\<rparr>" "drives a2 = drives a" using d a1(2,3) by (simp_all add: a2_def pio_command_def)
  have "?ws \<noteq> []" using r(7) [of "drive = 1" "take_bit 28 lba"] by auto
  then obtain a3 where a3: "wait_drq_loop (pio_disk D ini) 0x1F7 100000 a2 = (0, a3)" "?P a3 = (?P a2)\<lparr>busy := 0\<rparr>" "drives a3 = drives a2"
    using wait_drq_pio [where a = a2 and t = 100000 and D = D and ini = ini] r(1) p2 by auto
  have "out_words (?P a3) = ?ws" "busy (?P a3) = 0" "left (?P a3) = 0" using a3(2) p2(1) by simp_all
  from read_data_pio [OF this r(7)] obtain a4 where a4: "read_data (pio_disk D ini) 0x1F0 buf 256 a3 m = (a4, put_bytes buf (word_bytes ?ws) m)"
    "?P a4 = (?P a3)\<lparr>out_words := []\<rparr>" "drives a4 = drives a3" by auto
  define a5 where "a5 = ata_io_wait (pio_disk D ini) 0x1F7 a4"
  have p5: "?P a5 = d\<lparr>out_words := [], at_lba := take_bit 28 lba, left := 0, busy := 0\<rparr>" "drives a5 = drives a"
    using io_wait_pio [of D ini 15 a4] a4(2,3) a3(2,3) p2 by (simp_all add: a5_def ata_io_wait_def)
  have "ata_read_sector (pio_disk D ini) drive lba buf a m = (0, a5, put_bytes buf (disk_bytes D ini a drive (take_bit 28 lba)) m)"
    using drive_usable [OF r(2,3)] a1(1) a3(1) a4(1) 
    by (simp add: ata_read_sector_def ata_wait_bsy_def ata_wait_drq_def pb a2_def a5_def disk_bytes_def)
  moreover have "disk_bytes D ini a5 = disk_bytes D ini a" using p5(1) d(4) a1(2) by (simp add: disk_bytes_def fun_eq_iff)
  moreover have "disk_ready D ini a5 e" if "disk_ready D ini a e" for e
    using that p5 d(4,5) a1(2) by (auto simp: disk_ready_def idle_def Let_def)
  ultimately show ?thesis by blast
qed

lemma write_sector_pio:
  assumes "disk_ready D ini a drive"
  shows "\<exists>a'. ata_write_sector (pio_disk D ini) drive lba buf m a = (0, a') \<and>
    (\<forall>e < 2. \<forall>l. disk_bytes D ini a' e l = (if e = drive \<and> l = take_bit 28 lba then bytes_at m buf 512 else disk_bytes D ini a e l)) \<and>
    (\<forall>e. disk_ready D ini a e \<longrightarrow> disk_ready D ini a' e)"
proof -
  let ?P = "pio_after D ini"
  have r: "D < 100000" "drive < 2" "drv_present (drives a ! unat drive)" "busy (?P a) < 100000" "out_words (?P a) = []"
    "\<not> writing (?P a)" "\<And>sl l. length (platter (?P a) sl l) = 256"
    using assms by (auto simp: disk_ready_def Let_def)
  have pb: "ata_get_port_base drive = 0x1F0" using r(2) by (simp add: ata_get_port_base_def)
  obtain a1 where a1: "wait_bsy_loop (pio_disk D ini) 0x1F7 100000 a = (0, a1)" "?P a1 = (?P a)\<lparr>busy := 0\<rparr>" "drives a1 = drives a"
    using wait_bsy_pio [OF r(4)] by blast
  have i: "idle (?P a1)" using a1(2) r(5,6) by (simp add: idle_def)
  obtain d where d: "?P (send_command drive lba 0x30 a1) = pio_command D 0x30 d" "reg_lba d = take_bit 28 lba"
    "reg_slave d = (drive = 1)" "platter d = platter (?P a1)" "idle d" "reg_sectors d = 1"
    "drives (send_command drive lba 0x30 a1) = drives a1"
    by (rule send_command_pio [OF r(2) i, where cmd = "0x30"]) blast
  define a2 where "a2 = send_command drive lba 0x30 a1"
  have p2: "?P a2 = d\<lparr>writing := True, in_words := [], at_lba := take_bit 28 lba, left := 0, busy := D\<rparr>" "drives a2 = drives a"
    using d a1(2,3) by (simp_all add: a2_def pio_command_def)
  obtain a3 where a3: "wait_drq_loop (pio_disk D ini) 0x1F7 100000 a2 = (0, a3)" "?P a3 = (?P a2)\<lparr>busy := 0\<rparr>" "drives a3 = drives a2"
    using wait_drq_pio [where a = a2 and t = 100000 and D = D and ini = ini] r(1) p2 by auto
  define a4 where "a4 = outb 0x1F7 0xE7 (write_data 0x1F0 buf 256 m a3)"
  let ?img = "\<lambda>sl l. if sl = (drive = 1) \<and> l = take_bit 28 lba then words_at m buf 256 else platter (?P a) sl l"
  have "writing (?P a3)" "busy (?P a3) = 0" "left (?P a3) = 0" "in_words (?P a3) = []" using a3(2) p2(1) by simp_all
  note w = write_data_pio [OF this, of 256 buf m]
  have p4: "?P a4 = d\<lparr>platter := ?img, in_words := [], writing := False, at_lba := take_bit 28 lba + 1, left := 0, busy := D\<rparr>"
    "drives a4 = drives a"
  proof -
    have "platter d = platter (?P a)" using d(4) a1(2) by simp
    then show "?P a4 = d\<lparr>platter := ?img, in_words := [], writing := False, at_lba := take_bit 28 lba + 1, left := 0, busy := D\<rparr>"
      using w a3(2) p2 d(3) unfolding a4_def early_flush_lost by (simp add: reg_slave_def cong: if_cong)
    show "drives a4 = drives a" using w a3(3) p2(2) by (simp add: a4_def outb_def)
  qed
  have "busy (?P a4) < 100000" using p4(1) r(1) by simp
  from wait_bsy_pio [OF this] obtain a5 where a5: "wait_bsy_loop (pio_disk D ini) 0x1F7 100000 a4 = (0, a5)"
    "?P a5 = (?P a4)\<lparr>busy := 0\<rparr>" "drives a5 = drives a4" by blast
  have "ata_write_sector (pio_disk D ini) drive lba buf m a = (0, a5)"
    using drive_usable [OF r(2,3)] a1(1) a3(1) a5(1)
    by (simp add: ata_write_sector_def ata_wait_bsy_def ata_wait_drq_def pb a2_def a4_def)
  moreover have "disk_bytes D ini a5 e l = (if e = drive \<and> l = take_bit 28 lba then bytes_at m buf 512 else disk_bytes D ini a e l)"
    if "e < 2" for e l
  proof -
    have "(e = 1) = (drive = 1) \<longleftrightarrow> e = drive" using that r(2) by (auto simp: word_less_nat_alt word_unat_eq_iff less_2_cases_iff)
    then show ?thesis using a5(2) p4(1) word_bytes_words_at [of m buf 256] by (simp add: disk_bytes_def)
  qed
  moreover have "disk_ready D ini a5 e" if "disk_ready D ini a e" for e
    using that a5(2,3) p4 d(5) a1(2) by (auto simp: disk_ready_def idle_def Let_def)
  ultimately show ?thesis by blast
qed

section \<open>The interface of the file systems to a disk\<close>

text \<open>
  What a client of the driver relies on: a device on which sectors are read and written without failure. \<open>ready\<close> says
  of which drives that holds, \<open>bytes\<close> is what a sector holds; the driver uses 28 bits of a sector number.
\<close>

locale sector_disk =
  fixes dev :: ata_device and ready :: "ata_state \<Rightarrow> u8 \<Rightarrow> bool" and sector :: "ata_state \<Rightarrow> u8 \<Rightarrow> u32 \<Rightarrow> u8 list"
  assumes sector_length: "ready a drive \<Longrightarrow> length (sector a drive lba) = 512"
    and read_sector: "ready a drive \<Longrightarrow>
      \<exists>a'. ata_read_sector dev drive lba buf a m = (0, a', put_bytes buf (sector a drive (take_bit 28 lba)) m) \<and>
        sector a' = sector a \<and> (\<forall>e. ready a e \<longrightarrow> ready a' e)"
    and write_sector: "ready a drive \<Longrightarrow>
      \<exists>a'. ata_write_sector dev drive lba buf m a = (0, a') \<and>
        (\<forall>e l. ready a e \<longrightarrow> sector a' e l = (if e = drive \<and> l = take_bit 28 lba then bytes_at m buf 512 else sector a e l)) \<and>
        (\<forall>e. ready a e \<longrightarrow> ready a' e)"
begin

lemma write_read:
  assumes "ready a drive"
  shows "\<exists>a1 a2. ata_write_sector dev drive lba buf m a = (0, a1) \<and>
    ata_read_sector dev drive lba buf' a1 m' = (0, a2, put_bytes buf' (bytes_at m buf 512) m') \<and>
    (\<forall>e l. ready a e \<longrightarrow> (e, l) \<noteq> (drive, take_bit 28 lba) \<longrightarrow> sector a2 e l = sector a e l) \<and> (\<forall>e. ready a e \<longrightarrow> ready a2 e)"
proof -
  obtain a1 where a1: "ata_write_sector dev drive lba buf m a = (0, a1)"
    "\<And>e l. ready a e \<Longrightarrow> sector a1 e l = (if e = drive \<and> l = take_bit 28 lba then bytes_at m buf 512 else sector a e l)"
    "\<And>e. ready a e \<Longrightarrow> ready a1 e"
    using write_sector [OF assms] by blast
  obtain a2 where "ata_read_sector dev drive lba buf' a1 m' = (0, a2, put_bytes buf' (sector a1 drive (take_bit 28 lba)) m')"
    "sector a2 = sector a1" "\<And>e. ready a1 e \<Longrightarrow> ready a2 e"
    using read_sector [OF a1(3) [OF assms]] by blast
  with a1 assms show ?thesis by (auto simp: a1(2) [OF assms])
qed

end

interpretation pio: sector_disk "pio_disk D ini" "disk_ready D ini" "disk_bytes D ini" for D ini
proof unfold_locales
  fix a drive lba buf m
  assume r: "disk_ready D ini a drive"
  then show "length (disk_bytes D ini a drive lba) = 512" by (simp add: disk_ready_def disk_bytes_def Let_def)
  show "\<exists>a'. ata_read_sector (pio_disk D ini) drive lba buf a m = (0, a', put_bytes buf (disk_bytes D ini a drive (take_bit 28 lba)) m) \<and>
      disk_bytes D ini a' = disk_bytes D ini a \<and> (\<forall>e. disk_ready D ini a e \<longrightarrow> disk_ready D ini a' e)"
    by (rule read_sector_pio [OF r])
  show "\<exists>a'. ata_write_sector (pio_disk D ini) drive lba buf m a = (0, a') \<and>
      (\<forall>e l. disk_ready D ini a e \<longrightarrow> disk_bytes D ini a' e l =
        (if e = drive \<and> l = take_bit 28 lba then bytes_at m buf 512 else disk_bytes D ini a e l)) \<and>
      (\<forall>e. disk_ready D ini a e \<longrightarrow> disk_ready D ini a' e)"
    using write_sector_pio [OF r, of lba buf m] by (auto simp: disk_ready_def)
qed

section \<open>A concrete disk\<close>

definition blank_pio :: pio where
  "blank_pio = \<lparr>reg_count = 0, reg_hd = 0, reg_lo = 0, reg_mid = 0, reg_hi = 0, busy = 3, at_lba = 0, left = 0, out_words = [], writing = False, in_words = [],
     platter = (\<lambda>_ _. replicate 256 0)\<rparr>"

definition one_drive :: ata_state where
  "one_drive = \<lparr>drives = zero_drive\<lparr>drv_present := True\<rparr> # replicate 3 zero_drive, io_log = []\<rparr>"

lemma blank_ready: "disk_ready 10 blank_pio one_drive 0"
  by (simp add: disk_ready_def one_drive_def blank_pio_def)

section \<open>Properties\<close>

text \<open>C22: a sector written is a sector read. The disk of the documented protocol takes no register, command or word while it is
  busy and delivers none, and it is busy for \<open>D\<close> reads of its status after every command and after every sector stored. When no
  transfer is in progress, it may still be busy with what came before, and it answers within 100000 reads of its status,
  \<open>ata_write_sector\<close> succeeds, \<open>ata_read_sector\<close> of the same sector then succeeds and delivers the 512 bytes of the write
  buffer, and every other sector of the drives is as before. The sector addressed is the number modulo \<open>2 ^ 28\<close>, whatever the
  size of the drive. A drive that is absent is refused without touching a port.\<close>

theorem ata_sector_roundtrip:
  "(disk_ready D ini a drive \<longrightarrow>
     (\<exists>a1 a2. ata_write_sector (pio_disk D ini) drive lba buf m a = (0, a1) \<and>
       ata_read_sector (pio_disk D ini) drive lba buf' a1 m' = (0, a2, put_bytes buf' (bytes_at m buf 512) m') \<and>
       (\<forall>e l. disk_ready D ini a e \<longrightarrow> (e, l) \<noteq> (drive, take_bit 28 lba) \<longrightarrow> disk_bytes D ini a2 e l = disk_bytes D ini a e l) \<and>
       (\<forall>e. disk_ready D ini a e \<longrightarrow> disk_ready D ini a2 e))) \<and>
   (no_drive drive a \<longrightarrow> ata_write_sector dev drive lba buf m a = (- 1, a) \<and> ata_read_sector dev drive lba buf a m = (- 1, a, m))"
  by (intro conjI impI, erule pio.write_read) (simp_all add: ata_write_sector_def ata_read_sector_def)

theorem ata_sector_roundtrip_witness:
  "(\<exists>a1 a2. ata_write_sector (pio_disk 10 blank_pio) 0 7 0x1000 (\<lambda>x. ucast x) one_drive = (0, a1) \<and>
     ata_read_sector (pio_disk 10 blank_pio) 0 7 0x2000 a1 (\<lambda>_. 0) =
       (0, a2, put_bytes 0x2000 (bytes_at (\<lambda>x. ucast x) 0x1000 512) (\<lambda>_. 0)) \<and> disk_bytes 10 blank_pio a2 0 8 = replicate 512 0) \<and>
   ata_read_sector (pio_disk 10 blank_pio) 1 7 0x2000 one_drive (\<lambda>_. 0) = (- 1, one_drive, \<lambda>_. 0)"
proof
  have b: "disk_bytes 10 blank_pio one_drive 0 8 = replicate 512 0"
    by (rule nth_equalityI) (simp_all add: disk_bytes_def one_drive_def blank_pio_def word_bytes_def numeral_eq_Suc)
  have "(0 :: u8, 8 :: u32) \<noteq> (0, take_bit 28 7)" by simp
  then show "\<exists>a1 a2. ata_write_sector (pio_disk 10 blank_pio) 0 7 0x1000 (\<lambda>x. ucast x) one_drive = (0, a1) \<and>
     ata_read_sector (pio_disk 10 blank_pio) 0 7 0x2000 a1 (\<lambda>_. 0) =
       (0, a2, put_bytes 0x2000 (bytes_at (\<lambda>x. ucast x) 0x1000 512) (\<lambda>_. 0)) \<and> disk_bytes 10 blank_pio a2 0 8 = replicate 512 0"
    using ata_sector_roundtrip [of 10 blank_pio one_drive 0 7 "0x1000" "\<lambda>x. ucast x" "0x2000" "\<lambda>_. 0"] blank_ready b by metis
  have "no_drive 1 one_drive" by (simp add: no_drive_def one_drive_def zero_drive_def)
  then show "ata_read_sector (pio_disk 10 blank_pio) 1 7 0x2000 one_drive (\<lambda>_. 0) = (- 1, one_drive, \<lambda>_. 0)"
    using ata_sector_roundtrip by blast
qed

end
