(* ===== verification/Vfs.thy ===== *)
theory Vfs
  imports HeapStrings Ata
begin

text \<open>
  The virtual file system of \<open>src/fs/vfs.c\<close> and \<open>src/fs/vfs.h\<close>: nodes, the file descriptor table, path
  resolution and the operations on files, directories and mounts. A file system is a record of
  operations, as in the code; \<open>optab\<close> is what an operations pointer stands for, and every function that
  calls through it takes it as an argument. Nodes and mounts live in stores from addresses to
  records; file data and the callers' buffers are bytes of one memory. A path or a name is the list of
  its characters, without the terminating zero: copies into buffers of 256 bytes keep the first 255.
  \<open>None\<close> as the result of an operation: it does not return. As the stores are typed, a node that was freed keeps its last value until
  its address is given out again, and structures of different types do not overlap even at equal addresses.
\<close>

section \<open>Nodes\<close>

datatype vfs_node_type = VFS_FILE | VFS_DIRECTORY | VFS_CHARDEVICE | VFS_BLOCKDEVICE | VFS_PIPE
  | VFS_SYMLINK | VFS_MOUNTPOINT

text \<open>The operations tables of the kernel: an \<open>ops\<close> pointer is \<open>NULL\<close> or one of them.\<close>

datatype ops_ptr = OPS_NULL | RAMFS_OPS | TARFS_OPS | FAT_OPS

abbreviation (input) O_WRONLY :: u32 where
  "O_WRONLY \<equiv> 0x0001"

abbreviation (input) O_RDWR :: u32 where
  "O_RDWR \<equiv> 0x0002"

abbreviation (input) O_RDONLY :: u32 where
  "O_RDONLY \<equiv> 0x0000"

abbreviation (input) O_CREAT :: u32 where
  "O_CREAT \<equiv> 0x0100"

abbreviation (input) O_TRUNC :: u32 where
  "O_TRUNC \<equiv> 0x0200"

abbreviation (input) O_APPEND :: u32 where
  "O_APPEND \<equiv> 0x0400"

type_synonym str = "u8 list"

abbreviation (input) SLASH :: u8 where
  "SLASH \<equiv> 47"

abbreviation (input) DOT :: u8 where
  "DOT \<equiv> 46"

record vfs_node =
  n_name :: str
  n_inode :: u32
  n_size :: u32
  n_mode :: u32
  n_uid :: u32
  n_gid :: u32
  n_flags :: u32
  n_type :: vfs_node_type
  n_open_count :: u32
  n_impl :: u32
  n_ops :: ops_ptr
  n_parent :: u32
  n_next :: u32
  n_mounted :: u32

record dirent =
  d_name :: str
  d_inode :: u32
  d_type :: vfs_node_type

record file_descriptor =
  fd_node :: u32
  fd_position :: u32
  fd_flags :: u32
  fd_in_use :: bool

record vfs_mount_entry =
  mt_path :: str
  mt_point :: u32
  mt_root :: u32
  mt_fs_type :: str
  mt_next :: u32

text \<open>The in-memory structures of \<open>ramfs.c\<close>, which \<open>impl_data\<close> of its nodes points to.\<close>

record ramfs_file =
  rf_data :: u32
  rf_size :: u32
  rf_capacity :: u32

text \<open>The node data of \<open>tarfs.c\<close>.\<close>

record tarfs_node_data =
  td_data :: u32
  td_offset :: u32
  td_children :: u32

text \<open>The node data of \<open>fat.c\<close> and its static state \<open>fat_fs\<close>.\<close>

record fat_node_data =
  fn_first_cluster :: u16
  fn_dir_entry_sector :: u32
  fn_dir_entry_offset :: u32

record fat_fs_t =
  fs_drive :: u8
  partition_start :: u32
  bytes_per_sector :: u16
  sectors_per_cluster :: u8
  reserved_sectors :: u16
  num_fats :: u8
  root_entries :: u16
  sectors_per_fat :: u16
  total_sectors :: u32
  fat_start :: u32
  root_dir_start :: u32
  data_start :: u32
  total_clusters :: u32
  fat_table :: u32
  fat_dirty :: bool

definition zero_fat_fs :: fat_fs_t where
  "zero_fat_fs = \<lparr>fs_drive = 0, partition_start = 0, bytes_per_sector = 0, sectors_per_cluster = 0, reserved_sectors = 0,
     num_fats = 0, root_entries = 0, sectors_per_fat = 0, total_sectors = 0, fat_start = 0, root_dir_start = 0,
     data_start = 0, total_clusters = 0, fat_table = NULL, fat_dirty = False\<rparr>"

record fs_state =
  nodes :: "u32 \<Rightarrow> vfs_node"
  ramfs_dirs :: "u32 \<Rightarrow> u32"
  ramfs_files :: "u32 \<Rightarrow> ramfs_file"
  tar_nodes :: "u32 \<Rightarrow> tarfs_node_data"
  fat_nodes :: "u32 \<Rightarrow> fat_node_data"
  fat_fs :: fat_fs_t
  fat_initialized :: bool
  disk :: ata_state
  fmem :: mem
  fheap :: heap_state
  vfs_root :: u32
  vfs_cwd :: u32
  fd_table :: "file_descriptor list"
  mount_list :: u32
  mounts :: "u32 \<Rightarrow> vfs_mount_entry"

text \<open>The disk driver on the memory of this state; \<open>dev\<close> is the disk.\<close>

definition fs_read_sector :: "ata_device \<Rightarrow> u8 \<Rightarrow> u32 \<Rightarrow> u32 \<Rightarrow> fs_state \<Rightarrow> int \<times> fs_state" where
  "fs_read_sector dev drive lba buffer s =
     (let (r, a, m) = ata_read_sector dev drive lba buffer (disk s) (fmem s) in (r, s\<lparr>disk := a, fmem := m\<rparr>))"

definition fs_write_sector :: "ata_device \<Rightarrow> u8 \<Rightarrow> u32 \<Rightarrow> u32 \<Rightarrow> fs_state \<Rightarrow> int \<times> fs_state" where
  "fs_write_sector dev drive lba buffer s =
     (let (r, a) = ata_write_sector dev drive lba buffer (fmem s) (disk s) in (r, s\<lparr>disk := a\<rparr>))"

record vfs_operations =
  op_open :: "(u32 \<Rightarrow> u32 \<Rightarrow> fs_state \<Rightarrow> (int \<times> fs_state) option) option"
  op_close :: "(u32 \<Rightarrow> fs_state \<Rightarrow> (int \<times> fs_state) option) option"
  op_read :: "(u32 \<Rightarrow> u32 \<Rightarrow> u32 \<Rightarrow> u32 \<Rightarrow> fs_state \<Rightarrow> (int \<times> fs_state) option) option"
  op_write :: "(u32 \<Rightarrow> u32 \<Rightarrow> u32 \<Rightarrow> u32 \<Rightarrow> fs_state \<Rightarrow> (int \<times> fs_state) option) option"
  op_readdir :: "(u32 \<Rightarrow> u32 \<Rightarrow> fs_state \<Rightarrow> (dirent option \<times> fs_state) option) option"
  op_finddir :: "(u32 \<Rightarrow> str \<Rightarrow> fs_state \<Rightarrow> (u32 \<times> fs_state) option) option"
  op_create :: "(u32 \<Rightarrow> str \<Rightarrow> u32 \<Rightarrow> fs_state \<Rightarrow> (u32 \<times> fs_state) option) option"
  op_unlink :: "(u32 \<Rightarrow> str \<Rightarrow> fs_state \<Rightarrow> (int \<times> fs_state) option) option"
  op_mkdir :: "(u32 \<Rightarrow> str \<Rightarrow> u32 \<Rightarrow> fs_state \<Rightarrow> (u32 \<times> fs_state) option) option"
  op_rmdir :: "(u32 \<Rightarrow> str \<Rightarrow> fs_state \<Rightarrow> (int \<times> fs_state) option) option"

type_synonym optab = "ops_ptr \<Rightarrow> vfs_operations"

text \<open>A \<open>NULL\<close> operations pointer offers nothing.\<close>

definition no_ops :: vfs_operations where
  "no_ops = \<lparr>op_open = None, op_close = None, op_read = None, op_write = None, op_readdir = None,
     op_finddir = None, op_create = None, op_unlink = None, op_mkdir = None, op_rmdir = None\<rparr>"

definition node_ops :: "optab \<Rightarrow> u32 \<Rightarrow> fs_state \<Rightarrow> vfs_operations" where
  "node_ops ot n s = (if n_ops (nodes s n) = OPS_NULL then no_ops else ot (n_ops (nodes s n)))"

definition upd_node :: "u32 \<Rightarrow> (vfs_node \<Rightarrow> vfs_node) \<Rightarrow> fs_state \<Rightarrow> fs_state" where
  "upd_node n f s = s\<lparr>nodes := (nodes s)(n := f (nodes s n))\<rparr>"

section \<open>File descriptors\<close>

abbreviation (input) MAX_OPEN_FILES :: nat where
  "MAX_OPEN_FILES \<equiv> 256"

definition upd_fd :: "nat \<Rightarrow> (file_descriptor \<Rightarrow> file_descriptor) \<Rightarrow> fs_state \<Rightarrow> fs_state" where
  "upd_fd i f s = s\<lparr>fd_table := (fd_table s)[i := f (fd_table s ! i)]\<rparr>"

fun fd_search :: "file_descriptor list \<Rightarrow> nat \<Rightarrow> nat option" where
  "fd_search [] i = None"
| "fd_search (d # ds) i = (if \<not> fd_in_use d then Some i else fd_search ds (Suc i))"

definition fd_alloc :: "fs_state \<Rightarrow> int \<times> fs_state" where
  "fd_alloc s =
     (case fd_search (fd_table s) 0 of
        Some i \<Rightarrow> (int i, upd_fd i (\<lambda>d. d\<lparr>fd_in_use := True, fd_position := 0\<rparr>) s)
      | None \<Rightarrow> (- 1, s))"

definition fd_free :: "int \<Rightarrow> fs_state \<Rightarrow> fs_state" where
  "fd_free fd s =
     (if fd \<ge> 0 \<and> fd < int MAX_OPEN_FILES
      then upd_fd (nat fd) (\<lambda>d. \<lparr>fd_node = NULL, fd_position = 0, fd_flags = 0, fd_in_use = False\<rparr>) s
      else s)"

definition fd_get :: "int \<Rightarrow> fs_state \<Rightarrow> file_descriptor option" where
  "fd_get fd s =
     (if fd < 0 \<or> fd \<ge> int MAX_OPEN_FILES \<or> \<not> fd_in_use (fd_table s ! nat fd) then None
      else Some (fd_table s ! nat fd))"

section \<open>Paths\<close>

definition skip_slashes :: "str \<Rightarrow> str" where
  "skip_slashes p = dropWhile (\<lambda>c. c = SLASH) p"

text \<open>One component: up to 255 characters before the next slash.\<close>

definition next_component :: "str \<Rightarrow> str" where
  "next_component p = take 255 (takeWhile (\<lambda>c. c \<noteq> SLASH) p)"

lemma skip_slashes_length: "length (skip_slashes p) \<le> length p"
  by (simp add: skip_slashes_def length_dropWhile_le)

lemma next_component_progress:
  assumes "p \<noteq> []"
  shows "length (skip_slashes (drop (length (next_component p)) p)) < length p"
proof (cases "next_component p = []")
  case True
  then have "hd p = SLASH" using assms by (cases p) (auto simp: next_component_def split: if_splits)
  then have "skip_slashes p = skip_slashes (tl p)" using assms by (cases p) (auto simp: skip_slashes_def)
  moreover have "length (tl p) < length p" using assms by (cases p) auto
  ultimately show ?thesis using True skip_slashes_length [of "tl p"] by simp
next
  case False
  then have "length (drop (length (next_component p)) p) < length p" using assms by simp
  then show ?thesis using skip_slashes_length le_less_trans by blast
qed

function path_components :: "str \<Rightarrow> nat \<Rightarrow> nat \<Rightarrow> str list" where
  "path_components p count max_components =
     (if p \<noteq> [] \<and> count < max_components then
        (let comp = next_component p; rest = skip_slashes (drop (length comp) p) in
         if length comp > 0 then comp # path_components rest (count + 1) max_components
         else path_components rest count max_components)
      else [])"
  by pat_completeness auto
termination
  by (relation "measure (\<lambda>(p, _, _). length p)") (auto dest: next_component_progress)

declare path_components.simps [simp del]

definition path_split :: "str \<Rightarrow> nat \<Rightarrow> str list" where
  "path_split pathname max_components = path_components (skip_slashes pathname) 0 max_components"

fun walk_path :: "optab \<Rightarrow> str list \<Rightarrow> u32 \<Rightarrow> fs_state \<Rightarrow> (u32 \<times> fs_state) option" where
  "walk_path ot [] current s =
     Some (if n_mounted (nodes s current) \<noteq> NULL then n_mounted (nodes s current) else current, s)"
| "walk_path ot (c # cs) current s =
     (if c = [DOT] then walk_path ot cs current s
      else if c = [DOT, DOT] then
        walk_path ot cs (if n_parent (nodes s current) \<noteq> NULL then n_parent (nodes s current) else current) s
      else if n_type (nodes s current) \<noteq> VFS_DIRECTORY \<and> n_type (nodes s current) \<noteq> VFS_MOUNTPOINT then Some (NULL, s)
      else
        (let current = (if n_mounted (nodes s current) \<noteq> NULL then n_mounted (nodes s current) else current) in
         case op_finddir (node_ops ot current s) of
           None \<Rightarrow> Some (NULL, s)
         | Some finddir \<Rightarrow>
             (case finddir current c s of None \<Rightarrow> None
              | Some (child, s) \<Rightarrow> if child = NULL then Some (NULL, s) else walk_path ot cs child s)))"

definition vfs_resolve_path :: "optab \<Rightarrow> str \<Rightarrow> fs_state \<Rightarrow> (u32 \<times> fs_state) option" where
  "vfs_resolve_path ot pathname s =
     (if pathname = [] then Some (NULL, s)
      else
        (let current = (if hd pathname = SLASH then vfs_root s else vfs_cwd s) in
         if current = NULL then Some (NULL, s)
         else if pathname = [SLASH] then Some (vfs_root s, s)
         else if pathname = [DOT] then Some (vfs_cwd s, s)
         else if pathname = [DOT, DOT] \<and> vfs_cwd s \<noteq> NULL \<and> n_parent (nodes s (vfs_cwd s)) \<noteq> NULL
         then Some (n_parent (nodes s (vfs_cwd s)), s)
         else walk_path ot (path_split pathname 32) current s))"

definition vfs_open_path :: "optab \<Rightarrow> str \<Rightarrow> fs_state \<Rightarrow> (u32 \<times> fs_state) option" where
  "vfs_open_path ot pathname s = vfs_resolve_path ot pathname s"

text \<open>The split into parent and last name that \<open>vfs_open\<close>, \<open>vfs_mkdir\<close>, \<open>vfs_rmdir\<close> and \<open>vfs_unlink\<close>
  begin with, on a copy of 255 characters; \<open>None\<close> when there is no slash.\<close>

definition split_parent :: "str \<Rightarrow> (str \<times> str) option" where
  "split_parent pathname =
     (let path_copy = take 255 pathname in
      if SLASH \<in> set path_copy then
        (let name = rev (takeWhile (\<lambda>c. c \<noteq> SLASH) (rev path_copy));
             parent = take (length path_copy - length name - 1) path_copy
         in Some (if parent = [] then [SLASH] else parent, name))
      else None)"

text \<open>The parent directory of a path and the last name, \<open>(NULL, _)\<close> when there is none.\<close>

definition resolve_parent :: "optab \<Rightarrow> str \<Rightarrow> fs_state \<Rightarrow> ((u32 \<times> str) \<times> fs_state) option" where
  "resolve_parent ot pathname s =
     (case split_parent pathname of
        None \<Rightarrow> Some ((NULL, []), s)
      | Some (parent_path, name) \<Rightarrow>
          (case vfs_resolve_path ot parent_path s of None \<Rightarrow> None
           | Some (parent, s) \<Rightarrow>
               Some ((if parent \<noteq> NULL \<and> n_type (nodes s parent) = VFS_DIRECTORY then parent else NULL, name), s)))"

section \<open>Files\<close>

text \<open>\<open>S_IRUSR | S_IWUSR\<close>.\<close>

abbreviation (input) DEFAULT_MODE :: u32 where
  "DEFAULT_MODE \<equiv> 0x0180"

definition open_create :: "optab \<Rightarrow> str \<Rightarrow> fs_state \<Rightarrow> (u32 \<times> fs_state) option" where
  "open_create ot pathname s =
     (case resolve_parent ot pathname s of None \<Rightarrow> None
      | Some ((parent, filename), s) \<Rightarrow>
          if parent = NULL then Some (NULL, s)
          else
            (case op_create (node_ops ot parent s) of
               None \<Rightarrow> Some (NULL, s)
             | Some create \<Rightarrow> create parent filename DEFAULT_MODE s))"

text \<open>The last part of \<open>vfs_open\<close> fills the slot.\<close>

definition open_finish :: "nat \<Rightarrow> u32 \<Rightarrow> u32 \<Rightarrow> fs_state \<Rightarrow> fs_state" where
  "open_finish i node flags s =
     (let s = upd_fd i (\<lambda>d. d\<lparr>fd_node := node, fd_flags := flags, fd_position := 0\<rparr>) s;
          s = (if flags AND O_TRUNC \<noteq> 0 then upd_node node (\<lambda>n. n\<lparr>n_size := 0\<rparr>) s else s);
          s = (if flags AND O_APPEND \<noteq> 0
               then upd_fd i (\<lambda>d. d\<lparr>fd_position := n_size (nodes s node)\<rparr>) s else s)
      in upd_node node (\<lambda>n. n\<lparr>n_open_count := n_open_count n + 1\<rparr>) s)"

definition open_node :: "optab \<Rightarrow> u32 \<Rightarrow> u32 \<Rightarrow> fs_state \<Rightarrow> (int \<times> fs_state) option" where
  "open_node ot node flags s =
     (let (fd, s) = fd_alloc s in
      if fd < 0 then Some (- 1, s)
      else
        (case (case op_open (node_ops ot node s) of None \<Rightarrow> Some (0, s) | Some opn \<Rightarrow> opn node flags s) of
           None \<Rightarrow> None
         | Some (r, s) \<Rightarrow>
             if r < 0 then Some (- 1, fd_free fd s)
             else Some (fd, open_finish (nat fd) node flags s)))"

definition vfs_open :: "optab \<Rightarrow> str \<Rightarrow> u32 \<Rightarrow> fs_state \<Rightarrow> (int \<times> fs_state) option" where
  "vfs_open ot pathname flags s =
     (case vfs_resolve_path ot pathname s of None \<Rightarrow> None
      | Some (node, s) \<Rightarrow>
          (case (if node = NULL \<and> flags AND O_CREAT \<noteq> 0 then open_create ot pathname s else Some (node, s)) of
             None \<Rightarrow> None
           | Some (node, s) \<Rightarrow> if node = NULL then Some (- 1, s) else open_node ot node flags s))"

definition vfs_close :: "optab \<Rightarrow> int \<Rightarrow> fs_state \<Rightarrow> (int \<times> fs_state) option" where
  "vfs_close ot fd s =
     (case fd_get fd s of None \<Rightarrow> Some (- 1, s)
      | Some file \<Rightarrow>
          (let node = fd_node file in
           case (case op_close (node_ops ot node s) of None \<Rightarrow> Some (0, s) | Some cls \<Rightarrow> cls node s) of
             None \<Rightarrow> None
           | Some (_, s) \<Rightarrow>
               (let s = (if n_open_count (nodes s node) > 0
                         then upd_node node (\<lambda>n. n\<lparr>n_open_count := n_open_count n - 1\<rparr>) s else s)
                in Some (0, fd_free fd s))))"

definition vfs_read :: "optab \<Rightarrow> int \<Rightarrow> u32 \<Rightarrow> u32 \<Rightarrow> fs_state \<Rightarrow> (int \<times> fs_state) option" where
  "vfs_read ot fd buffer sz s =
     (case fd_get fd s of None \<Rightarrow> Some (- 1, s)
      | Some file \<Rightarrow>
          if fd_flags file AND O_WRONLY \<noteq> 0 \<and> fd_flags file AND O_RDWR = 0 then Some (- 1, s)
          else
            (let node = fd_node file in
             case op_read (node_ops ot node s) of None \<Rightarrow> Some (- 1, s)
             | Some rd \<Rightarrow>
                 (case rd node (fd_position file) sz buffer s of None \<Rightarrow> None
                  | Some (bytes_read, s) \<Rightarrow>
                      Some (bytes_read,
                        if bytes_read > 0
                        then upd_fd (nat fd) (\<lambda>d. d\<lparr>fd_position := fd_position d + word_of_int bytes_read\<rparr>) s
                        else s))))"

definition vfs_write :: "optab \<Rightarrow> int \<Rightarrow> u32 \<Rightarrow> u32 \<Rightarrow> fs_state \<Rightarrow> (int \<times> fs_state) option" where
  "vfs_write ot fd buffer sz s =
     (case fd_get fd s of None \<Rightarrow> Some (- 1, s)
      | Some file \<Rightarrow>
          if fd_flags file AND O_RDONLY \<noteq> 0 \<and> fd_flags file AND O_RDWR = 0 then Some (- 1, s)
          else
            (let node = fd_node file in
             case op_write (node_ops ot node s) of None \<Rightarrow> Some (- 1, s)
             | Some wr \<Rightarrow>
                 (case wr node (fd_position file) sz buffer s of None \<Rightarrow> None
                  | Some (bytes_written, s) \<Rightarrow>
                      Some (bytes_written,
                        if bytes_written > 0 then
                          (let s = upd_fd (nat fd) (\<lambda>d. d\<lparr>fd_position := fd_position d + word_of_int bytes_written\<rparr>) s;
                               pos = fd_position (fd_table s ! nat fd)
                           in if pos > n_size (nodes s node) then upd_node node (\<lambda>n. n\<lparr>n_size := pos\<rparr>) s else s)
                        else s))))"

text \<open>\<open>offset\<close> is an \<open>int32_t\<close>: the sums wrap, and the sign is read off the 32 bits.\<close>

definition vfs_seek :: "int \<Rightarrow> u32 \<Rightarrow> int \<Rightarrow> fs_state \<Rightarrow> int \<times> fs_state" where
  "vfs_seek fd offset whence s =
     (case fd_get fd s of None \<Rightarrow> (- 1, s)
      | Some file \<Rightarrow>
          if whence \<noteq> 0 \<and> whence \<noteq> 1 \<and> whence \<noteq> 2 then (- 1, s)
          else
            (let new_pos = (if whence = 0 then offset
                            else if whence = 1 then fd_position file + offset
                            else n_size (nodes s (fd_node file)) + offset);
                 new_pos = (if sint new_pos < 0 then 0 else new_pos)
             in (sint new_pos, upd_fd (nat fd) (\<lambda>d. d\<lparr>fd_position := new_pos\<rparr>) s)))"

definition vfs_readdir :: "optab \<Rightarrow> int \<Rightarrow> u32 \<Rightarrow> fs_state \<Rightarrow> (dirent option \<times> fs_state) option" where
  "vfs_readdir ot fd index s =
     (case fd_get fd s of None \<Rightarrow> Some (None, s)
      | Some file \<Rightarrow>
          (let node = fd_node file in
           if n_type (nodes s node) \<noteq> VFS_DIRECTORY then Some (None, s)
           else
             (case op_readdir (node_ops ot node s) of None \<Rightarrow> Some (None, s)
              | Some rd \<Rightarrow> rd node index s)))"

section \<open>Directories\<close>

definition vfs_mkdir :: "optab \<Rightarrow> str \<Rightarrow> u32 \<Rightarrow> fs_state \<Rightarrow> (int \<times> fs_state) option" where
  "vfs_mkdir ot pathname mode s =
     (case resolve_parent ot pathname s of None \<Rightarrow> None
      | Some ((parent, dirname), s) \<Rightarrow>
          if parent = NULL then Some (- 1, s)
          else
            (case op_mkdir (node_ops ot parent s) of None \<Rightarrow> Some (- 1, s)
             | Some mk \<Rightarrow>
                 (case mk parent dirname mode s of None \<Rightarrow> None
                  | Some (new_dir, s) \<Rightarrow> Some (if new_dir \<noteq> NULL then 0 else - 1, s))))"

definition vfs_rmdir :: "optab \<Rightarrow> str \<Rightarrow> fs_state \<Rightarrow> (int \<times> fs_state) option" where
  "vfs_rmdir ot pathname s =
     (case resolve_parent ot pathname s of None \<Rightarrow> None
      | Some ((parent, dirname), s) \<Rightarrow>
          if parent = NULL then Some (- 1, s)
          else
            (case op_rmdir (node_ops ot parent s) of None \<Rightarrow> Some (- 1, s)
             | Some rm \<Rightarrow> rm parent dirname s))"

definition vfs_unlink :: "optab \<Rightarrow> str \<Rightarrow> fs_state \<Rightarrow> (int \<times> fs_state) option" where
  "vfs_unlink ot pathname s =
     (case resolve_parent ot pathname s of None \<Rightarrow> None
      | Some ((parent, filename), s) \<Rightarrow>
          if parent = NULL then Some (- 1, s)
          else
            (case op_unlink (node_ops ot parent s) of None \<Rightarrow> Some (- 1, s)
             | Some ul \<Rightarrow> ul parent filename s))"

section \<open>Mounts\<close>

text \<open>\<open>sizeof(vfs_mount_t)\<close> is 272.\<close>

definition vfs_mount :: "optab \<Rightarrow> str \<Rightarrow> str \<Rightarrow> u32 \<Rightarrow> fs_state \<Rightarrow> (int \<times> fs_state) option" where
  "vfs_mount ot pathname fs_type root s =
     (case vfs_resolve_path ot pathname s of None \<Rightarrow> None
      | Some (mount_point, s) \<Rightarrow>
          if mount_point = NULL then Some (- 1, s)
          else if n_type (nodes s mount_point) \<noteq> VFS_DIRECTORY then Some (- 1, s)
          else
            (case kmalloc 272 (fheap s) of None \<Rightarrow> None
             | Some (mount, h) \<Rightarrow>
                 (let s = s\<lparr>fheap := h\<rparr> in
                  if mount = NULL then Some (- 1, s)
                  else
                    (let s = s\<lparr>mounts := (mounts s)(mount := \<lparr>mt_path = take 255 pathname, mt_point = mount_point,
                               mt_root = root, mt_fs_type = fs_type, mt_next = mount_list s\<rparr>)\<rparr>;
                         s = upd_node mount_point (\<lambda>n. n\<lparr>n_mounted := root\<rparr>) s;
                         s = upd_node root (\<lambda>n. n\<lparr>n_parent := mount_point\<rparr>) s
                     in Some (0, s\<lparr>mount_list := mount\<rparr>)))))"

partial_function (option) unmount_loop :: "str \<Rightarrow> u32 \<Rightarrow> u32 \<Rightarrow> fs_state \<Rightarrow> (int \<times> fs_state) option" where
  "unmount_loop pathname prev cur s =
     (if cur \<noteq> NULL then
        (if mt_path (mounts s cur) = pathname then
           (let nxt = mt_next (mounts s cur);
                s = (if prev \<noteq> NULL then s\<lparr>mounts := (mounts s)(prev := (mounts s prev)\<lparr>mt_next := nxt\<rparr>)\<rparr>
                     else s\<lparr>mount_list := nxt\<rparr>);
                s = upd_node (mt_point (mounts s cur)) (\<lambda>n. n\<lparr>n_mounted := NULL\<rparr>) s
            in case kfree cur (fheap s) of None \<Rightarrow> None | Some h \<Rightarrow> Some (0, s\<lparr>fheap := h\<rparr>))
         else unmount_loop pathname cur (mt_next (mounts s cur)) s)
      else Some (- 1, s))"

definition vfs_unmount :: "str \<Rightarrow> fs_state \<Rightarrow> (int \<times> fs_state) option" where
  "vfs_unmount pathname s = unmount_loop pathname NULL (mount_list s) s"

section \<open>Utilities\<close>

definition vfs_stat :: "optab \<Rightarrow> str \<Rightarrow> fs_state \<Rightarrow> ((int \<times> vfs_node option) \<times> fs_state) option" where
  "vfs_stat ot pathname s =
     (case vfs_resolve_path ot pathname s of None \<Rightarrow> None
      | Some (node, s) \<Rightarrow> Some (if node = NULL then (- 1, None) else (0, Some (nodes s node)), s))"

definition vfs_exists :: "optab \<Rightarrow> str \<Rightarrow> fs_state \<Rightarrow> (bool \<times> fs_state) option" where
  "vfs_exists ot pathname s =
     (case vfs_resolve_path ot pathname s of None \<Rightarrow> None | Some (node, s) \<Rightarrow> Some (node \<noteq> NULL, s))"

definition vfs_getcwd :: "fs_state \<Rightarrow> str" where
  "vfs_getcwd s = (if vfs_cwd s \<noteq> NULL then n_name (nodes s (vfs_cwd s)) else [SLASH])"

definition vfs_chdir :: "optab \<Rightarrow> str \<Rightarrow> fs_state \<Rightarrow> (int \<times> fs_state) option" where
  "vfs_chdir ot pathname s =
     (case vfs_resolve_path ot pathname s of None \<Rightarrow> None
      | Some (node, s) \<Rightarrow>
          if node = NULL \<or> n_type (nodes s node) \<noteq> VFS_DIRECTORY then Some (- 1, s)
          else Some (0, s\<lparr>vfs_cwd := node\<rparr>))"

definition vfs_init :: "fs_state \<Rightarrow> fs_state" where
  "vfs_init s = s\<lparr>fd_table := replicate MAX_OPEN_FILES
       \<lparr>fd_node = NULL, fd_position = 0, fd_flags = 0, fd_in_use = False\<rparr>,
     vfs_root := NULL, vfs_cwd := NULL, mount_list := NULL\<rparr>"

section \<open>Paths against their definition\<close>

text \<open>The components of a path: the non-empty fields between slashes.\<close>

fun fields :: "str \<Rightarrow> str list" where
  "fields [] = [[]]"
| "fields (c # cs) = (if c = SLASH then [] # fields cs else (c # hd (fields cs)) # tl (fields cs))"

definition components :: "str \<Rightarrow> str list" where
  "components p = filter (\<lambda>w. w \<noteq> []) (fields p)"

lemma fields_not_Nil [simp]: "fields p \<noteq> []"
  by (cases p) auto

lemma hd_fields: "hd (fields p) = takeWhile (\<lambda>c. c \<noteq> SLASH) p"
  by (induction p) auto

lemma tl_fields:
  "tl (fields p) = (case dropWhile (\<lambda>c. c \<noteq> SLASH) p of [] \<Rightarrow> [] | _ # r \<Rightarrow> fields r)"
  by (induction p) auto

lemma components_skip [simp]: "components (skip_slashes p) = components p"
  by (induction p) (auto simp: components_def skip_slashes_def)

lemma components_first:
  assumes "p \<noteq> []" "hd p \<noteq> SLASH"
  shows "components p = takeWhile (\<lambda>c. c \<noteq> SLASH) p # components (dropWhile (\<lambda>c. c \<noteq> SLASH) p)"
proof -
  have ne: "takeWhile (\<lambda>c. c \<noteq> SLASH) p \<noteq> []" using assms by (cases p) auto
  have "fields p = takeWhile (\<lambda>c. c \<noteq> SLASH) p # tl (fields p)" by (metis hd_fields fields_not_Nil list.collapse)
  then have "components p = filter (\<lambda>w. w \<noteq> []) (takeWhile (\<lambda>c. c \<noteq> SLASH) p # tl (fields p))"
    unfolding components_def by (rule arg_cong)
  moreover have "filter (\<lambda>w. w \<noteq> []) (tl (fields p)) = components (dropWhile (\<lambda>c. c \<noteq> SLASH) p)"
  proof (cases "dropWhile (\<lambda>c. c \<noteq> SLASH) p")
    case Nil
    show ?thesis by (simp only: tl_fields Nil components_def) simp
  next
    case (Cons c r)
    then have "c = SLASH" using hd_dropWhile [of "\<lambda>c. c \<noteq> SLASH" p] by simp
    then show ?thesis using Cons by (simp add: tl_fields components_def)
  qed
  ultimately show ?thesis using ne by (simp only: filter.simps if_True not_False_eq_True)
qed

lemma skip_slashes_hd: "skip_slashes p \<noteq> [] \<Longrightarrow> hd (skip_slashes p) \<noteq> SLASH"
  unfolding skip_slashes_def using hd_dropWhile by blast

lemma drop_takeWhile [simp]: "drop (length (takeWhile P p)) p = dropWhile P p"
  by (simp add: dropWhile_eq_drop)

lemma path_components_exact:
  assumes "p = [] \<or> hd p \<noteq> SLASH" "\<forall>w \<in> set (components p). length w \<le> 255"
    and "count + length (components p) \<le> n"
  shows "path_components p count n = components p"
  using assms
proof (induction p count n rule: path_components.induct)
  case (1 p count n)
  show ?case
  proof (cases "p = []")
    case True
    then show ?thesis by (simp add: path_components.simps components_def)
  next
    case False
    let ?w = "takeWhile (\<lambda>c. c \<noteq> SLASH) p" and ?r = "skip_slashes (dropWhile (\<lambda>c. c \<noteq> SLASH) p)"
    note c = components_first [OF False] 
    have h: "hd p \<noteq> SLASH" using 1(3) False by simp
    then have w: "?w \<noteq> []" using False by (cases p) auto
    have "length ?w \<le> 255" using 1(4) c [OF h] by simp
    then have nc: "next_component p = ?w" by (simp add: next_component_def)
    then have r: "skip_slashes (drop (length (next_component p)) p) = ?r" by (simp add: drop_takeWhile)
    have lt: "count < n" using 1(5) c [OF h] by simp
    have "path_components ?r (count + 1) n = components ?r"
      using 1(1) [OF _ refl refl] False lt nc w r 1(4,5) c [OF h] skip_slashes_hd [of "dropWhile (\<lambda>c. c \<noteq> SLASH) p"] by auto
    then show ?thesis
      using False lt w nc r c [OF h] by (subst path_components.simps) (simp add: Let_def)
  qed
qed

lemma path_components_bounds:
  "length (path_components p count n) \<le> n - count \<and>
   (\<forall>w \<in> set (path_components p count n). w \<noteq> [] \<and> length w \<le> 255 \<and> SLASH \<notin> set w)"
proof (induction p count n rule: path_components.induct)
  case (1 p count n)
  have nc: "length (next_component p) \<le> 255" "SLASH \<notin> set (next_component p)"
    by (auto simp: next_component_def dest!: in_set_takeD set_takeWhileD)
  show ?case
  proof (cases "p \<noteq> [] \<and> count < n")
    case True
    then have e: "path_components p count n =
        (let rest = skip_slashes (drop (length (next_component p)) p) in
         if next_component p \<noteq> [] then next_component p # path_components rest (count + 1) n
         else path_components rest count n)"
      by (subst path_components.simps) (simp add: Let_def)
    show ?thesis
      using 1(1) [OF True refl refl] 1(2) [OF True refl refl] nc True
      by (cases "next_component p = []") (auto simp: e Let_def)
  next
    case False
    then have "path_components p count n = []" by (subst path_components.simps) auto
    then show ?thesis by simp
  qed
qed

section \<open>The descriptor table\<close>

lemma fd_search_Some:
  "fd_search ds i = Some j \<Longrightarrow> i \<le> j \<and> j < i + length ds \<and> \<not> fd_in_use (ds ! (j - i)) \<and>
     (\<forall>k. i \<le> k \<and> k < j \<longrightarrow> fd_in_use (ds ! (k - i)))"
proof (induction ds arbitrary: i)
  case (Cons d ds)
  show ?case
  proof (cases "fd_in_use d")
    case True
    with Cons.prems have "fd_search ds (Suc i) = Some j" by simp
    note IH = Cons.IH [OF this]
    then have j: "j - i = Suc (j - Suc i)" by auto
    have "fd_in_use ((d # ds) ! (k - i))" if "i \<le> k" "k < j" for k
    proof (cases "k = i")
      case False
      then have "k - i = Suc (k - Suc i)" using that by auto
      then show ?thesis using IH that False by simp
    qed (use True in simp)
    then show ?thesis using IH by (simp add: j)
  qed (use Cons.prems in auto)
qed simp

lemma fd_search_None: "fd_search ds i = None \<longleftrightarrow> (\<forall>d \<in> set ds. fd_in_use d)"
  by (induction ds arbitrary: i) auto

lemma upd_fd_simps [simp]:
  "nodes (upd_fd i f s) = nodes s" "fheap (upd_fd i f s) = fheap s" "fmem (upd_fd i f s) = fmem s"
  "ramfs_files (upd_fd i f s) = ramfs_files s" "ramfs_dirs (upd_fd i f s) = ramfs_dirs s"
  "vfs_root (upd_fd i f s) = vfs_root s" "vfs_cwd (upd_fd i f s) = vfs_cwd s"
  "length (fd_table (upd_fd i f s)) = length (fd_table s)"
  "i < length (fd_table s) \<Longrightarrow> fd_table (upd_fd i f s) ! i = f (fd_table s ! i)"
  "j \<noteq> i \<Longrightarrow> fd_table (upd_fd i f s) ! j = fd_table s ! j"
  by (simp_all add: upd_fd_def)

lemma upd_node_simps [simp]:
  "fd_table (upd_node n f s) = fd_table s" "fheap (upd_node n f s) = fheap s" "fmem (upd_node n f s) = fmem s"
  "ramfs_files (upd_node n f s) = ramfs_files s" "ramfs_dirs (upd_node n f s) = ramfs_dirs s"
  "vfs_root (upd_node n f s) = vfs_root s" "vfs_cwd (upd_node n f s) = vfs_cwd s"
  "nodes (upd_node n f s) n = f (nodes s n)" "m \<noteq> n \<Longrightarrow> nodes (upd_node n f s) m = nodes s m"
  by (simp_all add: upd_node_def)

lemma upd_commute: "upd_fd i f (upd_node n g s) = upd_node n g (upd_fd i f s)"
  by (simp add: upd_fd_def upd_node_def)

lemma upd_fd_upd_fd [simp]: "i < length (fd_table s) \<Longrightarrow> upd_fd i f (upd_fd i g s) = upd_fd i (f \<circ> g) s"
  by (simp add: upd_fd_def)

lemma upd_node_upd_node [simp]: "upd_node n f (upd_node n g s) = upd_node n (f \<circ> g) s"
  by (simp add: upd_node_def)

section \<open>What the VFS relies on: a backend leaves the descriptor table alone\<close>

definition keeps_fds :: "(fs_state \<Rightarrow> ('a \<times> fs_state) option) \<Rightarrow> bool" where
  "keeps_fds f \<longleftrightarrow> (\<forall>s r s'. f s = Some (r, s') \<longrightarrow> fd_table s' = fd_table s)"

lemma keeps_fdsI: "(\<And>s r s'. f s = Some (r, s') \<Longrightarrow> fd_table s' = fd_table s) \<Longrightarrow> keeps_fds f"
  by (auto simp: keeps_fds_def)

lemma keeps_fdsD: "keeps_fds f \<Longrightarrow> f s = Some (r, s') \<Longrightarrow> fd_table s' = fd_table s"
  by (auto simp: keeps_fds_def)

text \<open>The descriptor table is sound: 256 slots, those in use refer to a node, the others are cleared.\<close>

definition fd_clear :: file_descriptor where
  "fd_clear = \<lparr>fd_node = NULL, fd_position = 0, fd_flags = 0, fd_in_use = False\<rparr>"

definition fd_inv :: "fs_state \<Rightarrow> bool" where
  "fd_inv s \<longleftrightarrow> length (fd_table s) = MAX_OPEN_FILES \<and>
     (\<forall>d \<in> set (fd_table s). if fd_in_use d then fd_node d \<noteq> NULL else d = fd_clear)"

lemma fd_inv_cong: "fd_table s' = fd_table s \<Longrightarrow> fd_inv s' = fd_inv s"
  by (simp add: fd_inv_def)

lemma fd_inv_upd:
  "fd_inv s \<Longrightarrow> (if fd_in_use (f (fd_table s ! i)) then fd_node (f (fd_table s ! i)) \<noteq> NULL else f (fd_table s ! i) = fd_clear)
     \<Longrightarrow> fd_inv (upd_fd i f s)"
  using set_update_subset_insert [of "fd_table s" i "f (fd_table s ! i)"]
  by (auto simp: fd_inv_def upd_fd_def dest!: subsetD)

lemma fd_get_Some:
  assumes "fd_get fd s = Some file" "fd_inv s"
  shows "0 \<le> fd" "nat fd < length (fd_table s)" "fd_table s ! nat fd = file" "fd_in_use file" "fd_node file \<noteq> NULL"
proof -
  show f: "0 \<le> fd" "fd_table s ! nat fd = file" "fd_in_use file" using assms(1) by (auto simp: fd_get_def split: if_splits)
  show l: "nat fd < length (fd_table s)"
    using assms by (auto simp: fd_get_def fd_inv_def split: if_splits)
  then have "file \<in> set (fd_table s)" using f(2) nth_mem by blast
  then show "fd_node file \<noteq> NULL" using assms(2) f(3) by (auto simp: fd_inv_def)
qed

lemma fd_free_inv: "fd_inv s \<Longrightarrow> fd_inv (fd_free fd s)"
  by (auto simp: fd_free_def fd_clear_def intro!: fd_inv_upd)

lemma fd_alloc_cases:
  assumes "fd_alloc s = (fd, s')" "fd_inv s"
  obtains (full) "fd = - 1" "s' = s"
  | (slot) i where "fd = int i" "i < length (fd_table s)" "fd_table s ! i = fd_clear"
      "s' = upd_fd i (\<lambda>d. d\<lparr>fd_in_use := True, fd_position := 0\<rparr>) s"
proof (cases "fd_search (fd_table s) 0")
  case None
  then show thesis using assms(1) full by (simp add: fd_alloc_def)
next
  case (Some i)
  note i = fd_search_Some [OF this]
  then have "fd_table s ! i \<in> set (fd_table s)" by simp
  then have "fd_table s ! i = fd_clear" using assms(2) i by (auto simp: fd_inv_def)
  then show thesis using assms(1) Some i by (intro slot) (auto simp: fd_alloc_def)
qed

locale vfs_backend =
  fixes ot :: optab
  assumes open_keeps: "op_open (ot p) = Some f1 \<Longrightarrow> keeps_fds (f1 n fl)"
    and close_keeps: "op_close (ot p) = Some f2 \<Longrightarrow> keeps_fds (f2 n)"
    and read_keeps: "op_read (ot p) = Some f3 \<Longrightarrow> keeps_fds (f3 n off sz buf)"
    and write_keeps: "op_write (ot p) = Some f4 \<Longrightarrow> keeps_fds (f4 n off sz buf)"
    and readdir_keeps: "op_readdir (ot p) = Some f5 \<Longrightarrow> keeps_fds (f5 n idx)"
    and finddir_keeps: "op_finddir (ot p) = Some f6 \<Longrightarrow> keeps_fds (f6 n name)"
    and create_keeps: "op_create (ot p) = Some f7 \<Longrightarrow> keeps_fds (f7 n name mode)"
    and unlink_keeps: "op_unlink (ot p) = Some f8 \<Longrightarrow> keeps_fds (f8 n name)"
    and mkdir_keeps: "op_mkdir (ot p) = Some f9 \<Longrightarrow> keeps_fds (f9 n name mode)"
    and rmdir_keeps: "op_rmdir (ot p) = Some f10 \<Longrightarrow> keeps_fds (f10 n name)"
begin

lemma node_ops_keep:
  "op_open (node_ops ot m s) = Some f1 \<Longrightarrow> keeps_fds (f1 n fl)"
  "op_close (node_ops ot m s) = Some f2 \<Longrightarrow> keeps_fds (f2 n)"
  "op_read (node_ops ot m s) = Some f3 \<Longrightarrow> keeps_fds (f3 n off sz buf)"
  "op_write (node_ops ot m s) = Some f4 \<Longrightarrow> keeps_fds (f4 n off sz buf)"
  "op_readdir (node_ops ot m s) = Some f5 \<Longrightarrow> keeps_fds (f5 n idx)"
  "op_finddir (node_ops ot m s) = Some f6 \<Longrightarrow> keeps_fds (f6 n name)"
  "op_create (node_ops ot m s) = Some f7 \<Longrightarrow> keeps_fds (f7 n name mode)"
  "op_unlink (node_ops ot m s) = Some f8 \<Longrightarrow> keeps_fds (f8 n name)"
  "op_mkdir (node_ops ot m s) = Some f9 \<Longrightarrow> keeps_fds (f9 n name mode)"
  "op_rmdir (node_ops ot m s) = Some f10 \<Longrightarrow> keeps_fds (f10 n name)"
  by (auto simp: node_ops_def no_ops_def split: if_splits
      intro: open_keeps close_keeps read_keeps write_keeps readdir_keeps finddir_keeps create_keeps
        unlink_keeps mkdir_keeps rmdir_keeps)

lemma walk_keeps: "walk_path ot cs cur s = Some (r, s') \<Longrightarrow> fd_table s' = fd_table s"
proof (induction cs arbitrary: cur s)
  case (Cons c cs)
  let ?cur = "if n_mounted (nodes s cur) \<noteq> NULL then n_mounted (nodes s cur) else cur"
  have step: "fd_table s' = fd_table s"
    if "op_finddir (node_ops ot ?cur s) = Some f" "f ?cur c s = Some (child, s1)"
      "(if child = NULL then Some (NULL, s1) else walk_path ot cs child s1) = Some (r, s')" for f child s1
    using keeps_fdsD [OF node_ops_keep(6) [OF that(1)] that(2)] that(3) Cons.IH [of child s1]
    by (auto split: if_splits)
  show ?case
    using Cons.prems Cons.IH step
    by (simp only: walk_path.simps Let_def) (auto split: if_split_asm option.split_asm prod.split_asm)
qed simp

lemma resolve_keeps: "vfs_resolve_path ot p s = Some (r, s') \<Longrightarrow> fd_table s' = fd_table s"
  by (auto simp: vfs_resolve_path_def Let_def split: if_splits dest: walk_keeps)

lemma parent_keeps: "resolve_parent ot p s = Some (r, s') \<Longrightarrow> fd_table s' = fd_table s"
  by (auto simp: resolve_parent_def split: option.splits prod.splits dest: resolve_keeps)

end

text \<open>The calls of the file system interface as steps of the state.\<close>

inductive vfs_step :: "optab \<Rightarrow> fs_state \<Rightarrow> fs_state \<Rightarrow> bool" for ot where
  s_open: "vfs_open ot p flags s = Some (r, s') \<Longrightarrow> vfs_step ot s s'"
| s_close: "vfs_close ot fd s = Some (r, s') \<Longrightarrow> vfs_step ot s s'"
| s_read: "vfs_read ot fd buf sz s = Some (r, s') \<Longrightarrow> vfs_step ot s s'"
| s_write: "vfs_write ot fd buf sz s = Some (r, s') \<Longrightarrow> vfs_step ot s s'"
| s_seek: "vfs_seek fd off whence s = (r, s') \<Longrightarrow> vfs_step ot s s'"
| s_readdir: "vfs_readdir ot fd idx s = Some (r2, s') \<Longrightarrow> vfs_step ot s s'"
| s_mkdir: "vfs_mkdir ot p mode s = Some (r, s') \<Longrightarrow> vfs_step ot s s'"
| s_rmdir: "vfs_rmdir ot p s = Some (r, s') \<Longrightarrow> vfs_step ot s s'"
| s_unlink: "vfs_unlink ot p s = Some (r, s') \<Longrightarrow> vfs_step ot s s'"
| s_mount: "vfs_mount ot p ty root s = Some (r, s') \<Longrightarrow> vfs_step ot s s'"
| s_unmount: "vfs_unmount p s = Some (r, s') \<Longrightarrow> vfs_step ot s s'"
| s_chdir: "vfs_chdir ot p s = Some (r, s') \<Longrightarrow> vfs_step ot s s'"

lemma unmount_keeps: "unmount_loop p prev cur s = Some r \<Longrightarrow> fd_table (snd r) = fd_table s"
proof (erule unmount_loop.raw_induct [rotated])
  fix k p prev cur s r
  assume IH: "\<And>p prev cur s r. k p prev cur s = Some r \<Longrightarrow> fd_table (snd r) = fd_table s"
    and e: "(if cur \<noteq> NULL then
        (if mt_path (mounts s cur) = p then
           (let nxt = mt_next (mounts s cur);
                s = (if prev \<noteq> NULL then s\<lparr>mounts := (mounts s)(prev := (mounts s prev)\<lparr>mt_next := nxt\<rparr>)\<rparr>
                     else s\<lparr>mount_list := nxt\<rparr>);
                s = upd_node (mt_point (mounts s cur)) (\<lambda>n. n\<lparr>n_mounted := NULL\<rparr>) s
            in case kfree cur (fheap s) of None \<Rightarrow> None | Some h \<Rightarrow> Some (0, s\<lparr>fheap := h\<rparr>))
         else k p cur (mt_next (mounts s cur)) s)
      else Some (- 1, s)) = Some r"
  show "fd_table (snd r) = fd_table s"
    using e IH by (auto simp: Let_def split: if_splits option.splits)
qed

lemma fd_inv_set:
  assumes "fd_inv s" "fd_table s' = (fd_table s)[i := d]" "if fd_in_use d then fd_node d \<noteq> NULL else d = fd_clear"
  shows "fd_inv s'"
proof -
  have "fd_inv (upd_fd i (\<lambda>_. d) s)" by (rule fd_inv_upd [OF assms(1)]) (rule assms(3))
  moreover have "fd_table (upd_fd i (\<lambda>_. d) s) = fd_table s'" by (simp add: upd_fd_def assms(2))
  ultimately show ?thesis using fd_inv_cong by blast
qed

lemma open_finish_table:
  assumes "i < length (fd_table s)" "fd_in_use (fd_table s ! i)"
  shows "\<exists>pos. fd_table (open_finish i node flags s) =
    (fd_table s)[i := \<lparr>fd_node = node, fd_position = pos, fd_flags = flags, fd_in_use = True\<rparr>]"
  using assms by (cases "fd_table s ! i") (auto simp: open_finish_def Let_def upd_fd_def upd_node_def)

context vfs_backend
begin

lemma open_node_inv:
  assumes inv: "fd_inv s" and nn: "node \<noteq> NULL" and o: "open_node ot node flags s = Some (r, s')"
  shows "fd_inv s'"
proof -
  obtain fd s0 where al: "fd_alloc s = (fd, s0)" by (cases "fd_alloc s")
  from al inv show ?thesis
  proof (cases rule: fd_alloc_cases)
    case full
    then show ?thesis using o al inv by (simp add: open_node_def)
  next
    case (slot i)
    let ?op = "case op_open (node_ops ot node s0) of None \<Rightarrow> Some (0, s0) | Some opn \<Rightarrow> opn node flags s0"
    obtain q s1 where q: "?op = Some (q, s1)"
      using o al slot(1) by (auto simp: open_node_def split: option.splits)
    have "fd_table s1 = fd_table s0"
      using q keeps_fdsD [OF node_ops_keep(1)] by (auto split: option.splits)
    then have t: "fd_table s1 = (fd_table s)[i := fd_clear\<lparr>fd_in_use := True, fd_position := 0\<rparr>]"
      using slot by (simp add: upd_fd_def)
    show ?thesis
    proof (cases "q < 0")
      case True
      then have s': "s' = fd_free (int i) s1" using o al slot(1) q by (simp add: open_node_def)
      have "i < 256" using inv slot(2) by (simp add: fd_inv_def)
      then have "fd_table s' = (fd_table s)[i := fd_clear]" using t by (simp add: s' fd_free_def upd_fd_def fd_clear_def)
      then show ?thesis by (rule fd_inv_set [OF inv]) (simp add: fd_clear_def)
    next
      case False
      then have s': "s' = open_finish i node flags s1"
        using o al slot(1) q by (auto simp: open_node_def)
      have "i < length (fd_table s1)" "fd_in_use (fd_table s1 ! i)" using t slot(2) by simp_all
      from open_finish_table [OF this, of node flags] obtain pos where "fd_table s' =
          (fd_table s)[i := \<lparr>fd_node = node, fd_position = pos, fd_flags = flags, fd_in_use = True\<rparr>]"
        by (auto simp: s' t)
      then show ?thesis by (rule fd_inv_set [OF inv]) (simp add: nn)
    qed
  qed
qed

lemma open_inv:
  assumes inv: "fd_inv s" and o: "vfs_open ot p flags s = Some (r, s')"
  shows "fd_inv s'"
proof -
  obtain node s1 where rp: "vfs_resolve_path ot p s = Some (node, s1)"
    using o by (auto simp: vfs_open_def split: option.splits)
  let ?c = "if node = NULL \<and> flags AND O_CREAT \<noteq> 0 then open_create ot p s1 else Some (node, s1)"
  obtain node2 s2 where c: "?c = Some (node2, s2)" using o rp by (auto simp: vfs_open_def split: option.splits)
  have "fd_table s2 = fd_table s1"
    using c by (auto simp: open_create_def split: if_splits option.splits prod.splits
        dest!: parent_keeps keeps_fdsD [OF node_ops_keep(7)])
  then have "fd_inv s2" using fd_inv_cong [of s2 s] resolve_keeps [OF rp] inv by simp
  then show ?thesis
    using o rp c open_node_inv [of s2 node2] by (auto simp: vfs_open_def split: if_splits)
qed

lemma close_inv:
  assumes inv: "fd_inv s" and c: "vfs_close ot fd s = Some (r, s')"
  shows "fd_inv s'"
proof (cases "fd_get fd s")
  case None
  then show ?thesis using c inv by (simp add: vfs_close_def)
next
  case (Some fl)
  then obtain q s1 where q: "(case op_close (node_ops ot (fd_node fl) s) of None \<Rightarrow> Some (0, s)
      | Some cls \<Rightarrow> cls (fd_node fl) s) = Some (q, s1)"
    using c by (auto simp: vfs_close_def Let_def split: option.splits)
  then have "fd_table s1 = fd_table s" using keeps_fdsD [OF node_ops_keep(2)] by (auto split: option.splits)
  then have "fd_inv s1" using inv fd_inv_cong by blast
  then have "fd_inv (upd_node n f s1)" for n f using fd_inv_cong [of "upd_node n f s1" s1] by simp
  with \<open>fd_inv s1\<close> show ?thesis
    using c Some q by (auto simp: vfs_close_def Let_def intro: fd_free_inv split: if_splits)
qed

lemma position_inv:
  assumes "fd_inv s" "fd_get fd s = Some file" "fd_table s1 = fd_table s"
  shows "fd_inv (upd_fd (nat fd) (\<lambda>d. d\<lparr>fd_position := f d\<rparr>) s1)"
  using fd_get_Some [OF assms(2,1)] assms(3) by (intro fd_inv_upd) (use assms(1) fd_inv_cong [OF assms(3)] in auto)

lemma read_cases:
  assumes "vfs_read ot fd buf sz s = Some (r, s')" "fd_get fd s = Some fl"
  obtains (refused) "s' = s"
  | (moved) s1 where "fd_table s1 = fd_table s"
      "s' = (if r > 0 then upd_fd (nat fd) (\<lambda>d. d\<lparr>fd_position := fd_position d + word_of_int r\<rparr>) s1 else s1)"
proof (cases "(fd_flags fl AND O_WRONLY \<noteq> 0 \<and> fd_flags fl AND O_RDWR = 0) \<or> op_read (node_ops ot (fd_node fl) s) = None")
  case True
  then show thesis using refused assms by (auto simp: vfs_read_def Let_def split: if_splits)
next
  case False
  then obtain rd where rd: "op_read (node_ops ot (fd_node fl) s) = Some rd" by auto
  then obtain s1 where s1: "rd (fd_node fl) (fd_position fl) sz buf s = Some (r, s1)"
      "s' = (if r > 0 then upd_fd (nat fd) (\<lambda>d. d\<lparr>fd_position := fd_position d + word_of_int r\<rparr>) s1 else s1)"
    using False assms by (auto simp: vfs_read_def Let_def split: option.splits)
  show thesis by (rule moved [OF keeps_fdsD [OF node_ops_keep(3) [OF rd] s1(1)] s1(2)])
qed

lemma read_inv:
  assumes inv: "fd_inv s" and c: "vfs_read ot fd buf sz s = Some (r, s')"
  shows "fd_inv s'"
proof (cases "fd_get fd s")
  case (Some fl)
  from c Some show ?thesis
  proof (cases rule: read_cases)
    case (moved s1)
    then show ?thesis using position_inv [OF inv Some moved(1)] inv fd_inv_cong [OF moved(1)] by simp
  qed (use inv in simp)
qed (use c inv in \<open>simp add: vfs_read_def\<close>)

lemma write_cases:
  assumes "vfs_write ot fd buf sz s = Some (r, s')" "fd_get fd s = Some fl"
  obtains (refused) "s' = s"
  | (moved) s1 s2 where "fd_table s1 = fd_table s" "fd_table s' = fd_table s2"
      "s2 = (if r > 0 then upd_fd (nat fd) (\<lambda>d. d\<lparr>fd_position := fd_position d + word_of_int r\<rparr>) s1 else s1)"
proof (cases "(fd_flags fl AND O_RDONLY \<noteq> 0 \<and> fd_flags fl AND O_RDWR = 0) \<or> op_write (node_ops ot (fd_node fl) s) = None")
  case True
  then show thesis using refused assms by (auto simp: vfs_write_def Let_def split: if_splits)
next
  case False
  then obtain wr where wr: "op_write (node_ops ot (fd_node fl) s) = Some wr" by auto
  then obtain s1 where s1: "wr (fd_node fl) (fd_position fl) sz buf s = Some (r, s1)"
      "fd_table s' = fd_table (if r > 0 then upd_fd (nat fd) (\<lambda>d. d\<lparr>fd_position := fd_position d + word_of_int r\<rparr>) s1 else s1)"
    using False assms by (auto simp: vfs_write_def Let_def split: option.splits)
  show thesis by (rule moved [OF keeps_fdsD [OF node_ops_keep(4) [OF wr] s1(1)] s1(2) refl])
qed

lemma write_inv:
  assumes inv: "fd_inv s" and c: "vfs_write ot fd buf sz s = Some (r, s')"
  shows "fd_inv s'"
proof (cases "fd_get fd s")
  case (Some fl)
  from c Some show ?thesis
  proof (cases rule: write_cases)
    case (moved s1 s2)
    then have "fd_inv s2" using position_inv [OF inv Some moved(1)] inv fd_inv_cong [OF moved(1)] by simp
    then show ?thesis using moved(2) fd_inv_cong by blast
  qed (use inv in simp)
qed (use c inv in \<open>simp add: vfs_write_def\<close>)

lemma seek_inv:
  assumes inv: "fd_inv s" and c: "vfs_seek fd off wh s = (r, s')"
  shows "fd_inv s'"
  using c inv position_inv [OF inv _ refl]
  by (cases "fd_get fd s") (auto simp: vfs_seek_def Let_def split: if_splits)

lemma step_inv:
  assumes "vfs_step ot s s'" "fd_inv s"
  shows "fd_inv s'"
  using assms(1)
proof cases
  case (s_readdir fd idx r2)
  have "fd_table s' = fd_table s"
    using s_readdir by (auto simp: vfs_readdir_def Let_def split: option.splits if_splits
        dest: keeps_fdsD [OF node_ops_keep(5)])
  then show ?thesis using assms(2) fd_inv_cong by blast
next
  case (s_mkdir p mode r)
  have "fd_table s' = fd_table s"
    using s_mkdir by (auto simp: vfs_mkdir_def split: option.splits if_splits prod.splits
        dest!: keeps_fdsD [OF node_ops_keep(9)] parent_keeps)
  then show ?thesis using assms(2) fd_inv_cong by blast
next
  case (s_rmdir p r)
  have "fd_table s' = fd_table s"
    using s_rmdir by (auto simp: vfs_rmdir_def split: option.splits if_splits prod.splits
        dest!: keeps_fdsD [OF node_ops_keep(10)] parent_keeps)
  then show ?thesis using assms(2) fd_inv_cong by blast
next
  case (s_unlink p r)
  have "fd_table s' = fd_table s"
    using s_unlink by (auto simp: vfs_unlink_def split: option.splits if_splits prod.splits
        dest!: keeps_fdsD [OF node_ops_keep(8)] parent_keeps)
  then show ?thesis using assms(2) fd_inv_cong by blast
next
  case (s_mount p ty root r)
  have "fd_table s' = fd_table s"
    using s_mount by (auto simp: vfs_mount_def Let_def split: option.splits if_splits prod.splits dest!: resolve_keeps)
  then show ?thesis using assms(2) fd_inv_cong by blast
next
  case (s_unmount p r)
  then show ?thesis using unmount_keeps [of p NULL "mount_list s" s "(r, s')"] assms(2) fd_inv_cong [of s' s]
    by (simp add: vfs_unmount_def)
next
  case (s_chdir p r)
  have "fd_table s' = fd_table s"
    using s_chdir by (auto simp: vfs_chdir_def split: option.splits if_splits prod.splits dest!: resolve_keeps)
  then show ?thesis using assms(2) fd_inv_cong by blast
next
  case (s_open p fl r)
  then show ?thesis by (rule open_inv [OF assms(2)])
next
  case (s_close fd r)
  then show ?thesis by (rule close_inv [OF assms(2)])
next
  case (s_read fd buf sz r)
  then show ?thesis by (rule read_inv [OF assms(2)])
next
  case (s_write fd buf sz r)
  then show ?thesis by (rule write_inv [OF assms(2)])
next
  case (s_seek fd off wh r)
  then show ?thesis by (rule seek_inv [OF assms(2)])
qed

lemma steps_inv: "(vfs_step ot)\<^sup>*\<^sup>* s s' \<Longrightarrow> fd_inv s \<Longrightarrow> fd_inv s'"
  by (induction rule: rtranclp_induct) (auto intro: step_inv)

end

text \<open>A file system whose nodes can always be opened and closed: its \<open>open\<close> accepts every node and its \<open>close\<close> returns. Then the descriptor table
  alone decides about \<open>vfs_open\<close> of a path that leads to a node, and every open descriptor can be closed.\<close>

locale prompt_backend = vfs_backend +
  assumes open_accepts: "op_open (ot p) = Some f1 \<Longrightarrow> n \<noteq> NULL \<Longrightarrow> \<exists>s'. f1 n fl s = Some (0, s')"
    and close_returns: "op_close (ot p) = Some f2 \<Longrightarrow> n \<noteq> NULL \<Longrightarrow> \<exists>r s'. f2 n s = Some (r, s')"
begin

lemma node_opens:
  assumes "n \<noteq> NULL"
  shows "\<exists>s'. (case op_open (node_ops ot n s) of None \<Rightarrow> Some (0, s) | Some opn \<Rightarrow> opn n fl s) = Some (0, s') \<and> fd_table s' = fd_table s"
    "\<exists>r s'. (case op_close (node_ops ot n s) of None \<Rightarrow> Some (0, s) | Some cls \<Rightarrow> cls n s) = Some (r, s') \<and> fd_table s' = fd_table s"
proof -
  show "\<exists>s'. (case op_open (node_ops ot n s) of None \<Rightarrow> Some (0, s) | Some opn \<Rightarrow> opn n fl s) = Some (0, s') \<and> fd_table s' = fd_table s"
  proof (cases "op_open (node_ops ot n s)")
    case (Some f)
    then have "op_open (ot (n_ops (nodes s n))) = Some f" by (auto simp: node_ops_def no_ops_def split: if_splits)
    from open_accepts [OF this assms] obtain s' where "f n fl s = Some (0, s')" by blast
    then show ?thesis using Some keeps_fdsD [OF node_ops_keep(1) [OF Some]] by auto
  qed simp
  show "\<exists>r s'. (case op_close (node_ops ot n s) of None \<Rightarrow> Some (0, s) | Some cls \<Rightarrow> cls n s) = Some (r, s') \<and> fd_table s' = fd_table s"
  proof (cases "op_close (node_ops ot n s)")
    case (Some f)
    then have "op_close (ot (n_ops (nodes s n))) = Some f" by (auto simp: node_ops_def no_ops_def split: if_splits)
    from close_returns [OF this assms] obtain r s' where "f n s = Some (r, s')" by blast
    then show ?thesis using Some keeps_fdsD [OF node_ops_keep(2) [OF Some]] by auto
  qed simp
qed

lemma open_full:
  assumes "vfs_resolve_path ot p s = Some (node, s1)" "node \<noteq> NULL" "\<forall>d \<in> set (fd_table s). fd_in_use d"
  shows "vfs_open ot p flags s = Some (- 1, s1)"
proof -
  have "fd_search (fd_table s1) 0 = None" using assms(3) resolve_keeps [OF assms(1)] by (simp add: fd_search_None)
  then show ?thesis using assms(1,2) by (simp add: vfs_open_def open_node_def fd_alloc_def)
qed

lemma open_lowest:
  assumes inv: "fd_inv s" and rp: "vfs_resolve_path ot p s = Some (node, s1)" "node \<noteq> NULL" and free: "\<not> (\<forall>d \<in> set (fd_table s). fd_in_use d)"
  shows "\<exists>i pos s'. vfs_open ot p flags s = Some (int i, s') \<and> i < length (fd_table s) \<and> \<not> fd_in_use (fd_table s ! i) \<and>
    (\<forall>j < i. fd_in_use (fd_table s ! j)) \<and>
    fd_table s' = (fd_table s)[i := \<lparr>fd_node = node, fd_position = pos, fd_flags = flags, fd_in_use = True\<rparr>]"
proof -
  note t1 = resolve_keeps [OF rp(1)]
  obtain i where i: "fd_search (fd_table s) 0 = Some i" using free fd_search_None [of "fd_table s" 0] by (cases "fd_search (fd_table s) 0") auto
  note low = fd_search_Some [OF i]
  let ?s = "upd_fd i (\<lambda>d. d\<lparr>fd_in_use := True, fd_position := 0\<rparr>) s1"
  obtain s2 where s2: "(case op_open (node_ops ot node ?s) of None \<Rightarrow> Some (0, ?s) | Some opn \<Rightarrow> opn node flags ?s) = Some (0, s2)" "fd_table s2 = fd_table ?s"
    using node_opens(1) [OF rp(2)] by blast
  have "i < length (fd_table s2)" "fd_in_use (fd_table s2 ! i)" using low t1 s2(2) by simp_all
  from open_finish_table [OF this, of node flags] obtain pos where
    pos: "fd_table (open_finish i node flags s2) = (fd_table s2)[i := \<lparr>fd_node = node, fd_position = pos, fd_flags = flags, fd_in_use = True\<rparr>]" by blast
  have "vfs_open ot p flags s = Some (int i, open_finish i node flags s2)"
    using rp i t1 s2(1) by (simp add: vfs_open_def open_node_def fd_alloc_def)
  moreover have "(fd_table s2)[i := d] = (fd_table s)[i := d]" for d using s2(2) t1 by (simp add: upd_fd_def)
  ultimately show ?thesis using low pos by auto
qed

lemma close_clears:
  assumes inv: "fd_inv s" and fd: "fd_get fd s = Some file"
  shows "\<exists>s'. vfs_close ot fd s = Some (0, s') \<and> fd_table s' = (fd_table s)[nat fd := fd_clear]"
proof -
  note g = fd_get_Some [OF fd inv]
  obtain r s1 where s1: "(case op_close (node_ops ot (fd_node file) s) of None \<Rightarrow> Some (0, s) | Some cls \<Rightarrow> cls (fd_node file) s) = Some (r, s1)"
    "fd_table s1 = fd_table s"
    using node_opens(2) [OF g(5)] by blast
  have "fd < int MAX_OPEN_FILES" using g(1,2) inv by (simp add: fd_inv_def nat_less_iff)
  then show ?thesis using fd s1 g(1) by (simp add: vfs_close_def Let_def fd_free_def upd_fd_def fd_clear_def)
qed

end

section \<open>Properties\<close>

text \<open>C17: splitting a path. For every path \<open>path_split\<close> returns, gives at most as many components as asked
  for, and each of them is not empty, has no slash and fits its buffer of 256 bytes. When no component is longer
  than 255 characters and there are not too many, the result is exactly the list of the non-empty
  fields between slashes, however many slashes stand together.\<close>

theorem path_split_components:
  "length (path_split p n) \<le> n \<and>
   (\<forall>w \<in> set (path_split p n). w \<noteq> [] \<and> length w < 256 \<and> SLASH \<notin> set w) \<and>
   ((\<forall>w \<in> set (components p). length w \<le> 255) \<and> length (components p) \<le> n \<longrightarrow> path_split p n = components p)"
proof -
  have "skip_slashes p = [] \<or> hd (skip_slashes p) \<noteq> SLASH" using skip_slashes_hd by blast
  then show ?thesis
    using path_components_bounds [of "skip_slashes p" 0 n] path_components_exact [of "skip_slashes p" 0 n]
    by (auto simp: path_split_def less_Suc_eq_le)
qed

theorem path_split_components_witness:
  "path_split [47, 98, 105, 110, 47, 47, 115, 104, 47] 32 = [[98, 105, 110], [115, 104]]"
  using path_split_components [of "[47, 98, 105, 110, 47, 47, 115, 104, 47]" 32] by (simp add: components_def)

end
