(* ===== verification/Ramfs.thy ===== *)
theory Ramfs
  imports Vfs
begin

text \<open>
  The RAM file system of \<open>src/fs/ramfs.c\<close>, over the kernel heap: a directory's structure is the head of
  the list of its children, linked through \<open>next\<close> of the nodes; a file's structure points to its
  bytes. The loops that follow the list of children are partial (\<open>None\<close>: the list has no end).
\<close>

section \<open>Nodes and the list of children\<close>

text \<open>\<open>sizeof(vfs_node_t)\<close> is 308, \<open>sizeof(ramfs_dir_t)\<close> 4 and \<open>sizeof(ramfs_file_t)\<close> 12.\<close>

definition fs_kmalloc :: "u32 \<Rightarrow> fs_state \<Rightarrow> (u32 \<times> fs_state) option" where
  "fs_kmalloc n s = (case kmalloc n (fheap s) of None \<Rightarrow> None | Some (p, h) \<Rightarrow> Some (p, s\<lparr>fheap := h\<rparr>))"

definition fs_kfree :: "u32 \<Rightarrow> fs_state \<Rightarrow> fs_state option" where
  "fs_kfree p s = (case kfree p (fheap s) of None \<Rightarrow> None | Some h \<Rightarrow> Some (s\<lparr>fheap := h\<rparr>))"

definition ramfs_alloc_node :: "str \<Rightarrow> vfs_node_type \<Rightarrow> u32 \<Rightarrow> fs_state \<Rightarrow> (u32 \<times> fs_state) option" where
  "ramfs_alloc_node name type mode s =
     (case fs_kmalloc 308 s of None \<Rightarrow> None
      | Some (node, s) \<Rightarrow>
          if node = NULL then Some (NULL, s)
          else Some (node, s\<lparr>nodes := (nodes s)(node := \<lparr>n_name = take 255 name, n_inode = node, n_size = 0,
                 n_mode = mode, n_uid = 0, n_gid = 0, n_flags = 0, n_type = type, n_open_count = 0, n_impl = NULL,
                 n_ops = RAMFS_OPS, n_parent = NULL, n_next = NULL, n_mounted = NULL\<rparr>)\<rparr>))"

definition ramfs_attach_child :: "u32 \<Rightarrow> u32 \<Rightarrow> fs_state \<Rightarrow> fs_state option" where
  "ramfs_attach_child parent child s =
     (if parent = NULL \<or> child = NULL then Some s
      else
        (case (if n_impl (nodes s parent) = NULL then
                 (case fs_kmalloc 4 s of None \<Rightarrow> None
                  | Some (dir, s) \<Rightarrow>
                      if dir = NULL then Some (NULL, s)
                      else Some (dir, upd_node parent (\<lambda>n. n\<lparr>n_impl := dir\<rparr>)
                                        (s\<lparr>ramfs_dirs := (ramfs_dirs s)(dir := NULL)\<rparr>)))
               else Some (n_impl (nodes s parent), s)) of
           None \<Rightarrow> None
         | Some (dir, s) \<Rightarrow>
             if dir = NULL then Some s
             else
               (let s = upd_node child (\<lambda>n. n\<lparr>n_next := ramfs_dirs s dir\<rparr>) s;
                    s = s\<lparr>ramfs_dirs := (ramfs_dirs s)(dir := child)\<rparr>
                in Some (upd_node child (\<lambda>n. n\<lparr>n_parent := parent\<rparr>) s))))"

text \<open>\<open>prev\<close> is \<open>&dir->children\<close> (here \<open>NULL\<close>) or the \<open>next\<close> field of a node.\<close>

partial_function (option) detach_loop :: "str \<Rightarrow> u32 \<Rightarrow> u32 \<Rightarrow> u32 \<Rightarrow> fs_state \<Rightarrow> (u32 \<times> fs_state) option" where
  "detach_loop name dir prev cur s =
     (if cur \<noteq> NULL then
        (if n_name (nodes s cur) = name then
           (let nxt = n_next (nodes s cur);
                s = (if prev = NULL then s\<lparr>ramfs_dirs := (ramfs_dirs s)(dir := nxt)\<rparr>
                     else upd_node prev (\<lambda>n. n\<lparr>n_next := nxt\<rparr>) s)
            in Some (cur, upd_node cur (\<lambda>n. n\<lparr>n_next := NULL, n_parent := NULL\<rparr>) s))
         else detach_loop name dir cur (n_next (nodes s cur)) s)
      else Some (NULL, s))"

definition ramfs_detach_child :: "u32 \<Rightarrow> str \<Rightarrow> fs_state \<Rightarrow> (u32 \<times> fs_state) option" where
  "ramfs_detach_child parent name s =
     (if parent = NULL \<or> n_impl (nodes s parent) = NULL then Some (NULL, s)
      else detach_loop name (n_impl (nodes s parent)) NULL (ramfs_dirs s (n_impl (nodes s parent))) s)"

section \<open>Files\<close>

definition ramfs_open :: "u32 \<Rightarrow> u32 \<Rightarrow> fs_state \<Rightarrow> (int \<times> fs_state) option" where
  "ramfs_open node flags s =
     (if node = NULL then Some (- 1, s)
      else Some (0, upd_node node (\<lambda>n. n\<lparr>n_open_count := n_open_count n + 1\<rparr>) s))"

definition ramfs_close :: "u32 \<Rightarrow> fs_state \<Rightarrow> (int \<times> fs_state) option" where
  "ramfs_close node s =
     (if node = NULL then Some (- 1, s)
      else Some (0, if n_open_count (nodes s node) > 0
                    then upd_node node (\<lambda>n. n\<lparr>n_open_count := n_open_count n - 1\<rparr>) s else s))"

definition ramfs_read :: "u32 \<Rightarrow> u32 \<Rightarrow> u32 \<Rightarrow> u32 \<Rightarrow> fs_state \<Rightarrow> (int \<times> fs_state) option" where
  "ramfs_read node offset sz buffer s =
     (if node = NULL \<or> n_type (nodes s node) \<noteq> VFS_FILE \<or> buffer = NULL then Some (- 1, s)
      else
        (let f = n_impl (nodes s node); file = ramfs_files s f in
         if f = NULL \<or> rf_data file = NULL then Some (0, s)
         else if offset \<ge> rf_size file then Some (0, s)
         else
           (let bytes_to_read = (if offset + sz > rf_size file then rf_size file - offset else sz)
            in Some (sint bytes_to_read,
                 s\<lparr>fmem := memcpy buffer (rf_data file + offset) bytes_to_read (fmem s)\<rparr>))))"

definition set_file :: "u32 \<Rightarrow> ramfs_file \<Rightarrow> fs_state \<Rightarrow> fs_state" where
  "set_file f r s = s\<lparr>ramfs_files := (ramfs_files s)(f := r)\<rparr>"

text \<open>The resize step of \<open>ramfs_write\<close>; \<open>False\<close> when the heap has no room.\<close>

definition grow_file :: "u32 \<Rightarrow> u32 \<Rightarrow> fs_state \<Rightarrow> (bool \<times> fs_state) option" where
  "grow_file f required_size s =
     (if required_size > rf_capacity (ramfs_files s f) then
        (let new_capacity = (required_size + 255) AND NOT 255 in
         case fs_kmalloc new_capacity s of None \<Rightarrow> None
         | Some (new_data, s) \<Rightarrow>
             if new_data = NULL then Some (False, s)
             else
               (let file = ramfs_files s f;
                    s = (if rf_data file \<noteq> NULL \<and> rf_size file > 0
                         then s\<lparr>fmem := memcpy new_data (rf_data file) (rf_size file) (fmem s)\<rparr> else s)
                in case (if rf_data file \<noteq> NULL then fs_kfree (rf_data file) s else Some s) of
                     None \<Rightarrow> None
                   | Some s \<Rightarrow> Some (True, set_file f (file\<lparr>rf_data := new_data, rf_capacity := new_capacity\<rparr>) s)))
      else Some (True, s))"

text \<open>The structure of the file, allocated on the first write when it is missing.\<close>

definition file_struct :: "u32 \<Rightarrow> fs_state \<Rightarrow> (u32 \<times> fs_state) option" where
  "file_struct node s =
     (if n_impl (nodes s node) \<noteq> NULL then Some (n_impl (nodes s node), s)
      else
        (case fs_kmalloc 12 s of None \<Rightarrow> None
         | Some (f, s) \<Rightarrow>
             if f = NULL then Some (NULL, s)
             else Some (f, upd_node node (\<lambda>n. n\<lparr>n_impl := f\<rparr>)
                            (set_file f \<lparr>rf_data = NULL, rf_size = 0, rf_capacity = 0\<rparr> s))))"

definition ramfs_write :: "u32 \<Rightarrow> u32 \<Rightarrow> u32 \<Rightarrow> u32 \<Rightarrow> fs_state \<Rightarrow> (int \<times> fs_state) option" where
  "ramfs_write node offset sz buffer s =
     (if node = NULL \<or> n_type (nodes s node) \<noteq> VFS_FILE \<or> buffer = NULL then Some (- 1, s)
      else
        (case file_struct node s of None \<Rightarrow> None
         | Some (f, s) \<Rightarrow>
             if f = NULL then Some (- 1, s)
             else
               (let required_size = offset + sz in
                case grow_file f required_size s of None \<Rightarrow> None
                | Some (ok, s) \<Rightarrow>
                    if \<not> ok then Some (- 1, s)
                    else
                      (let s = s\<lparr>fmem := memcpy (rf_data (ramfs_files s f) + offset) buffer sz (fmem s)\<rparr>;
                           s = (if required_size > rf_size (ramfs_files s f)
                                then upd_node node (\<lambda>n. n\<lparr>n_size := required_size\<rparr>)
                                       (set_file f ((ramfs_files s f)\<lparr>rf_size := required_size\<rparr>) s)
                                else s)
                       in Some (sint sz, s)))))"

section \<open>Directories\<close>

partial_function (option) child_at :: "(u32 \<Rightarrow> vfs_node) \<Rightarrow> u32 \<Rightarrow> u32 \<Rightarrow> u32 \<Rightarrow> u32 option" where
  "child_at nd child i index =
     (if child \<noteq> NULL \<and> i < index then child_at nd (n_next (nd child)) (i + 1) index else Some child)"

definition ramfs_readdir :: "u32 \<Rightarrow> u32 \<Rightarrow> fs_state \<Rightarrow> (dirent option \<times> fs_state) option" where
  "ramfs_readdir node index s =
     (if node = NULL \<or> n_type (nodes s node) \<noteq> VFS_DIRECTORY then Some (None, s)
      else
        (let dir = n_impl (nodes s node) in
         if dir = NULL then Some (None, s)
         else
           (case child_at (nodes s) (ramfs_dirs s dir) 0 index of None \<Rightarrow> None
            | Some child \<Rightarrow>
                Some (if child = NULL then None
                      else Some \<lparr>d_name = take 255 (n_name (nodes s child)), d_inode = n_inode (nodes s child),
                                 d_type = n_type (nodes s child)\<rparr>, s))))"

partial_function (option) find_child :: "(u32 \<Rightarrow> vfs_node) \<Rightarrow> str \<Rightarrow> u32 \<Rightarrow> u32 option" where
  "find_child nd name child =
     (if child \<noteq> NULL then
        (if n_name (nd child) = name then Some child else find_child nd name (n_next (nd child)))
      else Some NULL)"

definition ramfs_finddir :: "u32 \<Rightarrow> str \<Rightarrow> fs_state \<Rightarrow> (u32 \<times> fs_state) option" where
  "ramfs_finddir node name s =
     (if node = NULL \<or> n_type (nodes s node) \<noteq> VFS_DIRECTORY then Some (NULL, s)
      else
        (let dir = n_impl (nodes s node) in
         if dir = NULL then Some (NULL, s)
         else
           (case find_child (nodes s) name (ramfs_dirs s dir) of None \<Rightarrow> None
            | Some child \<Rightarrow> Some (child, s))))"

definition ramfs_create :: "u32 \<Rightarrow> str \<Rightarrow> u32 \<Rightarrow> fs_state \<Rightarrow> (u32 \<times> fs_state) option" where
  "ramfs_create parent name mode s =
     (if parent = NULL \<or> n_type (nodes s parent) \<noteq> VFS_DIRECTORY then Some (NULL, s)
      else
        (case ramfs_finddir parent name s of None \<Rightarrow> None
         | Some (found, s) \<Rightarrow>
             if found \<noteq> NULL then Some (NULL, s)
             else
               (case ramfs_alloc_node name VFS_FILE mode s of None \<Rightarrow> None
                | Some (node, s) \<Rightarrow>
                    if node = NULL then Some (NULL, s)
                    else
                      (case fs_kmalloc 12 s of None \<Rightarrow> None
                       | Some (file, s) \<Rightarrow>
                           if file = NULL
                           then (case fs_kfree node s of None \<Rightarrow> None | Some s \<Rightarrow> Some (NULL, s))
                           else
                             (let s = set_file file \<lparr>rf_data = NULL, rf_size = 0, rf_capacity = 0\<rparr> s;
                                  s = upd_node node (\<lambda>n. n\<lparr>n_impl := file\<rparr>) s
                              in case ramfs_attach_child parent node s of None \<Rightarrow> None
                                 | Some s \<Rightarrow> Some (node, s))))))"

definition ramfs_unlink :: "u32 \<Rightarrow> str \<Rightarrow> fs_state \<Rightarrow> (int \<times> fs_state) option" where
  "ramfs_unlink parent name s =
     (if parent = NULL \<or> n_type (nodes s parent) \<noteq> VFS_DIRECTORY then Some (- 1, s)
      else
        (case ramfs_detach_child parent name s of None \<Rightarrow> None
         | Some (victim, s) \<Rightarrow>
             if victim = NULL then Some (- 1, s)
             else if n_type (nodes s victim) = VFS_DIRECTORY then
               (case ramfs_attach_child parent victim s of None \<Rightarrow> None | Some s \<Rightarrow> Some (- 1, s))
             else
               (let file = n_impl (nodes s victim) in
                case (if file \<noteq> NULL then
                        (case (if rf_data (ramfs_files s file) \<noteq> NULL
                               then fs_kfree (rf_data (ramfs_files s file)) s else Some s) of
                           None \<Rightarrow> None | Some s \<Rightarrow> fs_kfree file s)
                      else Some s) of
                  None \<Rightarrow> None
                | Some s \<Rightarrow> (case fs_kfree victim s of None \<Rightarrow> None | Some s \<Rightarrow> Some (0, s)))))"

definition ramfs_mkdir :: "u32 \<Rightarrow> str \<Rightarrow> u32 \<Rightarrow> fs_state \<Rightarrow> (u32 \<times> fs_state) option" where
  "ramfs_mkdir parent name mode s =
     (if parent = NULL \<or> n_type (nodes s parent) \<noteq> VFS_DIRECTORY then Some (NULL, s)
      else
        (case ramfs_finddir parent name s of None \<Rightarrow> None
         | Some (found, s) \<Rightarrow>
             if found \<noteq> NULL then Some (NULL, s)
             else
               (case ramfs_alloc_node name VFS_DIRECTORY mode s of None \<Rightarrow> None
                | Some (node, s) \<Rightarrow>
                    if node = NULL then Some (NULL, s)
                    else
                      (case fs_kmalloc 4 s of None \<Rightarrow> None
                       | Some (dir, s) \<Rightarrow>
                           if dir = NULL
                           then (case fs_kfree node s of None \<Rightarrow> None | Some s \<Rightarrow> Some (NULL, s))
                           else
                             (let s = s\<lparr>ramfs_dirs := (ramfs_dirs s)(dir := NULL)\<rparr>;
                                  s = upd_node node (\<lambda>n. n\<lparr>n_impl := dir\<rparr>) s
                              in case ramfs_attach_child parent node s of None \<Rightarrow> None
                                 | Some s \<Rightarrow> Some (node, s))))))"

definition ramfs_rmdir :: "u32 \<Rightarrow> str \<Rightarrow> fs_state \<Rightarrow> (int \<times> fs_state) option" where
  "ramfs_rmdir parent name s =
     (if parent = NULL \<or> n_type (nodes s parent) \<noteq> VFS_DIRECTORY then Some (- 1, s)
      else
        (case ramfs_detach_child parent name s of None \<Rightarrow> None
         | Some (victim, s) \<Rightarrow>
             if victim = NULL then Some (- 1, s)
             else
               (let dir = n_impl (nodes s victim) in
                if n_type (nodes s victim) \<noteq> VFS_DIRECTORY \<or> dir \<noteq> NULL \<and> ramfs_dirs s dir \<noteq> NULL then
                  (case ramfs_attach_child parent victim s of None \<Rightarrow> None | Some s \<Rightarrow> Some (- 1, s))
                else
                  (case (if dir \<noteq> NULL then fs_kfree dir s else Some s) of None \<Rightarrow> None
                   | Some s \<Rightarrow> (case fs_kfree victim s of None \<Rightarrow> None | Some s \<Rightarrow> Some (0, s))))))"

definition ramfs_ops :: vfs_operations where
  "ramfs_ops = \<lparr>op_open = Some ramfs_open, op_close = Some ramfs_close, op_read = Some ramfs_read,
     op_write = Some ramfs_write, op_readdir = Some ramfs_readdir, op_finddir = Some ramfs_finddir,
     op_create = Some ramfs_create, op_unlink = Some ramfs_unlink, op_mkdir = Some ramfs_mkdir,
     op_rmdir = Some ramfs_rmdir\<rparr>"

section \<open>Initialisation\<close>

text \<open>The four directories \<open>bin\<close>, \<open>dev\<close>, \<open>tmp\<close> and \<open>home\<close> and their modes.\<close>

definition std_dirs :: "(str \<times> u32) list" where
  "std_dirs = [([98, 105, 110], 0x1ED), ([100, 101, 118], 0x1ED), ([116, 109, 112], 0x1FF), ([104, 111, 109, 101], 0x1ED)]"

fun make_dirs :: "u32 \<Rightarrow> (str \<times> u32) list \<Rightarrow> fs_state \<Rightarrow> fs_state option" where
  "make_dirs root [] s = Some s"
| "make_dirs root ((name, mode) # ds) s =
     (case ramfs_mkdir root name mode s of None \<Rightarrow> None | Some (_, s) \<Rightarrow> make_dirs root ds s)"

definition ramfs_init :: "fs_state \<Rightarrow> fs_state option" where
  "ramfs_init s =
     (case ramfs_alloc_node [] VFS_DIRECTORY 0x1FF s of None \<Rightarrow> None
      | Some (root, s) \<Rightarrow>
          if root = NULL then Some s
          else
            (case fs_kmalloc 4 s of None \<Rightarrow> None
             | Some (rootdir, s) \<Rightarrow>
                 if rootdir = NULL then fs_kfree root s
                 else
                   (let s = s\<lparr>ramfs_dirs := (ramfs_dirs s)(rootdir := NULL)\<rparr>;
                        s = upd_node root (\<lambda>n. n\<lparr>n_impl := rootdir\<rparr>) s
                    in make_dirs root std_dirs (s\<lparr>vfs_root := root, vfs_cwd := root\<rparr>))))"

section \<open>The operations leave the descriptor table alone\<close>

lemma fs_kmalloc_frame:
  assumes "fs_kmalloc n s = Some (p, s')"
  shows "fd_table s' = fd_table s" "nodes s' = nodes s" "ramfs_dirs s' = ramfs_dirs s" "ramfs_files s' = ramfs_files s"
    "fmem s' = fmem s" "kmalloc n (fheap s) = Some (p, fheap s')" "vfs_root s' = vfs_root s" "vfs_cwd s' = vfs_cwd s"
  using assms by (auto simp: fs_kmalloc_def split: option.splits)

lemma fs_kfree_frame:
  assumes "fs_kfree p s = Some s'"
  shows "fd_table s' = fd_table s" "nodes s' = nodes s" "ramfs_dirs s' = ramfs_dirs s" "ramfs_files s' = ramfs_files s"
    "fmem s' = fmem s" "kfree p (fheap s) = Some (fheap s')" "vfs_root s' = vfs_root s" "vfs_cwd s' = vfs_cwd s"
  using assms by (auto simp: fs_kfree_def split: option.splits)

text \<open>On a heap with live blocks \<open>L\<close>.\<close>

lemma live_NULL:
  assumes "live_inv h L"
  shows "NULL \<notin> L"
proof
  assume "NULL \<in> L"
  from live_block(2) [OF assms this] show False by simp
qed

lemma fs_kmalloc_live:
  assumes "live_inv (fheap s) L" "small_request n"
  obtains p h where "fs_kmalloc n s = Some (p, s\<lparr>fheap := h\<rparr>)" "p = NULL \<Longrightarrow> live_inv h L"
    "p \<noteq> NULL \<Longrightarrow> p \<notin> L" "p \<noteq> NULL \<Longrightarrow> live_inv h (insert p L)" "p \<noteq> NULL \<Longrightarrow> byte_range (p, n) \<subseteq> small_extent h p"
    "\<And>q. q \<in> L \<Longrightarrow> small_extent h q = small_extent (fheap s) q"
proof -
  obtain p h where k: "kmalloc n (fheap s) = Some (p, h)" "\<forall>q \<in> L. small_extent h q = small_extent (fheap s) q"
    "if p = NULL then live_inv h L else p \<notin> L \<and> live_inv h (insert p L) \<and> byte_range (p, n) \<subseteq> small_extent h p"
    using kmalloc_live [OF assms] by blast
  then have "fs_kmalloc n s = Some (p, s\<lparr>fheap := h\<rparr>)" by (simp add: fs_kmalloc_def)
  from that [OF this] k(2,3) show thesis by (simp split: if_splits)
qed

lemma fs_kfree_live:
  assumes "live_inv (fheap s) L" "p \<in> L"
  obtains h where "fs_kfree p s = Some (s\<lparr>fheap := h\<rparr>)" "live_inv h (L - {p})"
    "\<And>q. q \<in> L - {p} \<Longrightarrow> small_extent h q = small_extent (fheap s) q"
proof -
  obtain h where "kfree p (fheap s) = Some h" "live_inv h (L - {p})" "\<forall>q \<in> L - {p}. small_extent h q = small_extent (fheap s) q"
    using kfree_live [OF assms] by blast
  then show thesis using that [of h] by (simp add: fs_kfree_def)
qed

lemma small_sizes [simp]: "small_request 308" "small_request 12" "small_request 4"
  by (simp_all add: small_request_def total_size_def align_size_def)

lemmas heap_fd_frame = fs_kmalloc_frame(1) fs_kfree_frame(1)

lemma alloc_node_fds: "ramfs_alloc_node nm ty mode s = Some (p, s') \<Longrightarrow> fd_table s' = fd_table s"
  by (auto simp: ramfs_alloc_node_def split: option.splits if_splits dest!: heap_fd_frame)

lemma attach_fds: "ramfs_attach_child p c s = Some s' \<Longrightarrow> fd_table s' = fd_table s"
  by (auto simp: ramfs_attach_child_def Let_def split: option.splits if_splits dest!: heap_fd_frame)

lemma set_file_simps [simp]:
  "fd_table (set_file f r s) = fd_table s" "nodes (set_file f r s) = nodes s" "fheap (set_file f r s) = fheap s"
  "fmem (set_file f r s) = fmem s" "ramfs_dirs (set_file f r s) = ramfs_dirs s"
  "ramfs_files (set_file f r s) f = r" "g \<noteq> f \<Longrightarrow> ramfs_files (set_file f r s) g = ramfs_files s g"
  by (simp_all add: set_file_def)

lemma detach_loop_fds: "detach_loop nm dir prev cur s = Some r \<Longrightarrow> fd_table (snd r) = fd_table s"
proof (erule detach_loop.raw_induct [rotated])
  fix k name dir prev cur s r
  assume IH: "\<And>name dir prev cur s r. k name dir prev cur s = Some r \<Longrightarrow> fd_table (snd r) = fd_table s"
    and e: "(if cur \<noteq> NULL then
        (if n_name (nodes s cur) = name then
           (let nxt = n_next (nodes s cur);
                s = (if prev = NULL then s\<lparr>ramfs_dirs := (ramfs_dirs s)(dir := nxt)\<rparr>
                     else upd_node prev (\<lambda>n. n\<lparr>n_next := nxt\<rparr>) s)
            in Some (cur, upd_node cur (\<lambda>n. n\<lparr>n_next := NULL, n_parent := NULL\<rparr>) s))
         else k name dir cur (n_next (nodes s cur)) s)
      else Some (NULL, s)) = Some r"
  show "fd_table (snd r) = fd_table s" using e IH by (auto simp: Let_def split: if_splits)
qed

lemma detach_fds: "ramfs_detach_child p nm s = Some (v, s') \<Longrightarrow> fd_table s' = fd_table s"
  using detach_loop_fds by (force simp: ramfs_detach_child_def split: if_splits)

lemma finddir_state: "ramfs_finddir n nm s = Some (r, s') \<Longrightarrow> s' = s"
  by (auto simp: ramfs_finddir_def Let_def split: if_splits option.splits)

lemma write_fds: "ramfs_write n off sz buf s = Some (r, s') \<Longrightarrow> fd_table s' = fd_table s"
proof -
  have f: "fd_table s' = fd_table s" if "file_struct n s = Some (f, s')" for f s s'
    using that by (auto simp: file_struct_def split: option.splits if_splits dest!: heap_fd_frame)
  have g: "fd_table s' = fd_table s" if "grow_file f rs s = Some (ok, s')" for f rs ok s s'
    using that by (auto simp: grow_file_def Let_def split: option.splits if_splits dest!: heap_fd_frame)
  show "ramfs_write n off sz buf s = Some (r, s') \<Longrightarrow> fd_table s' = fd_table s"
    by (auto simp: ramfs_write_def Let_def split: option.splits if_splits dest!: f g)
qed

lemma create_fds: "ramfs_create p nm mode s = Some (r, s') \<Longrightarrow> fd_table s' = fd_table s"
  by (auto simp: ramfs_create_def Let_def split: option.splits if_splits
      dest!: finddir_state alloc_node_fds heap_fd_frame attach_fds)

lemma mkdir_fds: "ramfs_mkdir p nm mode s = Some (r, s') \<Longrightarrow> fd_table s' = fd_table s"
  by (auto simp: ramfs_mkdir_def Let_def split: option.splits if_splits
      dest!: finddir_state alloc_node_fds heap_fd_frame attach_fds)

lemma unlink_fds: "ramfs_unlink p nm s = Some (r, s') \<Longrightarrow> fd_table s' = fd_table s"
  by (auto simp: ramfs_unlink_def Let_def split: option.splits if_splits dest!: detach_fds heap_fd_frame attach_fds)

lemma rmdir_fds: "ramfs_rmdir p nm s = Some (r, s') \<Longrightarrow> fd_table s' = fd_table s"
  by (auto simp: ramfs_rmdir_def Let_def split: option.splits if_splits dest!: detach_fds heap_fd_frame attach_fds)

definition ramfs_optab :: optab where
  "ramfs_optab p = (if p = RAMFS_OPS then ramfs_ops else no_ops)"

interpretation ram: vfs_backend ramfs_optab
proof unfold_locales
  fix p f1 n fl
  show "op_open (ramfs_optab p) = Some f1 \<Longrightarrow> keeps_fds (f1 n fl)"
    by (auto simp: ramfs_optab_def ramfs_ops_def no_ops_def ramfs_open_def intro!: keeps_fdsI split: if_splits)
next
  fix p f2 n
  show "op_close (ramfs_optab p) = Some f2 \<Longrightarrow> keeps_fds (f2 n)"
    by (auto simp: ramfs_optab_def ramfs_ops_def no_ops_def ramfs_close_def intro!: keeps_fdsI split: if_splits)
next
  fix p f3 n off sz buf
  show "op_read (ramfs_optab p) = Some f3 \<Longrightarrow> keeps_fds (f3 n off sz buf)"
    by (auto simp: ramfs_optab_def ramfs_ops_def no_ops_def ramfs_read_def Let_def intro!: keeps_fdsI split: if_splits)
next
  fix p f4 n off sz buf
  show "op_write (ramfs_optab p) = Some f4 \<Longrightarrow> keeps_fds (f4 n off sz buf)"
    by (auto simp: ramfs_optab_def ramfs_ops_def no_ops_def intro!: keeps_fdsI dest: write_fds split: if_splits)
next
  fix p f5 n idx
  show "op_readdir (ramfs_optab p) = Some f5 \<Longrightarrow> keeps_fds (f5 n idx)"
    by (auto simp: ramfs_optab_def ramfs_ops_def no_ops_def ramfs_readdir_def Let_def intro!: keeps_fdsI
        split: if_splits option.splits)
next
  fix p f6 n nm
  show "op_finddir (ramfs_optab p) = Some f6 \<Longrightarrow> keeps_fds (f6 n nm)"
    by (auto simp: ramfs_optab_def ramfs_ops_def no_ops_def intro!: keeps_fdsI dest: finddir_state split: if_splits)
next
  fix p f7 n nm mode
  show "op_create (ramfs_optab p) = Some f7 \<Longrightarrow> keeps_fds (f7 n nm mode)"
    by (auto simp: ramfs_optab_def ramfs_ops_def no_ops_def intro!: keeps_fdsI dest: create_fds split: if_splits)
next
  fix p f8 n nm
  show "op_unlink (ramfs_optab p) = Some f8 \<Longrightarrow> keeps_fds (f8 n nm)"
    by (auto simp: ramfs_optab_def ramfs_ops_def no_ops_def intro!: keeps_fdsI dest: unlink_fds split: if_splits)
next
  fix p f9 n nm mode
  show "op_mkdir (ramfs_optab p) = Some f9 \<Longrightarrow> keeps_fds (f9 n nm mode)"
    by (auto simp: ramfs_optab_def ramfs_ops_def no_ops_def intro!: keeps_fdsI dest: mkdir_fds split: if_splits)
next
  fix p f10 n nm
  show "op_rmdir (ramfs_optab p) = Some f10 \<Longrightarrow> keeps_fds (f10 n nm)"
    by (auto simp: ramfs_optab_def ramfs_ops_def no_ops_def intro!: keeps_fdsI dest: rmdir_fds split: if_splits)
qed

section \<open>The descriptor table after initialisation\<close>

lemma make_dirs_fds: "make_dirs root ds s = Some s' \<Longrightarrow> fd_table s' = fd_table s"
  by (induction ds arbitrary: s) (auto split: option.splits dest!: mkdir_fds)

lemma init_fds: "ramfs_init s = Some s' \<Longrightarrow> fd_table s' = fd_table s"
  by (auto simp: ramfs_init_def Let_def split: option.splits if_splits
      dest!: alloc_node_fds heap_fd_frame make_dirs_fds)

lemma vfs_init_inv: "fd_inv (vfs_init s)"
  by (simp add: fd_inv_def vfs_init_def fd_clear_def)

end
