(* ===== verification/RamfsDir.thy ===== *)
theory RamfsDir
  imports Ramfs
begin

text \<open>
  The directories of \<open>src/fs/ramfs.c\<close> against their specification: the linked list of children as a list,
  the list as a map from names to nodes, and what \<open>ramfs_finddir\<close>, \<open>ramfs_create\<close> and \<open>ramfs_unlink\<close> do to the map.
\<close>

section \<open>A directory as a list and as a map\<close>

text \<open>\<open>kids nd p xs\<close>: following \<open>next\<close> from \<open>p\<close> visits exactly \<open>xs\<close>.\<close>

primrec kids :: "(u32 \<Rightarrow> vfs_node) \<Rightarrow> u32 \<Rightarrow> u32 list \<Rightarrow> bool" where
  "kids nd p [] \<longleftrightarrow> p = NULL"
| "kids nd p (x # xs) \<longleftrightarrow> p = x \<and> x \<noteq> NULL \<and> kids nd (n_next (nd x)) xs"

lemma kids_cong: "(\<And>x. x \<in> set xs \<Longrightarrow> n_next (nd x) = n_next (nd' x)) \<Longrightarrow> kids nd p xs = kids nd' p xs"
  by (induction xs arbitrary: p) auto

lemma kids_NULL: "kids nd p xs \<Longrightarrow> NULL \<notin> set xs"
  by (induction xs arbitrary: p) auto

lemma kids_app: "kids nd p (us @ x # vs) \<Longrightarrow> x \<noteq> NULL \<and> kids nd (n_next (nd x)) vs"
  by (induction us arbitrary: p) auto

lemma find_child_spec:
  "kids nd p xs \<Longrightarrow> find_child nd name p = Some (case find (\<lambda>x. n_name (nd x) = name) xs of None \<Rightarrow> NULL | Some x \<Rightarrow> x)"
  by (induction xs arbitrary: p) (subst find_child.simps, auto)+

definition dir_list :: "fs_state \<Rightarrow> u32 \<Rightarrow> u32 list \<Rightarrow> bool" where
  "dir_list s d xs \<longleftrightarrow> d \<noteq> NULL \<and> n_type (nodes s d) = VFS_DIRECTORY \<and> n_impl (nodes s d) \<noteq> NULL \<and>
     kids (nodes s) (ramfs_dirs s (n_impl (nodes s d))) xs \<and> distinct xs \<and> d \<notin> set xs \<and>
     distinct (map (\<lambda>x. n_name (nodes s x)) xs)"

definition dir_map :: "fs_state \<Rightarrow> u32 list \<Rightarrow> str \<rightharpoonup> u32" where
  "dir_map s xs = map_of (map (\<lambda>x. (n_name (nodes s x), x)) xs)"

lemma dir_map_Cons [simp]: "dir_map s (x # xs) = (dir_map s xs)(n_name (nodes s x) \<mapsto> x)"
  by (simp add: dir_map_def)

lemma dir_map_Nil [simp]: "dir_map s [] = Map.empty"
  by (simp add: dir_map_def)

lemma dir_map_find: "dir_map s xs name = find (\<lambda>x. n_name (nodes s x) = name) xs"
  by (induction xs) auto

lemma dir_map_cong: "(\<And>x. x \<in> set xs \<Longrightarrow> n_name (nodes s x) = n_name (nodes s' x)) \<Longrightarrow> dir_map s xs = dir_map s' xs"
  by (induction xs) auto

lemma dir_map_None: "dir_map s xs name = None \<longleftrightarrow> name \<notin> (\<lambda>x. n_name (nodes s x)) ` set xs"
  by (induction xs) auto

lemma dir_map_Some:
  "dir_map s xs name = Some x \<Longrightarrow> \<exists>us vs. xs = us @ x # vs \<and> n_name (nodes s x) = name \<and> name \<notin> (\<lambda>x. n_name (nodes s x)) ` set us"
proof (induction xs)
  case (Cons y xs)
  show ?case
  proof (cases "n_name (nodes s y) = name")
    case True
    then show ?thesis using Cons.prems by (intro exI [of _ "[]"] exI [of _ xs]) auto
  next
    case False
    then obtain us vs where "xs = us @ x # vs" "n_name (nodes s x) = name" "name \<notin> (\<lambda>x. n_name (nodes s x)) ` set us"
      using Cons by auto
    then show ?thesis using False by (intro exI [of _ "y # us"] exI [of _ vs]) auto
  qed
qed simp

lemma dir_map_remove:
  assumes "distinct (map (\<lambda>x. n_name (nodes s x)) (us @ x # vs))"
  shows "dir_map s (us @ vs) = (dir_map s (us @ x # vs))(n_name (nodes s x) := None)"
  using assms by (induction us) (auto simp: dir_map_None fun_upd_twist)

lemma finddir_dir:
  assumes "dir_list s d xs"
  shows "ramfs_finddir d name s = Some (case dir_map s xs name of None \<Rightarrow> NULL | Some x \<Rightarrow> x, s)"
proof -
  have "kids (nodes s) (ramfs_dirs s (n_impl (nodes s d))) xs" using assms by (simp add: dir_list_def)
  from find_child_spec [OF this, of name] assms show ?thesis
    by (simp add: ramfs_finddir_def dir_list_def Let_def dir_map_find)
qed

lemma dir_list_cong:
  assumes "dir_list s d xs" "\<And>x. x \<in> insert d (set xs) \<Longrightarrow> nodes s' x = nodes s x"
    "ramfs_dirs s' (n_impl (nodes s d)) = ramfs_dirs s (n_impl (nodes s d))"
  shows "dir_list s' d xs"
proof -
  have "kids (nodes s') p xs = kids (nodes s) p xs" for p by (rule kids_cong) (simp add: assms(2))
  moreover have "map (\<lambda>x. n_name (nodes s' x)) xs = map (\<lambda>x. n_name (nodes s x)) xs" using assms(2) by simp
  then have "distinct (map (\<lambda>x. n_name (nodes s' x)) xs) = distinct (map (\<lambda>x. n_name (nodes s x)) xs)" by (rule arg_cong)
  ultimately show ?thesis using assms unfolding dir_list_def by simp
qed

lemma attach_dir:
  assumes "dir_list s d xs" "x \<noteq> NULL" "x \<notin> insert d (set xs)" "dir_map s xs (n_name (nodes s x)) = None"
  obtains s' where "ramfs_attach_child d x s = Some s'" "dir_list s' d (x # xs)" "fheap s' = fheap s"
    "nodes s' x = (nodes s x)\<lparr>n_next := ramfs_dirs s (n_impl (nodes s d)), n_parent := d\<rparr>"
    "\<And>y. y \<noteq> x \<Longrightarrow> nodes s' y = nodes s y" "ramfs_files s' = ramfs_files s"
proof -
  let ?dir = "n_impl (nodes s d)"
  define s' where "s' = upd_node x (\<lambda>n. n\<lparr>n_parent := d\<rparr>) ((upd_node x (\<lambda>n. n\<lparr>n_next := ramfs_dirs s ?dir\<rparr>) s)
    \<lparr>ramfs_dirs := (ramfs_dirs s)(?dir := x)\<rparr>)"
  have a: "ramfs_attach_child d x s = Some s'"
    using assms(1,2) by (simp add: ramfs_attach_child_def dir_list_def Let_def s'_def)
  have n: "nodes s' x = (nodes s x)\<lparr>n_next := ramfs_dirs s ?dir, n_parent := d\<rparr>" "\<And>y. y \<noteq> x \<Longrightarrow> nodes s' y = nodes s y"
    "\<And>y. n_name (nodes s' y) = n_name (nodes s y)" "ramfs_dirs s' ?dir = x" "fheap s' = fheap s" "ramfs_files s' = ramfs_files s"
    by (simp_all add: s'_def upd_node_def)
  have "kids (nodes s') p xs = kids (nodes s) p xs" for p
    by (rule kids_cong) (metis n(2) assms(3) insertCI)
  moreover have "n_name (nodes s x) \<notin> set (map (\<lambda>y. n_name (nodes s y)) xs)" using assms(4) by (simp add: dir_map_None)
  ultimately have "dir_list s' d (x # xs)" using assms n by (auto simp: dir_list_def)
  then show thesis using that [OF a] n by simp
qed

lemma kids_unlink:
  assumes "\<And>y. y \<noteq> w \<Longrightarrow> y \<noteq> x \<Longrightarrow> n_next (nd' y) = n_next (nd y)" "n_next (nd' w) = n_next (nd x)"
  shows "kids nd p (us @ w # x # vs) \<Longrightarrow> distinct (us @ w # x # vs) \<Longrightarrow> kids nd' p (us @ w # vs)"
proof (induction us arbitrary: p)
  case Nil
  have "n_next (nd' y) = n_next (nd y)" if "y \<in> set vs" for y
    by (rule assms(1)) (use Nil(2) that in auto)
  then have "kids nd' q vs = kids nd q vs" for q by (rule kids_cong)
  then show ?case using Nil assms(2) by simp
next
  case (Cons u us)
  then show ?case using assms(1) [of u] by auto
qed

text \<open>Detaching unlinks the first child of that name.\<close>

definition unlinked :: "u32 \<Rightarrow> u32 \<Rightarrow> u32 \<Rightarrow> fs_state \<Rightarrow> fs_state" where
  "unlinked dir prev x s = upd_node x (\<lambda>n. n\<lparr>n_next := NULL, n_parent := NULL\<rparr>)
     (if prev = NULL then s\<lparr>ramfs_dirs := (ramfs_dirs s)(dir := n_next (nodes s x))\<rparr>
      else upd_node prev (\<lambda>n. n\<lparr>n_next := n_next (nodes s x)\<rparr>) s)"

lemma detach_loop_spec:
  "kids (nodes s) cur (us @ x # vs) \<Longrightarrow> n_name (nodes s x) = name \<Longrightarrow> name \<notin> (\<lambda>x. n_name (nodes s x)) ` set us \<Longrightarrow>
     detach_loop name dir prev cur s = Some (x, unlinked dir (last (prev # us)) x s)"
  by (induction us arbitrary: prev cur) (subst detach_loop.simps, auto simp: unlinked_def Let_def)+

lemma detach_loop_absent:
  "kids (nodes s) cur xs \<Longrightarrow> name \<notin> (\<lambda>x. n_name (nodes s x)) ` set xs \<Longrightarrow> detach_loop name dir prev cur s = Some (NULL, s)"
  by (induction xs arbitrary: prev cur) (subst detach_loop.simps, auto)+

lemma detach_dir:
  assumes d: "dir_list s d (us @ x # vs)"
  defines "s' \<equiv> unlinked (n_impl (nodes s d)) (last (NULL # us)) x s"
  shows "ramfs_detach_child d (n_name (nodes s x)) s = Some (x, s')" "dir_list s' d (us @ vs)"
    "n_name (nodes s' y) = n_name (nodes s y)" "n_type (nodes s' y) = n_type (nodes s y)" "n_impl (nodes s' y) = n_impl (nodes s y)"
    "fheap s' = fheap s" "ramfs_files s' = ramfs_files s" "y \<noteq> n_impl (nodes s d) \<Longrightarrow> ramfs_dirs s' y = ramfs_dirs s y"
proof -
  let ?dir = "n_impl (nodes s d)"
  have k: "kids (nodes s) (ramfs_dirs s ?dir) (us @ x # vs)" "distinct (us @ x # vs)" "d \<notin> set (us @ x # vs)"
    "n_name (nodes s x) \<notin> (\<lambda>x. n_name (nodes s x)) ` set us" "d \<noteq> NULL" "?dir \<noteq> NULL" "n_type (nodes s d) = VFS_DIRECTORY"
    "distinct (map (\<lambda>x. n_name (nodes s x)) (us @ x # vs))"
    using d by (auto simp: dir_list_def)
  have nz: "NULL \<notin> set us" using kids_NULL [OF k(1)] by auto
  show "ramfs_detach_child d (n_name (nodes s x)) s = Some (x, s')"
    unfolding ramfs_detach_child_def s'_def using detach_loop_spec [OF k(1) refl k(4)] k(5,6) by simp
  show n: "n_name (nodes s' y) = n_name (nodes s y)" "n_type (nodes s' y) = n_type (nodes s y)"
    "n_impl (nodes s' y) = n_impl (nodes s y)" for y
    by (auto simp: s'_def unlinked_def upd_node_def)
  show "fheap s' = fheap s" "ramfs_files s' = ramfs_files s" by (simp_all add: s'_def unlinked_def)
  show "y \<noteq> ?dir \<Longrightarrow> ramfs_dirs s' y = ramfs_dirs s y" by (simp add: s'_def unlinked_def)
  have "kids (nodes s') (ramfs_dirs s' ?dir) (us @ vs)"
  proof (cases us rule: rev_cases)
    case Nil
    have "kids (nodes s') q vs = kids (nodes s) q vs" for q
      by (rule kids_cong) (use k(2) in \<open>auto simp: s'_def unlinked_def upd_node_def Nil\<close>)
    then show ?thesis using k(1) by (simp add: s'_def unlinked_def Nil)
  next
    case (snoc ws w)
    have w: "w \<noteq> NULL" "w \<noteq> x" using nz snoc k(2) by auto
    have "kids (nodes s') (ramfs_dirs s ?dir) (ws @ w # vs)"
      by (rule kids_unlink [of w x _ "nodes s"]) (use k(1,2) w in \<open>auto simp: s'_def unlinked_def upd_node_def snoc\<close>)
    then show ?thesis using w by (simp add: snoc s'_def unlinked_def)
  qed
  then show "dir_list s' d (us @ vs)" using k n by (auto simp: dir_list_def)
qed

section \<open>Ownership\<close>

text \<open>\<open>owned s L d xs\<close>: \<open>d\<close> is a directory with children \<open>xs\<close>, and its structures are blocks of the heap's live
  set \<open>L\<close>: what the heap hands out next is none of them.\<close>

definition owned :: "fs_state \<Rightarrow> u32 set \<Rightarrow> u32 \<Rightarrow> u32 list \<Rightarrow> bool" where
  "owned s L d xs \<longleftrightarrow> live_inv (fheap s) L \<and> dir_list s d xs \<and> insert d (insert (n_impl (nodes s d)) (set xs)) \<subseteq> L"

lemma owned_cong:
  assumes "owned s L d xs" "live_inv (fheap s') L'" "L \<subseteq> L'"
    "\<And>x. x \<in> L \<Longrightarrow> nodes s' x = nodes s x" "\<And>x. x \<in> L \<Longrightarrow> ramfs_dirs s' x = ramfs_dirs s x"
  shows "owned s' L' d xs" "dir_map s' xs = dir_map s xs"
proof -
  have o: "dir_list s d xs" "insert d (insert (n_impl (nodes s d)) (set xs)) \<subseteq> L" using assms(1) by (auto simp: owned_def)
  have "dir_list s' d xs" by (rule dir_list_cong [OF o(1)]) (use o(2) assms(4,5) in auto)
  then show "owned s' L' d xs" using assms(2,3,4) o(2) by (auto simp: owned_def)
  show "dir_map s' xs = dir_map s xs" by (rule dir_map_cong) (use assms(4) o(2) in auto)
qed

text \<open>A fresh node, made outside the directory, is attached to it.\<close>

lemma attach_fresh:
  assumes o: "owned s L d xs" and p: "p \<in> L" "p \<noteq> NULL" "p \<notin> insert d (set xs)"
    and nm: "n_name (nodes s p) = name" "dir_map s xs name = None"
  obtains s' where "ramfs_attach_child d p s = Some s'" "owned s' L d (p # xs)"
    "dir_map s' (p # xs) = (dir_map s xs)(name \<mapsto> p)" "n_type (nodes s' p) = n_type (nodes s p)"
    "n_size (nodes s' p) = n_size (nodes s p)" "n_impl (nodes s' p) = n_impl (nodes s p)" "ramfs_files s' = ramfs_files s"
proof -
  have dl: "dir_list s d xs" "live_inv (fheap s) L" "insert d (insert (n_impl (nodes s d)) (set xs)) \<subseteq> L"
    using o by (auto simp: owned_def)
  obtain s' where s': "ramfs_attach_child d p s = Some s'" "dir_list s' d (p # xs)" "fheap s' = fheap s"
    "nodes s' p = (nodes s p)\<lparr>n_next := ramfs_dirs s (n_impl (nodes s d)), n_parent := d\<rparr>"
    "\<And>y. y \<noteq> p \<Longrightarrow> nodes s' y = nodes s y" "ramfs_files s' = ramfs_files s"
    using attach_dir [OF dl(1) p(2,3)] nm by (metis)
  have "d \<noteq> p" using p(3) by auto
  then have "owned s' L d (p # xs)" using s'(2,3,5) dl(2,3) p(1) by (auto simp: owned_def)
  moreover have "dir_map s' xs = dir_map s xs"
    by (rule dir_map_cong) (metis s'(5) p(3) insertCI)
  ultimately show thesis using that [OF s'(1)] s'(4,6) nm(1) by simp
qed

text \<open>The two allocations that \<open>ramfs_create\<close> and \<open>ramfs_mkdir\<close> make: a node, then a structure of \<open>n\<close> bytes.\<close>

lemma alloc_two:
  assumes li: "live_inv (fheap s) L" and n: "small_request n"
  obtains (none) h where "ramfs_alloc_node name ty mode s = Some (NULL, s\<lparr>fheap := h\<rparr>)" "live_inv h L"
  | (half) p s1 h2 h3 where "ramfs_alloc_node name ty mode s = Some (p, s1)" "p \<noteq> NULL" "fs_kmalloc n s1 = Some (NULL, s1\<lparr>fheap := h2\<rparr>)"
      "fs_kfree p (s1\<lparr>fheap := h2\<rparr>) = Some (s1\<lparr>fheap := h3\<rparr>)" "live_inv h3 L"
      "\<And>x. x \<in> L \<Longrightarrow> nodes s1 x = nodes s x" "ramfs_dirs s1 = ramfs_dirs s"
  | (both) p s1 f h2 where "ramfs_alloc_node name ty mode s = Some (p, s1)" "p \<noteq> NULL" "p \<notin> L"
      "fs_kmalloc n s1 = Some (f, s1\<lparr>fheap := h2\<rparr>)" "f \<noteq> NULL" "f \<notin> L" "live_inv h2 (insert f (insert p L))"
      "\<And>x. x \<in> L \<Longrightarrow> nodes s1 x = nodes s x" "ramfs_dirs s1 = ramfs_dirs s"
      "n_name (nodes s1 p) = take 255 name" "n_type (nodes s1 p) = ty" "n_size (nodes s1 p) = 0"
proof -
  obtain p h where k: "fs_kmalloc 308 s = Some (p, s\<lparr>fheap := h\<rparr>)" "p = NULL \<Longrightarrow> live_inv h L"
    "p \<noteq> NULL \<Longrightarrow> p \<notin> L" "p \<noteq> NULL \<Longrightarrow> live_inv h (insert p L)"
    using fs_kmalloc_live [OF li small_sizes(1)] by metis
  show thesis
  proof (cases "p = NULL")
    case True
    then show thesis using none k(1,2) by (simp add: ramfs_alloc_node_def)
  next
    case False
    define s1 where "s1 = s\<lparr>fheap := h, nodes := (nodes s)(p := \<lparr>n_name = take 255 name, n_inode = p, n_size = 0,
      n_mode = mode, n_uid = 0, n_gid = 0, n_flags = 0, n_type = ty, n_open_count = 0, n_impl = NULL,
      n_ops = RAMFS_OPS, n_parent = NULL, n_next = NULL, n_mounted = NULL\<rparr>)\<rparr>"
    have an: "ramfs_alloc_node name ty mode s = Some (p, s1)" using k(1) False by (simp add: ramfs_alloc_node_def s1_def)
    have s1: "\<And>x. x \<in> L \<Longrightarrow> nodes s1 x = nodes s x" "ramfs_dirs s1 = ramfs_dirs s"
      using k(3) False by (auto simp: s1_def)
    have li1: "live_inv (fheap s1) (insert p L)" using k(4) False by (simp add: s1_def)
    obtain f h2 where k2: "fs_kmalloc n s1 = Some (f, s1\<lparr>fheap := h2\<rparr>)" "f = NULL \<Longrightarrow> live_inv h2 (insert p L)"
      "f \<noteq> NULL \<Longrightarrow> f \<notin> insert p L" "f \<noteq> NULL \<Longrightarrow> live_inv h2 (insert f (insert p L))"
      using fs_kmalloc_live [OF li1 n] by metis
    show thesis
    proof (cases "f = NULL")
      case True
      obtain h3 where k3: "fs_kfree p (s1\<lparr>fheap := h2\<rparr>) = Some (s1\<lparr>fheap := h3\<rparr>)" "live_inv h3 (insert p L - {p})"
        by (rule fs_kfree_live [of "s1\<lparr>fheap := h2\<rparr>" "insert p L" p]) (use k2(2) True in auto)
      show thesis by (rule half [OF an False _ k3(1) _ s1]) (use k2(1) True k3(2) k(3) False in auto)
    next
      case fn: False
      show thesis by (rule both [OF an False k(3) [OF False] k2(1) fn _ k2(4) [OF fn] s1]) (use k2(3) fn in \<open>auto simp: s1_def\<close>)
    qed
  qed
qed

text \<open>A new node outside the live set is attached to the directory.\<close>

lemma attach_new:
  assumes o: "owned s L d xs" and p: "p \<noteq> NULL" "p \<notin> L" and L': "live_inv (fheap s2) L'" "insert p L \<subseteq> L'"
    and same: "\<And>x. x \<in> L \<Longrightarrow> nodes s2 x = nodes s x" "\<And>x. x \<in> L \<Longrightarrow> ramfs_dirs s2 x = ramfs_dirs s x"
    and nm: "n_name (nodes s2 p) = name" "dir_map s xs name = None"
  shows "\<exists>s'. ramfs_attach_child d p s2 = Some s' \<and> owned s' L' d (p # xs) \<and>
    dir_map s' (p # xs) = (dir_map s xs)(name \<mapsto> p) \<and> n_type (nodes s' p) = n_type (nodes s2 p) \<and>
    n_size (nodes s' p) = n_size (nodes s2 p) \<and> n_impl (nodes s' p) = n_impl (nodes s2 p)"
proof -
  have o2: "owned s2 L' d xs" "dir_map s2 xs = dir_map s xs"
    by (rule owned_cong [OF o L'(1)]; use L'(2) same in auto)+
  have "insert d (set xs) \<subseteq> L" using o by (simp add: owned_def)
  then have "p \<notin> insert d (set xs)" using p(2) by blast
  from attach_fresh [OF o2(1) _ p(1) this nm(1)] o2(2) nm(2) L'(2) show ?thesis by (metis insert_subset)
qed

lemma create_spec:
  assumes o: "owned s L d xs" and nm: "length name \<le> 255" "dir_map s xs name = None"
  shows "\<exists>p s'. ramfs_create d name mode s = Some (p, s') \<and>
    (if p = NULL then owned s' L d xs \<and> dir_map s' xs = dir_map s xs
     else \<exists>L'. L \<subseteq> L' \<and> owned s' L' d (p # xs) \<and> dir_map s' (p # xs) = (dir_map s xs)(name \<mapsto> p) \<and>
       n_type (nodes s' p) = VFS_FILE \<and> n_size (nodes s' p) = 0)"
proof -
  have dl: "dir_list s d xs" and li: "live_inv (fheap s) L" using o by (auto simp: owned_def)
  have fd: "ramfs_finddir d name s = Some (NULL, s)" using finddir_dir [OF dl, of name] nm(2) by simp
  have g: "d \<noteq> NULL" "n_type (nodes s d) = VFS_DIRECTORY" using dl by (auto simp: dir_list_def)
  from li small_sizes(2) show ?thesis
  proof (cases rule: alloc_two [where name = name and ty = VFS_FILE and mode = mode])
    case (none h)
    then have "ramfs_create d name mode s = Some (NULL, s\<lparr>fheap := h\<rparr>)" using fd g by (simp add: ramfs_create_def)
    then show ?thesis using owned_cong [OF o, of "s\<lparr>fheap := h\<rparr>" L] none(2) by simp
  next
    case (half p s1 h2 h3)
    have "owned (s1\<lparr>fheap := h3\<rparr>) L d xs" "dir_map (s1\<lparr>fheap := h3\<rparr>) xs = dir_map s xs"
      by (rule owned_cong [OF o, of "s1\<lparr>fheap := h3\<rparr>" L]; simp add: half(5-7))+
    then show ?thesis using fd g half(1-4) by (simp add: ramfs_create_def)
  next
    case (both p s1 f h2)
    define s2 where "s2 = upd_node p (\<lambda>n. n\<lparr>n_impl := f\<rparr>)
      (set_file f \<lparr>rf_data = NULL, rf_size = 0, rf_capacity = 0\<rparr> (s1\<lparr>fheap := h2\<rparr>))"
    have "\<exists>s'. ramfs_attach_child d p s2 = Some s' \<and> owned s' (insert f (insert p L)) d (p # xs) \<and>
        dir_map s' (p # xs) = (dir_map s xs)(name \<mapsto> p) \<and> n_type (nodes s' p) = n_type (nodes s2 p) \<and>
        n_size (nodes s' p) = n_size (nodes s2 p) \<and> n_impl (nodes s' p) = n_impl (nodes s2 p)"
      by (rule attach_new [OF o both(2,3)]) (use both nm in \<open>auto simp: s2_def upd_node_def\<close>)
    then obtain s' where s': "ramfs_attach_child d p s2 = Some s'" "owned s' (insert f (insert p L)) d (p # xs)"
        "dir_map s' (p # xs) = (dir_map s xs)(name \<mapsto> p)" "n_type (nodes s' p) = VFS_FILE" "n_size (nodes s' p) = 0"
      by (auto simp: s2_def upd_node_def both(11,12))
    have "ramfs_create d name mode s = Some (p, s')"
      using fd g both(1,2,4,5) s'(1) by (simp add: ramfs_create_def s2_def Let_def)
    then show ?thesis using both(2) s'(2-5) by (auto intro!: exI [of _ "insert f (insert p L)"])
  qed
qed

lemma mkdir_spec:
  assumes o: "owned s L d xs" and nm: "length name \<le> 255" "dir_map s xs name = None"
  shows "\<exists>p s'. ramfs_mkdir d name mode s = Some (p, s') \<and>
    (if p = NULL then owned s' L d xs \<and> dir_map s' xs = dir_map s xs
     else \<exists>L'. L \<subseteq> L' \<and> owned s' L' d (p # xs) \<and> dir_map s' (p # xs) = (dir_map s xs)(name \<mapsto> p) \<and>
       owned s' L' p [])"
proof -
  have dl: "dir_list s d xs" and li: "live_inv (fheap s) L" and dL: "insert d (insert (n_impl (nodes s d)) (set xs)) \<subseteq> L"
    using o by (auto simp: owned_def)
  have fd: "ramfs_finddir d name s = Some (NULL, s)" using finddir_dir [OF dl, of name] nm(2) by simp
  have g: "d \<noteq> NULL" "n_type (nodes s d) = VFS_DIRECTORY" using dl by (auto simp: dir_list_def)
  from li small_sizes(3) show ?thesis
  proof (cases rule: alloc_two [where name = name and ty = VFS_DIRECTORY and mode = mode])
    case (none h)
    then have "ramfs_mkdir d name mode s = Some (NULL, s\<lparr>fheap := h\<rparr>)" using fd g by (simp add: ramfs_mkdir_def)
    then show ?thesis using owned_cong [OF o, of "s\<lparr>fheap := h\<rparr>" L] none(2) by simp
  next
    case (half p s1 h2 h3)
    have "owned (s1\<lparr>fheap := h3\<rparr>) L d xs" "dir_map (s1\<lparr>fheap := h3\<rparr>) xs = dir_map s xs"
      by (rule owned_cong [OF o, of "s1\<lparr>fheap := h3\<rparr>" L]; simp add: half(5-7))+
    then show ?thesis using fd g half(1-4) by (simp add: ramfs_mkdir_def)
  next
    case (both p s1 f h2)
    define s2 where "s2 = upd_node p (\<lambda>n. n\<lparr>n_impl := f\<rparr>) (s1\<lparr>fheap := h2, ramfs_dirs := (ramfs_dirs s1)(f := NULL)\<rparr>)"
    let ?L = "insert f (insert p L)"
    have "\<exists>s'. ramfs_attach_child d p s2 = Some s' \<and> owned s' ?L d (p # xs) \<and>
        dir_map s' (p # xs) = (dir_map s xs)(name \<mapsto> p) \<and> n_type (nodes s' p) = n_type (nodes s2 p) \<and>
        n_size (nodes s' p) = n_size (nodes s2 p) \<and> n_impl (nodes s' p) = n_impl (nodes s2 p)"
      by (rule attach_new [OF o both(2,3)]) (use both nm in \<open>auto simp: s2_def upd_node_def\<close>)
    then obtain s' where s': "ramfs_attach_child d p s2 = Some s'" "owned s' ?L d (p # xs)"
        "dir_map s' (p # xs) = (dir_map s xs)(name \<mapsto> p)" "n_type (nodes s' p) = VFS_DIRECTORY" "n_impl (nodes s' p) = f"
      by (auto simp: s2_def upd_node_def both(11,12))
    have "ramfs_mkdir d name mode s = Some (p, s')"
      using fd g both(1,2,4,5) s'(1) by (simp add: ramfs_mkdir_def s2_def Let_def)
    moreover have "nodes s2 d = nodes s d" using both(3,8) dL by (auto simp: s2_def upd_node_def)
    then have "ramfs_dirs s' f = NULL"
      using s'(1) g both(2,6) dl dL by (auto simp: ramfs_attach_child_def Let_def dir_list_def s2_def)
    then have "owned s' ?L p []" using s'(2,4,5) both(2,5) by (simp add: owned_def dir_list_def)
    ultimately show ?thesis using both(2) s'(2,3) by (auto intro!: exI [of _ ?L])
  qed
qed

section \<open>Unlink\<close>

text \<open>The heap blocks of a file: its node, its structure and its bytes, as far as they exist.\<close>

definition file_blocks :: "fs_state \<Rightarrow> u32 \<Rightarrow> u32 list" where
  "file_blocks s x = (let f = n_impl (nodes s x); p = rf_data (ramfs_files s f) in
     (if f = NULL then [] else (if p = NULL then [] else [p]) @ [f]) @ [x])"

fun free_all :: "u32 list \<Rightarrow> fs_state \<Rightarrow> fs_state option" where
  "free_all [] s = Some s"
| "free_all (p # ps) s = (case fs_kfree p s of None \<Rightarrow> None | Some s \<Rightarrow> free_all ps s)"

lemma free_all_live:
  "live_inv (fheap s) L \<Longrightarrow> set ps \<subseteq> L \<Longrightarrow> distinct ps \<Longrightarrow>
     \<exists>h. free_all ps s = Some (s\<lparr>fheap := h\<rparr>) \<and> live_inv h (L - set ps)"
proof (induction ps arbitrary: s L)
  case Nil
  then show ?case by (intro exI [of _ "fheap s"]) simp
next
  case (Cons p ps)
  obtain h where h: "fs_kfree p s = Some (s\<lparr>fheap := h\<rparr>)" "live_inv h (L - {p})"
    by (rule fs_kfree_live [of s L p]) (use Cons.prems in auto)
  have "\<exists>h'. free_all ps (s\<lparr>fheap := h\<rparr>) = Some (s\<lparr>fheap := h\<rparr>\<lparr>fheap := h'\<rparr>) \<and> live_inv h' (L - {p} - set ps)"
    by (rule Cons.IH) (use Cons.prems h(2) in auto)
  moreover have "L - {p} - set ps = L - set (p # ps)" by auto
  ultimately show ?case using h(1) by auto
qed

lemma unlink_file:
  assumes "d \<noteq> NULL" "n_type (nodes s d) = VFS_DIRECTORY" "ramfs_detach_child d name s = Some (x, s1)" "x \<noteq> NULL"
    "n_type (nodes s1 x) \<noteq> VFS_DIRECTORY" "free_all (file_blocks s1 x) s1 = Some s'"
  shows "ramfs_unlink d name s = Some (0, s')"
  using assms by (auto simp: ramfs_unlink_def file_blocks_def Let_def split: if_splits option.splits)

lemma owned_sub:
  assumes "dir_list s d xs" "live_inv h L'" "insert d (insert (n_impl (nodes s d)) (set xs)) \<subseteq> L'"
  shows "owned (s\<lparr>fheap := h\<rparr>) L' d xs"
  using dir_list_cong [OF assms(1), of "s\<lparr>fheap := h\<rparr>"] assms(2,3) by (simp add: owned_def)

lemma unlink_spec:
  assumes o: "owned s L d xs" and x: "dir_map s xs name = Some x" "n_type (nodes s x) \<noteq> VFS_DIRECTORY"
    and b: "set (file_blocks s x) \<subseteq> L" "distinct (file_blocks s x)"
      "set (file_blocks s x) \<inter> insert d (insert (n_impl (nodes s d)) (set xs - {x})) = {}"
  shows "\<exists>s' ys. ramfs_unlink d name s = Some (0, s') \<and> owned s' (L - set (file_blocks s x)) d ys \<and>
    dir_map s' ys = (dir_map s xs)(name := None)"
proof -
  obtain us vs where xs: "xs = us @ x # vs" "n_name (nodes s x) = name" using dir_map_Some [OF x(1)] by blast
  define s1 where "s1 = unlinked (n_impl (nodes s d)) (last (NULL # us)) x s"
  have dl: "dir_list s d (us @ x # vs)" "live_inv (fheap s) L" "insert d (insert (n_impl (nodes s d)) (set xs)) \<subseteq> L"
    using o xs by (auto simp: owned_def)
  note dd = detach_dir [OF dl(1), folded s1_def]
  have fb: "file_blocks s1 x = file_blocks s x" by (simp add: file_blocks_def dd(5,7))
  obtain h where h: "free_all (file_blocks s x) s1 = Some (s1\<lparr>fheap := h\<rparr>)" "live_inv h (L - set (file_blocks s x))"
    using free_all_live [of s1 L "file_blocks s x"] dl(2) b(1,2) dd(6) by auto
  have "d \<noteq> NULL" "n_type (nodes s d) = VFS_DIRECTORY" "x \<noteq> NULL"
    "distinct (map (\<lambda>x. n_name (nodes s x)) (us @ x # vs))" "x \<notin> set us" "x \<notin> set vs"
    using dl(1) kids_NULL by (fastforce simp: dir_list_def)+
  note w = this
  have u: "ramfs_unlink d name s = Some (0, s1\<lparr>fheap := h\<rparr>)"
    by (rule unlink_file [of d s name x s1, OF w(1,2) _ w(3)]) (use dd(1,4) xs(2) x(2) h(1) fb in auto)
  have "set (us @ vs) = set xs - {x}" using w xs by auto
  then have "owned (s1\<lparr>fheap := h\<rparr>) (L - set (file_blocks s x)) d (us @ vs)"
    by (intro owned_sub [OF dd(2) h(2)]) (use dl(3) b(3) dd(5) in auto)
  moreover have "dir_map (s1\<lparr>fheap := h\<rparr>) (us @ vs) = dir_map s (us @ vs)" by (rule dir_map_cong) (simp add: dd(3))
  ultimately show ?thesis using u dir_map_remove [OF w(4)] xs by (intro exI [of _ "s1\<lparr>fheap := h\<rparr>"]) auto
qed

lemma unlink_absent:
  assumes "dir_list s d xs" "dir_map s xs name = None"
  shows "ramfs_unlink d name s = Some (- 1, s)"
  using assms detach_loop_absent [of s "ramfs_dirs s (n_impl (nodes s d))" xs name "n_impl (nodes s d)" NULL]
  by (simp add: ramfs_unlink_def ramfs_detach_child_def dir_list_def dir_map_None)

text \<open>A directory is not unlinked: it is detached, and attached again at the head of the list.\<close>

lemma unlink_directory:
  assumes o: "owned s L d xs" and x: "dir_map s xs name = Some x" "n_type (nodes s x) = VFS_DIRECTORY"
  shows "\<exists>s' ys. ramfs_unlink d name s = Some (- 1, s') \<and> owned s' L d ys \<and> dir_map s' ys = dir_map s xs"
proof -
  obtain us vs where xs: "xs = us @ x # vs" "n_name (nodes s x) = name" using dir_map_Some [OF x(1)] by blast
  define s1 where "s1 = unlinked (n_impl (nodes s d)) (last (NULL # us)) x s"
  have dl: "dir_list s d (us @ x # vs)" "live_inv (fheap s) L" "insert d (insert (n_impl (nodes s d)) (set xs)) \<subseteq> L"
    using o xs by (auto simp: owned_def)
  note dd = detach_dir [OF dl(1), folded s1_def]
  have w: "d \<noteq> NULL" "n_type (nodes s d) = VFS_DIRECTORY" "x \<noteq> NULL"
    "distinct (map (\<lambda>x. n_name (nodes s x)) (us @ x # vs))" "x \<notin> set us" "x \<notin> set vs" "x \<noteq> d"
    using dl(1) kids_NULL by (fastforce simp: dir_list_def)+
  have m: "dir_map s1 (us @ vs) = (dir_map s xs)(name := None)"
    using dir_map_cong [of "us @ vs" s1 s] dir_map_remove [OF w(4)] dd(3) xs by auto
  have "owned (s1\<lparr>fheap := fheap s1\<rparr>) L d (us @ vs)"
    by (rule owned_sub [OF dd(2)]) (use dl(2,3) dd(5,6) xs in auto)
  then have o1: "owned s1 L d (us @ vs)" by simp
  obtain s' where s': "ramfs_attach_child d x s1 = Some s'" "owned s' L d (x # us @ vs)"
    "dir_map s' (x # us @ vs) = (dir_map s1 (us @ vs))(name \<mapsto> x)"
    by (rule attach_fresh [OF o1 _ w(3)]) (use dl(3) w dd(3) m xs in auto)
  have "ramfs_unlink d name s = Some (- 1, s')"
    using w dd(1,4) x(2) s'(1) xs(2) by (simp add: ramfs_unlink_def)
  then show ?thesis using s' m x(1) by (intro exI [of _ s'] exI [of _ "x # us @ vs"]) (auto simp: fun_upd_idem)
qed

section \<open>Initialisation returns\<close>

lemma make_dirs_returns:
  "owned s L d xs \<Longrightarrow> (\<And>nm mode. (nm, mode) \<in> set ds \<Longrightarrow> length nm \<le> 255) \<Longrightarrow> \<exists>s'. make_dirs d ds s = Some s'"
proof (induction ds arbitrary: s L xs)
  case (Cons nd ds)
  obtain nm mode where nd: "nd = (nm, mode)" by (cases nd)
  have dl: "dir_list s d xs" using Cons.prems(1) by (simp add: owned_def)
  show ?case
  proof (cases "dir_map s xs nm")
    case None
    then obtain p s' L' ys where "ramfs_mkdir d nm mode s = Some (p, s')" "owned s' L' d ys"
      using mkdir_spec [OF Cons.prems(1) _ None, of mode] Cons.prems(2) [of nm mode] nd by (auto split: if_splits)
    then show ?thesis using Cons.IH [of s' L' ys] Cons.prems(2) nd by auto
  next
    case (Some x)
    then have "x \<noteq> NULL" using dir_map_Some [OF Some] dl kids_NULL by (fastforce simp: dir_list_def)
    then have "ramfs_mkdir d nm mode s = Some (NULL, s)"
      using finddir_dir [OF dl, of nm] Some dl by (simp add: ramfs_mkdir_def dir_list_def)
    then show ?thesis using Cons.IH [OF Cons.prems(1)] Cons.prems(2) nd by auto
  qed
qed simp

lemma ramfs_init_returns:
  assumes li: "live_inv (fheap s) L"
  shows "\<exists>s'. ramfs_init s = Some s'"
  using li small_sizes(3)
proof (cases rule: alloc_two [where name = "[]" and ty = VFS_DIRECTORY and mode = "0x1FF"])
  case (none h)
  then show ?thesis by (simp add: ramfs_init_def)
next
  case (half p s1 h2 h3)
  then show ?thesis by (simp add: ramfs_init_def)
next
  case (both p s1 f h2)
  define s2 where "s2 = (upd_node p (\<lambda>n. n\<lparr>n_impl := f\<rparr>) (s1\<lparr>fheap := h2, ramfs_dirs := (ramfs_dirs s1)(f := NULL)\<rparr>))
    \<lparr>vfs_root := p, vfs_cwd := p\<rparr>"
  have "owned s2 (insert f (insert p L)) p []"
    using both(2,5,7,11) by (simp add: owned_def dir_list_def s2_def upd_node_def)
  then have "\<exists>s'. make_dirs p std_dirs s2 = Some s'" by (rule make_dirs_returns) (auto simp: std_dirs_def)
  then show ?thesis using both(1,2,4,5) by (simp add: ramfs_init_def Let_def s2_def)
qed

section \<open>Properties\<close>

text \<open>C16: a directory of the RAM file system is a map from names to nodes. When its structures are live heap blocks,
  \<open>ramfs_finddir\<close> is the lookup; \<open>ramfs_create\<close> and \<open>ramfs_mkdir\<close> return, refuse a name that is there and leave the state
  unchanged, and otherwise fail for lack of memory and leave the map unchanged, or return a fresh empty file, or a fresh
  empty directory, and the map gains exactly that entry.\<close>

theorem ramfs_directory_map:
  assumes "owned s L d xs" "length name \<le> 255"
  shows "ramfs_finddir d name s = Some (case dir_map s xs name of None \<Rightarrow> NULL | Some x \<Rightarrow> x, s) \<and>
    (if dir_map s xs name \<noteq> None
     then ramfs_create d name mode s = Some (NULL, s) \<and> ramfs_mkdir d name mode s = Some (NULL, s)
     else (\<exists>p s'. ramfs_create d name mode s = Some (p, s') \<and>
         (if p = NULL then owned s' L d xs \<and> dir_map s' xs = dir_map s xs
          else \<exists>L'. L \<subseteq> L' \<and> owned s' L' d (p # xs) \<and> dir_map s' (p # xs) = (dir_map s xs)(name \<mapsto> p) \<and>
            n_type (nodes s' p) = VFS_FILE \<and> n_size (nodes s' p) = 0)) \<and>
       (\<exists>p s'. ramfs_mkdir d name mode s = Some (p, s') \<and>
         (if p = NULL then owned s' L d xs \<and> dir_map s' xs = dir_map s xs
          else \<exists>L'. L \<subseteq> L' \<and> owned s' L' d (p # xs) \<and> dir_map s' (p # xs) = (dir_map s xs)(name \<mapsto> p) \<and>
            owned s' L' p [])))"
proof -
  have dl: "dir_list s d xs" using assms(1) by (simp add: owned_def)
  note fd = finddir_dir [OF dl, of name]
  have "ramfs_create d name mode s = Some (NULL, s) \<and> ramfs_mkdir d name mode s = Some (NULL, s)"
    if x: "dir_map s xs name = Some x" for x
  proof -
    have "x \<in> set xs" using dir_map_Some [OF x] by auto
    then have "x \<noteq> NULL" using dl kids_NULL by (auto simp: dir_list_def)
    then show ?thesis using fd x dl by (simp add: ramfs_create_def ramfs_mkdir_def dir_list_def)
  qed
  then show ?thesis using fd create_spec [OF assms, of mode] mkdir_spec [OF assms, of mode]
    by (cases "dir_map s xs name = None") auto
qed

text \<open>Unlinking. A name that is not there, or that names a directory, makes \<open>ramfs_unlink\<close> return -1
  and leaves the map of the directory as it was; any other name is removed from the map, 0 is returned, and the blocks of the file are
  no longer live.\<close>

lemma ramfs_unlink_map:
  assumes "owned s L d xs"
    and "\<And>x. dir_map s xs name = Some x \<Longrightarrow> set (file_blocks s x) \<subseteq> L \<and> distinct (file_blocks s x) \<and>
      set (file_blocks s x) \<inter> insert d (insert (n_impl (nodes s d)) (set xs - {x})) = {}"
  shows "case dir_map s xs name of
      None \<Rightarrow> ramfs_unlink d name s = Some (- 1, s)
    | Some x \<Rightarrow> (\<exists>s' ys.
        if n_type (nodes s x) = VFS_DIRECTORY
        then ramfs_unlink d name s = Some (- 1, s') \<and> owned s' L d ys \<and> dir_map s' ys = dir_map s xs
        else ramfs_unlink d name s = Some (0, s') \<and> owned s' (L - set (file_blocks s x)) d ys \<and>
          dir_map s' ys = (dir_map s xs)(name := None))"
proof (cases "dir_map s xs name")
  case None
  then show ?thesis using unlink_absent assms(1) by (auto simp: owned_def)
next
  case (Some x)
  show ?thesis
  proof (cases "n_type (nodes s x) = VFS_DIRECTORY")
    case True
    then show ?thesis using unlink_directory [OF assms(1) Some True] by (simp add: Some)
  next
    case False
    then show ?thesis using unlink_spec [OF assms(1) Some False] assms(2) [OF Some] by (simp add: Some)
  qed
qed

section \<open>A directory with one file\<close>

definition three_block_heap :: heap_state where
  "three_block_heap = one_block_heap\<lparr>free_list := 0x1060,
     blocks := (\<lambda>_. \<lparr>hb_size = 0, hb_next = 0, hb_free = 0, hb_magic = 0\<rparr>)(
       0x1000 := \<lparr>hb_size = 16, hb_next = 0, hb_free = 0, hb_magic = HEAP_MAGIC\<rparr>,
       0x1020 := \<lparr>hb_size = 16, hb_next = 0, hb_free = 0, hb_magic = HEAP_MAGIC\<rparr>,
       0x1040 := \<lparr>hb_size = 16, hb_next = 0, hb_free = 0, hb_magic = HEAP_MAGIC\<rparr>,
       0x1060 := \<lparr>hb_size = 3984, hb_next = 0, hb_free = 1, hb_magic = HEAP_MAGIC\<rparr>)\<rparr>"

lemma three_block_heap_live: "live_inv three_block_heap {0x1010, 0x1030, 0x1050}"
proof -
  have f: "heap_frames one_block_heap = {1}" "heap_frames three_block_heap = {1}"
    by (simp_all add: heap_frames_def one_block_heap_def three_block_heap_def)
  have d: "a div 4096 = 1" if "4096 \<le> a" "a < 8192" for a :: nat
    using that by (intro div_nat_eqI) auto
  obtain fs where "heap_inv one_block_heap fs ((\<lambda>p. p - HEADER) ` {0x1010})"
    using one_block_heap_live unfolding live_inv_def by blast
  then have "heap_inv three_block_heap [0x1060] {0x1000, 0x1020, 0x1040}"
    using f d by (auto simp: heap_inv_def three_block_heap_def one_block_heap_def tiles_def block_ok_def block_end_def apart_def)
  then show ?thesis by (auto simp: live_inv_def)
qed

definition example_node :: "str \<Rightarrow> vfs_node_type \<Rightarrow> u32 \<Rightarrow> vfs_node" where
  "example_node nm ty impl = \<lparr>n_name = nm, n_inode = 0, n_size = 0, n_mode = 0, n_uid = 0, n_gid = 0, n_flags = 0,
     n_type = ty, n_open_count = 0, n_impl = impl, n_ops = RAMFS_OPS, n_parent = NULL, n_next = NULL, n_mounted = NULL\<rparr>"

definition example_dir :: fs_state where
  "example_dir = \<lparr>nodes = (\<lambda>_. example_node [97] VFS_FILE NULL)(0x1010 := example_node [] VFS_DIRECTORY 0x1030),
     ramfs_dirs = (\<lambda>_. 0x1050), ramfs_files = (\<lambda>_. \<lparr>rf_data = NULL, rf_size = 0, rf_capacity = 0\<rparr>),
     tar_nodes = (\<lambda>_. \<lparr>td_data = NULL, td_offset = 0, td_children = NULL\<rparr>),
     fat_nodes = (\<lambda>_. \<lparr>fn_first_cluster = 0, fn_dir_entry_sector = 0, fn_dir_entry_offset = 0\<rparr>), fat_fs = zero_fat_fs,
     fat_initialized = False, disk = \<lparr>drives = [], io_log = []\<rparr>,
     fmem = (\<lambda>_. 0), fheap = three_block_heap, vfs_root = 0x1010, vfs_cwd = 0x1010, fd_table = [],
     mount_list = NULL, mounts = (\<lambda>_. \<lparr>mt_path = [], mt_point = 0, mt_root = 0, mt_fs_type = [], mt_next = 0\<rparr>)\<rparr>"

lemma example_dir_owned: "owned example_dir {0x1010, 0x1030, 0x1050} 0x1010 [0x1050]"
  using three_block_heap_live by (simp add: owned_def dir_list_def example_dir_def example_node_def)

lemma example_name: "n_name (nodes example_dir 0x1050) = [97]"
  by (simp add: example_dir_def example_node_def)

theorem ramfs_directory_map_witness:
  "ramfs_finddir 0x1010 [97] example_dir = Some (0x1050, example_dir) \<and>
   ramfs_create 0x1010 [97] 0 example_dir = Some (NULL, example_dir)"
  using ramfs_directory_map [OF example_dir_owned, of "[97]" 0] by (simp add: example_name)

end
