(* ===== verification/RamfsFile.thy ===== *)
theory RamfsFile
  imports Ramfs
begin

text \<open>
  The contents of files of \<open>src/fs/ramfs.c\<close>: what \<open>ramfs_write\<close> and \<open>ramfs_read\<close> do to the bytes of a file
  whose buffer is a live block of the heap, and the round trip through a file descriptor.
\<close>

section \<open>Bytes of memory\<close>

definition mem_bytes :: "mem \<Rightarrow> u32 \<Rightarrow> nat \<Rightarrow> u8 list" where
  "mem_bytes m p n = map (\<lambda>i. m (p + word_of_nat i)) [0..<n]"

lemma mem_bytes_length [simp]: "length (mem_bytes m p n) = n"
  by (simp add: mem_bytes_def)

lemma mem_bytes_nth [simp]: "i < n \<Longrightarrow> mem_bytes m p n ! i = m (p + word_of_nat i)"
  by (simp add: mem_bytes_def)

lemma mem_bytes_cong: "(\<And>i. i < n \<Longrightarrow> m (p + word_of_nat i) = m' (p' + word_of_nat i)) \<Longrightarrow> mem_bytes m p n = mem_bytes m' p' n"
  by (simp add: mem_bytes_def)

lemma unat_add_nat: "unat (p :: u32) + i < 4294967296 \<Longrightarrow> unat (p + word_of_nat i) = unat p + i"
  by (simp add: unat_word_ariths unat_of_nat)

lemma range_offset:
  assumes "unat (p :: u32) + n \<le> 4294967296"
  shows "unat (a - p) < n \<longleftrightarrow> unat a \<in> {unat p..<unat p + n}"
proof
  assume "unat (a - p) < n"
  then show "unat a \<in> {unat p..<unat p + n}" using offset_outside [of a p n] assms by linarith
next
  assume "unat a \<in> {unat p..<unat p + n}"
  then show "unat (a - p) < n" by (auto simp: unat_sub word_le_nat_alt less_diff_conv)
qed

text \<open>A copy between two ranges that do not meet.\<close>

lemma memcpy_apart:
  assumes "byte_range (d, n) \<inter> byte_range (s, n) = {}"
    "n \<noteq> 0 \<Longrightarrow> unat d + unat n \<le> 4294967296" "n \<noteq> 0 \<Longrightarrow> unat s + unat n \<le> 4294967296"
  shows "memcpy d s n m a = (if unat a \<in> byte_range (d, n) then m (s + (a - d)) else m a)"
proof (cases "n = 0")
  case True
  then show ?thesis by (simp add: memcpy_step byte_range_def)
next
  case False
  then have "0 < unat n" by (simp add: unat_gt_0)
  then have "unat d \<in> byte_range (d, n)" by (simp add: byte_range_def)
  then have "unat d \<notin> byte_range (s, n)" using assms(1) by blast
  then have "unat n \<le> unat (d - s)"
    using offset_outside [of d s "unat n"] assms(3) [OF False] by (simp add: byte_range_def)
  then show ?thesis
    using memcpy_spec [of n d s m a] range_offset [OF assms(2) [OF False], of a] by (simp add: byte_range_def)
qed

definition in_block :: "fs_state \<Rightarrow> u32 \<Rightarrow> u32 \<Rightarrow> u32 \<Rightarrow> bool" where
  "in_block s q p n \<longleftrightarrow> byte_range (p, n) \<subseteq> small_extent (fheap s) q"

lemma extent_top:
  assumes "live_inv h L" "q \<in> L" "b \<in> small_extent h q"
  shows "b < 4294967295"
  using live_block [OF assms(1,2)] assms(3) by (auto simp: small_extent_def block_ok_def block_end_def)

lemma in_block_top:
  assumes "in_block s q p n" "live_inv (fheap s) L" "q \<in> L" "n \<noteq> 0"
  shows "unat p + unat n \<le> 4294967295"
proof -
  have "0 < unat n" using assms(4) by (simp add: unat_gt_0)
  then have "unat p + unat n - 1 \<in> byte_range (p, n)" by (auto simp: byte_range_def)
  then have "unat p + unat n - 1 < 4294967295" using assms extent_top unfolding in_block_def by blast
  then show ?thesis by simp
qed

lemma in_block_nth:
  assumes "in_block s q p n" "live_inv (fheap s) L" "q \<in> L" "i < unat n"
  shows "unat (p + word_of_nat i) = unat p + i" "unat (p + word_of_nat i) \<in> small_extent (fheap s) q"
proof -
  have "n \<noteq> 0" using assms(4) by auto
  then have "unat p + unat n \<le> 4294967295" using in_block_top assms by blast
  then show e: "unat (p + word_of_nat i) = unat p + i" using assms(4) by (intro unat_add_nat) simp
  have "unat p + i \<in> byte_range (p, n)" using assms(4) by (simp add: byte_range_def)
  then show "unat (p + word_of_nat i) \<in> small_extent (fheap s) q" using assms(1) e by (auto simp: in_block_def)
qed

lemma copy_blocks:
  assumes "live_inv (fheap s) L" "p \<in> L" "q \<in> L" "p \<noteq> q" "in_block s p d n" "in_block s q e n"
  shows "mem_bytes (memcpy d e n m) d (unat n) = mem_bytes m e (unat n)"
    "unat a \<notin> byte_range (d, n) \<Longrightarrow> memcpy d e n m a = m a"
proof -
  have "byte_range (d, n) \<inter> byte_range (e, n) = {}"
    using live_extents_disjoint [OF assms(1-4)] assms(5,6) unfolding in_block_def by blast
  then have c: "memcpy d e n m a = (if unat a \<in> byte_range (d, n) then m (e + (a - d)) else m a)" for a
    by (rule memcpy_apart) (use in_block_top [OF assms(5,1,2)] in_block_top [OF assms(6,1,3)] in auto)
  show "unat a \<notin> byte_range (d, n) \<Longrightarrow> memcpy d e n m a = m a" by (simp add: c)
  have "unat (d + word_of_nat i) \<in> byte_range (d, n)" if "i < unat n" for i
    using in_block_nth(1) [OF assms(5,1,2) that] that by (simp add: byte_range_def)
  then show "mem_bytes (memcpy d e n m) d (unat n) = mem_bytes m e (unat n)"
    by (intro mem_bytes_cong) (simp add: c)
qed

text \<open>Overwriting a part of a range, possibly past its end.\<close>

lemma overwrite_bytes:
  assumes "off \<le> n" "unat p + max n (off + k) \<le> 4294967296"
    and "mem_bytes m' (p + word_of_nat off) k = bs"
    and "\<And>a. unat a \<notin> {unat p + off..<unat p + off + k} \<Longrightarrow> m' a = m a"
  shows "mem_bytes m' p (max n (off + k)) = take off (mem_bytes m p n) @ bs @ drop (off + k) (mem_bytes m p n)"
proof (rule nth_equalityI)
  have lb: "length bs = k" using assms(3) by auto
  then show "length (mem_bytes m' p (max n (off + k))) = length (take off (mem_bytes m p n) @ bs @ drop (off + k) (mem_bytes m p n))"
    using assms(1) by simp
  fix i assume "i < length (mem_bytes m' p (max n (off + k)))"
  then have i: "i < max n (off + k)" by simp
  then have ui: "unat (p + word_of_nat i) = unat p + i" using assms(2) by (intro unat_add_nat) linarith
  show "mem_bytes m' p (max n (off + k)) ! i = (take off (mem_bytes m p n) @ bs @ drop (off + k) (mem_bytes m p n)) ! i"
  proof (cases "off \<le> i \<and> i < off + k")
    case True
    then have "bs ! (i - off) = m' (p + word_of_nat off + word_of_nat (i - off))" using assms(3) by auto
    also have "p + word_of_nat off + word_of_nat (i - off) = p + word_of_nat i"
      using True by (simp add: of_nat_diff algebra_simps)
    finally show ?thesis using True i lb assms(1) by (auto simp: nth_append)
  next
    case False
    then have "m' (p + word_of_nat i) = m (p + word_of_nat i)" by (intro assms(4)) (auto simp: ui)
    then show ?thesis using False i lb assms(1) by (auto simp: nth_append)
  qed
qed

section \<open>Files whose bytes are live blocks\<close>

definition contents :: "fs_state \<Rightarrow> u32 \<Rightarrow> u8 list" where
  "contents s f = mem_bytes (fmem s) (rf_data (ramfs_files s f)) (unat (rf_size (ramfs_files s f)))"

definition file_ok :: "fs_state \<Rightarrow> u32 set \<Rightarrow> u32 \<Rightarrow> bool" where
  "file_ok s L f \<longleftrightarrow> live_inv (fheap s) L \<and> rf_size (ramfs_files s f) \<le> rf_capacity (ramfs_files s f) \<and>
     (if rf_data (ramfs_files s f) = NULL then rf_capacity (ramfs_files s f) = 0
      else rf_data (ramfs_files s f) \<in> L \<and>
        in_block s (rf_data (ramfs_files s f)) (rf_data (ramfs_files s f)) (rf_capacity (ramfs_files s f)))"

text \<open>A block other than the file's bytes stays live, where it is, and with its contents.\<close>

definition keeps_block :: "fs_state \<Rightarrow> fs_state \<Rightarrow> u32 set \<Rightarrow> u32 \<Rightarrow> u32 \<Rightarrow> bool" where
  "keeps_block s s' L' f q \<longleftrightarrow> q \<in> L' \<and> q \<noteq> rf_data (ramfs_files s' f) \<and>
     small_extent (fheap s') q = small_extent (fheap s) q \<and>
     (\<forall>a. unat a \<in> small_extent (fheap s) q \<longrightarrow> fmem s' a = fmem s a)"

lemma keeps_block_trans:
  "keeps_block s s1 L1 f q \<Longrightarrow> keeps_block s1 s2 L2 f q \<Longrightarrow> keeps_block s s2 L2 f q"
  by (auto simp: keeps_block_def)

lemma keeps_block_bytes:
  assumes "keeps_block s s' L' f q" "in_block s q p n" "live_inv (fheap s) L" "q \<in> L" "k \<le> unat n"
  shows "mem_bytes (fmem s') p k = mem_bytes (fmem s) p k" "in_block s' q p n"
proof -
  have "fmem s' (p + word_of_nat i) = fmem s (p + word_of_nat i)" if "i < k" for i
    using in_block_nth(2) [OF assms(2-4), of i] that assms(1,5) by (simp add: keeps_block_def)
  then show "mem_bytes (fmem s') p k = mem_bytes (fmem s) p k" by (rule mem_bytes_cong)
  show "in_block s' q p n" using assms(1,2) by (simp add: in_block_def keeps_block_def)
qed

lemma and_not_255: "(a :: u32) AND NOT 255 = a div 256 * 256"
proof -
  have "(255 :: u32) = mask 8" by (simp add: mask_eq_exp_minus_1)
  then have "a AND NOT 255 = push_bit 8 (drop_bit 8 a)" using and_not_mask_shift [of a 8] by simp
  then show ?thesis by (simp add: push_bit_eq_mult drop_bit_eq_div)
qed

lemma round_up_256:
  assumes "unat (n :: u32) \<le> 1792" "n \<noteq> 0"
  shows "unat n \<le> unat ((n + 255) AND NOT 255)" "small_request ((n + 255) AND NOT 255)"
    "(n + 255) AND NOT 255 \<noteq> 0"
proof -
  have u: "unat (n + 255) = unat n + 255" using assms(1) by (simp add: unat_word_ariths)
  have "(unat n + 255) div 256 \<le> 2047 div 256" using assms(1) by (intro div_le_mono) simp
  then have v: "(unat n + 255) div 256 * 256 \<le> 1792" by simp
  have c: "unat ((n + 255) AND NOT 255) = (unat n + 255) div 256 * 256"
    unfolding and_not_255 using v by (simp add: unat_word_ariths unat_div_distrib u)
  then show le: "unat n \<le> unat ((n + 255) AND NOT 255)" by linarith
  have "unat (align_size ((n + 255) AND NOT 255)) \<le> 1799" using c v by (simp add: unat_align_size)
  then show "small_request ((n + 255) AND NOT 255)"
    by (simp add: small_request_def total_size_def word_less_nat_alt unat_word_ariths)
  show "(n + 255) AND NOT 255 \<noteq> 0" using le assms(2) by (metis le_zero_eq unat_eq_0)
qed

lemma free_old:
  assumes "live_inv (fheap s) L" "p \<noteq> NULL \<Longrightarrow> p \<in> L"
  obtains h where "(if p \<noteq> NULL then fs_kfree p s else Some s) = Some (s\<lparr>fheap := h\<rparr>)" "live_inv h (L - {p})"
    "\<And>q. q \<in> L - {p} \<Longrightarrow> small_extent h q = small_extent (fheap s) q"
proof (cases "p = NULL")
  case True
  have "live_inv (fheap s) (L - {p})" using assms(1) live_NULL True by simp
  then show thesis using that [of "fheap s"] True by simp
next
  case False
  show thesis by (rule fs_kfree_live [OF assms(1) assms(2) [OF False]]) (use False that in auto)
qed

text \<open>The copy of the old bytes into a fresh block.\<close>

lemma copy_old:
  fixes s :: fs_state
  assumes ok: "file_ok s L f" and h: "live_inv h (insert p L)" "p \<notin> L" "byte_range (p, cap) \<subseteq> small_extent h p"
      "\<And>q. q \<in> L \<Longrightarrow> small_extent h q = small_extent (fheap s) q"
    and szc: "rf_size (ramfs_files s f) \<le> cap"
  defines "rf \<equiv> ramfs_files s f"
  defines "m \<equiv> if rf_data rf \<noteq> NULL \<and> rf_size rf > 0 then memcpy p (rf_data rf) (rf_size rf) (fmem s) else fmem s"
  shows "mem_bytes m p (unat (rf_size rf)) = contents s f" "unat a \<notin> byte_range (p, cap) \<Longrightarrow> m a = fmem s a"
proof -
  let ?s1 = "s\<lparr>fheap := h\<rparr>"
  have br: "byte_range (p, rf_size rf) \<subseteq> byte_range (p, cap)" using szc by (auto simp: rf_def byte_range_def word_le_nat_alt)
  have c: "mem_bytes m p (unat (rf_size rf)) = contents s f" "unat a \<notin> byte_range (p, cap) \<Longrightarrow> m a = fmem s a"
    if c: "rf_data rf \<noteq> NULL \<and> rf_size rf > 0" for a
  proof -
    have d: "in_block ?s1 (rf_data rf) (rf_data rf) (rf_size rf)" "rf_data rf \<in> L"
      using ok c h(4) by (auto simp: rf_def file_ok_def in_block_def byte_range_def word_le_nat_alt)
    have "in_block ?s1 p p (rf_size rf)" using br h(3) by (simp add: in_block_def)
    note cb = copy_blocks [OF _ insertI1 insertI2 [OF d(2)] _ this d(1)]
    have "p \<noteq> rf_data rf" using d(2) h(2) by auto
    then show "mem_bytes m p (unat (rf_size rf)) = contents s f" "unat a \<notin> byte_range (p, cap) \<Longrightarrow> m a = fmem s a"
      using cb(1) [of "fmem s"] cb(2) [of a "fmem s"] h(1) c br by (auto simp: m_def contents_def rf_def)
  qed
  have z: "rf_size rf = 0" if "\<not> (rf_data rf \<noteq> NULL \<and> rf_size rf > 0)"
    using that ok by (auto simp: rf_def file_ok_def word_gt_0 split: if_splits)
  show "mem_bytes m p (unat (rf_size rf)) = contents s f"
    using c(1) z by (cases "rf_data rf \<noteq> NULL \<and> rf_size rf > 0") (auto simp: contents_def mem_bytes_def rf_def)
  show "unat a \<notin> byte_range (p, cap) \<Longrightarrow> m a = fmem s a"
    using c(2) by (cases "rf_data rf \<noteq> NULL \<and> rf_size rf > 0") (auto simp: m_def)
qed

lemma grow_step:
  assumes "req > rf_capacity (ramfs_files s f)" "fs_kmalloc ((req + 255) AND NOT 255) s = Some (p, s0)" "p \<noteq> NULL"
    "ramfs_files s0 f = rf"
    "(if rf_data rf \<noteq> NULL \<and> rf_size rf > 0 then s0\<lparr>fmem := memcpy p (rf_data rf) (rf_size rf) (fmem s0)\<rparr> else s0) = s1"
    "(if rf_data rf \<noteq> NULL then fs_kfree (rf_data rf) s1 else Some s1) = Some s2"
  shows "grow_file f req s = Some (True, set_file f (rf\<lparr>rf_data := p, rf_capacity := (req + 255) AND NOT 255\<rparr>) s2)"
  unfolding grow_file_def Let_def using assms by (simp only: option.case prod.case if_True if_False)

lemma grow_spec:
  assumes ok: "file_ok s L f" and r: "unat req \<le> 1792"
  shows "\<exists>g s' L'. grow_file f req s = Some (g, s') \<and> file_ok s' L' f \<and> contents s' f = contents s f \<and>
    rf_size (ramfs_files s' f) = rf_size (ramfs_files s f) \<and> (g \<longrightarrow> req \<le> rf_capacity (ramfs_files s' f)) \<and>
    nodes s' = nodes s \<and> fd_table s' = fd_table s \<and>
    (\<forall>q \<in> L - {rf_data (ramfs_files s f)}. keeps_block s s' L' f q)"
proof (cases "req > rf_capacity (ramfs_files s f)")
  case False
  then show ?thesis using ok
    by (intro exI [of _ True] exI [of _ s] exI [of _ L]) (auto simp: grow_file_def keeps_block_def)
next
  case True
  let ?rf = "ramfs_files s f" and ?cap = "(req + 255) AND NOT 255"
  have "req \<noteq> 0" using True by auto
  note cap = round_up_256 [OF r this]
  have li: "live_inv (fheap s) L" and sz: "rf_size ?rf \<le> rf_capacity ?rf" using ok by (auto simp: file_ok_def)
  have szc: "rf_size ?rf \<le> ?cap" using sz True cap(1) by (simp add: word_le_nat_alt word_less_nat_alt)
  obtain p h where k: "fs_kmalloc ?cap s = Some (p, s\<lparr>fheap := h\<rparr>)" "p = NULL \<Longrightarrow> live_inv h L"
    "p \<noteq> NULL \<Longrightarrow> p \<notin> L" "p \<noteq> NULL \<Longrightarrow> live_inv h (insert p L)" "p \<noteq> NULL \<Longrightarrow> byte_range (p, ?cap) \<subseteq> small_extent h p"
    "\<And>q. q \<in> L \<Longrightarrow> small_extent h q = small_extent (fheap s) q"
    using fs_kmalloc_live [OF li cap(2)] by metis
  show ?thesis
  proof (cases "p = NULL")
    case True
    have "grow_file f req s = Some (False, s\<lparr>fheap := h\<rparr>)"
      using \<open>req > rf_capacity ?rf\<close> k(1) True by (simp add: grow_file_def)
    then show ?thesis using ok k(2,6) True
      by (intro exI [of _ False] exI [of _ "s\<lparr>fheap := h\<rparr>"] exI [of _ L])
        (auto simp: file_ok_def contents_def keeps_block_def in_block_def)
  next
    case False
    define m where "m = (if rf_data ?rf \<noteq> NULL \<and> rf_size ?rf > 0 then memcpy p (rf_data ?rf) (rf_size ?rf) (fmem s) else fmem s)"
    define s1 where "s1 = s\<lparr>fheap := h, fmem := m\<rparr>"
    note cp = copy_old [OF ok k(4,3,5) [OF False] k(6) szc, folded m_def]
    have li1: "live_inv (fheap s1) (insert p L)" using k(4) False by (simp add: s1_def)
    have old: "rf_data ?rf \<noteq> NULL \<Longrightarrow> rf_data ?rf \<in> insert p L" using ok by (simp add: file_ok_def)
    obtain h2 where h2: "(if rf_data ?rf \<noteq> NULL then fs_kfree (rf_data ?rf) s1 else Some s1) = Some (s1\<lparr>fheap := h2\<rparr>)"
      "live_inv h2 (insert p L - {rf_data ?rf})"
      "\<And>q. q \<in> insert p L - {rf_data ?rf} \<Longrightarrow> small_extent h2 q = small_extent (fheap s1) q"
      by (rule free_old [OF li1 old]) blast+
    have pd: "p \<noteq> rf_data ?rf" using ok k(3) False by (auto simp: file_ok_def split: if_splits)
    define s' where "s' = set_file f (?rf\<lparr>rf_data := p, rf_capacity := ?cap\<rparr>) (s1\<lparr>fheap := h2\<rparr>)"
    have g: "grow_file f req s = Some (True, s')"
      unfolding s'_def by (rule grow_step [OF True k(1) False _ _ h2(1)]) (simp_all add: s1_def m_def)
    have f': "ramfs_files s' f = ?rf\<lparr>rf_data := p, rf_capacity := ?cap\<rparr>" "fmem s' = m" "fheap s' = h2"
      "nodes s' = nodes s" "fd_table s' = fd_table s"
      by (simp_all add: s'_def s1_def)
    have "file_ok s' (insert p L - {rf_data ?rf}) f"
      using h2(2,3) False pd k(5) szc by (auto simp: file_ok_def f' in_block_def s1_def)
    moreover have "contents s' f = contents s f" using cp(1) by (simp add: contents_def f')
    moreover have "keeps_block s s' (insert p L - {rf_data ?rf}) f q" if q: "q \<in> L - {rf_data ?rf}" for q
    proof -
      have "q \<noteq> p" using q k(3) False by auto
      then have "small_extent h p \<inter> small_extent h q = {}"
        using live_extents_disjoint [OF k(4) [OF False], of p q] q by auto
      then have "m a = fmem s a" if "unat a \<in> small_extent (fheap s) q" for a
        using cp(2) [of a] k(5) [OF False] k(6) [of q] q that by auto
      then show ?thesis using q \<open>q \<noteq> p\<close> h2(3) [of q] k(6) [of q] by (simp add: keeps_block_def f' s1_def)
    qed
    ultimately show ?thesis using g f' cap(1) by (auto simp: word_le_nat_alt)
  qed
qed

section \<open>Write and read\<close>

text \<open>Writing \<open>bs\<close> at \<open>off\<close> replaces that part of the contents and may extend them.\<close>

definition splice :: "nat \<Rightarrow> u8 list \<Rightarrow> u8 list \<Rightarrow> u8 list" where
  "splice off bs xs = take off xs @ bs @ drop (off + length bs) xs"

lemma sint_31:
  assumes "unat (n :: u32) < 2147483648"
  shows "sint n = int (unat n)"
proof -
  have u: "uint n = int (unat n)" by (rule uint_nat)
  moreover have "(2 :: int) ^ 31 = 2147483648" by simp
  ultimately have "- (2 ^ 31) \<le> uint n" "uint n < 2 ^ 31" using assms by linarith+
  then have "signed_take_bit 31 (uint n) = uint n" by (rule signed_take_bit_int_eq_self)
  then have "sint n = uint n" by (simp add: sint_uint)
  from this u show ?thesis by (rule trans)
qed

lemma sint_small: "unat (n :: u32) \<le> 1792 \<Longrightarrow> sint n = int (unat n)"
  by (rule sint_31) simp

lemma in_block_mono:
  "in_block s q p n \<Longrightarrow> off + k \<le> unat n \<Longrightarrow> unat p + unat n \<le> 4294967295 \<Longrightarrow>
     unat k' = k \<Longrightarrow> in_block s q (p + word_of_nat off) k'"
  by (auto simp: in_block_def byte_range_def unat_add_nat)

lemma file_top:
  assumes "file_ok s L f"
  shows "unat (rf_data (ramfs_files s f)) + unat (rf_capacity (ramfs_files s f)) \<le> 4294967295"
proof (cases "rf_capacity (ramfs_files s f) = 0")
  case True
  moreover have "unat (rf_data (ramfs_files s f)) < 4294967296" by simp
  ultimately show ?thesis by (simp only: unat_0)
next
  case False
  then show ?thesis
    using assms in_block_top [of s "rf_data (ramfs_files s f)" "rf_data (ramfs_files s f)" "rf_capacity (ramfs_files s f)" L]
    by (auto simp: file_ok_def split: if_splits)
qed

lemma copy_in:
  assumes ok: "file_ok s L f" and fit: "unat off + unat sz \<le> unat (rf_capacity (ramfs_files s f))"
    and q: "q \<in> L" "q \<noteq> rf_data (ramfs_files s f)" "in_block s q buf sz"
  defines "p \<equiv> rf_data (ramfs_files s f)"
  defines "m \<equiv> memcpy (p + off) buf sz (fmem s)"
  shows "mem_bytes m (p + off) (unat sz) = mem_bytes (fmem s) buf (unat sz)"
    "unat a \<notin> {unat p + unat off..<unat p + unat off + unat sz} \<Longrightarrow> m a = fmem s a"
    "r \<in> L \<Longrightarrow> r \<noteq> p \<Longrightarrow> unat b \<in> small_extent (fheap s) r \<Longrightarrow> m b = fmem s b"
proof -
  have "mem_bytes m (p + off) (unat sz) = mem_bytes (fmem s) buf (unat sz) \<and>
    (\<forall>a. unat a \<notin> {unat p + unat off..<unat p + unat off + unat sz} \<longrightarrow> m a = fmem s a) \<and>
    (sz \<noteq> 0 \<longrightarrow> p \<in> L \<and> {unat p + unat off..<unat p + unat off + unat sz} \<subseteq> small_extent (fheap s) p)"
  proof (cases "sz = 0")
    case True
    then show ?thesis by (simp add: m_def memcpy_step mem_bytes_def)
  next
    case False
    have top: "unat p + unat (rf_capacity (ramfs_files s f)) \<le> 4294967295" unfolding p_def by (rule file_top [OF ok])
    have "p \<noteq> NULL" using ok fit False by (auto simp: p_def file_ok_def unat_eq_0 split: if_splits)
    then have p: "p \<in> L" "in_block s p p (rf_capacity (ramfs_files s f))" "live_inv (fheap s) L"
      using ok by (auto simp: file_ok_def p_def)
    have u: "unat (p + off) = unat p + unat off" using unat_add_nat [of p "unat off"] top fit by simp
    have i: "in_block s p (p + off) sz" using in_block_mono [OF p(2) fit top refl] by simp
    note cb = copy_blocks [OF p(3,1) q(1) q(2) [folded p_def, symmetric] i q(3), where m = "fmem s", folded m_def]
    show ?thesis using cb i u p(1) by (auto simp: byte_range_def in_block_def)
  qed
  then have 1: "mem_bytes m (p + off) (unat sz) = mem_bytes (fmem s) buf (unat sz)"
    "\<And>a. unat a \<notin> {unat p + unat off..<unat p + unat off + unat sz} \<Longrightarrow> m a = fmem s a"
    and 2: "sz \<noteq> 0 \<Longrightarrow> p \<in> L \<and> {unat p + unat off..<unat p + unat off + unat sz} \<subseteq> small_extent (fheap s) p"
    by blast+
  show "mem_bytes m (p + off) (unat sz) = mem_bytes (fmem s) buf (unat sz)"
    "unat a \<notin> {unat p + unat off..<unat p + unat off + unat sz} \<Longrightarrow> m a = fmem s a"
    by (fact 1)+
  show "m b = fmem s b" if r: "r \<in> L" "r \<noteq> p" "unat b \<in> small_extent (fheap s) r"
  proof (cases "sz = 0")
    case False
    have "small_extent (fheap s) p \<inter> small_extent (fheap s) r = {}"
      using live_extents_disjoint [of "fheap s" L p r] ok r 2 [OF False] by (auto simp: file_ok_def)
    then show ?thesis using 1(2) [of b] 2 [OF False] r(3) by blast
  qed (simp add: m_def memcpy_step)
qed

text \<open>The file has to grow to hold \<open>n\<close> bytes, and the heap has no block for the new capacity.\<close>

definition no_room :: "u32 \<Rightarrow> u32 \<Rightarrow> fs_state \<Rightarrow> bool" where
  "no_room f n s \<longleftrightarrow> n > rf_capacity (ramfs_files s f) \<and> (\<exists>h. kmalloc ((n + 255) AND NOT 255) (fheap s) = Some (NULL, h))"

lemma grow_room: "grow_file f n s = Some (g, s1) \<Longrightarrow> g \<longleftrightarrow> \<not> no_room f n s"
  by (auto simp: grow_file_def no_room_def fs_kmalloc_def Let_def split: if_splits option.splits prod.splits)

lemma write_spec:
  assumes ok: "file_ok s L f" and n: "node \<noteq> NULL" "n_type (nodes s node) = VFS_FILE" "n_impl (nodes s node) = f" "f \<noteq> NULL"
    and buf: "buf \<noteq> NULL" "q \<in> L - {rf_data (ramfs_files s f)}" "in_block s q buf sz"
    and off: "off \<le> rf_size (ramfs_files s f)" "unat off + unat sz \<le> 1792"
  shows "\<exists>r s' L'. ramfs_write node off sz buf s = Some (r, s') \<and> file_ok s' L' f \<and> fd_table s' = fd_table s \<and>
    (\<forall>q \<in> L - {rf_data (ramfs_files s f)}. keeps_block s s' L' f q) \<and>
    n_type (nodes s' node) = VFS_FILE \<and> n_impl (nodes s' node) = f \<and> n_ops (nodes s' node) = n_ops (nodes s node) \<and>
    (if no_room f (off + sz) s then r = - 1 \<and> contents s' f = contents s f
     else r = int (unat sz) \<and> contents s' f = splice (unat off) (mem_bytes (fmem s) buf (unat sz)) (contents s f))"
proof -
  have req: "unat (off + sz) = unat off + unat sz" using off(2) by (simp add: unat_word_ariths)
  obtain g s1 L1 where g: "grow_file f (off + sz) s = Some (g, s1)" "file_ok s1 L1 f" "contents s1 f = contents s f"
    "rf_size (ramfs_files s1 f) = rf_size (ramfs_files s f)" "g \<longrightarrow> off + sz \<le> rf_capacity (ramfs_files s1 f)"
    "nodes s1 = nodes s" "fd_table s1 = fd_table s" "\<And>q. q \<in> L - {rf_data (ramfs_files s f)} \<Longrightarrow> keeps_block s s1 L1 f q"
    using grow_spec [OF ok, of "off + sz"] off(2) req by auto
  have fs: "file_struct node s = Some (f, s)" using n by (simp add: file_struct_def)
  show ?thesis
  proof (cases g)
    case False
    then have "ramfs_write node off sz buf s = Some (- 1, s1)"
      using n buf(1) fs g(1) by (simp add: ramfs_write_def Let_def)
    then show ?thesis using g n False grow_room [OF g(1)] by (intro exI [of _ "- 1"] exI [of _ s1] exI [of _ L1]) auto
  next
    case True
    let ?rf = "ramfs_files s1 f"
    define m where "m = memcpy (rf_data ?rf + off) buf sz (fmem s1)"
    define s' where "s' = (if off + sz > rf_size ?rf then upd_node node (\<lambda>n. n\<lparr>n_size := off + sz\<rparr>)
      (set_file f (?rf\<lparr>rf_size := off + sz\<rparr>) (s1\<lparr>fmem := m\<rparr>)) else s1\<lparr>fmem := m\<rparr>)"
    have w: "ramfs_write node off sz buf s = Some (sint sz, s')"
      using n buf(1) fs g(1) True by (simp add: ramfs_write_def Let_def s'_def m_def)
    have s': "fmem s' = m" "fheap s' = fheap s1" "fd_table s' = fd_table s1" "rf_data (ramfs_files s' f) = rf_data ?rf"
      "rf_capacity (ramfs_files s' f) = rf_capacity ?rf" "unat (rf_size (ramfs_files s' f)) = max (unat (rf_size ?rf)) (unat off + unat sz)"
      "n_type (nodes s' node) = n_type (nodes s1 node)" "n_impl (nodes s' node) = n_impl (nodes s1 node)" "n_ops (nodes s' node) = n_ops (nodes s1 node)"
      using req by (auto simp: s'_def upd_node_def word_less_nat_alt)
    have q: "keeps_block s s1 L1 f q" "q \<in> L1" "q \<noteq> rf_data ?rf" using g(8) [OF buf(2)] by (auto simp: keeps_block_def)
    have li: "live_inv (fheap s) L" "q \<in> L" using ok buf(2) by (auto simp: file_ok_def)
    note b = keeps_block_bytes [OF q(1) buf(3) li, of "unat sz"]
    have fit: "unat off + unat sz \<le> unat (rf_capacity ?rf)" using g(5) True req by (simp add: word_le_nat_alt)
    note c = copy_in [OF g(2) fit q(2,3) b(2), folded m_def, simplified]
    have ok': "file_ok s' L1 f" using g(2) fit by (auto simp: file_ok_def s' in_block_def word_le_nat_alt split: if_splits)
    have "keeps_block s1 s' L1 f r" if "r \<in> L - {rf_data (ramfs_files s f)}" for r
      using g(8) [OF that] c(3) by (auto simp: keeps_block_def s')
    then have k: "keeps_block s s' L1 f r" if "r \<in> L - {rf_data (ramfs_files s f)}" for r
      using that g(8) keeps_block_trans by blast
    have off': "unat off \<le> unat (rf_size ?rf)" using off(1) g(4) by (simp add: word_le_nat_alt)
    have "unat (rf_data ?rf) + max (unat (rf_size ?rf)) (unat off + unat sz) \<le> 4294967296"
      using file_top [OF g(2)] fit g(2) by (auto simp: file_ok_def word_le_nat_alt)
    from overwrite_bytes [OF off' this, of m _ "fmem s1"] have "contents s' f =
        splice (unat off) (mem_bytes (fmem s) buf (unat sz)) (contents s1 f)"
      using c(1,2) b(1) by (simp add: contents_def s' splice_def)
    moreover have "sint sz = int (unat sz)" using off(2) by (intro sint_small) simp
    ultimately show ?thesis using w ok' k s' g n True grow_room [OF g(1)]
      by (intro exI [of _ "int (unat sz)"] exI [of _ s'] exI [of _ L1]) simp
  qed
qed

lemma read_spec:
  assumes ok: "file_ok s L f" and n: "node \<noteq> NULL" "n_type (nodes s node) = VFS_FILE" "n_impl (nodes s node) = f" "f \<noteq> NULL"
    and buf: "buf \<noteq> NULL" "q \<in> L - {rf_data (ramfs_files s f)}" "in_block s q buf sz"
    and off: "unat off + unat sz < 4294967296" "unat sz \<le> 1792"
  defines "xs \<equiv> take (unat sz) (drop (unat off) (contents s f))"
  shows "\<exists>m. ramfs_read node off sz buf s = Some (int (length xs), s\<lparr>fmem := m\<rparr>) \<and>
    mem_bytes m buf (length xs) = xs \<and> contents (s\<lparr>fmem := m\<rparr>) f = contents s f"
proof (cases "rf_data (ramfs_files s f) = NULL \<or> off \<ge> rf_size (ramfs_files s f)")
  case True
  then have "rf_size (ramfs_files s f) \<le> off" using ok by (auto simp: file_ok_def split: if_splits)
  then have "xs = []" by (simp add: xs_def contents_def word_le_nat_alt)
  moreover have "ramfs_read node off sz buf s = Some (0, s)"
    using True n buf(1) by (auto simp: ramfs_read_def Let_def)
  ultimately show ?thesis by (intro exI [of _ "fmem s"]) (simp add: mem_bytes_def)
next
  case False
  let ?rf = "ramfs_files s f"
  define k where "k = (if off + sz > rf_size ?rf then rf_size ?rf - off else sz)"
  define m where "m = memcpy buf (rf_data ?rf + off) k (fmem s)"
  have "unat (off + sz) = unat off + unat sz" using off(1) by (simp add: unat_word_ariths)
  then have k: "unat k = min (unat sz) (unat (rf_size ?rf) - unat off)" "unat off < unat (rf_size ?rf)"
    using False by (auto simp: k_def word_less_nat_alt word_le_nat_alt unat_sub)
  then have lk: "length xs = unat k" by (simp add: xs_def contents_def)
  have r: "ramfs_read node off sz buf s = Some (sint k, s\<lparr>fmem := m\<rparr>)"
    using False n buf(1) by (auto simp: ramfs_read_def Let_def k_def m_def)
  let ?p = "rf_data ?rf" and ?c = "rf_capacity ?rf"
  have p: "?p \<in> L" "in_block s ?p ?p ?c" "live_inv (fheap s) L" "unat (rf_size ?rf) \<le> unat ?c"
    using ok False by (auto simp: file_ok_def word_le_nat_alt)
  have ip: "in_block s ?p (?p + word_of_nat (unat off)) k"
    by (rule in_block_mono [OF p(2) _ file_top [OF ok] refl]) (use k p(4) in auto)
  have "unat k \<le> unat sz" using k(1) by simp
  then have "byte_range (buf, k) \<subseteq> byte_range (buf, sz)" by (auto simp: byte_range_def)
  then have iq: "in_block s q buf k" using buf(3) by (auto simp: in_block_def)
  have qp: "q \<in> L" "q \<noteq> ?p" using buf(2) by auto
  note cb = copy_blocks [OF p(3) qp(1) p(1) qp(2) iq ip, where m = "fmem s", simplified, folded m_def]
  have "xs = mem_bytes (fmem s) (?p + off) (unat k)"
    using k lk by (intro nth_equalityI) (auto simp: xs_def contents_def add.assoc)
  then have b: "mem_bytes m buf (length xs) = xs" using cb(1) lk by simp
  have "m (?p + word_of_nat i) = fmem s (?p + word_of_nat i)" if "i < unat (rf_size ?rf)" for i
  proof (rule cb(2))
    have "unat (?p + word_of_nat i) \<in> small_extent (fheap s) ?p" using in_block_nth(2) [OF p(2,3,1)] that p(4) by simp
    then show "unat (?p + word_of_nat i) \<notin> byte_range (buf, k)"
      using live_extents_disjoint [OF p(3) qp(1) p(1) qp(2)] iq unfolding in_block_def by blast
  qed
  then have "mem_bytes m ?p (unat (rf_size ?rf)) = mem_bytes (fmem s) ?p (unat (rf_size ?rf))" by (rule mem_bytes_cong)
  then have "contents (s\<lparr>fmem := m\<rparr>) f = contents s f" by (simp add: contents_def)
  moreover have "sint k = int (length xs)" using sint_small [of k] k(1) off(2) lk by simp
  ultimately show ?thesis using r b by (intro exI [of _ m]) simp
qed

section \<open>Through a descriptor\<close>

lemma ramfs_node_ops: "n_ops (nodes s n) = RAMFS_OPS \<Longrightarrow> node_ops ramfs_optab n s = ramfs_ops"
  by (simp add: node_ops_def ramfs_optab_def)

text \<open>\<open>fd\<close> is open on \<open>node\<close>, with these flags, at this position.\<close>

definition opened :: "fs_state \<Rightarrow> int \<Rightarrow> u32 \<Rightarrow> u32 \<Rightarrow> u32 \<Rightarrow> bool" where
  "opened s fd node flags pos \<longleftrightarrow> nat fd < length (fd_table s) \<and>
     fd_get fd s = Some \<lparr>fd_node = node, fd_position = pos, fd_flags = flags, fd_in_use = True\<rparr>"

lemma opened_slot:
  "opened s fd node flags pos \<Longrightarrow>
     fd_table s ! nat fd = \<lparr>fd_node = node, fd_position = pos, fd_flags = flags, fd_in_use = True\<rparr>"
  by (auto simp: opened_def fd_get_def split: if_splits)

lemma opened_move:
  assumes "opened s fd node flags pos" "fd_table s' = fd_table s"
  shows "opened (upd_fd (nat fd) (\<lambda>d. d\<lparr>fd_position := f d\<rparr>) s') fd node flags (f (fd_table s ! nat fd))"
  using assms opened_slot [OF assms(1)] by (auto simp: opened_def fd_get_def upd_fd_def split: if_splits)

lemma opened_cong: "fd_table s' = fd_table s \<Longrightarrow> opened s' fd node flags pos = opened s fd node flags pos"
  by (simp add: opened_def fd_get_def)

text \<open>What the round trip needs of a state: the file behind the descriptor.\<close>

definition file_view :: "fs_state \<Rightarrow> u32 \<Rightarrow> u32 \<Rightarrow> bool" where
  "file_view s node f \<longleftrightarrow> node \<noteq> NULL \<and> n_ops (nodes s node) = RAMFS_OPS \<and> n_type (nodes s node) = VFS_FILE \<and>
     n_impl (nodes s node) = f \<and> f \<noteq> NULL"

lemma vfs_write_ram:
  assumes o: "opened s fd node flags pos" and v: "file_view s node f"
    and w: "ramfs_write node pos sz buf s = Some (r, s1)" "fd_table s1 = fd_table s" "file_view s1 node f" "r > 0"
  shows "\<exists>s2. vfs_write ramfs_optab fd buf sz s = Some (r, s2) \<and> opened s2 fd node flags (pos + word_of_int r) \<and>
    file_view s2 node f \<and> fmem s2 = fmem s1 \<and> fheap s2 = fheap s1 \<and> ramfs_files s2 = ramfs_files s1"
proof -
  let ?s2 = "upd_fd (nat fd) (\<lambda>d. d\<lparr>fd_position := fd_position d + word_of_int r\<rparr>) s1"
  have o2: "opened ?s2 fd node flags (pos + word_of_int r)"
    using opened_move [OF o w(2), of "\<lambda>d. fd_position d + word_of_int r"] opened_slot [OF o] by simp
  let ?s3 = "if pos + word_of_int r > n_size (nodes ?s2 node) then upd_node node (\<lambda>n. n\<lparr>n_size := pos + word_of_int r\<rparr>) ?s2 else ?s2"
  have "vfs_write ramfs_optab fd buf sz s = Some (r, ?s3)"
    using o v w(1,4) ramfs_node_ops [of s node] opened_slot [OF o2]
    by (simp add: opened_def file_view_def vfs_write_def ramfs_ops_def Let_def)
  moreover have "opened ?s3 fd node flags (pos + word_of_int r)" using o2 opened_cong [of ?s3 ?s2] by simp
  moreover have "file_view ?s3 node f" using w(3) by (simp add: file_view_def upd_node_def upd_fd_def)
  ultimately show ?thesis by (intro exI [of _ ?s3]) (simp add: upd_fd_def)
qed

lemma vfs_write_failed:
  assumes "opened s fd node flags pos" "file_view s node f" "ramfs_write node pos sz buf s = Some (- 1, s1)"
  shows "vfs_write ramfs_optab fd buf sz s = Some (- 1, s1)"
  using assms ramfs_node_ops [of s node] by (simp add: opened_def file_view_def vfs_write_def ramfs_ops_def Let_def)

lemma vfs_seek_set:
  assumes "opened s fd node flags pos" "sint p \<ge> 0"
  shows "vfs_seek fd p 0 s = (sint p, upd_fd (nat fd) (\<lambda>d. d\<lparr>fd_position := p\<rparr>) s)"
    "opened (upd_fd (nat fd) (\<lambda>d. d\<lparr>fd_position := p\<rparr>) s) fd node flags p"
  using assms opened_move [OF assms(1) refl, of "\<lambda>_. p"] by (simp_all add: vfs_seek_def opened_def Let_def)

lemma vfs_read_ram:
  assumes o: "opened s fd node flags pos" and v: "file_view s node f" and fl: "flags AND O_RDWR \<noteq> 0"
    and r: "ramfs_read node pos sz buf s = Some (r, s1)" "fd_table s1 = fd_table s"
  shows "\<exists>s2. vfs_read ramfs_optab fd buf sz s = Some (r, s2) \<and> fmem s2 = fmem s1 \<and>
    opened s2 fd node flags (if r > 0 then pos + word_of_int r else pos)"
proof -
  let ?s2 = "if r > 0 then upd_fd (nat fd) (\<lambda>d. d\<lparr>fd_position := fd_position d + word_of_int r\<rparr>) s1 else s1"
  have "opened ?s2 fd node flags (if r > 0 then pos + word_of_int r else pos)"
    using opened_move [OF o r(2), of "\<lambda>d. fd_position d + word_of_int r"] opened_slot [OF o] o opened_cong [OF r(2)] by auto
  moreover have "vfs_read ramfs_optab fd buf sz s = Some (r, ?s2)"
    using o v r(1) fl ramfs_node_ops [of s node] by (simp add: opened_def file_view_def vfs_read_def ramfs_ops_def Let_def)
  ultimately show ?thesis by (intro exI [of _ ?s2]) (simp add: upd_fd_def)
qed

section \<open>Properties\<close>

lemma file_ok_cong:
  "fheap s' = fheap s \<Longrightarrow> ramfs_files s' = ramfs_files s \<Longrightarrow> file_ok s' L f = file_ok s L f"
  by (simp add: file_ok_def in_block_def)

text \<open>C15: what is written through a descriptor is read back through it. Take a descriptor open for
  reading and writing on a file of the RAM file system whose bytes are a live heap block, at a position not past the end of the file, and
  two buffers in other live blocks, and a write that ends at 1792 bytes at most, so that the block the file grows into is one of
  the heap's pages and not one of whole frames. The write of \<open>sz > 0\<close> bytes returns. It returns -1 and leaves the contents as
  they were exactly when the file has to grow beyond its capacity and \<open>kmalloc\<close> of the new capacity, rounded up to 256 bytes, returns \<open>NULL\<close>. Otherwise
  it returns \<open>sz\<close>, the contents have those bytes in the place of the old ones and no others changed, and after a seek back to the old
  position a read returns \<open>sz\<close>, fills the second buffer with exactly the bytes of the first and leaves the position behind them.\<close>

theorem vfs_write_then_read:
  assumes o: "opened s fd node flags pos" "file_view s node f" "flags AND O_RDWR \<noteq> 0" and ok: "file_ok s L f"
    and b1: "buf \<noteq> NULL" "q \<in> L - {rf_data (ramfs_files s f)}" "in_block s q buf sz"
    and b2: "buf' \<noteq> NULL" "q' \<in> L - {rf_data (ramfs_files s f)}" "in_block s q' buf' sz"
    and sz: "0 < sz" "pos \<le> rf_size (ramfs_files s f)" "unat pos + unat sz \<le> 1792"
  shows "\<exists>r s1. vfs_write ramfs_optab fd buf sz s = Some (r, s1) \<and>
    (if no_room f (pos + sz) s then r = - 1 \<and> contents s1 f = contents s f
     else r = int (unat sz) \<and> contents s1 f = splice (unat pos) (mem_bytes (fmem s) buf (unat sz)) (contents s f) \<and>
     (\<exists>s2. vfs_read ramfs_optab fd buf' sz (snd (vfs_seek fd pos 0 s1)) = Some (int (unat sz), s2) \<and>
        mem_bytes (fmem s2) buf' (unat sz) = mem_bytes (fmem s) buf (unat sz) \<and>
        opened s2 fd node flags (pos + sz)))"
proof -
  have v: "node \<noteq> NULL" "n_type (nodes s node) = VFS_FILE" "n_impl (nodes s node) = f" "f \<noteq> NULL" "n_ops (nodes s node) = RAMFS_OPS"
    using o(2) by (auto simp: file_view_def)
  obtain r s1 L1 where w: "ramfs_write node pos sz buf s = Some (r, s1)" "file_ok s1 L1 f" "fd_table s1 = fd_table s"
    "keeps_block s s1 L1 f q'" "file_view s1 node f"
    "if no_room f (pos + sz) s then r = - 1 \<and> contents s1 f = contents s f
     else r = int (unat sz) \<and> contents s1 f = splice (unat pos) (mem_bytes (fmem s) buf (unat sz)) (contents s f)"
    using write_spec [OF ok v(1-4) b1 sz(2,3)] b2(2) v by (elim exE conjE) (rule that, auto simp: file_view_def)
  show ?thesis
  proof (cases "no_room f (pos + sz) s")
    case True
    then have "vfs_write ramfs_optab fd buf sz s = Some (- 1, s1)" using vfs_write_failed [OF o(1,2)] w(1,6) by simp
    then show ?thesis using True w(6) by auto
  next
    case False
    let ?bs = "mem_bytes (fmem s) buf (unat sz)"
    have r: "r = int (unat sz)" "contents s1 f = splice (unat pos) ?bs (contents s f)" using False w(6) by auto
    have "0 < unat sz" using sz(1) by (simp add: word_less_nat_alt)
    then have "r > 0" using r(1) by linarith
    from this obtain s2 where s2: "vfs_write ramfs_optab fd buf sz s = Some (r, s2)" "opened s2 fd node flags (pos + word_of_int r)"
      "file_view s2 node f" "fmem s2 = fmem s1" "fheap s2 = fheap s1" "ramfs_files s2 = ramfs_files s1"
      using vfs_write_ram [OF o(1,2) w(1,3,5)] by blast
    have "sint pos \<ge> 0" using sint_small [of pos] sz(3) by simp
    note sk = vfs_seek_set [OF s2(2) this]
    define s3 where "s3 = upd_fd (nat fd) (\<lambda>d. d\<lparr>fd_position := pos\<rparr>) s2"
    have c3: "contents s3 f = splice (unat pos) ?bs (contents s f)" "contents s2 f = splice (unat pos) ?bs (contents s f)"
      using r(2) by (simp_all add: contents_def s3_def upd_fd_def s2)
    have "fheap s3 = fheap s1" "ramfs_files s3 = ramfs_files s1" by (simp_all add: s3_def upd_fd_def s2)
    then have ok3: "file_ok s3 L1 f" using w(2) file_ok_cong by blast
    have f3: "file_view s3 node f" "in_block s3 q' buf' sz" "q' \<in> L1 - {rf_data (ramfs_files s3 f)}"
      using w(4) s2(3) b2(3) by (simp_all add: s3_def upd_fd_def in_block_def s2 file_view_def keeps_block_def)
    have "unat pos \<le> length (contents s f)" using sz(2) by (simp add: contents_def word_le_nat_alt)
    then have rd: "take (unat sz) (drop (unat pos) (contents s3 f)) = ?bs" by (simp add: c3 splice_def)
    obtain m where m: "ramfs_read node pos sz buf' s3 = Some (int (unat sz), s3\<lparr>fmem := m\<rparr>)"
      "mem_bytes m buf' (unat sz) = ?bs"
      using read_spec [OF ok3 _ _ _ v(4) b2(1) f3(3,2), of node pos] f3(1) sz(3) by (auto simp: rd file_view_def)
    have "opened s3 fd node flags pos" using sk(2) by (simp add: s3_def)
    from vfs_read_ram [OF this f3(1) o(3) m(1)] obtain s4 where
      "vfs_read ramfs_optab fd buf' sz s3 = Some (int (unat sz), s4)" "fmem s4 = m" "opened s4 fd node flags (pos + sz)"
      using \<open>r > 0\<close> r(1) by auto
    then show ?thesis using s2(1) r(1) c3(2) sk(1) m(2) False
      by (intro exI [of _ r] exI [of _ s2]) (auto simp: s3_def simp del: of_nat_unat)
  qed
qed

definition example_fs :: fs_state where
  "example_fs = \<lparr>nodes = (\<lambda>_. \<lparr>n_name = [97], n_inode = 0, n_size = 0, n_mode = 0, n_uid = 0, n_gid = 0, n_flags = 0,
       n_type = VFS_FILE, n_open_count = 1, n_impl = 0x3000, n_ops = RAMFS_OPS, n_parent = NULL, n_next = NULL, n_mounted = NULL\<rparr>),
     ramfs_dirs = (\<lambda>_. NULL), ramfs_files = (\<lambda>_. \<lparr>rf_data = NULL, rf_size = 0, rf_capacity = 0\<rparr>),
     tar_nodes = (\<lambda>_. \<lparr>td_data = NULL, td_offset = 0, td_children = NULL\<rparr>),
     fat_nodes = (\<lambda>_. \<lparr>fn_first_cluster = 0, fn_dir_entry_sector = 0, fn_dir_entry_offset = 0\<rparr>), fat_fs = zero_fat_fs,
     fat_initialized = False, disk = \<lparr>drives = [], io_log = []\<rparr>,
     fmem = (\<lambda>_. 0)(0x1010 := 104, 0x1011 := 105), fheap = one_block_heap, vfs_root = NULL, vfs_cwd = NULL,
     fd_table = [\<lparr>fd_node = 0x2000, fd_position = 0, fd_flags = O_RDWR, fd_in_use = True\<rparr>],
     mount_list = NULL, mounts = (\<lambda>_. \<lparr>mt_path = [], mt_point = 0, mt_root = 0, mt_fs_type = [], mt_next = 0\<rparr>)\<rparr>"

theorem vfs_write_then_read_witness:
  "\<exists>s1 s2. vfs_write ramfs_optab 0 0x1010 2 example_fs = Some (2, s1) \<and> contents s1 0x3000 = [104, 105] \<and>
     vfs_read ramfs_optab 0 0x1018 2 (snd (vfs_seek 0 0 0 s1)) = Some (2, s2) \<and> mem_bytes (fmem s2) 0x1018 2 = [104, 105]"
proof -
  have e: "opened example_fs 0 0x2000 O_RDWR 0" "file_view example_fs 0x2000 0x3000" "file_ok example_fs {0x1010} 0x3000"
    using one_block_heap_live by (simp_all add: example_fs_def opened_def fd_get_def file_view_def file_ok_def)
  have b: "in_block example_fs 0x1010 0x1010 2" "in_block example_fs 0x1010 0x1018 2"
    by (auto simp: example_fs_def in_block_def byte_range_def small_extent_def one_block_heap_def)
  have m: "mem_bytes (fmem example_fs) 0x1010 2 = [104, 105]" "contents example_fs 0x3000 = []"
    by (simp_all add: example_fs_def mem_bytes_def contents_def upt_rec)
  have "find_block (blocks one_block_heap) 256 NULL (free_list one_block_heap) = Some (NULL, 0x1020)"
    by (subst find_block.simps) (simp add: one_block_heap_def)
  then have "\<exists>h. kmalloc 256 one_block_heap = Some (0x1030, h)"
    by (subst kmalloc.simps) (simp add: total_size_def align_size_def)
  then have r: "\<not> no_room 0x3000 2 example_fs" by (auto simp: no_room_def example_fs_def)
  have "rf_data (ramfs_files example_fs x) = NULL" "rf_size (ramfs_files example_fs x) = 0" for x by (simp_all add: example_fs_def)
  then show ?thesis
    using vfs_write_then_read [OF e(1,2) _ e(3) _ _ b(1) _ _ b(2)] m r by (simp add: splice_def) blast
qed

end
