(* ===== verification/Tarfs.thy ===== *)
theory Tarfs
  imports RamfsDir
begin

text \<open>
  The tar file system of \<open>src/fs/tarfs.c\<close>: numbers and checksums of headers, the parser that builds a tree of
  nodes from an archive in memory, and the read-only operations on that tree. The disk is an
  argument of \<open>tarfs_load\<close>. The result of \<open>kmalloc\<close> is not checked by the code: a node or a data
  structure at \<open>NULL\<close> is written like any other. The children of a directory are linked as in the RAM file
  system, and the loops over them are the same.
\<close>

section \<open>Headers\<close>

fun octal_loop :: "mem \<Rightarrow> u32 \<Rightarrow> nat \<Rightarrow> u32 \<Rightarrow> u32" where
  "octal_loop m p 0 v = v"
| "octal_loop m p (Suc len) v =
     (if m p \<ge> 48 \<and> m p \<le> 55 then octal_loop m (p + 1) len (v * 8 + (ucast (m p) - 48)) else v)"

definition tar_octal_to_uint :: "mem \<Rightarrow> u32 \<Rightarrow> nat \<Rightarrow> u32" where
  "tar_octal_to_uint m str len = octal_loop m str len 0"

definition tar_verify_checksum :: "mem \<Rightarrow> u32 \<Rightarrow> bool" where
  "tar_verify_checksum m header =
     (let unsigned_sum = fold (\<lambda>i sum. if i \<ge> 148 \<and> i < 156 then sum + 32 else sum + ucast (m (header + word_of_nat i))) [0..<512] (0 :: u32);
          stored_checksum = tar_octal_to_uint m (header + 148) 8
      in unsigned_sum = stored_checksum)"

section \<open>Operations\<close>

definition tarfs_read :: "u32 \<Rightarrow> u32 \<Rightarrow> u32 \<Rightarrow> u32 \<Rightarrow> fs_state \<Rightarrow> (int \<times> fs_state) option" where
  "tarfs_read node offset sz buffer s =
     (if node = NULL \<or> n_type (nodes s node) \<noteq> VFS_FILE then Some (- 1, s)
      else
        (let data = n_impl (nodes s node) in
         if data = NULL \<or> td_data (tar_nodes s data) = NULL then Some (0, s)
         else if offset \<ge> n_size (nodes s node) then Some (0, s)
         else
           (let bytes_to_read = (if offset + sz > n_size (nodes s node) then n_size (nodes s node) - offset else sz)
            in Some (sint bytes_to_read,
                 s\<lparr>fmem := memcpy buffer (td_data (tar_nodes s data) + offset) bytes_to_read (fmem s)\<rparr>))))"

definition tarfs_readdir :: "u32 \<Rightarrow> u32 \<Rightarrow> fs_state \<Rightarrow> (dirent option \<times> fs_state) option" where
  "tarfs_readdir node index s =
     (if node = NULL \<or> n_type (nodes s node) \<noteq> VFS_DIRECTORY then Some (None, s)
      else
        (let data = n_impl (nodes s node) in
         if data = NULL then Some (None, s)
         else
           (case child_at (nodes s) (td_children (tar_nodes s data)) 0 index of None \<Rightarrow> None
            | Some child \<Rightarrow>
                Some (if child = NULL then None
                      else Some \<lparr>d_name = take 255 (n_name (nodes s child)), d_inode = n_inode (nodes s child),
                                 d_type = n_type (nodes s child)\<rparr>, s))))"

definition tarfs_finddir :: "u32 \<Rightarrow> str \<Rightarrow> fs_state \<Rightarrow> (u32 \<times> fs_state) option" where
  "tarfs_finddir node name s =
     (if node = NULL \<or> n_type (nodes s node) \<noteq> VFS_DIRECTORY then Some (NULL, s)
      else
        (let data = n_impl (nodes s node) in
         if data = NULL then Some (NULL, s)
         else
           (case find_child (nodes s) name (td_children (tar_nodes s data)) of None \<Rightarrow> None
            | Some child \<Rightarrow> Some (child, s))))"

definition tarfs_ops :: vfs_operations where
  "tarfs_ops = \<lparr>op_open = None, op_close = None, op_read = Some tarfs_read, op_write = None,
     op_readdir = Some tarfs_readdir, op_finddir = Some tarfs_finddir, op_create = None, op_unlink = None,
     op_mkdir = None, op_rmdir = None\<rparr>"

section \<open>Building the tree\<close>

text \<open>A node and its data as \<open>memset\<close> leaves them (every caller sets the type).\<close>

definition zero_node :: vfs_node where
  "zero_node = \<lparr>n_name = [], n_inode = 0, n_size = 0, n_mode = 0, n_uid = 0, n_gid = 0, n_flags = 0, n_type = VFS_FILE,
     n_open_count = 0, n_impl = NULL, n_ops = OPS_NULL, n_parent = NULL, n_next = NULL, n_mounted = NULL\<rparr>"

definition zero_data :: tarfs_node_data where
  "zero_data = \<lparr>td_data = NULL, td_offset = 0, td_children = NULL\<rparr>"

definition tar_alloc_node :: "fs_state \<Rightarrow> (u32 \<times> fs_state) option" where
  "tar_alloc_node s =
     (case fs_kmalloc 308 s of None \<Rightarrow> None
      | Some (p, s) \<Rightarrow> Some (p, s\<lparr>nodes := (nodes s)(p := zero_node)\<rparr>))"

definition tar_alloc_data :: "tarfs_node_data \<Rightarrow> fs_state \<Rightarrow> (u32 \<times> fs_state) option" where
  "tar_alloc_data d s =
     (case fs_kmalloc 12 s of None \<Rightarrow> None
      | Some (p, s) \<Rightarrow> Some (p, s\<lparr>tar_nodes := (tar_nodes s)(p := d)\<rparr>))"

text \<open>\<open>child->next = data->children; data->children = child\<close>.\<close>

definition tar_link :: "u32 \<Rightarrow> u32 \<Rightarrow> fs_state \<Rightarrow> fs_state" where
  "tar_link child data s =
     (let s = upd_node child (\<lambda>n. n\<lparr>n_next := td_children (tar_nodes s data)\<rparr>) s
      in s\<lparr>tar_nodes := (tar_nodes s)(data := (tar_nodes s data)\<lparr>td_children := child\<rparr>)\<rparr>)"

definition tar_make_dir :: "str \<Rightarrow> u32 \<Rightarrow> u32 \<Rightarrow> fs_state \<Rightarrow> (u32 \<times> fs_state) option" where
  "tar_make_dir component current current_data s =
     (case tar_alloc_node s of None \<Rightarrow> None
      | Some (child, s) \<Rightarrow>
          (let s = upd_node child (\<lambda>n. n\<lparr>n_name := take 255 component, n_type := VFS_DIRECTORY, n_ops := TARFS_OPS,
                     n_parent := current\<rparr>) s in
           case tar_alloc_data zero_data s of None \<Rightarrow> None
           | Some (child_data, s) \<Rightarrow>
               (let s = upd_node child (\<lambda>n. n\<lparr>n_impl := child_data\<rparr>) s
                in Some (child, tar_link child current_data s))))"

fun tar_dirs :: "str list \<Rightarrow> u32 \<Rightarrow> fs_state \<Rightarrow> (u32 \<times> fs_state) option" where
  "tar_dirs [] current s = Some (current, s)"
| "tar_dirs (component # cs) current s =
     (let current_data = n_impl (nodes s current) in
      case find_child (nodes s) component (td_children (tar_nodes s current_data)) of None \<Rightarrow> None
      | Some child \<Rightarrow>
          if child = NULL then
            (case tar_make_dir component current current_data s of None \<Rightarrow> None
             | Some (child, s) \<Rightarrow> tar_dirs cs child s)
          else tar_dirs cs child s)"

text \<open>The tokens \<open>strtok_r\<close> returns for the separator \<open>/\<close>.\<close>

function tokens :: "str \<Rightarrow> str list" where
  "tokens p =
     (let q = skip_slashes p in
      if q = [] then [] else takeWhile (\<lambda>c. c \<noteq> SLASH) q # tokens (dropWhile (\<lambda>c. c \<noteq> SLASH) q))"
  by pat_completeness auto

termination
proof (relation "measure length", simp)
  fix p :: str and q
  assume q: "q = skip_slashes p" "q \<noteq> []"
  have "hd q \<noteq> SLASH" using q skip_slashes_hd by blast
  then have l: "length (dropWhile (\<lambda>c. c \<noteq> SLASH) q) < length q"
    using q(2) by (cases q) (auto simp: less_Suc_eq_le length_dropWhile_le)
  have "length q \<le> length p" by (simp add: q(1) skip_slashes_length)
  with l show "(dropWhile (\<lambda>c. c \<noteq> SLASH) q, p) \<in> measure length" by simp
qed

declare tokens.simps [simp del]

definition tarfs_get_or_create_dir :: "u32 \<Rightarrow> str \<Rightarrow> fs_state \<Rightarrow> (u32 \<times> fs_state) option" where
  "tarfs_get_or_create_dir root pathname s =
     (if pathname = [] \<or> pathname = [SLASH] then Some (root, s)
      else tar_dirs (tokens (take 255 pathname)) root s)"

section \<open>Parsing\<close>

definition header_path :: "mem \<Rightarrow> u32 \<Rightarrow> str" where
  "header_path m header =
     (let filepath = takeWhile (\<lambda>c. c \<noteq> 0) (map (\<lambda>i. m (header + word_of_nat i)) [0..<255])
      in if filepath \<noteq> [] \<and> last filepath = SLASH then butlast filepath else filepath)"

text \<open>The node of one header, in the directory \<open>parent\<close>.\<close>

definition tar_add_node :: "u32 \<Rightarrow> u32 \<Rightarrow> u32 \<Rightarrow> str \<Rightarrow> u32 \<Rightarrow> fs_state \<Rightarrow> fs_state option" where
  "tar_add_node buffer offset parent filename file_size s =
     (case tar_alloc_node s of None \<Rightarrow> None
      | Some (node, s) \<Rightarrow>
          (let s = upd_node node (\<lambda>n. n\<lparr>n_name := take 255 filename, n_parent := parent, n_ops := TARFS_OPS\<rparr>) s;
               is_dir = fmem s (buffer + offset + 156) = 53;
               s = (if is_dir then upd_node node (\<lambda>n. n\<lparr>n_type := VFS_DIRECTORY\<rparr>) s
                    else upd_node node (\<lambda>n. n\<lparr>n_type := VFS_FILE, n_size := file_size\<rparr>) s)
           in case tar_alloc_data (if is_dir then zero_data
                   else \<lparr>td_data = buffer + offset + 512, td_offset = offset + 512, td_children = NULL\<rparr>) s of
                None \<Rightarrow> None
              | Some (node_data, s) \<Rightarrow>
                  (let s = upd_node node (\<lambda>n. n\<lparr>n_impl := node_data\<rparr>) s
                   in Some (tar_link node (n_impl (nodes s parent)) s))))"

definition tar_entry :: "u32 \<Rightarrow> u32 \<Rightarrow> u32 \<Rightarrow> fs_state \<Rightarrow> fs_state option" where
  "tar_entry buffer offset root s =
     (let filepath = header_path (fmem s) (buffer + offset);
          file_size = tar_octal_to_uint (fmem s) (buffer + offset + 124) 12
      in case (if SLASH \<in> set filepath then
                 (let filename = rev (takeWhile (\<lambda>c. c \<noteq> SLASH) (rev filepath));
                      dir = take (length filepath - length filename - 1) filepath
                  in case tarfs_get_or_create_dir root dir s of None \<Rightarrow> None
                     | Some (parent, s) \<Rightarrow> Some (parent, filename, s))
               else Some (root, filepath, s)) of
           None \<Rightarrow> None
         | Some (parent, filename, s) \<Rightarrow>
             if filename \<noteq> [] then tar_add_node buffer offset parent filename file_size s else Some s)"

definition header_step :: "mem \<Rightarrow> u32 \<Rightarrow> u32" where
  "header_step m header =
     (let file_size = tar_octal_to_uint m (header + 124) 12;
          file_blocks = (file_size + 511) div 512
      in 512 + file_blocks * 512)"

definition is_ustar :: "mem \<Rightarrow> u32 \<Rightarrow> bool" where
  "is_ustar m header \<longleftrightarrow> map (\<lambda>i. m (header + 257 + word_of_nat i)) [0..<5] = [117, 115, 116, 97, 114]"

partial_function (option) parse_loop :: "u32 \<Rightarrow> u32 \<Rightarrow> u32 \<Rightarrow> u32 \<Rightarrow> fs_state \<Rightarrow> fs_state option" where
  "parse_loop buffer sz root offset s =
     (if offset + 512 \<le> sz then
        (if fmem s (buffer + offset) = 0 then Some s
         else if \<not> is_ustar (fmem s) (buffer + offset) then parse_loop buffer sz root (offset + 512) s
         else
           (case tar_entry buffer offset root s of None \<Rightarrow> None
            | Some s' \<Rightarrow> parse_loop buffer sz root (offset + header_step (fmem s) (buffer + offset)) s'))
      else Some s)"

definition tarfs_parse :: "u32 \<Rightarrow> u32 \<Rightarrow> fs_state \<Rightarrow> (u32 \<times> fs_state) option" where
  "tarfs_parse buffer sz s =
     (case tar_alloc_node s of None \<Rightarrow> None
      | Some (root, s) \<Rightarrow>
          (let s = upd_node root (\<lambda>n. n\<lparr>n_name := [], n_type := VFS_DIRECTORY, n_ops := TARFS_OPS\<rparr>) s in
           case tar_alloc_data zero_data s of None \<Rightarrow> None
           | Some (root_data, s) \<Rightarrow>
               (let s = upd_node root (\<lambda>n. n\<lparr>n_impl := root_data\<rparr>) s
                in case parse_loop buffer sz root 0 s of None \<Rightarrow> None | Some s \<Rightarrow> Some (root, s))))"

section \<open>Loading\<close>

function load_sectors :: "ata_device \<Rightarrow> u8 \<Rightarrow> u32 \<Rightarrow> u32 \<Rightarrow> u32 \<Rightarrow> u32 \<Rightarrow> fs_state \<Rightarrow> fs_state" where
  "load_sectors dev drive start_lba buffer sectors i s =
     (if i < sectors then
        (let (r, s) = fs_read_sector dev drive (start_lba + i) (buffer + i * 512) s
         in if r < 0 then s else load_sectors dev drive start_lba buffer sectors (i + 1) s)
      else s)"
  by pat_completeness auto

termination
  by (relation "measure (\<lambda>(_, _, _, _, sectors, i, _). unat sectors - unat i)") (auto simp: loop_measure)

declare load_sectors.simps [simp del]

definition tarfs_load :: "ata_device \<Rightarrow> u8 \<Rightarrow> u32 \<Rightarrow> fs_state \<Rightarrow> (u32 \<times> fs_state) option" where
  "tarfs_load dev drive start_lba s =
     (case fs_kmalloc 512 s of None \<Rightarrow> None
      | Some (first_sector, s) \<Rightarrow>
          if first_sector = NULL then Some (NULL, s)
          else
            (let (r, s) = fs_read_sector dev drive start_lba first_sector s in
             if r < 0 then map_option (\<lambda>s. (NULL, s)) (fs_kfree first_sector s)
             else
               (case fs_kmalloc 0x100000 s of None \<Rightarrow> None
                | Some (buffer, s) \<Rightarrow>
                    if buffer = NULL then map_option (\<lambda>s. (NULL, s)) (fs_kfree first_sector s)
                    else
                      (let s = s\<lparr>fmem := memcpy buffer first_sector 512 (fmem s)\<rparr> in
                       case fs_kfree first_sector s of None \<Rightarrow> None
                       | Some s \<Rightarrow>
                           (let s = load_sectors dev drive start_lba buffer 2048 1 s in
                            case tarfs_parse buffer 0x100000 s of None \<Rightarrow> None
                            | Some (root, s) \<Rightarrow>
                                if root = NULL then map_option (\<lambda>s. (NULL, s)) (fs_kfree buffer s)
                                else Some (root, s))))))"

section \<open>The tree stays a tree of finite lists\<close>

text \<open>\<open>T\<close> holds nodes, \<open>D\<close> the addresses of their data; each directory's list of children ends.\<close>

definition tree_ok :: "fs_state \<Rightarrow> u32 set \<Rightarrow> u32 set \<Rightarrow> u32 set \<Rightarrow> bool" where
  "tree_ok s L T D \<longleftrightarrow> live_inv (fheap s) L \<and> T \<subseteq> insert NULL L \<and> D \<subseteq> insert NULL L \<and> (\<forall>n \<in> T. n_impl (nodes s n) \<in> D) \<and>
     (\<forall>d \<in> D. \<exists>xs. kids (nodes s) (td_children (tar_nodes s d)) xs \<and> set xs \<subseteq> T)"

lemma kids_fresh:
  assumes "kids nd c xs" "p \<notin> set xs \<or> p = NULL"
  shows "kids (nd(p := N)) c xs"
proof -
  have "p \<notin> set xs" using assms kids_NULL by blast
  then have "kids (nd(p := N)) c xs = kids nd c xs" by (intro kids_cong) auto
  then show ?thesis using assms(1) by simp
qed

lemma tree_new:
  assumes t: "tree_ok s L T D" and fr: "p \<notin> L" "d \<notin> L" "p = NULL \<or> p \<in> L'" "d = NULL \<or> d \<in> L'" "live_inv (fheap s') L'" "L \<subseteq> L'"
    and pd: "pd \<in> insert d D" and r: "td_children r = NULL"
    and N: "nodes s' = (nodes s)(p := N)" "n_impl N = d" "n_next N = td_children (((tar_nodes s)(d := r)) pd)"
    and tn: "tar_nodes s' = ((tar_nodes s)(d := r))(pd := (((tar_nodes s)(d := r)) pd)\<lparr>td_children := p\<rparr>)"
  shows "tree_ok s' L' (insert p T) (insert d D)"
proof -
  have T: "T \<subseteq> insert NULL L" "D \<subseteq> insert NULL L" and imp: "\<And>n. n \<in> T \<Longrightarrow> n_impl (nodes s n) \<in> D"
    using t by (auto simp: tree_ok_def)
  have lists: "\<exists>xs. kids (nodes s') (td_children (tar_nodes s e)) xs \<and> set xs \<subseteq> T" if e: "e \<in> D" for e
  proof -
    obtain xs where xs: "kids (nodes s) (td_children (tar_nodes s e)) xs" "set xs \<subseteq> T" using t e by (auto simp: tree_ok_def)
    have "p \<notin> set xs \<or> p = NULL" using xs(2) T(1) fr(1) by auto
    then show ?thesis using kids_fresh [OF xs(1)] xs(2) by (auto simp: N(1))
  qed
  have old: "\<exists>xs. kids (nodes s') (td_children (((tar_nodes s)(d := r)) e)) xs \<and> set xs \<subseteq> T" if "e \<in> insert d D" for e
    using lists that r by (cases "e = d") (auto intro: exI [of _ "[]"])
  have "\<exists>xs. kids (nodes s') (td_children (tar_nodes s' e)) xs \<and> set xs \<subseteq> insert p T" if e: "e \<in> insert d D" for e
  proof (cases "e = pd")
    case True
    obtain xs where xs: "kids (nodes s') (n_next N) xs" "set xs \<subseteq> T" using old [OF pd] N(3) by auto
    have "kids (nodes s') p (if p = NULL then [] else p # xs)" using xs(1) by (simp add: N(1))
    moreover have "set (if p = NULL then [] else p # xs) \<subseteq> insert p T" using xs(2) by auto
    ultimately show ?thesis using True by (auto simp: tn)
  next
    case False
    then show ?thesis using old [OF e] by (auto simp: tn)
  qed
  moreover have "n_impl (nodes s' n) \<in> insert d D" if "n \<in> insert p T" for n
    using imp that by (cases "n = p") (auto simp: N)
  moreover have "insert p T \<subseteq> insert NULL L'" "insert d D \<subseteq> insert NULL L'" using T fr(3,4,6) by auto
  ultimately show ?thesis using fr(5) by (auto simp: tree_ok_def)
qed

text \<open>The two allocations of a new node, whatever they return.\<close>

lemma alloc_pair:
  assumes "live_inv (fheap s) L"
  obtains p h d h2 L' where "tar_alloc_node s = Some (p, s\<lparr>fheap := h, nodes := (nodes s)(p := zero_node)\<rparr>)"
    "\<And>nd r. tar_alloc_data r (s\<lparr>fheap := h, nodes := nd\<rparr>) = Some (d, s\<lparr>fheap := h2, nodes := nd, tar_nodes := (tar_nodes s)(d := r)\<rparr>)"
    "p \<notin> L" "d \<notin> L" "p = NULL \<or> p \<in> L'" "d = NULL \<or> d \<in> L'" "live_inv h2 L'" "L \<subseteq> L'"
proof -
  obtain p h where k: "kmalloc 308 (fheap s) = Some (p, h)" "p = NULL \<Longrightarrow> live_inv h L"
    "p \<noteq> NULL \<Longrightarrow> p \<notin> L" "p \<noteq> NULL \<Longrightarrow> live_inv h (insert p L)"
    using kmalloc_live [OF assms small_sizes(1)] by (auto split: if_splits)
  define L1 where "L1 = (if p = NULL then L else insert p L)"
  have l1: "live_inv h L1" using k by (auto simp: L1_def)
  obtain d h2 where k2: "kmalloc 12 h = Some (d, h2)" "d = NULL \<Longrightarrow> live_inv h2 L1"
    "d \<noteq> NULL \<Longrightarrow> d \<notin> L1" "d \<noteq> NULL \<Longrightarrow> live_inv h2 (insert d L1)"
    using kmalloc_live [OF l1 small_sizes(2)] by (auto split: if_splits)
  have nl: "NULL \<notin> L" using live_NULL [OF assms] .
  show thesis
  proof (rule that [of p h d h2 "if d = NULL then L1 else insert d L1"])
    show "tar_alloc_node s = Some (p, s\<lparr>fheap := h, nodes := (nodes s)(p := zero_node)\<rparr>)"
      by (simp add: tar_alloc_node_def fs_kmalloc_def k(1))
    show "tar_alloc_data r (s\<lparr>fheap := h, nodes := nd\<rparr>) = Some (d, s\<lparr>fheap := h2, nodes := nd, tar_nodes := (tar_nodes s)(d := r)\<rparr>)" for nd r
      by (simp add: tar_alloc_data_def fs_kmalloc_def k2(1))
    show "d \<notin> L" using k2(3) nl by (cases "d = NULL") (auto simp: L1_def split: if_splits)
  qed (use k(3) k2 nl in \<open>auto simp: L1_def split: if_splits\<close>)
qed

lemma make_dir_ok:
  assumes "tree_ok s L T D" "cd \<in> D"
  shows "\<exists>p s' L' D'. tar_make_dir c cur cd s = Some (p, s') \<and> tree_ok s' L' (insert p T) D' \<and> fmem s' = fmem s"
proof -
  have "live_inv (fheap s) L" using assms(1) by (simp add: tree_ok_def)
  then obtain p h d h2 L' where a: "tar_alloc_node s = Some (p, s\<lparr>fheap := h, nodes := (nodes s)(p := zero_node)\<rparr>)"
    "\<And>nd r. tar_alloc_data r (s\<lparr>fheap := h, nodes := nd\<rparr>) = Some (d, s\<lparr>fheap := h2, nodes := nd, tar_nodes := (tar_nodes s)(d := r)\<rparr>)"
    and L: "p \<notin> L" "d \<notin> L" "p = NULL \<or> p \<in> L'" "d = NULL \<or> d \<in> L'" "live_inv h2 L'" "L \<subseteq> L'"
    by (rule alloc_pair) blast
  define N where "N = zero_node\<lparr>n_name := take 255 c, n_type := VFS_DIRECTORY, n_ops := TARFS_OPS, n_parent := cur, n_impl := d,
    n_next := td_children (((tar_nodes s)(d := zero_data)) cd)\<rparr>"
  define s' where "s' = s\<lparr>fheap := h2, nodes := (nodes s)(p := N),
    tar_nodes := ((tar_nodes s)(d := zero_data))(cd := (((tar_nodes s)(d := zero_data)) cd)\<lparr>td_children := p\<rparr>)\<rparr>"
  have "tar_make_dir c cur cd s = Some (p, s')"
    by (simp add: tar_make_dir_def a upd_node_def Let_def tar_link_def s'_def N_def)
  moreover have "tree_ok s' L' (insert p T) (insert d D)"
    by (rule tree_new [OF assms(1) L(1-4) _ L(6) _ _ , of s' cd zero_data N]) (use assms(2) L(5) in \<open>simp_all add: s'_def N_def zero_data_def\<close>)
  moreover have "fmem s' = fmem s" by (simp add: s'_def)
  ultimately show ?thesis by blast
qed

lemma add_node_ok:
  assumes "tree_ok s L T D" "par \<in> T"
  shows "\<exists>s' L' T' D'. tar_add_node b off par fn sz s = Some s' \<and> tree_ok s' L' T' D' \<and> T \<subseteq> T' \<and> fmem s' = fmem s"
proof -
  have "live_inv (fheap s) L" using assms(1) by (simp add: tree_ok_def)
  then obtain p h d h2 L' where a: "tar_alloc_node s = Some (p, s\<lparr>fheap := h, nodes := (nodes s)(p := zero_node)\<rparr>)"
    "\<And>nd r. tar_alloc_data r (s\<lparr>fheap := h, nodes := nd\<rparr>) = Some (d, s\<lparr>fheap := h2, nodes := nd, tar_nodes := (tar_nodes s)(d := r)\<rparr>)"
    and L: "p \<notin> L" "d \<notin> L" "p = NULL \<or> p \<in> L'" "d = NULL \<or> d \<in> L'" "live_inv h2 L'" "L \<subseteq> L'"
    by (rule alloc_pair) blast
  define is_dir where "is_dir = (fmem s (b + off + 156) = 53)"
  define r where "r = (if is_dir then zero_data else \<lparr>td_data = b + off + 512, td_offset = off + 512, td_children = NULL\<rparr>)"
  define pd where "pd = (if par = p then d else n_impl (nodes s par))"
  define N where "N = (if is_dir then zero_node\<lparr>n_name := take 255 fn, n_parent := par, n_ops := TARFS_OPS, n_type := VFS_DIRECTORY\<rparr>
    else zero_node\<lparr>n_name := take 255 fn, n_parent := par, n_ops := TARFS_OPS, n_type := VFS_FILE, n_size := sz\<rparr>)
    \<lparr>n_impl := d, n_next := td_children (((tar_nodes s)(d := r)) pd)\<rparr>"
  define s' where "s' = s\<lparr>fheap := h2, nodes := (nodes s)(p := N),
    tar_nodes := ((tar_nodes s)(d := r))(pd := (((tar_nodes s)(d := r)) pd)\<lparr>td_children := p\<rparr>)\<rparr>"
  have "tar_add_node b off par fn sz s = Some s'"
    by (simp add: tar_add_node_def a upd_node_def Let_def tar_link_def s'_def N_def r_def is_dir_def pd_def)
  moreover have "pd \<in> insert d D" using assms by (auto simp: pd_def tree_ok_def)
  then have "tree_ok s' L' (insert p T) (insert d D)"
    by (intro tree_new [OF assms(1) L(1-4) _ L(6), of s' pd r N]) (use L(5) in \<open>simp_all add: s'_def N_def r_def zero_data_def\<close>)
  ultimately show ?thesis by (intro exI [of _ s'] exI [of _ L'] exI [of _ "insert p T"] exI [of _ "insert d D"]) (auto simp: s'_def)
qed

lemma find_in_set: "find P xs = Some y \<Longrightarrow> y \<in> set xs"
  by (auto simp: find_Some_iff)

lemma dirs_ok:
  "tree_ok s L T D \<Longrightarrow> cur \<in> T \<Longrightarrow>
     \<exists>p s' L' T' D'. tar_dirs cs cur s = Some (p, s') \<and> tree_ok s' L' T' D' \<and> p \<in> T' \<and> T \<subseteq> T' \<and> fmem s' = fmem s"
proof (induction cs arbitrary: cur s L T D)
  case (Cons c cs)
  let ?cd = "n_impl (nodes s cur)"
  have cd: "?cd \<in> D" using Cons.prems by (auto simp: tree_ok_def)
  then obtain xs where xs: "kids (nodes s) (td_children (tar_nodes s ?cd)) xs" "set xs \<subseteq> T"
    using Cons.prems(1) by (auto simp: tree_ok_def)
  define x where "x = (case find (\<lambda>x. n_name (nodes s x) = c) xs of None \<Rightarrow> NULL | Some x \<Rightarrow> x)"
  have f: "find_child (nodes s) c (td_children (tar_nodes s ?cd)) = Some x" using find_child_spec [OF xs(1)] by (simp add: x_def)
  show ?case
  proof (cases "x = NULL")
    case True
    obtain p s' L' D' where mk: "tar_make_dir c cur ?cd s = Some (p, s')" "tree_ok s' L' (insert p T) D'" "fmem s' = fmem s"
      using make_dir_ok [OF Cons.prems(1) cd] by blast
    have e: "tar_dirs (c # cs) cur s = tar_dirs cs p s'" using f True mk(1) by simp
    obtain r s2 L2 T2 D2 where r: "tar_dirs cs p s' = Some (r, s2)" "tree_ok s2 L2 T2 D2" "r \<in> T2" "insert p T \<subseteq> T2" "fmem s2 = fmem s'"
      using Cons.IH [OF mk(2) insertI1] by blast
    then have "T \<subseteq> T2" "fmem s2 = fmem s" using mk(3) by simp_all
    then show ?thesis unfolding e using r(1-3) by blast
  next
    case False
    then have "x \<in> T" using xs(2) find_in_set [of _ xs] by (fastforce simp: x_def split: option.splits)
    moreover have "tar_dirs (c # cs) cur s = tar_dirs cs x s" using f False by simp
    ultimately show ?thesis using Cons.IH [OF Cons.prems(1), of x] by simp
  qed
qed auto

lemma entry_ok:
  assumes "tree_ok s L T D" "root \<in> T"
  shows "\<exists>s' L' T' D'. tar_entry b off root s = Some s' \<and> tree_ok s' L' T' D' \<and> T \<subseteq> T' \<and> fmem s' = fmem s"
proof -
  let ?fp = "header_path (fmem s) (b + off)"
  let ?get = "if SLASH \<in> set ?fp then
      (let filename = rev (takeWhile (\<lambda>c. c \<noteq> SLASH) (rev ?fp));
           dir = take (length ?fp - length filename - 1) ?fp
       in case tarfs_get_or_create_dir root dir s of None \<Rightarrow> None | Some (parent, s) \<Rightarrow> Some (parent, filename, s))
    else Some (root, ?fp, s)"
  obtain p fn s1 L1 T1 D1 where g: "?get = Some (p, fn, s1)" "tree_ok s1 L1 T1 D1" "p \<in> T1" "T \<subseteq> T1" "fmem s1 = fmem s"
  proof (cases "SLASH \<in> set ?fp")
    case True
    have "\<exists>p s' L' T' D'. tarfs_get_or_create_dir root dir s = Some (p, s') \<and> tree_ok s' L' T' D' \<and> p \<in> T' \<and> T \<subseteq> T' \<and> fmem s' = fmem s" for dir
      using dirs_ok [OF assms] assms by (auto simp: tarfs_get_or_create_dir_def)
    from this [of "take (length ?fp - length (rev (takeWhile (\<lambda>c. c \<noteq> SLASH) (rev ?fp))) - 1) ?fp"] True show thesis
      by (auto intro: that)
  qed (use assms in \<open>auto intro: that\<close>)
  show ?thesis
  proof (cases "fn = []")
    case True
    then show ?thesis using g by (intro exI [of _ s1]) (auto simp: tar_entry_def)
  next
    case False
    then show ?thesis using g add_node_ok [OF g(2,3), of b off fn] by (fastforce simp: tar_entry_def)
  qed
qed

section \<open>Termination of the parser\<close>

text \<open>The size field of every header in the archive is below \<open>2 ^ 31\<close>.\<close>

definition sane_sizes :: "mem \<Rightarrow> u32 \<Rightarrow> u32 \<Rightarrow> bool" where
  "sane_sizes m buffer sz \<longleftrightarrow> (\<forall>off. unat off + 512 \<le> unat sz \<and> is_ustar m (buffer + off) \<longrightarrow>
     unat (tar_octal_to_uint m (buffer + off + 124) 12) < 2147483648)"

lemma header_step_bounds:
  assumes "unat (tar_octal_to_uint m (h + 124) 12) < 2147483648"
  shows "512 \<le> unat (header_step m h)" "unat (header_step m h) \<le> 2147484672"
proof -
  define v where "v = tar_octal_to_uint m (h + 124) 12"
  define b where "b = (unat v + 511) div 512 * 512"
  have v: "unat v < 2147483648" using assms by (simp add: v_def)
  then have b: "b \<le> 2147484159" unfolding b_def by simp
  have "unat (v + 511) = unat v + 511" using v by (simp add: unat_word_ariths)
  then have "unat ((v + 511) div 512 * 512) = b" using b by (simp add: b_def unat_word_ariths unat_div_distrib)
  then have "unat (header_step m h) = 512 + b" using b by (simp add: header_step_def Let_def v_def [symmetric] unat_word_ariths)
  then show "512 \<le> unat (header_step m h)" "unat (header_step m h) \<le> 2147484672" using b by simp_all
qed

lemma parse_loop_returns:
  assumes "tree_ok s L T D" "root \<in> T" "sane_sizes (fmem s) buffer sz" "unat sz \<le> 1073741824" "unat off \<le> 3221226496"
  shows "\<exists>s'. parse_loop buffer sz root off s = Some s'"
  using assms
proof (induction "unat sz - unat off" arbitrary: off s L T D rule: less_induct)
  case less
  have o: "unat (off + 512) = unat off + 512" using less.prems(5) by (simp add: unat_word_ariths)
  show ?case
  proof (cases "off + 512 \<le> sz")
    case False
    then show ?thesis by (subst parse_loop.simps) simp
  next
    case True
    then have le: "unat off + 512 \<le> unat sz" using o by (simp add: word_le_nat_alt)
    show ?thesis
    proof (cases "fmem s (buffer + off) = 0 \<or> \<not> is_ustar (fmem s) (buffer + off)")
      case True
      have "\<exists>s'. parse_loop buffer sz root (off + 512) s = Some s'"
        by (rule less.hyps [OF _ less.prems(1-4)]) (use o le less.prems(4) in simp_all)
      then show ?thesis using True \<open>off + 512 \<le> sz\<close> by (subst parse_loop.simps) auto
    next
      case False
      let ?st = "header_step (fmem s) (buffer + off)"
      have "unat (tar_octal_to_uint (fmem s) (buffer + off + 124) 12) < 2147483648"
        using less.prems(3) le False by (auto simp: sane_sizes_def)
      note st = header_step_bounds [OF this]
      have u: "unat (off + ?st) = unat off + unat ?st" using st le less.prems(4) by (simp add: unat_word_ariths)
      obtain s1 L1 T1 D1 where e: "tar_entry buffer off root s = Some s1" "tree_ok s1 L1 T1 D1" "T \<subseteq> T1" "fmem s1 = fmem s"
        using entry_ok [OF less.prems(1,2)] by blast
      have "\<exists>s'. parse_loop buffer sz root (off + ?st) s1 = Some s'"
        by (rule less.hyps [OF _ e(2)]) (use e less.prems u st le in auto)
      then show ?thesis using False \<open>off + 512 \<le> sz\<close> e(1) by (subst parse_loop.simps) simp
    qed
  qed
qed

lemma tar_dirs_mem: "tar_dirs cs cur s = Some (r, s') \<Longrightarrow> fmem s' = fmem s"
proof (induction cs arbitrary: cur s)
  case (Cons c cs)
  have "fmem s1 = fmem s" if "tar_make_dir c cur cd s = Some (p, s1)" for p s1 cd
    using that by (auto simp: tar_make_dir_def tar_alloc_node_def tar_alloc_data_def tar_link_def Let_def upd_node_def
        split: option.splits dest!: fs_kmalloc_frame(5))
  with Cons show ?case by (force simp: Let_def split: option.splits if_splits)
qed simp

lemma tar_entry_mem: "tar_entry b off root s = Some s' \<Longrightarrow> fmem s' = fmem s"
proof -
  have g: "fmem s1 = fmem s" if "tarfs_get_or_create_dir root dir s = Some (p, s1)" for dir p s1
    using that tar_dirs_mem by (auto simp: tarfs_get_or_create_dir_def split: if_splits)
  have a: "fmem s1 = fmem s" if "tar_add_node b off p fn fs s = Some s1" for p fn fs s s1
    using that by (auto simp: tar_add_node_def tar_alloc_node_def tar_alloc_data_def tar_link_def Let_def upd_node_def
        split: option.splits if_splits dest!: fs_kmalloc_frame(5))
  assume "tar_entry b off root s = Some s'"
  then show ?thesis by (auto simp: tar_entry_def Let_def split: option.splits if_splits dest!: g a)
qed

text \<open>A header whose size makes the step zero is read again and again.\<close>

definition stuck :: "u32 \<Rightarrow> u32 \<Rightarrow> u32 \<Rightarrow> fs_state \<Rightarrow> bool" where
  "stuck buffer sz off s \<longleftrightarrow> off + 512 \<le> sz \<and> fmem s (buffer + off) \<noteq> 0 \<and> is_ustar (fmem s) (buffer + off) \<and>
     header_step (fmem s) (buffer + off) = 0"

lemma parse_loop_not_stuck: "parse_loop buffer sz root off s = Some r \<Longrightarrow> \<not> stuck buffer sz off s"
proof (erule parse_loop.raw_induct [rotated])
  fix k buffer sz root offset s r
  assume IH: "\<And>buffer sz root offset s r. k buffer sz root offset s = Some r \<Longrightarrow> \<not> stuck buffer sz offset s"
    and e: "(if offset + 512 \<le> sz then
        (if fmem s (buffer + offset) = 0 then Some s
         else if \<not> is_ustar (fmem s) (buffer + offset) then k buffer sz root (offset + 512) s
         else
           (case tar_entry buffer offset root s of None \<Rightarrow> None
            | Some s' \<Rightarrow> k buffer sz root (offset + header_step (fmem s) (buffer + offset)) s'))
      else Some s) = Some r"
  show "\<not> stuck buffer sz offset s"
  proof
    assume st: "stuck buffer sz offset s"
    then obtain s1 where s1: "tar_entry buffer offset root s = Some s1" "k buffer sz root offset s1 = Some r"
      using e by (auto simp: stuck_def split: option.splits)
    have "stuck buffer sz offset s1" using st tar_entry_mem [OF s1(1)] by (simp add: stuck_def)
    with IH [OF s1(2)] show False ..
  qed
qed

section \<open>The operations as a file system of the kernel\<close>

definition rt_optab :: optab where
  "rt_optab p = (if p = TARFS_OPS then tarfs_ops else ramfs_optab p)"

lemma tarfs_keeps:
  "keeps_fds (tarfs_read n off sz buf)" "keeps_fds (tarfs_readdir n idx)" "keeps_fds (tarfs_finddir n nm)"
  by (auto simp: tarfs_read_def tarfs_readdir_def tarfs_finddir_def Let_def intro!: keeps_fdsI split: if_splits option.splits)

interpretation rt: vfs_backend rt_optab
proof unfold_locales
  fix p f1 n fl
  show "op_open (rt_optab p) = Some f1 \<Longrightarrow> keeps_fds (f1 n fl)"
    using ram.open_keeps [of p f1] by (auto simp: rt_optab_def tarfs_ops_def split: if_splits)
next
  fix p f2 n 
  show "op_close (rt_optab p) = Some f2 \<Longrightarrow> keeps_fds (f2 n)"
    using ram.close_keeps [of p f2] by (auto simp: rt_optab_def tarfs_ops_def split: if_splits)
next
  fix p f3 n off sz buf
  show "op_read (rt_optab p) = Some f3 \<Longrightarrow> keeps_fds (f3 n off sz buf)"
    using ram.read_keeps [of p f3] by (auto simp: rt_optab_def tarfs_ops_def intro: tarfs_keeps split: if_splits)
next
  fix p f4 n off sz buf
  show "op_write (rt_optab p) = Some f4 \<Longrightarrow> keeps_fds (f4 n off sz buf)"
    using ram.write_keeps [of p f4] by (auto simp: rt_optab_def tarfs_ops_def split: if_splits)
next
  fix p f5 n idx
  show "op_readdir (rt_optab p) = Some f5 \<Longrightarrow> keeps_fds (f5 n idx)"
    using ram.readdir_keeps [of p f5] by (auto simp: rt_optab_def tarfs_ops_def intro: tarfs_keeps split: if_splits)
next
  fix p f6 n nm
  show "op_finddir (rt_optab p) = Some f6 \<Longrightarrow> keeps_fds (f6 n nm)"
    using ram.finddir_keeps [of p f6] by (auto simp: rt_optab_def tarfs_ops_def intro: tarfs_keeps split: if_splits)
next
  fix p f7 n nm mode
  show "op_create (rt_optab p) = Some f7 \<Longrightarrow> keeps_fds (f7 n nm mode)"
    using ram.create_keeps [of p f7] by (auto simp: rt_optab_def tarfs_ops_def split: if_splits)
next
  fix p f8 n nm
  show "op_unlink (rt_optab p) = Some f8 \<Longrightarrow> keeps_fds (f8 n nm)"
    using ram.unlink_keeps [of p f8] by (auto simp: rt_optab_def tarfs_ops_def split: if_splits)
next
  fix p f9 n nm mode
  show "op_mkdir (rt_optab p) = Some f9 \<Longrightarrow> keeps_fds (f9 n nm mode)"
    using ram.mkdir_keeps [of p f9] by (auto simp: rt_optab_def tarfs_ops_def split: if_splits)
next
  fix p f10 n nm
  show "op_rmdir (rt_optab p) = Some f10 \<Longrightarrow> keeps_fds (f10 n nm)"
    using ram.rmdir_keeps [of p f10] by (auto simp: rt_optab_def tarfs_ops_def split: if_splits)
qed

section \<open>Properties\<close>

text \<open>C20: parsing an archive. On a heap with its invariant and a buffer of at most 1 GB, \<open>tarfs_parse\<close> returns for
  every content of the buffer in which no header has a size of \<open>2 ^ 31\<close> or more, whether allocations succeed or
  not. Without that bound it need not: on an archive whose first header has the size \<open>0xFFFFFE00\<close> the
  step to the next header is zero and the parser does not return.\<close>

theorem tarfs_parse_terminates:
  assumes "live_inv (fheap s) L" "unat sz \<le> 1073741824"
  shows "(sane_sizes (fmem s) buffer sz \<longrightarrow> (\<exists>root s'. tarfs_parse buffer sz s = Some (root, s'))) \<and>
    (512 \<le> sz \<and> fmem s buffer \<noteq> 0 \<and> is_ustar (fmem s) buffer \<and> tar_octal_to_uint (fmem s) (buffer + 124) 12 = 0xFFFFFE00 \<longrightarrow>
       tarfs_parse buffer sz s = None)"
proof (intro conjI impI)
  from assms(1) obtain p h d h2 L' where a: "tar_alloc_node s = Some (p, s\<lparr>fheap := h, nodes := (nodes s)(p := zero_node)\<rparr>)"
    "\<And>nd r. tar_alloc_data r (s\<lparr>fheap := h, nodes := nd\<rparr>) = Some (d, s\<lparr>fheap := h2, nodes := nd, tar_nodes := (tar_nodes s)(d := r)\<rparr>)"
    and L: "p = NULL \<or> p \<in> L'" "d = NULL \<or> d \<in> L'" "live_inv h2 L'"
    by (rule alloc_pair) blast
  define s1 where "s1 = s\<lparr>fheap := h2, tar_nodes := (tar_nodes s)(d := zero_data),
    nodes := (nodes s)(p := zero_node\<lparr>n_name := [], n_type := VFS_DIRECTORY, n_ops := TARFS_OPS, n_impl := d\<rparr>)\<rparr>"
  have e: "tarfs_parse buffer sz s = (case parse_loop buffer sz p 0 s1 of None \<Rightarrow> None | Some s \<Rightarrow> Some (p, s))"
    by (simp add: tarfs_parse_def a upd_node_def Let_def s1_def)
  { assume "sane_sizes (fmem s) buffer sz"
    moreover have "tree_ok s1 L' {p} {d}"
      using L by (auto simp: tree_ok_def s1_def zero_data_def intro: exI [of _ "[]"])
    ultimately have "\<exists>s'. parse_loop buffer sz p 0 s1 = Some s'"
      using parse_loop_returns [of s1 L' "{p}" "{d}" p buffer sz 0] assms(2) by (simp add: s1_def)
    then show "\<exists>root s'. tarfs_parse buffer sz s = Some (root, s')" by (auto simp: e) }
  assume h: "512 \<le> sz \<and> fmem s buffer \<noteq> 0 \<and> is_ustar (fmem s) buffer \<and> tar_octal_to_uint (fmem s) (buffer + 124) 12 = 0xFFFFFE00"
  then have "stuck buffer sz 0 s1" by (simp add: stuck_def s1_def header_step_def)
  then have "parse_loop buffer sz p 0 s1 = None" using parse_loop_not_stuck by (cases "parse_loop buffer sz p 0 s1") auto
  then show "tarfs_parse buffer sz s = None" by (simp add: e)
qed

text \<open>An archive whose only header has the size field \<open>37777777000\<close>.\<close>

definition bad_archive :: mem where
  "bad_archive = (\<lambda>_. 0)(0x2000 := 97, 0x207C := 51, 0x207D := 55, 0x207E := 55, 0x207F := 55, 0x2080 := 55, 0x2081 := 55,
     0x2082 := 55, 0x2083 := 55, 0x2084 := 48, 0x2085 := 48, 0x2086 := 48,
     0x2101 := 117, 0x2102 := 115, 0x2103 := 116, 0x2104 := 97, 0x2105 := 114)"

lemma octal_loop_numeral:
  "octal_loop m p (numeral k) v =
     (if m p \<ge> 48 \<and> m p \<le> 55 then octal_loop m (p + 1) (pred_numeral k) (v * 8 + (ucast (m p) - 48)) else v)"
  by (simp add: numeral_eq_Suc)

theorem tarfs_parse_terminates_witness:
  "tarfs_parse 0x2000 512 (example_dir\<lparr>fmem := bad_archive\<rparr>) = None \<and>
   (\<exists>root s'. tarfs_parse 0x2000 512 example_dir = Some (root, s'))"
proof -
  have l: "live_inv (fheap (example_dir\<lparr>fmem := m\<rparr>)) {0x1010, 0x1030, 0x1050}" for m
    using three_block_heap_live by (simp add: example_dir_def)
  have z: "fmem example_dir = (\<lambda>_. 0)" by (simp add: example_dir_def)
  have "sane_sizes (fmem example_dir) 0x2000 512" by (simp add: sane_sizes_def z tar_octal_to_uint_def octal_loop_numeral)
  then have "\<exists>root s'. tarfs_parse 0x2000 512 example_dir = Some (root, s')"
    using tarfs_parse_terminates [of example_dir _ 512 "0x2000"] l [of "fmem example_dir"] by simp
  moreover have u: "[0..<5] = [0, 1, 2, 3, 4 :: nat]" by (simp add: upt_conv_Cons)
  have "bad_archive 0x2000 \<noteq> 0" "is_ustar bad_archive 0x2000" "tar_octal_to_uint bad_archive (0x2000 + 124) 12 = 0xFFFFFE00"
    by (simp_all add: bad_archive_def is_ustar_def u tar_octal_to_uint_def octal_loop_numeral)
  then have "tarfs_parse 0x2000 512 (example_dir\<lparr>fmem := bad_archive\<rparr>) = None"
    using tarfs_parse_terminates [OF l, of 512 bad_archive "0x2000"] by simp
  ultimately show ?thesis by simp
qed

end
