(* ===== verification/Terminal.thy ===== *)
theory Terminal
  imports CString
begin

text \<open>
  The VGA text console of \<open>src/drivers/terminal.c\<close>: the scrollback buffer, the viewport, the text memory of
  the screen and the cursor registers of the display controller. Counters of type \<open>size_t\<close> are natural
  numbers; only \<open>logical_row\<close> can grow without bound, and its increment is taken modulo \<open>2 ^ 32\<close>. An
  access outside the scrollback array is undefined in C: the operation is then \<open>None\<close>.
\<close>

section \<open>State\<close>

abbreviation (input) VGA_WIDTH :: nat where
  "VGA_WIDTH \<equiv> 80"

abbreviation (input) VGA_HEIGHT :: nat where
  "VGA_HEIGHT \<equiv> 25"

abbreviation (input) SCROLLBACK_LINES :: nat where
  "SCROLLBACK_LINES \<equiv> 1024"

record terminal =
  terminal_color :: u8
  scrollback :: "nat \<Rightarrow> nat \<Rightarrow> u16"
  scrollback_count :: nat
  logical_row :: nat
  logical_col :: nat
  viewport_top :: nat
  scroll_locked :: bool
  hw_cursor_row :: nat
  hw_cursor_col :: nat
  vga_memory :: "nat \<Rightarrow> u16"
  crtc_index :: u8
  crtc :: "u8 \<Rightarrow> u8"

section \<open>The display controller\<close>

text \<open>\<open>outb\<close> to the controller: port 0x3D4 selects a register, port 0x3D5 writes it.\<close>

definition crtc_outb :: "u16 \<Rightarrow> u8 \<Rightarrow> terminal \<Rightarrow> terminal" where
  "crtc_outb port v s =
     (if port = 0x3D4 then s\<lparr>crtc_index := v\<rparr>
      else if port = 0x3D5 then s\<lparr>crtc := (crtc s)(crtc_index s := v)\<rparr>
      else s)"

definition update_cursor :: "terminal \<Rightarrow> terminal" where
  "update_cursor s =
     (let pos = word_of_nat (hw_cursor_row s * VGA_WIDTH + hw_cursor_col s) :: u16;
          s = crtc_outb 0x3D4 14 s;
          s = crtc_outb 0x3D5 (ucast (drop_bit 8 pos AND 0xFF)) s;
          s = crtc_outb 0x3D4 15 s
      in crtc_outb 0x3D5 (ucast (pos AND 0xFF)) s)"

definition enable_cursor :: "terminal \<Rightarrow> terminal" where
  "enable_cursor s =
     (let s = crtc_outb 0x3D4 0x0A s;
          s = crtc_outb 0x3D5 14 s;
          s = crtc_outb 0x3D4 0x0B s
      in crtc_outb 0x3D5 15 s)"

definition vga_entry_color :: "u8 \<Rightarrow> u8 \<Rightarrow> u8" where
  "vga_entry_color fg bg = fg OR push_bit 4 bg"

definition vga_entry :: "u8 \<Rightarrow> u8 \<Rightarrow> u16" where
  "vga_entry c color = ucast (c AND 0x7F) OR push_bit 8 (ucast color)"

definition blank :: "terminal \<Rightarrow> u16" where
  "blank s = vga_entry 32 (terminal_color s)"

section \<open>Scrollback and rendering\<close>

text \<open>One row of the screen: \<open>memcpy\<close> of 80 entries, or blanks.\<close>

definition set_vga_row :: "nat \<Rightarrow> (nat \<Rightarrow> u16) \<Rightarrow> terminal \<Rightarrow> terminal" where
  "set_vga_row y r s =
     s\<lparr>vga_memory := (\<lambda>i. if y * VGA_WIDTH \<le> i \<and> i < y * VGA_WIDTH + VGA_WIDTH then r (i - y * VGA_WIDTH)
                         else vga_memory s i)\<rparr>"

definition clear_vga :: "terminal \<Rightarrow> terminal" where
  "clear_vga s = s\<lparr>vga_memory := (\<lambda>i. if i < VGA_WIDTH * VGA_HEIGHT then blank s else vga_memory s i)\<rparr>"

fun render_rows :: "nat \<Rightarrow> nat \<Rightarrow> nat \<Rightarrow> terminal \<Rightarrow> terminal" where
  "render_rows start y 0 s = s"
| "render_rows start y (Suc n) s =
     render_rows start (Suc y) n
       (let line_idx = start + y in
        if line_idx < scrollback_count s then set_vga_row y (scrollback s line_idx) s
        else set_vga_row y (\<lambda>_. blank s) s)"

definition terminal_render_viewport :: "terminal \<Rightarrow> terminal" where
  "terminal_render_viewport s =
     (if scrollback_count s = 0 then update_cursor ((clear_vga s)\<lparr>hw_cursor_row := 0, hw_cursor_col := 0\<rparr>)
      else
        (let start = (if scrollback_count s > VGA_HEIGHT + viewport_top s
                      then scrollback_count s - VGA_HEIGHT - viewport_top s else 0);
             s = render_rows start 0 VGA_HEIGHT s;
             s = (if logical_row s \<ge> start \<and> logical_row s < start + VGA_HEIGHT
                  then s\<lparr>hw_cursor_row := logical_row s - start, hw_cursor_col := logical_col s\<rparr>
                  else s\<lparr>hw_cursor_row := VGA_HEIGHT - 1, hw_cursor_col := 0\<rparr>)
         in update_cursor s))"

definition scrollback_append_blank_line :: "terminal \<Rightarrow> terminal" where
  "scrollback_append_blank_line s =
     (if scrollback_count s < SCROLLBACK_LINES
      then s\<lparr>scrollback := (scrollback s)(scrollback_count s := \<lambda>_. blank s),
             scrollback_count := scrollback_count s + 1\<rparr>
      else s\<lparr>scrollback := (\<lambda>r. if r < SCROLLBACK_LINES - 1 then scrollback s (r + 1)
                               else if r = SCROLLBACK_LINES - 1 then (\<lambda>_. blank s) else scrollback s r)\<rparr>)"

definition ensure_scrollback_started :: "terminal \<Rightarrow> terminal" where
  "ensure_scrollback_started s =
     (if scrollback_count s = 0 then (scrollback_append_blank_line s)\<lparr>logical_row := 0, logical_col := 0\<rparr> else s)"

definition terminal_resume_follow :: "terminal \<Rightarrow> terminal" where
  "terminal_resume_follow s = terminal_render_viewport (s\<lparr>viewport_top := 0, scroll_locked := False\<rparr>)"

definition terminal_update_vga_row :: "nat \<Rightarrow> nat \<Rightarrow> terminal \<Rightarrow> terminal" where
  "terminal_update_vga_row row_in_vga logical_row_idx s = set_vga_row row_in_vga (scrollback s logical_row_idx) s"

text \<open>What several operations end with: follow the output, or redraw the old lines.\<close>

definition refresh :: "terminal \<Rightarrow> terminal" where
  "refresh s = (if \<not> scroll_locked s then terminal_resume_follow s else terminal_render_viewport s)"

section \<open>Operations\<close>

definition terminal_scrollback_page_up :: "terminal \<Rightarrow> terminal" where
  "terminal_scrollback_page_up s =
     (if scrollback_count s \<le> VGA_HEIGHT then s
      else
        (let max_top = (if scrollback_count s > VGA_HEIGHT then scrollback_count s - VGA_HEIGHT else 0);
             s = (if viewport_top s + VGA_HEIGHT \<le> max_top then s\<lparr>viewport_top := viewport_top s + VGA_HEIGHT\<rparr>
                  else s\<lparr>viewport_top := max_top\<rparr>)
         in terminal_render_viewport (s\<lparr>scroll_locked := (viewport_top s > 0)\<rparr>)))"

definition terminal_scrollback_page_down :: "terminal \<Rightarrow> terminal" where
  "terminal_scrollback_page_down s =
     (if viewport_top s = 0 then s
      else
        (let s = (if viewport_top s > VGA_HEIGHT then s\<lparr>viewport_top := viewport_top s - VGA_HEIGHT\<rparr>
                  else s\<lparr>viewport_top := 0\<rparr>);
             s = s\<lparr>scroll_locked := (viewport_top s > 0)\<rparr>
         in if \<not> scroll_locked s then terminal_resume_follow s else terminal_render_viewport s))"

definition terminal_initialize :: "terminal \<Rightarrow> terminal" where
  "terminal_initialize s =
     (let s = s\<lparr>terminal_color := vga_entry_color 15 0\<rparr>;
          s = clear_vga s;
          s = s\<lparr>scrollback_count := 0, logical_row := 0, logical_col := 0, viewport_top := 0, scroll_locked := False\<rparr>;
          s = ensure_scrollback_started s;
          s = enable_cursor s;
          s = s\<lparr>hw_cursor_row := 0, hw_cursor_col := 0\<rparr>;
          s = update_cursor s
      in terminal_render_viewport s)"

definition terminal_clear :: "terminal \<Rightarrow> terminal" where
  "terminal_clear s =
     (let s = s\<lparr>scrollback_count := 0, logical_row := 0, logical_col := 0, viewport_top := 0, scroll_locked := False\<rparr>;
          s = ensure_scrollback_started s;
          s = clear_vga s;
          s = s\<lparr>hw_cursor_row := 0, hw_cursor_col := 0\<rparr>
      in update_cursor s)"

definition next_row :: "terminal \<Rightarrow> terminal" where
  "next_row s =
     (let s = s\<lparr>logical_col := 0, logical_row := (logical_row s + 1) mod 2 ^ 32\<rparr>
      in if logical_row s \<ge> scrollback_count s then scrollback_append_blank_line s else s)"

definition terminal_newline :: "terminal \<Rightarrow> terminal" where
  "terminal_newline s =
     (let s = (if logical_col s \<ge> VGA_WIDTH then s\<lparr>logical_col := VGA_WIDTH - 1\<rparr> else s)
      in refresh (next_row s))"

text \<open>A store to \<open>scrollback[logical_row][logical_col]\<close>, undefined outside the array.\<close>

definition put_cell :: "u16 \<Rightarrow> terminal \<Rightarrow> terminal option" where
  "put_cell e s =
     (if logical_row s < SCROLLBACK_LINES \<and> logical_col s < VGA_WIDTH
      then Some (s\<lparr>scrollback := (scrollback s)(logical_row s := (scrollback s (logical_row s))(logical_col s := e))\<rparr>)
      else None)"

definition putchar_backspace :: "terminal \<Rightarrow> terminal option" where
  "putchar_backspace s =
     (let s1 = (if logical_col s > 0 then put_cell (blank s) (s\<lparr>logical_col := logical_col s - 1\<rparr>)
                else if logical_row s > 0
                then put_cell (blank s) (s\<lparr>logical_row := logical_row s - 1, logical_col := VGA_WIDTH - 1\<rparr>)
                else Some s)
      in map_option refresh s1)"

function tab_fill :: "nat \<Rightarrow> terminal \<Rightarrow> terminal option" where
  "tab_fill nxt s =
     (if logical_col s < nxt then
        (case put_cell (blank s) s of None \<Rightarrow> None
         | Some s' \<Rightarrow> tab_fill nxt (s'\<lparr>logical_col := logical_col s + 1\<rparr>))
      else Some s)"
  by pat_completeness auto

termination
  by (relation "measure (\<lambda>(nxt, s). nxt - logical_col s)") auto

declare tab_fill.simps [simp del]

definition putchar_tab :: "terminal \<Rightarrow> terminal option" where
  "putchar_tab s =
     (let nxt = (logical_col s + 4) div 4 * 4 in
      if nxt \<ge> VGA_WIDTH then Some (terminal_newline s)
      else map_option refresh (tab_fill nxt s))"

definition putchar_show :: "terminal \<Rightarrow> terminal" where
  "putchar_show s =
     (if \<not> scroll_locked s then
        (let start = (if scrollback_count s > VGA_HEIGHT then scrollback_count s - VGA_HEIGHT else 0);
             s = (if logical_row s \<ge> start \<and> logical_row s < start + VGA_HEIGHT
                  then terminal_update_vga_row (logical_row s - start) (logical_row s) s
                  else terminal_render_viewport s)
         in update_cursor (s\<lparr>hw_cursor_row := (if logical_row s \<ge> start then logical_row s - start else VGA_HEIGHT - 1),
                             hw_cursor_col := logical_col s\<rparr>))
      else terminal_render_viewport s)"

definition putchar_print :: "u8 \<Rightarrow> terminal \<Rightarrow> terminal option" where
  "putchar_print c s =
     (case put_cell (vga_entry c (terminal_color s)) s of None \<Rightarrow> None
      | Some s \<Rightarrow>
          (let s = s\<lparr>logical_col := logical_col s + 1\<rparr>;
               s = (if logical_col s \<ge> VGA_WIDTH then next_row s else s)
           in Some (putchar_show s)))"

definition terminal_putchar :: "u8 \<Rightarrow> terminal \<Rightarrow> terminal option" where
  "terminal_putchar c s =
     (let s = ensure_scrollback_started s in
      if c = 10 then Some (terminal_newline s)
      else if c = 13 then Some (refresh (s\<lparr>logical_col := 0\<rparr>))
      else if c = 8 then putchar_backspace s
      else if c = 9 then putchar_tab s
      else if c < 32 \<or> c > 126 then Some s
      else putchar_print c s)"

partial_function (option) writestring_loop :: "mem \<Rightarrow> u32 \<Rightarrow> terminal \<Rightarrow> terminal option" where
  "writestring_loop m data s =
     (if m data \<noteq> 0 then
        (case terminal_putchar (m data) s of None \<Rightarrow> None | Some s \<Rightarrow> writestring_loop m (data + 1) s)
      else Some s)"

definition terminal_writestring :: "mem \<Rightarrow> u32 \<Rightarrow> terminal \<Rightarrow> terminal option" where
  "terminal_writestring m data s = (if data = NULL then Some s else writestring_loop m data s)"

definition terminal_setcolor :: "u8 \<Rightarrow> terminal \<Rightarrow> terminal" where
  "terminal_setcolor color s = s\<lparr>terminal_color := color\<rparr>"

text \<open>\<open>buffer\<close> is the array on the stack; \<open>(int)n\<close> is \<open>n\<close> read as a signed number.\<close>

definition terminal_write_dec :: "u32 \<Rightarrow> u32 \<Rightarrow> mem \<Rightarrow> terminal \<Rightarrow> terminal option" where
  "terminal_write_dec n buffer m s =
     (case itoa (sint n) buffer m of None \<Rightarrow> None | Some m \<Rightarrow> terminal_writestring m buffer s)"

definition hex_digit :: "u32 \<Rightarrow> nat \<Rightarrow> u8" where
  "hex_digit v i =
     (let nibble = ucast (drop_bit ((7 - i) * 4) v AND 0xF) :: u8
      in if nibble < 10 then 48 + nibble else 65 + nibble - 10)"

definition terminal_write_hex :: "u32 \<Rightarrow> u32 \<Rightarrow> mem \<Rightarrow> terminal \<Rightarrow> terminal option" where
  "terminal_write_hex v buffer m s =
     (let m = m(buffer := 48, buffer + 1 := 120);
          m = fold (\<lambda>i m. m(buffer + 2 + word_of_nat i := hex_digit v i)) [0..<8] m;
          m = m(buffer + 10 := 0)
      in terminal_writestring m buffer s)"

section \<open>Rendering\<close>

text \<open>The text: everything but the screen and the cursor.\<close>

definition same_text :: "terminal \<Rightarrow> terminal \<Rightarrow> bool" where
  "same_text s' s \<longleftrightarrow> terminal_color s' = terminal_color s \<and> scrollback s' = scrollback s \<and> scrollback_count s' = scrollback_count s \<and>
     logical_row s' = logical_row s \<and> logical_col s' = logical_col s \<and> viewport_top s' = viewport_top s \<and>
     scroll_locked s' = scroll_locked s"

lemma same_textD:
  assumes "same_text s' s"
  shows "terminal_color s' = terminal_color s" "scrollback s' = scrollback s" "scrollback_count s' = scrollback_count s"
    "logical_row s' = logical_row s" "logical_col s' = logical_col s" "viewport_top s' = viewport_top s"
    "scroll_locked s' = scroll_locked s"
  using assms by (simp_all add: same_text_def)

lemma same_text_refl [simp]: "same_text s s"
  by (simp add: same_text_def)

lemma same_text_trans: "same_text s2 s1 \<Longrightarrow> same_text s1 s \<Longrightarrow> same_text s2 s"
  by (simp add: same_text_def)

text \<open>The cursor registers show the cursor position.\<close>

definition cursor_shown :: "terminal \<Rightarrow> bool" where
  "cursor_shown s \<longleftrightarrow> crtc s 14 = ucast (drop_bit 8 (word_of_nat (hw_cursor_row s * 80 + hw_cursor_col s) :: u16) AND 0xFF) \<and>
     crtc s 15 = ucast ((word_of_nat (hw_cursor_row s * 80 + hw_cursor_col s) :: u16) AND 0xFF)"

lemma update_cursor_effect [simp]:
  "same_text (update_cursor s) s" "vga_memory (update_cursor s) = vga_memory s"
  "hw_cursor_row (update_cursor s) = hw_cursor_row s" "hw_cursor_col (update_cursor s) = hw_cursor_col s"
  "cursor_shown (update_cursor s)"
  by (simp_all add: update_cursor_def Let_def crtc_outb_def same_text_def cursor_shown_def)

lemmas update_cursor_fields [simp] = same_textD [OF update_cursor_effect(1)]

lemma set_vga_row_effect [simp]:
  "same_text (set_vga_row y r s) s" "blank (set_vga_row y r s) = blank s"
  "crtc (set_vga_row y r s) = crtc s" "hw_cursor_row (set_vga_row y r s) = hw_cursor_row s" "hw_cursor_col (set_vga_row y r s) = hw_cursor_col s"
  by (simp_all add: set_vga_row_def same_text_def blank_def)

lemmas set_vga_row_fields [simp] = same_textD [OF set_vga_row_effect(1)]

lemma vga_row_index:
  assumes "x < 80"
  shows "y * 80 \<le> j * 80 + x \<and> j * 80 + x < y * 80 + 80 \<longleftrightarrow> y = (j :: nat)"
  using assms by linarith

lemma set_vga_row_get:
  "x < 80 \<Longrightarrow> vga_memory (set_vga_row y r s) (j * 80 + x) = (if y = j then r x else vga_memory s (j * 80 + x))"
  using vga_row_index [of x y j] by (auto simp: set_vga_row_def)

definition line_at :: "terminal \<Rightarrow> nat \<Rightarrow> nat \<Rightarrow> u16" where
  "line_at s k = (if k < scrollback_count s then scrollback s k else (\<lambda>_. blank s))"

lemma line_at_same: "same_text s' s \<Longrightarrow> line_at s' = line_at s"
  by (auto simp: line_at_def blank_def fun_eq_iff dest: same_textD)

lemma render_rows_effect:
  "same_text (render_rows start y n s) s \<and> (\<forall>j x. x < 80 \<longrightarrow> vga_memory (render_rows start y n s) (j * 80 + x) =
     (if y \<le> j \<and> j < y + n then line_at s (start + j) x else vga_memory s (j * 80 + x)))"
proof (induction n arbitrary: y s)
  case (Suc n)
  define s1 where "s1 = set_vga_row y (line_at s (start + y)) s"
  have e: "render_rows start y (Suc n) s = render_rows start (Suc y) n s1"
    by (simp add: s1_def line_at_def Let_def)
  have s1: "same_text s1 s" by (simp add: s1_def)
  have "vga_memory (render_rows start (Suc y) n s1) (j * 80 + x) =
      (if y \<le> j \<and> j < y + Suc n then line_at s (start + j) x else vga_memory s (j * 80 + x))" if "x < 80" for j x
    using Suc [of "Suc y" s1] that line_at_same [OF s1] by (auto simp: s1_def set_vga_row_get)
  then show ?case unfolding e using same_text_trans [OF conjunct1 [OF Suc] s1] by simp
qed auto

definition start_line :: "terminal \<Rightarrow> nat" where
  "start_line s = scrollback_count s - 25 - viewport_top s"

lemma start_line_if:
  "(if scrollback_count s > 25 + viewport_top s then scrollback_count s - 25 - viewport_top s else 0) = start_line s"
  by (simp add: start_line_def)

text \<open>The screen shows the lines of the viewport, and blanks below the last of them. The colour of these blanks is left open: a redraw paints them in
  the colour that is set at that time, and setting a colour does not redraw them.\<close>

definition synced :: "terminal \<Rightarrow> bool" where
  "synced s \<longleftrightarrow> (\<forall>y < 25. \<forall>x < 80. if start_line s + y < scrollback_count s
     then vga_memory s (y * 80 + x) = scrollback s (start_line s + y) x
     else vga_memory s (y * 80 + x) AND 0xFF = 32)"

lemma blank_char: "blank s AND 0xFF = 32"
proof -
  have "(push_bit 8 w :: u16) AND mask 8 = 0" for w by (rule bit_word_eqI) (auto simp: bit_simps)
  moreover have "(0xFF :: u16) = mask 8" by (simp add: mask_eq_exp_minus_1)
  ultimately have "(ucast (32 AND 0x7F :: u8) OR push_bit 8 w) AND (0xFF :: u16) = 32" for w
    by (simp only: bit.conj_disj_distrib2) simp
  then show ?thesis by (simp only: blank_def vga_entry_def)
qed

lemma render_viewport:
  assumes "scrollback_count s \<noteq> 0" "logical_col s < 80"
  shows "same_text (terminal_render_viewport s) s" "synced (terminal_render_viewport s)"
    "cursor_shown (terminal_render_viewport s)"
    "hw_cursor_row (terminal_render_viewport s) < 25" "hw_cursor_col (terminal_render_viewport s) < 80"
proof -
  define s1 where "s1 = render_rows (start_line s) 0 25 s"
  define s2 where "s2 = (if logical_row s1 \<ge> start_line s \<and> logical_row s1 < start_line s + 25
    then s1\<lparr>hw_cursor_row := logical_row s1 - start_line s, hw_cursor_col := logical_col s1\<rparr>
    else s1\<lparr>hw_cursor_row := 24, hw_cursor_col := 0\<rparr>)"
  have e: "terminal_render_viewport s = update_cursor s2"
    using assms(1) unfolding terminal_render_viewport_def Let_def start_line_if s2_def s1_def by simp
  have r: "same_text s1 s" "x < 80 \<Longrightarrow> j < 25 \<Longrightarrow> vga_memory s1 (j * 80 + x) = line_at s (start_line s + j) x" for j x
    using render_rows_effect [of "start_line s" 0 25 s] by (simp_all add: s1_def)
  have s2: "same_text s2 s" "vga_memory s2 = vga_memory s1" using r(1) by (simp_all add: s2_def same_text_def)
  show st: "same_text (terminal_render_viewport s) s" unfolding e using s2(1) same_text_trans update_cursor_effect(1) by blast
  have "start_line (terminal_render_viewport s) = start_line s" using st by (simp add: start_line_def same_textD)
  then show "synced (terminal_render_viewport s)"
    using same_textD [OF st] r(2) s2(2) blank_char [of s] unfolding synced_def by (simp add: e line_at_def)
  show "cursor_shown (terminal_render_viewport s)" by (simp add: e)
  show "hw_cursor_row (terminal_render_viewport s) < 25" "hw_cursor_col (terminal_render_viewport s) < 80"
    using assms(2) same_textD [OF r(1)] by (auto simp: e s2_def)
qed

section \<open>The invariant\<close>

definition text_inv :: "terminal \<Rightarrow> bool" where
  "text_inv s \<longleftrightarrow> 0 < scrollback_count s \<and> scrollback_count s \<le> 1024 \<and> logical_col s < 80 \<and>
     (logical_row s < scrollback_count s \<or> scrollback_count s = 1024) \<and>
     (scroll_locked s \<longleftrightarrow> 0 < viewport_top s) \<and> viewport_top s \<le> scrollback_count s - 25"

definition cursor_inv :: "terminal \<Rightarrow> bool" where
  "cursor_inv s \<longleftrightarrow> cursor_shown s \<and> hw_cursor_col s < 80 \<and> (logical_row s < 1024 \<longrightarrow> hw_cursor_row s < 25)"

lemma text_inv_same: "same_text s' s \<Longrightarrow> text_inv s' = text_inv s"
  by (simp add: text_inv_def same_textD)

lemma render_ok:
  assumes "text_inv s"
  shows "same_text (terminal_render_viewport s) s" "synced (terminal_render_viewport s)"
    "text_inv (terminal_render_viewport s)" "cursor_inv (terminal_render_viewport s)"
proof -
  have "scrollback_count s \<noteq> 0" "logical_col s < 80" using assms by (auto simp: text_inv_def)
  note r = render_viewport [OF this]
  show "same_text (terminal_render_viewport s) s" "synced (terminal_render_viewport s)" "cursor_inv (terminal_render_viewport s)"
    using r by (simp_all add: cursor_inv_def)
  show "text_inv (terminal_render_viewport s)" using assms text_inv_same [OF r(1)] by simp
qed

lemma refresh_render:
  assumes "text_inv s"
  shows "refresh s = terminal_render_viewport s"
proof (cases "scroll_locked s")
  case False
  then have "s\<lparr>viewport_top := 0, scroll_locked := False\<rparr> = s" using assms by (cases s) (simp add: text_inv_def)
  then show ?thesis using False by (simp add: refresh_def terminal_resume_follow_def)
qed (simp add: refresh_def)

lemma refresh_ok:
  assumes "text_inv s"
  shows "same_text (refresh s) s" "synced (refresh s)" "text_inv (refresh s)" "cursor_inv (refresh s)"
  using render_ok [OF assms] by (simp_all add: refresh_render [OF assms])

lemma append_ok:
  "scrollback_count s \<le> 1024 \<Longrightarrow> scrollback_count (scrollback_append_blank_line s) = min 1024 (scrollback_count s + 1)"
  "logical_row (scrollback_append_blank_line s) = logical_row s" "logical_col (scrollback_append_blank_line s) = logical_col s"
  "viewport_top (scrollback_append_blank_line s) = viewport_top s" "scroll_locked (scrollback_append_blank_line s) = scroll_locked s"
  by (auto simp: scrollback_append_blank_line_def)

lemma next_row_ok: "text_inv s \<Longrightarrow> text_inv (next_row s)" "text_inv (s\<lparr>logical_col := 0\<rparr>) \<Longrightarrow> text_inv (next_row s)"
  by (auto simp: next_row_def Let_def text_inv_def append_ok)

lemma put_cell_Some:
  "put_cell e s = Some s' \<longleftrightarrow> logical_row s < 1024 \<and> logical_col s < 80 \<and>
     s' = s\<lparr>scrollback := (scrollback s)(logical_row s := (scrollback s (logical_row s))(logical_col s := e))\<rparr>"
  by (auto simp: put_cell_def)

lemma put_cell_inv: "put_cell e s = Some s' \<Longrightarrow> text_inv s' = text_inv s"
  by (auto simp: put_cell_Some text_inv_def)

lemma newline_ok:
  assumes "text_inv s"
  shows "terminal_newline s = refresh (next_row s)" "text_inv (next_row s)"
  using assms next_row_ok by (auto simp: terminal_newline_def text_inv_def)

lemma tab_fill_ok:
  "text_inv s \<Longrightarrow> logical_row s < 1024 \<Longrightarrow> nxt < 80 \<Longrightarrow> \<exists>s'. tab_fill nxt s = Some s' \<and> text_inv s'"
proof (induction nxt s rule: tab_fill.induct)
  case (1 nxt s)
  show ?case
  proof (cases "logical_col s < nxt")
    case True
    then obtain s' where s': "put_cell (blank s) s = Some s'" using 1(3,4) by (auto simp: put_cell_def)
    let ?s = "s'\<lparr>logical_col := logical_col s + 1\<rparr>"
    have "text_inv ?s" "logical_row ?s < 1024" using s' 1(2,3,4) True by (auto simp: put_cell_Some text_inv_def)
    then show ?thesis using 1(1) [OF True s'] 1(4) s' True by (subst tab_fill.simps) simp
  qed (use 1 in \<open>subst tab_fill.simps, simp\<close>)
qed

lemma putchar_show_ok:
  assumes "text_inv s"
  shows "same_text (putchar_show s) s" "text_inv (putchar_show s)" "cursor_inv (putchar_show s)"
proof -
  show st: "same_text (putchar_show s) s"
    using render_ok(1) [OF assms]
    by (auto simp: putchar_show_def Let_def terminal_update_vga_row_def same_text_def)
  then show "text_inv (putchar_show s)" using text_inv_same assms by blast
  show "cursor_inv (putchar_show s)"
  proof (cases "scroll_locked s")
    case True
    then show ?thesis using render_ok(4) [OF assms] by (simp add: putchar_show_def)
  next
    case False
    have r: "logical_row (terminal_render_viewport s) = logical_row s" "logical_col (terminal_render_viewport s) = logical_col s"
      using same_textD [OF render_ok(1) [OF assms]] by auto
    show ?thesis using False assms same_textD(4) [OF st]
      by (auto simp: putchar_show_def Let_def cursor_inv_def text_inv_def terminal_update_vga_row_def r)
  qed
qed

section \<open>Operations as steps\<close>

datatype term_op = Putchar u8 | Newline | Page_up | Page_down | Set_color u8 | Clear

fun term_do :: "term_op \<Rightarrow> terminal \<Rightarrow> terminal option" where
  "term_do (Putchar c) s = terminal_putchar c s"
| "term_do Newline s = Some (terminal_newline s)"
| "term_do Page_up s = Some (terminal_scrollback_page_up s)"
| "term_do Page_down s = Some (terminal_scrollback_page_down s)"
| "term_do (Set_color c) s = Some (terminal_setcolor c s)"
| "term_do Clear s = Some (terminal_clear s)"

inductive term_reachable :: "terminal \<Rightarrow> bool" where
  init: "term_reachable (terminal_initialize s)"
| step: "term_reachable s \<Longrightarrow> term_do op s = Some s' \<Longrightarrow> term_reachable s'"

abbreviation term_inv :: "terminal \<Rightarrow> bool" where
  "term_inv s \<equiv> text_inv s \<and> cursor_inv s"

lemma ensure_started: "text_inv s \<Longrightarrow> ensure_scrollback_started s = s"
  by (simp add: ensure_scrollback_started_def text_inv_def)

text \<open>What a backspace stores to, when it stores.\<close>

lemma backspace_cases:
  assumes "putchar_backspace s = Some s'" "text_inv s"
  obtains s1 where "s' = refresh s1" "text_inv s1"
proof -
  obtain s1 where s1: "(if logical_col s > 0 then put_cell (blank s) (s\<lparr>logical_col := logical_col s - 1\<rparr>)
      else if logical_row s > 0 then put_cell (blank s) (s\<lparr>logical_row := logical_row s - 1, logical_col := 80 - 1\<rparr>)
      else Some s) = Some s1" "s' = refresh s1"
    using assms(1) by (auto simp: putchar_backspace_def Let_def)
  have "text_inv (s\<lparr>logical_col := logical_col s - 1\<rparr>)" "text_inv (s\<lparr>logical_row := logical_row s - 1, logical_col := 80 - 1\<rparr>)"
    using assms(2) by (auto simp: text_inv_def)
  then have "text_inv s1" using s1(1) assms(2) put_cell_inv by (auto split: if_splits)
  then show thesis using that s1(2) by blast
qed

lemma tab_fill_inv: "tab_fill nxt s = Some s' \<Longrightarrow> text_inv s \<Longrightarrow> nxt < 80 \<Longrightarrow> text_inv s'"
proof (induction nxt s rule: tab_fill.induct)
  case (1 nxt s)
  show ?case
  proof (cases "logical_col s < nxt")
    case True
    then obtain s1 where s1: "put_cell (blank s) s = Some s1" "tab_fill nxt (s1\<lparr>logical_col := logical_col s + 1\<rparr>) = Some s'"
      using 1(2) by (auto simp: tab_fill.simps [of nxt s] split: option.splits)
    moreover have "text_inv (s1\<lparr>logical_col := logical_col s + 1\<rparr>)" using s1(1) 1(3,4) True by (auto simp: put_cell_Some text_inv_def)
    ultimately show ?thesis using 1(1) [OF True] 1(4) by blast
  next
    case False
    then show ?thesis using 1(2,3) by (simp add: tab_fill.simps [of nxt s])
  qed
qed

lemma tab_cases:
  assumes "putchar_tab s = Some s'" "text_inv s"
  obtains s1 where "s' = refresh s1" "text_inv s1"
proof (cases "(logical_col s + 4) div 4 * 4 \<ge> 80")
  case True
  then show thesis using assms newline_ok [OF assms(2)] that [of "next_row s"] by (simp add: putchar_tab_def Let_def)
next
  case False
  then obtain s1 where s1: "tab_fill ((logical_col s + 4) div 4 * 4) s = Some s1" "s' = refresh s1"
    using assms(1) by (auto simp: putchar_tab_def Let_def)
  show thesis by (rule that [OF s1(2) tab_fill_inv [OF s1(1) assms(2)]]) (use False in simp)
qed

lemma printed_cases:
  assumes "putchar_print c s = Some s'" "text_inv s"
  obtains s1 s2 where "put_cell (vga_entry c (terminal_color s)) s = Some s1"
    "s2 = (if logical_col s = 79 then next_row (s1\<lparr>logical_col := 80\<rparr>) else s1\<lparr>logical_col := logical_col s + 1\<rparr>)"
    "s' = putchar_show s2" "text_inv s2"
proof -
  obtain s1 where s1: "put_cell (vga_entry c (terminal_color s)) s = Some s1"
    using assms(1) by (auto simp: putchar_print_def split: option.splits)
  define s2 where "s2 = (if logical_col s = 79 then next_row (s1\<lparr>logical_col := 80\<rparr>) else s1\<lparr>logical_col := logical_col s + 1\<rparr>)"
  have c: "logical_col s1 = logical_col s" "logical_col s < 80" using s1 by (auto simp: put_cell_Some)
  have "s' = putchar_show s2"
  proof (cases "logical_col s = 79")
    case True
    then show ?thesis using assms(1) s1 c by (simp add: putchar_print_def Let_def s2_def)
  next
    case False
    then show ?thesis using assms(1) s1 c by (simp add: putchar_print_def Let_def s2_def)
  qed
  moreover have "text_inv s1" using put_cell_inv [OF s1] assms(2) by simp
  then have "text_inv s2" using c next_row_ok(2) [of "s1\<lparr>logical_col := 80\<rparr>"] by (auto simp: s2_def text_inv_def)
  ultimately show thesis using that [OF s1 s2_def] by simp
qed

lemma refreshed_putchar:
  assumes "terminal_putchar c s = Some s'" "text_inv s" "\<not> (32 \<le> c \<and> c \<le> 126)"
  shows "s' = s \<or> (\<exists>s1. s' = refresh s1 \<and> text_inv s1)"
proof -
  have "text_inv (s\<lparr>logical_col := 0\<rparr>)" using assms(2) by (simp add: text_inv_def)
  then show ?thesis
    using assms newline_ok [OF assms(2)] backspace_cases [of s s'] tab_cases [of s s']
    by (auto simp: terminal_putchar_def ensure_started Let_def not_le split: if_splits)
qed

lemma putchar_inv:
  assumes "terminal_putchar c s = Some s'" "term_inv s"
  shows "term_inv s'"
proof (cases "32 \<le> c \<and> c \<le> 126")
  case True
  then have "putchar_print c s = Some s'" using assms ensure_started [of s]
    by (auto simp: terminal_putchar_def Let_def not_le [symmetric] split: if_splits)
  then show ?thesis using printed_cases [of c s s'] assms(2) putchar_show_ok by metis
next
  case False
  then show ?thesis using refreshed_putchar [OF assms(1)] assms(2) refresh_ok by blast
qed

lemma page_cases:
  assumes "text_inv s"
  shows "terminal_scrollback_page_up s = s \<or> (\<exists>s1. terminal_scrollback_page_up s = terminal_render_viewport s1 \<and> text_inv s1)"
    "terminal_scrollback_page_down s = s \<or> (\<exists>s1. terminal_scrollback_page_down s = terminal_render_viewport s1 \<and> text_inv s1)"
proof -
  let ?n = "scrollback_count s - 25" and ?v = "viewport_top s"
  have "text_inv (s\<lparr>viewport_top := v, scroll_locked := (0 < v)\<rparr>)" if "v \<le> ?n" for v
    using assms that by (auto simp: text_inv_def)
  note t = this [of "?v + 25"] this [of ?n] this [of "?v - 25"] this [of 0]
  show "terminal_scrollback_page_up s = s \<or> (\<exists>s1. terminal_scrollback_page_up s = terminal_render_viewport s1 \<and> text_inv s1)"
    using t(1,2) by (auto simp: terminal_scrollback_page_up_def Let_def)
  show "terminal_scrollback_page_down s = s \<or> (\<exists>s1. terminal_scrollback_page_down s = terminal_render_viewport s1 \<and> text_inv s1)"
    using t(3,4) assms by (auto simp: terminal_scrollback_page_down_def Let_def terminal_resume_follow_def text_inv_def)
qed

lemma clear_ok: "term_inv (terminal_clear s)" "synced (terminal_clear s)"
  by (simp_all add: terminal_clear_def Let_def ensure_scrollback_started_def scrollback_append_blank_line_def
      clear_vga_def text_inv_def cursor_inv_def synced_def start_line_def blank_def blank_char [unfolded blank_def])

definition init_text :: "terminal \<Rightarrow> terminal" where
  "init_text s = update_cursor ((enable_cursor (ensure_scrollback_started ((clear_vga (s\<lparr>terminal_color := vga_entry_color 15 0\<rparr>))
    \<lparr>scrollback_count := 0, logical_row := 0, logical_col := 0, viewport_top := 0, scroll_locked := False\<rparr>)))
    \<lparr>hw_cursor_row := 0, hw_cursor_col := 0\<rparr>)"

lemma init_text_ok:
  "terminal_initialize s = terminal_render_viewport (init_text s)" "text_inv (init_text s)"
  "logical_row (init_text s) = 0" "scrollback_count (init_text s) = 1"
  by (simp_all add: terminal_initialize_def init_text_def text_inv_def enable_cursor_def crtc_outb_def Let_def
      ensure_scrollback_started_def scrollback_append_blank_line_def)

lemma initialize_ok: "term_inv (terminal_initialize s)" "synced (terminal_initialize s)"
  using render_ok [OF init_text_ok(2)] by (simp_all add: init_text_ok(1))

lemma term_do_inv:
  assumes "term_do op s = Some s'" "term_inv s"
  shows "term_inv s'"
proof (cases op)
  case (Putchar c)
  then show ?thesis using putchar_inv assms by simp
next
  case (Set_color c)
  then show ?thesis using assms by (auto simp: terminal_setcolor_def text_inv_def cursor_inv_def cursor_shown_def)
next
  case Newline
  then show ?thesis using assms newline_ok [of s] refresh_ok(3,4) [of "next_row s"] by simp
next
  case Page_up
  then show ?thesis using assms page_cases(1) [of s] render_ok(3,4) by auto
next
  case Page_down
  then show ?thesis using assms page_cases(2) [of s] render_ok(3,4) by auto
next
  case Clear
  then show ?thesis using assms(1) clear_ok(1) by auto
qed

lemma term_do_returns:
  assumes "text_inv s" "logical_row s < 1024"
  shows "\<exists>s'. term_do op s = Some s'"
proof (cases op)
  case (Putchar c)
  have p: "\<exists>s'. put_cell e t = Some s'" if "logical_row t < 1024" "logical_col t < 80" for e t using that by (simp add: put_cell_def)
  have "logical_col s < 80" using assms(1) by (simp add: text_inv_def)
  then have "\<exists>s'. putchar_print c s = Some s'" "\<exists>s'. putchar_backspace s = Some s'"
    using p [of s "vga_entry c (terminal_color s)"] p [of "s\<lparr>logical_col := logical_col s - 1\<rparr>" "blank s"]
      p [of "s\<lparr>logical_row := logical_row s - 1, logical_col := 80 - 1\<rparr>" "blank s"] assms(2)
    by (auto simp: putchar_print_def putchar_backspace_def Let_def)
  moreover have "\<exists>s'. putchar_tab s = Some s'"
    using tab_fill_ok [OF assms, of "(logical_col s + 4) div 4 * 4"] by (auto simp: putchar_tab_def Let_def not_le)
  ultimately show ?thesis using Putchar ensure_started [OF assms(1)] by (simp add: terminal_putchar_def Let_def)
qed simp_all

lemma reachable_term_inv: "term_reachable s \<Longrightarrow> term_inv s"
  by (induction rule: term_reachable.induct) (use initialize_ok(1) term_do_inv in blast)+

section \<open>The buffer fills\<close>

fun newlines :: "nat \<Rightarrow> terminal \<Rightarrow> terminal" where
  "newlines 0 s = s"
| "newlines (Suc n) s = terminal_newline (newlines n s)"

lemma newlines_reachable: "term_reachable s \<Longrightarrow> term_reachable (newlines n s)"
  by (induction n) (auto intro: term_reachable.step [of _ Newline])

lemma newline_fields:
  assumes "text_inv s"
  shows "logical_row (terminal_newline s) = (logical_row s + 1) mod 2 ^ 32"
    "scrollback_count (terminal_newline s) =
      (if (logical_row s + 1) mod 2 ^ 32 \<ge> scrollback_count s then min 1024 (scrollback_count s + 1) else scrollback_count s)"
proof -
  note n = newline_ok [OF assms] and f = same_textD [OF refresh_ok(1) [OF newline_ok(2) [OF assms]]]
  have "scrollback_count s \<le> 1024" using assms by (simp add: text_inv_def)
  then show "logical_row (terminal_newline s) = (logical_row s + 1) mod 2 ^ 32"
    "scrollback_count (terminal_newline s) =
      (if (logical_row s + 1) mod 2 ^ 32 \<ge> scrollback_count s then min 1024 (scrollback_count s + 1) else scrollback_count s)"
    using f by (simp_all add: n(1) next_row_def Let_def append_ok)
qed

lemma newlines_fields:
  assumes "n \<le> 1024"
  shows "logical_row (newlines n (terminal_initialize s)) = n \<and> scrollback_count (newlines n (terminal_initialize s)) = min 1024 (n + 1)"
  using assms
proof (induction n)
  case 0
  then show ?case
    using same_textD [OF render_ok(1) [OF init_text_ok(2)]] init_text_ok(3,4) by (simp add: init_text_ok(1))
next
  case (Suc n)
  have "text_inv (newlines n (terminal_initialize s))"
    using reachable_term_inv newlines_reachable term_reachable.init by blast
  from newline_fields [OF this] Suc show ?case by simp
qed

section \<open>The fast path\<close>







section \<open>Properties\<close>

text \<open>C18: the console in every state it can reach. After \<open>terminal_initialize\<close>, whatever is printed and
  however the view is paged, coloured or cleared, the counters stay in the bounds of the scrollback buffer and of the
  screen, the cursor registers of the display hold the cursor position, and every operation returns as long as the line written to is one of the
  1024 of the buffer. That line can be past the buffer: when the buffer is full a newline shifts the lines up
  and still increments \<open>logical_row\<close>, and the next character is stored outside the array.\<close>

theorem terminal_reachable_ok:
  shows "(term_reachable s \<longrightarrow> 0 < scrollback_count s \<and> scrollback_count s \<le> 1024 \<and> logical_col s < 80 \<and>
      (logical_row s < scrollback_count s \<or> scrollback_count s = 1024) \<and>
      (scroll_locked s \<longleftrightarrow> 0 < viewport_top s) \<and> viewport_top s \<le> scrollback_count s - 25 \<and> cursor_shown s \<and>
      (logical_row s < 1024 \<longrightarrow> hw_cursor_row s < 25 \<and> hw_cursor_col s < 80 \<and> (\<forall>op. \<exists>s'. term_do op s = Some s'))) \<and>
    (\<exists>t. term_reachable t \<and> terminal_putchar 97 t = None)"
proof (intro conjI impI)
  let ?t = "newlines 1024 (terminal_initialize s)"
  have "term_reachable ?t" using newlines_reachable term_reachable.init by blast
  moreover have "logical_row ?t = 1024" "scrollback_count ?t = 1024" using newlines_fields [of 1024 s] by simp_all
  then have "terminal_putchar 97 ?t = None"
    by (simp add: terminal_putchar_def ensure_scrollback_started_def putchar_print_def put_cell_def)
  ultimately show "\<exists>t. term_reachable t \<and> terminal_putchar 97 t = None" by blast
qed (use reachable_term_inv term_do_returns in \<open>auto simp: text_inv_def cursor_inv_def\<close>)

definition blank_terminal :: terminal where
  "blank_terminal = \<lparr>terminal_color = 0, scrollback = (\<lambda>_ _. 0), scrollback_count = 0, logical_row = 0, logical_col = 0,
     viewport_top = 0, scroll_locked = False, hw_cursor_row = 0, hw_cursor_col = 0, vga_memory = (\<lambda>_. 0),
     crtc_index = 0, crtc = (\<lambda>_. 0)\<rparr>"

theorem terminal_reachable_ok_witness:
  "hw_cursor_row (newlines 40 (terminal_initialize blank_terminal)) < 25 \<and>
   (\<exists>s'. terminal_putchar 97 (newlines 40 (terminal_initialize blank_terminal)) = Some s')"
proof -
  let ?s = "newlines 40 (terminal_initialize blank_terminal)"
  have "term_reachable ?s" using newlines_reachable term_reachable.init by blast
  moreover have "logical_row ?s = 40" using newlines_fields [of 40 blank_terminal] by simp
  moreover have "(\<forall>op. \<exists>s'. term_do op ?s = Some s') \<Longrightarrow> \<exists>s'. terminal_putchar 97 ?s = Some s'"
    by (metis term_do.simps(1))
  ultimately show ?thesis using terminal_reachable_ok [of ?s] by auto
qed




end
