(* ===== verification/Elf.thy ===== *)
theory Elf
  imports Scheduler Vmm ByteMem
begin

text \<open>
  The ELF loader of \<open>src/kernel/elf.c\<close>. The image is a range of bytes of memory \<open>m\<close> at \<open>elf_data\<close>, which the
  loader only reads. Pages of the task are written through temporary mappings in the kernel's address
  space: every store goes through the translation of the processor, and \<open>None\<close> is a page fault. Bytes of
  physical memory are read off its 32-bit words, lowest byte first.
\<close>

section \<open>Headers\<close>

record elf32_ehdr =
  e_ident :: "u8 list"
  e_type :: u16
  e_machine :: u16
  e_version :: u32
  e_entry :: u32
  e_phoff :: u32
  e_shoff :: u32
  e_flags :: u32
  e_ehsize :: u16
  e_phentsize :: u16
  e_phnum :: u16
  e_shentsize :: u16
  e_shnum :: u16
  e_shstrndx :: u16

record elf32_phdr =
  p_type :: u32
  p_offset :: u32
  p_vaddr :: u32
  p_paddr :: u32
  p_filesz :: u32
  p_memsz :: u32
  p_flags :: u32
  p_align :: u32

text \<open>The packed structures at an address.\<close>

definition ehdr_at :: "mem \<Rightarrow> u32 \<Rightarrow> elf32_ehdr" where
  "ehdr_at m a = \<lparr>e_ident = map (\<lambda>i. m (a + word_of_nat i)) [0..<16], e_type = ld16 m (a + 16), e_machine = ld16 m (a + 18),
     e_version = ld32 m (a + 20), e_entry = ld32 m (a + 24), e_phoff = ld32 m (a + 28), e_shoff = ld32 m (a + 32),
     e_flags = ld32 m (a + 36), e_ehsize = ld16 m (a + 40), e_phentsize = ld16 m (a + 42), e_phnum = ld16 m (a + 44),
     e_shentsize = ld16 m (a + 46), e_shnum = ld16 m (a + 48), e_shstrndx = ld16 m (a + 50)\<rparr>"

definition phdr_at :: "mem \<Rightarrow> u32 \<Rightarrow> elf32_phdr" where
  "phdr_at m a = \<lparr>p_type = ld32 m a, p_offset = ld32 m (a + 4), p_vaddr = ld32 m (a + 8), p_paddr = ld32 m (a + 12),
     p_filesz = ld32 m (a + 16), p_memsz = ld32 m (a + 20), p_flags = ld32 m (a + 24), p_align = ld32 m (a + 28)\<rparr>"

definition elf_validate :: "mem \<Rightarrow> u32 \<Rightarrow> bool" where
  "elf_validate m elf_data =
     (let ehdr = ehdr_at m elf_data in
      if e_ident ehdr ! 0 \<noteq> 0x7F \<or> e_ident ehdr ! 1 \<noteq> 69 \<or> e_ident ehdr ! 2 \<noteq> 76 \<or> e_ident ehdr ! 3 \<noteq> 70 then False
      else if e_ident ehdr ! 4 \<noteq> 1 then False
      else if e_ident ehdr ! 5 \<noteq> 1 then False
      else if e_type ehdr \<noteq> 2 then False
      else if e_machine ehdr \<noteq> 3 then False
      else True)"

definition elf_get_entry :: "mem \<Rightarrow> u32 \<Rightarrow> u32" where
  "elf_get_entry m elf_data = e_entry (ehdr_at m elf_data)"

section \<open>Bytes and words through the page tables\<close>

definition pbyte :: "vmm_state \<Rightarrow> u32 \<Rightarrow> u8" where
  "pbyte s a = ucast (drop_bit (8 * unat (a AND 3)) (pmem s (a AND NOT 3)))"

definition set_pbyte :: "u32 \<Rightarrow> u8 \<Rightarrow> vmm_state \<Rightarrow> vmm_state" where
  "set_pbyte a v s =
     (let w = a AND NOT 3; k = 8 * unat (a AND 3)
      in s\<lparr>pmem := (pmem s)(w := (pmem s w AND NOT (push_bit k 0xFF)) OR push_bit k (ucast v))\<rparr>)"

definition store8 :: "u32 \<Rightarrow> u8 \<Rightarrow> vmm_state \<Rightarrow> vmm_state option" where
  "store8 virt v s = (case mmu s virt of None \<Rightarrow> None | Some a \<Rightarrow> Some (set_pbyte a v s))"

text \<open>A 32-bit store to an aligned address.\<close>

definition store32 :: "u32 \<Rightarrow> u32 \<Rightarrow> vmm_state \<Rightarrow> vmm_state option" where
  "store32 virt v s = (case mmu s virt of None \<Rightarrow> None | Some a \<Rightarrow> Some (s\<lparr>pmem := (pmem s)(a := v)\<rparr>))"

text \<open>\<open>memcpy\<close> from the image to kernel virtual addresses.\<close>

function copy_out :: "mem \<Rightarrow> u32 \<Rightarrow> u32 \<Rightarrow> u32 \<Rightarrow> vmm_state \<Rightarrow> vmm_state option" where
  "copy_out m src dst len s =
     (if len \<noteq> 0 then
        (case store8 dst (m src) s of None \<Rightarrow> None
         | Some s \<Rightarrow> copy_out m (src + 1) (dst + 1) (len - 1) s)
      else Some s)"
  by pat_completeness auto

termination
  by (relation "measure (\<lambda>(_, _, _, len, _). unat len)") (auto simp: unat_pred unat_gt_0)

declare copy_out.simps [simp del]

section \<open>Mapping a page of the task\<close>

text \<open>Clearing a temporary mapping without freeing the frame.\<close>

definition clear_temp :: "u32 \<Rightarrow> vmm_state \<Rightarrow> vmm_state" where
  "clear_temp virt s =
     (let kernel_pd = page_dir (address_spaces s (vmm_current_as s));
          kernel_pt = get_entry s kernel_pd (drop_bit 22 virt AND 0x3FF) AND NOT 0xFFF
      in set_entry kernel_pt (drop_bit 12 virt AND 0x3FF) 0 s)"

definition map_user_page_accessible :: "u32 \<Rightarrow> u32 \<Rightarrow> u32 \<Rightarrow> vmm_state \<Rightarrow> (u32 \<times> vmm_state) option" where
  "map_user_page_accessible task_pd user_vaddr flags s =
     (let (phys, p) = pmm_alloc_block (vpmm s); s = set_pmm p s in
      if phys = NULL then Some (NULL, s)
      else
        (let pd_idx = drop_bit 22 user_vaddr AND 0x3FF;
             pt_idx = drop_bit 12 user_vaddr AND 0x3FF;
             temp_pt_vaddr = 0xF0000000
         in case (if get_entry s task_pd pd_idx AND VMM_PRESENT = 0 then
                    (let (pt_phys, p) = pmm_alloc_block (vpmm s); s = set_pmm p s in
                     if pt_phys = NULL then Some (False, set_pmm (pmm_free_block phys (vpmm s)) s)
                     else
                       (case memset_page temp_pt_vaddr (vmm_map_page temp_pt_vaddr pt_phys (VMM_PRESENT OR VMM_WRITE) s) of
                          None \<Rightarrow> None
                        | Some s \<Rightarrow> Some (True, set_entry task_pd pd_idx (pt_phys OR VMM_PRESENT OR VMM_WRITE OR VMM_USER) s)))
                  else Some (True, vmm_map_page temp_pt_vaddr (get_entry s task_pd pd_idx AND NOT 0xFFF) (VMM_PRESENT OR VMM_WRITE) s)) of
              None \<Rightarrow> None
            | Some (ok, s) \<Rightarrow>
                if \<not> ok then Some (NULL, s)
                else
                  (case store32 (temp_pt_vaddr + 4 * pt_idx) (phys OR (flags AND 0xFFF)) s of None \<Rightarrow> None
                   | Some s \<Rightarrow>
                       (let s = clear_temp temp_pt_vaddr s;
                            kernel_temp_vaddr = 0xE0000000 + (phys AND 0x00FFFFFF)
                        in Some (kernel_temp_vaddr, vmm_map_page kernel_temp_vaddr phys (VMM_PRESENT OR VMM_WRITE) s)))))"

section \<open>Loading\<close>

text \<open>The part of a page that comes from the file: where in the page, where in the file, how much.\<close>

definition page_copy :: "elf32_phdr \<Rightarrow> u32 \<Rightarrow> (u32 \<times> u32 \<times> u32) option" where
  "page_copy ph user_vaddr =
     (let page_offset_in_segment = user_vaddr - p_vaddr ph in
      if page_offset_in_segment < p_filesz ph then
        (let copy_start = (if page_offset_in_segment > 0 then 0 else p_vaddr ph AND 0xFFF);
             file_offset = p_offset ph + page_offset_in_segment;
             copy_size = PAGE_SIZE - copy_start;
             remaining = p_filesz ph - page_offset_in_segment;
             copy_size = (if copy_size > remaining then remaining else copy_size)
         in if copy_size > 0 then Some (copy_start, file_offset, copy_size) else None)
      else None)"

definition fill_page :: "mem \<Rightarrow> u32 \<Rightarrow> elf32_phdr \<Rightarrow> u32 \<Rightarrow> u32 \<Rightarrow> vmm_state \<Rightarrow> vmm_state option" where
  "fill_page m elf_data ph user_vaddr kernel_addr s =
     (case memset_page kernel_addr s of None \<Rightarrow> None
      | Some s \<Rightarrow>
          (case page_copy ph user_vaddr of
             None \<Rightarrow> Some s
           | Some (copy_start, file_offset, copy_size) \<Rightarrow>
               copy_out m (elf_data + file_offset) (kernel_addr + copy_start) copy_size s))"

definition page_flags :: "elf32_phdr \<Rightarrow> u32" where
  "page_flags ph = (if p_flags ph AND 2 \<noteq> 0 then VMM_PRESENT OR VMM_USER OR VMM_WRITE else VMM_PRESENT OR VMM_USER)"

text \<open>\<open>False\<close> as the first component: out of memory.\<close>

function load_pages :: "mem \<Rightarrow> u32 \<Rightarrow> elf32_phdr \<Rightarrow> u32 \<Rightarrow> u32 \<Rightarrow> u32 \<Rightarrow> u32 \<Rightarrow> vmm_state \<Rightarrow> (bool \<times> vmm_state) option" where
  "load_pages m elf_data ph task_pd vaddr_start num_pages page_num s =
     (if page_num < num_pages then
        (let user_vaddr = vaddr_start + page_num * PAGE_SIZE in
         case map_user_page_accessible task_pd user_vaddr (page_flags ph) s of None \<Rightarrow> None
         | Some (kernel_addr, s) \<Rightarrow>
             if kernel_addr = NULL then Some (False, s)
             else
               (case fill_page m elf_data ph user_vaddr kernel_addr s of None \<Rightarrow> None
                | Some s \<Rightarrow>
                    load_pages m elf_data ph task_pd vaddr_start num_pages (page_num + 1) (clear_temp kernel_addr s)))
      else Some (True, s))"
  by pat_completeness auto

termination
  by (relation "measure (\<lambda>(_, _, _, _, _, num_pages, page_num, _). unat num_pages - unat page_num)") (auto simp: loop_measure)

declare load_pages.simps [simp del]

definition load_segment :: "mem \<Rightarrow> u32 \<Rightarrow> elf32_phdr \<Rightarrow> task \<Rightarrow> vmm_state \<Rightarrow> (bool \<times> task \<times> vmm_state) option" where
  "load_segment m elf_data ph t s =
     (let vaddr_start = p_vaddr ph AND NOT 0xFFF;
          vaddr_end = (p_vaddr ph + p_memsz ph + 0xFFF) AND NOT 0xFFF;
          num_pages = (vaddr_end - vaddr_start) div PAGE_SIZE
      in case load_pages m elf_data ph (t_page_directory t) vaddr_start num_pages 0 s of None \<Rightarrow> None
         | Some (ok, s) \<Rightarrow>
             if \<not> ok then Some (False, t, s)
             else Some (True,
               if p_flags ph AND 1 \<noteq> 0 then t\<lparr>t_code_start := p_vaddr ph, t_code_end := p_vaddr ph + p_memsz ph\<rparr>
               else if p_flags ph AND 2 \<noteq> 0 then t\<lparr>t_data_start := p_vaddr ph, t_data_end := p_vaddr ph + p_memsz ph\<rparr>
               else t, s))"

fun load_segments :: "mem \<Rightarrow> u32 \<Rightarrow> elf32_phdr list \<Rightarrow> task \<Rightarrow> vmm_state \<Rightarrow> (bool \<times> task \<times> vmm_state) option" where
  "load_segments m elf_data [] t s = Some (True, t, s)"
| "load_segments m elf_data (ph # phs) t s =
     (if p_type ph \<noteq> 1 then load_segments m elf_data phs t s
      else
        (case load_segment m elf_data ph t s of None \<Rightarrow> None
         | Some (ok, t, s) \<Rightarrow> if \<not> ok then Some (False, t, s) else load_segments m elf_data phs t s))"

definition program_headers :: "mem \<Rightarrow> u32 \<Rightarrow> elf32_phdr list" where
  "program_headers m elf_data =
     (let ehdr = ehdr_at m elf_data
      in map (\<lambda>i. phdr_at m (elf_data + e_phoff ehdr + 32 * word_of_nat i)) [0..<unat (e_phnum ehdr)])"

definition elf_load :: "mem \<Rightarrow> u32 \<Rightarrow> task \<Rightarrow> vmm_state \<Rightarrow> (bool \<times> task \<times> vmm_state) option" where
  "elf_load m elf_data t s =
     (if \<not> elf_validate m elf_data then Some (False, t, s)
      else
        (case load_segments m elf_data (program_headers m elf_data) t s of None \<Rightarrow> None
         | Some (ok, t, s) \<Rightarrow>
             if \<not> ok then Some (False, t, s)
             else Some (True, t\<lparr>t_entry_point := e_entry (ehdr_at m elf_data)\<rparr>, s)))"

section \<open>Bytes of a frame\<close>

lemma byte_lanes:
  fixes w :: u32 and v :: u8
  assumes "i < 4" "j < 4"
  shows "(ucast (drop_bit (8 * j) ((w AND NOT (push_bit (8 * i) 0xFF)) OR push_bit (8 * i) (ucast v))) :: u8) =
    (if i = j then v else ucast (drop_bit (8 * j) w))"
proof -
  have ff: "(0xFF :: u32) = mask 8" by (simp add: mask_eq_exp_minus_1)
  show ?thesis
  proof (rule bit_word_eqI)
    fix n assume "n < LENGTH(8)"
    then have n: "n < 8" by simp
    show "bit (ucast (drop_bit (8 * j) ((w AND NOT (push_bit (8 * i) 0xFF)) OR push_bit (8 * i) (ucast v))) :: u8) n =
      bit (if i = j then v else ucast (drop_bit (8 * j) w)) n"
    proof (cases "i = j")
      case True
      then show ?thesis using n assms unfolding ff by (auto simp: bit_simps)
    next
      case False
      then have "8 * j + n < 8 * i \<or> 8 \<le> 8 * j + n - 8 * i" using n by linarith
      then show ?thesis using n assms False unfolding ff
        by (auto simp: bit_simps dest: bit_imp_le_length)
    qed
  qed
qed

lemma unat_and_3: "unat (a AND 3 :: u32) < 4"
proof -
  have "a AND 3 = take_bit 2 a" by (simp add: take_bit_eq_mask mask_eq_exp_minus_1)
  then have "a AND 3 = a mod 4" by (simp add: take_bit_eq_mod)
  then show ?thesis by (simp add: unat_mod_distrib)
qed

lemma split_3: "(a :: u32) = b \<longleftrightarrow> a AND NOT 3 = b AND NOT 3 \<and> unat (a AND 3) = unat (b AND 3)"
proof -
  have "a = (a AND NOT 3) OR (a AND 3)" for a :: u32 by (simp add: bit.conj_disj_distrib [symmetric] bit.disj_cancel_left)
  then show ?thesis by (metis word_unat_eq_iff)
qed

lemma pmem_set_pbyte:
  "pmem (set_pbyte a v s) = (pmem s)(a AND NOT 3 :=
     (pmem s (a AND NOT 3) AND NOT (push_bit (8 * unat (a AND 3)) 0xFF)) OR push_bit (8 * unat (a AND 3)) (ucast v))"
  by (simp add: set_pbyte_def Let_def)

lemma pbyte_set_pbyte: "pbyte (set_pbyte a v s) b = (if a = b then v else pbyte s b)"
proof (cases "a AND NOT 3 = b AND NOT 3")
  case True
  have "pbyte (set_pbyte a v s) b = (if unat (a AND 3) = unat (b AND 3) then v else pbyte s b)"
    unfolding pbyte_def pmem_set_pbyte True fun_upd_same by (rule byte_lanes [OF unat_and_3 unat_and_3])
  then show ?thesis using split_3 [of a b] True by (simp only: simp_thms)
next
  case False
  then have "a \<noteq> b" by blast
  then show ?thesis using False by (simp only: pbyte_def pmem_set_pbyte fun_upd_other not_False_eq_True if_False)
qed

lemma word_frame: "(a AND NOT 3) div PAGE_SIZE = (a :: u32) div PAGE_SIZE"
proof -
  have "drop_bit 12 (a AND NOT (mask 2)) = drop_bit 12 a" by (rule bit_word_eqI) (auto simp: bit_simps dest: bit_imp_le_length)
  moreover have "(3 :: u32) = mask 2" by (simp add: mask_eq_exp_minus_1)
  ultimately show ?thesis by (simp add: drop_bit_eq_div)
qed

lemma set_pbyte_entry:
  assumes "aligned t" "i < 1024" "t div PAGE_SIZE \<noteq> a div PAGE_SIZE"
  shows "get_entry (set_pbyte a v s) t i = get_entry s t i"
proof -
  have "t + 4 * i \<noteq> a AND NOT 3" using entry_frame [OF assms(1,2)] word_frame [of a] assms(3) by metis
  then show ?thesis by (simp add: get_entry_def set_pbyte_def Let_def)
qed

lemma set_pbyte_fields [simp]:
  "kheap (set_pbyte a v s) = kheap s" "cpu_cr3 (set_pbyte a v s) = cpu_cr3 s"
  by (simp_all add: set_pbyte_def Let_def)

text \<open>A byte stored outside the frames of a directory keeps its map.\<close>

lemma set_pbyte_keeps:
  assumes ok: "dir_ok s pd" and a: "a div PAGE_SIZE \<notin> dir_frames s pd"
  shows "dir_ok (set_pbyte a v s) pd" "pte_of (set_pbyte a v s) pd w = pte_of s pd w"
    "dir_frames (set_pbyte a v s) pd = dir_frames s pd"
proof -
  have np: "pd div PAGE_SIZE \<noteq> a div PAGE_SIZE" "has_table s pd i \<Longrightarrow> table_of s pd i div PAGE_SIZE \<noteq> a div PAGE_SIZE" for i
    using a by (force simp: dir_frames_def)+
  have pde: "get_entry (set_pbyte a v s) pd i = get_entry s pd i" if "i < 1024" for i
    by (rule set_pbyte_entry [OF dir_okD(1) [OF ok] that np(1)])
  show "dir_ok (set_pbyte a v s) pd" by (rule dir_ok_cong [OF ok]) (use dir_okD(3) [OF ok] pde in simp_all)
  show "dir_frames (set_pbyte a v s) pd = dir_frames s pd" using pde by (rule dir_frames_cong)
  have "get_entry (set_pbyte a v s) (table_of s pd (pd_index w)) (pt_index w) =
      get_entry s (table_of s pd (pd_index w)) (pt_index w)" if "has_table s pd (pd_index w)"
    by (rule set_pbyte_entry [OF aligned_table index_bound(2) np(2) [OF that]])
  then show "pte_of (set_pbyte a v s) pd w = pte_of s pd w"
    using pde [OF index_bound(1)] by (simp add: pte_of_def has_table_def table_of_def)
qed

section \<open>A mapped page\<close>

text \<open>The page at \<open>kaddr\<close> is mapped to the frame at \<open>phys\<close>, which is not a table of the directory.\<close>

definition window :: "vmm_state \<Rightarrow> u32 \<Rightarrow> u32 \<Rightarrow> u32 \<Rightarrow> bool" where
  "window s pd kaddr phys \<longleftrightarrow> dir_ok s pd \<and> cpu_cr3 s = pd \<and> aligned kaddr \<and> present (pte_of s pd kaddr) \<and>
     pte_of s pd kaddr AND NOT 0xFFF = phys \<and> phys div PAGE_SIZE \<notin> dir_frames s pd"

lemma page_offset:
  assumes "aligned a" "unat j < 4096"
  shows "(a + j) div PAGE_SIZE = a div PAGE_SIZE" "(a + j) AND 0xFFF = j" "(a + j) AND NOT 0xFFF = a"
proof -
  define k where "k = a div PAGE_SIZE"
  have k: "k < 0x100000" unfolding k_def by (rule u32_div_page_bound)
  have ua: "unat a = unat k * 4096" using unat_frame_addr [OF k] assms(1) by (simp add: aligned_def k_def)
  have "unat k < 1048576" using k by (simp add: word_less_nat_alt)
  then have u: "unat (a + j) = unat k * 4096 + unat j" using assms(2) ua by (simp add: unat_word_ariths)
  then have "unat ((a + j) div PAGE_SIZE) = unat k" using assms(2) by (simp add: unat_div_distrib)
  then show d: "(a + j) div PAGE_SIZE = a div PAGE_SIZE" by (simp add: word_unat_eq_iff k_def)
  have "unat ((a + j) mod PAGE_SIZE) = unat j" using assms(2) u by (simp add: unat_mod_distrib)
  then show "(a + j) AND 0xFFF = j" by (simp add: and_page_mask word_unat_eq_iff)
  show "(a + j) AND NOT 0xFFF = a" unfolding and_not_page_mask d using assms(1) by (simp add: aligned_def)
qed

lemma window_mmu:
  assumes "window s pd kaddr phys" "unat j < 4096"
  shows "mmu s (kaddr + j) = Some (phys + j)" "aligned phys" "(phys + j) div PAGE_SIZE \<notin> dir_frames s pd"
proof -
  have w: "dir_ok s pd" "cpu_cr3 s = pd" "aligned kaddr" "present (pte_of s pd kaddr)"
    "pte_of s pd kaddr AND NOT 0xFFF = phys" "phys div PAGE_SIZE \<notin> dir_frames s pd"
    using assms(1) by (auto simp: window_def)
  show al: "aligned phys" using aligned_and w(5) by blast
  note ko = page_offset [OF w(3) assms(2)] and po = page_offset [OF al assms(2)]
  have "pte_of s pd (kaddr + j) = pte_of s pd kaddr"
    using same_page_iff [of "kaddr + j" kaddr] ko(1) by (simp add: pte_of_def)
  moreover have "phys OR j = phys + j"
  proof -
    have "phys AND j = 0"
    proof -
      have "phys AND j = (phys AND NOT 0xFFF) AND ((phys + j) AND 0xFFF)" using al po(2) by (simp only: aligned_bits)
      also have "\<dots> = 0" by (rule bit_word_eqI) (auto simp only: bit_and_iff bit_not_iff bit_0_eq bot_apply bot_bool_def)
      finally show ?thesis .
    qed
    then show ?thesis by (simp add: disjunctive_add_eq_or)
  qed
  ultimately show "mmu s (kaddr + j) = Some (phys + j)"
    using mmu_pte [OF w(2) dir_okD(1) [OF w(1)], of "kaddr + j"] w(4,5) ko(2) by (simp add: translate_def)
  show "(phys + j) div PAGE_SIZE \<notin> dir_frames s pd" using po(1) w(6) by simp
qed

lemma window_store:
  assumes w: "window s pd kaddr phys" and j: "unat j < 4096"
  shows "window (set_pbyte (phys + j) v s) pd kaddr phys"
    "pte_of (set_pbyte (phys + j) v s) pd x = pte_of s pd x"
proof -
  have "dir_ok s pd" using w by (simp add: window_def)
  note k = set_pbyte_keeps [OF this window_mmu(3) [OF w j]]
  show "window (set_pbyte (phys + j) v s) pd kaddr phys" using w by (simp only: window_def k set_pbyte_fields simp_thms)
  show "pte_of (set_pbyte (phys + j) v s) pd x = pte_of s pd x" by (rule k(2))
qed

lemma window_zero:
  assumes w: "window s pd kaddr phys"
  shows "memset_page kaddr s = Some (zero_page phys s)" "window (zero_page phys s) pd kaddr phys"
    "pte_of (zero_page phys s) pd x = pte_of s pd x"
proof -
  have w': "dir_ok s pd" "phys div PAGE_SIZE \<notin> dir_frames s pd" using w by (simp_all add: window_def)
  note m = window_mmu(1,2) [OF w, of 0]
  have al: "aligned phys" using m(2) by simp
  note k = zero_page_keeps [OF w'(1) al w'(2)]
  show "memset_page kaddr s = Some (zero_page phys s)" using m(1) by (simp add: memset_page_def)
  show "window (zero_page phys s) pd kaddr phys" using w by (simp only: window_def k zero_page_simps simp_thms)
  show "pte_of (zero_page phys s) pd x = pte_of s pd x" by (rule k(2))
qed

lemma pbyte_zero_page:
  assumes "aligned a"
  shows "pbyte (zero_page a s) x = (if x div PAGE_SIZE = a div PAGE_SIZE then 0 else pbyte s x)"
proof -
  have "pmem (zero_page a s) y = (if y div PAGE_SIZE = a div PAGE_SIZE then 0 else pmem s y)" for y
    by (simp add: zero_page_def in_page_iff [OF assms])
  then show ?thesis unfolding pbyte_def word_frame by (cases "x div PAGE_SIZE = a div PAGE_SIZE") (simp_all only: word_frame if_True if_False, simp)
qed

text \<open>Copying into the page: the bytes of the target range are those of the source, every other byte of
  memory and the map are as before.\<close>

lemma copy_out_window:
  assumes "window s pd kaddr phys" "unat off + unat len \<le> 4096"
  shows "\<exists>s'. copy_out m src (kaddr + off) len s = Some s' \<and> window s' pd kaddr phys \<and>
    (\<forall>x. pte_of s' pd x = pte_of s pd x) \<and>
    (\<forall>x. pbyte s' x = (if x - (phys + off) < len then m (src + (x - (phys + off))) else pbyte s x))"
  using assms
proof (induction "unat len" arbitrary: src off len s)
  case 0
  then have "len = 0" by (simp add: unat_eq_0)
  with 0 show ?case by (subst copy_out.simps) simp
next
  case (Suc n)
  have len: "len \<noteq> 0" using Suc.hyps(2) by auto
  then have n: "n = unat (len - 1)" using Suc.hyps(2) by (simp add: unat_pred)
  have off: "unat off < 4096" using Suc.hyps(2) Suc.prems(2) by linarith
  then have "unat (off + 1) = unat off + 1" by (simp add: unat_word_ariths)
  then have le: "unat (off + 1) + unat (len - 1) \<le> 4096" using Suc.hyps(2) Suc.prems(2) n by linarith
  let ?s = "set_pbyte (phys + off) (m src) s"
  note w = window_store [OF Suc.prems(1) off, where v = "m src"]
  obtain s' where s': "copy_out m (src + 1) (kaddr + (off + 1)) (len - 1) ?s = Some s'" "window s' pd kaddr phys"
    "\<And>x. pte_of s' pd x = pte_of ?s pd x"
    "\<And>x. pbyte s' x = (if x - (phys + (off + 1)) < len - 1 then m (src + 1 + (x - (phys + (off + 1)))) else pbyte ?s x)"
    using Suc.hyps(1) [OF n w(1) le] by blast
  have "copy_out m src (kaddr + off) len s = Some s'"
    using s'(1) len window_mmu(1) [OF Suc.prems(1) off] by (subst copy_out.simps) (simp add: store8_def add.assoc)
  moreover have "pbyte s' x = (if x - (phys + off) < len then m (src + (x - (phys + off))) else pbyte s x)" for x
  proof -
    define d where "d = x - (phys + off)"
    have d: "x - (phys + (off + 1)) = d - 1" "x = phys + off \<longleftrightarrow> d = 0" by (auto simp: d_def algebra_simps)
    have "d - 1 < len - 1 \<longleftrightarrow> d \<noteq> 0 \<and> d < len"
    proof (cases "d = 0")
      case True
      then show ?thesis using word_order.extremum_strict [of "len - 1"] by simp
    next
      case False
      then show ?thesis using unat_pred [of d] unat_pred [OF len] unat_gt_0 [of d] by (auto simp: word_less_nat_alt)
    qed
    moreover have "0 < len" using len by (simp add: word_neq_0_conv)
    ultimately show ?thesis unfolding s'(4) d(1) pbyte_set_pbyte d_def [symmetric] using d(2) by auto
  qed
  ultimately show ?case using s'(2,3) w(2) by auto
qed

text \<open>A page of a segment that starts on a page boundary receives the file's bytes, and zeros behind them.\<close>

lemma page_copy_aligned:
  assumes "aligned (p_vaddr ph)"
  defines "off u \<equiv> u - p_vaddr ph"
  shows "page_copy ph u = (if off u < p_filesz ph
    then Some (0, p_offset ph + off u, min PAGE_SIZE (p_filesz ph - off u)) else None)"
proof -
  have "p_vaddr ph AND 0xFFF = 0" using page_offset(2) [OF assms(1), of 0] by simp
  moreover have "0 < p_filesz ph - off u" if "off u < p_filesz ph"
    using that by (simp add: word_neq_0_conv [symmetric])
  ultimately show ?thesis by (auto simp: page_copy_def Let_def off_def min_def)
qed

lemma fill_page_aligned:
  fixes user_vaddr :: u32
  assumes w: "window s pd kaddr phys" and al: "aligned (p_vaddr ph)"
  defines "off \<equiv> user_vaddr - p_vaddr ph"
  shows "\<exists>s'. fill_page m elf_data ph user_vaddr kaddr s = Some s' \<and> window s' pd kaddr phys \<and>
    (\<forall>x. pte_of s' pd x = pte_of s pd x) \<and>
    (\<forall>x. x div PAGE_SIZE \<noteq> phys div PAGE_SIZE \<longrightarrow> pbyte s' x = pbyte s x) \<and>
    (\<forall>j. unat j < 4096 \<longrightarrow> pbyte s' (phys + j) =
       (if unat off + unat j < unat (p_filesz ph) then m (elf_data + p_offset ph + off + j) else 0))"
proof -
  note z = window_zero [OF w] and al' = window_mmu(2) [OF w, of 0, simplified]
  show ?thesis
  proof (cases "off < p_filesz ph")
    case False
    then have "fill_page m elf_data ph user_vaddr kaddr s = Some (zero_page phys s)"
      using z(1) page_copy_aligned [OF al, of user_vaddr] by (simp add: fill_page_def off_def)
    then show ?thesis using z(2,3) False page_offset(1) [OF al'] by (auto simp: pbyte_zero_page [OF al'] word_less_nat_alt)
  next
    case True
    let ?len = "min PAGE_SIZE (p_filesz ph - off)"
    have sub: "unat (p_filesz ph - off) = unat (p_filesz ph) - unat off" using True by (simp add: unat_sub)
    have len: "unat ?len = min 4096 (unat (p_filesz ph) - unat off)"
      using True by (auto simp: min_def word_le_nat_alt word_less_nat_alt unat_sub)
    obtain s' where s': "copy_out m (elf_data + (p_offset ph + off)) (kaddr + 0) ?len (zero_page phys s) = Some s'"
      "window s' pd kaddr phys" "\<And>x. pte_of s' pd x = pte_of (zero_page phys s) pd x"
      "\<And>x. pbyte s' x = (if x - (phys + 0) < ?len then m (elf_data + (p_offset ph + off) + (x - (phys + 0)))
         else pbyte (zero_page phys s) x)"
      using copy_out_window [OF z(2), of 0 ?len m "elf_data + (p_offset ph + off)"] len by auto
    have "fill_page m elf_data ph user_vaddr kaddr s = Some s'"
      using True z(1) s'(1) page_copy_aligned [OF al, of user_vaddr] by (simp add: fill_page_def off_def)
    moreover have "pbyte s' (phys + j) = (if unat off + unat j < unat (p_filesz ph) then m (elf_data + p_offset ph + off + j) else 0)"
      if "unat j < 4096" for j
      using that page_offset(1) [OF al' that] sub
      by (auto simp: s'(4) pbyte_zero_page [OF al'] word_less_nat_alt [of j] len add.assoc)
    moreover have "pbyte s' x = pbyte s x" if "x div PAGE_SIZE \<noteq> phys div PAGE_SIZE" for x
    proof -
      have "\<not> x - phys < PAGE_SIZE" using that by (simp add: in_page_iff [OF al'])
      then have "\<not> x - phys < ?len" using min.cobounded1 [of PAGE_SIZE "p_filesz ph - off"] less_le_trans by blast
      then show ?thesis using that by (auto simp: s'(4) pbyte_zero_page [OF al'])
    qed
    ultimately show ?thesis using s'(2,3) z(3) by auto
  qed
qed

text \<open>A segment that does not start on a page boundary: the offset of its first page is negative, so as a
  32-bit number it is beyond the file size and nothing is copied.\<close>

lemma unat_neg: "x \<noteq> 0 \<Longrightarrow> unat (- x :: u32) = 4294967296 - unat x"
  using unat_sub_if' [of 0 x] by (simp add: unat_gt_0 flip: unat_gt_0)

lemma page_copy_unaligned:
  assumes "\<not> aligned (p_vaddr ph)" "p_filesz ph \<le> 0xFFFFF000"
  shows "page_copy ph (p_vaddr ph AND NOT 0xFFF) = None"
proof -
  let ?v = "p_vaddr ph"
  have "?v = (?v AND NOT 0xFFF) + (?v AND 0xFFF)"
    using div_mult_mod_eq [of ?v PAGE_SIZE] by (simp only: and_not_page_mask and_page_mask)
  then have o: "(?v AND NOT 0xFFF) - ?v = - (?v AND 0xFFF)" by (metis add_diff_cancel_left' minus_diff_eq)
  have "?v AND 0xFFF \<noteq> 0"
    using assms(1) div_mult_mod_eq [of ?v PAGE_SIZE] by (metis aligned_def and_page_mask add.right_neutral)
  moreover have "unat (?v AND 0xFFF) < 4096" by (simp add: and_page_mask unat_mod_distrib)
  ultimately have "unat (- (?v AND 0xFFF)) > 4294963200"
    by (simp add: unat_neg)
  then have "\<not> - (?v AND 0xFFF) < p_filesz ph" using assms(2) by (simp add: word_less_nat_alt word_le_nat_alt)
  then show ?thesis unfolding page_copy_def o Let_def by simp
qed

section \<open>A concrete page\<close>

lemma boot_window: "window boot_vm 0x150000 0x200000 0x200000"
proof -
  have "(0x200000 :: u32) div PAGE_SIZE \<in> free_frames (vpmm boot_vm)" by (simp add: boot_vm_pmm bare_vm_pmm(3))
  then have "(0x200000 :: u32) div PAGE_SIZE \<notin> dir_frames boot_vm 0x150000"
    using dir_frames_not_free [OF boot_vm_ok(1)] by blast
  then show ?thesis using boot_vm_ok(1) boot_vm_regs(1)
    by (simp add: window_def boot_vm_pte aligned_def present_def)
qed

text \<open>An image in memory whose bytes repeat 0, 1, ..., 255.\<close>

definition ramp :: mem where
  "ramp a = ucast a"

definition text_phdr :: elf32_phdr where
  "text_phdr = \<lparr>p_type = 1, p_offset = 0x1000, p_vaddr = 0x08048000, p_paddr = 0, p_filesz = 0x1005, p_memsz = 0x2000,
     p_flags = 5, p_align = 0x1000\<rparr>"

section \<open>Properties\<close>

text \<open>C21: what a page of a loaded segment holds. The page is mapped at \<open>kaddr\<close> in the kernel's directory to the frame
  \<open>phys\<close>, outside the frames of the directory. Filling it never faults and changes neither the map nor a byte outside
  the frame. If the segment starts on a page boundary, byte \<open>j\<close> of the frame is the byte of the file at the
  segment's offset, 0 behind \<open>p_filesz\<close>. If it does not, its first page is left all zero: the
  segment's first bytes are lost.\<close>

theorem elf_page_contents:
  fixes user_vaddr :: u32
  assumes w: "window s pd kaddr phys"
  shows "(aligned (p_vaddr ph) \<longrightarrow> (\<exists>s'. fill_page m elf_data ph user_vaddr kaddr s = Some s' \<and> window s' pd kaddr phys \<and>
      (\<forall>x. pte_of s' pd x = pte_of s pd x) \<and>
      (\<forall>x. x div PAGE_SIZE \<noteq> phys div PAGE_SIZE \<longrightarrow> pbyte s' x = pbyte s x) \<and>
      (\<forall>j. unat j < 4096 \<longrightarrow> pbyte s' (phys + j) =
         (if unat (user_vaddr - p_vaddr ph) + unat j < unat (p_filesz ph)
          then m (elf_data + p_offset ph + (user_vaddr - p_vaddr ph) + j) else 0)))) \<and>
    (\<not> aligned (p_vaddr ph) \<and> p_filesz ph \<le> 0xFFFFF000 \<longrightarrow>
      (\<exists>s'. fill_page m elf_data ph (p_vaddr ph AND NOT 0xFFF) kaddr s = Some s' \<and>
        (\<forall>j. unat j < 4096 \<longrightarrow> pbyte s' (phys + j) = 0)))"
proof (intro conjI impI)
  note z = window_zero(1) [OF w] and al = window_mmu(2) [OF w, of 0, simplified]
  assume "\<not> aligned (p_vaddr ph) \<and> p_filesz ph \<le> 0xFFFFF000"
  then have "page_copy ph (p_vaddr ph AND NOT 0xFFF) = None" by (intro page_copy_unaligned) blast+
  then have "fill_page m elf_data ph (p_vaddr ph AND NOT 0xFFF) kaddr s = Some (zero_page phys s)"
    by (simp only: fill_page_def z option.case)
  then show "\<exists>s'. fill_page m elf_data ph (p_vaddr ph AND NOT 0xFFF) kaddr s = Some s' \<and>
      (\<forall>j. unat j < 4096 \<longrightarrow> pbyte s' (phys + j) = 0)"
    using page_offset(1) [OF al] by (simp add: pbyte_zero_page [OF al])
qed (rule fill_page_aligned [OF w])

theorem elf_page_contents_witness:
  "(\<exists>s'. fill_page ramp 0x400000 text_phdr 0x08049000 0x200000 boot_vm = Some s' \<and>
     pbyte s' 0x200004 = 4 \<and> pbyte s' 0x200005 = 0) \<and>
   (\<exists>s'. fill_page ramp 0x400000 (text_phdr\<lparr>p_vaddr := 0x08048010\<rparr>) 0x08048000 0x200000 boot_vm = Some s' \<and>
     pbyte s' 0x200004 = 0)"
proof
  have al: "aligned (p_vaddr text_phdr)" "\<not> aligned (p_vaddr (text_phdr\<lparr>p_vaddr := 0x08048010\<rparr>))"
    by (simp_all add: text_phdr_def aligned_def)
  obtain s' where s': "fill_page ramp 0x400000 text_phdr 0x08049000 0x200000 boot_vm = Some s'"
    "\<And>j. unat j < 4096 \<Longrightarrow> pbyte s' (0x200000 + j) =
         (if unat (0x08049000 - p_vaddr text_phdr) + unat j < unat (p_filesz text_phdr)
          then ramp (0x400000 + p_offset text_phdr + (0x08049000 - p_vaddr text_phdr) + j) else 0)"
    using elf_page_contents [OF boot_window, of text_phdr ramp "0x400000" "0x08049000"] al(1) by blast
  then show "\<exists>s'. fill_page ramp 0x400000 text_phdr 0x08049000 0x200000 boot_vm = Some s' \<and>
     pbyte s' 0x200004 = 4 \<and> pbyte s' 0x200005 = 0"
    using s'(2) [of 4] s'(2) [of 5] by (intro exI [of _ s']) (simp add: text_phdr_def ramp_def)
  obtain s'' where s'': "fill_page ramp 0x400000 (text_phdr\<lparr>p_vaddr := 0x08048010\<rparr>)
      (p_vaddr (text_phdr\<lparr>p_vaddr := 0x08048010\<rparr>) AND NOT 0xFFF) 0x200000 boot_vm = Some s''"
    "\<And>j. unat j < 4096 \<Longrightarrow> pbyte s'' (0x200000 + j) = 0"
    using elf_page_contents [OF boot_window, of "text_phdr\<lparr>p_vaddr := 0x08048010\<rparr>" ramp "0x400000" 0] al(2)
    by (auto simp: text_phdr_def)
  then show "\<exists>s'. fill_page ramp 0x400000 (text_phdr\<lparr>p_vaddr := 0x08048010\<rparr>) 0x08048000 0x200000 boot_vm = Some s' \<and>
     pbyte s' 0x200004 = 0"
    using s''(2) [of 4] by (intro exI [of _ s'']) simp
qed

end
