(* ===== verification/Fat.thy ===== *)
theory Fat
  imports Tarfs
begin

text \<open>
  The FAT16 file system of \<open>src/fs/fat.c\<close> and \<open>src/fs/fat.h\<close> over the disk driver. The file allocation table
  and the directory sectors are bytes of memory, where the driver puts them: \<open>fat_fs\<close> holds the address of the table,
  and \<open>fat_env\<close> the disk and the addresses of the static buffers that the functions of the file declare. Names are
  lists of bytes as in the virtual file system; the result structure of a directory search is a value. \<open>None\<close>: the
  code does not return (a cluster chain with a cycle, a search for a free cluster that wraps) or divides by zero.
  Console output is left out. \<open>kernel_optab\<close> puts the three file systems together; with it the descriptor table of the virtual file
  system is shown to be well formed in every reachable state.
\<close>

record fat_env =
  fat_dev :: ata_device
  find_buffer :: u32
  free_buffer :: u32
  entry_buffer :: u32
  read_buffer :: u32
  write_buffer :: u32
  dir_buffer :: u32
  readdir_buffer :: u32
  cluster_buffer :: u32
  unlink_buffer :: u32

abbreviation (input) FAT_CLUSTER_EOC :: u16 where
  "FAT_CLUSTER_EOC \<equiv> 0xFFF8"

section \<open>Names and entries\<close>

text \<open>The bytes before the terminator that the code appends.\<close>

definition fat_filename_to_str :: "u8 list \<Rightarrow> u8 list" where
  "fat_filename_to_str fat_name =
     takeWhile (\<lambda>c. c \<noteq> 32) (take 8 fat_name) @
     (if fat_name ! 8 \<noteq> 32 then DOT # takeWhile (\<lambda>c. c \<noteq> 32) (take 3 (drop 8 fat_name)) else [])"

definition upcase :: "u8 \<Rightarrow> u8" where
  "upcase c = (if 97 \<le> c \<and> c \<le> 122 then c - 32 else c)"

text \<open>Copying into a field of spaces.\<close>

definition pad_field :: "nat \<Rightarrow> u8 list \<Rightarrow> u8 list" where
  "pad_field n cs = map upcase (take n cs) @ replicate (n - length cs) 32"

definition fat_str_to_filename :: "str \<Rightarrow> u8 list" where
  "fat_str_to_filename input =
     (let name = takeWhile (\<lambda>c. c \<noteq> DOT) input;
          ext = (if DOT \<in> set input then tl (dropWhile (\<lambda>c. c \<noteq> DOT) input) else [])
      in pad_field 8 name @ pad_field 3 ext)"

record fat_dir_entry =
  de_name :: "u8 list"
  de_attributes :: u8
  de_first_cluster :: u16
  de_file_size :: u32

text \<open>The fields that the code reads, at their offsets in the 32 bytes of an entry.\<close>

definition dir_entry_at :: "mem \<Rightarrow> u32 \<Rightarrow> fat_dir_entry" where
  "dir_entry_at m e = \<lparr>de_name = bytes_at m e 11, de_attributes = m (e + 11), de_first_cluster = ld16 m (e + 26),
     de_file_size = ld32 m (e + 28)\<rparr>"

text \<open>A cleared entry with a name, attributes, first cluster and size set.\<close>

definition entry_bytes :: "fat_dir_entry \<Rightarrow> u8 list" where
  "entry_bytes e = de_name e @ [de_attributes e] @ replicate 14 0 @
     [ucast (de_first_cluster e), ucast (drop_bit 8 (de_first_cluster e))] @
     [ucast (de_file_size e), ucast (drop_bit 8 (de_file_size e)), ucast (drop_bit 16 (de_file_size e)), ucast (drop_bit 24 (de_file_size e))]"

definition fat_is_valid_entry :: "fat_dir_entry \<Rightarrow> bool" where
  "fat_is_valid_entry e \<longleftrightarrow>
     (if de_name e ! 0 = 0 then False
      else if de_name e ! 0 = 0xE5 then False
      else if de_attributes e AND 0x0F = 0x0F then False
      else if de_attributes e AND 0x08 \<noteq> 0 then False
      else True)"

definition entry_free :: "fat_dir_entry \<Rightarrow> bool" where
  "entry_free e \<longleftrightarrow> de_name e ! 0 = 0 \<or> de_name e ! 0 = 0xE5"

section \<open>The allocation table\<close>

definition fat_entry :: "fs_state \<Rightarrow> u16 \<Rightarrow> u16" where
  "fat_entry s c = ld16 (fmem s) (fat_table (fat_fs s) + 2 * ucast c)"

definition in_table :: "fs_state \<Rightarrow> u16 \<Rightarrow> bool" where
  "in_table s c \<longleftrightarrow> \<not> ucast c \<ge> total_clusters (fat_fs s) + 2"

definition fat_get_next_cluster :: "u16 \<Rightarrow> fs_state \<Rightarrow> u16" where
  "fat_get_next_cluster cluster s = (if \<not> in_table s cluster then FAT_CLUSTER_EOC else fat_entry s cluster)"

definition fat_set_cluster :: "u16 \<Rightarrow> u16 \<Rightarrow> fs_state \<Rightarrow> fs_state" where
  "fat_set_cluster cluster v s =
     (if \<not> in_table s cluster then s
      else s\<lparr>fmem := st16 (fat_table (fat_fs s) + 2 * ucast cluster) v (fmem s), fat_fs := (fat_fs s)\<lparr>fat_dirty := True\<rparr>\<rparr>)"

text \<open>The search of \<open>fat_alloc_cluster\<close>; the counter has 16 bits and wraps.\<close>

partial_function (option) alloc_loop :: "fs_state \<Rightarrow> u16 \<Rightarrow> u16 option option" where
  "alloc_loop s i =
     (if in_table s i then (if fat_entry s i = 0 then Some (Some i) else alloc_loop s (i + 1)) else Some None)"

definition fat_alloc_cluster :: "fs_state \<Rightarrow> (u16 \<times> fs_state) option" where
  "fat_alloc_cluster s =
     (case alloc_loop s 2 of None \<Rightarrow> None
      | Some None \<Rightarrow> Some (0, s)
      | Some (Some i) \<Rightarrow> Some (i, fat_set_cluster i FAT_CLUSTER_EOC s))"

text \<open>The clusters in use bound the length of a chain that is being freed.\<close>

definition used_clusters :: "fs_state \<Rightarrow> u16 set" where
  "used_clusters s = {c. in_table s c \<and> fat_entry s c \<noteq> 0}"

definition in_chain :: "u16 \<Rightarrow> bool" where
  "in_chain c \<longleftrightarrow> 2 \<le> c \<and> c < FAT_CLUSTER_EOC"

lemma unat_u16 [simp]: "unat (ucast (c :: u16) :: u32) = unat c"
  using unsigned_less [of c, where ?'a = nat] by (simp add: unsigned_ucast_eq take_bit_nat_eq_self)

lemma table_slot:
  fixes c d :: u16
  assumes "c \<noteq> d"
  shows "(2 * ucast c :: u32) \<noteq> 2 * ucast d" "(2 * ucast c :: u32) + 1 \<noteq> 2 * ucast d"
    "(2 * ucast c :: u32) + 1 \<noteq> 2 * ucast d + 1" "(2 * ucast c :: u32) \<noteq> 2 * ucast d + 1"
proof -
  have u: "unat (2 * ucast x :: u32) = 2 * unat x" "unat (2 * ucast x + 1 :: u32) = 2 * unat x + 1" for x :: u16
    using unsigned_less [of x, where ?'a = nat] by (simp_all add: unat_word_ariths)
  have "unat c \<noteq> unat d" using assms by (simp add: word_unat_eq_iff)
  then have "unat (2 * ucast c :: u32) \<noteq> unat (2 * ucast d :: u32)" "unat (2 * ucast c + 1 :: u32) \<noteq> unat (2 * ucast d :: u32)"
    "unat (2 * ucast c + 1 :: u32) \<noteq> unat (2 * ucast d + 1 :: u32)" "unat (2 * ucast c :: u32) \<noteq> unat (2 * ucast d + 1 :: u32)"
    unfolding u by presburger+
  then show "(2 * ucast c :: u32) \<noteq> 2 * ucast d" "(2 * ucast c :: u32) + 1 \<noteq> 2 * ucast d"
    "(2 * ucast c :: u32) + 1 \<noteq> 2 * ucast d + 1" "(2 * ucast c :: u32) \<noteq> 2 * ucast d + 1" by metis+
qed

lemma set_cluster_entry:
  "in_table (fat_set_cluster c v s) d = in_table s d"
  "fat_entry (fat_set_cluster c v s) d = (if d = c \<and> in_table s c then v else fat_entry s d)"
proof -
  show "in_table (fat_set_cluster c v s) d = in_table s d" by (simp add: fat_set_cluster_def in_table_def)
  show "fat_entry (fat_set_cluster c v s) d = (if d = c \<and> in_table s c then v else fat_entry s d)"
  proof (cases "d = c")
    case True
    then show ?thesis by (simp add: fat_set_cluster_def fat_entry_def ld16_st16)
  next
    case False
    then show ?thesis using table_slot [of d c]
      by (auto simp: fat_set_cluster_def fat_entry_def add.assoc intro!: ld16_cong st16_other)
  qed
qed

lemma used_free: "used_clusters (fat_set_cluster c 0 s) = used_clusters s - {c}"
  by (auto simp: used_clusters_def set_cluster_entry)

lemma free_step:
  assumes "in_chain c"
  shows "2 * card (used_clusters (fat_set_cluster c 0 s)) + (if in_chain (fat_get_next_cluster c s) then 1 else 0)
    < 2 * card (used_clusters s) + 1"
proof (cases "c \<in> used_clusters s")
  case True
  then have "card (used_clusters s - {c}) < card (used_clusters s)" by (intro card_Diff1_less) simp_all
  then show ?thesis by (simp add: used_free)
next
  case False
  then have "\<not> in_chain (fat_get_next_cluster c s)"
    by (auto simp: used_clusters_def fat_get_next_cluster_def in_chain_def)
  with False show ?thesis by (simp add: used_free)
qed

function fat_free_cluster_chain :: "u16 \<Rightarrow> fs_state \<Rightarrow> fs_state" where
  "fat_free_cluster_chain cluster s =
     (if in_chain cluster then fat_free_cluster_chain (fat_get_next_cluster cluster s) (fat_set_cluster cluster 0 s) else s)"
  by pat_completeness auto

termination
  by (relation "measure (\<lambda>(c, s). 2 * card (used_clusters s) + (if in_chain c then 1 else 0))") (use free_step in auto)

declare fat_free_cluster_chain.simps [simp del]

section \<open>Clusters on disk\<close>

definition cluster_to_lba :: "u16 \<Rightarrow> fs_state \<Rightarrow> u32" where
  "cluster_to_lba cluster s =
     (if cluster < 2 then 0
      else data_start (fat_fs s) + (ucast cluster - 2) * ucast (sectors_per_cluster (fat_fs s)))"

function read_cluster_loop :: "fat_env \<Rightarrow> u32 \<Rightarrow> u32 \<Rightarrow> u8 \<Rightarrow> u8 \<Rightarrow> fs_state \<Rightarrow> int \<times> fs_state" where
  "read_cluster_loop E lba buffer count i s =
     (if i < count then
        (let (r, s) = fs_read_sector (fat_dev E) (fs_drive (fat_fs s)) (lba + ucast i) (buffer + ucast i * 512) s in
         if r < 0 then (- 1, s) else read_cluster_loop E lba buffer count (i + 1) s)
      else (0, s))"
  by pat_completeness auto

termination
  by (relation "measure (\<lambda>(_, _, _, count, i, _). unat count - unat i)") (auto simp: loop_measure)

definition fat_read_cluster :: "fat_env \<Rightarrow> u16 \<Rightarrow> u32 \<Rightarrow> fs_state \<Rightarrow> int \<times> fs_state" where
  "fat_read_cluster E cluster buffer s =
     read_cluster_loop E (cluster_to_lba cluster s) buffer (sectors_per_cluster (fat_fs s)) 0 s"

function write_cluster_loop :: "fat_env \<Rightarrow> u32 \<Rightarrow> u32 \<Rightarrow> u8 \<Rightarrow> u8 \<Rightarrow> fs_state \<Rightarrow> int \<times> fs_state" where
  "write_cluster_loop E lba buffer count i s =
     (if i < count then
        (let (r, s) = fs_write_sector (fat_dev E) (fs_drive (fat_fs s)) (lba + ucast i) (buffer + ucast i * 512) s in
         if r < 0 then (- 1, s) else write_cluster_loop E lba buffer count (i + 1) s)
      else (0, s))"
  by pat_completeness auto

termination
  by (relation "measure (\<lambda>(_, _, _, count, i, _). unat count - unat i)") (auto simp: loop_measure)

definition fat_write_cluster :: "fat_env \<Rightarrow> u16 \<Rightarrow> u32 \<Rightarrow> fs_state \<Rightarrow> int \<times> fs_state" where
  "fat_write_cluster E cluster buffer s =
     write_cluster_loop E (cluster_to_lba cluster s) buffer (sectors_per_cluster (fat_fs s)) 0 s"

declare read_cluster_loop.simps [simp del] write_cluster_loop.simps [simp del]

section \<open>Searching a directory\<close>

text \<open>
  The loops over a directory's entries, with the test of an entry as an argument: first the sectors of the root
  directory, where a sector that cannot be read is skipped, then the clusters of any other directory, where it ends the
  search. The result names the place of the first entry that passes; the buffer then holds that sector or cluster.
\<close>

definition entry_addr :: "u32 \<Rightarrow> nat \<Rightarrow> u32" where
  "entry_addr buffer i = buffer + 32 * of_nat i"

definition first_entry :: "(fat_dir_entry \<Rightarrow> bool) \<Rightarrow> mem \<Rightarrow> u32 \<Rightarrow> nat \<Rightarrow> nat option" where
  "first_entry P m buffer count = find (\<lambda>i. P (dir_entry_at m (entry_addr buffer i))) [0..<count]"

definition root_sectors :: "fs_state \<Rightarrow> u32" where
  "root_sectors s = (ucast (root_entries (fat_fs s)) * 32 + 511) div 512"

definition entries_per_cluster :: "fs_state \<Rightarrow> nat" where
  "entries_per_cluster s = unat (sectors_per_cluster (fat_fs s)) * 512 div 32"

function root_scan :: "fat_env \<Rightarrow> (fat_dir_entry \<Rightarrow> bool) \<Rightarrow> u32 \<Rightarrow> u32 \<Rightarrow> u32 \<Rightarrow> fs_state \<Rightarrow> (u32 \<times> nat) option \<times> fs_state" where
  "root_scan E test buffer n sec s =
     (if sec < n then
        (let (r, s) = fs_read_sector (fat_dev E) (fs_drive (fat_fs s)) (root_dir_start (fat_fs s) + sec) buffer s in
         if r < 0 then root_scan E test buffer n (sec + 1) s
         else
           (case first_entry test (fmem s) buffer 16 of
              Some i \<Rightarrow> (Some (sec, i), s)
            | None \<Rightarrow> root_scan E test buffer n (sec + 1) s))
      else (None, s))"
  by pat_completeness auto

termination
  by (relation "measure (\<lambda>(_, _, _, n, sec, _). unat n - unat sec)") (auto simp: loop_measure)

declare root_scan.simps [simp del]

partial_function (option) chain_scan :: "fat_env \<Rightarrow> (fat_dir_entry \<Rightarrow> bool) \<Rightarrow> u32 \<Rightarrow> u16 \<Rightarrow> fs_state \<Rightarrow> ((u16 \<times> nat) option \<times> fs_state) option" where
  "chain_scan E test buffer cluster s =
     (if in_chain cluster then
        (let (r, s) = fat_read_cluster E cluster buffer s in
         if r < 0 then Some (None, s)
         else
           (case first_entry test (fmem s) buffer (entries_per_cluster s) of
              Some i \<Rightarrow> Some (Some (cluster, i), s)
            | None \<Rightarrow> chain_scan E test buffer (fat_get_next_cluster cluster s) s))
      else Some (None, s))"

text \<open>A valid entry with this name.\<close>

definition named :: "u8 list \<Rightarrow> fat_dir_entry \<Rightarrow> bool" where
  "named fat_name e \<longleftrightarrow> fat_is_valid_entry e \<and> de_name e = fat_name"

definition fat_find_in_dir :: "fat_env \<Rightarrow> u16 \<Rightarrow> str \<Rightarrow> fs_state \<Rightarrow> (fat_dir_entry option \<times> fs_state) option" where
  "fat_find_in_dir E dir_cluster name s =
     (let fat_name = fat_str_to_filename name; buffer = find_buffer E in
      if dir_cluster = 0 then
        (let (found, s) = root_scan E (named fat_name) buffer (root_sectors s) 0 s
         in Some (map_option (\<lambda>(sec, i). dir_entry_at (fmem s) (entry_addr buffer i)) found, s))
      else
        (case chain_scan E (named fat_name) buffer dir_cluster s of None \<Rightarrow> None
         | Some (found, s) \<Rightarrow> Some (map_option (\<lambda>(c, i). dir_entry_at (fmem s) (entry_addr buffer i)) found, s)))"

text \<open>The sector and the offset of a free entry; in a cluster the sector is the cluster's first.\<close>

definition fat_find_free_entry :: "fat_env \<Rightarrow> u16 \<Rightarrow> fs_state \<Rightarrow> ((u32 \<times> u32) option \<times> fs_state) option" where
  "fat_find_free_entry E dir_cluster s =
     (if dir_cluster = 0 then
        (let (found, s) = root_scan E entry_free (free_buffer E) (root_sectors s) 0 s
         in Some (map_option (\<lambda>(sec, i). (root_dir_start (fat_fs s) + sec, of_nat i * 32)) found, s))
      else
        (case chain_scan E entry_free (free_buffer E) dir_cluster s of None \<Rightarrow> None
         | Some (found, s) \<Rightarrow> Some (map_option (\<lambda>(c, i). (cluster_to_lba c s, of_nat i * 32)) found, s)))"

definition fat_write_dir_entry :: "fat_env \<Rightarrow> u32 \<Rightarrow> u32 \<Rightarrow> fat_dir_entry \<Rightarrow> fs_state \<Rightarrow> int \<times> fs_state" where
  "fat_write_dir_entry E sector offset e s =
     (let buffer = entry_buffer E;
          (r, s) = fs_read_sector (fat_dev E) (fs_drive (fat_fs s)) sector buffer s
      in if r < 0 then (- 1, s)
         else
           (let s = s\<lparr>fmem := put_bytes (buffer + offset) (entry_bytes e) (fmem s)\<rparr>;
                (r, s) = fs_write_sector (fat_dev E) (fs_drive (fat_fs s)) sector buffer s
            in if r < 0 then (- 1, s) else (0, s)))"

section \<open>Synchronising the table\<close>

function sync_table :: "fat_env \<Rightarrow> u32 \<Rightarrow> u32 \<Rightarrow> u32 \<Rightarrow> fs_state \<Rightarrow> bool \<times> fs_state" where
  "sync_table E fat_lba n j s =
     (if j < n then
        (let (r, s) = fs_write_sector (fat_dev E) (fs_drive (fat_fs s)) (fat_lba + j) (fat_table (fat_fs s) + j * 512) s in
         if r < 0 then (False, s) else sync_table E fat_lba n (j + 1) s)
      else (True, s))"
  by pat_completeness auto

termination
  by (relation "measure (\<lambda>(_, _, n, j, _). unat n - unat j)") (auto simp: loop_measure)

function sync_loop :: "fat_env \<Rightarrow> u8 \<Rightarrow> u8 \<Rightarrow> fs_state \<Rightarrow> bool \<times> fs_state" where
  "sync_loop E n i s =
     (if i < n then
        (let spf = ucast (sectors_per_fat (fat_fs s));
             (ok, s) = sync_table E (fat_start (fat_fs s) + ucast i * spf) spf 0 s
         in if \<not> ok then (False, s) else sync_loop E n (i + 1) s)
      else (True, s))"
  by pat_completeness auto

termination
  by (relation "measure (\<lambda>(_, n, i, _). unat n - unat i)") (auto simp: loop_measure)

declare sync_table.simps [simp del] sync_loop.simps [simp del]

definition fat_sync :: "fat_env \<Rightarrow> fs_state \<Rightarrow> int \<times> fs_state" where
  "fat_sync E s =
     (if \<not> fat_initialized s \<or> \<not> fat_dirty (fat_fs s) then (0, s)
      else
        (let (ok, s) = sync_loop E (num_fats (fat_fs s)) 0 s in
         if \<not> ok then (- 1, s) else (0, s\<lparr>fat_fs := (fat_fs s)\<lparr>fat_dirty := False\<rparr>\<rparr>)))"

section \<open>Files\<close>

definition cluster_bytes :: "fs_state \<Rightarrow> u32" where
  "cluster_bytes s = ucast (sectors_per_cluster (fat_fs s)) * 512"

text \<open>The cluster that holds an offset.\<close>

function skip_clusters :: "fs_state \<Rightarrow> u32 \<Rightarrow> u32 \<Rightarrow> u16 \<Rightarrow> u16" where
  "skip_clusters s skip i cluster =
     (if i < skip \<and> cluster < FAT_CLUSTER_EOC then skip_clusters s skip (i + 1) (fat_get_next_cluster cluster s) else cluster)"
  by pat_completeness auto

termination
  by (relation "measure (\<lambda>(_, skip, i, _). unat skip - unat i)") (auto simp: loop_measure)

declare skip_clusters.simps [simp del]

partial_function (option) read_loop :: "fat_env \<Rightarrow> u32 \<Rightarrow> u32 \<Rightarrow> u32 \<Rightarrow> u32 \<Rightarrow> u16 \<Rightarrow> fs_state \<Rightarrow> (u32 \<times> fs_state) option" where
  "read_loop E buffer sz cluster_offset bytes_read cluster s =
     (if bytes_read < sz \<and> in_chain cluster then
        (let (r, s) = fat_read_cluster E cluster (read_buffer E) s in
         if r < 0 then Some (bytes_read, s)
         else
           (let to_read = cluster_bytes s - cluster_offset;
                to_read = (if to_read > sz - bytes_read then sz - bytes_read else to_read);
                s = s\<lparr>fmem := memcpy (buffer + bytes_read) (read_buffer E + cluster_offset) to_read (fmem s)\<rparr>
            in read_loop E buffer sz 0 (bytes_read + to_read) (fat_get_next_cluster cluster s) s))
      else Some (bytes_read, s))"

definition fat_node_read :: "fat_env \<Rightarrow> u32 \<Rightarrow> u32 \<Rightarrow> u32 \<Rightarrow> u32 \<Rightarrow> fs_state \<Rightarrow> (int \<times> fs_state) option" where
  "fat_node_read E node offset sz buffer s =
     (if node = NULL \<or> n_type (nodes s node) \<noteq> VFS_FILE then Some (- 1, s)
      else
        (let data = n_impl (nodes s node) in
         if data = NULL \<or> offset \<ge> n_size (nodes s node) then Some (0, s)
         else
           (let sz = (if offset + sz > n_size (nodes s node) then n_size (nodes s node) - offset else sz);
                cluster_size = cluster_bytes s;
                cluster = fn_first_cluster (fat_nodes s data)
            in if cluster_size = 0 then None
               else
                 (case read_loop E buffer sz (offset mod cluster_size) 0 (skip_clusters s (offset div cluster_size) 0 cluster) s of
                    None \<Rightarrow> None
                  | Some (bytes_read, s) \<Rightarrow> Some (sint bytes_read, s)))))"

text \<open>Extending the chain; a full disk ends it early.\<close>

function extend_chain :: "u32 \<Rightarrow> u32 \<Rightarrow> u16 \<Rightarrow> fs_state \<Rightarrow> fs_state option" where
  "extend_chain needed current cluster s =
     (if current < needed then
        (let nxt = fat_get_next_cluster cluster s in
         if nxt \<ge> FAT_CLUSTER_EOC then
           (case fat_alloc_cluster s of None \<Rightarrow> None
            | Some (nxt, s) \<Rightarrow>
                if nxt = 0 then Some s
                else extend_chain needed (current + 1) nxt (fat_set_cluster cluster nxt s))
         else extend_chain needed (current + 1) nxt s)
      else Some s)"
  by pat_completeness auto

termination
  by (relation "measure (\<lambda>(needed, current, _, _). unat needed - unat current)") (auto simp: loop_measure)

declare extend_chain.simps [simp del]

text \<open>A cluster that is not overwritten as a whole is read first, whether or not that succeeds.\<close>

partial_function (option) write_loop :: "fat_env \<Rightarrow> u32 \<Rightarrow> u32 \<Rightarrow> u32 \<Rightarrow> u32 \<Rightarrow> u16 \<Rightarrow> fs_state \<Rightarrow> (u32 \<times> fs_state) option" where
  "write_loop E buffer sz cluster_offset bytes_written cluster s =
     (if bytes_written < sz \<and> in_chain cluster then
        (let buf = write_buffer E;
             s = (if cluster_offset > 0 \<or> sz - bytes_written < cluster_bytes s then snd (fat_read_cluster E cluster buf s) else s);
             to_write = cluster_bytes s - cluster_offset;
             to_write = (if to_write > sz - bytes_written then sz - bytes_written else to_write);
             s = s\<lparr>fmem := memcpy (buf + cluster_offset) (buffer + bytes_written) to_write (fmem s)\<rparr>;
             (r, s) = fat_write_cluster E cluster buf s
         in if r < 0 then Some (bytes_written, s)
            else write_loop E buffer sz 0 (bytes_written + to_write) (fat_get_next_cluster cluster s) s)
      else Some (bytes_written, s))"

definition dir_cluster_of :: "u32 \<Rightarrow> fs_state \<Rightarrow> u16" where
  "dir_cluster_of node s =
     (let data = n_impl (nodes s node) in if data \<noteq> NULL then fn_first_cluster (fat_nodes s data) else 0)"

definition set_entry_size :: "u32 \<Rightarrow> u32 \<Rightarrow> u16 \<Rightarrow> mem \<Rightarrow> mem" where
  "set_entry_size e sz cluster m = st16 (e + 26) cluster (st32 (e + 28) sz m)"

definition update_dir_entry :: "fat_env \<Rightarrow> u32 \<Rightarrow> u16 \<Rightarrow> fs_state \<Rightarrow> fs_state option" where
  "update_dir_entry E node first_cluster s =
     (let parent_cluster = dir_cluster_of (n_parent (nodes s node)) s;
          fat_name = fat_str_to_filename (n_name (nodes s node));
          buffer = dir_buffer E;
          upd = (\<lambda>i s. s\<lparr>fmem := set_entry_size (entry_addr buffer i) (n_size (nodes s node)) first_cluster (fmem s)\<rparr>)
      in if parent_cluster = 0 then
           (case root_scan E (named fat_name) buffer (root_sectors s) 0 s of
              (None, s) \<Rightarrow> Some s
            | (Some (sec, i), s) \<Rightarrow>
                Some (snd (fs_write_sector (fat_dev E) (fs_drive (fat_fs s)) (root_dir_start (fat_fs s) + sec) buffer (upd i s))))
         else
           (case chain_scan E (named fat_name) buffer parent_cluster s of None \<Rightarrow> None
            | Some (None, s) \<Rightarrow> Some s
            | Some (Some (c, i), s) \<Rightarrow> Some (snd (fat_write_cluster E c buffer (upd i s)))))"

definition set_first_cluster :: "u32 \<Rightarrow> u16 \<Rightarrow> fs_state \<Rightarrow> fs_state" where
  "set_first_cluster data c s = s\<lparr>fat_nodes := (fat_nodes s)(data := (fat_nodes s data)\<lparr>fn_first_cluster := c\<rparr>)\<rparr>"

text \<open>The part of \<open>fat_node_write\<close> after the first cluster is there.\<close>

definition write_at :: "fat_env \<Rightarrow> u32 \<Rightarrow> u32 \<Rightarrow> u32 \<Rightarrow> u32 \<Rightarrow> fs_state \<Rightarrow> (int \<times> fs_state) option" where
  "write_at E node offset sz buffer s =
     (let first = fn_first_cluster (fat_nodes s (n_impl (nodes s node))); cluster_size = cluster_bytes s in
      if cluster_size = 0 then None
      else
        (case extend_chain ((offset + sz + cluster_size - 1) div cluster_size) 1 first s of None \<Rightarrow> None
         | Some s \<Rightarrow>
             (case write_loop E buffer sz (offset mod cluster_size) 0 (skip_clusters s (offset div cluster_size) 0 first) s of
                None \<Rightarrow> None
              | Some (bytes_written, s) \<Rightarrow>
                  (let s = (if offset + bytes_written > n_size (nodes s node)
                            then upd_node node (\<lambda>n. n\<lparr>n_size := offset + bytes_written\<rparr>) s else s)
                   in case (if bytes_written > 0 \<and> n_parent (nodes s node) \<noteq> NULL then update_dir_entry E node first s else Some s) of
                        None \<Rightarrow> None
                      | Some s \<Rightarrow> Some (sint bytes_written, snd (fat_sync E s))))))"

definition fat_node_write :: "fat_env \<Rightarrow> u32 \<Rightarrow> u32 \<Rightarrow> u32 \<Rightarrow> u32 \<Rightarrow> fs_state \<Rightarrow> (int \<times> fs_state) option" where
  "fat_node_write E node offset sz buffer s =
     (if node = NULL \<or> n_type (nodes s node) \<noteq> VFS_FILE then Some (- 1, s)
      else
        (let data = n_impl (nodes s node) in
         if data = NULL then Some (- 1, s)
         else if fn_first_cluster (fat_nodes s data) = 0 then
           (case fat_alloc_cluster s of None \<Rightarrow> None
            | Some (c, s) \<Rightarrow>
                (let s = set_first_cluster data c s in
                 if c = 0 then Some (- 1, s) else write_at E node offset sz buffer s))
         else write_at E node offset sz buffer s))"

section \<open>Directories\<close>

text \<open>The name of an entry as a string ends at its first zero byte.\<close>

definition entry_name :: "fat_dir_entry \<Rightarrow> str" where
  "entry_name e = takeWhile (\<lambda>c. c \<noteq> 0) (fat_filename_to_str (de_name e))"

definition entry_type :: "fat_dir_entry \<Rightarrow> vfs_node_type" where
  "entry_type e = (if de_attributes e AND 0x10 \<noteq> 0 then VFS_DIRECTORY else VFS_FILE)"

definition entry_dirent :: "fat_dir_entry \<Rightarrow> dirent" where
  "entry_dirent e = \<lparr>d_name = entry_name e, d_inode = ucast (de_first_cluster e), d_type = entry_type e\<rparr>"

text \<open>The valid entries of a buffer, in order; \<open>readdir\<close> counts through them.\<close>

definition valid_entries :: "mem \<Rightarrow> u32 \<Rightarrow> nat \<Rightarrow> fat_dir_entry list" where
  "valid_entries m buffer count = filter fat_is_valid_entry (map (\<lambda>i. dir_entry_at m (entry_addr buffer i)) [0..<count])"

function readdir_root :: "fat_env \<Rightarrow> u32 \<Rightarrow> nat \<Rightarrow> u32 \<Rightarrow> fs_state \<Rightarrow> dirent option \<times> fs_state" where
  "readdir_root E n k sec s =
     (if sec < n then
        (let (r, s) = fs_read_sector (fat_dev E) (fs_drive (fat_fs s)) (root_dir_start (fat_fs s) + sec) (readdir_buffer E) s in
         if r < 0 then readdir_root E n k (sec + 1) s
         else
           (let es = valid_entries (fmem s) (readdir_buffer E) 16 in
            if k < length es then (Some (entry_dirent (es ! k)), s) else readdir_root E n (k - length es) (sec + 1) s))
      else (None, s))"
  by pat_completeness auto

termination
  by (relation "measure (\<lambda>(_, n, _, sec, _). unat n - unat sec)") (auto simp: loop_measure)

declare readdir_root.simps [simp del]

partial_function (option) readdir_chain :: "fat_env \<Rightarrow> nat \<Rightarrow> u16 \<Rightarrow> fs_state \<Rightarrow> (dirent option \<times> fs_state) option" where
  "readdir_chain E k cluster s =
     (if in_chain cluster then
        (let (r, s) = fat_read_cluster E cluster (readdir_buffer E) s in
         if r < 0 then Some (None, s)
         else
           (let es = valid_entries (fmem s) (readdir_buffer E) (entries_per_cluster s) in
            if k < length es then Some (Some (entry_dirent (es ! k)), s)
            else readdir_chain E (k - length es) (fat_get_next_cluster cluster s) s))
      else Some (None, s))"

definition fat_node_readdir :: "fat_env \<Rightarrow> u32 \<Rightarrow> u32 \<Rightarrow> fs_state \<Rightarrow> (dirent option \<times> fs_state) option" where
  "fat_node_readdir E node index s =
     (if node = NULL \<or> n_type (nodes s node) \<noteq> VFS_DIRECTORY then Some (None, s)
      else
        (let cluster = dir_cluster_of node s in
         if cluster = 0 then Some (readdir_root E (root_sectors s) (unat index) 0 s)
         else readdir_chain E (unat index) cluster s))"

text \<open>The last part of \<open>finddir\<close>, \<open>create\<close> and \<open>mkdir\<close>: a node and its data on the heap.\<close>

definition new_fat_node :: "str \<Rightarrow> vfs_node_type \<Rightarrow> u32 \<Rightarrow> u32 \<Rightarrow> u16 \<Rightarrow> fs_state \<Rightarrow> (u32 \<times> fs_state) option" where
  "new_fat_node name ty sz parent cluster s =
     (case fs_kmalloc 308 s of None \<Rightarrow> None
      | Some (child, s) \<Rightarrow>
          if child = NULL then Some (NULL, s)
          else
            (let s = upd_node child (\<lambda>_. zero_node\<lparr>n_name := name, n_type := ty, n_size := sz, n_ops := FAT_OPS, n_parent := parent\<rparr>) s in
             case fs_kmalloc 12 s of None \<Rightarrow> None
             | Some (data, s) \<Rightarrow>
                 if data = NULL then map_option (\<lambda>s. (NULL, s)) (fs_kfree child s)
                 else Some (child, upd_node child (\<lambda>n. n\<lparr>n_impl := data\<rparr>) (set_first_cluster data cluster s))))"

definition fat_node_finddir :: "fat_env \<Rightarrow> u32 \<Rightarrow> str \<Rightarrow> fs_state \<Rightarrow> (u32 \<times> fs_state) option" where
  "fat_node_finddir E node name s =
     (if node = NULL \<or> n_type (nodes s node) \<noteq> VFS_DIRECTORY then Some (NULL, s)
      else
        (case fat_find_in_dir E (dir_cluster_of node s) name s of None \<Rightarrow> None
         | Some (None, s) \<Rightarrow> Some (NULL, s)
         | Some (Some e, s) \<Rightarrow> new_fat_node (entry_name e) (entry_type e) (de_file_size e) node (de_first_cluster e) s))"

definition fat_node_create :: "fat_env \<Rightarrow> u32 \<Rightarrow> str \<Rightarrow> u32 \<Rightarrow> fs_state \<Rightarrow> (u32 \<times> fs_state) option" where
  "fat_node_create E parent name mode s =
     (if parent = NULL \<or> n_type (nodes s parent) \<noteq> VFS_DIRECTORY then Some (NULL, s)
      else
        (let parent_cluster = dir_cluster_of parent s in
         case fat_find_in_dir E parent_cluster name s of None \<Rightarrow> None
         | Some (Some _, s) \<Rightarrow> Some (NULL, s)
         | Some (None, s) \<Rightarrow>
             (case fat_find_free_entry E parent_cluster s of None \<Rightarrow> None
              | Some (None, s) \<Rightarrow> Some (NULL, s)
              | Some (Some (entry_sector, entry_offset), s) \<Rightarrow>
                  (case fat_alloc_cluster s of None \<Rightarrow> None
                   | Some (first_cluster, s) \<Rightarrow>
                       if first_cluster = 0 then Some (NULL, s)
                       else
                         (let e = \<lparr>de_name = fat_str_to_filename name, de_attributes = 0, de_first_cluster = first_cluster, de_file_size = 0\<rparr>;
                              (r, s) = fat_write_dir_entry E entry_sector entry_offset e s
                          in if r < 0 then Some (NULL, fat_free_cluster_chain first_cluster s)
                             else new_fat_node (take 255 name) VFS_FILE 0 parent first_cluster (snd (fat_sync E s)))))))"

text \<open>The entries \<open>.\<close> and \<open>..\<close> of a new directory.\<close>

definition dot_entry :: "u8 list \<Rightarrow> u16 \<Rightarrow> fat_dir_entry" where
  "dot_entry name cluster = \<lparr>de_name = name, de_attributes = 0x10, de_first_cluster = cluster, de_file_size = 0\<rparr>"

definition init_dir_cluster :: "u32 \<Rightarrow> u16 \<Rightarrow> u16 \<Rightarrow> fs_state \<Rightarrow> fs_state" where
  "init_dir_cluster buf dir_cluster parent_cluster s =
     (let m = memset buf 0 (cluster_bytes s) (fmem s);
          m = put_bytes buf (entry_bytes (dot_entry (DOT # replicate 10 32) dir_cluster)) m;
          m = put_bytes (buf + 32) (entry_bytes (dot_entry (DOT # DOT # replicate 9 32) parent_cluster)) m
      in s\<lparr>fmem := m\<rparr>)"

definition fat_node_mkdir :: "fat_env \<Rightarrow> u32 \<Rightarrow> str \<Rightarrow> u32 \<Rightarrow> fs_state \<Rightarrow> (u32 \<times> fs_state) option" where
  "fat_node_mkdir E parent name mode s =
     (if parent = NULL \<or> n_type (nodes s parent) \<noteq> VFS_DIRECTORY then Some (NULL, s)
      else
        (let parent_cluster = dir_cluster_of parent s in
         case fat_find_in_dir E parent_cluster name s of None \<Rightarrow> None
         | Some (Some _, s) \<Rightarrow> Some (NULL, s)
         | Some (None, s) \<Rightarrow>
             (case fat_find_free_entry E parent_cluster s of None \<Rightarrow> None
              | Some (None, s) \<Rightarrow> Some (NULL, s)
              | Some (Some (entry_sector, entry_offset), s) \<Rightarrow>
                  (case fat_alloc_cluster s of None \<Rightarrow> None
                   | Some (dir_cluster, s) \<Rightarrow>
                       if dir_cluster = 0 then Some (NULL, s)
                       else
                         (let (r, s) = fat_write_cluster E dir_cluster (cluster_buffer E)
                                         (init_dir_cluster (cluster_buffer E) dir_cluster parent_cluster s)
                          in if r < 0 then Some (NULL, fat_free_cluster_chain dir_cluster s)
                             else
                               (let e = \<lparr>de_name = fat_str_to_filename name, de_attributes = 0x10, de_first_cluster = dir_cluster, de_file_size = 0\<rparr>;
                                    (r, s) = fat_write_dir_entry E entry_sector entry_offset e s
                                in if r < 0 then Some (NULL, fat_free_cluster_chain dir_cluster s)
                                   else new_fat_node (take 255 name) VFS_DIRECTORY 0 parent dir_cluster (snd (fat_sync E s))))))))"

text \<open>After an entry was marked as deleted and written back: free its chain.\<close>

definition unlink_finish :: "fat_env \<Rightarrow> u16 \<Rightarrow> int \<times> fs_state \<Rightarrow> int \<times> fs_state" where
  "unlink_finish E first_cluster rs =
     (let (r, s) = rs in
      if r < 0 then (- 1, s) else (0, snd (fat_sync E (fat_free_cluster_chain first_cluster s))))"

definition fat_node_unlink :: "fat_env \<Rightarrow> u32 \<Rightarrow> str \<Rightarrow> fs_state \<Rightarrow> (int \<times> fs_state) option" where
  "fat_node_unlink E parent name s =
     (if parent = NULL \<or> n_type (nodes s parent) \<noteq> VFS_DIRECTORY then Some (- 1, s)
      else
        (let parent_cluster = dir_cluster_of parent s;
             fat_name = fat_str_to_filename name;
             buffer = unlink_buffer E;
             cl = (\<lambda>i s. de_first_cluster (dir_entry_at (fmem s) (entry_addr buffer i)));
             mark = (\<lambda>i s. s\<lparr>fmem := (fmem s)(entry_addr buffer i := 0xE5)\<rparr>)
         in if parent_cluster = 0 then
              (case root_scan E (named fat_name) buffer (root_sectors s) 0 s of
                 (None, s) \<Rightarrow> Some (- 1, s)
               | (Some (sec, i), s) \<Rightarrow>
                   Some (unlink_finish E (cl i s)
                     (fs_write_sector (fat_dev E) (fs_drive (fat_fs s)) (root_dir_start (fat_fs s) + sec) buffer (mark i s))))
            else
              (case chain_scan E (named fat_name) buffer parent_cluster s of None \<Rightarrow> None
               | Some (None, s) \<Rightarrow> Some (- 1, s)
               | Some (Some (c, i), s) \<Rightarrow> Some (unlink_finish E (cl i s) (fat_write_cluster E c buffer (mark i s))))))"

definition fat_node_rmdir :: "fat_env \<Rightarrow> u32 \<Rightarrow> str \<Rightarrow> fs_state \<Rightarrow> (int \<times> fs_state) option" where
  "fat_node_rmdir E parent name s = fat_node_unlink E parent name s"

definition fat_ops :: "fat_env \<Rightarrow> vfs_operations" where
  "fat_ops E = \<lparr>op_open = None, op_close = None, op_read = Some (fat_node_read E), op_write = Some (fat_node_write E),
     op_readdir = Some (fat_node_readdir E), op_finddir = Some (fat_node_finddir E), op_create = Some (fat_node_create E),
     op_unlink = Some (fat_node_unlink E), op_mkdir = Some (fat_node_mkdir E), op_rmdir = Some (fat_node_rmdir E)\<rparr>"

section \<open>Mounting\<close>

text \<open>The fields of the boot sector at \<open>b\<close>; \<open>None\<close> when the number of sectors per cluster, the divisor, is 0.\<close>

definition boot_fields :: "mem \<Rightarrow> u32 \<Rightarrow> u8 \<Rightarrow> u32 \<Rightarrow> fat_fs_t option" where
  "boot_fields m b drive start =
     (let f = zero_fat_fs\<lparr>fs_drive := drive, partition_start := start, bytes_per_sector := ld16 m (b + 11),
                sectors_per_cluster := m (b + 13), reserved_sectors := ld16 m (b + 14), num_fats := m (b + 16),
                root_entries := ld16 m (b + 17), sectors_per_fat := ld16 m (b + 22),
                total_sectors := (if ld16 m (b + 19) \<noteq> 0 then ucast (ld16 m (b + 19)) else ld32 m (b + 32))\<rparr>;
          f = f\<lparr>fat_start := start + ucast (reserved_sectors f)\<rparr>;
          f = f\<lparr>root_dir_start := fat_start f + ucast (num_fats f) * ucast (sectors_per_fat f)\<rparr>;
          f = f\<lparr>data_start := root_dir_start f + (ucast (root_entries f) * 32 + 511) div 512\<rparr>
      in if sectors_per_cluster f = 0 then None
         else Some (f\<lparr>total_clusters := (total_sectors f - (data_start f - start)) div ucast (sectors_per_cluster f)\<rparr>))"

function load_table :: "fat_env \<Rightarrow> u8 \<Rightarrow> u32 \<Rightarrow> u32 \<Rightarrow> fs_state \<Rightarrow> bool \<times> fs_state" where
  "load_table E drive n i s =
     (if i < n then
        (let (r, s) = fs_read_sector (fat_dev E) drive (fat_start (fat_fs s) + i) (fat_table (fat_fs s) + i * 512) s in
         if r < 0 then (False, s) else load_table E drive n (i + 1) s)
      else (True, s))"
  by pat_completeness auto

termination
  by (relation "measure (\<lambda>(_, _, n, i, _). unat n - unat i)") (auto simp: loop_measure)

declare load_table.simps [simp del]

definition mount_root :: "fs_state \<Rightarrow> (u32 \<times> fs_state) option" where
  "mount_root s =
     (case fs_kmalloc 308 s of None \<Rightarrow> None
      | Some (root, s) \<Rightarrow>
          if root = NULL then map_option (\<lambda>s. (NULL, s)) (fs_kfree (fat_table (fat_fs s)) s)
          else
            (let s = upd_node root (\<lambda>_. zero_node\<lparr>n_type := VFS_DIRECTORY, n_ops := FAT_OPS\<rparr>) s in
             case fs_kmalloc 12 s of None \<Rightarrow> None
             | Some (root_data, s) \<Rightarrow>
                 if root_data = NULL then
                   (case fs_kfree root s of None \<Rightarrow> None
                    | Some s \<Rightarrow> map_option (\<lambda>s. (NULL, s)) (fs_kfree (fat_table (fat_fs s)) s))
                 else Some (root, upd_node root (\<lambda>n. n\<lparr>n_impl := root_data\<rparr>) (set_first_cluster root_data 0 s))))"

definition fat_mount :: "fat_env \<Rightarrow> u8 \<Rightarrow> u32 \<Rightarrow> fs_state \<Rightarrow> (u32 \<times> fs_state) option" where
  "fat_mount E drive start s =
     (case fs_kmalloc 512 s of None \<Rightarrow> None
      | Some (boot, s) \<Rightarrow>
          if boot = NULL then Some (NULL, s)
          else
            (let (r, s) = fs_read_sector (fat_dev E) drive start boot s in
             if r < 0 \<or> ld16 (fmem s) (boot + 510) \<noteq> 0xAA55 then map_option (\<lambda>s. (NULL, s)) (fs_kfree boot s)
             else
               (case boot_fields (fmem s) boot drive start of None \<Rightarrow> None
                | Some f \<Rightarrow>
                    (case fs_kfree boot (s\<lparr>fat_fs := f\<rparr>) of None \<Rightarrow> None
                     | Some s \<Rightarrow>
                         (case fs_kmalloc (ucast (sectors_per_fat f) * 512) s of None \<Rightarrow> None
                          | Some (table, s) \<Rightarrow>
                              (let s = s\<lparr>fat_fs := (fat_fs s)\<lparr>fat_table := table\<rparr>\<rparr> in
                               if table = NULL then Some (NULL, s)
                               else
                                 (let (ok, s) = load_table E drive (ucast (sectors_per_fat f)) 0 s in
                                  if \<not> ok then map_option (\<lambda>s. (NULL, s)) (fs_kfree table s)
                                  else mount_root (s\<lparr>fat_fs := (fat_fs s)\<lparr>fat_dirty := False\<rparr>, fat_initialized := True\<rparr>))))))))"

definition fat_unmount :: "fat_env \<Rightarrow> fs_state \<Rightarrow> fs_state option" where
  "fat_unmount E s =
     (if \<not> fat_initialized s then Some s
      else
        (let s = snd (fat_sync E s) in
         case (if fat_table (fat_fs s) \<noteq> NULL then fs_kfree (fat_table (fat_fs s)) s else Some s) of
           None \<Rightarrow> None
         | Some s \<Rightarrow> Some (s\<lparr>fat_initialized := False\<rparr>)))"

section \<open>Names\<close>

text \<open>Names of eight and three characters: no space, dot or zero, and not empty on either side of the dot.\<close>

definition name_char :: "u8 \<Rightarrow> bool" where
  "name_char c \<longleftrightarrow> c \<noteq> 32 \<and> c \<noteq> DOT \<and> c \<noteq> 0"

definition short_name :: "str \<Rightarrow> str \<Rightarrow> bool" where
  "short_name b e \<longleftrightarrow> b \<noteq> [] \<and> length b \<le> 8 \<and> length e \<le> 3 \<and> list_all name_char (b @ e)"

definition join_name :: "str \<Rightarrow> str \<Rightarrow> str" where
  "join_name b e = (if e = [] then b else b @ DOT # e)"

lemma upcase_keeps: "name_char c \<Longrightarrow> upcase c \<noteq> 32 \<and> upcase c \<noteq> 0"
  by (auto simp: upcase_def name_char_def diff_eq_eq)

lemma length_pad_field [simp]: "length (pad_field n cs) = n"
  by (simp add: pad_field_def)

lemma unpad_field:
  assumes "list_all name_char cs" "length cs \<le> n"
  shows "takeWhile (\<lambda>c. c \<noteq> 32) (pad_field n cs) = map upcase cs"
proof -
  have "takeWhile (\<lambda>c. c \<noteq> 32) (map upcase cs @ replicate (n - length cs) 32) = map upcase cs"
    using assms(1) by (subst takeWhile_append2) (auto simp: list_all_iff dest: upcase_keeps)
  then show ?thesis using assms(2) by (simp add: pad_field_def)
qed

lemma str_to_filename_join:
  assumes "short_name b e"
  shows "fat_str_to_filename (join_name b e) = pad_field 8 b @ pad_field 3 e"
proof -
  have "takeWhile (\<lambda>c. c \<noteq> DOT) (b @ DOT # e) = b" "dropWhile (\<lambda>c. c \<noteq> DOT) (b @ DOT # e) = DOT # e"
    "takeWhile (\<lambda>c. c \<noteq> DOT) b = b" "DOT \<notin> set b"
    using assms by (auto simp: short_name_def list_all_iff name_char_def takeWhile_eq_all_conv dropWhile_append takeWhile_append)
  then show ?thesis by (auto simp: fat_str_to_filename_def join_name_def Let_def simp del: takeWhile_eq_all_conv)
qed

lemma filename_roundtrip:
  assumes "short_name b e"
  shows "fat_filename_to_str (fat_str_to_filename (join_name b e)) = map upcase (join_name b e)"
proof -
  have le: "length b \<le> 8" "length e \<le> 3" and c: "list_all name_char b" "list_all name_char e"
    using assms by (auto simp: short_name_def)
  have "pad_field 3 e ! 0 \<noteq> 32 \<longleftrightarrow> e \<noteq> []"
    using c(2) by (cases e) (auto simp: pad_field_def dest: upcase_keeps)
  moreover have "upcase DOT = DOT" by (simp add: upcase_def)
  ultimately show ?thesis
    unfolding str_to_filename_join [OF assms] fat_filename_to_str_def
    using unpad_field [OF c(1) le(1)] unpad_field [OF c(2) le(2)] by (auto simp: nth_append join_name_def)
qed

section \<open>Chains\<close>

text \<open>The clusters of a chain; it ends at a value that is no cluster.\<close>

fun fat_chain :: "fs_state \<Rightarrow> u16 \<Rightarrow> u16 list \<Rightarrow> bool" where
  "fat_chain s c [] \<longleftrightarrow> \<not> in_chain c"
| "fat_chain s c (d # ds) \<longleftrightarrow> d = c \<and> in_chain c \<and> in_table s c \<and> fat_chain s (fat_entry s c) ds"

lemma fat_chain_unique: "fat_chain s c cs \<Longrightarrow> fat_chain s c ds \<Longrightarrow> cs = ds"
proof (induction cs arbitrary: c ds)
  case Nil
  then show ?case by (cases ds) auto
next
  case (Cons x cs)
  then show ?case by (cases ds) auto
qed

lemma fat_chain_suffix: "fat_chain s c (xs @ d # ys) \<Longrightarrow> fat_chain s d (d # ys)"
  by (induction xs arbitrary: c) auto

lemma fat_chain_distinct: "fat_chain s c cs \<Longrightarrow> distinct cs"
proof (rule ccontr)
  assume ch: "fat_chain s c cs" and "\<not> distinct cs"
  then obtain xs ys zs d where "cs = xs @ [d] @ ys @ [d] @ zs" using not_distinct_decomp by blast
  then have "fat_chain s d (d # ys @ d # zs)" "fat_chain s d (d # zs)"
    using fat_chain_suffix [of s c xs d "ys @ d # zs"] fat_chain_suffix [of s c "xs @ d # ys" d zs] ch by auto
  then have "d # ys @ d # zs = d # zs" by (rule fat_chain_unique)
  then show False using arg_cong [of "d # ys @ d # zs" "d # zs" length] by simp
qed

lemma fat_chain_cong:
  "(\<And>d. d \<in> set cs \<Longrightarrow> fat_entry s' d = fat_entry s d) \<Longrightarrow> (\<And>d. in_table s' d = in_table s d) \<Longrightarrow>
     fat_chain s' c cs = fat_chain s c cs"
  by (induction cs arbitrary: c) auto

lemma fat_chain_set: "fat_chain s c cs \<Longrightarrow> d \<in> set cs \<Longrightarrow> in_chain d \<and> in_table s d"
  by (induction cs arbitrary: c) auto

lemma free_chain_entry:
  "fat_chain s c cs \<Longrightarrow> fat_entry (fat_free_cluster_chain c s) d = (if d \<in> set cs then 0 else fat_entry s d) \<and>
     in_table (fat_free_cluster_chain c s) d = in_table s d"
proof (induction cs arbitrary: c s)
  case Nil
  then show ?case by (subst (1 2) fat_free_cluster_chain.simps) simp
next
  case (Cons x cs)
  let ?s = "fat_set_cluster c 0 s"
  have c: "x = c" "in_chain c" "in_table s c" "fat_chain s (fat_entry s c) cs" "c \<notin> set cs"
    using Cons.prems fat_chain_distinct [OF Cons.prems] by auto
  have "fat_chain ?s (fat_entry s c) cs"
    using c(4) by (rule fat_chain_cong [THEN iffD1, rotated -1]) (use c(5) in \<open>auto simp: set_cluster_entry\<close>)
  from Cons.IH [OF this] have "fat_entry (fat_free_cluster_chain (fat_entry s c) ?s) d = (if d \<in> set cs then 0 else fat_entry ?s d)"
    "in_table (fat_free_cluster_chain (fat_entry s c) ?s) d = in_table ?s d" by auto
  moreover have "fat_free_cluster_chain c s = fat_free_cluster_chain (fat_entry s c) ?s"
    using c(2,3) by (subst fat_free_cluster_chain.simps) (simp add: fat_get_next_cluster_def)
  ultimately show ?case using c(1,3) by (auto simp: set_cluster_entry)
qed

section \<open>Allocation\<close>

text \<open>A table whose clusters are all numbered below \<open>0xFFFF\<close>.\<close>

definition small_table :: "fs_state \<Rightarrow> bool" where
  "small_table s \<longleftrightarrow> unat (total_clusters (fat_fs s)) + 2 \<le> 65535"

lemma in_table_small: "small_table s \<Longrightarrow> in_table s c \<longleftrightarrow> unat c < unat (total_clusters (fat_fs s)) + 2"
  by (simp add: small_table_def in_table_def word_le_nat_alt unat_word_ariths not_le)

lemma alloc_loop_small:
  assumes "small_table s"
  shows "(\<exists>c. alloc_loop s i = Some (Some c) \<and> i \<le> c \<and> in_table s c \<and> fat_entry s c = 0 \<and>
       (\<forall>d. i \<le> d \<and> d < c \<longrightarrow> fat_entry s d \<noteq> 0)) \<or>
    alloc_loop s i = Some None \<and> (\<forall>d. i \<le> d \<and> in_table s d \<longrightarrow> fat_entry s d \<noteq> 0)"
proof (induction "65535 - unat i" arbitrary: i rule: less_induct)
  case less
  show ?case
  proof (cases "in_table s i")
    case False
    then have "\<not> in_table s d" if "i \<le> d" for d
      using that in_table_small [OF assms] by (auto simp: word_le_nat_alt)
    then show ?thesis using False by (subst (1 2) alloc_loop.simps) auto
  next
    case True
    then have lt: "unat i < 65535" using in_table_small [OF assms] assms by (auto simp: small_table_def)
    then have u: "unat (i + 1) = unat i + 1" by (simp add: unat_word_ariths)
    have le: "i \<le> d \<longleftrightarrow> d = i \<or> i + 1 \<le> d" for d using u by (auto simp: word_le_nat_alt word_unat_eq_iff)
    show ?thesis
    proof (cases "fat_entry s i = 0")
      case e: True
      then have "alloc_loop s i = Some (Some i)" using True by (subst alloc_loop.simps) simp
      then show ?thesis using True e by auto
    next
      case e: False
      have "alloc_loop s i = alloc_loop s (i + 1)" using True e by (subst alloc_loop.simps) simp
      moreover have "65535 - unat (i + 1) < 65535 - unat i" using u lt by linarith
      note less [OF this]
      ultimately show ?thesis using e le by (metis (no_types, lifting))
    qed
  qed
qed

text \<open>When every 16-bit number is a cluster and none is free, the search does not end.\<close>

lemma alloc_loop_diverges:
  assumes "\<And>c. in_table s c" "\<And>c. fat_entry s c \<noteq> 0"
  shows "alloc_loop s i = None"
proof -
  have "alloc_loop t i = Some r \<Longrightarrow> \<not> ((\<forall>c. in_table t c) \<and> (\<forall>c. fat_entry t c \<noteq> 0))" for t i r
    by (erule alloc_loop.raw_induct [rotated]) (auto split: if_splits)
  then show ?thesis using assms by (metis option.exhaust)
qed

section \<open>The descriptor table\<close>

text \<open>No operation of the file system touches the descriptor table.\<close>

lemma sector_fds [simp]:
  "fd_table (snd (fs_read_sector dev d l b s)) = fd_table s" "fd_table (snd (fs_write_sector dev d l b s)) = fd_table s"
  by (simp_all add: fs_read_sector_def fs_write_sector_def split: prod.splits)

lemma sector_fdsD:
  "fs_read_sector dev d l b s = (r, s') \<Longrightarrow> fd_table s' = fd_table s"
  "fs_write_sector dev d l b s = (r, s') \<Longrightarrow> fd_table s' = fd_table s"
  using sector_fds by (metis snd_conv)+

lemma set_cluster_fds [simp]: "fd_table (fat_set_cluster c v s) = fd_table s"
  by (simp add: fat_set_cluster_def)

lemma free_chain_fds [simp]: "fd_table (fat_free_cluster_chain c s) = fd_table s"
  by (induction c s rule: fat_free_cluster_chain.induct) (subst fat_free_cluster_chain.simps, simp)

lemma alloc_fds: "fat_alloc_cluster s = Some (c, s') \<Longrightarrow> fd_table s' = fd_table s"
  by (auto simp: fat_alloc_cluster_def split: option.splits)

lemma read_cluster_loop_fds [simp]: "fd_table (snd (read_cluster_loop E l b n i s)) = fd_table s"
  by (induction E l b n i s rule: read_cluster_loop.induct)
    (subst read_cluster_loop.simps, auto simp: Let_def split: prod.splits dest: sector_fdsD)

lemma write_cluster_loop_fds [simp]: "fd_table (snd (write_cluster_loop E l b n i s)) = fd_table s"
  by (induction E l b n i s rule: write_cluster_loop.induct)
    (subst write_cluster_loop.simps, auto simp: Let_def split: prod.splits dest: sector_fdsD)

lemma cluster_fds [simp]:
  "fd_table (snd (fat_read_cluster E c b s)) = fd_table s" "fd_table (snd (fat_write_cluster E c b s)) = fd_table s"
  by (simp_all add: fat_read_cluster_def fat_write_cluster_def)

lemma cluster_fdsD:
  "fat_read_cluster E c b s = (r, s') \<Longrightarrow> fd_table s' = fd_table s" "fat_write_cluster E c b s = (r, s') \<Longrightarrow> fd_table s' = fd_table s"
  using cluster_fds by (metis snd_conv)+

lemma root_scan_fds [simp]: "fd_table (snd (root_scan E P b n sec s)) = fd_table s"
  by (induction E P b n sec s rule: root_scan.induct)
    (subst root_scan.simps, auto simp: Let_def split: prod.splits option.splits dest: sector_fdsD)

lemma root_scan_fdsD: "root_scan E P b n sec s = (r, s') \<Longrightarrow> fd_table s' = fd_table s"
  using root_scan_fds by (metis snd_conv)

lemma chain_scan_fds: "chain_scan E P b c s = Some r \<Longrightarrow> fd_table (snd r) = fd_table s"
  by (erule chain_scan.raw_induct [rotated, where P = "\<lambda>E Q b c s r. fd_table (snd r) = fd_table s"])
    (auto simp: Let_def split: if_splits prod.splits option.splits dest!: cluster_fdsD)

lemma sync_fds [simp]: "fd_table (snd (fat_sync E s)) = fd_table s"
proof -
  have t: "fd_table (snd (sync_table E l n j s)) = fd_table s" for l n j s
    by (induction E l n j s rule: sync_table.induct)
      (subst sync_table.simps, auto simp: Let_def split: prod.splits dest: sector_fdsD)
  then have "sync_table E l n j s = (ok, s') \<Longrightarrow> fd_table s' = fd_table s" for l n j s ok s' by (metis snd_conv)
  then have "fd_table (snd (sync_loop E n i s)) = fd_table s" for n i s
    by (induction E n i s rule: sync_loop.induct) (subst sync_loop.simps, auto simp: Let_def split: prod.splits)
  then show ?thesis by (simp add: fat_sync_def Let_def split: prod.splits) (metis snd_conv)
qed

lemma read_loop_fds: "read_loop E b n o' k c s = Some r \<Longrightarrow> fd_table (snd r) = fd_table s"
  by (erule read_loop.raw_induct [rotated, where P = "\<lambda>E b n o' k c s r. fd_table (snd r) = fd_table s"])
    (auto simp: Let_def split: if_splits prod.splits dest!: cluster_fdsD)

lemma write_loop_fds: "write_loop E b n o' k c s = Some r \<Longrightarrow> fd_table (snd r) = fd_table s"
  by (erule write_loop.raw_induct [rotated, where P = "\<lambda>E b n o' k c s r. fd_table (snd r) = fd_table s"])
    (auto simp: Let_def split: if_splits prod.splits dest!: cluster_fdsD)

lemma extend_fds: "extend_chain n k c s = Some s' \<Longrightarrow> fd_table s' = fd_table s"
proof (induction n k c s rule: extend_chain.induct)
  case (1 n k c s)
  let ?nx = "fat_get_next_cluster c s"
  show ?case
  proof (cases "k < n \<and> ?nx \<ge> FAT_CLUSTER_EOC")
    case True
    then obtain d s1 where a: "fat_alloc_cluster s = Some (d, s1)" using 1(3) by (subst (asm) extend_chain.simps) (auto simp: Let_def split: option.splits)
    show ?thesis
      using 1(1) [of ?nx "(d, s1)" d s1] 1(3) True a alloc_fds [OF a] by (subst (asm) (2) extend_chain.simps) (simp add: Let_def split: if_splits)
  next
    case False
    then show ?thesis using 1(2) [of ?nx] 1(3) by (subst (asm) (2) extend_chain.simps) (auto simp: Let_def split: if_splits)
  qed
qed

lemma write_dir_entry_fds [simp]: "fd_table (snd (fat_write_dir_entry E sec o' e s)) = fd_table s"
  by (auto simp: fat_write_dir_entry_def Let_def split: prod.splits dest!: sector_fdsD)

lemma find_fds: "fat_find_in_dir E c nm s = Some (r, s') \<Longrightarrow> fd_table s' = fd_table s"
  by (auto simp: fat_find_in_dir_def Let_def split: if_splits prod.splits option.splits dest!: root_scan_fdsD chain_scan_fds)

lemma find_free_fds: "fat_find_free_entry E c s = Some (r, s') \<Longrightarrow> fd_table s' = fd_table s"
  by (auto simp: fat_find_free_entry_def Let_def split: if_splits prod.splits option.splits dest!: root_scan_fdsD chain_scan_fds)

lemma update_entry_fds: "update_dir_entry E n c s = Some s' \<Longrightarrow> fd_table s' = fd_table s"
  by (auto simp: update_dir_entry_def Let_def split: if_splits prod.splits option.splits dest!: root_scan_fdsD chain_scan_fds)

lemma kmalloc_fds: "fs_kmalloc n s = Some (p, s') \<Longrightarrow> fd_table s' = fd_table s" "fs_kfree p s = Some s' \<Longrightarrow> fd_table s' = fd_table s"
  by (auto simp: fs_kmalloc_def fs_kfree_def split: option.splits)

lemma node_fds [simp]: "fd_table (upd_node n f s) = fd_table s" "fd_table (set_first_cluster d c s) = fd_table s"
  by (simp_all add: upd_node_def set_first_cluster_def)

lemma new_node_fds: "new_fat_node nm ty sz par c s = Some (r, s') \<Longrightarrow> fd_table s' = fd_table s"
  by (auto simp: new_fat_node_def Let_def split: option.splits prod.splits if_splits dest!: kmalloc_fds)

lemma write_at_fds: "write_at E n off sz buf s = Some (r, s') \<Longrightarrow> fd_table s' = fd_table s"
  by (auto simp: write_at_def Let_def split: option.splits prod.splits if_splits
      dest!: extend_fds write_loop_fds update_entry_fds)

lemma fat_keeps:
  "keeps_fds (fat_node_read E n off sz buf)" "keeps_fds (fat_node_write E n off sz buf)" "keeps_fds (fat_node_readdir E n idx)"
  "keeps_fds (fat_node_finddir E n nm)" "keeps_fds (fat_node_create E n nm mode)" "keeps_fds (fat_node_unlink E n nm)"
  "keeps_fds (fat_node_mkdir E n nm mode)" "keeps_fds (fat_node_rmdir E n nm)"
proof -
  show "keeps_fds (fat_node_read E n off sz buf)"
    by (auto simp: fat_node_read_def Let_def intro!: keeps_fdsI split: option.splits prod.splits if_splits dest!: read_loop_fds)
  show "keeps_fds (fat_node_write E n off sz buf)"
    by (auto simp: fat_node_write_def Let_def intro!: keeps_fdsI split: option.splits prod.splits if_splits dest!: alloc_fds write_at_fds)
  have root: "fd_table (snd (readdir_root E k i sec s)) = fd_table s" for k i sec s
    by (induction E k i sec s rule: readdir_root.induct)
      (subst readdir_root.simps, auto simp: Let_def split: prod.splits dest: sector_fdsD)
  have chain: "readdir_chain E i c s = Some r \<Longrightarrow> fd_table (snd r) = fd_table s" for i c s r
    by (erule readdir_chain.raw_induct [rotated, where P = "\<lambda>E i c s r. fd_table (snd r) = fd_table s"])
      (auto simp: Let_def split: if_splits prod.splits dest!: cluster_fdsD)
  show "keeps_fds (fat_node_readdir E n idx)"
  proof (rule keeps_fdsI)
    fix s r s' assume "fat_node_readdir E n idx s = Some (r, s')"
    then show "fd_table s' = fd_table s"
      using root [of "root_sectors s" "unat idx" 0 s] chain [of "unat idx" "dir_cluster_of n s" s]
      by (auto simp: fat_node_readdir_def Let_def split: if_splits)
  qed
  show "keeps_fds (fat_node_finddir E n nm)"
    by (auto simp: fat_node_finddir_def intro!: keeps_fdsI split: option.splits prod.splits if_splits dest!: find_fds new_node_fds)
  have entry: "fat_write_dir_entry E sec o' e s = (r, s') \<Longrightarrow> fd_table s' = fd_table s" for sec o' e s r s'
    using write_dir_entry_fds by (metis snd_conv)
  show "keeps_fds (fat_node_create E n nm mode)"
    by (auto simp: fat_node_create_def Let_def intro!: keeps_fdsI split: option.splits prod.splits if_splits
        dest!: find_fds find_free_fds alloc_fds entry new_node_fds)
  have init: "fd_table (init_dir_cluster b d c s) = fd_table s" for b d c s by (simp add: init_dir_cluster_def Let_def)
  show "keeps_fds (fat_node_mkdir E n nm mode)"
    by (auto simp: fat_node_mkdir_def Let_def init intro!: keeps_fdsI split: option.splits prod.splits if_splits
        dest!: find_fds find_free_fds alloc_fds entry new_node_fds cluster_fdsD)
  have fin: "unlink_finish E c rs = (r, s') \<Longrightarrow> fd_table s' = fd_table (snd rs)" for c rs r s'
    by (auto simp: unlink_finish_def Let_def split: prod.splits if_splits)
  show u: "keeps_fds (fat_node_unlink E n nm)"
    by (auto simp: fat_node_unlink_def Let_def intro!: keeps_fdsI split: option.splits prod.splits if_splits
        dest!: root_scan_fdsD chain_scan_fds fin)
  show "keeps_fds (fat_node_rmdir E n nm)" using u by (simp add: keeps_fds_def fat_node_rmdir_def)
qed

text \<open>The operations tables of the kernel.\<close>

definition kernel_optab :: "fat_env \<Rightarrow> optab" where
  "kernel_optab E p = (if p = FAT_OPS then fat_ops E else rt_optab p)"

interpretation kfs: vfs_backend "kernel_optab E" for E
proof unfold_locales
  fix p f1 n fl
  show "op_open (kernel_optab E p) = Some f1 \<Longrightarrow> keeps_fds (f1 n fl)"
    using rt.open_keeps [of p f1] by (auto simp: kernel_optab_def fat_ops_def split: if_splits)
next
  fix p f2 n
  show "op_close (kernel_optab E p) = Some f2 \<Longrightarrow> keeps_fds (f2 n)"
    using rt.close_keeps [of p f2] by (auto simp: kernel_optab_def fat_ops_def split: if_splits)
next
  fix p f3 n off sz buf
  show "op_read (kernel_optab E p) = Some f3 \<Longrightarrow> keeps_fds (f3 n off sz buf)"
    using rt.read_keeps [of p f3] fat_keeps by (auto simp: kernel_optab_def fat_ops_def split: if_splits)
next
  fix p f4 n off sz buf
  show "op_write (kernel_optab E p) = Some f4 \<Longrightarrow> keeps_fds (f4 n off sz buf)"
    using rt.write_keeps [of p f4] fat_keeps by (auto simp: kernel_optab_def fat_ops_def split: if_splits)
next
  fix p f5 n idx
  show "op_readdir (kernel_optab E p) = Some f5 \<Longrightarrow> keeps_fds (f5 n idx)"
    using rt.readdir_keeps [of p f5] fat_keeps by (auto simp: kernel_optab_def fat_ops_def split: if_splits)
next
  fix p f6 n nm
  show "op_finddir (kernel_optab E p) = Some f6 \<Longrightarrow> keeps_fds (f6 n nm)"
    using rt.finddir_keeps [of p f6] fat_keeps by (auto simp: kernel_optab_def fat_ops_def split: if_splits)
next
  fix p f7 n nm mode
  show "op_create (kernel_optab E p) = Some f7 \<Longrightarrow> keeps_fds (f7 n nm mode)"
    using rt.create_keeps [of p f7] fat_keeps by (auto simp: kernel_optab_def fat_ops_def split: if_splits)
next
  fix p f8 n nm
  show "op_unlink (kernel_optab E p) = Some f8 \<Longrightarrow> keeps_fds (f8 n nm)"
    using rt.unlink_keeps [of p f8] fat_keeps by (auto simp: kernel_optab_def fat_ops_def split: if_splits)
next
  fix p f9 n nm mode
  show "op_mkdir (kernel_optab E p) = Some f9 \<Longrightarrow> keeps_fds (f9 n nm mode)"
    using rt.mkdir_keeps [of p f9] fat_keeps by (auto simp: kernel_optab_def fat_ops_def split: if_splits)
next
  fix p f10 n nm
  show "op_rmdir (kernel_optab E p) = Some f10 \<Longrightarrow> keeps_fds (f10 n nm)"
    using rt.rmdir_keeps [of p f10] fat_keeps by (auto simp: kernel_optab_def fat_ops_def split: if_splits)
qed

interpretation kopen: prompt_backend "kernel_optab E" for E
proof unfold_locales
  fix p f1 n fl s
  assume "op_open (kernel_optab E p) = Some f1" "n \<noteq> NULL"
  then show "\<exists>s'. f1 n fl s = Some (0, s')"
    by (auto simp: kernel_optab_def rt_optab_def ramfs_optab_def fat_ops_def tarfs_ops_def ramfs_ops_def no_ops_def ramfs_open_def split: if_splits)
next
  fix p f2 n s
  assume "op_close (kernel_optab E p) = Some f2" "n \<noteq> NULL"
  then show "\<exists>r s'. f2 n s = Some (r, s')"
    by (auto simp: kernel_optab_def rt_optab_def ramfs_optab_def fat_ops_def tarfs_ops_def ramfs_ops_def no_ops_def ramfs_close_def split: if_splits)
qed

section \<open>A small volume\<close>

text \<open>Four clusters, numbered 2 to 5, with the chain 2, 4 in use and cluster 5 alone in use.\<close>

definition tiny_fat :: fs_state where
  "tiny_fat = example_dir\<lparr>fat_fs := zero_fat_fs\<lparr>fs_drive := 0, sectors_per_cluster := 1, num_fats := 1, root_entries := 16, sectors_per_fat := 1,
       fat_start := 1, root_dir_start := 2, data_start := 3, total_clusters := 4, fat_table := 0x10000\<rparr>,
     fmem := (\<lambda>_. 0)(0x10004 := 4, 0x10008 := 0xF8, 0x10009 := 0xFF, 0x1000A := 0xF8, 0x1000B := 0xFF)\<rparr>"

lemma tiny_fat_table: "small_table tiny_fat" "in_table tiny_fat c \<longleftrightarrow> unat c < 6"
  by (simp_all add: small_table_def tiny_fat_def zero_fat_fs_def in_table_small)

lemma tiny_fat_entries: "fat_entry tiny_fat 2 = 4" "fat_entry tiny_fat 3 = 0" "fat_entry tiny_fat 4 = 0xFFF8" "fat_entry tiny_fat 5 = 0xFFF8"
  by (simp_all add: fat_entry_def ld16_def tiny_fat_def zero_fat_fs_def)

section \<open>Properties\<close>

text \<open>Names. A file name of at most eight characters with an extension of at most three, none of them a space or a dot,
  is stored in a directory entry and read back as the same name in upper case; the stored name has eleven
  characters, and two such names are stored alike exactly when they agree up to case.\<close>

lemma fat_name_roundtrip:
  assumes "short_name b e" "short_name b' e'"
  shows "fat_filename_to_str (fat_str_to_filename (join_name b e)) = map upcase (join_name b e) \<and>
    length (fat_str_to_filename (join_name b e)) = 11 \<and>
    (fat_str_to_filename (join_name b e) = fat_str_to_filename (join_name b' e') \<longleftrightarrow>
       map upcase (join_name b e) = map upcase (join_name b' e'))"
proof -
  have "fat_str_to_filename (join_name b e) = fat_str_to_filename (join_name b' e')"
    if m: "map upcase (join_name b e) = map upcase (join_name b' e')"
  proof -
    have nd: "upcase c \<noteq> DOT" if "name_char c" for c using that by (auto simp: upcase_def name_char_def diff_eq_eq)
    have split: "takeWhile (\<lambda>c. c \<noteq> DOT) (map upcase (join_name x y)) = map upcase x \<and>
        drop (Suc (length x)) (map upcase (join_name x y)) = map upcase y" if "short_name x y" for x y
    proof -
      have "\<forall>c \<in> set (map upcase x). c \<noteq> DOT" using that nd by (auto simp: short_name_def list_all_iff)
      then show ?thesis by (auto simp: join_name_def takeWhile_append upcase_def [of DOT])
    qed
    have "map upcase b = map upcase b'" using split [OF assms(1)] split [OF assms(2)] m by simp
    moreover from this have "length b = length b'" by (metis length_map)
    ultimately have "map upcase b = map upcase b'" "map upcase e = map upcase e'" "length b = length b'" "length e = length e'"
      using split [OF assms(1)] split [OF assms(2)] m by (simp_all, metis length_map)
    then have "pad_field 8 b = pad_field 8 b'" "pad_field 3 e = pad_field 3 e'" by (simp_all add: pad_field_def take_map [symmetric])
    then show ?thesis by (simp add: str_to_filename_join [OF assms(1)] str_to_filename_join [OF assms(2)])
  qed
  then show ?thesis
    using filename_roundtrip [OF assms(1)] filename_roundtrip [OF assms(2)] str_to_filename_join [OF assms(1)] by fastforce
qed

text \<open>Allocating a cluster. When the volume's cluster numbers stay below \<open>0xFFFF\<close>, \<open>fat_alloc_cluster\<close> returns: the
  lowest cluster whose entry is free, now marked as the end of a chain with every other entry unchanged, or 0
  and an unchanged state when no cluster is free. When every 16-bit number is a cluster and none is
  free it does not return: its counter wraps around.\<close>

lemma fat_alloc_lowest_free:
  "(small_table s \<longrightarrow> (\<exists>c s'. fat_alloc_cluster s = Some (c, s') \<and>
      (if \<exists>d. 2 \<le> d \<and> in_table s d \<and> fat_entry s d = 0
       then 2 \<le> c \<and> in_table s c \<and> fat_entry s c = 0 \<and> (\<forall>d. 2 \<le> d \<and> d < c \<longrightarrow> fat_entry s d \<noteq> 0) \<and>
         (\<forall>d. fat_entry s' d = (if d = c then 0xFFF8 else fat_entry s d))
       else c = 0 \<and> s' = s))) \<and>
   ((\<forall>c. in_table s c \<and> fat_entry s c \<noteq> 0) \<longrightarrow> fat_alloc_cluster s = None)"
proof (intro conjI impI)
  show "fat_alloc_cluster s = None" if "\<forall>c. in_table s c \<and> fat_entry s c \<noteq> 0"
    using that by (simp add: fat_alloc_cluster_def alloc_loop_diverges)
  assume st: "small_table s"
  show "\<exists>c s'. fat_alloc_cluster s = Some (c, s') \<and>
      (if \<exists>d. 2 \<le> d \<and> in_table s d \<and> fat_entry s d = 0
       then 2 \<le> c \<and> in_table s c \<and> fat_entry s c = 0 \<and> (\<forall>d. 2 \<le> d \<and> d < c \<longrightarrow> fat_entry s d \<noteq> 0) \<and>
         (\<forall>d. fat_entry s' d = (if d = c then 0xFFF8 else fat_entry s d))
       else c = 0 \<and> s' = s)"
    using alloc_loop_small [OF st, of 2]
  proof (elim disjE exE conjE)
    fix c assume c: "alloc_loop s 2 = Some (Some c)" "2 \<le> c" "in_table s c" "fat_entry s c = 0" "\<forall>d. 2 \<le> d \<and> d < c \<longrightarrow> fat_entry s d \<noteq> 0"
    then show ?thesis
      by (intro exI [of _ c] exI [of _ "fat_set_cluster c FAT_CLUSTER_EOC s"]) (auto simp: fat_alloc_cluster_def set_cluster_entry)
  next
    assume "alloc_loop s 2 = Some None" "\<forall>d. 2 \<le> d \<and> in_table s d \<longrightarrow> fat_entry s d \<noteq> 0"
    then show ?thesis by (intro exI [of _ 0] exI [of _ s]) (auto simp: fat_alloc_cluster_def)
  qed
qed

text \<open>C24: freeing a chain. \<open>fat_free_cluster_chain\<close> returns on every table, a corrupted one with a cycle included; no entry gets
  a value other than its own or 0. On a chain \<open>cs\<close> it frees exactly the clusters of \<open>cs\<close>.\<close>

theorem fat_free_chain_exact:
  "(fat_entry (fat_free_cluster_chain c s) d = fat_entry s d \<or> fat_entry (fat_free_cluster_chain c s) d = 0) \<and>
   (fat_chain s c cs \<longrightarrow> fat_entry (fat_free_cluster_chain c s) d = (if d \<in> set cs then 0 else fat_entry s d))"
proof
  show "fat_entry (fat_free_cluster_chain c s) d = fat_entry s d \<or> fat_entry (fat_free_cluster_chain c s) d = 0"
  proof (induction c s rule: fat_free_cluster_chain.induct)
    case (1 c s)
    then show ?case by (subst (1 2) fat_free_cluster_chain.simps) (auto simp: set_cluster_entry split: if_splits)
  qed
qed (simp add: free_chain_entry)

theorem fat_free_chain_exact_witness:
  "fat_entry (fat_free_cluster_chain 2 tiny_fat) 2 = 0 \<and> fat_entry (fat_free_cluster_chain 2 tiny_fat) 4 = 0 \<and>
   fat_entry (fat_free_cluster_chain 2 tiny_fat) 5 = 0xFFF8"
proof -
  have "fat_chain tiny_fat 2 [2, 4]" by (simp add: tiny_fat_entries tiny_fat_table in_chain_def)
  then show ?thesis
    using fat_free_chain_exact [of 2 tiny_fat 2 "[2, 4]"] fat_free_chain_exact [of 2 tiny_fat 4 "[2, 4]"]
      fat_free_chain_exact [of 2 tiny_fat 5 "[2, 4]"] by (simp add: tiny_fat_entries)
qed

section \<open>Descriptors\<close>

text \<open>C14: the descriptor table in every state the file system interface can reach, with all three file systems behind it. From a state
  whose table is as \<open>vfs_init\<close> leaves it, whatever sequence of calls of the interface follows, the table has its 256 slots, every
  slot in use refers to a node and every other slot is cleared. In such a state \<open>vfs_open\<close> of a path that leads to a node returns: -1 with the table
  as it was when every slot is in use, and otherwise the lowest slot that is not, which then holds the node and the flags, with all other slots as they
  were. \<open>vfs_close\<close> of a slot in use returns 0 and clears that slot and no other. And a descriptor that is negative, too large or
  not open makes \<open>vfs_read\<close>, \<open>vfs_write\<close>, \<open>vfs_close\<close> and \<open>vfs_seek\<close> return -1 and change nothing.\<close>

theorem descriptor_table_invariant:
  assumes "fd_table s0 = fd_table (vfs_init s)" "(vfs_step (kernel_optab E))\<^sup>*\<^sup>* s0 s'"
  shows "length (fd_table s') = MAX_OPEN_FILES \<and>
    (\<forall>d \<in> set (fd_table s'). if fd_in_use d then fd_node d \<noteq> NULL
       else d = \<lparr>fd_node = NULL, fd_position = 0, fd_flags = 0, fd_in_use = False\<rparr>) \<and>
    (\<forall>p node s1. vfs_resolve_path (kernel_optab E) p s' = Some (node, s1) \<and> node \<noteq> NULL \<longrightarrow>
       (if \<forall>d \<in> set (fd_table s'). fd_in_use d then vfs_open (kernel_optab E) p flags s' = Some (- 1, s1) \<and> fd_table s1 = fd_table s'
        else \<exists>i pos s2. vfs_open (kernel_optab E) p flags s' = Some (int i, s2) \<and> i < MAX_OPEN_FILES \<and> \<not> fd_in_use (fd_table s' ! i) \<and>
          (\<forall>j < i. fd_in_use (fd_table s' ! j)) \<and>
          fd_table s2 = (fd_table s')[i := \<lparr>fd_node = node, fd_position = pos, fd_flags = flags, fd_in_use = True\<rparr>])) \<and>
    (\<forall>fd. if 0 \<le> fd \<and> fd < int MAX_OPEN_FILES \<and> fd_in_use (fd_table s' ! nat fd)
       then \<exists>s2. vfs_close (kernel_optab E) fd s' = Some (0, s2) \<and>
         fd_table s2 = (fd_table s')[nat fd := \<lparr>fd_node = NULL, fd_position = 0, fd_flags = 0, fd_in_use = False\<rparr>]
       else vfs_read (kernel_optab E) fd buf sz s' = Some (- 1, s') \<and> vfs_write (kernel_optab E) fd buf sz s' = Some (- 1, s') \<and>
         vfs_close (kernel_optab E) fd s' = Some (- 1, s') \<and> vfs_seek fd off whence s' = (- 1, s'))"
proof (intro conjI allI impI)
  have "fd_inv s0" using vfs_init_inv fd_inv_cong [OF assms(1)] by simp
  then have inv: "fd_inv s'" using kfs.steps_inv assms(2) by blast
  then show len: "length (fd_table s') = MAX_OPEN_FILES" by (simp add: fd_inv_def)
  show "\<forall>d \<in> set (fd_table s'). if fd_in_use d then fd_node d \<noteq> NULL else d = \<lparr>fd_node = NULL, fd_position = 0, fd_flags = 0, fd_in_use = False\<rparr>"
    using inv unfolding fd_inv_def fd_clear_def by blast
  show "if \<forall>d \<in> set (fd_table s'). fd_in_use d then vfs_open (kernel_optab E) p flags s' = Some (- 1, s1) \<and> fd_table s1 = fd_table s'
        else \<exists>i pos s2. vfs_open (kernel_optab E) p flags s' = Some (int i, s2) \<and> i < MAX_OPEN_FILES \<and> \<not> fd_in_use (fd_table s' ! i) \<and>
          (\<forall>j < i. fd_in_use (fd_table s' ! j)) \<and>
          fd_table s2 = (fd_table s')[i := \<lparr>fd_node = node, fd_position = pos, fd_flags = flags, fd_in_use = True\<rparr>]"
    if r: "vfs_resolve_path (kernel_optab E) p s' = Some (node, s1) \<and> node \<noteq> NULL" for p node s1
  proof (cases "\<forall>d \<in> set (fd_table s'). fd_in_use d")
    case True
    then show ?thesis using kopen.open_full [of E p s' node s1 flags] r kfs.resolve_keeps [of E p s' node s1] by simp
  next
    case False
    then show ?thesis using kopen.open_lowest [OF inv conjunct1 [OF r] conjunct2 [OF r] False, of flags] unfolding len if_not_P [OF False] by blast
  qed
  show "if 0 \<le> fd \<and> fd < int MAX_OPEN_FILES \<and> fd_in_use (fd_table s' ! nat fd)
       then \<exists>s2. vfs_close (kernel_optab E) fd s' = Some (0, s2) \<and>
         fd_table s2 = (fd_table s')[nat fd := \<lparr>fd_node = NULL, fd_position = 0, fd_flags = 0, fd_in_use = False\<rparr>]
       else vfs_read (kernel_optab E) fd buf sz s' = Some (- 1, s') \<and> vfs_write (kernel_optab E) fd buf sz s' = Some (- 1, s') \<and>
         vfs_close (kernel_optab E) fd s' = Some (- 1, s') \<and> vfs_seek fd off whence s' = (- 1, s')" for fd
  proof (cases "0 \<le> fd \<and> fd < int MAX_OPEN_FILES \<and> fd_in_use (fd_table s' ! nat fd)")
    case True
    then have "fd_get fd s' = Some (fd_table s' ! nat fd)" by (simp add: fd_get_def)
    from kopen.close_clears [OF inv this] True show ?thesis by (simp add: fd_clear_def)
  next
    case False
    then have "fd_get fd s' = None" by (auto simp: fd_get_def)
    then have "vfs_read (kernel_optab E) fd buf sz s' = Some (- 1, s') \<and> vfs_write (kernel_optab E) fd buf sz s' = Some (- 1, s') \<and>
         vfs_close (kernel_optab E) fd s' = Some (- 1, s') \<and> vfs_seek fd off whence s' = (- 1, s')"
      by (simp add: vfs_read_def vfs_write_def vfs_close_def vfs_seek_def)
    then show ?thesis unfolding if_not_P [OF False] .
  qed
qed

text \<open>The root directory is opened, and closed again.\<close>

definition fresh_root :: fs_state where
  "fresh_root = example_dir\<lparr>fd_table := replicate MAX_OPEN_FILES \<lparr>fd_node = NULL, fd_position = 0, fd_flags = 0, fd_in_use = False\<rparr>\<rparr>"

theorem descriptor_table_invariant_witness:
  "\<forall>E. \<exists>s1 s2. vfs_open (kernel_optab E) [SLASH] O_RDWR fresh_root = Some (0, s1) \<and>
     vfs_step (kernel_optab E) fresh_root s1 \<and> fd_in_use (fd_table s1 ! 0) \<and> fd_node (fd_table s1 ! 0) = 0x1010 \<and>
     vfs_close (kernel_optab E) 0 s1 = Some (0, s2) \<and> fd_table s2 = fd_table fresh_root"
proof
  fix E
  have start: "fd_table fresh_root = fd_table (vfs_init example_dir)" "length (fd_table fresh_root) = 256" "\<not> fd_in_use (fd_table fresh_root ! 0)"
    "fd_table fresh_root ! 0 = \<lparr>fd_node = NULL, fd_position = 0, fd_flags = 0, fd_in_use = False\<rparr>"
    by (simp_all add: fresh_root_def vfs_init_def)
  have root: "vfs_resolve_path (kernel_optab E) [SLASH] fresh_root = Some (0x1010, fresh_root)"
    by (simp add: vfs_resolve_path_def fresh_root_def example_dir_def)
  have "fd_table fresh_root ! 0 \<in> set (fd_table fresh_root)" using start(2) by simp
  then have nf: "\<not> (\<forall>d \<in> set (fd_table fresh_root). fd_in_use d)" using start(3) by blast
  note d0 = descriptor_table_invariant [OF start(1) rtranclp.rtrancl_refl, of E O_RDWR 0 0 0 0, THEN conjunct2, THEN conjunct2, THEN conjunct1,
    THEN spec [of _ "[SLASH]"], THEN spec [of _ "0x1010"], THEN spec [of _ fresh_root], unfolded if_not_P [OF nf]]
  obtain i pos s1 where o: "vfs_open (kernel_optab E) [SLASH] O_RDWR fresh_root = Some (int i, s1)" "\<forall>j < i. fd_in_use (fd_table fresh_root ! j)"
    "fd_table s1 = (fd_table fresh_root)[i := \<lparr>fd_node = 0x1010, fd_position = pos, fd_flags = O_RDWR, fd_in_use = True\<rparr>]"
    using d0 root by auto
  have i: "i = 0" using o(2) start(3) by (cases i) auto
  have st: "vfs_step (kernel_optab E) fresh_root s1" by (rule vfs_step.s_open [OF o(1)])
  have st1: "(vfs_step (kernel_optab E))\<^sup>*\<^sup>* fresh_root s1" using st by blast
  note d1 = descriptor_table_invariant [OF start(1) st1, of 0 0 0 0 0, THEN conjunct2, THEN conjunct2, THEN conjunct2, THEN spec [of _ 0]]
  have s1: "fd_in_use (fd_table s1 ! 0)" "fd_node (fd_table s1 ! 0) = 0x1010" using o(3) i start(2) by simp_all
  then obtain s2 where c: "vfs_close (kernel_optab E) 0 s1 = Some (0, s2)"
    "fd_table s2 = (fd_table s1)[0 := \<lparr>fd_node = NULL, fd_position = 0, fd_flags = 0, fd_in_use = False\<rparr>]"
    using d1 by auto
  have "fd_table s2 = fd_table fresh_root" using c(2) o(3) i start(4) by (metis list_update_id list_update_overwrite)
  then show "\<exists>s1 s2. vfs_open (kernel_optab E) [SLASH] O_RDWR fresh_root = Some (0, s1) \<and>
     vfs_step (kernel_optab E) fresh_root s1 \<and> fd_in_use (fd_table s1 ! 0) \<and> fd_node (fd_table s1 ! 0) = 0x1010 \<and>
     vfs_close (kernel_optab E) 0 s1 = Some (0, s2) \<and> fd_table s2 = fd_table fresh_root"
    using o(1) i st s1 c(1) by auto
qed

end
