(* ===== verification/FatChain.thy ===== *)
theory FatChain
  imports Fat
begin

text \<open>
  The geometry of a FAT volume and the chains of its files: where the clusters lie, that different clusters do not overlap,
  which memory the allocation table takes, what following and extending a chain gives, with the lemmas on memory that
  the proofs about file data share.
\<close>

section \<open>Memory\<close>

lemma put_bytes_append:
  "length xs + length ys \<le> 4294967296 \<Longrightarrow> put_bytes a (xs @ ys) m = put_bytes (a + of_nat (length xs)) ys (put_bytes a xs m)"
proof (induction xs arbitrary: a m)
  case (Cons x xs)
  then show ?case by (simp add: put_bytes_Cons add.assoc)
qed simp

lemma bytes_at_append: "bytes_at m a (i + j) = bytes_at m a i @ bytes_at m (a + of_nat i) j"
  by (rule nth_equalityI) (auto simp: nth_append add.assoc simp flip: of_nat_add)

lemma bytes_at_cong: "(\<And>i. i < n \<Longrightarrow> m (a + of_nat i) = m' (a + of_nat i)) \<Longrightarrow> bytes_at m a n = bytes_at m' a n"
  by (simp add: bytes_at_def)

text \<open>Memory that differs at most in one range.\<close>

definition same_but :: "u32 \<Rightarrow> nat \<Rightarrow> mem \<Rightarrow> mem \<Rightarrow> bool" where
  "same_but a n m m' \<longleftrightarrow> (\<forall>x. n \<le> unat (x - a) \<longrightarrow> m' x = m x)"

lemma same_but_refl [simp]: "same_but a n m m"
  by (simp add: same_but_def)

lemma same_but_trans: "same_but a n m m' \<Longrightarrow> same_but a n m' m'' \<Longrightarrow> same_but a n m m''"
  by (simp add: same_but_def)

lemma same_but_put: "length bs \<le> n \<Longrightarrow> same_but a n m (put_bytes a bs m)"
  by (auto simp: same_but_def put_bytes_def)

lemma same_but_bytes:
  assumes "same_but a n m m'" "separate b k a n" "k \<le> 4294967296"
  shows "bytes_at m' b k = bytes_at m b k"
proof (rule bytes_at_cong)
  fix i assume "i < k"
  then have "unat (b + of_nat i - b) < k" using assms(3) by (simp add: unat_of_nat)
  from separateD [OF assms(2) this] assms(1) show "m' (b + of_nat i) = m (b + of_nat i)" by (simp add: same_but_def)
qed

lemma unat_u8 [simp]: "unat (ucast (c :: u8) :: u32) = unat c"
  using unsigned_less [of c, where ?'a = nat] by (simp add: unsigned_ucast_eq take_bit_nat_eq_self)

lemma unat_add_u32: "unat (a :: u32) + unat b < 4294967296 \<Longrightarrow> unat (a + b) = unat a + unat b"
  by (simp add: unat_word_ariths)

lemma separate_mono:
  assumes "separate a n b k" "n' \<le> n" "k' \<le> k"
  shows "separate a n' b k'"
  using assms unfolding separate_def by (meson le_trans less_le_trans)

lemma separate_shift:
  assumes "separate a n b k" "i + n' \<le> n" "n \<le> 4294967296"
  shows "separate (a + of_nat i) n' b k"
  unfolding separate_def
proof (intro allI impI)
  fix x assume x: "unat (x - (a + of_nat i)) < n'"
  have "x - a = (x - (a + of_nat i)) + of_nat i" by simp
  moreover have "unat (of_nat i :: u32) = i" using assms(2,3) x by (simp add: unat_of_nat)
  moreover have "unat (x - (a + of_nat i)) + i < 4294967296" using x assms(2,3) by linarith
  ultimately have "unat (x - a) = unat (x - (a + of_nat i)) + i" by (metis unat_add_u32)
  then show "k \<le> unat (x - b)" using separateD [OF assms(1)] x assms(2) by simp
qed

lemma bytes_at_put_mid:
  assumes "off + length bs \<le> n" "n < 4294967296"
  shows "bytes_at (put_bytes (a + of_nat off) bs m) a n = take off (bytes_at m a n) @ bs @ drop (off + length bs) (bytes_at m a n)"
proof (rule nth_equalityI)
  fix i assume "i < length (bytes_at (put_bytes (a + of_nat off) bs m) a n)"
  then have i: "i < n" by simp
  have d: "a + of_nat i - (a + of_nat off) = (of_nat i - of_nat off :: u32)" by simp
  have "unat (of_nat i - of_nat off :: u32) = (if off \<le> i then i - off else 4294967296 + i - off)"
    using i assms by (auto simp: unat_sub_if' unat_of_nat)
  then show "bytes_at (put_bytes (a + of_nat off) bs m) a n ! i =
      (take off (bytes_at m a n) @ bs @ drop (off + length bs) (bytes_at m a n)) ! i"
    using i assms by (auto simp: put_bytes_def d nth_append)
qed (use assms in simp)

lemma splice_append:
  "off + length bs \<le> length C \<Longrightarrow> bs' = [] \<or> off + length bs = length C \<Longrightarrow>
     (take off C @ bs @ drop (off + length bs) C) @ bs' @ drop (length bs') F =
     take off (C @ F) @ (bs @ bs') @ drop (off + length (bs @ bs')) (C @ F)"
  by (auto intro!: arg_cong2 [of _ _ _ _ drop])

section \<open>Geometry\<close>

abbreviation spc :: "fs_state \<Rightarrow> nat" where
  "spc s \<equiv> unat (sectors_per_cluster (fat_fs s))"

text \<open>A cluster fits the static buffers of 2048 bytes; tables, root directory and clusters follow each other on the disk
  and end within the sectors the driver can address.\<close>

definition fat_geometry :: "fat_fs_t \<Rightarrow> bool" where
  "fat_geometry f \<longleftrightarrow> 1 \<le> unat (sectors_per_cluster f) \<and> unat (sectors_per_cluster f) \<le> 4 \<and>
     unat (total_clusters f) + 2 \<le> 65528 \<and>
     unat (data_start f) + unat (total_clusters f) * unat (sectors_per_cluster f) \<le> 2 ^ 28 \<and>
     unat (fat_start f) + unat (num_fats f) * unat (sectors_per_fat f) \<le> unat (root_dir_start f) \<and>
     unat (root_dir_start f) + (unat (root_entries f) * 32 + 511) div 512 \<le> unat (data_start f)"

lemma geometryD:
  assumes "fat_geometry (fat_fs s)"
  shows "1 \<le> spc s" "spc s \<le> 4" "small_table s" "unat (cluster_bytes s) = spc s * 512" "cluster_bytes s \<noteq> 0"
    "unat (data_start (fat_fs s)) + unat (total_clusters (fat_fs s)) * spc s \<le> 2 ^ 28"
proof -
  show g: "1 \<le> spc s" "spc s \<le> 4" "small_table s" "unat (data_start (fat_fs s)) + unat (total_clusters (fat_fs s)) * spc s \<le> 2 ^ 28"
    using assms by (auto simp: fat_geometry_def small_table_def)
  have "unat (ucast (sectors_per_cluster (fat_fs s)) :: u32) = spc s"
    using unsigned_less [of "sectors_per_cluster (fat_fs s)", where ?'a = nat] by (simp add: unsigned_ucast_eq take_bit_nat_eq_self)
  then show c: "unat (cluster_bytes s) = spc s * 512" using g(2) by (simp add: cluster_bytes_def unat_word_ariths)
  then show "cluster_bytes s \<noteq> 0" using g(1) by auto
qed

lemma cluster_lba:
  assumes "fat_geometry (fat_fs s)" "in_chain c" "in_table s c"
  shows "unat (cluster_to_lba c s) = unat (data_start (fat_fs s)) + (unat c - 2) * spc s"
    "unat (cluster_to_lba c s) + spc s \<le> 2 ^ 28" "unat (data_start (fat_fs s)) \<le> unat (cluster_to_lba c s)"
proof -
  note g = geometryD [OF assms(1)]
  have c: "2 \<le> unat c" "unat c < unat (total_clusters (fat_fs s)) + 2" "unat c < 65536"
    using assms(2,3) in_table_small [OF g(3)] unsigned_less [of c, where ?'a = nat] by (auto simp: in_chain_def word_le_nat_alt)
  have s: "unat (ucast (sectors_per_cluster (fat_fs s)) :: u32) = spc s"
    using unsigned_less [of "sectors_per_cluster (fat_fs s)", where ?'a = nat] by (simp add: unsigned_ucast_eq take_bit_nat_eq_self)
  have "(2 :: u32) \<le> ucast c" using c(1) by (simp add: word_le_nat_alt)
  then have d: "unat (ucast c - 2 :: u32) = unat c - 2" by (simp add: unat_sub)
  have le: "(unat c - 2) * spc s + spc s \<le> unat (total_clusters (fat_fs s)) * spc s"
  proof -
    have "(unat c - 2) * spc s + spc s = (unat c - 1) * spc s" 
    proof -
      have "unat c - 1 = Suc (unat c - 2)" using c(1) by linarith
      then show ?thesis by simp
    qed
    also have "\<dots> \<le> unat (total_clusters (fat_fs s)) * spc s" using c(2) by (intro mult_le_mono1) simp
    finally show ?thesis .
  qed
  have m: "unat ((ucast c - 2) * ucast (sectors_per_cluster (fat_fs s)) :: u32) = (unat c - 2) * spc s"
    using le g(6) by (simp add: unat_word_ariths d s)
  have "\<not> c < 2" using assms(2) by (auto simp: in_chain_def)
  then show l: "unat (cluster_to_lba c s) = unat (data_start (fat_fs s)) + (unat c - 2) * spc s"
    using le g(6) m by (simp add: cluster_to_lba_def unat_add_u32)
  show "unat (cluster_to_lba c s) + spc s \<le> 2 ^ 28" "unat (data_start (fat_fs s)) \<le> unat (cluster_to_lba c s)"
    using l le g(6) by linarith+
qed

text \<open>The sectors of different clusters are different.\<close>

lemma clusters_apart:
  assumes "fat_geometry (fat_fs s)" "in_chain c" "in_table s c" "in_chain d" "in_table s d" "c \<noteq> d"
    "unat (cluster_to_lba d s) \<le> l" "l < unat (cluster_to_lba d s) + spc s"
  shows "l < unat (cluster_to_lba c s) \<or> unat (cluster_to_lba c s) + spc s \<le> l"
proof -
  have "unat c \<noteq> unat d" using assms(6) by (simp add: word_unat_eq_iff)
  moreover have "2 \<le> unat c" "2 \<le> unat d" using assms(2,4) by (simp_all add: in_chain_def word_le_nat_alt)
  ultimately have "unat c - 2 + 1 \<le> unat d - 2 \<or> unat d - 2 + 1 \<le> unat c - 2" by linarith
  then have "(unat c - 2 + 1) * spc s \<le> (unat d - 2) * spc s \<or> (unat d - 2 + 1) * spc s \<le> (unat c - 2) * spc s"
    using mult_le_mono1 [of "unat c - 2 + 1" "unat d - 2" "spc s"] mult_le_mono1 [of "unat d - 2 + 1" "unat c - 2" "spc s"] by blast
  then show ?thesis
    using assms(7,8) cluster_lba(1) [OF assms(1-3)] cluster_lba(1) [OF assms(1,4,5)] by (auto simp: add_mult_distrib)
qed

text \<open>The bytes of the allocation table.\<close>

definition table_size :: "fs_state \<Rightarrow> nat" where
  "table_size s = 2 * (unat (total_clusters (fat_fs s)) + 2)"

lemma table_byte:
  assumes "fat_geometry (fat_fs s)" "in_table s c"
  shows "unat (2 * ucast c :: u32) < table_size s" "unat (2 * ucast c + 1 :: u32) < table_size s"
proof -
  have "unat c < unat (total_clusters (fat_fs s)) + 2" using in_table_small [OF geometryD(3) [OF assms(1)]] assms(2) by blast
  moreover have "unat (2 * ucast c :: u32) = 2 * unat c" "unat (2 * ucast c + 1 :: u32) = 2 * unat c + 1"
    using unsigned_less [of c, where ?'a = nat] by (simp_all add: unat_word_ariths)
  ultimately show "unat (2 * ucast c :: u32) < table_size s" "unat (2 * ucast c + 1 :: u32) < table_size s"
    by (simp_all add: table_size_def)
qed

lemma fat_entry_cong:
  assumes "fat_geometry (fat_fs s)" "in_table s c" "same_but a n (fmem s) (fmem s')" "fat_fs s' = fat_fs s"
    "separate (fat_table (fat_fs s)) (table_size s) a n"
  shows "fat_entry s' c = fat_entry s c"
proof -
  let ?t = "fat_table (fat_fs s)"
  have "n \<le> unat (?t + 2 * ucast c - a)" "n \<le> unat (?t + 2 * ucast c + 1 - a)"
    using separateD [OF assms(5), of "?t + 2 * ucast c"] separateD [OF assms(5), of "?t + 2 * ucast c + 1"] table_byte [OF assms(1,2)]
    by (simp_all add: add.assoc)
  then show ?thesis using assms(3) unfolding fat_entry_def assms(4) by (intro ld16_cong) (auto simp: same_but_def)
qed

lemma set_cluster_mem:
  assumes "fat_geometry (fat_fs s)"
  shows "same_but (fat_table (fat_fs s)) (table_size s) (fmem s) (fmem (fat_set_cluster c v s))"
  unfolding same_but_def
proof (intro allI impI)
  fix x assume x: "table_size s \<le> unat (x - fat_table (fat_fs s))"
  show "fmem (fat_set_cluster c v s) x = fmem s x"
  proof (cases "in_table s c")
    case True
    then have "x \<noteq> fat_table (fat_fs s) + 2 * ucast c" "x \<noteq> fat_table (fat_fs s) + 2 * ucast c + 1"
      using x table_byte [OF assms True] by (auto simp: add.assoc)
    then show ?thesis using True by (simp add: fat_set_cluster_def st16_other)
  qed (simp add: fat_set_cluster_def)
qed

section \<open>Chains of files\<close>

text \<open>A chain that ends with the end mark.\<close>

definition file_chain :: "fs_state \<Rightarrow> u16 \<Rightarrow> u16 list \<Rightarrow> bool" where
  "file_chain s c cs \<longleftrightarrow> cs \<noteq> [] \<and> fat_chain s c cs \<and> FAT_CLUSTER_EOC \<le> fat_entry s (last cs)"

lemma file_chain_Cons:
  "file_chain s c (d # ds) \<longleftrightarrow> d = c \<and> in_chain c \<and> in_table s c \<and>
     (if ds = [] then FAT_CLUSTER_EOC \<le> fat_entry s c else file_chain s (fat_entry s c) ds)"
  by (auto simp: file_chain_def in_chain_def)

lemma file_chain_cong:
  assumes "\<And>d. d \<in> set cs \<Longrightarrow> fat_entry s' d = fat_entry s d" "\<And>d. in_table s' d = in_table s d"
  shows "file_chain s' c cs = file_chain s c cs"
proof (cases "cs = []")
  case False
  have "fat_chain s' c cs = fat_chain s c cs" using assms by (rule fat_chain_cong)
  then show ?thesis using assms(1) [OF last_in_set [OF False]] by (simp add: file_chain_def)
qed (simp add: file_chain_def)

lemma file_chain_distinct: "file_chain s c cs \<Longrightarrow> distinct cs"
  by (auto simp: file_chain_def intro: fat_chain_distinct)

lemma file_chain_set: "file_chain s c cs \<Longrightarrow> d \<in> set cs \<Longrightarrow> in_chain d \<and> in_table s d"
  by (auto simp: file_chain_def dest: fat_chain_set)

lemma file_chain_next: "file_chain s c cs \<Longrightarrow> fat_get_next_cluster c s = fat_entry s c"
  by (auto simp: file_chain_def fat_get_next_cluster_def neq_Nil_conv)

text \<open>No cluster of a chain is free.\<close>

lemma file_chain_used: "file_chain s c cs \<Longrightarrow> d \<in> set cs \<Longrightarrow> fat_entry s d \<noteq> 0"
proof (induction cs arbitrary: c)
  case (Cons x cs)
  show ?case
  proof (cases "d = x")
    case True
    then show ?thesis using Cons.prems(1) by (cases cs) (auto simp: file_chain_Cons in_chain_def)
  next
    case False
    then show ?thesis using Cons by (cases cs) (auto simp: file_chain_Cons)
  qed
qed (simp add: file_chain_def)

lemma skip_step: "skip_clusters s skip i c =
  (if i < skip \<and> c < FAT_CLUSTER_EOC then skip_clusters s skip (i + 1) (fat_get_next_cluster c s) else c)"
  by (rule skip_clusters.simps)

lemma skip_chain:
  assumes "file_chain s c cs" "i \<le> skip"
  shows "if unat (skip - i) < length cs then skip_clusters s skip i c = cs ! unat (skip - i)
    else FAT_CLUSTER_EOC \<le> skip_clusters s skip i c"
  using assms
proof (induction cs arbitrary: c i)
  case (Cons x cs)
  note h = Cons.prems(1) [unfolded file_chain_Cons]
  show ?case
  proof (cases "i = skip")
    case True
    then show ?thesis using h by (subst (1 2) skip_step) simp
  next
    case False
    then have lt: "i < skip" using Cons.prems(2) by simp
    then have le: "i + 1 \<le> skip" by (simp add: inc_le_iff)
    have u: "unat (skip - i) = Suc (unat (skip - (i + 1)))"
    proof -
      have "skip - i \<noteq> 0" using False by simp
      then show ?thesis using unat_pred [of "skip - i"] unat_gt_0 [of "skip - i"] by (simp add: diff_diff_eq)
    qed
    have nx: "fat_get_next_cluster c s = fat_entry s c" by (rule file_chain_next [OF Cons.prems(1)])
    have st: "skip_clusters s skip i c = skip_clusters s skip (i + 1) (fat_entry s c)"
      using lt h nx by (subst skip_step) (simp add: in_chain_def)
    show ?thesis
    proof (cases "cs = []")
      case True
      then have e: "FAT_CLUSTER_EOC \<le> fat_entry s c" using h by simp
      then have "\<not> fat_entry s c < FAT_CLUSTER_EOC" by (simp only: not_less)
      then have "FAT_CLUSTER_EOC \<le> skip_clusters s skip (i + 1) (fat_entry s c)" using e by (subst skip_step) (simp only: simp_thms if_False)
      then show ?thesis using True u st by simp
    next
      case False
      then show ?thesis using Cons.IH [OF _ le, of "fat_entry s c"] h u st by simp
    qed
  qed
qed (simp add: file_chain_def)

lemma file_chain_drop: "file_chain s c cs \<Longrightarrow> k < length cs \<Longrightarrow> file_chain s (cs ! k) (drop k cs)"
proof (induction k arbitrary: c cs)
  case 0
  then show ?case by (cases cs) (auto simp: file_chain_Cons)
next
  case (Suc k)
  then show ?case by (cases cs) (auto simp: file_chain_Cons split: if_splits)
qed

section \<open>Extending a chain\<close>

text \<open>Two states that differ at most in the disk, in memory and in whether the table has to be written back.\<close>

definition same_volume :: "fs_state \<Rightarrow> fs_state \<Rightarrow> bool" where
  "same_volume s s' \<longleftrightarrow> (\<exists>a m b. s' = s\<lparr>disk := a, fmem := m, fat_fs := (fat_fs s)\<lparr>fat_dirty := b\<rparr>\<rparr>)"

lemma same_volume_upd: "same_volume s (s\<lparr>disk := a, fmem := m, fat_fs := (fat_fs s)\<lparr>fat_dirty := b\<rparr>\<rparr>)"
  unfolding same_volume_def by blast

lemma same_volume_refl [simp]: "same_volume s s"
  using same_volume_upd [where a = "disk s" and m = "fmem s" and s = s and b = "fat_dirty (fat_fs s)"] by simp

lemma same_volume_trans: "same_volume s s' \<Longrightarrow> same_volume s' s'' \<Longrightarrow> same_volume s s''"
  using same_volume_upd by (auto simp: same_volume_def [of s s'] same_volume_def [of s' s''])

lemma same_volumeD:
  assumes "same_volume s s'"
  shows "fat_geometry (fat_fs s') = fat_geometry (fat_fs s)" "sectors_per_cluster (fat_fs s') = sectors_per_cluster (fat_fs s)"
    "fat_table (fat_fs s') = fat_table (fat_fs s)" "fs_drive (fat_fs s') = fs_drive (fat_fs s)"
    "nodes s' = nodes s" "fat_nodes s' = fat_nodes s" "fat_initialized s' = fat_initialized s"
    "cluster_to_lba c s' = cluster_to_lba c s" "in_table s' c = in_table s c" "table_size s' = table_size s"
    "cluster_bytes s' = cluster_bytes s" "root_sectors s' = root_sectors s" "root_dir_start (fat_fs s') = root_dir_start (fat_fs s)"
  using assms by (auto simp: same_volume_def fat_geometry_def cluster_to_lba_def in_table_def table_size_def cluster_bytes_def root_sectors_def)

lemma set_cluster_volume [simp]: "same_volume s (fat_set_cluster c v s)" "disk (fat_set_cluster c v s) = disk s"
  using same_volume_upd [where a = "disk s" and s = s and m = "st16 (fat_table (fat_fs s) + 2 * ucast c) v (fmem s)" and b = True]
  by (simp_all add: fat_set_cluster_def)

lemma alloc_free:
  assumes "fat_geometry (fat_fs s)"
  shows "(\<exists>d. fat_alloc_cluster s = Some (d, fat_set_cluster d FAT_CLUSTER_EOC s) \<and> in_chain d \<and> in_table s d \<and> fat_entry s d = 0) \<or>
    fat_alloc_cluster s = Some (0, s) \<and> (\<forall>e. 2 \<le> e \<and> in_table s e \<longrightarrow> fat_entry s e \<noteq> 0)"
  using alloc_loop_small [OF geometryD(3) [OF assms], of 2]
proof (elim disjE exE conjE)
  fix d assume d: "alloc_loop s 2 = Some (Some d)" "2 \<le> d" "in_table s d" "fat_entry s d = 0"
  have "unat d < 65528" using d(3) in_table_small [OF geometryD(3) [OF assms]] assms by (auto simp: fat_geometry_def)
  then have "in_chain d" using d(2) by (simp add: in_chain_def word_less_nat_alt)
  then show ?thesis using d by (auto simp: fat_alloc_cluster_def)
qed (simp add: fat_alloc_cluster_def)

lemma extend_file_chain:
  assumes "fat_geometry (fat_fs s)" "file_chain s c cs"
  shows "\<exists>s' ds. extend_chain needed current c s = Some s' \<and> file_chain s' c (cs @ ds) \<and> same_volume s s' \<and> disk s' = disk s \<and>
    same_but (fat_table (fat_fs s)) (table_size s) (fmem s) (fmem s') \<and>
    (\<forall>e \<in> set ds. fat_entry s e = 0) \<and> (\<forall>e. fat_entry s e \<noteq> 0 \<and> e \<noteq> last cs \<longrightarrow> fat_entry s' e = fat_entry s e) \<and>
    (unat needed - unat current < length (cs @ ds) \<or> (\<forall>e. 2 \<le> e \<and> in_table s' e \<longrightarrow> fat_entry s' e \<noteq> 0))"
  using assms
proof (induction "unat needed - unat current" arbitrary: current c cs s)
  case 0
  then have "\<not> current < needed" "cs \<noteq> []" by (auto simp: word_less_nat_alt file_chain_def)
  then show ?case using 0 by (subst extend_chain.simps) (intro exI [of _ s] exI [of _ "[]"], simp)
next
  case (Suc k)
  have lt: "current < needed" using Suc.hyps(2) by (simp add: word_less_nat_alt)
  have u: "unat (current + 1) = unat current + 1" using lt by (simp add: unat_Suc_less)
  then have k: "k = unat needed - unat (current + 1)" using Suc.hyps(2) by simp
  have nx: "fat_get_next_cluster c s = fat_entry s c" by (rule file_chain_next [OF Suc.prems(2)])
  obtain ds where cs: "cs = c # ds" using Suc.prems(2) by (cases cs) (auto simp: file_chain_Cons file_chain_def)
  then have c: "in_chain c" "in_table s c" "c \<notin> set ds"
    "if ds = [] then FAT_CLUSTER_EOC \<le> fat_entry s c else file_chain s (fat_entry s c) ds"
    using Suc.prems(2) file_chain_distinct [OF Suc.prems(2)] by (auto simp: file_chain_Cons)
  show ?case
  proof (cases "ds = []")
    case False
    then have ch: "file_chain s (fat_entry s c) ds" using c(4) by simp
    have cu: "fat_entry s c \<noteq> 0" "c \<noteq> last ds"
      using file_chain_used [OF Suc.prems(2)] cs c(3) last_in_set [OF False] by auto
    have "\<not> FAT_CLUSTER_EOC \<le> fat_entry s c" using ch by (cases ds) (auto simp: file_chain_Cons file_chain_def in_chain_def not_le)
    then have st: "extend_chain needed current c s = extend_chain needed (current + 1) (fat_entry s c) s"
      using lt by (subst extend_chain.simps) (simp only: nx Let_def if_True if_False)
    obtain s' xs where s': "extend_chain needed (current + 1) (fat_entry s c) s = Some s'" "file_chain s' (fat_entry s c) (ds @ xs)"
      "same_volume s s'" "disk s' = disk s" "same_but (fat_table (fat_fs s)) (table_size s) (fmem s) (fmem s')" "\<forall>e \<in> set xs. fat_entry s e = 0"
      "\<forall>e. fat_entry s e \<noteq> 0 \<and> e \<noteq> last ds \<longrightarrow> fat_entry s' e = fat_entry s e"
      "unat needed - unat (current + 1) < length (ds @ xs) \<or> (\<forall>e. 2 \<le> e \<and> in_table s' e \<longrightarrow> fat_entry s' e \<noteq> 0)"
      using Suc.hyps(1) [OF k Suc.prems(1) ch] by blast
    have "file_chain s' c (cs @ xs)" using s'(2,7) cu c(1,2) same_volumeD(9) [OF s'(3)] False cs by (auto simp: file_chain_Cons)
    moreover have "unat needed - unat current < length (cs @ xs) \<or> (\<forall>e. 2 \<le> e \<and> in_table s' e \<longrightarrow> fat_entry s' e \<noteq> 0)"
      using s'(8) u cs by auto
    ultimately show ?thesis using s'(1,3-7) st False cs by (intro exI [of _ s'] exI [of _ xs]) auto
  next
    case True
    then have eoc: "FAT_CLUSTER_EOC \<le> fat_entry s c" using c(4) by simp
    from alloc_free [OF Suc.prems(1)] show ?thesis
    proof (elim disjE exE conjE)
      assume a: "fat_alloc_cluster s = Some (0, s)" "\<forall>e. 2 \<le> e \<and> in_table s e \<longrightarrow> fat_entry s e \<noteq> 0"
      then have "extend_chain needed current c s = Some s" using lt eoc nx by (subst extend_chain.simps) (simp add: Let_def)
      then show ?thesis using a Suc.prems(2) by (intro exI [of _ s] exI [of _ "[]"]) simp
    next
      fix d assume d: "fat_alloc_cluster s = Some (d, fat_set_cluster d FAT_CLUSTER_EOC s)" "in_chain d" "in_table s d" "fat_entry s d = 0"
      define s2 where "s2 = fat_set_cluster c d (fat_set_cluster d FAT_CLUSTER_EOC s)"
      have "d \<noteq> 0" using d(2) by (auto simp: in_chain_def)
      then have st: "extend_chain needed current c s = extend_chain needed (current + 1) d s2"
        using lt eoc nx d(1) by (subst extend_chain.simps) (simp add: Let_def s2_def)
      have cd: "c \<noteq> d" "fat_entry s c \<noteq> 0" using d(4) file_chain_used [OF Suc.prems(2), of c] cs by auto
      have e2: "fat_entry s2 e = (if e = c then d else if e = d then FAT_CLUSTER_EOC else fat_entry s e)" "in_table s2 e = in_table s e" for e
        using c(2) d(3) by (simp_all add: s2_def set_cluster_entry)
      have v2: "same_volume s s2" "disk s2 = disk s"
        using same_volume_trans [OF set_cluster_volume(1) set_cluster_volume(1)] by (simp_all add: s2_def)
      have mem2: "same_but (fat_table (fat_fs s)) (table_size s) (fmem s) (fmem s2)"
        using same_but_trans [OF set_cluster_mem [OF Suc.prems(1), of d FAT_CLUSTER_EOC]]
          set_cluster_mem [of "fat_set_cluster d FAT_CLUSTER_EOC s" c d]
          same_volumeD [OF set_cluster_volume(1), where s = s and c1 = d and v1 = FAT_CLUSTER_EOC] Suc.prems(1) by (simp add: s2_def)
      have g2: "fat_geometry (fat_fs s2)" using Suc.prems(1) same_volumeD(1) [OF v2(1)] by simp
      have ch2: "file_chain s2 d [d]" using d(2,3) cd e2 by (simp add: file_chain_Cons)
      obtain s' xs where s': "extend_chain needed (current + 1) d s2 = Some s'" "file_chain s' d ([d] @ xs)"
        "same_volume s2 s'" "disk s' = disk s2" "same_but (fat_table (fat_fs s2)) (table_size s2) (fmem s2) (fmem s')"
        "\<forall>e \<in> set xs. fat_entry s2 e = 0" "\<forall>e. fat_entry s2 e \<noteq> 0 \<and> e \<noteq> last [d] \<longrightarrow> fat_entry s' e = fat_entry s2 e"
        "unat needed - unat (current + 1) < length ([d] @ xs) \<or> (\<forall>e. 2 \<le> e \<and> in_table s' e \<longrightarrow> fat_entry s' e \<noteq> 0)"
        using Suc.hyps(1) [OF k g2 ch2] by blast
      have mem: "same_but (fat_table (fat_fs s)) (table_size s) (fmem s) (fmem s')"
        using same_but_trans [OF mem2] s'(5) same_volumeD(3,10) [OF v2(1)] by simp
      have "fat_entry s' c = d" using s'(7) e2(1) [of c] cd \<open>d \<noteq> 0\<close> by simp
      then have "file_chain s' c (cs @ d # xs)"
        using s'(2) c(1,2) same_volumeD(9) [OF same_volume_trans [OF v2(1) s'(3)]] cs True by (simp add: file_chain_Cons)
      moreover have "fat_entry s e = 0" if "fat_entry s2 e = 0" for e
        using that d(4) \<open>d \<noteq> 0\<close> unfolding e2(1) by (auto split: if_splits)
      then have "\<forall>e \<in> set (d # xs). fat_entry s e = 0" using s'(6) d(4) by auto
      moreover have "fat_entry s' e = fat_entry s e" if "fat_entry s e \<noteq> 0" "e \<noteq> last cs" for e
        using s'(7) e2(1) [of e] that d(4) cs True by (cases "e = d") auto
      moreover have "unat needed - unat current < length (cs @ d # xs) \<or> (\<forall>e. 2 \<le> e \<and> in_table s' e \<longrightarrow> fat_entry s' e \<noteq> 0)"
        using s'(8) u cs by auto
      ultimately show ?thesis
        using s'(1,4) mem st v2(2) same_volume_trans [OF v2(1) s'(3)] by (intro exI [of _ s'] exI [of _ "d # xs"]) auto
    qed
  qed
qed

end
