(* ===== verification/FatFile.thy ===== *)
theory FatFile
  imports FatChain
begin

text \<open>
  Reading and writing file data on a FAT volume: what the clusters of a chain hold, and that \<open>fat_node_read\<close> returns what
  \<open>fat_node_write\<close> wrote. The lemmas are proved for every disk of the interface \<open>sector_disk\<close>; the properties hold for
  the driver on a disk of the documented protocol.
\<close>

section \<open>Data of clusters and files\<close>

definition cluster_data :: "(ata_state \<Rightarrow> u8 \<Rightarrow> u32 \<Rightarrow> u8 list) \<Rightarrow> fs_state \<Rightarrow> u16 \<Rightarrow> u8 list" where
  "cluster_data sec s c = concat (map (\<lambda>i. sec (disk s) (fs_drive (fat_fs s)) (cluster_to_lba c s + of_nat i)) [0..<spc s])"

definition file_data :: "(ata_state \<Rightarrow> u8 \<Rightarrow> u32 \<Rightarrow> u8 list) \<Rightarrow> fs_state \<Rightarrow> u16 list \<Rightarrow> u8 list" where
  "file_data sec s cs = concat (map (cluster_data sec s) cs)"

text \<open>Two states that differ at most in the disk and in memory.\<close>

definition only_io :: "fs_state \<Rightarrow> fs_state \<Rightarrow> bool" where
  "only_io s s' \<longleftrightarrow> (\<exists>a m. s' = s\<lparr>disk := a, fmem := m\<rparr>)"

lemma only_io_upd: "only_io s (s\<lparr>disk := a, fmem := m\<rparr>)"
  unfolding only_io_def by blast

lemma only_io_upds [simp]: "only_io s (s\<lparr>disk := a\<rparr>)" "only_io s (s\<lparr>fmem := m\<rparr>)" "only_io s s"
  using only_io_upd [where m = "fmem s" and s = s and a = a] only_io_upd [where a = "disk s" and s = s and m = m]
    only_io_upd [where a = "disk s" and m = "fmem s" and s = s] by simp_all

lemma only_ioD:
  assumes "only_io s s'"
  shows "fat_fs s' = fat_fs s" "nodes s' = nodes s" "fat_nodes s' = fat_nodes s" "fat_initialized s' = fat_initialized s"
    "cluster_to_lba c s' = cluster_to_lba c s" "in_table s' c = in_table s c" "table_size s' = table_size s"
    "cluster_bytes s' = cluster_bytes s" "root_sectors s' = root_sectors s" "entries_per_cluster s' = entries_per_cluster s"
  using assms by (auto simp: only_io_def cluster_to_lba_def in_table_def table_size_def cluster_bytes_def root_sectors_def entries_per_cluster_def)

lemma only_io_trans: "only_io s s' \<Longrightarrow> only_io s' s'' \<Longrightarrow> only_io s s''"
  using only_io_upd by (auto simp: only_io_def [of s s'] only_io_def [of s' s''])

lemma low_lba: "unat (l :: u32) < 2 ^ 28 \<Longrightarrow> take_bit 28 l = l"
  by (simp add: take_bit_eq_mod word_unat_eq_iff unat_mod_distrib)

lemma bytes_at_blocks: "concat (map (\<lambda>i. bytes_at m (buf + of_nat i * 512) 512) [0..<n]) = bytes_at m buf (n * 512)"
proof (induction n)
  case (Suc n)
  have "bytes_at m buf (Suc n * 512) = bytes_at m buf (n * 512) @ bytes_at m (buf + of_nat (n * 512)) 512"
    using bytes_at_append [of m buf "n * 512" 512] by (simp add: add.commute)
  then show ?case using Suc by simp
qed (simp add: bytes_at_def)

text \<open>The file system's drive is ready.\<close>

definition disk_up :: "ata_device \<Rightarrow> (ata_state \<Rightarrow> u8 \<Rightarrow> bool) \<Rightarrow> fat_env \<Rightarrow> fs_state \<Rightarrow> bool" where
  "disk_up dev ready E s \<longleftrightarrow> fat_dev E = dev \<and> ready (disk s) (fs_drive (fat_fs s))"

text \<open>The clusters of a directory; the root directory is not in a chain.\<close>

definition dir_chain :: "fs_state \<Rightarrow> u16 \<Rightarrow> u16 list \<Rightarrow> bool" where
  "dir_chain s c ps \<longleftrightarrow> (if c = 0 then ps = [] else file_chain s c ps)"

lemma set_entry_mem:
  assumes "32 * (i + 1) \<le> n" "n < 4294967296"
  shows "same_but a n m (set_entry_size (entry_addr a i) z c m)"
  unfolding same_but_def
proof (intro allI impI)
  fix x assume x: "n \<le> unat (x - a)"
  have ne: "x \<noteq> a + (32 * of_nat i + of_nat j)" if "j < 32" for j
  proof
    assume "x = a + (32 * of_nat i + of_nat j)"
    then have "x - a = of_nat (32 * i + j)" by simp
    then have "unat (x - a) = 32 * i + j" using that assms by (simp only: unat_of_nat) simp
    then show False using x that assms(1) by simp
  qed
  show "set_entry_size (entry_addr a i) z c m x = m x"
    using ne [of 26] ne [of 27] ne [of 28] ne [of 29] ne [of 30] ne [of 31]
    by (simp add: set_entry_size_def st16_def st32_def entry_addr_def add.assoc)
qed

lemma first_entry_bound: "first_entry t m a n = Some i \<Longrightarrow> i < n"
  by (auto simp: first_entry_def find_Some_iff)

lemma root_sectors_nat: "unat (root_sectors s) = (unat (root_entries (fat_fs s)) * 32 + 511) div 512"
  using unsigned_less [of "root_entries (fat_fs s)", where ?'a = nat]
  by (simp add: root_sectors_def unat_div_distrib unat_word_ariths)

lemma only_io_volume: "only_io s s' \<Longrightarrow> same_volume s s'"
  using same_volume_upd [where s = s and b = "fat_dirty (fat_fs s)"] by (auto simp: only_io_def)

text \<open>The clusters lie behind the tables and the root directory.\<close>

lemma cluster_data_cong:
  assumes "same_volume s s'" "fat_geometry (fat_fs s)" "in_chain c" "in_table s c"
    "\<And>l. unat (data_start (fat_fs s)) \<le> unat l \<Longrightarrow> sec (disk s') (fs_drive (fat_fs s)) l = sec (disk s) (fs_drive (fat_fs s)) l"
  shows "cluster_data sec s' c = cluster_data sec s c"
  unfolding cluster_data_def same_volumeD [OF assms(1)]
proof (intro arg_cong [of _ _ concat] map_cong refl)
  fix i assume "i \<in> set [0..<spc s]"
  then have "unat (cluster_to_lba c s + of_nat i) = unat (cluster_to_lba c s) + i"
    using cluster_lba(2) [OF assms(2-4)] geometryD(2) [OF assms(2)] by (subst unat_add_u32) (auto simp: unat_of_nat)
  then show "sec (disk s') (fs_drive (fat_fs s)) (cluster_to_lba c s + of_nat i) =
      sec (disk s) (fs_drive (fat_fs s)) (cluster_to_lba c s + of_nat i)"
    using cluster_lba(3) [OF assms(2-4)] by (intro assms(5)) simp
qed

text \<open>A file of the volume, with its clusters and those of its directory; the buffers of the driver and the table do
  not overlap.\<close>

definition fat_file :: "fat_env \<Rightarrow> fs_state \<Rightarrow> u32 \<Rightarrow> u16 list \<Rightarrow> u16 list \<Rightarrow> bool" where
  "fat_file E s node cs ps \<longleftrightarrow> node \<noteq> NULL \<and> n_type (nodes s node) = VFS_FILE \<and> n_impl (nodes s node) \<noteq> NULL \<and>
     file_chain s (fn_first_cluster (fat_nodes s (n_impl (nodes s node)))) cs \<and>
     dir_chain s (dir_cluster_of (n_parent (nodes s node)) s) ps \<and> set cs \<inter> set ps = {} \<and>
     separate (fat_table (fat_fs s)) (table_size s) (write_buffer E) (spc s * 512) \<and>
     separate (fat_table (fat_fs s)) (table_size s) (dir_buffer E) (spc s * 512) \<and>
     separate (fat_table (fat_fs s)) (table_size s) (read_buffer E) (spc s * 512)"

definition volume_full :: "fs_state \<Rightarrow> bool" where
  "volume_full s \<longleftrightarrow> (\<forall>c. in_chain c \<and> in_table s c \<longrightarrow> fat_entry s c \<noteq> 0)"

lemma node_upd_frame [simp]:
  "cluster_data sec (upd_node n f s) c = cluster_data sec s c" "fat_entry (upd_node n f s) c = fat_entry s c"
  "in_table (upd_node n f s) c = in_table s c" "fat_fs (upd_node n f s) = fat_fs s" "fmem (upd_node n f s) = fmem s"
  "disk_up dev ready E (upd_node n f s) = disk_up dev ready E s" "table_size (upd_node n f s) = table_size s"
  "fat_nodes (upd_node n f s) = fat_nodes s"
  by (simp_all add: upd_node_def cluster_data_def fat_entry_def in_table_def disk_up_def table_size_def cluster_to_lba_def)

lemma file_chain_entries:
  "file_chain s c cs \<Longrightarrow> (\<And>e. in_table s e \<Longrightarrow> fat_entry s' e = fat_entry s e) \<Longrightarrow> (\<And>e. in_table s' e = in_table s e) \<Longrightarrow> file_chain s' c cs"
  by (subst file_chain_cong [where s = s]) (auto dest: file_chain_set)

lemma dir_chain_entries:
  "dir_chain s c cs \<Longrightarrow> (\<And>e. in_table s e \<Longrightarrow> fat_entry s' e = fat_entry s e) \<Longrightarrow> (\<And>e. in_table s' e = in_table s e) \<Longrightarrow> dir_chain s' c cs"
  by (auto simp: dir_chain_def intro: file_chain_entries split: if_splits)

text \<open>States with the same chains and the same nodes up to their size.\<close>

definition same_files :: "fs_state \<Rightarrow> fs_state \<Rightarrow> bool" where
  "same_files s s' \<longleftrightarrow> fat_fs s' = (fat_fs s)\<lparr>fat_dirty := fat_dirty (fat_fs s')\<rparr> \<and> fat_nodes s' = fat_nodes s \<and>
     (\<forall>x. n_type (nodes s' x) = n_type (nodes s x) \<and> n_impl (nodes s' x) = n_impl (nodes s x) \<and> n_parent (nodes s' x) = n_parent (nodes s x)) \<and>
     (\<forall>e. in_table s e \<longrightarrow> fat_entry s' e = fat_entry s e)"

lemma same_filesD:
  assumes "same_files s s'"
  shows "in_table s' e = in_table s e" "fat_geometry (fat_fs s') = fat_geometry (fat_fs s)"
    "sectors_per_cluster (fat_fs s') = sectors_per_cluster (fat_fs s)" "fat_table (fat_fs s') = fat_table (fat_fs s)" "table_size s' = table_size s"
proof -
  obtain b where "fat_fs s' = (fat_fs s)\<lparr>fat_dirty := b\<rparr>" using assms by (auto simp: same_files_def)
  then show "in_table s' e = in_table s e" "fat_geometry (fat_fs s') = fat_geometry (fat_fs s)"
    "sectors_per_cluster (fat_fs s') = sectors_per_cluster (fat_fs s)" "fat_table (fat_fs s') = fat_table (fat_fs s)" "table_size s' = table_size s"
    by (simp_all add: in_table_def fat_geometry_def table_size_def)
qed

lemma same_files_refl [simp]: "same_files s s"
  by (simp add: same_files_def)

lemma same_files_trans:
  assumes "same_files s s'" "same_files s' s''"
  shows "same_files s s''"
proof -
  obtain b b' where "fat_fs s' = (fat_fs s)\<lparr>fat_dirty := b\<rparr>" "fat_fs s'' = (fat_fs s')\<lparr>fat_dirty := b'\<rparr>"
    using assms by (metis same_files_def)
  then show ?thesis using assms same_filesD(1) [OF assms(1)] by (simp add: same_files_def)
qed

lemma same_files_nodes:
  assumes "same_files s s'"
  shows "fat_nodes s' = fat_nodes s" "n_type (nodes s' x) = n_type (nodes s x)" "n_impl (nodes s' x) = n_impl (nodes s x)"
    "n_parent (nodes s' x) = n_parent (nodes s x)" "dir_cluster_of x s' = dir_cluster_of x s" "in_table s e \<Longrightarrow> fat_entry s' e = fat_entry s e"
  using assms by (auto simp: same_files_def dir_cluster_of_def Let_def)

lemma same_files_file:
  assumes "same_files s s'" "fat_file E s node cs ps"
  shows "fat_file E s' node cs ps"
proof -
  note keep = same_filesD [OF assms(1)] same_files_nodes [OF assms(1)]
  have "file_chain s' c xs" if "file_chain s c xs" for c xs using that keep by (blast intro: file_chain_entries)
  moreover have "dir_chain s' c xs" if "dir_chain s c xs" for c xs using that keep by (blast intro: dir_chain_entries)
  ultimately show ?thesis using assms(2) unfolding fat_file_def keep by blast
qed

lemma same_files_full: "same_files s s' \<Longrightarrow> volume_full s' = volume_full s"
  unfolding volume_full_def using same_filesD(1) same_files_nodes(6) by fastforce

lemma same_files_io:
  assumes "only_io s s'" "fat_geometry (fat_fs s)" "same_but a n (fmem s) (fmem s')" "separate (fat_table (fat_fs s)) (table_size s) a n"
  shows "same_files s s'"
  using fat_entry_cong [OF assms(2) _ assms(3) only_ioD(1) [OF assms(1)] assms(4)] only_ioD [OF assms(1)] by (simp add: same_files_def)

lemma same_files_size: "same_files s (upd_node node (\<lambda>n. n\<lparr>n_size := z\<rparr>) s)"
  unfolding same_files_def node_upd_frame by (simp add: upd_node_def)

lemma same_files_volume: "same_volume s s' \<Longrightarrow> fmem s' = fmem s \<Longrightarrow> same_files s s'"
  by (auto simp: same_files_def same_volume_def fat_entry_def)

lemma clusters_needed:
  fixes o' z c k :: nat
  assumes "0 < c" "(o' + z + c - 1) div c \<le> k"
  shows "o' + z \<le> k * c"
proof -
  have "o' + z + c - 1 = (o' + z + c - 1) div c * c + (o' + z + c - 1) mod c" by simp
  moreover have "(o' + z + c - 1) mod c < c" using assms(1) by simp
  moreover have "(o' + z + c - 1) div c * c \<le> k * c" using assms(2) by (rule mult_le_mono1)
  ultimately show ?thesis using assms(1) by linarith
qed

context sector_disk
begin

lemma fs_read:
  assumes "disk_up dev ready E s" "unat lba < 2 ^ 28"
  shows "\<exists>s'. fs_read_sector (fat_dev E) (fs_drive (fat_fs s)) lba buf s = (0, s') \<and> only_io s s' \<and> disk_up dev ready E s' \<and>
    fmem s' = put_bytes buf (sector (disk s) (fs_drive (fat_fs s)) lba) (fmem s) \<and> sector (disk s') = sector (disk s)"
proof -
  have r: "ready (disk s) (fs_drive (fat_fs s))" and d: "fat_dev E = dev" using assms(1) by (simp_all add: disk_up_def)
  obtain a where "ata_read_sector dev (fs_drive (fat_fs s)) lba buf (disk s) (fmem s) =
      (0, a, put_bytes buf (sector (disk s) (fs_drive (fat_fs s)) lba) (fmem s))" "sector a = sector (disk s)" "ready a (fs_drive (fat_fs s))"
    using read_sector [OF r, of lba buf "fmem s"] low_lba [OF assms(2)] r by auto
  then show ?thesis using d by (auto simp: fs_read_sector_def disk_up_def only_io_upd)
qed

lemma fs_write:
  assumes "disk_up dev ready E s" "unat lba < 2 ^ 28"
  shows "\<exists>s'. fs_write_sector (fat_dev E) (fs_drive (fat_fs s)) lba buf s = (0, s') \<and> only_io s s' \<and> disk_up dev ready E s' \<and> fmem s' = fmem s \<and>
    (\<forall>l. sector (disk s') (fs_drive (fat_fs s)) l =
       (if l = lba then bytes_at (fmem s) buf 512 else sector (disk s) (fs_drive (fat_fs s)) l))"
proof -
  have r: "ready (disk s) (fs_drive (fat_fs s))" and d: "fat_dev E = dev" using assms(1) by (simp_all add: disk_up_def)
  obtain a where "ata_write_sector dev (fs_drive (fat_fs s)) lba buf (fmem s) (disk s) = (0, a)"
    "\<And>e l. ready (disk s) e \<Longrightarrow> sector a e l =
       (if e = fs_drive (fat_fs s) \<and> l = lba then bytes_at (fmem s) buf 512 else sector (disk s) e l)"
    "ready a (fs_drive (fat_fs s))"
    using write_sector [OF r, of lba buf "fmem s"] low_lba [OF assms(2)] r by auto
  then show ?thesis using d r by (auto simp: fs_write_sector_def disk_up_def only_io_upd)
qed

lemma read_loop_cluster:
  assumes "disk_up dev ready E s" "unat lba + unat n \<le> 2 ^ 28" "i \<le> n"
  shows "\<exists>s'. read_cluster_loop E lba buf n i s = (0, s') \<and> only_io s s' \<and> disk_up dev ready E s' \<and> sector (disk s') = sector (disk s) \<and>
    fmem s' = put_bytes (buf + of_nat (unat i * 512))
      (concat (map (\<lambda>k. sector (disk s) (fs_drive (fat_fs s)) (lba + of_nat k)) [unat i..<unat n])) (fmem s)"
  using assms
proof (induction "unat n - unat i" arbitrary: i s)
  case 0
  then have "i = n" by (simp add: word_le_nat_alt word_unat_eq_iff)
  then show ?case using 0 by (subst read_cluster_loop.simps) simp
next
  case (Suc k)
  let ?d = "fs_drive (fat_fs s)"
  have lt: "i < n" using Suc.hyps(2) by (simp add: word_less_nat_alt)
  then have u: "unat (i + 1) = unat i + 1" by (simp add: unat_Suc_less)
  have n: "unat n < 256" using unsigned_less [of n, where ?'a = nat] by simp
  have l: "unat (lba + of_nat (unat i)) = unat lba + unat i" using lt n Suc.prems(2)
    by (subst unat_add_u32) (auto simp: unat_of_nat word_less_nat_alt)
  then have "unat (lba + ucast i) < 2 ^ 28" using lt Suc.prems(2) by (simp add: word_less_nat_alt)
  from fs_read [OF Suc.prems(1) this, of "buf + ucast i * 512"] obtain s1 where s1:
    "fs_read_sector (fat_dev E) ?d (lba + ucast i) (buf + ucast i * 512) s = (0, s1)" "only_io s s1" "disk_up dev ready E s1"
    "fmem s1 = put_bytes (buf + ucast i * 512) (sector (disk s) ?d (lba + ucast i)) (fmem s)" "sector (disk s1) = sector (disk s)"
    by blast
  have "k = unat n - unat (i + 1)" "i + 1 \<le> n" using Suc.hyps(2) u lt by (simp_all add: inc_le_iff)
  from Suc.hyps(1) [OF this(1) s1(3) Suc.prems(2) this(2)] obtain s2 where s2: "read_cluster_loop E lba buf n (i + 1) s1 = (0, s2)"
    "only_io s1 s2" "disk_up dev ready E s2" "sector (disk s2) = sector (disk s1)"
    "fmem s2 = put_bytes (buf + of_nat (unat (i + 1) * 512))
      (concat (map (\<lambda>k. sector (disk s1) (fs_drive (fat_fs s1)) (lba + of_nat k)) [unat (i + 1)..<unat n])) (fmem s1)"
    by blast
  have "unat (ucast i + 1 :: u32) = unat i + 1" using n lt by (subst unat_add_u32) (auto simp: word_less_nat_alt)
  then have "(ucast (i + 1) :: u32) = ucast i + 1" by (simp add: word_unat_eq_iff u)
  then have uc: "(ucast (1 + i) :: u32) = ucast i + 1" by (simp only: add.commute [of 1 i])
  let ?f = "\<lambda>k. sector (disk s) ?d (lba + of_nat k)"
  have len: "length (?f k) = 512" for k using Suc.prems(1) by (intro sector_length) (simp add: disk_up_def)
  have "length (concat (map ?f [unat i + 1..<unat n])) \<le> 256 * 512" using n by (simp add: length_concat len sum_list_triv o_def)
  then have "put_bytes (buf + of_nat (unat i * 512)) (?f (unat i) @ concat (map ?f [unat i + 1..<unat n])) (fmem s) = fmem s2"
    using s1(4,5) s2(5) only_ioD(1) [OF s1(2)] len [of "unat i"] u uc by (subst put_bytes_append) (simp_all add: algebra_simps)
  moreover have "[unat i..<unat n] = unat i # [unat i + 1..<unat n]" using lt by (simp add: upt_conv_Cons word_less_nat_alt)
  moreover have "read_cluster_loop E lba buf n i s = (0, s2)" using lt s1(1) s2(1) by (subst read_cluster_loop.simps) simp
  ultimately show ?case using s2(2-4) s1(2,5) only_io_trans by (intro exI [of _ s2]) auto
qed

lemma write_loop_cluster:
  assumes "disk_up dev ready E s" "unat lba + unat n \<le> 2 ^ 28" "i \<le> n"
  shows "\<exists>s'. write_cluster_loop E lba buf n i s = (0, s') \<and> only_io s s' \<and> disk_up dev ready E s' \<and> fmem s' = fmem s \<and>
    (\<forall>l. sector (disk s') (fs_drive (fat_fs s)) l = (if unat lba + unat i \<le> unat l \<and> unat l < unat lba + unat n
       then bytes_at (fmem s) (buf + (l - lba) * 512) 512 else sector (disk s) (fs_drive (fat_fs s)) l))"
  using assms
proof (induction "unat n - unat i" arbitrary: i s)
  case 0
  then have "i = n" by (simp add: word_le_nat_alt word_unat_eq_iff)
  then show ?case using 0 by (subst write_cluster_loop.simps) auto
next
  case (Suc k)
  let ?d = "fs_drive (fat_fs s)"
  have lt: "i < n" using Suc.hyps(2) by (simp add: word_less_nat_alt)
  then have u: "unat (i + 1) = unat i + 1" by (simp add: unat_Suc_less)
  have n: "unat n < 256" using unsigned_less [of n, where ?'a = nat] by simp
  have l: "unat (lba + ucast i) = unat lba + unat i" using lt n Suc.prems(2)
    by (subst unat_add_u32) (auto simp: word_less_nat_alt)
  then have "unat (lba + ucast i) < 2 ^ 28" using lt Suc.prems(2) by (simp add: word_less_nat_alt)
  from fs_write [OF Suc.prems(1) this, of "buf + ucast i * 512"] obtain s1 where s1:
    "fs_write_sector (fat_dev E) ?d (lba + ucast i) (buf + ucast i * 512) s = (0, s1)" "only_io s s1" "disk_up dev ready E s1" "fmem s1 = fmem s"
    "\<And>l. sector (disk s1) ?d l = (if l = lba + ucast i then bytes_at (fmem s) (buf + ucast i * 512) 512 else sector (disk s) ?d l)"
    by blast
  have "k = unat n - unat (i + 1)" "i + 1 \<le> n" using Suc.hyps(2) u lt by (simp_all add: inc_le_iff)
  from Suc.hyps(1) [OF this(1) s1(3) Suc.prems(2) this(2)] obtain s2 where s2: "write_cluster_loop E lba buf n (i + 1) s1 = (0, s2)"
    "only_io s1 s2" "disk_up dev ready E s2" "fmem s2 = fmem s1"
    "\<And>l. sector (disk s2) ?d l = (if unat lba + unat (i + 1) \<le> unat l \<and> unat l < unat lba + unat n
       then bytes_at (fmem s1) (buf + (l - lba) * 512) 512 else sector (disk s1) ?d l)"
    using only_ioD(1) [OF s1(2)] by auto
  have "write_cluster_loop E lba buf n i s = (0, s2)" using lt s1(1) s2(1) by (subst write_cluster_loop.simps) simp
  moreover have "sector (disk s2) ?d l = (if unat lba + unat i \<le> unat l \<and> unat l < unat lba + unat n
       then bytes_at (fmem s) (buf + (l - lba) * 512) 512 else sector (disk s) ?d l)" for l
  proof -
    have "l = lba + ucast i \<longleftrightarrow> unat l = unat lba + unat i" using l by (metis word_unat_eq_iff)
    moreover have "unat i < unat n" using lt by (simp add: word_less_nat_alt)
    ultimately show ?thesis unfolding s2(5) s1(4,5) u by auto
  qed
  ultimately show ?case using s2(2-4) s1(2,4) only_io_trans by (intro exI [of _ s2]) auto
qed

lemma read_cluster:
  assumes "disk_up dev ready E s" "fat_geometry (fat_fs s)" "in_chain c" "in_table s c"
  shows "\<exists>s'. fat_read_cluster E c buf s = (0, s') \<and> only_io s s' \<and> disk_up dev ready E s' \<and> sector (disk s') = sector (disk s) \<and>
    fmem s' = put_bytes buf (cluster_data sector s c) (fmem s)"
  using read_loop_cluster [OF assms(1) cluster_lba(2) [OF assms(2-4)], of 0 buf]
  by (simp add: fat_read_cluster_def cluster_data_def)

lemma cluster_data_length:
  assumes "disk_up dev ready E s"
  shows "length (cluster_data sector s c) = spc s * 512"
proof -
  have "length (sector (disk s) (fs_drive (fat_fs s)) l) = 512" for l using assms by (intro sector_length) (simp add: disk_up_def)
  then show ?thesis by (simp add: cluster_data_def length_concat o_def sum_list_triv)
qed

lemma write_cluster:
  assumes "disk_up dev ready E s" "fat_geometry (fat_fs s)" "in_chain c" "in_table s c"
  shows "\<exists>s'. fat_write_cluster E c buf s = (0, s') \<and> only_io s s' \<and> disk_up dev ready E s' \<and> fmem s' = fmem s \<and>
    cluster_data sector s' c = bytes_at (fmem s) buf (spc s * 512) \<and>
    (\<forall>d. in_chain d \<and> in_table s d \<and> d \<noteq> c \<longrightarrow> cluster_data sector s' d = cluster_data sector s d)"
proof -
  let ?d = "fs_drive (fat_fs s)" and ?l = "cluster_to_lba c s"
  obtain s' where s': "fat_write_cluster E c buf s = (0, s')" "only_io s s'" "disk_up dev ready E s'" "fmem s' = fmem s"
    "\<And>l. sector (disk s') ?d l = (if unat ?l \<le> unat l \<and> unat l < unat ?l + spc s
       then bytes_at (fmem s) (buf + (l - ?l) * 512) 512 else sector (disk s) ?d l)"
    using write_loop_cluster [OF assms(1) cluster_lba(2) [OF assms(2-4)], of 0 buf] by (auto simp: fat_write_cluster_def)
  have lba: "unat (cluster_to_lba d s + of_nat i) = unat (cluster_to_lba d s) + i" if "in_chain d" "in_table s d" "i < spc s" for d i
    using that cluster_lba(2) [OF assms(2) that(1,2)] geometryD(2) [OF assms(2)] by (subst unat_add_u32) (auto simp: unat_of_nat)
  have "cluster_data sector s' c = concat (map (\<lambda>i. bytes_at (fmem s) (buf + of_nat i * 512) 512) [0..<spc s])"
    unfolding cluster_data_def only_ioD [OF s'(2)]
    by (intro arg_cong [of _ _ concat] map_cong) (use s'(5) lba [OF assms(3,4)] in auto)
  then have "cluster_data sector s' c = bytes_at (fmem s) buf (spc s * 512)" unfolding bytes_at_blocks .
  moreover have "cluster_data sector s' d = cluster_data sector s d" if "in_chain d \<and> in_table s d \<and> d \<noteq> c" for d
    unfolding cluster_data_def only_ioD [OF s'(2)]
  proof (intro arg_cong [of _ _ concat] map_cong refl)
    fix i assume "i \<in> set [0..<spc s]"
    then have i: "i < spc s" by simp
    have d: "in_chain d" "in_table s d" "d \<noteq> c" using that by auto
    have "\<not> (unat ?l \<le> unat (cluster_to_lba d s + of_nat i) \<and> unat (cluster_to_lba d s + of_nat i) < unat ?l + spc s)"
      using clusters_apart [OF assms(2-4) d(1,2) d(3) [symmetric], of "unat (cluster_to_lba d s) + i"] lba [OF d(1,2) i] i by auto
    then show "sector (disk s') ?d (cluster_to_lba d s + of_nat i) = sector (disk s) ?d (cluster_to_lba d s + of_nat i)"
      by (simp only: s'(5) if_False)
  qed
  ultimately show ?thesis using s'(1-4) by blast
qed

lemma put_in_buffer:
  "off + length bs \<le> n \<Longrightarrow> n < 4294967296 \<Longrightarrow> same_but a n m (put_bytes (a + of_nat off) bs m)"
  unfolding same_but_def
proof (intro allI impI)
  fix x assume h: "off + length bs \<le> n" "n < 4294967296" "n \<le> unat (x - a)"
  show "put_bytes (a + of_nat off) bs m x = m x"
  proof (cases "bs = []")
    case False
    then have o: "unat (of_nat off :: u32) = off" using h(1,2) by (simp add: unat_of_nat) 
    have "(of_nat off :: u32) \<le> x - a" using h o by (simp add: word_le_nat_alt)
    then have "unat (x - (a + of_nat off)) = unat (x - a) - off" using unat_sub [of "of_nat off" "x - a"] o by (simp add: diff_diff_eq)
    then show ?thesis using h by (intro put_bytes_other) simp
  qed simp
qed

text \<open>One round of the write loop: the cluster gets the bytes of the caller's buffer at its offset.\<close>

lemma write_round:
  assumes up: "disk_up dev ready E s" and geo: "fat_geometry (fat_fs s)" and c: "in_chain c" "in_table s c"
    and off: "unat off < spc s * 512" and bw: "bw < sz"
    and sep: "separate buffer (unat sz) (write_buffer E) (spc s * 512)"
  defines "k \<equiv> min (spc s * 512 - unat off) (unat sz - unat bw)"
  shows "\<exists>s'. write_loop E buffer sz off bw c s = write_loop E buffer sz 0 (bw + of_nat k) (fat_get_next_cluster c s') s' \<and>
    only_io s s' \<and> disk_up dev ready E s' \<and> same_but (write_buffer E) (spc s * 512) (fmem s) (fmem s') \<and>
    cluster_data sector s' c = take (unat off) (cluster_data sector s c) @ bytes_at (fmem s) (buffer + bw) k @
      drop (unat off + k) (cluster_data sector s c) \<and>
    (\<forall>d. in_chain d \<and> in_table s d \<and> d \<noteq> c \<longrightarrow> cluster_data sector s' d = cluster_data sector s d)"
proof -
  let ?wb = "write_buffer E" and ?n = "spc s * 512" and ?C = "cluster_data sector s c"
  note g = geometryD [OF geo]
  have n: "?n \<le> 2048" using g(2) by simp
  have lenC: "length ?C = ?n" by (rule cluster_data_length [OF up])
  have bw': "unat bw < unat sz" using bw by (simp add: word_less_nat_alt)
  have sub: "unat (sz - bw) = unat sz - unat bw" using bw by (simp add: unat_sub)
  have off_le: "off \<le> cluster_bytes s" using off g(4) by (simp add: word_le_nat_alt)
  then have sub2: "unat (cluster_bytes s - off) = ?n - unat off" using g(4) by (simp add: unat_sub)
  let ?part = "off > 0 \<or> sz - bw < cluster_bytes s"
  define s1 where "s1 = (if ?part then snd (fat_read_cluster E c ?wb s) else s)"
  obtain r where r: "fat_read_cluster E c ?wb s = (0, r)" "only_io s r" "disk_up dev ready E r" "sector (disk r) = sector (disk s)"
    "fmem r = put_bytes ?wb ?C (fmem s)" using read_cluster [OF up geo c] by blast
  have s1: "only_io s s1" "disk_up dev ready E s1" "sector (disk s1) = sector (disk s)" "same_but ?wb ?n (fmem s) (fmem s1)"
    using r up same_but_put [of ?C ?n ?wb "fmem s"] lenC by (simp_all add: s1_def)
  have full: "unat off = 0 \<and> k = ?n" if "\<not> ?part"
    using that sub g(4) by (auto simp: k_def word_less_nat_alt unat_eq_0)
  define tw where "tw = (if cluster_bytes s - off > sz - bw then sz - bw else cluster_bytes s - off)"
  have tw: "unat tw = k" using sub sub2 by (auto simp: tw_def k_def word_less_nat_alt)
  then have twk: "tw = of_nat k" by (simp flip: tw)
  have "unat bw + k \<le> unat sz" using bw' by (simp add: k_def)
  then have sepk: "separate (buffer + bw) k ?wb ?n"
    using separate_shift [OF sep _ less_imp_le [OF unat_u32_bound], of "unat bw" k] by simp
  have sepwk: "separate (?wb + off) k (buffer + bw) k"
    using separate_shift [OF separate_sym [OF sepk], of "unat off" k] n off by (simp add: k_def)
  define bs where "bs = bytes_at (fmem s) (buffer + bw) k"
  have bs: "length bs = k" "bytes_at (fmem s1) (buffer + bw) k = bs"
    using same_but_bytes [OF s1(4) sepk] n by (simp_all add: bs_def k_def)
  define m where "m = memcpy (?wb + off) (buffer + bw) tw (fmem s1)"
  have m: "m = put_bytes (?wb + of_nat (unat off)) bs (fmem s1)"
    using memcpy_put_bytes [of "?wb + off" tw "buffer + bw" "fmem s1"] sepwk by (simp add: m_def tw bs(2))
  have okn: "unat off + length bs \<le> ?n" "?n < 4294967296" using off n bs(1) by (simp_all add: k_def)
  have wb: "bytes_at m ?wb ?n = take (unat off) ?C @ bs @ drop (unat off + k) ?C"
  proof (cases ?part)
    case True
    then have "bytes_at (fmem s1) ?wb ?n = ?C" using r lenC n by (simp add: s1_def bytes_at_put_bytes)
    then show ?thesis unfolding m bytes_at_put_mid [OF okn] bs(1) by simp
  next
    case False
    then show ?thesis unfolding m bytes_at_put_mid [OF okn] using full lenC bs(1) by simp
  qed
  define s2 where "s2 = s1\<lparr>fmem := m\<rparr>"
  have io2: "only_io s s2" using only_io_trans [OF s1(1)] by (simp add: s2_def)
  have up2: "disk_up dev ready E s2" using s1(2) by (simp add: disk_up_def s2_def)
  note d2 = only_ioD [OF io2]
  have cd: "cluster_data sector s2 d = cluster_data sector s d" for d
    using s1(3) unfolding cluster_data_def d2 by (simp add: s2_def)
  obtain s3 where s3: "fat_write_cluster E c ?wb s2 = (0, s3)" "only_io s2 s3" "disk_up dev ready E s3" "fmem s3 = fmem s2"
    "cluster_data sector s3 c = bytes_at (fmem s2) ?wb (spc s2 * 512)"
    "\<And>d. in_chain d \<and> in_table s2 d \<and> d \<noteq> c \<Longrightarrow> cluster_data sector s3 d = cluster_data sector s2 d"
    using write_cluster [OF up2, of c ?wb] geo c d2 by auto
  have "write_loop E buffer sz off bw c s = write_loop E buffer sz 0 (bw + tw) (fat_get_next_cluster c s3) s3"
    by (subst write_loop.simps) (simp only: bw c(1) simp_thms if_True Let_def s1_def [symmetric] only_ioD(8) [OF s1(1)] tw_def [symmetric]
      m_def [symmetric] s2_def [symmetric] s3(1) prod.case less_irrefl if_False)
  moreover have "same_but ?wb ?n (fmem s) (fmem s3)"
    using same_but_trans [OF s1(4) put_in_buffer [OF okn]] s3(4) m by (simp add: s2_def)
  moreover have "cluster_data sector s3 c = take (unat off) ?C @ bs @ drop (unat off + k) ?C"
    using s3(5) wb d2(1) by (simp add: s2_def)
  ultimately show ?thesis
    using only_io_trans [OF io2 s3(2)] s3(3,6) cd d2(6) unfolding twk bs_def by (intro exI [of _ s3]) auto
qed

lemma file_data_Cons [simp]: "file_data sec s [] = []" "file_data sec s (c # cs) = cluster_data sec s c @ file_data sec s cs"
  by (simp_all add: file_data_def)

lemma file_data_cong: "(\<And>d. d \<in> set cs \<Longrightarrow> cluster_data sec s' d = cluster_data sec s d) \<Longrightarrow> file_data sec s' cs = file_data sec s cs"
  unfolding file_data_def by (intro arg_cong [of _ _ concat] map_cong) auto

lemma file_data_length: "disk_up dev ready E s \<Longrightarrow> length (file_data sector s cs) = length cs * (spc s * 512)"
  by (simp add: file_data_def length_concat o_def cluster_data_length sum_list_triv)

text \<open>The write loop over a chain: as many bytes as the chain has room for.\<close>

lemma write_loop_chain:
  assumes "disk_up dev ready E s" "fat_geometry (fat_fs s)" "separate buffer (unat sz) (write_buffer E) (spc s * 512)"
    "separate (fat_table (fat_fs s)) (table_size s) (write_buffer E) (spc s * 512)" "file_chain s c cs" "unat off < spc s * 512" "bw \<le> sz"
    "N = min (unat sz - unat bw) (length cs * (spc s * 512) - unat off)"
  shows "\<exists>s'. write_loop E buffer sz off bw c s = Some (bw + of_nat N, s') \<and> only_io s s' \<and> disk_up dev ready E s' \<and>
    same_but (write_buffer E) (spc s * 512) (fmem s) (fmem s') \<and>
    file_data sector s' cs = take (unat off) (file_data sector s cs) @ bytes_at (fmem s) (buffer + bw) N @
      drop (unat off + N) (file_data sector s cs) \<and>
    (\<forall>d. in_chain d \<and> in_table s d \<and> d \<notin> set cs \<longrightarrow> cluster_data sector s' d = cluster_data sector s d)"
  using assms
proof (induction cs arbitrary: c s off bw N)
  case (Cons d ds)
  note up = Cons.prems(1) and geo = Cons.prems(2) and sep = Cons.prems(3) and tab = Cons.prems(4) and ch = Cons.prems(5)
  let ?n = "spc s * 512" and ?wb = "write_buffer E"
  have c: "d = c" "in_chain c" "in_table s c" and nds: "c \<notin> set ds"
    and nxt: "if ds = [] then FAT_CLUSTER_EOC \<le> fat_entry s c else file_chain s (fat_entry s c) ds"
    using ch file_chain_distinct [OF ch] by (auto simp: file_chain_Cons)
  show ?case
  proof (cases "bw = sz")
    case True
    then have "N = 0" using Cons.prems(8) by simp
    then show ?thesis using True up by (subst write_loop.simps) (auto simp: bytes_at_def simp del: file_data_Cons)
  next
    case False
    then have lt: "bw < sz" using Cons.prems(7) by simp
    then have lt': "unat bw < unat sz" by (simp add: word_less_nat_alt)
    define k where "k = min (?n - unat off) (unat sz - unat bw)"
    obtain s1 where s1: "write_loop E buffer sz off bw c s = write_loop E buffer sz 0 (bw + of_nat k) (fat_get_next_cluster c s1) s1"
      "only_io s s1" "disk_up dev ready E s1" "same_but ?wb ?n (fmem s) (fmem s1)"
      "cluster_data sector s1 c = take (unat off) (cluster_data sector s c) @ bytes_at (fmem s) (buffer + bw) k @
        drop (unat off + k) (cluster_data sector s c)"
      "\<And>e. in_chain e \<Longrightarrow> in_table s e \<Longrightarrow> e \<noteq> c \<Longrightarrow> cluster_data sector s1 e = cluster_data sector s e"
      using write_round [OF up geo c(2,3) Cons.prems(6) lt sep] unfolding k_def by blast
    note d1 = only_ioD [OF s1(2)]
    have ent: "fat_entry s1 e = fat_entry s e" if "in_table s e" for e
      by (rule fat_entry_cong [OF geo that s1(4) d1(1) tab])
    have nx: "fat_get_next_cluster c s1 = fat_entry s c"
      using c d1(6) ent by (simp add: fat_get_next_cluster_def in_chain_def)
    have kle: "unat bw + k \<le> unat sz" using lt' by (simp add: k_def)
    have kn: "k \<le> ?n" "k < 4294967296" using geometryD(2) [OF geo] by (simp_all add: k_def)
    have ub: "unat (bw + of_nat k) = unat bw + k"
      using le_less_trans [OF kle unat_u32_bound] kn by (subst unat_add_u32) (simp_all add: unat_of_nat)
    have mult: "length (d # ds) * ?n = ?n + length ds * ?n" by simp
    have lenC: "length (cluster_data sector s c) = ?n" by (rule cluster_data_length [OF up])
    define N' where "N' = min (unat sz - (unat bw + k)) (length ds * ?n)"
    have N: "N = k + N'" and stop: "N' = 0 \<or> unat off + k = ?n"
      using Cons.prems(6,8) lt' unfolding N'_def k_def mult by (auto simp: min_def)
    have set_ds: "in_chain e" "in_table s e" "e \<noteq> c" if "e \<in> set ds" for e
      using that file_chain_set [OF ch, of e] nds by auto
    have fd1: "file_data sector s1 ds = file_data sector s ds" by (rule file_data_cong) (use set_ds s1(6) in blast)
    have okk: "unat off + k \<le> ?n" using Cons.prems(6) by (simp add: k_def)
    have splice: "file_data sector s1 [c] @ bs' @ drop (length bs') (file_data sector s ds) =
        take (unat off) (file_data sector s (d # ds)) @ (bytes_at (fmem s) (buffer + bw) k @ bs') @
        drop (unat off + N) (file_data sector s (d # ds))" if "length bs' = N'" for bs'
      using splice_append [of "unat off" "bytes_at (fmem s) (buffer + bw) k" "cluster_data sector s c" bs' "file_data sector s ds"]
        that stop lenC okk N s1(5) c(1) by (auto simp: file_data_def)
    show ?thesis
    proof (cases "ds = []")
      case True
      then have "N' = 0" by (simp add: N'_def)
      moreover have "\<not> in_chain (fat_entry s c)" using nxt True by (auto simp: in_chain_def not_less)
      then have "write_loop E buffer sz off bw c s = Some (bw + of_nat k, s1)"
        unfolding s1(1) nx by (subst write_loop.simps) simp
      ultimately show ?thesis using splice [of "[]"] s1(2-4,6) N True c(1) by (intro exI [of _ s1]) auto
    next
      case False
      then have "file_chain s (fat_entry s c) ds" using nxt by simp
      then have ch1: "file_chain s1 (fat_entry s c) ds"
        by (subst file_chain_cong) (use ent set_ds d1(6) in auto)
      have pre: "fat_geometry (fat_fs s1)" "separate buffer (unat sz) ?wb (spc s1 * 512)"
        "separate (fat_table (fat_fs s1)) (table_size s1) ?wb (spc s1 * 512)" "unat 0 < spc s1 * 512" "bw + of_nat k \<le> sz"
        "N' = min (unat sz - unat (bw + of_nat k)) (length ds * (spc s1 * 512) - unat 0)"
        using geo sep tab d1 kle ub geometryD(1) [OF geo] by (simp_all add: word_le_nat_alt N'_def)
      obtain s2 where s2: "write_loop E buffer sz 0 (bw + of_nat k) (fat_entry s c) s1 = Some (bw + of_nat k + of_nat N', s2)"
        "only_io s1 s2" "disk_up dev ready E s2" "same_but ?wb ?n (fmem s1) (fmem s2)"
        "file_data sector s2 ds = bytes_at (fmem s1) (buffer + (bw + of_nat k)) N' @ drop N' (file_data sector s ds)"
        "\<And>e. in_chain e \<Longrightarrow> in_table s e \<Longrightarrow> e \<notin> set ds \<Longrightarrow> cluster_data sector s2 e = cluster_data sector s1 e"
        using Cons.IH [OF s1(3) pre(1-3) ch1 pre(4-6)] d1(1,6) fd1 by auto
      have "separate (buffer + (bw + of_nat k)) N' ?wb ?n"
        using separate_shift [OF sep _ less_imp_le [OF unat_u32_bound], of "unat (bw + of_nat k)" N'] kle ub by (simp add: N'_def)
      moreover have "N' \<le> 4294967296" using less_imp_le [OF unat_u32_bound, of sz] unfolding N'_def by linarith
      ultimately have "bytes_at (fmem s1) (buffer + (bw + of_nat k)) N' = bytes_at (fmem s) (buffer + (bw + of_nat k)) N'"
        using same_but_bytes [OF s1(4)] by blast
      then have bs: "bytes_at (fmem s) (buffer + bw) k @ bytes_at (fmem s1) (buffer + (bw + of_nat k)) N' = bytes_at (fmem s) (buffer + bw) N"
        unfolding N bytes_at_append by (simp add: add.assoc)
      have "file_data sector s2 (d # ds) = take (unat off) (file_data sector s (d # ds)) @ bytes_at (fmem s) (buffer + bw) N @
          drop (unat off + N) (file_data sector s (d # ds))"
        using splice [of "bytes_at (fmem s1) (buffer + (bw + of_nat k)) N'"] s2(5) s2(6) [OF c(2,3) nds] c(1) unfolding bs
        by (simp add: file_data_def)
      moreover have "write_loop E buffer sz off bw c s = Some (bw + of_nat N, s2)"
        unfolding s1(1) nx s2(1) N by (simp add: add.assoc)
      moreover have "cluster_data sector s2 e = cluster_data sector s e" if "in_chain e \<and> in_table s e \<and> e \<notin> set (d # ds)" for e
        using that s2(6) s1(6) c(1) by auto
      ultimately show ?thesis using only_io_trans [OF s1(2) s2(2)] s2(3) same_but_trans [OF s1(4) s2(4)] by blast
    qed
  qed
qed (simp add: file_chain_def)

text \<open>One round of the read loop: the caller's buffer gets the bytes of the cluster from its offset on.\<close>

lemma read_round:
  assumes up: "disk_up dev ready E s" and geo: "fat_geometry (fat_fs s)" and c: "in_chain c" "in_table s c"
    and off: "unat off < spc s * 512" and br: "br < sz"
    and sep: "separate buffer (unat sz) (read_buffer E) (spc s * 512)"
  defines "k \<equiv> min (spc s * 512 - unat off) (unat sz - unat br)"
  shows "\<exists>s'. read_loop E buffer sz off br c s = read_loop E buffer sz 0 (br + of_nat k) (fat_get_next_cluster c s') s' \<and>
    only_io s s' \<and> disk_up dev ready E s' \<and> sector (disk s') = sector (disk s) \<and>
    fmem s' = put_bytes (buffer + br) (take k (drop (unat off) (cluster_data sector s c)))
      (put_bytes (read_buffer E) (cluster_data sector s c) (fmem s))"
proof -
  let ?rb = "read_buffer E" and ?n = "spc s * 512" and ?C = "cluster_data sector s c"
  note g = geometryD [OF geo]
  have n: "?n \<le> 2048" using g(2) by simp
  have lenC: "length ?C = ?n" by (rule cluster_data_length [OF up])
  have br': "unat br < unat sz" using br by (simp add: word_less_nat_alt)
  have sub: "unat (sz - br) = unat sz - unat br" using br by (simp add: unat_sub)
  have "off \<le> cluster_bytes s" using off g(4) by (simp add: word_le_nat_alt)
  then have sub2: "unat (cluster_bytes s - off) = ?n - unat off" using g(4) by (simp add: unat_sub)
  define tr where "tr = (if cluster_bytes s - off > sz - br then sz - br else cluster_bytes s - off)"
  have tr: "unat tr = k" using sub sub2 by (auto simp: tr_def k_def word_less_nat_alt)
  then have trk: "tr = of_nat k" by (simp flip: tr)
  have "unat br + k \<le> unat sz" using br' by (simp add: k_def)
  then have "separate (buffer + br) k ?rb ?n"
    using separate_shift [OF sep _ less_imp_le [OF unat_u32_bound], of "unat br" k] by simp
  from separate_sym [OF separate_shift [OF separate_sym [OF this], of "unat off" k]]
  have sepk: "separate (buffer + br) k (?rb + off) k" using n off by (simp add: k_def)
  obtain r where r: "fat_read_cluster E c ?rb s = (0, r)" "only_io s r" "disk_up dev ready E r" "sector (disk r) = sector (disk s)"
    "fmem r = put_bytes ?rb ?C (fmem s)" using read_cluster [OF up geo c] by blast
  define m where "m = memcpy (buffer + br) (?rb + off) tr (fmem r)"
  have okk: "unat off + k \<le> ?n" using off by (simp add: k_def)
  have "bytes_at (fmem r) (?rb + off) k = take k (drop (unat off) ?C)"
  proof -
    have "bytes_at (fmem r) ?rb ?n = ?C" using r(5) lenC n by (simp add: bytes_at_put_bytes)
    moreover have "bytes_at (fmem r) ?rb ?n = bytes_at (fmem r) ?rb (unat off) @ bytes_at (fmem r) (?rb + off) k @
        bytes_at (fmem r) (?rb + off + of_nat k) (?n - (unat off + k))"
      using okk bytes_at_append [of "fmem r" ?rb "unat off" "?n - unat off"]
        bytes_at_append [of "fmem r" "?rb + off" k "?n - unat off - k"] by simp
    ultimately have "?C = bytes_at (fmem r) ?rb (unat off) @ bytes_at (fmem r) (?rb + off) k @
        bytes_at (fmem r) (?rb + off + of_nat k) (?n - (unat off + k))" by simp
    then show ?thesis by (simp only:) simp
  qed
  then have m: "m = put_bytes (buffer + br) (take k (drop (unat off) ?C)) (put_bytes ?rb ?C (fmem s))"
    using memcpy_put_bytes [of "buffer + br" tr "?rb + off" "fmem r"] sepk r(5) by (simp add: m_def tr)
  define s2 where "s2 = r\<lparr>fmem := m\<rparr>"
  have "read_loop E buffer sz off br c s = read_loop E buffer sz 0 (br + tr) (fat_get_next_cluster c s2) s2"
    by (subst read_loop.simps) (simp only: br c(1) simp_thms if_True Let_def r(1) prod.case less_irrefl if_False only_ioD(8) [OF r(2)]
      tr_def [symmetric] m_def [symmetric] s2_def [symmetric])
  moreover have "only_io s s2" using only_io_trans [OF r(2)] by (simp add: s2_def)
  moreover have "disk_up dev ready E s2" using r(3) by (simp add: disk_up_def s2_def)
  ultimately show ?thesis using r(4) m unfolding trk by (intro exI [of _ s2]) (simp add: s2_def)
qed

lemma read_loop_chain:
  assumes "disk_up dev ready E s" "fat_geometry (fat_fs s)" "separate buffer (unat sz) (read_buffer E) (spc s * 512)"
    "separate (fat_table (fat_fs s)) (table_size s) (read_buffer E) (spc s * 512)"
    "separate (fat_table (fat_fs s)) (table_size s) buffer (unat sz)"
    "file_chain s c cs" "unat off < spc s * 512" "br \<le> sz"
    "N = min (unat sz - unat br) (length cs * (spc s * 512) - unat off)"
  shows "\<exists>s'. read_loop E buffer sz off br c s = Some (br + of_nat N, s') \<and> only_io s s' \<and> disk_up dev ready E s' \<and>
    sector (disk s') = sector (disk s) \<and>
    bytes_at (fmem s') (buffer + br) N = take N (drop (unat off) (file_data sector s cs)) \<and>
    (\<forall>x. spc s * 512 \<le> unat (x - read_buffer E) \<and> N \<le> unat (x - (buffer + br)) \<longrightarrow> fmem s' x = fmem s x)"
  using assms
proof (induction cs arbitrary: c s off br N)
  case (Cons d ds)
  note up = Cons.prems(1) and geo = Cons.prems(2) and sep = Cons.prems(3) and tab = Cons.prems(4,5) and ch = Cons.prems(6)
  let ?n = "spc s * 512" and ?rb = "read_buffer E"
  have c: "d = c" "in_chain c" "in_table s c"
    and nxt: "if ds = [] then FAT_CLUSTER_EOC \<le> fat_entry s c else file_chain s (fat_entry s c) ds"
    using ch by (auto simp: file_chain_Cons)
  show ?case
  proof (cases "br = sz")
    case True
    then have "N = 0" using Cons.prems(9) by simp
    then show ?thesis using True up by (subst read_loop.simps) (auto simp: bytes_at_def)
  next
    case False
    then have lt: "br < sz" using Cons.prems(8) by simp
    then have lt': "unat br < unat sz" by (simp add: word_less_nat_alt)
    define k where "k = min (?n - unat off) (unat sz - unat br)"
    define bs where "bs = take k (drop (unat off) (cluster_data sector s c))"
    define m where "m = put_bytes ?rb (cluster_data sector s c) (fmem s)"
    obtain s1 where s1: "read_loop E buffer sz off br c s = read_loop E buffer sz 0 (br + of_nat k) (fat_get_next_cluster c s1) s1"
      "only_io s s1" "disk_up dev ready E s1" "sector (disk s1) = sector (disk s)" "fmem s1 = put_bytes (buffer + br) bs m"
      using read_round [OF up geo c(2,3) Cons.prems(7) lt sep] unfolding k_def bs_def m_def by blast
    note d1 = only_ioD [OF s1(2)]
    have lenC: "length (cluster_data sector s c) = ?n" by (rule cluster_data_length [OF up])
    have kle: "unat br + k \<le> unat sz" using lt' by (simp add: k_def)
    have kn: "k < 4294967296" using geometryD(2) [OF geo] by (simp add: k_def)
    have okk: "unat off + k \<le> ?n" using Cons.prems(7) by (simp add: k_def)
    then have lenb: "length bs = k" using lenC by (simp add: bs_def)
    have ub: "unat (br + of_nat k) = unat br + k"
      using le_less_trans [OF kle unat_u32_bound] kn by (subst unat_add_u32) (simp_all add: unat_of_nat)
    have mem1: "same_but ?rb ?n (fmem s) m" using same_but_put lenC by (simp add: m_def)
    have mem2: "same_but buffer (unat sz) m (fmem s1)"
      using put_in_buffer [of "unat br" bs "unat sz" buffer m] kle lenb unfolding s1(5) by simp
    have ent: "fat_entry s1 e = fat_entry s e" if "in_table s e" for e
      using fat_entry_cong [OF geo that, of ?rb ?n "s\<lparr>fmem := m\<rparr>"] mem1 tab
        fat_entry_cong [of "s\<lparr>fmem := m\<rparr>" e buffer "unat sz" s1] geo that mem2 d1(1) by (simp add: in_table_def table_size_def)
    have nx: "fat_get_next_cluster c s1 = fat_entry s c"
      using c d1(6) ent by (simp add: fat_get_next_cluster_def in_chain_def)
    have mult: "length (d # ds) * ?n = ?n + length ds * ?n" by simp
    define N' where "N' = min (unat sz - (unat br + k)) (length ds * ?n)"
    have N: "N = k + N'" and stop: "N' = 0 \<or> unat off + k = ?n"
      using Cons.prems(7,9) lt' unfolding N'_def k_def mult by (auto simp: min_def)
    have fd1: "file_data sector s1 cs = file_data sector s cs" for cs
      by (rule file_data_cong) (simp add: cluster_data_def s1(4) d1)
    have got: "bytes_at (fmem s1) (buffer + br) k = bs" using lenb kn unfolding s1(5) by (simp add: bytes_at_put_bytes)
    have all: "bs @ take N' (file_data sector s ds) = take N (drop (unat off) (file_data sector s (d # ds)))"
      using stop okk lenC c(1) N by (auto simp: bs_def intro!: arg_cong2 [of _ _ _ _ take])
    have frame1: "fmem s1 x = fmem s x" if "?n \<le> unat (x - ?rb)" "k \<le> unat (x - (buffer + br))" for x
      using that lenb lenC unfolding s1(5) m_def by (simp add: put_bytes_other)
    show ?thesis
    proof (cases "ds = []")
      case True
      then have "N' = 0" by (simp add: N'_def)
      moreover have "\<not> in_chain (fat_entry s c)" using nxt True by (auto simp: in_chain_def not_less)
      then have "read_loop E buffer sz off br c s = Some (br + of_nat k, s1)"
        unfolding s1(1) nx by (subst read_loop.simps) simp
      ultimately show ?thesis using all got s1(2-4) N True frame1 by (intro exI [of _ s1]) auto
    next
      case False
      then have "file_chain s (fat_entry s c) ds" using nxt by simp
      then have ch1: "file_chain s1 (fat_entry s c) ds"
        by (subst file_chain_cong) (use ent file_chain_set [OF ch] d1(6) in auto)
      have pre: "fat_geometry (fat_fs s1)" "separate buffer (unat sz) ?rb (spc s1 * 512)"
        "separate (fat_table (fat_fs s1)) (table_size s1) ?rb (spc s1 * 512)"
        "separate (fat_table (fat_fs s1)) (table_size s1) buffer (unat sz)" "unat 0 < spc s1 * 512" "br + of_nat k \<le> sz"
        "N' = min (unat sz - unat (br + of_nat k)) (length ds * (spc s1 * 512) - unat 0)"
        using geo sep tab d1 kle ub geometryD(1) [OF geo] by (simp_all add: word_le_nat_alt N'_def)
      obtain s2 where s2: "read_loop E buffer sz 0 (br + of_nat k) (fat_entry s c) s1 = Some (br + of_nat k + of_nat N', s2)"
        "only_io s1 s2" "disk_up dev ready E s2" "sector (disk s2) = sector (disk s)"
        "bytes_at (fmem s2) (buffer + (br + of_nat k)) N' = take N' (file_data sector s ds)"
        "\<And>x. ?n \<le> unat (x - ?rb) \<Longrightarrow> N' \<le> unat (x - (buffer + (br + of_nat k))) \<Longrightarrow> fmem s2 x = fmem s1 x"
        using Cons.IH [OF s1(3) pre(1-4) ch1 pre(5-7)] d1(1) fd1 s1(4) by auto
      have "k + N' \<le> unat sz" using kle by (simp add: N'_def)
      then have kN: "k + N' < 4294967296" using le_less_trans [OF _ unat_u32_bound] by blast
      have sepk: "separate (buffer + br) k ?rb ?n"
        using separate_shift [OF sep kle less_imp_le [OF unat_u32_bound]] by simp
      have "bytes_at (fmem s2) (buffer + br) k = bytes_at (fmem s1) (buffer + br) k"
      proof (rule bytes_at_cong)
        fix i assume i: "i < k"
        have "unat (buffer + br + of_nat i - (buffer + br)) < k" using i kn by (simp add: unat_of_nat)
        from separateD [OF sepk this] have "?n \<le> unat (buffer + br + of_nat i - ?rb)" .
        moreover have "buffer + br + of_nat i - (buffer + (br + of_nat k)) = (of_nat i - of_nat k :: u32)" by simp
        moreover have "unat (of_nat i - of_nat k :: u32) = 4294967296 + i - k"
          using i kn by (simp add: unat_sub_if' unat_of_nat)
        ultimately show "fmem s2 (buffer + br + of_nat i) = fmem s1 (buffer + br + of_nat i)" using kN by (intro s2(6)) auto
      qed
      then have data: "bytes_at (fmem s2) (buffer + br) N = take N (drop (unat off) (file_data sector s (d # ds)))"
        using all got s2(5) unfolding N bytes_at_append by (simp add: add.assoc)
      have frame: "fmem s2 x = fmem s x" if x: "?n \<le> unat (x - ?rb)" "N \<le> unat (x - (buffer + br))" for x
      proof -
        have "of_nat k \<le> x - (buffer + br)" using x(2) N kn by (simp add: word_le_nat_alt unat_of_nat)
        then have "unat (x - (buffer + br) - of_nat k) = unat (x - (buffer + br)) - k" using kn by (simp add: unat_sub unat_of_nat)
        then have "N' \<le> unat (x - (buffer + (br + of_nat k)))" using x(2) N by (simp add: diff_diff_eq add.assoc)
        then show ?thesis using s2(6) frame1 x N by simp
      qed
      have "read_loop E buffer sz off br c s = Some (br + of_nat N, s2)"
        unfolding s1(1) nx s2(1) N by (simp add: add.assoc)
      then show ?thesis using only_io_trans [OF s1(2) s2(2)] s2(3,4) data frame by blast
    qed
  qed
qed (simp add: file_chain_def)

lemma file_data_append [simp]: "file_data sec s (cs @ ds) = file_data sec s cs @ file_data sec s ds"
  by (simp add: file_data_def)

lemma offset_split:
  assumes "fat_geometry (fat_fs s)"
  shows "unat offset = unat (offset div cluster_bytes s) * (spc s * 512) + unat (offset mod cluster_bytes s)"
    "unat (offset mod cluster_bytes s) < spc s * 512"
proof -
  show "unat offset = unat (offset div cluster_bytes s) * (spc s * 512) + unat (offset mod cluster_bytes s)"
    by (simp only: unat_div_distrib unat_mod_distrib geometryD(4) [OF assms] div_mult_mod_eq)
qed (use geometryD(1,4) [OF assms] in \<open>simp add: unat_mod_distrib\<close>)

text \<open>The two loops from the cluster that holds the offset, over the data of the whole file.\<close>

lemma write_from_offset:
  assumes "disk_up dev ready E s" "fat_geometry (fat_fs s)" "separate buffer (unat sz) (write_buffer E) (spc s * 512)"
    "separate (fat_table (fat_fs s)) (table_size s) (write_buffer E) (spc s * 512)" "file_chain s c cs"
    "N = min (unat sz) (length cs * (spc s * 512) - unat offset)"
  shows "\<exists>s'. write_loop E buffer sz (offset mod cluster_bytes s) 0 (skip_clusters s (offset div cluster_bytes s) 0 c) s = Some (of_nat N, s') \<and>
    only_io s s' \<and> disk_up dev ready E s' \<and> same_but (write_buffer E) (spc s * 512) (fmem s) (fmem s') \<and>
    file_data sector s' cs = take (unat offset) (file_data sector s cs) @ bytes_at (fmem s) buffer N @
      drop (unat offset + N) (file_data sector s cs) \<and>
    (\<forall>d. in_chain d \<and> in_table s d \<and> d \<notin> set cs \<longrightarrow> cluster_data sector s' d = cluster_data sector s d)"
proof -
  define q where "q = unat (offset div cluster_bytes s)"
  let ?n = "spc s * 512" and ?o = "offset mod cluster_bytes s" and ?k = "skip_clusters s (offset div cluster_bytes s) 0 c"
  have off: "unat offset = q * ?n + unat ?o" "unat ?o < ?n" unfolding q_def by (rule offset_split [OF assms(2)])+
  have sk: "if q < length cs then ?k = cs ! q else FAT_CLUSTER_EOC \<le> ?k"
    using skip_chain [OF assms(5), of 0 "offset div cluster_bytes s"] by (simp add: q_def)
  show ?thesis
  proof (cases "q < length cs")
    case True
    then have k: "?k = cs ! q" using sk by simp
    have len: "length (drop q cs) * ?n - unat ?o = length cs * ?n - unat offset" by (simp only: length_drop off(1) diff_mult_distrib diff_diff_eq)
    have N: "N = min (unat sz - unat 0) (length (drop q cs) * ?n - unat ?o)" using assms(6) len by simp
    obtain s' where s': "write_loop E buffer sz ?o 0 (cs ! q) s = Some (0 + of_nat N, s')" "only_io s s'" "disk_up dev ready E s'"
      "same_but (write_buffer E) ?n (fmem s) (fmem s')"
      "file_data sector s' (drop q cs) = take (unat ?o) (file_data sector s (drop q cs)) @ bytes_at (fmem s) (buffer + 0) N @
        drop (unat ?o + N) (file_data sector s (drop q cs))"
      "\<forall>d. in_chain d \<and> in_table s d \<and> d \<notin> set (drop q cs) \<longrightarrow> cluster_data sector s' d = cluster_data sector s d"
      using write_loop_chain [OF assms(1-4) file_chain_drop [OF assms(5) True] off(2) _ N] by fastforce
    have "distinct (take q cs @ drop q cs)" using file_chain_distinct [OF assms(5)] by simp
    then have "set (take q cs) \<inter> set (drop q cs) = {}" by (simp only: distinct_append)
    then have t: "file_data sector s' (take q cs) = file_data sector s (take q cs)"
      by (intro file_data_cong s'(6) [rule_format]) (use file_chain_set [OF assms(5)] in_set_takeD in fast)
    have lt: "length (file_data sector s (take q cs)) = q * ?n" using True by (simp add: file_data_length [OF assms(1)])
    have "file_data sector s' (take q cs @ drop q cs) = take (unat offset) (file_data sector s (take q cs @ drop q cs)) @
        bytes_at (fmem s) buffer N @ drop (unat offset + N) (file_data sector s (take q cs @ drop q cs))"
      unfolding file_data_append t s'(5) off(1) using lt by (simp add: add.assoc)
    then have "file_data sector s' cs = take (unat offset) (file_data sector s cs) @
        bytes_at (fmem s) buffer N @ drop (unat offset + N) (file_data sector s cs)" by (simp only: append_take_drop_id)
    then show ?thesis using s'(1-4,6) set_drop_subset [of q cs] unfolding k by auto
  next
    case False
    then have "length cs * ?n \<le> q * ?n" by (intro mult_le_mono1) simp
    then have N: "N = 0" and le: "length (file_data sector s cs) \<le> unat offset"
      unfolding assms(6) off(1) file_data_length [OF assms(1)] by linarith+
    have "\<not> in_chain ?k" using sk False by (auto simp: in_chain_def not_less)
    then show ?thesis using N le assms(1) by (subst write_loop.simps) (simp add: bytes_at_def)
  qed
qed

lemma read_from_offset:
  assumes "disk_up dev ready E s" "fat_geometry (fat_fs s)" "separate buffer (unat sz) (read_buffer E) (spc s * 512)"
    "separate (fat_table (fat_fs s)) (table_size s) (read_buffer E) (spc s * 512)"
    "separate (fat_table (fat_fs s)) (table_size s) buffer (unat sz)" "file_chain s c cs"
    "N = min (unat sz) (length cs * (spc s * 512) - unat offset)"
  shows "\<exists>s'. read_loop E buffer sz (offset mod cluster_bytes s) 0 (skip_clusters s (offset div cluster_bytes s) 0 c) s = Some (of_nat N, s') \<and>
    only_io s s' \<and> disk_up dev ready E s' \<and> sector (disk s') = sector (disk s) \<and>
    bytes_at (fmem s') buffer N = take N (drop (unat offset) (file_data sector s cs))"
proof -
  define q where "q = unat (offset div cluster_bytes s)"
  let ?n = "spc s * 512" and ?o = "offset mod cluster_bytes s" and ?k = "skip_clusters s (offset div cluster_bytes s) 0 c"
  have off: "unat offset = q * ?n + unat ?o" "unat ?o < ?n" unfolding q_def by (rule offset_split [OF assms(2)])+
  have sk: "if q < length cs then ?k = cs ! q else FAT_CLUSTER_EOC \<le> ?k"
    using skip_chain [OF assms(6), of 0 "offset div cluster_bytes s"] by (simp add: q_def)
  show ?thesis
  proof (cases "q < length cs")
    case True
    then have k: "?k = cs ! q" using sk by simp
    have len: "length (drop q cs) * ?n - unat ?o = length cs * ?n - unat offset" by (simp only: length_drop off(1) diff_mult_distrib diff_diff_eq)
    have N: "N = min (unat sz - unat 0) (length (drop q cs) * ?n - unat ?o)" using assms(7) len by simp
    obtain s' where s': "read_loop E buffer sz ?o 0 (cs ! q) s = Some (0 + of_nat N, s')" "only_io s s'" "disk_up dev ready E s'"
      "sector (disk s') = sector (disk s)" "bytes_at (fmem s') (buffer + 0) N = take N (drop (unat ?o) (file_data sector s (drop q cs)))"
      using read_loop_chain [OF assms(1-5) file_chain_drop [OF assms(6) True] off(2) _ N] by fastforce
    have "length (file_data sector s (take q cs)) = q * ?n" using True by (simp add: file_data_length [OF assms(1)])
    then have "drop (unat offset) (file_data sector s (take q cs @ drop q cs)) = drop (unat ?o) (file_data sector s (drop q cs))"
      unfolding file_data_append off(1) by simp
    then have "drop (unat offset) (file_data sector s cs) = drop (unat ?o) (file_data sector s (drop q cs))" by (simp only: append_take_drop_id)
    then show ?thesis using s' unfolding k by auto
  next
    case False
    then have "length cs * ?n \<le> q * ?n" by (intro mult_le_mono1) simp
    then have N: "N = 0" unfolding assms(7) off(1) by linarith
    have "\<not> in_chain ?k" using sk False by (auto simp: in_chain_def not_less)
    then show ?thesis using N assms(1) by (subst read_loop.simps) (simp add: bytes_at_def)
  qed
qed

text \<open>The search of a directory changes the buffer it is given.\<close>

lemma root_scan_frame:
  assumes "disk_up dev ready E s" "unat (root_dir_start (fat_fs s)) + unat n \<le> 2 ^ 28"
  shows "\<exists>r s'. root_scan E test buf n sec s = (r, s') \<and> only_io s s' \<and> disk_up dev ready E s' \<and> sector (disk s') = sector (disk s) \<and>
    same_but buf 512 (fmem s) (fmem s') \<and> (\<forall>k i. r = Some (k, i) \<longrightarrow> k < n \<and> i < 16)"
  using assms
proof (induction "unat n - unat sec" arbitrary: sec s)
  case 0
  then have "\<not> sec < n" by (simp add: word_less_nat_alt)
  then show ?case using 0 by (subst root_scan.simps) auto
next
  case (Suc j)
  have lt: "sec < n" using Suc.hyps(2) by (simp add: word_less_nat_alt)
  then have j: "j = unat n - unat (sec + 1)" using Suc.hyps(2) by (simp add: unat_Suc_less)
  let ?l = "root_dir_start (fat_fs s) + sec"
  have "unat ?l < 2 ^ 28" using lt Suc.prems(2) by (subst unat_add_u32) (auto simp: word_less_nat_alt)
  from fs_read [OF Suc.prems(1) this, of buf] obtain s1 where s1: "fs_read_sector (fat_dev E) (fs_drive (fat_fs s)) ?l buf s = (0, s1)"
    "only_io s s1" "disk_up dev ready E s1" "fmem s1 = put_bytes buf (sector (disk s) (fs_drive (fat_fs s)) ?l) (fmem s)"
    "sector (disk s1) = sector (disk s)" by blast
  have "length (sector (disk s) (fs_drive (fat_fs s)) ?l) = 512" using Suc.prems(1) by (intro sector_length) (simp add: disk_up_def)
  then have m1: "same_but buf 512 (fmem s) (fmem s1)" using same_but_put s1(4) by simp
  show ?case
  proof (cases "first_entry test (fmem s1) buf 16")
    case (Some i)
    then have "root_scan E test buf n sec s = (Some (sec, i), s1)" using lt s1(1) by (subst root_scan.simps) simp
    then show ?thesis using s1 m1 lt first_entry_bound [OF Some] by auto
  next
    case None
    then have st: "root_scan E test buf n sec s = root_scan E test buf n (sec + 1) s1" using lt s1(1) by (subst root_scan.simps) simp
    have "unat (root_dir_start (fat_fs s1)) + unat n \<le> 2 ^ 28" using Suc.prems(2) only_ioD(1) [OF s1(2)] by simp
    from Suc.hyps(1) [OF j s1(3) this] show ?thesis
      unfolding st using only_io_trans [OF s1(2)] same_but_trans [OF m1] s1(5) by fastforce
  qed
qed

lemma chain_scan_frame:
  assumes "disk_up dev ready E s" "fat_geometry (fat_fs s)" "separate (fat_table (fat_fs s)) (table_size s) buf (spc s * 512)" "file_chain s c ps"
  shows "\<exists>r s'. chain_scan E test buf c s = Some (r, s') \<and> only_io s s' \<and> disk_up dev ready E s' \<and> sector (disk s') = sector (disk s) \<and>
    same_but buf (spc s * 512) (fmem s) (fmem s') \<and> (\<forall>k i. r = Some (k, i) \<longrightarrow> k \<in> set ps \<and> 32 * (i + 1) \<le> spc s * 512)"
  using assms
proof (induction ps arbitrary: c s)
  case (Cons d ps)
  have c: "d = c" "in_chain c" "in_table s c" and nxt: "if ps = [] then FAT_CLUSTER_EOC \<le> fat_entry s c else file_chain s (fat_entry s c) ps"
    using Cons.prems(4) by (auto simp: file_chain_Cons)
  obtain s1 where s1: "fat_read_cluster E c buf s = (0, s1)" "only_io s s1" "disk_up dev ready E s1" "sector (disk s1) = sector (disk s)"
    "fmem s1 = put_bytes buf (cluster_data sector s c) (fmem s)" using read_cluster [OF Cons.prems(1,2) c(2,3)] by blast
  note d1 = only_ioD [OF s1(2)]
  have m1: "same_but buf (spc s * 512) (fmem s) (fmem s1)" using same_but_put cluster_data_length [OF Cons.prems(1)] s1(5) by simp
  have ent: "fat_entry s1 e = fat_entry s e" if "in_table s e" for e
    by (rule fat_entry_cong [OF Cons.prems(2) that m1 d1(1) Cons.prems(3)])
  have nx: "fat_get_next_cluster c s1 = fat_entry s c" using c d1(6) ent by (simp add: fat_get_next_cluster_def in_chain_def)
  have ep: "entries_per_cluster s1 = spc s * 16" using d1(10) by (simp add: entries_per_cluster_def)
  show ?case
  proof (cases "first_entry test (fmem s1) buf (entries_per_cluster s1)")
    case (Some i)
    then have "chain_scan E test buf c s = Some (Some (c, i), s1)" using c(2) s1(1) by (subst chain_scan.simps) simp
    then show ?thesis using s1 m1 first_entry_bound [OF Some] ep c(1) by auto
  next
    case None
    then have st: "chain_scan E test buf c s = chain_scan E test buf (fat_entry s c) s1"
      using c(2) s1(1) nx by (subst chain_scan.simps) simp
    show ?thesis
    proof (cases "ps = []")
      case True
      then have "\<not> in_chain (fat_entry s c)" using nxt by (auto simp: in_chain_def not_less)
      then show ?thesis unfolding st using s1 m1 by (subst chain_scan.simps) auto
    next
      case False
      then have "file_chain s (fat_entry s c) ps" using nxt by simp
      then have "file_chain s1 (fat_entry s c) ps" by (subst file_chain_cong) (use ent file_chain_set [OF Cons.prems(4)] d1(6) in auto)
      moreover have "fat_geometry (fat_fs s1)" "separate (fat_table (fat_fs s1)) (table_size s1) buf (spc s1 * 512)"
        using Cons.prems d1 by simp_all
      ultimately obtain r s' where "chain_scan E test buf (fat_entry s c) s1 = Some (r, s')" "only_io s1 s'" "disk_up dev ready E s'"
        "sector (disk s') = sector (disk s1)" "same_but buf (spc s1 * 512) (fmem s1) (fmem s')"
        "\<forall>k i. r = Some (k, i) \<longrightarrow> k \<in> set ps \<and> 32 * (i + 1) \<le> spc s1 * 512"
        using Cons.IH [OF s1(3)] by blast
      then show ?thesis unfolding st
        using only_io_trans [OF s1(2)] same_but_trans [OF m1] s1(4) d1(1) by (intro exI [of _ r] exI [of _ s']) auto
    qed
  qed
qed (simp add: file_chain_def)

text \<open>Updating the directory entry changes the directory's buffer and sectors of the directory.\<close>

lemma update_entry_frame:
  assumes "disk_up dev ready E s" "fat_geometry (fat_fs s)" "separate (fat_table (fat_fs s)) (table_size s) (dir_buffer E) (spc s * 512)"
    "dir_chain s (dir_cluster_of (n_parent (nodes s node)) s) ps"
  shows "\<exists>s'. update_dir_entry E node first s = Some s' \<and> only_io s s' \<and> disk_up dev ready E s' \<and>
    same_but (dir_buffer E) (spc s * 512) (fmem s) (fmem s') \<and>
    (\<forall>d. in_chain d \<and> in_table s d \<and> d \<notin> set ps \<longrightarrow> cluster_data sector s' d = cluster_data sector s d)"
proof -
  let ?pc = "dir_cluster_of (n_parent (nodes s node)) s" and ?b = "dir_buffer E" and ?n = "spc s * 512"
  let ?test = "named (fat_str_to_filename (n_name (nodes s node)))"
  define upd where "upd = (\<lambda>i (s' :: fs_state). s'\<lparr>fmem := set_entry_size (entry_addr ?b i) (n_size (nodes s node)) first (fmem s')\<rparr>)"
  note g = geometryD [OF assms(2)]
  have upd: "only_io s' (upd i s')" "disk (upd i s') = disk s'" "fat_fs (upd i s') = fat_fs s'" for i s' by (simp_all add: upd_def)
  show ?thesis
  proof (cases "?pc = 0")
    case True
    have low: "unat (root_dir_start (fat_fs s)) + unat (root_sectors s) \<le> unat (data_start (fat_fs s))" "unat (data_start (fat_fs s)) \<le> 2 ^ 28"
      using assms(2) g(6) by (simp_all add: fat_geometry_def root_sectors_nat)
    then have "unat (root_dir_start (fat_fs s)) + unat (root_sectors s) \<le> 2 ^ 28" by linarith
    from root_scan_frame [OF assms(1) this, of ?test ?b 0] obtain r s1 where s1: "root_scan E ?test ?b (root_sectors s) 0 s = (r, s1)"
      "only_io s s1" "disk_up dev ready E s1" "sector (disk s1) = sector (disk s)" "same_but ?b 512 (fmem s) (fmem s1)"
      "\<forall>k i. r = Some (k, i) \<longrightarrow> k < root_sectors s \<and> i < 16" by blast
    note d1 = only_ioD [OF s1(2)]
    have m1: "same_but ?b ?n (fmem s) (fmem s1)" using s1(5) g(1) by (auto simp: same_but_def)
    show ?thesis
    proof (cases r)
      case None
      then have "update_dir_entry E node first s = Some s1" using True s1(1) by (simp add: update_dir_entry_def Let_def)
      then show ?thesis using s1(2-4) m1 d1 by (auto simp: cluster_data_def)
    next
      case (Some p)
      then obtain k i where r: "r = Some (k, i)" by (cases p) simp
      then have k: "k < root_sectors s" "i < 16" using s1(6) by auto
      let ?l = "root_dir_start (fat_fs s) + k"
      have l: "unat ?l = unat (root_dir_start (fat_fs s)) + unat k" using k(1) low by (subst unat_add_u32) (auto simp: word_less_nat_alt)
      then have l28: "unat ?l < unat (data_start (fat_fs s))" "unat ?l < 2 ^ 28" using k(1) low by (auto simp: word_less_nat_alt)
      have "disk_up dev ready E (upd i s1)" using s1(3) upd by (simp add: disk_up_def)
      from fs_write [OF this l28(2), of ?b] d1(1) upd obtain s2 where
        s2: "fs_write_sector (fat_dev E) (fs_drive (fat_fs s)) ?l ?b (upd i s1) = (0, s2)" "only_io (upd i s1) s2" "disk_up dev ready E s2"
        "fmem s2 = fmem (upd i s1)" "\<And>l. l \<noteq> ?l \<Longrightarrow> sector (disk s2) (fs_drive (fat_fs s)) l = sector (disk s) (fs_drive (fat_fs s)) l"
        using s1(4) by (metis (no_types, lifting))
      have io: "only_io s s2" by (rule only_io_trans [OF only_io_trans [OF s1(2) upd(1)] s2(2)])
      have "update_dir_entry E node first s = Some s2"
        using True s1(1) s2(1) r d1 by (simp add: update_dir_entry_def Let_def upd_def upd(3))
      moreover have "same_but ?b ?n (fmem s) (fmem s2)"
        using same_but_trans [OF m1 set_entry_mem] k(2) g(1,2) s2(4) by (simp add: upd_def)
      moreover have "cluster_data sector s2 d = cluster_data sector s d" if "in_chain d" "in_table s d" for d
        using that l28(1) by (intro cluster_data_cong [OF only_io_volume [OF io] assms(2)] s2(5)) auto
      ultimately show ?thesis using io s2(3) by auto
    qed
  next
    case False
    then have ch: "file_chain s ?pc ps" using assms(4) by (simp add: dir_chain_def)
    from chain_scan_frame [OF assms(1-3) this, of ?test] obtain r s1 where s1: "chain_scan E ?test ?b ?pc s = Some (r, s1)"
      "only_io s s1" "disk_up dev ready E s1" "sector (disk s1) = sector (disk s)" "same_but ?b ?n (fmem s) (fmem s1)"
      "\<forall>k i. r = Some (k, i) \<longrightarrow> k \<in> set ps \<and> 32 * (i + 1) \<le> ?n" by blast
    note d1 = only_ioD [OF s1(2)]
    show ?thesis
    proof (cases r)
      case None
      then have "update_dir_entry E node first s = Some s1" using False s1(1) by (simp add: update_dir_entry_def Let_def)
      then show ?thesis using s1(2-5) d1 by (auto simp: cluster_data_def)
    next
      case (Some p)
      then obtain k i where r: "r = Some (k, i)" by (cases p) simp
      then have k: "k \<in> set ps" "32 * (i + 1) \<le> ?n" using s1(6) by auto
      let ?u = "upd i s1"
      have io1: "only_io s ?u" by (rule only_io_trans [OF s1(2) upd(1)])
      note du = only_ioD [OF io1]
      have "disk_up dev ready E ?u" using s1(3) upd by (simp add: disk_up_def)
      moreover have "fat_geometry (fat_fs ?u)" "in_chain k" "in_table ?u k"
        using assms(2) du file_chain_set [OF ch k(1)] by simp_all
      ultimately obtain s2 where s2: "fat_write_cluster E k ?b ?u = (0, s2)" "only_io ?u s2" "disk_up dev ready E s2" "fmem s2 = fmem ?u"
        "\<And>d. in_chain d \<Longrightarrow> in_table ?u d \<Longrightarrow> d \<noteq> k \<Longrightarrow> cluster_data sector s2 d = cluster_data sector ?u d"
        using write_cluster [of E ?u k ?b] by blast
      have "update_dir_entry E node first s = Some s2"
        using False s1(1) s2(1) r d1 by (simp add: update_dir_entry_def Let_def upd_def)
      moreover have "same_but ?b ?n (fmem s) (fmem s2)"
        using same_but_trans [OF s1(5) set_entry_mem [OF k(2)]] g(2) s2(4) by (simp add: upd_def)
      moreover have "cluster_data sector s2 d = cluster_data sector s d" if "in_chain d" "in_table s d" "d \<notin> set ps" for d
        using s2(5) [of d] that k(1) du s1(4) upd by (auto simp: cluster_data_def)
      ultimately show ?thesis using only_io_trans [OF io1 s2(2)] s2(3) by auto
    qed
  qed
qed

text \<open>Writing back the tables changes sectors in front of the clusters.\<close>

lemma sync_table_frame:
  assumes "disk_up dev ready E s" "unat lba + unat n \<le> lim" "lim \<le> 2 ^ 28"
  shows "\<exists>s'. sync_table E lba n j s = (True, s') \<and> only_io s s' \<and> disk_up dev ready E s' \<and> fmem s' = fmem s \<and>
    (\<forall>l. lim \<le> unat l \<longrightarrow> sector (disk s') (fs_drive (fat_fs s)) l = sector (disk s) (fs_drive (fat_fs s)) l)"
  using assms
proof (induction "unat n - unat j" arbitrary: j s)
  case 0
  then have "\<not> j < n" by (simp add: word_less_nat_alt)
  then show ?case using 0 by (subst sync_table.simps) auto
next
  case (Suc k)
  have lt: "j < n" using Suc.hyps(2) by (simp add: word_less_nat_alt)
  then have k: "k = unat n - unat (j + 1)" using Suc.hyps(2) by (simp add: unat_Suc_less)
  have l: "unat (lba + j) = unat lba + unat j" using lt Suc.prems by (subst unat_add_u32) (auto simp: word_less_nat_alt)
  then have low: "unat (lba + j) < lim" "unat (lba + j) < 2 ^ 28" using lt Suc.prems by (auto simp: word_less_nat_alt)
  obtain s1 where s1: "fs_write_sector (fat_dev E) (fs_drive (fat_fs s)) (lba + j) (fat_table (fat_fs s) + j * 512) s = (0, s1)"
    "only_io s s1" "disk_up dev ready E s1" "fmem s1 = fmem s"
    "\<And>l. l \<noteq> lba + j \<Longrightarrow> sector (disk s1) (fs_drive (fat_fs s)) l = sector (disk s) (fs_drive (fat_fs s)) l"
    using fs_write [OF Suc.prems(1) low(2)] by (metis (no_types, lifting))
  from Suc.hyps(1) [OF k s1(3) Suc.prems(2,3)] obtain s2 where s2: "sync_table E lba n (j + 1) s1 = (True, s2)" "only_io s1 s2" "disk_up dev ready E s2"
    "fmem s2 = fmem s1" "\<And>l. lim \<le> unat l \<Longrightarrow> sector (disk s2) (fs_drive (fat_fs s)) l = sector (disk s1) (fs_drive (fat_fs s)) l"
    using only_ioD(1) [OF s1(2)] by auto
  have "sync_table E lba n j s = (True, s2)" using lt s1(1) s2(1) by (subst sync_table.simps) simp
  moreover have "sector (disk s2) (fs_drive (fat_fs s)) l = sector (disk s) (fs_drive (fat_fs s)) l" if "lim \<le> unat l" for l
    using s2(5) [OF that] s1(5) [of l] that low(1) by (cases "l = lba + j") auto
  ultimately show ?case using only_io_trans [OF s1(2) s2(2)] s2(3,4) s1(4) by auto
qed

lemma sync_loop_frame:
  assumes "disk_up dev ready E s" "fat_geometry (fat_fs s)" "n = num_fats (fat_fs s)"
  shows "\<exists>s'. sync_loop E n i s = (True, s') \<and> only_io s s' \<and> disk_up dev ready E s' \<and> fmem s' = fmem s \<and>
    (\<forall>l. unat (data_start (fat_fs s)) \<le> unat l \<longrightarrow> sector (disk s') (fs_drive (fat_fs s)) l = sector (disk s) (fs_drive (fat_fs s)) l)"
  using assms
proof (induction "unat n - unat i" arbitrary: i s)
  case 0
  then have "\<not> i < n" by (simp add: word_less_nat_alt)
  then show ?case using 0 by (subst sync_loop.simps) auto
next
  case (Suc k)
  have lt: "i < n" using Suc.hyps(2) by (simp add: word_less_nat_alt)
  then have k: "k = unat n - unat (i + 1)" using Suc.hyps(2) by (simp add: unat_Suc_less)
  let ?f = "fat_fs s" and ?spf = "ucast (sectors_per_fat (fat_fs s)) :: u32"
  let ?lba = "fat_start ?f + ucast i * ?spf"
  have low: "unat (fat_start ?f) + unat n * unat (sectors_per_fat ?f) \<le> unat (data_start ?f)" "unat (data_start ?f) \<le> 2 ^ 28"
    using Suc.prems(2,3) by (auto simp: fat_geometry_def)
  have "(unat i + 1) * unat (sectors_per_fat ?f) \<le> unat n * unat (sectors_per_fat ?f)"
    using lt by (intro mult_le_mono1) (simp add: word_less_nat_alt)
  then have fits: "unat (fat_start ?f) + (unat i * unat (sectors_per_fat ?f) + unat (sectors_per_fat ?f)) \<le> unat (data_start ?f)"
    using low(1) by (simp add: add_mult_distrib)
  have "unat (ucast i * ?spf) = unat i * unat (sectors_per_fat ?f)" using fits low(2) by (simp add: unat_word_ariths)
  then have "unat ?lba + unat ?spf \<le> unat (data_start ?f)" using fits low(2) by (subst unat_add_u32) auto
  from sync_table_frame [OF Suc.prems(1) this low(2), of 0] obtain s1 where s1: "sync_table E ?lba ?spf 0 s = (True, s1)" "only_io s s1"
    "disk_up dev ready E s1" "fmem s1 = fmem s"
    "\<forall>l. unat (data_start ?f) \<le> unat l \<longrightarrow> sector (disk s1) (fs_drive ?f) l = sector (disk s) (fs_drive ?f) l" by blast
  have "fat_geometry (fat_fs s1)" "n = num_fats (fat_fs s1)" using Suc.prems only_ioD(1) [OF s1(2)] by simp_all
  from Suc.hyps(1) [OF k s1(3) this] obtain s2 where s2: "sync_loop E n (i + 1) s1 = (True, s2)" "only_io s1 s2"
    "disk_up dev ready E s2" "fmem s2 = fmem s1"
    "\<forall>l. unat (data_start ?f) \<le> unat l \<longrightarrow> sector (disk s2) (fs_drive ?f) l = sector (disk s1) (fs_drive ?f) l"
    using only_ioD(1) [OF s1(2)] by auto
  have "sync_loop E n i s = (True, s2)" using lt s1(1) s2(1) by (subst sync_loop.simps) (simp add: Let_def)
  then show ?case using only_io_trans [OF s1(2) s2(2)] s2(3-5) s1(4,5) by auto
qed

lemma sync_frame:
  assumes "disk_up dev ready E s" "fat_geometry (fat_fs s)"
  shows "\<exists>s'. fat_sync E s = (0, s') \<and> same_volume s s' \<and> disk_up dev ready E s' \<and> fmem s' = fmem s \<and>
    (\<forall>d. in_chain d \<and> in_table s d \<longrightarrow> cluster_data sector s' d = cluster_data sector s d)"
proof (cases "\<not> fat_initialized s \<or> \<not> fat_dirty (fat_fs s)")
  case True
  then show ?thesis using assms by (auto simp: fat_sync_def)
next
  case False
  obtain s1 where s1: "sync_loop E (num_fats (fat_fs s)) 0 s = (True, s1)" "only_io s s1" "disk_up dev ready E s1" "fmem s1 = fmem s"
    "\<And>l. unat (data_start (fat_fs s)) \<le> unat l \<Longrightarrow> sector (disk s1) (fs_drive (fat_fs s)) l = sector (disk s) (fs_drive (fat_fs s)) l"
    using sync_loop_frame [OF assms refl, of 0] by blast
  define s2 where "s2 = s1\<lparr>fat_fs := (fat_fs s1)\<lparr>fat_dirty := False\<rparr>\<rparr>"
  have v: "same_volume s1 s2" using same_volume_upd [where s = s1 and a = "disk s1" and m = "fmem s1" and b = False] by (simp add: s2_def)
  have v2: "same_volume s s2" by (rule same_volume_trans [OF only_io_volume [OF s1(2)] v])
  have "fat_sync E s = (0, s2)" using False s1(1) by (simp add: fat_sync_def s2_def)
  moreover have "disk_up dev ready E s2" "fmem s2 = fmem s" using s1(3,4) by (simp_all add: disk_up_def s2_def)
  moreover have "cluster_data sector s2 d = cluster_data sector s d" if "in_chain d" "in_table s d" for d
    using that s1(5) by (intro cluster_data_cong [OF v2 assms(2)]) (auto simp: s2_def)
  ultimately show ?thesis using v2 by auto
qed

text \<open>The part of a write before the node is updated: the chain is extended and its clusters get the data.\<close>

lemma write_data:
  assumes up: "disk_up dev ready E s" and geo: "fat_geometry (fat_fs s)" and fil: "fat_file E s node cs ps"
    and sep: "separate buffer (unat sz) (write_buffer E) (spc s * 512)" "separate buffer (unat sz) (fat_table (fat_fs s)) (table_size s)"
    and small: "unat offset + unat sz + spc s * 512 < 2 ^ 32"
  defines "first \<equiv> fn_first_cluster (fat_nodes s (n_impl (nodes s node)))"
  shows "\<exists>n s1 s2 ds. extend_chain ((offset + sz + cluster_bytes s - 1) div cluster_bytes s) 1 first s = Some s1 \<and>
    write_loop E buffer sz (offset mod cluster_bytes s) 0 (skip_clusters s1 (offset div cluster_bytes s) 0 first) s1 = Some (of_nat n, s2) \<and>
    n \<le> unat sz \<and> (n = unat sz \<or> volume_full s2) \<and> (0 < n \<longrightarrow> unat offset + n \<le> length (cs @ ds) * (spc s * 512)) \<and>
    same_volume s s2 \<and> disk_up dev ready E s2 \<and> fat_file E s2 node (cs @ ds) ps \<and> (\<forall>d \<in> set ds. fat_entry s d = 0) \<and>
    (\<forall>d. in_table s d \<and> fat_entry s d \<noteq> 0 \<and> d \<notin> set cs \<longrightarrow> fat_entry s2 d = fat_entry s d) \<and>
    file_data sector s2 (cs @ ds) = take (unat offset) (file_data sector s (cs @ ds)) @ bytes_at (fmem s) buffer n @
      drop (unat offset + n) (file_data sector s (cs @ ds)) \<and>
    (\<forall>d. in_chain d \<and> in_table s d \<and> d \<notin> set (cs @ ds) \<longrightarrow> cluster_data sector s2 d = cluster_data sector s d)"
proof -
  let ?n = "spc s * 512" and ?cb = "cluster_bytes s" and ?tab = "fat_table (fat_fs s)" and ?ts = "table_size s"
  note g = geometryD [OF geo]
  have f: "file_chain s first cs" "dir_chain s (dir_cluster_of (n_parent (nodes s node)) s) ps" "set cs \<inter> set ps = {}"
    and bufs: "separate ?tab ?ts (write_buffer E) ?n" using fil by (simp_all add: fat_file_def first_def)
  define need where "need = (offset + sz + ?cb - 1) div ?cb"
  obtain s1 ds where s1: "extend_chain need 1 first s = Some s1" "file_chain s1 first (cs @ ds)" "same_volume s s1" "disk s1 = disk s"
    "same_but ?tab ?ts (fmem s) (fmem s1)" "\<forall>e \<in> set ds. fat_entry s e = 0"
    "\<forall>e. fat_entry s e \<noteq> 0 \<and> e \<noteq> last cs \<longrightarrow> fat_entry s1 e = fat_entry s e"
    "unat need - unat (1 :: u32) < length (cs @ ds) \<or> (\<forall>e. 2 \<le> e \<and> in_table s1 e \<longrightarrow> fat_entry s1 e \<noteq> 0)"
    using extend_file_chain [OF geo f(1), of need 1] by blast
  note v1 = same_volumeD [OF s1(3)]
  define n where "n = min (unat sz) (length (cs @ ds) * ?n - unat offset)"
  have up1: "disk_up dev ready E s1" using up v1(4) s1(4) by (simp add: disk_up_def)
  have geo1: "fat_geometry (fat_fs s1)" using geo v1(1) by simp
  obtain s2 where s2: "write_loop E buffer sz (offset mod ?cb) 0 (skip_clusters s1 (offset div ?cb) 0 first) s1 = Some (of_nat n, s2)"
    "only_io s1 s2" "disk_up dev ready E s2" "same_but (write_buffer E) ?n (fmem s1) (fmem s2)"
    "file_data sector s2 (cs @ ds) = take (unat offset) (file_data sector s1 (cs @ ds)) @ bytes_at (fmem s1) buffer n @
      drop (unat offset + n) (file_data sector s1 (cs @ ds))"
    "\<forall>d. in_chain d \<and> in_table s d \<and> d \<notin> set (cs @ ds) \<longrightarrow> cluster_data sector s2 d = cluster_data sector s1 d"
    using write_from_offset [OF up1 geo1 _ _ s1(2), of buffer sz n offset] sep(1) bufs v1 n_def by auto
  have sf: "same_files s1 s2" using same_files_io [OF s2(2) geo1 s2(4)] bufs v1 by simp
  have used: "fat_entry s d \<noteq> 0" if "d \<in> set ps" for d
    using f(2) that file_chain_used by (auto simp: dir_chain_def split: if_splits)
  have dir1: "dir_chain s1 (dir_cluster_of (n_parent (nodes s1 node)) s1) ps"
  proof -
    have "last cs \<in> set cs" using f(1) by (simp add: file_chain_def)
    then have "fat_entry s1 e = fat_entry s e" if "e \<in> set ps" for e using that f(3) used s1(7) by blast
    then have "file_chain s1 c ps = file_chain s c ps" for c using v1(9) by (rule file_chain_cong)
    moreover have "dir_cluster_of (n_parent (nodes s1 node)) s1 = dir_cluster_of (n_parent (nodes s node)) s"
      using v1(5,6) by (simp add: dir_cluster_of_def Let_def)
    ultimately show ?thesis using f(2) by (simp add: dir_chain_def)
  qed
  have file1: "fat_file E s1 node (cs @ ds) ps"
    using fil s1(2,6) dir1 v1 used by (auto simp: fat_file_def first_def)
  have cd1: "cluster_data sector s1 = cluster_data sector s" using s1(4) v1 by (intro ext) (simp add: cluster_data_def)
  have nle: "n \<le> unat sz" "n \<le> 4294967296" using less_imp_le [OF unat_u32_bound, of sz] unfolding n_def by linarith+
  have bytes: "bytes_at (fmem s1) buffer n = bytes_at (fmem s) buffer n"
    using same_but_bytes [OF s1(5) separate_mono [OF sep(2) nle(1) order_refl] nle(2)] .
  have full: "n = unat sz \<or> volume_full s2" using s1(8)
  proof
    assume "unat need - unat (1 :: u32) < length (cs @ ds)"
    moreover have "unat need = (unat offset + unat sz + ?n - 1) div ?n"
      unfolding need_def unat_div_distrib g(4) using small g(1,2,4) by (simp add: unat_word_ariths unat_sub_if')
    ultimately have "unat offset + unat sz \<le> length (cs @ ds) * ?n" using g(1) by (intro clusters_needed) auto
    then show ?thesis by (simp add: n_def)
  next
    assume "\<forall>e. 2 \<le> e \<and> in_table s1 e \<longrightarrow> fat_entry s1 e \<noteq> 0"
    then show ?thesis using same_files_full [OF sf] by (auto simp: volume_full_def in_chain_def)
  qed
  have "0 < n \<longrightarrow> unat offset + n \<le> length (cs @ ds) * ?n" by (auto simp: n_def)
  moreover have "same_volume s s2" by (rule same_volume_trans [OF s1(3) only_io_volume [OF s2(2)]])
  moreover have "file_data sector s2 (cs @ ds) = take (unat offset) (file_data sector s (cs @ ds)) @ bytes_at (fmem s) buffer n @
      drop (unat offset + n) (file_data sector s (cs @ ds))" using s2(5) unfolding bytes file_data_def [of sector s1] cd1 file_data_def [symmetric] .
  moreover have "\<forall>d. in_table s d \<and> fat_entry s d \<noteq> 0 \<and> d \<notin> set cs \<longrightarrow> fat_entry s2 d = fat_entry s d"
    using s1(7) same_files_nodes(6) [OF sf] v1(9) f(1) by (auto simp: file_chain_def)
  ultimately show ?thesis
    using s1(1) s2(1,3) nle(1) full same_files_file [OF sf file1] s1(6) s2(6) unfolding need_def cd1 by blast
qed

text \<open>The rest of a write: the node's size, its directory entry and the tables.\<close>

lemma write_finish:
  fixes off bw :: u32
  assumes up: "disk_up dev ready E s" and geo: "fat_geometry (fat_fs s)" and fil: "fat_file E s node cs ps"
  defines "s3 \<equiv> (if off > n_size (nodes s node) then upd_node node (\<lambda>n. n\<lparr>n_size := off\<rparr>) s else s)"
  shows "\<exists>s4 s5. (if 0 < bw \<and> n_parent (nodes s3 node) \<noteq> NULL then update_dir_entry E node first s3 else Some s3) = Some s4 \<and>
    fat_sync E s4 = (0, s5) \<and> same_files s s5 \<and> disk_up dev ready E s5 \<and> n_size (nodes s5 node) = max (n_size (nodes s node)) off \<and>
    (\<forall>d. in_chain d \<and> in_table s d \<and> d \<notin> set ps \<longrightarrow> cluster_data sector s5 d = cluster_data sector s d)"
proof -
  have sf3: "same_files s s3" using same_files_size by (simp add: s3_def)
  have up3: "disk_up dev ready E s3" and cd3: "cluster_data sector s3 d = cluster_data sector s d" for d using up by (simp_all add: s3_def)
  have size3: "n_size (nodes s3 node) = max (n_size (nodes s node)) off" by (auto simp: s3_def upd_node_def max_def)
  have geo3: "fat_geometry (fat_fs s3)" using geo same_filesD(2) [OF sf3] by simp
  have file3: "fat_file E s3 node cs ps" by (rule same_files_file [OF sf3 fil])
  then have dir3: "separate (fat_table (fat_fs s3)) (table_size s3) (dir_buffer E) (spc s3 * 512)"
    "dir_chain s3 (dir_cluster_of (n_parent (nodes s3 node)) s3) ps" by (simp_all add: fat_file_def)
  obtain s4 where s4: "(if 0 < bw \<and> n_parent (nodes s3 node) \<noteq> NULL then update_dir_entry E node first s3 else Some s3) = Some s4"
    "only_io s3 s4" "disk_up dev ready E s4" "same_but (dir_buffer E) (spc s3 * 512) (fmem s3) (fmem s4)"
    "\<forall>d. in_chain d \<and> in_table s3 d \<and> d \<notin> set ps \<longrightarrow> cluster_data sector s4 d = cluster_data sector s3 d"
    using update_entry_frame [OF up3 geo3 dir3, of first] up3 by (cases "0 < bw \<and> n_parent (nodes s3 node) \<noteq> NULL") auto
  have sf4: "same_files s3 s4" by (rule same_files_io [OF s4(2) geo3 s4(4) dir3(1)])
  have geo4: "fat_geometry (fat_fs s4)" using geo3 same_filesD(2) [OF sf4] by simp
  obtain s5 where s5: "fat_sync E s4 = (0, s5)" "same_volume s4 s5" "disk_up dev ready E s5" "fmem s5 = fmem s4"
    "\<forall>d. in_chain d \<and> in_table s4 d \<longrightarrow> cluster_data sector s5 d = cluster_data sector s4 d"
    using sync_frame [OF s4(3) geo4] by blast
  have "same_files s s5" by (rule same_files_trans [OF same_files_trans [OF sf3 sf4] same_files_volume [OF s5(2,4)]])
  moreover have "n_size (nodes s5 node) = max (n_size (nodes s node)) off"
    using size3 only_ioD(2) [OF s4(2)] same_volumeD(5) [OF s5(2)] by simp
  moreover have "cluster_data sector s5 d = cluster_data sector s d" if "in_chain d" "in_table s d" "d \<notin> set ps" for d
    using that s5(5) s4(5) cd3 same_filesD(1) [OF sf3] same_filesD(1) [OF sf4] by simp
  ultimately show ?thesis using s4(1) s5(1,3) by blast
qed

lemma write_file:
  assumes up: "disk_up dev ready E s" and geo: "fat_geometry (fat_fs s)" and fil: "fat_file E s node cs ps"
    and sep: "separate buffer (unat sz) (write_buffer E) (spc s * 512)" "separate buffer (unat sz) (fat_table (fat_fs s)) (table_size s)"
    and small: "unat offset + unat sz + spc s * 512 < 2 ^ 32" "unat sz < 2 ^ 31"
  shows "\<exists>n s' ds. fat_node_write E node offset sz buffer s = Some (int n, s') \<and> n \<le> unat sz \<and> (n = unat sz \<or> volume_full s') \<and>
    disk_up dev ready E s' \<and> fat_fs s' = (fat_fs s)\<lparr>fat_dirty := fat_dirty (fat_fs s')\<rparr> \<and> fat_file E s' node (cs @ ds) ps \<and>
    file_data sector s' (cs @ ds) = take (unat offset) (file_data sector s (cs @ ds)) @ bytes_at (fmem s) buffer n @
      drop (unat offset + n) (file_data sector s (cs @ ds)) \<and> (0 < n \<longrightarrow> unat offset + n \<le> length (cs @ ds) * (spc s * 512)) \<and>
    n_size (nodes s' node) = max (n_size (nodes s node)) (offset + of_nat n) \<and> (\<forall>d \<in> set ds. fat_entry s d = 0) \<and>
    (\<forall>d. in_table s d \<and> fat_entry s d \<noteq> 0 \<and> d \<notin> set cs \<longrightarrow> fat_entry s' d = fat_entry s d) \<and>
    (\<forall>d. in_chain d \<and> in_table s d \<and> d \<notin> set (cs @ ds @ ps) \<longrightarrow> cluster_data sector s' d = cluster_data sector s d)"
proof -
  let ?first = "fn_first_cluster (fat_nodes s (n_impl (nodes s node)))"
  obtain n s1 s2 ds where w: "extend_chain ((offset + sz + cluster_bytes s - 1) div cluster_bytes s) 1 ?first s = Some s1"
    "write_loop E buffer sz (offset mod cluster_bytes s) 0 (skip_clusters s1 (offset div cluster_bytes s) 0 ?first) s1 = Some (of_nat n, s2)"
    "n \<le> unat sz" "n = unat sz \<or> volume_full s2" "0 < n \<longrightarrow> unat offset + n \<le> length (cs @ ds) * (spc s * 512)"
    "same_volume s s2" "disk_up dev ready E s2" "fat_file E s2 node (cs @ ds) ps" "\<forall>d \<in> set ds. fat_entry s d = 0"
    "\<forall>d. in_table s d \<and> fat_entry s d \<noteq> 0 \<and> d \<notin> set cs \<longrightarrow> fat_entry s2 d = fat_entry s d"
    "file_data sector s2 (cs @ ds) = take (unat offset) (file_data sector s (cs @ ds)) @ bytes_at (fmem s) buffer n @
      drop (unat offset + n) (file_data sector s (cs @ ds))"
    "\<forall>d. in_chain d \<and> in_table s d \<and> d \<notin> set (cs @ ds) \<longrightarrow> cluster_data sector s2 d = cluster_data sector s d"
    using write_data [OF up geo fil sep small(1)] by (elim exE conjE) (rule that)
  note v2 = same_volumeD [OF w(6)]
  have geo2: "fat_geometry (fat_fs s2)" using geo v2(1) by simp
  define s3 where "s3 = (if offset + of_nat n > n_size (nodes s2 node) then upd_node node (\<lambda>n'. n'\<lparr>n_size := offset + of_nat n\<rparr>) s2 else s2)"
  obtain s4 s5 where z: "(if 0 < (of_nat n :: u32) \<and> n_parent (nodes s3 node) \<noteq> NULL then update_dir_entry E node ?first s3 else Some s3) = Some s4"
    "fat_sync E s4 = (0, s5)" "same_files s2 s5" "disk_up dev ready E s5" "n_size (nodes s5 node) = max (n_size (nodes s2 node)) (offset + of_nat n)"
    "\<forall>d. in_chain d \<and> in_table s2 d \<and> d \<notin> set ps \<longrightarrow> cluster_data sector s5 d = cluster_data sector s2 d"
    using write_finish [OF w(7) geo2 w(8), where off = "offset + of_nat n" and bw = "of_nat n" and first = ?first]
    unfolding s3_def [symmetric] by (elim exE conjE) (rule that)
  have "n < 2 ^ 31" using w(3) small(2) by simp
  then have si: "sint (of_nat n :: u32) = int n" by (simp add: signed_of_nat signed_take_bit_int_eq_self)
  have "write_at E node offset sz buffer s = Some (int n, s5)"
    by (simp only: write_at_def Let_def geometryD(5) [OF geo] w(1,2) z(1,2) s3_def [symmetric] si option.case prod.case if_False snd_conv)
  moreover have "?first \<noteq> 0" using fil by (auto simp: fat_file_def file_chain_def in_chain_def neq_Nil_conv)
  ultimately have ret: "fat_node_write E node offset sz buffer s = Some (int n, s5)"
    using fil by (simp add: fat_node_write_def Let_def fat_file_def)
  have disj: "d \<notin> set ps" "in_chain d" "in_table s2 d" if "d \<in> set (cs @ ds)" for d
    using that w(8) file_chain_set by (auto simp: fat_file_def)
  have fd: "file_data sector s5 (cs @ ds) = file_data sector s2 (cs @ ds)" by (rule file_data_cong) (use z(6) disj in blast)
  have "fat_fs s5 = (fat_fs s)\<lparr>fat_dirty := fat_dirty (fat_fs s5)\<rparr>" using w(6) z(3) by (auto simp: same_volume_def same_files_def)
  then show ?thesis
    using ret w(3,5,9,10,12) w(4) z(4-6) same_files_full [OF z(3)] same_files_file [OF z(3) w(8)] fd w(11) v2(5,9) same_files_nodes(6) [OF z(3)]
    by (intro exI [of _ n] exI [of _ s5] exI [of _ ds]) auto
qed

lemma read_file:
  assumes up: "disk_up dev ready E s" and geo: "fat_geometry (fat_fs s)" and fil: "fat_file E s node cs ps"
    and sep: "separate buffer n (read_buffer E) (spc s * 512)" "separate buffer n (fat_table (fat_fs s)) (table_size s)"
    and small: "n < 2 ^ 31" "unat offset + n < 2 ^ 32" "0 < n \<longrightarrow> unat offset + n \<le> unat (n_size (nodes s node))"
      "0 < n \<longrightarrow> unat offset + n \<le> length cs * (spc s * 512)"
  shows "\<exists>s'. fat_node_read E node offset (of_nat n) buffer s = Some (int n, s') \<and>
    bytes_at (fmem s') buffer n = take n (drop (unat offset) (file_data sector s cs))"
proof (cases "n_size (nodes s node) \<le> offset")
  case True
  then have "n = 0" using small(3) by (auto simp: word_le_nat_alt)
  then show ?thesis using True fil by (simp add: fat_node_read_def fat_file_def Let_def bytes_at_def)
next
  case False
  let ?first = "fn_first_cluster (fat_nodes s (n_impl (nodes s node)))"
  have un: "unat (of_nat n :: u32) = n" using small(1) by (simp add: unat_of_nat)
  have "unat (offset + of_nat n) = unat offset + n" using small(2) un by (subst unat_add_u32) auto
  then have sz: "\<not> offset + of_nat n > n_size (nodes s node)"
    using False small(3) by (cases "n = 0") (auto simp: word_less_nat_alt word_le_nat_alt)
  have f: "file_chain s ?first cs" "separate (fat_table (fat_fs s)) (table_size s) (read_buffer E) (spc s * 512)"
    using fil by (simp_all add: fat_file_def)
  have n: "n = min (unat (of_nat n :: u32)) (length cs * (spc s * 512) - unat offset)" using small(4) un by auto
  obtain s' where s': "read_loop E buffer (of_nat n) (offset mod cluster_bytes s) 0 (skip_clusters s (offset div cluster_bytes s) 0 ?first) s =
      Some (of_nat n, s')" "bytes_at (fmem s') buffer n = take n (drop (unat offset) (file_data sector s cs))"
    using read_from_offset [OF up geo _ f(2) _ f(1) n, of buffer] sep(1) separate_sym [OF sep(2)] un by auto
  have si: "sint (of_nat n :: u32) = int n" using small(1) by (simp add: signed_of_nat signed_take_bit_int_eq_self)
  have "fat_node_read E node offset (of_nat n) buffer s = Some (int n, s')"
    using fil False sz s'(1) geometryD(5) [OF geo] by (simp add: fat_node_read_def fat_file_def Let_def si)
  then show ?thesis using s'(2) by blast
qed

lemma write_read_file:
  assumes up: "disk_up dev ready E s" and geo: "fat_geometry (fat_fs s)" and fil: "fat_file E s node cs ps"
    and sep: "separate buffer (unat sz) (write_buffer E) (spc s * 512)" "separate buffer (unat sz) (fat_table (fat_fs s)) (table_size s)"
      "separate buf (unat sz) (read_buffer E) (spc s * 512)" "separate buf (unat sz) (fat_table (fat_fs s)) (table_size s)"
    and small: "unat offset + unat sz + spc s * 512 < 2 ^ 32" "unat sz < 2 ^ 31"
  shows "\<exists>n s' ds. fat_node_write E node offset sz buffer s = Some (int n, s') \<and> n \<le> unat sz \<and> (n = unat sz \<or> volume_full s') \<and>
    fat_file E s' node (cs @ ds) ps \<and>
    (\<exists>s''. fat_node_read E node offset (of_nat n) buf s' = Some (int n, s'') \<and> bytes_at (fmem s'') buf n = bytes_at (fmem s) buffer n) \<and>
    (\<forall>c xs. file_chain s c xs \<and> set xs \<inter> (set cs \<union> set ps) = {} \<longrightarrow>
       file_chain s' c xs \<and> file_data sector s' xs = file_data sector s xs)"
proof -
  obtain n s' ds where w: "fat_node_write E node offset sz buffer s = Some (int n, s')" "n \<le> unat sz" "n = unat sz \<or> volume_full s'"
    "disk_up dev ready E s'" "fat_fs s' = (fat_fs s)\<lparr>fat_dirty := fat_dirty (fat_fs s')\<rparr>" "fat_file E s' node (cs @ ds) ps"
    "file_data sector s' (cs @ ds) = take (unat offset) (file_data sector s (cs @ ds)) @ bytes_at (fmem s) buffer n @
      drop (unat offset + n) (file_data sector s (cs @ ds))" "0 < n \<longrightarrow> unat offset + n \<le> length (cs @ ds) * (spc s * 512)"
    "n_size (nodes s' node) = max (n_size (nodes s node)) (offset + of_nat n)" "\<forall>d \<in> set ds. fat_entry s d = 0"
    "\<forall>d. in_table s d \<and> fat_entry s d \<noteq> 0 \<and> d \<notin> set cs \<longrightarrow> fat_entry s' d = fat_entry s d"
    "\<forall>d. in_chain d \<and> in_table s d \<and> d \<notin> set (cs @ ds @ ps) \<longrightarrow> cluster_data sector s' d = cluster_data sector s d"
    using write_file [OF up geo fil sep(1,2) small] by (elim exE conjE) (rule that)
  obtain b where "fat_fs s' = (fat_fs s)\<lparr>fat_dirty := b\<rparr>" using w(5) by blast
  then have vol: "fat_geometry (fat_fs s')" "spc s' = spc s" "fat_table (fat_fs s') = fat_table (fat_fs s)" "table_size s' = table_size s"
    "in_table s' d = in_table s d" for d using geo by (simp_all add: fat_geometry_def table_size_def in_table_def)
  have len: "length (file_data sector s (cs @ ds)) = length (cs @ ds) * (spc s * 512)" by (rule file_data_length [OF up])
  have "unat (offset + of_nat n) = unat offset + n"
    using small w(2) by (subst unat_add_u32) (auto simp: unat_of_nat)
  then have size: "unat offset + n \<le> unat (n_size (nodes s' node))" unfolding w(9) by (auto simp: max_def word_le_nat_alt)
  have "n < 2 ^ 31" "unat offset + n < 2 ^ 32" "0 < n \<longrightarrow> unat offset + n \<le> unat (n_size (nodes s' node))"
    "0 < n \<longrightarrow> unat offset + n \<le> length (cs @ ds) * (spc s' * 512)" using small w(2,8) size vol(2) by auto
  from read_file [OF w(4) vol(1) w(6) _ _ this, of buf] separate_mono [OF sep(3) w(2) order_refl] separate_mono [OF sep(4) w(2) order_refl] vol
  obtain s'' where r: "fat_node_read E node offset (of_nat n) buf s' = Some (int n, s'')"
    "bytes_at (fmem s'') buf n = take n (drop (unat offset) (file_data sector s' (cs @ ds)))" by auto
  have "take n (drop (unat offset) (file_data sector s' (cs @ ds))) = bytes_at (fmem s) buffer n"
  proof (cases "n = 0")
    case False
    then have "unat offset \<le> length (file_data sector s (cs @ ds))" using w(8) len by simp
    then show ?thesis unfolding w(7) by (simp del: file_data_append add: min_absorb2)
  qed (simp add: bytes_at_def)
  with r have read: "\<exists>s''. fat_node_read E node offset (of_nat n) buf s' = Some (int n, s'') \<and> bytes_at (fmem s'') buf n = bytes_at (fmem s) buffer n"
    by auto
  have "file_chain s' c xs \<and> file_data sector s' xs = file_data sector s xs"
    if ch: "file_chain s c xs" and disj: "set xs \<inter> (set cs \<union> set ps) = {}" for c xs
  proof
    have x: "in_chain d" "in_table s d" "fat_entry s d \<noteq> 0" "d \<notin> set cs" "d \<notin> set ps" "d \<notin> set ds" if "d \<in> set xs" for d
      using that file_chain_set [OF ch that] file_chain_used [OF ch that] disj w(10) by auto
    show "file_chain s' c xs" using ch w(11) x vol(5) by (subst file_chain_cong [where s = s]) auto
    show "file_data sector s' xs = file_data sector s xs"
      by (rule file_data_cong) (simp add: w(12) x)
  qed
  then show ?thesis using w(1-3,6) read by blast
qed

end

section \<open>A file on a small volume\<close>

lemma separateI:
  assumes "unat a + n \<le> unat b" "unat b + k \<le> 4294967296"
  shows "separate a n b k"
  unfolding separate_def
proof (intro allI impI)
  fix x assume x: "unat (x - a) < n"
  have "unat (a + (x - a)) = unat a + unat (x - a)" using x assms by (intro unat_add_u32) linarith
  then have "unat x = unat a + unat (x - a)" by simp
  then have "unat x < unat b" using x assms(1) by linarith
  then have "unat (x - b) = 4294967296 + unat x - unat b" by (simp add: unat_sub_if')
  then show "k \<le> unat (x - b)" using assms(2) by linarith
qed

text \<open>The file of the clusters 2 and 4 of the small volume, in the root directory.\<close>

definition tiny_env :: fat_env where
  "tiny_env = \<lparr>fat_dev = pio_disk 10 blank_pio, find_buffer = 0x11000, free_buffer = 0x12000, entry_buffer = 0x13000, read_buffer = 0x14000,
     write_buffer = 0x15000, dir_buffer = 0x16000, readdir_buffer = 0x17000, cluster_buffer = 0x18000, unlink_buffer = 0x19000\<rparr>"

definition tiny_file :: fs_state where
  "tiny_file = tiny_fat\<lparr>disk := one_drive,
     nodes := (nodes tiny_fat)(0x1050 := (nodes tiny_fat 0x1050)\<lparr>n_type := VFS_FILE, n_impl := 0x1060, n_parent := 0x1040\<rparr>,
       0x1040 := (nodes tiny_fat 0x1040)\<lparr>n_impl := NULL\<rparr>),
     fat_nodes := (fat_nodes tiny_fat)(0x1060 := \<lparr>fn_first_cluster = 2, fn_dir_entry_sector = 0, fn_dir_entry_offset = 0\<rparr>)\<rparr>"

lemma tiny_file_vol:
  "fmem tiny_file = fmem tiny_fat" "disk tiny_file = one_drive"
  "in_table tiny_file c = in_table tiny_fat c" "fat_entry tiny_file c = fat_entry tiny_fat c" "table_size tiny_file = 12"
  "fat_table (fat_fs tiny_file) = 0x10000" "sectors_per_cluster (fat_fs tiny_file) = 1" "fs_drive (fat_fs tiny_file) = 0"
  by (simp_all add: tiny_file_def in_table_def fat_entry_def table_size_def) (simp_all add: tiny_fat_def zero_fat_fs_def)

lemma tiny_geometry: "fat_geometry (fat_fs tiny_file)"
  by (simp add: tiny_file_def fat_geometry_def) (simp add: tiny_fat_def zero_fat_fs_def)

lemma tiny_file_ok: "fat_file tiny_env tiny_file 0x1050 [2, 4] []"
proof -
  have "file_chain tiny_file 2 [2, 4]"
    by (simp add: file_chain_Cons tiny_file_vol tiny_fat_entries tiny_fat_table in_chain_def)
  moreover have "nodes tiny_file 0x1050 = (nodes tiny_fat 0x1050)\<lparr>n_type := VFS_FILE, n_impl := 0x1060, n_parent := 0x1040\<rparr>"
    "n_impl (nodes tiny_file 0x1040) = NULL" "fn_first_cluster (fat_nodes tiny_file 0x1060) = 2"
    by (simp_all add: tiny_file_def)
  ultimately show ?thesis
    by (auto simp: fat_file_def dir_chain_def dir_cluster_of_def tiny_file_vol tiny_env_def intro!: separateI)
qed

section \<open>Properties\<close>

text \<open>C23: a file is read as it was written. On a volume whose clusters fit the driver's buffers, with a disk of the documented
  protocol, \<open>fat_node_write\<close> at any offset returns the number of bytes it wrote: all of them, unless the volume has no
  free cluster left. The file keeps its clusters and may get further ones, all of them free before; \<open>fat_node_read\<close> of that
  many bytes at that offset delivers the bytes of the write buffer; and every other file, that is every chain without a
  cluster of this file or of its directory, has the same clusters with the same data.\<close>

theorem fat_write_read:
  assumes "fat_dev E = pio_disk D ini" "disk_ready D ini (disk s) (fs_drive (fat_fs s))" "fat_geometry (fat_fs s)" "fat_file E s node cs ps"
    "separate buffer (unat sz) (write_buffer E) (spc s * 512)" "separate buffer (unat sz) (fat_table (fat_fs s)) (table_size s)"
    "separate buf (unat sz) (read_buffer E) (spc s * 512)" "separate buf (unat sz) (fat_table (fat_fs s)) (table_size s)"
    "unat offset + unat sz + spc s * 512 < 2 ^ 32" "unat sz < 2 ^ 31"
  shows "\<exists>n s' ds. fat_node_write E node offset sz buffer s = Some (int n, s') \<and> n \<le> unat sz \<and> (n = unat sz \<or> volume_full s') \<and>
    fat_file E s' node (cs @ ds) ps \<and>
    (\<exists>s''. fat_node_read E node offset (of_nat n) buf s' = Some (int n, s'') \<and> bytes_at (fmem s'') buf n = bytes_at (fmem s) buffer n) \<and>
    (\<forall>c xs. file_chain s c xs \<and> set xs \<inter> (set cs \<union> set ps) = {} \<longrightarrow>
       file_chain s' c xs \<and> file_data (disk_bytes D ini) s' xs = file_data (disk_bytes D ini) s xs)"
  using pio.write_read_file [of D ini E s node cs ps buffer sz buf offset] assms by (simp only: disk_up_def simp_thms)

theorem fat_write_read_witness:
  "\<exists>n s' s''. fat_node_write tiny_env 0x1050 100 1200 0x20000 tiny_file = Some (int n, s') \<and> n \<le> 1200 \<and> (n = 1200 \<or> volume_full s') \<and>
     fat_node_read tiny_env 0x1050 100 (of_nat n) 0x30000 s' = Some (int n, s'') \<and>
     bytes_at (fmem s'') 0x30000 n = bytes_at (fmem tiny_file) 0x20000 n"
proof -
  have "separate 0x20000 (unat (1200 :: u32)) (write_buffer tiny_env) (spc tiny_file * 512)"
    "separate 0x20000 (unat (1200 :: u32)) (fat_table (fat_fs tiny_file)) (table_size tiny_file)"
    "separate 0x30000 (unat (1200 :: u32)) (read_buffer tiny_env) (spc tiny_file * 512)"
    "separate 0x30000 (unat (1200 :: u32)) (fat_table (fat_fs tiny_file)) (table_size tiny_file)"
    by (rule separate_sym, simp add: tiny_file_vol tiny_env_def, rule separateI; simp)+
  moreover have "fat_dev tiny_env = pio_disk 10 blank_pio" by (simp add: tiny_env_def)
  moreover have "disk_ready 10 blank_pio (disk tiny_file) (fs_drive (fat_fs tiny_file))" using blank_ready by (simp add: tiny_file_vol)
  ultimately have "\<exists>n s' ds. fat_node_write tiny_env 0x1050 100 1200 0x20000 tiny_file = Some (int n, s') \<and> n \<le> unat (1200 :: u32) \<and>
      (n = unat (1200 :: u32) \<or> volume_full s') \<and> fat_file tiny_env s' 0x1050 ([2, 4] @ ds) [] \<and>
      (\<exists>s''. fat_node_read tiny_env 0x1050 100 (of_nat n) 0x30000 s' = Some (int n, s'') \<and>
        bytes_at (fmem s'') 0x30000 n = bytes_at (fmem tiny_file) 0x20000 n) \<and>
      (\<forall>c xs. file_chain tiny_file c xs \<and> set xs \<inter> (set [2, 4] \<union> set []) = {} \<longrightarrow>
        file_chain s' c xs \<and> file_data (disk_bytes 10 blank_pio) s' xs = file_data (disk_bytes 10 blank_pio) tiny_file xs)"
    using tiny_geometry tiny_file_ok by (intro fat_write_read) (simp_all add: tiny_file_vol)
  then show ?thesis by (elim exE conjE) (auto intro!: exI)
qed

end
