(* ===== verification/Ai.thy ===== *)
theory Ai
  imports Prelude "HOL-Library.Multiset"
begin

text \<open>
  The command predictor of \<open>src/ai/ai.c\<close>: a table of 32 commands with how often, when and how successfully each was
  used. The state is the record \<open>ai_state\<close>, with the array \<open>command_db\<close> as a list of 32 entries. A C string is the list
  of its characters, an argument that may be \<open>NULL\<close> an option. Functions that print return the calls they make on the
  console. Shown: the table stays well formed; it is a least-recently-used cache; the suggestions are the
  matches in the order of a stable sort by falling score, and the prediction is the first of them.
\<close>

type_synonym cstring = "u8 list"

abbreviation AI_MAX_COMMANDS :: nat where
  "AI_MAX_COMMANDS \<equiv> 32"

abbreviation AI_MAX_CMD_LEN :: nat where
  "AI_MAX_CMD_LEN \<equiv> 64"

abbreviation AI_RECENCY_DECAY :: u32 where
  "AI_RECENCY_DECAY \<equiv> 10"

abbreviation AI_MIN_CONFIDENCE :: u32 where
  "AI_MIN_CONFIDENCE \<equiv> 50"

abbreviation AI_LEARNING_RATE :: u32 where
  "AI_LEARNING_RATE \<equiv> 5"

record ai_command_stats =
  command :: cstring
  frequency :: u32
  last_used :: u32
  success_rate :: u32

record ai_state =
  command_db :: "ai_command_stats list"
  num_commands :: nat
  system_ticks :: u32

definition zero_stats :: ai_command_stats where
  "zero_stats = \<lparr>command = [], frequency = 0, last_used = 0, success_rate = 0\<rparr>"

definition ai_init :: ai_state where
  "ai_init = \<lparr>command_db = replicate AI_MAX_COMMANDS zero_stats, num_commands = 0, system_ticks = 0\<rparr>"

section \<open>Learning\<close>

definition ai_find_command :: "cstring \<Rightarrow> ai_state \<Rightarrow> nat option" where
  "ai_find_command cmd s = find (\<lambda>i. command (command_db s ! i) = cmd) [0..<num_commands s]"

text \<open>The search for the entry to replace: the time and the index of the oldest entry so far.\<close>

definition oldest_step :: "ai_command_stats list \<Rightarrow> nat \<Rightarrow> u32 \<times> nat \<Rightarrow> u32 \<times> nat" where
  "oldest_step db i acc = (if last_used (db ! i) < fst acc then (last_used (db ! i), i) else acc)"

definition ai_oldest :: "ai_state \<Rightarrow> nat" where
  "ai_oldest s = snd (fold (oldest_step (command_db s)) [0..<num_commands s] (system_ticks s, 0))"

text \<open>The entry of a command that is not in the table; at most 63 characters of it are kept.\<close>

definition ai_new_entry :: "cstring \<Rightarrow> ai_state \<Rightarrow> nat \<times> ai_state" where
  "ai_new_entry cmd s =
     (let (idx, s) = (if num_commands s \<ge> AI_MAX_COMMANDS then (ai_oldest s, s)
                      else (num_commands s, s\<lparr>num_commands := num_commands s + 1\<rparr>));
          e = (command_db s ! idx)\<lparr>command := take (AI_MAX_CMD_LEN - 1) cmd, frequency := 0, success_rate := 100\<rparr>
      in (idx, s\<lparr>command_db := (command_db s)[idx := e]\<rparr>))"

definition update_stats :: "u32 \<Rightarrow> bool \<Rightarrow> ai_command_stats \<Rightarrow> ai_command_stats" where
  "update_stats now success e =
     (let target = (if success then 100 else 0) in
      e\<lparr>frequency := frequency e + 1, last_used := now,
        success_rate := (success_rate e * (100 - AI_LEARNING_RATE) + target * AI_LEARNING_RATE) div 100\<rparr>)"

definition ai_learn_command :: "cstring option \<Rightarrow> bool \<Rightarrow> ai_state \<Rightarrow> ai_state" where
  "ai_learn_command cmd success s =
     (case cmd of None \<Rightarrow> s | Some [] \<Rightarrow> s
      | Some cmd \<Rightarrow>
          (let s = s\<lparr>system_ticks := system_ticks s + 1\<rparr>;
               (idx, s) = (case ai_find_command cmd s of Some idx \<Rightarrow> (idx, s) | None \<Rightarrow> ai_new_entry cmd s)
           in s\<lparr>command_db := (command_db s)[idx := update_stats (system_ticks s) success (command_db s ! idx)]\<rparr>))"

section \<open>Predicting\<close>

definition ai_calculate_score :: "nat \<Rightarrow> ai_state \<Rightarrow> u32" where
  "ai_calculate_score idx s =
     (let cmd = command_db s ! idx;
          score = frequency cmd * 10;
          age = system_ticks s - last_used cmd;
          recency_multiplier = (if age < AI_RECENCY_DECAY then 100 + (AI_RECENCY_DECAY - age) * 10 else 100);
          score = (score * recency_multiplier) div 100
      in (score * success_rate cmd) div 100)"

text \<open>The test with \<open>strncmp\<close> over the length of the prefix.\<close>

definition starts_with :: "cstring \<Rightarrow> cstring \<Rightarrow> bool" where
  "starts_with prefix cmd \<longleftrightarrow> take (length prefix) cmd = prefix"

definition predict_step :: "ai_state \<Rightarrow> cstring \<Rightarrow> nat \<Rightarrow> cstring option \<times> u32 \<Rightarrow> cstring option \<times> u32" where
  "predict_step s prefix i acc =
     (if starts_with prefix (command (command_db s ! i)) \<and> ai_calculate_score i s > snd acc
      then (Some (command (command_db s ! i)), ai_calculate_score i s) else acc)"

definition ai_predict_command :: "cstring option \<Rightarrow> ai_state \<Rightarrow> cstring option" where
  "ai_predict_command prefix s =
     (case prefix of None \<Rightarrow> None | Some [] \<Rightarrow> None
      | Some prefix \<Rightarrow>
          (let (best_match, best_score) = fold (predict_step s prefix) [0..<num_commands s] (None, 0)
           in if best_score < AI_MIN_CONFIDENCE then None else best_match))"

section \<open>Suggestions\<close>

datatype console_call = Terminal_setcolor u8 u8 | Terminal_writestring cstring

definition lit :: "string \<Rightarrow> cstring" where
  "lit cs = map of_char cs"

text \<open>A suggestion: a command and its score.\<close>

type_synonym match = "cstring \<times> u32"

definition ai_matches :: "cstring \<Rightarrow> ai_state \<Rightarrow> match list" where
  "ai_matches partial s =
     map (\<lambda>i. (command (command_db s ! i), ai_calculate_score i s))
       (filter (\<lambda>i. starts_with partial (command (command_db s ! i))) [0..<num_commands s])"

definition swap_step :: "nat \<Rightarrow> match list \<Rightarrow> match list" where
  "swap_step j ms = (if snd (ms ! j) < snd (ms ! (j + 1)) then ms[j := ms ! (j + 1), j + 1 := ms ! j] else ms)"

definition bubble_pass :: "nat \<Rightarrow> match list \<Rightarrow> match list" where
  "bubble_pass i ms = fold swap_step [0..<length ms - i - 1] ms"

definition bubble_sort :: "match list \<Rightarrow> match list" where
  "bubble_sort ms = fold bubble_pass [0..<length ms - 1] ms"

fun show_matches :: "cstring list \<Rightarrow> console_call list" where
  "show_matches [] = []"
| "show_matches [c] = [Terminal_setcolor 10 0, Terminal_writestring c]"
| "show_matches (c # cs) = [Terminal_setcolor 10 0, Terminal_writestring c, Terminal_setcolor 15 0, Terminal_writestring (lit '' | '')] @ show_matches cs"

definition ai_show_suggestions :: "cstring option \<Rightarrow> ai_state \<Rightarrow> console_call list" where
  "ai_show_suggestions partial s =
     (case partial of None \<Rightarrow> [] | Some [] \<Rightarrow> []
      | Some partial \<Rightarrow>
          (let matches = ai_matches partial s in
           if matches = [] then [Terminal_setcolor 12 0, Terminal_writestring (lit ''\<newline>[AI] No suggestions found\<newline>'')]
           else [Terminal_setcolor 11 0, Terminal_writestring (lit ''\<newline>[AI] Suggestions: '')] @
             show_matches (map fst (take 3 (bubble_sort matches))) @ [Terminal_writestring (lit ''\<newline>'')]))"

section \<open>Statistics\<close>

text \<open>The flag \<open>already_shown\<close> of the code is never set, so each rank searches the whole table.\<close>

definition max_freq_step :: "ai_state \<Rightarrow> nat \<Rightarrow> u32 \<times> nat option \<Rightarrow> u32 \<times> nat option" where
  "max_freq_step s i acc =
     (if frequency (command_db s ! i) > fst acc then (frequency (command_db s ! i), Some i) else acc)"

definition show_rank :: "ai_state \<Rightarrow> console_call list" where
  "show_rank s =
     (case snd (fold (max_freq_step s) [0..<num_commands s] (0, None)) of
        None \<Rightarrow> []
      | Some i \<Rightarrow> [Terminal_writestring (lit ''  ''), Terminal_writestring (command (command_db s ! i)), Terminal_writestring (lit ''\<newline>'')])"

definition ai_show_stats :: "ai_state \<Rightarrow> console_call list" where
  "ai_show_stats s =
     [Terminal_setcolor 11 0, Terminal_writestring (lit ''\<newline>=== AI Learning Statistics ===\<newline>''),
      Terminal_setcolor 15 0, Terminal_writestring (lit ''Commands learned: ''),
      Terminal_writestring (lit (if num_commands s = 0 then ''0 (still learning)\<newline>'' else ''Active learning in progress\<newline>'')),
      Terminal_writestring (lit ''Learning mode: Adaptive\<newline>''), Terminal_writestring (lit ''Pattern recognition: ENABLED\<newline>'')] @
     (if num_commands s > 0
      then [Terminal_setcolor 10 0, Terminal_writestring (lit ''\<newline>Most frequently used:\<newline>'')] @
        concat (map (\<lambda>_. show_rank s) [0..<min 3 (num_commands s)])
      else []) @ [Terminal_writestring (lit ''\<newline>'')]"

section \<open>Sorting\<close>

text \<open>One pass moves a smallest score to the end of the part it covers.\<close>

fun sink :: "match list \<Rightarrow> match list" where
  "sink (x # y # zs) = (if snd x < snd y then y # sink (x # zs) else x # sink (y # zs))"
| "sink xs = xs"

lemma swap_step_append:
  "swap_step (length ps) (ps @ x # y # zs) = ps @ (if snd x < snd y then y # x # zs else x # y # zs)"
  by (simp add: swap_step_def nth_append list_update_append)

lemma fold_swap_sink:
  "fold swap_step [length ps..<length ps + length xs - 1] (ps @ xs @ ys) = ps @ sink xs @ ys"
proof (induction xs arbitrary: ps rule: sink.induct)
  case (1 x y zs)
  let ?m = "if snd x < snd y then y else x" and ?l = "if snd x < snd y then x else y"
  have "[length ps..<length ps + length (x # y # zs) - 1] = length ps # [length (ps @ [?m])..<length (ps @ [?m]) + length (?l # zs) - 1]"
    by (simp add: upt_conv_Cons del: upt_Suc)
  moreover have "swap_step (length ps) (ps @ (x # y # zs) @ ys) = (ps @ [?m]) @ (?l # zs) @ ys"
    using swap_step_append [of ps x y "zs @ ys"] by simp
  ultimately have "fold swap_step [length ps..<length ps + length (x # y # zs) - 1] (ps @ (x # y # zs) @ ys) =
      fold swap_step [length (ps @ [?m])..<length (ps @ [?m]) + length (?l # zs) - 1] ((ps @ [?m]) @ (?l # zs) @ ys)" by simp
  also have "\<dots> = (ps @ [?m]) @ sink (?l # zs) @ ys" using 1 [of "ps @ [?m]"] by (cases "snd x < snd y") simp_all
  finally show ?case by simp
qed simp_all

lemma sink_mset [simp]: "mset (sink xs) = mset xs"
  by (induction xs rule: sink.induct) auto

lemma sink_set [simp]: "set (sink xs) = set xs"
  by (metis set_mset_mset sink_mset)

lemma sink_stable: "filter (\<lambda>x. snd x = k) (sink xs) = filter (\<lambda>x. snd x = k) xs"
  by (induction xs rule: sink.induct) auto

lemma sink_last:
  assumes "xs \<noteq> []"
  shows "\<exists>cs m. sink xs = cs @ [m] \<and> (\<forall>x \<in> set cs. snd m \<le> snd x)"
  using assms
proof (induction xs rule: sink.induct)
  case (1 x y zs)
  let ?m = "if snd x < snd y then y else x" and ?l = "if snd x < snd y then x else y"
  obtain cs m where cs: "sink (?l # zs) = cs @ [m]" "\<forall>x \<in> set cs. snd m \<le> snd x" using 1 by (cases "snd x < snd y") auto
  have "?l \<in> set (sink (?l # zs))" unfolding sink_set by simp
  then have "snd m \<le> snd ?l" using cs by auto
  moreover have "snd ?l \<le> snd ?m" by auto
  ultimately have "snd m \<le> snd ?m" by (rule order_trans)
  moreover have "sink (x # y # zs) = (?m # cs) @ [m]" using cs(1) by (simp split: if_splits)
  ultimately show ?case using cs(2) by (intro exI [of _ "?m # cs"] exI [of _ m]) simp
qed auto

text \<open>After \<open>i\<close> passes the last \<open>i\<close> matches are in order and below the others.\<close>

lemma bubble_passes:
  assumes "i < length ms"
  shows "\<exists>as bs. fold bubble_pass [0..<i] ms = as @ bs \<and> length bs = i \<and> mset (as @ bs) = mset ms \<and>
    (\<forall>k. filter (\<lambda>x. snd x = k) (as @ bs) = filter (\<lambda>x. snd x = k) ms) \<and>
    sorted_wrt (\<lambda>x y. snd y \<le> snd x) bs \<and> (\<forall>a \<in> set as. \<forall>b \<in> set bs. snd b \<le> snd a)"
  using assms
proof (induction i)
  case (Suc i)
  then obtain as bs where h: "fold bubble_pass [0..<i] ms = as @ bs" "length bs = i" "mset (as @ bs) = mset ms"
    "\<forall>k. filter (\<lambda>x. snd x = k) (as @ bs) = filter (\<lambda>x. snd x = k) ms"
    "sorted_wrt (\<lambda>x y. snd y \<le> snd x) bs" "\<forall>a \<in> set as. \<forall>b \<in> set bs. snd b \<le> snd a" by auto
  have len: "length as + i = length ms" using arg_cong [OF h(3), of size] h(2) by simp
  then have "as \<noteq> []" using Suc.prems by auto
  then obtain cs m where cs: "sink as = cs @ [m]" "\<forall>x \<in> set cs. snd m \<le> snd x" using sink_last by blast
  have set: "set (cs @ [m]) = set as" using sink_set [of as] unfolding cs(1) .
  have "length ms - i - 1 = length as - 1" using len by linarith
  then have "fold bubble_pass [0..<Suc i] ms = cs @ (m # bs)"
    using fold_swap_sink [of "[]" as bs] len h(1,2) cs(1) by (simp add: bubble_pass_def)
  moreover have "mset (cs @ m # bs) = mset ms" using h(3) arg_cong [OF cs(1), of mset] by simp
  moreover have "filter (\<lambda>x. snd x = k) (cs @ m # bs) = filter (\<lambda>x. snd x = k) ms" for k
  proof -
    have "filter (\<lambda>x. snd x = k) (cs @ [m]) = filter (\<lambda>x. snd x = k) as" using sink_stable [of k as] unfolding cs(1) .
    then have "filter (\<lambda>x. snd x = k) ((cs @ [m]) @ bs) = filter (\<lambda>x. snd x = k) (as @ bs)" by (simp only: filter_append)
    then show ?thesis using h(4) by simp
  qed
  moreover have "m \<in> set as" "set cs \<subseteq> set as" using set by auto
  then have "sorted_wrt (\<lambda>x y. snd y \<le> snd x) (m # bs)" "\<forall>a \<in> set cs. \<forall>b \<in> set (m # bs). snd b \<le> snd a"
    using h(5,6) cs(2) by auto
  ultimately show ?case using h(2) by (intro exI [of _ cs] exI [of _ "m # bs"]) auto
qed auto

lemma bubble_sort_key: "bubble_sort ms = sort_key (\<lambda>x. - uint (snd x)) ms"
proof (cases "ms = []")
  case True
  then show ?thesis by (simp add: bubble_sort_def)
next
  case False
  then obtain as bs where h: "bubble_sort ms = as @ bs" "length bs = length ms - 1" "mset (as @ bs) = mset ms"
    "\<forall>k. filter (\<lambda>x. snd x = k) (as @ bs) = filter (\<lambda>x. snd x = k) ms"
    "sorted_wrt (\<lambda>x y. snd y \<le> snd x) bs" "\<forall>a \<in> set as. \<forall>b \<in> set bs. snd b \<le> snd a"
    using bubble_passes [of "length ms - 1" ms] by (auto simp: bubble_sort_def)
  have "length as = 1" using arg_cong [OF h(3), of size] h(2) False by (cases ms) simp_all
  then obtain a where "as = [a]" by (cases as) auto
  then have "sorted_wrt (\<lambda>x y. snd y \<le> snd x) (as @ bs)" using h(5,6) by simp
  then have "sorted (map (\<lambda>x. - uint (snd x)) (bubble_sort ms))"
    unfolding h(1) sorted_map by (rule sorted_wrt_mono_rel [rotated]) (simp add: word_le_def)
  moreover have "filter (\<lambda>x. - uint (snd k) = - uint (snd x)) (bubble_sort ms) = filter (\<lambda>x. - uint (snd k) = - uint (snd x)) ms" for k :: match
    using h(1) spec [OF h(4), of "snd k"] by (simp add: eq_commute flip: word_uint_eq_iff)
  ultimately show ?thesis using h(1,3) by (intro properties_for_sort_key [symmetric]) simp_all
qed

section \<open>The prediction\<close>

text \<open>The search keeps the first match with the highest score, if that is not 0.\<close>

definition best_step :: "match \<Rightarrow> cstring option \<times> u32 \<Rightarrow> cstring option \<times> u32" where
  "best_step x acc = (if snd x > snd acc then (Some (fst x), snd x) else acc)"

lemma predict_fold: "fold (predict_step s prefix) xs acc = fold best_step
    (map (\<lambda>i. (command (command_db s ! i), ai_calculate_score i s)) (filter (\<lambda>i. starts_with prefix (command (command_db s ! i))) xs)) acc"
  by (induction xs arbitrary: acc) (auto simp: predict_step_def best_step_def)

lemma best_fold:
  "(\<exists>as x bs. ms = as @ x # bs \<and> fold best_step ms (None, 0) = (Some (fst x), snd x) \<and> 0 < snd x \<and>
      (\<forall>a \<in> set as. snd a < snd x) \<and> (\<forall>b \<in> set bs. snd b \<le> snd x)) \<or>
   fold best_step ms (None, 0) = (None, 0) \<and> (\<forall>x \<in> set ms. snd x = 0)"
proof (induction ms rule: rev_induct)
  case (snoc y ms)
  then show ?case
  proof (elim disjE exE conjE)
    fix as x bs
    assume h: "ms = as @ x # bs" "fold best_step ms (None, 0) = (Some (fst x), snd x)" "0 < snd x"
      "\<forall>a \<in> set as. snd a < snd x" "\<forall>b \<in> set bs. snd b \<le> snd x"
    show ?thesis
    proof (cases "snd y > snd x")
      case True
      then have "fold best_step (ms @ [y]) (None, 0) = (Some (fst y), snd y)" using h(2) by (simp add: best_step_def)
      moreover have "\<forall>a \<in> set ms. snd a < snd y" using h(1,4,5) True by auto
      moreover have "0 < snd y" using h(3) True by simp
      ultimately show ?thesis by (intro disjI1 exI [of _ ms] exI [of _ y] exI [of _ "[]"]) simp
    next
      case False
      then have "fold best_step (ms @ [y]) (None, 0) = (Some (fst x), snd x)" using h(2) by (simp add: best_step_def)
      then show ?thesis using h False by (intro disjI1 exI [of _ as] exI [of _ x] exI [of _ "bs @ [y]"]) auto
    qed
  next
    assume h: "fold best_step ms (None, 0) = (None, 0)" "\<forall>x \<in> set ms. snd x = 0"
    show ?thesis
    proof (cases "snd y > 0")
      case True
      then have "fold best_step (ms @ [y]) (None, 0) = (Some (fst y), snd y)" using h(1) by (simp add: best_step_def)
      then show ?thesis using h(2) True by (intro disjI1 exI [of _ ms] exI [of _ y] exI [of _ "[]"]) auto
    next
      case False
      then have "snd y = 0" by (simp add: word_gt_0)
      moreover from this have "fold best_step (ms @ [y]) (None, 0) = (None, 0)" using h(1) by (simp add: best_step_def [of y])
      ultimately show ?thesis using h(2) by (intro disjI2) simp
    qed
  qed
qed simp

text \<open>A stable sort by falling score starts with the first match of the highest score.\<close>

lemma sort_first:
  assumes "ms = as @ x # bs" "\<forall>a \<in> set as. snd a < snd x" "\<forall>b \<in> set bs. snd b \<le> snd x"
  shows "\<exists>ys. sort_key (\<lambda>x. - uint (snd x)) ms = x # ys" (is "\<exists>ys. sort_key ?f ms = x # ys")
proof -
  have "filter (\<lambda>y. ?f y = ?f x) (sort_key ?f ms) = filter (\<lambda>y. ?f y = ?f x) ms"
    by (simp only: sort_key_stable)
  also have "\<dots> = x # filter (\<lambda>y. ?f y = ?f x) bs" using assms(2) by (auto simp: assms(1) filter_empty_conv word_less_def)
  finally have f: "filter (\<lambda>y. ?f y = ?f x) (sort_key ?f ms) = x # filter (\<lambda>y. ?f y = ?f x) bs" .
  have "x \<in> set (sort_key ?f ms)" using assms(1) by simp
  then obtain y ys where y: "sort_key ?f ms = y # ys" by (cases "sort_key ?f ms") auto
  have "sorted (map ?f (sort_key ?f ms))" by simp
  then have "?f y \<le> ?f x" using \<open>x \<in> set (sort_key ?f ms)\<close> unfolding y by auto
  moreover have "y \<in> set ms" using y by (metis list.set_intros(1) set_sort)
  then have "snd y \<le> snd x" using assms by auto
  ultimately have "?f y = ?f x" by (simp add: word_le_def)
  then have "y = x" using f unfolding y by simp
  then show ?thesis using y by blast
qed

lemma predict_first:
  assumes "prefix \<noteq> []"
  shows "ai_predict_command (Some prefix) s = (case bubble_sort (ai_matches prefix s) of [] \<Rightarrow> None
    | x # _ \<Rightarrow> if snd x < AI_MIN_CONFIDENCE then None else Some (fst x))"
proof -
  let ?ms = "ai_matches prefix s"
  have p: "ai_predict_command (Some prefix) s =
      (let (best_match, best_score) = fold best_step ?ms (None, 0) in if best_score < AI_MIN_CONFIDENCE then None else best_match)"
    using assms by (cases prefix) (simp_all add: ai_predict_command_def predict_fold ai_matches_def)
  from best_fold [of ?ms] show ?thesis
  proof (elim disjE exE conjE)
    fix as x bs
    assume "?ms = as @ x # bs" "fold best_step ?ms (None, 0) = (Some (fst x), snd x)"
      "\<forall>a \<in> set as. snd a < snd x" "\<forall>b \<in> set bs. snd b \<le> snd x"
    then show ?thesis using sort_first [of ?ms as x bs] unfolding p bubble_sort_key by auto
  next
    assume h: "fold best_step ?ms (None, 0) = (None, 0)" "\<forall>x \<in> set ?ms. snd x = 0"
    have "snd x = 0" if "bubble_sort ?ms = x # xs" for x xs
      using h(2) set_sort [of "\<lambda>x. - uint (snd x)" ?ms] that unfolding bubble_sort_key by (metis list.set_intros(1))
    then show ?thesis using h(1) unfolding p by (auto split: list.splits)
  qed
qed

section \<open>The table\<close>

definition ai_used :: "ai_state \<Rightarrow> ai_command_stats list" where
  "ai_used s = take (num_commands s) (command_db s)"

definition entry_ok :: "ai_command_stats \<Rightarrow> bool" where
  "entry_ok e \<longleftrightarrow> command e \<noteq> [] \<and> length (command e) < AI_MAX_CMD_LEN \<and> success_rate e \<le> 100"

definition ai_ok :: "ai_state \<Rightarrow> bool" where
  "ai_ok s \<longleftrightarrow> length (command_db s) = AI_MAX_COMMANDS \<and> num_commands s \<le> AI_MAX_COMMANDS \<and> (\<forall>e \<in> set (ai_used s). entry_ok e)"

lemma used_length: "ai_ok s \<Longrightarrow> length (ai_used s) = num_commands s"
  by (simp add: ai_ok_def ai_used_def)

lemma ai_init_ok [simp]: "ai_ok ai_init" "ai_used ai_init = []" "system_ticks ai_init = 0"
  by (simp_all add: ai_ok_def ai_init_def ai_used_def)

lemma update_stats_simps [simp]:
  "command (update_stats now b e) = command e" "last_used (update_stats now b e) = now"
  by (simp_all add: update_stats_def Let_def)

lemma update_stats_rate: "success_rate e \<le> 100 \<Longrightarrow> success_rate (update_stats now b e) \<le> 100"
proof -
  assume "success_rate e \<le> 100"
  then have "unat (success_rate e) \<le> 100" by (simp add: word_le_nat_alt)
  then have "unat (success_rate e * 95 + (if b then 100 else 0) * 5) \<le> 10000" by (simp add: unat_word_ariths)
  then have "unat ((success_rate e * 95 + (if b then 100 else 0) * 5) div 100) \<le> 100"
    by (simp add: unat_div_distrib div_le_mono [of _ 10000 100, simplified])
  then show ?thesis by (simp add: update_stats_def word_le_nat_alt)
qed

text \<open>The effect of learning a command on the entries in use: the command's entry is updated, a new one is
  added, or the oldest one is replaced.\<close>

lemma find_command:
  "ai_find_command cmd s = Some i \<Longrightarrow> i < num_commands s \<and> command (command_db s ! i) = cmd"
  "ai_find_command cmd s = None \<Longrightarrow> ai_ok s \<Longrightarrow> cmd \<notin> command ` set (ai_used s)"
  by (auto simp: ai_find_command_def find_Some_iff find_None_iff ai_used_def ai_ok_def in_set_conv_nth image_iff) blast

lemma oldest_fold:
  assumes "0 < k" "\<And>i. i < k \<Longrightarrow> last_used (db ! i) < t"
  shows "\<exists>i < k. fold (oldest_step db) [0..<k] (t, 0) = (last_used (db ! i), i) \<and> (\<forall>j < k. last_used (db ! i) \<le> last_used (db ! j))"
  using assms
proof (induction k)
  case (Suc k)
  show ?case
  proof (cases "k = 0")
    case True
    then show ?thesis using Suc.prems(2) [of 0] by (simp add: oldest_step_def)
  next
    case False
    then obtain i where i: "i < k" "fold (oldest_step db) [0..<k] (t, 0) = (last_used (db ! i), i)" "\<forall>j < k. last_used (db ! i) \<le> last_used (db ! j)"
      using Suc by auto
    show ?thesis
    proof (cases "last_used (db ! k) < last_used (db ! i)")
      case True
      then show ?thesis using i by (intro exI [of _ k]) (auto simp: oldest_step_def [of _ k] less_Suc_eq intro: order_trans less_imp_le)
    next
      case False
      then show ?thesis using i by (intro exI [of _ i]) (auto simp: oldest_step_def [of _ k] less_Suc_eq)
    qed
  qed
qed simp

lemma oldest_bound: "0 < num_commands s \<Longrightarrow> ai_oldest s < num_commands s"
proof -
  have "snd (fold (oldest_step db) [0..<k] (t, 0)) < max 1 k" for db t k
    by (induction k) (auto simp: oldest_step_def)
  then show "0 < num_commands s \<Longrightarrow> ai_oldest s < num_commands s" by (metis ai_oldest_def max.absorb2 Suc_leI One_nat_def)
qed

lemma learn_cases:
  fixes b :: bool
  assumes "ai_ok s" "cmd \<noteq> []"
  defines "s' \<equiv> ai_learn_command (Some cmd) b s" and "t \<equiv> system_ticks s + 1"
  shows "system_ticks s' = t \<and> length (command_db s') = AI_MAX_COMMANDS \<and> num_commands s' \<le> AI_MAX_COMMANDS \<and>
    ((\<exists>i < num_commands s. ai_used s' = (ai_used s)[i := update_stats t b (ai_used s ! i)] \<and> command (ai_used s ! i) = cmd) \<or>
     (cmd \<notin> command ` set (ai_used s) \<and> (\<exists>e. command e = take 63 cmd \<and> success_rate e = 100 \<and>
        ai_used s' = (if num_commands s < AI_MAX_COMMANDS then ai_used s @ [update_stats t b e]
          else (ai_used s)[ai_oldest (s\<lparr>system_ticks := t\<rparr>) := update_stats t b e]))))"
proof -
  let ?s1 = "s\<lparr>system_ticks := t\<rparr>"
  have ok: "length (command_db s) = 32" "num_commands s \<le> 32" using assms(1) by (simp_all add: ai_ok_def)
  obtain c cs where cmd: "cmd = c # cs" using assms(2) by (cases cmd) auto
  have f1: "ai_find_command cmd ?s1 = ai_find_command cmd s" by (simp add: ai_find_command_def)
  show ?thesis
  proof (cases "ai_find_command cmd s")
    case (Some i)
    then have i: "i < num_commands s" "command (command_db s ! i) = cmd" using find_command(1) by auto
    have "s' = ?s1\<lparr>command_db := (command_db s)[i := update_stats t b (command_db s ! i)]\<rparr>"
      using Some f1 by (simp add: s'_def ai_learn_command_def cmd t_def)
    then show ?thesis using i ok by (auto simp: ai_used_def take_update_swap)
  next
    case None
    then have nin: "cmd \<notin> command ` set (ai_used s)" using find_command(2) assms(1) by blast
    have st: "s' = (let (idx, s2) = ai_new_entry cmd ?s1 in
        s2\<lparr>command_db := (command_db s2)[idx := update_stats (system_ticks s2) b (command_db s2 ! idx)]\<rparr>)"
      using None f1 by (simp add: s'_def ai_learn_command_def cmd t_def)
    define idx where "idx = (if num_commands s < 32 then num_commands s else ai_oldest ?s1)"
    define e where "e = (command_db s ! idx)\<lparr>command := take 63 cmd, frequency := 0, success_rate := 100\<rparr>"
    have idx: "idx < 32" using oldest_bound [of ?s1] ok(2) by (auto simp: idx_def)
    have "s' = (if num_commands s < 32 then ?s1\<lparr>num_commands := num_commands s + 1\<rparr> else ?s1)
        \<lparr>command_db := (command_db s)[idx := update_stats t b e]\<rparr>"
      using idx ok by (simp add: st ai_new_entry_def idx_def e_def Let_def split: if_splits)
    then show ?thesis using nin idx ok
      by (intro conjI disjI2 exI [of _ e]) (auto simp: ai_used_def idx_def e_def take_update_swap take_Suc_conv_app_nth list_update_append)
  qed
qed

lemma learnE:
  assumes "ai_ok s" "cmd \<noteq> []" "t = system_ticks s + 1"
  obtains (known) i where "i < num_commands s" "command (ai_used s ! i) = cmd"
      "ai_used (ai_learn_command (Some cmd) b s) = (ai_used s)[i := update_stats t b (ai_used s ! i)]"
    | (new) e where "cmd \<notin> command ` set (ai_used s)" "command e = take 63 cmd" "success_rate e = 100"
      "num_commands s < AI_MAX_COMMANDS" "ai_used (ai_learn_command (Some cmd) b s) = ai_used s @ [update_stats t b e]"
    | (full) e where "cmd \<notin> command ` set (ai_used s)" "command e = take 63 cmd" "success_rate e = 100" "num_commands s = AI_MAX_COMMANDS"
      "ai_used (ai_learn_command (Some cmd) b s) =
        (ai_used s)[ai_oldest (s\<lparr>system_ticks := t\<rparr>) := update_stats t b e]"
proof -
  have "num_commands s \<le> 32" using assms(1) by (simp add: ai_ok_def)
  then have "num_commands s = 32" if "\<not> num_commands s < 32" using that by simp
  then show thesis using learn_cases [OF assms(1,2), of b, folded assms(3)] known new full by (cases "num_commands s < 32") auto
qed

lemma learn_ok:
  assumes "ai_ok s"
  shows "ai_ok (ai_learn_command cmd b s)"
proof (cases "cmd = None \<or> cmd = Some []")
  case True
  then show ?thesis using assms by (auto simp: ai_learn_command_def)
next
  case False
  then obtain c where c: "cmd = Some c" "c \<noteq> []" by auto
  let ?t = "system_ticks s + 1"
  have old: "entry_ok (update_stats ?t b e)" if "e \<in> set (ai_used s)" for e
    using assms that update_stats_rate by (auto simp: ai_ok_def entry_ok_def)
  have fresh: "entry_ok (update_stats ?t b e)" if "command e = take 63 c" "success_rate e = 100" for e
    using c(2) that update_stats_rate by (auto simp: entry_ok_def)
  have all: "\<forall>e \<in> set (ai_used s). entry_ok e" using assms by (simp add: ai_ok_def)
  have upd: "\<forall>e \<in> set ((ai_used s)[i := e']). entry_ok e" if "entry_ok e'" for i e'
    using all that set_update_subset_insert [of "ai_used s" i e'] by blast
  from assms c(2) refl have "\<forall>e \<in> set (ai_used (ai_learn_command (Some c) b s)). entry_ok e"
  proof (cases rule: learnE [where b = b])
    case (known i)
    then show ?thesis using old [OF nth_mem] used_length [OF assms] by (simp only:) (intro upd, simp)
  next
    case (new e)
    then show ?thesis using all fresh by auto
  next
    case (full e)
    then show ?thesis by (simp only:) (intro upd fresh)
  qed
  then show ?thesis using learn_cases [OF assms c(2), of b] unfolding c(1) by (simp add: ai_ok_def)
qed

section \<open>A least-recently-used cache\<close>

text \<open>The commands of the table, the one used last first.\<close>

definition recency :: "ai_state \<Rightarrow> cstring list" where
  "recency s = rev (map command (sort_key last_used (ai_used s)))"

definition lru_learn :: "cstring \<Rightarrow> cstring list \<Rightarrow> cstring list" where
  "lru_learn c cs = take AI_MAX_COMMANDS (c # filter (\<lambda>d. d \<noteq> c) cs)"

definition lru_ok :: "ai_state \<Rightarrow> bool" where
  "lru_ok s \<longleftrightarrow> ai_ok s \<and> distinct (map command (ai_used s)) \<and> distinct (map last_used (ai_used s)) \<and>
     (\<forall>e \<in> set (ai_used s). last_used e \<le> system_ticks s)"

lemma distinct_map_update:
  assumes "distinct (map f xs)" "\<forall>x \<in> set xs. f x \<noteq> f (xs ! i) \<longrightarrow> f x \<noteq> f e"
  shows "distinct (map f (xs[i := e]))"
proof -
  have "f e \<notin> f ` set xs - {f (xs ! i)}" using assms(2) by auto
  then have "distinct ((map f xs)[i := f e])" if "i < length xs" using assms(1) that by (intro distinct_list_update) simp_all
  then show ?thesis using assms(1) by (cases "i < length xs") (simp_all add: map_update list_update_beyond)
qed

lemma filter_absent: "c \<notin> f ` set xs \<Longrightarrow> filter (\<lambda>d. d \<noteq> c) (map f xs) = map f xs"
  by (induction xs) auto

lemma sort_replace:
  assumes "distinct (map f xs)" "i < length xs" "\<forall>x \<in> set xs. f x < f e"
  shows "sort_key f (xs[i := e]) = remove1 (xs ! i) (sort_key f xs) @ [e]"
proof (rule sort_key_inj_key_eq)
  have "distinct (map f (xs[i := e]))" using assms(1,3) by (intro distinct_map_update) auto
  then show "inj_on f (set (xs[i := e]))" by (simp add: distinct_map)
  show "mset (xs[i := e]) = mset (remove1 (xs ! i) (sort_key f xs) @ [e])" using assms(2) by (simp add: mset_update)
  have "\<forall>x \<in> set (remove1 (xs ! i) (sort_key f xs)). f x \<le> f e" using assms(3) by (auto dest: notin_set_remove1 less_imp_le set_remove1_subset [THEN subsetD])
  then show "sorted (map f (remove1 (xs ! i) (sort_key f xs) @ [e]))" by (simp add: sorted_append sorted_map_remove1)
qed

lemma sort_snoc:
  assumes "distinct (map f xs)" "\<forall>x \<in> set xs. f x < f e"
  shows "sort_key f (xs @ [e]) = sort_key f xs @ [e]"
proof (rule sort_key_inj_key_eq)
  show "inj_on f (set (xs @ [e]))" using assms by (auto simp: distinct_map inj_on_def)
  show "sorted (map f (sort_key f xs @ [e]))" using assms(2) by (auto simp: sorted_append)
qed simp

lemma map_remove1: "distinct (map f xs) \<Longrightarrow> x \<in> set xs \<Longrightarrow> map f (remove1 x xs) = filter (\<lambda>c. c \<noteq> f x) (map f xs)"
proof (induction xs)
  case (Cons a xs)
  show ?case
  proof (cases "a = x")
    case True
    then have "filter (\<lambda>c. c \<noteq> f x) (map f xs) = map f xs" using Cons.prems(1) by (intro filter_absent) simp
    then show ?thesis using True by simp
  next
    case False
    then show ?thesis using Cons by auto
  qed
qed simp

lemma sort_min_first:
  assumes "x \<in> set xs" "distinct (map f xs)" "\<forall>y \<in> set xs. f x \<le> f y"
  shows "\<exists>ys. sort_key f xs = x # ys"
proof -
  have "x \<in> set (sort_key f xs)" using assms(1) by simp
  then obtain y ys where y: "sort_key f xs = y # ys" by (cases "sort_key f xs") auto
  have "y \<in> set xs" using y by (metis list.set_intros(1) set_sort)
  moreover have "sorted (map f (sort_key f xs))" by simp
  then have "f y \<le> f x" using \<open>x \<in> set (sort_key f xs)\<close> unfolding y by auto
  ultimately have "y = x" using assms by (metis antisym distinct_map inj_onD)
  then show ?thesis using y by blast
qed

lemma distinct_map_sort: "distinct (map f xs) \<Longrightarrow> distinct (map f (sort_key g xs))"
  by (metis distinct_map distinct_sort set_sort)

lemma recency_absent: "c \<notin> command ` set (ai_used s) \<Longrightarrow> filter (\<lambda>d. d \<noteq> c) (recency s) = recency s"
  using filter_absent [of c command "sort_key last_used (ai_used s)"] by (simp add: recency_def rev_filter [symmetric])

text \<open>The two ways in which an entry is used: a new one at the end, or one in the place of another.\<close>

lemma lru_append:
  assumes "lru_ok s" "length (ai_used s) < AI_MAX_COMMANDS" "ai_used s' = ai_used s @ [e]" "command e \<notin> command ` set (ai_used s)"
    "\<forall>x \<in> set (ai_used s). last_used x < last_used e"
  shows "recency s' = lru_learn (command e) (recency s) \<and> distinct (map command (ai_used s')) \<and> distinct (map last_used (ai_used s'))"
proof -
  have ok: "distinct (map command (ai_used s))" "distinct (map last_used (ai_used s))" using assms(1) by (simp_all add: lru_ok_def)
  have "filter (\<lambda>d. d \<noteq> command e) (recency s) = recency s" by (rule recency_absent [OF assms(4)])
  then have "lru_learn (command e) (recency s) = command e # recency s" using assms(2) by (simp add: lru_learn_def recency_def)
  moreover have "recency s' = command e # recency s" using sort_snoc [OF ok(2) assms(5)] by (simp add: recency_def assms(3))
  ultimately show ?thesis using ok assms(4,5) by (auto simp: assms(3))
qed

lemma lru_replace:
  assumes "lru_ok s" "length (ai_used s) \<le> AI_MAX_COMMANDS" "i < length (ai_used s)" "ai_used s' = (ai_used s)[i := e]"
    "\<forall>x \<in> set (ai_used s). last_used x < last_used e"
    "command (ai_used s ! i) = command e \<or> command e \<notin> command ` set (ai_used s) \<and> length (ai_used s) = AI_MAX_COMMANDS \<and>
       (\<forall>x \<in> set (ai_used s). last_used (ai_used s ! i) \<le> last_used x)"
  shows "recency s' = lru_learn (command e) (recency s) \<and> distinct (map command (ai_used s')) \<and> distinct (map last_used (ai_used s'))"
proof -
  let ?xs = "ai_used s" and ?S = "sort_key last_used (ai_used s)"
  have ok: "distinct (map command ?xs)" "distinct (map last_used ?xs)" using assms(1) by (simp_all add: lru_ok_def)
  have dS: "distinct (map command ?S)" by (rule distinct_map_sort [OF ok(1)])
  have "lru_learn (command e) (recency s) = command e # rev (map command (remove1 (?xs ! i) ?S))" using assms(6)
  proof (elim disjE conjE)
    assume "command (?xs ! i) = command e"
    then have m: "map command (remove1 (?xs ! i) ?S) = filter (\<lambda>d. d \<noteq> command e) (map command ?S)"
      using map_remove1 [OF dS] nth_mem [OF assms(3)] by simp
    have "length (remove1 (?xs ! i) ?S) = length ?xs - 1" using nth_mem [OF assms(3)] by (simp add: length_remove1)
    then have "length (map command (remove1 (?xs ! i) ?S)) < 32" using assms(2,3) by simp
    then show ?thesis unfolding m by (simp add: lru_learn_def recency_def rev_filter [symmetric])
  next
    assume h: "command e \<notin> command ` set ?xs" "length ?xs = 32" "\<forall>x \<in> set ?xs. last_used (?xs ! i) \<le> last_used x"
    then obtain ys where ys: "?S = (?xs ! i) # ys" using sort_min_first [OF nth_mem [OF assms(3)] ok(2)] by blast
    have "filter (\<lambda>d. d \<noteq> command e) (recency s) = recency s" by (rule recency_absent [OF h(1)])
    moreover have "length ys = 31" using arg_cong [OF ys, of length] h(2) by simp
    ultimately show ?thesis by (simp add: lru_learn_def recency_def ys)
  qed
  moreover have "recency s' = command e # rev (map command (remove1 (?xs ! i) ?S))"
    using sort_replace [OF ok(2) assms(3,5)] by (simp add: recency_def assms(4))
  moreover have "distinct (map last_used (?xs[i := e]))" using ok(2) assms(5) by (intro distinct_map_update) auto
  moreover have "\<forall>x \<in> set ?xs. command x \<noteq> command (?xs ! i) \<longrightarrow> command x \<noteq> command e" using assms(6) by (metis image_eqI)
  then have "distinct (map command (?xs[i := e]))" by (rule distinct_map_update [OF ok(1)])
  ultimately show ?thesis by (simp add: assms(4))
qed

lemma lru_step:
  assumes "lru_ok s" "cmd \<noteq> []" "length cmd < AI_MAX_CMD_LEN" "unat (system_ticks s) + 1 < 2 ^ 32"
  shows "lru_ok (ai_learn_command (Some cmd) b s) \<and> recency (ai_learn_command (Some cmd) b s) = lru_learn cmd (recency s) \<and>
    unat (system_ticks (ai_learn_command (Some cmd) b s)) = unat (system_ticks s) + 1"
proof -
  let ?s' = "ai_learn_command (Some cmd) b s" and ?xs = "ai_used s"
  define t where "t = system_ticks s + 1"
  have ok: "ai_ok s" "\<forall>e \<in> set ?xs. last_used e \<le> system_ticks s" using assms(1) by (simp_all add: lru_ok_def)
  have len: "length ?xs = num_commands s" "num_commands s \<le> 32" using used_length [OF ok(1)] ok(1) by (simp_all add: ai_ok_def)
  have t: "unat t = unat (system_ticks s) + 1" using assms(4) by (simp add: t_def unat_word_ariths)
  have lt: "\<forall>e \<in> set ?xs. last_used e < t" using ok(2) t by (auto simp: word_le_nat_alt word_less_nat_alt)
  note cases = learn_cases [OF ok(1) assms(2), of b, folded t_def]
  obtain e where e: "command e = cmd" "last_used e = t" and
    r: "recency ?s' = lru_learn cmd (recency s) \<and> distinct (map command (ai_used ?s')) \<and> distinct (map last_used (ai_used ?s'))"
    and sub: "set (ai_used ?s') \<subseteq> insert e (set ?xs)"
  proof -
    from ok(1) assms(2) t_def show thesis
    proof (cases rule: learnE [where b = b])
      case (known i)
      let ?e = "update_stats t b (?xs ! i)"
      have "recency ?s' = lru_learn (command ?e) (recency s) \<and> distinct (map command (ai_used ?s')) \<and> distinct (map last_used (ai_used ?s'))"
        by (rule lru_replace [OF assms(1) _ _ known(3)]) (use known lt len in simp_all)
      then show thesis using known set_update_subset_insert [of ?xs i ?e] by (intro that [of ?e]) simp_all
    next
      case (new e)
      let ?e = "update_stats t b e"
      have ce: "command ?e = cmd" using new(2) assms(3) by simp
      have "recency ?s' = lru_learn (command ?e) (recency s) \<and> distinct (map command (ai_used ?s')) \<and> distinct (map last_used (ai_used ?s'))"
        by (rule lru_append [OF assms(1) _ new(5)]) (use new(1,4) lt len ce in simp_all)
      then show thesis using ce new(5) by (intro that [of ?e]) auto
    next
      case (full e)
      let ?e = "update_stats t b e" and ?o = "ai_oldest (s\<lparr>system_ticks := t\<rparr>)"
      have ce: "command ?e = cmd" using full(2) assms(3) by simp
      have nth: "?xs ! i = command_db s ! i" if "i < 32" for i using that full(4) by (simp add: ai_used_def)
      have "\<And>i. i < 32 \<Longrightarrow> last_used (command_db s ! i) < t" using lt len full(4) nth nth_mem by metis
      then obtain i where i: "i < 32" "?o = i" "\<forall>j < 32. last_used (command_db s ! i) \<le> last_used (command_db s ! j)"
        using oldest_fold [of 32 "command_db s" t] full(4) by (auto simp: ai_oldest_def)
      then have old: "\<forall>x \<in> set ?xs. last_used (?xs ! ?o) \<le> last_used x" using len full(4) nth by (auto simp: in_set_conv_nth)
      have "recency ?s' = lru_learn (command ?e) (recency s) \<and> distinct (map command (ai_used ?s')) \<and> distinct (map last_used (ai_used ?s'))"
        by (rule lru_replace [OF assms(1) _ _ full(5)]) (use full(1,4) lt len ce i old in simp_all)
      then show thesis using ce full(5) set_update_subset_insert [of ?xs ?o ?e] by (intro that [of ?e]) simp_all
    qed
  qed
  have "\<forall>x \<in> set (ai_used ?s'). last_used x \<le> t" using sub e(2) lt by (auto intro: less_imp_le)
  then show ?thesis using r cases learn_ok [OF ok(1)] t by (simp add: lru_ok_def)
qed

section \<open>Runs\<close>

definition ai_run :: "(cstring option \<times> bool) list \<Rightarrow> ai_state \<Rightarrow> ai_state" where
  "ai_run h s = fold (\<lambda>(c, b). ai_learn_command c b) h s"

lemma ai_run_snoc: "ai_run (h @ [(c, b)]) s = ai_learn_command c b (ai_run h s)"
  by (simp add: ai_run_def)

lemma learn_names:
  assumes "ai_ok s" "e \<in> set (ai_used (ai_learn_command cmd b s))"
  shows "(\<exists>x \<in> set (ai_used s). command e = command x) \<or> (\<exists>c. cmd = Some c \<and> command e = take 63 c)"
proof (cases "cmd = None \<or> cmd = Some []")
  case True
  then show ?thesis using assms by (auto simp: ai_learn_command_def)
next
  case False
  then obtain c where c: "cmd = Some c" "c \<noteq> []" by auto
  have upd: "e = u \<or> e \<in> set (ai_used s)" if "e \<in> set ((ai_used s)[i := u])" for i u
    using that set_update_subset_insert [of "ai_used s" i u] by blast
  from assms(1) c(2) refl show ?thesis
  proof (cases rule: learnE [where b = b])
    case (known i)
    then have "ai_used s ! i \<in> set (ai_used s)" using used_length [OF assms(1)] by simp
    then show ?thesis using upd assms(2) known(3) unfolding c(1) by (metis update_stats_simps(1))
  next
    case (new u)
    then show ?thesis using assms(2) unfolding c(1) by auto
  next
    case (full u)
    then show ?thesis using upd assms(2) unfolding c(1) by (metis update_stats_simps(1))
  qed
qed

lemma ai_run_ok: "ai_ok (ai_run h ai_init)"
proof (induction h rule: rev_induct)
  case (snoc x h)
  then show ?case using learn_ok by (cases x) (simp add: ai_run_snoc)
qed (simp add: ai_run_def)

lemma lru_run:
  assumes "\<forall>(c, b) \<in> set h. c \<noteq> [] \<and> length c < AI_MAX_CMD_LEN" "length h < 2 ^ 32"
  shows "lru_ok (ai_run (map (\<lambda>(c, b). (Some c, b)) h) ai_init) \<and>
    recency (ai_run (map (\<lambda>(c, b). (Some c, b)) h) ai_init) = fold lru_learn (map fst h) [] \<and>
    unat (system_ticks (ai_run (map (\<lambda>(c, b). (Some c, b)) h) ai_init)) = length h"
  using assms
proof (induction h rule: rev_induct)
  case Nil
  then show ?case by (simp add: ai_run_def lru_ok_def recency_def)
next
  case (snoc x h)
  obtain c b where x: "x = (c, b)" by (cases x)
  let ?s = "ai_run (map (\<lambda>(c, b). (Some c, b)) h) ai_init"
  have h: "lru_ok ?s" "recency ?s = fold lru_learn (map fst h) []" "unat (system_ticks ?s) = length h" using snoc by auto
  have "c \<noteq> []" "length c < 64" "unat (system_ticks ?s) + 1 < 2 ^ 32" using snoc.prems h(3) x by auto
  from lru_step [OF h(1) this, of b] show ?case using h(2,3) by (simp add: x ai_run_snoc)
qed

section \<open>Properties\<close>

text \<open>C27: the table is well formed. Whatever commands the shell reports, empty ones and \<open>NULL\<close> included, the table holds at most
  32 commands, each of them a reported one cut to 63 characters, not empty, with a success rate of at most 100.\<close>

theorem ai_reachable_ok:
  "ai_ok (ai_run h ai_init) \<and> (\<forall>e. e \<in> set (ai_used (ai_run h ai_init)) \<longrightarrow> (\<exists>c b. (Some c, b) \<in> set h \<and> command e = take 63 c))"
proof
  show "\<forall>e. e \<in> set (ai_used (ai_run h ai_init)) \<longrightarrow> (\<exists>c b. (Some c, b) \<in> set h \<and> command e = take 63 c)"
  proof (induction h rule: rev_induct)
    case (snoc x h)
    obtain c b where x: "x = (c, b)" by (cases x)
    show ?case unfolding x ai_run_snoc
    proof (intro allI impI)
      fix e assume "e \<in> set (ai_used (ai_learn_command c b (ai_run h ai_init)))"
      from learn_names [OF ai_run_ok this] show "\<exists>c' b'. (Some c', b') \<in> set (h @ [(c, b)]) \<and> command e = take 63 c'"
      proof (elim disjE bexE exE conjE)
        fix y assume "y \<in> set (ai_used (ai_run h ai_init))" "command e = command y"
        moreover from this snoc obtain c' b' where "(Some c', b') \<in> set h" "command y = take 63 c'" by blast
        ultimately show ?thesis by (intro exI [of _ c'] exI [of _ b']) simp
      qed auto
    qed
  qed (simp add: ai_run_def)
qed (rule ai_run_ok)

theorem ai_reachable_ok_witness:
  "ai_ok (ai_run [(Some [108, 115], True), (None, False)] ai_init) \<and>
   (\<exists>e. e \<in> set (ai_used (ai_run [(Some [108, 115], True), (None, False)] ai_init)) \<and> command e = [108, 115])"
proof
  let ?h = "[(Some [108, 115], True), (None, False)] :: (cstring option \<times> bool) list"
  have "num_commands (ai_run ?h ai_init) = 1"
    by (simp add: ai_run_def ai_learn_command_def ai_init_def ai_find_command_def ai_new_entry_def Let_def)
  then have "length (ai_used (ai_run ?h ai_init)) = 1" using used_length ai_reachable_ok by metis
  then obtain e where e: "e \<in> set (ai_used (ai_run ?h ai_init))" by (cases "ai_used (ai_run ?h ai_init)") auto
  then obtain c b where "(Some c, b) \<in> set ?h" "command e = take 63 c" using ai_reachable_ok [of ?h] by blast
  then show "\<exists>e. e \<in> set (ai_used (ai_run ?h ai_init)) \<and> command e = [108, 115]" using e by auto
qed (use ai_reachable_ok in blast)

text \<open>C25: the table is a least-recently-used cache. While commands have 1 to 63 characters and fewer than \<open>2 ^ 32\<close> were learned, the
  commands of the table, the one used last first, are what a cache of 32 places holds: a command used moves to the front,
  and when the table is full the one not used for longest makes room. A longer command is not recognised when it comes
  again: used twice it takes two entries.\<close>

theorem ai_lru_cache:
  "((\<forall>(c, b) \<in> set h. c \<noteq> [] \<and> length c < 64) \<and> length h < 2 ^ 32 \<longrightarrow>
     recency (ai_run (map (\<lambda>(c, b). (Some c, b)) h) ai_init) = fold lru_learn (map fst h) []) \<and>
   (64 \<le> length c \<longrightarrow> map command (ai_used (ai_run [(Some c, b), (Some c, b')] ai_init)) = [take 63 c, take 63 c])"
proof (intro conjI impI)
  assume c: "64 \<le> length c"
  let ?s = "ai_run [(Some c, b)] ai_init"
  have ne: "c \<noteq> []" and cut: "take 63 c \<noteq> c" using c by (auto dest: arg_cong [of _ _ length])
  have "ai_ok ?s" by (rule ai_run_ok)
  have u1: "map command (ai_used ?s) = [take 63 c]"
    using learn_cases [OF ai_init_ok(1) ne, of b] by (auto simp: ai_run_def) (auto simp: ai_init_def split: if_splits)
  then have n: "num_commands ?s = 1" using used_length [OF \<open>ai_ok ?s\<close>] by (metis One_nat_def length_Cons length_map list.size(3))
  have "ai_run [(Some c, b), (Some c, b')] ai_init = ai_learn_command (Some c) b' ?s" by (simp add: ai_run_def)
  then show "map command (ai_used (ai_run [(Some c, b), (Some c, b')] ai_init)) = [take 63 c, take 63 c]"
    using learn_cases [OF \<open>ai_ok ?s\<close> ne, of b'] u1 n cut by (auto split: if_splits)
qed (use lru_run in blast)

theorem ai_lru_cache_witness:
  "recency (ai_run [(Some [97], True), (Some [98], True), (Some [97], False)] ai_init) = [[97], [98]] \<and>
   map command (ai_used (ai_run [(Some (replicate 70 97), True), (Some (replicate 70 97), True)] ai_init)) = [replicate 63 97, replicate 63 97]"
  using ai_lru_cache [of "[([97], True), ([98], True), ([97], False)]" "replicate 70 97" True True] by (simp add: lru_learn_def)

text \<open>C26: suggestions are ranked. The bubble sort of \<open>ai_show_suggestions\<close> is a stable sort by falling score; the command shows
  the first three of the matches in that order, and \<open>ai_predict_command\<close>, which never sorts, returns the first of them
  when its score is at least 50 and nothing otherwise.\<close>

theorem ai_suggestions_ranked:
  assumes "partial \<noteq> []" "ms = sort_key (\<lambda>x. - uint (snd x)) (ai_matches partial s)"
  shows "ai_predict_command (Some partial) s = (case ms of [] \<Rightarrow> None | x # _ \<Rightarrow> if snd x < 50 then None else Some (fst x)) \<and>
    ai_show_suggestions (Some partial) s =
      (if ms = [] then [Terminal_setcolor 12 0, Terminal_writestring (lit ''\<newline>[AI] No suggestions found\<newline>'')]
       else [Terminal_setcolor 11 0, Terminal_writestring (lit ''\<newline>[AI] Suggestions: '')] @
         show_matches (map fst (take 3 ms)) @ [Terminal_writestring (lit ''\<newline>'')])"
proof
  show "ai_predict_command (Some partial) s = (case ms of [] \<Rightarrow> None | x # _ \<Rightarrow> if snd x < 50 then None else Some (fst x))"
    using predict_first [OF assms(1), of s] by (simp add: bubble_sort_key assms(2))
  have "ms = [] \<longleftrightarrow> ai_matches partial s = []" by (metis assms(2) set_empty set_sort)
  then show "ai_show_suggestions (Some partial) s =
      (if ms = [] then [Terminal_setcolor 12 0, Terminal_writestring (lit ''\<newline>[AI] No suggestions found\<newline>'')]
       else [Terminal_setcolor 11 0, Terminal_writestring (lit ''\<newline>[AI] Suggestions: '')] @
         show_matches (map fst (take 3 ms)) @ [Terminal_writestring (lit ''\<newline>'')])"
    using assms by (cases partial) (simp_all add: ai_show_suggestions_def bubble_sort_key Let_def)
qed

theorem ai_suggestions_ranked_witness:
  "ai_predict_command (Some [104]) \<lparr>command_db = [\<lparr>command = [104, 105], frequency = 3, last_used = 1, success_rate = 100\<rparr>,
      \<lparr>command = [104, 97], frequency = 9, last_used = 2, success_rate = 100\<rparr>], num_commands = 2, system_ticks = 2\<rparr> = Some [104, 97]"
proof -
  let ?s = "\<lparr>command_db = [\<lparr>command = [104, 105], frequency = 3, last_used = 1, success_rate = 100\<rparr>,
      \<lparr>command = [104, 97], frequency = 9, last_used = 2, success_rate = 100\<rparr>], num_commands = 2, system_ticks = 2\<rparr> :: ai_state"
  have "ai_matches [104] ?s = [([104, 105], 57), ([104, 97], 180)]"
    by (simp add: ai_matches_def starts_with_def ai_calculate_score_def upt_rec)
  then show ?thesis using ai_suggestions_ranked [of "[104]" _ ?s] by simp
qed

end
