(* ===== verification/Task.thy ===== *)
theory Task
  imports Scheduler Elf Fat Terminal "HOL-Library.Monad_Syntax"
begin

text \<open>
  Creating and destroying tasks, the part of \<open>src/kernel/task.c\<close> that uses the heap, the page tables and the ELF
  loader. \<open>kernel_state\<close> puts the states of the components together; the heap, which both the page tables and the file
  systems use, is the one of the page tables, and the register CR3 is the one of the scheduler. A function that does not
  return, because of a fault or a loop without end, gives \<open>None\<close>. Entry points of tasks are addresses.
\<close>

section \<open>The state of the kernel\<close>

record kernel_state =
  k_vm :: vmm_state
  k_fs :: fs_state
  k_sched :: sched_state
  k_term :: terminal
  next_fork_pid :: u32

definition on_vm :: "(vmm_state \<Rightarrow> vmm_state) \<Rightarrow> kernel_state \<Rightarrow> kernel_state" where
  "on_vm f k = k\<lparr>k_vm := f (k_vm k)\<rparr>"

definition on_sched :: "(sched_state \<Rightarrow> sched_state option) \<Rightarrow> kernel_state \<Rightarrow> kernel_state option" where
  "on_sched f k = do {
     s \<leftarrow> f ((k_sched k)\<lparr>cr3 := cpu_cr3 (k_vm k)\<rparr>);
     Some (k\<lparr>k_sched := s, k_vm := (k_vm k)\<lparr>cpu_cr3 := cr3 s\<rparr>\<rparr>) }"

definition on_fs :: "(fs_state \<Rightarrow> ('a \<times> fs_state) option) \<Rightarrow> kernel_state \<Rightarrow> ('a \<times> kernel_state) option" where
  "on_fs f k = do {
     (r, s) \<leftarrow> f ((k_fs k)\<lparr>fheap := kheap (k_vm k)\<rparr>);
     Some (r, k\<lparr>k_fs := s, k_vm := (k_vm k)\<lparr>kheap := fheap s\<rparr>\<rparr>) }"

definition k_kmalloc :: "u32 \<Rightarrow> kernel_state \<Rightarrow> (u32 \<times> kernel_state) option" where
  "k_kmalloc sz k = do { (p, h) \<leftarrow> kmalloc sz (kheap (k_vm k)); Some (p, on_vm (\<lambda>v. v\<lparr>kheap := h\<rparr>) k) }"

definition k_kfree :: "u32 \<Rightarrow> kernel_state \<Rightarrow> kernel_state option" where
  "k_kfree p k = do { h \<leftarrow> kfree p (kheap (k_vm k)); Some (on_vm (\<lambda>v. v\<lparr>kheap := h\<rparr>) k) }"

definition k_task :: "kernel_state \<Rightarrow> u32 \<Rightarrow> task" where
  "k_task k t = tasks (k_sched k) t"

definition k_upd :: "u32 \<Rightarrow> (task \<Rightarrow> task) \<Rightarrow> kernel_state \<Rightarrow> kernel_state" where
  "k_upd t f k = k\<lparr>k_sched := upd_task t f (k_sched k)\<rparr>"

section \<open>Task structures\<close>

abbreviation SIZEOF_TASK :: u32 where
  "SIZEOF_TASK \<equiv> 220"

abbreviation USER_STACK_TOP :: u32 where
  "USER_STACK_TOP \<equiv> 0xBFFFFFFF"

abbreviation USER_STACK_SIZE :: u32 where
  "USER_STACK_SIZE \<equiv> 0x00100000"

text \<open>The array \<open>name[32]\<close> of a cleared structure after a string is copied into it.\<close>

definition name_array :: "str \<Rightarrow> u8 list" where
  "name_array cs = cs @ replicate (32 - length cs) 0"

text \<open>The structure after \<open>memset\<close> and the basic fields, with the next process number.\<close>

definition new_task :: "u32 \<Rightarrow> str \<Rightarrow> u32 \<Rightarrow> u8 \<Rightarrow> kernel_state \<Rightarrow> kernel_state" where
  "new_task task name priority ring k =
     (let pid = next_pid (k_sched k);
          k = k\<lparr>k_sched := (k_sched k)\<lparr>next_pid := pid + 1\<rparr>\<rparr>
      in k_upd task (\<lambda>_. zero_task\<lparr>t_pid := pid, t_name := name_array (take 31 name), t_state := TASK_READY, t_priority := priority, t_ring := ring,
           t_time_slice := 10\<rparr>) k)"

definition set_kernel_stack :: "u32 \<Rightarrow> u32 \<Rightarrow> kernel_state \<Rightarrow> kernel_state" where
  "set_kernel_stack task raw k =
     k_upd task (\<lambda>t. t\<lparr>t_kernel_stack_alloc := raw, t_kernel_stack := (raw + 0xFFF) AND NOT 0xFFF\<rparr>) k"

section \<open>Initial stacks\<close>

text \<open>Values pushed one after the other on a stack that grows down.\<close>

fun push32 :: "u32 list \<Rightarrow> u32 \<Rightarrow> vmm_state \<Rightarrow> (u32 \<times> vmm_state) option" where
  "push32 [] sp s = Some (sp, s)"
| "push32 (v # vs) sp s = (case store32 (sp - 4) v s of None \<Rightarrow> None | Some s \<Rightarrow> push32 vs (sp - 4) s)"

definition set_stack :: "u32 \<Rightarrow> u32 list \<Rightarrow> u32 \<Rightarrow> kernel_state \<Rightarrow> kernel_state option" where
  "set_stack task frame eip k = do {
     (sp, v) \<leftarrow> push32 frame (t_kernel_stack (k_task k task) + 4096) (k_vm k);
     Some (k_upd task (\<lambda>t. t\<lparr>t_context := (t_context t)\<lparr>c_esp := sp, c_eip := eip\<rparr>\<rparr>) (k\<lparr>k_vm := v\<rparr>)) }"

definition task_setup_kernel_stack :: "u32 \<Rightarrow> u32 \<Rightarrow> kernel_state \<Rightarrow> kernel_state option" where
  "task_setup_kernel_stack task entry_point k = set_stack task [0x202, 0x08, entry_point, 0, 0, 0, 0, 0, 0, 0, 0] entry_point k"

definition task_setup_user_context :: "u32 \<Rightarrow> kernel_state \<Rightarrow> kernel_state option" where
  "task_setup_user_context task k =
     (let t = k_task k task in set_stack task [0x23, t_user_esp t, 0x202, 0x1B, t_entry_point t] (t_entry_point t) k)"

section \<open>Creation\<close>

definition task_init :: "u32 \<Rightarrow> kernel_state \<Rightarrow> kernel_state option" where
  "task_init kernel_idle_loop k = do {
     (task, k) \<leftarrow> k_kmalloc SIZEOF_TASK k;
     let k = k\<lparr>k_sched := (k_sched k)\<lparr>kernel_task := task\<rparr>\<rparr>;
     if task = NULL then Some k
     else do {
       let k = k_upd task (\<lambda>_. zero_task\<lparr>t_pid := 0, t_name := name_array (map of_char ''kernel_idle''), t_state := TASK_RUNNING, t_priority := 255,
         t_ring := 0, t_page_directory := page_dir (address_spaces (k_vm k) (vmm_current_as (k_vm k)))\<rparr>) k;
       (raw_kstack, k) \<leftarrow> k_kmalloc 8192 k;
       if raw_kstack = NULL then k_kfree task k
       else do {
         k \<leftarrow> task_setup_kernel_stack task kernel_idle_loop (set_kernel_stack task raw_kstack k);
         Some (k\<lparr>k_sched := (k_sched k)\<lparr>current_task := task, task_list_head := task\<rparr>\<rparr>) } } }"

text \<open>The new task becomes a child of the running one and the head of the task list.\<close>

definition link_task :: "u32 \<Rightarrow> kernel_state \<Rightarrow> kernel_state" where
  "link_task task k =
     (let s = k_sched k;
          s = (if current_task s \<noteq> NULL then task_add_child (current_task s) task s else s);
          s = upd_task task (\<lambda>t. t\<lparr>t_next := task_list_head s\<rparr>) s
      in k\<lparr>k_sched := s\<lparr>task_list_head := task\<rparr>\<rparr>)"

definition task_create :: "str \<Rightarrow> u32 \<Rightarrow> u32 \<Rightarrow> kernel_state \<Rightarrow> (u32 \<times> kernel_state) option" where
  "task_create name entry_point priority k = do {
     (task, k) \<leftarrow> k_kmalloc SIZEOF_TASK k;
     if task = NULL then Some (NULL, k)
     else do {
       (raw_kstack, k) \<leftarrow> k_kmalloc 8192 (new_task task name priority 0 k);
       if raw_kstack = NULL then do { k \<leftarrow> k_kfree task k; Some (NULL, k) }
       else do {
         (user_stack, k) \<leftarrow> k_kmalloc 4096 (set_kernel_stack task raw_kstack k);
         let k = k_upd task (\<lambda>t. t\<lparr>t_user_stack := user_stack\<rparr>) k;
         if user_stack = NULL
         then do { k \<leftarrow> k_kfree raw_kstack k; k \<leftarrow> k_kfree task k; Some (NULL, k) }
         else do {
           let k = k_upd task (\<lambda>t. t\<lparr>t_page_directory := t_page_directory (k_task k (kernel_task (k_sched k)))\<rparr>) k;
           k \<leftarrow> task_setup_kernel_stack task entry_point k;
           Some (task, link_task task k) } } } }"

definition k_destroy_as :: "u32 \<Rightarrow> kernel_state \<Rightarrow> kernel_state option" where
  "k_destroy_as as k = do { v \<leftarrow> vmm_destroy_as as (k_vm k); Some (k\<lparr>k_vm := v\<rparr>) }"

definition k_pmm_free :: "u32 \<Rightarrow> kernel_state \<Rightarrow> kernel_state" where
  "k_pmm_free phys k = on_vm (\<lambda>v. set_pmm (pmm_free_block phys (vpmm v)) v) k"

definition k_elf_load :: "u32 \<Rightarrow> u32 \<Rightarrow> kernel_state \<Rightarrow> (bool \<times> kernel_state) option" where
  "k_elf_load task elf_data k = do {
     (ok, t, v) \<leftarrow> elf_load (fmem (k_fs k)) elf_data (k_task k task) (k_vm k);
     Some (ok, k_upd task (\<lambda>_. t) (k\<lparr>k_vm := v\<rparr>)) }"

text \<open>From the user's stack page on; \<open>raw_kstack\<close> and \<open>as\<close> are what is freed when loading fails.\<close>

definition create_user_stack :: "u32 \<Rightarrow> u32 \<Rightarrow> u32 \<Rightarrow> u32 \<Rightarrow> kernel_state \<Rightarrow> (u32 \<times> kernel_state) option" where
  "create_user_stack task as raw_kstack elf_data k = do {
     let (ustack_phys, p) = pmm_alloc_block (vpmm (k_vm k));
     let k = on_vm (set_pmm p) k;
     if ustack_phys = NULL
     then do { k \<leftarrow> k_kfree raw_kstack k; k \<leftarrow> k_destroy_as as k; k \<leftarrow> k_kfree task k; Some (NULL, k) }
     else do {
       let k = k_upd task (\<lambda>t. t\<lparr>t_user_stack_phys := ustack_phys\<rparr>) k;
       let k = on_vm (vmm_map_page_in_as as (USER_STACK_TOP - PAGE_SIZE + 1) ustack_phys (VMM_PRESENT OR VMM_WRITE OR VMM_USER)) k;
       let k = k_upd task (\<lambda>t. t\<lparr>t_user_esp := USER_STACK_TOP - 4, t_stack_bottom := USER_STACK_TOP - USER_STACK_SIZE\<rparr>) k;
       (ok, k) \<leftarrow> k_elf_load task elf_data k;
       if \<not> ok
       then do {
         let k = k_pmm_free ustack_phys (on_vm (vmm_unmap_page_in_as as (USER_STACK_TOP - PAGE_SIZE)) k);
         k \<leftarrow> k_kfree raw_kstack k; k \<leftarrow> k_destroy_as as k; k \<leftarrow> k_kfree task k; Some (NULL, k) }
       else do { k \<leftarrow> task_setup_user_context task k; Some (task, link_task task k) } } }"

definition task_create_user :: "str \<Rightarrow> u32 \<Rightarrow> u32 \<Rightarrow> kernel_state \<Rightarrow> (u32 \<times> kernel_state) option" where
  "task_create_user name elf_data priority k = do {
     (task, k) \<leftarrow> k_kmalloc SIZEOF_TASK k;
     if task = NULL then Some (NULL, k)
     else do {
       let k = k_upd task (\<lambda>t. t\<lparr>t_first_run := True\<rparr>) (new_task task name priority 3 k);
       (as, v) \<leftarrow> vmm_create_as (k_vm k);
       let k = k\<lparr>k_vm := v\<rparr>;
       if as = NULL then do { k \<leftarrow> k_kfree task k; Some (NULL, k) }
       else do {
         let k = k_upd task (\<lambda>t. t\<lparr>t_address_space := as, t_page_directory := page_dir (address_spaces (k_vm k) as)\<rparr>) k;
         (raw_kstack, k) \<leftarrow> k_kmalloc 8192 k;
         if raw_kstack = NULL then do { k \<leftarrow> k_destroy_as as k; k \<leftarrow> k_kfree task k; Some (NULL, k) }
         else create_user_stack task as raw_kstack elf_data (set_kernel_stack task raw_kstack k) } } }"

section \<open>Destruction\<close>

text \<open>The walk along the task list to the element before \<open>task\<close>.\<close>

partial_function (option) list_prev :: "(u32 \<Rightarrow> task) \<Rightarrow> u32 \<Rightarrow> u32 \<Rightarrow> u32 option" where
  "list_prev tk task prev = (if prev \<noteq> NULL \<and> t_next (tk prev) \<noteq> task then list_prev tk task (t_next (tk prev)) else Some prev)"

definition unlist_task :: "u32 \<Rightarrow> sched_state \<Rightarrow> sched_state option" where
  "unlist_task task s =
     (if task_list_head s = task then Some (s\<lparr>task_list_head := t_next (tasks s task)\<rparr>)
      else do {
        prev \<leftarrow> list_prev (tasks s) task (task_list_head s);
        Some (if prev \<noteq> NULL then upd_task prev (\<lambda>t. t\<lparr>t_next := t_next (tasks s task)\<rparr>) s else s) })"

definition task_destroy :: "u32 \<Rightarrow> kernel_state \<Rightarrow> kernel_state option" where
  "task_destroy task k =
     (if task = NULL \<or> task = kernel_task (k_sched k) then Some k
      else do {
        s \<leftarrow> (if t_parent (k_task k task) \<noteq> NULL then task_remove_child (t_parent (k_task k task)) task (k_sched k) else Some (k_sched k));
        s \<leftarrow> unlist_task task s;
        let k = k\<lparr>k_sched := s\<rparr>;
        let t = k_task k task;
        k \<leftarrow> (if t_kernel_stack_alloc t \<noteq> NULL
               then (if t_ring t = 3 then Some (on_vm (vmm_free_page (t_kernel_stack_alloc t)) k) else k_kfree (t_kernel_stack_alloc t) k)
               else Some k);
        k \<leftarrow> (if t_ring t = 3 then do {
                 let k = (if t_user_stack_phys t \<noteq> NULL
                          then k_pmm_free (t_user_stack_phys t) (on_vm (vmm_unmap_page (USER_STACK_TOP - PAGE_SIZE)) k) else k);
                 if t_address_space t \<noteq> NULL then k_destroy_as (t_address_space t) k else Some k }
               else if t_user_stack t \<noteq> NULL then k_kfree (t_user_stack t) k else Some k);
        k_kfree task k })"

section \<open>Lemmas on the state of the kernel\<close>

lemma k_simps [simp]:
  "k_vm (on_vm f k) = f (k_vm k)" "k_sched (on_vm f k) = k_sched k" "k_fs (on_vm f k) = k_fs k"
  "k_term (on_vm f k) = k_term k" "next_fork_pid (on_vm f k) = next_fork_pid k"
  "k_vm (k_upd t g k) = k_vm k" "k_fs (k_upd t g k) = k_fs k" "k_term (k_upd t g k) = k_term k"
  "next_fork_pid (k_upd t g k) = next_fork_pid k" "k_sched (k_upd t g k) = upd_task t g (k_sched k)"
  "k_task (on_vm f k) = k_task k" "k_task (k\<lparr>k_vm := v\<rparr>) = k_task k" "k_task (k\<lparr>next_fork_pid := n\<rparr>) = k_task k"
  by (simp_all add: on_vm_def k_upd_def k_task_def fun_eq_iff)

lemma k_task_upd: "k_task (k_upd t g k) x = (if x = t then g (k_task k x) else k_task k x)"
  by (simp add: k_task_def)

lemma kheap_entries [simp]:
  "get_entry (s\<lparr>kheap := h\<rparr>) t i = get_entry s t i" "pte_of (s\<lparr>kheap := h\<rparr>) pd v = pte_of s pd v"
proof -
  have e: "get_entry (s\<lparr>kheap := h\<rparr>) t i = get_entry s t i" for t i by (simp add: get_entry_def)
  show "get_entry (s\<lparr>kheap := h\<rparr>) t i = get_entry s t i" by (rule e)
  show "pte_of (s\<lparr>kheap := h\<rparr>) pd v = pte_of s pd v" by (simp only: pte_of_def has_table_def table_of_def e)
qed

lemma heap_dir:
  assumes "dir_ok s pd" "pmm_inv (pmm h)" "free_frames (pmm h) \<subseteq> free_frames (vpmm s)"
  shows "dir_ok (s\<lparr>kheap := h\<rparr>) pd"
  by (rule dir_ok_cong [OF assms(1)]) (use assms in simp_all)

lemma task_request: "small_request SIZEOF_TASK" "total_size SIZEOF_TASK < PAGE_SIZE div 2"
  by (simp_all add: small_request_def total_size_def align_size_def)

lemma live_pmm: "live_inv h L \<Longrightarrow> pmm_inv p \<Longrightarrow> free_frames p \<subseteq> free_frames (pmm h) \<Longrightarrow> live_inv (h\<lparr>pmm := p\<rparr>) L"
  unfolding live_inv_def using heap_inv_pmm by blast

text \<open>Allocating a task structure: the frames of directories stay as they are.\<close>

lemma kmalloc_task:
  assumes "live_inv (kheap s) L" "dir_ok s pd"
  obtains p h where "kmalloc SIZEOF_TASK (kheap s) = Some (p, h)" "dir_ok (s\<lparr>kheap := h\<rparr>) pd"
    "free_frames (pmm h) \<subseteq> free_frames (vpmm s)"
    "if p = NULL then live_inv h L else p \<notin> L \<and> live_inv h (insert p L)"
proof -
  obtain p h where k: "kmalloc SIZEOF_TASK (kheap s) = Some (p, h)"
    "if p = NULL then live_inv h L else p \<notin> L \<and> live_inv h (insert p L) \<and> byte_range (p, SIZEOF_TASK) \<subseteq> small_extent h p"
    using kmalloc_live [OF assms(1) task_request(1)] by blast
  have f: "pmm_inv (pmm h)" "free_frames (pmm h) \<subseteq> free_frames (vpmm s)"
    using kmalloc_small_pmm [OF k(1)] task_request(2) dir_okD(3) [OF assms(2)] by simp_all
  show thesis by (rule that [OF k(1) heap_dir [OF assms(2) f] f(2)]) (use k(2) in auto)
qed

lemma heap_pmm_same: "h\<lparr>pmm := pmm h\<rparr> = h"
  by simp

section \<open>Frames taken in order\<close>

text \<open>The \<open>n\<close> lowest free frames are \<open>lo\<close> and those that follow it: they are handed out one after the other.\<close>

definition free_from :: "u32 \<Rightarrow> nat \<Rightarrow> pmm_state \<Rightarrow> bool" where
  "free_from lo n p \<longleftrightarrow> pmm_inv p \<and> lo \<noteq> 0 \<and> unat lo + n \<le> unat (max_blocks p) \<and> {lo..<lo + of_nat n} \<subseteq> free_frames p \<and>
     (\<forall>f \<in> free_frames p. lo \<le> f)"

lemma free_from_bound: "free_from lo n p \<Longrightarrow> unat lo + n \<le> 32768"
  by (auto simp: free_from_def pmm_inv_def word_le_nat_alt)

lemma run_end: "unat lo + n \<le> 32768 \<Longrightarrow> unat (lo + of_nat n :: u32) = unat lo + n"
  by (simp add: unat_word_ariths unat_of_nat)

lemma run_first: "unat lo + Suc n \<le> 32768 \<Longrightarrow> {lo..<lo + of_nat (Suc n)} = insert lo {lo + 1..<lo + 1 + of_nat n :: u32}"
  using run_end [of lo 1] run_end [of lo "Suc n"] by (auto simp: word_le_nat_alt word_less_nat_alt word_unat_eq_iff add.assoc)

lemma alloc_run:
  assumes "free_from lo (Suc n) p"
  obtains p' where "pmm_alloc_block p = (lo * PAGE_SIZE, p')" "free_from (lo + 1) n p'" "lo * PAGE_SIZE \<noteq> NULL"
    "max_blocks p' = max_blocks p" "free_frames p' = free_frames p - {lo}"
proof -
  note b = free_from_bound [OF assms]
  have f: "pmm_inv p" "lo \<noteq> 0" "{lo..<lo + of_nat (Suc n)} \<subseteq> free_frames p" "unat lo + Suc n \<le> unat (max_blocks p)" "\<forall>f \<in> free_frames p. lo \<le> f"
    using assms unfolding free_from_def by blast+
  have u: "unat (lo + 1) = unat lo + 1" using run_end [of lo 1] b by simp
  have lo: "lo \<in> free_frames p" "{lo + 1..<lo + 1 + of_nat n} \<subseteq> free_frames p" using f(3) unfolding run_first [OF b] by auto
  obtain a p' where al: "pmm_alloc_block p = (a, p')" by (cases "pmm_alloc_block p")
  have m: "pmm_inv p'" "max_blocks p' = max_blocks p" using alloc_block_inv [OF f(1) al] alloc_block_max [OF f(1) al] by auto
  from f(1) al have a: "a = lo * PAGE_SIZE \<and> free_frames p' = free_frames p - {lo}"
  proof (cases rule: alloc_block_cases)
    case full
    then show ?thesis using lo(1) by auto
  next
    case (frame b)
    then have "b = lo" using f(5) lo(1) by (auto intro: order_antisym)
    then show ?thesis using frame by simp
  qed
  have "lo * PAGE_SIZE \<noteq> NULL" using frame_addr_div [of lo] f(2) b by (auto simp: word_less_nat_alt)
  moreover have "free_from (lo + 1) n p'" unfolding free_from_def
  proof (intro conjI ballI)
    show "lo + 1 \<noteq> 0" using u by auto
    show "unat (lo + 1) + n \<le> unat (max_blocks p')" using f(4) m(2) u by simp
    show "{lo + 1..<lo + 1 + of_nat n} \<subseteq> free_frames p'" using lo(2) a u by (auto simp: word_le_nat_alt)
    show "lo + 1 \<le> g" if "g \<in> free_frames p'" for g
    proof -
      have "g \<noteq> lo" "lo \<le> g" using that a f(5) by auto
      then show ?thesis using u by (auto simp: word_le_nat_alt word_unat_eq_iff)
    qed
  qed (rule m)
  ultimately show thesis using that a al m(2) by blast
qed

text \<open>A small request takes at most one frame, and succeeds when there is a fitting block or a page can be added.\<close>

lemma kmalloc_small_frame:
  assumes k: "kmalloc n h = Some (p, h')" and n: "n \<noteq> 0" "total_size n < PAGE_SIZE div 2" "n \<le> 4080"
  shows "pmm h' = pmm h \<and> page_count h' = page_count h \<or>
    (\<exists>page. pmm_alloc_block (pmm h) = (page, pmm h')) \<and> (page_count h' = page_count h \<or> page_count h' = page_count h + 1)"
    "live_inv h L \<Longrightarrow> page_count h < HEAP_MAX_PAGES \<Longrightarrow> free_frames (pmm h) \<noteq> {} \<Longrightarrow> 0 \<notin> free_frames (pmm h) \<Longrightarrow> p \<noteq> NULL"
proof -
  have ts: "\<not> total_size n \<ge> PAGE_SIZE div 2" using n(2) by simp
  obtain prev cur where fb: "find_block (blocks h) n NULL (free_list h) = Some (prev, cur)"
    using k ts n(1) by (subst (asm) kmalloc.simps) (auto split: option.splits)
  obtain page q where al: "pmm_alloc_block (pmm h) = (page, q)" by (cases "pmm_alloc_block (pmm h)")
  let ?h = "add_page page (h\<lparr>pmm := q\<rparr>)"
  consider (block) "cur \<noteq> NULL" "p = cur + HEADER" "h' = take_block n prev cur h"
    | (none) "cur = NULL" "page_count h \<ge> HEAP_MAX_PAGES \<or> page = NULL" "h' = h \<or> h' = h\<lparr>pmm := q\<rparr>"
    | (page) "cur = NULL" "page \<noteq> NULL" "p = page + HEADER" "h' = take_block n NULL page ?h"
  proof (cases "cur = NULL")
    case False
    then show thesis using that(1) k ts n(1) fb by (subst (asm) kmalloc.simps) simp
  next
    case True
    show thesis
    proof (cases "page_count h \<ge> HEAP_MAX_PAGES \<or> page = NULL")
      case none: True
      then have "h' = h \<or> h' = h\<lparr>pmm := q\<rparr>" using k ts n(1) fb \<open>cur = NULL\<close> al
        by (subst (asm) kmalloc.simps) (auto simp: heap_grow_def Let_def split: if_splits)
      then show thesis using that(2) True none by blast
    next
      case False
      have "find_block (blocks ?h) n NULL (free_list ?h) = Some (NULL, page)"
        using False n(3) by (subst find_block.simps) (simp add: add_page_def)
      then have "kmalloc n ?h = Some (page + HEADER, take_block n NULL page ?h)"
        using ts n(1) False by (subst kmalloc.simps) simp
      moreover have "kmalloc n h = kmalloc n ?h"
        using ts n(1) fb True False al by (subst kmalloc.simps) (simp add: heap_grow_def Let_def)
      ultimately show thesis using that(3) k True False by simp
    qed
  qed
  note c = this
  show "pmm h' = pmm h \<and> page_count h' = page_count h \<or>
    (\<exists>page. pmm_alloc_block (pmm h) = (page, pmm h')) \<and> (page_count h' = page_count h \<or> page_count h' = page_count h + 1)"
    by (rule c) (use al in \<open>auto simp: take_block_def Let_def add_page_def\<close>)
  assume L: "live_inv h L" "page_count h < HEAP_MAX_PAGES" and f: "free_frames (pmm h) \<noteq> {}" "0 \<notin> free_frames (pmm h)"
  obtain fs where inv: "heap_inv h fs ((\<lambda>p. p - HEADER) ` L)" using L(1) by (auto simp: live_inv_def)
  note H = heap_invD [OF inv]
  have pg: "page div PAGE_SIZE \<in> free_frames (pmm h)" "page = page div PAGE_SIZE * PAGE_SIZE" "page \<noteq> NULL"
  proof -
    from H(1) al have "\<exists>b \<in> free_frames (pmm h). page = b * PAGE_SIZE"
      by (cases rule: alloc_block_cases) (use f in auto)
    then obtain b where b: "b \<in> free_frames (pmm h)" "page = b * PAGE_SIZE" by blast
    have "b < max_blocks (pmm h)" by (rule frame_bound [OF b(1)])
    then have "b < 0x100000" using H(1) by (auto simp: pmm_inv_def word_less_nat_alt word_le_nat_alt)
    then have "page div PAGE_SIZE = b" unfolding b(2) by (rule frame_addr_div)
    with b f(2) show "page div PAGE_SIZE \<in> free_frames (pmm h)" "page = page div PAGE_SIZE * PAGE_SIZE" "page \<noteq> NULL" by auto
  qed
  show "p \<noteq> NULL"
  proof (rule c)
    assume cur: "cur \<noteq> NULL" "p = cur + HEADER"
    have "cur \<in> set fs" using find_block_spec [OF H(6), of n NULL] fb cur(1) by auto
    then have "block_end (blocks h) cur \<le> 134217728" using H(9) by (auto simp: tiles_def block_ok_def)
    then have "unat (cur + HEADER) = unat cur + 16" by (simp add: unat_word_ariths block_end_def)
    then show ?thesis using cur(2) by auto
  next
    assume "cur = NULL" "page_count h \<ge> HEAP_MAX_PAGES \<or> page = NULL"
    then show ?thesis using L(2) pg(3) by simp
  next
    assume "p = page + HEADER"
    moreover have d: "page div PAGE_SIZE < 0x100000" by (rule u32_div_page_bound)
    from unat_frame_addr [OF d] have "unat page = unat (page div PAGE_SIZE) * 4096" unfolding pg(2) [symmetric] .
    then have "unat page + 16 < 4294967296" using d [unfolded word_less_nat_alt] by simp
    then have "unat (page + HEADER) = unat page + 16" by (simp add: unat_word_ariths)
    ultimately show ?thesis by auto
  qed
qed

lemma free_from_le: "free_from lo n p \<Longrightarrow> m \<le> n \<Longrightarrow> free_from lo m p"
proof -
  assume a: "free_from lo n p" and m: "m \<le> n"
  note b = free_from_bound [OF a]
  have "{lo..<lo + of_nat m} \<subseteq> {lo..<lo + of_nat n}"
    using b m run_end [of lo n] run_end [of lo m] by (intro subsetI) (auto simp: word_less_nat_alt)
  then have "{lo..<lo + of_nat m} \<subseteq> free_frames p" using a unfolding free_from_def by blast
  then show ?thesis using a m by (simp add: free_from_def)
qed

text \<open>A large request: the block of \<open>m\<close> pages starts in the lowest free frame.\<close>

lemma kmalloc_pages:
  assumes "free_from lo (m + n) (pmm h)" "total_size sz \<ge> PAGE_SIZE div 2" "sz \<noteq> 0"
    "(total_size sz + PAGE_SIZE - 1) div PAGE_SIZE = of_nat m" "m = 2 \<or> m = 3"
  obtains p where "kmalloc sz h = Some (lo * PAGE_SIZE + 4, h\<lparr>pmm := p, blocks := (blocks h)(lo * PAGE_SIZE :=
      (blocks h (lo * PAGE_SIZE))\<lparr>hb_size := of_nat m * PAGE_SIZE\<rparr>)\<rparr>)" "free_from (lo + of_nat m) n p" "max_blocks p = max_blocks (pmm h)"
    "free_frames p = free_frames (pmm h) - {lo..<lo + of_nat m}"
proof -
  have f: "free_from lo (Suc (Suc (m - 2 + n))) (pmm h)" using assms(1,5) by (auto simp: numeral_3_eq_3)
  note b = free_from_bound [OF assms(1)]
  obtain p1 where p1: "pmm_alloc_block (pmm h) = (lo * PAGE_SIZE, p1)" "free_from (lo + 1) (Suc (m - 2 + n)) p1" "lo * PAGE_SIZE \<noteq> NULL"
    "max_blocks p1 = max_blocks (pmm h)" "free_frames p1 = free_frames (pmm h) - {lo}"
    by (rule alloc_run [OF f])
  obtain p2 where p2: "pmm_alloc_block p1 = ((lo + 1) * PAGE_SIZE, p2)" "free_from (lo + 1 + 1) (m - 2 + n) p2" "(lo + 1) * PAGE_SIZE \<noteq> NULL"
    "max_blocks p2 = max_blocks p1" "free_frames p2 = free_frames p1 - {lo + 1}"
    by (rule alloc_run [OF p1(2)])
  show thesis
  proof (cases "m = 2")
    case True
    have mp: "more_pages (lo * PAGE_SIZE) 2 1 p1 = (True, p2)" using p2(1,3) by (simp add: more_pages_step)
    have "{lo..<lo + of_nat 2} = {lo, lo + 1}"
      using run_first [of lo 1] run_first [of "lo + 1" 0] run_end [of lo 1] b True by (simp add: numeral_2_eq_2)
    then have "free_frames p2 = free_frames (pmm h) - {lo..<lo + of_nat 2}" using p1(5) p2(5) by auto
    then show thesis using that [of p2] p1(1,3,4) mp p2(2,4) True assms(4)
      by (simp add: kmalloc_big [OF assms(3,2)] kmalloc_large_def Let_def add.assoc)
  next
    case False
    then have m3: "m = 3" using assms(5) by simp
    obtain p3 where p3: "pmm_alloc_block p2 = ((lo + 1 + 1) * PAGE_SIZE, p3)" "free_from (lo + 1 + 1 + 1) n p3" "(lo + 1 + 1) * PAGE_SIZE \<noteq> NULL"
      "max_blocks p3 = max_blocks p2" "free_frames p3 = free_frames p2 - {lo + 1 + 1}"
      using alloc_run [of "lo + 1 + 1" n p2] p2(2) m3 by auto
    have mp: "more_pages (lo * PAGE_SIZE) 3 1 p1 = (True, p3)"
      using p2(1,3) p3(1,3) by (simp add: more_pages_step)
    have "{lo..<lo + of_nat 3} = {lo, lo + 1, lo + 1 + 1}"
      using run_first [of lo 2] run_first [of "lo + 1" 1] run_first [of "lo + 1 + 1" 0] run_end [of lo 1] run_end [of lo 2] b m3
      by (simp add: numeral_3_eq_3 numeral_2_eq_2 add.assoc)
    then have "free_frames p3 = free_frames (pmm h) - {lo..<lo + of_nat 3}" using p1(5) p2(5) p3(5) by auto
    then show thesis using that [of p3] p1(1,3,4) mp p2(4) p3(2,4) m3 assms(4)
      by (simp add: kmalloc_big [OF assms(3,2)] kmalloc_large_def Let_def add.assoc)
  qed
qed

text \<open>Pages given back, and a large request that fails because the frames run out.\<close>

lemma release_run:
  "pmm_inv p \<Longrightarrow> unat lo + unat j + k \<le> unat (max_blocks p) \<Longrightarrow> unat (max_blocks p) \<le> 32768 \<Longrightarrow>
     pmm_inv (release_pages (lo * PAGE_SIZE) (j + of_nat k) j p) \<and> max_blocks (release_pages (lo * PAGE_SIZE) (j + of_nat k) j p) = max_blocks p \<and>
     free_frames (release_pages (lo * PAGE_SIZE) (j + of_nat k) j p) = free_frames p \<union> {lo + j..<lo + j + of_nat k}"
proof (induction k arbitrary: j p)
  case 0
  then show ?case by (simp add: release_pages_step)
next
  case (Suc k)
  let ?q = "pmm_free_block (lo * PAGE_SIZE + j * PAGE_SIZE) p"
  have j: "unat (lo + j) = unat lo + unat j" "unat (j + 1) = unat j + 1" "unat (j + of_nat (Suc k)) = unat j + Suc k"
    using Suc.prems by (simp_all add: unat_word_ariths unat_of_nat)
  have lt: "j < j + of_nat (Suc k)" using j(3) by (simp add: word_less_nat_alt)
  have e: "lo * PAGE_SIZE + j * PAGE_SIZE = (lo + j) * PAGE_SIZE" by (simp add: algebra_simps)
  have d: "(lo + j) * PAGE_SIZE div PAGE_SIZE = lo + j" by (rule frame_addr_div) (use j(1) Suc.prems in \<open>simp add: word_less_nat_alt\<close>)
  have q: "pmm_inv ?q" "max_blocks ?q = max_blocks p" "free_frames ?q = insert (lo + j) (free_frames p)"
    using free_block_inv [OF Suc.prems(1)] free_block_frames [OF Suc.prems(1), of "(lo + j) * PAGE_SIZE"] j(1) Suc.prems(2) unfolding e d
    by (auto simp: word_less_nat_alt)
  have "release_pages (lo * PAGE_SIZE) (j + of_nat (Suc k)) j p = release_pages (lo * PAGE_SIZE) (j + 1 + of_nat k) (j + 1) ?q"
    using release_pages_step(1) [OF lt] by (simp add: add.assoc)
  moreover have "{lo + j..<lo + j + of_nat (Suc k)} = insert (lo + j) {lo + (j + 1)..<lo + (j + 1) + of_nat k}"
    using run_first [of "lo + j" k] j(1) Suc.prems by (simp add: add.assoc)
  ultimately show ?case using Suc.IH [OF q(1), of "j + 1"] Suc.prems q(2,3) j(2) by simp
qed

lemma more_pages_fail:
  "free_from (lo + of_nat i) n p \<Longrightarrow> free_frames p = {lo + of_nat i..<lo + of_nat i + of_nat n} \<Longrightarrow> unat lo + i + n \<le> 32768 \<Longrightarrow> i + n < m \<Longrightarrow> m \<le> 32768 \<Longrightarrow>
     \<exists>q. more_pages first (of_nat m) (of_nat i) p = (False, release_pages first (of_nat (i + n)) 0 q) \<and> pmm_inv q \<and> free_frames q = {} \<and>
       max_blocks q = max_blocks p"
proof (induction n arbitrary: i p)
  case 0
  have lt: "(of_nat i :: u32) < of_nat m" using 0 by (simp add: word_less_nat_alt unat_of_nat)
  have p: "pmm_inv p" "free_frames p = {}" using 0 by (auto simp: free_from_def)
  then have "pmm_alloc_block p = (NULL, p)" by (simp add: alloc_block_spec)
  then show ?case using p lt by (intro exI [of _ p]) (simp add: more_pages_step)
next
  case (Suc n)
  have lt: "(of_nat i :: u32) < of_nat m" using Suc.prems by (simp add: word_less_nat_alt unat_of_nat)
  obtain p' where p': "pmm_alloc_block p = ((lo + of_nat i) * PAGE_SIZE, p')" "free_from (lo + of_nat i + 1) n p'" "(lo + of_nat i) * PAGE_SIZE \<noteq> NULL"
    "max_blocks p' = max_blocks p" "free_frames p' = free_frames p - {lo + of_nat i}"
    by (rule alloc_run [OF Suc.prems(1)])
  have u: "unat (lo + of_nat i) = unat lo + i" using run_end [of lo i] Suc.prems(3) by simp
  have "{lo + of_nat i..<lo + of_nat i + of_nat (Suc n)} = insert (lo + of_nat i) {lo + of_nat i + 1..<lo + of_nat i + 1 + of_nat n}"
    by (rule run_first) (use u Suc.prems(3) in simp)
  moreover have "lo + of_nat i \<notin> {lo + of_nat i + 1..<lo + of_nat i + 1 + of_nat n}"
    using run_end [of "lo + of_nat i" 1] u Suc.prems(3) by (auto simp: word_le_nat_alt)
  ultimately have fr: "free_frames p' = {lo + of_nat (Suc i)..<lo + of_nat (Suc i) + of_nat n}"
    using p'(5) Suc.prems(2) by (simp add: add.assoc add.commute add.left_commute)
  have "free_from (lo + of_nat (Suc i)) n p'" using p'(2) by (simp add: add.assoc add.commute add.left_commute)
  from Suc.IH [OF this fr] Suc.prems(3-5) obtain q where
    "more_pages first (of_nat m) (of_nat (Suc i)) p' = (False, release_pages first (of_nat (Suc i + n)) 0 q)" "pmm_inv q" "free_frames q = {}" "max_blocks q = max_blocks p'"
    by auto
  then show ?case using lt p'(1,3,4) by (intro exI [of _ q]) (simp add: more_pages_step add.commute)
qed

lemma kmalloc_pages_fail:
  assumes f: "free_from lo n (pmm h)" "free_frames (pmm h) = {lo..<lo + of_nat n}" and sz: "total_size sz \<ge> PAGE_SIZE div 2" "sz \<noteq> 0"
    and m: "(total_size sz + PAGE_SIZE - 1) div PAGE_SIZE = of_nat m" "n < m" "m \<le> 3"
  obtains p where "kmalloc sz h = Some (NULL, h\<lparr>pmm := p\<rparr>)" "pmm_inv p" "free_frames p = free_frames (pmm h)" "max_blocks p = max_blocks (pmm h)"
proof (cases n)
  case 0
  then have p: "pmm_inv (pmm h)" "free_frames (pmm h) = {}" using f by (auto simp: free_from_def)
  then have "pmm_alloc_block (pmm h) = (NULL, pmm h)" by (simp add: alloc_block_spec)
  then show thesis using that [of "pmm h"] p by (simp add: kmalloc_big [OF sz(2,1)] kmalloc_large_def)
next
  case (Suc k)
  note b = free_from_bound [OF f(1)]
  obtain p1 where p1: "pmm_alloc_block (pmm h) = (lo * PAGE_SIZE, p1)" "free_from (lo + 1) k p1" "lo * PAGE_SIZE \<noteq> NULL"
    "max_blocks p1 = max_blocks (pmm h)" "free_frames p1 = free_frames (pmm h) - {lo}"
    by (rule alloc_run [OF f(1) [unfolded Suc]])
  have "lo \<notin> {lo + 1..<lo + 1 + of_nat k}" using run_end [of lo 1] b Suc by (auto simp: word_le_nat_alt)
  then have fr: "free_frames p1 = {lo + of_nat 1..<lo + of_nat 1 + of_nat k}"
    using p1(5) f(2) run_first [of lo k] b Suc by simp
  obtain q where q: "more_pages (lo * PAGE_SIZE) (of_nat m) (of_nat 1) p1 = (False, release_pages (lo * PAGE_SIZE) (of_nat (1 + k)) 0 q)"
    "pmm_inv q" "free_frames q = {}" "max_blocks q = max_blocks p1"
    using more_pages_fail [OF _ fr, of m "lo * PAGE_SIZE"] p1(2) b Suc m by auto
  have mx: "unat (max_blocks q) \<le> 32768" using q(2) by (simp add: pmm_inv_def word_le_nat_alt)
  have "unat lo + n \<le> unat (max_blocks q)" using f(1) q(4) p1(4) by (simp add: free_from_def)
  then have r: "pmm_inv (release_pages (lo * PAGE_SIZE) (of_nat n) 0 q)" "max_blocks (release_pages (lo * PAGE_SIZE) (of_nat n) 0 q) = max_blocks (pmm h)"
    "free_frames (release_pages (lo * PAGE_SIZE) (of_nat n) 0 q) = free_frames (pmm h)"
    using release_run [OF q(2) _ mx, of lo 0 n] q(3,4) p1(4) f(2) by simp_all
  have "kmalloc sz h = Some (NULL, h\<lparr>pmm := release_pages (lo * PAGE_SIZE) (of_nat n) 0 q\<rparr>)"
    using p1(1,3) q(1) m(1) Suc by (simp add: kmalloc_big [OF sz(2,1)] kmalloc_large_def)
  then show thesis by (rule that [OF _ r(1,3,2)])
qed

text \<open>A large block is outside the heap's pages, so the word that holds its size is in no small block.\<close>

lemma live_large_header:
  assumes "live_inv h L" "f \<in> free_frames (pmm h)"
  shows "live_inv (h\<lparr>blocks := (blocks h)(f * PAGE_SIZE := b)\<rparr>) L"
proof -
  obtain fs A where inv: "heap_inv h fs A" and A: "A = (\<lambda>p. p - HEADER) ` L" using assms(1) by (auto simp: live_inv_def)
  note H = heap_invD [OF inv]
  have "f < max_blocks (pmm h)" by (rule frame_bound [OF assms(2)])
  then have f8: "f < 0x100000" using H(1) by (auto simp: pmm_inv_def word_less_nat_alt word_le_nat_alt)
  have "f * PAGE_SIZE \<notin> set fs \<union> A"
  proof
    assume "f * PAGE_SIZE \<in> set fs \<union> A"
    then have "block_ok (heap_frames h) (blocks h) (f * PAGE_SIZE)" using H(9) by (auto simp: tiles_def)
    then have "unat (f * PAGE_SIZE) div 4096 \<in> heap_frames h" by (auto simp: block_ok_def block_end_def)
    then have "unat f \<in> heap_frames h" by (simp add: unat_frame_addr [OF f8])
    from H(5) [OF this] show False using assms(2) by simp
  qed
  then have n: "f * PAGE_SIZE \<notin> set fs" "f * PAGE_SIZE \<notin> A" by auto
  have t: "tiles (heap_frames h) ((blocks h)(f * PAGE_SIZE := b)) (set fs \<union> A)"
    by (rule tiles_cong [OF H(9)]) (use n in auto)
  have "heap_inv (h\<lparr>blocks := (blocks h)(f * PAGE_SIZE := b)\<rparr>) fs (A)"
    using inv n t by (auto simp: heap_inv_def)
  then show ?thesis using A by (auto simp: live_inv_def)
qed

section \<open>The initial stack\<close>

text \<open>Memory outside the directory and its tables can change without changing the map.\<close>

lemma outside_keeps:
  assumes ok: "dir_ok s pd" and e: "\<And>x. x div PAGE_SIZE \<in> dir_frames s pd \<Longrightarrow> pmem s' x = pmem s x" "kheap s' = kheap s"
  shows "dir_ok s' pd" "pte_of s' pd w = pte_of s pd w" "dir_frames s' pd = dir_frames s pd"
proof -
  have pde: "get_entry s' pd i = get_entry s pd i" if "i < 1024" for i
    unfolding get_entry_def by (rule e(1)) (use entry_frame [OF dir_okD(1) [OF ok] that] in \<open>simp add: dir_frames_def\<close>)
  show "dir_ok s' pd" by (rule dir_ok_cong [OF ok]) (use dir_okD(3) [OF ok] pde e(2) in simp_all)
  show "dir_frames s' pd = dir_frames s pd" using pde by (rule dir_frames_cong)
  have "get_entry s' (table_of s pd (pd_index w)) (pt_index w) = get_entry s (table_of s pd (pd_index w)) (pt_index w)"
    if "has_table s pd (pd_index w)"
    unfolding get_entry_def by (rule e(1)) (use entry_frame [OF aligned_table index_bound(2)] that in \<open>auto simp: dir_frames_def\<close>)
  then show "pte_of s' pd w = pte_of s pd w" using pde [OF index_bound(1)] by (simp add: pte_of_def has_table_def table_of_def)
qed

lemma window_store32:
  assumes w: "window s pd kaddr phys" and i: "i < 1024"
  shows "store32 (kaddr + 4 * i) v s = Some (set_entry phys i v s)" "window (set_entry phys i v s) pd kaddr phys"
proof -
  have j: "unat (4 * i) < 4096" using i by (simp add: unat_word_ariths word_less_nat_alt)
  note m = window_mmu [OF w j]
  show "store32 (kaddr + 4 * i) v s = Some (set_entry phys i v s)" by (simp add: store32_def m(1) set_entry_def)
  have ok: "dir_ok s pd" using w by (simp add: window_def)
  have "pmem (set_entry phys i v s) x = pmem s x" if "x div PAGE_SIZE \<in> dir_frames s pd" for x
    using m(3) that by (auto simp: set_entry_def)
  from outside_keeps [OF ok this] have k: "dir_ok (set_entry phys i v s) pd" "pte_of (set_entry phys i v s) pd w = pte_of s pd w"
    "dir_frames (set_entry phys i v s) pd = dir_frames s pd" for w by simp_all
  show "window (set_entry phys i v s) pd kaddr phys" using w by (simp only: window_def k set_entry_simps simp_thms)
qed

lemma push32_window:
  assumes "window s pd kaddr phys" "length vs \<le> m" "m \<le> 1024"
  shows "\<exists>s'. push32 vs (kaddr + 4 * of_nat m) s = Some (kaddr + 4 * of_nat (m - length vs), s') \<and> window s' pd kaddr phys \<and>
    (\<forall>i < length vs. get_entry s' phys (of_nat (m - length vs + i)) = rev vs ! i) \<and>
    (\<forall>i. m \<le> i \<longrightarrow> i < 1024 \<longrightarrow> get_entry s' phys (of_nat i) = get_entry s phys (of_nat i)) \<and> kheap s' = kheap s \<and> cpu_cr3 s' = cpu_cr3 s"
  using assms
proof (induction vs arbitrary: s m)
  case (Cons v vs)
  then obtain n where m: "m = Suc n" by (cases m) auto
  have n: "(of_nat n :: u32) < 1024" using Cons.prems(3) m by (simp add: word_less_nat_alt unat_of_nat)
  have sp: "kaddr + 4 * of_nat m - 4 = kaddr + 4 * of_nat n" by (simp add: m algebra_simps)
  note st = window_store32 [OF Cons.prems(1) n, of v]
  have al: "aligned phys" using window_mmu(2) [OF Cons.prems(1), of 0] by simp
  have len: "length vs \<le> n" "n \<le> 1024" using Cons.prems m by auto
  have c: "kheap (set_entry phys (of_nat n) v s) = kheap s" "cpu_cr3 (set_entry phys (of_nat n) v s) = cpu_cr3 s"
    by (simp_all add: set_entry_def)
  have e: "m - length (v # vs) = n - length vs" by (simp add: m)
  obtain s' where s': "push32 vs (kaddr + 4 * of_nat n) (set_entry phys (of_nat n) v s) = Some (kaddr + 4 * of_nat (n - length vs), s')"
    "window s' pd kaddr phys" "\<forall>i < length vs. get_entry s' phys (of_nat (n - length vs + i)) = rev vs ! i"
    "\<forall>i. n \<le> i \<longrightarrow> i < 1024 \<longrightarrow> get_entry s' phys (of_nat i) = get_entry (set_entry phys (of_nat n) v s) phys (of_nat i)"
    "kheap s' = kheap s" "cpu_cr3 s' = cpu_cr3 s"
    using Cons.IH [OF st(2) len] unfolding c by (elim exE conjE) (rule that)
  have g: "get_entry (set_entry phys (of_nat n) v s) phys (of_nat i) = (if i = n then v else get_entry s phys (of_nat i))" if "i < 1024" for i
  proof -
    have "(of_nat i :: u32) < 1024" using that by (simp add: word_less_nat_alt unat_of_nat)
    moreover have "(of_nat i :: u32) = of_nat n \<longleftrightarrow> i = n" using that n Cons.prems(3) m by (auto simp: word_unat_eq_iff unat_of_nat)
    ultimately show ?thesis using get_set_entry [OF al al n] by simp
  qed
  show ?case
    unfolding e
  proof (intro exI conjI allI impI)
    show "push32 (v # vs) (kaddr + 4 * of_nat m) s = Some (kaddr + 4 * of_nat (n - length vs), s')"
      using s'(1) st(1) sp by (simp only: push32.simps option.case)
    show "window s' pd kaddr phys" "kheap s' = kheap s" "cpu_cr3 s' = cpu_cr3 s" using s' by simp_all
    show "get_entry s' phys (of_nat i) = get_entry s phys (of_nat i)" if "m \<le> i" "i < 1024" for i
      using s'(4) g that m by auto
    fix i assume i: "i < length (v # vs)"
    show "get_entry s' phys (of_nat (n - length vs + i)) = rev (v # vs) ! i"
    proof (cases "i < length vs")
      case True
      then show ?thesis using s'(3) by (simp only: rev.simps nth_append length_rev if_True)
    next
      case False
      then have "i = length vs" "n - length vs + i = n" using i len by auto
      then show ?thesis using s'(4) g [of n] Cons.prems(3) m by (simp add: nth_append)
    qed
  qed
qed simp

section \<open>A new kernel task\<close>

text \<open>The identity map of the first 128 MB, as \<open>paging_init\<close> builds it.\<close>

definition identity_low :: "vmm_state \<Rightarrow> u32 \<Rightarrow> bool" where
  "identity_low s pd \<longleftrightarrow> (\<forall>v < MEMORY_LIMIT. pte_of s pd v = (v AND NOT 0xFFF) OR (3 AND 0xFFF))"

lemma identity_present: "identity_low s pd \<Longrightarrow> \<forall>v < MEMORY_LIMIT. present (pte_of s pd v)"
proof (intro allI impI)
  fix v :: u32 assume "identity_low s pd" "v < MEMORY_LIMIT"
  then have "pte_of s pd v = (v AND NOT 0xFFF) OR (3 AND 0xFFF)" unfolding identity_low_def by blast
  then show "present (pte_of s pd v)" unfolding present_def by (simp only:) (subst present_low, subst entry_fields(2), simp)
qed

lemma identity_window:
  assumes ok: "dir_ok s pd" "cpu_cr3 s = pd" "identity_low s pd" and f: "f \<in> free_frames (vpmm s)"
    and h: "pmm_inv (pmm h)" "free_frames (pmm h) \<subseteq> free_frames (vpmm s)"
  shows "window (s\<lparr>kheap := h\<rparr>) pd (f * PAGE_SIZE) (f * PAGE_SIZE)"
proof -
  have "f < max_blocks (vpmm s)" by (rule frame_bound [OF f])
  then have f8: "f < 32768" using dir_okD(3) [OF ok(1)] by (auto simp: pmm_inv_def)
  then have u: "unat (f * PAGE_SIZE) = unat f * 4096" by (intro unat_frame_addr) (simp add: word_less_nat_alt)
  have lim: "f * PAGE_SIZE < MEMORY_LIMIT" unfolding word_less_nat_alt u using f8 by (simp add: word_less_nat_alt)
  have d: "f * PAGE_SIZE div PAGE_SIZE = f" by (rule frame_addr_div) (use f8 in \<open>simp add: word_less_nat_alt\<close>)
  then have al: "aligned (f * PAGE_SIZE)" by (simp add: aligned_def)
  have pte: "pte_of s pd (f * PAGE_SIZE) = (f * PAGE_SIZE AND NOT 0xFFF) OR (3 AND 0xFFF)" using ok(3) lim by (simp add: identity_low_def)
  have pr: "present (pte_of s pd (f * PAGE_SIZE))" using identity_present [OF ok(3)] lim by blast
  have ad: "pte_of s pd (f * PAGE_SIZE) AND NOT 0xFFF = f * PAGE_SIZE" unfolding pte entry_fields using al by (simp only: aligned_bits)
  have fr: "f \<notin> dir_frames s pd" using dir_frames_not_free [OF ok(1)] f by blast
  have "dir_frames (s\<lparr>kheap := h\<rparr>) pd = dir_frames s pd" by (rule dir_frames_cong) simp
  then show ?thesis using heap_dir [OF ok(1) h] ok(2) al pr ad fr unfolding window_def kheap_entries d by simp
qed

lemma stack_page:
  assumes "f < (32768 :: u32)"
  shows "(f * PAGE_SIZE + 4 + 0xFFF) AND NOT 0xFFF = (f + 1) * PAGE_SIZE" "(f + 1) * PAGE_SIZE = f * PAGE_SIZE + 4 + 4092"
proof -
  have "f + 1 < 0x100000" using assms by (simp add: word_less_nat_alt unat_word_ariths)
  then have d: "(f + 1) * PAGE_SIZE div PAGE_SIZE = f + 1" by (rule frame_addr_div)
  have "(f * PAGE_SIZE + 4 + 0xFFF) AND NOT 0xFFF = ((f + 1) * PAGE_SIZE + 3) AND NOT 0xFFF" by (simp add: algebra_simps)
  also have "\<dots> = (f + 1) * PAGE_SIZE" by (rule page_offset(3)) (use d in \<open>simp_all add: aligned_def\<close>)
  finally show "(f * PAGE_SIZE + 4 + 0xFFF) AND NOT 0xFFF = (f + 1) * PAGE_SIZE" .
  show "(f + 1) * PAGE_SIZE = f * PAGE_SIZE + 4 + 4092" by (simp add: algebra_simps)
qed

lemma big_requests:
  "total_size 8192 \<ge> PAGE_SIZE div 2" "(total_size 8192 + PAGE_SIZE - 1) div PAGE_SIZE = of_nat 3"
  "total_size 4096 \<ge> PAGE_SIZE div 2" "(total_size 4096 + PAGE_SIZE - 1) div PAGE_SIZE = of_nat 2"
  by (simp_all add: total_size_def align_size_def)

text \<open>The state in which \<open>task_create\<close> sets up the stack: the three allocations have succeeded.\<close>

lemma on_new_task:
  "kmalloc sz h = Some (p, h') \<Longrightarrow> k_kmalloc sz (new_task task name priority ring (on_vm (\<lambda>v. v\<lparr>kheap := h\<rparr>) k)) =
     Some (p, new_task task name priority ring (on_vm (\<lambda>v. v\<lparr>kheap := h'\<rparr>) k))"
  "kmalloc sz h = Some (p, h') \<Longrightarrow> k_kmalloc sz (set_kernel_stack task raw (new_task task name priority ring (on_vm (\<lambda>v. v\<lparr>kheap := h\<rparr>) k))) =
     Some (p, set_kernel_stack task raw (new_task task name priority ring (on_vm (\<lambda>v. v\<lparr>kheap := h'\<rparr>) k)))"
  "kfree q h = Some h' \<Longrightarrow> k_kfree q (new_task task name priority ring (on_vm (\<lambda>v. v\<lparr>kheap := h\<rparr>) k)) =
     Some (new_task task name priority ring (on_vm (\<lambda>v. v\<lparr>kheap := h'\<rparr>) k))"
  "kfree q h = Some h' \<Longrightarrow> k_kfree q (k_upd task g (set_kernel_stack task raw (new_task task name priority ring (on_vm (\<lambda>v. v\<lparr>kheap := h\<rparr>) k)))) =
     Some (k_upd task g (set_kernel_stack task raw (new_task task name priority ring (on_vm (\<lambda>v. v\<lparr>kheap := h'\<rparr>) k))))"
  by (simp_all add: k_kmalloc_def k_kfree_def new_task_def set_kernel_stack_def Let_def on_vm_def k_upd_def)

lemma task_create_allocates:
  assumes km: "kmalloc SIZEOF_TASK (kheap (k_vm k)) = Some (task, h1)" "task \<noteq> NULL" "free_frames (pmm h1) \<subseteq> free_frames (vpmm (k_vm k))"
    and ok: "dir_ok (k_vm k) pd" "cpu_cr3 (k_vm k) = pd" "identity_low (k_vm k) pd" and f: "free_from f 5 (pmm h1)"
  obtains h user where "f < 32768" "window ((k_vm k)\<lparr>kheap := h\<rparr>) pd ((f + 1) * PAGE_SIZE) ((f + 1) * PAGE_SIZE)"
    "task_create name entry priority k = do {
       let k = set_kernel_stack task (f * PAGE_SIZE + 4) (new_task task name priority 0 (on_vm (\<lambda>v. v\<lparr>kheap := h\<rparr>) k));
       let k = k_upd task (\<lambda>t. t\<lparr>t_user_stack := user\<rparr>) k;
       let k = k_upd task (\<lambda>t. t\<lparr>t_page_directory := t_page_directory (k_task k (kernel_task (k_sched k)))\<rparr>) k;
       k \<leftarrow> task_setup_kernel_stack task entry k;
       Some (task, link_task task k) }"
proof -
  have km1: "k_kmalloc SIZEOF_TASK k = Some (task, on_vm (\<lambda>v. v\<lparr>kheap := h1\<rparr>) k)" by (simp add: k_kmalloc_def km(1))
  have f32: "free_from f (3 + 2) (pmm h1)" using f by simp
  obtain h2 where h2: "kmalloc 8192 h1 = Some (f * PAGE_SIZE + 4, h2)" "free_from (f + of_nat 3) (2 + 0) (pmm h2)" "free_frames (pmm h2) \<subseteq> free_frames (pmm h1)"
    by (rule kmalloc_pages [OF f32 big_requests(1) _ big_requests(2)]) simp_all
  obtain h3 where h3: "kmalloc 4096 h2 = Some ((f + of_nat 3) * PAGE_SIZE + 4, h3)" "free_from (f + of_nat 3 + of_nat 2) 0 (pmm h3)"
      "free_frames (pmm h3) \<subseteq> free_frames (pmm h2)"
    by (rule kmalloc_pages [OF h2(2) big_requests(3) _ big_requests(4)]) simp_all
  have ub: "unat f + 5 \<le> 32768" using free_from_bound [OF f] by simp
  then have f8: "f < 32768" by (simp add: word_less_nat_alt)
  have nn: "f * PAGE_SIZE + 4 \<noteq> NULL" "(f + of_nat 3) * PAGE_SIZE + 4 \<noteq> NULL"
    using frame_ptr(1) [OF _ refl, of f] frame_ptr(1) [OF _ refl, of "f + of_nat 3"] frame_addr_div [of f] frame_addr_div [of "f + of_nat 3"] ub
    by (auto simp: word_less_nat_alt unat_word_ariths)
  have "f + 1 \<in> {f..<f + of_nat 5}" using ub by (simp add: word_le_nat_alt word_less_nat_alt unat_word_ariths)
  then have fr: "f + 1 \<in> free_frames (vpmm (k_vm k))" using f km(3) unfolding free_from_def by blast
  have sub: "free_frames (pmm h3) \<subseteq> free_frames (vpmm (k_vm k))" using h3(3) h2(3) km(3) by blast
  have w: "window ((k_vm k)\<lparr>kheap := h3\<rparr>) pd ((f + 1) * PAGE_SIZE) ((f + 1) * PAGE_SIZE)"
    by (rule identity_window [OF ok fr _ sub]) (use h3(2) in \<open>simp add: free_from_def\<close>)
  define raw user where "raw = f * PAGE_SIZE + 4" and "user = (f + of_nat 3) * PAGE_SIZE + 4"
  note km2 = on_new_task(1) [OF h2(1) [folded raw_def]] and km3 = on_new_task(2) [OF h3(1) [folded user_def]]
  have nz: "raw \<noteq> NULL" "user \<noteq> NULL" unfolding raw_def user_def by (rule nn)+
  show thesis
    by (rule that [OF f8 w, of user]) (use km(2) nz in \<open>simp add: task_create_def km1 km2 km3 raw_def [symmetric] user_def [symmetric] Let_def\<close>)
qed

text \<open>With fewer than five frames left, one after the other, the stack or the second stack does not fit: what was allocated is given back.\<close>

lemma heap_swap: "h\<lparr>pmm := p, blocks := B\<rparr> = h\<lparr>blocks := B, pmm := p\<rparr>"
  by (cases h) simp

lemma free_structure:
  assumes "live_inv h (insert task L)" "task \<notin> L" "pmm_inv p" "free_frames p \<subseteq> free_frames (pmm h)"
  obtains h' where "kfree task (h\<lparr>pmm := p\<rparr>) = Some h'" "live_inv h' L" "pmm h' = p"
proof -
  obtain g where g: "kfree task (h\<lparr>pmm := p\<rparr>) = Some (g\<lparr>pmm := p\<rparr>)" using kfree_live_pmm [OF assms(1), of task p] by auto
  moreover have "live_inv (g\<lparr>pmm := p\<rparr>) L" using kfree_live [OF live_pmm [OF assms(1,3,4)], of task] g assms(2) by auto
  ultimately show thesis using that [of "g\<lparr>pmm := p\<rparr>"] by simp
qed

definition rolled_back :: "u32 \<Rightarrow> u32 set \<Rightarrow> heap_state \<Rightarrow> kernel_state \<Rightarrow> kernel_state \<Rightarrow> bool" where
  "rolled_back task L h k k' \<longleftrightarrow> live_inv (kheap (k_vm k')) L \<and> free_frames (vpmm (k_vm k')) = free_frames (pmm h) \<and>
     (\<forall>t. t \<noteq> task \<longrightarrow> k_task k' t = k_task k t) \<and> task_list_head (k_sched k') = task_list_head (k_sched k) \<and>
     current_task (k_sched k') = current_task (k_sched k)"

lemma rolled_backI:
  assumes "live_inv h' L" "free_frames (pmm h') = free_frames (pmm h)"
  shows "rolled_back task L h k (new_task task name priority 0 (on_vm (\<lambda>v. v\<lparr>kheap := h'\<rparr>) k))"
    "rolled_back task L h k (k_upd task g (set_kernel_stack task raw (new_task task name priority 0 (on_vm (\<lambda>v. v\<lparr>kheap := h'\<rparr>) k))))"
  using assms by (simp_all add: rolled_back_def new_task_def set_kernel_stack_def Let_def k_task_def)

lemma task_create_fails:
  assumes km: "kmalloc SIZEOF_TASK (kheap (k_vm k)) = Some (task, h)" "task \<noteq> NULL" "live_inv h (insert task L)" "task \<notin> L"
    and f: "free_from lo n (pmm h)" "free_frames (pmm h) = {lo..<lo + of_nat n}" "n < 5"
  shows "\<exists>k'. task_create name entry priority k = Some (NULL, k') \<and> rolled_back task L h k k'"
proof (cases "n < 3")
  case True
  have km1: "k_kmalloc SIZEOF_TASK k = Some (task, on_vm (\<lambda>v. v\<lparr>kheap := h\<rparr>) k)" by (simp add: k_kmalloc_def km(1))
  obtain p where p: "kmalloc 8192 h = Some (NULL, h\<lparr>pmm := p\<rparr>)" "pmm_inv p" "free_frames p = free_frames (pmm h)"
    by (rule kmalloc_pages_fail [OF f(1,2) big_requests(1) _ big_requests(2)]) (use True in simp_all)
  obtain h' where h': "kfree task (h\<lparr>pmm := p\<rparr>) = Some h'" "live_inv h' L" "pmm h' = p"
    by (rule free_structure [OF km(3,4) p(2)]) (use p(3) in simp)
  have "task_create name entry priority k = Some (NULL, new_task task name priority 0 (on_vm (\<lambda>v. v\<lparr>kheap := h'\<rparr>) k))"
    using km(2) by (simp add: task_create_def km1 on_new_task(1) [OF p(1)] on_new_task(3) [OF h'(1)])
  then show ?thesis using rolled_backI(1) [OF h'(2)] h'(3) p(3) by auto
next
  case False
  then have n: "n = 3 + (n - 3)" by simp
  note b = free_from_bound [OF f(1)]
  have km1: "k_kmalloc SIZEOF_TASK k = Some (task, on_vm (\<lambda>v. v\<lparr>kheap := h\<rparr>) k)" by (simp add: k_kmalloc_def km(1))
  let ?B = "(blocks h)(lo * PAGE_SIZE := (blocks h (lo * PAGE_SIZE))\<lparr>hb_size := of_nat 3 * PAGE_SIZE\<rparr>)"
  obtain p2 where p2: "kmalloc 8192 h = Some (lo * PAGE_SIZE + 4, h\<lparr>pmm := p2, blocks := ?B\<rparr>)" "free_from (lo + of_nat 3) (n - 3) p2"
      "max_blocks p2 = max_blocks (pmm h)" "free_frames p2 = free_frames (pmm h) - {lo..<lo + of_nat 3}"
    by (rule kmalloc_pages [of lo 3 "n - 3" h 8192]) (use f(1) n big_requests in simp_all)
  note p2 = p2(1) [unfolded heap_swap] p2(2-4)
  have e: "unat (lo + of_nat 3) = unat lo + 3" "unat (lo + of_nat n) = unat lo + n" using run_end [of lo 3] run_end [of lo n] b False by simp_all
  have "lo + of_nat 3 + of_nat (n - 3) = lo + of_nat n" using False by (simp add: of_nat_diff)
  then have fr2: "free_frames p2 = {lo + of_nat 3..<lo + of_nat 3 + of_nat (n - 3)}" "free_frames p2 \<union> {lo..<lo + of_nat 3} = free_frames (pmm h)"
    using p2(4) f(2) e False by (auto simp: word_le_nat_alt word_less_nat_alt)
  obtain p3 where p3: "kmalloc 4096 (h\<lparr>blocks := ?B, pmm := p2\<rparr>) = Some (NULL, h\<lparr>blocks := ?B, pmm := p3\<rparr>)" "pmm_inv p3" "free_frames p3 = free_frames p2"
      "max_blocks p3 = max_blocks (pmm h)"
    by (rule kmalloc_pages_fail [of "lo + of_nat 3" "n - 3" "h\<lparr>blocks := ?B, pmm := p2\<rparr>" 4096 2]) (use p2 fr2 f(3) big_requests in simp_all)
  define p4 where "p4 = release_pages (lo * PAGE_SIZE) 3 0 p3"
  have p4: "pmm_inv p4" "free_frames p4 = free_frames (pmm h)"
    using release_run [OF p3(2), of lo 0 3] p3(2-4) fr2(2) f(1) False unfolding p4_def by (auto simp: free_from_def pmm_inv_def word_le_nat_alt)
  have lo: "lo < 0x100000" using b by (simp add: word_less_nat_alt)
  note fp = frame_ptr [OF frame_addr_div [OF lo, symmetric] refl]
  have kf: "kfree (lo * PAGE_SIZE + 4) (h\<lparr>blocks := ?B, pmm := p3\<rparr>) = Some (h\<lparr>blocks := ?B, pmm := p4\<rparr>)"
    using fp by (simp add: kfree_def Let_def p4_def)
  have "lo \<in> free_frames (pmm h)" using f(1,2) e(2) False by (simp add: word_less_nat_alt)
  from live_large_header [OF km(3) this] have live: "live_inv (h\<lparr>blocks := ?B\<rparr>) (insert task L)" .
  obtain h' where h': "kfree task (h\<lparr>blocks := ?B, pmm := p4\<rparr>) = Some h'" "live_inv h' L" "pmm h' = p4"
    by (rule free_structure [OF live km(4) p4(1)]) (use p4(2) in simp)
  define h2 h3 h4 where "h2 = h\<lparr>blocks := ?B, pmm := p2\<rparr>" and "h3 = h\<lparr>blocks := ?B, pmm := p3\<rparr>" and "h4 = h\<lparr>blocks := ?B, pmm := p4\<rparr>"
  have "task_create name entry priority k = Some (NULL, k_upd task (\<lambda>t. t\<lparr>t_user_stack := NULL\<rparr>)
      (set_kernel_stack task (lo * PAGE_SIZE + 4) (new_task task name priority 0 (on_vm (\<lambda>v. v\<lparr>kheap := h'\<rparr>) k))))"
    using km(2) fp(1) unfolding task_create_def km1 bind.bind_lunit prod.case
    by (simp add: on_new_task(1) [OF p2(1) [folded h2_def]] on_new_task(2) [OF p3(1) [folded h2_def h3_def]]
      on_new_task(4) [OF kf [folded h3_def h4_def]] on_new_task(4) [OF h'(1) [folded h4_def]])
  then show ?thesis using rolled_backI(2) [OF h'(2)] h'(3) p4(2) by auto
qed

lemma children_ok_cong:
  assumes "children_ok s parent cs" "t_first_child (tasks s' parent) = t_first_child (tasks s parent)"
    "\<And>c. c \<in> set cs \<Longrightarrow> tasks s' c = tasks s c"
  shows "children_ok s' parent cs"
  using assms siblings_cong [of cs "tasks s'" "tasks s"] by (simp add: children_ok_def)

lemma children_ok_upd:
  assumes "children_ok s parent cs" "\<And>t. t_next_sibling (f t) = t_next_sibling t" "\<And>t. t_parent (f t) = t_parent t"
    "\<And>t. t_first_child (f t) = t_first_child t"
  shows "children_ok (upd_task c f s) parent cs"
proof -
  have "siblings (tasks (upd_task c f s)) p cs = siblings (tasks s) p cs" for p by (rule siblings_cong) (simp add: assms(2))
  moreover have "t_first_child (tasks (upd_task c f s) parent) = t_first_child (tasks s parent)" by (simp add: assms(4))
  moreover have "t_parent (tasks (upd_task c f s) x) = t_parent (tasks s x)" for x by (simp add: assms(3))
  ultimately show ?thesis using assms(1) by (simp add: children_ok_def)
qed

lemma kernel_frame_top: "(a :: u32) + 4096 = a + 4 * of_nat 1024"
  by simp

text \<open>What \<open>task_create\<close> makes: the structure with the next process number, the first child of the running task (whose children were \<open>cs\<close>), the head of
  the task list, and a kernel stack with the words that the switch pops.\<close>

definition ready_task :: "str \<Rightarrow> u32 \<Rightarrow> u32 \<Rightarrow> u32 list \<Rightarrow> kernel_state \<Rightarrow> u32 \<Rightarrow> kernel_state \<Rightarrow> bool" where
  "ready_task name entry priority cs k task k' \<longleftrightarrow>
     t_pid (k_task k' task) = next_pid (k_sched k) \<and> next_pid (k_sched k') = next_pid (k_sched k) + 1 \<and>
     t_state (k_task k' task) = TASK_READY \<and> t_priority (k_task k' task) = priority \<and> t_ring (k_task k' task) = 0 \<and>
     t_name (k_task k' task) = name_array (take 31 name) \<and>
     t_page_directory (k_task k' task) = t_page_directory (k_task k (kernel_task (k_sched k))) \<and>
     children_ok (k_sched k') (current_task (k_sched k)) (task # cs) \<and>
     task_list_head (k_sched k') = task \<and> t_next (k_task k' task) = task_list_head (k_sched k) \<and>
     aligned (t_kernel_stack (k_task k' task)) \<and>
     t_kernel_stack (k_task k' task) = t_kernel_stack_alloc (k_task k' task) + 4092 \<and>
     c_esp (t_context (k_task k' task)) = t_kernel_stack (k_task k' task) + 4 * of_nat 1013 \<and>
     map (\<lambda>i. get_entry (k_vm k') (t_kernel_stack (k_task k' task)) (of_nat (1013 + i))) [0..<11] = [0, 0, 0, 0, 0, 0, 0, 0, entry, 0x08, 0x202]"

lemma created_task:
  assumes km: "kmalloc SIZEOF_TASK (kheap (k_vm k)) = Some (task, h1)" "free_frames (pmm h1) \<subseteq> free_frames (vpmm (k_vm k))"
    and t: "task \<noteq> NULL" "task \<notin> L" and ok: "dir_ok (k_vm k) pd" "cpu_cr3 (k_vm k) = pd" "identity_low (k_vm k) pd"
    and free: "free_from f 5 (pmm h1)"
    and cur: "current_task (k_sched k) = cur" "cur \<noteq> NULL" "cur \<in> L" "kernel_task (k_sched k) \<in> L"
    and ch: "children_ok (k_sched k) cur cs" "cur \<notin> set cs" "set cs \<subseteq> L"
  shows "\<exists>k'. task_create name entry priority k = Some (task, k') \<and> ready_task name entry priority cs k task k'"
proof (rule task_create_allocates [OF km(1) t(1) km(2) ok free, of name entry priority])
  fix h user
  assume f8: "f < 32768" and w: "window ((k_vm k)\<lparr>kheap := h\<rparr>) pd ((f + 1) * PAGE_SIZE) ((f + 1) * PAGE_SIZE)"
    and tc: "task_create name entry priority k = do {
       let k = set_kernel_stack task (f * PAGE_SIZE + 4) (new_task task name priority 0 (on_vm (\<lambda>v. v\<lparr>kheap := h\<rparr>) k));
       let k = k_upd task (\<lambda>t. t\<lparr>t_user_stack := user\<rparr>) k;
       let k = k_upd task (\<lambda>t. t\<lparr>t_page_directory := t_page_directory (k_task k (kernel_task (k_sched k)))\<rparr>) k;
       k \<leftarrow> task_setup_kernel_stack task entry k;
       Some (task, link_task task k) }"
  define ks where "ks = (f + 1) * PAGE_SIZE"
  define k1 where "k1 = set_kernel_stack task (f * PAGE_SIZE + 4) (new_task task name priority 0 (on_vm (\<lambda>v. v\<lparr>kheap := h\<rparr>) k))"
  define k2 where "k2 = k_upd task (\<lambda>t. t\<lparr>t_page_directory := t_page_directory (k_task k (kernel_task (k_sched k)))\<rparr>)
     (k_upd task (\<lambda>t. t\<lparr>t_user_stack := user\<rparr>) k1)"
  define T where "T = k_task k2 task"
  have nt: "cur \<noteq> task" "kernel_task (k_sched k) \<noteq> task" "task \<notin> set cs" using t cur ch by auto
  have s1: "k_sched k1 = upd_task task (\<lambda>t. t\<lparr>t_kernel_stack_alloc := f * PAGE_SIZE + 4, t_kernel_stack := ks\<rparr>)
      (upd_task task (\<lambda>_. zero_task\<lparr>t_pid := next_pid (k_sched k), t_name := name_array (take 31 name), t_state := TASK_READY,
         t_priority := priority, t_ring := 0, t_time_slice := 10\<rparr>) ((k_sched k)\<lparr>next_pid := next_pid (k_sched k) + 1\<rparr>))"
    "k_vm k1 = (k_vm k)\<lparr>kheap := h\<rparr>"
    unfolding k1_def set_kernel_stack_def new_task_def Let_def ks_def stack_page(1) [OF f8] by simp_all
  have s2: "k_sched k2 = (k_sched k)\<lparr>next_pid := next_pid (k_sched k) + 1, tasks := (tasks (k_sched k))(task := T)\<rparr>"
    "k_vm k2 = (k_vm k)\<lparr>kheap := h\<rparr>"
    "T = zero_task\<lparr>t_pid := next_pid (k_sched k), t_name := name_array (take 31 name), t_state := TASK_READY, t_priority := priority,
       t_ring := 0, t_time_slice := 10, t_kernel_stack_alloc := f * PAGE_SIZE + 4, t_kernel_stack := ks, t_user_stack := user,
       t_page_directory := t_page_directory (k_task k (kernel_task (k_sched k)))\<rparr>"
    unfolding T_def k2_def k_task_def by (simp_all add: s1) (simp_all add: upd_task_def)
  let ?frame = "[0x202, 0x08, entry, 0, 0, 0, 0, 0, 0, 0, 0] :: u32 list"
  have w2: "window (k_vm k2) pd ks ks" using w by (simp only: s2 ks_def)
  obtain v where v: "push32 ?frame (ks + 4 * of_nat 1024) (k_vm k2) = Some (ks + 4 * of_nat 1013, v)"
    "\<forall>i < length ?frame. get_entry v ks (of_nat (1013 + i)) = rev ?frame ! i"
    using push32_window [OF w2, of ?frame 1024] by auto
  let ?k3 = "k_upd task (\<lambda>t. t\<lparr>t_context := (t_context t)\<lparr>c_esp := ks + 4 * of_nat 1013, c_eip := entry\<rparr>\<rparr>) (k2\<lparr>k_vm := v\<rparr>)"
  let ?k4 = "link_task task ?k3"
  have "t_kernel_stack (k_task k2 task) = ks" by (simp add: T_def [symmetric] s2(3))
  then have st: "task_setup_kernel_stack task entry k2 = Some ?k3"
    unfolding task_setup_kernel_stack_def set_stack_def kernel_frame_top using v(1) by simp
  have ktk: "k_task (k_upd task (\<lambda>t. t\<lparr>t_user_stack := user\<rparr>) k1) (kernel_task (k_sched (k_upd task (\<lambda>t. t\<lparr>t_user_stack := user\<rparr>) k1)))
      = k_task k (kernel_task (k_sched k))"
    unfolding k_task_def using nt(2) by (simp add: s1)
  have "task_create name entry priority k = Some (task, ?k4)"
    unfolding tc Let_def k1_def [symmetric] ktk k2_def [symmetric] st by simp
  moreover have "aligned ks" using window_mmu(2) [OF w2, of 0] by simp
  moreover have "map (\<lambda>i. get_entry v ks (of_nat (1013 + i))) [0..<11] = rev ?frame"
    by (rule nth_equalityI) (use v(2) in \<open>simp_all del: upt_Suc\<close>)
  moreover have ch4: "children_ok (k_sched ?k4) cur (task # cs)"
  proof -
    have c3: "children_ok (k_sched ?k3) cur cs"
      by (rule children_ok_cong [OF ch(1)]) (use nt in \<open>auto simp: s2(1)\<close>)
    have c4: "children_ok (task_add_child cur task (k_sched ?k3)) cur (task # cs)"
      by (rule add_child_cons [OF c3]) (use nt t cur ch in auto)
    have "children_ok (upd_task task (\<lambda>t. t\<lparr>t_next := x\<rparr>) (task_add_child cur task (k_sched ?k3))) cur (task # cs)" for x
      by (rule children_ok_upd [OF c4]) simp_all
    then show ?thesis using cur(1,2) by (simp add: link_task_def Let_def s2(1) children_ok_def)
  qed
  moreover have "k_task ?k4 task = T\<lparr>t_context := (t_context T)\<lparr>c_esp := ks + 4 * of_nat 1013, c_eip := entry\<rparr>, t_parent := cur,
      t_parent_pid := t_pid (tasks (k_sched k) cur), t_next_sibling := t_first_child (tasks (k_sched k) cur), t_next := task_list_head (k_sched k)\<rparr>"
    using nt(1) cur(1,2) t(1) by (simp add: k_task_def link_task_def Let_def s2(1) task_add_child_def)
  moreover have "k_vm ?k4 = v" "task_list_head (k_sched ?k4) = task" "next_pid (k_sched ?k4) = next_pid (k_sched k) + 1"
    by (simp_all add: link_task_def Let_def s2(1) task_add_child_def upd_task_def)
  moreover have "ks = f * PAGE_SIZE + 4 + 4092" unfolding ks_def by (rule stack_page(2) [OF f8])
  ultimately show ?thesis using t cur(1) by (intro exI [of _ ?k4]) (simp add: ready_task_def s2(3) zero_task_def del: upt_Suc)
qed

text \<open>C28: a new kernel task. With the low memory mapped one to one, \<open>task_create\<close> first asks the heap for the structure. When there is no room
  for it, \<open>NULL\<close> is returned and the tasks are as before. When there is and, after that, the five lowest free frames lie one after the other (three
  for the kernel stack, two for the other), the structure is returned as a task that is ready to be switched to: a new block of the heap with the next
  process number, first among the children of the caller and in the task list; its kernel stack is the page-aligned page inside the block
  allocated for it, and the saved stack pointer points at the eleven words that the switch pops: eight zero registers, the entry point, the
  kernel code segment and the flags with interrupts enabled. When the free frames lie one after the other but are fewer than five,
  \<open>NULL\<close> is returned after everything was given back: the same frames are free as after the structure was allocated, the structure is freed, no
  other task has changed, and no list leads to it. (Free frames with gaps among the lowest five are left out: see the large requests of the heap.)\<close>

theorem task_create_ready:
  assumes live: "live_inv (kheap (k_vm k)) L" and ok: "dir_ok (k_vm k) pd" "cpu_cr3 (k_vm k) = pd" "identity_low (k_vm k) pd"
    and cur: "current_task (k_sched k) = cur" "cur \<noteq> NULL" "cur \<in> L" "kernel_task (k_sched k) \<in> L"
    and ch: "children_ok (k_sched k) cur cs" "cur \<notin> set cs" "set cs \<subseteq> L"
  shows "\<exists>task h. kmalloc SIZEOF_TASK (kheap (k_vm k)) = Some (task, h) \<and>
    (task = NULL \<longrightarrow> task_create name entry priority k = Some (NULL, on_vm (\<lambda>v. v\<lparr>kheap := h\<rparr>) k)) \<and>
    (task \<noteq> NULL \<and> free_from f 5 (pmm h) \<longrightarrow> (\<exists>k'. task_create name entry priority k = Some (task, k') \<and>
       task \<notin> L \<and> ready_task name entry priority cs k task k')) \<and>
    (task \<noteq> NULL \<and> n < 5 \<and> free_from f n (pmm h) \<and> free_frames (pmm h) = {f..<f + of_nat n} \<longrightarrow>
       (\<exists>k'. task_create name entry priority k = Some (NULL, k') \<and> rolled_back task L h k k'))"
proof -
  obtain task h where km: "kmalloc SIZEOF_TASK (kheap (k_vm k)) = Some (task, h)" "free_frames (pmm h) \<subseteq> free_frames (vpmm (k_vm k))"
    "if task = NULL then live_inv h L else task \<notin> L \<and> live_inv h (insert task L)"
    by (rule kmalloc_task [OF live ok(1)])
  have "task_create name entry priority k = Some (NULL, on_vm (\<lambda>v. v\<lparr>kheap := h\<rparr>) k)" if "task = NULL"
    using that km(1) by (simp add: task_create_def k_kmalloc_def)
  moreover have "\<exists>k'. task_create name entry priority k = Some (NULL, k') \<and> rolled_back task L h k k'"
    if "task \<noteq> NULL \<and> n < 5 \<and> free_from f n (pmm h) \<and> free_frames (pmm h) = {f..<f + of_nat n}"
    using task_create_fails [OF km(1)] that km(3) by auto
  moreover have "\<exists>k'. task_create name entry priority k = Some (task, k') \<and>
       task \<notin> L \<and> ready_task name entry priority cs k task k'"
    if "task \<noteq> NULL \<and> free_from f 5 (pmm h)"
    using created_task [OF km(1,2) _ _ ok _ cur ch] that km(3) by auto
  ultimately show ?thesis using km(1) by (intro exI [of _ task] exI [of _ h]) simp
qed

text \<open>A kernel after boot with one task, whose structure is the block \<open>p\<close> of the heap \<open>h\<close>.\<close>

definition boot_kernel :: "u32 \<Rightarrow> heap_state \<Rightarrow> kernel_state" where
  "boot_kernel p h = \<lparr>k_vm = boot_vm\<lparr>kheap := h\<rparr>, k_fs = tiny_fat,
     k_sched = two_tasks\<lparr>tasks := \<lambda>_. zero_task\<lparr>t_page_directory := 0x150000\<rparr>, current_task := p, kernel_task := p\<rparr>,
     k_term = blank_terminal, next_fork_pid = 100\<rparr>"

lemma boot_task:
  obtains p h where "kmalloc SIZEOF_TASK (kheap boot_vm) = Some (p, h)" "p \<noteq> NULL" "live_inv h {p}"
    "dir_ok (boot_vm\<lparr>kheap := h\<rparr>) 0x150000" "free_from 512 6 (pmm h) \<or> free_from 513 6 (pmm h)"
    "identity_low (boot_vm\<lparr>kheap := h\<rparr>) 0x150000" "page_count h < HEAP_MAX_PAGES"
proof -
  have n: "(SIZEOF_TASK :: u32) \<noteq> 0" "SIZEOF_TASK \<le> (4080 :: u32)" by simp_all
  have h: "kheap boot_vm = small_heap (vpmm bare_vm)" by (simp add: boot_vm_pmm bare_vm_def small_heap_def)
  have f7: "free_from 512 7 (vpmm boot_vm)" by (auto simp: free_from_def boot_vm_pmm bare_vm_pmm)
  obtain p h where k: "kmalloc SIZEOF_TASK (kheap boot_vm) = Some (p, h)" "dir_ok (boot_vm\<lparr>kheap := h\<rparr>) 0x150000"
    "free_frames (pmm h) \<subseteq> free_frames (vpmm boot_vm)" "if p = NULL then live_inv h {} else p \<notin> {} \<and> live_inv h (insert p {})"
    by (rule kmalloc_task [OF boot_vm_ok(5,1)])
  note fr = kmalloc_small_frame [OF k(1) n(1) task_request(2) n(2)]
  have pc: "page_count (kheap boot_vm) = 0" unfolding h by (simp add: small_heap_def)
  have "(512 :: u32) \<in> {512..<519}" by simp
  then have "free_frames (vpmm boot_vm) \<noteq> {}" "0 \<notin> free_frames (vpmm boot_vm)" using f7 by (auto simp: free_from_def)
  then have "p \<noteq> NULL" using fr(2) [OF boot_vm_ok(5)] pc by simp
  moreover obtain q where "pmm_alloc_block (vpmm boot_vm) = (512 * PAGE_SIZE, q)" "free_from (512 + 1) 6 q"
    using alloc_run [of 512 6 "vpmm boot_vm"] f7 by auto
  then have "free_from 512 6 (pmm h) \<or> free_from 513 6 (pmm h)" using fr(1) free_from_le [OF f7, of 6] by auto
  moreover have "page_count h < HEAP_MAX_PAGES" using fr(1) pc by auto
  moreover have "identity_low (boot_vm\<lparr>kheap := h\<rparr>) 0x150000"
    unfolding identity_low_def kheap_entries boot_vm_pte by (intro allI impI if_P)
  ultimately show thesis using that k by simp
qed

text \<open>A second structure after the first.\<close>

lemma boot_task_again:
  assumes "live_inv h L" "page_count h < HEAP_MAX_PAGES" "free_from lo 6 (pmm h)" "kmalloc SIZEOF_TASK h = Some (q, h')"
  shows "q \<noteq> NULL" "\<exists>f. free_from f 5 (pmm h')"
proof -
  have n: "(SIZEOF_TASK :: u32) \<noteq> 0" "SIZEOF_TASK \<le> (4080 :: u32)" by simp_all
  note fr = kmalloc_small_frame [OF assms(4) n(1) task_request(2) n(2)]
  have "lo < lo + of_nat 6" using run_end [of lo 6] free_from_bound [OF assms(3)] by (simp add: word_less_nat_alt)
  then have "lo \<in> free_frames (pmm h)" using assms(3) unfolding free_from_def by (meson atLeastLessThan_iff order_refl subsetD)
  moreover have "0 \<notin> free_frames (pmm h)" using assms(3) by (auto simp: free_from_def)
  ultimately show "q \<noteq> NULL" using fr(2) [OF assms(1,2)] by blast
  obtain p where "pmm_alloc_block (pmm h) = (lo * PAGE_SIZE, p)" "free_from (lo + 1) 5 p"
    using alloc_run [of lo 5 "pmm h"] assms(3) by auto
  then show "\<exists>f. free_from f 5 (pmm h')" using fr(1) free_from_le [OF assms(3), of 5] by auto
qed

theorem task_create_ready_witness:
  "\<exists>p h task k'. task \<noteq> NULL \<and> task_create (map of_char ''init'') 0x101000 1 (boot_kernel p h) = Some (task, k') \<and>
     t_pid (k_task k' task) = 3 \<and> children_ok (k_sched k') p [task] \<and> t_state (k_task k' task) = TASK_READY"
proof -
  obtain p h where b: "p \<noteq> NULL" "live_inv h {p}" "dir_ok (boot_vm\<lparr>kheap := h\<rparr>) 0x150000" "free_from 512 6 (pmm h) \<or> free_from 513 6 (pmm h)"
    "identity_low (boot_vm\<lparr>kheap := h\<rparr>) 0x150000" "page_count h < HEAP_MAX_PAGES" by (rule boot_task)
  obtain lo where lo: "free_from lo 6 (pmm h)" using b(4) by blast
  let ?k = "boot_kernel p h"
  have f: "k_vm ?k = boot_vm\<lparr>kheap := h\<rparr>" "current_task (k_sched ?k) = p" "kernel_task (k_sched ?k) = p" "next_pid (k_sched ?k) = 3"
    by (simp_all add: boot_kernel_def two_tasks_def)
  have c: "children_ok (k_sched ?k) p []" by (simp add: boot_kernel_def children_ok_def zero_task_def)
  have live: "live_inv (kheap (k_vm ?k)) {p}" "dir_ok (k_vm ?k) 0x150000" "cpu_cr3 (k_vm ?k) = 0x150000" "identity_low (k_vm ?k) 0x150000"
    using b f(1) boot_vm_regs(1) by simp_all
  note ready = task_create_ready [OF live f(2) b(1) _ _ c, of "map of_char ''init''" "0x101000" 1]
  obtain task h' where t: "kmalloc SIZEOF_TASK (kheap (k_vm ?k)) = Some (task, h')" by (rule kmalloc_task [OF live(1,2)])
  then have "kmalloc SIZEOF_TASK h = Some (task, h')" using f(1) by simp
  note again = boot_task_again [OF b(2,6) lo this]
  obtain g where "free_from g 5 (pmm h')" using again(2) by blast
  then obtain k' where "task_create (map of_char ''init'') 0x101000 1 ?k = Some (task, k')" "ready_task (map of_char ''init'') 0x101000 1 [] ?k task k'"
    using ready [of g] t again(1) f(3) by auto
  then show ?thesis using again(1) f(2,4) unfolding ready_task_def by (intro exI conjI) auto
qed

end
