(* ===== verification/Syscall.thy ===== *)
theory Syscall
  imports Task FatFile
begin

text \<open>
  System calls, \<open>src/kernel/syscall.c\<close>. A call that gives up the processor continues when its task is scheduled
  again; what the other tasks and the interrupts do meanwhile is the argument \<open>others\<close>, which gives the state in which
  the task runs again, or \<open>None\<close> when it never does. Memory of the caller is reached through the page tables. The
  messages that the calls and the dispatcher print for the developer, and their changes of the colour, are left out; what \<open>sys_write\<close> prints is in
  the state. The frame that the stub saves is a value \<open>registers\<close> apart from memory; \<open>exec_frame\<close> is the one place where the code writes to it
  through the stack.
\<close>

section \<open>Registers\<close>

record registers =
  r_ds :: u32
  r_edi :: u32
  r_esi :: u32
  r_ebp :: u32
  r_esp :: u32
  r_ebx :: u32
  r_edx :: u32
  r_ecx :: u32
  r_eax :: u32
  r_int_no :: u32
  r_err_code :: u32
  r_eip :: u32
  r_cs :: u32
  r_eflags :: u32
  r_useresp :: u32
  r_ss :: u32

datatype syscall_number = SYS_EXIT | SYS_WRITE | SYS_READ | SYS_YIELD | SYS_GETPID | SYS_SLEEP | SYS_FORK | SYS_EXEC | SYS_WAIT

abbreviation SYSCALL_MAX :: u32 where
  "SYSCALL_MAX \<equiv> 9"

definition syscall_numbers :: "syscall_number list" where
  "syscall_numbers = [SYS_EXIT, SYS_WRITE, SYS_READ, SYS_YIELD, SYS_GETPID, SYS_SLEEP, SYS_FORK, SYS_EXEC, SYS_WAIT]"

text \<open>\<open>Exits\<close>: the caller does not run again.\<close>

datatype 'a outcome = Returns 'a | Exits

abbreviation USER_LIMIT :: u32 where
  "USER_LIMIT \<equiv> 0xC0000000"

section \<open>Memory of the caller\<close>

definition load8 :: "vmm_state \<Rightarrow> u32 \<Rightarrow> u8 option" where
  "load8 s virt = map_option (pbyte s) (mmu s virt)"

partial_function (option) read_string :: "vmm_state \<Rightarrow> u32 \<Rightarrow> str option" where
  "read_string s p = do {
     c \<leftarrow> load8 s p;
     if c = 0 then Some [] else do { cs \<leftarrow> read_string s (p + 1); Some (c # cs) } }"

text \<open>A 32-bit store at any alignment, the low byte first.\<close>

definition store_int :: "u32 \<Rightarrow> u32 \<Rightarrow> vmm_state \<Rightarrow> vmm_state option" where
  "store_int p v s = do {
     s \<leftarrow> store8 p (ucast v) s;
     s \<leftarrow> store8 (p + 1) (ucast (drop_bit 8 v)) s;
     s \<leftarrow> store8 (p + 2) (ucast (drop_bit 16 v)) s;
     store8 (p + 3) (ucast (drop_bit 24 v)) s }"

fun write_chars :: "str \<Rightarrow> terminal \<Rightarrow> terminal option" where
  "write_chars [] t = Some t"
| "write_chars (c # cs) t = (case terminal_putchar c t of None \<Rightarrow> None | Some t \<Rightarrow> write_chars cs t)"

section \<open>Copying a page directory\<close>

definition copy_page :: "u32 \<Rightarrow> u32 \<Rightarrow> vmm_state \<Rightarrow> vmm_state" where
  "copy_page dst src s = s\<lparr>pmem := (\<lambda>x. if x - dst < PAGE_SIZE then pmem s (src + (x - dst)) else pmem s x)\<rparr>"

definition k_alloc :: "vmm_state \<Rightarrow> u32 \<times> vmm_state" where
  "k_alloc s = (let (a, p) = pmm_alloc_block (vpmm s) in (a, set_pmm p s))"

text \<open>The counters of the two loops.\<close>

definition all_entries :: "u32 list" where
  "all_entries = map of_nat [0..<1024]"

definition user_entries :: "u32 list" where
  "user_entries = map of_nat [0..<768]"

text \<open>The loop over the entries of a table; \<open>False\<close> when a frame is missing.\<close>

fun clone_pages :: "u32 \<Rightarrow> u32 \<Rightarrow> u32 list \<Rightarrow> vmm_state \<Rightarrow> bool \<times> vmm_state" where
  "clone_pages src_pt new_pt [] s = (True, s)"
| "clone_pages src_pt new_pt (j # js) s =
     (if get_entry s src_pt j AND 1 = 0 then clone_pages src_pt new_pt js s
      else
        (let (new_phys, s) = k_alloc s in
         if new_phys = NULL then (False, s)
         else
           (let s = copy_page new_phys (get_entry s src_pt j AND NOT 0xFFF) s;
                s = set_entry new_pt j (new_phys OR (get_entry s src_pt j AND 0xFFF)) s
            in clone_pages src_pt new_pt js s)))"

text \<open>The loop over the entries of the directory.\<close>

fun clone_tables :: "u32 \<Rightarrow> u32 \<Rightarrow> u32 list \<Rightarrow> vmm_state \<Rightarrow> bool \<times> vmm_state" where
  "clone_tables src_pd new_pd [] s = (True, s)"
| "clone_tables src_pd new_pd (i # is) s =
     (if get_entry s src_pd i AND 1 = 0 then clone_tables src_pd new_pd is s
      else
        (let src_pt = get_entry s src_pd i AND NOT 0xFFF;
             (new_pt, s) = k_alloc s
         in if new_pt = NULL then (False, s)
            else
              (let (ok, s) = clone_pages src_pt new_pt all_entries s in
               if \<not> ok then (False, s)
               else clone_tables src_pd new_pd is (set_entry new_pd i (new_pt OR (get_entry s src_pd i AND 0xFFF)) s))))"

definition clone_page_directory :: "u32 \<Rightarrow> vmm_state \<Rightarrow> u32 \<times> vmm_state" where
  "clone_page_directory src_pd s =
     (let (new_pd, s) = k_alloc s in
      if new_pd = NULL then (NULL, s)
      else
        (let s = zero_page new_pd s;
             s = fold (\<lambda>i s. set_entry new_pd (of_nat i) (get_entry s src_pd (of_nat i)) s) [768..<1024] s;
             (ok, s) = clone_tables src_pd new_pd user_entries s
         in if ok then (new_pd, s) else (NULL, s)))"

section \<open>Giving up the processor\<close>

text \<open>\<open>f\<close> ends in the scheduler: when another task was chosen, the caller continues after \<open>others\<close>.\<close>

definition give_up :: "(kernel_state \<Rightarrow> kernel_state option) \<Rightarrow> (sched_state \<Rightarrow> sched_state option) \<Rightarrow> kernel_state \<Rightarrow> kernel_state option" where
  "give_up others f k = do {
     k' \<leftarrow> on_sched f k;
     if current_task (k_sched k') = current_task (k_sched k) then Some k' else others k' }"

section \<open>The calls\<close>

definition sys_exit :: "int \<Rightarrow> kernel_state \<Rightarrow> (unit outcome \<times> kernel_state) option" where
  "sys_exit code k =
     (if current_task (k_sched k) = NULL \<or> current_task (k_sched k) = kernel_task (k_sched k) then Some (Returns (), k)
      else do { k \<leftarrow> on_sched (task_exit code) k; Some (Exits, k) })"

definition sys_write :: "u32 \<Rightarrow> kernel_state \<Rightarrow> (int \<times> kernel_state) option" where
  "sys_write msg k =
     (if msg \<ge> USER_LIMIT then Some (-1, k)
      else if msg = NULL then Some (0, k)
      else do {
        cs \<leftarrow> read_string (k_vm k) msg;
        t \<leftarrow> write_chars cs (k_term k);
        Some (0, k\<lparr>k_term := t\<rparr>) })"

definition sys_read :: "u32 \<Rightarrow> u32 \<Rightarrow> kernel_state \<Rightarrow> int \<times> kernel_state" where
  "sys_read buf len k = (-1, k)"

definition sys_yield :: "(kernel_state \<Rightarrow> kernel_state option) \<Rightarrow> kernel_state \<Rightarrow> kernel_state option" where
  "sys_yield others k = give_up others task_yield k"

definition sys_getpid :: "kernel_state \<Rightarrow> u32" where
  "sys_getpid k = (if current_task (k_sched k) \<noteq> NULL then t_pid (k_task k (current_task (k_sched k))) else 0)"

definition sys_sleep :: "(kernel_state \<Rightarrow> kernel_state option) \<Rightarrow> u32 \<Rightarrow> kernel_state \<Rightarrow> kernel_state option" where
  "sys_sleep others ms k = give_up others (task_sleep ms) k"

text \<open>\<open>strcat(child->name, "-child")\<close>; writing past the end of the array is undefined.\<close>

definition name_length :: "u8 list \<Rightarrow> nat" where
  "name_length name = length (takeWhile (\<lambda>c. c \<noteq> 0) name)"

definition strcat_name :: "u8 list \<Rightarrow> str \<Rightarrow> u8 list option" where
  "strcat_name name sfx =
     (let n = name_length name in
      if n + length sfx < length name
      then Some (take n name @ sfx @ 0 # drop (n + length sfx + 1) name) else None)"

definition sys_fork :: "kernel_state \<Rightarrow> (int \<times> kernel_state) option" where
  "sys_fork k =
     (let cur = current_task (k_sched k) in
      if cur = NULL then Some (-1, k)
      else do {
        (child, k) \<leftarrow> k_kmalloc SIZEOF_TASK k;
        if child = NULL then Some (-1, k)
        else do {
          name \<leftarrow> strcat_name (t_name (k_task k cur)) (map of_char ''-child'');
          let k = k_upd child (\<lambda>_. (k_task k cur)\<lparr>t_pid := next_fork_pid k, t_name := name\<rparr>) k;
          let k = k\<lparr>next_fork_pid := next_fork_pid k + 1\<rparr>;
          let k = k\<lparr>k_sched := task_add_child cur child (k_sched k)\<rparr>;
          let (pd, v) = clone_page_directory (t_page_directory (k_task k cur)) (k_vm k);
          let k = k_upd child (\<lambda>t. t\<lparr>t_page_directory := pd\<rparr>) (k\<lparr>k_vm := v\<rparr>);
          if pd = NULL then do { k \<leftarrow> k_kfree child k; Some (-1, k) }
          else do {
            (stack, k) \<leftarrow> k_kmalloc 4096 k;
            let k = k_upd child (\<lambda>t. t\<lparr>t_kernel_stack := stack\<rparr>) k;
            if stack = NULL then do { k \<leftarrow> k_kfree child k; Some (-1, k) }
            else do {
              let k = k_upd child (\<lambda>t. t\<lparr>t_state := TASK_READY, t_exit_code := 0, t_waited := False, t_first_child := NULL,
                t_next_sibling := NULL, t_context := (t_context t)\<lparr>c_eax := 0\<rparr>\<rparr>) k;
              k \<leftarrow> on_sched (scheduler_add_task child) k;
              Some (sint (t_pid (k_task k child)), k) } } } })"

text \<open>The walk along the children to the first one that has ended and was not waited for.\<close>

partial_function (option) find_zombie :: "(u32 \<Rightarrow> task) \<Rightarrow> u32 \<Rightarrow> u32 option" where
  "find_zombie tk child =
     (if child = NULL then Some NULL
      else if t_state (tk child) = TASK_ZOMBIE \<and> \<not> t_waited (tk child) then Some child
      else find_zombie tk (t_next_sibling (tk child)))"

definition reap :: "u32 \<Rightarrow> u32 \<Rightarrow> kernel_state \<Rightarrow> (int \<times> kernel_state) option" where
  "reap child status k = do {
     let pid = sint (t_pid (k_task k child));
     let exit_code = t_exit_code (k_task k child);
     let k = k_upd child (\<lambda>t. t\<lparr>t_waited := True\<rparr>) k;
     v \<leftarrow> (if status \<noteq> NULL \<and> status < USER_LIMIT then store_int status (word_of_int exit_code) (k_vm k) else Some (k_vm k));
     s \<leftarrow> task_remove_child (current_task (k_sched k)) child (k_sched k);
     Some (pid, k\<lparr>k_vm := v, k_sched := s\<rparr>) }"

partial_function (option) wait_loop :: "(kernel_state \<Rightarrow> kernel_state option) \<Rightarrow> u32 \<Rightarrow> kernel_state \<Rightarrow> (int \<times> kernel_state) option" where
  "wait_loop others status k = do {
     child \<leftarrow> find_zombie (tasks (k_sched k)) (t_first_child (k_task k (current_task (k_sched k))));
     if child \<noteq> NULL then reap child status k
     else do {
       k \<leftarrow> give_up others task_block k;
       k \<leftarrow> give_up others task_yield k;
       wait_loop others status k } }"

definition sys_wait :: "(kernel_state \<Rightarrow> kernel_state option) \<Rightarrow> u32 \<Rightarrow> kernel_state \<Rightarrow> (int \<times> kernel_state) option" where
  "sys_wait others status k =
     (if current_task (k_sched k) = NULL then Some (-1, k)
      else if t_first_child (k_task k (current_task (k_sched k))) = NULL then Some (-1, k)
      else wait_loop others status k)"

text \<open>The second half of \<open>sys_exec\<close>, from the image in memory.\<close>

definition exec_image :: "str \<Rightarrow> u32 \<Rightarrow> kernel_state \<Rightarrow> (int \<times> kernel_state) option" where
  "exec_image pathname elf_data k =
     (let cur = current_task (k_sched k) in
      if cur = NULL \<or> t_ring (k_task k cur) = 0
      then do {
        (user_task, k) \<leftarrow> task_create_user pathname elf_data 1 k;
        k \<leftarrow> k_kfree elf_data k;
        if user_task = NULL then Some (-1, k)
        else do { k \<leftarrow> on_sched (scheduler_add_task user_task) k; Some (0, k) } }
      else do {
        (ok, k) \<leftarrow> k_elf_load cur elf_data k;
        k \<leftarrow> k_kfree elf_data k;
        if \<not> ok then Some (-1, k)
        else do { k \<leftarrow> task_setup_user_context cur k; Some (0, k) } })"

text \<open>The call once the name is known; the shell calls it from here, with a name in the kernel's data below \<open>USER_LIMIT\<close>.\<close>

definition exec_path :: "fat_env \<Rightarrow> str \<Rightarrow> kernel_state \<Rightarrow> (int \<times> kernel_state) option" where
  "exec_path E name k = do {
     (fd, k) \<leftarrow> on_fs (vfs_open (kernel_optab E) name O_RDONLY) k;
     if fd < 0 then Some (-1, k)
     else do {
       (elf_data, k) \<leftarrow> k_kmalloc 65536 k;
       if elf_data = NULL then do { (r, k) \<leftarrow> on_fs (vfs_close (kernel_optab E) fd) k; Some (-1, k) }
       else do {
         (bytes_read, k) \<leftarrow> on_fs (vfs_read (kernel_optab E) fd elf_data 65536) k;
         (r, k) \<leftarrow> on_fs (vfs_close (kernel_optab E) fd) k;
         if bytes_read \<le> 0 then do { k \<leftarrow> k_kfree elf_data k; Some (-1, k) }
         else exec_image name elf_data k } } }"

definition sys_exec :: "fat_env \<Rightarrow> u32 \<Rightarrow> kernel_state \<Rightarrow> (int \<times> kernel_state) option" where
  "sys_exec E pathname k =
     (if pathname \<ge> USER_LIMIT \<or> pathname = NULL then Some (-1, k)
      else do { name \<leftarrow> read_string (k_vm k) pathname; exec_path E name k })"

section \<open>The dispatcher\<close>

definition eax_result :: "registers \<Rightarrow> int \<times> kernel_state \<Rightarrow> registers outcome \<times> kernel_state" where
  "eax_result regs r = (Returns (regs\<lparr>r_eax := word_of_int (fst r)\<rparr>), snd r)"

text \<open>The frame that the processor saved on entry from ring 3 lies at the top of the kernel stack, where \<open>tss_set_kernel_stack\<close> has pointed it, and
  \<open>task_setup_user_context\<close> writes its five words there: after a successful \<open>exec\<close> of such a task the stub returns to the new program.\<close>

definition exec_frame :: "kernel_state \<Rightarrow> registers \<Rightarrow> int \<times> kernel_state \<Rightarrow> registers" where
  "exec_frame k regs r =
     (let cur = current_task (k_sched k); t = k_task (snd r) cur in
      if fst r = 0 \<and> cur \<noteq> NULL \<and> t_ring (k_task k cur) \<noteq> 0 \<and> tss_esp0 (k_sched k) = t_kernel_stack t + 4096
      then regs\<lparr>r_eip := t_entry_point t, r_cs := 0x1B, r_eflags := 0x202, r_useresp := t_user_esp t, r_ss := 0x23\<rparr> else regs)"

fun dispatch :: "(kernel_state \<Rightarrow> kernel_state option) \<Rightarrow> fat_env \<Rightarrow> registers \<Rightarrow> syscall_number \<Rightarrow> kernel_state \<Rightarrow>
    (registers outcome \<times> kernel_state) option" where
  "dispatch others E regs SYS_EXIT k = do {
     (r, k) \<leftarrow> sys_exit (sint (r_ebx regs)) k;
     Some (case r of Returns _ \<Rightarrow> Returns regs | Exits \<Rightarrow> Exits, k) }"
| "dispatch others E regs SYS_WRITE k = map_option (eax_result regs) (sys_write (r_ebx regs) k)"
| "dispatch others E regs SYS_READ k = Some (eax_result regs (sys_read (r_ebx regs) (r_ecx regs) k))"
| "dispatch others E regs SYS_YIELD k = map_option (\<lambda>k. eax_result regs (0, k)) (sys_yield others k)"
| "dispatch others E regs SYS_GETPID k = Some (Returns (regs\<lparr>r_eax := sys_getpid k\<rparr>), k)"
| "dispatch others E regs SYS_SLEEP k = map_option (\<lambda>k. eax_result regs (0, k)) (sys_sleep others (r_ebx regs) k)"
| "dispatch others E regs SYS_FORK k = do {
     (child_pid, k) \<leftarrow> sys_fork k;
     Some (eax_result regs (if child_pid > 0 then child_pid else if child_pid = 0 then 0 else -1, k)) }"
| "dispatch others E regs SYS_EXEC k = map_option (\<lambda>r. eax_result (exec_frame k regs r) r) (sys_exec E (r_ebx regs) k)"
| "dispatch others E regs SYS_WAIT k = map_option (eax_result regs) (sys_wait others (r_ebx regs) k)"

definition syscall_handler :: "(kernel_state \<Rightarrow> kernel_state option) \<Rightarrow> fat_env \<Rightarrow> registers \<Rightarrow> kernel_state \<Rightarrow>
    (registers outcome \<times> kernel_state) option" where
  "syscall_handler others E regs k =
     (if r_eax regs \<ge> SYSCALL_MAX then Some (Returns (regs\<lparr>r_eax := -1\<rparr>), k)
      else dispatch others E regs (syscall_numbers ! unat (r_eax regs)) k)"

section \<open>Copying needs a frame for every page\<close>

text \<open>From \<open>s\<close> to \<open>s'\<close> frames are only taken, and memory changes in the frames of \<open>A\<close> only.\<close>

definition grabs :: "u32 set \<Rightarrow> vmm_state \<Rightarrow> vmm_state \<Rightarrow> bool" where
  "grabs A s s' \<longleftrightarrow> pmm_inv (vpmm s') \<and> free_frames (vpmm s') \<subseteq> free_frames (vpmm s) \<and>
     (\<forall>x. x div PAGE_SIZE \<notin> A \<longrightarrow> pmem s' x = pmem s x) \<and> (\<exists>p. kheap s' = (kheap s)\<lparr>pmm := p\<rparr>)"

lemma grabsD:
  assumes "grabs A s s'"
  shows "pmm_inv (vpmm s')" "free_frames (vpmm s') \<subseteq> free_frames (vpmm s)" "kheap s' = (kheap s)\<lparr>pmm := vpmm s'\<rparr>"
    "aligned t \<Longrightarrow> i < 1024 \<Longrightarrow> t div PAGE_SIZE \<notin> A \<Longrightarrow> get_entry s' t i = get_entry s t i"
  using assms by (auto simp: grabs_def get_entry_def)

lemma grabs_refl: "pmm_inv (vpmm s) \<Longrightarrow> grabs A s s"
  by (simp add: grabs_def) (metis heap_pmm_same)

lemma grabs_trans [trans]: "grabs A s s' \<Longrightarrow> grabs A s' s'' \<Longrightarrow> grabs A s s''"
  unfolding grabs_def by (elim conjE exE, intro conjI) (auto simp: subset_iff)

lemma grabs_zero: "pmm_inv (vpmm s) \<Longrightarrow> aligned a \<Longrightarrow> a div PAGE_SIZE \<in> A \<Longrightarrow> grabs A s (zero_page a s)"
  by (auto simp: grabs_def zero_page_def in_page_iff intro: heap_pmm_same [symmetric])

lemma grabs_copy: "pmm_inv (vpmm s) \<Longrightarrow> aligned a \<Longrightarrow> a div PAGE_SIZE \<in> A \<Longrightarrow> grabs A s (copy_page a b s)"
  by (auto simp: grabs_def copy_page_def in_page_iff intro: heap_pmm_same [symmetric])

lemma grabs_set: "pmm_inv (vpmm s) \<Longrightarrow> aligned t \<Longrightarrow> i < 1024 \<Longrightarrow> t div PAGE_SIZE \<in> A \<Longrightarrow> grabs A s (set_entry t i v s)"
  by (auto simp: grabs_def set_entry_def intro: heap_pmm_same [symmetric])

lemma grabs_alloc:
  assumes inv: "pmm_inv (vpmm s)" and a: "k_alloc s = (a, s')" and z: "0 \<notin> free_frames (vpmm s)"
  shows "grabs A s s'"
    "if a = NULL then free_frames (vpmm s) = {} \<and> s' = s
     else aligned a \<and> a div PAGE_SIZE \<in> free_frames (vpmm s) \<and> Suc (card (free_frames (vpmm s'))) = card (free_frames (vpmm s))"
proof -
  obtain p where p: "pmm_alloc_block (vpmm s) = (a, p)" "s' = set_pmm p s" using a by (auto simp: k_alloc_def split: prod.splits)
  show "grabs A s s'"
    using alloc_block_inv [OF inv p(1)] pmm.alloc_avail_subset [OF inv p(1)] by (auto simp: grabs_def p(2)) (auto simp: set_pmm_def)
  show "if a = NULL then free_frames (vpmm s) = {} \<and> s' = s
     else aligned a \<and> a div PAGE_SIZE \<in> free_frames (vpmm s) \<and> Suc (card (free_frames (vpmm s'))) = card (free_frames (vpmm s))"
    using inv p(1)
  proof (cases rule: alloc_block_cases)
    case full
    then show ?thesis by (simp add: p(2))
  next
    case (frame b)
    have bd: "b < 0x100000" by (rule pmm.avail_bound [OF inv frame(1)])
    then have d: "a div PAGE_SIZE = b" using frame(3) by (simp add: frame_addr_div)
    moreover have "b \<noteq> 0" using frame(1) z by auto
    ultimately have "a \<noteq> NULL" by auto
    moreover have "Suc (card (free_frames p)) = card (free_frames (vpmm s))"
      unfolding frame(5) by (rule card_Suc_Diff1 [OF finite_free_frames frame(1)])
    ultimately show ?thesis using d frame(1,3) by (simp add: aligned_def p(2))
  qed
qed

lemma clone_pages_count:
  assumes "clone_pages src new js s = (ok, s')" "pmm_inv (vpmm s)" "free_frames (vpmm s) \<subseteq> A" "0 \<notin> free_frames (vpmm s)"
    and "aligned src" "src div PAGE_SIZE \<notin> A" "aligned new" "new div PAGE_SIZE \<in> A" "\<forall>j \<in> set js. j < 1024"
  shows "grabs A s s' \<and> (if ok then card (free_frames (vpmm s')) + length (filter (\<lambda>j. present (get_entry s src j)) js) = card (free_frames (vpmm s))
      else free_frames (vpmm s') = {})"
  using assms
proof (induction js arbitrary: s)
  case Nil
  then show ?case by (auto simp: grabs_refl)
next
  case (Cons j js)
  show ?case
  proof (cases "present (get_entry s src j)")
    case False
    then have "clone_pages src new js s = (ok, s')" using Cons.prems(1) by (simp add: present_def)
    from Cons.IH [OF this Cons.prems(2-8)] show ?thesis using False Cons.prems(9) by simp
  next
    case True
    obtain a s1 where a: "k_alloc s = (a, s1)" by (cases "k_alloc s")
    note al = grabs_alloc [OF Cons.prems(2) a Cons.prems(4)]
    show ?thesis
    proof (cases "a = NULL")
      case True
      then show ?thesis using Cons.prems(1) \<open>present _\<close> a al(2) Cons.prems(2) by (auto simp: present_def grabs_refl)
    next
      case False
      let ?s2 = "copy_page a (get_entry s1 src j AND NOT 0xFFF) s1"
      let ?s3 = "set_entry new j (a OR (get_entry ?s2 src j AND 0xFFF)) ?s2"
      have a2: "aligned a" "a div PAGE_SIZE \<in> A" "Suc (card (free_frames (vpmm s1))) = card (free_frames (vpmm s))"
        using False al(2) Cons.prems(3) by auto
      have g2: "grabs A s1 ?s2" by (rule grabs_copy [OF grabsD(1) [OF al(1)] a2(1,2)])
      have g3: "grabs A ?s2 ?s3" by (rule grabs_set [OF grabsD(1) [OF g2]]) (use Cons.prems(7-9) in simp_all)
      have g: "grabs A s ?s3" using al(1) g2 g3 by (blast intro: grabs_trans)
      have vp: "vpmm ?s3 = vpmm s1" by (simp add: copy_page_def)
      have step: "clone_pages src new js ?s3 = (ok, s')"
        using Cons.prems(1) True a False by (simp add: present_def Let_def)
      have e: "filter (\<lambda>j. present (get_entry ?s3 src j)) js = filter (\<lambda>j. present (get_entry s src j)) js"
        by (rule filter_cong) (use grabsD(4) [OF g Cons.prems(5) _ Cons.prems(6)] Cons.prems(9) in simp_all)
      have "grabs A ?s3 s' \<and> (if ok then card (free_frames (vpmm s')) + length (filter (\<lambda>j. present (get_entry ?s3 src j)) js) =
          card (free_frames (vpmm ?s3)) else free_frames (vpmm s') = {})"
        by (rule Cons.IH [OF step grabsD(1) [OF g]]) (use grabsD(2) [OF g] Cons.prems in auto)
      then show ?thesis using grabs_trans [OF g] True a2(3) unfolding e vp by auto
    qed
  qed
qed

text \<open>The frames that copying the tables \<open>is\<close> takes.\<close>

definition table_need :: "vmm_state \<Rightarrow> u32 \<Rightarrow> u32 \<Rightarrow> nat" where
  "table_need s pd i =
     (if present (get_entry s pd i) then Suc (length (filter (\<lambda>j. present (get_entry s (table_of s pd i) j)) all_entries)) else 0)"

lemma clone_tables_count:
  assumes "clone_tables src new is s = (ok, s')" "pmm_inv (vpmm s)" "free_frames (vpmm s) \<subseteq> A" "0 \<notin> free_frames (vpmm s)"
    and "aligned src" "src div PAGE_SIZE \<notin> A" "aligned new" "new div PAGE_SIZE \<in> A" "\<forall>i \<in> set is. i < 1024"
    and "\<forall>i. has_table s src i \<longrightarrow> table_of s src i div PAGE_SIZE \<notin> A"
  shows "grabs A s s' \<and> (if ok then card (free_frames (vpmm s')) + sum_list (map (table_need s src) is) = card (free_frames (vpmm s))
      else free_frames (vpmm s') = {})"
  using assms
proof (induction "is" arbitrary: s)
  case Nil
  then show ?case by (auto simp: grabs_refl)
next
  case (Cons i "is")
  show ?case
  proof (cases "present (get_entry s src i)")
    case False
    then have "clone_tables src new is s = (ok, s')" using Cons.prems(1) by (simp add: present_def)
    from Cons.IH [OF this Cons.prems(2-8) _ Cons.prems(10)] show ?thesis using False Cons.prems(9) by (simp add: table_need_def)
  next
    case True
    then have ht: "has_table s src i" using Cons.prems(9) by (simp add: has_table_def)
    obtain a s1 where a: "k_alloc s = (a, s1)" by (cases "k_alloc s")
    note al = grabs_alloc [OF Cons.prems(2) a Cons.prems(4)]
    show ?thesis
    proof (cases "a = NULL")
      case True
      then show ?thesis using Cons.prems(1) \<open>present _\<close> a al(2) Cons.prems(2) by (auto simp: present_def grabs_refl)
    next
      case False
      have a2: "aligned a" "a div PAGE_SIZE \<in> A" "Suc (card (free_frames (vpmm s1))) = card (free_frames (vpmm s))"
        using False al(2) Cons.prems(3) by auto
      let ?pt = "get_entry s src i AND NOT 0xFFF"
      have pt: "?pt = table_of s src i" by (simp add: table_of_def)
      obtain ok1 s2 where c: "clone_pages ?pt a all_entries s1 = (ok1, s2)" by (cases "clone_pages ?pt a all_entries s1")
      have ptA: "?pt div PAGE_SIZE \<notin> A" unfolding pt using Cons.prems(10) ht by blast
      have bd: "\<forall>j \<in> set all_entries. j < 1024" by (auto simp: all_entries_def word_less_nat_alt unat_of_nat)
      have p: "grabs A s1 s2 \<and> (if ok1 then card (free_frames (vpmm s2)) +
          length (filter (\<lambda>j. present (get_entry s1 ?pt j)) all_entries) = card (free_frames (vpmm s1)) else free_frames (vpmm s2) = {})"
        by (rule clone_pages_count [OF c grabsD(1) [OF al(1)] _ _ aligned_and ptA a2(1,2) bd])
          (use grabsD(2) [OF al(1)] Cons.prems in auto)
      have e1: "filter (\<lambda>j. present (get_entry s1 ?pt j)) all_entries = filter (\<lambda>j. present (get_entry s ?pt j)) all_entries"
        by (rule filter_cong) (use grabsD(4) [OF al(1) aligned_and _ ptA] bd in simp_all)
      show ?thesis
      proof (cases ok1)
        case False
        then have "ok = False" "s' = s2" using Cons.prems(1) True a \<open>a \<noteq> NULL\<close> c by (simp_all add: present_def Let_def)
        then show ?thesis using grabs_trans [OF al(1)] p False by auto
      next
        case True
        let ?s3 = "set_entry new i (a OR (get_entry s2 src i AND 0xFFF)) s2"
        have step: "clone_tables src new is ?s3 = (ok, s')"
          using Cons.prems(1) \<open>present _\<close> a \<open>a \<noteq> NULL\<close> c True by (simp add: present_def Let_def)
        have g3: "grabs A s2 ?s3" by (rule grabs_set) (use p grabsD(1) Cons.prems(7-9) in auto)
        have g: "grabs A s ?s3" using al(1) p g3 by (blast intro: grabs_trans)
        have en: "get_entry ?s3 src k = get_entry s src k" if "k < 1024" for k
          by (rule grabsD(4) [OF g Cons.prems(5) that Cons.prems(6)])
        have tn: "table_need ?s3 src k = table_need s src k" if k: "k < 1024" for k
        proof (cases "present (get_entry s src k)")
          case True
          then have "table_of s src k div PAGE_SIZE \<notin> A" using Cons.prems(10) k by (simp add: has_table_def)
          then have "filter (\<lambda>j. present (get_entry ?s3 (table_of s src k) j)) all_entries =
              filter (\<lambda>j. present (get_entry s (table_of s src k) j)) all_entries"
            by (intro filter_cong refl arg_cong [of _ _ present] grabsD(4) [OF g aligned_table]) (use bd in simp_all)
          then show ?thesis using True by (simp only: table_need_def table_of_def en [OF k])
        qed (simp add: table_need_def en [OF k])
        have "grabs A ?s3 s' \<and> (if ok then card (free_frames (vpmm s')) + sum_list (map (table_need ?s3 src) is) =
            card (free_frames (vpmm ?s3)) else free_frames (vpmm s') = {})"
        proof (rule Cons.IH [OF step grabsD(1) [OF g]])
          show "\<forall>i. has_table ?s3 src i \<longrightarrow> table_of ?s3 src i div PAGE_SIZE \<notin> A"
            using Cons.prems(10) en by (auto simp: has_table_def table_of_def)
        qed (use grabsD(2) [OF g] Cons.prems in auto)
        moreover have m: "map (table_need ?s3 src) is = map (table_need s src) is" using tn Cons.prems(9) by (intro map_cong) simp_all
        moreover have "table_need s src i = Suc (length (filter (\<lambda>j. present (get_entry s ?pt j)) all_entries))"
          unfolding pt using \<open>present _\<close> by (simp add: table_need_def)
        ultimately show ?thesis using grabs_trans [OF g] p True a2(3) unfolding e1 m by (cases ok) simp_all
      qed
    qed
  qed
qed

text \<open>A directory that maps the first 128 MB needs more frames than the machine has.\<close>

lemma unat_nat: "n < 4294967296 \<Longrightarrow> unat (of_nat n :: u32) = n"
  by (simp add: unat_of_nat)

lemma low_need:
  assumes "\<forall>v < MEMORY_LIMIT. present (pte_of s pd v)" "i < 32"
  shows "table_need s pd (of_nat i) = 1025"
proof -
  have idx: "pd_index (of_nat (i * 4194304 + j * 4096)) = of_nat i" "pt_index (of_nat (i * 4194304 + j * 4096)) = of_nat j"
    "of_nat (i * 4194304 + j * 4096) < (MEMORY_LIMIT :: u32)" if "j < 1024" for j
  proof -
    have b: "i * 4194304 + j * 4096 < 134217728" using that assms(2) by simp
    then have u: "unat (of_nat (i * 4194304 + j * 4096) :: u32) = i * 4194304 + j * 4096"
      by (intro unat_nat) simp
    show "of_nat (i * 4194304 + j * 4096) < (MEMORY_LIMIT :: u32)"
      unfolding word_less_nat_alt u using b by simp
    have "(i * 4194304 + j * 4096) div 4194304 = i" using that by simp
    then have "unat (pd_index (of_nat (i * 4194304 + j * 4096))) = i" unfolding unat_index u .
    moreover have "unat (of_nat i :: u32) = i" using assms(2) by (intro unat_nat) simp
    ultimately show "pd_index (of_nat (i * 4194304 + j * 4096)) = of_nat i" by (simp only: word_unat_eq_iff)
    have "(i * 4194304 + j * 4096) div 4096 mod 1024 = j" using that by simp
    then have "unat (pt_index (of_nat (i * 4194304 + j * 4096))) = j" unfolding unat_index u .
    moreover have "unat (of_nat j :: u32) = j" using that by (intro unat_nat) simp
    ultimately show "pt_index (of_nat (i * 4194304 + j * 4096)) = of_nat j" by (simp only: word_unat_eq_iff)
  qed
  have pr: "present (get_entry s pd (of_nat i)) \<and> present (get_entry s (table_of s pd (of_nat i)) (of_nat j))" if j: "j < 1024" for j
  proof -
    have "present (pte_of s pd (of_nat (i * 4194304 + j * 4096)))" using assms(1) idx(3) [OF j] by blast
    then show ?thesis unfolding pte_of_def idx(1,2) [OF j] by (simp add: has_table_def split: if_splits)
  qed
  have "filter (\<lambda>j. present (get_entry s (table_of s pd (of_nat i)) j)) all_entries = all_entries"
    unfolding all_entries_def filter_id_conv using pr by auto
  moreover have "length all_entries = 1024" by (simp add: all_entries_def)
  ultimately show ?thesis using pr [of 0] by (simp add: table_need_def)
qed

lemma total_need:
  assumes "\<forall>v < MEMORY_LIMIT. present (pte_of s pd v)"
  shows "sum_list (map (table_need s pd) user_entries) \<ge> 32800"
proof -
  have "user_entries = map of_nat [0..<32] @ map of_nat [32..<768]"
  proof -
    have "[0..<32 + 736 :: nat] = [0..<32] @ [32..<32 + 736]" by (rule upt_add_eq_append) simp
    moreover have "(32 + 736 :: nat) = 768" by simp
    ultimately have "[0..<768 :: nat] = [0..<32] @ [32..<768]" by (simp only:)
    then show ?thesis by (simp only: user_entries_def map_append)
  qed
  moreover have "sum_list (map (table_need s pd) (map of_nat [0..<32])) = sum_list (map (\<lambda>_. 1025) [0..<32])"
    unfolding map_map by (rule arg_cong [of _ _ sum_list], rule map_cong) (use low_need [OF assms] in simp_all)
  moreover have "sum_list (map (\<lambda>_. 1025) [0..<32]) = (32800 :: nat)" unfolding sum_list_triv by simp
  ultimately show ?thesis by (metis le_add1 map_append sum_list.append)
qed

lemma user_entries_bound: "\<forall>i \<in> set user_entries. i < 1024"
  by (auto simp: user_entries_def word_less_nat_alt unat_of_nat)

lemma grabs_copy_kernel:
  assumes "pmm_inv (vpmm s)" "aligned new" "new div PAGE_SIZE \<in> A"
  shows "n \<le> 1024 \<Longrightarrow> grabs A s (fold (\<lambda>i s. set_entry new (of_nat i) (get_entry s src (of_nat i)) s) [768..<n] s)"
proof (induction n)
  case (Suc n)
  show ?case
  proof (cases "768 \<le> n")
    case True
    have "(of_nat n :: u32) < 1024" using Suc.prems by (simp add: word_less_nat_alt unat_of_nat)
    then show ?thesis using Suc True grabs_set [OF grabsD(1) assms(2) _ assms(3)] by (auto intro: grabs_trans)
  next
    case False
    then show ?thesis using grabs_refl [OF assms(1)] by simp
  qed
qed (simp add: grabs_refl assms)

lemma clone_fails:
  assumes ok: "dir_ok s pd" and low: "\<forall>v < MEMORY_LIMIT. present (pte_of s pd v)" and z: "0 \<notin> free_frames (vpmm s)"
  shows "\<exists>s'. clone_page_directory pd s = (NULL, s') \<and> free_frames (vpmm s') = {} \<and> pmm_inv (vpmm s') \<and> (\<exists>p. kheap s' = (kheap s)\<lparr>pmm := p\<rparr>)"
proof -
  let ?A = "free_frames (vpmm s)"
  note inv = dir_okD(3) [OF ok]
  obtain a s1 where a: "k_alloc s = (a, s1)" by (cases "k_alloc s")
  note al = grabs_alloc [OF inv a z]
  show ?thesis
  proof (cases "a = NULL")
    case True
    then show ?thesis using al(2) a inv by (auto simp: clone_page_directory_def intro: heap_pmm_same [symmetric])
  next
    case False
    then have a2: "aligned a" "a div PAGE_SIZE \<in> ?A" using al(2) by auto
    let ?s2 = "zero_page a s1"
    define s3 where "s3 = fold (\<lambda>i s. set_entry a (of_nat i) (get_entry s pd (of_nat i)) s) [768..<1024] ?s2"
    have g2: "grabs ?A s1 ?s2" by (rule grabs_zero [OF grabsD(1) [OF al(1)] a2])
    have g3: "grabs ?A ?s2 s3" unfolding s3_def by (rule grabs_copy_kernel [OF grabsD(1) [OF g2] a2]) simp
    have g: "grabs ?A s s3" using al(1) g2 g3 by (blast intro: grabs_trans)
    obtain ok' s' where c: "clone_tables pd a user_entries s3 = (ok', s')" by (cases "clone_tables pd a user_entries s3")
    have nd: "pd div PAGE_SIZE \<notin> ?A" "has_table s pd i \<Longrightarrow> table_of s pd i div PAGE_SIZE \<notin> ?A" for i
      using dir_okD(4,7) [OF ok] by auto
    have en: "get_entry s3 pd i = get_entry s pd i" if "i < 1024" for i
      by (rule grabsD(4) [OF g dir_okD(1) [OF ok] that nd(1)])
    have tb: "has_table s3 pd i = has_table s pd i" "has_table s pd i \<Longrightarrow> table_of s3 pd i = table_of s pd i" for i
      using en by (auto simp: has_table_def table_of_def)
    have low3: "\<forall>v < MEMORY_LIMIT. present (pte_of s3 pd v)"
    proof (intro allI impI)
      fix v :: u32 assume "v < MEMORY_LIMIT"
      then have p: "present (pte_of s pd v)" using low by blast
      then have ht: "has_table s pd (pd_index v)" by (auto simp: pte_of_def split: if_splits)
      then have "pte_of s3 pd v = pte_of s pd v"
        using grabsD(4) [OF g aligned_table index_bound(2) nd(2) [OF ht]] tb by (simp add: pte_of_def)
      with p show "present (pte_of s3 pd v)" by simp
    qed
    have tA: "\<forall>i. has_table s3 pd i \<longrightarrow> table_of s3 pd i div PAGE_SIZE \<notin> ?A" using tb nd(2) by auto
    have z3: "0 \<notin> free_frames (vpmm s3)" using grabsD(2) [OF g] z by blast
    have r: "grabs ?A s3 s' \<and> (if ok' then card (free_frames (vpmm s')) + sum_list (map (table_need s3 pd) user_entries) =
        card (free_frames (vpmm s3)) else free_frames (vpmm s') = {})"
      by (rule clone_tables_count [OF c grabsD(1) [OF g] grabsD(2) [OF g] z3 dir_okD(1) [OF ok] nd(1) a2 user_entries_bound tA])
    have "card (free_frames (vpmm s3)) \<le> 32768"
      using grabsD(1) [OF g] unfolding pmm_inv_def by (simp add: word_le_nat_alt)
    then have "\<not> ok'" using r total_need [OF low3] by auto
    then have "clone_page_directory pd s = (NULL, s')" 
      using False c unfolding clone_page_directory_def a Let_def prod.case s3_def by (simp only: prod.case if_False)
    moreover have "grabs ?A s s'" using g r by (blast intro: grabs_trans)
    ultimately show ?thesis using r \<open>\<not> ok'\<close> by (auto simp: grabs_def)
  qed
qed

section \<open>Fork\<close>

text \<open>C29: \<open>fork\<close> cannot succeed. Every address space maps the first 128 MB, all the memory there is, and \<open>sys_fork\<close> copies
  every mapped page below 3 GB. When the heap gives a block \<open>child\<close> for the structure, the call returns -1 with no free frame left, none of them
  given back, and that block, which is freed again, stays first in the list of children of the caller. When the heap has no block for
  it, the call returns -1 and the tasks are as before.\<close>

theorem fork_exhausts_memory:
  assumes cur: "current_task (k_sched k) = cur" "cur \<noteq> NULL" "cur \<in> L" and live: "live_inv (kheap (k_vm k)) L"
    and pd: "t_page_directory (k_task k cur) = pd" "dir_ok (k_vm k) pd"
    and low: "\<forall>v < MEMORY_LIMIT. present (pte_of (k_vm k) pd v)" and z: "0 \<notin> free_frames (vpmm (k_vm k))"
    and name: "length (t_name (k_task k cur)) = 32" "name_length (t_name (k_task k cur)) < 26"
  shows "\<exists>child h k'. kmalloc SIZEOF_TASK (kheap (k_vm k)) = Some (child, h) \<and> sys_fork k = Some (-1, k') \<and> live_inv (kheap (k_vm k')) L \<and>
    (if child = NULL then k_sched k' = k_sched k
     else free_frames (vpmm (k_vm k')) = {} \<and> child \<notin> L \<and> t_first_child (k_task k' cur) = child)"
proof -
  obtain child h where c: "kmalloc SIZEOF_TASK (kheap (k_vm k)) = Some (child, h)" "dir_ok ((k_vm k)\<lparr>kheap := h\<rparr>) pd"
    "free_frames (pmm h) \<subseteq> free_frames (vpmm (k_vm k))"
    "if child = NULL then live_inv h L else child \<notin> L \<and> live_inv h (insert child L)"
    by (rule kmalloc_task [OF live pd(2)])
  let ?v = "(k_vm k)\<lparr>kheap := h\<rparr>"
  have km: "k_kmalloc SIZEOF_TASK k = Some (child, on_vm (\<lambda>v. v\<lparr>kheap := h\<rparr>) k)" by (simp add: k_kmalloc_def c(1))
  show ?thesis
  proof (cases "child = NULL")
    case True
    then show ?thesis using cur c(1,4) km by (auto simp: sys_fork_def)
  next
    case False
    then have new: "child \<notin> L" "live_inv h (insert child L)" "child \<noteq> cur" using c(4) cur(3) by auto
    obtain name where nm: "strcat_name (t_name (k_task k cur)) (map of_char ''-child'') = Some name"
      using name by (simp add: strcat_name_def Let_def)
    have "\<forall>v < MEMORY_LIMIT. present (pte_of ?v pd v)"
      using low by simp
    moreover have "0 \<notin> free_frames (vpmm ?v)" using z c(3) by auto
    ultimately obtain s p where "clone_page_directory pd ?v = (NULL, s)" "free_frames (vpmm s) = {}" "pmm_inv (vpmm s)"
      "kheap s = (kheap ?v)\<lparr>pmm := p\<rparr>" using clone_fails [OF c(2)] by blast
    then have s: "clone_page_directory pd ?v = (NULL, s)" "free_frames p = {}" "pmm_inv p" "kheap s = h\<lparr>pmm := p\<rparr>" by simp_all
    obtain h' where f: "kfree child (h\<lparr>pmm := p\<rparr>) = Some (h'\<lparr>pmm := p\<rparr>)"
      using kfree_live_pmm [OF new(2), of child p] by auto
    have "live_inv (h\<lparr>pmm := p\<rparr>) (insert child L)" by (rule live_pmm [OF new(2)]) (use s in auto)
    from kfree_live [OF this, of child] have l: "live_inv (h'\<lparr>pmm := p\<rparr>) L" using f new(1) by auto
    let ?k1 = "k_upd child (\<lambda>_. (k_task k cur)\<lparr>t_pid := next_fork_pid k, t_name := name\<rparr>) (on_vm (\<lambda>v. v\<lparr>kheap := h\<rparr>) k)"
    let ?k2 = "?k1\<lparr>next_fork_pid := next_fork_pid k + 1\<rparr>"
    let ?k3 = "?k2\<lparr>k_sched := task_add_child cur child (k_sched ?k2)\<rparr>"
    let ?k4 = "k_upd child (\<lambda>t. t\<lparr>t_page_directory := NULL\<rparr>) (?k3\<lparr>k_vm := s\<rparr>)"
    have t3: "t_page_directory (k_task ?k3 cur) = pd" using new(3) pd(1) by (simp add: k_task_def task_add_child_def Let_def)
    have "sys_fork k = k_kfree child ?k4 \<bind> (\<lambda>k. Some (-1, k))"
      using cur False s(1) t3 by (simp add: sys_fork_def km nm [simplified] Let_def)
    moreover have "k_kfree child ?k4 = Some (on_vm (\<lambda>v. v\<lparr>kheap := h'\<lparr>pmm := p\<rparr>\<rparr>) ?k4)"
      using s(4) f by (simp add: k_kfree_def)
    moreover have "t_first_child (k_task ?k4 cur) = child"
      using new(3) False cur(2) by (simp add: k_task_def task_add_child_def Let_def)
    ultimately show ?thesis using False l s(2,4) new(1) c(1) by (intro exI [of _ child] exI [of _ h]) simp
  qed
qed

theorem fork_exhausts_memory_witness:
  "\<exists>p h child k'. child \<noteq> NULL \<and> child \<noteq> p \<and> sys_fork (boot_kernel p h) = Some (-1, k') \<and>
     free_frames (vpmm (k_vm k')) = {} \<and> t_first_child (k_task k' p) = child \<and> live_inv (kheap (k_vm k')) {p}"
proof -
  obtain p h where b: "p \<noteq> NULL" "live_inv h {p}" "dir_ok (boot_vm\<lparr>kheap := h\<rparr>) 0x150000" "free_from 512 6 (pmm h) \<or> free_from 513 6 (pmm h)"
    "identity_low (boot_vm\<lparr>kheap := h\<rparr>) 0x150000" "page_count h < HEAP_MAX_PAGES" by (rule boot_task)
  obtain lo where lo: "free_from lo 6 (pmm h)" using b(4) by blast
  have "\<forall>v < MEMORY_LIMIT. present (pte_of (boot_vm\<lparr>kheap := h\<rparr>) 0x150000 v)" by (rule identity_present [OF b(5)])
  moreover have "0 \<notin> free_frames (pmm h)" using lo by (auto simp: free_from_def)
  moreover have "name_length (replicate 32 0) < 26" by (simp add: name_length_def)
  ultimately have "\<exists>child h' k'. kmalloc SIZEOF_TASK (kheap (k_vm (boot_kernel p h))) = Some (child, h') \<and>
    sys_fork (boot_kernel p h) = Some (-1, k') \<and> live_inv (kheap (k_vm k')) {p} \<and>
    (if child = NULL then k_sched k' = k_sched (boot_kernel p h)
     else free_frames (vpmm (k_vm k')) = {} \<and> child \<notin> {p} \<and> t_first_child (k_task k' p) = child)"
    using b(1-3) by (intro fork_exhausts_memory [where pd = "0x150000"]) (simp_all add: boot_kernel_def k_task_def zero_task_def)
  then obtain child h' k' where r: "kmalloc SIZEOF_TASK (kheap (k_vm (boot_kernel p h))) = Some (child, h')"
    "sys_fork (boot_kernel p h) = Some (-1, k')" "live_inv (kheap (k_vm k')) {p}"
    "if child = NULL then k_sched k' = k_sched (boot_kernel p h)
     else free_frames (vpmm (k_vm k')) = {} \<and> child \<notin> {p} \<and> t_first_child (k_task k' p) = child" by blast
  have "kmalloc SIZEOF_TASK h = Some (child, h')" using r(1) by (simp add: boot_kernel_def)
  from boot_task_again(1) [OF b(2,6) lo this] r(2-4) show ?thesis by (intro exI conjI) auto
qed

section \<open>Wait\<close>

definition ended :: "task \<Rightarrow> bool" where
  "ended t \<longleftrightarrow> t_state t = TASK_ZOMBIE \<and> \<not> t_waited t"

lemma find_zombie_first:
  "siblings tk p (us @ z # vs) \<Longrightarrow> \<forall>u \<in> set us. \<not> ended (tk u) \<Longrightarrow> ended (tk z) \<Longrightarrow> find_zombie tk p = Some z"
proof (induction us arbitrary: p)
  case Nil
  then show ?case by (subst find_zombie.simps) (simp add: ended_def)
next
  case (Cons u us)
  then have "find_zombie tk p = find_zombie tk (t_next_sibling (tk u))"
    by (subst find_zombie.simps) (auto simp: ended_def)
  then show ?case using Cons by simp
qed

lemma find_zombie_none: "siblings tk p cs \<Longrightarrow> \<forall>u \<in> set cs. \<not> ended (tk u) \<Longrightarrow> find_zombie tk p = Some NULL"
proof (induction cs arbitrary: p)
  case Nil
  then show ?case by (subst find_zombie.simps) simp
next
  case (Cons u cs)
  then have "find_zombie tk p = find_zombie tk (t_next_sibling (tk u))"
    by (subst find_zombie.simps) (simp add: ended_def)
  then show ?case using Cons by simp
qed

text \<open>The state after the caller was blocked and woken \<open>n\<close> times.\<close>

fun wait_rounds :: "(kernel_state \<Rightarrow> kernel_state option) \<Rightarrow> nat \<Rightarrow> kernel_state \<Rightarrow> kernel_state option" where
  "wait_rounds others 0 k = Some k"
| "wait_rounds others (Suc n) k = do {
     k \<leftarrow> give_up others task_block k; k \<leftarrow> give_up others task_yield k; wait_rounds others n k }"

abbreviation own_children :: "kernel_state \<Rightarrow> u32 list \<Rightarrow> bool" where
  "own_children k cs \<equiv> children_ok (k_sched k) (current_task (k_sched k)) cs"

lemma wait_loop_rounds:
  assumes "wait_rounds others n k = Some k'"
    and "\<And>i. i < n \<Longrightarrow> \<exists>ki cs. wait_rounds others i k = Some ki \<and> own_children ki cs \<and> (\<forall>c \<in> set cs. \<not> ended (k_task ki c))"
  shows "wait_loop others status k = wait_loop others status k'"
  using assms
proof (induction n arbitrary: k)
  case (Suc n)
  obtain k1 k2 where r: "give_up others task_block k = Some k1" "give_up others task_yield k1 = Some k2" "wait_rounds others n k2 = Some k'"
    using Suc.prems(1) by (auto simp: bind_eq_Some_conv)
  obtain cs where "own_children k cs" "\<forall>c \<in> set cs. \<not> ended (k_task k c)" using Suc.prems(2) [of 0] by auto
  then have "find_zombie (tasks (k_sched k)) (t_first_child (k_task k (current_task (k_sched k)))) = Some NULL"
    unfolding k_task_def by (intro find_zombie_none) (auto simp: children_ok_def)
  then have "wait_loop others status k = wait_loop others status k2" by (subst wait_loop.simps) (simp add: r)
  moreover have "\<exists>ki cs. wait_rounds others i k2 = Some ki \<and> own_children ki cs \<and> (\<forall>c \<in> set cs. \<not> ended (k_task ki c))" if "i < n" for i
    using Suc.prems(2) [of "Suc i"] that by (simp add: r)
  ultimately show ?case using Suc.IH [OF r(3)] by simp
qed simp

lemma remove_child_waited:
  assumes "task_remove_child parent child s = Some s'"
  shows "t_waited (tasks s' x) = t_waited (tasks s x)"
proof -
  have "remove_child_loop parent child prev cur s = Some s' \<Longrightarrow> t_waited (tasks s' x) = t_waited (tasks s x)" for prev cur
  proof (erule remove_child_loop.raw_induct [rotated, where P = "\<lambda>_ _ _ _ s s'. t_waited (tasks s' x) = t_waited (tasks s x)"])
    fix f parent child prev cur s s'
    assume "\<And>parent child prev cur s s'. f parent child prev cur s = Some s' \<Longrightarrow> t_waited (tasks s' x) = t_waited (tasks s x)"
      "(if cur \<noteq> NULL then
        (if cur = child then
           (let nxt = t_next_sibling (tasks s cur);
                s = (if prev \<noteq> NULL then upd_task prev (\<lambda>t. t\<lparr>t_next_sibling := nxt\<rparr>) s
                     else upd_task parent (\<lambda>t. t\<lparr>t_first_child := nxt\<rparr>) s)
            in Some (upd_task child (\<lambda>t. t\<lparr>t_parent := NULL, t_next_sibling := NULL\<rparr>) s))
         else f parent child cur (t_next_sibling (tasks s cur)) s)
      else Some s) = Some s'"
    then show "t_waited (tasks s' x) = t_waited (tasks s x)" by (auto simp: Let_def split: if_splits)
  qed
  then show ?thesis using assms by (auto simp: task_remove_child_def split: if_splits)
qed

text \<open>C30: \<open>wait\<close>. A caller with children is blocked and woken until one of its children has ended and was not waited for, \<open>n\<close> times here.
  Then the call returns the process number of the first such child in the list of children, the exit code is stored where
  \<open>status\<close> says if that is an address of the user, the child is marked and taken out of the list, and the other children
  stay in their order; so no child is waited for twice.\<close>

theorem wait_reaps_first_ended:
  assumes "current_task (k_sched k) \<noteq> NULL" "t_first_child (k_task k (current_task (k_sched k))) \<noteq> NULL"
    and rounds: "wait_rounds others n k = Some k'"
    and none: "\<And>i. i < n \<Longrightarrow> \<exists>ki cs. wait_rounds others i k = Some ki \<and> own_children ki cs \<and> (\<forall>c \<in> set cs. \<not> ended (k_task ki c))"
    and cur: "current_task (k_sched k') = cur" "cur \<noteq> NULL" "cur \<notin> set (us @ z # vs)"
    and ch: "children_ok (k_sched k') cur (us @ z # vs)" "\<forall>u \<in> set us. \<not> ended (k_task k' u)" "ended (k_task k' z)"
    and st: "if status \<noteq> NULL \<and> status < USER_LIMIT then store_int status (word_of_int (t_exit_code (k_task k' z))) (k_vm k') = Some v
      else v = k_vm k'"
  shows "\<exists>k''. sys_wait others status k = Some (sint (t_pid (k_task k' z)), k'') \<and> k_vm k'' = v \<and>
    children_ok (k_sched k'') cur (us @ vs) \<and> t_parent (k_task k'' z) = NULL \<and> \<not> ended (k_task k'' z)"
proof -
  have f: "find_zombie (tasks (k_sched k')) (t_first_child (k_task k' cur)) = Some z"
    unfolding k_task_def by (rule find_zombie_first [of _ _ us z vs]) (use ch in \<open>auto simp: children_ok_def k_task_def\<close>)
  have zn: "z \<noteq> NULL" using ch(1) siblings_NULL [of "tasks (k_sched k')" _ "us @ z # vs"] by (auto simp: children_ok_def)
  have dz: "z \<notin> set us" using ch(1) by (simp add: children_ok_def)
  let ?s = "upd_task z (\<lambda>t. t\<lparr>t_waited := True\<rparr>) (k_sched k')"
  have c1: "children_ok ?s cur (us @ z # vs)" by (rule children_ok_upd [OF ch(1)]) simp_all
  from remove_child_ok [OF c1 _ cur(3,2), of z] obtain s' where
    s': "task_remove_child cur z ?s = Some s'" "children_ok s' cur (remove1 z (us @ z # vs))" "t_parent (tasks s' z) = NULL"
    by auto
  have w: "t_waited (tasks s' z)" using remove_child_waited [OF s'(1), of z] by simp
  have "reap z status k' = Some (sint (t_pid (k_task k' z)), (k_upd z (\<lambda>t. t\<lparr>t_waited := True\<rparr>) k')\<lparr>k_vm := v, k_sched := s'\<rparr>)"
    using st cur(1) s'(1) by (auto simp: reap_def Let_def)
  moreover have "wait_loop others status k' = reap z status k'"
    using f cur(1) zn by (subst wait_loop.simps) (simp add: k_task_def)
  ultimately have "sys_wait others status k = Some (sint (t_pid (k_task k' z)), (k_upd z (\<lambda>t. t\<lparr>t_waited := True\<rparr>) k')\<lparr>k_vm := v, k_sched := s'\<rparr>)"
    using assms(1,2) wait_loop_rounds [OF rounds none] by (simp add: sys_wait_def)
  moreover have "remove1 z (us @ z # vs) = us @ vs" using dz by (simp add: remove1_append)
  ultimately show ?thesis using s' w by (simp add: k_task_def ended_def)
qed

text \<open>A task with two children, of which the second has ended with code 7.\<close>

definition parent_kernel :: kernel_state where
  "parent_kernel = \<lparr>k_vm = boot_vm, k_fs = tiny_fat,
     k_sched = two_tasks\<lparr>tasks := (\<lambda>_. zero_task)(0x100 := zero_task\<lparr>t_state := TASK_RUNNING, t_first_child := 0x300\<rparr>,
       0x300 := zero_task\<lparr>t_pid := 5, t_parent := 0x100, t_next_sibling := 0x200\<rparr>,
       0x200 := zero_task\<lparr>t_pid := 4, t_state := TASK_ZOMBIE, t_exit_code := 7, t_parent := 0x100\<rparr>)\<rparr>,
     k_term = blank_terminal, next_fork_pid = 100\<rparr>"

theorem wait_reaps_first_ended_witness:
  "\<exists>k. sys_wait Some NULL parent_kernel = Some (4, k) \<and> children_ok (k_sched k) 0x100 [0x300] \<and> t_parent (k_task k 0x200) = NULL"
proof -
  note d = parent_kernel_def two_tasks_def zero_task_def k_task_def ended_def
  have "current_task (k_sched parent_kernel) \<noteq> NULL" "current_task (k_sched parent_kernel) = 0x100"
    "t_first_child (k_task parent_kernel (current_task (k_sched parent_kernel))) \<noteq> NULL"
    "children_ok (k_sched parent_kernel) 0x100 ([0x300] @ 0x200 # [])" "ended (k_task parent_kernel 0x200)"
    "\<forall>u \<in> set [0x300]. \<not> ended (k_task parent_kernel u)" "t_pid (k_task parent_kernel 0x200) = 4"
    by (simp_all add: d children_ok_def)
  then show ?thesis
    using wait_reaps_first_ended [of parent_kernel Some 0 parent_kernel "0x100" "[0x300]" "0x200" "[]" NULL "k_vm parent_kernel"] by auto
qed

section \<open>The dispatcher\<close>

lemma syscall_number_cases: "n < 9 \<Longrightarrow> syscall_numbers ! unat (n :: u32) = SYS_EXIT \<longleftrightarrow> n = 0"
proof -
  assume "n < 9"
  then have "unat n \<in> {0, 1, 2, 3, 4, 5, 6, 7, 8}" by (auto simp: word_less_nat_alt)
  then show ?thesis by (auto simp: syscall_numbers_def word_unat_eq_iff nth_Cons')
qed

lemma dispatch_frame:
  assumes "dispatch others E regs n k = Some (r, k')"
  shows "case r of Returns regs' \<Rightarrow> regs' = regs\<lparr>r_eax := r_eax regs'\<rparr> \<or> n = SYS_EXEC \<and> regs' = (exec_frame k regs (0, k'))\<lparr>r_eax := 0\<rparr>
    | Exits \<Rightarrow> n = SYS_EXIT \<and> current_task (k_sched k) \<noteq> NULL \<and> current_task (k_sched k) \<noteq> kernel_task (k_sched k)"
  using assms by (cases n) (auto simp: eax_result_def bind_eq_Some_conv sys_exit_def exec_frame_def Let_def split: if_splits)

text \<open>A number outside the table gives -1, and so does the call for reading, which is not implemented. Every call that returns leaves the registers of
  the caller but \<open>eax\<close> as they were, except an \<open>exec\<close> that succeeds for a task of ring 3, which continues in the new program. The only call that does
  not return to its caller is \<open>exit\<close>, made by a task other than the idle task.\<close>

lemma syscall_handler_frame:
  assumes "syscall_handler others E regs k = Some (r, k')"
  shows "(r_eax regs \<ge> SYSCALL_MAX \<or> r_eax regs = 2 \<longrightarrow> r = Returns (regs\<lparr>r_eax := -1\<rparr>)) \<and>
    (case r of Returns regs' \<Rightarrow> regs' = regs\<lparr>r_eax := r_eax regs'\<rparr> \<or> regs' = (exec_frame k regs (0, k'))\<lparr>r_eax := 0\<rparr>
     | Exits \<Rightarrow> r_eax regs = 0 \<and> current_task (k_sched k) \<noteq> NULL \<and> current_task (k_sched k) \<noteq> kernel_task (k_sched k))"
proof (cases "r_eax regs \<ge> SYSCALL_MAX")
  case True
  then show ?thesis using assms by (auto simp: syscall_handler_def)
next
  case False
  then have d: "dispatch others E regs (syscall_numbers ! unat (r_eax regs)) k = Some (r, k')"
    using assms by (simp add: syscall_handler_def)
  have "r = Returns (regs\<lparr>r_eax := -1\<rparr>)" if "r_eax regs = 2"
    using d that by (simp add: syscall_numbers_def sys_read_def eax_result_def)
  then show ?thesis using dispatch_frame [OF d] False syscall_number_cases [of "r_eax regs"] by (auto split: outcome.splits)
qed

end
