(* ===== verification/Interrupts.thy ===== *)
theory Interrupts
  imports Scheduler Keyboard Vmm
begin

text \<open>
  Descriptor tables, the interrupt controller, the timer and the dispatch of exceptions and interrupts: \<open>src/kernel/gdt.c\<close>,
  \<open>src/kernel/tss.c\<close>, \<open>src/interrupts/idt.c\<close>, \<open>src/interrupts/isr.c\<close>, \<open>src/drivers/pic.c\<close>, \<open>src/drivers/timer.c\<close>,
  \<open>src/kernel/fpu.c\<close>, with the stack frames that the stubs of \<open>src/interrupts/interrupts.s\<close> build. The addresses of the stubs
  and of the static tables are arguments. The two interrupt controllers and the floating point unit are modelled as their manuals
  describe them, as far as the drivers use them.
\<close>

section \<open>Segments\<close>

record gdt_entry =
  limit_low :: u16
  base_low :: u16
  base_middle :: u8
  access :: u8
  granularity :: u8
  base_high :: u8

definition no_segment :: gdt_entry where
  "no_segment = \<lparr>limit_low = 0, base_low = 0, base_middle = 0, access = 0, granularity = 0, base_high = 0\<rparr>"

definition gdt_set_gate :: "nat \<Rightarrow> u32 \<Rightarrow> u32 \<Rightarrow> u8 \<Rightarrow> u8 \<Rightarrow> gdt_entry list \<Rightarrow> gdt_entry list" where
  "gdt_set_gate num base limit acc gran g =
     (let e = g ! num;
          e = e\<lparr>base_low := ucast (base AND 0xFFFF), base_middle := ucast (drop_bit 16 base AND 0xFF), base_high := ucast (drop_bit 24 base AND 0xFF)\<rparr>;
          e = e\<lparr>limit_low := ucast (limit AND 0xFFFF), granularity := ucast (drop_bit 16 limit AND 0x0F)\<rparr>;
          e = e\<lparr>granularity := granularity e OR (gran AND 0xF0), access := acc\<rparr>
      in g[num := e])"

text \<open>The task state segment: the fields that are set, the others are 0. Its size is 104 bytes.\<close>

record tss_entry =
  ss0 :: u32
  esp0 :: u32
  iomap_base :: u16

record segments =
  gdt :: "gdt_entry list"
  gdt_limit :: u16
  gdt_base :: u32
  gdt_tss :: tss_entry
  tss :: tss_entry
  task_register :: u16

definition gdt_init :: "u32 \<Rightarrow> u32 \<Rightarrow> segments \<Rightarrow> segments" where
  "gdt_init gdt_addr tss_addr s =
     (let g = gdt_set_gate 0 0 0 0 0 (gdt s);
          g = gdt_set_gate 1 0 0xFFFFFFFF 0x9A 0xCF g;
          g = gdt_set_gate 2 0 0xFFFFFFFF 0x92 0xCF g;
          g = gdt_set_gate 3 0 0xFFFFFFFF 0xFA 0xCF g;
          g = gdt_set_gate 4 0 0xFFFFFFFF 0xF2 0xCF g;
          g = gdt_set_gate 5 tss_addr 104 0x89 0x00 g
      in s\<lparr>gdt := g, gdt_limit := 8 * 6 - 1, gdt_base := gdt_addr, gdt_tss := \<lparr>ss0 = 0x10, esp0 = 0, iomap_base = 0\<rparr>, task_register := 0x28\<rparr>)"

definition gdt_set_tss :: "u32 \<Rightarrow> u32 \<Rightarrow> segments \<Rightarrow> segments" where
  "gdt_set_tss tss_base tss_limit s = s\<lparr>gdt := gdt_set_gate 5 tss_base tss_limit 0x89 0x00 (gdt s)\<rparr>"

definition tss_init :: "u32 \<Rightarrow> segments \<Rightarrow> segments" where
  "tss_init tss_base s =
     (let s = s\<lparr>tss := \<lparr>ss0 = 0x10, esp0 = 0, iomap_base = 104\<rparr>\<rparr>;
          s = gdt_set_tss tss_base 104 s
      in s\<lparr>task_register := 0x28\<rparr>)"

definition tss_set_kernel_stack :: "u32 \<Rightarrow> segments \<Rightarrow> segments" where
  "tss_set_kernel_stack stack s = s\<lparr>tss := (tss s)\<lparr>esp0 := stack\<rparr>\<rparr>"

text \<open>What the processor reads in a descriptor.\<close>

definition seg_base :: "gdt_entry \<Rightarrow> u32" where
  "seg_base e = ucast (base_low e) OR push_bit 16 (ucast (base_middle e)) OR push_bit 24 (ucast (base_high e))"

definition seg_limit :: "gdt_entry \<Rightarrow> u32" where
  "seg_limit e = ucast (limit_low e) OR push_bit 16 (ucast (granularity e AND 0x0F))"

definition seg_flags :: "gdt_entry \<Rightarrow> u8" where
  "seg_flags e = granularity e AND 0xF0"

section \<open>Gates\<close>

record idt_entry =
  off_low :: u16
  selector :: u16
  gate_zero :: u8
  gate_flags :: u8
  off_high :: u16

definition no_gate :: idt_entry where
  "no_gate = \<lparr>off_low = 0, selector = 0, gate_zero = 0, gate_flags = 0, off_high = 0\<rparr>"

definition idt_set_gate :: "u8 \<Rightarrow> u32 \<Rightarrow> u16 \<Rightarrow> u8 \<Rightarrow> idt_entry list \<Rightarrow> idt_entry list" where
  "idt_set_gate num handler sel flags t =
     t[unat num := \<lparr>off_low = ucast (handler AND 0xFFFF), selector = sel, gate_zero = 0, gate_flags = flags,
       off_high = ucast (drop_bit 16 handler AND 0xFFFF)\<rparr>]"

text \<open>\<open>stubs n\<close> is the address of \<open>isr<n>\<close> for \<open>n < 32\<close> and of \<open>irq<n - 32>\<close> above. The result is the table and its limit.\<close>

definition idt_init :: "(nat \<Rightarrow> u32) \<Rightarrow> idt_entry list \<times> u16" where
  "idt_init stubs =
     (fold (\<lambda>n. idt_set_gate (of_nat n) (stubs n) 0x08 0x8E) [0..<48] (replicate 256 no_gate), 8 * 256 - 1)"

definition syscall_init :: "u32 \<Rightarrow> idt_entry list \<Rightarrow> idt_entry list" where
  "syscall_init syscall_stub t = idt_set_gate 0x80 syscall_stub 0x08 0xEE t"

definition gate_offset :: "idt_entry \<Rightarrow> u32" where
  "gate_offset e = ucast (off_low e) OR push_bit 16 (ucast (off_high e))"

section \<open>The interrupt controllers\<close>

text \<open>One 8259A: the vector of its first line, the mask, the lines in service, and which initialization word it expects.\<close>

record pic_chip =
  vector_base :: u8
  pic_mask :: u8
  in_service :: "nat set"
  icw :: nat

definition chip_command :: "u8 \<Rightarrow> pic_chip \<Rightarrow> pic_chip" where
  "chip_command v c =
     (if v AND 0x10 \<noteq> 0 then c\<lparr>icw := 2, pic_mask := 0, in_service := {}\<rparr>
      else if v = 0x20 \<and> in_service c \<noteq> {} then c\<lparr>in_service := in_service c - {Min (in_service c)}\<rparr> else c)"

definition chip_data :: "u8 \<Rightarrow> pic_chip \<Rightarrow> pic_chip" where
  "chip_data v c =
     (if icw c = 2 then c\<lparr>vector_base := v AND 0xF8, icw := 3\<rparr>
      else if icw c = 3 then c\<lparr>icw := 4\<rparr>
      else if icw c = 4 then c\<lparr>icw := 0\<rparr>
      else c\<lparr>pic_mask := v\<rparr>)"

record ports =
  master :: pic_chip
  slave :: pic_chip
  pit :: "u8 list"

definition pic_outb :: "u16 \<Rightarrow> u8 \<Rightarrow> ports \<Rightarrow> ports" where
  "pic_outb port v s =
     (if port = 0x20 then s\<lparr>master := chip_command v (master s)\<rparr>
      else if port = 0x21 then s\<lparr>master := chip_data v (master s)\<rparr>
      else if port = 0xA0 then s\<lparr>slave := chip_command v (slave s)\<rparr>
      else if port = 0xA1 then s\<lparr>slave := chip_data v (slave s)\<rparr>
      else if port = 0x40 \<or> port = 0x43 then s\<lparr>pit := pit s @ [v]\<rparr>
      else s)"

definition io_wait :: "ports \<Rightarrow> ports" where
  "io_wait s = pic_outb 0x80 0 s"

definition pic_init :: "ports \<Rightarrow> ports" where
  "pic_init s =
     (let s = io_wait (pic_outb 0x20 (0x10 OR 0x01) s);
          s = io_wait (pic_outb 0xA0 (0x10 OR 0x01) s);
          s = io_wait (pic_outb 0x21 32 s);
          s = io_wait (pic_outb 0xA1 40 s);
          s = io_wait (pic_outb 0x21 4 s);
          s = io_wait (pic_outb 0xA1 2 s);
          s = io_wait (pic_outb 0x21 0x01 s);
          s = io_wait (pic_outb 0xA1 0x01 s)
      in pic_outb 0xA1 0xFF (pic_outb 0x21 0xFC s))"

definition pic_send_eoi :: "u8 \<Rightarrow> ports \<Rightarrow> ports" where
  "pic_send_eoi irq s = pic_outb 0x20 0x20 (if irq \<ge> 8 then pic_outb 0xA0 0x20 s else s)"

text \<open>A line of a controller is delivered when it is not masked and no line of the same or a higher priority is in service.\<close>

definition delivers :: "nat \<Rightarrow> pic_chip \<Rightarrow> bool" where
  "delivers n c \<longleftrightarrow> n < 8 \<and> \<not> bit (pic_mask c) n \<and> (\<forall>m \<in> in_service c. n < m)"

definition accept :: "nat \<Rightarrow> pic_chip \<Rightarrow> u8 \<times> pic_chip" where
  "accept n c = (vector_base c + of_nat n, c\<lparr>in_service := insert n (in_service c)\<rparr>)"

section \<open>Interrupts\<close>

datatype irq_fn = Timer_handler | Keyboard_handler

record irq_state =
  irq_handlers :: "irq_fn option list"
  io :: ports
  timer_ticks :: u32
  i_sched :: sched_state
  i_keyboard :: keyboard

definition irq_install_handler :: "u8 \<Rightarrow> irq_fn \<Rightarrow> irq_state \<Rightarrow> irq_state" where
  "irq_install_handler irq f s = (if irq < 16 then s\<lparr>irq_handlers := (irq_handlers s)[unat irq := Some f]\<rparr> else s)"

definition irq_uninstall_handler :: "u8 \<Rightarrow> irq_state \<Rightarrow> irq_state" where
  "irq_uninstall_handler irq s = (if irq < 16 then s\<lparr>irq_handlers := (irq_handlers s)[unat irq := None]\<rparr> else s)"

abbreviation IRQ_TIMER :: u8 where
  "IRQ_TIMER \<equiv> 0"

abbreviation IRQ_KEYBOARD :: u8 where
  "IRQ_KEYBOARD \<equiv> 1"

definition timer_init :: "irq_state \<Rightarrow> irq_state" where
  "timer_init s =
     (let divisor = 1193182 div 1000 :: u32;
          p = pic_outb 0x43 0x36 (io s);
          p = pic_outb 0x40 (ucast (divisor AND 0xFF)) p;
          p = pic_outb 0x40 (ucast (drop_bit 8 divisor AND 0xFF)) p
      in irq_install_handler IRQ_TIMER Timer_handler (s\<lparr>io := p\<rparr>))"

definition timer_get_ticks :: "irq_state \<Rightarrow> u32" where
  "timer_get_ticks s = timer_ticks s"

text \<open>\<open>hlt\<close> is what the interrupts do while the processor is halted.\<close>

partial_function (option) sleep_loop :: "(irq_state \<Rightarrow> irq_state option) \<Rightarrow> u32 \<Rightarrow> irq_state \<Rightarrow> irq_state option" where
  "sleep_loop hlt target s =
     (if timer_ticks s < target then (case hlt s of None \<Rightarrow> None | Some s \<Rightarrow> sleep_loop hlt target s) else Some s)"

definition timer_sleep :: "(irq_state \<Rightarrow> irq_state option) \<Rightarrow> u32 \<Rightarrow> irq_state \<Rightarrow> irq_state option" where
  "timer_sleep hlt ms s = sleep_loop hlt (timer_ticks s + ms) s"

text \<open>A handler that switches to another task is left in the middle, inside \<open>scheduler_tick\<close>. The rest of it runs when the task is scheduled
  again: what is left of \<open>timer_handler\<close> after the call of \<open>scheduler_tick\<close>, and then what is left of \<open>irq_handler_c\<close> after the call of the handler.\<close>

datatype irq_result = Finished irq_state | Switched irq_state

definition timer_return :: "irq_state \<Rightarrow> irq_state" where
  "timer_return s = s\<lparr>io := pic_send_eoi IRQ_TIMER (io s)\<rparr>"

definition irq_return :: "u8 \<Rightarrow> irq_state \<Rightarrow> irq_state" where
  "irq_return irq s = s\<lparr>io := pic_send_eoi irq (io s)\<rparr>"

definition irq_resume :: "irq_state \<Rightarrow> irq_state" where
  "irq_resume s = irq_return IRQ_TIMER (timer_return s)"

definition timer_handler :: "irq_state \<Rightarrow> irq_result option" where
  "timer_handler s =
     (let s = s\<lparr>timer_ticks := timer_ticks s + 1\<rparr> in
      case scheduler_tick (i_sched s) of None \<Rightarrow> None
      | Some q \<Rightarrow>
          if current_task q \<noteq> current_task (i_sched s) then Some (Switched (s\<lparr>i_sched := q\<rparr>))
          else Some (Finished (timer_return (s\<lparr>i_sched := q\<rparr>))))"

text \<open>\<open>scancode\<close> is what the keyboard has put into its port.\<close>

fun run_handler :: "u8 \<Rightarrow> irq_fn \<Rightarrow> irq_state \<Rightarrow> irq_result option" where
  "run_handler scancode Timer_handler s = timer_handler s"
| "run_handler scancode Keyboard_handler s = Some (Finished (s\<lparr>i_keyboard := fst (keyboard_handler scancode (i_keyboard s))\<rparr>))"

text \<open>The argument is the address that \<open>irq_handler\<close> takes from the stack pointer, as a function from word offsets.\<close>

definition irq_handler_c :: "u8 \<Rightarrow> (nat \<Rightarrow> u32) \<Rightarrow> irq_state \<Rightarrow> irq_result option" where
  "irq_handler_c scancode stack s =
     (let int_no = stack 13 in
      if int_no < 32 \<or> int_no > 47 then Some (Finished (s\<lparr>io := pic_send_eoi 0 (io s)\<rparr>))
      else
        (let irq = ucast (int_no - 32) :: u8 in
         case (case irq_handlers s ! unat irq of None \<Rightarrow> Some (Finished s) | Some f \<Rightarrow> run_handler scancode f s) of
           None \<Rightarrow> None
         | Some (Switched s) \<Rightarrow> Some (Switched s)
         | Some (Finished s) \<Rightarrow> Some (Finished (irq_return irq s))))"

section \<open>Exceptions\<close>

record fpu =
  fpu_cr0 :: u32
  fpu_cr4 :: u32
  x87_control :: u16
  x87_status :: u16
  mxcsr :: u32

definition clts :: "fpu \<Rightarrow> fpu" where
  "clts s = s\<lparr>fpu_cr0 := fpu_cr0 s AND NOT 8\<rparr>"

definition fninit :: "fpu \<Rightarrow> fpu" where
  "fninit s = s\<lparr>x87_control := 0x037F, x87_status := 0\<rparr>"

definition fnclex :: "fpu \<Rightarrow> fpu" where
  "fnclex s = s\<lparr>x87_status := x87_status s AND NOT 0x80FF\<rparr>"

definition fpu_init :: "fpu \<Rightarrow> fpu" where
  "fpu_init s =
     (let s = clts (s\<lparr>fpu_cr0 := (fpu_cr0 s AND NOT 4) OR 2 OR 32\<rparr>);
          s = s\<lparr>fpu_cr4 := fpu_cr4 s OR 512 OR 1024\<rparr>;
          s = fnclex (fninit s)
      in s\<lparr>x87_control := 0x037F, mxcsr := 0x1F80\<rparr>)"

definition isr_device_not_available :: "fpu \<Rightarrow> fpu" where
  "isr_device_not_available s = fninit (clts s)"

definition isr_x87_fpu_fault :: "fpu \<Rightarrow> fpu" where
  "isr_x87_fpu_fault s = (fninit (fnclex s))\<lparr>x87_control := 0x037F\<rparr>"

definition isr_simd_fp_exception :: "fpu \<Rightarrow> fpu" where
  "isr_simd_fp_exception s = s\<lparr>mxcsr := (mxcsr s AND NOT 0x3F) OR 0x1F80\<rparr>"

text \<open>\<open>Panic n\<close>: the message for exception \<open>n\<close> is printed and the processor is halted.\<close>

datatype isr_result = Fpu_resumed fpu | Paging fault_result | Panic u32

definition isr_handler :: "(nat \<Rightarrow> u32) \<Rightarrow> u32 \<Rightarrow> fpu \<Rightarrow> vmm_state \<Rightarrow> isr_result" where
  "isr_handler stack fault_addr f v =
     (let int_no = stack 13 in
      if int_no = 7 then Fpu_resumed (isr_device_not_available f)
      else if int_no = 16 then Fpu_resumed (isr_x87_fpu_fault f)
      else if int_no = 19 then Fpu_resumed (isr_simd_fp_exception f)
      else if int_no = 14 then Paging (page_fault_handler stack fault_addr v)
      else Panic int_no)"

text \<open>
  The words on the stack, from the stack pointer up. The stubs push an error code, the number of the exception and the registers;
  the processor has pushed the error code for exceptions 8, 10 to 14, 17 and 21, the others push a 0. \<open>isr14\<close> exchanges the two words. The
  frame of an interrupt has the return address of \<open>irq_common_stub\<close> below, because \<open>irq_handler\<close> takes the stack pointer after the call.
\<close>

definition exception_number :: "u32 \<Rightarrow> u32 \<Rightarrow> u32 list" where
  "exception_number n err = (if n = 14 then [err, 14] else [n, err])"

definition cpu_error_code :: "u32 \<Rightarrow> u32 \<Rightarrow> u32" where
  "cpu_error_code n err = (if n = 8 \<or> 10 \<le> n \<and> n \<le> 14 \<or> n = 17 \<or> n = 21 then err else 0)"

definition isr_frame :: "u32 \<Rightarrow> u32 \<Rightarrow> u32 list \<Rightarrow> u32 list \<Rightarrow> nat \<Rightarrow> u32" where
  "isr_frame n err regs cpu = (!) (regs @ exception_number n (cpu_error_code n err) @ cpu)"

definition irq_frame :: "u32 \<Rightarrow> u32 \<Rightarrow> u32 list \<Rightarrow> u32 list \<Rightarrow> nat \<Rightarrow> u32" where
  "irq_frame n ret regs cpu = (!) (ret # regs @ [n, 0] @ cpu)"

section \<open>Descriptors\<close>

lemma low_masks: "(0xFFFF :: u32) = mask 16" "(0xFF :: u32) = mask 8" "(0x0F :: u32) = mask 4" "(0xFFFFF :: u32) = mask 20"
  "(0x0F :: u8) = mask 4" "(0xF0 :: u8) = NOT (mask 4)"
  by (simp_all add: mask_eq_exp_minus_1)

lemma gate_fields: "ucast (ucast (a AND 0xFFFF :: u32) :: u16) OR push_bit 16 (ucast (ucast (drop_bit 16 a AND 0xFFFF) :: u16)) = a"
  unfolding low_masks by (rule bit_word_eqI) (auto simp: bit_simps)

lemma seg_base_fields:
  "ucast (ucast (a AND 0xFFFF :: u32) :: u16) OR push_bit 16 (ucast (ucast (drop_bit 16 a AND 0xFF) :: u8)) OR
     push_bit 24 (ucast (ucast (drop_bit 24 a AND 0xFF) :: u8)) = a"
proof (unfold low_masks, rule bit_word_eqI)
  fix n assume "n < LENGTH(32)"
  then consider "n < 16" | "16 \<le> n" "n < 24" "n - 16 < 8" | "24 \<le> n" "n < 32" "24 + (n - 24) = n" by fastforce
  then show "bit (ucast (ucast (a AND mask 16) :: u16) OR push_bit 16 (ucast (ucast (drop_bit 16 a AND mask 8) :: u8)) OR
     push_bit 24 (ucast (ucast (drop_bit 24 a AND mask 8) :: u8)) :: u32) n = bit a n"
    by cases (auto simp: bit_simps)
qed

lemma seg_limit_fields:
  "ucast (ucast (a AND 0xFFFF :: u32) :: u16) OR
     push_bit 16 (ucast ((ucast (drop_bit 16 a AND 0x0F) OR (g AND 0xF0 :: u8)) AND 0x0F)) = a AND 0xFFFFF"
  unfolding low_masks by (rule bit_word_eqI) (auto simp: bit_simps)

lemma seg_flag_fields: "(ucast (drop_bit 16 (a :: u32) AND 0x0F) OR (g AND 0xF0 :: u8)) AND 0xF0 = g AND 0xF0"
  unfolding low_masks by (rule bit_word_eqI) (auto simp: bit_simps)

lemma segment_fields:
  assumes "num < length g"
  shows "seg_base (gdt_set_gate num base limit acc gran g ! num) = base"
    "seg_limit (gdt_set_gate num base limit acc gran g ! num) = limit AND 0xFFFFF"
    "seg_flags (gdt_set_gate num base limit acc gran g ! num) = gran AND 0xF0"
    "access (gdt_set_gate num base limit acc gran g ! num) = acc"
proof -
  let ?e = "gdt_set_gate num base limit acc gran g ! num"
  have f: "base_low ?e = ucast (base AND 0xFFFF)" "base_middle ?e = ucast (drop_bit 16 base AND 0xFF)"
    "base_high ?e = ucast (drop_bit 24 base AND 0xFF)" "limit_low ?e = ucast (limit AND 0xFFFF)"
    "granularity ?e = ucast (drop_bit 16 limit AND 0x0F) OR (gran AND 0xF0)" "access ?e = acc"
    using assms by (simp_all add: gdt_set_gate_def Let_def)
  show "seg_base ?e = base" unfolding seg_base_def f by (rule seg_base_fields)
  show "seg_limit ?e = limit AND 0xFFFFF" unfolding seg_limit_def f by (rule seg_limit_fields)
  show "seg_flags ?e = gran AND 0xF0" unfolding seg_flags_def f by (rule seg_flag_fields)
  show "access ?e = acc" by (rule f)
qed

lemma segment_other: "n \<noteq> num \<Longrightarrow> gdt_set_gate num base limit acc gran g ! n = g ! n" "length (gdt_set_gate num base limit acc gran g) = length g"
  by (simp_all add: gdt_set_gate_def Let_def)

text \<open>After \<open>gdt_init\<close> and \<open>tss_init\<close>: four flat segments of 4 GB, code and data for rings 0 and 3, and the task state segment of \<open>tss.c\<close>.\<close>

lemma flat_segments:
  fixes s :: segments and tss_base gdt_addr old_tss :: u32
  assumes "length (gdt s) = 6"
  defines "g \<equiv> gdt (tss_init tss_base (gdt_init gdt_addr old_tss s))"
  shows "seg_base (g ! 1) = 0 \<and> seg_limit (g ! 1) = 0xFFFFF \<and> access (g ! 1) = 0x9A"
    "seg_base (g ! 2) = 0 \<and> seg_limit (g ! 2) = 0xFFFFF \<and> access (g ! 2) = 0x92"
    "seg_base (g ! 3) = 0 \<and> seg_limit (g ! 3) = 0xFFFFF \<and> access (g ! 3) = 0xFA"
    "seg_base (g ! 4) = 0 \<and> seg_limit (g ! 4) = 0xFFFFF \<and> access (g ! 4) = 0xF2"
    "seg_base (g ! 5) = tss_base \<and> seg_limit (g ! 5) = 104 \<and> access (g ! 5) = 0x89"
  using assms(1) unfolding g_def tss_init_def gdt_init_def gdt_set_tss_def Let_def
  by (simp_all add: segment_fields segment_other)

lemma u8_bound: "unat (n :: u8) < 256"
  using unsigned_less [of n, where 'a = nat] by simp

lemma idt_set_get:
  "length t = 256 \<Longrightarrow> idt_set_gate num h sel fl t ! unat n = (if n = num
     then \<lparr>off_low = ucast (h AND 0xFFFF), selector = sel, gate_zero = 0, gate_flags = fl, off_high = ucast (drop_bit 16 h AND 0xFFFF)\<rparr> else t ! unat n)"
  "length (idt_set_gate num h sel fl t) = length t"
proof -
  have "unat (n :: u8) < 256" by (rule u8_bound)
  then show "length t = 256 \<Longrightarrow> idt_set_gate num h sel fl t ! unat n = (if n = num
     then \<lparr>off_low = ucast (h AND 0xFFFF), selector = sel, gate_zero = 0, gate_flags = fl, off_high = ucast (drop_bit 16 h AND 0xFFFF)\<rparr> else t ! unat n)"
    by (simp add: idt_set_gate_def nth_list_update word_unat_eq_iff)
  show "length (idt_set_gate num h sel fl t) = length t" by (simp add: idt_set_gate_def)
qed

lemma idt_fill:
  assumes "length t = 256"
  shows "m \<le> 256 \<Longrightarrow> fold (\<lambda>n. idt_set_gate (of_nat n) (stubs n) sel fl) [0..<m] t ! unat (v :: u8) = (if unat v < m
     then \<lparr>off_low = ucast (stubs (unat v) AND 0xFFFF), selector = sel, gate_zero = 0, gate_flags = fl,
       off_high = ucast (drop_bit 16 (stubs (unat v)) AND 0xFFFF)\<rparr> else t ! unat v) \<and>
     length (fold (\<lambda>n. idt_set_gate (of_nat n) (stubs n) sel fl) [0..<m] t) = 256"
proof (induction m)
  case (Suc m)
  have e: "v = of_nat m \<longleftrightarrow> unat v = m" using Suc.prems by (auto simp: word_unat_eq_iff unat_of_nat)
  show ?case using Suc by (auto simp: idt_set_get e less_Suc_eq)
qed (simp add: assms)

text \<open>The interrupt table. After \<open>idt_init\<close> and \<open>syscall_init\<close> the processor finds at vector \<open>v\<close> the address of the stub
  of that exception or interrupt, for the first 48, as an interrupt gate of the kernel that only the kernel may call; at 0x80 the
  entry of system calls, which user code may call; and at every other vector no gate.\<close>

lemma interrupt_vectors:
  "let t = syscall_init sc (fst (idt_init stubs)); e = t ! unat (v :: u8) in
     length t = 256 \<and>
     (if unat v < 48 then gate_offset e = stubs (unat v) \<and> selector e = 0x08 \<and> gate_flags e = 0x8E
      else if v = 0x80 then gate_offset e = sc \<and> selector e = 0x08 \<and> gate_flags e = 0xEE
      else e = no_gate)"
proof -
  let ?t = "fst (idt_init stubs)"
  have l: "length (replicate 256 no_gate) = 256" by simp
  have b: "unat v < 256" by (rule u8_bound)
  note f = idt_fill [OF l, of 48 stubs "0x08" "0x8E"]
  have lt: "length ?t = 256" unfolding idt_init_def fst_conv by (rule conjunct2 [OF f]) simp
  have ft: "?t ! unat v = (if unat v < 48
     then \<lparr>off_low = ucast (stubs (unat v) AND 0xFFFF), selector = 0x08, gate_zero = 0, gate_flags = 0x8E,
       off_high = ucast (drop_bit 16 (stubs (unat v)) AND 0xFFFF)\<rparr> else no_gate)"
    unfolding idt_init_def fst_conv using conjunct1 [OF f, of v] b by (simp del: upt_Suc)
  have n: "unat v < 48 \<Longrightarrow> v \<noteq> 0x80" by auto
  show ?thesis
    unfolding Let_def syscall_init_def idt_set_get(2) idt_set_get(1) [OF lt] lt ft gate_offset_def
    using n by (auto simp: gate_fields)
qed

section \<open>The timer interrupt\<close>

lemma outb_chips [simp]:
  "master (pic_outb 0x20 v s) = chip_command v (master s)" "master (pic_outb 0x21 v s) = chip_data v (master s)"
  "master (pic_outb 0xA0 v s) = master s" "master (pic_outb 0xA1 v s) = master s" "master (io_wait s) = master s"
  "slave (pic_outb 0x20 v s) = slave s" "slave (pic_outb 0x21 v s) = slave s"
  "slave (pic_outb 0xA0 v s) = chip_command v (slave s)" "slave (pic_outb 0xA1 v s) = chip_data v (slave s)" "slave (io_wait s) = slave s"
  by (simp_all add: pic_outb_def io_wait_def)

lemma chip_setup:
  "chip_data m (chip_data w4 (chip_data w3 (chip_data v (chip_command (0x10 OR 0x01) c)))) =
     \<lparr>vector_base = v AND 0xF8, pic_mask = m, in_service = {}, icw = 0\<rparr>"
  by (cases c) (simp add: chip_data_def chip_command_def)

lemma pic_init_chips:
  "master (pic_init s) = \<lparr>vector_base = 32, pic_mask = 0xFC, in_service = {}, icw = 0\<rparr>"
  "slave (pic_init s) = \<lparr>vector_base = 40, pic_mask = 0xFF, in_service = {}, icw = 0\<rparr>"
  unfolding pic_init_def Let_def by (simp_all only: outb_chips chip_setup) simp_all

lemma mask_bits: "n < 8 \<Longrightarrow> bit (0xFC :: u8) n \<longleftrightarrow> 2 \<le> n"
proof -
  assume "n < 8"
  then have "n \<in> {0, 1, 2, 3, 4, 5, 6, 7}" by auto
  then show ?thesis by (auto simp: bit_iff_odd)
qed

lemma eoi_master: "master (pic_send_eoi 0 s) = chip_command 0x20 (master s)"
  by (simp add: pic_send_eoi_def pic_outb_def)

lemma irq_frame_number: "length regs = 12 \<Longrightarrow> irq_frame n ret regs cpu 13 = n"
  by (simp add: irq_frame_def nth_append)

text \<open>What can happen after a switch until a task that waits in a timer handler is scheduled again. A task runs: its code, calls into the kernel and
  switches to tasks that do not wait there included, it may change everything but the controllers and the tick counter, which only \<open>pic.c\<close>
  and \<open>timer.c\<close> write. Or a line is delivered and its handler runs, to its end or into a switch.\<close>

definition accepted :: "nat \<Rightarrow> irq_state \<Rightarrow> irq_state" where
  "accepted n s = s\<lparr>io := (io s)\<lparr>master := snd (accept n (master (io s)))\<rparr>\<rparr>"

inductive runs_on :: "irq_state \<Rightarrow> irq_state \<Rightarrow> bool" for s where
  here: "runs_on s s"
| task: "runs_on s s1 \<Longrightarrow> io s2 = io s1 \<Longrightarrow> timer_ticks s2 = timer_ticks s1 \<Longrightarrow> runs_on s s2"
| finished: "runs_on s s1 \<Longrightarrow> delivers n (master (io s1)) \<Longrightarrow> irq_handler_c scancode stack (accepted n s1) = Some (Finished s2) \<Longrightarrow> runs_on s s2"
| switched: "runs_on s s1 \<Longrightarrow> delivers n (master (io s1)) \<Longrightarrow> irq_handler_c scancode stack (accepted n s1) = Some (Switched s2) \<Longrightarrow> runs_on s s2"

lemma runs_on_masked:
  assumes "runs_on s s'" "0 \<in> in_service (master (io s))"
  shows "io s' = io s \<and> timer_ticks s' = timer_ticks s"
  using assms by (induction rule: runs_on.induct) (auto simp: delivers_def)

lemma resume_delivers:
  assumes "master (io s) = \<lparr>vector_base = 32, pic_mask = 0xFC, in_service = {0}, icw = 0\<rparr>"
  shows "delivers n (master (io (irq_resume s))) = (n < 2)"
  using mask_bits [of n] by (auto simp: irq_resume_def irq_return_def timer_return_def eoi_master assms chip_command_def delivers_def)

text \<open>C33: the timer interrupt. After \<open>pic_init\<close> the timer and the keyboard are the only lines that are delivered, the timer at vector 32. When
  the timer interrupt has been accepted and its handler returns to the same task, both lines are delivered again. But the
  handler acknowledges the interrupt only after \<open>scheduler_tick\<close>: when the tick switches to another task, then whatever that task and those it
  switches to do, the controller delivers no line any more, not the timer and not the keyboard, and the tick counter stands still, until a task that
  waits in a timer handler runs again: the rest of its handler acknowledges the interrupt, and both lines are delivered again.\<close>

theorem timer_switch_blocks_interrupts:
  assumes "io s = pic_init p" "irq_handlers s ! 0 = Some Timer_handler" "scheduler_tick (i_sched s) = Some q" "length regs = 12"
  shows "delivers n (master (io s)) = (n < 2) \<and> fst (accept 0 (master (io s))) = 32 \<and>
    (\<exists>s'. if current_task q = current_task (i_sched s)
      then irq_handler_c scancode (irq_frame 32 ret regs cpu) (accepted 0 s) = Some (Finished s') \<and> delivers n (master (io s')) = (n < 2)
      else irq_handler_c scancode (irq_frame 32 ret regs cpu) (accepted 0 s) = Some (Switched s') \<and>
        (\<forall>s''. runs_on s' s'' \<longrightarrow> \<not> delivers n (master (io s'')) \<and> timer_ticks s'' = timer_ticks s + 1 \<and>
           delivers n (master (io (irq_resume s''))) = (n < 2)))"
proof -
  let ?acc = "accepted 0 s"
  have m: "master (io s) = \<lparr>vector_base = 32, pic_mask = 0xFC, in_service = {}, icw = 0\<rparr>" by (simp add: assms(1) pic_init_chips)
  have m0: "master (io ?acc) = \<lparr>vector_base = 32, pic_mask = 0xFC, in_service = {0}, icw = 0\<rparr>"
    "i_sched ?acc = i_sched s" "irq_handlers ?acc = irq_handlers s" "timer_ticks ?acc = timer_ticks s"
    by (simp_all add: accepted_def accept_def m)
  have d: "delivers n (master (io s)) = (n < 2)" using mask_bits [of n] by (auto simp: delivers_def m)
  have a: "fst (accept 0 (master (io s))) = 32" by (simp add: accept_def m)
  have num: "irq_frame 32 ret regs cpu 13 = 32" by (rule irq_frame_number [OF assms(4)])
  let ?s = "?acc\<lparr>timer_ticks := timer_ticks s + 1, i_sched := q\<rparr>"
  have m1: "master (io ?s) = \<lparr>vector_base = 32, pic_mask = 0xFC, in_service = {0}, icw = 0\<rparr>" using m0(1) by simp
  show ?thesis
  proof (cases "current_task q = current_task (i_sched s)")
    case True
    then have "irq_handler_c scancode (irq_frame 32 ret regs cpu) ?acc = Some (Finished (irq_resume ?s))"
      using assms(2,3) by (simp add: irq_handler_c_def num timer_handler_def m0 Let_def irq_resume_def)
    then show ?thesis using d a True resume_delivers [OF m1] by auto
  next
    case False
    then have sw: "irq_handler_c scancode (irq_frame 32 ret regs cpu) ?acc = Some (Switched ?s)"
      using assms(2,3) by (simp add: irq_handler_c_def num timer_handler_def m0 Let_def)
    have "\<not> delivers n (master (io s'')) \<and> timer_ticks s'' = timer_ticks s + 1 \<and> delivers n (master (io (irq_resume s''))) = (n < 2)"
      if r: "runs_on ?s s''" for s''
    proof -
      have "io s'' = io ?s" "timer_ticks s'' = timer_ticks s + 1" using runs_on_masked [OF r] m0(1) by simp_all
      with m1 resume_delivers [of s'' n] show ?thesis by (simp add: delivers_def)
    qed
    with sw d a False show ?thesis by auto
  qed
qed

text \<open>The second task runs in its last tick, and the first is ready.\<close>

definition last_tick :: sched_state where
  "last_tick = two_tasks\<lparr>tasks := (\<lambda>_. zero_task)(
       0x100 := zero_task\<lparr>t_next := 0x200, t_state := TASK_READY, t_time_slice := 5\<rparr>,
       0x200 := zero_task\<lparr>t_next := 0x100, t_state := TASK_RUNNING, t_time_slice := 1\<rparr>), current_task := 0x200\<rparr>"

lemma last_tick_switches: "\<exists>q. scheduler_tick last_tick = Some q \<and> current_task q = 0x100"
proof -
  let ?xs = "[0x100, 0x200] :: u32 list"
  have q: "queue_ok last_tick ?xs" "scheduler_running last_tick" by (auto simp: queue_ok_def last_tick_def two_tasks_def zero_task_def)
  let ?w = "upd_task 0x200 (\<lambda>t. t\<lparr>t_time_slice := t_time_slice t - 1, t_total_time := t_total_time t + 1\<rparr>) (after_wake last_tick ?xs)"
  have f: "current_task last_tick = 0x200" "t_state (tasks last_tick 0x200) = TASK_RUNNING" "t_time_slice (tasks last_tick 0x200) = 1"
    "t_state (tasks last_tick 0x100) = TASK_READY" by (simp_all add: last_tick_def)
  have t: "scheduler_tick last_tick = scheduler_schedule ?w"
    unfolding tick_spec [OF q] Let_def after_wake_ok(3) f using f by (simp add: after_wake_def woken_def)
  have w: "queue_ok ?w ?xs" "scheduler_running ?w" "current_task ?w = 0x200"
    using same_queue_ok [OF q(1) same_queue_trans [OF after_wake_ok(1) same_queue_upd]] q(2) f(1)
    by (simp_all add: after_wake_ok)
  have "next_task (preempted ?w) ?xs = 0x100" using f by (simp add: next_task_def after_wake_def woken_def w(3))
  then show ?thesis using schedule_spec [OF w(1,2)] t by auto
qed

definition reset_ports :: ports where
  "reset_ports = (let c = \<lparr>vector_base = 0, pic_mask = 0, in_service = {}, icw = 0\<rparr> in \<lparr>master = c, slave = c, pit = []\<rparr>)"

definition preempting :: irq_state where
  "preempting = \<lparr>irq_handlers = [Some Timer_handler, Some Keyboard_handler] @ replicate 14 None, io = pic_init reset_ports, timer_ticks = 7,
     i_sched = last_tick, i_keyboard = blank_keyboard\<rparr>"

theorem timer_switch_blocks_interrupts_witness:
  "\<exists>s'. irq_handler_c 0 (irq_frame 32 0 (replicate 12 0) []) (accepted 0 preempting) = Some (Switched s') \<and>
     runs_on s' (s'\<lparr>i_keyboard := blank_keyboard\<rparr>) \<and> \<not> delivers 1 (master (io (s'\<lparr>i_keyboard := blank_keyboard\<rparr>))) \<and>
     timer_ticks (s'\<lparr>i_keyboard := blank_keyboard\<rparr>) = 8 \<and> delivers 1 (master (io (irq_resume (s'\<lparr>i_keyboard := blank_keyboard\<rparr>))))"
proof -
  obtain q where q: "scheduler_tick (i_sched preempting) = Some q" "current_task q \<noteq> current_task (i_sched preempting)"
    using last_tick_switches by (auto simp: preempting_def last_tick_def)
  have p: "io preempting = pic_init reset_ports" "irq_handlers preempting ! 0 = Some Timer_handler" "length (replicate 12 (0 :: u32)) = 12" "timer_ticks preempting = 7"
    by (simp_all add: preempting_def)
  obtain s' where s': "irq_handler_c 0 (irq_frame 32 0 (replicate 12 0) []) (accepted 0 preempting) = Some (Switched s')"
    "\<And>s''. runs_on s' s'' \<Longrightarrow> \<not> delivers 1 (master (io s'')) \<and> timer_ticks s'' = 8 \<and> delivers 1 (master (io (irq_resume s''))) = (1 < (2 :: nat))"
    using timer_switch_blocks_interrupts [OF p(1,2) q(1) p(3), of 1 0 0 "[]"] q(2) unfolding p(4) by auto
  have r: "runs_on s' (s'\<lparr>i_keyboard := blank_keyboard\<rparr>)" by (rule runs_on.task [OF runs_on.here]) simp_all
  show ?thesis by (intro exI [of _ s'] conjI s'(1) r) (use s'(2) [OF r] in simp_all)
qed

section \<open>Exceptions\<close>

lemma isr_frame_words:
  assumes "length regs = 12" "n \<noteq> 14"
  shows "isr_frame n err regs cpu 13 = cpu_error_code n err" "isr_frame 14 err regs cpu 13 = 14" "isr_frame 14 err regs cpu 12 = err"
  using assms by (simp_all add: isr_frame_def exception_number_def nth_append) (simp add: cpu_error_code_def)

text \<open>C32: exceptions are told apart by the wrong word. The stubs push the error code below the number of the exception, except for the page
  fault, and the handler reads them the other way round: a page fault is handled as one, with its error code, but the exceptions of the
  floating point unit never reach their handlers (they stop the machine as a division by zero), and a general protection
  fault whose error code is 16 is taken for one and returned from.\<close>

theorem exceptions_misread:
  assumes "length regs = 12"
  shows "isr_handler (isr_frame 14 err regs cpu) a f v = Paging (page_fault_handler (isr_frame 14 err regs cpu) a v) \<and> isr_frame 14 err regs cpu 12 = err \<and>
    (n = 7 \<or> n = 16 \<or> n = 19 \<longrightarrow> isr_handler (isr_frame n err regs cpu) a f v = Panic 0) \<and>
    isr_handler (isr_frame 13 16 regs cpu) a f v = Fpu_resumed (isr_x87_fpu_fault f)"
proof (intro conjI impI)
  have 14: "isr_frame 14 err regs cpu 13 = 14" "isr_frame 14 err regs cpu 12 = err" using isr_frame_words(2,3) [OF assms, of 0] by simp_all
  show "isr_handler (isr_frame 14 err regs cpu) a f v = Paging (page_fault_handler (isr_frame 14 err regs cpu) a v)"
    by (simp add: isr_handler_def 14)
  show "isr_frame 14 err regs cpu 12 = err" by (rule 14)
  show "isr_handler (isr_frame 13 16 regs cpu) a f v = Fpu_resumed (isr_x87_fpu_fault f)"
    by (simp add: isr_handler_def isr_frame_words(1) [OF assms] cpu_error_code_def)
  show "isr_handler (isr_frame n err regs cpu) a f v = Panic 0" if "n = 7 \<or> n = 16 \<or> n = 19"
    using that isr_frame_words(1) [OF assms, of n err cpu] by (auto simp: isr_handler_def cpu_error_code_def)
qed

definition reset_fpu :: fpu where
  "reset_fpu = \<lparr>fpu_cr0 = 0, fpu_cr4 = 0, x87_control = 0, x87_status = 0, mxcsr = 0\<rparr>"

theorem exceptions_misread_witness:
  "isr_handler (isr_frame 7 0 (replicate 12 0) []) 0 reset_fpu boot_vm = Panic 0 \<and>
     isr_handler (isr_frame 13 16 (replicate 12 0) []) 0 reset_fpu boot_vm = Fpu_resumed (isr_x87_fpu_fault reset_fpu)"
  using exceptions_misread [of "replicate 12 0" 0 "[]" 0 reset_fpu boot_vm 7] by simp

end
