(* ===== verification/Shell.thy ===== *)
theory Shell
  imports Syscall Interrupts Ai
begin

text \<open>
  The shell, \<open>src/shell/shell.c\<close>, with \<open>test_page_fault_recovery\<close> of \<open>pagefault.c\<close>: the line editor that reads the
  keyboard's ring buffer, the dispatcher, and the commands over the file systems, the disk, the heap, the page tables
  and the tasks. A C string is the list of its characters. What the shell prints goes to the terminal of the kernel's
  state; the messages that the functions it calls print for the developer are left out. \<open>None\<close> is a command that never
  returns. The unused history is left out.
\<close>

section \<open>State\<close>

text \<open>
  What the shell is linked with: the disk and buffers of the file systems, what other tasks do while the shell waits,
  the addresses of local arrays and of tasks, and the jump to user mode in assembly.
\<close>

record shell_env =
  sh_fat :: fat_env
  sh_others :: "kernel_state \<Rightarrow> kernel_state option"
  num_buffer :: u32
  cat_buffer :: u32
  args_copy :: u32
  syscall_test_task :: u32
  test_child_entry :: u32
  enter_usermode :: "u32 \<Rightarrow> u32 \<Rightarrow> kernel_state \<Rightarrow> kernel_state option"

text \<open>What the commands work on: the predictor, the descriptor tables and the rest of the kernel.\<close>

record world =
  w_ai :: ai_state
  w_seg :: segments
  w_kernel :: kernel_state

record shell_state =
  command_buffer :: "u8 list"
  command_pos :: nat
  sh_kb :: keyboard
  sh_world :: world

abbreviation SHELL_BUFFER_SIZE :: nat where
  "SHELL_BUFFER_SIZE \<equiv> 256"

definition shell_optab :: "shell_env \<Rightarrow> optab" where
  "shell_optab E = kernel_optab (sh_fat E)"

section \<open>Console\<close>

text \<open>Calls on the console: a foreground colour on black, a string, a decimal or hexadecimal number, a character.\<close>

datatype console_op = Color u8 | Say cstring | Dec u32 | Hex u32 | Put u8

definition set_term :: "kernel_state \<Rightarrow> terminal \<Rightarrow> kernel_state" where
  "set_term k t = k\<lparr>k_term := t\<rparr>"

fun console_do :: "shell_env \<Rightarrow> console_op \<Rightarrow> kernel_state \<Rightarrow> kernel_state option" where
  "console_do E (Color fg) k = Some (set_term k (terminal_setcolor (vga_entry_color fg 0) (k_term k)))"
| "console_do E (Say cs) k = map_option (set_term k) (write_chars cs (k_term k))"
| "console_do E (Dec n) k = map_option (set_term k) (terminal_write_dec n (num_buffer E) (fmem (k_fs k)) (k_term k))"
| "console_do E (Hex n) k = map_option (set_term k) (terminal_write_hex n (num_buffer E) (fmem (k_fs k)) (k_term k))"
| "console_do E (Put c) k = map_option (set_term k) (terminal_putchar c (k_term k))"

fun console :: "shell_env \<Rightarrow> console_op list \<Rightarrow> kernel_state \<Rightarrow> kernel_state option" where
  "console E [] k = Some k"
| "console E (c # cs) k = do { k \<leftarrow> console_do E c k; console E cs k }"

text \<open>The calls that the predictor makes.\<close>

fun ai_op :: "console_call \<Rightarrow> console_op" where
  "ai_op (Terminal_setcolor fg bg) = Color fg"
| "ai_op (Terminal_writestring cs) = Say cs"

text \<open>Characters of the frames, in UTF-8.\<close>

definition box_top :: cstring where
  "box_top = [0xE2, 0x95, 0x94] @ concat (replicate 58 [0xE2, 0x95, 0x90]) @ [0xE2, 0x95, 0x97]"

definition box_bottom :: cstring where
  "box_bottom = [0xE2, 0x95, 0x9A] @ concat (replicate 58 [0xE2, 0x95, 0x90]) @ [0xE2, 0x95, 0x9D]"

definition box_side :: cstring where
  "box_side = [0xE2, 0x95, 0x91]"

definition check_mark :: cstring where
  "check_mark = [0xE2, 0x9C, 0x93]"

definition cross_mark :: cstring where
  "cross_mark = [0xE2, 0x9C, 0x97]"

text \<open>The heading that most commands begin with: \<open>title\<close> is the text between the sides.\<close>

definition banner :: "u8 \<Rightarrow> string \<Rightarrow> console_op list" where
  "banner fg title =
     [Color fg, Say (lit ''\<newline>'' @ box_top @ lit ''\<newline>''),
      Say (box_side @ lit title @ box_side @ [10]),
      Say (box_bottom @ lit ''\<newline>\<newline>'')]"

definition shell_display_prompt :: "console_op list" where
  "shell_display_prompt = [Color 11, Say (lit ''complex> ''), Color 15]"

section \<open>Commands that only print\<close>

definition cmd_help :: "console_op list" where
  "cmd_help = banner 10 ''           OSComplex - Available Commands                '' @
     [Color 15,
      Say (lit ''System Commands:\<newline>''),
      Say (lit ''  help             - Show this help message\<newline>''),
      Say (lit ''  clear            - Clear the screen\<newline>''),
      Say (lit ''  about            - About OSComplex\<newline>''),
      Say (lit ''  halt             - Shutdown the system\<newline>''),
      Say (lit ''\<newline>Memory & System:\<newline>''),
      Say (lit ''  meminfo          - Show physical memory usage\<newline>''),
      Say (lit ''  sysinfo          - Show system information\<newline>''),
      Say (lit ''  testpf           - Test page fault handling\<newline>''),
      Say (lit ''  heaptest         - Test heap allocator\<newline>''),
      Say (lit ''\<newline>Task & Scheduler:\<newline>''),
      Say (lit ''  ps               - List all running tasks\<newline>''),
      Say (lit ''  sched            - Show scheduler statistics\<newline>''),
      Say (lit ''  spawn            - Spawn test tasks\<newline>''),
      Say (lit ''\<newline>File System:\<newline>''),
      Say (lit ''  ls [path]        - List directory contents\<newline>''),
      Say (lit ''  pwd              - Print current directory\<newline>''),
      Say (lit ''  cd [path]        - Change directory\<newline>''),
      Say (lit ''  mkdir <name>     - Create a directory\<newline>''),
      Say (lit ''  rmdir <name>     - Remove a directory\<newline>''),
      Say (lit ''  touch <file>     - Create an empty file\<newline>''),
      Say (lit ''  cat <file>       - Display file contents\<newline>''),
      Say (lit ''  rm <file>        - Delete a file\<newline>''),
      Say (lit ''\<newline>Disk Commands:\<newline>''),
      Say (lit ''  diskinfo         - Show disk information\<newline>''),
      Say (lit ''  readsector <n>   - Read sector at LBA n\<newline>''),
      Say (lit ''  writesector <n> <text>\<newline>''),
      Say (lit ''                   - Write text to sector n\<newline>''),
      Say (lit ''\<newline>User Mode:\<newline>''),
      Say (lit ''  usertest         - Test user-mode execution\<newline>''),
      Say (lit ''  exec <program>   - Execute a user program\<newline>''),
      Say (lit ''  forktest      - Test fork/wait functionality\<newline>''),
      Say (lit ''  waitdemo      - Show child process states\<newline>''),
      Say (lit ''  syscalltest   - Test system call infrastructure\<newline>''),
      Say (lit ''\<newline>Utilities:\<newline>''),
      Say (lit ''  echo <text>      - Print text to screen\<newline>''),
      Say (lit ''  echo <text> > <file>\<newline>''),
      Say (lit ''                   - Write text to a file\<newline>''),
      Say (lit ''  ai               - Show AI learning statistics\<newline>'')]"

definition cmd_about :: "console_op list" where
  "cmd_about =
     [Say (lit ''\<newline>''), Color 13,
      Say (box_top @ lit ''\<newline>''),
      Say (box_side @ lit ''              OSComplex v0.1-alpha                        '' @ box_side @ lit ''\<newline>''),
      Say (box_side @ lit ''           An AI-Native Operating System                 '' @ box_side @ lit ''\<newline>''),
      Say (box_bottom @ lit ''\<newline>\<newline>''),
      Color 15,
      Say ([0xF0, 0x9F, 0xA4, 0x96] @ lit '' First OS with AI embedded at the kernel level\<newline>''),
      Say ([0xF0, 0x9F, 0xA7, 0xA0] @ lit '' Learns from your usage patterns\<newline>''),
      Say ([0xE2, 0x9A, 0xA1] @ lit '' Built from scratch in C and Assembly\<newline>''),
      Say ([0xF0, 0x9F, 0x8E, 0xAF] @ lit '' Designed for the future of computing\<newline>''),
      Say ([0xF0, 0x9F, 0x94, 0x84] @ lit '' Now with multitasking support!\<newline>\<newline>''),
      Color 10,
      Say (lit ''Status: Experimental | Learning: Active\<newline>''),
      Say (lit ''Architecture: i686 (32-bit)\<newline>\<newline>'')]"

definition cmd_echo :: "cstring \<Rightarrow> console_op list" where
  "cmd_echo args = [Say args, Say (lit ''\<newline>'')]"

definition cmd_meminfo :: "kernel_state \<Rightarrow> console_op list" where
  "cmd_meminfo k =
     (let p = vpmm (k_vm k) in
      banner 10 ''               Physical Memory Information               '' @
      [Color 15, Say (lit ''  Total blocks : ''), Dec (pmm_get_total_blocks p), Say (lit ''\<newline>  Used blocks  : ''), Dec (pmm_get_used_blocks p),
       Say (lit ''\<newline>  Free blocks  : ''), Dec (pmm_get_free_blocks p), Say (lit ''\<newline>\<newline>  Block size   : ''), Dec PAGE_SIZE, Say (lit '' bytes\<newline>\<newline>'')])"

definition cmd_sysinfo :: "kernel_state \<Rightarrow> console_op list" where
  "cmd_sysinfo k =
     (let total = pmm_get_total_blocks (vpmm (k_vm k)); used = pmm_get_used_blocks (vpmm (k_vm k));
          free = pmm_get_free_blocks (vpmm (k_vm k))
      in banner 11 ''              System Information                         '' @
      [Color 15, Say (lit ''Physical Memory:\<newline>''),
       Say (lit ''  Total    : ''), Dec (total * 4), Say (lit '' KB (''), Dec total, Say (lit '' blocks)\<newline>  Used     : ''),
       Dec (used * 4), Say (lit '' KB (''), Dec used, Say (lit '' blocks)\<newline>  Free     : ''),
       Dec (free * 4), Say (lit '' KB (''), Dec free, Say (lit '' blocks)\<newline>''),
       Say (lit ''\<newline>Memory Layout:\<newline>''),
       Say (lit ''  Kernel   : 0x00100000 - 0x08000000 (127 MB)\<newline>''),
       Say (lit ''  Heap     : 0xC0400000 - 0xC0800000 (4 MB)\<newline>''),
       Say (lit ''\<newline>Subsystems Status:\<newline>''), Color 10,
       Say (lit ''  ['' @ check_mark @ lit ''] PMM        - Physical Memory Manager\<newline>''),
       Say (lit ''  ['' @ check_mark @ lit ''] VMM        - Virtual Memory Manager\<newline>''),
       Say (lit ''  ['' @ check_mark @ lit ''] Heap       - Kernel Heap Allocator\<newline>''),
       Say (lit ''  ['' @ check_mark @ lit ''] IDT        - Interrupt Descriptor Table\<newline>''),
       Say (lit ''  ['' @ check_mark @ lit ''] PIC        - Programmable Interrupt Controller\<newline>''),
       Say (lit ''  ['' @ check_mark @ lit ''] Timer      - Programmable Interval Timer\<newline>''),
       Say (lit ''  ['' @ check_mark @ lit ''] Task       - Process Management\<newline>''),
       Say (lit ''  ['' @ check_mark @ lit ''] Scheduler  - Round-Robin Scheduler\<newline>''),
       Say (lit ''  ['' @ check_mark @ lit ''] Syscall    - System Call Interface\<newline>''),
       Say (lit ''  ['' @ check_mark @ lit ''] AI         - Learning System\<newline>''),
       Color 15, Say (lit ''\<newline>'')])"

definition syscalltest_text :: "u32 \<Rightarrow> console_op list" where
  "syscalltest_text pid = banner 11 ''           System Call Test                               '' @
     [Color 15,
      Say (lit ''Available system calls:\<newline>''),
      Say (lit ''  0 - SYS_EXIT    Exit current process\<newline>''),
      Say (lit ''  1 - SYS_WRITE   Write string to terminal\<newline>''),
      Say (lit ''  2 - SYS_READ    Read from keyboard (TODO)\<newline>''),
      Say (lit ''  3 - SYS_YIELD   Yield CPU to other tasks\<newline>''),
      Say (lit ''  4 - SYS_GETPID  Get current process ID\<newline>''),
      Say (lit ''  5 - SYS_SLEEP   Sleep for N milliseconds\<newline>''),
      Say (lit ''  6 - SYS_FORK    Create child process\<newline>''),
      Say (lit ''  7 - SYS_EXEC    Execute new program\<newline>''),
      Say (lit ''  8 - SYS_WAIT    Wait for child to exit\<newline>\<newline>''),
      Say (lit ''Testing SYS_GETPID...\<newline>''),
      Say (lit ''Current PID: ''), Dec pid, Say (lit ''\<newline>\<newline>''),
      Say (lit ''To test fork/wait/exec properly, you need:\<newline>''),
      Say (lit ''1. A user-mode program that makes INT 0x80 calls\<newline>''),
      Say (lit ''2. Compile it as an ELF binary\<newline>''),
      Say (lit ''3. Load it with '' @ [39] @ lit ''exec <program>'' @ [39] @ lit ''\<newline>\<newline>'')]"

definition cmd_syscalltest :: "kernel_state \<Rightarrow> console_op list" where
  "cmd_syscalltest k = syscalltest_text (sys_getpid k)"

section \<open>Memory and tasks\<close>

text \<open>A write to an address that may fault: the handler of page faults runs, and the write is tried again.\<close>

definition faulting_store :: "u32 \<Rightarrow> u32 \<Rightarrow> vmm_state \<Rightarrow> vmm_state option" where
  "faulting_store virt v s =
     (case store32 virt v s of Some s \<Rightarrow> Some s
      | None \<Rightarrow> (case page_fault_handler (\<lambda>_. 2) virt s of Resumed s \<Rightarrow> store32 virt v s | _ \<Rightarrow> None))"

definition load32 :: "u32 \<Rightarrow> vmm_state \<Rightarrow> u32 option" where
  "load32 virt s = map_option (pmem s) (mmu s virt)"

definition test_page_fault_recovery :: "shell_env \<Rightarrow> kernel_state \<Rightarrow> kernel_state option" where
  "test_page_fault_recovery E k = do {
     k \<leftarrow> console E (banner 11 ''            Page Fault Recovery Test                     '' @
       [Color 15, Say (lit ''[TEST 1] Accessing unmapped page at 0xC0500000...\<newline>''), Say (lit ''         About to trigger page fault...\<newline>''),
        Say (lit ''         Writing 0xDEADBEEF...\<newline>'')]) k;
     v \<leftarrow> faulting_store 0xC0500000 0xDEADBEEF (k_vm k);
     k \<leftarrow> console E [Say (lit ''         '' @ check_mark @ lit '' Write succeeded!\<newline>''), Say (lit ''         Reading back value...\<newline>'')] (k\<lparr>k_vm := v\<rparr>);
     x \<leftarrow> load32 0xC0500000 (k_vm k);
     k \<leftarrow> console E [Say (lit ''         Value = 0x''), Hex x, Say (lit ''\<newline>'')] k;
     k \<leftarrow> console E (if x = 0xDEADBEEF
       then [Color 10, Say (lit ''         '' @ check_mark @ lit '' SUCCESS - Page fault recovery works!\<newline>'')]
       else [Color 12, Say (lit ''         '' @ cross_mark @ lit '' FAILED - Wrong value\<newline>'')]) k;
     console E [Color 15, Say (lit ''\<newline>'')] k }"

definition cmd_testpf :: "shell_env \<Rightarrow> kernel_state \<Rightarrow> kernel_state option" where
  "cmd_testpf E k = test_page_fault_recovery E k"

definition k_mem :: "(mem \<Rightarrow> mem) \<Rightarrow> kernel_state \<Rightarrow> kernel_state" where
  "k_mem f k = k\<lparr>k_fs := (k_fs k)\<lparr>fmem := f (fmem (k_fs k))\<rparr>\<rparr>"

text \<open>The second part of the test of the heap, once the three blocks are there.\<close>

definition heaptest_rest :: "shell_env \<Rightarrow> u32 \<Rightarrow> u32 \<Rightarrow> u32 \<Rightarrow> kernel_state \<Rightarrow> kernel_state option" where
  "heaptest_rest E ptr1 ptr2 ptr3 k = do {
     k \<leftarrow> console E [Say (lit ''\<newline>[TEST 2] Writing to allocated memory...\<newline>'')] k;
     let k = k_mem (st32 ptr1 0x12345678) k;
     let v = ld32 (fmem (k_fs k)) ptr1;
     k \<leftarrow> console E (if v = 0x12345678
       then [Color 10, Say (lit ''         '' @ check_mark @ lit '' Memory write/read successful\<newline>''), Color 15, Say (lit ''         Value = 0x''), Hex v, Say (lit ''\<newline>'')] else []) k;
     k \<leftarrow> console E [Say (lit ''\<newline>[TEST 3] Freeing memory...\<newline>'')] k;
     k \<leftarrow> k_kfree ptr1 k;
     k \<leftarrow> k_kfree ptr2 k;
     k \<leftarrow> k_kfree ptr3 k;
     k \<leftarrow> console E [Color 10, Say (lit ''         '' @ check_mark @ lit '' Memory freed successfully\<newline>''), Color 15, Say (lit ''\<newline>[TEST 4] Large allocation (8KB)...\<newline>'')] k;
     (large, k) \<leftarrow> k_kmalloc 8192 k;
     k \<leftarrow> (if large \<noteq> NULL
       then do {
         k \<leftarrow> console E [Color 10, Say (lit ''         '' @ check_mark @ lit '' Large allocation successful\<newline>''), Color 15, Say (lit ''         ptr = 0x''), Hex large, Say (lit ''\<newline>'')] k;
         k \<leftarrow> k_kfree large k;
         console E [Color 10, Say (lit ''         '' @ check_mark @ lit '' Large memory freed\<newline>'')] k }
       else Some k);
     console E [Color 15, Say (lit ''\<newline>'')] k }"

definition cmd_heaptest :: "shell_env \<Rightarrow> kernel_state \<Rightarrow> kernel_state option" where
  "cmd_heaptest E k = do {
     k \<leftarrow> console E (banner 11 ''              Heap Allocator Test                        '' @
       [Color 15, Say (lit ''[TEST 1] Small allocations (64 bytes each)...\<newline>'')]) k;
     (ptr1, k) \<leftarrow> k_kmalloc 64 k;
     (ptr2, k) \<leftarrow> k_kmalloc 64 k;
     (ptr3, k) \<leftarrow> k_kmalloc 64 k;
     if ptr1 \<noteq> NULL \<and> ptr2 \<noteq> NULL \<and> ptr3 \<noteq> NULL
     then do {
       k \<leftarrow> console E [Color 10, Say (lit ''         '' @ check_mark @ lit '' All allocations successful\<newline>''), Color 15, Say (lit ''         ptr1 = 0x''), Hex ptr1,
         Say (lit ''\<newline>         ptr2 = 0x''), Hex ptr2, Say (lit ''\<newline>         ptr3 = 0x''), Hex ptr3, Say (lit ''\<newline>'')] k;
       heaptest_rest E ptr1 ptr2 ptr3 k }
     else console E [Color 12, Say (lit ''         '' @ cross_mark @ lit '' Allocation failed\<newline>''), Color 15] k }"

fun ps_state :: "task_state \<Rightarrow> cstring" where
  "ps_state TASK_READY = (lit ''READY  '')"
| "ps_state TASK_RUNNING = (lit ''RUN    '')"
| "ps_state TASK_BLOCKED = (lit ''BLOCK  '')"
| "ps_state TASK_SLEEPING = (lit ''SLEEP  '')"
| "ps_state TASK_ZOMBIE = (lit ''ZOMBIE '')"

definition c_name :: "task \<Rightarrow> cstring" where
  "c_name t = takeWhile (\<lambda>c. c \<noteq> 0) (t_name t)"

partial_function (option) ps_loop :: "shell_env \<Rightarrow> u32 \<Rightarrow> u32 \<Rightarrow> kernel_state \<Rightarrow> kernel_state option" where
  "ps_loop E start task k = do {
     let t = k_task k task;
     k \<leftarrow> console E [Dec (t_pid t), Say (if t_pid t < 10 then (lit ''    '') else if t_pid t < 100 then (lit ''   '') else (lit ''  '')),
       Say (ps_state (t_state t)), Say (lit '' ''), Say (c_name t), Say (lit ''\<newline>'')] k;
     if t_next t \<noteq> NULL \<and> t_next t \<noteq> start then ps_loop E start (t_next t) k else Some k }"

definition cmd_ps :: "shell_env \<Rightarrow> kernel_state \<Rightarrow> kernel_state option" where
  "cmd_ps E k = do {
     k \<leftarrow> console E (banner 11 ''                    Task List                             '' @
       [Color 15, Say (lit ''PID  STATE    NAME\<newline>''), Say (lit ''---  -------  --------------------\<newline>'')]) k;
     let task = kernel_task (k_sched k);
     if task = NULL then console E [Say (lit ''(no tasks)\<newline>\<newline>'')] k
     else do { k \<leftarrow> ps_loop E task task k; console E [Say (lit ''\<newline>'')] k } }"

definition cmd_sched :: "shell_env \<Rightarrow> kernel_state \<Rightarrow> kernel_state option" where
  "cmd_sched E k = do {
     (st, s) \<leftarrow> scheduler_get_stats (k_sched k);
     console E (banner 11 ''               Scheduler Statistics                       '' @
       [Color 15, Say (lit ''Total tasks       : ''), Dec (total_tasks st), Say (lit ''\<newline>''), Say (lit ''Ready tasks       : ''), Dec (ready_tasks st), Say (lit ''\<newline>''),
        Say (lit ''Blocked tasks     : ''), Dec (blocked_tasks st), Say (lit ''\<newline>''), Say (lit ''Context switches  : ''), Dec (context_switches st), Say (lit ''\<newline>''),
        Say (lit ''Total ticks       : ''), Dec (total_ticks st), Say (lit ''\<newline>\<newline>'')]) (k\<lparr>k_sched := s\<rparr>) }"

definition cmd_spawn :: "shell_env \<Rightarrow> kernel_state \<Rightarrow> kernel_state option" where
  "cmd_spawn E k = do {
     k \<leftarrow> console E [Color 11, Say (lit ''\<newline>[SPAWN] Creating test tasks...\<newline>''), Color 15] k;
     (t1, k) \<leftarrow> task_create (lit ''syscall_test'') (syscall_test_task E) 10 k;
     k \<leftarrow> (if t1 \<noteq> NULL then on_sched (scheduler_add_task t1) k else Some k);
     console E [Color 10, Say (lit ''[SPAWN] Syscall test task created!\<newline>''), Color 15, Say (lit ''\<newline>'')] k }"

text \<open>\<open>cli; hlt\<close> at the end never returns.\<close>

definition cmd_halt :: "shell_env \<Rightarrow> kernel_state \<Rightarrow> kernel_state option" where
  "cmd_halt E k = do {
     k \<leftarrow> console E (banner 12 ''                System Shutdown Initiated                '' @
       [Color 15, Say (lit ''Goodbye! System halted.\<newline>(Close QEMU window or press Ctrl+C)\<newline>\<newline>'')]) k;
     None }"

section \<open>Files\<close>

text \<open>Messages in the colour of errors and of success.\<close>

definition complain :: "console_op list \<Rightarrow> console_op list" where
  "complain ms = [Color 12] @ ms @ [Color 15]"

definition confirm :: "console_op list \<Rightarrow> console_op list" where
  "confirm ms = [Color 10] @ ms @ [Color 15]"

partial_function (option) ls_loop :: "shell_env \<Rightarrow> (u32 \<Rightarrow> u32 \<Rightarrow> fs_state \<Rightarrow> (dirent option \<times> fs_state) option) \<Rightarrow> u32 \<Rightarrow> u32 \<Rightarrow>
    bool \<Rightarrow> kernel_state \<Rightarrow> (bool \<times> kernel_state) option" where
  "ls_loop E rd dir i is_empty k = do {
     (ent, k) \<leftarrow> on_fs (rd dir i) k;
     case ent of None \<Rightarrow> Some (is_empty, k)
     | Some ent \<Rightarrow> do {
         k \<leftarrow> console E ([Color (if d_type ent = VFS_DIRECTORY then 9 else 15), Say (d_name ent)] @
           (if d_type ent = VFS_DIRECTORY then [Say (lit ''/'')] else []) @ [Say (lit ''  '')]) k;
         ls_loop E rd dir (i + 1) False k } }"

definition cmd_ls :: "shell_env \<Rightarrow> cstring \<Rightarrow> kernel_state \<Rightarrow> kernel_state option" where
  "cmd_ls E pathname k = do {
     (dir, k) \<leftarrow> (if pathname = [] then Some (vfs_cwd (k_fs k), k) else on_fs (vfs_resolve_path (shell_optab E) pathname) k);
     let pathname = (if pathname = [] then (lit ''.'') else pathname);
     let ops = node_ops (shell_optab E) dir (k_fs k);
     if dir = NULL then console E (complain [Say (lit ''ls: ''), Say pathname, Say (lit '': No such file or directory\<newline>'')]) k
     else if n_type (nodes (k_fs k) dir) \<noteq> VFS_DIRECTORY then console E (complain [Say (lit ''ls: ''), Say pathname, Say (lit '': Not a directory\<newline>'')]) k
     else
       (case op_readdir ops of
          None \<Rightarrow> console E (complain [Say (lit ''ls: filesystem does not support listing\<newline>'')]) k
        | Some rd \<Rightarrow> do {
            k \<leftarrow> console E [Say (lit ''\<newline>'')] k;
            (is_empty, k) \<leftarrow> ls_loop E rd dir 0 True k;
            console E ((if is_empty then [Color 8, Say (lit ''(empty)'')] else []) @ [Color 15, Say (lit ''\<newline>\<newline>'')]) k }) }"

text \<open>The string in the buffer, printed after each block that is read.\<close>

definition print_buffer :: "shell_env \<Rightarrow> u32 \<Rightarrow> kernel_state \<Rightarrow> kernel_state option" where
  "print_buffer E p k = map_option (set_term k) (terminal_writestring (fmem (k_fs k)) p (k_term k))"

partial_function (option) cat_loop :: "shell_env \<Rightarrow> int \<Rightarrow> kernel_state \<Rightarrow> kernel_state option" where
  "cat_loop E fd k = do {
     (bytes_read, k) \<leftarrow> on_fs (vfs_read (shell_optab E) fd (cat_buffer E) 255) k;
     if bytes_read > 0
     then do {
       k \<leftarrow> print_buffer E (cat_buffer E) (k_mem (\<lambda>m. m(cat_buffer E + word_of_int bytes_read := 0)) k);
       cat_loop E fd k }
     else Some k }"

definition cmd_cat :: "shell_env \<Rightarrow> cstring \<Rightarrow> kernel_state \<Rightarrow> kernel_state option" where
  "cmd_cat E pathname k =
     (if pathname = [] then console E [Say (lit ''cat: missing file operand\<newline>'')] k
      else do {
        (fd, k) \<leftarrow> on_fs (vfs_open (shell_optab E) pathname O_RDONLY) k;
        if fd < 0 then console E (complain [Say (lit ''cat: ''), Say pathname, Say (lit '': No such file or directory\<newline>'')]) k
        else do {
          k \<leftarrow> console E [Say (lit ''\<newline>'')] k;
          k \<leftarrow> cat_loop E fd k;
          k \<leftarrow> console E [Say (lit ''\<newline>'')] k;
          (r, k) \<leftarrow> on_fs (vfs_close (shell_optab E) fd) k;
          Some k } })"

text \<open>\<open>text\<close> is the address of the string.\<close>

definition cmd_echo_to_file :: "shell_env \<Rightarrow> u32 \<Rightarrow> cstring \<Rightarrow> kernel_state \<Rightarrow> kernel_state option" where
  "cmd_echo_to_file E txt filename k =
     (if filename = [] then console E [Say (lit ''echo: missing filename\<newline>'')] k
      else do {
        (fd, k) \<leftarrow> on_fs (vfs_open (shell_optab E) filename (O_WRONLY OR O_CREAT OR O_TRUNC)) k;
        if fd < 0 then console E (complain [Say (lit ''echo: cannot create ''), Say filename, Say (lit ''\<newline>'')]) k
        else do {
          k \<leftarrow> (if txt \<noteq> NULL \<and> fmem (k_fs k) txt \<noteq> 0
            then do {
              n \<leftarrow> strlen (fmem (k_fs k)) txt;
              (r, k) \<leftarrow> on_fs (vfs_write (shell_optab E) fd txt n) k;
              Some k }
            else Some k);
          (r, k) \<leftarrow> on_fs (vfs_close (shell_optab E) fd) k;
          console E (confirm [Say (check_mark @ lit '' Wrote to ''), Say filename, Say (lit ''\<newline>'')]) k } })"

definition cmd_rm :: "shell_env \<Rightarrow> cstring \<Rightarrow> kernel_state \<Rightarrow> kernel_state option" where
  "cmd_rm E pathname k =
     (if pathname = [] then console E [Say (lit ''rm: missing file operand\<newline>'')] k
      else do {
        (r, k) \<leftarrow> on_fs (vfs_unlink (shell_optab E) pathname) k;
        console E (if r < 0 then complain [Say (lit ''rm: cannot remove '' @ [39]), Say pathname, Say ([39] @ lit ''\<newline>'')]
          else confirm [Say (check_mark @ lit '' Removed ''), Say pathname, Say (lit ''\<newline>'')]) k })"

text \<open>\<open>S_IRWXU | S_IRGRP | S_IXGRP | S_IROTH | S_IXOTH\<close>.\<close>

definition cmd_mkdir :: "shell_env \<Rightarrow> cstring \<Rightarrow> kernel_state \<Rightarrow> kernel_state option" where
  "cmd_mkdir E pathname k =
     (if pathname = [] then console E [Say (lit ''mkdir: missing operand\<newline>'')] k
      else do {
        (r, k) \<leftarrow> on_fs (vfs_mkdir (shell_optab E) pathname 0x1ED) k;
        console E (if r < 0 then complain [Say (lit ''mkdir: cannot create directory '' @ [39]), Say pathname, Say ([39] @ lit ''\<newline>'')]
          else confirm [Say (check_mark @ lit '' Created ''), Say pathname, Say (lit ''\<newline>'')]) k })"

definition cmd_rmdir :: "shell_env \<Rightarrow> cstring \<Rightarrow> kernel_state \<Rightarrow> kernel_state option" where
  "cmd_rmdir E pathname k =
     (if pathname = [] then console E [Say (lit ''rmdir: missing operand\<newline>'')] k
      else do {
        (r, k) \<leftarrow> on_fs (vfs_rmdir (shell_optab E) pathname) k;
        console E (if r < 0 then complain [Say (lit ''rmdir: failed to remove '' @ [39]), Say pathname, Say ([39] @ lit '': Directory not empty or does not exist\<newline>'')]
          else confirm [Say (check_mark @ lit '' Removed directory ''), Say pathname, Say (lit ''\<newline>'')]) k })"

definition cmd_pwd :: "kernel_state \<Rightarrow> console_op list" where
  "cmd_pwd k =
     (let cwd = vfs_getcwd (k_fs k) in if cwd = [] then [Say (lit ''/\<newline>'')] else [Say (lit ''/''), Say cwd, Say (lit ''\<newline>'')])"

definition cmd_cd :: "shell_env \<Rightarrow> cstring \<Rightarrow> kernel_state \<Rightarrow> kernel_state option" where
  "cmd_cd E pathname k = do {
     let pathname = (if pathname = [] then (lit ''/'') else pathname);
     (r, k) \<leftarrow> on_fs (vfs_chdir (shell_optab E) pathname) k;
     if r < 0 then console E (complain [Say (lit ''cd: ''), Say pathname, Say (lit '': No such directory\<newline>'')]) k else Some k }"

definition cmd_touch :: "shell_env \<Rightarrow> cstring \<Rightarrow> kernel_state \<Rightarrow> kernel_state option" where
  "cmd_touch E pathname k =
     (if pathname = [] then console E [Say (lit ''touch: missing file operand\<newline>'')] k
      else do {
        (fd, k) \<leftarrow> on_fs (vfs_open (shell_optab E) pathname (O_WRONLY OR O_CREAT)) k;
        if fd < 0 then console E (complain [Say (lit ''touch: cannot create '' @ [39]), Say pathname, Say ([39] @ lit ''\<newline>'')]) k
        else do {
          (r, k) \<leftarrow> on_fs (vfs_close (shell_optab E) fd) k;
          console E (confirm [Say (check_mark @ lit '' Created ''), Say pathname, Say (lit ''\<newline>'')]) k } })"

section \<open>Disk\<close>

definition drive_names :: "cstring list" where
  "drive_names = [(lit ''Primary Master''), (lit ''Primary Slave''), (lit ''Secondary Master''), (lit ''Secondary Slave'')]"

definition c_text :: "u8 list \<Rightarrow> cstring" where
  "c_text cs = takeWhile (\<lambda>c. c \<noteq> 0) cs"

definition show_drive :: "ata_state \<Rightarrow> nat \<Rightarrow> console_op list" where
  "show_drive a i = [Say (drive_names ! i), Say (lit '': '')] @
     (case ata_get_drive_info (of_nat i) a of
        Some info \<Rightarrow>
          if drv_present info then
            (if is_atapi info then [Color 14, Say (lit ''ATAPI device (not supported)\<newline>''), Color 15]
             else [Color 10, Say (lit ''PRESENT\<newline>''), Color 15,
               Say (lit ''  Model    : ''), Say (c_text (drv_model info)), Say (lit ''\<newline>''),
               Say (lit ''  Serial   : ''), Say (c_text (drv_serial info)), Say (lit ''\<newline>''),
               Say (lit ''  Firmware : ''), Say (c_text (drv_firmware info)), Say (lit ''\<newline>''),
               Say (lit ''  Sectors  : ''), Dec (drv_sectors info), Say (lit '' (''), Dec (drv_sectors info div 2048), Say (lit '' MB)\<newline>'')])
          else [Color 8, Say (lit ''Not present\<newline>''), Color 15]
      | None \<Rightarrow> [Color 8, Say (lit ''Not present\<newline>''), Color 15]) @ [Say (lit ''\<newline>'')]"

definition cmd_diskinfo :: "kernel_state \<Rightarrow> console_op list" where
  "cmd_diskinfo k = banner 11 ''                  ATA Drive Information                  '' @ [Color 15] @
     concat (map (show_drive (disk (k_fs k))) [0..<4])"

text \<open>The number that the loop over the leading digits computes; it wraps at 32 bits.\<close>

definition is_digit :: "u8 \<Rightarrow> bool" where
  "is_digit c \<longleftrightarrow> 48 \<le> c \<and> c \<le> 57"

definition parse_lba :: "cstring \<Rightarrow> u32" where
  "parse_lba cs = fold (\<lambda>c lba. lba * 10 + (ucast c - 48)) (takeWhile is_digit cs) 0"

definition is_white :: "u8 \<Rightarrow> bool" where
  "is_white c \<longleftrightarrow> c = 32 \<or> c = 9"

definition hex_chars :: cstring where
  "hex_chars = (lit ''0123456789ABCDEF'')"

definition dump_line :: "mem \<Rightarrow> u32 \<Rightarrow> nat \<Rightarrow> console_op list" where
  "dump_line m buffer i =
     (let bytes = bytes_at m (buffer + of_nat i) 16 in
      [Hex (of_nat i), Say (lit '': '')] @
      concat (map (\<lambda>b. [Say [hex_chars ! unat (drop_bit 4 b), hex_chars ! unat (b AND 0x0F)], Say (lit '' '')]) bytes) @
      [Say (lit '' '')] @ map (\<lambda>b. Put (if 32 \<le> b \<and> b \<le> 126 then b else 46)) bytes @ [Say (lit ''\<newline>'')])"

definition cmd_readsector :: "shell_env \<Rightarrow> cstring \<Rightarrow> kernel_state \<Rightarrow> kernel_state option" where
  "cmd_readsector E args k =
     (if args = [] then console E [Say (lit ''Usage: readsector <lba>\<newline>'')] k
      else do {
        let lba = parse_lba args;
        (buffer, k) \<leftarrow> k_kmalloc 512 k;
        if buffer = NULL then console E [Say (lit ''Error: Out of memory\<newline>'')] k
        else do {
          k \<leftarrow> console E [Say (lit ''Reading sector ''), Dec lba, Say (lit '' from Primary Master...\<newline>'')] k;
          (r, k) \<leftarrow> on_fs (\<lambda>s. Some (fs_read_sector (fat_dev (sh_fat E)) 0 lba buffer s)) k;
          if r < 0 then do {
            k \<leftarrow> console E (complain [Say (lit ''Error: Failed to read sector\<newline>'')]) k;
            k_kfree buffer k }
          else do {
            k \<leftarrow> console E ([Say (lit ''\<newline>'')] @ concat (map (\<lambda>j. dump_line (fmem (k_fs k)) buffer (16 * j)) [0..<16]) @ [Say (lit ''...\<newline>\<newline>'')]) k;
            k_kfree buffer k } } })"

text \<open>From the buffer on: the sector is the text, filled up with zeros.\<close>

definition write_text_sector :: "shell_env \<Rightarrow> u32 \<Rightarrow> u32 \<Rightarrow> cstring \<Rightarrow> kernel_state \<Rightarrow> kernel_state option" where
  "write_text_sector E buffer lba txt k = do {
     let k = k_mem (\<lambda>m. put_bytes buffer (take 512 txt) (memset buffer 0 512 m)) k;
     k \<leftarrow> console E [Say (lit ''Writing to sector ''), Dec lba, Say (lit '' on Primary Master...\<newline>'')] k;
     (r, k) \<leftarrow> on_fs (\<lambda>s. Some (fs_write_sector (fat_dev (sh_fat E)) 0 lba buffer s)) k;
     k \<leftarrow> console E (if r < 0 then complain [Say (lit ''Error: Failed to write sector\<newline>'')]
       else confirm [Say (check_mark @ lit '' Sector written successfully\<newline>'')]) k;
     k_kfree buffer k }"

definition cmd_writesector :: "shell_env \<Rightarrow> cstring \<Rightarrow> kernel_state \<Rightarrow> kernel_state option" where
  "cmd_writesector E args k =
     (if args = [] then console E [Say (lit ''Usage: writesector <lba> <text>\<newline>'')] k
      else do {
        let lba = parse_lba args;
        let txt = dropWhile is_white (dropWhile is_digit args);
        if txt = [] then console E [Say (lit ''Usage: writesector <lba> <text>\<newline>'')] k
        else do {
          (buffer, k) \<leftarrow> k_kmalloc 512 k;
          if buffer = NULL then console E [Say (lit ''Error: Out of memory\<newline>'')] k
          else write_text_sector E buffer lba txt k } })"

section \<open>Programs\<close>

definition cmd_exec :: "shell_env \<Rightarrow> cstring \<Rightarrow> kernel_state \<Rightarrow> kernel_state option" where
  "cmd_exec E args k =
     (if args = [] then console E [Say (lit ''Usage: exec <program>\<newline>''), Say (lit ''Example: exec /bin/hello\<newline>'')] k
      else do {
        (result, k) \<leftarrow> exec_path (sh_fat E) (dropWhile (\<lambda>c. c = 32) args) k;
        if result < 0 then console E (complain [Say (lit ''[EXEC] Failed to execute program\<newline>'')]) k
        else do {
          k \<leftarrow> console E [Say (lit ''[EXEC] Program will start running soon...\<newline>\<newline>'')] k;
          give_up (sh_others E) task_yield k } })"

text \<open>\<open>mov eax, 0; mov ebx, 42; int 0x80; jmp $\<close>.\<close>

definition user_code :: "u8 list" where
  "user_code = [0xB8, 0x00, 0x00, 0x00, 0x00, 0xBB, 0x2A, 0x00, 0x00, 0x00, 0xCD, 0x80, 0xEB, 0xFE]"

fun store_bytes :: "u32 \<Rightarrow> u8 list \<Rightarrow> vmm_state \<Rightarrow> vmm_state option" where
  "store_bytes virt [] s = Some s"
| "store_bytes virt (b # bs) s = do { s \<leftarrow> store8 virt b s; store_bytes (virt + 1) bs s }"

abbreviation USER_CODE_ADDR :: u32 where
  "USER_CODE_ADDR \<equiv> 0x10000000"

abbreviation USER_STACK_ADDR :: u32 where
  "USER_STACK_ADDR \<equiv> 0x20000000"

abbreviation USER_PAGE :: u32 where
  "USER_PAGE \<equiv> VMM_PRESENT OR VMM_WRITE OR VMM_USER"

definition k_frame :: "kernel_state \<Rightarrow> u32 \<times> kernel_state" where
  "k_frame k = (let (a, v) = k_alloc (k_vm k) in (a, k\<lparr>k_vm := v\<rparr>))"

text \<open>Both pages are mapped: they are filled, and the program runs.\<close>

definition usertest_run :: "shell_env \<Rightarrow> u32 \<Rightarrow> u32 \<Rightarrow> u32 \<Rightarrow> kernel_state \<Rightarrow> kernel_state option" where
  "usertest_run E kernel_stack phys_code phys_stack k = do {
     v \<leftarrow> memset_page USER_CODE_ADDR (k_vm k);
     v \<leftarrow> memset_page USER_STACK_ADDR v;
     v \<leftarrow> store_bytes USER_CODE_ADDR user_code v;
     k \<leftarrow> console E [Say (lit ''[DEBUG] Copied ''), Dec 14, Say (lit '' bytes of user code\<newline>''), Say (lit ''[DEBUG] User code entry point: 0x''), Hex USER_CODE_ADDR,
       Say (lit ''\<newline>''), Say (lit ''[DEBUG] User stack pointer: 0x''), Hex (USER_STACK_ADDR + PAGE_SIZE), Say (lit ''\<newline>''),
       Say (lit ''\<newline>[DEBUG] Verifying page mappings...\<newline>'')] (k\<lparr>k_vm := v\<rparr>);
     if \<not> vmm_is_mapped USER_CODE_ADDR (k_vm k) then console E [Say (lit ''[ERROR] Code page not mapped!\<newline>'')] k
     else do {
       k \<leftarrow> console E [Say (lit ''[DEBUG] '' @ check_mark @ lit '' Code page is mapped\<newline>'')] k;
       if \<not> vmm_is_mapped USER_STACK_ADDR (k_vm k) then console E [Say (lit ''[ERROR] Stack page not mapped!\<newline>'')] k
       else do {
         k \<leftarrow> console E [Say (lit ''[DEBUG] '' @ check_mark @ lit '' Stack page is mapped\<newline>''), Color 10, Say (lit ''\<newline>[DEBUG] Everything ready! Entering Ring 3...\<newline>\<newline>''), Color 15] k;
         k \<leftarrow> enter_usermode E USER_CODE_ADDR (USER_STACK_ADDR + PAGE_SIZE) k;
         k \<leftarrow> console E [Color 10, Say (lit ''\<newline>'' @ box_top @ lit ''\<newline>''),
           Say (box_side @ lit ''          SUCCESS! RETURNED FROM RING 3!                  '' @ box_side @ lit ''\<newline>''),
           Say (box_side @ lit ''      System call interface is working!                   '' @ box_side @ lit ''\<newline>''),
           Say (box_bottom @ lit ''\<newline>\<newline>''), Color 15] k;
         let k = on_vm (\<lambda>v. vmm_unmap_page USER_STACK_ADDR (vmm_unmap_page USER_CODE_ADDR v)) k;
         k_kfree kernel_stack (k_pmm_free phys_stack (k_pmm_free phys_code k)) } } }"

text \<open>From the stack for interrupts on, which is in place.\<close>

definition usertest_map :: "shell_env \<Rightarrow> u32 \<Rightarrow> kernel_state \<Rightarrow> kernel_state option" where
  "usertest_map E kernel_stack k = do {
     let (phys_code, k) = k_frame k;
     if phys_code = NULL
     then do { k \<leftarrow> console E [Say (lit ''[ERROR] Failed to allocate physical page for code\<newline>'')] k; k_kfree kernel_stack k }
     else do {
       k \<leftarrow> console E [Say (lit ''[DEBUG] Physical page for code: 0x''), Hex phys_code, Say (lit ''\<newline>'')] k;
       k \<leftarrow> console E [Say (lit ''[DEBUG] Mapped code page: virt 0x''), Hex USER_CODE_ADDR, Say (lit '' -> phys 0x''), Hex phys_code, Say (lit ''\<newline>'')]
         (on_vm (vmm_map_page USER_CODE_ADDR phys_code USER_PAGE) k);
       let (phys_stack, k) = k_frame k;
       if phys_stack = NULL
       then do {
         k \<leftarrow> console E [Say (lit ''[ERROR] Failed to allocate physical page for stack\<newline>'')] k;
         k_kfree kernel_stack (k_pmm_free phys_code (on_vm (vmm_unmap_page USER_CODE_ADDR) k)) }
       else do {
         k \<leftarrow> console E [Say (lit ''[DEBUG] Physical page for stack: 0x''), Hex phys_stack, Say (lit ''\<newline>'')] k;
         k \<leftarrow> console E [Say (lit ''[DEBUG] Mapped stack page: virt 0x''), Hex USER_STACK_ADDR, Say (lit '' -> phys 0x''), Hex phys_stack, Say (lit ''\<newline>'')]
           (on_vm (vmm_map_page USER_STACK_ADDR phys_stack USER_PAGE) k);
         usertest_run E kernel_stack phys_code phys_stack k } } }"

definition cmd_usertest :: "shell_env \<Rightarrow> segments \<Rightarrow> kernel_state \<Rightarrow> (segments \<times> kernel_state) option" where
  "cmd_usertest E g k = do {
     k \<leftarrow> console E [Color 11, Say (lit ''\<newline>[USERMODE] Testing Ring 3 system calls...\<newline>\<newline>''), Color 15] k;
     (kernel_stack, k) \<leftarrow> k_kmalloc 4096 k;
     if kernel_stack = NULL
     then do { k \<leftarrow> console E [Say (lit ''[ERROR] Failed to allocate kernel stack\<newline>'')] k; Some (g, k) }
     else do {
       let esp0 = kernel_stack + 4096;
       k \<leftarrow> console E [Say (lit ''[DEBUG] Kernel stack allocated at: 0x''), Hex kernel_stack, Say (lit ''\<newline>''), Say (lit ''[DEBUG] Setting TSS.ESP0 to: 0x''),
         Hex esp0, Say (lit ''\<newline>'')] k;
       k \<leftarrow> usertest_map E kernel_stack k;
       Some (tss_set_kernel_stack esp0 g, k) } }"

definition cmd_forktest :: "shell_env \<Rightarrow> kernel_state \<Rightarrow> kernel_state option" where
  "cmd_forktest E k = do {
     k \<leftarrow> console E (banner 11 ''              Fork/Wait Test                              '' @
       [Color 15, Say (lit ''This command demonstrates fork() and wait() system calls\<newline>''), Say (lit ''in kernel mode (simulated).\<newline>\<newline>''),
        Say (lit ''Creating child task...\<newline>'')]) k;
     (child, k) \<leftarrow> task_create (lit ''test-child'') (test_child_entry E) 1 k;
     if child = NULL then console E (complain [Say (lit ''ERROR: Failed to create child task\<newline>'')]) k
     else do {
       k \<leftarrow> console E [Say (lit ''Child task created with PID ''), Dec (t_pid (k_task k child)), Say (lit ''\<newline>''),
         Say (lit ''\<newline>Note: For true fork() testing, you need to:\<newline>''), Say (lit ''1. Load a user-mode program\<newline>''),
         Say (lit ''2. That program calls fork() via INT 0x80\<newline>''), Say (lit ''3. Parent calls wait() to get child'' @ [39] @ lit ''s exit status\<newline>\<newline>'')] k;
       k \<leftarrow> on_sched (scheduler_add_task child) k;
       console E [Say (lit ''Child added to scheduler. It will run soon.\<newline>''), Say (lit ''Use '' @ [39] @ lit ''ps'' @ [39] @ lit '' to see the task list.\<newline>\<newline>'')] k } }"

text \<open>The task that \<open>forktest\<close> starts, as it runs.\<close>

fun child_rounds :: "shell_env \<Rightarrow> u32 list \<Rightarrow> kernel_state \<Rightarrow> kernel_state option" where
  "child_rounds E [] k = Some k"
| "child_rounds E (i # is) k = do {
     k \<leftarrow> console E [Say (lit ''[CHILD] Iteration ''), Dec i, Say (lit ''\<newline>'')] k;
     k \<leftarrow> give_up (sh_others E) (task_sleep 100) k;
     child_rounds E is k }"

definition test_child_task :: "shell_env \<Rightarrow> kernel_state \<Rightarrow> kernel_state option" where
  "test_child_task E k = do {
     k \<leftarrow> console E [Color 10, Say (lit ''\<newline>[CHILD TASK] Running! PID=''), Dec (t_pid (k_task k (current_task (k_sched k)))), Say (lit ''\<newline>''), Color 15] k;
     k \<leftarrow> child_rounds E [0, 1, 2, 3, 4] k;
     k \<leftarrow> console E [Color 10, Say (lit ''[CHILD TASK] Exiting with code 42\<newline>''), Color 15] k;
     on_sched (task_exit 42) k }"

fun wait_state :: "task_state \<Rightarrow> cstring" where
  "wait_state TASK_READY = (lit ''READY'')"
| "wait_state TASK_RUNNING = (lit ''RUNNING'')"
| "wait_state TASK_BLOCKED = (lit ''BLOCKED'')"
| "wait_state TASK_SLEEPING = (lit ''SLEEPING'')"
| "wait_state TASK_ZOMBIE = (lit ''ZOMBIE'')"

partial_function (option) wait_list :: "shell_env \<Rightarrow> u32 \<Rightarrow> kernel_state \<Rightarrow> kernel_state option" where
  "wait_list E child k =
     (if child = NULL then Some k
      else do {
        let t = k_task k child;
        k \<leftarrow> console E ([Say (lit ''  PID ''), Dec (t_pid t), Say (lit '' - ''), Say (c_name t), Say (lit '' [''), Say (wait_state (t_state t)), Say (lit '']\<newline>'')] @
          (if t_state t = TASK_ZOMBIE then [Say (lit ''    Exit code: ''), Dec (word_of_int (t_exit_code t)), Say (lit ''\<newline>'')] else [])) k;
        wait_list E (t_next_sibling t) k })"

definition cmd_waitdemo :: "shell_env \<Rightarrow> kernel_state \<Rightarrow> kernel_state option" where
  "cmd_waitdemo E k = do {
     let cur = k_task k (current_task (k_sched k));
     k \<leftarrow> console E (banner 11 ''              Wait() Demonstration                        '' @
       [Color 15, Say (lit ''Current task PID: ''), Dec (t_pid cur), Say (lit ''\<newline>\<newline>'')]) k;
     if t_first_child cur = NULL
     then console E [Say (lit ''This task has no children.\<newline>''), Say (lit ''Use '' @ [39] @ lit ''forktest'' @ [39] @ lit '' to create a child task first.\<newline>\<newline>'')] k
     else do {
       k \<leftarrow> console E [Say (lit ''Children of this task:\<newline>'')] k;
       k \<leftarrow> wait_list E (t_first_child cur) k;
       console E [Say (lit ''\<newline>Note: In user mode, parent would call wait() to reap zombies.\<newline>\<newline>'')] k } }"

section \<open>Test tasks\<close>

text \<open>The tasks of \<open>test_tasks.c\<close>, as they run; the loops that only pass time are left out.\<close>

fun test_rounds :: "shell_env \<Rightarrow> u8 \<Rightarrow> cstring \<Rightarrow> u32 list \<Rightarrow> kernel_state \<Rightarrow> kernel_state option" where
  "test_rounds E fg msg [] k = Some k"
| "test_rounds E fg msg (i # is) k = do {
     k \<leftarrow> console E [Color fg, Say msg, Dec i, Say (lit ''\<newline>''), Color 15] k;
     test_rounds E fg msg is k }"

definition test_task1 :: "shell_env \<Rightarrow> kernel_state \<Rightarrow> kernel_state option" where
  "test_task1 E k = do {
     k \<leftarrow> test_rounds E 10 (lit ''[TASK1] Running iteration '') [0, 1, 2, 3, 4] k;
     k \<leftarrow> console E [Color 11, Say (lit ''[TASK1] Finished!\<newline>''), Color 15] k;
     on_sched (task_exit 0) k }"

definition test_task2 :: "shell_env \<Rightarrow> kernel_state \<Rightarrow> kernel_state option" where
  "test_task2 E k = do {
     k \<leftarrow> test_rounds E 13 (lit ''[TASK2] Running iteration '') [0, 1, 2, 3, 4] k;
     k \<leftarrow> console E [Color 11, Say (lit ''[TASK2] Finished!\<newline>''), Color 15] k;
     on_sched (task_exit 0) k }"

text \<open>\<open>int 0x80\<close> with a number and an argument: the number that comes back, or none when the task has ended.\<close>

definition int80 :: "shell_env \<Rightarrow> u32 \<Rightarrow> u32 \<Rightarrow> kernel_state \<Rightarrow> (u32 outcome \<times> kernel_state) option" where
  "int80 E eax ebx k = do {
     (r, k) \<leftarrow> syscall_handler (sh_others E) (sh_fat E)
       \<lparr>r_ds = 0x10, r_edi = 0, r_esi = 0, r_ebp = 0, r_esp = 0, r_ebx = ebx, r_edx = 0, r_ecx = 0, r_eax = eax, r_int_no = 0x80,
        r_err_code = 0, r_eip = 0, r_cs = 0x08, r_eflags = 0x202, r_useresp = 0, r_ss = 0\<rparr> k;
     Some (case r of Returns regs \<Rightarrow> Returns (r_eax regs) | Exits \<Rightarrow> Exits, k) }"

definition pid_message :: "u32 \<Rightarrow> cstring" where
  "pid_message pid = (lit ''[PID '') @ [48 + ucast pid] @ (lit ''] Hello from syscall!\<newline>'')"

text \<open>\<open>msg\<close> is the address of the local array.\<close>

definition syscall_test_body :: "shell_env \<Rightarrow> u32 \<Rightarrow> kernel_state \<Rightarrow> kernel_state option" where
  "syscall_test_body E msg k = do {
     (r, k) \<leftarrow> int80 E 4 0 k;
     v \<leftarrow> store_bytes msg (pid_message (case r of Returns pid \<Rightarrow> pid | Exits \<Rightarrow> 0) @ [0]) (k_vm k);
     (r, k) \<leftarrow> int80 E 1 msg (k\<lparr>k_vm := v\<rparr>);
     (r, k) \<leftarrow> int80 E 3 msg k;
     (r, k) \<leftarrow> int80 E 3 msg k;
     (r, k) \<leftarrow> int80 E 3 msg k;
     (r, k) \<leftarrow> int80 E 0 0 k;
     Some k }"

section \<open>The dispatcher\<close>

text \<open>The trailing blanks go, but never the first character.\<close>

fun trim_front :: "cstring \<Rightarrow> cstring" where
  "trim_front (c # d # cs) = (if is_white c then trim_front (d # cs) else c # d # cs)"
| "trim_front cs = cs"

definition trim_end :: "cstring \<Rightarrow> cstring" where
  "trim_end cs = rev (trim_front (rev cs))"

definition is_quote :: "u8 \<Rightarrow> bool" where
  "is_quote c \<longleftrightarrow> c = 34 \<or> c = 39"

text \<open>The opening quote that is skipped, and the text.\<close>

definition unquote :: "cstring \<Rightarrow> cstring \<times> cstring" where
  "unquote cs =
     (if cs \<noteq> [] \<and> is_quote (hd cs)
      then (let txt = tl cs in ([hd cs], if txt \<noteq> [] \<and> is_quote (last txt) then butlast txt else txt))
      else ([], cs))"

definition before_redirect :: "cstring \<Rightarrow> cstring" where
  "before_redirect args = takeWhile (\<lambda>c. c \<noteq> 62) (take 255 args)"

definition redirect_text :: "cstring \<Rightarrow> cstring \<times> cstring" where
  "redirect_text args = unquote (trim_end (before_redirect args))"

definition redirect_file :: "cstring \<Rightarrow> cstring" where
  "redirect_file args = dropWhile is_white (drop (length (before_redirect args) + 1) (take 255 args))"

text \<open>The array \<open>args_copy[256]\<close> when the text has been cut out of it.\<close>

definition redirect_copy :: "cstring \<Rightarrow> u8 list" where
  "redirect_copy args =
     (let (quote, txt) = redirect_text args; n = length (before_redirect args) + 1; rest = drop n (take 255 args)
      in quote @ txt @ replicate (n - length quote - length txt) 0 @ rest @ replicate (256 - n - length rest) 0)"

definition echo_redirect :: "shell_env \<Rightarrow> cstring \<Rightarrow> kernel_state \<Rightarrow> kernel_state option" where
  "echo_redirect E args k =
     cmd_echo_to_file E (args_copy E + of_nat (length (fst (redirect_text args)))) (redirect_file args)
       (k_mem (put_bytes (args_copy E) (redirect_copy args)) k)"

definition cmd_args :: "cstring \<Rightarrow> cstring" where
  "cmd_args cmd = drop 1 (dropWhile (\<lambda>c. c \<noteq> 32) cmd)"

definition unknown_command :: "cstring \<Rightarrow> ai_state \<Rightarrow> console_op list" where
  "unknown_command cmd ai =
     [Color 12, Say (lit ''Unknown command: ''), Say cmd, Say (lit ''\<newline>''), Color 15, Say (lit ''Type '' @ [39] @ lit ''help'' @ [39] @ lit '' for available commands\<newline>'')] @
     (case ai_predict_command (Some cmd) ai of None \<Rightarrow> []
      | Some suggestion \<Rightarrow> [Color 11, Say (lit ''[AI] Did you mean: ''), Color 10, Say suggestion, Say (lit ''?\<newline>'')])"

text \<open>The commands but \<open>usertest\<close>; \<open>None\<close> in the first component when there is no such command.\<close>

definition run_command :: "shell_env \<Rightarrow> cstring \<Rightarrow> ai_state \<Rightarrow> (kernel_state \<Rightarrow> kernel_state option) option" where
  "run_command E cmd ai =
     (let args = cmd_args cmd in
      if cmd = (lit ''help'') then Some (console E cmd_help)
      else if cmd = (lit ''clear'') then Some (\<lambda>k. Some (set_term k (terminal_clear (k_term k))))
      else if cmd = (lit ''about'') then Some (console E cmd_about)
      else if cmd = (lit ''halt'') then Some (cmd_halt E)
      else if cmd = (lit ''meminfo'') then Some (\<lambda>k. console E (cmd_meminfo k) k)
      else if cmd = (lit ''sysinfo'') then Some (\<lambda>k. console E (cmd_sysinfo k) k)
      else if cmd = (lit ''testpf'') then Some (cmd_testpf E)
      else if cmd = (lit ''heaptest'') then Some (cmd_heaptest E)
      else if cmd = (lit ''ps'') then Some (cmd_ps E)
      else if cmd = (lit ''sched'') then Some (cmd_sched E)
      else if cmd = (lit ''spawn'') then Some (cmd_spawn E)
      else if cmd = (lit ''ai'') then Some (console E (map ai_op (ai_show_stats ai)))
      else if starts_with (lit ''echo '') cmd then Some (if 62 \<in> set args then echo_redirect E args else console E (cmd_echo args))
      else if cmd = (lit ''ls'') then Some (cmd_ls E [])
      else if starts_with (lit ''ls '') cmd then Some (cmd_ls E args)
      else if cmd = (lit ''pwd'') then Some (\<lambda>k. console E (cmd_pwd k) k)
      else if cmd = (lit ''cd'') then Some (cmd_cd E (lit ''/''))
      else if starts_with (lit ''cd '') cmd then Some (cmd_cd E args)
      else if starts_with (lit ''mkdir '') cmd then Some (cmd_mkdir E args)
      else if starts_with (lit ''rmdir '') cmd then Some (cmd_rmdir E args)
      else if starts_with (lit ''cat '') cmd then Some (cmd_cat E args)
      else if starts_with (lit ''rm '') cmd then Some (cmd_rm E args)
      else if starts_with (lit ''touch '') cmd then Some (cmd_touch E args)
      else if cmd = (lit ''diskinfo'') then Some (\<lambda>k. console E (cmd_diskinfo k) k)
      else if starts_with (lit ''readsector '') cmd then Some (cmd_readsector E args)
      else if starts_with (lit ''writesector '') cmd then Some (cmd_writesector E args)
      else if starts_with (lit ''exec '') cmd then Some (cmd_exec E args)
      else if cmd = (lit ''forktest'') then Some (cmd_forktest E)
      else if cmd = (lit ''waitdemo'') then Some (cmd_waitdemo E)
      else if cmd = (lit ''syscalltest'') then Some (\<lambda>k. console E (cmd_syscalltest k) k)
      else None)"

definition shell_execute_command :: "shell_env \<Rightarrow> cstring \<Rightarrow> world \<Rightarrow> world option" where
  "shell_execute_command E cmd w =
     (if cmd = [] then Some w
      else if cmd = (lit ''usertest'') then do {
        (g, k) \<leftarrow> cmd_usertest E (w_seg w) (w_kernel w);
        Some (w\<lparr>w_seg := g, w_kernel := k, w_ai := ai_learn_command (Some cmd) True (w_ai w)\<rparr>) }
      else
        (case run_command E cmd (w_ai w) of
           Some f \<Rightarrow> do {
             k \<leftarrow> f (w_kernel w);
             Some (w\<lparr>w_kernel := k, w_ai := ai_learn_command (Some cmd) True (w_ai w)\<rparr>) }
         | None \<Rightarrow> do {
             k \<leftarrow> console E (unknown_command cmd (w_ai w)) (w_kernel w);
             Some (w\<lparr>w_kernel := k, w_ai := ai_learn_command (Some cmd) False (w_ai w)\<rparr>) }))"

section \<open>The line editor\<close>

definition on_kernel :: "(kernel_state \<Rightarrow> kernel_state option) \<Rightarrow> world \<Rightarrow> world option" where
  "on_kernel f w = map_option (\<lambda>k. w\<lparr>w_kernel := k\<rparr>) (f (w_kernel w))"

definition on_console :: "shell_env \<Rightarrow> console_op list \<Rightarrow> world \<Rightarrow> world option" where
  "on_console E cs w = on_kernel (console E cs) w"

definition on_world :: "(world \<Rightarrow> world option) \<Rightarrow> shell_state \<Rightarrow> shell_state option" where
  "on_world f s = map_option (\<lambda>w. s\<lparr>sh_world := w\<rparr>) (f (sh_world s))"

text \<open>The string in the command buffer.\<close>

definition command_line :: "shell_state \<Rightarrow> cstring" where
  "command_line s = takeWhile (\<lambda>c. c \<noteq> 0) (command_buffer s)"

definition end_line :: "shell_state \<Rightarrow> shell_state" where
  "end_line s = s\<lparr>command_buffer := (command_buffer s)[command_pos s := 0]\<rparr>"

text \<open>The switch over the character.\<close>

definition shell_key :: "shell_env \<Rightarrow> u8 \<Rightarrow> shell_state \<Rightarrow> shell_state option" where
  "shell_key E c s =
     (if c = 10 then do {
        s \<leftarrow> on_world (on_console E [Put 10]) s;
        let s = end_line s;
        s \<leftarrow> on_world (shell_execute_command E (command_line s)) s;
        on_world (on_console E shell_display_prompt) (s\<lparr>command_pos := 0\<rparr>) }
      else if c = 8 then
        (if command_pos s > 0 then on_world (on_console E [Put 8]) (s\<lparr>command_pos := command_pos s - 1\<rparr>) else Some s)
      else if c = 9 then do {
        let s = end_line s;
        s \<leftarrow> on_world (\<lambda>w. on_console E (map ai_op (ai_show_suggestions (Some (command_line s)) (w_ai w))) w) s;
        on_world (on_console E (shell_display_prompt @ map Put (take (command_pos s) (command_buffer s)))) s }
      else if command_pos s < SHELL_BUFFER_SIZE - 1
      then on_world (on_console E [Put c]) (s\<lparr>command_buffer := (command_buffer s)[command_pos s := c], command_pos := command_pos s + 1\<rparr>)
      else Some s)"

definition shell_process_input :: "shell_env \<Rightarrow> shell_state \<Rightarrow> shell_state option" where
  "shell_process_input E s =
     (if \<not> keyboard_has_data (sh_kb s) then Some s
      else
        (let (c, kb) = keyboard_buffer_pop (sh_kb s); s = s\<lparr>sh_kb := kb\<rparr>
         in if c = 0 then Some s else shell_key E c s))"

definition shell_intro :: "console_op list" where
  "shell_intro = [Say (lit ''\<newline>''), Color 10, Say (lit ''[SHELL] Interactive shell ready\<newline>''), Say (lit ''[SHELL] Type '' @ [39] @ lit ''help'' @ [39] @ lit '' for available commands\<newline>\<newline>'')]"

definition shell_init :: "shell_env \<Rightarrow> shell_state \<Rightarrow> shell_state option" where
  "shell_init E s =
     on_world (on_console E shell_intro) (s\<lparr>command_pos := 0, command_buffer := replicate SHELL_BUFFER_SIZE 0\<rparr>)"

text \<open>
  An interrupt between two steps of the shell: of the keyboard, which may scroll the console, or another one, with what
  it and the tasks it switches to do to the state.
\<close>

datatype wakeup = Key_irq u8 | Other_irq "kernel_state \<Rightarrow> kernel_state option"

definition scroll_console :: "scroll \<Rightarrow> kernel_state \<Rightarrow> kernel_state" where
  "scroll_console sc k =
     (case sc of NoScroll \<Rightarrow> k | PageUp \<Rightarrow> set_term k (terminal_scrollback_page_up (k_term k))
      | PageDown \<Rightarrow> set_term k (terminal_scrollback_page_down (k_term k)))"

fun shell_wakeup :: "wakeup \<Rightarrow> shell_state \<Rightarrow> shell_state option" where
  "shell_wakeup (Key_irq scancode) s =
     (let (kb, sc) = keyboard_handler scancode (sh_kb s) in on_world (on_kernel (\<lambda>k. Some (scroll_console sc k))) (s\<lparr>sh_kb := kb\<rparr>))"
| "shell_wakeup (Other_irq f) s = on_world (on_kernel f) s"

fun shell_wakeups :: "wakeup list \<Rightarrow> shell_state \<Rightarrow> shell_state option" where
  "shell_wakeups [] s = Some s"
| "shell_wakeups (w # ws) s = do { s \<leftarrow> shell_wakeup w s; shell_wakeups ws s }"

text \<open>The loop of \<open>shell_run\<close>, one round for each element: a character is processed, then the interrupts of the list come.\<close>

fun shell_loop :: "shell_env \<Rightarrow> wakeup list list \<Rightarrow> shell_state \<Rightarrow> shell_state option" where
  "shell_loop E [] s = Some s"
| "shell_loop E (ws # rounds) s = do { s \<leftarrow> shell_process_input E s; s \<leftarrow> shell_wakeups ws s; shell_loop E rounds s }"

definition shell_run :: "shell_env \<Rightarrow> wakeup list list \<Rightarrow> shell_state \<Rightarrow> shell_state option" where
  "shell_run E rounds s = do { s \<leftarrow> on_world (on_console E shell_display_prompt) s; shell_loop E rounds s }"

section \<open>An example\<close>

text \<open>A kernel whose root directory holds one file \<open>/a\<close> with the text \<open>old\<close>.\<close>

definition demo_fs :: fs_state where
  "demo_fs = tiny_fat\<lparr>nodes := (nodes tiny_fat)(
       0x4000 := \<lparr>n_name = [], n_inode = 0, n_size = 0, n_mode = 0, n_uid = 0, n_gid = 0, n_flags = 0, n_type = VFS_DIRECTORY,
         n_open_count = 0, n_impl = 0x4100, n_ops = RAMFS_OPS, n_parent = NULL, n_next = NULL, n_mounted = NULL\<rparr>,
       0x4200 := \<lparr>n_name = [97], n_inode = 1, n_size = 3, n_mode = 0, n_uid = 0, n_gid = 0, n_flags = 0, n_type = VFS_FILE,
         n_open_count = 0, n_impl = 0x4300, n_ops = RAMFS_OPS, n_parent = 0x4000, n_next = NULL, n_mounted = NULL\<rparr>),
     ramfs_dirs := (ramfs_dirs tiny_fat)(0x4100 := 0x4200),
     ramfs_files := (ramfs_files tiny_fat)(0x4300 := \<lparr>rf_data = 0x5000, rf_size = 3, rf_capacity = 256\<rparr>),
     fmem := put_bytes 0x5000 (lit ''old'') (\<lambda>_. 0), vfs_root := 0x4000, vfs_cwd := 0x4000,
     fd_table := replicate MAX_OPEN_FILES \<lparr>fd_node = NULL, fd_position = 0, fd_flags = 0, fd_in_use = False\<rparr>\<rparr>"

definition demo_world :: world where
  "demo_world = \<lparr>w_ai = ai_init,
     w_seg = \<lparr>gdt = [], gdt_limit = 0, gdt_base = 0, gdt_tss = \<lparr>ss0 = 0, esp0 = 0, iomap_base = 0\<rparr>, tss = \<lparr>ss0 = 0, esp0 = 0, iomap_base = 0\<rparr>,
       task_register = 0\<rparr>,
     w_kernel = (boot_kernel 0x1010 one_block_heap)\<lparr>k_fs := demo_fs\<rparr>\<rparr>"

definition demo_env :: shell_env where
  "demo_env = \<lparr>sh_fat = tiny_env, sh_others = Some, num_buffer = 0x6000, cat_buffer = 0x7000, args_copy = 0x8000, syscall_test_task = 0x101000,
     test_child_entry = 0x102000, enter_usermode = (\<lambda>_ _. Some)\<rparr>"

end
