(* ===== verification/ShellLine.thy ===== *)
theory ShellLine
  imports Shell
begin

text \<open>
  The shell as its user sees it: a queue of typed characters, a line that is edited, and the commands that are
  executed. The ring buffer of the keyboard and the command buffer of the shell refine it.
\<close>

section \<open>A session\<close>

record session =
  ses_queue :: "u8 list"
  ses_mods :: key_mods
  ses_line :: cstring
  ses_world :: world

text \<open>What one character does to the line and to the rest of the kernel.\<close>

definition line_key :: "shell_env \<Rightarrow> u8 \<Rightarrow> cstring \<Rightarrow> world \<Rightarrow> (cstring \<times> world) option" where
  "line_key E c line w =
     (if c = 10 then do {
        w \<leftarrow> on_console E [Put 10] w;
        w \<leftarrow> shell_execute_command E line w;
        w \<leftarrow> on_console E shell_display_prompt w;
        Some ([], w) }
      else if c = 8 then
        (if line = [] then Some (line, w) else map_option (Pair (butlast line)) (on_console E [Put 8] w))
      else if c = 9 then do {
        w \<leftarrow> on_console E (map ai_op (ai_show_suggestions (Some line) (w_ai w))) w;
        w \<leftarrow> on_console E (shell_display_prompt @ map Put line) w;
        Some (line, w) }
      else if length line < 255 then map_option (Pair (line @ [c])) (on_console E [Put c] w)
      else Some (line, w))"

definition session_input :: "shell_env \<Rightarrow> session \<Rightarrow> session option" where
  "session_input E z =
     (case ses_queue z of [] \<Rightarrow> Some z
      | c # q \<Rightarrow>
          (let z = z\<lparr>ses_queue := q\<rparr> in
           if c = 0 then Some z
           else map_option (\<lambda>(line, w). z\<lparr>ses_line := line, ses_world := w\<rparr>) (line_key E c (ses_line z) (ses_world z))))"

definition spec_scroll :: "u8 \<Rightarrow> key_mods \<Rightarrow> scroll" where
  "spec_scroll sc m = (if \<not> m_ext m then NoScroll else if sc = 0x49 then PageUp else if sc = 0x51 then PageDown else NoScroll)"

fun session_wakeup :: "wakeup \<Rightarrow> session \<Rightarrow> session option" where
  "session_wakeup (Key_irq sc) z =
     (let (m, c) = spec_key sc (ses_mods z);
          q = (case c of None \<Rightarrow> ses_queue z | Some c \<Rightarrow> spec_push 255 c (ses_queue z))
      in map_option (\<lambda>w. z\<lparr>ses_queue := q, ses_mods := m, ses_world := w\<rparr>)
           (on_kernel (\<lambda>k. Some (scroll_console (spec_scroll sc (ses_mods z)) k)) (ses_world z)))"
| "session_wakeup (Other_irq f) z = map_option (\<lambda>w. z\<lparr>ses_world := w\<rparr>) (on_kernel f (ses_world z))"

fun session_wakeups :: "wakeup list \<Rightarrow> session \<Rightarrow> session option" where
  "session_wakeups [] z = Some z"
| "session_wakeups (e # es) z = do { z \<leftarrow> session_wakeup e z; session_wakeups es z }"

fun session_loop :: "shell_env \<Rightarrow> wakeup list list \<Rightarrow> session \<Rightarrow> session option" where
  "session_loop E [] z = Some z"
| "session_loop E (es # rounds) z = do { z \<leftarrow> session_input E z; z \<leftarrow> session_wakeups es z; session_loop E rounds z }"

section \<open>The shell refines a session\<close>

definition shell_inv :: "shell_state \<Rightarrow> bool" where
  "shell_inv s \<longleftrightarrow> keyboard_inv (sh_kb s) \<and> length (command_buffer s) = SHELL_BUFFER_SIZE \<and> command_pos s < SHELL_BUFFER_SIZE \<and>
     0 \<notin> set (take (command_pos s) (command_buffer s))"

definition view :: "shell_state \<Rightarrow> session" where
  "view s = \<lparr>ses_queue = ring_contents (sh_kb s), ses_mods = mods (sh_kb s),
     ses_line = take (command_pos s) (command_buffer s), ses_world = sh_world s\<rparr>"

text \<open>\<open>x\<close> implements \<open>y\<close>: both fail, or both give a result, with the same view.\<close>

definition implements :: "shell_state option \<Rightarrow> session option \<Rightarrow> bool" where
  "implements x y \<longleftrightarrow> map_option view x = y \<and> (\<forall>s. x = Some s \<longrightarrow> shell_inv s)"

lemma implements_bind:
  assumes "implements x y" "\<And>s. x = Some s \<Longrightarrow> shell_inv s \<Longrightarrow> implements (f s) (g (view s))"
  shows "implements (x \<bind> f) (y \<bind> g)"
  using assms by (cases x) (auto simp: implements_def)

lemma implements_Some: "shell_inv s \<Longrightarrow> view s = z \<Longrightarrow> implements (Some s) (Some z)"
  by (simp add: implements_def)

lemma implements_world:
  assumes "shell_inv s" "view s = z"
  shows "implements (on_world f s) (map_option (\<lambda>w. z\<lparr>ses_world := w\<rparr>) (f (ses_world z)))"
  using assms by (auto simp: implements_def on_world_def view_def shell_inv_def option.map_comp comp_def)

lemma end_line_command:
  assumes "shell_inv s"
  shows "command_line (end_line s) = take (command_pos s) (command_buffer s)" "shell_inv (end_line s)" "view (end_line s) = view s"
proof -
  have b: "command_pos s < length (command_buffer s)" "0 \<notin> set (take (command_pos s) (command_buffer s))"
    using assms by (auto simp: shell_inv_def)
  have e: "(command_buffer s)[command_pos s := 0] = take (command_pos s) (command_buffer s) @ 0 # drop (Suc (command_pos s)) (command_buffer s)"
    using b(1) by (simp add: upd_conv_take_nth_drop)
  show "command_line (end_line s) = take (command_pos s) (command_buffer s)"
    unfolding command_line_def end_line_def using b(2) by (simp add: e, subst takeWhile_append2) auto
  show "shell_inv (end_line s)" using assms by (auto simp: shell_inv_def end_line_def)
  show "view (end_line s) = view s" by (simp add: view_def end_line_def)
qed

lemma map_option_bind: "map_option f (x \<bind> g) = x \<bind> (\<lambda>y. map_option f (g y))"
  by (cases x) simp_all

text \<open>One character.\<close>

lemma key_implements:
  assumes "shell_inv s" "c \<noteq> 0"
  shows "implements (shell_key E c s)
    (map_option (\<lambda>(line, w). (view s)\<lparr>ses_line := line, ses_world := w\<rparr>) (line_key E c (ses_line (view s)) (ses_world (view s))))"
proof -
  let ?z = "view s"
  note e = end_line_command [OF assms(1)]
  consider "c = 10" | "c = 8" | "c = 9" | "c \<noteq> 10" "c \<noteq> 8" "c \<noteq> 9" by blast
  then show ?thesis
  proof cases
    case 1
    show ?thesis
      using assms(1) e
      by (auto simp: 1 shell_key_def line_key_def on_world_def map_option_bind implements_def view_def end_line_def command_line_def
          shell_inv_def split: bind_splits)
  next
    case 2
    have "take (command_pos s - 1) (command_buffer s) = butlast (take (command_pos s) (command_buffer s))"
      using assms(1) by (simp add: butlast_take shell_inv_def)
    then show ?thesis
      using assms(1) by (auto simp: 2 shell_key_def line_key_def on_world_def implements_def view_def shell_inv_def option.map_comp comp_def
          dest: in_set_butlastD)
  next
    case 3
    then show ?thesis
      using assms(1) e by (auto simp: shell_key_def line_key_def on_world_def map_option_bind implements_def view_def end_line_def
          command_line_def shell_inv_def split: bind_splits)
  next
    case 4
    have "take (Suc (command_pos s)) ((command_buffer s)[command_pos s := c]) = take (command_pos s) (command_buffer s) @ [c]"
      if "command_pos s < 256" using assms(1) that by (simp add: shell_inv_def take_Suc_conv_app_nth)
    then show ?thesis
      using assms 4 by (auto simp: shell_key_def line_key_def on_world_def implements_def view_def shell_inv_def option.map_comp comp_def)
  qed
qed

lemma input_implements:
  assumes "shell_inv s"
  shows "implements (shell_process_input E s) (session_input E (view s))"
proof (cases "keyboard_has_data (sh_kb s)")
  case False
  then have "ring_contents (sh_kb s) = []"
    using assms ring_count_cases(1) [of "sh_kb s"] by (auto simp: shell_inv_def keyboard_has_data_def ring_contents_def)
  then show ?thesis using False assms
    by (simp add: shell_process_input_def session_input_def implements_def view_def)
next
  case True
  obtain c kb where p: "keyboard_buffer_pop (sh_kb s) = (c, kb)" by fastforce
  have k: "keyboard_inv (sh_kb s)" using assms by (simp add: shell_inv_def)
  have "ring_contents (sh_kb s) \<noteq> []"
    using True ring_count_cases(1) [OF k] by (simp add: keyboard_has_data_def ring_contents_def)
  then have q: "ring_contents (sh_kb s) = c # ring_contents kb" "keyboard_inv kb"
    using kbq.pop_contents [OF k] kbq.pop_inv [OF k] by (cases "ring_contents (sh_kb s)"; simp add: p)+
  have m: "mods kb = mods (sh_kb s)" using p by (auto simp: keyboard_buffer_pop_def mods_def split: if_splits)
  have i: "shell_inv (s\<lparr>sh_kb := kb\<rparr>)" using assms q(2) by (simp add: shell_inv_def)
  have v: "view (s\<lparr>sh_kb := kb\<rparr>) = (view s)\<lparr>ses_queue := ring_contents kb\<rparr>" by (simp add: view_def m)
  have "session_input E (view s) = (let z = view (s\<lparr>sh_kb := kb\<rparr>) in if c = 0 then Some z
      else map_option (\<lambda>(line, w). z\<lparr>ses_line := line, ses_world := w\<rparr>) (line_key E c (ses_line z) (ses_world z)))"
    unfolding v by (simp add: session_input_def view_def q(1))
  then show ?thesis
    using True p key_implements [OF i, of c E] implements_Some [OF i refl] by (simp add: shell_process_input_def Let_def)
qed

lemma handler_scroll: "snd (keyboard_handler sc k) = spec_scroll sc (mods k)"
proof (cases "sc = 0x49 \<or> sc = 0x51")
  case True
  then show ?thesis by (auto simp: keyboard_handler_def spec_scroll_def mods_def Let_def)
qed (auto simp: keyboard_handler_def spec_scroll_def mods_def Let_def)

lemma wakeup_implements:
  assumes "shell_inv s"
  shows "implements (shell_wakeup e s) (session_wakeup e (view s))"
proof (cases e)
  case (Key_irq sc)
  obtain kb sr where h: "keyboard_handler sc (sh_kb s) = (kb, sr)" by fastforce
  obtain m c where sk: "spec_key sc (mods (sh_kb s)) = (m, c)" by fastforce
  have k: "keyboard_inv (sh_kb s)" using assms by (simp add: shell_inv_def)
  note r = handler_refines [OF k sk, unfolded h fst_conv]
  have "sr = spec_scroll sc (mods (sh_kb s))" using handler_scroll [of sc "sh_kb s"] h by simp
  then show ?thesis
    using r assms Key_irq h sk
    by (cases c) (auto simp: implements_def on_world_def view_def shell_inv_def option.map_comp comp_def)
next
  case (Other_irq f)
  then show ?thesis using implements_world [OF assms refl] by simp
qed

lemma wakeups_implements: "shell_inv s \<Longrightarrow> implements (shell_wakeups es s) (session_wakeups es (view s))"
proof (induction es arbitrary: s)
  case Nil
  then show ?case by (simp add: implements_Some)
next
  case (Cons e es)
  show ?case unfolding shell_wakeups.simps session_wakeups.simps
    by (intro implements_bind wakeup_implements Cons.IH Cons.prems)
qed

lemma loop_implements: "shell_inv s \<Longrightarrow> implements (shell_loop E rounds s) (session_loop E rounds (view s))"
proof (induction rounds arbitrary: s)
  case Nil
  then show ?case by (simp add: implements_Some)
next
  case (Cons es rounds)
  show ?case unfolding shell_loop.simps session_loop.simps
    by (intro implements_bind input_implements wakeups_implements Cons.IH Cons.prems)
qed

text \<open>Text and the Enter key: the characters are echoed and the text is executed.\<close>

definition plain :: "cstring \<Rightarrow> bool" where
  "plain cs \<longleftrightarrow> (\<forall>c \<in> set cs. c \<noteq> 0 \<and> c \<noteq> 8 \<and> c \<noteq> 9 \<and> c \<noteq> 10)"

lemma on_console_Cons: "on_console E (c # cs) w = on_console E [c] w \<bind> on_console E cs"
  by (cases "console_do E c (w_kernel w)") (simp_all add: on_console_def on_kernel_def)

lemma session_types:
  assumes "plain cs" "ses_queue z = cs @ q" "length (ses_line z) + length cs \<le> 255"
  shows "session_loop E (replicate (length cs) []) z =
    map_option (\<lambda>w. z\<lparr>ses_queue := q, ses_line := ses_line z @ cs, ses_world := w\<rparr>) (on_console E (map Put cs) (ses_world z))"
  using assms
proof (induction cs arbitrary: z)
  case Nil
  then show ?case by (simp add: on_console_def on_kernel_def)
next
  case (Cons c cs)
  note put = on_console_Cons [of E "Put c" "map Put cs" "ses_world z"]
  show ?case
  proof (cases "on_console E [Put c] (ses_world z)")
    case None
    then show ?thesis
      using Cons.prems by (simp add: session_input_def line_key_def plain_def put Let_def)
  next
    case (Some w)
    let ?z = "z\<lparr>ses_queue := cs @ q, ses_line := ses_line z @ [c], ses_world := w\<rparr>"
    have "session_input E z = Some ?z"
      using Some Cons.prems by (simp add: session_input_def line_key_def plain_def Let_def)
    then show ?thesis
      using Cons.IH [of ?z] Cons.prems Some by (simp add: plain_def put)
  qed
qed

section \<open>Properties\<close>

definition session_start :: "shell_env \<Rightarrow> session \<Rightarrow> session option" where
  "session_start E z = do {
     w \<leftarrow> on_console E shell_intro (ses_world z);
     w \<leftarrow> on_console E shell_display_prompt w;
     Some (z\<lparr>ses_line := [], ses_world := w\<rparr>) }"

text \<open>C34: the shell refines a session of a user. From its initialisation on, for every sequence of rounds of the input loop and of
  interrupts between them, of the keyboard and of other devices, the shell with its two buffers behaves as a queue of at most 255 typed characters and a line
  that is edited: a character is appended when the line has fewer than 255, backspace removes the last one, tab shows suggestions for the line,
  and Enter executes exactly the line. One side returns when the other does, with the same queue, line, terminal and kernel,
  and the indices into the two buffers stay in bounds.\<close>

theorem shell_refines_session:
  assumes "keyboard_inv (sh_kb s)"
  shows "map_option view (shell_init E s \<bind> shell_run E rounds) = session_start E (view s) \<bind> session_loop E rounds \<and>
    (\<forall>s'. shell_init E s \<bind> shell_run E rounds = Some s' \<longrightarrow> shell_inv s')"
proof -
  let ?s = "s\<lparr>command_pos := 0, command_buffer := replicate SHELL_BUFFER_SIZE 0\<rparr>" and ?z = "(view s)\<lparr>ses_line := []\<rparr>"
  have i: "shell_inv ?s" "view ?s = ?z" using assms by (simp_all add: shell_inv_def view_def)
  have e: "session_start E (view s) = map_option (\<lambda>w. ?z\<lparr>ses_world := w\<rparr>) (on_console E shell_intro (ses_world ?z)) \<bind>
      (\<lambda>z. map_option (\<lambda>w. z\<lparr>ses_world := w\<rparr>) (on_console E shell_display_prompt (ses_world z)))"
    by (cases "on_console E shell_intro (ses_world ?z)")
      (auto simp: session_start_def option.map_comp comp_def map_conv_bind_option split: bind_splits)
  have "implements (shell_init E s \<bind> shell_run E rounds) (session_start E (view s) \<bind> session_loop E rounds)"
    unfolding shell_init_def shell_run_def [abs_def] e bind_assoc
    by (intro implements_bind implements_world i loop_implements refl)
  then show ?thesis by (simp add: implements_def)
qed

definition demo_shell :: shell_state where
  "demo_shell = \<lparr>command_buffer = [], command_pos = 0, sh_kb = keyboard_init blank_keyboard, sh_world = demo_world\<rparr>"

theorem shell_refines_session_witness:
  "map_option (\<lambda>s. ses_queue (view s)) (shell_init demo_env demo_shell \<bind> shell_run demo_env [[Key_irq 0x2A, Key_irq 0x23, Key_irq 0xAA, Key_irq 0x17]]) =
     map_option (\<lambda>_. [72, 105]) (session_start demo_env (view demo_shell))"
proof -
  have l: "length (keyboard_buffer blank_keyboard) = 256" "extended_scancode blank_keyboard = False" by (simp_all add: blank_keyboard_def)
  note k = keyboard_init_spec [OF l(1), unfolded l(2)]
  have q: "ses_queue z = [] \<and> ses_mods z = mods (keyboard_init blank_keyboard)" if "session_start demo_env (view demo_shell) = Some z" for z
    using that k(2) by (auto simp: session_start_def view_def demo_shell_def split: bind_splits)
  have key: "spec_key 0x2A m = (m\<lparr>m_shift := True\<rparr>, None)" "spec_key 0xAA (m\<lparr>m_shift := True\<rparr>) = (m\<lparr>m_shift := False\<rparr>, None)"
    "spec_key 0x23 (m\<lparr>m_shift := True\<rparr>) = (m\<lparr>m_shift := True\<rparr>, Some 72)" "spec_key 0x17 (m\<lparr>m_shift := False\<rparr>) = (m\<lparr>m_shift := False\<rparr>, Some 105)"
    if "m = \<lparr>m_shift = False, m_ctrl = False, m_caps = False, m_ext = False\<rparr>" for m
    unfolding that by code_simp+
  have "session_loop demo_env [[Key_irq 0x2A, Key_irq 0x23, Key_irq 0xAA, Key_irq 0x17]] z \<noteq> None \<and>
      map_option ses_queue (session_loop demo_env [[Key_irq 0x2A, Key_irq 0x23, Key_irq 0xAA, Key_irq 0x17]] z) = Some [72, 105]"
    if "session_start demo_env (view demo_shell) = Some z" for z
    using q [OF that] key [OF k(3)] by (simp add: session_input_def on_kernel_def spec_push_def)
  then show ?thesis
    using conjunct1 [OF shell_refines_session [of demo_shell demo_env "[[Key_irq 0x2A, Key_irq 0x23, Key_irq 0xAA, Key_irq 0x17]]"]] k(1)
    by (cases "session_start demo_env (view demo_shell)") (auto simp: demo_shell_def option.map_comp comp_def)
qed

end
