(* ===== verification/ShellFile.thy ===== *)
theory ShellFile
  imports Shell RamfsDir RamfsFile
begin

text \<open>
  The shell over the RAM file system and the disk: what \<open>echo > file\<close>, \<open>cat\<close>, \<open>touch\<close> and \<open>writesector\<close> do, from the
  command line down to the bytes.
\<close>

section \<open>The file systems and the console within the kernel\<close>

definition fs_of :: "kernel_state \<Rightarrow> fs_state" where
  "fs_of k = (k_fs k)\<lparr>fheap := kheap (k_vm k)\<rparr>"

definition put_fs :: "fs_state \<Rightarrow> kernel_state \<Rightarrow> kernel_state" where
  "put_fs s k = k\<lparr>k_fs := s, k_vm := (k_vm k)\<lparr>kheap := fheap s\<rparr>\<rparr>"

lemma on_fs_eq: "on_fs f k = map_option (\<lambda>(r, s). (r, put_fs s k)) (f (fs_of k))"
  by (cases "f (fs_of k)") (auto simp: on_fs_def fs_of_def put_fs_def)

lemma fs_of_simps [simp]:
  "fs_of (put_fs s k) = s" "put_fs s (put_fs s' k) = put_fs s k" "fs_of (set_term k t) = fs_of k"
  "put_fs s (set_term k t) = set_term (put_fs s k) t" "k_term (put_fs s k) = k_term k" "k_term (set_term k t) = t"
  "set_term (set_term k t) = set_term k" "k_fs (put_fs s k) = s" "k_fs (set_term k t) = k_fs k"
  by (simp_all add: fs_of_def put_fs_def set_term_def fun_eq_iff)

lemma k_mem_simps [simp]:
  "fs_of (k_mem f k) = (fs_of k)\<lparr>fmem := f (fmem (fs_of k))\<rparr>" "put_fs s (k_mem f k) = put_fs s k"
  "k_mem f (put_fs s k) = put_fs (s\<lparr>fmem := f (fmem s)\<rparr>) k" "k_mem f (set_term k t) = set_term (k_mem f k) t"
  "k_term (k_mem f k) = k_term k"
  by (simp_all add: fs_of_def put_fs_def k_mem_def set_term_def)

text \<open>Colours and strings go to the terminal and change nothing else.\<close>

fun text_out :: "console_op list \<Rightarrow> terminal \<Rightarrow> terminal option" where
  "text_out [] t = Some t"
| "text_out (Color c # cs) t = text_out cs (terminal_setcolor (vga_entry_color c 0) t)"
| "text_out (Say s # cs) t = write_chars s t \<bind> text_out cs"
| "text_out (c # cs) t = None"

fun text_op :: "console_op \<Rightarrow> bool" where
  "text_op (Color c) \<longleftrightarrow> True"
| "text_op (Say s) \<longleftrightarrow> True"
| "text_op c \<longleftrightarrow> False"

lemma console_text: "list_all text_op cs \<Longrightarrow> console E cs k = map_option (set_term k) (text_out cs (k_term k))"
proof (induction cs arbitrary: k)
  case Nil
  then show ?case by (simp add: set_term_def)
next
  case (Cons c cs)
  then show ?case
  proof (cases c)
    case (Say s)
    then show ?thesis using Cons by (cases "write_chars s (k_term k)") simp_all
  qed simp_all
qed

lemma write_chars_append: "write_chars (xs @ ys) t = write_chars xs t \<bind> write_chars ys"
  by (induction xs arbitrary: t) (simp_all split: option.split)

lemma text_out_append: "text_out (xs @ ys) t = text_out xs t \<bind> text_out ys"
proof (induction xs arbitrary: t)
  case (Cons c xs)
  show ?case
  proof (cases c)
    case (Say s)
    then show ?thesis by (cases "write_chars s t") (simp_all add: Cons)
  qed (simp_all add: Cons)
qed simp

lemma writestring_chars:
  assumes "cstr m p cs" "p \<noteq> NULL"
  shows "terminal_writestring m p t = write_chars cs t"
proof -
  have "writestring_loop m p t = write_chars cs t" if "cstr m p cs" for p t cs
    using that
  proof (induction cs arbitrary: p t)
    case (Cons c cs)
    then show ?case by (subst writestring_loop.simps) (auto split: option.split)
  qed (subst writestring_loop.simps, simp)
  then show ?thesis using assms by (simp add: terminal_writestring_def)
qed

section \<open>Paths to a file of the root directory\<close>

text \<open>The file \<open>/name\<close>: a child of a root directory of the RAM file system.\<close>

definition good_name :: "str \<Rightarrow> bool" where
  "good_name name \<longleftrightarrow> name \<noteq> [] \<and> length name \<le> 255 \<and> SLASH \<notin> set name \<and> name \<noteq> [DOT] \<and> name \<noteq> [DOT, DOT]"

definition root_file :: "fs_state \<Rightarrow> u32 list \<Rightarrow> str \<Rightarrow> u32 \<Rightarrow> u32 \<Rightarrow> bool" where
  "root_file s xs name node f \<longleftrightarrow> good_name name \<and> dir_list s (vfs_root s) xs \<and> n_ops (nodes s (vfs_root s)) = RAMFS_OPS \<and>
     n_mounted (nodes s (vfs_root s)) = NULL \<and> dir_map s xs name = Some node \<and> file_view s node f \<and> n_mounted (nodes s node) = NULL"

lemma kernel_ramfs: "n_ops (nodes s n) = RAMFS_OPS \<Longrightarrow> node_ops (kernel_optab E) n s = ramfs_ops"
  by (simp add: node_ops_def kernel_optab_def rt_optab_def ramfs_optab_def)

lemma good_name_split:
  assumes "good_name name"
  shows "path_split (SLASH # name) 32 = [name]"
proof -
  have n: "name \<noteq> []" "length name \<le> 255" "SLASH \<notin> set name" using assms by (auto simp: good_name_def)
  then have h: "hd name \<noteq> SLASH" by (cases name) auto
  have w: "takeWhile (\<lambda>c. c \<noteq> SLASH) name = name" "dropWhile (\<lambda>c. c \<noteq> SLASH) name = []" using n(3) by (auto simp: dropWhile_eq_Nil_conv)
  have "components name = [name]"
    using components_first [OF n(1) h] w by (simp add: components_def)
  moreover have "skip_slashes (SLASH # name) = name" using h n(1) by (cases name) (auto simp: skip_slashes_def)
  ultimately show ?thesis
    using path_components_exact [of name 0 32] h n(2) by (simp add: path_split_def)
qed

lemma root_file_resolves:
  assumes "root_file s xs name node f"
  shows "vfs_resolve_path (kernel_optab E) (SLASH # name) s = Some (node, s)"
proof -
  have g: "good_name name" "vfs_root s \<noteq> NULL" "n_type (nodes s (vfs_root s)) = VFS_DIRECTORY" "n_ops (nodes s (vfs_root s)) = RAMFS_OPS"
    "n_mounted (nodes s (vfs_root s)) = NULL" "dir_list s (vfs_root s) xs" "dir_map s xs name = Some node" "node \<noteq> NULL" "n_mounted (nodes s node) = NULL"
    using assms by (auto simp: root_file_def dir_list_def file_view_def)
  have "name \<noteq> []" "name \<noteq> [DOT]" "name \<noteq> [DOT, DOT]" using g(1) by (auto simp: good_name_def)
  then show ?thesis
    using g good_name_split [OF g(1)] finddir_dir [OF g(6), of name] kernel_ramfs [OF g(4), of E]
    by (simp add: vfs_resolve_path_def ramfs_ops_def)
qed

section \<open>Descriptors on the file\<close>

text \<open>The tree and the files are the same; sizes kept in the nodes, counts of opens, descriptors and memory may differ.\<close>

definition core :: "vfs_node \<Rightarrow> vfs_node" where
  "core n = n\<lparr>n_size := 0, n_open_count := 0\<rparr>"

definition same_tree :: "fs_state \<Rightarrow> fs_state \<Rightarrow> bool" where
  "same_tree s s' \<longleftrightarrow> vfs_root s' = vfs_root s \<and> ramfs_dirs s' = ramfs_dirs s \<and> ramfs_files s' = ramfs_files s \<and>
     core \<circ> nodes s' = core \<circ> nodes s"

lemma same_treeD:
  assumes "same_tree s s'"
  shows "vfs_root s' = vfs_root s" "ramfs_dirs s' = ramfs_dirs s" "ramfs_files s' = ramfs_files s"
    "n_name (nodes s' x) = n_name (nodes s x)" "n_type (nodes s' x) = n_type (nodes s x)" "n_impl (nodes s' x) = n_impl (nodes s x)"
    "n_next (nodes s' x) = n_next (nodes s x)" "n_ops (nodes s' x) = n_ops (nodes s x)" "n_mounted (nodes s' x) = n_mounted (nodes s x)"
proof -
  have c: "core (nodes s' x) = core (nodes s x)" using assms by (simp add: same_tree_def fun_eq_iff)
  have k: "n_name (core n) = n_name n" "n_type (core n) = n_type n" "n_impl (core n) = n_impl n" "n_next (core n) = n_next n"
    "n_ops (core n) = n_ops n" "n_mounted (core n) = n_mounted n" for n by (simp_all add: core_def)
  show "n_name (nodes s' x) = n_name (nodes s x)" "n_type (nodes s' x) = n_type (nodes s x)" "n_impl (nodes s' x) = n_impl (nodes s x)"
    "n_next (nodes s' x) = n_next (nodes s x)" "n_ops (nodes s' x) = n_ops (nodes s x)" "n_mounted (nodes s' x) = n_mounted (nodes s x)"
    using c k by metis+
qed (use assms in \<open>simp_all add: same_tree_def\<close>)

lemma same_tree_trans: "same_tree s s1 \<Longrightarrow> same_tree s1 s2 \<Longrightarrow> same_tree s s2"
  by (simp add: same_tree_def)

lemma same_tree_refl [simp]: "same_tree s s"
  by (simp add: same_tree_def)

lemma same_tree_upd [simp]:
  "same_tree s (upd_fd i g s') = same_tree s s'" "same_tree s (s'\<lparr>fmem := m\<rparr>) = same_tree s s'"
  "same_tree s (upd_node n (\<lambda>x. x\<lparr>n_size := a x\<rparr>) s') = same_tree s s'"
  "same_tree s (upd_node n (\<lambda>x. x\<lparr>n_open_count := b x\<rparr>) s') = same_tree s s'"
  by (auto simp: same_tree_def upd_fd_def upd_node_def core_def fun_eq_iff)

lemma same_tree_file:
  assumes "same_tree s s'" "root_file s xs name node f"
  shows "root_file s' xs name node f"
proof -
  note d = same_treeD [OF assms(1)]
  have "kids (nodes s') p xs = kids (nodes s) p xs" for p by (rule kids_cong) (simp add: d)
  moreover have "dir_map s' xs = dir_map s xs" by (rule dir_map_cong) (simp add: d)
  ultimately show ?thesis using assms(2) by (simp add: root_file_def dir_list_def file_view_def d)
qed

text \<open>Opening takes the first free descriptor, and closing clears it.\<close>

lemma open_file:
  assumes r: "root_file s xs name node f" and i: "fd_search (fd_table s) 0 = Some i" "fd_inv s" and a: "flags AND O_APPEND = 0"
  obtains s' where "vfs_open (kernel_optab E) (SLASH # name) flags s = Some (int i, s')" "opened s' (int i) node flags 0"
    "same_tree s s'" "fmem s' = fmem s" "fheap s' = fheap s"
    "fd_table s' = (fd_table s)[i := \<lparr>fd_node = node, fd_position = 0, fd_flags = flags, fd_in_use = True\<rparr>]"
proof -
  have n: "node \<noteq> NULL" "n_ops (nodes s node) = RAMFS_OPS" using r by (auto simp: root_file_def file_view_def)
  have b: "i < length (fd_table s)" "i < 256" using fd_search_Some [OF i(1)] i(2) by (auto simp: fd_inv_def)
  define s1 where "s1 = upd_node node (\<lambda>n. n\<lparr>n_open_count := n_open_count n + 1\<rparr>) (upd_fd i (\<lambda>d. d\<lparr>fd_in_use := True, fd_position := 0\<rparr>) s)"
  define s' where "s' = open_finish i node flags s1"
  have "op_open (node_ops (kernel_optab E) node (upd_fd i g s)) = Some ramfs_open" for g
    using kernel_ramfs [of "upd_fd i g s" node E] n(2) by (simp add: upd_fd_def ramfs_ops_def)
  then have "vfs_open (kernel_optab E) (SLASH # name) flags s = Some (int i, s')"
    using root_file_resolves [OF r, of E] n(1) i(1)
    by (simp add: vfs_open_def open_node_def fd_alloc_def ramfs_open_def s'_def s1_def)
  moreover have t: "fd_table s' = (fd_table s)[i := \<lparr>fd_node = node, fd_position = 0, fd_flags = flags, fd_in_use = True\<rparr>]"
    using b(1) a by (cases "fd_table s ! i") (simp add: s'_def s1_def open_finish_def Let_def upd_fd_def upd_node_def)
  moreover have "opened s' (int i) node flags 0" using b by (simp add: opened_def fd_get_def t)
  moreover have "same_tree s s'" "fmem s' = fmem s" "fheap s' = fheap s"
    by (simp_all add: s'_def s1_def open_finish_def Let_def)
  ultimately show thesis using that by blast
qed

lemma close_file:
  assumes o: "opened s (int i) node flags pos" and v: "file_view s node f"
  obtains s' where "vfs_close (kernel_optab E) (int i) s = Some (0, s')" "same_tree s s'" "fmem s' = fmem s" "fheap s' = fheap s"
    "fd_table s' = (fd_table s)[i := fd_clear]"
proof -
  have n: "node \<noteq> NULL" "op_close (node_ops (kernel_optab E) node s) = Some ramfs_close"
    using v kernel_ramfs [of s node E] by (simp_all add: file_view_def ramfs_ops_def)
  have g: "fd_get (int i) s = Some \<lparr>fd_node = node, fd_position = pos, fd_flags = flags, fd_in_use = True\<rparr>" "i < 256"
    using o by (auto simp: opened_def fd_get_def split: if_splits)
  define down where "down s = (if n_open_count (nodes s node) > 0 then upd_node node (\<lambda>n. n\<lparr>n_open_count := n_open_count n - 1\<rparr>) s else s)" for s
  have "vfs_close (kernel_optab E) (int i) s = Some (0, fd_free (int i) (down (down s)))"
    using g n by (simp add: vfs_close_def ramfs_close_def down_def Let_def)
  moreover have "same_tree t (down s) = same_tree t s" "fmem (down s) = fmem s" "fheap (down s) = fheap s" "fd_table (down s) = fd_table s" for t s
    by (simp_all add: down_def)
  ultimately show thesis using that g(2) by (simp add: fd_free_def fd_clear_def) (simp add: upd_fd_def)
qed

section \<open>Bytes\<close>

lemma mem_bytes_at: "mem_bytes = bytes_at"
  by (simp add: fun_eq_iff mem_bytes_def bytes_at_def)

text \<open>The bytes of the file are not those of a buffer of \<open>n\<close> bytes at \<open>p\<close>, and the sizes are ordinary.\<close>

definition apart_from :: "fs_state \<Rightarrow> u32 \<Rightarrow> u32 \<Rightarrow> nat \<Rightarrow> bool" where
  "apart_from s f p n \<longleftrightarrow> p \<noteq> NULL \<and> separate (rf_data (ramfs_files s f)) (unat (rf_size (ramfs_files s f))) p n \<and>
     rf_data (ramfs_files s f) \<noteq> NULL \<and> unat (rf_size (ramfs_files s f)) < 2147483648 - 255 \<and>
     rf_size (ramfs_files s f) \<le> rf_capacity (ramfs_files s f)"

lemma apart_files: "ramfs_files s' = ramfs_files s \<Longrightarrow> apart_from s' f p n = apart_from s f p n"
  by (simp add: apart_from_def)

lemma contents_other:
  assumes "apart_from s f p n" "length bs \<le> n"
  shows "contents (s\<lparr>fmem := put_bytes p bs (fmem s)\<rparr>) f = contents s f"
  unfolding contents_def mem_bytes_at
  by (simp, rule bytes_at_other, rule separate_mono) (use assms in \<open>auto simp: apart_from_def\<close>)

text \<open>Reading a block of at most 255 bytes, where a position past the end gives none.\<close>

lemma read_block:
  assumes o: "opened s fd node flags pos" "file_view s node f" "flags AND O_WRONLY = 0"
    and a: "apart_from s f b 255" and p: "unat pos \<le> unat (rf_size (ramfs_files s f))"
  defines "xs \<equiv> take 255 (drop (unat pos) (contents s f))"
  obtains s' where "vfs_read (kernel_optab E) fd b 255 s = Some (int (length xs), s')" "fmem s' = put_bytes b xs (fmem s)"
    "opened s' fd node flags (pos + of_nat (length xs))" "same_tree s s'" "fheap s' = fheap s"
    "\<exists>d. fd_table s' = (fd_table s)[nat fd := d]"
proof -
  let ?rf = "ramfs_files s f"
  have v: "node \<noteq> NULL" "n_type (nodes s node) = VFS_FILE" "n_impl (nodes s node) = f" "f \<noteq> NULL"
    "op_read (node_ops (kernel_optab E) node s) = Some ramfs_read"
    using o(2) kernel_ramfs [of s node E] by (auto simp: file_view_def ramfs_ops_def)
  have A: "b \<noteq> NULL" "rf_data ?rf \<noteq> NULL" "unat (rf_size ?rf) < 2147483648 - 255" "separate (rf_data ?rf) (unat (rf_size ?rf)) b 255"
    using a by (auto simp: apart_from_def)
  define k where "k = (if pos \<ge> rf_size ?rf then 0 else if pos + 255 > rf_size ?rf then rf_size ?rf - pos else 255)"
  have u: "unat (pos + 255) = unat pos + 255" using A(3) p by (simp add: unat_word_ariths)
  have lk: "unat k = length xs"
    using u p by (auto simp: k_def xs_def contents_def word_le_nat_alt word_less_nat_alt unat_sub)
  have xs: "xs = bytes_at (fmem s) (rf_data ?rf + pos) (unat k)"
    using lk by (intro nth_equalityI) (auto simp: xs_def contents_def add.assoc)
  have sep: "separate b (unat k) (rf_data ?rf + pos) (unat k)"
  proof (rule separate_sym, rule separate_mono)
    have "separate (rf_data ?rf + of_nat (unat pos)) (unat k) b 255"
      by (rule separate_shift [OF A(4)]) (use lk A(3) p in \<open>auto simp: xs_def contents_def\<close>)
    then show "separate (rf_data ?rf + pos) (unat k) b 255" by simp
  qed (use lk in \<open>auto simp: xs_def\<close>)
  define s1 where "s1 = s\<lparr>fmem := put_bytes b xs (fmem s)\<rparr>"
  have rd: "ramfs_read node pos 255 b s = Some (int (length xs), s1)"
  proof (cases "pos \<ge> rf_size ?rf")
    case True
    then show ?thesis using v A(1,2) lk by (simp add: ramfs_read_def k_def s1_def Let_def)
  next
    case False
    moreover have "sint k = int (length xs)" using lk by (subst sint_31) (auto simp: xs_def)
    ultimately show ?thesis
      using v A(1,2) memcpy_put_bytes [OF sep, of "fmem s"] xs by (simp add: ramfs_read_def k_def s1_def Let_def split: if_splits)
  qed
  define s' where "s' = (if length xs > 0 then upd_fd (nat fd) (\<lambda>d. d\<lparr>fd_position := fd_position d + of_nat (length xs)\<rparr>) s1 else s1)"
  have "vfs_read (kernel_optab E) fd b 255 s = Some (int (length xs), s')"
    using o v(5) rd by (simp add: vfs_read_def opened_def s'_def)
  moreover have "opened s' fd node flags (pos + of_nat (length xs))"
    using opened_move [OF o(1), of s1 "\<lambda>d. fd_position d + of_nat (length xs)"] opened_slot [OF o(1)] o(1) opened_cong [of s1 s]
    by (simp add: s'_def s1_def)
  moreover have "same_tree s s'" "fheap s' = fheap s" "fmem s' = put_bytes b xs (fmem s)" "\<exists>d. fd_table s' = (fd_table s)[nat fd := d]"
    by (simp_all add: s'_def s1_def) (auto simp: upd_fd_def intro: exI [of _ "fd_table s ! nat fd"])
  ultimately show thesis using that by blast
qed

text \<open>Writing at the beginning, no more than the file holds, replaces its first bytes.\<close>

lemma write_block:
  assumes o: "opened s fd node flags 0" "file_view s node f"
    and a: "apart_from s f b n" and n: "0 < n" "n \<le> unat (rf_size (ramfs_files s f))"
  obtains s' where "vfs_write (kernel_optab E) fd b (of_nat n) s = Some (int n, s')"
    "fmem s' = put_bytes (rf_data (ramfs_files s f)) (bytes_at (fmem s) b n) (fmem s)"
    "\<exists>pos. opened s' fd node flags pos" "same_tree s s'" "fheap s' = fheap s" "\<exists>d. fd_table s' = (fd_table s)[nat fd := d]"
proof -
  let ?rf = "ramfs_files s f"
  have v: "node \<noteq> NULL" "n_type (nodes s node) = VFS_FILE" "n_impl (nodes s node) = f" "f \<noteq> NULL"
    "op_write (node_ops (kernel_optab E) node s) = Some ramfs_write"
    using o(2) kernel_ramfs [of s node E] by (auto simp: file_view_def ramfs_ops_def)
  have A: "b \<noteq> NULL" "rf_data ?rf \<noteq> NULL" "unat (rf_size ?rf) < 2147483648 - 255" "separate (rf_data ?rf) (unat (rf_size ?rf)) b n"
    "rf_size ?rf \<le> rf_capacity ?rf"
    using a by (auto simp: apart_from_def)
  have un: "unat (of_nat n :: u32) = n" using n A(3) by (simp add: unat_of_nat)
  have le: "(of_nat n :: u32) \<le> rf_size ?rf" using n un by (simp add: word_le_nat_alt)
  have sep: "separate (rf_data ?rf) (unat (of_nat n :: u32)) b (unat (of_nat n :: u32))"
    unfolding un by (rule separate_mono [OF A(4)]) (use n in simp_all)
  define s1 where "s1 = s\<lparr>fmem := put_bytes (rf_data ?rf) (bytes_at (fmem s) b n) (fmem s)\<rparr>"
  have "sint (of_nat n :: u32) = int n" using sint_31 [of "of_nat n"] un n(2) A(3) by simp
  moreover have "\<not> (of_nat n :: u32) > rf_capacity ?rf" "\<not> (of_nat n :: u32) > rf_size ?rf" using le A(5) by auto
  ultimately have wr: "ramfs_write node 0 (of_nat n) b s = Some (int n, s1)"
    using v(1-4) A(1) memcpy_put_bytes [OF sep, of "fmem s"] un
    by (simp add: ramfs_write_def file_struct_def grow_file_def s1_def Let_def)
  define s2 where "s2 = upd_fd (nat fd) (\<lambda>d. d\<lparr>fd_position := fd_position d + of_nat n\<rparr>) s1"
  define s' where "s' = (if fd_position (fd_table s2 ! nat fd) > n_size (nodes s2 node)
    then upd_node node (\<lambda>x. x\<lparr>n_size := fd_position (fd_table s2 ! nat fd)\<rparr>) s2 else s2)"
  have "vfs_write (kernel_optab E) fd b (of_nat n) s = Some (int n, s')"
    using o v(5) wr n(1) by (simp add: vfs_write_def opened_def s'_def s2_def Let_def)
  moreover have "opened s2 fd node flags (of_nat n)"
    using opened_move [OF o(1), of s1 "\<lambda>d. fd_position d + of_nat n"] opened_slot [OF o(1)] by (simp add: s2_def s1_def)
  then have "opened s' fd node flags (of_nat n)" using opened_cong [of s' s2] by (simp add: s'_def)
  moreover have "same_tree s s'" "fheap s' = fheap s" "fmem s' = put_bytes (rf_data ?rf) (bytes_at (fmem s) b n) (fmem s)"
    "\<exists>d. fd_table s' = (fd_table s)[nat fd := d]"
    by (simp_all add: s'_def s2_def s1_def) (auto simp: upd_fd_def)
  ultimately show thesis using that by blast
qed

section \<open>Printing a file\<close>

lemma put_bytes_end:
  assumes "length xs < 4294967296"
  shows "(put_bytes a xs m)(a + of_nat (length xs) := 0) = put_bytes a (xs @ [0]) m"
  using assms by (simp add: put_bytes_append put_bytes_Cons)

lemma cstr_put_bytes:
  assumes "0 \<notin> set xs" "length xs + length ys < 4294967296"
  shows "cstr (put_bytes a (xs @ 0 # ys) m) a xs"
proof -
  have "put_bytes a (xs @ 0 # ys) m (a + of_nat i) = (xs @ 0 # ys) ! i" if "i \<le> length xs" for i
    using that assms(2) by (intro put_bytes_at) auto
  then show ?thesis using assms(1) by (auto simp: cstr_nth nth_append in_set_conv_nth)
qed

text \<open>One round of the loop: a block of the file, up to 255 bytes, is printed.\<close>

lemma cat_round:
  assumes o: "opened (fs_of k) fd node flags pos" "file_view (fs_of k) node f" "flags AND O_WRONLY = 0"
    and a: "apart_from (fs_of k) f (cat_buffer E) 256" and p: "unat pos \<le> unat (rf_size (ramfs_files (fs_of k) f))"
    and z: "0 \<notin> set (contents (fs_of k) f)"
  defines "xs \<equiv> take 255 (drop (unat pos) (contents (fs_of k) f))"
  obtains s' where "opened s' fd node flags (pos + of_nat (length xs))" "same_tree (fs_of k) s'" "fheap s' = fheap (fs_of k)"
    "\<exists>d. fd_table s' = (fd_table (fs_of k))[nat fd := d]" "contents s' f = contents (fs_of k) f"
    "cat_loop E fd k = (if xs = [] then Some (put_fs s' k)
       else write_chars xs (k_term k) \<bind> (\<lambda>t. cat_loop E fd (set_term (put_fs s' k) t)))"
proof -
  let ?s = "fs_of k" and ?b = "cat_buffer E"
  have a255: "apart_from ?s f ?b 255"
    using a separate_mono [of _ _ ?b 256 _ 255] by (auto simp: apart_from_def)
  obtain s1 where r: "vfs_read (kernel_optab (sh_fat E)) fd ?b 255 ?s = Some (int (length xs), s1)" "fmem s1 = put_bytes ?b xs (fmem ?s)"
    "opened s1 fd node flags (pos + of_nat (length xs))" "same_tree ?s s1" "fheap s1 = fheap ?s" "\<exists>d. fd_table s1 = (fd_table ?s)[nat fd := d]"
    using read_block [OF o a255 p, of "sh_fat E"] unfolding xs_def by blast
  have rf: "ramfs_files s1 = ramfs_files ?s" by (rule same_treeD(3) [OF r(4)])
  have len: "length xs \<le> 255" by (simp add: xs_def)
  define s' where "s' = (if xs = [] then s1 else s1\<lparr>fmem := put_bytes ?b (xs @ [0]) (fmem ?s)\<rparr>)"
  have m: "fmem s' = put_bytes ?b (if xs = [] then [] else xs @ [0]) (fmem ?s)" by (simp add: s'_def r(2))
  have "contents s' f = contents (?s\<lparr>fmem := put_bytes ?b (if xs = [] then [] else xs @ [0]) (fmem ?s)\<rparr>) f"
    using rf by (simp add: contents_def s'_def r(2))
  also have "\<dots> = contents ?s f" by (rule contents_other [OF a]) (use len in auto)
  finally have c: "contents s' f = contents ?s f" .
  have "cat_loop E fd k = (if xs = [] then Some (put_fs s' k)
       else write_chars xs (k_term k) \<bind> (\<lambda>t. cat_loop E fd (set_term (put_fs s' k) t)))"
  proof (cases "xs = []")
    case True
    then show ?thesis using r(1) by (subst cat_loop.simps) (simp add: on_fs_eq shell_optab_def s'_def)
  next
    case False
    have e: "(put_bytes ?b xs (fmem ?s))(?b + of_nat (length xs) := 0) = put_bytes ?b (xs @ [0]) (fmem ?s)"
      by (rule put_bytes_end) (use len in simp)
    have "0 \<notin> set xs" using z by (auto simp: xs_def dest: in_set_takeD in_set_dropD)
    then have "cstr (put_bytes ?b (xs @ [0]) (fmem ?s)) ?b xs" by (rule cstr_put_bytes) (use len in simp)
    then have w: "terminal_writestring (put_bytes ?b (xs @ [0]) (fmem ?s)) ?b t = write_chars xs t" for t
      by (rule writestring_chars) (use a in \<open>simp add: apart_from_def\<close>)
    have "cat_loop E fd k = print_buffer E ?b (put_fs s' k) \<bind> cat_loop E fd"
      using r(1,2) False by (subst cat_loop.simps) (simp add: on_fs_eq shell_optab_def s'_def e)
    also have "\<dots> = write_chars xs (k_term k) \<bind> (\<lambda>t. cat_loop E fd (set_term (put_fs s' k) t))"
      using False by (cases "write_chars xs (k_term k)") (simp_all add: print_buffer_def s'_def w)
    finally show ?thesis using False by simp
  qed
  moreover have "same_tree ?s s'" "fheap s' = fheap ?s" "\<exists>d. fd_table s' = (fd_table ?s)[nat fd := d]"
    "opened s' fd node flags (pos + of_nat (length xs))"
    using r(3-6) opened_cong [of s' s1] by (simp_all add: s'_def)
  ultimately show thesis using that c by blast
qed

lemma cat_loop_prints:
  assumes "opened (fs_of k) fd node flags pos" "file_view (fs_of k) node f" "flags AND O_WRONLY = 0"
    and "apart_from (fs_of k) f (cat_buffer E) 256" "unat pos \<le> unat (rf_size (ramfs_files (fs_of k) f))"
    and "0 \<notin> set (contents (fs_of k) f)"
  shows "\<exists>s' pos'. opened s' fd node flags pos' \<and> same_tree (fs_of k) s' \<and> fheap s' = fheap (fs_of k) \<and>
    (\<exists>d. fd_table s' = (fd_table (fs_of k))[nat fd := d]) \<and> contents s' f = contents (fs_of k) f \<and>
    cat_loop E fd k = map_option (set_term (put_fs s' k)) (write_chars (drop (unat pos) (contents (fs_of k) f)) (k_term k))"
  using assms
proof (induction "length (contents (fs_of k) f) - unat pos" arbitrary: k pos rule: less_induct)
  case less
  let ?c = "contents (fs_of k) f"
  define xs where "xs = take 255 (drop (unat pos) ?c)"
  obtain s1 where r: "opened s1 fd node flags (pos + of_nat (length xs))" "same_tree (fs_of k) s1" "fheap s1 = fheap (fs_of k)"
    "\<exists>d. fd_table s1 = (fd_table (fs_of k))[nat fd := d]" "contents s1 f = ?c"
    "cat_loop E fd k = (if xs = [] then Some (put_fs s1 k)
       else write_chars xs (k_term k) \<bind> (\<lambda>t. cat_loop E fd (set_term (put_fs s1 k) t)))"
    using cat_round [OF less.prems] unfolding xs_def by blast
  show ?case
  proof (cases "xs = []")
    case True
    then have "drop (unat pos) ?c = []" by (simp add: xs_def)
    then show ?thesis using r True by (intro exI [of _ s1] exI [of _ "pos + of_nat (length xs)"]) (simp add: set_term_def put_fs_def)
  next
    case False
    have "take (length xs) (drop (unat pos) ?c) = xs" by (simp add: xs_def min_def)
    then have "drop (unat pos) ?c = xs @ drop (length xs) (drop (unat pos) ?c)" by (metis append_take_drop_id)
    then have split: "drop (unat pos) ?c = xs @ drop (unat pos + length xs) ?c" by (simp add: add.commute)
    show ?thesis
    proof (cases "write_chars xs (k_term k)")
      case None
      then show ?thesis using r False
        by (intro exI [of _ s1] exI [of _ "pos + of_nat (length xs)"]) (simp add: split write_chars_append)
    next
      case (Some t)
      let ?k = "set_term (put_fs s1 k) t" and ?p = "pos + of_nat (length xs)"
      have lc: "length ?c = unat (rf_size (ramfs_files (fs_of k) f))" by (simp add: contents_def)
      have lx: "0 < length xs" "unat pos + length xs \<le> length ?c" using False less.prems(5) lc by (auto simp: xs_def)
      have "unat (rf_size (ramfs_files (fs_of k) f)) < 2147483648" using less.prems(4) by (simp add: apart_from_def)
      then have up: "unat ?p = unat pos + length xs" using lx lc by (simp add: unat_word_ariths unat_of_nat)
      have d: "ramfs_files s1 = ramfs_files (fs_of k)" by (rule same_treeD(3) [OF r(2)])
      have v: "file_view s1 node f" using less.prems(2) same_treeD [OF r(2)] by (simp add: file_view_def)
      have "length (contents (fs_of ?k) f) - unat ?p < length ?c - unat pos" using lx r(5) unfolding up by (cases xs) auto
      note IH = less.hyps [OF this]
      obtain s' pos' where s': "opened s' fd node flags pos'" "same_tree s1 s'" "fheap s' = fheap s1"
        "\<exists>d. fd_table s' = (fd_table s1)[nat fd := d]" "contents s' f = ?c"
        "cat_loop E fd ?k = map_option (set_term (put_fs s' ?k)) (write_chars (drop (unat ?p) ?c) (k_term ?k))"
        using IH r(1,5) v less.prems(3-6) lx up lc d apart_files [OF d] by auto
      have "\<exists>d. fd_table s' = (fd_table (fs_of k))[nat fd := d]" using s'(4) r(4) by auto
      then show ?thesis using r(3,6) s' same_tree_trans [OF r(2) s'(2)] Some False
        by (intro exI [of _ s'] exI [of _ pos']) (simp add: split write_chars_append up)
    qed
  qed
qed

text \<open>A descriptor is free, and free descriptors are cleared.\<close>

definition free_slot :: "fs_state \<Rightarrow> nat \<Rightarrow> bool" where
  "free_slot s i \<longleftrightarrow> fd_inv s \<and> fd_search (fd_table s) 0 = Some i"

lemma free_slot_clear:
  assumes "free_slot s i"
  shows "i < length (fd_table s)" "fd_table s ! i = fd_clear"
proof -
  have i: "i < length (fd_table s)" "\<not> fd_in_use (fd_table s ! i)" using fd_search_Some [of "fd_table s" 0 i] assms by (auto simp: free_slot_def)
  then show "i < length (fd_table s)" "fd_table s ! i = fd_clear" using assms nth_mem [OF i(1)] by (auto simp: free_slot_def fd_inv_def)
qed

lemma newline_text: "lit ''\<newline>'' = [10]"
  by (simp add: lit_def)

lemma cmd_cat_prints:
  assumes r: "root_file (fs_of k) xs name node f" and i: "free_slot (fs_of k) i"
    and a: "apart_from (fs_of k) f (cat_buffer E) 256" and z: "0 \<notin> set (contents (fs_of k) f)"
  shows "\<exists>s'. same_tree (fs_of k) s' \<and> contents s' f = contents (fs_of k) f \<and> fd_table s' = fd_table (fs_of k) \<and> fheap s' = fheap (fs_of k) \<and>
    cmd_cat E (SLASH # name) k =
      map_option (set_term (put_fs s' k)) (text_out [Say [10], Say (contents (fs_of k) f), Say [10]] (k_term k))"
proof -
  let ?s = "fs_of k" and ?c = "contents (fs_of k) f"
  obtain s1 where o: "vfs_open (kernel_optab (sh_fat E)) (SLASH # name) O_RDONLY ?s = Some (int i, s1)" "opened s1 (int i) node O_RDONLY 0"
    "same_tree ?s s1" "fmem s1 = fmem ?s" "fheap s1 = fheap ?s"
    "fd_table s1 = (fd_table ?s)[i := \<lparr>fd_node = node, fd_position = 0, fd_flags = O_RDONLY, fd_in_use = True\<rparr>]"
    by (rule open_file [OF r, of i O_RDONLY "sh_fat E"]) (use i in \<open>simp_all add: free_slot_def\<close>)
  note d1 = same_treeD [OF o(3)]
  have v: "file_view s1 node f" using same_tree_file [OF o(3) r] by (simp add: root_file_def)
  have c1: "contents s1 f = ?c" by (simp add: contents_def o(4) d1(3))
  have loop: "\<exists>s2 p2. opened s2 (int i) node O_RDONLY p2 \<and> same_tree s1 s2 \<and> fheap s2 = fheap s1 \<and>
    (\<exists>d. fd_table s2 = (fd_table s1)[i := d]) \<and> contents s2 f = ?c \<and>
    cat_loop E (int i) (set_term (put_fs s1 k) t) = map_option (set_term (put_fs s2 k)) (write_chars ?c t)" for t
    using cat_loop_prints [of "set_term (put_fs s1 k) t" "int i" node O_RDONLY 0 f E] o(2) v c1 a z apart_files [OF d1(3)] by simp
  have start: "cmd_cat E (SLASH # name) k = write_chars [10] (k_term k) \<bind> (\<lambda>t. cat_loop E (int i) (set_term (put_fs s1 k) t) \<bind>
      (\<lambda>k. console E [Say [10]] k \<bind> (\<lambda>k. on_fs (vfs_close (shell_optab E) (int i)) k \<bind> (\<lambda>(r, k). Some k))))"
    using o(1) by (cases "write_chars [10] (k_term k)") (simp_all add: cmd_cat_def on_fs_eq shell_optab_def newline_text)
  show ?thesis
  proof (cases "write_chars [10] (k_term k)")
    case None
    then show ?thesis by (intro exI [of _ ?s]) (simp add: start)
  next
    case (Some t)
    obtain s2 p2 where s2: "opened s2 (int i) node O_RDONLY p2" "same_tree s1 s2" "fheap s2 = fheap s1" "\<exists>d. fd_table s2 = (fd_table s1)[i := d]"
      "contents s2 f = ?c" "cat_loop E (int i) (set_term (put_fs s1 k) t) = map_option (set_term (put_fs s2 k)) (write_chars ?c t)"
      using loop by blast
    have v2: "file_view s2 node f" using same_tree_file [OF same_tree_trans [OF o(3) s2(2)] r] by (simp add: root_file_def)
    obtain s3 where s3: "vfs_close (kernel_optab (sh_fat E)) (int i) s2 = Some (0, s3)" "same_tree s2 s3" "fmem s3 = fmem s2" "fheap s3 = fheap s2"
      "fd_table s3 = (fd_table s2)[i := fd_clear]" by (rule close_file [OF s2(1) v2])
    have "same_tree ?s s3" using o(3) s2(2) s3(2) same_tree_trans by blast
    moreover have "contents s3 f = ?c" using s2(5) s3(3) same_treeD(3) [OF s3(2)] by (simp add: contents_def)
    moreover have "fd_table s3 = fd_table ?s" using s3(5) s2(4) o(6) free_slot_clear [OF i] by (auto simp: list_update_same_conv)
    moreover have "cmd_cat E (SLASH # name) k =
        map_option (set_term (put_fs s3 k)) (text_out [Say [10], Say ?c, Say [10]] (k_term k))"
    proof (cases "write_chars ?c t")
      case None
      then show ?thesis using Some s2(6) by (simp add: start)
    next
      case t2: (Some t2)
      then show ?thesis using Some s2(6) s3(1)
        by (cases "write_chars [10] t2") (simp_all add: start on_fs_eq shell_optab_def)
    qed
    ultimately show ?thesis using o(5) s2(3) s3(4) by (intro exI [of _ s3]) simp
  qed
qed

section \<open>Writing a file with echo\<close>

definition wrote_text :: "cstring \<Rightarrow> console_op list" where
  "wrote_text filename = confirm [Say (check_mark @ lit '' Wrote to ''), Say filename, Say [10]]"

lemma wrote_printed:
  "console E (confirm [Say (check_mark @ lit '' Wrote to ''), Say filename, Say (lit ''\<newline>'')]) k =
     map_option (set_term k) (text_out (wrote_text filename) (k_term k))"
  unfolding wrote_text_def newline_text by (rule console_text) (simp add: confirm_def)

lemma write_text:
  assumes o: "opened s (int i) node flags 0" "file_view s node f" and a: "apart_from s f p (length cs)"
    and c: "cstr (fmem s) p cs" "length cs \<le> length (contents s f)"
  obtains s' where "(if p \<noteq> NULL \<and> fmem s p \<noteq> 0 then strlen (fmem s) p \<bind> (\<lambda>n. vfs_write (kernel_optab E) (int i) p n s) else Some (0, s)) =
      Some (int (length cs), s')" "fmem s' = put_bytes (rf_data (ramfs_files s f)) cs (fmem s)"
    "\<exists>pos. opened s' (int i) node flags pos" "same_tree s s'" "fheap s' = fheap s" "\<exists>d. fd_table s' = (fd_table s)[i := d]"
proof (cases "cs = []")
  case True
  then have "(if p \<noteq> NULL \<and> fmem s p \<noteq> 0 then strlen (fmem s) p \<bind> (\<lambda>n. vfs_write (kernel_optab E) (int i) p n s) else Some (0, s)) =
      Some (int (length cs), s)" using c(1) by simp
  moreover have "\<exists>d. fd_table s = (fd_table s)[i := d]" by (intro exI [of _ "fd_table s ! i"]) simp
  ultimately show thesis using that o(1) True by fastforce
next
  case False
  then have p: "p \<noteq> NULL" "fmem s p \<noteq> 0" using a c(1) by (cases cs; auto simp: apart_from_def)+
  have n: "0 < length cs" "length cs \<le> unat (rf_size (ramfs_files s f))" using False c(2) by (auto simp: contents_def)
  have b: "bytes_at (fmem s) p (length cs) = cs"
    using c(1) by (intro nth_equalityI) (auto simp: cstr_nth)
  obtain s' where s': "vfs_write (kernel_optab E) (int i) p (of_nat (length cs)) s = Some (int (length cs), s')"
    "fmem s' = put_bytes (rf_data (ramfs_files s f)) cs (fmem s)" "\<exists>pos. opened s' (int i) node flags pos" "same_tree s s'" "fheap s' = fheap s"
    "\<exists>d. fd_table s' = (fd_table s)[i := d]" using write_block [OF o a n, of E] b by auto
  then show thesis using that p strlen_cstr [OF c(1)] by simp
qed

lemma echo_overwrites:
  assumes r: "root_file (fs_of k) xs name node f" and i: "free_slot (fs_of k) i"
    and a: "apart_from (fs_of k) f p (length cs)" and c: "cstr (fmem (fs_of k)) p cs" "length cs \<le> length (contents (fs_of k) f)"
  shows "\<exists>s'. same_tree (fs_of k) s' \<and> contents s' f = cs @ drop (length cs) (contents (fs_of k) f) \<and> fd_table s' = fd_table (fs_of k) \<and>
    fheap s' = fheap (fs_of k) \<and>
    cmd_echo_to_file E p (SLASH # name) k = map_option (set_term (put_fs s' k)) (text_out (wrote_text (SLASH # name)) (k_term k))"
proof -
  let ?s = "fs_of k" and ?ot = "kernel_optab (sh_fat E)" and ?fl = "O_WRONLY OR O_CREAT OR O_TRUNC"
  obtain s1 where o: "vfs_open ?ot (SLASH # name) ?fl ?s = Some (int i, s1)" "opened s1 (int i) node ?fl 0"
    "same_tree ?s s1" "fmem s1 = fmem ?s" "fheap s1 = fheap ?s"
    "fd_table s1 = (fd_table ?s)[i := \<lparr>fd_node = node, fd_position = 0, fd_flags = ?fl, fd_in_use = True\<rparr>]"
    by (rule open_file [OF r, of i ?fl "sh_fat E"]) (use i in \<open>simp_all add: free_slot_def\<close>)
  note d1 = same_treeD [OF o(3)]
  have v: "file_view s1 node f" using same_tree_file [OF o(3) r] by (simp add: root_file_def)
  have c1: "contents s1 f = contents ?s f" by (simp add: contents_def o(4) d1(3))
  obtain s2 where s2: "(if p \<noteq> NULL \<and> fmem s1 p \<noteq> 0 then strlen (fmem s1) p \<bind> (\<lambda>n. vfs_write ?ot (int i) p n s1) else Some (0, s1)) =
      Some (int (length cs), s2)" "fmem s2 = put_bytes (rf_data (ramfs_files s1 f)) cs (fmem s1)"
    "\<exists>pos. opened s2 (int i) node ?fl pos" "same_tree s1 s2" "fheap s2 = fheap s1" "\<exists>d. fd_table s2 = (fd_table s1)[i := d]"
    by (rule write_text [OF o(2) v, of p cs "sh_fat E"]) (use a c c1 o(4) apart_files [OF d1(3)] in simp_all)
  have v2: "file_view s2 node f" using same_tree_file [OF same_tree_trans [OF o(3) s2(4)] r] by (simp add: root_file_def)
  obtain pos where p2: "opened s2 (int i) node ?fl pos" using s2(3) by blast
  obtain s3 where s3: "vfs_close ?ot (int i) s2 = Some (0, s3)" "same_tree s2 s3" "fmem s3 = fmem s2" "fheap s3 = fheap s2"
    "fd_table s3 = (fd_table s2)[i := fd_clear]" by (rule close_file [OF p2 v2])
  have f3: "ramfs_files s3 = ramfs_files ?s" using same_treeD(3) [OF s3(2)] same_treeD(3) [OF s2(4)] d1(3) by simp
  have "unat (rf_size (ramfs_files ?s f)) < 2147483648" using a by (simp add: apart_from_def)
  then have "contents s3 f = cs @ drop (length cs) (contents ?s f)"
    using bytes_at_put_mid [of 0 cs "unat (rf_size (ramfs_files ?s f))" "rf_data (ramfs_files ?s f)" "fmem ?s"] c(2)
    by (simp add: contents_def mem_bytes_at f3 s3(3) s2(2) o(4) d1(3))
  moreover have "fd_table s3 = fd_table ?s" using s3(5) s2(6) o(6) free_slot_clear [OF i] by (auto simp: list_update_same_conv)
  moreover have "same_tree ?s s3" using o(3) s2(4) s3(2) same_tree_trans by blast
  moreover have "cmd_echo_to_file E p (SLASH # name) k = map_option (set_term (put_fs s3 k)) (text_out (wrote_text (SLASH # name)) (k_term k))"
  proof (cases "p \<noteq> NULL \<and> fmem s1 p \<noteq> 0")
    case True
    then obtain n where n: "strlen (fmem s1) p = Some n" "vfs_write ?ot (int i) p n s1 = Some (int (length cs), s2)"
      using s2(1) by (cases "strlen (fmem s1) p") auto
    then show ?thesis using True o(1) s3(1)
      by (simp add: cmd_echo_to_file_def on_fs_eq shell_optab_def wrote_printed)
  next
    case False
    then have "s2 = s1" using s2(1) by (auto split: if_splits)
    then show ?thesis using False o(1) s3(1)
      by (auto simp: cmd_echo_to_file_def on_fs_eq shell_optab_def wrote_printed)
  qed
  ultimately show ?thesis using o(5) s2(5) s3(4) by (intro exI [of _ s3]) simp
qed

section \<open>The command line of echo\<close>

text \<open>\<open>"text" > file\<close> is taken apart as it is meant.\<close>

definition quoted_redirect :: "cstring \<Rightarrow> cstring \<Rightarrow> cstring" where
  "quoted_redirect txt filename = 34 # txt @ [34, 32, 62, 32] @ filename"

lemma redirect_parses:
  assumes t: "62 \<notin> set txt" and n: "length (quoted_redirect txt filename) \<le> 255" and f: "filename \<noteq> []" "\<not> is_white (hd filename)"
  defines "args \<equiv> quoted_redirect txt filename"
  shows "before_redirect args = 34 # txt @ [34, 32]" "redirect_text args = ([34], txt)" "redirect_file args = filename"
    "\<exists>ys. redirect_copy args = 34 # txt @ 0 # ys \<and> length (redirect_copy args) = 256"
proof -
  have args: "take 255 args = (34 # txt @ [34, 32]) @ 62 # 32 # filename" using n by (simp add: args_def quoted_redirect_def)
  show b: "before_redirect args = 34 # txt @ [34, 32]"
    unfolding before_redirect_def args using t by (subst takeWhile_append2) auto
  obtain d ds where "rev txt @ [34] = d # ds" by (cases "rev txt @ [34]") auto
  then have "trim_front (34 # rev txt @ [34]) = 34 # rev txt @ [34]" by (simp add: is_white_def)
  then have "trim_end (34 # txt @ [34, 32]) = 34 # txt @ [34]" by (simp add: trim_end_def is_white_def)
  then show r: "redirect_text args = ([34], txt)" by (simp add: redirect_text_def b unquote_def is_quote_def)
  have d: "drop (length (34 # txt @ [34, 32]) + 1) (take 255 args) = 32 # filename" unfolding args by simp
  show "redirect_file args = filename"
    unfolding redirect_file_def b d using f by (cases filename) (auto simp: is_white_def)
  have l: "length txt + length filename \<le> 250" using n by (simp add: quoted_redirect_def)
  have c: "redirect_copy args = 34 # txt @ replicate 3 0 @ (32 # filename) @ replicate (256 - (length txt + 4) - (length filename + 1)) 0"
    unfolding redirect_copy_def r b Let_def prod.case d by simp
  show "\<exists>ys. redirect_copy args = 34 # txt @ 0 # ys \<and> length (redirect_copy args) = 256"
    unfolding c using l by (simp add: numeral_3_eq_3)
qed

text \<open>A command that is known runs, and the predictor learns it.\<close>

lemma execute_known:
  assumes "run_command E cmd (w_ai w) = Some f" "cmd \<noteq> []" "cmd \<noteq> lit ''usertest''"
  shows "shell_execute_command E cmd w =
    map_option (\<lambda>k. w\<lparr>w_kernel := k, w_ai := ai_learn_command (Some cmd) True (w_ai w)\<rparr>) (f (w_kernel w))"
  using assms by (cases "f (w_kernel w)") (simp_all add: shell_execute_command_def)

lemma run_echo: "62 \<in> set args \<Longrightarrow> run_command E (lit ''echo '' @ args) ai = Some (echo_redirect E args)"
  by (simp add: run_command_def starts_with_def lit_def cmd_args_def)

lemma run_cat: "run_command E (lit ''cat '' @ args) ai = Some (cmd_cat E args)"
  by (simp add: run_command_def starts_with_def lit_def cmd_args_def)

lemma apart_shift:
  assumes "apart_from s f p n" "j + n' \<le> n" "unat p + n \<le> 4294967296" "j < n"
  shows "apart_from s f (p + of_nat j) n'"
proof -
  have "separate p n (rf_data (ramfs_files s f)) (unat (rf_size (ramfs_files s f)))"
    using assms(1) by (auto simp: apart_from_def intro: separate_sym)
  then have "separate (p + of_nat j) n' (rf_data (ramfs_files s f)) (unat (rf_size (ramfs_files s f)))"
    by (rule separate_shift) (use assms in auto)
  moreover have "unat (p + of_nat j) = unat p + j" using assms(3,4) by (simp add: unat_word_ariths unat_of_nat)
  moreover have "unat p > 0" using assms(1) by (simp add: apart_from_def unat_gt_0)
  ultimately show ?thesis using assms(1) separate_sym by (auto simp: apart_from_def)
qed

section \<open>Properties\<close>

text \<open>C35: \<open>echo "text" > /file\<close> on a file of the RAM file system that holds at least as much does not truncate it, although the shell opens
  it with \<open>O_TRUNC\<close>: a following \<open>cat /file\<close> prints the text and then the rest of the old contents. Both commands go through the dispatcher;
  they print the confirmation and that text between two line feeds, and return exactly when the console takes it. The text has no redirection
  and no zero byte, the local arrays of the shell are not the bytes of the file, and a descriptor is free.\<close>

theorem echo_keeps_tail:
  assumes r: "root_file (fs_of (w_kernel w)) xs name node f" and i: "free_slot (fs_of (w_kernel w)) i"
    and a: "apart_from (fs_of (w_kernel w)) f (args_copy E) 256" "apart_from (fs_of (w_kernel w)) f (cat_buffer E) 256"
      "unat (args_copy E) + 256 \<le> 4294967296"
    and t: "0 \<notin> set txt" "62 \<notin> set txt" "0 \<notin> set (contents (fs_of (w_kernel w)) f)" "length txt \<le> length (contents (fs_of (w_kernel w)) f)"
      "length (quoted_redirect txt (SLASH # name)) \<le> 250"
  shows "map_option (\<lambda>w. k_term (w_kernel w))
      (shell_execute_command E (lit ''echo '' @ quoted_redirect txt (SLASH # name)) w \<bind> shell_execute_command E (lit ''cat '' @ SLASH # name)) =
    text_out (wrote_text (SLASH # name) @ [Say [10], Say (txt @ drop (length txt) (contents (fs_of (w_kernel w)) f)), Say [10]])
      (k_term (w_kernel w))"
proof -
  let ?k = "w_kernel w" and ?s = "fs_of (w_kernel w)" and ?args = "quoted_redirect txt (SLASH # name)"
  have p: "redirect_text ?args = ([34], txt)" "redirect_file ?args = SLASH # name"
    "\<exists>ys. redirect_copy ?args = 34 # txt @ 0 # ys \<and> length (redirect_copy ?args) = 256"
    using redirect_parses [OF t(2), of "SLASH # name"] t(5) by (simp_all add: is_white_def)
  obtain ys where ys: "redirect_copy ?args = 34 # txt @ 0 # ys" "length (redirect_copy ?args) = 256" using p(3) by blast
  define k1 where "k1 = k_mem (put_bytes (args_copy E) (redirect_copy ?args)) ?k"
  have s1: "fs_of k1 = ?s\<lparr>fmem := put_bytes (args_copy E) (redirect_copy ?args) (fmem ?s)\<rparr>" "k_term k1 = k_term ?k" "put_fs z k1 = put_fs z ?k" for z
    by (simp_all add: k1_def)
  have c1: "contents (fs_of k1) f = contents ?s f" unfolding s1(1) by (rule contents_other [OF a(1)]) (use ys(2) in simp)
  have tr: "same_tree ?s (fs_of k1)" unfolding s1(1) by simp
  have r1: "root_file (fs_of k1) xs name node f" by (rule same_tree_file [OF tr r])
  have i1: "free_slot (fs_of k1) i" using i fd_inv_cong [of "fs_of k1" ?s] by (simp add: free_slot_def s1(1))
  note ap = apart_files [OF same_treeD(3) [OF tr]]
  have "length txt \<le> 254" using t(5) by (simp add: quoted_redirect_def)
  then have a1: "apart_from (fs_of k1) f (args_copy E + 1) (length txt)"
    using apart_shift [OF a(1), of 1 "length txt"] a(3) ap by simp
  have "length (txt @ 0 # ys) < 256" using ys by simp
  then have "cstr (fmem (fs_of k1)) (args_copy E + 1) txt"
    unfolding s1(1) ys(1) using t(1) by (simp add: put_bytes_Cons cstr_put_bytes)
  from echo_overwrites [OF r1 i1 a1 this, of E] obtain s2 where s2: "same_tree (fs_of k1) s2"
    "contents s2 f = txt @ drop (length txt) (contents ?s f)" "fd_table s2 = fd_table (fs_of k1)"
    "cmd_echo_to_file E (args_copy E + 1) (SLASH # name) k1 = map_option (set_term (put_fs s2 ?k)) (text_out (wrote_text (SLASH # name)) (k_term ?k))"
    using t(4) c1 s1 by auto
  have e: "echo_redirect E ?args ?k = map_option (set_term (put_fs s2 ?k)) (text_out (wrote_text (SLASH # name)) (k_term ?k))"
    using s2(4) by (simp add: echo_redirect_def p(1,2) k1_def)
  have r2: "root_file s2 xs name node f" "free_slot s2 i" "apart_from s2 f (cat_buffer E) 256" "0 \<notin> set (contents s2 f)"
    using same_tree_file [OF s2(1) r1] i1 fd_inv_cong [OF s2(3)] a(2) ap apart_files [OF same_treeD(3) [OF s2(1)]] s2(3)
      t(1,3) s2(2) by (auto simp: free_slot_def dest: in_set_dropD)
  have c: "map_option k_term (cmd_cat E (SLASH # name) (set_term (put_fs s2 ?k) t)) =
      text_out [Say [10], Say (contents s2 f), Say [10]] t" for t
    using cmd_cat_prints [of "set_term (put_fs s2 ?k) t" xs name node f i E] r2 by (auto simp: option.map_comp comp_def option.map_ident)
  have cat: "map_option (\<lambda>w. k_term (w_kernel w)) (shell_execute_command E (lit ''cat '' @ SLASH # name) w') =
      map_option k_term (cmd_cat E (SLASH # name) (w_kernel w'))" for w'
    by (subst execute_known [OF run_cat]) (simp_all add: lit_def option.map_comp comp_def)
  have "62 \<in> set ?args" by (simp add: quoted_redirect_def)
  then have echo: "shell_execute_command E (lit ''echo '' @ ?args) w =
      map_option (\<lambda>k. w\<lparr>w_kernel := k, w_ai := ai_learn_command (Some (lit ''echo '' @ ?args)) True (w_ai w)\<rparr>) (echo_redirect E ?args ?k)"
    by (intro execute_known run_echo) (simp_all add: lit_def)
  show ?thesis
    unfolding echo e text_out_append
    by (cases "text_out (wrote_text (SLASH # name)) (k_term ?k)") (simp_all add: cat c s2(2) del: text_out.simps)
qed

lemma demo_file:
  "root_file (fs_of (w_kernel demo_world)) [0x4200] [97] 0x4200 0x4300" "free_slot (fs_of (w_kernel demo_world)) 0"
  "apart_from (fs_of (w_kernel demo_world)) 0x4300 (args_copy demo_env) 256" "apart_from (fs_of (w_kernel demo_world)) 0x4300 (cat_buffer demo_env) 256"
  "contents (fs_of (w_kernel demo_world)) 0x4300 = lit ''old''" "k_term (w_kernel demo_world) = blank_terminal"
proof -
  let ?s = "fs_of (w_kernel demo_world)"
  have f: "nodes ?s = nodes demo_fs" "ramfs_dirs ?s = ramfs_dirs demo_fs" "ramfs_files ?s = ramfs_files demo_fs" "fmem ?s = fmem demo_fs"
    "vfs_root ?s = vfs_root demo_fs" "fd_table ?s = fd_table demo_fs"
    by (simp_all add: fs_of_def demo_world_def)
  show "root_file ?s [0x4200] [97] 0x4200 0x4300"
    by (simp add: root_file_def good_name_def dir_list_def dir_map_def file_view_def f) (simp add: demo_fs_def)
  show "free_slot ?s 0"
    by (simp add: free_slot_def fd_inv_def f) (simp add: demo_fs_def fd_clear_def numeral_eq_Suc)
  have s: "separate 0x5000 3 0x8000 256" "separate 0x5000 3 0x7000 256" by (rule separateI; simp)+
  show "apart_from ?s 0x4300 (args_copy demo_env) 256" "apart_from ?s 0x4300 (cat_buffer demo_env) 256"
    using s by (simp_all add: apart_from_def f) (simp_all add: demo_fs_def demo_env_def)
  show "contents ?s 0x4300 = lit ''old''"
    by (simp add: contents_def mem_bytes_at f) (simp add: demo_fs_def bytes_at_put_bytes lit_def)
  show "k_term (w_kernel demo_world) = blank_terminal" by (simp add: demo_world_def boot_kernel_def)
qed

theorem echo_keeps_tail_witness:
  "map_option (\<lambda>w. k_term (w_kernel w))
     (shell_execute_command demo_env (lit ''echo '' @ quoted_redirect (lit ''x'') [47, 97]) demo_world \<bind> shell_execute_command demo_env (lit ''cat '' @ [47, 97])) =
   text_out (wrote_text [47, 97] @ [Say [10], Say (lit ''xld''), Say [10]]) blank_terminal"
  using echo_keeps_tail [OF demo_file(1-4), of "lit ''x''"] unfolding demo_file(5,6)
  by (simp add: demo_env_def lit_def quoted_redirect_def)

section \<open>Sectors\<close>

lemma console_fs: "console E cs k = Some k' \<Longrightarrow> \<exists>t. k' = set_term k t"
proof (induction cs arbitrary: k)
  case Nil
  then show ?case by (intro exI [of _ "k_term k"]) (simp add: set_term_def)
next
  case (Cons c cs)
  then obtain k1 where k1: "console_do E c k = Some k1" "console E cs k1 = Some k'" by (auto split: bind_splits)
  have "\<exists>t. k1 = set_term k t" using k1(1) by (cases c) auto
  then show ?case using Cons.IH [OF k1(2)] by auto
qed

lemma parse_digits:
  assumes "list_all is_digit ds" "rest = [] \<or> \<not> is_digit (hd rest)"
  shows "parse_lba (ds @ rest) = of_nat (number_value 10 ds)" "dropWhile is_digit (ds @ rest) = rest"
proof -
  have t: "takeWhile is_digit (ds @ rest) = ds" "dropWhile is_digit (ds @ rest) = rest"
    using assms by (induction ds) (auto, (cases rest; auto)+)
  show "dropWhile is_digit (ds @ rest) = rest" by (rule t(2))
  have "fold (\<lambda>c lba. lba * 10 + (ucast c - 48)) ds (of_nat v) = (of_nat (fold (\<lambda>d v. v * 10 + digit_value d) ds v) :: u32)" for v
    using assms(1)
  proof (induction ds arbitrary: v)
    case (Cons d ds)
    have "unat d < 58" "48 \<le> unat d" using Cons.prems by (auto simp: is_digit_def word_le_nat_alt)
    then have "(ucast d - 48 :: u32) = of_nat (digit_value d)"
      by (simp add: digit_value_def word_less_nat_alt of_nat_diff)
    then show ?case using Cons.IH [of "v * 10 + digit_value d"] Cons.prems by simp
  qed simp
  from this [of 0] show "parse_lba (ds @ rest) = of_nat (number_value 10 ds)"
    unfolding parse_lba_def t(1) number_value_def by simp
qed

text \<open>The sector that is written: the text, and zeros up to 512 bytes.\<close>

definition text_sector :: "cstring \<Rightarrow> u8 list" where
  "text_sector txt = take 512 txt @ replicate (512 - length txt) 0"

lemma text_sector_bytes: "bytes_at (put_bytes p (take 512 txt) (memset p 0 512 m)) p 512 = text_sector txt"
proof (rule nth_equalityI)
  fix j assume "j < length (bytes_at (put_bytes p (take 512 txt) (memset p 0 512 m)) p 512)"
  then have j: "j < 512" by simp
  then have u: "unat (of_nat j :: u32) = j" by (simp add: unat_of_nat)
  show "bytes_at (put_bytes p (take 512 txt) (memset p 0 512 m)) p 512 ! j = text_sector txt ! j"
    using j u by (auto simp: put_bytes_def memset_spec text_sector_def nth_append)
qed (simp add: text_sector_def)

text \<open>C36: which sector \<open>writesector\<close> overwrites. The number before the text is read modulo \<open>2 ^ 32\<close>, and the driver uses 28 bits of it; without a
  number the sector is 0, the one that holds the boot record. On a disk of the documented protocol the command prints its message, stores the text,
  filled up with zeros, in that sector of the primary master and in no other, confirms, and frees its buffer.\<close>

theorem writesector_target:
  assumes d: "fat_dev (sh_fat E) = pio_disk D ini" "disk_ready D ini (disk (k_fs k)) 0"
    and a: "list_all is_digit ds" "list_all is_white bs" "txt \<noteq> []" "\<not> is_white (hd txt)" "bs \<noteq> [] \<or> \<not> is_digit (hd txt)"
    and m: "k_kmalloc 512 k = Some (buffer, k1)" "buffer \<noteq> NULL"
  shows "\<exists>s. cmd_writesector E (ds @ bs @ txt) k =
      console E [Say (lit ''Writing to sector ''), Dec (of_nat (number_value 10 ds)), Say (lit '' on Primary Master...\<newline>'')]
        (k_mem (\<lambda>m. put_bytes buffer (take 512 txt) (memset buffer 0 512 m)) k1) \<bind>
      (\<lambda>k2. console E (confirm [Say (check_mark @ lit '' Sector written successfully\<newline>'')]) (put_fs s k2) \<bind> k_kfree buffer) \<and>
    (\<forall>l. disk_bytes D ini (disk s) 0 l = (if l = of_nat (number_value 10 ds mod 2 ^ 28) then text_sector txt
       else disk_bytes D ini (disk (k_fs k)) 0 l))"
proof -
  let ?lba = "of_nat (number_value 10 ds) :: u32" and ?args = "ds @ bs @ txt"
  let ?k1 = "k_mem (\<lambda>m. put_bytes buffer (take 512 txt) (memset buffer 0 512 m)) k1"
  have nb: "\<not> is_digit b" if "is_white b" for b using that by (auto simp: is_white_def is_digit_def)
  have "\<not> is_digit (hd (bs @ txt))" using a(2,5) nb by (cases bs) auto
  then have p: "parse_lba ?args = ?lba" "dropWhile is_digit ?args = bs @ txt" using parse_digits [OF a(1), of "bs @ txt"] by auto
  have q: "dropWhile is_white (bs @ txt) = txt" using a(2-4) by (induction bs) (auto, (cases "txt"; auto)+)
  have "disk (k_fs k1) = disk (k_fs k)" using m(1) by (auto simp: k_kmalloc_def on_vm_def split: bind_splits)
  then have r: "disk_ready D ini (disk (fs_of ?k1)) 0" "disk (fs_of ?k1) = disk (k_fs k)" using d(2) by (simp_all add: fs_of_def k_mem_def)
  define b where "b = bytes_at (fmem (fs_of ?k1)) buffer 512"
  have tb: "b = text_sector txt" by (simp add: b_def text_sector_bytes)
  obtain a' where w: "ata_write_sector (pio_disk D ini) 0 ?lba buffer (fmem (fs_of ?k1)) (disk (fs_of ?k1)) = (0, a')"
    "\<And>l. disk_bytes D ini a' 0 l = (if l = take_bit 28 ?lba then text_sector txt else disk_bytes D ini (disk (k_fs k)) 0 l)"
    using pio.write_sector [OF r(1), of ?lba buffer "fmem (fs_of ?k1)"] r b_def tb by auto
  define s where "s = (fs_of ?k1)\<lparr>disk := a'\<rparr>"
  have fs: "fs_write_sector (fat_dev (sh_fat E)) 0 ?lba buffer (fs_of ?k1) = (0, s)"
    using w(1) by (simp add: fs_write_sector_def d(1) s_def)
  have "cmd_writesector E ?args k = write_text_sector E buffer ?lba txt k1"
    using a(3) m p q by (simp add: cmd_writesector_def)
  also have "\<dots> = console E [Say (lit ''Writing to sector ''), Dec ?lba, Say (lit '' on Primary Master...\<newline>'')] ?k1 \<bind>
      (\<lambda>k2. console E (confirm [Say (check_mark @ lit '' Sector written successfully\<newline>'')]) (put_fs s k2) \<bind> k_kfree buffer)"
    unfolding write_text_sector_def Let_def
  proof (rule Option.bind_cong [OF refl])
    fix k2 assume "console E [Say (lit ''Writing to sector ''), Dec ?lba, Say (lit '' on Primary Master...\<newline>'')] ?k1 = Some k2"
    then obtain t where t: "k2 = set_term ?k1 t" using console_fs by blast
    have f: "fs_of k2 = fs_of ?k1" unfolding t by (simp only: fs_of_simps)
    show "on_fs (\<lambda>s. Some (fs_write_sector (fat_dev (sh_fat E)) 0 ?lba buffer s)) k2 \<bind>
        (\<lambda>(r, k). console E (if r < 0 then complain [Say (lit ''Error: Failed to write sector\<newline>'')]
          else confirm [Say (check_mark @ lit '' Sector written successfully\<newline>'')]) k \<bind> k_kfree buffer) =
      console E (confirm [Say (check_mark @ lit '' Sector written successfully\<newline>'')]) (put_fs s k2) \<bind> k_kfree buffer"
      unfolding on_fs_eq f fs by simp
  qed
  finally have "cmd_writesector E ?args k = console E [Say (lit ''Writing to sector ''), Dec ?lba, Say (lit '' on Primary Master...\<newline>'')] ?k1 \<bind>
      (\<lambda>k2. console E (confirm [Say (check_mark @ lit '' Sector written successfully\<newline>'')]) (put_fs s k2) \<bind> k_kfree buffer)" .
  moreover have "take_bit 28 ?lba = of_nat (number_value 10 ds mod 2 ^ 28)"
    by (simp add: take_bit_of_nat) (simp add: take_bit_eq_mod)
  ultimately show ?thesis using w(2) by (intro exI [of _ s]) (simp add: s_def)
qed

theorem writesector_target_witness:
  "\<exists>buffer k1 s. cmd_writesector demo_env (lit ''boot'') ((boot_kernel 0x1010 (kheap boot_vm))\<lparr>k_fs := demo_fs\<lparr>disk := one_drive\<rparr>\<rparr>) =
      console demo_env [Say (lit ''Writing to sector ''), Dec 0, Say (lit '' on Primary Master...\<newline>'')]
        (k_mem (\<lambda>m. put_bytes buffer (lit ''boot'') (memset buffer 0 512 m)) k1) \<bind>
      (\<lambda>k2. console demo_env (confirm [Say (check_mark @ lit '' Sector written successfully\<newline>'')]) (put_fs s k2) \<bind> k_kfree buffer) \<and>
    disk_bytes 10 blank_pio (disk s) 0 0 = lit ''boot'' @ replicate 508 0"
proof -
  let ?k = "(boot_kernel 0x1010 (kheap boot_vm))\<lparr>k_fs := demo_fs\<lparr>disk := one_drive\<rparr>\<rparr>"
  have h: "kheap boot_vm = small_heap (vpmm bare_vm)" by (simp add: boot_vm_pmm bare_vm_def small_heap_def)
  have ne: "free_frames (vpmm bare_vm) \<noteq> {}" "\<forall>b \<in> free_frames (vpmm bare_vm). 256 \<le> b"
    using boot_vm_ok(4) by (auto simp: roomy_def boot_vm_pmm)
  have n: "total_size 512 < PAGE_SIZE div 2" by (simp add: total_size_def align_size_def)
  obtain page h1 where k1: "kmalloc 512 (kheap boot_vm) = Some (page + HEADER, h1)" "page + HEADER \<noteq> NULL"
    unfolding h by (rule kmalloc_empty_heap [of 512 "vpmm bare_vm"]) (use n bare_vm_pmm(1) ne in simp_all)
  then have m: "k_kmalloc 512 ?k = Some (page + HEADER, on_vm (\<lambda>v. v\<lparr>kheap := h1\<rparr>) ?k)" by (simp add: k_kmalloc_def boot_kernel_def)
  have d: "fat_dev (sh_fat demo_env) = pio_disk 10 blank_pio" "disk_ready 10 blank_pio (disk (k_fs ?k)) 0"
    using blank_ready by (simp_all add: demo_env_def tiny_env_def)
  have l: "lit ''boot'' \<noteq> []" "\<not> is_white (hd (lit ''boot''))" "\<not> is_digit (hd (lit ''boot''))" "take 512 (lit ''boot'') = lit ''boot''"
    by (simp_all add: lit_def is_white_def is_digit_def)
  have ts: "text_sector (lit ''boot'') = lit ''boot'' @ replicate 508 0" "(of_nat (number_value 10 []) :: u32) = 0" "number_value 10 [] = 0"
    by (simp_all add: text_sector_def lit_def number_value_def)
  have z: "list_all is_digit []" "list_all is_white []" "[] \<noteq> ([] :: u8 list) \<or> \<not> is_digit (hd (lit ''boot''))" using l(3) by simp_all
  note W = writesector_target [OF d z(1,2) l(1,2) z(3) m k1(2), unfolded ts(1,2) l(4) append_Nil]
  show ?thesis
    by (rule exE [OF W], rule exI, rule exI, rule exI, rule conjI, erule conjunct1, drule conjunct2, drule spec [of _ 0]) (simp add: ts)
qed

section \<open>Names without a slash\<close>

lemma no_parent: "SLASH \<notin> set name \<Longrightarrow> resolve_parent ot name s = Some ((NULL, []), s)"
proof -
  assume "SLASH \<notin> set name"
  then have "SLASH \<notin> set (take 255 name)" by (meson in_set_takeD)
  then show ?thesis by (simp add: resolve_parent_def split_parent_def Let_def)
qed

lemma run_names:
  "run_command E (lit ''touch '' @ args) ai = Some (cmd_touch E args)" "run_command E (lit ''mkdir '' @ args) ai = Some (cmd_mkdir E args)"
  "run_command E (lit ''rmdir '' @ args) ai = Some (cmd_rmdir E args)" "run_command E (lit ''rm '' @ args) ai = Some (cmd_rm E args)"
  by (simp_all add: run_command_def starts_with_def lit_def cmd_args_def)

text \<open>The command prints an error and does nothing else but what became of the file systems as it looked for the name.\<close>

definition refuses :: "shell_env \<Rightarrow> world \<Rightarrow> cstring \<Rightarrow> fs_state \<Rightarrow> console_op list \<Rightarrow> bool" where
  "refuses E w cmd s ms \<longleftrightarrow> shell_execute_command E cmd w =
     map_option (\<lambda>t. w\<lparr>w_kernel := set_term (put_fs s (w_kernel w)) t, w_ai := ai_learn_command (Some cmd) True (w_ai w)\<rparr>)
       (text_out (complain ms) (k_term (w_kernel w)))"

lemma refusesI:
  assumes "run_command E cmd (w_ai w) = Some f" "cmd \<noteq> []" "cmd \<noteq> lit ''usertest''"
    "f (w_kernel w) = console E (complain ms) (put_fs s (w_kernel w))" "list_all text_op ms"
  shows "refuses E w cmd s ms"
  unfolding refuses_def execute_known [OF assms(1-3)] assms(4)
  by (subst console_text) (use assms(5) in \<open>simp_all add: complain_def option.map_comp comp_def\<close>)

text \<open>C37: names relative to the current directory are refused. For a name without a slash \<open>mkdir\<close>, \<open>rmdir\<close> and \<open>rm\<close> print their error and leave the file
  systems as they are, whether or not the name is there, and \<open>touch\<close> does so when the name is not found, although \<open>ls\<close>, \<open>cat\<close> and \<open>cd\<close>
  resolve such names against the current directory. The predictor counts the command as a success all the same.\<close>

theorem relative_names_refused:
  assumes n: "name \<noteq> []" "SLASH \<notin> set name"
  shows "refuses E w (lit ''mkdir '' @ name) (fs_of (w_kernel w)) [Say (lit ''mkdir: cannot create directory '' @ [39]), Say name, Say ([39] @ lit ''\<newline>'')] \<and>
    refuses E w (lit ''rmdir '' @ name) (fs_of (w_kernel w))
      [Say (lit ''rmdir: failed to remove '' @ [39]), Say name, Say ([39] @ lit '': Directory not empty or does not exist\<newline>'')] \<and>
    refuses E w (lit ''rm '' @ name) (fs_of (w_kernel w)) [Say (lit ''rm: cannot remove '' @ [39]), Say name, Say ([39] @ lit ''\<newline>'')] \<and>
    (\<forall>s. vfs_resolve_path (shell_optab E) name (fs_of (w_kernel w)) = Some (NULL, s) \<longrightarrow>
      refuses E w (lit ''touch '' @ name) s [Say (lit ''touch: cannot create '' @ [39]), Say name, Say ([39] @ lit ''\<newline>'')])"
proof (intro conjI allI impI)
  let ?k = "w_kernel w" and ?s = "fs_of (w_kernel w)"
  note p = no_parent [OF n(2)]
  fix s assume "vfs_resolve_path (shell_optab E) name ?s = Some (NULL, s)"
  then have "cmd_touch E name ?k = console E (complain [Say (lit ''touch: cannot create '' @ [39]), Say name, Say ([39] @ lit ''\<newline>'')]) (put_fs s ?k)"
    using n(1) p by (simp add: cmd_touch_def on_fs_eq vfs_open_def open_create_def)
  then show "refuses E w (lit ''touch '' @ name) s [Say (lit ''touch: cannot create '' @ [39]), Say name, Say ([39] @ lit ''\<newline>'')]"
    by (intro refusesI [OF run_names(1)]) (simp_all add: lit_def)
next
  let ?k = "w_kernel w" and ?s = "fs_of (w_kernel w)"
  note p = no_parent [OF n(2)]
  have "cmd_mkdir E name ?k = console E (complain [Say (lit ''mkdir: cannot create directory '' @ [39]), Say name, Say ([39] @ lit ''\<newline>'')]) (put_fs ?s ?k)"
    using n(1) p by (simp add: cmd_mkdir_def on_fs_eq vfs_mkdir_def)
  then show "refuses E w (lit ''mkdir '' @ name) ?s [Say (lit ''mkdir: cannot create directory '' @ [39]), Say name, Say ([39] @ lit ''\<newline>'')]"
    by (intro refusesI [OF run_names(2)]) (simp_all add: lit_def)
  have "cmd_rmdir E name ?k = console E (complain
      [Say (lit ''rmdir: failed to remove '' @ [39]), Say name, Say ([39] @ lit '': Directory not empty or does not exist\<newline>'')]) (put_fs ?s ?k)"
    using n(1) p by (simp add: cmd_rmdir_def on_fs_eq vfs_rmdir_def)
  then show "refuses E w (lit ''rmdir '' @ name) ?s
      [Say (lit ''rmdir: failed to remove '' @ [39]), Say name, Say ([39] @ lit '': Directory not empty or does not exist\<newline>'')]"
    by (intro refusesI [OF run_names(3)]) (simp_all add: lit_def)
  have "cmd_rm E name ?k = console E (complain [Say (lit ''rm: cannot remove '' @ [39]), Say name, Say ([39] @ lit ''\<newline>'')]) (put_fs ?s ?k)"
    using n(1) p by (simp add: cmd_rm_def on_fs_eq vfs_unlink_def)
  then show "refuses E w (lit ''rm '' @ name) ?s [Say (lit ''rm: cannot remove '' @ [39]), Say name, Say ([39] @ lit ''\<newline>'')]"
    by (intro refusesI [OF run_names(4)]) (simp_all add: lit_def)
qed

theorem relative_names_refused_witness:
  "vfs_resolve_path (shell_optab demo_env) (lit ''a'') (fs_of (w_kernel demo_world)) = Some (0x4200, fs_of (w_kernel demo_world)) \<and>
   refuses demo_env demo_world (lit ''rm a'') (fs_of (w_kernel demo_world)) [Say (lit ''rm: cannot remove '' @ [39]), Say (lit ''a''), Say ([39] @ lit ''\<newline>'')] \<and>
   refuses demo_env demo_world (lit ''touch new'') (fs_of (w_kernel demo_world))
     [Say (lit ''touch: cannot create '' @ [39]), Say (lit ''new''), Say ([39] @ lit ''\<newline>'')]"
proof -
  let ?s = "fs_of (w_kernel demo_world)"
  have d: "dir_list ?s (vfs_cwd ?s) [0x4200]" "vfs_cwd ?s = 0x4000" "dir_map ?s [0x4200] (lit ''new'') = None" "dir_map ?s [0x4200] (lit ''a'') = Some 0x4200" "n_ops (nodes ?s 0x4000) = RAMFS_OPS"
      "n_mounted (nodes ?s 0x4000) = NULL" "n_type (nodes ?s 0x4000) = VFS_DIRECTORY" "n_mounted (nodes ?s 0x4200) = NULL"
    using demo_file(1) by (simp_all add: root_file_def) (simp_all add: fs_of_def demo_world_def demo_fs_def dir_map_def dir_list_def lit_def)
  have "path_split (lit ''new'') 32 = [lit ''new'']" "path_split (lit ''a'') 32 = [lit ''a'']" by code_simp+
  then have "vfs_resolve_path (shell_optab demo_env) (lit ''new'') ?s = Some (NULL, ?s)"
    "vfs_resolve_path (shell_optab demo_env) (lit ''a'') ?s = Some (0x4200, ?s)"
    using d finddir_dir [OF d(1), of "lit ''new''"] finddir_dir [OF d(1), of "lit ''a''"] kernel_ramfs [of ?s "0x4000" "sh_fat demo_env"]
    by (simp_all add: vfs_resolve_path_def shell_optab_def lit_def ramfs_ops_def)
  then show ?thesis
    using relative_names_refused [of "lit ''new''" demo_env demo_world] relative_names_refused [of "lit ''a''" demo_env demo_world] by (simp add: lit_def)
qed

end
