(* ===== verification/Mkfs.thy ===== *)
theory Mkfs
  imports FatFile Ai
begin

text \<open>
  The host tool that formats a disk image, \<open>src/tools/mkfs.fat.c\<close>, and what the kernel makes of the image: the bytes that
  the tool writes are those that \<open>fat_mount\<close> reads. The image is a list of bytes, \<open>None\<close> when the file cannot be
  opened; \<open>t\<close> is the time. The file accepts every write and memory for the tables is there, as the tool
  assumes; what it prints is left out.
\<close>

section \<open>The tool\<close>

definition le16 :: "u16 \<Rightarrow> u8 list" where
  "le16 v = [ucast v, ucast (drop_bit 8 v)]"

definition le32 :: "u32 \<Rightarrow> u8 list" where
  "le32 v = [ucast v, ucast (drop_bit 8 v), ucast (drop_bit 16 v), ucast (drop_bit 24 v)]"

record fat_boot_sector =
  bs_jump :: "u8 list"
  bs_oem_name :: "u8 list"
  bs_bytes_per_sector :: u16
  bs_sectors_per_cluster :: u8
  bs_reserved_sectors :: u16
  bs_num_fats :: u8
  bs_root_entries :: u16
  bs_total_sectors_16 :: u16
  bs_media_descriptor :: u8
  bs_sectors_per_fat :: u16
  bs_sectors_per_track :: u16
  bs_num_heads :: u16
  bs_hidden_sectors :: u32
  bs_total_sectors_32 :: u32
  bs_drive_number :: u8
  bs_reserved :: u8
  bs_boot_signature :: u8
  bs_volume_id :: u32
  bs_volume_label :: "u8 list"
  bs_fs_type :: "u8 list"
  bs_boot_code :: "u8 list"
  bs_boot_sig_end :: u16

text \<open>The packed structure as it is in memory.\<close>

definition boot_sector_bytes :: "fat_boot_sector \<Rightarrow> u8 list" where
  "boot_sector_bytes b =
     bs_jump b @ bs_oem_name b @ le16 (bs_bytes_per_sector b) @ [bs_sectors_per_cluster b] @ le16 (bs_reserved_sectors b) @
     [bs_num_fats b] @ le16 (bs_root_entries b) @ le16 (bs_total_sectors_16 b) @ [bs_media_descriptor b] @
     le16 (bs_sectors_per_fat b) @ le16 (bs_sectors_per_track b) @ le16 (bs_num_heads b) @ le32 (bs_hidden_sectors b) @
     le32 (bs_total_sectors_32 b) @ [bs_drive_number b, bs_reserved b, bs_boot_signature b] @ le32 (bs_volume_id b) @
     bs_volume_label b @ bs_fs_type b @ bs_boot_code b @ le16 (bs_boot_sig_end b)"

text \<open>The sizes that \<open>main\<close> computes from the number \<open>ts\<close> of sectors, with C's 32-bit and 16-bit types.\<close>

definition mk_root_dir_sectors :: u32 where
  "mk_root_dir_sectors = (512 * 32 + 512 - 1) div 512"

definition mk_sectors_per_fat :: "u32 \<Rightarrow> u16" where
  "mk_sectors_per_fat ts =
     (let tmp1 = ts - (1 + mk_root_dir_sectors); tmp2 = 256 * 4 + 2 in ucast ((tmp1 + tmp2 - 1) div tmp2))"

definition mk_data_start :: "u32 \<Rightarrow> u32" where
  "mk_data_start ts = 1 + 2 * ucast (mk_sectors_per_fat ts) + mk_root_dir_sectors"

definition mk_data_sectors :: "u32 \<Rightarrow> u32" where
  "mk_data_sectors ts = ts - mk_data_start ts"

definition mk_total_clusters :: "u32 \<Rightarrow> u32" where
  "mk_total_clusters ts = mk_data_sectors ts div 4"

definition mk_boot :: "u32 \<Rightarrow> u32 \<Rightarrow> fat_boot_sector" where
  "mk_boot t ts =
     \<lparr>bs_jump = [0xEB, 0x3C, 0x90], bs_oem_name = take 8 (lit ''OSCOMPLEX''), bs_bytes_per_sector = 512, bs_sectors_per_cluster = 4,
      bs_reserved_sectors = 1, bs_num_fats = 2, bs_root_entries = 512,
      bs_total_sectors_16 = (if ts < 65536 then ucast ts else 0), bs_media_descriptor = 0xF8,
      bs_sectors_per_fat = mk_sectors_per_fat ts, bs_sectors_per_track = 63, bs_num_heads = 255, bs_hidden_sectors = 0,
      bs_total_sectors_32 = (if ts \<ge> 65536 then ts else 0), bs_drive_number = 0x80, bs_reserved = 0, bs_boot_signature = 0x29,
      bs_volume_id = t, bs_volume_label = lit ''OSCOMPLEX  '', bs_fs_type = lit ''FAT16   '', bs_boot_code = replicate 448 0,
      bs_boot_sig_end = 0xAA55\<rparr>"

text \<open>One copy of the table: \<open>fat[0]\<close>, \<open>fat[1]\<close> and free entries.\<close>

definition mk_fat :: "u16 \<Rightarrow> u8 list" where
  "mk_fat spf = le16 0xFFF8 @ le16 0xFFFF @ replicate (unat spf * 512 - 4) 0"

text \<open>\<open>fseek\<close> and \<open>fwrite\<close>: bytes at a position of the file, which grows when they go past its end.\<close>

definition fwrite_at :: "nat \<Rightarrow> u8 list \<Rightarrow> u8 list \<Rightarrow> u8 list" where
  "fwrite_at pos bs f = take pos f @ replicate (pos - length f) 0 @ bs @ drop (pos + length bs) f"

text \<open>The writes of \<open>main\<close>: the boot sector, two copies of the table, the root directory, the first data sectors.\<close>

definition mkfs_write :: "u32 \<Rightarrow> u32 \<Rightarrow> u8 list \<Rightarrow> u8 list" where
  "mkfs_write t ts img =
     (let spf = mk_sectors_per_fat ts;
          img = fwrite_at 0 (boot_sector_bytes (mk_boot t ts)) img;
          img = fold (\<lambda>i. fwrite_at ((1 + i * unat spf) * 512) (mk_fat spf)) [0, 1] img;
          img = fwrite_at ((1 + 2 * unat spf) * 512) (replicate (512 * 32) 0) img
      in fold (\<lambda>i. fwrite_at (unat (mk_data_start ts * 512) + i * 512) (replicate 512 0))
           [0..<min (unat (mk_data_sectors ts)) 1000] img)"

definition mkfs_main :: "nat \<Rightarrow> u32 \<Rightarrow> u8 list option \<Rightarrow> int \<times> u8 list option" where
  "mkfs_main argc t file =
     (if argc < 2 then (1, file)
      else case file of None \<Rightarrow> (1, None)
      | Some img \<Rightarrow>
          (let ts = of_nat (length img div 512); clusters = mk_total_clusters ts in
           if clusters < 4085 \<or> clusters \<ge> 65525 then (1, Some img) else (0, Some (mkfs_write t ts img))))"

section \<open>Sizes\<close>

lemma u32_minus: "unat (a - b :: u32) = (if unat b \<le> unat a then unat a - unat b else unat a + 4294967296 - unat b)"
  using unat_u32_bound [of a] unat_u32_bound [of b] by (simp add: unat_sub_if_size word_size)

lemma spf_value: "unat (mk_sectors_per_fat ts) = unat (992 + ts) div 1026 mod 65536"
  by (simp add: mk_sectors_per_fat_def mk_root_dir_sectors_def Let_def unsigned_ucast_eq unat_div_distrib take_bit_eq_mod)

text \<open>For every image that the tool accepts the 32-bit and 16-bit computations are exact.\<close>

lemma mk_sizes:
  assumes "4085 \<le> mk_total_clusters ts" "mk_total_clusters ts < 65525"
  shows "unat (mk_sectors_per_fat ts) = (unat ts + 992) div 1026" "33 + 2 * unat (mk_sectors_per_fat ts) \<le> unat ts"
    "unat (mk_data_start ts) = 33 + 2 * unat (mk_sectors_per_fat ts)"
    "unat (mk_data_sectors ts) = unat ts - 33 - 2 * unat (mk_sectors_per_fat ts)"
    "unat (mk_total_clusters ts) = (unat ts - 33 - 2 * unat (mk_sectors_per_fat ts)) div 4" "unat ts < 400000"
    "16 \<le> unat (mk_sectors_per_fat ts)"
proof -
  let ?f = "unat (mk_sectors_per_fat ts)" let ?T = "unat ts"
  have f: "?f < 65536" using unsigned_less [of "mk_sectors_per_fat ts", where ?'a = nat] by simp
  show ds: "unat (mk_data_start ts) = 33 + 2 * ?f"
    using f by (simp add: mk_data_start_def mk_root_dir_sectors_def unat_word_ariths unsigned_ucast_eq take_bit_eq_mod)
  have data: "unat (mk_data_sectors ts) = (if 33 + 2 * ?f \<le> ?T then ?T - (33 + 2 * ?f) else ?T + 4294967296 - (33 + 2 * ?f))"
    by (simp add: mk_data_sectors_def u32_minus ds)
  have tc: "unat (mk_total_clusters ts) = unat (mk_data_sectors ts) div 4"
    by (simp add: mk_total_clusters_def unat_div_distrib)
  have lo: "16340 \<le> unat (mk_data_sectors ts)" and hi: "unat (mk_data_sectors ts) < 262100"
    using assms tc by (auto simp: word_le_nat_alt word_less_nat_alt)
  show le: "33 + 2 * ?f \<le> ?T" using hi f unfolding data by (auto split: if_splits)
  then show "unat (mk_data_sectors ts) = ?T - 33 - 2 * ?f" by (simp add: data)
  then show "unat (mk_total_clusters ts) = (?T - 33 - 2 * ?f) div 4" by (simp add: tc)
  have T: "?T < 400000" using hi f le unfolding data by simp
  then show "?T < 400000" .
  have "unat (992 + ts) = ?T + 992" using T by (simp add: unat_word_ariths)
  moreover have "(?T + 992) div 1026 < 65536" using T by simp
  ultimately show e: "?f = (?T + 992) div 1026" by (simp add: spf_value)
  have "16373 + 2 * ?f \<le> ?T" using lo le unfolding data by simp
  then have "16373 + 992 \<le> ?T + 992" by simp
  then show "16 \<le> ?f" unfolding e by simp
qed

section \<open>The image\<close>

lemma length_le [simp]: "length (le16 v) = 2" "length (le32 w) = 4"
  by (simp_all add: le16_def le32_def)

lemma fwrite_length: "pos + length bs \<le> length f \<Longrightarrow> length (fwrite_at pos bs f) = length f"
  by (simp add: fwrite_at_def)

lemma fwrite_nth:
  assumes "pos + length bs \<le> length f"
  shows "fwrite_at pos bs f ! i = (if pos \<le> i \<and> i < pos + length bs then bs ! (i - pos) else f ! i)"
  using assms by (auto simp: fwrite_at_def nth_append)

lemma length_boot [simp]: "length (boot_sector_bytes (mk_boot t ts)) = 512"
  by (simp add: boot_sector_bytes_def mk_boot_def lit_def)

lemma length_mk_fat: "0 < unat spf \<Longrightarrow> length (mk_fat spf) = unat spf * 512"
  by (simp add: mk_fat_def)

lemma zero_sectors:
  assumes "pos + n * 512 \<le> length f"
  shows "length (fold (\<lambda>i. fwrite_at (pos + i * 512) (replicate 512 0)) [0..<n] f) = length f"
    "fold (\<lambda>i. fwrite_at (pos + i * 512) (replicate 512 0)) [0..<n] f ! i = (if pos \<le> i \<and> i < pos + n * 512 then 0 else f ! i)"
  using assms
proof (induction n)
  case (Suc n)
  { case 1 then show ?case using Suc.IH(1) by (simp add: fwrite_length) }
  { case 2 then show ?case using Suc.IH by (auto simp: fwrite_nth) }
qed auto

text \<open>The bytes of a formatted image.\<close>

lemma mkfs_image:
  assumes ok: "4085 \<le> mk_total_clusters ts" "mk_total_clusters ts < 65525" and len: "unat ts * 512 \<le> length img"
  shows "length (mkfs_write t ts img) = length img"
    "mkfs_write t ts img ! i =
      (let f = unat (mk_sectors_per_fat ts) in
       if i < 512 then boot_sector_bytes (mk_boot t ts) ! i
       else if i < (1 + f) * 512 then mk_fat (mk_sectors_per_fat ts) ! (i - 512)
       else if i < (1 + 2 * f) * 512 then mk_fat (mk_sectors_per_fat ts) ! (i - (1 + f) * 512)
       else if i < (33 + 2 * f + min (unat (mk_data_sectors ts)) 1000) * 512 then 0 else img ! i)"
proof -
  define f where "f = unat (mk_sectors_per_fat ts)"
  define g where "g = mk_fat (mk_sectors_per_fat ts)"
  define n where "n = min (unat (mk_data_sectors ts)) 1000"
  note sizes = mk_sizes [OF ok]
  have "0 < f" using sizes(7) by (simp add: f_def)
  then have g: "length g = f * 512" unfolding g_def f_def by (rule length_mk_fat)
  have d: "unat (mk_data_start ts * 512) = (33 + 2 * f) * 512"
    using sizes(2,3,6) by (simp add: f_def unat_word_ariths)
  have fits: "(33 + 2 * f + n) * 512 \<le> length img" using sizes(2,4) len by (simp add: f_def n_def)
  define a where "a = fwrite_at 0 (boot_sector_bytes (mk_boot t ts)) img"
  define b where "b = fwrite_at 512 g a"
  define c where "c = fwrite_at ((1 + f) * 512) g b"
  define e where "e = fwrite_at ((1 + 2 * f) * 512) (replicate (512 * 32) 0) c"
  have w: "mkfs_write t ts img = fold (\<lambda>i. fwrite_at ((33 + 2 * f) * 512 + i * 512) (replicate 512 0)) [0..<n] e"
    unfolding mkfs_write_def Let_def a_def b_def c_def e_def d f_def [symmetric] g_def [symmetric] n_def [symmetric] by simp
  have la: "length a = length img" unfolding a_def by (rule fwrite_length) (use fits in simp)
  have lb: "length b = length img" unfolding b_def using fits la by (simp add: fwrite_length g)
  have lc: "length c = length img" unfolding c_def using fits lb by (simp add: fwrite_length g)
  have le: "length e = length img" unfolding e_def using fits lc by (simp add: fwrite_length)
  have z: "(33 + 2 * f) * 512 + n * 512 \<le> length e" using fits le by simp
  show "length (mkfs_write t ts img) = length img" unfolding w using zero_sectors(1) [OF z] le by simp
  have na: "a ! i = (if i < 512 then boot_sector_bytes (mk_boot t ts) ! i else img ! i)"
    unfolding a_def using fits by (subst fwrite_nth) simp_all
  have nb: "b ! i = (if 512 \<le> i \<and> i < (1 + f) * 512 then g ! (i - 512) else a ! i)"
    unfolding b_def using fits la by (subst fwrite_nth) (simp_all add: g)
  have nc: "c ! i = (if (1 + f) * 512 \<le> i \<and> i < (1 + 2 * f) * 512 then g ! (i - (1 + f) * 512) else b ! i)"
    unfolding c_def using fits lb by (subst fwrite_nth) (simp_all add: g)
  have ne: "e ! i = (if (1 + 2 * f) * 512 \<le> i \<and> i < (33 + 2 * f) * 512 then 0 else c ! i)"
    unfolding e_def using fits lc by (subst fwrite_nth) (auto simp del: replicate.simps)
  show "mkfs_write t ts img ! i =
      (let f = unat (mk_sectors_per_fat ts) in
       if i < 512 then boot_sector_bytes (mk_boot t ts) ! i
       else if i < (1 + f) * 512 then mk_fat (mk_sectors_per_fat ts) ! (i - 512)
       else if i < (1 + 2 * f) * 512 then mk_fat (mk_sectors_per_fat ts) ! (i - (1 + f) * 512)
       else if i < (33 + 2 * f + min (unat (mk_data_sectors ts)) 1000) * 512 then 0 else img ! i)"
    unfolding w zero_sectors(2) [OF z] ne nc nb na Let_def f_def [symmetric] g_def [symmetric] n_def [symmetric] by auto
qed

section \<open>Mounting the image\<close>

definition sector_of :: "u8 list \<Rightarrow> nat \<Rightarrow> u8 list" where
  "sector_of img n = take 512 (drop (n * 512) img)"

lemma sector_of_nth: "(n + 1) * 512 \<le> length img \<Longrightarrow> j < 512 \<Longrightarrow> sector_of img n ! j = img ! (n * 512 + j)"
  "(n + 1) * 512 \<le> length img \<Longrightarrow> length (sector_of img n) = 512"
  by (simp_all add: sector_of_def)

text \<open>What \<open>fat_fs\<close> is to hold: the sizes with which the tool wrote the image.\<close>

definition mkfs_volume :: "u8 \<Rightarrow> u32 \<Rightarrow> fat_fs_t" where
  "mkfs_volume drive ts =
     zero_fat_fs\<lparr>fs_drive := drive, partition_start := 0, bytes_per_sector := 512, sectors_per_cluster := 4, reserved_sectors := 1,
       num_fats := 2, root_entries := 512, sectors_per_fat := mk_sectors_per_fat ts, total_sectors := ts, fat_start := 1,
       root_dir_start := 1 + 2 * ucast (mk_sectors_per_fat ts), data_start := mk_data_start ts, total_clusters := mk_total_clusters ts\<rparr>"

lemma mkfs_volume_fields [simp]:
  "sectors_per_fat (mkfs_volume drive ts) = mk_sectors_per_fat ts" "fat_start (mkfs_volume drive ts) = 1"
  "(mkfs_volume drive ts)\<lparr>fat_table := tb, fat_dirty := False\<rparr> = (mkfs_volume drive ts)\<lparr>fat_table := tb\<rparr>"
  by (simp_all add: mkfs_volume_def zero_fat_fs_def)

lemma byte_put: "k < length bs \<Longrightarrow> length bs = 512 \<Longrightarrow> put_bytes b bs m (b + of_nat k) = bs ! k"
  by simp

lemma ld16_put:
  assumes "k + 1 < 512" "length bs = 512"
  shows "ld16 (put_bytes b bs m) (b + of_nat k) = ucast (bs ! k) OR push_bit 8 (ucast (bs ! (k + 1)))"
  using assms byte_put [of k bs b m] byte_put [of "k + 1" bs b m] by (simp add: ld16_def ac_simps)

lemma ld32_put:
  assumes "k + 3 < 512" "length bs = 512"
  shows "ld32 (put_bytes b bs m) (b + of_nat k) =
    ucast (bs ! k) OR push_bit 8 (ucast (bs ! (k + 1))) OR push_bit 16 (ucast (bs ! (k + 2))) OR push_bit 24 (ucast (bs ! (k + 3)))"
  using assms byte_put [of k bs b m] byte_put [of "k + 1" bs b m] byte_put [of "k + 2" bs b m] byte_put [of "k + 3" bs b m]
  by (simp add: ld32_def ac_simps)

lemma word_quarters:
  "ucast (ucast v :: u8) OR push_bit 8 (ucast (ucast (drop_bit 8 v) :: u8)) OR push_bit 16 (ucast (ucast (drop_bit 16 v) :: u8)) OR
   push_bit 24 (ucast (ucast (drop_bit 24 v) :: u8)) = (v :: u32)"
proof (rule bit_word_eqI)
  fix n :: nat assume "n < LENGTH(32)"
  then consider "n < 8" | "8 \<le> n" "n < 16" | "16 \<le> n" "n < 24" | "24 \<le> n" "n < 32" by fastforce
  then show "bit (ucast (ucast v :: u8) OR push_bit 8 (ucast (ucast (drop_bit 8 v) :: u8)) OR push_bit 16 (ucast (ucast (drop_bit 16 v) :: u8)) OR
      push_bit 24 (ucast (ucast (drop_bit 24 v) :: u8)) :: u32) n = bit v n"
    by cases (auto simp: bit_simps)
qed

lemma boot_field_at:
  fixes t ts b m
  defines "M \<equiv> put_bytes b (boot_sector_bytes (mk_boot t ts)) m"
  shows "ld16 M (b + 11) = 512" "M (b + 13) = 4" "ld16 M (b + 14) = 1" "M (b + 16) = 2" "ld16 M (b + 17) = 512"
    "ld16 M (b + 19) = (if ts < 65536 then ucast ts else 0)" "ld16 M (b + 22) = mk_sectors_per_fat ts"
    "ld32 M (b + 32) = (if ts \<ge> 65536 then ts else 0)" "ld16 M (b + 510) = 0xAA55"
proof -
  let ?B = "boot_sector_bytes (mk_boot t ts)"
  note f = ld16_put [of _ ?B b m, OF _ length_boot, folded M_def]
  note e = boot_sector_bytes_def mk_boot_def lit_def le16_def le32_def nth_append
  show "ld16 M (b + 11) = 512" using f [of 11] by (simp add: e)
  show "M (b + 13) = 4" using byte_put [of 13 ?B b m] by (simp add: M_def e)
  show "ld16 M (b + 14) = 1" using f [of 14] by (simp add: e)
  show "M (b + 16) = 2" using byte_put [of 16 ?B b m] by (simp add: M_def e)
  show "ld16 M (b + 17) = 512" using f [of 17] by (simp add: e)
  have "?B ! 19 = ucast (bs_total_sectors_16 (mk_boot t ts))" "?B ! 20 = ucast (drop_bit 8 (bs_total_sectors_16 (mk_boot t ts)))"
    "?B ! 22 = ucast (mk_sectors_per_fat ts)" "?B ! 23 = ucast (drop_bit 8 (mk_sectors_per_fat ts))"
    by (simp_all add: e)
  then show "ld16 M (b + 19) = (if ts < 65536 then ucast ts else 0)" "ld16 M (b + 22) = mk_sectors_per_fat ts"
    using f [of 19] f [of 22] by (simp_all add: word_halves mk_boot_def)
  have "ld32 M (b + of_nat 32) = bs_total_sectors_32 (mk_boot t ts)"
    unfolding M_def by (subst ld32_put) (simp_all add: boot_sector_bytes_def mk_boot_def lit_def le16_def le32_def nth_append word_quarters)
  then show "ld32 M (b + 32) = (if ts \<ge> 65536 then ts else 0)" by (simp add: mk_boot_def)
  show "ld16 M (b + 510) = 0xAA55" using f [of 510] by (simp add: e)
qed

lemma boot_fields_mkfs:
  assumes "4085 \<le> mk_total_clusters ts" "mk_total_clusters ts < 65525"
  shows "boot_fields (put_bytes b (boot_sector_bytes (mk_boot t ts)) m) b drive 0 = Some (mkfs_volume drive ts)"
proof -
  have "ucast ts \<noteq> (0 :: u16)" "ucast (ucast ts :: u16) = ts" if "ts < 65536"
  proof -
    have n: "unat (ucast ts :: u16) = unat ts"
      using that by (simp add: unsigned_ucast_eq take_bit_nat_eq_self word_less_nat_alt)
    have "unat ts \<noteq> 0" using mk_sizes(2) [OF assms] by simp
    then show "ucast ts \<noteq> (0 :: u16)" using n by (metis unat_0)
    show "ucast (ucast ts :: u16) = ts" using n by (simp add: word_unat_eq_iff)
  qed
  then show ?thesis
    by (simp add: boot_fields_def boot_field_at Let_def mkfs_volume_def mk_data_start_def mk_total_clusters_def mk_data_sectors_def
        mk_root_dir_sectors_def not_less [symmetric])
qed

lemma table_offset:
  assumes "(unat i + 1) * 512 \<le> 4294967296" "x < 4294967296" "length bs = 512"
  shows "put_bytes (tb + i * 512) bs m (tb + of_nat x) =
    (if unat i * 512 \<le> x \<and> x < unat i * 512 + length bs then bs ! (x - unat i * 512) else m (tb + of_nat x))"
proof -
  have "unat (i * 512) = unat i * 512" "unat (of_nat x :: u32) = x" using assms by (simp_all add: unat_word_ariths unat_of_nat)
  then have "unat (of_nat x - i * 512 :: u32) = (if unat i * 512 \<le> x then x - unat i * 512 else x + 4294967296 - unat i * 512)"
    by (simp add: u32_minus)
  then show ?thesis using assms by (auto simp: put_bytes_def)
qed

lemma load_table_pio:
  assumes "disk_ready D ini (disk s) drive" "fat_dev E = pio_disk D ini" "unat n * 512 \<le> 4294967296"
  shows "\<exists>a' m'. load_table E drive n i s = (True, s\<lparr>disk := a', fmem := m'\<rparr>) \<and> disk_bytes D ini a' = disk_bytes D ini (disk s) \<and>
    disk_ready D ini a' drive \<and>
    (\<forall>x < unat n * 512. m' (fat_table (fat_fs s) + of_nat x) =
       (if x < unat i * 512 then fmem s (fat_table (fat_fs s) + of_nat x)
        else disk_bytes D ini (disk s) drive (take_bit 28 (fat_start (fat_fs s) + of_nat (x div 512))) ! (x mod 512)))"
  using assms
proof (induction E drive n i s rule: load_table.induct)
  case (1 E drive n i s)
  show ?case
  proof (cases "i < n")
    case False
    then have "x < unat i * 512" if "x < unat n * 512" for x using that by (simp add: word_less_nat_alt not_less)
    then show ?thesis using False 1(2) by (intro exI [of _ "disk s"] exI [of _ "fmem s"]) (simp add: load_table.simps [of E drive n i])
  next
    case True
    let ?tb = "fat_table (fat_fs s)" and ?st = "fat_start (fat_fs s)"
    let ?sec = "\<lambda>l. disk_bytes D ini (disk s) drive (take_bit 28 l)"
    obtain a where a: "ata_read_sector (pio_disk D ini) drive (?st + i) (?tb + i * 512) (disk s) (fmem s) =
        (0, a, put_bytes (?tb + i * 512) (?sec (?st + i)) (fmem s))" "disk_bytes D ini a = disk_bytes D ini (disk s)" "disk_ready D ini a drive"
      using pio.read_sector [OF 1(2)] 1(2) by blast
    let ?s = "s\<lparr>disk := a, fmem := put_bytes (?tb + i * 512) (?sec (?st + i)) (fmem s)\<rparr>"
    have r: "fs_read_sector (fat_dev E) drive (?st + i) (?tb + i * 512) s = (0, ?s)"
      by (simp add: fs_read_sector_def 1(3) a(1))
    have len: "length (?sec (?st + i)) = 512" by (rule pio.sector_length [OF 1(2)])
    have i: "unat (i + 1) = unat i + 1" using True by (simp add: unat_Suc_less)
    have in': "unat i + 1 \<le> unat n" using True by (simp add: word_less_nat_alt)
    from 1(1) [OF True r [symmetric] refl] obtain a' m' where
      h: "load_table E drive n (i + 1) ?s = (True, s\<lparr>disk := a', fmem := m'\<rparr>)" "disk_bytes D ini a' = disk_bytes D ini (disk s)" "disk_ready D ini a' drive"
      "\<And>x. x < unat n * 512 \<Longrightarrow> m' (?tb + of_nat x) = (if x < unat (i + 1) * 512 then fmem ?s (?tb + of_nat x) else ?sec (?st + of_nat (x div 512)) ! (x mod 512))"
      using a 1(3,4) by auto
    have "m' (?tb + of_nat x) = (if x < unat i * 512 then fmem s (?tb + of_nat x) else ?sec (?st + of_nat (x div 512)) ! (x mod 512))"
      if x: "x < unat n * 512" for x
    proof -
      have "x div 512 = unat i \<and> x mod 512 = x - unat i * 512" if "unat i * 512 \<le> x" "x < unat i * 512 + 512"
      proof -
        have "x div 512 = unat i" using that by (auto intro: div_nat_eqI)
        then show ?thesis by (simp add: minus_div_mult_eq_mod [symmetric])
      qed
      moreover have "fmem ?s (?tb + of_nat x) = (if unat i * 512 \<le> x \<and> x < unat i * 512 + 512 then ?sec (?st + i) ! (x - unat i * 512) else fmem s (?tb + of_nat x))"
        using table_offset [of i x "?sec (?st + i)" ?tb "fmem s"] in' x 1(4) len by simp
      ultimately show ?thesis using h(4) [OF x] i by auto
    qed
    then show ?thesis using True r h(1-3) by (intro exI [of _ a'] exI [of _ m']) (simp add: load_table.simps [of E drive n i])
  qed
qed

text \<open>The allocations of \<open>fat_mount\<close> on a heap that grants them all: the addresses of the table and of the root node. Whether the frames of a table
  of several pages lie one after the other is not asked for, as \<open>kmalloc\<close> does not ask for it either.\<close>

definition mount_memory :: "u16 \<Rightarrow> heap_state \<Rightarrow> (u32 \<times> u32) option" where
  "mount_memory spf h =
     (case kmalloc 512 h of None \<Rightarrow> None
      | Some (b, h) \<Rightarrow> if b = NULL then None
          else (case kfree b h of None \<Rightarrow> None
            | Some h \<Rightarrow> (case kmalloc (ucast spf * 512) h of None \<Rightarrow> None
                | Some (tb, h) \<Rightarrow> if tb = NULL then None
                    else (case kmalloc 308 h of None \<Rightarrow> None
                      | Some (root, h) \<Rightarrow> if root = NULL then None
                          else (case kmalloc 12 h of None \<Rightarrow> None
                            | Some (d, h) \<Rightarrow> if d = NULL then None else Some (tb, root))))))"

lemma mount_memoryE:
  assumes "mount_memory spf h = Some (tb, root)"
  obtains b h1 h2 h3 h4 d h5 where "kmalloc 512 h = Some (b, h1)" "b \<noteq> NULL" "kfree b h1 = Some h2"
    "kmalloc (ucast spf * 512) h2 = Some (tb, h3)" "tb \<noteq> NULL" "kmalloc 308 h3 = Some (root, h4)" "root \<noteq> NULL"
    "kmalloc 12 h4 = Some (d, h5)" "d \<noteq> NULL"
  using assms that by (auto simp: mount_memory_def split: option.splits if_splits prod.splits)

lemma mkfs_accepts:
  assumes "mkfs_main argc t (Some img) = (0, Some img')"
  defines "ts \<equiv> of_nat (length img div 512)"
  shows "4085 \<le> mk_total_clusters ts" "mk_total_clusters ts < 65525" "img' = mkfs_write t ts img" "unat ts * 512 \<le> length img"
proof -
  show "4085 \<le> mk_total_clusters ts" "mk_total_clusters ts < 65525" "img' = mkfs_write t ts img"
    using assms(1) by (auto simp: mkfs_main_def Let_def ts_def not_less not_le split: if_splits)
  have "unat ts \<le> length img div 512" by (simp add: ts_def unat_of_nat)
  then show "unat ts * 512 \<le> length img" by simp
qed

lemma mk_fat_nth: "mk_fat f ! 0 = 0xF8" "mk_fat f ! Suc 0 = 0xFF" "mk_fat f ! 2 = 0xFF" "mk_fat f ! 3 = 0xFF"
  "4 \<le> x \<Longrightarrow> x < unat f * 512 \<Longrightarrow> mk_fat f ! x = 0"
  by (simp_all add: mk_fat_def le16_def nth_append)

text \<open>The sectors of the image that the kernel reads.\<close>

lemma mkfs_sectors:
  fixes t ts img
  assumes ok: "4085 \<le> mk_total_clusters ts" "mk_total_clusters ts < 65525" and len: "unat ts * 512 \<le> length img"
  defines "img' \<equiv> mkfs_write t ts img" and "f \<equiv> mk_sectors_per_fat ts"
  shows "sector_of img' 0 = boot_sector_bytes (mk_boot t ts)"
    "x < unat f * 512 \<Longrightarrow> sector_of img' (1 + x div 512) ! (x mod 512) = mk_fat f ! x"
    "1 + 2 * unat f \<le> n \<Longrightarrow> n < 33 + 2 * unat f \<Longrightarrow> sector_of img' n = replicate 512 0"
proof -
  note sizes = mk_sizes [OF ok, folded f_def] and image = mkfs_image [OF ok len, of t, folded img'_def f_def]
  have l: "(33 + 2 * unat f) * 512 \<le> length img'" using sizes(2) len image(1) by simp
  show "sector_of img' 0 = boot_sector_bytes (mk_boot t ts)"
    using l by (intro nth_equalityI) (simp_all add: sector_of_nth image(2) Let_def)
  show "sector_of img' (1 + x div 512) ! (x mod 512) = mk_fat f ! x" if x: "x < unat f * 512"
  proof -
    have "x div 512 < unat f" using x by (simp add: div_less_iff_less_mult)
    then have "sector_of img' (1 + x div 512) ! (x mod 512) = img' ! ((1 + x div 512) * 512 + x mod 512)"
      using l by (intro sector_of_nth(1)) simp_all
    also have "(1 + x div 512) * 512 + x mod 512 = 512 + x" by simp
    finally show ?thesis using x by (simp add: image(2) Let_def)
  qed
  show "sector_of img' n = replicate 512 0" if "1 + 2 * unat f \<le> n" "n < 33 + 2 * unat f"
  proof (rule nth_equalityI)
    have n: "(n + 1) * 512 \<le> length img'" using l that by simp
    then show "length (sector_of img' n) = length (replicate 512 (0 :: u8))" by (simp only: sector_of_nth length_replicate)
    fix j assume "j < length (sector_of img' n)"
    with n have j: "j < 512" by (simp add: sector_of_nth)
    have lo: "(1 + 2 * unat f) * 512 \<le> n * 512 + j" using that(1) by simp
    have "(n + 1) * 512 \<le> (33 + 2 * unat f + min (unat (mk_data_sectors ts)) 1000) * 512" using that(2) by simp
    then have hi: "n * 512 + j < (33 + 2 * unat f + min (unat (mk_data_sectors ts)) 1000) * 512" using j by simp
    have "img' ! (n * 512 + j) = 0"
    proof -
      have "\<not> n * 512 + j < 512" "\<not> n * 512 + j < (1 + unat f) * 512" "\<not> n * 512 + j < (1 + 2 * unat f) * 512" using lo by auto
      then show ?thesis by (simp only: image(2) Let_def hi if_False if_True)
    qed
    then show "sector_of img' n ! j = replicate 512 0 ! j" using n j by (simp only: sector_of_nth nth_replicate)
  qed
qed

text \<open>The table in memory after mounting.\<close>

lemma table_entries:
  assumes "\<And>x. x < unat f * 512 \<Longrightarrow> fmem s (fat_table (fat_fs s) + of_nat x) = mk_fat f ! x" "0 < unat f"
  shows "fat_entry s 0 = 0xFFF8" "fat_entry s 1 = 0xFFFF" "2 \<le> c \<Longrightarrow> unat c < 256 * unat f \<Longrightarrow> fat_entry s c = 0"
proof -
  let ?t = "fat_table (fat_fs s)"
  have "fmem s ?t = 0xF8" "fmem s (?t + 1) = 0xFF" "fmem s (?t + 2) = 0xFF" "fmem s (?t + 3) = 0xFF"
    using assms(1) [of 0] assms(1) [of 1] assms(1) [of 2] assms(1) [of 3] assms(2) by (simp_all add: mk_fat_nth)
  then show "fat_entry s 0 = 0xFFF8" "fat_entry s 1 = 0xFFFF" by (simp_all add: fat_entry_def ld16_def add.assoc)
  show "fat_entry s c = 0" if "2 \<le> c" "unat c < 256 * unat f"
  proof -
    have "of_nat (2 * unat c) = (2 * ucast c :: u32)" by (simp add: word_unat_eq_iff unat_of_nat unat_word_ariths)
    moreover have "2 \<le> unat c" using that(1) by (simp add: word_le_nat_alt)
    ultimately have "fmem s (?t + of_nat (2 * unat c)) = 0" "fmem s (?t + of_nat (2 * unat c + 1)) = 0" "of_nat (2 * unat c) = (2 * ucast c :: u32)"
      using assms(1) [of "2 * unat c"] assms(1) [of "2 * unat c + 1"] that(2) by (simp_all del: of_nat_mult of_nat_add add: mk_fat_nth(5))
    then have "fmem s (?t + 2 * ucast c) = 0" "fmem s (?t + (2 * ucast c + 1)) = 0" by (simp_all only: of_nat_add of_nat_1)
    then show ?thesis by (simp add: fat_entry_def ld16_def add.assoc)
  qed
qed

lemma fat_mount_mkfs:
  assumes ok: "4085 \<le> mk_total_clusters ts" "mk_total_clusters ts < 65525" and len: "unat ts * 512 \<le> length img"
    and dev: "fat_dev E = pio_disk D ini" "disk_ready D ini (disk s) drive"
    and dsk: "\<forall>n < unat ts. disk_bytes D ini (disk s) drive (of_nat n) = sector_of (mkfs_write t ts img) n"
    and mem: "mount_memory (mk_sectors_per_fat ts) (fheap s) = Some (tb, root)"
  shows "\<exists>s'. fat_mount E drive 0 s = Some (root, s') \<and> fat_initialized s' \<and> fat_fs s' = (mkfs_volume drive ts)\<lparr>fat_table := tb\<rparr> \<and>
    n_type (nodes s' root) = VFS_DIRECTORY \<and> n_ops (nodes s' root) = FAT_OPS \<and> dir_cluster_of root s' = 0 \<and>
    (\<forall>x < unat (mk_sectors_per_fat ts) * 512. fmem s' (tb + of_nat x) = mk_fat (mk_sectors_per_fat ts) ! x)"
proof -
  let ?f = "mk_sectors_per_fat ts" and ?B = "boot_sector_bytes (mk_boot t ts)"
  note sizes = mk_sizes [OF ok] and sec = mkfs_sectors [OF ok len, where t = t]
  obtain b h1 h2 h3 h4 d h5 where h: "kmalloc 512 (fheap s) = Some (b, h1)" "b \<noteq> NULL" "kfree b h1 = Some h2"
    "kmalloc (ucast ?f * 512) h2 = Some (tb, h3)" "tb \<noteq> NULL" "kmalloc 308 h3 = Some (root, h4)" "root \<noteq> NULL"
    "kmalloc 12 h4 = Some (d, h5)" "d \<noteq> NULL"
    using mem by (rule mount_memoryE)
  have T: "0 < unat ts" using sizes(2) by simp
  then have "disk_bytes D ini (disk s) drive (take_bit 28 0) = ?B" using dsk [rule_format, of 0] sec(1) by simp
  then obtain a where a: "ata_read_sector (pio_disk D ini) drive 0 b (disk s) (fmem s) = (0, a, put_bytes b ?B (fmem s))"
    "disk_bytes D ini a = disk_bytes D ini (disk s)" "disk_ready D ini a drive"
    using pio.read_sector [OF dev(2), of 0 b "fmem s"] dev(2) by metis
  let ?s = "s\<lparr>disk := a, fmem := put_bytes b ?B (fmem s), fheap := h3, fat_fs := (mkfs_volume drive ts)\<lparr>fat_table := tb\<rparr>\<rparr>"
  have uf: "unat (ucast ?f :: u32) = unat ?f" by simp
  have fb: "unat ?f < 65536" using unsigned_less [of ?f, where ?'a = nat] by simp
  obtain a' m' where l: "load_table E drive (ucast ?f) 0 ?s = (True, ?s\<lparr>disk := a', fmem := m'\<rparr>)"
    "\<And>x. x < unat ?f * 512 \<Longrightarrow> m' (tb + of_nat x) = disk_bytes D ini (disk s) drive (take_bit 28 (1 + of_nat (x div 512))) ! (x mod 512)"
    using load_table_pio [of D ini ?s drive E "ucast ?f" 0] dev(1) a uf fb by auto
  have tab: "m' (tb + of_nat x) = mk_fat ?f ! x" if x: "x < unat ?f * 512" for x
  proof -
    have k: "x div 512 < unat ?f" using x by (simp add: div_less_iff_less_mult)
    then have k': "1 + x div 512 < unat ts" "1 + x div 512 < 268435456" using sizes(2,6) by simp_all
    have "take_bit 28 (1 + of_nat (x div 512) :: u32) = of_nat (1 + x div 512)"
      using k'(2) by (simp add: word_unat_eq_iff unsigned_take_bit_eq take_bit_nat_eq_self unat_word_ariths unat_of_nat)
    then have "m' (tb + of_nat x) = sector_of (mkfs_write t ts img) (1 + x div 512) ! (x mod 512)" using l(2) [OF x] dsk k'(1) by metis
    then show ?thesis using sec(2) [OF x] by simp
  qed
  let ?u = "s\<lparr>fheap := h3, disk := a', fmem := m', fat_fs := (mkfs_volume drive ts)\<lparr>fat_table := tb\<rparr>, fat_initialized := True\<rparr>"
  have "fat_mount E drive 0 s = mount_root ?u"
    using h(1-5) l(1) by (simp add: fat_mount_def fs_kmalloc_def fs_kfree_def fs_read_sector_def dev(1) a(1) boot_field_at boot_fields_mkfs [OF ok])
  moreover have "mount_root ?u = Some (root, upd_node root (\<lambda>n. n\<lparr>n_impl := d\<rparr>) (set_first_cluster d 0
      ((upd_node root (\<lambda>_. zero_node\<lparr>n_type := VFS_DIRECTORY, n_ops := FAT_OPS\<rparr>) ?u)\<lparr>fheap := h5\<rparr>)))"
    using h(6-9) by (simp add: mount_root_def fs_kmalloc_def upd_node_def Let_def)
  ultimately show ?thesis
    by (intro exI [of _ "upd_node root (\<lambda>n. n\<lparr>n_impl := d\<rparr>) (set_first_cluster d 0
      ((upd_node root (\<lambda>_. zero_node\<lparr>n_type := VFS_DIRECTORY, n_ops := FAT_OPS\<rparr>) ?u)\<lparr>fheap := h5\<rparr>))"])
      (simp add: tab upd_node_def set_first_cluster_def dir_cluster_of_def h(9))
qed

section \<open>An example\<close>

text \<open>A disk with a given image.\<close>

fun bytes_words :: "u8 list \<Rightarrow> u16 list" where
  "bytes_words (a # b # bs) = (ucast a OR push_bit 8 (ucast b)) # bytes_words bs"
| "bytes_words _ = []"

definition image_pio :: "u8 list \<Rightarrow> pio" where
  "image_pio img = blank_pio\<lparr>platter := (\<lambda>_ l. bytes_words (take 512 (sector_of img (unat l) @ replicate 512 0)))\<rparr>"

lemma bytes_words: "even (length bs) \<Longrightarrow> word_bytes (bytes_words bs) = bs \<and> length (bytes_words bs) = length bs div 2"
proof (induction bs rule: bytes_words.induct)
  case (1 a b bs)
  then have "word_bytes (bytes_words (a # b # bs)) = a # b # bs" by (simp only: bytes_words.simps word_bytes_simps half_bytes) simp
  with 1 show ?case by simp
qed simp_all

lemma image_pio_ready: "disk_ready 10 (image_pio img) one_drive 0"
proof -
  have "length (bytes_words (take 512 (x @ replicate 512 0))) = 256" for x
    using bytes_words [of "take 512 (x @ replicate 512 0)"] length_take [of 512 "x @ replicate 512 (0 :: u8)"]
    by (simp del: take_append length_take)
  then show ?thesis by (simp add: disk_ready_def one_drive_def image_pio_def blank_pio_def del: take_append)
qed

lemma image_pio_bytes:
  assumes "(n + 1) * 512 \<le> length img" "n < 4294967296"
  shows "disk_bytes 10 (image_pio img) one_drive 0 (of_nat n) = sector_of img n"
proof -
  have "unat (of_nat n :: u32) = n" using assms(2) by (simp add: unat_of_nat)
  moreover have "take 512 (sector_of img n @ replicate 512 0) = sector_of img n" "length (sector_of img n) = 512"
    using sector_of_nth(2) [OF assms(1)] by (simp_all add: sector_of_def)
  ultimately show ?thesis by (simp add: disk_bytes_def one_drive_def image_pio_def bytes_words)
qed

text \<open>A heap with one free block, and four free frames.\<close>

definition mount_heap :: heap_state where
  "mount_heap = three_block_heap\<lparr>pmm := \<lparr>pmm_bitmap = [0xFFFFFFC3], used_blocks = 28, max_blocks = 32\<rparr>\<rparr>"

lemma kmalloc_found:
  assumes "sz \<noteq> 0" "total_size sz < PAGE_SIZE div 2" "find_block (blocks h) sz NULL (free_list h) = Some (NULL, cur)" "cur \<noteq> NULL"
  shows "kmalloc sz h = Some (cur + HEADER, take_block sz NULL cur h)"
  using assms by (subst kmalloc.simps) (simp add: not_less [symmetric])

lemma mount_heap_grants: "mount_memory 17 mount_heap = Some (0x2004, 0x1070)"
proof -
  have s: "total_size 512 = 528" "total_size 308 = 328" "total_size 12 = 32" "total_size 8704 = 8720"
    "align_size 512 = 512" "align_size 308 = 312" "align_size 12 = 16"
    by (simp_all add: total_size_def align_size_def)
  note h = mount_heap_def three_block_heap_def one_block_heap_def
  let ?h1 = "take_block 512 NULL 0x1060 mount_heap"
  have m1: "kmalloc 512 mount_heap = Some (0x1070, ?h1)"
    using kmalloc_found [of 512 mount_heap "0x1060"] by (simp add: s h find_block.simps)
  have b1: "blocks ?h1 = (blocks mount_heap)(0x1270 := \<lparr>hb_size = 3456, hb_next = 0, hb_free = 1, hb_magic = HEAP_MAGIC\<rparr>,
      0x1060 := \<lparr>hb_size = 512, hb_next = 0x1270, hb_free = 0, hb_magic = HEAP_MAGIC\<rparr>)" "free_list ?h1 = 0x1270" "pmm ?h1 = pmm mount_heap"
    by (simp_all add: take_block_def split_block_def s h Let_def)
  let ?bl = "(blocks ?h1)(0x1060 := \<lparr>hb_size = 3984, hb_next = 0, hb_free = 1, hb_magic = HEAP_MAGIC\<rparr>)"
  let ?h2 = "?h1\<lparr>blocks := ?bl, free_list := 0x1060\<rparr>"
  have "merge_loop 0x1060 ((blocks ?h1)(0x1060 := \<lparr>hb_size = 512, hb_next = 0x1270, hb_free = 1, hb_magic = HEAP_MAGIC\<rparr>)) = Some ?bl"
    by (subst merge_loop.simps) (simp add: b1 merge_loop.simps)
  then have m2: "kfree 0x1070 ?h1 = Some ?h2" by (simp add: kfree_def merge_blocks_def b1)
  have pm: "pmm mount_heap = \<lparr>pmm_bitmap = [0xFFFFFFC3], used_blocks = 28, max_blocks = 32\<rparr>" by (simp add: mount_heap_def)
  let ?p = "\<lparr>pmm_bitmap = [0xFFFFFFDF], used_blocks = 31, max_blocks = 32\<rparr>"
  have "pmm_alloc_block \<lparr>pmm_bitmap = [0xFFFFFFC3], used_blocks = 28, max_blocks = 32\<rparr> = (0x2000, \<lparr>pmm_bitmap = [0xFFFFFFC7], used_blocks = 29, max_blocks = 32\<rparr>)"
    "pmm_alloc_block \<lparr>pmm_bitmap = [0xFFFFFFC7], used_blocks = 29, max_blocks = 32\<rparr> = (0x3000, \<lparr>pmm_bitmap = [0xFFFFFFCF], used_blocks = 30, max_blocks = 32\<rparr>)"
    "pmm_alloc_block \<lparr>pmm_bitmap = [0xFFFFFFCF], used_blocks = 30, max_blocks = 32\<rparr> = (0x4000, \<lparr>pmm_bitmap = [0xFFFFFFDF], used_blocks = 31, max_blocks = 32\<rparr>)"
    by (simp_all add: pmm_alloc_block_def pmm_alloc_loop.simps bitmap_test_def bitmap_set_def)
  then have m3: "kmalloc 8704 ?h2 = Some (0x2004, ?h2\<lparr>pmm := ?p, blocks := ?bl(0x2000 := (?bl 0x2000)\<lparr>hb_size := 0x3000\<rparr>)\<rparr>)"
    by (simp add: kmalloc_big s kmalloc_large_def more_pages_step b1(3) pm)
  let ?h3 = "?h2\<lparr>pmm := ?p, blocks := ?bl(0x2000 := (?bl 0x2000)\<lparr>hb_size := 0x3000\<rparr>)\<rparr>"
  have m4: "kmalloc 308 ?h3 = Some (0x1070, take_block 308 NULL 0x1060 ?h3)"
    using kmalloc_found [of 308 ?h3 "0x1060"] by (simp add: s find_block.simps)
  let ?h4 = "take_block 308 NULL 0x1060 ?h3"
  have "free_list ?h4 = 0x11A8" "hb_free (blocks ?h4 0x11A8) = 1" "hb_size (blocks ?h4 0x11A8) = 3656"
    by (simp_all add: take_block_def split_block_def s Let_def)
  then have m5: "kmalloc 12 ?h4 = Some (0x11B8, take_block 12 NULL 0x11A8 ?h4)"
    using kmalloc_found [of 12 ?h4 "0x11A8"] by (simp add: s find_block.simps)
  have "ucast (17 :: u16) * 512 = (8704 :: u32)" by simp
  then show ?thesis by (simp only: mount_memory_def m1 m2 m3 m4 m5 option.case prod.case) simp
qed

text \<open>A blank image of 16500 sectors.\<close>

definition blank_image :: "u8 list" where
  "blank_image = replicate (16500 * 512) 0"

lemma blank_image_sectors: "length blank_image div 512 = 16500" "length blank_image = 8448000"
  by (simp_all only: blank_image_def length_replicate)

lemma blank_sizes: "mk_sectors_per_fat 16500 = 17" "mk_total_clusters 16500 = 4108"
  by (simp_all add: mk_sectors_per_fat_def mk_root_dir_sectors_def mk_total_clusters_def mk_data_sectors_def mk_data_start_def)

lemma blank_formatted: "mkfs_main 2 t (Some blank_image) = (0, Some (mkfs_write t 16500 blank_image))"
  by (simp add: mkfs_main_def blank_image_sectors(2) blank_sizes Let_def)

section \<open>Properties\<close>

lemma table_arith:
  fixes D :: nat
  assumes "2 * ((D + 1025) div 1026) \<le> D" "1026 \<le> D"
  shows "(D - 2 * ((D + 1025) div 1026)) div 4 \<le> 256 * ((D + 1025) div 1026)"
    "(D - 2 * ((D + 1025) div 1026)) div 4 + 2 \<le> 256 * ((D + 1025) div 1026) \<longleftrightarrow> D mod 1026 \<in> {1..1021}"
proof -
  define q r where "q = D div 1026" and "r = D mod 1026"
  have D: "D = 1026 * q + r" and r: "r < 1026" by (simp_all add: q_def r_def)
  have q: "1 \<le> q" using assms(2) by (simp add: q_def div_greater_zero_iff Suc_le_eq)
  have f: "(D + 1025) div 1026 = (if r = 0 then q else q + 1)"
  proof (cases "r = 0")
    case True then show ?thesis using D by simp
  next
    case False
    then have "D + 1025 = 1026 * (q + 1) + (r - 1)" using D by simp
    moreover have "(1026 * (q + 1) + (r - 1)) div 1026 = q + 1" using r by (intro div_nat_eqI) auto
    ultimately show ?thesis using False by simp
  qed
  show "(D - 2 * ((D + 1025) div 1026)) div 4 \<le> 256 * ((D + 1025) div 1026)"
    unfolding f using D r by auto
  show "(D - 2 * ((D + 1025) div 1026)) div 4 + 2 \<le> 256 * ((D + 1025) div 1026) \<longleftrightarrow> D mod 1026 \<in> {1..1021}"
  proof -
    have "N div 4 + 2 \<le> 256 * k \<longleftrightarrow> N < 1024 * k - 4" if "1 \<le> k" for N k :: nat
    proof -
      have "N div 4 + 2 \<le> 256 * k \<longleftrightarrow> N div 4 < 256 * k - 1" using that by auto
      also have "\<dots> \<longleftrightarrow> N < 1024 * k - 4" by (simp add: div_less_iff_less_mult diff_mult_distrib)
      finally show ?thesis .
    qed
    then show ?thesis unfolding f r_def [symmetric] atLeastAtMost_iff using D r q by auto
  qed
qed

text \<open>C39: the size of the allocation table that the formatter chooses. For every image that it accepts there is at least one
  entry for each cluster, but entries 0 and 1 are reserved, and the two are forgotten in the division: every cluster number that the kernel
  uses on the mounted volume has its entry inside the table exactly when the sectors that are not reserved and not of the
  root directory leave a remainder between 1 and 1021 modulo 1026. For the other sizes the entry of the last cluster is
  behind the bytes that \<open>fat_mount\<close> allocates and loads.\<close>

theorem mkfs_table_covers:
  assumes "mkfs_main argc t (Some img) = (0, Some img')" "ts = of_nat (length img div 512)"
    and "fat_fs s = (mkfs_volume drive ts)\<lparr>fat_table := tb\<rparr>"
  shows "unat (mk_total_clusters ts) \<le> 256 * unat (mk_sectors_per_fat ts) \<and>
    ((\<forall>c. in_table s c \<longrightarrow> 2 * unat c + 1 < unat (mk_sectors_per_fat ts) * 512) \<longleftrightarrow> (unat ts - 33) mod 1026 \<in> {1..1021})"
proof
  note ok = mkfs_accepts [OF assms(1), folded assms(2)]
  note sizes = mk_sizes [OF ok(1,2)]
  let ?f = "unat (mk_sectors_per_fat ts)" and ?n = "unat (mk_total_clusters ts)"
  have T: "33 + 2 * ?f \<le> unat ts" "16 \<le> ?f" by (rule sizes)+
  have n: "?n < 65525" using ok(2) by (simp add: word_less_nat_alt)
  have f: "?f = (unat ts - 33 + 1025) div 1026" using sizes(1) T(1) by simp
  have "1026 \<le> unat ts - 33" using T(2) unfolding f by (simp add: less_eq_div_iff_mult_less_eq)
  note a = table_arith [of "unat ts - 33", folded f, OF _ this]
  have n': "?n = (unat ts - 33 - 2 * ?f) div 4" by (rule sizes(5))
  show "?n \<le> 256 * ?f" using a(1) T(1) unfolding n' by simp
  have "in_table s c \<longleftrightarrow> unat c < ?n + 2" for c
    using n by (simp add: in_table_def assms(3) mkfs_volume_def word_le_nat_alt unat_word_ariths not_le)
  then have "(\<forall>c. in_table s c \<longrightarrow> 2 * unat c + 1 < ?f * 512) \<longleftrightarrow> (\<forall>c :: u16. unat c < ?n + 2 \<longrightarrow> unat c < 256 * ?f)" by auto
  also have "\<dots> \<longleftrightarrow> ?n + 2 \<le> 256 * ?f"
  proof
    have "unat (of_nat (?n + 1) :: u16) = ?n + 1" using n by (simp only: unat_of_nat) simp
    then show "?n + 2 \<le> 256 * ?f" if "\<forall>c :: u16. unat c < ?n + 2 \<longrightarrow> unat c < 256 * ?f"
      using that [rule_format, of "of_nat (?n + 1)"] by simp
  qed auto
  also have "\<dots> \<longleftrightarrow> (unat ts - 33) mod 1026 \<in> {1..1021}" using a(2) T(1) unfolding n' by simp
  finally show "(\<forall>c. in_table s c \<longrightarrow> 2 * unat c + 1 < ?f * 512) \<longleftrightarrow> (unat ts - 33) mod 1026 \<in> {1..1021}" .
qed

text \<open>A blank image of 17475 sectors, whose table is too short: \<open>17475 - 33 = 17 * 1026\<close>.\<close>

theorem mkfs_table_covers_witness:
  "unat (mk_total_clusters 17475) = 4352 \<and> mk_sectors_per_fat 17475 = 17 \<and>
   (\<exists>c. in_table (example_dir\<lparr>fat_fs := (mkfs_volume 0 17475)\<lparr>fat_table := 0x2004\<rparr>\<rparr>) c \<and> \<not> 2 * unat c + 1 < 17 * 512)"
proof -
  let ?s = "example_dir\<lparr>fat_fs := (mkfs_volume 0 17475)\<lparr>fat_table := 0x2004\<rparr>\<rparr>"
  have z: "mk_sectors_per_fat 17475 = 17" "mk_total_clusters 17475 = 4352"
    by (simp_all add: mk_sectors_per_fat_def mk_root_dir_sectors_def mk_total_clusters_def mk_data_sectors_def mk_data_start_def)
  define img :: "u8 list" where "img = replicate (17475 * 512) 0"
  have l: "length img = 8947200" by (simp only: img_def length_replicate)
  have "mkfs_main 2 0 (Some img) = (0, Some (mkfs_write 0 17475 img))" by (simp add: mkfs_main_def l z Let_def)
  moreover have "17475 = (of_nat (length img div 512) :: u32)" by (simp add: l)
  moreover have "fat_fs ?s = (mkfs_volume 0 17475)\<lparr>fat_table := 0x2004\<rparr>" by simp
  ultimately have "(\<forall>c. in_table ?s c \<longrightarrow> 2 * unat c + 1 < unat (mk_sectors_per_fat 17475) * 512) \<longleftrightarrow> (unat (17475 :: u32) - 33) mod 1026 \<in> {1..1021}"
    using mkfs_table_covers by blast
  moreover have "(unat (17475 :: u32) - 33) mod 1026 \<notin> {1..1021}" by simp
  moreover have "unat (mk_sectors_per_fat 17475) = 17" "unat (mk_total_clusters 17475) = 4352" unfolding z by simp_all
  ultimately show ?thesis using z(1) by metis
qed

text \<open>C38: what the formatter writes is what the kernel mounts. For every image that \<open>mkfs.fat\<close> accepts, whatever it held, the image keeps its
  length, and on a disk of the documented protocol with that image \<open>fat_mount\<close> succeeds, given the memory it asks for:
  the volume has the sizes with which the tool wrote it, between 4085 and 65524 clusters, all of them inside the image; its root
  is a directory of the FAT file system with cluster 0; the table in memory has the two reserved entries, and every other entry is
  free; and the sectors of the root directory are empty. A table of several pages is granted as a run of addresses; that the frames below it lie one
  after the other, without which it would overlap other memory, is not part of the statement.\<close>

theorem mkfs_image_mounts:
  assumes "mkfs_main argc t (Some img) = (0, Some img')" "ts = of_nat (length img div 512)"
    and "fat_dev E = pio_disk D ini" "disk_ready D ini (disk s) drive"
    and "\<forall>n < unat ts. disk_bytes D ini (disk s) drive (of_nat n) = sector_of img' n"
    and "mount_memory (mk_sectors_per_fat ts) (fheap s) = Some (tb, root)"
  shows "length img' = length img \<and>
    (\<exists>s'. fat_mount E drive 0 s = Some (root, s') \<and> fat_initialized s' \<and> fat_fs s' = (mkfs_volume drive ts)\<lparr>fat_table := tb\<rparr> \<and>
      n_type (nodes s' root) = VFS_DIRECTORY \<and> n_ops (nodes s' root) = FAT_OPS \<and> dir_cluster_of root s' = 0 \<and>
      fat_entry s' 0 = 0xFFF8 \<and> fat_entry s' 1 = 0xFFFF \<and> (\<forall>c. 2 \<le> c \<and> unat c < 256 * unat (mk_sectors_per_fat ts) \<longrightarrow> fat_entry s' c = 0)) \<and>
    4085 \<le> unat (mk_total_clusters ts) \<and> unat (mk_total_clusters ts) < 65525 \<and>
    unat (mk_data_start ts) + 4 * unat (mk_total_clusters ts) \<le> unat ts \<and>
    (\<forall>n. 1 + 2 * unat (mk_sectors_per_fat ts) \<le> n \<and> n < unat (mk_data_start ts) \<longrightarrow> sector_of img' n = replicate 512 0)"
proof (intro conjI)
  note ok = mkfs_accepts [OF assms(1), folded assms(2)]
  note sizes = mk_sizes [OF ok(1,2)]
  show "length img' = length img" using mkfs_image(1) [OF ok(1,2,4)] ok(3) by simp
  obtain s' where s': "fat_mount E drive 0 s = Some (root, s')" "fat_initialized s'" "fat_fs s' = (mkfs_volume drive ts)\<lparr>fat_table := tb\<rparr>"
    "n_type (nodes s' root) = VFS_DIRECTORY" "n_ops (nodes s' root) = FAT_OPS" "dir_cluster_of root s' = 0"
    "\<forall>x < unat (mk_sectors_per_fat ts) * 512. fmem s' (tb + of_nat x) = mk_fat (mk_sectors_per_fat ts) ! x"
    using fat_mount_mkfs [OF ok(1,2,4) assms(3,4) assms(5) [unfolded ok(3)] assms(6)] by (elim exE conjE) (rule that)
  have "\<And>x. x < unat (mk_sectors_per_fat ts) * 512 \<Longrightarrow> fmem s' (fat_table (fat_fs s') + of_nat x) = mk_fat (mk_sectors_per_fat ts) ! x"
    using s'(3,7) by simp
  note e = table_entries [OF this] and f = sizes(7)
  show "\<exists>s'. fat_mount E drive 0 s = Some (root, s') \<and> fat_initialized s' \<and> fat_fs s' = (mkfs_volume drive ts)\<lparr>fat_table := tb\<rparr> \<and>
      n_type (nodes s' root) = VFS_DIRECTORY \<and> n_ops (nodes s' root) = FAT_OPS \<and> dir_cluster_of root s' = 0 \<and>
      fat_entry s' 0 = 0xFFF8 \<and> fat_entry s' 1 = 0xFFFF \<and> (\<forall>c. 2 \<le> c \<and> unat c < 256 * unat (mk_sectors_per_fat ts) \<longrightarrow> fat_entry s' c = 0)"
    using s'(1-6) e f by (intro exI [of _ s']) simp
  show "4085 \<le> unat (mk_total_clusters ts)" "unat (mk_total_clusters ts) < 65525"
    using ok(1,2) by (simp_all add: word_le_nat_alt word_less_nat_alt)
  show "unat (mk_data_start ts) + 4 * unat (mk_total_clusters ts) \<le> unat ts" using sizes(2,3,5) by simp
  show "\<forall>n. 1 + 2 * unat (mk_sectors_per_fat ts) \<le> n \<and> n < unat (mk_data_start ts) \<longrightarrow> sector_of img' n = replicate 512 0"
    using mkfs_sectors(3) [OF ok(1,2,4), where t = t] sizes(3) ok(3) by auto
qed

theorem mkfs_image_mounts_witness:
  "\<exists>s'. fat_mount (tiny_env\<lparr>fat_dev := pio_disk 10 (image_pio (mkfs_write 7 16500 blank_image))\<rparr>) 0 0
      (example_dir\<lparr>disk := one_drive, fheap := mount_heap\<rparr>) = Some (0x1070, s') \<and>
    fat_fs s' = (mkfs_volume 0 16500)\<lparr>fat_table := 0x2004\<rparr> \<and> fat_entry s' 0 = 0xFFF8 \<and> fat_entry s' 5 = 0"
proof -
  let ?i = "mkfs_write 7 16500 blank_image"
  have ts: "16500 = (of_nat (length blank_image div 512) :: u32)" by (simp add: blank_image_sectors)
  have len: "length ?i = 8448000" using mkfs_image(1) [of 16500 blank_image 7] by (simp add: blank_sizes blank_image_sectors)
  have "\<forall>n < unat (16500 :: u32). disk_bytes 10 (image_pio ?i) (disk (example_dir\<lparr>disk := one_drive, fheap := mount_heap\<rparr>)) 0 (of_nat n) = sector_of ?i n"
    using image_pio_bytes [of _ ?i] len by simp
  from mkfs_image_mounts [OF blank_formatted ts _ _ this, of "tiny_env\<lparr>fat_dev := pio_disk 10 (image_pio ?i)\<rparr>" "0x2004" "0x1070"]
  show ?thesis using image_pio_ready mount_heap_grants by (auto simp: blank_sizes)
qed

end
