(* ===== verification/Boot.thy ===== *)
theory Boot
  imports ShellFile Mkfs
begin

text \<open>
  The boot sequence, \<open>kernel_main\<close> of \<open>src/kernel/kernel.c\<close>: the components of the other theories in the order in which the kernel
  brings them up, and the choice of the root file system. What \<open>kernel_main\<close> itself prints is in the model; interrupts
  that come between two of its steps are not. The statements behind \<open>shell_run\<close>, whose loop has no end, are never reached.
\<close>

section \<open>State\<close>

text \<open>The addresses that the linker and the assembly files give, and the disk and buffers of the shell's environment.\<close>

record link_env =
  lk_shell :: shell_env
  kernel_start :: u32
  kernel_end :: u32
  page_directory :: u32
  page_tables :: u32
  kernel_as_static :: u32
  kernel_heap_region_static :: u32
  gate_stubs :: "nat \<Rightarrow> u32"
  syscall_stub :: u32
  gdt_addr :: u32
  gdt_tss_addr :: u32
  tss_addr :: u32
  kernel_idle_loop :: u32
  hex_buffer :: u32
  boot_txt_buffer :: u32

text \<open>The state of the whole machine; the scheduler and the keyboard in \<open>mc_irq\<close> are those of the shell's state.\<close>

record machine =
  mc_shell :: shell_state
  mc_idt :: "idt_entry list"
  mc_idt_limit :: u16
  mc_irq :: irq_state
  mc_fpu :: fpu
  mc_if :: bool

abbreviation ATA_PRIMARY_MASTER :: u8 where
  "ATA_PRIMARY_MASTER \<equiv> 0"

definition mc_kernel :: "(kernel_state \<Rightarrow> kernel_state option) \<Rightarrow> machine \<Rightarrow> machine option" where
  "mc_kernel f m = map_option (\<lambda>s. m\<lparr>mc_shell := s\<rparr>) (on_world (on_kernel f) (mc_shell m))"

definition mc_say :: "link_env \<Rightarrow> console_op list \<Rightarrow> machine \<Rightarrow> machine option" where
  "mc_say L cs m = mc_kernel (console (lk_shell L) cs) m"

section \<open>The root file system\<close>

definition set_root :: "u32 \<Rightarrow> kernel_state \<Rightarrow> kernel_state" where
  "set_root root k = k\<lparr>k_fs := (k_fs k)\<lparr>vfs_root := root, vfs_cwd := root\<rparr>\<rparr>"

text \<open>\<open>/boot.txt\<close> of an archive is shown when it is there; \<open>b\<close> is the local buffer of 512 bytes.\<close>

definition show_boot_txt :: "shell_env \<Rightarrow> u32 \<Rightarrow> kernel_state \<Rightarrow> kernel_state option" where
  "show_boot_txt E b k = do {
     (fd, k) \<leftarrow> on_fs (vfs_open (shell_optab E) (lit ''/boot.txt'') 0) k;
     if fd \<ge> 0 then do {
       (bytes, k) \<leftarrow> on_fs (vfs_read (shell_optab E) fd b 511) k;
       k \<leftarrow> (if bytes > 0 then do {
               let k = k_mem (\<lambda>m. m(b + of_int bytes := 0)) k;
               k \<leftarrow> console E [Say (lit ''\<newline>'')] k;
               t \<leftarrow> terminal_writestring (fmem (k_fs k)) b (k_term k);
               console E [Say (lit ''\<newline>'')] (set_term k t) }
             else Some k);
       (_, k) \<leftarrow> on_fs (vfs_close (shell_optab E) fd) k;
       Some k }
     else Some k }"

text \<open>What is printed on the way.\<close>

definition loading_text :: "console_op list" where
  "loading_text = [Say (lit ''[KERNEL] Loading root filesystem from disk...\<newline>''), Say (lit ''[KERNEL] Attempting to mount FAT16...\<newline>'')]"

definition fat_text :: "console_op list" where
  "fat_text = [Color 10, Say (lit ''[KERNEL] '' @ check_mark @ lit '' FAT16 filesystem mounted!\<newline>''), Color 15]"

definition try_tar_text :: "console_op list" where
  "try_tar_text = [Say (lit ''[KERNEL] FAT16 not found, trying TarFS...\<newline>'')]"

definition tar_text :: "console_op list" where
  "tar_text = [Color 10, Say (lit ''[KERNEL] '' @ check_mark @ lit '' TarFS filesystem mounted!\<newline>''), Color 15]"

definition ramfs_text :: "console_op list" where
  "ramfs_text = [Color 12, Say (lit ''[KERNEL] No persistent filesystem found\<newline>''), Color 15, Say (lit ''[KERNEL] Using RAMFS (temporary storage)\<newline>'')]"

definition mounted_text :: "console_op list" where
  "mounted_text = [Say (lit ''[VFS] Root filesystem mounted\<newline>\<newline>'')]"

definition mount_root_fs :: "shell_env \<Rightarrow> u32 \<Rightarrow> kernel_state \<Rightarrow> kernel_state option" where
  "mount_root_fs E b k = do {
     k \<leftarrow> console E loading_text k;
     (fat_root, k) \<leftarrow> on_fs (fat_mount (sh_fat E) ATA_PRIMARY_MASTER 0) k;
     (filesystem_mounted, k) \<leftarrow>
       (if fat_root \<noteq> NULL then do {
          k \<leftarrow> console E fat_text (set_root fat_root k);
          Some (True, k) }
        else Some (False, k));
     (filesystem_mounted, k) \<leftarrow>
       (if \<not> filesystem_mounted then do {
          k \<leftarrow> console E try_tar_text k;
          (tar_root, k) \<leftarrow> on_fs (tarfs_load (fat_dev (sh_fat E)) ATA_PRIMARY_MASTER 0) k;
          if tar_root \<noteq> NULL then do {
            k \<leftarrow> console E tar_text (set_root tar_root k);
            k \<leftarrow> show_boot_txt E b k;
            Some (True, k) }
          else Some (False, k) }
        else Some (filesystem_mounted, k));
     k \<leftarrow> (if \<not> filesystem_mounted
          then console E ramfs_text k
          else Some k);
     console E mounted_text k }"

section \<open>The steps of \<open>kernel_main\<close>\<close>

text \<open>Steps 1 and 2: console, floating point unit, physical memory. Numbers are printed through a local array.\<close>

definition say_hex :: "link_env \<Rightarrow> u32 \<Rightarrow> kernel_state \<Rightarrow> kernel_state option" where
  "say_hex L n k = do {
     m \<leftarrow> utoa n (hex_buffer L) 16 (fmem (k_fs k));
     t \<leftarrow> terminal_writestring m (hex_buffer L) (k_term k);
     Some (set_term (k_mem (\<lambda>_. m) k) t) }"

definition boot_console :: "link_env \<Rightarrow> machine \<Rightarrow> machine option" where
  "boot_console L m = do {
     m \<leftarrow> mc_kernel (\<lambda>k. Some (set_term k (terminal_initialize (k_term k)))) m;
     m \<leftarrow> mc_say L
       [Say (box_top @ [10]),
        Say (box_side @ lit ''              OSComplex v0.1-alpha                        '' @ box_side @ lit ''\<newline>''),
        Say (box_side @ lit ''           An AI-Native Operating System                 '' @ box_side @ lit ''\<newline>''),
        Say (box_bottom @ [10, 10]),
        Say (lit ''[KERNEL] Booting OSComplex...\<newline>'')] m;
     Some (m\<lparr>mc_fpu := fpu_init (mc_fpu m)\<rparr>) }"

definition boot_pmm :: "link_env \<Rightarrow> machine \<Rightarrow> machine option" where
  "boot_pmm L m = do {
     m \<leftarrow> mc_say L [Say (lit ''[PMM] Initializing physical memory manager...\<newline>'')] m;
     m \<leftarrow> mc_kernel (\<lambda>k. Some (on_vm (\<lambda>v. set_pmm (kernel_pmm_setup (kernel_start L) (kernel_end L) (vpmm v)) v) k)) m;
     m \<leftarrow> mc_say L [Say (lit ''[PMM] Kernel memory reserved: 0x'')] m;
     m \<leftarrow> mc_kernel (say_hex L (align_down (kernel_start L))) m;
     m \<leftarrow> mc_say L [Say (lit '' - 0x'')] m;
     m \<leftarrow> mc_kernel (say_hex L (align_up (kernel_end L))) m;
     mc_say L [Say (lit ''\<newline>''), Say (lit ''[PMM] Physical memory manager ready\<newline>\<newline>'')] m }"

text \<open>Steps 3 to 5: paging, virtual memory, heap.\<close>

definition boot_memory :: "link_env \<Rightarrow> machine \<Rightarrow> machine option" where
  "boot_memory L m = do {
     m \<leftarrow> mc_say L [Say (lit ''[PAGING] Setting up initial paging...\<newline>'')] m;
     m \<leftarrow> mc_kernel (\<lambda>k. Some (on_vm (paging_init (page_directory L) (page_tables L)) k)) m;
     m \<leftarrow> mc_say L [Say (lit ''[PAGING] Paging enabled\<newline>\<newline>''), Say (lit ''[VMM] Initializing virtual memory manager...\<newline>'')] m;
     m \<leftarrow> mc_kernel (\<lambda>k. Some (on_vm (vmm_init (page_directory L) (kernel_as_static L) (kernel_heap_region_static L)) k)) m;
     m \<leftarrow> mc_say L [Say (lit ''[VMM] Virtual memory manager ready\<newline>\<newline>''), Say (lit ''[HEAP] Initializing kernel heap...\<newline>'')] m;
     m \<leftarrow> mc_kernel (\<lambda>k. Some (on_vm (\<lambda>v. v\<lparr>kheap := heap_init (kheap v)\<rparr>) k)) m;
     mc_say L [Say (lit ''[HEAP] Kernel heap ready\<newline>\<newline>'')] m }"

text \<open>Steps 6 to 9: gates, interrupt controller, drivers, interrupts.\<close>

definition install_keyboard :: "machine \<Rightarrow> machine" where
  "install_keyboard m = m\<lparr>mc_irq := irq_install_handler IRQ_KEYBOARD Keyboard_handler (mc_irq m),
     mc_shell := (mc_shell m)\<lparr>sh_kb := keyboard_init (sh_kb (mc_shell m))\<rparr>\<rparr>"

definition boot_devices :: "link_env \<Rightarrow> machine \<Rightarrow> machine option" where
  "boot_devices L m = do {
     m \<leftarrow> mc_say L [Say (lit ''[IDT] Initializing interrupt table...\<newline>'')] m;
     let m = m\<lparr>mc_idt := fst (idt_init (gate_stubs L)), mc_idt_limit := snd (idt_init (gate_stubs L))\<rparr>;
     m \<leftarrow> mc_say L [Say (lit ''[IDT] Interrupt table ready\<newline>''), Say (lit ''[PIC] Remapping interrupt controller...\<newline>'')] m;
     let m = m\<lparr>mc_irq := (mc_irq m)\<lparr>io := pic_init (io (mc_irq m))\<rparr>\<rparr>;
     m \<leftarrow> mc_say L [Say (lit ''[PIC] Interrupt controller ready\<newline>''), Say (lit ''[DRIVERS] Initializing device drivers...\<newline>'')] m;
     let m = install_keyboard m;
     let m = m\<lparr>mc_irq := timer_init (mc_irq m)\<rparr>;
     m \<leftarrow> mc_kernel (\<lambda>k. Some (k\<lparr>k_fs := (k_fs k)\<lparr>disk := ata_init (fat_dev (sh_fat (lk_shell L))) (disk (k_fs k))\<rparr>\<rparr>)) m;
     m \<leftarrow> mc_say L [Say (lit ''[DRIVERS] All drivers initialized\<newline>''), Say (lit ''[KERNEL] Enabling interrupts...\<newline>'')] m;
     mc_say L [Say (lit ''[KERNEL] Interrupts enabled - system ready!\<newline>\<newline>'')] (m\<lparr>mc_if := True\<rparr>) }"

text \<open>Steps 9.5 and 10: descriptor tables, tasks, scheduler, system calls.\<close>

definition boot_tasks :: "link_env \<Rightarrow> machine \<Rightarrow> machine option" where
  "boot_tasks L m = do {
     m \<leftarrow> mc_say L [Say (lit ''[KERNEL] Setting up user mode support...\<newline>'')] m;
     let m = m\<lparr>mc_shell := (mc_shell m)\<lparr>sh_world := (sh_world (mc_shell m))\<lparr>w_seg :=
       tss_init (tss_addr L) (gdt_init (gdt_addr L) (gdt_tss_addr L) (w_seg (sh_world (mc_shell m))))\<rparr>\<rparr>\<rparr>;
     m \<leftarrow> mc_say L [Say (lit ''[KERNEL] User mode ready\<newline>\<newline>''), Say (lit ''[KERNEL] Initializing multitasking...\<newline>'')] m;
     m \<leftarrow> mc_kernel (task_init (kernel_idle_loop L)) m;
     m \<leftarrow> mc_kernel (\<lambda>k. Some (k\<lparr>k_sched := scheduler_init (k_sched k)\<rparr>)) m;
     mc_say L [Say (lit ''[KERNEL] Multitasking ready\<newline>\<newline>'')] (m\<lparr>mc_idt := Interrupts.syscall_init (syscall_stub L) (mc_idt m)\<rparr>) }"

text \<open>Steps 11 and 12: the virtual file system and its root.\<close>

definition boot_files :: "link_env \<Rightarrow> machine \<Rightarrow> machine option" where
  "boot_files L m = do {
     m \<leftarrow> mc_say L [Say (lit ''[VFS] Initializing virtual file system...\<newline>'')] m;
     m \<leftarrow> mc_kernel (\<lambda>k. Some (k\<lparr>k_fs := vfs_init (k_fs k)\<rparr>)) m;
     m \<leftarrow> mc_say L [Say (lit ''[VFS] Virtual file system ready\<newline>\<newline>'')] m;
     m \<leftarrow> mc_kernel (\<lambda>k. map_option snd (on_fs (\<lambda>s. map_option (\<lambda>s. ((), s)) (ramfs_init s)) k)) m;
     mc_kernel (mount_root_fs (lk_shell L) (boot_txt_buffer L)) m }"

text \<open>Steps 13 to 15: predictor and shell.\<close>

definition boot_shell :: "link_env \<Rightarrow> machine \<Rightarrow> machine option" where
  "boot_shell L m = do {
     m \<leftarrow> mc_say L [Say (lit ''[AI] Initializing AI learning system...\<newline>'')] m;
     let m = m\<lparr>mc_shell := (mc_shell m)\<lparr>sh_world := (sh_world (mc_shell m))\<lparr>w_ai := ai_init\<rparr>\<rparr>\<rparr>;
     m \<leftarrow> mc_say L [Say (lit ''[AI] AI system ready\<newline>\<newline>''), Say (lit ''[SHELL] Starting interactive shell...\<newline>'')] m;
     s \<leftarrow> shell_init (lk_shell L) (mc_shell m);
     mc_say L
       [Say (lit ''\<newline>''), Color 10,
        Say (box_top @ [10]),
        Say (box_side @ lit ''            System initialization complete!               '' @ box_side @ lit ''\<newline>''),
        Say (box_side @ lit ''                 Type '' @ [39] @ lit ''help'' @ [39] @ lit '' to begin                     '' @ box_side @ lit ''\<newline>''),
        Say (box_bottom @ [10, 10]), Color 15] (m\<lparr>mc_shell := s\<rparr>) }"

definition boot :: "link_env \<Rightarrow> machine \<Rightarrow> machine option" where
  "boot L m = do {
     m \<leftarrow> boot_console L m;
     m \<leftarrow> boot_pmm L m;
     m \<leftarrow> boot_memory L m;
     m \<leftarrow> boot_devices L m;
     m \<leftarrow> boot_tasks L m;
     m \<leftarrow> boot_files L m;
     boot_shell L m }"

definition kernel_main :: "link_env \<Rightarrow> wakeup list list \<Rightarrow> machine \<Rightarrow> machine option" where
  "kernel_main L rounds m = do {
     m \<leftarrow> boot L m;
     s \<leftarrow> shell_run (lk_shell L) rounds (mc_shell m);
     Some (m\<lparr>mc_shell := s\<rparr>) }"

section \<open>Printing returns while the console's buffer has room\<close>

text \<open>A character other than a backspace and a tab moves the console at most one line down.\<close>

lemma next_row_le: "logical_row (next_row t) \<le> logical_row t + 1"
  by (simp add: next_row_def Let_def append_ok)

lemma putchar_row:
  assumes "term_inv t" "logical_row t < 1024" "c \<noteq> 8" "c \<noteq> 9"
  obtains t' where "terminal_putchar c t = Some t'" "term_inv t'" "logical_row t' \<le> logical_row t + 1"
proof -
  have i: "text_inv t" and col: "logical_col t < 80" using assms(1) by (simp_all add: text_inv_def)
  obtain t' where t': "terminal_putchar c t = Some t'" using term_do_returns [OF i assms(2), of "Putchar c"] by auto
  have e: "ensure_scrollback_started t = t" by (rule ensure_started [OF i])
  have r: "logical_row (refresh u) = logical_row u" if "text_inv u" for u using refresh_ok(1) [OF that] by (simp add: same_textD)
  have "logical_row t' \<le> logical_row t + 1"
  proof -
    have "t' = refresh (next_row t) \<or> t' = refresh (t\<lparr>logical_col := 0\<rparr>) \<or> t' = t \<or> putchar_print c t = Some t'"
      using t' [unfolded terminal_putchar_def Let_def e newline_ok(1) [OF i] if_not_P [OF assms(3)] if_not_P [OF assms(4)]] by (metis option.inject)
    then consider "t' = refresh (next_row t)" | "t' = refresh (t\<lparr>logical_col := 0\<rparr>)" | "t' = t" | "putchar_print c t = Some t'" by blast
    then show ?thesis
    proof cases
      case 1
      then show ?thesis using next_row_le [of t] r [OF next_row_ok(1) [OF i]] by simp
    next
      case 2
      have "text_inv (t\<lparr>logical_col := 0\<rparr>)" using i by (simp add: text_inv_def)
      then show ?thesis using 2 r by simp
    next
      case 4
      then obtain u where u: "put_cell (vga_entry c (terminal_color t)) t = Some u" by (auto simp: putchar_print_def split: option.splits)
      let ?v = "u\<lparr>logical_col := logical_col u + 1\<rparr>"
      let ?w = "if logical_col ?v \<ge> 80 then next_row ?v else ?v"
      have ui: "text_inv u" "logical_row u = logical_row t" using u put_cell_inv [OF u] i by (auto simp: put_cell_Some)
      have "text_inv ?w" using ui(1) next_row_ok(2) [of ?v] by (auto simp: text_inv_def)
      then have "logical_row (putchar_show ?w) = logical_row ?w" using putchar_show_ok(1) same_textD(4) by blast
      moreover have "t' = putchar_show ?w" using 4 u by (auto simp: putchar_print_def Let_def)
      ultimately show ?thesis using next_row_le [of ?v] ui(2) by simp
    qed simp
  qed
  then show thesis using that t' putchar_inv [OF t' assms(1)] by blast
qed

definition plain :: "cstring \<Rightarrow> bool" where
  "plain cs \<longleftrightarrow> 8 \<notin> set cs \<and> 9 \<notin> set cs"

lemma write_chars_row:
  assumes "term_inv t" "logical_row t + length cs < 1024" "plain cs"
  shows "\<exists>t'. write_chars cs t = Some t' \<and> term_inv t' \<and> logical_row t' \<le> logical_row t + length cs"
  using assms
proof (induction cs arbitrary: t)
  case (Cons c cs)
  from Cons.prems obtain u where u: "terminal_putchar c t = Some u" "term_inv u" "logical_row u \<le> logical_row t + 1"
    by (elim putchar_row [of t c]) (auto simp: plain_def)
  then show ?case using Cons.IH [of u] Cons.prems by (fastforce simp: plain_def)
qed simp

fun op_length :: "console_op list \<Rightarrow> nat" where
  "op_length [] = 0"
| "op_length (Say cs # ops) = length cs + op_length ops"
| "op_length (_ # ops) = op_length ops"

fun plain_ops :: "console_op list \<Rightarrow> bool" where
  "plain_ops [] \<longleftrightarrow> True"
| "plain_ops (Say cs # ops) \<longleftrightarrow> plain cs \<and> plain_ops ops"
| "plain_ops (Color c # ops) \<longleftrightarrow> plain_ops ops"
| "plain_ops (_ # ops) \<longleftrightarrow> False"

lemma console_returns:
  assumes "term_inv (k_term k)" "logical_row (k_term k) + op_length ops < 1024" "plain_ops ops"
  obtains t where "console E ops k = Some (set_term k t)" "term_inv t" "logical_row t \<le> logical_row (k_term k) + op_length ops"
proof -
  have "\<exists>t. console E ops k = Some (set_term k t) \<and> term_inv t \<and> logical_row t \<le> logical_row (k_term k) + op_length ops"
    using assms
  proof (induction ops arbitrary: k rule: plain_ops.induct)
    case 1
    then show ?case by (intro exI [of _ "k_term k"]) (simp add: set_term_def)
  next
    case (2 cs ops)
    from 2(2-4) obtain u where u: "write_chars cs (k_term k) = Some u" "term_inv u" "logical_row u \<le> logical_row (k_term k) + length cs"
      using write_chars_row [of "k_term k" cs] by auto
    with 2(1) [of "set_term k u"] 2(3,4) show ?case by fastforce
  next
    case (3 c ops)
    let ?u = "terminal_setcolor (vga_entry_color c 0) (k_term k)"
    have "term_inv ?u" "logical_row ?u = logical_row (k_term k)"
      using 3(2) by (auto simp: terminal_setcolor_def text_inv_def cursor_inv_def cursor_shown_def)
    with 3(1) [of "set_term k ?u"] 3(3,4) show ?case by auto
  qed simp_all
  then show thesis using that by blast
qed

section \<open>Which file system is the root\<close>

lemma root_simps [simp]:
  "set_root r (set_term k t) = set_term (set_root r k) t" "k_term (set_root r k) = k_term k"
  "k_fs (set_root r k) = (k_fs k)\<lparr>vfs_root := r, vfs_cwd := r\<rparr>"
  by (simp_all add: set_root_def set_term_def)

text \<open>A drive that is absent: both attempts give back the memory they took and report failure.\<close>

lemma no_drive_read: "no_drive drive (disk s) \<Longrightarrow> fs_read_sector dev drive lba b s = (- 1, s)"
  by (simp add: fs_read_sector_def ata_read_sector_def)

lemma no_drive_mount:
  assumes "no_drive drive (disk s)" "live_inv (fheap s) L"
  shows "\<exists>h. fat_mount E drive st s = Some (NULL, s\<lparr>fheap := h\<rparr>) \<and> live_inv h L"
    "\<exists>h. tarfs_load dev drive st s = Some (NULL, s\<lparr>fheap := h\<rparr>) \<and> live_inv h L"
proof -
  have "small_request 512" by (simp add: small_request_def total_size_def align_size_def)
  with assms(2) obtain p h where p: "kmalloc 512 (fheap s) = Some (p, h)"
    "if p = NULL then live_inv h L else p \<notin> L \<and> live_inv h (insert p L) \<and> byte_range (p, 512) \<subseteq> small_extent h p"
    using kmalloc_live by blast
  show "\<exists>h. fat_mount E drive st s = Some (NULL, s\<lparr>fheap := h\<rparr>) \<and> live_inv h L"
    "\<exists>h. tarfs_load dev drive st s = Some (NULL, s\<lparr>fheap := h\<rparr>) \<and> live_inv h L"
  proof (atomize(full), cases "p = NULL")
    case True
    then show "(\<exists>h. fat_mount E drive st s = Some (NULL, s\<lparr>fheap := h\<rparr>) \<and> live_inv h L) \<and>
        (\<exists>h. tarfs_load dev drive st s = Some (NULL, s\<lparr>fheap := h\<rparr>) \<and> live_inv h L)"
      using p by (intro conjI exI [of _ h]) (simp_all add: fat_mount_def tarfs_load_def fs_kmalloc_def)
  next
    case False
    then have "p \<notin> L" "live_inv h (insert p L)" using p(2) by simp_all
    then obtain h' where "kfree p h = Some h'" "live_inv h' L" using kfree_live [of h "insert p L" p] by auto
    then show "(\<exists>h. fat_mount E drive st s = Some (NULL, s\<lparr>fheap := h\<rparr>) \<and> live_inv h L) \<and>
        (\<exists>h. tarfs_load dev drive st s = Some (NULL, s\<lparr>fheap := h\<rparr>) \<and> live_inv h L)"
      using False p(1) assms(1) by (intro conjI exI [of _ h']) (simp_all add: fat_mount_def tarfs_load_def fs_kmalloc_def fs_kfree_def no_drive_read)
  qed
qed

lemma root_texts:
  "plain_ops loading_text" "plain_ops fat_text" "plain_ops try_tar_text" "plain_ops ramfs_text" "plain_ops mounted_text"
  "op_length loading_text \<le> 100" "op_length fat_text \<le> 100" "op_length try_tar_text \<le> 100" "op_length ramfs_text \<le> 100" "op_length mounted_text \<le> 100"
  by code_simp+

lemma text_returns:
  assumes "term_inv (k_term k)" "logical_row (k_term k) < n" "n < 900" "plain_ops ops" "op_length ops \<le> 100"
  obtains t where "console E ops k = Some (set_term k t)" "term_inv t" "logical_row t < n + 100"
proof -
  have "logical_row (k_term k) + op_length ops < 1024" using assms(2,3,5) by linarith
  from console_returns [OF assms(1) this assms(4), of E] obtain t
    where t: "console E ops k = Some (set_term k t)" "term_inv t" "logical_row t \<le> logical_row (k_term k) + op_length ops" .
  have "logical_row t < n + 100" using t(3) assms(2,5) by linarith
  with t(1,2) show thesis by (rule that)
qed

lemma root_fat:
  assumes t: "term_inv (k_term k)" "logical_row (k_term k) < 500"
    and f: "fat_mount (sh_fat E) 0 0 (fs_of k) = Some (root, s)" "root \<noteq> NULL"
  shows "\<exists>u. mount_root_fs E b k = Some (set_term (set_root root (put_fs s k)) u) \<and> term_inv u"
proof -
  obtain t1 where 1: "console E loading_text k = Some (set_term k t1)" "term_inv t1" "logical_row t1 < 600"
    by (rule text_returns [OF t _ root_texts(1,6), of E]) simp_all
  let ?k = "set_term (set_root root (put_fs s k)) t1"
  obtain t2 where 2: "console E fat_text ?k = Some (set_term ?k t2)" "term_inv t2" "logical_row t2 < 700"
    by (rule text_returns [of ?k 600, OF _ _ _ root_texts(2,7), of E]) (use 1(2,3) in simp_all)
  obtain t3 where 3: "console E mounted_text (set_term ?k t2) = Some (set_term ?k t3)" "term_inv t3"
    by (rule text_returns [of "set_term ?k t2" 700, OF _ _ _ root_texts(5,10), of E]) (use 2(2,3) in simp_all)
  show ?thesis
    by (intro exI [of _ t3]) (use f 1(1) 2(1) 3 in \<open>simp add: mount_root_fs_def on_fs_eq\<close>)
qed

lemma root_ramfs:
  assumes t: "term_inv (k_term k)" "logical_row (k_term k) < 500"
    and f: "fat_mount (sh_fat E) 0 0 (fs_of k) = Some (NULL, s)" "tarfs_load (fat_dev (sh_fat E)) 0 0 s = Some (NULL, s')"
  shows "\<exists>u. mount_root_fs E b k = Some (set_term (put_fs s' k) u) \<and> term_inv u"
proof -
  obtain t1 where 1: "console E loading_text k = Some (set_term k t1)" "term_inv t1" "logical_row t1 < 600"
    by (rule text_returns [OF t _ root_texts(1,6), of E]) simp_all
  let ?k = "set_term (put_fs s k) t1"
  obtain t2 where 2: "console E try_tar_text ?k = Some (set_term ?k t2)" "term_inv t2" "logical_row t2 < 700"
    by (rule text_returns [of ?k 600, OF _ _ _ root_texts(3,8), of E]) (use 1(2,3) in simp_all)
  let ?j = "set_term (put_fs s' k) t2"
  obtain t3 where 3: "console E ramfs_text ?j = Some (set_term ?j t3)" "term_inv t3" "logical_row t3 < 800"
    by (rule text_returns [of ?j 700, OF _ _ _ root_texts(4,9), of E]) (use 2(2,3) in simp_all)
  obtain t4 where 4: "console E mounted_text (set_term ?j t3) = Some (set_term ?j t4)" "term_inv t4"
    by (rule text_returns [of "set_term ?j t3" 800, OF _ _ _ root_texts(5,10), of E]) (use 3(2,3) in simp_all)
  show ?thesis
    by (intro exI [of _ t4]) (use f 1(1) 2(1) 3(1) 4 in \<open>simp add: mount_root_fs_def on_fs_eq\<close>)
qed

section \<open>Properties\<close>

text \<open>C40: the root file system after boot. While the console has room for the messages, the search for a root file system returns in both of these
  cases. When the primary master holds an image that \<open>mkfs.fat\<close> has formatted, and the heap grants the memory that \<open>fat_mount\<close> asks for,
  root and current directory become the root of that volume, mounted with the sizes of the formatter; an archive or the
  directories in memory are not looked at. (As for the mount itself, that the frames of the table lie one after the other is not part of the
  statement.) When there is no drive, root and current directory, and the whole tree in memory,
  stay what \<open>ramfs_init\<close> made them, and all memory taken by the two attempts has been given back.\<close>

theorem boot_root_file_system:
  assumes "term_inv (k_term k)" "logical_row (k_term k) < 500"
  shows "(mkfs_main argc t (Some img) = (0, Some img') \<and> ts = of_nat (length img div 512) \<and>
      fat_dev (sh_fat E) = pio_disk D ini \<and> disk_ready D ini (disk (k_fs k)) 0 \<and>
      (\<forall>n < unat ts. disk_bytes D ini (disk (k_fs k)) 0 (of_nat n) = sector_of img' n) \<and>
      mount_memory (mk_sectors_per_fat ts) (kheap (k_vm k)) = Some (tb, root) \<longrightarrow>
      (\<exists>k'. mount_root_fs E b k = Some k' \<and> vfs_root (k_fs k') = root \<and> vfs_cwd (k_fs k') = root \<and>
        n_type (nodes (k_fs k') root) = VFS_DIRECTORY \<and> n_ops (nodes (k_fs k') root) = FAT_OPS \<and>
        fat_initialized (k_fs k') \<and> fat_fs (k_fs k') = (mkfs_volume 0 ts)\<lparr>fat_table := tb\<rparr>)) \<and>
    (no_drive 0 (disk (k_fs k)) \<and> live_inv (kheap (k_vm k)) L \<longrightarrow>
      (\<exists>k'. mount_root_fs E b k = Some k' \<and> vfs_root (k_fs k') = vfs_root (k_fs k) \<and> vfs_cwd (k_fs k') = vfs_cwd (k_fs k) \<and>
        nodes (k_fs k') = nodes (k_fs k) \<and> ramfs_dirs (k_fs k') = ramfs_dirs (k_fs k) \<and> live_inv (kheap (k_vm k')) L))"
proof (intro conjI impI; elim conjE)
  assume mk: "mkfs_main argc t (Some img) = (0, Some img')" and ts: "ts = of_nat (length img div 512)"
    and dev: "fat_dev (sh_fat E) = pio_disk D ini" "disk_ready D ini (disk (k_fs k)) 0"
    and dsk: "\<forall>n < unat ts. disk_bytes D ini (disk (k_fs k)) 0 (of_nat n) = sector_of img' n"
    and mem: "mount_memory (mk_sectors_per_fat ts) (kheap (k_vm k)) = Some (tb, root)"
  note ok = mkfs_accepts [OF mk, folded ts]
  have "root \<noteq> NULL" using mem by (rule mount_memoryE)
  moreover obtain s where s: "fat_mount (sh_fat E) 0 0 (fs_of k) = Some (root, s)" "fat_initialized s"
    "fat_fs s = (mkfs_volume 0 ts)\<lparr>fat_table := tb\<rparr>" "n_type (nodes s root) = VFS_DIRECTORY" "n_ops (nodes s root) = FAT_OPS"
    using fat_mount_mkfs [OF ok(1,2,4) dev(1), of "fs_of k" 0 t tb root] dev(2) dsk mem ok(3) by (auto simp: fs_of_def)
  ultimately obtain u where "mount_root_fs E b k = Some (set_term (set_root root (put_fs s k)) u)"
    using root_fat [OF assms] by blast
  then show "\<exists>k'. mount_root_fs E b k = Some k' \<and> vfs_root (k_fs k') = root \<and> vfs_cwd (k_fs k') = root \<and>
      n_type (nodes (k_fs k') root) = VFS_DIRECTORY \<and> n_ops (nodes (k_fs k') root) = FAT_OPS \<and>
      fat_initialized (k_fs k') \<and> fat_fs (k_fs k') = (mkfs_volume 0 ts)\<lparr>fat_table := tb\<rparr>"
    using s(2-5) by simp
next
  assume d: "no_drive 0 (disk (k_fs k))" "live_inv (kheap (k_vm k)) L"
  obtain h where h: "fat_mount (sh_fat E) 0 0 (fs_of k) = Some (NULL, (fs_of k)\<lparr>fheap := h\<rparr>)" "live_inv h L"
    using no_drive_mount(1) [of 0 "fs_of k" L "sh_fat E" 0] d by (auto simp: fs_of_def)
  obtain h' where h': "tarfs_load (fat_dev (sh_fat E)) 0 0 ((fs_of k)\<lparr>fheap := h\<rparr>) = Some (NULL, (fs_of k)\<lparr>fheap := h'\<rparr>)" "live_inv h' L"
    using no_drive_mount(2) [of 0 "(fs_of k)\<lparr>fheap := h\<rparr>" L "fat_dev (sh_fat E)" 0] d(1) h(2) by (auto simp: fs_of_def)
  from root_ramfs [OF assms h(1) h'(1), of b] obtain u where "mount_root_fs E b k = Some (set_term (put_fs ((fs_of k)\<lparr>fheap := h'\<rparr>) k) u)" by blast
  then show "\<exists>k'. mount_root_fs E b k = Some k' \<and> vfs_root (k_fs k') = vfs_root (k_fs k) \<and> vfs_cwd (k_fs k') = vfs_cwd (k_fs k) \<and>
      nodes (k_fs k') = nodes (k_fs k) \<and> ramfs_dirs (k_fs k') = ramfs_dirs (k_fs k) \<and> live_inv (kheap (k_vm k')) L"
    using h'(2) by (simp add: fs_of_def put_fs_def set_term_def)
qed

text \<open>A kernel that has come up to this point with a formatted disk, and one without a disk.\<close>

definition early_kernel :: "ata_state \<Rightarrow> heap_state \<Rightarrow> kernel_state" where
  "early_kernel a h = (boot_kernel 0x1010 h)\<lparr>k_fs := example_dir\<lparr>disk := a\<rparr>, k_term := terminal_initialize blank_terminal\<rparr>"

definition no_disks :: ata_state where
  "no_disks = \<lparr>drives = replicate 4 zero_drive, io_log = []\<rparr>"

definition formatted_env :: shell_env where
  "formatted_env = demo_env\<lparr>sh_fat := tiny_env\<lparr>fat_dev := pio_disk 10 (image_pio (mkfs_write 7 16500 blank_image))\<rparr>\<rparr>"

lemma early_kernel_fields:
  "term_inv (k_term (early_kernel a h))" "logical_row (k_term (early_kernel a h)) = 0" "disk (k_fs (early_kernel a h)) = a"
  "kheap (k_vm (early_kernel a h)) = h" "vfs_root (k_fs (early_kernel a h)) = 0x1010"
proof -
  show "logical_row (k_term (early_kernel a h)) = 0"
    using newlines_fields [of 0 blank_terminal] by (simp add: early_kernel_def)
qed (simp_all add: early_kernel_def boot_kernel_def example_dir_def initialize_ok)

theorem boot_root_file_system_witness:
  "(\<exists>k'. mount_root_fs formatted_env 0x9000 (early_kernel one_drive mount_heap) = Some k' \<and> vfs_root (k_fs k') = 0x1070 \<and>
     fat_fs (k_fs k') = (mkfs_volume 0 16500)\<lparr>fat_table := 0x2004\<rparr>) \<and>
   (\<exists>k'. mount_root_fs formatted_env 0x9000 (early_kernel no_disks three_block_heap) = Some k' \<and> vfs_root (k_fs k') = 0x1010)"
proof
  let ?i = "mkfs_write 7 16500 blank_image"
  have ts: "16500 = (of_nat (length blank_image div 512) :: u32)" by (simp add: blank_image_sectors)
  have len: "length ?i = 8448000" using mkfs_image(1) [of 16500 blank_image 7] by (simp add: blank_sizes blank_image_sectors)
  have d: "\<forall>n < unat (16500 :: u32). disk_bytes 10 (image_pio ?i) (disk (k_fs (early_kernel one_drive mount_heap))) 0 (of_nat n) = sector_of ?i n"
    using image_pio_bytes [of _ ?i] len by (simp add: early_kernel_fields)
  have e: "fat_dev (sh_fat formatted_env) = pio_disk 10 (image_pio ?i)" by (simp add: formatted_env_def)
  have r: "disk_ready 10 (image_pio ?i) (disk (k_fs (early_kernel one_drive mount_heap))) 0" using image_pio_ready by (simp add: early_kernel_fields)
  have m: "mount_memory (mk_sectors_per_fat 16500) (kheap (k_vm (early_kernel one_drive mount_heap))) = Some (0x2004, 0x1070)"
    by (simp only: early_kernel_fields blank_sizes mount_heap_grants)
  have l: "logical_row (k_term (early_kernel a h)) < 500" for a h by (simp add: early_kernel_fields)
  show "\<exists>k'. mount_root_fs formatted_env 0x9000 (early_kernel one_drive mount_heap) = Some k' \<and> vfs_root (k_fs k') = 0x1070 \<and>
     fat_fs (k_fs k') = (mkfs_volume 0 16500)\<lparr>fat_table := 0x2004\<rparr>"
    using boot_root_file_system [OF early_kernel_fields(1) l [of one_drive mount_heap], of 2 7 blank_image ?i 16500 formatted_env 10 "image_pio ?i" "0x2004" "0x1070" "0x9000"]
      blank_formatted ts d e r m by blast
  have n: "no_drive 0 (disk (k_fs (early_kernel no_disks three_block_heap)))" by (simp add: early_kernel_fields no_drive_def no_disks_def zero_drive_def)
  have v: "live_inv (kheap (k_vm (early_kernel no_disks three_block_heap))) {0x1010, 0x1030, 0x1050}"
    using three_block_heap_live by (simp add: early_kernel_fields)
  show "\<exists>k'. mount_root_fs formatted_env 0x9000 (early_kernel no_disks three_block_heap) = Some k' \<and> vfs_root (k_fs k') = 0x1010"
    using boot_root_file_system [OF early_kernel_fields(1) l [of no_disks three_block_heap]] n v by (metis early_kernel_fields(5))
qed

end
