(* ===== verification/Spec2Isabelle.thy ===== *)
theory Spec2Isabelle
  imports Pmm Keyboard CString Heap HeapStrings Scheduler Vmm RamfsDir RamfsFile Tarfs Terminal Elf FatFile Ai Task Syscall Interrupts ShellLine Boot
begin

text \<open>
  A verification library for OSComplex, a 32-bit x86 kernel in C.

  The program. \<open>kernel_main\<close> (\<open>src/kernel/kernel.c\<close>) brings up the console, the physical memory
  manager (\<open>src/mm/pmm.c\<close>, one bit per 4 KB frame), the page tables (\<open>src/mm/paging.c\<close>,
  \<open>src/mm/vmm.c\<close>), the kernel heap (\<open>src/mm/heap.c\<close>), interrupts (\<open>src/interrupts/\<close>), the keyboard, the timer and the disk driver
  (\<open>src/drivers/\<close>), tasks, the scheduler and system calls (\<open>src/kernel/\<close>), the file systems
  (\<open>src/fs/\<close>) under one virtual file system, the command predictor (\<open>src/ai/ai.c\<close>), and then runs a shell (\<open>src/shell/\<close>). The heap and the
  page tables take frames from the physical memory manager; the file systems and the task structures take memory from the heap; the
  timer interrupt drives the scheduler, the keyboard interrupt fills a ring buffer that the shell reads; the
  ELF loader fills the pages of a new task. A host tool (\<open>src/tools/mkfs.fat.c\<close>) formats the disk.

  The theories, and the sources they model.
  \<^item> \<open>Prelude\<close>: machine integers, constants of \<open>kernel.h\<close>, lemmas on words shared by all. \<open>ByteMem\<close>: little-endian
    values and ranges of bytes in memory.
  \<^item> \<open>Pmm\<close>: \<open>pmm.c\<close> and the memory set-up of \<open>kernel_main\<close>; record \<open>pmm_state\<close>. The locale
    \<open>frame_allocator\<close> is what clients rely on, interpreted as \<open>pmm\<close>. Shown: bitmap and counters agree in
    every reachable state, the lowest free frame is returned, allocating and freeing cancel, frames
    handed out after boot are different and outside the kernel.
  \<^item> \<open>Keyboard\<close>: \<open>keyboard.c\<close>; record \<open>keyboard\<close>; the locale \<open>bounded_queue\<close> is interpreted by the
    ring buffer, and every interleaving of interrupts and reads refines a queue.
  \<^item> \<open>CString\<close>: \<open>string.c\<close> over a byte memory; what copying, comparing, searching and number printing do,
    overlaps and the terminator included; printed numbers can be read back.
  \<^item> \<open>Heap\<close>, \<open>HeapStrings\<close>: \<open>heap.c\<close>, headers in a typed store, the locale \<open>block_allocator\<close>
    interpreted as \<open>kheap\<close>; blocks handed out are disjoint; string duplication over the heap.
  \<^item> \<open>Scheduler\<close>: \<open>scheduler.c\<close> and the life cycle and process tree of \<open>task.c\<close>; the circular queue refines
    a list, states reachable by the operations keep the invariant, who runs next, and that the head of the queue keeps the processor over any
    number of ticks.
  \<^item> \<open>Vmm\<close>: \<open>paging.c\<close>, \<open>vmm.c\<close> and \<open>pagefault.c\<close> over a physical memory of 32-bit words; the locale
    \<open>page_map\<close>: two-level tables refine a map from pages to entries; the processor's translation is \<open>mmu\<close>.
  \<^item> \<open>Ata\<close>: \<open>ata.c\<close>; the disk is a function from the port operations so far to the next value read. The locale \<open>sector_disk\<close> is
    what file systems rely on, interpreted as \<open>pio\<close> on the driver with \<open>pio_disk\<close>, a disk of the documented protocol that takes
    and gives nothing but its status while it is busy: a sector written is read back, whatever the time it stays busy.
  \<^item> \<open>Vfs\<close>, \<open>Ramfs\<close>, \<open>RamfsDir\<close>, \<open>RamfsFile\<close>, \<open>Tarfs\<close>: \<open>vfs.c\<close>, \<open>ramfs.c\<close>, \<open>tarfs.c\<close>; record
    \<open>fs_state\<close>. A file system is a record of operations, as in the code; the locale \<open>vfs_backend\<close> states
    what the descriptor table needs of them and is interpreted on the three file systems; \<open>prompt_backend\<close> adds that opening and closing a
    node return and keep the table. Directories refine maps, written data is read back, archives are parsed in finite time.
  \<^item> \<open>Fat\<close>, \<open>FatChain\<close>, \<open>FatFile\<close>: \<open>fat.c\<close>; table and sectors are bytes of memory that the driver fills; \<open>kernel_optab\<close> are the
    operations of all file systems, interpreted as \<open>kfs\<close> and \<open>kopen\<close>: descriptors stay well formed, the lowest free one is given out and closing frees it. Freeing a chain ends and frees exactly it, a file is read as it was written and other
    files keep their data.
  \<^item> \<open>Mkfs\<close>: \<open>mkfs.fat.c\<close>; what the tool writes is what \<open>fat_mount\<close> reads, and for which sizes its table is long enough.
  \<^item> \<open>Terminal\<close>: \<open>terminal.c\<close>, text memory, scrollback and cursor registers; bounds in every reachable
    state and agreement of the fast path with a full redraw.
  \<^item> \<open>Elf\<close>: \<open>elf.c\<close>; what a page of a segment holds after loading.
  \<^item> \<open>Ai\<close>: \<open>ai.c\<close>; the table of commands is a cache that drops the least recently used one, suggestions are ranked.
  \<^item> \<open>Task\<close>: the rest of \<open>task.c\<close>; record \<open>kernel_state\<close>, the states of the components together. A new task is ready to be switched to, on a stack of its own,
    and a failed creation gives everything back.
  \<^item> \<open>Syscall\<close>: \<open>syscall.c\<close>; dispatch of the interrupt frame (\<open>exec_frame\<close> is what \<open>exec\<close> writes into it through the stack), waiting for children, what \<open>fork\<close> copies.
  \<^item> \<open>Interrupts\<close>: \<open>gdt.c\<close>, \<open>tss.c\<close>, \<open>fpu.c\<close>, the interrupt tables, controller and timer; what the handlers do with the frames of the stubs;
    \<open>irq_resume\<close> is the rest of a handler that a task switch left in the middle.
  \<^item> \<open>Shell\<close>, \<open>ShellLine\<close>, \<open>ShellFile\<close>: \<open>shell.c\<close>, \<open>test_tasks.c\<close>; record \<open>shell_state\<close>. The line editor refines a session of lines, and what
    commands on files and sectors change.
  \<^item> \<open>Boot\<close>: \<open>kernel_main\<close>; record \<open>machine\<close>. The order of the steps, and which file system becomes the root.

  Conventions. Addresses are 32-bit words and arithmetic wraps as in C. Structures that the code reaches by
  pointer live in stores from addresses to records; raw bytes live in a memory \<open>mem\<close>. Static state is a
  record passed through. The stores are typed: freed structures keep their values until the address is used again (so the use of an unlinked node by an
  open descriptor is not an error of the model but a finding), and structures of different types at overlapping addresses, as after a large
  request over frames that do not lie one after the other or for a node of an archive at address 0, do not disturb each other; where a property needs that
  they are apart its text says so. A result of \<open>None\<close> means that the code does not return (a loop without end, a page
  fault where the processor would fault, a division by zero) or that its behaviour is undefined (a store outside an array); a failure that
  the code reports is a value of the result. Loops that need not end are partial functions into \<open>option\<close>, and where a theorem claims
  that they return it says so; there is no fuel. The shell's text and that of \<open>kernel_main\<close> go to the model of the terminal; the messages that other
  components print for the developer are left out. Interrupts between two statements are left out; the interleavings of
  whole handlers are those of the step relations.

  Not modelled: assembly (\<open>src/boot\<close>, \<open>interrupts.s\<close>, \<open>switch.s\<close>), whose effect on registers and stacks is
  taken where C code depends on it, because the development is over C; user programs (\<open>src/user\<close>), which reach the kernel through the
  modelled system calls only; functions that only print, and the busy waits of the shell.
\<close>

end
